(* ===== verification/Prelude.thy ===== *)
theory Prelude
  imports Main "HOL-Library.Word" "HOL-Library.AList"
begin

text \<open>
  Shared material of the development: how Python's exceptions, \<open>assert\<close>
  statements, unbounded integers and insertion-ordered dictionaries are written in HOL,
  the unsigned-range predicates of \<^verbatim>\<open>pmd_net_proto/lib/int_checks.py\<close>, arithmetic on bit
  masks, and the interface \<open>inv_machine\<close> through which every state machine of the
  stack lifts a one-step invariant to whole runs.

  Python integers are \<^typ>\<open>int\<close>: HOL's \<open>AND\<close>, \<open>OR\<close>, \<open>NOT\<close>, \<open>push_bit\<close> and
  \<open>drop_bit\<close> on \<^typ>\<open>int\<close> are the infinite two's complement operations Python has.
  A Python \<open>dict\<close> is an association list: \<open>AList.update\<close> keeps the position of an
  existing key and appends a new one, as insertion order demands.
\<close>

unbundle bit_operations_syntax

section \<open>Errors as values\<close>

text \<open>The exceptions the modelled code raises.\<close>

datatype py_error =
    AssertionError
  | ValueError
  | SanityError
  | FormatError
  | IntegrityError
  | StructError
  | TimeoutError
  | ZeroDivisionError
  | RecursionError
  | IndexError
  | KeyError
  | OverflowError
  | TcpSessionError string

type_synonym bytes = "8 word list"

type_synonym 'a res = "py_error + 'a"

text \<open>An \<open>assert b\<close> statement followed by the rest \<open>k\<close> of the function body.\<close>

definition passert :: "bool \<Rightarrow> 'a res \<Rightarrow> 'a res" where
  "passert b k = (if b then k else Inl AssertionError)"

lemma passert_simps [simp]:
  "passert True k = k"
  "passert False k = Inl AssertionError"
  by (simp_all add: passert_def)

lemma passert_eq_Inr [simp]: "passert b k = Inr v \<longleftrightarrow> b \<and> k = Inr v"
  by (simp add: passert_def)

lemma passert_fcong: "(b \<Longrightarrow> k = k') \<Longrightarrow> passert b k = passert b k'"
  by (simp add: passert_def)

lemma passert_eq_Inl: "passert b k = Inl e \<longleftrightarrow> (\<not> b \<and> e = AssertionError) \<or> (b \<and> k = Inl e)"
  by (auto simp: passert_def)

text \<open>Sequencing of a call that may raise with the rest of the body.\<close>

fun bind_res :: "'a res \<Rightarrow> ('a \<Rightarrow> 'b res) \<Rightarrow> 'b res" where
  "bind_res (Inl e) f = Inl e"
| "bind_res (Inr x) f = f x"

text \<open>Evaluation of a concrete run: the continuation is left alone until the value it takes is known.\<close>

lemma bind_res_weak: "m = m' \<Longrightarrow> bind_res m f = bind_res m' f"
  by simp

lemmas eval_cong = bind_res_weak let_weak_cong prod.case_cong_weak option.case_cong_weak sum.case_cong_weak if_weak_cong

lemma bind_res_eq_Inr [simp]: "bind_res m f = Inr y \<longleftrightarrow> (\<exists>x. m = Inr x \<and> f x = Inr y)"
  by (cases m) auto

lemma bind_res_fcong [fundef_cong]:
  "m = m' \<Longrightarrow> (\<And>x. m' = Inr x \<Longrightarrow> f x = g x) \<Longrightarrow> bind_res m f = bind_res m' g"
  by (cases m') auto

lemma bind_res_eq_Inl: "bind_res m f = Inl e \<longleftrightarrow> m = Inl e \<or> (\<exists>x. m = Inr x \<and> f x = Inl e)"
  by (cases m) auto

text \<open>A loop that yields \<open>f x\<close> for each element, stopped by the first exception.\<close>

fun map_res :: "('a \<Rightarrow> 'b res) \<Rightarrow> 'a list \<Rightarrow> 'b list res" where
  "map_res f [] = Inr []"
| "map_res f (x # xs) = bind_res (f x) (\<lambda>y. bind_res (map_res f xs) (\<lambda>ys. Inr (y # ys)))"

lemma map_res_Inr: "\<forall>x \<in> set xs. f x = Inr (g x) \<Longrightarrow> map_res f xs = Inr (map g xs)"
  by (induction xs) auto

text \<open>\<open>list(range(lo, hi, step))\<close> for a positive step.\<close>

function range_up :: "int \<Rightarrow> int \<Rightarrow> int \<Rightarrow> int list" where
  "range_up lo hi step = (if lo < hi \<and> 0 < step then lo # range_up (lo + step) hi step else [])"
  by auto
termination by (relation "measure (\<lambda>(lo, hi, step). nat (hi - lo))") auto

declare range_up.simps [simp del]

lemma range_up_count:
  "0 < step \<Longrightarrow> range_up lo (lo + int n * step) step = map (\<lambda>i. lo + int i * step) [0..<n]"
proof (induction n arbitrary: lo)
  case 0
  then show ?case by (simp add: range_up.simps)
next
  case (Suc n)
  have "range_up lo (lo + int (Suc n) * step) step =
      lo # range_up (lo + step) (lo + step + int n * step) step"
    using Suc.prems by (simp add: range_up.simps [of lo] algebra_simps add_pos_nonneg)
  also have "\<dots> = lo # map (\<lambda>i. lo + step + int i * step) [0..<n]" by (simp add: Suc)
  also have "\<dots> = map (\<lambda>i. lo + int i * step) [0..<Suc n]"
  proof -
    have "[0..<Suc n] = 0 # map Suc [0..<n]" by (simp add: upt_conv_Cons map_Suc_upt del: upt_Suc)
    then show ?thesis by (simp add: algebra_simps del: upt_Suc)
  qed
  finally show ?case .
qed

section \<open>Fact collections\<close>

text \<open>
  \<open>seq_simps\<close>: modular comparisons restated on forward distances;
  \<open>inv_intros\<close>: one-step preservation lemmas of the state machines.
\<close>

named_theorems seq_simps "modular sequence comparisons as comparisons of forward distances"
named_theorems inv_intros "one-step preservation lemmas"

section \<open>Unsigned range checks\<close>

definition is_uint2 :: "int \<Rightarrow> bool" where "is_uint2 x \<longleftrightarrow> 0 \<le> x \<and> x \<le> 0x03"
definition is_uint4 :: "int \<Rightarrow> bool" where "is_uint4 x \<longleftrightarrow> 0 \<le> x \<and> x \<le> 0xF"
definition is_uint6 :: "int \<Rightarrow> bool" where "is_uint6 x \<longleftrightarrow> 0 \<le> x \<and> x \<le> 0x3F"
definition is_uint8 :: "int \<Rightarrow> bool" where "is_uint8 x \<longleftrightarrow> 0 \<le> x \<and> x \<le> 0xFF"
definition is_uint13 :: "int \<Rightarrow> bool" where "is_uint13 x \<longleftrightarrow> 0 \<le> x \<and> x \<le> 0x1FFF"
definition is_uint16 :: "int \<Rightarrow> bool" where "is_uint16 x \<longleftrightarrow> 0 \<le> x \<and> x \<le> 0xFFFF"
definition is_uint20 :: "int \<Rightarrow> bool" where "is_uint20 x \<longleftrightarrow> 0 \<le> x \<and> x \<le> 0xFFFFF"
definition is_uint24 :: "int \<Rightarrow> bool" where "is_uint24 x \<longleftrightarrow> 0 \<le> x \<and> x \<le> 0xFFFFFF"
definition is_uint32 :: "int \<Rightarrow> bool" where "is_uint32 x \<longleftrightarrow> 0 \<le> x \<and> x \<le> 0xFFFFFFFF"
definition is_4_byte_alligned :: "int \<Rightarrow> bool" where "is_4_byte_alligned x \<longleftrightarrow> x mod 4 = 0"
definition is_8_byte_alligned :: "int \<Rightarrow> bool" where "is_8_byte_alligned x \<longleftrightarrow> x mod 8 = 0"

lemmas uint_checks =
  is_uint2_def is_uint4_def is_uint6_def is_uint8_def is_uint13_def is_uint16_def
  is_uint20_def is_uint24_def is_uint32_def

section \<open>Dictionaries\<close>

lemma update_new: "k \<notin> fst ` set al \<Longrightarrow> AList.update k v al = al @ [(k, v)]"
  by (induction al) auto

lemma set_update_distinct:
  "distinct (map fst al) \<Longrightarrow> set (AList.update k v al) = insert (k, v) {x \<in> set al. fst x \<noteq> k}"
proof (induction al)
  case (Cons x al)
  obtain k' v' where x: "x = (k', v')" by (cases x)
  have "fst y \<noteq> k'" if "y \<in> set al" for y using Cons.prems that by (auto simp: x)
  then show ?case using Cons by (auto simp: x)
qed simp

lemma set_update_subset: "set (AList.update k v al) \<subseteq> insert (k, v) (set al)"
  by (induction al) auto

lemma map_of_filter_value:
  "distinct (map fst al) \<Longrightarrow>
   map_of (filter (\<lambda>(k, v). P v) al) k =
     (case map_of al k of Some v \<Rightarrow> if P v then Some v else None | None \<Rightarrow> None)"
proof (induction al)
  case (Cons kv al)
  obtain k' v' where kv: "kv = (k', v')" by (cases kv)
  have "map_of al k = None" if "k = k'" using Cons.prems that by (simp add: kv map_of_eq_None_iff)
  then show ?case using Cons by (auto simp: kv split: option.splits)
qed simp

lemma distinct_fst_filter: "distinct (map fst al) \<Longrightarrow> distinct (map fst (filter P al))"
  by (rule distinct_map_filter)

section \<open>Masks and modular arithmetic\<close>

lemma and_mask_mod: "x AND (2 ^ n - 1) = x mod 2 ^ n" for x :: int
  by (simp flip: take_bit_eq_mask take_bit_eq_mod mask_eq_exp_minus_1)

lemma push_bit_or: "push_bit n x OR y = 2 ^ n * x + y" if "0 \<le> y" "y < 2 ^ n" for x y :: int
proof -
  have "take_bit n y = y" using that by (simp add: take_bit_int_eq_self)
  then have "push_bit n x OR y = concat_bit n y x" by (simp add: concat_bit_def or.commute)
  also have "\<dots> = 2 ^ n * x + y" using \<open>take_bit n y = y\<close> by (simp add: concat_bit_eq push_bit_eq_mult)
  finally show ?thesis .
qed

lemma and_mask16: "x AND 0xFFFF = x mod 65536" for x :: int
  using and_mask_mod [of x 16] by simp

lemma and_mask24: "x AND 0xFFFFFF = x mod 16777216" for x :: int
  using and_mask_mod [of x 24] by simp

lemma and_mask32: "x AND 0xFFFFFFFF = x mod 4294967296" for x :: int
  using and_mask_mod [of x 32] by simp

lemma and_mask64: "x AND 0xFFFFFFFFFFFFFFFF = x mod 18446744073709551616" for x :: int
  using and_mask_mod [of x 64] by simp

lemma not_and_mask: "NOT m AND (2 ^ w - 1) = 2 ^ w - 1 - m"
  if "0 \<le> m" "m < 2 ^ w" for m :: int
proof -
  have "NOT m AND (2 ^ w - 1) = (- m - 1) mod 2 ^ w"
    by (simp add: and_mask_mod not_int_def)
  also have "\<dots> = (2 ^ w - 1 - m) mod 2 ^ w"
    using mod_add_self1 [of "2 ^ w" "- m - 1"] by (simp add: algebra_simps)
  finally show ?thesis using that by simp
qed

lemma mod32_diff:
  fixes x y :: int
  assumes "0 \<le> x" "x < 4294967296" "0 \<le> y" "y < 4294967296"
  shows "(y - x) mod 4294967296 = (if x \<le> y then y - x else y - x + 4294967296)"
proof (cases "x \<le> y")
  case True
  then show ?thesis using assms by simp
next
  case False
  have "(y - x) mod 4294967296 = (y - x + 4294967296) mod 4294967296" by simp
  also have "\<dots> = y - x + 4294967296"
    using assms False by (intro mod_pos_pos_trivial) linarith+
  finally show ?thesis using False by simp
qed

lemma uint32_bounds: "0 \<le> uint (x :: 32 word)" "uint (x :: 32 word) < 4294967296"
  using uint_ge_0 [of x] uint_lt2p [of x] by simp_all

lemma is_uint32_uint [simp]: "is_uint32 (uint (x :: 32 word))"
  using uint32_bounds [of x] by (simp add: is_uint32_def)

text \<open>Case analysis on a 32-bit word as an integer variable with its bounds.\<close>

lemma word32_cases:
  obtains i where "uint (x :: 32 word) = i" "0 \<le> i" "i < 4294967296"
  using uint32_bounds by blast

section \<open>State machines with an invariant\<close>

text \<open>
  A component whose operations are steps \<open>step e s\<close> and that keeps \<open>inv\<close>. Each
  machine of the stack interprets this once; runs of any length then keep the invariant.
\<close>

locale inv_machine =
  fixes step :: "'e \<Rightarrow> 's \<Rightarrow> 's"
    and ok :: "'e \<Rightarrow> bool"
    and inv :: "'s \<Rightarrow> bool"
  assumes step_inv: "inv s \<Longrightarrow> ok e \<Longrightarrow> inv (step e s)"
begin

lemma run_inv: "inv s \<Longrightarrow> list_all ok es \<Longrightarrow> inv (fold step es s)"
  by (induction es arbitrary: s) (auto intro: step_inv)

lemma run_prefix_inv: "inv s \<Longrightarrow> list_all ok (es @ fs) \<Longrightarrow> inv (fold step es s)"
  by (rule run_inv) auto

end

text \<open>A machine whose steps also never decrease a measured quantity.\<close>

locale mono_machine = inv_machine step ok inv
  for step :: "'e \<Rightarrow> 's \<Rightarrow> 's" and ok :: "'e \<Rightarrow> bool" and inv :: "'s \<Rightarrow> bool" +
  fixes level :: "'s \<Rightarrow> int"
  assumes step_mono: "inv s \<Longrightarrow> ok e \<Longrightarrow> level s \<le> level (step e s)"
begin

lemma run_mono: "inv s \<Longrightarrow> list_all ok es \<Longrightarrow> level s \<le> level (fold step es s)"
proof (induction es arbitrary: s)
  case Nil
  then show ?case by simp
next
  case (Cons e es)
  then have "level s \<le> level (step e s)" and "inv (step e s)"
    by (auto intro: step_mono step_inv)
  with Cons.IH [of "step e s"] Cons.prems(2) show ?case by simp
qed

end

end
