(* ===== verification/Tcp_Seq.thy ===== *)
theory Tcp_Seq
  imports Prelude
begin

text \<open>
  \<^verbatim>\<open>protocols/tcp/tcp__seq.py\<close>: comparison and arithmetic on 32-bit TCP sequence
  numbers (RFC 9293 section 3.4).

  The helpers are given twice. The \<open>py_\<close> definitions are the Python functions on
  unbounded integers, with their \<open>assert\<close> statements as error branches. The definitions
  with the source's own names work on \<open>32 word\<close>, where the asserted range holds by
  typing; every other theory uses these. The refinement lemmas relate the two.

  \<open>fwd u x\<close>, the forward distance from \<open>u\<close> to \<open>x\<close>, is the abstraction the lemmas are
  stated with: inside one half of the sequence space above \<open>u\<close>, \<open>lt32\<close> is the order of
  the distances, so modular order is the order of the unbounded byte stream.
\<close>

type_synonym seq32 = "32 word"

definition SEQ32__HALF :: int where
  "SEQ32__HALF = 0x80000000"

section \<open>The functions on Python integers\<close>

definition py_lt32 :: "int \<Rightarrow> int \<Rightarrow> bool res" where
  "py_lt32 a b =
     passert (is_uint32 a) (passert (is_uint32 b)
       (let diff = (b - a) AND 0xFFFFFFFF in
        Inr (if diff = SEQ32__HALF then a < b else 0 < diff \<and> diff < SEQ32__HALF)))"

definition py_le32 :: "int \<Rightarrow> int \<Rightarrow> bool res" where
  "py_le32 a b =
     passert (is_uint32 a) (passert (is_uint32 b)
       (let diff = (b - a) AND 0xFFFFFFFF in
        Inr (if diff = SEQ32__HALF then a < b else diff < SEQ32__HALF)))"

definition py_gt32 :: "int \<Rightarrow> int \<Rightarrow> bool res" where
  "py_gt32 a b = py_lt32 b a"

definition py_ge32 :: "int \<Rightarrow> int \<Rightarrow> bool res" where
  "py_ge32 a b = py_le32 b a"

definition py_add32 :: "int \<Rightarrow> int list \<Rightarrow> int" where
  "py_add32 a rest = (a + sum_list rest) AND 0xFFFFFFFF"

definition py_sub32 :: "int \<Rightarrow> int \<Rightarrow> int" where
  "py_sub32 a n = (a - n) AND 0xFFFFFFFF"

definition py_in_range32 :: "int \<Rightarrow> int \<Rightarrow> int \<Rightarrow> bool res" where
  "py_in_range32 x lo hi =
     passert (is_uint32 x) (passert (is_uint32 lo) (passert (is_uint32 hi)
       (Inr ((x - lo) AND 0xFFFFFFFF \<le> (hi - lo) AND 0xFFFFFFFF))))"

section \<open>The functions on 32-bit words\<close>

definition lt32 :: "seq32 \<Rightarrow> seq32 \<Rightarrow> bool" where
  "lt32 a b =
     (let diff = b - a in
      if diff = 0x80000000 then a < b else 0 < diff \<and> diff < 0x80000000)"

definition le32 :: "seq32 \<Rightarrow> seq32 \<Rightarrow> bool" where
  "le32 a b =
     (let diff = b - a in
      if diff = 0x80000000 then a < b else diff < 0x80000000)"

definition gt32 :: "seq32 \<Rightarrow> seq32 \<Rightarrow> bool" where
  "gt32 a b = lt32 b a"

definition ge32 :: "seq32 \<Rightarrow> seq32 \<Rightarrow> bool" where
  "ge32 a b = le32 b a"

definition add32 :: "seq32 \<Rightarrow> int list \<Rightarrow> seq32" where
  "add32 a rest = a + of_int (sum_list rest)"

definition sub32 :: "seq32 \<Rightarrow> int \<Rightarrow> seq32" where
  "sub32 a n = a - of_int n"

definition in_range32 :: "seq32 \<Rightarrow> seq32 \<Rightarrow> seq32 \<Rightarrow> bool" where
  "in_range32 x lo hi \<longleftrightarrow> x - lo \<le> hi - lo"

section \<open>Forward distances\<close>

definition fwd :: "seq32 \<Rightarrow> seq32 \<Rightarrow> int" where
  "fwd u x = uint (x - u)"

lemma fwd_mod: "fwd u x = (uint x - uint u) mod 4294967296"
  by (simp add: fwd_def uint_word_ariths)

lemma fwd_eq:
  "fwd u x = (if uint u \<le> uint x then uint x - uint u else uint x - uint u + 4294967296)"
  unfolding fwd_mod by (rule mod32_diff) (use uint32_bounds in auto)

lemma fwd_bounds: "0 \<le> fwd u x" "fwd u x < 4294967296"
  using uint32_bounds [of "x - u"] by (simp_all only: fwd_def)

lemma fwd_nonneg [simp]: "0 \<le> fwd u x"
  by (rule fwd_bounds)

lemma fwd_self [simp]: "fwd u u = 0"
  by (simp add: fwd_def)

lemma fwd_inject [simp]: "fwd u x = fwd u y \<longleftrightarrow> x = y"
  by (simp add: fwd_def flip: word_uint_eq_iff)

lemma fwd_eq_0 [simp]: "fwd u x = 0 \<longleftrightarrow> x = u"
  using fwd_inject [of u x u] by simp

lemma fwd_add: "fwd u (x + of_int n) = (fwd u x + n) mod 4294967296"
  by (simp add: fwd_def uint_word_ariths uint_word_of_int mod_simps algebra_simps)

lemma lt32_iff:
  "lt32 a b \<longleftrightarrow>
     (if fwd a b = 2147483648 then uint a < uint b else 0 < fwd a b \<and> fwd a b < 2147483648)"
  by (simp add: lt32_def Let_def fwd_def word_less_def word_uint_eq_iff)

lemma le32_iff:
  "le32 a b \<longleftrightarrow>
     (if fwd a b = 2147483648 then uint a < uint b else fwd a b < 2147483648)"
  by (simp add: le32_def Let_def fwd_def word_less_def word_uint_eq_iff)

lemma in_range32_iff: "in_range32 x lo hi \<longleftrightarrow> fwd lo x \<le> fwd lo hi"
  by (simp add: in_range32_def fwd_def word_le_def)

section \<open>The two presentations agree\<close>

lemma py_lt32_uint: "py_lt32 (uint a) (uint b) = Inr (lt32 a b)"
  by (simp add: py_lt32_def lt32_iff Let_def SEQ32__HALF_def and_mask32 fwd_mod)

lemma py_le32_uint: "py_le32 (uint a) (uint b) = Inr (le32 a b)"
  by (simp add: py_le32_def le32_iff Let_def SEQ32__HALF_def and_mask32 fwd_mod)

lemma py_in_range32_uint: "py_in_range32 (uint x) (uint lo) (uint hi) = Inr (in_range32 x lo hi)"
  by (simp add: py_in_range32_def in_range32_iff and_mask32 fwd_mod)

lemma py_add32_uint: "py_add32 (uint a) ns = uint (add32 a ns)"
  by (simp add: py_add32_def add32_def and_mask32 uint_word_ariths uint_word_of_int mod_simps)

lemma py_sub32_uint: "py_sub32 (uint a) n = uint (sub32 a n)"
  by (simp add: py_sub32_def sub32_def and_mask32 uint_word_ariths uint_word_of_int mod_simps)

lemma py_lt32_range:
  "py_lt32 a b = Inl AssertionError \<longleftrightarrow> \<not> (is_uint32 a \<and> is_uint32 b)"
  by (simp add: py_lt32_def Let_def passert_def)

section \<open>Order properties\<close>

lemma lt32_irrefl [simp]: "\<not> lt32 a a"
  by (simp add: lt32_iff)

lemma le32_refl [simp]: "le32 a a"
  by (simp add: le32_iff)

lemma le32_lt32: "le32 a b \<longleftrightarrow> a = b \<or> lt32 a b"
  by (auto simp: le32_iff lt32_iff intro: le_neq_trans)

lemma lt32_total: "a = b \<or> lt32 a b \<or> lt32 b a"
  unfolding lt32_iff fwd_eq word_uint_eq_iff
  by (rule word32_cases [of a]; rule word32_cases [of b]; simp; linarith)

lemma lt32_asym: "lt32 a b \<Longrightarrow> \<not> lt32 b a"
  unfolding lt32_iff fwd_eq
  by (rule word32_cases [of a]; rule word32_cases [of b]; simp split: if_splits; linarith)

lemma not_lt32: "\<not> lt32 a b \<longleftrightarrow> le32 b a"
  using lt32_total [of a b] lt32_asym [of a b] by (auto simp: le32_lt32)

text \<open>Inside the half space above \<open>u\<close> the modular order is the order of distances.\<close>

lemma lt32_fwd [seq_simps]:
  assumes "fwd u a < 2147483648" "fwd u b < 2147483648"
  shows "lt32 a b \<longleftrightarrow> fwd u a < fwd u b"
  using assms unfolding lt32_iff fwd_eq
  by (rule_tac word32_cases [of a]; rule_tac word32_cases [of b]; rule_tac word32_cases [of u];
      simp split: if_splits; linarith)

lemma le32_fwd [seq_simps]:
  assumes "fwd u a < 2147483648" "fwd u b < 2147483648"
  shows "le32 a b \<longleftrightarrow> fwd u a \<le> fwd u b"
proof -
  have "a = b \<longleftrightarrow> fwd u a = fwd u b" by simp
  then show ?thesis
    using lt32_fwd [OF assms] by (simp add: le32_lt32 order_le_less disj_commute)
qed

lemma fwd_rebase:
  assumes "fwd u v \<le> fwd u x"
  shows "fwd v x = fwd u x - fwd u v"
  using assms unfolding fwd_eq
  by (rule_tac word32_cases [of u]; rule_tac word32_cases [of v]; rule_tac word32_cases [of x];
      simp split: if_splits; linarith)

lemma fwd_rebase_back:
  assumes "fwd u x < fwd u v"
  shows "fwd v x = fwd u x - fwd u v + 4294967296"
  using assms unfolding fwd_eq
  by (rule_tac word32_cases [of u]; rule_tac word32_cases [of v]; rule_tac word32_cases [of x];
      simp split: if_splits; linarith)

text \<open>A non-empty half-open block \<open>[l, r)\<close> tested with an inclusive range ending at \<open>r - 1\<close>.\<close>

lemma fwd_sub1: "l \<noteq> r \<Longrightarrow> fwd l (sub32 r 1) = fwd l r - 1"
proof -
  assume "l \<noteq> r"
  then have "fwd l r \<noteq> 0" by auto
  then have "1 \<le> fwd l r" using fwd_nonneg [of l r] by linarith
  moreover have "fwd l (sub32 r 1) = (fwd l r - 1) mod 4294967296"
    using fwd_add [of l r "-1"] by (simp add: sub32_def)
  ultimately show ?thesis using fwd_bounds(2) [of l r] by simp
qed

lemma in_block32 [seq_simps]:
  assumes "fwd u l < fwd u r"
  shows "in_range32 x l (sub32 r 1) \<longleftrightarrow> fwd u l \<le> fwd u x \<and> fwd u x < fwd u r"
proof -
  have "l \<noteq> r" using assms by auto
  then have "in_range32 x l (sub32 r 1) \<longleftrightarrow> fwd l x < fwd l r"
    by (simp add: in_range32_iff fwd_sub1)
  moreover have "fwd l r = fwd u r - fwd u l" using assms by (intro fwd_rebase) simp
  ultimately show ?thesis
    using fwd_rebase [of u l x] fwd_rebase_back [of u x l] fwd_bounds [of u x] fwd_bounds [of u r]
      fwd_bounds [of u l]
    by (cases "fwd u l \<le> fwd u x") auto
qed

section \<open>Properties\<close>

text \<open>
  Modular comparison is the comparison of stream positions. Number the bytes of a
  connection from its initial sequence number \<open>iss\<close> by unbounded integers: as long as
  two positions lie less than half the sequence space apart, \<open>lt32\<close>, \<open>le32\<close>, \<open>gt32\<close>
  and \<open>ge32\<close> on their 32-bit sequence numbers, wrapped any number of times, order them
  exactly as the positions are ordered.
\<close>

theorem seq_compare_stream:
  assumes "\<bar>n - m\<bar> < 2147483648"
  shows "(lt32 (iss + of_int m) (iss + of_int n) \<longleftrightarrow> m < n) \<and>
         (le32 (iss + of_int m) (iss + of_int n) \<longleftrightarrow> m \<le> n) \<and>
         (gt32 (iss + of_int m) (iss + of_int n) \<longleftrightarrow> m > n) \<and>
         (ge32 (iss + of_int m) (iss + of_int n) \<longleftrightarrow> m \<ge> n)"
proof -
  define lo where "lo = min m n"
  have pos: "fwd (iss + of_int lo) (iss + of_int k) = k - lo"
    if "lo \<le> k" "k - lo < 2147483648" for k
    using that fwd_add [of "iss + of_int lo" "iss + of_int lo" "k - lo"]
    by (simp add: algebra_simps)
  have bounds: "m - lo < 2147483648" "n - lo < 2147483648" "lo \<le> m" "lo \<le> n"
    using assms by (auto simp: lo_def)
  have m: "fwd (iss + of_int lo) (iss + of_int m) = m - lo" by (rule pos) (rule bounds)+
  have n: "fwd (iss + of_int lo) (iss + of_int n) = n - lo" by (rule pos) (rule bounds)+
  show ?thesis
    using bounds lt32_fwd [of "iss + of_int lo" "iss + of_int m" "iss + of_int n"]
      lt32_fwd [of "iss + of_int lo" "iss + of_int n" "iss + of_int m"]
      le32_fwd [of "iss + of_int lo" "iss + of_int m" "iss + of_int n"]
      le32_fwd [of "iss + of_int lo" "iss + of_int n" "iss + of_int m"]
    by (simp add: m n gt32_def ge32_def)
qed

theorem seq_compare_stream_witness:
  "\<bar>8 - (5::int)\<bar> < 2147483648 \<and> lt32 (0xFFFFFFF8 + of_int 5) (0xFFFFFFF8 + of_int 8)"
  using seq_compare_stream [of 8 5 "0xFFFFFFF8"] by simp

end
