(* ===== verification/Tcp_Hystart.thy ===== *)
theory Tcp_Hystart
  imports Tcp_Seq
begin

text \<open>
  \<^verbatim>\<open>protocols/tcp/tcp__hystart.py\<close> (RFC 9406 HyStart++) together with the three places the
  session drives it from: a round-trip sample followed by the phase check
  (\<^verbatim>\<open>TcpSession._hystart_check_phase_transition\<close>), the round boundary on a cumulative ACK
  and the Conservative Slow Start growth (both in \<^verbatim>\<open>session/tcp__session__ack.py\<close>).

  The state is a machine whose events are samples, acknowledgments and window changes made
  by the rest of the session; the invariant ties the round counter and the baseline to the
  phase, and the phase is bounded by \<open>HYSTART__CSS_ROUNDS\<close> rounds.
\<close>

definition HYSTART__MIN_RTT_THRESH_MS :: int where "HYSTART__MIN_RTT_THRESH_MS = 4"
definition HYSTART__MAX_RTT_THRESH_MS :: int where "HYSTART__MAX_RTT_THRESH_MS = 16"
definition HYSTART__MIN_RTT_DIVISOR :: int where "HYSTART__MIN_RTT_DIVISOR = 8"
definition HYSTART__N_RTT_SAMPLE :: int where "HYSTART__N_RTT_SAMPLE = 8"
definition HYSTART__CSS_GROWTH_DIVISOR :: int where "HYSTART__CSS_GROWTH_DIVISOR = 4"
definition HYSTART__CSS_ROUNDS :: int where "HYSTART__CSS_ROUNDS = 5"
definition HYSTART__RTT_INFINITY :: int where "HYSTART__RTT_INFINITY = - 1"

lemmas hystart_consts = HYSTART__MIN_RTT_THRESH_MS_def HYSTART__MAX_RTT_THRESH_MS_def
  HYSTART__MIN_RTT_DIVISOR_def HYSTART__N_RTT_SAMPLE_def HYSTART__CSS_GROWTH_DIVISOR_def
  HYSTART__CSS_ROUNDS_def HYSTART__RTT_INFINITY_def

record hystart_state =
  last_round_min_rtt_ms :: int
  current_round_min_rtt_ms :: int
  rtt_sample_count :: int
  window_end_seq :: seq32
  in_css :: bool
  css_baseline_min_rtt_ms :: int
  css_rounds_remaining :: int

definition hystart_init :: hystart_state where
  "hystart_init =
     \<lparr>last_round_min_rtt_ms = HYSTART__RTT_INFINITY, current_round_min_rtt_ms = HYSTART__RTT_INFINITY,
      rtt_sample_count = 0, window_end_seq = 0, in_css = False,
      css_baseline_min_rtt_ms = HYSTART__RTT_INFINITY, css_rounds_remaining = 0\<rparr>"

definition rtt_thresh_ms :: "int \<Rightarrow> int res" where
  "rtt_thresh_ms last_round_min_rtt =
     passert (last_round_min_rtt \<ge> 0)
       (Inr (max HYSTART__MIN_RTT_THRESH_MS
         (min (last_round_min_rtt div HYSTART__MIN_RTT_DIVISOR) HYSTART__MAX_RTT_THRESH_MS)))"

definition should_exit_slow_start_to_css :: "hystart_state \<Rightarrow> bool res" where
  "should_exit_slow_start_to_css st =
     (if in_css st then Inr False
      else if rtt_sample_count st < HYSTART__N_RTT_SAMPLE then Inr False
      else if current_round_min_rtt_ms st = HYSTART__RTT_INFINITY then Inr False
      else if last_round_min_rtt_ms st = HYSTART__RTT_INFINITY then Inr False
      else bind_res (rtt_thresh_ms (last_round_min_rtt_ms st)) (\<lambda>threshold.
        Inr (current_round_min_rtt_ms st \<ge> last_round_min_rtt_ms st + threshold)))"

definition should_resume_slow_start_from_css :: "hystart_state \<Rightarrow> bool" where
  "should_resume_slow_start_from_css st =
     (if \<not> in_css st then False
      else if rtt_sample_count st < HYSTART__N_RTT_SAMPLE then False
      else if current_round_min_rtt_ms st = HYSTART__RTT_INFINITY then False
      else if css_baseline_min_rtt_ms st = HYSTART__RTT_INFINITY then False
      else current_round_min_rtt_ms st < css_baseline_min_rtt_ms st)"

definition css_growth_increment :: "int \<Rightarrow> int \<Rightarrow> int res" where
  "css_growth_increment bytes_acked smss =
     passert (bytes_acked \<ge> 0) (passert (smss > 0)
       (Inr (min bytes_acked smss div HYSTART__CSS_GROWTH_DIVISOR)))"

definition fold_rtt_sample :: "hystart_state \<Rightarrow> int \<Rightarrow> hystart_state res" where
  "fold_rtt_sample st rtt_ms =
     passert (rtt_ms \<ge> 0)
       (Inr (st\<lparr>current_round_min_rtt_ms :=
                 (if current_round_min_rtt_ms st = HYSTART__RTT_INFINITY then rtt_ms
                  else min (current_round_min_rtt_ms st) rtt_ms),
               rtt_sample_count := rtt_sample_count st + 1\<rparr>))"

definition rotate_round :: "hystart_state \<Rightarrow> seq32 \<Rightarrow> hystart_state" where
  "rotate_round st new_window_end_seq =
     (let st' = st\<lparr>last_round_min_rtt_ms := current_round_min_rtt_ms st,
                   current_round_min_rtt_ms := HYSTART__RTT_INFINITY,
                   rtt_sample_count := 0,
                   window_end_seq := new_window_end_seq\<rparr> in
      if in_css st' \<and> css_rounds_remaining st' > 0
      then st'\<lparr>css_rounds_remaining := css_rounds_remaining st' - 1\<rparr> else st')"

definition enter_css :: "hystart_state \<Rightarrow> hystart_state" where
  "enter_css st =
     st\<lparr>in_css := True, css_baseline_min_rtt_ms := current_round_min_rtt_ms st,
        css_rounds_remaining := HYSTART__CSS_ROUNDS\<rparr>"

definition resume_slow_start :: "hystart_state \<Rightarrow> hystart_state" where
  "resume_slow_start st =
     st\<lparr>in_css := False, css_baseline_min_rtt_ms := HYSTART__RTT_INFINITY, css_rounds_remaining := 0\<rparr>"

section \<open>The session's use\<close>

text \<open>The window fields of \<^verbatim>\<open>CcState\<close> that the hooks read and write, beside the HyStart state.\<close>

record hystart_session =
  hystart :: hystart_state
  hs_cwnd :: int
  hs_ssthresh :: int

definition hystart_check_phase_transition :: "hystart_state \<Rightarrow> hystart_state res" where
  "hystart_check_phase_transition st =
     bind_res (should_exit_slow_start_to_css st) (\<lambda>exit.
       Inr (if exit then enter_css st
            else if should_resume_slow_start_from_css st then resume_slow_start st else st))"

definition harvest_rtt :: "hystart_session \<Rightarrow> int \<Rightarrow> hystart_session res" where
  "harvest_rtt s rtt_ms =
     (if hs_cwnd s < hs_ssthresh s \<or> in_css (hystart s)
      then bind_res (fold_rtt_sample (hystart s) rtt_ms) (\<lambda>h.
        bind_res (hystart_check_phase_transition h) (\<lambda>h'. Inr (s\<lparr>hystart := h'\<rparr>)))
      else Inr s)"

definition round_boundary :: "hystart_session \<Rightarrow> seq32 \<Rightarrow> seq32 \<Rightarrow> hystart_session" where
  "round_boundary s snd_una snd_nxt =
     (if hs_cwnd s < hs_ssthresh s then
        if window_end_seq (hystart s) = 0 then s\<lparr>hystart := (hystart s)\<lparr>window_end_seq := snd_nxt\<rparr>\<rparr>
        else if \<not> lt32 snd_una (window_end_seq (hystart s)) then
          (let h = rotate_round (hystart s) snd_nxt in
           if in_css h \<and> css_rounds_remaining h = 0
           then s\<lparr>hystart := resume_slow_start h, hs_ssthresh := hs_cwnd s\<rparr>
           else s\<lparr>hystart := h\<rparr>)
        else s
      else s)"

section \<open>The machine\<close>

datatype hystart_event = RttSample int | AckRound seq32 seq32 | WindowChange int int

definition hystart_step :: "hystart_event \<Rightarrow> hystart_session \<Rightarrow> hystart_session" where
  "hystart_step ev s =
     (case ev of
        RttSample rtt \<Rightarrow> (case harvest_rtt s rtt of Inl _ \<Rightarrow> s | Inr s' \<Rightarrow> s')
      | AckRound una nxt \<Rightarrow> round_boundary s una nxt
      | WindowChange c t \<Rightarrow> s\<lparr>hs_cwnd := c, hs_ssthresh := t\<rparr>)"

definition hystart_event_ok :: "hystart_event \<Rightarrow> bool" where
  "hystart_event_ok ev = (case ev of RttSample rtt \<Rightarrow> 0 \<le> rtt | _ \<Rightarrow> True)"

definition hystart_inv :: "hystart_session \<Rightarrow> bool" where
  "hystart_inv s \<longleftrightarrow>
     (let h = hystart s in
      - 1 \<le> last_round_min_rtt_ms h \<and> - 1 \<le> current_round_min_rtt_ms h \<and> 0 \<le> rtt_sample_count h \<and>
      (rtt_sample_count h = 0 \<longleftrightarrow> current_round_min_rtt_ms h = - 1) \<and>
      (if in_css h then 1 \<le> css_rounds_remaining h \<and> css_rounds_remaining h \<le> 5 \<and> 0 \<le> css_baseline_min_rtt_ms h
       else css_rounds_remaining h = 0 \<and> css_baseline_min_rtt_ms h = - 1))"

lemma should_exit_total:
  "- 1 \<le> last_round_min_rtt_ms h \<Longrightarrow> \<exists>b. should_exit_slow_start_to_css h = Inr b"
  by (auto simp: should_exit_slow_start_to_css_def rtt_thresh_ms_def hystart_consts)

lemma harvest_rtt_total:
  assumes "hystart_inv s" "0 \<le> rtt"
  shows "\<exists>s'. harvest_rtt s rtt = Inr s' \<and> hystart_inv s' \<and> hs_cwnd s' = hs_cwnd s \<and> hs_ssthresh s' = hs_ssthresh s"
proof -
  obtain h where h: "fold_rtt_sample (hystart s) rtt = Inr h" using assms(2) by (simp add: fold_rtt_sample_def)
  have inv: "hystart_inv (s\<lparr>hystart := h\<rparr>)" and cur: "0 \<le> current_round_min_rtt_ms h"
    using assms h by (auto simp: hystart_inv_def fold_rtt_sample_def Let_def hystart_consts)
  from should_exit_total [of h] inv obtain b where b: "should_exit_slow_start_to_css h = Inr b"
    by (auto simp: hystart_inv_def Let_def)
  have "\<not> in_css h" if b using b that by (auto simp: should_exit_slow_start_to_css_def split: if_splits)
  then show ?thesis
    using assms(1) inv cur h b
    by (auto simp: harvest_rtt_def hystart_check_phase_transition_def hystart_inv_def Let_def
      enter_css_def resume_slow_start_def hystart_consts)
qed

lemma round_boundary_inv: "hystart_inv s \<Longrightarrow> hystart_inv (round_boundary s una nxt)"
  by (auto simp: hystart_inv_def round_boundary_def rotate_round_def resume_slow_start_def Let_def hystart_consts)

lemma hystart_step_inv [inv_intros]:
  "hystart_inv s \<Longrightarrow> hystart_event_ok e \<Longrightarrow> hystart_inv (hystart_step e s)"
proof (cases e)
  case (RttSample rtt)
  assume "hystart_inv s" "hystart_event_ok e"
  then show ?thesis using harvest_rtt_total [of s rtt] RttSample by (auto simp: hystart_step_def hystart_event_ok_def)
next
  case (AckRound una nxt)
  assume "hystart_inv s"
  then show ?thesis using AckRound by (simp add: hystart_step_def round_boundary_inv)
qed (simp add: hystart_step_def hystart_inv_def)

interpretation hystart: inv_machine hystart_step hystart_event_ok hystart_inv
  by unfold_locales (rule inv_intros)

section \<open>Rounds in Conservative Slow Start\<close>

text \<open>An acknowledgment that ends the round, and the number of them in a run.\<close>

definition ends_round :: "hystart_event \<Rightarrow> hystart_session \<Rightarrow> bool" where
  "ends_round ev s =
     (case ev of
        AckRound una nxt \<Rightarrow>
          hs_cwnd s < hs_ssthresh s \<and> window_end_seq (hystart s) \<noteq> 0 \<and> \<not> lt32 una (window_end_seq (hystart s))
      | _ \<Rightarrow> False)"

fun rounds_ended :: "hystart_event list \<Rightarrow> hystart_session \<Rightarrow> int" where
  "rounds_ended [] s = 0"
| "rounds_ended (e # es) s = (if ends_round e s then 1 else 0) + rounds_ended es (hystart_step e s)"

lemma harvest_css:
  "harvest_rtt s rtt = Inr s' \<Longrightarrow> in_css (hystart s) \<Longrightarrow> in_css (hystart s') \<Longrightarrow>
     css_rounds_remaining (hystart s') = css_rounds_remaining (hystart s)"
  by (auto simp: harvest_rtt_def hystart_check_phase_transition_def should_exit_slow_start_to_css_def
    fold_rtt_sample_def resume_slow_start_def split: if_splits)

lemma css_step:
  assumes "hystart_inv s" "in_css (hystart s)" "in_css (hystart (hystart_step e s))"
  shows "css_rounds_remaining (hystart (hystart_step e s)) =
    css_rounds_remaining (hystart s) - (if ends_round e s then 1 else 0)"
proof (cases e)
  case (RttSample rtt)
  then show ?thesis using assms harvest_css [of s rtt]
    by (auto simp: hystart_step_def ends_round_def split: sum.splits)
next
  case (AckRound una nxt)
  then show ?thesis using assms
    by (auto simp: hystart_step_def ends_round_def round_boundary_def rotate_round_def resume_slow_start_def
      hystart_inv_def Let_def split: if_splits)
qed (simp add: hystart_step_def ends_round_def)

lemma css_rounds:
  assumes "hystart_inv s" "list_all hystart_event_ok es"
    "\<forall>k \<le> length es. in_css (hystart (fold hystart_step (take k es) s))"
  shows "rounds_ended es s < css_rounds_remaining (hystart s)"
  using assms
proof (induction es arbitrary: s)
  case Nil
  then show ?case by (auto simp: hystart_inv_def Let_def)
next
  case (Cons e es)
  have s: "in_css (hystart s)" using Cons.prems(3) by (metis fold_simps(1) id_apply le0 take0)
  have "\<forall>k \<le> length es. in_css (hystart (fold hystart_step (take k es) (hystart_step e s)))"
    using Cons.prems(3) by (metis Suc_le_mono fold_simps(2) length_Cons take_Suc_Cons)
  moreover from this have s': "in_css (hystart (hystart_step e s))" by (metis fold_simps(1) id_apply le0 take0)
  moreover have "hystart_inv (hystart_step e s)" using Cons.prems by (auto intro: inv_intros)
  ultimately have "rounds_ended es (hystart_step e s) < css_rounds_remaining (hystart (hystart_step e s))"
    using Cons.IH Cons.prems(2) by simp
  then show ?case using css_step [OF Cons.prems(1) s s'] by simp
qed

section \<open>Samples of one round\<close>

fun fold_samples :: "hystart_state \<Rightarrow> int list \<Rightarrow> hystart_state res" where
  "fold_samples st [] = Inr st"
| "fold_samples st (r # rs) = bind_res (fold_rtt_sample st r) (\<lambda>st'. fold_samples st' rs)"

lemma fold_samples_min:
  assumes "0 \<le> current_round_min_rtt_ms st" "\<forall>r \<in> set rs. 0 \<le> r"
  shows "fold_samples st rs = Inr (st\<lparr>current_round_min_rtt_ms := Min (insert (current_round_min_rtt_ms st) (set rs)),
      rtt_sample_count := rtt_sample_count st + int (length rs)\<rparr>)"
  using assms
proof (induction rs arbitrary: st)
  case (Cons r rs)
  define st' where "st' = st\<lparr>current_round_min_rtt_ms := min (current_round_min_rtt_ms st) r,
    rtt_sample_count := rtt_sample_count st + 1\<rparr>"
  have "fold_rtt_sample st r = Inr st'" using Cons.prems by (simp add: fold_rtt_sample_def st'_def hystart_consts)
  moreover have "0 \<le> current_round_min_rtt_ms st'" using Cons.prems by (simp add: st'_def)
  moreover have "Min (insert (min a r) A) = Min (insert a (insert r A))" if "finite A" for A and a :: int
    using that by (cases "A = {}") (auto simp: min.assoc)
  ultimately show ?case using Cons.IH [of st'] Cons.prems(2) by (simp add: st'_def)
qed simp

lemma fresh_round_min:
  assumes "rs \<noteq> []" "\<forall>r \<in> set rs. 0 \<le> r"
  shows "fold_samples (rotate_round st w) rs =
    Inr ((rotate_round st w)\<lparr>current_round_min_rtt_ms := Min (set rs), rtt_sample_count := int (length rs)\<rparr>)"
proof -
  obtain r qs where rs: "rs = r # qs" using assms(1) by (cases rs) auto
  define h where "h = (rotate_round st w)\<lparr>current_round_min_rtt_ms := r, rtt_sample_count := 1\<rparr>"
  have "fold_rtt_sample (rotate_round st w) r = Inr h"
    using assms(2) by (simp add: rs h_def fold_rtt_sample_def rotate_round_def Let_def)
  moreover have "fold_samples h qs = Inr (h\<lparr>current_round_min_rtt_ms := Min (insert r (set qs)),
      rtt_sample_count := 1 + int (length qs)\<rparr>)"
    using fold_samples_min [of h qs] assms(2) by (simp add: rs h_def)
  ultimately show ?thesis by (simp add: rs h_def)
qed

section \<open>Properties\<close>

text \<open>
  Conservative Slow Start is temporary and the state machine never raises. From a fresh
  connection, through any interleaving of non-negative round-trip samples, acknowledgments
  and window changes: the round counter and the baseline are set exactly in the
  conservative phase, the counter lies between 1 and 5 there, the next sample is accepted
  without an assertion failing, and a run that stays in the phase ends fewer than five
  rounds.
\<close>

theorem hystart_css_bounded:
  assumes "hystart s0 = hystart_init" "list_all hystart_event_ok pre" "list_all hystart_event_ok es" "0 \<le> rtt"
  shows "let s = fold hystart_step pre s0; h = hystart s in
     (if in_css h then css_rounds_remaining h \<in> {1..HYSTART__CSS_ROUNDS} \<and> 0 \<le> css_baseline_min_rtt_ms h
      else css_rounds_remaining h = 0 \<and> css_baseline_min_rtt_ms h = HYSTART__RTT_INFINITY) \<and>
     (\<exists>s'. harvest_rtt s rtt = Inr s') \<and>
     ((\<forall>k \<le> length es. in_css (hystart (fold hystart_step (take k es) s))) \<longrightarrow>
        rounds_ended es s < HYSTART__CSS_ROUNDS)"
proof -
  have "hystart_inv s0" using assms(1) by (simp add: hystart_inv_def hystart_init_def hystart_consts)
  then have inv: "hystart_inv (fold hystart_step pre s0)" using assms(2) by (rule hystart.run_inv)
  show ?thesis
    using inv harvest_rtt_total [OF inv assms(4)] css_rounds [OF inv assms(3)]
    by (auto simp: Let_def hystart_inv_def hystart_consts split: if_splits)
qed

theorem hystart_css_bounded_witness:
  "let s = fold hystart_step [AckRound 1 100, RttSample 30, AckRound 100 200]
       \<lparr>hystart = hystart_init, hs_cwnd = 1000, hs_ssthresh = 9000\<rparr>
   in \<not> in_css (hystart s) \<and> (\<exists>s'. harvest_rtt s 45 = Inr s')"
  using hystart_css_bounded [of "\<lparr>hystart = hystart_init, hs_cwnd = 1000, hs_ssthresh = 9000\<rparr>"
      "[AckRound 1 100, RttSample 30, AckRound 100 200]" "[]" 45]
  by (simp add: hystart_event_ok_def hystart_step_def round_boundary_def rotate_round_def harvest_rtt_def
    hystart_check_phase_transition_def should_exit_slow_start_to_css_def should_resume_slow_start_from_css_def
    fold_rtt_sample_def hystart_init_def hystart_consts lt32_def Let_def)

text \<open>
  The exit test is RFC 9406's. In a round that began with \<open>rotate_round\<close> and collected the
  samples \<open>rs\<close>, the tracked value is their minimum, and slow start is left exactly when the
  phase is not yet conservative, there are at least eight samples, the previous round had a
  sample, and the minimum exceeds the previous one by at least an eighth of it clamped to
  between 4 and 16 milliseconds.
\<close>

lemma hystart_exit_rule:
  assumes "rs \<noteq> []" "\<forall>r \<in> set rs. 0 \<le> r" "- 1 \<le> current_round_min_rtt_ms st"
  shows "\<exists>st'. fold_samples (rotate_round st w) rs = Inr st' \<and>
    current_round_min_rtt_ms st' = Min (set rs) \<and> last_round_min_rtt_ms st' = current_round_min_rtt_ms st \<and>
    should_exit_slow_start_to_css st' = Inr
      (\<not> in_css st \<and> 8 \<le> length rs \<and> current_round_min_rtt_ms st \<noteq> - 1 \<and>
       Min (set rs) \<ge> current_round_min_rtt_ms st + max 4 (min (current_round_min_rtt_ms st div 8) 16))"
proof -
  have "0 \<le> Min (set rs)" using assms(1,2) by simp
  then have "Min (set rs) \<noteq> - 1" by linarith
  then show ?thesis
    using assms(3) unfolding fresh_round_min [OF assms(1,2)]
    by (auto simp: should_exit_slow_start_to_css_def rtt_thresh_ms_def rotate_round_def Let_def hystart_consts)
qed

lemma hystart_exit_rule_witness:
  "\<exists>st'. fold_samples (rotate_round (hystart_init\<lparr>current_round_min_rtt_ms := 80\<rparr>) 1) (replicate 8 90) = Inr st' \<and>
     should_exit_slow_start_to_css st' = Inr True"
  using hystart_exit_rule [of "replicate 8 90" "hystart_init\<lparr>current_round_min_rtt_ms := 80\<rparr>" 1]
  by (auto simp: hystart_init_def)

end
