(* ===== verification/Tcp_State.thy ===== *)
theory Tcp_State
  imports Tcp_Hystart
begin

text \<open>
  The per-session state of TCP: \<^verbatim>\<open>protocols/tcp/tcp__enums.py\<close> and the dataclasses of
  \<^verbatim>\<open>protocols/tcp/state/\<close> with their methods (the RACK and TLP state is in \<open>Tcp_Rack\<close>). Each
  class is a record whose fields carry a prefix, each method a function on the record.

  Shown here: what the two congestion-control snapshots give back, that the AccECN counters
  a peer reconstructs from the abbreviated options are the receiver's own, and that draining
  the transmit buffer keeps the map from sequence numbers to bytes.
\<close>

section \<open>Enumerations\<close>

datatype sys_call = SYSCALL_LISTEN | SYSCALL_CONNECT | SYSCALL_CLOSE | SYSCALL_ABORT

datatype fsm_state =
    CLOSED | LISTEN | SYN_SENT | SYN_RCVD | ESTABLISHED | FIN_WAIT_1 | FIN_WAIT_2
  | CLOSING | CLOSE_WAIT | LAST_ACK | TIME_WAIT

datatype conn_error = NONE | REFUSED | TIMEOUT | CANCELED | RESET | HOST_UNREACHABLE | NET_UNREACHABLE

datatype cc_mode = RENO | CUBIC

section \<open>Congestion control\<close>

definition CC_STATE__SSTHRESH_INF :: int where "CC_STATE__SSTHRESH_INF = 0x7FFFFFFF"

record cc_state =
  cc_cwnd :: int
  cc_ssthresh :: int
  cc_snd_ewn :: int
  cc_recovery_point :: seq32
  cc_recover_seq :: seq32
  cc_recover_fs :: int
  cc_prr_delivered :: int
  cc_prr_out :: int
  frto_active :: bool
  frto_step :: int
  frto_pre_cwnd :: int
  frto_pre_ssthresh :: int
  frto_pre_snd_max :: seq32
  frto_pre_cubic_w_max :: int
  frto_pre_cubic_K_ms :: int
  frto_pre_cubic_epoch_start_ms :: int
  frto_pre_cubic_w_est :: int
  fr_pre_cubic_w_max :: int
  fr_pre_cubic_K_ms :: int
  fr_pre_cubic_epoch_start_ms :: int
  fr_pre_cubic_w_est :: int
  fr_pre_cwnd :: int
  fr_pre_ssthresh :: int
  fr_cubic_snapshot_valid :: bool
  cc_cc_mode :: cc_mode
  cubic_w_max :: int
  cubic_w_last_max :: int
  cubic_K_ms :: int
  cubic_epoch_start_ms :: int
  cc_cubic_w_est :: int
  cubic_in_ca :: bool
  cc_hystart :: hystart_state

definition cc_init :: cc_state where
  "cc_init =
     \<lparr>cc_cwnd = 0, cc_ssthresh = CC_STATE__SSTHRESH_INF, cc_snd_ewn = 0, cc_recovery_point = 0,
      cc_recover_seq = 0, cc_recover_fs = 0, cc_prr_delivered = 0, cc_prr_out = 0,
      frto_active = False, frto_step = 0, frto_pre_cwnd = 0, frto_pre_ssthresh = 0, frto_pre_snd_max = 0,
      frto_pre_cubic_w_max = 0, frto_pre_cubic_K_ms = 0, frto_pre_cubic_epoch_start_ms = 0,
      frto_pre_cubic_w_est = 0, fr_pre_cubic_w_max = 0, fr_pre_cubic_K_ms = 0,
      fr_pre_cubic_epoch_start_ms = 0, fr_pre_cubic_w_est = 0, fr_pre_cwnd = 0, fr_pre_ssthresh = 0,
      fr_cubic_snapshot_valid = False, cc_cc_mode = CUBIC, cubic_w_max = 0, cubic_w_last_max = 0,
      cubic_K_ms = 0, cubic_epoch_start_ms = 0, cc_cubic_w_est = 0, cubic_in_ca = False,
      cc_hystart = hystart_init\<rparr>"

definition save_frto_snapshot :: "seq32 \<Rightarrow> cc_state \<Rightarrow> cc_state" where
  "save_frto_snapshot snd_max st =
     st\<lparr>frto_active := True, frto_step := 1, frto_pre_cwnd := cc_cwnd st,
        frto_pre_ssthresh := cc_ssthresh st, frto_pre_snd_max := snd_max,
        frto_pre_cubic_w_max := cubic_w_max st, frto_pre_cubic_K_ms := cubic_K_ms st,
        frto_pre_cubic_epoch_start_ms := cubic_epoch_start_ms st,
        frto_pre_cubic_w_est := cc_cubic_w_est st\<rparr>"

definition restore_frto_snapshot :: "int \<Rightarrow> cc_state \<Rightarrow> cc_state" where
  "restore_frto_snapshot snd_wnd st =
     st\<lparr>cc_cwnd := frto_pre_cwnd st, cc_ssthresh := frto_pre_ssthresh st,
        cc_snd_ewn := min (frto_pre_cwnd st) snd_wnd,
        cubic_w_max := frto_pre_cubic_w_max st, cubic_K_ms := frto_pre_cubic_K_ms st,
        cubic_epoch_start_ms := frto_pre_cubic_epoch_start_ms st,
        cc_cubic_w_est := frto_pre_cubic_w_est st\<rparr>"

definition save_fr_cubic_snapshot :: "cc_state \<Rightarrow> cc_state" where
  "save_fr_cubic_snapshot st =
     st\<lparr>fr_pre_cubic_w_max := cubic_w_max st, fr_pre_cubic_K_ms := cubic_K_ms st,
        fr_pre_cubic_epoch_start_ms := cubic_epoch_start_ms st, fr_pre_cubic_w_est := cc_cubic_w_est st,
        fr_pre_cwnd := cc_cwnd st, fr_pre_ssthresh := cc_ssthresh st, fr_cubic_snapshot_valid := True\<rparr>"

definition restore_fr_cubic_snapshot :: "cc_state \<Rightarrow> cc_state" where
  "restore_fr_cubic_snapshot st =
     st\<lparr>cubic_w_max := fr_pre_cubic_w_max st, cubic_K_ms := fr_pre_cubic_K_ms st,
        cubic_epoch_start_ms := fr_pre_cubic_epoch_start_ms st, cc_cubic_w_est := fr_pre_cubic_w_est st,
        cc_cwnd := fr_pre_cwnd st, cc_ssthresh := fr_pre_ssthresh st, fr_cubic_snapshot_valid := False\<rparr>"

definition clear_fr_cubic_snapshot :: "cc_state \<Rightarrow> cc_state" where
  "clear_fr_cubic_snapshot st = st\<lparr>fr_cubic_snapshot_valid := False\<rparr>"

section \<open>Sequence spaces\<close>

record send_seq_state =
  snd_ini :: seq32
  snd_una :: seq32
  snd_nxt :: seq32
  snd_max :: seq32
  snd_fin :: seq32
  snd_fin_sent :: bool
  snd_sml :: seq32

definition snd_reset_to :: "seq32 \<Rightarrow> send_seq_state \<Rightarrow> send_seq_state" where
  "snd_reset_to iss st = st\<lparr>snd_ini := iss, snd_una := iss, snd_nxt := iss, snd_max := iss, snd_sml := iss\<rparr>"

definition snd_advance_nxt :: "seq32 \<Rightarrow> int \<Rightarrow> bool \<Rightarrow> bool \<Rightarrow> send_seq_state \<Rightarrow> send_seq_state" where
  "snd_advance_nxt seq data_len flag_syn flag_fin st =
     st\<lparr>snd_nxt := add32 seq [data_len, of_bool flag_syn, of_bool flag_fin]\<rparr>"

definition bump_max_to_nxt :: "send_seq_state \<Rightarrow> send_seq_state" where
  "bump_max_to_nxt st = (if lt32 (snd_max st) (snd_nxt st) then st\<lparr>snd_max := snd_nxt st\<rparr> else st)"

definition record_fin :: "send_seq_state \<Rightarrow> send_seq_state" where
  "record_fin st = st\<lparr>snd_fin := snd_nxt st, snd_fin_sent := True\<rparr>"

definition bytes_acked :: "seq32 \<Rightarrow> send_seq_state \<Rightarrow> int" where
  "bytes_acked new_una st = uint (new_una - snd_una st)"

record recv_seq_state =
  rcv_ini :: seq32
  rcv_nxt :: seq32
  rcv_una :: seq32

definition rcv_reset_to :: "seq32 \<Rightarrow> recv_seq_state \<Rightarrow> recv_seq_state" where
  "rcv_reset_to irs st = st\<lparr>rcv_ini := irs, rcv_nxt := irs, rcv_una := irs\<rparr>"

definition rcv_advance_nxt :: "seq32 \<Rightarrow> recv_seq_state \<Rightarrow> recv_seq_state" where
  "rcv_advance_nxt seg_end st = (if lt32 (rcv_nxt st) seg_end then st\<lparr>rcv_nxt := seg_end\<rparr> else st)"

section \<open>Windows, buffers and samples\<close>

record window_state =
  win_snd_mss :: int
  win_snd_wnd :: int
  win_snd_wsc :: int
  win_max_window :: int
  win_rcv_mss :: int
  win_rcv_wsc :: int
  win_rcv_wnd_max :: int

definition window_init :: window_state where
  "window_init =
     \<lparr>win_snd_mss = 536, win_snd_wnd = 0, win_snd_wsc = 0, win_max_window = 0, win_rcv_mss = 0,
      win_rcv_wsc = 7, win_rcv_wnd_max = 65535\<rparr>"

definition bump_max_window :: "int \<Rightarrow> window_state \<Rightarrow> window_state" where
  "bump_max_window wnd st = (if wnd > win_max_window st then st\<lparr>win_max_window := wnd\<rparr> else st)"

record tx_buffer_state =
  tx_buffer :: bytes
  tx_seq_mod :: seq32
  tx_retransmit_request_counter :: "(seq32 \<times> int) list"

definition tx_drain :: "nat \<Rightarrow> tx_buffer_state \<Rightarrow> tx_buffer_state" where
  "tx_drain bytes_count st =
     st\<lparr>tx_buffer := drop bytes_count (tx_buffer st), tx_seq_mod := add32 (tx_seq_mod st) [int bytes_count]\<rparr>"

definition bump_seq_mod_for_flags :: "bool \<Rightarrow> bool \<Rightarrow> tx_buffer_state \<Rightarrow> tx_buffer_state" where
  "bump_seq_mod_for_flags flag_syn flag_fin st =
     st\<lparr>tx_seq_mod := add32 (tx_seq_mod st) [of_bool flag_syn, of_bool flag_fin]\<rparr>"

record rtt_sample_state =
  rtt_seq :: "seq32 option"
  rtt_send_time_ms :: "int option"
  rtt_retransmitted :: bool
  rtt_last_send_time_ms :: "int option"

definition rtt_record :: "seq32 \<Rightarrow> int \<Rightarrow> rtt_sample_state \<Rightarrow> rtt_sample_state" where
  "rtt_record seq send_time_ms st =
     st\<lparr>rtt_seq := Some seq, rtt_send_time_ms := Some send_time_ms, rtt_retransmitted := False\<rparr>"

definition rtt_clear :: "rtt_sample_state \<Rightarrow> rtt_sample_state" where
  "rtt_clear st = st\<lparr>rtt_seq := None, rtt_send_time_ms := None, rtt_retransmitted := False\<rparr>"

definition rtt_taint :: "rtt_sample_state \<Rightarrow> rtt_sample_state" where
  "rtt_taint st = st\<lparr>rtt_retransmitted := True\<rparr>"

record timestamps_state =
  ts_send_ts :: bool
  ts_recent :: seq32
  ts_recent_updated_at_ms :: int

definition ts_update :: "seq32 \<Rightarrow> int \<Rightarrow> timestamps_state \<Rightarrow> timestamps_state" where
  "ts_update tsval now_ms st = st\<lparr>ts_recent := tsval, ts_recent_updated_at_ms := now_ms\<rparr>"

record advertise_state =
  adv_ts :: bool
  adv_wscale :: bool
  adv_sack :: bool
  adv_ecn :: bool
  adv_accecn :: bool
  adv_fastopen :: bool
  adv_send_sack :: bool

record fastopen_state =
  fo_cookie_to_emit :: "bytes option"
  fo_pending_counted :: bool
  fo_syn_retransmitted :: bool

record shutdown_state =
  shut_rd :: bool
  shut_wr :: bool

section \<open>Classic ECN\<close>

record classic_ecn_state =
  ecn_enabled :: bool
  ecn_send_ece :: bool
  ecn_send_cwr :: bool
  ecn_recovery_point :: seq32

definition arm_cwr_response :: "seq32 \<Rightarrow> classic_ecn_state \<Rightarrow> classic_ecn_state" where
  "arm_cwr_response nxt st = st\<lparr>ecn_send_cwr := True, ecn_recovery_point := nxt\<rparr>"

definition consume_cwr :: "classic_ecn_state \<Rightarrow> classic_ecn_state \<times> bool" where
  "consume_cwr st = (if ecn_send_cwr st then (st\<lparr>ecn_send_cwr := False\<rparr>, True) else (st, False))"

section \<open>Accurate ECN\<close>

definition ACCECN__INITIAL_BYTE_COUNTER :: int where "ACCECN__INITIAL_BYTE_COUNTER = 1"
definition ACCECN__INITIAL_CE_BYTE_COUNTER :: int where "ACCECN__INITIAL_CE_BYTE_COUNTER = 0"
definition ACCECN__INITIAL_CEP :: int where "ACCECN__INITIAL_CEP = 5"
definition ACCECN__LAST_EMIT_SENTINEL :: int where "ACCECN__LAST_EMIT_SENTINEL = - 1"
definition ACCECN__COUNTER_MASK :: int where "ACCECN__COUNTER_MASK = 0xFFFFFF"

lemmas accecn_consts = ACCECN__INITIAL_BYTE_COUNTER_def ACCECN__INITIAL_CE_BYTE_COUNTER_def
  ACCECN__INITIAL_CEP_def ACCECN__LAST_EMIT_SENTINEL_def ACCECN__COUNTER_MASK_def

type_synonym accecn_counters = "int option \<times> int option \<times> int option"

record accecn_state =
  ae_enabled :: bool
  ae_synack_codepoint :: int
  ae_handshake_ack_pending :: "int option"
  r_cep :: int
  r_ect0_b :: int
  r_ce_b :: int
  r_ect1_b :: int
  r_last_emit_e0b :: int
  r_last_emit_ceb :: int
  r_last_emit_e1b :: int
  s_cep :: int
  s_disabled :: bool
  ae_mangling_detected :: bool
  s_ect0_b :: int
  s_ect1_b :: int
  s_ce_b :: int

definition accecn_init :: accecn_state where
  "accecn_init =
     \<lparr>ae_enabled = False, ae_synack_codepoint = 0, ae_handshake_ack_pending = None,
      r_cep = ACCECN__INITIAL_CEP, r_ect0_b = ACCECN__INITIAL_BYTE_COUNTER,
      r_ce_b = ACCECN__INITIAL_CE_BYTE_COUNTER, r_ect1_b = ACCECN__INITIAL_BYTE_COUNTER,
      r_last_emit_e0b = ACCECN__LAST_EMIT_SENTINEL, r_last_emit_ceb = ACCECN__LAST_EMIT_SENTINEL,
      r_last_emit_e1b = ACCECN__LAST_EMIT_SENTINEL, s_cep = ACCECN__INITIAL_CEP, s_disabled = False,
      ae_mangling_detected = False, s_ect0_b = ACCECN__INITIAL_BYTE_COUNTER,
      s_ect1_b = ACCECN__INITIAL_BYTE_COUNTER, s_ce_b = ACCECN__INITIAL_CE_BYTE_COUNTER\<rparr>"

definition record_received_codepoint :: "int \<Rightarrow> int \<Rightarrow> accecn_state \<Rightarrow> accecn_state" where
  "record_received_codepoint ip_ecn payload_len st =
     (if ip_ecn = 3
      then st\<lparr>r_cep := (r_cep st + 1) AND ACCECN__COUNTER_MASK,
              r_ce_b := (r_ce_b st + payload_len) AND ACCECN__COUNTER_MASK\<rparr>
      else if ip_ecn = 2 then st\<lparr>r_ect0_b := (r_ect0_b st + payload_len) AND ACCECN__COUNTER_MASK\<rparr>
      else if ip_ecn = 1 then st\<lparr>r_ect1_b := (r_ect1_b st + payload_len) AND ACCECN__COUNTER_MASK\<rparr>
      else st)"

definition update_sender_counters_from_option :: "accecn_counters \<Rightarrow> accecn_state \<Rightarrow> accecn_state" where
  "update_sender_counters_from_option counters st =
     (case counters of (e0, ce, e1) \<Rightarrow>
        st\<lparr>s_ect0_b := (case e0 of Some v \<Rightarrow> v | None \<Rightarrow> s_ect0_b st),
           s_ce_b := (case ce of Some v \<Rightarrow> v | None \<Rightarrow> s_ce_b st),
           s_ect1_b := (case e1 of Some v \<Rightarrow> v | None \<Rightarrow> s_ect1_b st)\<rparr>)"

definition next_ace_field :: "accecn_state \<Rightarrow> accecn_state \<times> int" where
  "next_ace_field st =
     (case ae_handshake_ack_pending st of
        Some ace \<Rightarrow> (st\<lparr>ae_handshake_ack_pending := None\<rparr>, ace)
      | None \<Rightarrow> (st, r_cep st AND 7))"

definition next_emit_counters ::
    "accecn_state \<Rightarrow> accecn_state \<times> accecn_counters option \<times> accecn_counters option" where
  "next_emit_counters st =
     (let e0b_changed = r_ect0_b st \<noteq> r_last_emit_e0b st;
          ceb_changed = r_ce_b st \<noteq> r_last_emit_ceb st;
          e1b_changed = r_ect1_b st \<noteq> r_last_emit_e1b st;
          e0 = r_ect0_b st; ce = r_ce_b st; e1 = r_ect1_b st;
          counters =
            (if e1b_changed \<and> \<not> e0b_changed then
               (None, Some
                 (if e0b_changed then (Some e0, Some ce, Some e1)
                  else if ceb_changed then (None, Some ce, Some e1)
                  else (None, None, Some e1)))
             else
               (Some
                 (if e1b_changed then (Some e0, Some ce, Some e1)
                  else if ceb_changed then (Some e0, Some ce, None)
                  else if e0b_changed then (Some e0, None, None)
                  else (None, None, None)), None))
      in (st\<lparr>r_last_emit_e0b := e0, r_last_emit_ceb := ce, r_last_emit_e1b := e1\<rparr>, counters))"

definition apparent_ce_delta :: "int \<Rightarrow> accecn_state \<Rightarrow> accecn_state \<times> int" where
  "apparent_ce_delta incoming_ace st =
     (let apparent_delta = (incoming_ace - (s_cep st AND 7)) AND 7 in
      (st\<lparr>s_cep := (s_cep st + apparent_delta) AND ACCECN__COUNTER_MASK\<rparr>, apparent_delta))"

section \<open>Keep-alive and persist\<close>

record keepalive_state =
  ka_enabled :: bool
  ka_probes_unacked :: int
  ka_idle_override :: "int option"
  ka_interval_override :: "int option"
  ka_max_count_override :: "int option"
  ka_active :: bool

definition reset_for_idle :: "keepalive_state \<Rightarrow> keepalive_state" where
  "reset_for_idle st = st\<lparr>ka_probes_unacked := 0, ka_active := True\<rparr>"

definition idle_timeout :: "int \<Rightarrow> keepalive_state \<Rightarrow> int" where
  "idle_timeout dflt st = (case ka_idle_override st of Some v \<Rightarrow> v | None \<Rightarrow> dflt)"

definition interval_timeout :: "int \<Rightarrow> keepalive_state \<Rightarrow> int" where
  "interval_timeout dflt st = (case ka_interval_override st of Some v \<Rightarrow> v | None \<Rightarrow> dflt)"

definition max_probes :: "int \<Rightarrow> keepalive_state \<Rightarrow> int" where
  "max_probes dflt st = (case ka_max_count_override st of Some v \<Rightarrow> v | None \<Rightarrow> dflt)"

record persist_state =
  ps_active :: bool
  ps_timeout :: int

definition persist_deactivate :: "int \<Rightarrow> persist_state \<Rightarrow> persist_state" where
  "persist_deactivate initial_timeout st = st\<lparr>ps_active := False, ps_timeout := initial_timeout\<rparr>"

section \<open>Rollback of spurious congestion responses\<close>

text \<open>
  A snapshot promises: as long as what it stored is untouched, restoring gives back the view
  of the state at the time it was taken. What happens in between is a sequence of operations
  that do not write the stored part.
\<close>

locale rollback =
  fixes save :: "'s \<Rightarrow> 's" and restore :: "'s \<Rightarrow> 's" and view :: "'s \<Rightarrow> 'v" and stored :: "'s \<Rightarrow> 'k"
  assumes restore_view: "stored x = stored (save s) \<Longrightarrow> view (restore x) = view s"
begin

lemma stored_fold: "\<forall>f \<in> set fs. \<forall>s. stored (f s) = stored s \<Longrightarrow> stored (fold (\<lambda>f. f) fs x) = stored x"
  by (induction fs arbitrary: x) auto

lemma rollback_after:
  "\<forall>f \<in> set fs. \<forall>s. stored (f s) = stored s \<Longrightarrow> view (restore (fold (\<lambda>f. f) fs (save s))) = view s"
  by (rule restore_view) (rule stored_fold)

end

definition cc_view :: "cc_state \<Rightarrow> int \<times> int \<times> int \<times> int \<times> int \<times> int" where
  "cc_view st = (cc_cwnd st, cc_ssthresh st, cubic_w_max st, cubic_K_ms st, cubic_epoch_start_ms st, cc_cubic_w_est st)"

definition frto_stored :: "cc_state \<Rightarrow> int \<times> int \<times> int \<times> int \<times> int \<times> int" where
  "frto_stored st = (frto_pre_cwnd st, frto_pre_ssthresh st, frto_pre_cubic_w_max st, frto_pre_cubic_K_ms st,
     frto_pre_cubic_epoch_start_ms st, frto_pre_cubic_w_est st)"

definition fr_stored :: "cc_state \<Rightarrow> int \<times> int \<times> int \<times> int \<times> int \<times> int" where
  "fr_stored st = (fr_pre_cwnd st, fr_pre_ssthresh st, fr_pre_cubic_w_max st, fr_pre_cubic_K_ms st,
     fr_pre_cubic_epoch_start_ms st, fr_pre_cubic_w_est st)"

lemmas cc_snapshot_defs = cc_view_def frto_stored_def fr_stored_def save_frto_snapshot_def restore_frto_snapshot_def
  save_fr_cubic_snapshot_def restore_fr_cubic_snapshot_def

interpretation frto: rollback "save_frto_snapshot mx" "restore_frto_snapshot wnd" cc_view frto_stored for mx wnd
  by unfold_locales (simp add: cc_snapshot_defs)

interpretation fr: rollback save_fr_cubic_snapshot restore_fr_cubic_snapshot cc_view fr_stored
  by unfold_locales (simp add: cc_snapshot_defs)

text \<open>The two snapshots are independent, so they may nest.\<close>

lemma snapshots_independent:
  "frto_stored (save_fr_cubic_snapshot st) = frto_stored st" "frto_stored (restore_fr_cubic_snapshot st) = frto_stored st"
  "fr_stored (save_frto_snapshot mx st) = fr_stored st" "fr_stored (restore_frto_snapshot wnd st) = fr_stored st"
  by (simp_all add: cc_snapshot_defs)

section \<open>The AccECN counters of the peer\<close>

text \<open>
  Two ends of a direction: the receiver counts code points and emits options, the sender
  applies each option to its mirror. Options arrive in order.
\<close>

datatype accecn_event = Received int int | Exchange

definition emitted :: "accecn_counters option \<times> accecn_counters option \<Rightarrow> accecn_counters" where
  "emitted cs = (case cs of (Some c, _) \<Rightarrow> c | (None, Some c) \<Rightarrow> c | (None, None) \<Rightarrow> (None, None, None))"

definition accecn_step :: "accecn_event \<Rightarrow> accecn_state \<times> accecn_state \<Rightarrow> accecn_state \<times> accecn_state" where
  "accecn_step ev rs =
     (case rs of (r, s) \<Rightarrow>
      case ev of
        Received cp n \<Rightarrow> (record_received_codepoint cp n r, s)
      | Exchange \<Rightarrow> (case next_emit_counters r of (r', cs) \<Rightarrow> (r', update_sender_counters_from_option (emitted cs) s)))"

definition receiver_counters :: "accecn_state \<Rightarrow> int \<times> int \<times> int" where
  "receiver_counters r = (r_ect0_b r, r_ce_b r, r_ect1_b r)"

definition sender_mirror :: "accecn_state \<Rightarrow> int \<times> int \<times> int" where
  "sender_mirror s = (s_ect0_b s, s_ce_b s, s_ect1_b s)"

definition accecn_inv :: "accecn_state \<times> accecn_state \<Rightarrow> bool" where
  "accecn_inv rs \<longleftrightarrow>
     (case rs of (r, s) \<Rightarrow>
        0 \<le> r_ect0_b r \<and> 0 \<le> r_ce_b r \<and> 0 \<le> r_ect1_b r \<and>
        ((r_last_emit_e0b r, r_last_emit_ceb r, r_last_emit_e1b r) = (- 1, - 1, - 1) \<or>
         (r_last_emit_e0b r, r_last_emit_ceb r, r_last_emit_e1b r) = sender_mirror s))"

lemma exchange_mirror:
  assumes "accecn_inv (r, s)" "accecn_step Exchange (r, s) = (r', s')"
  shows "sender_mirror s' = receiver_counters r'" "receiver_counters r' = receiver_counters r" "accecn_inv (r', s')"
proof -
  show m: "sender_mirror s' = receiver_counters r'" and "receiver_counters r' = receiver_counters r"
    using assms
    by (auto simp: accecn_inv_def accecn_step_def next_emit_counters_def update_sender_counters_from_option_def
      emitted_def sender_mirror_def receiver_counters_def Let_def split: if_splits)
  have "(r_last_emit_e0b r', r_last_emit_ceb r', r_last_emit_e1b r') = receiver_counters r'"
    using assms(2) by (auto simp: accecn_step_def next_emit_counters_def receiver_counters_def Let_def split: prod.splits)
  moreover have "0 \<le> r_ect0_b r'" "0 \<le> r_ce_b r'" "0 \<le> r_ect1_b r'"
    using assms by (auto simp: accecn_inv_def accecn_step_def next_emit_counters_def Let_def split: prod.splits)
  ultimately show "accecn_inv (r', s')" using m by (simp add: accecn_inv_def)
qed

lemma received_inv: "accecn_inv (r, s) \<Longrightarrow> accecn_inv (record_received_codepoint cp n r, s)"
  by (auto simp: accecn_inv_def record_received_codepoint_def accecn_consts and_mask24)

interpretation accecn: inv_machine accecn_step "\<lambda>_. True" accecn_inv
proof
  fix rs ev assume inv: "accecn_inv rs"
  obtain r s where rs: "rs = (r, s)" by (cases rs)
  show "accecn_inv (accecn_step ev rs)"
  proof (cases ev)
    case Exchange
    obtain r' s' where "accecn_step Exchange (r, s) = (r', s')" by (cases "accecn_step Exchange (r, s)")
    then show ?thesis using exchange_mirror(3) [of r s r' s'] inv Exchange rs by simp
  qed (use inv received_inv in \<open>simp add: rs accecn_step_def\<close>)
qed

text \<open>The three-bit fallback counts exactly while fewer than eight marks come between two ACKs.\<close>

lemma and_7: "x AND 7 = x mod 8" for x :: int
  using and_mask_mod [of x 3] by simp

lemma ace_delta_exact:
  assumes "0 \<le> d" "d < 8" "0 \<le> s_cep st" "s_cep st < 2 ^ 24"
  shows "let cep = (s_cep st + d) AND ACCECN__COUNTER_MASK in
    snd (apparent_ce_delta (cep AND 7) st) = d \<and> s_cep (fst (apparent_ce_delta (cep AND 7) st)) = cep"
proof -
  have "((s_cep st + d) mod 16777216 mod 8 - s_cep st mod 8) mod 8 = d"
  proof -
    have "(s_cep st + d) mod 16777216 mod 8 = (s_cep st + d) mod 8" by (rule mod_mod_cancel) simp
    then have "((s_cep st + d) mod 16777216 mod 8 - s_cep st mod 8) mod 8 = (s_cep st + d - s_cep st) mod 8"
      by (simp add: mod_diff_eq)
    then show ?thesis using assms by simp
  qed
  then show ?thesis by (simp add: apparent_ce_delta_def accecn_consts and_7 and_mask24 Let_def)
qed

section \<open>The transmit buffer\<close>

text \<open>The byte with sequence number \<open>q\<close>, if it is buffered.\<close>

definition tx_byte :: "tx_buffer_state \<Rightarrow> seq32 \<Rightarrow> 8 word option" where
  "tx_byte st q =
     (let i = nat (fwd (tx_seq_mod st) q) in if i < length (tx_buffer st) then Some (tx_buffer st ! i) else None)"

lemma tx_drain_bytes:
  assumes "n \<le> length (tx_buffer st)" "length (tx_buffer st) < 2147483648" "int n \<le> fwd (tx_seq_mod st) q"
  shows "tx_byte (tx_drain n st) q = tx_byte st q"
proof -
  have "fwd (tx_seq_mod st) (tx_seq_mod st + of_int (int n)) = int n"
    using fwd_add [of "tx_seq_mod st" "tx_seq_mod st" "int n"] assms(1,2) by simp
  then have "fwd (tx_seq_mod st + of_int (int n)) q = fwd (tx_seq_mod st) q - int n"
    using fwd_rebase [of "tx_seq_mod st" "tx_seq_mod st + of_int (int n)" q] assms(3) by simp
  then have i: "nat (fwd (tx_seq_mod st + of_nat n) q) = nat (fwd (tx_seq_mod st) q) - n"
    using assms(3) by (simp add: nat_diff_distrib)
  have "n \<le> nat (fwd (tx_seq_mod st) q)" using assms(3) by linarith
  then show ?thesis
    using assms(1) unfolding tx_byte_def tx_drain_def add32_def Let_def by (auto simp: i)
qed

section \<open>Properties\<close>

text \<open>
  A spurious congestion response is undone completely. After the snapshot taken on a
  timeout (F-RTO) or on a fast retransmit, whatever the session does to the state without
  writing the snapshot's own fields, restoring gives back the congestion window, the
  threshold and the four variables of the CUBIC curve as they were; the timeout variant also
  re-applies the peer's window. Taking or restoring one snapshot does not disturb the other.
\<close>

theorem spurious_response_undone:
  assumes "\<forall>f \<in> set fs. \<forall>s. frto_stored (f s) = frto_stored s" "\<forall>g \<in> set gs. \<forall>s. fr_stored (g s) = fr_stored s"
  shows "cc_view (restore_frto_snapshot wnd (fold (\<lambda>f. f) fs (save_frto_snapshot mx st))) = cc_view st \<and>
    cc_snd_ewn (restore_frto_snapshot wnd (fold (\<lambda>f. f) fs (save_frto_snapshot mx st))) = min (cc_cwnd st) wnd \<and>
    cc_view (restore_fr_cubic_snapshot (fold (\<lambda>g. g) gs (save_fr_cubic_snapshot st))) = cc_view st \<and>
    frto_stored (restore_fr_cubic_snapshot (save_fr_cubic_snapshot st)) = frto_stored st \<and>
    fr_stored (restore_frto_snapshot wnd (save_frto_snapshot mx st)) = fr_stored st"
proof -
  have "cc_snd_ewn (restore_frto_snapshot wnd x) = min (cc_cwnd (restore_frto_snapshot wnd x)) wnd" for x
    by (simp add: restore_frto_snapshot_def)
  moreover have v: "cc_view (restore_frto_snapshot wnd (fold (\<lambda>f. f) fs (save_frto_snapshot mx st))) = cc_view st"
    by (rule frto.rollback_after [OF assms(1)])
  moreover have "cc_cwnd (restore_frto_snapshot wnd (fold (\<lambda>f. f) fs (save_frto_snapshot mx st))) = cc_cwnd st"
    using v by (simp add: cc_view_def)
  ultimately show ?thesis using fr.rollback_after [OF assms(2)] snapshots_independent by simp
qed

theorem spurious_response_undone_witness:
  "cc_cwnd (restore_frto_snapshot 5000 (fold (\<lambda>f. f) [\<lambda>s. s\<lparr>cc_cwnd := 536, cc_ssthresh := 1072\<rparr>, save_fr_cubic_snapshot]
     (save_frto_snapshot 7 (cc_init\<lparr>cc_cwnd := 9000\<rparr>)))) = 9000"
proof -
  have "\<forall>f \<in> set [\<lambda>s. s\<lparr>cc_cwnd := 536, cc_ssthresh := 1072\<rparr>, save_fr_cubic_snapshot]. \<forall>s. frto_stored (f s) = frto_stored s"
    by (simp add: snapshots_independent frto_stored_def save_fr_cubic_snapshot_def)
  from spurious_response_undone [OF this, of "[]" 5000 7 "cc_init\<lparr>cc_cwnd := 9000\<rparr>"] show ?thesis
    by (simp add: cc_view_def)
qed

text \<open>
  AccECN feedback is lossless although abbreviated. From the negotiated initial states,
  after any sequence of received segments and option exchanges, the byte counters the sender
  has after the next exchange are exactly the receiver's, modulo the 24-bit width the
  receiver keeps them in; an option names exactly one of its two orders; and the receiver's
  own counters are not changed by emitting.
\<close>

theorem accecn_mirror_exact:
  "let (r, s) = fold accecn_step evs (accecn_init, accecn_init); (r', s') = accecn_step Exchange (r, s);
       cs = snd (next_emit_counters r) in
   sender_mirror s' = receiver_counters r \<and> receiver_counters r' = receiver_counters r \<and>
   (fst cs = None) \<noteq> (snd cs = None)"
proof -
  obtain r s where rs: "fold accecn_step evs (accecn_init, accecn_init) = (r, s)" by fastforce
  obtain r' s' where rs': "accecn_step Exchange (r, s) = (r', s')" by fastforce
  have "accecn_inv (accecn_init, accecn_init)" by (simp add: accecn_inv_def accecn_init_def accecn_consts)
  from accecn.run_inv [OF this, of evs] have inv: "accecn_inv (r, s)" by (simp add: rs list_all_iff)
  have "(fst (snd (next_emit_counters r)) = None) \<noteq> (snd (snd (next_emit_counters r)) = None)"
    by (simp add: next_emit_counters_def Let_def)
  then show ?thesis using exchange_mirror [OF inv rs'] by (simp add: rs rs' Let_def)
qed

end
