(* ===== verification/Tcp_Timers.thy ===== *)
theory Tcp_Timers
  imports Tcp_State
begin

text \<open>
  \<^verbatim>\<open>session/tcp__session__timers.py\<close>: the logical timers of a session, a map from names to
  deadlines in monotonic milliseconds, multiplexed onto one service handle of the stack's
  timer. The clock reading is an argument; the handle is the
  time at which the stack timer will run the state machine.
\<close>

definition serviced_timers :: "fsm_state \<Rightarrow> string list" where
  "serviced_timers st =
     (case st of
        SYN_SENT \<Rightarrow> [''retransmit'', ''persist'', ''tx_pump'']
      | SYN_RCVD \<Rightarrow> [''retransmit'', ''persist'', ''tx_pump'']
      | ESTABLISHED \<Rightarrow> [''retransmit'', ''persist'', ''delayed_ack'', ''keepalive'', ''rack'', ''tlp'', ''tx_pump'']
      | CLOSE_WAIT \<Rightarrow> [''retransmit'', ''persist'', ''delayed_ack'', ''tx_pump'']
      | FIN_WAIT_1 \<Rightarrow> [''retransmit'', ''persist'', ''tx_pump'']
      | FIN_WAIT_2 \<Rightarrow> [''fin_wait_2'', ''tx_pump'']
      | CLOSING \<Rightarrow> [''retransmit'', ''persist'', ''tx_pump'']
      | LAST_ACK \<Rightarrow> [''retransmit'', ''persist'', ''tx_pump'']
      | TIME_WAIT \<Rightarrow> [''time_wait'', ''tx_pump'']
      | _ \<Rightarrow> [])"

record timer_service =
  tm_deadlines :: "(string \<times> int) list"
  tm_handle :: "int option"

definition timer_init :: timer_service where
  "timer_init = \<lparr>tm_deadlines = [], tm_handle = None\<rparr>"

definition pending_deadlines :: "fsm_state \<Rightarrow> timer_service \<Rightarrow> int list" where
  "pending_deadlines fsm st = map snd (filter (\<lambda>(name, d). name \<in> set (serviced_timers fsm)) (tm_deadlines st))"

definition timer_reschedule :: "fsm_state \<Rightarrow> int \<Rightarrow> timer_service \<Rightarrow> timer_service" where
  "timer_reschedule fsm now st =
     (let st' = st\<lparr>tm_handle := None\<rparr>; pending = pending_deadlines fsm st' in
      if pending = [] then st'
      else st'\<lparr>tm_handle := Some (now + max 1 (Min (set pending) - now))\<rparr>)"

definition timer_arm :: "fsm_state \<Rightarrow> int \<Rightarrow> string \<Rightarrow> int \<Rightarrow> timer_service \<Rightarrow> timer_service" where
  "timer_arm fsm now name delay_ms st =
     timer_reschedule fsm now (st\<lparr>tm_deadlines := AList.update name (now + delay_ms) (tm_deadlines st)\<rparr>)"

definition timer_cancel :: "fsm_state \<Rightarrow> int \<Rightarrow> string \<Rightarrow> timer_service \<Rightarrow> timer_service" where
  "timer_cancel fsm now name st =
     timer_reschedule fsm now (st\<lparr>tm_deadlines := AList.delete name (tm_deadlines st)\<rparr>)"

definition timer_cancel_all :: "timer_service \<Rightarrow> timer_service" where
  "timer_cancel_all st = st\<lparr>tm_deadlines := [], tm_handle := None\<rparr>"

definition timer_deadline :: "string \<Rightarrow> timer_service \<Rightarrow> int option" where
  "timer_deadline name st = map_of (tm_deadlines st) name"

definition timer_armed :: "int \<Rightarrow> string \<Rightarrow> timer_service \<Rightarrow> bool" where
  "timer_armed now name st = (case map_of (tm_deadlines st) name of None \<Rightarrow> False | Some d \<Rightarrow> now < d)"

definition timer_expired :: "int \<Rightarrow> string \<Rightarrow> timer_service \<Rightarrow> bool" where
  "timer_expired now name st = (case map_of (tm_deadlines st) name of None \<Rightarrow> False | Some d \<Rightarrow> now \<ge> d)"

section \<open>Lemmas\<close>

lemma reschedule_deadlines [simp]: "tm_deadlines (timer_reschedule fsm now st) = tm_deadlines st"
  by (simp add: timer_reschedule_def Let_def)

lemma deadline_laws:
  "timer_deadline n (timer_arm fsm now m delay st) = (if n = m then Some (now + delay) else timer_deadline n st)"
  "timer_deadline n (timer_cancel fsm now m st) = (if n = m then None else timer_deadline n st)"
  "timer_deadline n (timer_cancel_all st) = None"
  by (simp_all add: timer_deadline_def timer_arm_def timer_cancel_def timer_cancel_all_def update_conv' delete_conv')

lemma armed_expired:
  "timer_armed now n st \<longleftrightarrow> (\<exists>d. timer_deadline n st = Some d \<and> now < d)"
  "timer_expired now n st \<longleftrightarrow> (\<exists>d. timer_deadline n st = Some d \<and> d \<le> now)"
  by (auto simp: timer_armed_def timer_expired_def timer_deadline_def split: option.splits)

text \<open>The handle covers every serviced deadline.\<close>

definition covers :: "fsm_state \<Rightarrow> int \<Rightarrow> timer_service \<Rightarrow> bool" where
  "covers fsm now st \<longleftrightarrow>
     (case tm_handle st of
        None \<Rightarrow> pending_deadlines fsm st = []
      | Some t \<Rightarrow> now < t \<and> (\<forall>d \<in> set (pending_deadlines fsm st). t \<le> max (now + 1) d) \<and>
          (\<exists>d \<in> set (pending_deadlines fsm st). t = max (now + 1) d))"

lemma reschedule_covers: "covers fsm now (timer_reschedule fsm now st)"
proof (cases "pending_deadlines fsm st = []")
  case True
  then show ?thesis by (simp add: covers_def timer_reschedule_def Let_def pending_deadlines_def)
next
  case False
  define m where "m = Min (set (pending_deadlines fsm st))"
  have m: "m \<in> set (pending_deadlines fsm st)" "\<forall>d \<in> set (pending_deadlines fsm st). m \<le> d"
    using False by (auto simp: m_def)
  have p: "pending_deadlines fsm (timer_reschedule fsm now st) = pending_deadlines fsm st"
    by (simp add: pending_deadlines_def)
  have "pending_deadlines fsm (st\<lparr>tm_handle := None\<rparr>) = pending_deadlines fsm st" by (simp add: pending_deadlines_def)
  then have h: "tm_handle (timer_reschedule fsm now st) = Some (max (now + 1) m)"
    using False by (simp add: timer_reschedule_def Let_def flip: m_def)
  show ?thesis using m by (auto simp: covers_def h p intro!: bexI [of _ m])
qed

section \<open>Properties\<close>

text \<open>
  No timer is missed. After arming, cancelling or rescheduling, the service handle is
  free exactly when no timer of the current state is armed; otherwise it lies in the future,
  no later than any such deadline (or one millisecond from now, for one already due) and at
  exactly one of them. A timer just armed has the requested deadline and is running for a
  positive delay, a cancelled one neither runs nor is expired, and others keep theirs.
\<close>

lemma timers_covered:
  "covers fsm now (timer_arm fsm now n delay st) \<and> covers fsm now (timer_cancel fsm now n st) \<and>
   covers fsm now (timer_reschedule fsm now st) \<and>
   (timer_armed now n (timer_arm fsm now n delay st) \<longleftrightarrow> 0 < delay) \<and>
   \<not> timer_armed t n (timer_cancel fsm now n st) \<and> \<not> timer_expired t n (timer_cancel fsm now n st) \<and>
   (m \<noteq> n \<longrightarrow> timer_deadline m (timer_arm fsm now n delay st) = timer_deadline m st \<and>
     timer_deadline m (timer_cancel fsm now n st) = timer_deadline m st)"
  by (simp add: timer_arm_def timer_cancel_def reschedule_covers)
    (simp add: armed_expired deadline_laws flip: timer_arm_def timer_cancel_def)

lemma timers_covered_witness:
  "covers ESTABLISHED 10 (timer_arm ESTABLISHED 10 ''rack'' 5 timer_init) \<and>
   timer_deadline ''tlp'' (timer_arm ESTABLISHED 10 ''rack'' 5 timer_init) = timer_deadline ''tlp'' timer_init"
  using timers_covered [of ESTABLISHED 10 "''rack''" 5 timer_init 0 "''tlp''"] by simp

end
