(* ===== verification/Tcp_Sack.thy ===== *)
theory Tcp_Sack
  imports Tcp_Seq
begin

text \<open>
  \<^verbatim>\<open>protocols/tcp/tcp__sack.py\<close> (the SACK scoreboard) and
  \<^verbatim>\<open>protocols/tcp/tcp__loss_recovery.py\<close> (RFC 6675 IsLost, NextSeg and Pipe).

  The scoreboard is a list of half-open blocks in modular sequence space. Its
  specification is a set of sequence numbers: relative to a base \<open>u\<close> (SND.UNA) below all
  blocks, \<open>covered u\<close> is the set the blocks denote, and \<open>sb_ok u\<close> the invariant that blocks
  are not empty, lie in the half space above \<open>u\<close> and neither overlap nor touch. Insertion is
  union, the membership test is membership, pruning is difference, the byte count is the
  cardinality and the first gap is the least number missing.
\<close>

type_synonym sack_block = "seq32 \<times> seq32"
type_synonym scoreboard = "sack_block list"

section \<open>The scoreboard\<close>

definition overlaps_or_touches :: "seq32 \<Rightarrow> seq32 \<Rightarrow> seq32 \<Rightarrow> seq32 \<Rightarrow> bool" where
  "overlaps_or_touches a_left a_right b_left b_right =
     (if a_right = b_left \<or> b_right = a_left then True
      else if in_range32 b_left a_left (sub32 a_right 1) then True
      else if in_range32 a_left b_left (sub32 b_right 1) then True
      else False)"

definition merge_blocks :: "seq32 \<Rightarrow> seq32 \<Rightarrow> seq32 \<Rightarrow> seq32 \<Rightarrow> sack_block" where
  "merge_blocks a_left a_right b_left b_right =
     (if le32 a_left b_left then a_left else b_left,
      if ge32 a_right b_right then a_right else b_right)"

fun absorb :: "seq32 \<Rightarrow> seq32 \<Rightarrow> scoreboard \<Rightarrow> scoreboard \<Rightarrow> scoreboard" where
  "absorb left right [] survivors = survivors @ [(left, right)]"
| "absorb left right ((block_left, block_right) # bs) survivors =
     (if overlaps_or_touches left right block_left block_right
      then (case merge_blocks left right block_left block_right of (l, r) \<Rightarrow> absorb l r bs survivors)
      else absorb left right bs (survivors @ [(block_left, block_right)]))"

definition add_block :: "seq32 \<Rightarrow> seq32 \<Rightarrow> scoreboard \<Rightarrow> scoreboard res" where
  "add_block left right bs = passert (lt32 left right) (Inr (absorb left right bs []))"

definition clear_blocks :: "scoreboard \<Rightarrow> scoreboard" where
  "clear_blocks bs = []"

definition is_sacked :: "seq32 \<Rightarrow> scoreboard \<Rightarrow> bool" where
  "is_sacked seq bs = list_ex (\<lambda>(l, r). in_range32 seq l (sub32 r 1)) bs"

fun prune_below :: "seq32 \<Rightarrow> scoreboard \<Rightarrow> scoreboard" where
  "prune_below snd_una [] = []"
| "prune_below snd_una ((left, right) # bs) =
     (if le32 right snd_una then prune_below snd_una bs
      else (if lt32 left snd_una then snd_una else left, right) # prune_below snd_una bs)"

definition total_sacked_bytes :: "scoreboard \<Rightarrow> int" where
  "total_sacked_bytes bs = sum_list (map (\<lambda>(left, right). uint (right - left)) bs)"

fun gap_walk :: "seq32 \<Rightarrow> scoreboard \<Rightarrow> seq32" where
  "gap_walk cursor [] = cursor"
| "gap_walk cursor ((left, right) # bs) =
     (if left = cursor then gap_walk right bs
      else if lt32 left cursor then gap_walk cursor bs
      else cursor)"

definition first_gap :: "seq32 \<Rightarrow> scoreboard \<Rightarrow> seq32" where
  "first_gap snd_una bs = gap_walk snd_una (sort_key (\<lambda>b. uint (fst b - snd_una)) bs)"

section \<open>Loss recovery\<close>

definition TCP__DUP_THRESH :: int where
  "TCP__DUP_THRESH = 3"

definition blocks_above :: "seq32 \<Rightarrow> scoreboard \<Rightarrow> scoreboard" where
  "blocks_above seq bs = filter (\<lambda>(left, right). le32 seq left) bs"

definition is_lost :: "seq32 \<Rightarrow> scoreboard \<Rightarrow> int \<Rightarrow> int \<Rightarrow> bool res" where
  "is_lost seq bs mss dup_thresh =
     passert (mss > 0) (passert (dup_thresh > 0)
       (let above = blocks_above seq bs;
            bytes_above = sum_list (map (\<lambda>(left, right). uint (sub32 right (uint left))) above)
        in Inr (if int (length above) \<ge> dup_thresh then True
                else if bytes_above > (dup_thresh - 1) * mss then True else False)))"

definition next_seg :: "scoreboard \<Rightarrow> seq32 \<Rightarrow> seq32 \<Rightarrow> int \<Rightarrow> int \<Rightarrow> seq32 option res" where
  "next_seg bs snd_una snd_max mss dup_thresh =
     (let gap = first_gap snd_una bs in
      if \<not> lt32 gap snd_max then Inr None
      else bind_res (is_lost gap bs mss dup_thresh) (\<lambda>lost. Inr (if lost then Some gap else None)))"

definition pipe :: "scoreboard \<Rightarrow> seq32 \<Rightarrow> seq32 \<Rightarrow> int" where
  "pipe bs snd_una snd_max =
     (let in_flight = uint (sub32 snd_max (uint snd_una));
          sacked = sum_list (map (\<lambda>(left, right). uint (sub32 right (uint left)))
                     (filter (\<lambda>(left, right). le32 snd_una left \<and> le32 right snd_max) bs))
      in in_flight - sacked)"

section \<open>Ingesting the blocks of an ACK\<close>

text \<open>
  The scoreboard part of \<^verbatim>\<open>TcpSession._ingest_sack_info\<close>: the first block is a DSACK report
  when it lies at or below SND.UNA or inside a later block, and is then not recorded; every
  other block goes through the window gate into the scoreboard.
\<close>

fun is_dsack :: "seq32 \<Rightarrow> sack_block list \<Rightarrow> bool" where
  "is_dsack snd_una [] = False"
| "is_dsack snd_una ((first_left, first_right) # rest) =
     (if le32 first_right snd_una then True
      else list_ex (\<lambda>(outer_left, outer_right). le32 outer_left first_left \<and> le32 first_right outer_right) rest)"

fun ingest_loop :: "seq32 \<Rightarrow> seq32 \<Rightarrow> sack_block list \<Rightarrow> scoreboard \<Rightarrow> scoreboard res" where
  "ingest_loop snd_una snd_max [] sb = Inr sb"
| "ingest_loop snd_una snd_max ((left, right) # bs) sb =
     (if le32 snd_una left \<and> le32 right snd_max \<and> lt32 left right
      then bind_res (add_block left right sb) (ingest_loop snd_una snd_max bs)
      else ingest_loop snd_una snd_max bs sb)"

definition ingest_sack :: "seq32 \<Rightarrow> seq32 \<Rightarrow> sack_block list \<Rightarrow> scoreboard \<Rightarrow> scoreboard res" where
  "ingest_sack snd_una snd_max blocks sb =
     (if blocks = [] then Inr sb
      else ingest_loop snd_una snd_max (if is_dsack snd_una blocks then tl blocks else blocks) sb)"

section \<open>Specification\<close>

definition covered :: "seq32 \<Rightarrow> scoreboard \<Rightarrow> seq32 set" where
  "covered u bs = {x. \<exists>(l, r) \<in> set bs. fwd u l \<le> fwd u x \<and> fwd u x < fwd u r}"

definition block_ok :: "seq32 \<Rightarrow> sack_block \<Rightarrow> bool" where
  "block_ok u b \<longleftrightarrow> fwd u (fst b) < fwd u (snd b) \<and> fwd u (snd b) < 2147483648"

text \<open>Blocks apart: at least one uncovered number lies between them.\<close>

definition apart :: "seq32 \<Rightarrow> sack_block \<Rightarrow> sack_block \<Rightarrow> bool" where
  "apart u b c \<longleftrightarrow> fwd u (snd b) < fwd u (fst c) \<or> fwd u (snd c) < fwd u (fst b)"

definition sb_ok :: "seq32 \<Rightarrow> scoreboard \<Rightarrow> bool" where
  "sb_ok u bs \<longleftrightarrow> (\<forall>b \<in> set bs. block_ok u b) \<and> sorted_wrt (apart u) bs"

lemma apart_sym: "apart u b c \<longleftrightarrow> apart u c b"
  by (auto simp: apart_def)

lemma block_okD:
  assumes "block_ok u (l, r)"
  shows "fwd u l < fwd u r" "fwd u l < 2147483648" "fwd u r < 2147483648"
  using assms by (auto simp: block_ok_def)

lemma covered_simps [simp]:
  "covered u [] = {}"
  "covered u (bs @ cs) = covered u bs \<union> covered u cs"
  "covered u ((l, r) # bs) = {x. fwd u l \<le> fwd u x \<and> fwd u x < fwd u r} \<union> covered u bs"
  by (auto simp: covered_def)

lemma touch_iff:
  assumes "block_ok u (a, b)" "block_ok u (c, d)"
  shows "overlaps_or_touches a b c d \<longleftrightarrow> fwd u a \<le> fwd u d \<and> fwd u c \<le> fwd u b"
proof -
  have eq: "b = c \<longleftrightarrow> fwd u b = fwd u c" "d = a \<longleftrightarrow> fwd u d = fwd u a" by simp_all
  have ab: "fwd u a < fwd u b" "fwd u c < fwd u d" using assms by (auto simp: block_ok_def)
  show ?thesis
    using ab in_block32 [OF ab(1), of c] in_block32 [OF ab(2), of a]
    unfolding overlaps_or_touches_def eq by auto
qed

lemma touch_apart: "block_ok u (a, b) \<Longrightarrow> block_ok u (c, d) \<Longrightarrow>
    overlaps_or_touches a b c d \<longleftrightarrow> \<not> apart u (a, b) (c, d)"
  by (auto simp: touch_iff apart_def)

lemma merge_fwd:
  assumes "block_ok u (a, b)" "block_ok u (c, d)" "merge_blocks a b c d = (l, r)"
  shows "fwd u l = min (fwd u a) (fwd u c)" "fwd u r = max (fwd u b) (fwd u d)" "block_ok u (l, r)"
proof -
  note ok = block_okD [OF assms(1)] block_okD [OF assms(2)]
  show l: "fwd u l = min (fwd u a) (fwd u c)" and r: "fwd u r = max (fwd u b) (fwd u d)"
    using assms(3) le32_fwd [OF ok(2) ok(5)] le32_fwd [OF ok(6) ok(3)]
    by (auto simp: merge_blocks_def ge32_def min_def max_def)
  show "block_ok u (l, r)" using ok by (auto simp: block_ok_def l r)
qed

section \<open>Insertion\<close>

lemma hull_apart:
  assumes "block_ok u (a, b)" "block_ok u (c, d)" "\<not> apart u (a, b) (c, d)"
    "merge_blocks a b c d = (l, r)" "block_ok u s" "apart u s (a, b)" "apart u s (c, d)"
  shows "apart u s (l, r)"
  using assms(1-3,5-7) merge_fwd(1,2) [OF assms(1,2,4)] by (auto simp: apart_def block_ok_def)

lemma hull_covered:
  assumes "block_ok u (a, b)" "block_ok u (c, d)" "\<not> apart u (a, b) (c, d)" "merge_blocks a b c d = (l, r)"
  shows "covered u [(l, r)] = covered u [(a, b)] \<union> covered u [(c, d)]"
  using assms(1-3) merge_fwd(1,2) [OF assms(1,2,4)] by (auto simp: apart_def block_ok_def)

lemma sb_ok_Cons: "sb_ok u (b # bs) \<longleftrightarrow> block_ok u b \<and> (\<forall>c \<in> set bs. apart u b c) \<and> sb_ok u bs"
  by (auto simp: sb_ok_def)

lemma sb_ok_append:
  "sb_ok u (bs @ cs) \<longleftrightarrow> sb_ok u bs \<and> sb_ok u cs \<and> (\<forall>b \<in> set bs. \<forall>c \<in> set cs. apart u b c)"
  by (auto simp: sb_ok_def sorted_wrt_append)

lemma absorb_correct:
  assumes "block_ok u (l, r)" "sb_ok u (sv @ bs)" "\<forall>s \<in> set sv. apart u s (l, r)"
  shows "sb_ok u (absorb l r bs sv) \<and> covered u (absorb l r bs sv) = covered u (sv @ bs) \<union> covered u [(l, r)]"
  using assms
proof (induction bs arbitrary: l r sv)
  case Nil
  then show ?case by (simp add: sb_ok_append sb_ok_Cons) (simp add: sb_ok_def)
next
  case (Cons b bs)
  obtain c d where b: "b = (c, d)" by (cases b)
  have ok: "block_ok u (c, d)" using Cons.prems(2) by (simp add: b sb_ok_def)
  show ?case
  proof (cases "overlaps_or_touches l r c d")
    case True
    obtain l' r' where m: "merge_blocks l r c d = (l', r')" by fastforce
    have na: "\<not> apart u (l, r) (c, d)" using True touch_apart [OF Cons.prems(1) ok] by simp
    have "\<forall>s \<in> set sv. apart u s (l', r')"
    proof
      fix s assume s: "s \<in> set sv"
      then have "apart u s (c, d)" using Cons.prems(2) by (auto simp: b sb_ok_append)
      moreover have "block_ok u s" using Cons.prems(2) s by (auto simp: sb_ok_def)
      ultimately show "apart u s (l', r')" using hull_apart [OF Cons.prems(1) ok na m] Cons.prems(3) s by blast
    qed
    moreover have "sb_ok u (sv @ bs)" using Cons.prems(2) by (auto simp: sb_ok_append sb_ok_Cons)
    ultimately have "sb_ok u (absorb l' r' bs sv) \<and>
        covered u (absorb l' r' bs sv) = covered u (sv @ bs) \<union> covered u [(l', r')]"
      using Cons.IH merge_fwd(3) [OF Cons.prems(1) ok m] by blast
    then show ?thesis
      using True m hull_covered [OF Cons.prems(1) ok na m] by (auto simp: b)
  next
    case False
    then have "apart u (c, d) (l, r)" using touch_apart [OF Cons.prems(1) ok] by (simp add: apart_sym)
    then have "sb_ok u (absorb l r bs (sv @ [(c, d)])) \<and>
        covered u (absorb l r bs (sv @ [(c, d)])) = covered u ((sv @ [(c, d)]) @ bs) \<union> covered u [(l, r)]"
      using Cons.prems by (intro Cons.IH) (auto simp: b)
    then show ?thesis using False by (auto simp: b)
  qed
qed

lemma add_block_correct:
  assumes "sb_ok u bs" "fwd u l < fwd u r" "fwd u r < 2147483648"
  shows "\<exists>bs'. add_block l r bs = Inr bs' \<and> sb_ok u bs' \<and>
    covered u bs' = covered u bs \<union> {x. fwd u l \<le> fwd u x \<and> fwd u x < fwd u r}"
proof -
  have "lt32 l r" using assms(2,3) by (simp add: lt32_fwd [of u])
  moreover have "block_ok u (l, r)" using assms(2,3) by (simp add: block_ok_def)
  ultimately show ?thesis using absorb_correct [of u l r "[]" bs] assms(1) by (simp add: add_block_def)
qed

section \<open>Membership, counting and pruning\<close>

lemma is_sacked_correct: "sb_ok u bs \<Longrightarrow> is_sacked x bs \<longleftrightarrow> x \<in> covered u bs"
proof (induction bs)
  case (Cons b bs)
  obtain l r where b: "b = (l, r)" by (cases b)
  have "fwd u l < fwd u r" "sb_ok u bs" using Cons.prems by (auto simp: b sb_ok_Cons block_ok_def)
  then show ?case using Cons.IH in_block32 [of u l r x] by (auto simp: b is_sacked_def)
qed (simp add: is_sacked_def)

text \<open>Forward distance is a bijection, so intervals of distances have their length as cardinality.\<close>

lemma fwd_inverse: "0 \<le> d \<Longrightarrow> d < 4294967296 \<Longrightarrow> fwd u (u + of_int d) = d"
  using fwd_add [of u u d] by simp

lemma fwd_image: "0 \<le> a \<Longrightarrow> b \<le> 4294967296 \<Longrightarrow> fwd u ` {x. a \<le> fwd u x \<and> fwd u x < b} = {a..<b}"
proof (intro set_eqI iffI)
  fix d assume ab: "0 \<le> a" "b \<le> 4294967296" and "d \<in> {a..<b}"
  then show "d \<in> fwd u ` {x. a \<le> fwd u x \<and> fwd u x < b}"
    by (intro image_eqI [of _ _ "u + of_int d"]) (auto simp: fwd_inverse)
qed auto

lemma card_interval:
  assumes "0 \<le> a" "b \<le> 4294967296"
  shows "card {x. a \<le> fwd u x \<and> fwd u x < b} = nat (b - a)"
proof -
  have "inj_on (fwd u) {x. a \<le> fwd u x \<and> fwd u x < b}" by (rule inj_onI) simp
  from card_image [OF this] show ?thesis using fwd_image [OF assms, of u] by simp
qed

lemma total_correct: "sb_ok u bs \<Longrightarrow> total_sacked_bytes bs = int (card (covered u bs))"
proof (induction bs)
  case (Cons b bs)
  obtain l r where b: "b = (l, r)" by (cases b)
  have ok: "fwd u l < fwd u r" "fwd u r < 2147483648" and sep: "\<forall>c \<in> set bs. apart u (l, r) c" and bs: "sb_ok u bs"
    using Cons.prems by (auto simp: b sb_ok_Cons block_ok_def)
  let ?B = "{x. fwd u l \<le> fwd u x \<and> fwd u x < fwd u r}"
  have "uint (r - l) = fwd u r - fwd u l" using fwd_rebase [of u l r] ok by (simp add: fwd_def)
  moreover have "card ?B = nat (fwd u r - fwd u l)" using ok by (intro card_interval) auto
  moreover have "?B \<inter> covered u bs = {}" using sep ok by (fastforce simp: covered_def apart_def)
  then have "card (?B \<union> covered u bs) = card ?B + card (covered u bs)" by (intro card_Un_disjoint) auto
  ultimately show ?case using Cons.IH [OF bs] ok by (simp add: b total_sacked_bytes_def)
qed (simp add: total_sacked_bytes_def)

text \<open>Distances above a new base \<open>una\<close>, and membership in a pruned scoreboard.\<close>

lemma block_una:
  assumes "block_ok u (l, r)" "fwd u una < 2147483648"
  shows "le32 r una \<longleftrightarrow> fwd u r \<le> fwd u una" "lt32 l una \<longleftrightarrow> fwd u l < fwd u una"
  using block_okD [OF assms(1)] assms(2) by (simp_all add: le32_fwd [of u] lt32_fwd [of u])

lemma prune_mem:
  assumes "\<forall>b \<in> set bs. block_ok u b" "fwd u una < 2147483648" "(l, r) \<in> set (prune_below una bs)"
  shows "\<exists>l'. (l', r) \<in> set bs \<and> fwd u una < fwd u r \<and> l = (if fwd u l' < fwd u una then una else l')"
  using assms
proof (induction bs)
  case (Cons b bs)
  obtain c d where b: "b = (c, d)" by (cases b)
  have "block_ok u (c, d)" using Cons.prems(1) by (simp add: b)
  note una = block_una [OF this assms(2)]
  show ?case using Cons by (auto simp: b una split: if_splits)
qed simp

lemma interval_una:
  assumes "fwd u una \<le> fwd u l" "fwd u l < fwd u r" "fwd u r < 2147483648"
  shows "{x. fwd una l \<le> fwd una x \<and> fwd una x < fwd una r} = {x. fwd u l \<le> fwd u x \<and> fwd u x < fwd u r}"
proof (intro set_eqI)
  fix x
  have lr: "fwd una l = fwd u l - fwd u una" "fwd una r = fwd u r - fwd u una"
    using assms fwd_rebase [of u una l] fwd_rebase [of u una r] by simp_all
  show "x \<in> {x. fwd una l \<le> fwd una x \<and> fwd una x < fwd una r} \<longleftrightarrow>
      x \<in> {x. fwd u l \<le> fwd u x \<and> fwd u x < fwd u r}"
  proof (cases "fwd u una \<le> fwd u x")
    case True
    then show ?thesis using fwd_rebase [OF True] by (simp add: lr)
  next
    case False
    then have "fwd una x = fwd u x - fwd u una + 4294967296" by (intro fwd_rebase_back) simp
    then have "\<not> fwd una x < fwd una r" unfolding lr using assms fwd_bounds(1) [of u x] by linarith
    then show ?thesis using False assms by auto
  qed
qed

lemma prune_correct:
  assumes "sb_ok u bs" "fwd u una < 2147483648"
  shows "sb_ok una (prune_below una bs) \<and>
    covered una (prune_below una bs) = {x \<in> covered u bs. fwd u una \<le> fwd u x}"
  using assms(1)
proof (induction bs)
  case Nil
  show ?case by (simp add: sb_ok_def)
next
  case (Cons b bs)
  obtain l r where b: "b = (l, r)" by (cases b)
  have ok: "block_ok u (l, r)" and sep: "\<forall>c \<in> set bs. apart u (l, r) c" and bs: "sb_ok u bs"
    using Cons.prems by (auto simp: b sb_ok_Cons)
  note una = block_una [OF ok assms(2)] and lr = block_okD [OF ok]
  note IH = Cons.IH [OF bs]
  show ?case
  proof (cases "fwd u r \<le> fwd u una")
    case True
    then have "{x. fwd u l \<le> fwd u x \<and> fwd u x < fwd u r} \<inter> {x. fwd u una \<le> fwd u x} = {}" by auto
    moreover have "prune_below una (b # bs) = prune_below una bs" using True by (simp add: b una)
    ultimately show ?thesis using IH unfolding b covered_simps by (simp only:) blast
  next
    case False
    define k where "k = (if fwd u l < fwd u una then una else l)"
    have k: "fwd u una \<le> fwd u k" "fwd u k < fwd u r" "fwd u k = max (fwd u l) (fwd u una)"
      using False lr by (auto simp: k_def)
    have re: "fwd una x = fwd u x - fwd u una" if "fwd u una \<le> fwd u x" for x using fwd_rebase that by blast
    have "fwd u r - fwd u una < 2147483648" using lr fwd_bounds(1) [of u una] by linarith
    then have "block_ok una (k, r)" using False k by (simp add: block_ok_def re)
    moreover have "\<forall>c \<in> set (prune_below una bs). apart una (k, r) c"
    proof
      fix c assume c: "c \<in> set (prune_below una bs)"
      have "\<forall>b \<in> set bs. block_ok u b" using bs by (simp add: sb_ok_def)
      from prune_mem [OF this assms(2), of "fst c" "snd c"] c
      obtain l' where l': "(l', snd c) \<in> set bs" "fwd u una < fwd u (snd c)"
        "fst c = (if fwd u l' < fwd u una then una else l')" by auto
      then have "apart u (l, r) (l', snd c)" "fwd u (fst c) = max (fwd u l') (fwd u una)" using sep by auto
      then show "apart una (k, r) c" using False k l'(2) by (auto simp: apart_def re)
    qed
    moreover have "covered una ((k, r) # prune_below una bs) = {x \<in> covered u (b # bs). fwd u una \<le> fwd u x}"
      using IH interval_una [OF k(1,2) lr(3)] k(3) by (auto simp: b)
    ultimately show ?thesis using IH False by (simp add: b una sb_ok_Cons flip: k_def)
  qed
qed

section \<open>The first gap\<close>

lemma apart_irrefl: "block_ok u b \<Longrightarrow> \<not> apart u b b"
  by (auto simp: apart_def block_ok_def)

lemma sb_ok_pairs: "sb_ok u bs \<longleftrightarrow>
    (\<forall>b \<in> set bs. block_ok u b) \<and> distinct bs \<and> (\<forall>b \<in> set bs. \<forall>c \<in> set bs. b \<noteq> c \<longrightarrow> apart u b c)"
proof (induction bs)
  case (Cons b bs)
  have sym: "(\<forall>c \<in> set bs. apart u c b) \<longleftrightarrow> (\<forall>c \<in> set bs. apart u b c)" using apart_sym by blast
  have new: "b \<notin> set bs" if "block_ok u b" "\<forall>c \<in> set bs. apart u b c" using that apart_irrefl by blast
  show ?case using new sym by (auto simp: sb_ok_Cons Cons.IH)
qed (simp add: sb_ok_def)

lemma sb_ok_set_cong: "set bs = set cs \<Longrightarrow> distinct bs = distinct cs \<Longrightarrow> sb_ok u bs = sb_ok u cs"
  by (simp add: sb_ok_pairs)

lemma sb_ok_sorted:
  assumes "sb_ok u bs" "sorted (map (\<lambda>b. fwd u (fst b)) bs)"
  shows "sorted_wrt (\<lambda>b c. fwd u (snd b) < fwd u (fst c)) bs"
  using assms
proof (induction bs)
  case (Cons b bs)
  have "fwd u (snd b) < fwd u (fst c)" if "c \<in> set bs" for c
  proof -
    have "apart u b c" "block_ok u c" "fwd u (fst b) \<le> fwd u (fst c)"
      using Cons.prems that by (auto simp: sb_ok_Cons sb_ok_def)
    then show ?thesis by (auto simp: apart_def block_ok_def)
  qed
  then show ?case using Cons by (auto simp: sb_ok_Cons)
qed simp

text \<open>\<open>g\<close> is the least uncovered number at or above \<open>c\<close>.\<close>

definition least_gap :: "seq32 \<Rightarrow> seq32 \<Rightarrow> scoreboard \<Rightarrow> seq32 \<Rightarrow> bool" where
  "least_gap u c bs g \<longleftrightarrow>
     fwd u c \<le> fwd u g \<and> g \<notin> covered u bs \<and> (\<forall>x. fwd u c \<le> fwd u x \<and> fwd u x < fwd u g \<longrightarrow> x \<in> covered u bs)"

lemma gap_walk_correct:
  assumes "\<forall>b \<in> set es. block_ok u b \<and> fwd u c \<le> fwd u (fst b)"
    "sorted_wrt (\<lambda>b c. fwd u (snd b) < fwd u (fst c)) es" "fwd u c < 2147483648"
  shows "least_gap u c es (gap_walk c es) \<and> fwd u (gap_walk c es) < 2147483648"
  using assms
proof (induction es arbitrary: c)
  case (Cons e es)
  obtain l r where e: "e = (l, r)" by (cases e)
  have lr: "fwd u l < fwd u r" "fwd u r < 2147483648" "fwd u c \<le> fwd u l"
    using Cons.prems(1) by (auto simp: e block_ok_def)
  show ?case
  proof (cases "l = c")
    case True
    have "\<forall>b \<in> set es. block_ok u b \<and> fwd u r \<le> fwd u (fst b)" using Cons.prems(1,2) by (auto simp: e)
    then have IH: "least_gap u r es (gap_walk r es)" "fwd u (gap_walk r es) < 2147483648"
      using Cons.IH [of r] Cons.prems(2) lr by auto
    then have "least_gap u c ((l, r) # es) (gap_walk r es)"
      using True lr unfolding least_gap_def by (simp add: not_less) (meson not_le order_trans less_imp_le)
    then show ?thesis using IH True by (simp add: e)
  next
    case False
    then have "fwd u c \<noteq> fwd u l" by simp
    then have lt: "fwd u c < fwd u l" using lr(3) by linarith
    then have "\<not> lt32 l c" using lr Cons.prems(3) by (simp add: lt32_fwd [of u])
    moreover have "c \<notin> covered u (e # es)" using lt lr Cons.prems(2) by (fastforce simp: e covered_def)
    ultimately show ?thesis using False Cons.prems(3) by (simp add: e least_gap_def)
  qed
qed (simp add: least_gap_def)

lemma first_gap_correct:
  assumes "sb_ok u bs"
  shows "least_gap u u bs (first_gap u bs)" "fwd u (first_gap u bs) < 2147483648"
proof -
  define es where "es = sort_key (\<lambda>b. fwd u (fst b)) bs"
  have ok: "sb_ok u es" using assms by (subst sb_ok_set_cong [of _ bs]) (auto simp: es_def)
  then have srt: "sorted_wrt (\<lambda>b c. fwd u (snd b) < fwd u (fst c)) es"
    by (rule sb_ok_sorted) (simp add: es_def)
  have "least_gap u u es (gap_walk u es) \<and> fwd u (gap_walk u es) < 2147483648"
    using ok srt by (intro gap_walk_correct) (auto simp: sb_ok_def)
  moreover have "covered u es = covered u bs" by (simp add: covered_def es_def)
  ultimately show "least_gap u u bs (first_gap u bs)" "fwd u (first_gap u bs) < 2147483648"
    by (simp_all add: first_gap_def least_gap_def es_def fwd_def)
qed

section \<open>Loss detection\<close>

definition block_bytes :: "scoreboard \<Rightarrow> int" where
  "block_bytes bs = sum_list (map (\<lambda>(left, right). uint (sub32 right (uint left))) bs)"

lemma sub32_uint: "uint (sub32 r (uint l)) = fwd l r"
  by (simp add: sub32_def fwd_def)

lemma block_bytes_total: "block_bytes bs = total_sacked_bytes bs"
  by (simp add: block_bytes_def total_sacked_bytes_def sub32_uint fwd_def)

lemma block_bytes_filter: "block_bytes (filter P bs) \<le> block_bytes bs"
  by (induction bs) (auto simp: block_bytes_def sub32_uint intro: add_increasing)

lemma blocks_above_mono:
  assumes "sb_ok u bs" "fwd u s \<le> fwd u t" "fwd u t < 2147483648"
  shows "blocks_above t bs = filter (\<lambda>(l, r). le32 t l) (blocks_above s bs)"
proof -
  have "le32 s l" if "(l, r) \<in> set bs" "le32 t l" for l r
  proof -
    have "fwd u l < 2147483648" using assms(1) that(1) by (auto simp: sb_ok_def block_ok_def)
    then show ?thesis using that(2) assms(2,3) by (simp add: le32_fwd [of u])
  qed
  then show ?thesis by (auto simp: blocks_above_def intro!: filter_cong)
qed

lemma is_lost_antimono:
  assumes "sb_ok u bs" "fwd u s \<le> fwd u t" "fwd u t < 2147483648" "is_lost t bs mss d = Inr True"
  shows "is_lost s bs mss d = Inr True"
proof -
  let ?P = "\<lambda>(l, r). le32 t l"
  have t: "blocks_above t bs = filter ?P (blocks_above s bs)" by (rule blocks_above_mono [OF assms(1-3)])
  have "length (blocks_above t bs) \<le> length (blocks_above s bs)"
    "block_bytes (blocks_above t bs) \<le> block_bytes (blocks_above s bs)"
    unfolding t using block_bytes_filter by auto
  then show ?thesis using assms(4) by (auto simp: is_lost_def Let_def block_bytes_def split: if_splits)
qed

section \<open>The range set behind the scoreboard\<close>

text \<open>
  What a store of ranges promises its client: inserting a good range succeeds, keeps the
  invariant and adds exactly that range. The client's view of a run of insertions follows:
  the store denotes the union, whatever the order of arrival and however often a range is
  repeated.
\<close>

locale range_store =
  fixes ok :: "'b \<Rightarrow> bool" and den :: "'b \<Rightarrow> 'x set"
    and insert_all :: "'r list \<Rightarrow> 'b \<Rightarrow> 'b res"
    and good :: "'r \<Rightarrow> bool" and rng :: "'r \<Rightarrow> 'x set"
  assumes insert_none: "insert_all [] b = Inr b"
    and insert_one: "ok b \<Longrightarrow> good r \<Longrightarrow>
      \<exists>b'. ok b' \<and> den b' = den b \<union> rng r \<and> (\<forall>rs. insert_all (r # rs) b = insert_all rs b')"
begin

lemma insert_union:
  "ok b \<Longrightarrow> list_all good rs \<Longrightarrow>
     \<exists>b'. insert_all rs b = Inr b' \<and> ok b' \<and> den b' = den b \<union> \<Union> (rng ` set rs)"
proof (induction rs arbitrary: b)
  case (Cons r rs)
  then have "good r" by simp
  from insert_one [OF Cons.prems(1) this] obtain c where
    c: "ok c" "den c = den b \<union> rng r" "insert_all (r # rs) b = insert_all rs c" by blast
  with Cons.IH [OF c(1)] Cons.prems(2) show ?case by (auto simp: Un_assoc)
qed (auto simp: insert_none)

lemma insert_order:
  assumes "ok b" "list_all good rs" "set qs = set rs"
  obtains b' c' where "insert_all rs b = Inr b'" "insert_all qs b = Inr c'" "den b' = den c'"
proof -
  have "list_all good qs" using assms(2,3) by (simp add: list_all_iff)
  then show ?thesis using insert_union [OF assms(1,2)] insert_union [OF assms(1), of qs] assms(3) that by auto
qed

end

definition seq_range :: "seq32 \<Rightarrow> seq32 \<Rightarrow> seq32 \<Rightarrow> seq32 set" where
  "seq_range u l r = {x. fwd u l \<le> fwd u x \<and> fwd u x < fwd u r}"

text \<open>A block whose left edge lies in the window passes the gate exactly when it is not empty
  and ends in the window.\<close>

lemma gate_exact:
  assumes "fwd u m < 2147483648" "fwd u l \<le> fwd u m"
  shows "le32 u l \<and> le32 r m \<and> lt32 l r \<longleftrightarrow> fwd u l < fwd u r \<and> fwd u r \<le> fwd u m"
proof -
  have l: "fwd u l < 2147483648" and ul: "le32 u l" using assms le32_fwd [of u u l] by simp_all
  show ?thesis
  proof (cases "fwd u r < 2147483648")
    case True
    then show ?thesis using ul lt32_fwd [OF l True] le32_fwd [OF True assms(1)] by blast
  next
    case False
    have "fwd l r = fwd u r - fwd u l" using False l by (intro fwd_rebase) simp
    moreover have "fwd r m = fwd u m - fwd u r + 4294967296" using False assms(1) by (intro fwd_rebase_back) simp
    ultimately have sum: "fwd l r + fwd r m = fwd u m - fwd u l + 4294967296" by simp
    have "\<not> (le32 r m \<and> lt32 l r)"
    proof
      assume c: "le32 r m \<and> lt32 l r"
      then have "fwd r m \<le> 2147483648" "fwd l r \<le> 2147483648" by (auto simp: le32_iff lt32_iff split: if_splits)
      then have eq: "fwd r m = 2147483648" "fwd l r = 2147483648" "fwd u m = fwd u l"
        using sum assms(2) by linarith+
      then have "m = l" by simp
      then show False using c eq(1,2) by (auto simp: le32_iff lt32_iff)
    qed
    then show ?thesis using False assms(1) by linarith
  qed
qed

definition window_block :: "seq32 \<Rightarrow> seq32 \<Rightarrow> sack_block \<Rightarrow> bool" where
  "window_block u m b \<longleftrightarrow> fwd u m < 2147483648 \<and> fwd u (fst b) \<le> fwd u m"

definition block_range :: "seq32 \<Rightarrow> seq32 \<Rightarrow> sack_block \<Rightarrow> seq32 set" where
  "block_range u m b = (if fwd u (snd b) \<le> fwd u m then seq_range u (fst b) (snd b) else {})"

lemma ingest_step:
  assumes "sb_ok u bs" "window_block u m (l, r)"
  shows "\<exists>bs'. sb_ok u bs' \<and> covered u bs' = covered u bs \<union> block_range u m (l, r) \<and>
    (\<forall>rs. ingest_loop u m ((l, r) # rs) bs = ingest_loop u m rs bs')"
proof -
  have w: "fwd u m < 2147483648" "fwd u l \<le> fwd u m" using assms(2) by (simp_all add: window_block_def)
  note gate = gate_exact [OF w, of r]
  show ?thesis
  proof (cases "fwd u l < fwd u r \<and> fwd u r \<le> fwd u m")
    case True
    then obtain bs' where "add_block l r bs = Inr bs'" "sb_ok u bs'"
      "covered u bs' = covered u bs \<union> seq_range u l r"
      using add_block_correct [OF assms(1), of l r] w(1) by (auto simp: seq_range_def)
    then show ?thesis using True gate by (auto simp: block_range_def)
  next
    case False
    then have "block_range u m (l, r) = {}" by (auto simp: block_range_def seq_range_def)
    then show ?thesis using False gate assms(1) by (intro exI [of _ bs]) auto
  qed
qed

interpretation sack: range_store "sb_ok u" "covered u" "ingest_loop u m" "window_block u m" "block_range u m"
  for u m
proof unfold_locales
  fix b r assume "sb_ok u b" "window_block u m r"
  then show "\<exists>b'. sb_ok u b' \<and> covered u b' = covered u b \<union> block_range u m r \<and>
      (\<forall>rs. ingest_loop u m (r # rs) b = ingest_loop u m rs b')"
    using ingest_step [of u b m "fst r" "snd r"] by simp
qed simp

section \<open>Bytes in flight\<close>

lemma sb_ok_filter: "sb_ok u bs \<Longrightarrow> sb_ok u (filter P bs)"
  by (auto simp: sb_ok_def intro: sorted_wrt_filter)

lemma in_flight_filter:
  assumes "sb_ok u bs" "covered u bs \<subseteq> {x. fwd u x < fwd u m}" "fwd u m < 2147483648"
  shows "filter (\<lambda>(l, r). le32 u l \<and> le32 r m) bs = bs"
proof (rule filter_True, clarify)
  fix l r assume b: "(l, r) \<in> set bs"
  then have ok: "fwd u l < fwd u r" "fwd u r < 2147483648" using assms(1) by (auto simp: sb_ok_def block_ok_def)
  define x where "x = u + of_int (fwd u r - 1)"
  have x: "fwd u x = fwd u r - 1"
    unfolding x_def using ok fwd_bounds [of u l] by (intro fwd_inverse) linarith+
  then have "x \<in> covered u bs" using b ok by (auto simp: covered_def intro!: bexI [of _ "(l, r)"])
  then have "fwd u r \<le> fwd u m" using assms(2) x by auto
  then show "le32 u l \<and> le32 r m" using ok assms(3) by (simp add: le32_fwd [of u])
qed

lemma pipe_correct:
  assumes "sb_ok u bs" "covered u bs \<subseteq> {x. fwd u x < fwd u m}" "fwd u m < 2147483648"
  shows "pipe bs u m = int (card {x. fwd u x < fwd u m \<and> x \<notin> covered u bs})"
proof -
  let ?W = "{x. fwd u x < fwd u m}"
  have W: "card ?W = nat (fwd u m)" using card_interval [of 0 "fwd u m" u] assms(3) by simp
  have "pipe bs u m = fwd u m - total_sacked_bytes bs"
    unfolding pipe_def in_flight_filter [OF assms]
    by (simp add: sub32_uint block_bytes_total [unfolded block_bytes_def sub32_uint])
  also have "\<dots> = int (card ?W) - int (card (covered u bs))" using total_correct [OF assms(1)] W by simp
  also have "\<dots> = int (card (?W - covered u bs))"
    using assms(2) card_mono [OF _ assms(2)] by (simp add: card_Diff_subset of_nat_diff)
  finally show ?thesis by (simp add: set_diff_eq)
qed

section \<open>NextSeg\<close>

lemma least_gap_below: "least_gap u u bs g \<Longrightarrow> x \<notin> covered u bs \<Longrightarrow> fwd u g \<le> fwd u x"
  by (rule ccontr) (simp add: least_gap_def)

lemma next_seg_correct:
  assumes "sb_ok u bs" "fwd u m < 2147483648" "mss > 0" "d > 0"
  shows "next_seg bs u m mss d = Inr (Some g) \<longleftrightarrow>
      fwd u g < fwd u m \<and> least_gap u u bs g \<and> is_lost g bs mss d = Inr True"
    and "next_seg bs u m mss d = Inr None \<longleftrightarrow>
      (\<forall>x. fwd u x < fwd u m \<and> x \<notin> covered u bs \<longrightarrow> is_lost x bs mss d = Inr False)"
proof -
  define h where "h = first_gap u bs"
  have h: "least_gap u u bs h" "fwd u h < 2147483648"
    unfolding h_def using first_gap_correct [OF assms(1)] by blast+
  have uniq: "g = h" if "least_gap u u bs g" for g
  proof -
    have "fwd u g \<le> fwd u h" "fwd u h \<le> fwd u g"
      using least_gap_below [OF that] least_gap_below [OF h(1)] that h(1) by (simp_all add: least_gap_def)
    then have "fwd u g = fwd u h" by (rule antisym)
    then show ?thesis by simp
  qed
  have lt: "lt32 h m \<longleftrightarrow> fwd u h < fwd u m" using h(2) assms(2) by (rule lt32_fwd)
  obtain lost where lost: "is_lost h bs mss d = Inr lost" using assms(3,4) by (simp add: is_lost_def passert_def Let_def)
  have ns: "next_seg bs u m mss d = Inr (if fwd u h < fwd u m \<and> lost then Some h else None)"
    by (simp add: next_seg_def lost lt flip: h_def)
  show "next_seg bs u m mss d = Inr (Some g) \<longleftrightarrow>
      fwd u g < fwd u m \<and> least_gap u u bs g \<and> is_lost g bs mss d = Inr True"
  proof
    assume "fwd u g < fwd u m \<and> least_gap u u bs g \<and> is_lost g bs mss d = Inr True"
    moreover from this have "g = h" by (blast intro: uniq)
    ultimately show "next_seg bs u m mss d = Inr (Some g)" using lost by (simp add: ns)
  qed (use h(1) lost in \<open>simp add: ns split: if_splits\<close>)
  note above = least_gap_below [OF h(1)]
  have "is_lost x bs mss d = Inr False" if "fwd u x < fwd u m" "x \<notin> covered u bs" "\<not> lost" for x
  proof (rule ccontr)
    assume "is_lost x bs mss d \<noteq> Inr False"
    then have "is_lost x bs mss d = Inr True" using assms(3,4) by (auto simp: is_lost_def passert_def Let_def)
    from is_lost_antimono [OF assms(1) above [OF that(2)] _ this] show False
      using that(1,3) assms(2) lost by simp
  qed
  then show "next_seg bs u m mss d = Inr None \<longleftrightarrow>
      (\<forall>x. fwd u x < fwd u m \<and> x \<notin> covered u bs \<longrightarrow> is_lost x bs mss d = Inr False)"
    using above lost h(1) by (auto simp: ns least_gap_def dest: order.strict_trans1)
qed

section \<open>Properties\<close>

text \<open>
  C26. The scoreboard is the set of sacked sequence numbers. Recording the SACK blocks of
  acknowledgments whose left edges lie in the window \<open>[SND.UNA, SND.MAX]\<close> always succeeds,
  keeps the blocks disjoint and non-adjacent, and \<open>is_sacked\<close> afterwards answers membership
  in the union of what was known and of the non-empty blocks that end in the window; blocks
  that do not are dropped. The byte count is the number of sacked sequence numbers. All of
  it across the wrap of the sequence space.
\<close>

theorem sack_ingest_union:
  assumes "sb_ok snd_una sb" "fwd snd_una snd_max < 2147483648"
    "\<forall>(l, r) \<in> set blocks. fwd snd_una l \<le> fwd snd_una snd_max"
  shows "\<exists>sb'. ingest_loop snd_una snd_max blocks sb = Inr sb' \<and> sb_ok snd_una sb' \<and>
    (\<forall>x. is_sacked x sb' \<longleftrightarrow> is_sacked x sb \<or>
       (\<exists>(l, r) \<in> set blocks. fwd snd_una r \<le> fwd snd_una snd_max \<and>
          fwd snd_una l \<le> fwd snd_una x \<and> fwd snd_una x < fwd snd_una r)) \<and>
    total_sacked_bytes sb' = int (card {x. is_sacked x sb'})"
proof -
  have "list_all (window_block snd_una snd_max) blocks"
    using assms(2,3) by (auto simp: list_all_iff window_block_def)
  from sack.insert_union [OF assms(1) this] obtain sb' where
    sb': "ingest_loop snd_una snd_max blocks sb = Inr sb'" "sb_ok snd_una sb'"
    "covered snd_una sb' = covered snd_una sb \<union> \<Union> (block_range snd_una snd_max ` set blocks)" by blast
  have "x \<in> \<Union> (block_range snd_una snd_max ` set blocks) \<longleftrightarrow>
      (\<exists>(l, r) \<in> set blocks. fwd snd_una r \<le> fwd snd_una snd_max \<and>
        fwd snd_una l \<le> fwd snd_una x \<and> fwd snd_una x < fwd snd_una r)" for x
    by (force simp: block_range_def seq_range_def split: if_splits)
  moreover have "{x. is_sacked x sb'} = covered snd_una sb'" using is_sacked_correct [OF sb'(2)] by auto
  ultimately show ?thesis
    using sb' is_sacked_correct [OF assms(1)] is_sacked_correct [OF sb'(2)] total_correct [OF sb'(2)]
    by (intro exI [of _ sb']) simp
qed

theorem sack_ingest_union_witness:
  "\<exists>sb'. ingest_loop 0xFFFFFF00 0x400 [(0x80, 0x100), (0xFFFFFF80, 0x80), (0x300, 0x500)] [] = Inr sb' \<and>
     sb' = [(0xFFFFFF80, 0x100)] \<and> total_sacked_bytes sb' = int (card {x. is_sacked x sb'})"
  using sack_ingest_union [of "0xFFFFFF00" "[]" "0x400" "[(0x80, 0x100), (0xFFFFFF80, 0x80), (0x300, 0x500)]"]
  by (simp add: sb_ok_def fwd_eq add_block_def le32_iff lt32_iff Let_def overlaps_or_touches_def
    merge_blocks_def ge32_def in_range32_iff sub32_def)

text \<open>
  A cumulative ACK prunes exactly what it covers. Moving SND.UNA forward to \<open>una\<close> leaves
  a well-formed scoreboard whose sacked numbers are the ones at or above \<open>una\<close> that were
  sacked before.
\<close>

lemma prune_keeps_above:
  assumes "sb_ok u sb" "fwd u una < 2147483648"
  shows "sb_ok una (prune_below una sb) \<and>
    (is_sacked x (prune_below una sb) \<longleftrightarrow> is_sacked x sb \<and> fwd u una \<le> fwd u x)"
  using prune_correct [OF assms] is_sacked_correct [OF assms(1)] is_sacked_correct [of una "prune_below una sb"]
  by auto

lemma prune_keeps_above_witness:
  "sb_ok 0x10 (prune_below 0x10 [(0xFFFFFFF0, 0x20)]) \<and>
   \<not> is_sacked 0xF (prune_below 0x10 [(0xFFFFFFF0, 0x20)])"
  using prune_keeps_above [of "0xFFFFFF00" "[(0xFFFFFFF0, 0x20)]" "0x10" "0xF"]
  by (simp add: sb_ok_def block_ok_def fwd_def)

text \<open>
  C35. \<open>next_seg\<close> implements RFC 6675 NextSeg rule 1: it returns \<open>g\<close> exactly when \<open>g\<close> is the
  least sequence number at or above SND.UNA that is not sacked, lies below SND.MAX and is
  lost, and returns nothing exactly when no unsacked number below SND.MAX is lost.
\<close>

theorem next_seg_least_lost:
  assumes "sb_ok snd_una sb" "fwd snd_una snd_max < 2147483648" "mss > 0" "dup_thresh > 0"
  shows "(next_seg sb snd_una snd_max mss dup_thresh = Inr (Some g) \<longleftrightarrow>
      fwd snd_una g < fwd snd_una snd_max \<and> \<not> is_sacked g sb \<and> is_lost g sb mss dup_thresh = Inr True \<and>
      (\<forall>x. fwd snd_una x < fwd snd_una g \<longrightarrow> is_sacked x sb)) \<and>
    (next_seg sb snd_una snd_max mss dup_thresh = Inr None \<longleftrightarrow>
      (\<forall>x. fwd snd_una x < fwd snd_una snd_max \<and> \<not> is_sacked x sb \<longrightarrow> is_lost x sb mss dup_thresh = Inr False))"
  using next_seg_correct [OF assms] is_sacked_correct [OF assms(1)] by (auto simp: least_gap_def)

theorem next_seg_least_lost_witness:
  "next_seg [(0x10, 0x20), (0x30, 0x40), (0x50, 0x60)] 0 0x80 16 3 = Inr (Some 0) \<and>
   \<not> is_sacked 0 [(0x10, 0x20), (0x30, 0x40), (0x50, 0x60)]"
proof -
  have ok: "sb_ok 0 [(0x10, 0x20), (0x30, 0x40), (0x50, 0x60)]"
    by (simp add: sb_ok_def block_ok_def apart_def fwd_def)
  have "next_seg [(0x10, 0x20), (0x30, 0x40), (0x50, 0x60)] 0 0x80 16 3 = Inr (Some 0)"
    by (simp add: next_seg_def first_gap_def is_lost_def passert_def blocks_above_def lt32_def le32_def Let_def)
  with next_seg_least_lost [OF ok, of 128 16 3 0] show ?thesis by (simp add: fwd_def)
qed

text \<open>
  \<open>pipe\<close> counts the bytes in flight: with the scoreboard inside the window, it is the
  number of sequence numbers from SND.UNA up to SND.MAX that are not sacked. It is therefore
  never negative and never more than the window.
\<close>

lemma pipe_counts_unsacked:
  assumes "sb_ok snd_una sb" "\<forall>x. is_sacked x sb \<longrightarrow> fwd snd_una x < fwd snd_una snd_max"
    "fwd snd_una snd_max < 2147483648"
  shows "pipe sb snd_una snd_max = int (card {x. fwd snd_una x < fwd snd_una snd_max \<and> \<not> is_sacked x sb})"
  using pipe_correct [OF assms(1) _ assms(3)] assms(2) is_sacked_correct [OF assms(1)] by auto

lemma pipe_counts_unsacked_witness:
  "pipe [(0xFFFFFFF8, 8)] 0xFFFFFFF0 32 = 32 \<and>
   card {x. fwd 0xFFFFFFF0 x < fwd 0xFFFFFFF0 32 \<and> \<not> is_sacked x [(0xFFFFFFF8, 8)]} = 32"
proof -
  have ok: "sb_ok 0xFFFFFFF0 [(0xFFFFFFF8, 8)]" by (simp add: sb_ok_def block_ok_def fwd_def)
  have "\<forall>x. is_sacked x [(0xFFFFFFF8, 8)] \<longrightarrow> fwd 0xFFFFFFF0 x < fwd 0xFFFFFFF0 32"
    using is_sacked_correct [OF ok] by (auto simp: fwd_def)
  moreover have "pipe [(0xFFFFFFF8, 8)] 0xFFFFFFF0 32 = 32"
    by (simp add: pipe_def sub32_def le32_def Let_def)
  ultimately show ?thesis using pipe_counts_unsacked [OF ok, of 32] by (simp add: fwd_def)
qed

lemma total_fwd: "total_sacked_bytes bs = sum_list (map (\<lambda>(left, right). fwd left right) bs)"
  by (simp add: total_sacked_bytes_def fwd_def)

section \<open>The gate admits blocks outside the window\<close>

text \<open>
  The gate compares the left edge with SND.UNA and the right edge with SND.MAX only. A block
  that starts almost half the sequence space above SND.UNA, far beyond SND.MAX, and ends
  just below SND.UNA passes all three comparisons and is recorded, although both its edges
  are outside \<open>[SND.UNA, SND.MAX]\<close>; it adds more than two billion bytes to the count.
\<close>

lemma ingest_admits_wild_block:
  "ingest_sack 0x1000 0x2000 [(0x1800, 0x1900), (0x80000FFF, 0xFFE)] [] =
     Inr [(0x1800, 0x1900), (0x80000FFF, 0xFFE)]"
  "fwd 0x1000 0x2000 < fwd 0x1000 0x80000FFF" "fwd 0x1000 0x2000 < fwd 0x1000 0xFFE"
  "total_sacked_bytes [(0x1800, 0x1900), (0x80000FFF, 0xFFE)] = 2147483903"
  by (simp_all add: ingest_sack_def add_block_def le32_iff lt32_iff Let_def overlaps_or_touches_def
    in_range32_iff sub32_def fwd_eq total_fwd)

end
