(* ===== verification/Tcp_Rack.thy ===== *)
theory Tcp_Rack
  imports Tcp_Sack "HOL-Library.Product_Lexorder"
begin

text \<open>
  \<^verbatim>\<open>protocols/tcp/tcp__rack.py\<close> (RFC 8985 RACK and tail loss probes),
  \<^verbatim>\<open>protocols/tcp/state/tcp__state__rack_tlp.py\<close> (the per-session state and its operations)
  and the composition of both in \<^verbatim>\<open>TcpRetransmitter.rack_process_ack\<close> and
  \<^verbatim>\<open>rack_reorder_tick\<close> (\<^verbatim>\<open>session/tcp__session__retransmit.py\<close>).

  Times are virtual milliseconds. The dictionary of segments is an association list from
  starting sequence numbers, in insertion order. The state is a machine with a clock; its
  invariant says that a lost segment carries no transmission time, that a live one was sent
  in the past, that the set of already sampled segments only names present ones and that the
  reordering parameters are in their ranges, from which no assertion of the module fails.
\<close>

section \<open>Segments\<close>

definition INFINITE_TS :: int where "INFINITE_TS = 0xFFFFFFFF"

record rack_segment =
  end_seq :: seq32
  xmit_ts :: int
  retransmitted :: bool
  lost :: bool

type_synonym rack_segments = "(seq32 \<times> rack_segment) list"

definition rack_sent_after :: "int \<Rightarrow> seq32 \<Rightarrow> int \<Rightarrow> seq32 \<Rightarrow> bool" where
  "rack_sent_after t1_xmit_ts t1_end_seq t2_xmit_ts t2_end_seq =
     (if t1_xmit_ts \<noteq> t2_xmit_ts then t1_xmit_ts > t2_xmit_ts else gt32 t1_end_seq t2_end_seq)"

section \<open>Round-trip times\<close>

record rack_scalars =
  sc_min_rtt_ms :: int
  sc_rtt_ms :: int
  sc_xmit_ts :: int
  sc_end_seq :: seq32

definition rack_skip :: "int \<Rightarrow> int option \<Rightarrow> rack_segment \<Rightarrow> rack_scalars \<Rightarrow> bool" where
  "rack_skip now_ms ts_recent_echo_ms seg sc \<longleftrightarrow>
     (if xmit_ts seg = INFINITE_TS then True
      else retransmitted seg \<and>
        (if (case ts_recent_echo_ms of None \<Rightarrow> False | Some ts \<Rightarrow> ts < xmit_ts seg) then True
         else sc_min_rtt_ms sc > 0 \<and> now_ms - xmit_ts seg < sc_min_rtt_ms sc))"

definition rack_fold :: "int \<Rightarrow> int option \<Rightarrow> rack_segment \<Rightarrow> rack_scalars \<Rightarrow> rack_scalars" where
  "rack_fold now_ms ts_recent_echo_ms seg sc =
     (if rack_skip now_ms ts_recent_echo_ms seg sc then sc
      else
        (let rtt_ms = now_ms - xmit_ts seg;
             sc' = sc\<lparr>sc_min_rtt_ms :=
                       (if sc_min_rtt_ms sc = 0 \<or> rtt_ms < sc_min_rtt_ms sc then rtt_ms else sc_min_rtt_ms sc),
                     sc_rtt_ms := rtt_ms\<rparr> in
         if rack_sent_after (xmit_ts seg) (end_seq seg) (sc_xmit_ts sc) (sc_end_seq sc)
         then sc'\<lparr>sc_xmit_ts := xmit_ts seg, sc_end_seq := end_seq seg\<rparr> else sc'))"

definition rack_update :: "rack_segment list \<Rightarrow> int \<Rightarrow> int option \<Rightarrow> rack_scalars \<Rightarrow> rack_scalars" where
  "rack_update newly_acked_segments now_ms ts_recent_echo_ms prior =
     fold (rack_fold now_ms ts_recent_echo_ms)
       (sort_key (\<lambda>s. (xmit_ts s, uint (end_seq s))) newly_acked_segments) prior"

section \<open>Loss detection\<close>

definition mark_lost :: "rack_segment \<Rightarrow> rack_segment" where
  "mark_lost seg =
     \<lparr>end_seq = end_seq seg, xmit_ts = INFINITE_TS, retransmitted = retransmitted seg, lost = True\<rparr>"

text \<open>One iteration of the loop: the segment to store and the timeout so far.\<close>

definition detect_one :: "int \<Rightarrow> seq32 \<Rightarrow> int \<Rightarrow> int \<Rightarrow> rack_segment \<Rightarrow> int \<Rightarrow> rack_segment \<times> int" where
  "detect_one rack_xmit_ts rack_end_seq reo_wnd_ms now_ms seg timeout_ms =
     (if lost seg then (seg, timeout_ms)
      else if \<not> rack_sent_after rack_xmit_ts rack_end_seq (xmit_ts seg) (end_seq seg) then (seg, timeout_ms)
      else if now_ms - xmit_ts seg \<ge> reo_wnd_ms then (mark_lost seg, timeout_ms)
      else
        (let seg_timeout = xmit_ts seg + reo_wnd_ms - now_ms in
         (seg, if timeout_ms = 0 \<or> seg_timeout < timeout_ms then seg_timeout else timeout_ms)))"

fun detect_loop :: "int \<Rightarrow> seq32 \<Rightarrow> int \<Rightarrow> int \<Rightarrow> rack_segments \<Rightarrow> int \<Rightarrow> rack_segments \<times> int" where
  "detect_loop rx re reo now [] timeout_ms = ([], timeout_ms)"
| "detect_loop rx re reo now ((seq, seg) # segs) timeout_ms =
     (case detect_one rx re reo now seg timeout_ms of (seg', t) \<Rightarrow>
      case detect_loop rx re reo now segs t of (segs', t') \<Rightarrow> ((seq, seg') # segs', t'))"

definition rack_detect_loss :: "rack_segments \<Rightarrow> int \<Rightarrow> seq32 \<Rightarrow> int \<Rightarrow> int \<Rightarrow> rack_segments \<times> int" where
  "rack_detect_loss segments rack_xmit_ts rack_end_seq reo_wnd_ms now_ms =
     detect_loop rack_xmit_ts rack_end_seq reo_wnd_ms now_ms segments 0"

definition rack_compute_reo_wnd :: "bool \<Rightarrow> int \<Rightarrow> int \<Rightarrow> int res" where
  "rack_compute_reo_wnd reordering_seen reo_wnd_mult min_rtt_ms =
     passert (reo_wnd_mult \<ge> 1) (passert (min_rtt_ms \<ge> 0)
       (if \<not> reordering_seen then Inr 0
        else if min_rtt_ms = 0 then Inr 0
        else Inr (min_rtt_ms * reo_wnd_mult div 4)))"

section \<open>Tail loss probes\<close>

definition tlp_calc_pto :: "int option \<Rightarrow> int \<Rightarrow> int \<Rightarrow> int \<Rightarrow> int option \<Rightarrow> int \<Rightarrow> int res" where
  "tlp_calc_pto srtt flight_size smss max_ack_delay_ms rto_expiration_ms now_ms =
     passert (flight_size \<ge> 0) (passert (smss > 0) (passert (max_ack_delay_ms \<ge> 0)
       (let pto = (case srtt of
                     Some s \<Rightarrow> if s > 0 then 2 * s + (if flight_size \<le> smss then max_ack_delay_ms else 0) else 1000
                   | None \<Rightarrow> 1000)
        in case rto_expiration_ms of
             None \<Rightarrow> Inr pto
           | Some expiration \<Rightarrow>
               (let rto_remaining = expiration - now_ms in
                Inr (if rto_remaining > 0 \<and> pto \<ge> rto_remaining then rto_remaining - 1 else pto)))))"

definition tlp_process_ack :: "seq32 option \<Rightarrow> bool \<Rightarrow> seq32 \<Rightarrow> bool \<Rightarrow> bool \<Rightarrow> seq32 option \<times> bool" where
  "tlp_process_ack tlp_end tlp_is_retrans ack_seq has_dsack_for_probe has_sack_blocks =
     (case tlp_end of
        None \<Rightarrow> (None, False)
      | Some e \<Rightarrow>
          if \<not> tlp_is_retrans \<and> le32 e ack_seq then (None, False)
          else if has_dsack_for_probe then (None, False)
          else if lt32 e ack_seq then (None, True)
          else if ack_seq = e \<and> \<not> has_sack_blocks then (None, False)
          else (Some e, False))"

section \<open>The per-session state\<close>

definition RACK__REO_WND_PERSIST_DEFAULT :: int where "RACK__REO_WND_PERSIST_DEFAULT = 16"
definition RACK__REO_WND_MULT_INITIAL :: int where "RACK__REO_WND_MULT_INITIAL = 1"
definition TLP__MAX_ACK_DELAY_MS_DEFAULT :: int where "TLP__MAX_ACK_DELAY_MS_DEFAULT = 25"

lemmas rack_consts = RACK__REO_WND_PERSIST_DEFAULT_def RACK__REO_WND_MULT_INITIAL_def
  TLP__MAX_ACK_DELAY_MS_DEFAULT_def

record rack_tlp_state =
  rt_segments :: rack_segments
  rt_scalars :: rack_scalars
  rack_acked_seqs :: "seq32 set"
  rack_reordering_seen :: bool
  rack_fack :: seq32
  rack_reo_wnd_mult :: int
  rack_reo_wnd_persist :: int
  rack_dsack_round :: "seq32 option"
  tlp_is_retrans :: bool
  tlp_end_seq :: "seq32 option"
  tlp_max_ack_delay_ms :: int
  tlp_armed :: bool

definition rack_tlp_init :: rack_tlp_state where
  "rack_tlp_init =
     \<lparr>rt_segments = [],
      rt_scalars = \<lparr>sc_min_rtt_ms = 0, sc_rtt_ms = 0, sc_xmit_ts = 0, sc_end_seq = 0\<rparr>,
      rack_acked_seqs = {}, rack_reordering_seen = False, rack_fack = 0,
      rack_reo_wnd_mult = RACK__REO_WND_MULT_INITIAL,
      rack_reo_wnd_persist = RACK__REO_WND_PERSIST_DEFAULT, rack_dsack_round = None,
      tlp_is_retrans = False, tlp_end_seq = None,
      tlp_max_ack_delay_ms = TLP__MAX_ACK_DELAY_MS_DEFAULT, tlp_armed = False\<rparr>"

definition record_segment :: "seq32 \<Rightarrow> seq32 \<Rightarrow> int \<Rightarrow> rack_tlp_state \<Rightarrow> rack_tlp_state" where
  "record_segment seq end ts st =
     st\<lparr>rt_segments := AList.update seq
         \<lparr>end_seq = end, xmit_ts = ts, retransmitted = seq \<in> fst ` set (rt_segments st), lost = False\<rparr>
         (rt_segments st)\<rparr>"

definition prune_segments :: "seq32 \<Rightarrow> rack_tlp_state \<Rightarrow> rack_tlp_state" where
  "prune_segments snd_una st =
     (let gone = map fst (filter (\<lambda>(s, e). le32 (end_seq e) snd_una) (rt_segments st)) in
      st\<lparr>rt_segments := fold AList.delete gone (rt_segments st),
         rack_acked_seqs := rack_acked_seqs st - set gone\<rparr>)"

definition decay_reo_wnd_persist :: "rack_tlp_state \<Rightarrow> rack_tlp_state" where
  "decay_reo_wnd_persist st =
     (let st' = st\<lparr>rack_reo_wnd_persist := rack_reo_wnd_persist st - 1\<rparr> in
      if rack_reo_wnd_persist st' = 0
      then st'\<lparr>rack_reo_wnd_mult := RACK__REO_WND_MULT_INITIAL,
               rack_reo_wnd_persist := RACK__REO_WND_PERSIST_DEFAULT\<rparr>
      else st')"

definition maybe_close_dsack_round :: "seq32 \<Rightarrow> seq32 \<Rightarrow> rack_tlp_state \<Rightarrow> rack_tlp_state" where
  "maybe_close_dsack_round snd_una snd_max st =
     (if (case rack_dsack_round st of None \<Rightarrow> True | Some r \<Rightarrow> \<not> lt32 snd_una r)
      then st\<lparr>rack_reo_wnd_mult := rack_reo_wnd_mult st + 1, rack_dsack_round := Some snd_max\<rparr>
      else st)"

definition cancel_tlp :: "rack_tlp_state \<Rightarrow> rack_tlp_state" where
  "cancel_tlp st = st\<lparr>tlp_end_seq := None, tlp_is_retrans := False, tlp_armed := False\<rparr>"

text \<open>RFC 8985 section 6.3 on a retransmission timeout: every segment is lost.\<close>

definition mark_all_lost :: "rack_tlp_state \<Rightarrow> rack_tlp_state" where
  "mark_all_lost st = st\<lparr>rt_segments := map (\<lambda>(seq, seg). (seq, mark_lost seg)) (rt_segments st)\<rparr>"

section \<open>Processing an acknowledgment\<close>

definition newly_acked :: "seq32 \<Rightarrow> bool \<Rightarrow> scoreboard \<Rightarrow> rack_tlp_state \<Rightarrow> rack_segments" where
  "newly_acked snd_una send_sack sb st =
     filter (\<lambda>(seq, seg). seq \<notin> rack_acked_seqs st \<and>
         (le32 (end_seq seg) snd_una \<or> (send_sack \<and> is_sacked (sub32 (end_seq seg) 1) sb)))
       (rt_segments st)"

definition fack_step :: "rack_segment \<Rightarrow> rack_tlp_state \<Rightarrow> rack_tlp_state" where
  "fack_step seg st =
     (let st' = (if rack_fack st \<noteq> 0 \<and> lt32 (end_seq seg) (rack_fack st)
                 then st\<lparr>rack_reordering_seen := True\<rparr> else st)
      in if gt32 (end_seq seg) (rack_fack st') then st'\<lparr>rack_fack := end_seq seg\<rparr> else st')"

definition run_detection :: "int \<Rightarrow> rack_tlp_state \<Rightarrow> (rack_tlp_state \<times> int) res" where
  "run_detection now_ms st =
     bind_res (rack_compute_reo_wnd (rack_reordering_seen st) (rack_reo_wnd_mult st) (sc_min_rtt_ms (rt_scalars st)))
       (\<lambda>reo_wnd_ms.
         case rack_detect_loss (rt_segments st) (sc_xmit_ts (rt_scalars st)) (sc_end_seq (rt_scalars st)) reo_wnd_ms now_ms
         of (segs, timeout_ms) \<Rightarrow> Inr (st\<lparr>rt_segments := segs\<rparr>, timeout_ms))"

text \<open>The result is the new state and the delay of the reordering timer, 0 for none.\<close>

definition rack_process_ack ::
    "int \<Rightarrow> seq32 \<Rightarrow> bool \<Rightarrow> scoreboard \<Rightarrow> int \<Rightarrow> rack_tlp_state \<Rightarrow> (rack_tlp_state \<times> int) res" where
  "rack_process_ack now_ms snd_una send_sack sb tsecr st =
     (let acked = newly_acked snd_una send_sack sb st;
          st1 = st\<lparr>rack_acked_seqs := rack_acked_seqs st \<union> set (map fst acked)\<rparr>;
          st2 = (if acked = [] then st1
                 else
                   (let st' = fold fack_step (map snd acked) st1 in
                    st'\<lparr>rt_scalars := rack_update (map snd acked) now_ms
                         (if tsecr \<noteq> 0 then Some tsecr else None) (rt_scalars st')\<rparr>))
      in if sc_xmit_ts (rt_scalars st2) > 0 then run_detection now_ms st2 else Inr (st2, 0))"

definition rack_reorder_tick :: "int \<Rightarrow> rack_tlp_state \<Rightarrow> (rack_tlp_state \<times> int) res" where
  "rack_reorder_tick now_ms st =
     (if sc_xmit_ts (rt_scalars st) = 0 then Inr (st, 0) else run_detection now_ms st)"

section \<open>What loss detection computes\<close>

definition candidate :: "int \<Rightarrow> seq32 \<Rightarrow> rack_segment \<Rightarrow> bool" where
  "candidate rx re seg \<longleftrightarrow> \<not> lost seg \<and> rack_sent_after rx re (xmit_ts seg) (end_seq seg)"

definition due :: "int \<Rightarrow> seq32 \<Rightarrow> int \<Rightarrow> int \<Rightarrow> rack_segment \<Rightarrow> bool" where
  "due rx re reo now seg \<longleftrightarrow> candidate rx re seg \<and> reo \<le> now - xmit_ts seg"

definition pending :: "int \<Rightarrow> seq32 \<Rightarrow> int \<Rightarrow> int \<Rightarrow> rack_segment \<Rightarrow> bool" where
  "pending rx re reo now seg \<longleftrightarrow> candidate rx re seg \<and> now - xmit_ts seg < reo"

fun earlier :: "int \<Rightarrow> int \<Rightarrow> int" where
  "earlier x t = (if t = 0 \<or> x < t then x else t)"

lemma detect_one_eq:
  "detect_one rx re reo now seg t =
     (if due rx re reo now seg then mark_lost seg else seg,
      if pending rx re reo now seg then earlier (xmit_ts seg + reo - now) t else t)"
  by (simp add: detect_one_def due_def pending_def candidate_def Let_def)

lemma detect_loop_eq:
  "detect_loop rx re reo now segs t =
     (map (\<lambda>(seq, seg). (seq, if due rx re reo now seg then mark_lost seg else seg)) segs,
      fold earlier (map (\<lambda>seg. xmit_ts seg + reo - now) (filter (pending rx re reo now) (map snd segs))) t)"
  by (induction segs arbitrary: t) (auto simp: detect_one_eq simp del: earlier.simps)

lemma fold_earlier: "\<forall>x \<in> set xs. 0 < x \<Longrightarrow> 0 < t \<Longrightarrow> fold earlier xs t = Min (insert t (set xs))"
proof (induction xs arbitrary: t)
  case (Cons x xs)
  have e: "earlier x t = min x t" "0 < min x t" using Cons.prems by auto
  have "Min (insert (min x t) (set xs)) = Min (insert t (insert x (set xs)))"
    by (cases "xs = []") (auto simp: min.assoc min.commute min.left_commute)
  then show ?case using Cons.IH [of "min x t"] Cons.prems e by (simp del: earlier.simps)
qed simp

lemma fold_earlier_0: "\<forall>x \<in> set xs. 0 < x \<Longrightarrow> fold earlier xs 0 = (if xs = [] then 0 else Min (set xs))"
  by (cases xs) (simp_all add: fold_earlier)

lemma rack_detect_loss_eq:
  "rack_detect_loss segs rx re reo now =
     (map (\<lambda>(seq, seg). (seq, if due rx re reo now seg then mark_lost seg else seg)) segs,
      if \<exists>seg \<in> snd ` set segs. pending rx re reo now seg
      then Min ((\<lambda>seg. xmit_ts seg + reo - now) ` {seg \<in> snd ` set segs. pending rx re reo now seg})
      else 0)"
proof -
  let ?ps = "filter (pending rx re reo now) (map snd segs)"
  have "fold earlier (map (\<lambda>seg. xmit_ts seg + reo - now) ?ps) 0 =
      (if ?ps = [] then 0 else Min ((\<lambda>seg. xmit_ts seg + reo - now) ` set ?ps))"
    by (subst fold_earlier_0) (auto simp: pending_def)
  moreover have "?ps = [] \<longleftrightarrow> \<not> (\<exists>seg \<in> snd ` set segs. pending rx re reo now seg)"
    by (auto simp: filter_empty_conv)
  moreover have "set ?ps = {seg \<in> snd ` set segs. pending rx re reo now seg}" by auto
  ultimately show ?thesis by (simp add: rack_detect_loss_def detect_loop_eq)
qed

text \<open>The reordering timer is never set to a time at which nothing is due.\<close>

lemma timer_makes_progress:
  assumes "rack_detect_loss segs rx re reo now = (segs', t)" "0 < t"
  shows "\<exists>(seq, seg) \<in> set segs'. \<not> lost seg \<and> due rx re reo (now + t) seg"
proof -
  let ?P = "{seg \<in> snd ` set segs. pending rx re reo now seg}"
  have ne: "?P \<noteq> {}" and t: "t = Min ((\<lambda>seg. xmit_ts seg + reo - now) ` ?P)"
    using assms by (auto simp: rack_detect_loss_eq split: if_splits)
  have "t \<in> (\<lambda>seg. xmit_ts seg + reo - now) ` ?P" unfolding t using ne by (intro Min_in) auto
  then obtain seq seg where seg: "(seq, seg) \<in> set segs" "pending rx re reo now seg" "t = xmit_ts seg + reo - now"
    by auto
  then have "\<not> due rx re reo now seg" by (simp add: pending_def due_def)
  then have "(seq, seg) \<in> set segs'" using assms(1) seg(1) by (force simp: rack_detect_loss_eq)
  moreover have "\<not> lost seg \<and> due rx re reo (now + t) seg" using seg(2,3) by (simp add: pending_def due_def candidate_def)
  ultimately show ?thesis by blast
qed

section \<open>What the round-trip update computes\<close>

lemma rack_fold_scalars:
  "sc_min_rtt_ms (rack_fold now ts seg sc) =
     (if rack_skip now ts seg sc then sc_min_rtt_ms sc
      else if sc_min_rtt_ms sc = 0 \<or> now - xmit_ts seg < sc_min_rtt_ms sc then now - xmit_ts seg else sc_min_rtt_ms sc)"
  "sc_rtt_ms (rack_fold now ts seg sc) = (if rack_skip now ts seg sc then sc_rtt_ms sc else now - xmit_ts seg)"
  "sc_xmit_ts (rack_fold now ts seg sc) =
     (if rack_skip now ts seg sc then sc_xmit_ts sc
      else if rack_sent_after (xmit_ts seg) (end_seq seg) (sc_xmit_ts sc) (sc_end_seq sc) then xmit_ts seg else sc_xmit_ts sc)"
  by (simp_all add: rack_fold_def Let_def)

text \<open>Segments that are accepted: live, never retransmitted, sent before \<open>now\<close>.\<close>

definition clean :: "int \<Rightarrow> rack_segment \<Rightarrow> bool" where
  "clean now seg \<longleftrightarrow> xmit_ts seg \<noteq> INFINITE_TS \<and> \<not> retransmitted seg \<and> xmit_ts seg < now"

lemma clean_not_skipped: "clean now seg \<Longrightarrow> \<not> rack_skip now ts seg sc"
  by (simp add: clean_def rack_skip_def)

lemma fold_clean_min:
  assumes "\<forall>seg \<in> set segs. clean now seg" "0 < sc_min_rtt_ms sc"
  shows "sc_min_rtt_ms (fold (rack_fold now ts) segs sc) =
    Min (insert (sc_min_rtt_ms sc) ((\<lambda>seg. now - xmit_ts seg) ` set segs))"
  using assms
proof (induction segs arbitrary: sc)
  case (Cons seg segs)
  have m: "sc_min_rtt_ms (rack_fold now ts seg sc) = min (now - xmit_ts seg) (sc_min_rtt_ms sc)"
    using Cons.prems clean_not_skipped [of now seg ts sc] by (auto simp: rack_fold_scalars)
  have "0 < sc_min_rtt_ms (rack_fold now ts seg sc)" using Cons.prems by (simp add: m clean_def)
  from Cons.IH [OF _ this] Cons.prems(1) show ?case
    by (cases "segs = []") (auto simp: m min.assoc min.commute min.left_commute)
qed simp

lemma fold_clean_rtt:
  "segs \<noteq> [] \<Longrightarrow> \<forall>seg \<in> set segs. clean now seg \<Longrightarrow>
     sc_rtt_ms (fold (rack_fold now ts) segs sc) = now - xmit_ts (last segs)"
  by (induction segs arbitrary: sc) (auto simp: rack_fold_scalars clean_not_skipped)

lemma fold_clean_xmit:
  "\<forall>seg \<in> set segs. clean now seg \<Longrightarrow>
     sc_xmit_ts (fold (rack_fold now ts) segs sc) = Max (insert (sc_xmit_ts sc) (xmit_ts ` set segs))"
proof (induction segs arbitrary: sc)
  case (Cons seg segs)
  have x: "sc_xmit_ts (rack_fold now ts seg sc) = max (xmit_ts seg) (sc_xmit_ts sc)"
    using Cons.prems clean_not_skipped [of now seg ts sc] by (auto simp: rack_fold_scalars rack_sent_after_def)
  from Cons.IH [of "rack_fold now ts seg sc"] Cons.prems show ?case
    by (cases "segs = []") (auto simp: x max.assoc max.commute max.left_commute)
qed simp

lemma sort_key_last_max:
  assumes "xs \<noteq> []" shows "\<forall>x \<in> set xs. xmit_ts x \<le> xmit_ts (last (sort_key (\<lambda>s. (xmit_ts s, uint (end_seq s))) xs))"
proof
  let ?k = "\<lambda>s. (xmit_ts s, uint (end_seq s))"
  fix x assume "x \<in> set xs"
  then have x: "x \<in> set (sort_key ?k xs)" by simp
  then obtain ys y where ys: "sort_key ?k xs = ys @ [y]" by (cases "sort_key ?k xs" rule: rev_cases) auto
  have "sorted (map ?k (ys @ [y]))" unfolding ys [symmetric] by (rule sorted_sort_key)
  then have "?k x \<le> ?k y" using x unfolding ys by (auto simp: sorted_append)
  then show "xmit_ts x \<le> xmit_ts (last (sort_key ?k xs))" by (auto simp: ys less_eq_prod_def)
qed

section \<open>The machine\<close>

record rack_machine =
  rm_state :: rack_tlp_state
  rm_clock :: int

datatype rack_event =
    SendSeg seq32 seq32
  | AckIn seq32 bool scoreboard int
  | PruneAcked seq32
  | RtoFired
  | DsackSeen seq32 seq32
  | RecoveryExit
  | ReorderTick
  | CancelTlp
  | Advance int

definition keep_state :: "rack_tlp_state \<Rightarrow> (rack_tlp_state \<times> int) res \<Rightarrow> rack_tlp_state" where
  "keep_state st r = (case r of Inl _ \<Rightarrow> st | Inr (st', _) \<Rightarrow> st')"

definition rack_op :: "rack_event \<Rightarrow> int \<Rightarrow> rack_tlp_state \<Rightarrow> rack_tlp_state" where
  "rack_op ev now st =
     (case ev of
        SendSeg seq e \<Rightarrow> record_segment seq e now st
      | AckIn una sack sb tsecr \<Rightarrow> keep_state st (rack_process_ack now una sack sb tsecr st)
      | PruneAcked una \<Rightarrow> prune_segments una st
      | RtoFired \<Rightarrow> mark_all_lost st
      | DsackSeen una mx \<Rightarrow> maybe_close_dsack_round una mx st
      | RecoveryExit \<Rightarrow> decay_reo_wnd_persist st
      | ReorderTick \<Rightarrow> keep_state st (rack_reorder_tick now st)
      | CancelTlp \<Rightarrow> cancel_tlp st
      | Advance d \<Rightarrow> st)"

definition rack_step :: "rack_event \<Rightarrow> rack_machine \<Rightarrow> rack_machine" where
  "rack_step ev m =
     \<lparr>rm_state = rack_op ev (rm_clock m) (rm_state m),
      rm_clock = (case ev of Advance d \<Rightarrow> rm_clock m + d | _ \<Rightarrow> rm_clock m)\<rparr>"

definition rack_event_ok :: "rack_event \<Rightarrow> bool" where
  "rack_event_ok ev = (case ev of Advance d \<Rightarrow> 0 \<le> d | _ \<Rightarrow> True)"

definition seg_ok :: "int \<Rightarrow> rack_segment \<Rightarrow> bool" where
  "seg_ok now seg \<longleftrightarrow> (if lost seg then xmit_ts seg = INFINITE_TS else 0 \<le> xmit_ts seg \<and> xmit_ts seg \<le> now)"

definition segs_ok :: "int \<Rightarrow> rack_segments \<Rightarrow> bool" where
  "segs_ok now segs \<longleftrightarrow> distinct (map fst segs) \<and> (\<forall>seg \<in> snd ` set segs. seg_ok now seg)"

definition rack_ok :: "int \<Rightarrow> rack_tlp_state \<Rightarrow> bool" where
  "rack_ok now st \<longleftrightarrow>
     segs_ok now (rt_segments st) \<and> rack_acked_seqs st \<subseteq> fst ` set (rt_segments st) \<and>
     0 \<le> sc_min_rtt_ms (rt_scalars st) \<and>
     1 \<le> rack_reo_wnd_mult st \<and> rack_reo_wnd_persist st \<in> {1..16}"

definition rack_inv :: "rack_machine \<Rightarrow> bool" where
  "rack_inv m \<longleftrightarrow> 0 \<le> rm_clock m \<and> rack_ok (rm_clock m) (rm_state m)"

lemma mark_lost_ok [simp]: "seg_ok now (mark_lost seg)" "end_seq (mark_lost seg) = end_seq seg" "lost (mark_lost seg)"
  by (simp_all add: seg_ok_def mark_lost_def)

lemma segs_ok_map:
  assumes "segs_ok now segs" "\<And>seg. seg_ok now seg \<Longrightarrow> seg_ok now (f seg)"
  shows "segs_ok now (map (\<lambda>(seq, seg). (seq, f seg)) segs)"
    "fst ` set (map (\<lambda>(seq, seg). (seq, f seg)) segs) = fst ` set segs"
proof -
  have "map fst (map (\<lambda>(seq, seg). (seq, f seg)) segs) = map fst segs" by (induction segs) auto
  then show "segs_ok now (map (\<lambda>(seq, seg). (seq, f seg)) segs)"
    using assms unfolding segs_ok_def by (simp only:) auto
  show "fst ` set (map (\<lambda>(seq, seg). (seq, f seg)) segs) = fst ` set segs" by force
qed

lemma rack_fold_nonneg:
  assumes "seg_ok now seg" "0 \<le> sc_min_rtt_ms sc"
  shows "0 \<le> sc_min_rtt_ms (rack_fold now ts seg sc)"
proof -
  have "xmit_ts seg \<le> now" if "\<not> rack_skip now ts seg sc"
    using assms(1) that by (auto simp: seg_ok_def rack_skip_def split: if_splits)
  then show ?thesis using assms(2) by (auto simp: rack_fold_scalars)
qed

lemma rack_update_nonneg:
  assumes "\<forall>seg \<in> set segs. seg_ok now seg" "0 \<le> sc_min_rtt_ms sc"
  shows "0 \<le> sc_min_rtt_ms (rack_update segs now ts sc)"
proof -
  have "0 \<le> sc_min_rtt_ms (fold (rack_fold now ts) xs sc)" if "\<forall>seg \<in> set xs. seg_ok now seg" for xs
    using that assms(2) by (induction xs arbitrary: sc) (auto simp: rack_fold_nonneg)
  then show ?thesis using assms(1) by (simp add: rack_update_def)
qed

lemma fack_fold_keeps:
  "rt_segments (fold fack_step xs st) = rt_segments st \<and> rt_scalars (fold fack_step xs st) = rt_scalars st \<and>
   rack_acked_seqs (fold fack_step xs st) = rack_acked_seqs st \<and>
   rack_reo_wnd_mult (fold fack_step xs st) = rack_reo_wnd_mult st \<and>
   rack_reo_wnd_persist (fold fack_step xs st) = rack_reo_wnd_persist st"
  by (induction xs arbitrary: st) (auto simp: fack_step_def Let_def)

lemma reo_wnd_total:
  "1 \<le> mult \<Longrightarrow> 0 \<le> m \<Longrightarrow> rack_compute_reo_wnd seen mult m = Inr (if seen then m * mult div 4 else 0)"
  by (simp add: rack_compute_reo_wnd_def)

lemma run_detection_ok:
  assumes "rack_ok now st"
  shows "\<exists>st' t. run_detection now st = Inr (st', t) \<and> rack_ok now st'"
proof -
  obtain reo where reo: "rack_compute_reo_wnd (rack_reordering_seen st) (rack_reo_wnd_mult st)
      (sc_min_rtt_ms (rt_scalars st)) = Inr reo"
    using assms by (simp add: rack_ok_def reo_wnd_total)
  define f where "f = (\<lambda>seg. if due (sc_xmit_ts (rt_scalars st)) (sc_end_seq (rt_scalars st)) reo now seg
    then mark_lost seg else seg)"
  have "segs_ok now (rt_segments st)" using assms by (simp add: rack_ok_def)
  from segs_ok_map [OF this, of f] have "rack_ok now (st\<lparr>rt_segments := map (\<lambda>(seq, seg). (seq, f seg)) (rt_segments st)\<rparr>)"
    using assms by (simp add: rack_ok_def f_def)
  then show ?thesis by (auto simp: run_detection_def reo rack_detect_loss_eq f_def)
qed

lemma rack_process_ack_ok:
  assumes "rack_ok now st"
  shows "\<exists>st' t. rack_process_ack now una sack sb tsecr st = Inr (st', t) \<and> rack_ok now st'"
proof -
  define acked where "acked = newly_acked una sack sb st"
  have sub: "set acked \<subseteq> set (rt_segments st)" by (auto simp: acked_def newly_acked_def)
  define st1 where "st1 = st\<lparr>rack_acked_seqs := rack_acked_seqs st \<union> set (map fst acked)\<rparr>"
  define st2 where "st2 = (if acked = [] then st1 else
    (let st' = fold fack_step (map snd acked) st1 in
     st'\<lparr>rt_scalars := rack_update (map snd acked) now (if tsecr \<noteq> 0 then Some tsecr else None) (rt_scalars st')\<rparr>))"
  have "0 \<le> sc_min_rtt_ms (rack_update (map snd acked) now (if tsecr \<noteq> 0 then Some tsecr else None) (rt_scalars st))"
    using assms sub by (intro rack_update_nonneg) (auto simp: rack_ok_def segs_ok_def)
  then have ok: "rack_ok now st2"
    using assms sub fack_fold_keeps [of "map snd acked" st1] by (auto simp: st2_def st1_def Let_def rack_ok_def)
  have "rack_process_ack now una sack sb tsecr st =
      (if sc_xmit_ts (rt_scalars st2) > 0 then run_detection now st2 else Inr (st2, 0))"
    by (simp add: rack_process_ack_def st2_def st1_def acked_def Let_def)
  then show ?thesis using ok run_detection_ok [OF ok] by simp
qed

lemma record_segment_ok: "0 \<le> now \<Longrightarrow> rack_ok now st \<Longrightarrow> rack_ok now (record_segment seq e now st)"
  by (auto simp: rack_ok_def segs_ok_def record_segment_def distinct_update set_update_distinct seg_ok_def)

lemma fold_delete: "fold AList.delete ks al = filter (\<lambda>(k, v). k \<notin> set ks) al"
  by (induction ks arbitrary: al) (auto simp: AList.delete_eq intro!: filter_cong)

lemma prune_segments_ok: "rack_ok now st \<Longrightarrow> rack_ok now (prune_segments una st)"
proof -
  assume ok: "rack_ok now st"
  define gone where "gone = map fst (filter (\<lambda>(s, e). le32 (end_seq e) una) (rt_segments st))"
  have "rack_acked_seqs st - set gone \<subseteq> fst ` set (filter (\<lambda>(k, v). k \<notin> set gone) (rt_segments st))"
    using ok by (force simp: rack_ok_def)
  then show ?thesis using ok
    by (auto simp: rack_ok_def segs_ok_def prune_segments_def Let_def fold_delete distinct_fst_filter simp flip: gone_def)
qed

lemma reo_state_ok:
  assumes "rack_ok now st"
  shows "rack_ok now (maybe_close_dsack_round una mx st)" "rack_ok now (decay_reo_wnd_persist st)" "rack_ok now (cancel_tlp st)"
  using assms by (auto simp: rack_ok_def maybe_close_dsack_round_def decay_reo_wnd_persist_def cancel_tlp_def Let_def rack_consts)

lemma rack_ok_later: "rack_ok now st \<Longrightarrow> now \<le> now' \<Longrightarrow> rack_ok now' st"
  by (fastforce simp: rack_ok_def segs_ok_def seg_ok_def)

lemma rack_op_ok: "rack_ok now st \<Longrightarrow> 0 \<le> now \<Longrightarrow> rack_ok now (rack_op ev now st)"
proof (cases ev)
  case (AckIn una sack sb tsecr)
  assume "rack_ok now st"
  then show ?thesis using rack_process_ack_ok [of now st una sack sb tsecr] AckIn
    by (auto simp: rack_op_def keep_state_def)
next
  case ReorderTick
  assume ok: "rack_ok now st"
  then show ?thesis using run_detection_ok [OF ok] ReorderTick
    by (auto simp: rack_op_def keep_state_def rack_reorder_tick_def)
next
  case RtoFired
  assume ok: "rack_ok now st"
  then show ?thesis using segs_ok_map [of now "rt_segments st" mark_lost] RtoFired
    by (simp add: rack_op_def mark_all_lost_def rack_ok_def)
qed (auto simp: rack_op_def record_segment_ok prune_segments_ok reo_state_ok)

interpretation rack: inv_machine rack_step rack_event_ok rack_inv
proof
  fix m ev assume "rack_inv m" "rack_event_ok ev"
  then show "rack_inv (rack_step ev m)"
    using rack_op_ok [of "rm_clock m" "rm_state m" ev] rack_ok_later
    by (auto simp: rack_inv_def rack_step_def rack_event_ok_def split: rack_event.splits)
qed

section \<open>Properties\<close>

text \<open>
  RACK loss detection is exact. The pass keeps every segment in place; it marks lost
  exactly the live segments sent before the most recently delivered one (in the order of
  transmission time, then sequence) whose reordering window has elapsed, clearing their
  transmission time, and changes nothing else. The returned timer is 0 exactly when no
  candidate is still inside its window, and is otherwise the shortest remaining time; when
  it fires, at least one further segment is due, so no candidate is stranded.
\<close>

theorem rack_detect_loss_exact:
  assumes "rack_detect_loss segs rx re reo now = (segs', t)"
  shows "map fst segs' = map fst segs \<and>
    (\<forall>i < length segs. let seg = snd (segs ! i); seg' = snd (segs' ! i) in
       (if \<not> lost seg \<and> rack_sent_after rx re (xmit_ts seg) (end_seq seg) \<and> reo \<le> now - xmit_ts seg
        then lost seg' \<and> xmit_ts seg' = INFINITE_TS \<and> end_seq seg' = end_seq seg \<and> retransmitted seg' = retransmitted seg
        else seg' = seg)) \<and>
    (t = 0 \<longleftrightarrow> (\<forall>seg \<in> snd ` set segs. \<not> pending rx re reo now seg)) \<and>
    (\<forall>seg \<in> snd ` set segs. pending rx re reo now seg \<longrightarrow> now + t \<le> xmit_ts seg + reo) \<and>
    (0 < t \<longrightarrow> (\<exists>(seq, seg) \<in> set segs'. \<not> lost seg \<and> due rx re reo (now + t) seg))"
proof -
  let ?P = "{seg \<in> snd ` set segs. pending rx re reo now seg}"
  let ?f = "\<lambda>seg. xmit_ts seg + reo - now"
  have segs': "segs' = map (\<lambda>(seq, seg). (seq, if due rx re reo now seg then mark_lost seg else seg)) segs"
    and t: "t = (if ?P \<noteq> {} then Min (?f ` ?P) else 0)"
    using assms by (auto simp: rack_detect_loss_eq)
  have pos: "\<forall>x \<in> ?f ` ?P. 0 < x" by (auto simp: pending_def)
  have t0: "t = 0 \<longleftrightarrow> ?P = {}"
  proof (cases "?P = {}")
    case False
    then have "Min (?f ` ?P) \<in> ?f ` ?P" by (intro Min_in) auto
    then have "0 < Min (?f ` ?P)" using pos by blast
    moreover have "t = Min (?f ` ?P)" unfolding t using False by (rule if_P)
    ultimately have "t \<noteq> 0" by linarith
    then show ?thesis using False by blast
  qed (simp add: t)
  have le: "t \<le> ?f seg" if "seg \<in> ?P" for seg using that Min_le [of "?f ` ?P" "?f seg"] by (auto simp: t)
  show ?thesis
  proof (intro conjI)
    show "map fst segs' = map fst segs" unfolding segs' by (induction segs) auto
    show "\<forall>seg \<in> snd ` set segs. pending rx re reo now seg \<longrightarrow> now + t \<le> xmit_ts seg + reo"
      using le by (fastforce simp: algebra_simps)
    show "0 < t \<longrightarrow> (\<exists>(seq, seg) \<in> set segs'. \<not> lost seg \<and> due rx re reo (now + t) seg)"
      using timer_makes_progress [OF assms] by blast
  qed (use t0 in \<open>auto simp: segs' Let_def due_def candidate_def mark_lost_def split: prod.splits\<close>)
qed

theorem rack_detect_loss_exact_witness:
  "snd (rack_detect_loss
     [(1, \<lparr>end_seq = 2, xmit_ts = 10, retransmitted = False, lost = False\<rparr>),
      (2, \<lparr>end_seq = 3, xmit_ts = 25, retransmitted = False, lost = False\<rparr>)] 30 4 10 30) = 5"
proof -
  let ?segs = "[(1, \<lparr>end_seq = 2, xmit_ts = 10, retransmitted = False, lost = False\<rparr>),
      (2, \<lparr>end_seq = 3, xmit_ts = 25, retransmitted = False, lost = False\<rparr>)] :: rack_segments"
  have e: "rack_detect_loss ?segs 30 4 10 30 =
      ([(1, \<lparr>end_seq = 2, xmit_ts = INFINITE_TS, retransmitted = False, lost = True\<rparr>),
        (2, \<lparr>end_seq = 3, xmit_ts = 25, retransmitted = False, lost = False\<rparr>)], 5)"
    by (simp add: rack_detect_loss_def detect_one_def rack_sent_after_def mark_lost_def Let_def)
  from rack_detect_loss_exact [OF e] show ?thesis by (simp add: e)
qed

text \<open>
  RACK round-trip tracking. When an ACK delivers segments sent in the past that were
  never retransmitted and not given up, the minimum round-trip time becomes the minimum of
  the known one and of all their samples, the current round-trip time is the sample of the
  segment sent last, and the transmission time of the most recently delivered segment
  becomes the greatest one: none of it depends on the order in which they were recorded.
\<close>

lemma rack_update_clean:
  assumes "segs \<noteq> []" "\<forall>seg \<in> set segs. clean now seg" "0 < sc_min_rtt_ms prior"
  shows "let sc = rack_update segs now ts prior in
    sc_min_rtt_ms sc = Min (insert (sc_min_rtt_ms prior) ((\<lambda>seg. now - xmit_ts seg) ` set segs)) \<and>
    sc_rtt_ms sc = now - Max (xmit_ts ` set segs) \<and>
    sc_xmit_ts sc = Max (insert (sc_xmit_ts prior) (xmit_ts ` set segs))"
proof -
  define xs where "xs = sort_key (\<lambda>s. (xmit_ts s, uint (end_seq s))) segs"
  have set: "set xs = set segs" by (simp add: xs_def)
  then have ne: "xs \<noteq> []" using assms(1) by auto
  have "Max (xmit_ts ` set segs) = xmit_ts (last xs)"
    using sort_key_last_max [OF assms(1)] last_in_set [OF ne] set by (intro Max_eqI) (auto simp: xs_def)
  then show ?thesis
    using fold_clean_min [of xs now prior ts] fold_clean_rtt [OF ne, of now ts prior]
      fold_clean_xmit [of xs now ts prior] assms(2,3) set
    by (simp add: rack_update_def Let_def flip: xs_def)
qed

lemma rack_update_clean_witness:
  "sc_min_rtt_ms (rack_update [\<lparr>end_seq = 2, xmit_ts = 70, retransmitted = False, lost = False\<rparr>] 100 None
     \<lparr>sc_min_rtt_ms = 40, sc_rtt_ms = 40, sc_xmit_ts = 50, sc_end_seq = 1\<rparr>) = 30"
  using rack_update_clean [of "[\<lparr>end_seq = 2, xmit_ts = 70, retransmitted = False, lost = False\<rparr>]" 100
    "\<lparr>sc_min_rtt_ms = 40, sc_rtt_ms = 40, sc_xmit_ts = 50, sc_end_seq = 1\<rparr>" None]
  by (simp add: clean_def INFINITE_TS_def Let_def)

text \<open>
  C33. The RACK state machine is safe. From a new session and a non-negative clock, after any
  sequence of transmissions, acknowledgments, prunings, timeouts, DSACK reports, recovery
  exits, timer ticks and passing time: keys are unique, a segment that is lost carries the
  infinite time mark and any other was sent between 0 and now, sampled segments are present
  ones, the persistence counter lies in 1..16, and processing the next acknowledgment or
  timer tick succeeds: no assertion of the window computation can fail.
\<close>

theorem rack_machine_safe:
  assumes "list_all rack_event_ok evs" "0 \<le> t0"
  shows "let m = fold rack_step evs \<lparr>rm_state = rack_tlp_init, rm_clock = t0\<rparr>; st = rm_state m; now = rm_clock m in
    distinct (map fst (rt_segments st)) \<and>
    (\<forall>seg \<in> snd ` set (rt_segments st). if lost seg then xmit_ts seg = INFINITE_TS else xmit_ts seg \<in> {0..now}) \<and>
    rack_acked_seqs st \<subseteq> fst ` set (rt_segments st) \<and>
    1 \<le> rack_reo_wnd_mult st \<and> rack_reo_wnd_persist st \<in> {1..RACK__REO_WND_PERSIST_DEFAULT} \<and>
    (\<exists>r. rack_process_ack now una sack sb tsecr st = Inr r) \<and> (\<exists>r. rack_reorder_tick now st = Inr r)"
proof -
  have "rack_inv \<lparr>rm_state = rack_tlp_init, rm_clock = t0\<rparr>"
    using assms(2) by (simp add: rack_inv_def rack_ok_def segs_ok_def rack_tlp_init_def rack_consts)
  from rack.run_inv [OF this assms(1)] obtain m where
    m: "fold rack_step evs \<lparr>rm_state = rack_tlp_init, rm_clock = t0\<rparr> = m" "rack_inv m" by blast
  then have ok: "rack_ok (rm_clock m) (rm_state m)" by (simp add: rack_inv_def)
  have "\<exists>r. rack_process_ack (rm_clock m) una sack sb tsecr (rm_state m) = Inr r"
    using rack_process_ack_ok [OF ok] by blast
  moreover have "\<exists>r. rack_reorder_tick (rm_clock m) (rm_state m) = Inr r"
    using run_detection_ok [OF ok] by (auto simp: rack_reorder_tick_def)
  ultimately show ?thesis
    using ok unfolding m by (simp add: rack_ok_def segs_ok_def seg_ok_def Let_def rack_consts)
qed

theorem rack_machine_safe_witness:
  "\<exists>r. rack_reorder_tick 30
     (rm_state (fold rack_step [Advance 10, SendSeg 1 100, Advance 20, RtoFired] \<lparr>rm_state = rack_tlp_init, rm_clock = 0\<rparr>)) = Inr r"
  using rack_machine_safe [of "[Advance 10, SendSeg 1 100, Advance 20, RtoFired]" 0]
  by (simp add: rack_event_ok_def rack_step_def Let_def)

section \<open>Tail loss probes\<close>

text \<open>
  A tail loss probe never waits past the retransmission timeout. With an armed timeout
  in the future the probe is due strictly before it, and it is never due in the past; an
  estimate of the round-trip time gives twice that plus, for a flight of one segment, the
  receiver's acknowledgment delay.
\<close>

theorem tlp_before_rto:
  assumes "0 \<le> flight" "0 < smss" "0 \<le> delay"
  shows "\<exists>pto. tlp_calc_pto srtt flight smss delay (Some rto_at) now = Inr pto \<and> 0 \<le> pto \<and>
    (now < rto_at \<longrightarrow> now + pto < rto_at) \<and>
    (\<forall>s. srtt = Some s \<and> 0 < s \<and> now + 2 * s + delay < rto_at \<longrightarrow>
       pto = 2 * s + (if flight \<le> smss then delay else 0))"
  using assms by (auto simp: tlp_calc_pto_def Let_def split: option.splits)

theorem tlp_before_rto_witness:
  "tlp_calc_pto (Some 40) 1000 1460 25 (Some 1300) 1000 = Inr 105 \<and>
   tlp_calc_pto None 1000 1460 25 (Some 1300) 1000 = Inr 299"
  using tlp_before_rto [of 1000 1460 25 "Some 40" 1300 1000] tlp_before_rto [of 1000 1460 25 None 1300 1000]
  by (simp add: tlp_calc_pto_def)

section \<open>The reordering window\<close>

text \<open>
  RFC 8985 section 6.2 step 5 declares a segment lost at \<open>xmit_ts + RACK.rtt + reo_wnd\<close>, and
  the state record documents \<^verbatim>\<open>rack_rtt_ms\<close> as used there. The code compares with
  \<open>xmit_ts + reo_wnd\<close> only. Since a later segment was delivered at least a minimum round-trip
  time after it was sent, every candidate is already due then, for each multiplier up to
  four: the window gives no tolerance to reordering.
\<close>

lemma reo_wnd_without_rtt:
  assumes "rack_compute_reo_wnd seen mult min_rtt = Inr reo" "mult \<le> 4"
    "candidate rx re seg" "min_rtt \<le> now - rx"
  shows "due rx re reo now seg"
proof -
  have m: "1 \<le> mult" "0 \<le> min_rtt" and r: "reo = (if seen then min_rtt * mult div 4 else 0)"
    using assms(1) by (auto simp: rack_compute_reo_wnd_def split: if_splits)
  have "min_rtt * mult \<le> min_rtt * 4" using m assms(2) by (intro mult_left_mono) auto
  then have "reo \<le> min_rtt" using r m by auto
  moreover have "xmit_ts seg \<le> rx" using assms(3) by (auto simp: candidate_def rack_sent_after_def split: if_splits)
  ultimately show ?thesis using assms(3,4) by (simp add: due_def)
qed

lemma reo_wnd_before_rfc:
  "let seg = \<lparr>end_seq = 100, xmit_ts = 1000, retransmitted = False, lost = False\<rparr>; reo = 25; rtt = 100; now = 1101 in
   rack_compute_reo_wnd True 1 rtt = Inr reo \<and> due 1001 200 reo now seg \<and> now < xmit_ts seg + rtt + reo"
  by (simp add: rack_compute_reo_wnd_def due_def candidate_def rack_sent_after_def Let_def)

text \<open>
  A sample of zero milliseconds is the mark for "no sample": the next one replaces it, and
  the minimum rises.
\<close>

lemma min_rtt_zero_sample:
  "let s1 = \<lparr>end_seq = 1, xmit_ts = 100, retransmitted = False, lost = False\<rparr>;
       s2 = \<lparr>end_seq = 2, xmit_ts = 100, retransmitted = False, lost = False\<rparr>;
       sc0 = \<lparr>sc_min_rtt_ms = 5, sc_rtt_ms = 5, sc_xmit_ts = 1, sc_end_seq = 0\<rparr> in
   sc_min_rtt_ms (rack_update [s1] 100 None sc0) = 0 \<and>
   sc_min_rtt_ms (rack_update [s2] 150 None (rack_update [s1] 100 None sc0)) = 50"
  by (simp add: rack_update_def rack_fold_def rack_skip_def INFINITE_TS_def Let_def)

end
