(* ===== verification/Tcp_Rto.thy ===== *)
theory Tcp_Rto
  imports Prelude
begin

text \<open>
  \<^verbatim>\<open>protocols/tcp/tcp__rto.py\<close>: the RFC 6298 retransmission-timeout estimator. The
  lower bound is the run-time setting \<open>tcp.rto.min_ms\<close>, an argument \<open>min_ms\<close> of the
  definitions that read it.

  The estimator is a machine whose events are a fresh sample and a timeout; the invariant
  bounds the timeout and keeps the two smoothed values defined together.
\<close>

definition INITIAL_RTO_MS :: int where "INITIAL_RTO_MS = 1000"
definition MIN_RTO_MS :: int where "MIN_RTO_MS = 1000"
definition MAX_RTO_MS :: int where "MAX_RTO_MS = 60000"
definition CLOCK_GRANULARITY_MS :: int where "CLOCK_GRANULARITY_MS = 1"
definition RTO_K :: int where "RTO_K = 4"
definition ALPHA_NUM :: int where "ALPHA_NUM = 1"
definition ALPHA_DEN :: int where "ALPHA_DEN = 8"
definition BETA_NUM :: int where "BETA_NUM = 1"
definition BETA_DEN :: int where "BETA_DEN = 4"

lemmas rto_consts = INITIAL_RTO_MS_def MIN_RTO_MS_def MAX_RTO_MS_def CLOCK_GRANULARITY_MS_def
  RTO_K_def ALPHA_NUM_def ALPHA_DEN_def BETA_NUM_def BETA_DEN_def

record rto_state =
  srtt_ms :: "int option"
  rttvar_ms :: "int option"
  rto_ms :: int

definition initial_state :: rto_state where
  "initial_state = \<lparr>srtt_ms = None, rttvar_ms = None, rto_ms = INITIAL_RTO_MS\<rparr>"

definition clamp_rto :: "int \<Rightarrow> int \<Rightarrow> int" where
  "clamp_rto min_ms rto = max min_ms (min rto MAX_RTO_MS)"

definition rto_of :: "int \<Rightarrow> int \<Rightarrow> int \<Rightarrow> rto_state" where
  "rto_of min_ms srtt rttvar =
     (let rto = srtt + max CLOCK_GRANULARITY_MS (RTO_K * rttvar) in
      \<lparr>srtt_ms = Some srtt, rttvar_ms = Some rttvar, rto_ms = clamp_rto min_ms rto\<rparr>)"

definition rto_update :: "int \<Rightarrow> rto_state \<Rightarrow> int \<Rightarrow> rto_state res" where
  "rto_update min_ms st sample_ms =
     (case srtt_ms st of
        None \<Rightarrow> Inr (rto_of min_ms sample_ms (sample_ms div 2))
      | Some srtt \<Rightarrow>
          (case rttvar_ms st of
             None \<Rightarrow> Inl AssertionError
           | Some rttvar \<Rightarrow>
               (let rttvar' = ((BETA_DEN - BETA_NUM) * rttvar + BETA_NUM * \<bar>srtt - sample_ms\<bar>) div BETA_DEN;
                    srtt' = ((ALPHA_DEN - ALPHA_NUM) * srtt + ALPHA_NUM * sample_ms) div ALPHA_DEN
                in Inr (rto_of min_ms srtt' rttvar'))))"

definition back_off :: "rto_state \<Rightarrow> rto_state" where
  "back_off st = st\<lparr>rto_ms := min (rto_ms st * 2) MAX_RTO_MS\<rparr>"

section \<open>The estimator as a machine\<close>

datatype rto_event = Sample int | Timeout

definition rto_step :: "int \<Rightarrow> rto_event \<Rightarrow> rto_state \<Rightarrow> rto_state" where
  "rto_step min_ms ev st =
     (case ev of
        Sample s \<Rightarrow> (case rto_update min_ms st s of Inl _ \<Rightarrow> st | Inr st' \<Rightarrow> st')
      | Timeout \<Rightarrow> back_off st)"

text \<open>
  Samples lie in \<open>[lo, hi]\<close>; then so does the smoothed value, the variation is at most
  \<open>hi\<close>, and the timeout is within the configured bounds.
\<close>

definition sample_in :: "int \<Rightarrow> int \<Rightarrow> rto_event \<Rightarrow> bool" where
  "sample_in lo hi ev = (case ev of Sample s \<Rightarrow> lo \<le> s \<and> s \<le> hi | Timeout \<Rightarrow> True)"

definition rto_ok :: "int \<Rightarrow> int \<Rightarrow> int \<Rightarrow> rto_state \<Rightarrow> bool" where
  "rto_ok min_ms lo hi st \<longleftrightarrow>
     min min_ms INITIAL_RTO_MS \<le> rto_ms st \<and> rto_ms st \<le> MAX_RTO_MS \<and>
     (case (srtt_ms st, rttvar_ms st) of
        (None, None) \<Rightarrow> True
      | (Some srtt, Some rttvar) \<Rightarrow> lo \<le> srtt \<and> srtt \<le> hi \<and> 0 \<le> rttvar \<and> rttvar \<le> hi
      | _ \<Rightarrow> False)"

lemma rto_of_ok:
  assumes "min_ms \<le> MAX_RTO_MS" "lo \<le> srtt" "srtt \<le> hi" "0 \<le> rttvar" "rttvar \<le> hi"
  shows "rto_ok min_ms lo hi (rto_of min_ms srtt rttvar)"
  using assms by (auto simp: rto_ok_def rto_of_def clamp_rto_def Let_def)

lemma rto_update_ok:
  assumes "rto_ok min_ms lo hi st" "min_ms \<le> MAX_RTO_MS" "0 \<le> lo" "lo \<le> s" "s \<le> hi"
  shows "\<exists>st'. rto_update min_ms st s = Inr st' \<and> rto_ok min_ms lo hi st'"
proof (cases "srtt_ms st")
  case None
  have "rto_ok min_ms lo hi (rto_of min_ms s (s div 2))" using assms by (intro rto_of_ok) auto
  then show ?thesis by (simp add: rto_update_def None)
next
  case (Some srtt)
  then obtain rv where rv: "rttvar_ms st = Some rv" "lo \<le> srtt" "srtt \<le> hi" "0 \<le> rv" "rv \<le> hi"
    using assms(1) by (auto simp: rto_ok_def split: option.splits)
  let ?rv = "(3 * rv + \<bar>srtt - s\<bar>) div 4" and ?sr = "(7 * srtt + s) div 8"
  have "\<bar>srtt - s\<bar> \<le> hi" using rv assms by (auto simp: abs_le_iff)
  then have v: "0 \<le> ?rv" "?rv \<le> hi" using rv by auto
  have sr: "lo \<le> ?sr" "?sr \<le> hi" using rv assms by auto
  have "rto_ok min_ms lo hi (rto_of min_ms ?sr ?rv)" by (rule rto_of_ok [OF assms(2) sr v])
  then show ?thesis using Some rv(1) by (simp add: rto_update_def rto_consts)
qed

lemma back_off_ok:
  "rto_ok min_ms lo hi st \<Longrightarrow> 0 \<le> min_ms \<Longrightarrow> min_ms \<le> MAX_RTO_MS \<Longrightarrow> rto_ok min_ms lo hi (back_off st)"
  by (auto simp: rto_ok_def back_off_def rto_consts)

text \<open>The estimator bound to the configuration \<open>min_ms\<close> and to samples in \<open>[lo, hi]\<close>.\<close>

definition rto_inv :: "int \<Rightarrow> int \<Rightarrow> int \<Rightarrow> rto_state \<Rightarrow> bool" where
  "rto_inv min_ms lo hi st \<longleftrightarrow>
     0 \<le> min_ms \<and> min_ms \<le> MAX_RTO_MS \<and> 0 \<le> lo \<and> rto_ok min_ms lo hi st"

interpretation rto: inv_machine "rto_step min_ms" "sample_in lo hi" "rto_inv min_ms lo hi"
  for min_ms lo hi
proof
  fix s e assume "rto_inv min_ms lo hi s" "sample_in lo hi e"
  then show "rto_inv min_ms lo hi (rto_step min_ms e s)"
    using rto_update_ok [of min_ms lo hi s] back_off_ok [of min_ms lo hi s]
    by (fastforce simp: rto_inv_def rto_step_def sample_in_def split: rto_event.splits)
qed

lemma back_off_iterate:
  "rto_ms st \<le> MAX_RTO_MS \<Longrightarrow> 0 \<le> rto_ms st \<Longrightarrow>
   rto_ms ((back_off ^^ k) st) = min (rto_ms st * 2 ^ k) MAX_RTO_MS"
proof (induction k)
  case (Suc k)
  have b: "rto_ms (back_off s) = min (rto_ms s * 2) MAX_RTO_MS" for s by (simp add: back_off_def)
  have "rto_ms ((back_off ^^ Suc k) st) = min (min (rto_ms st * 2 ^ k) MAX_RTO_MS * 2) MAX_RTO_MS"
    using Suc by (simp add: b)
  also have "\<dots> = min (rto_ms st * 2 ^ Suc k) MAX_RTO_MS" by (auto simp: min_def rto_consts)
  finally show ?case .
qed simp

section \<open>Properties\<close>

text \<open>
  Bounds of the estimator: from a fresh session, after any interleaving of round-trip
  samples in \<open>[lo, hi]\<close> and timeouts, the retransmission timeout is at least the configured
  minimum (or the initial second, if that is less) and at most a minute, the smoothed
  round-trip time lies in \<open>[lo, hi]\<close>, the variation does not exceed \<open>hi\<close>, and the next
  sample is never refused.
\<close>

theorem rto_bounds:
  assumes "0 \<le> min_ms" "min_ms \<le> MAX_RTO_MS" "0 \<le> lo" "lo \<le> s" "s \<le> hi" "list_all (sample_in lo hi) evs"
  shows "let st = fold (rto_step min_ms) evs initial_state in
     min min_ms INITIAL_RTO_MS \<le> rto_ms st \<and> rto_ms st \<le> MAX_RTO_MS \<and>
     (\<forall>srtt. srtt_ms st = Some srtt \<longrightarrow>
        lo \<le> srtt \<and> srtt \<le> hi \<and> (\<exists>rttvar. rttvar_ms st = Some rttvar \<and> 0 \<le> rttvar \<and> rttvar \<le> hi)) \<and>
     (\<exists>st'. rto_update min_ms st s = Inr st')"
proof -
  have "rto_inv min_ms lo hi initial_state"
    using assms(1-3) by (simp add: rto_inv_def rto_ok_def initial_state_def rto_consts)
  from rto.run_inv [OF this assms(6)]
  have ok: "rto_ok min_ms lo hi (fold (rto_step min_ms) evs initial_state)" by (simp add: rto_inv_def)
  show ?thesis
    using ok rto_update_ok [OF ok assms(2-5)] by (auto simp: rto_ok_def Let_def split: option.splits)
qed

theorem rto_bounds_witness:
  "rto_ms (fold (rto_step 200) [Sample 30, Timeout, Sample 90] initial_state) \<le> MAX_RTO_MS \<and>
   200 \<le> rto_ms (fold (rto_step 200) [Sample 30, Timeout, Sample 90] initial_state)"
  using rto_bounds [of 200 20 50 100 "[Sample 30, Timeout, Sample 90]"]
  by (simp add: sample_in_def Let_def rto_consts)

text \<open>
  Exponential backoff: after \<open>k\<close> timeouts in a row the timeout is the one before them
  times \<open>2 ^ k\<close>, capped at \<open>MAX_RTO_MS\<close>, and the smoothed values are unchanged, so that
  sixteen timeouts always reach the cap.
\<close>

lemma back_off_exponential:
  assumes "0 < rto_ms st" "rto_ms st \<le> MAX_RTO_MS"
  shows "rto_ms ((back_off ^^ k) st) = min (rto_ms st * 2 ^ k) MAX_RTO_MS \<and>
    srtt_ms ((back_off ^^ k) st) = srtt_ms st \<and> rttvar_ms ((back_off ^^ k) st) = rttvar_ms st \<and>
    (16 \<le> k \<longrightarrow> rto_ms ((back_off ^^ k) st) = MAX_RTO_MS)"
proof -
  have keep: "srtt_ms ((back_off ^^ k) st) = srtt_ms st \<and> rttvar_ms ((back_off ^^ k) st) = rttvar_ms st"
    by (induction k) (simp_all add: back_off_def)
  have rto: "rto_ms ((back_off ^^ k) st) = min (rto_ms st * 2 ^ k) MAX_RTO_MS"
    using assms by (intro back_off_iterate) auto
  have "MAX_RTO_MS \<le> rto_ms st * 2 ^ k" if "16 \<le> k"
  proof -
    have "(2::int) ^ 16 \<le> 2 ^ k" using that by (rule power_increasing) simp
    then have "1 * 2 ^ 16 \<le> rto_ms st * 2 ^ k" using assms(1) by (intro mult_mono) auto
    then show ?thesis by (simp add: rto_consts)
  qed
  then show ?thesis using rto keep by auto
qed

end
