(* ===== verification/Tcp_Cc.thy ===== *)
theory Tcp_Cc
  imports Prelude
begin

text \<open>
  Congestion-control arithmetic: \<^verbatim>\<open>protocols/tcp/tcp__cwnd.py\<close> (RFC 5681, 6928, 8511),
  \<^verbatim>\<open>tcp__newreno.py\<close> (RFC 6582) and \<^verbatim>\<open>tcp__cubic.py\<close> (RFC 9438). Window sizes are
  Python integers; the \<open>assert\<close> statements are error branches.

  Two interfaces relate the algorithms. \<open>mono_machine\<close> of the prelude states that growth
  on acknowledgements never shrinks the window; Reno and CUBIC interpret it. \<open>loss_response\<close>
  states what a multiplicative decrease must do, and derives that persistent congestion
  drives the threshold to its floor; Reno, ECN backoff and CUBIC interpret it.

  The cube root that CUBIC takes in floating point is an argument of \<open>cubic_compute_K\<close>.
\<close>

section \<open>Reno\<close>

definition INITIAL_WINDOW_FACTOR :: int where "INITIAL_WINDOW_FACTOR = 10"
definition INITIAL_WINDOW_BYTES :: int where "INITIAL_WINDOW_BYTES = 14600"

definition cwnd_grow_per_ack :: "int \<Rightarrow> int \<Rightarrow> int \<Rightarrow> int \<Rightarrow> int res" where
  "cwnd_grow_per_ack cwnd ssthresh bytes_acked smss =
     passert (cwnd > 0) (passert (ssthresh > 0) (passert (bytes_acked \<ge> 0) (passert (smss > 0)
       (if cwnd < ssthresh then Inr (cwnd + min bytes_acked smss)
        else Inr (cwnd + max 1 (smss * smss div cwnd))))))"

definition compute_loss_event_ssthresh :: "int \<Rightarrow> int \<Rightarrow> int res" where
  "compute_loss_event_ssthresh flight_size smss =
     passert (flight_size \<ge> 0) (passert (smss > 0) (Inr (max (flight_size div 2) (2 * smss))))"

definition compute_ecn_event_ssthresh :: "int \<Rightarrow> int \<Rightarrow> int res" where
  "compute_ecn_event_ssthresh flight_size smss =
     passert (flight_size \<ge> 0) (passert (smss > 0) (Inr (max (flight_size * 17 div 20) (2 * smss))))"

definition initial_window :: "int \<Rightarrow> int res" where
  "initial_window smss =
     passert (smss > 0) (Inr (min (INITIAL_WINDOW_FACTOR * smss) (max (2 * smss) INITIAL_WINDOW_BYTES)))"

definition partial_cum_ack_deflate :: "int \<Rightarrow> int \<Rightarrow> int \<Rightarrow> int res" where
  "partial_cum_ack_deflate cwnd bytes_acked smss =
     passert (cwnd \<ge> 0) (passert (bytes_acked \<ge> 0) (passert (smss > 0)
       (let new_cwnd = max smss (cwnd - bytes_acked) in
        Inr (if bytes_acked \<ge> smss then new_cwnd + smss else new_cwnd))))"

section \<open>CUBIC\<close>

definition C_NUM :: int where "C_NUM = 2"
definition C_DEN :: int where "C_DEN = 5"
definition BETA_CUBIC_NUM :: int where "BETA_CUBIC_NUM = 7"
definition BETA_CUBIC_DEN :: int where "BETA_CUBIC_DEN = 10"
definition ALPHA_CUBIC_NUM :: int where "ALPHA_CUBIC_NUM = 9"
definition ALPHA_CUBIC_DEN :: int where "ALPHA_CUBIC_DEN = 17"
definition FAST_CONV_NUM :: int where "FAST_CONV_NUM = 17"
definition FAST_CONV_DEN :: int where "FAST_CONV_DEN = 20"

lemmas cubic_consts = C_NUM_def C_DEN_def BETA_CUBIC_NUM_def BETA_CUBIC_DEN_def ALPHA_CUBIC_NUM_def
  ALPHA_CUBIC_DEN_def FAST_CONV_NUM_def FAST_CONV_DEN_def

text \<open>\<open>cube_root\<close> stands for \<open>int(round(arg ** (1.0 / 3.0)))\<close>.\<close>

definition cubic_compute_K :: "(int \<Rightarrow> int) \<Rightarrow> int \<Rightarrow> int \<Rightarrow> int \<Rightarrow> int res" where
  "cubic_compute_K cube_root w_max cwnd_epoch smss =
     passert (w_max \<ge> 0) (passert (cwnd_epoch \<ge> 0) (passert (smss > 0)
       (if w_max \<le> cwnd_epoch then Inr 0
        else (let diff_bytes = w_max - cwnd_epoch;
                  arg = diff_bytes * 1000000000 * C_DEN div (smss * C_NUM)
              in Inr (cube_root arg)))))"

definition cubic_w :: "int \<Rightarrow> int \<Rightarrow> int \<Rightarrow> int \<Rightarrow> int res" where
  "cubic_w t_ms w_max K_ms smss =
     passert (w_max \<ge> 0) (passert (K_ms \<ge> 0) (passert (smss > 0)
       (let diff = t_ms - K_ms;
            cube = diff * diff * diff;
            delta_bytes = C_NUM * cube * smss div (C_DEN * 1000000000)
        in Inr (max 0 (w_max + delta_bytes)))))"

definition cubic_target :: "int \<Rightarrow> int \<Rightarrow> int \<Rightarrow> int \<Rightarrow> int \<Rightarrow> int res" where
  "cubic_target cwnd w_max K_ms t_ms smss =
     passert (cwnd > 0) (bind_res (cubic_w t_ms w_max K_ms smss) (\<lambda>raw_target.
       if raw_target < cwnd then Inr cwnd
       else (let upper = cwnd + cwnd div 2 in
             if raw_target > upper then Inr upper else Inr raw_target)))"

definition cubic_grow_per_ack ::
  "int \<Rightarrow> int \<Rightarrow> int \<Rightarrow> int \<Rightarrow> int \<Rightarrow> int \<Rightarrow> int \<Rightarrow> int \<Rightarrow> int \<Rightarrow> int res" where
  "cubic_grow_per_ack cwnd ssthresh w_max K_ms epoch_start_ms now_ms bytes_acked smss srtt =
     passert (cwnd > 0) (passert (ssthresh > 0) (passert (smss > 0) (passert (bytes_acked \<ge> 0)
       (if cwnd < ssthresh then Inr (cwnd + min bytes_acked smss)
        else
          (let t_ms = max 0 (now_ms - epoch_start_ms) + srtt in
           bind_res (cubic_target cwnd w_max K_ms t_ms smss) (\<lambda>target.
             if target \<le> cwnd then Inr cwnd
             else Inr (cwnd + max 1 ((target - cwnd) * bytes_acked div cwnd))))))))"

definition cubic_loss_event_ssthresh :: "int \<Rightarrow> int \<Rightarrow> bool \<Rightarrow> int \<Rightarrow> (int \<times> int) res" where
  "cubic_loss_event_ssthresh cwnd smss fast_conv_active prior_w_max =
     passert (cwnd > 0) (passert (smss > 0) (passert (prior_w_max \<ge> 0)
       (let new_ssthresh = max (cwnd * BETA_CUBIC_NUM div BETA_CUBIC_DEN) (2 * smss);
            new_w_max = (if fast_conv_active \<and> cwnd < prior_w_max
                         then cwnd * FAST_CONV_NUM div FAST_CONV_DEN else cwnd)
        in Inr (new_ssthresh, new_w_max))))"

definition cubic_w_est :: "int \<Rightarrow> int \<Rightarrow> int \<Rightarrow> int \<Rightarrow> int res" where
  "cubic_w_est w_est_prev cwnd smss bytes_acked =
     passert (w_est_prev \<ge> 0) (passert (cwnd > 0) (passert (smss > 0) (passert (bytes_acked \<ge> 0)
       (Inr (w_est_prev + ALPHA_CUBIC_NUM * bytes_acked * smss div (ALPHA_CUBIC_DEN * cwnd))))))"

section \<open>Growth\<close>

text \<open>The window an acknowledgement leaves; a refused call leaves it unchanged.\<close>

definition ok_or :: "'a \<Rightarrow> 'a res \<Rightarrow> 'a" where
  "ok_or d r = (case r of Inl _ \<Rightarrow> d | Inr x \<Rightarrow> x)"

lemma ok_or_simps [simp]: "ok_or d (Inl e) = d" "ok_or d (Inr x) = x"
  by (simp_all add: ok_or_def)

definition reno_ack :: "int \<Rightarrow> int \<Rightarrow> int \<Rightarrow> int \<Rightarrow> int" where
  "reno_ack ssthresh smss bytes_acked cwnd = ok_or cwnd (cwnd_grow_per_ack cwnd ssthresh bytes_acked smss)"

definition cubic_ack :: "int \<Rightarrow> int \<Rightarrow> int \<Rightarrow> int \<Rightarrow> int \<Rightarrow> int \<Rightarrow> int \<times> int \<Rightarrow> int \<Rightarrow> int" where
  "cubic_ack ssthresh smss w_max K_ms epoch_start_ms srtt ev cwnd =
     (case ev of (now_ms, bytes_acked) \<Rightarrow>
        ok_or cwnd (cubic_grow_per_ack cwnd ssthresh w_max K_ms epoch_start_ms now_ms bytes_acked smss srtt))"

interpretation reno: mono_machine "reno_ack ssthresh smss" "\<lambda>_. True" "\<lambda>cwnd. 0 < cwnd" "\<lambda>cwnd. cwnd"
  for ssthresh smss
  by unfold_locales (auto simp: reno_ack_def cwnd_grow_per_ack_def passert_def)

lemma cubic_target_bounds:
  "cubic_target cwnd w_max K_ms t_ms smss = Inr target \<Longrightarrow> cwnd \<le> target \<and> target \<le> cwnd + cwnd div 2"
  by (auto simp: cubic_target_def Let_def split: if_splits)

lemma cubic_target_total:
  assumes "0 \<le> w_max" "0 \<le> K_ms" "0 < smss" "0 < cwnd"
  shows "\<exists>target. cubic_target cwnd w_max K_ms t_ms smss = Inr target"
proof -
  obtain r where "cubic_w t_ms w_max K_ms smss = Inr r" using assms by (simp add: cubic_w_def Let_def)
  then show ?thesis using assms by (auto simp: cubic_target_def Let_def)
qed

lemma cubic_grow_mono:
  "cubic_grow_per_ack cwnd ssthresh w_max K_ms e now acked smss srtt = Inr c \<Longrightarrow> cwnd \<le> c"
  by (auto simp: cubic_grow_per_ack_def Let_def split: if_splits)

interpretation cubic: mono_machine "cubic_ack ssthresh smss w_max K_ms e srtt" "\<lambda>_. True"
    "\<lambda>cwnd. 0 < cwnd" "\<lambda>cwnd. cwnd"
  for ssthresh smss w_max K_ms e srtt
proof -
  have le: "cwnd \<le> cubic_ack ssthresh smss w_max K_ms e srtt ev cwnd" for ev cwnd
    using cubic_grow_mono by (auto simp: cubic_ack_def ok_or_def split: prod.splits sum.splits)
  show "mono_machine (cubic_ack ssthresh smss w_max K_ms e srtt) (\<lambda>_. True) (\<lambda>cwnd. 0 < cwnd) (\<lambda>cwnd. cwnd)"
    by unfold_locales (use le less_le_trans in blast)+
qed

section \<open>Response to loss\<close>

text \<open>
  A loss response maps the window at the event to the new threshold. It never goes below two
  segments and takes off at least 3/20 of a window above that floor.
\<close>

locale loss_response =
  fixes resp :: "int \<Rightarrow> int \<Rightarrow> int"
  assumes floor: "0 < smss \<Longrightarrow> 0 \<le> w \<Longrightarrow> 2 * smss \<le> resp w smss"
    and decrease: "0 < smss \<Longrightarrow> 0 \<le> w \<Longrightarrow> 20 * resp w smss \<le> max (17 * w) (40 * smss)"
begin

lemma at_floor: "0 < smss \<Longrightarrow> resp (2 * smss) smss = 2 * smss"
  using floor [of smss "2 * smss"] decrease [of smss "2 * smss"] by simp

lemma shrinks: "0 < smss \<Longrightarrow> 2 * smss < w \<Longrightarrow> resp w smss < w"
  using decrease [of smss w] by (auto simp: max_def split: if_splits)

lemma reaches_floor: "0 < smss \<Longrightarrow> 0 \<le> w \<Longrightarrow> \<exists>n. ((\<lambda>x. resp x smss) ^^ n) w = 2 * smss"
proof (induction "nat w" arbitrary: w rule: less_induct)
  case less
  let ?w = "resp w smss"
  show ?case
  proof (cases "2 * smss < w")
    case True
    then have "nat ?w < nat w" "0 \<le> ?w"
      using shrinks [of smss w] floor [of smss w] less.prems by auto
    then obtain n where "((\<lambda>x. resp x smss) ^^ n) ?w = 2 * smss" using less by blast
    then have "((\<lambda>x. resp x smss) ^^ Suc n) w = 2 * smss" by (simp only: funpow_Suc_right o_apply)
    then show ?thesis ..
  next
    case False
    then have "?w = 2 * smss" using floor [of smss w] decrease [of smss w] less.prems by auto
    then have "((\<lambda>x. resp x smss) ^^ 1) w = 2 * smss" by simp
    then show ?thesis ..
  qed
qed

lemma stays_at_floor:
  "0 < smss \<Longrightarrow> ((\<lambda>x. resp x smss) ^^ n) (2 * smss) = 2 * smss"
  by (induction n) (simp_all add: at_floor)

end

definition reno_loss :: "int \<Rightarrow> int \<Rightarrow> int" where
  "reno_loss w smss = ok_or w (compute_loss_event_ssthresh w smss)"

definition ecn_loss :: "int \<Rightarrow> int \<Rightarrow> int" where
  "ecn_loss w smss = ok_or w (compute_ecn_event_ssthresh w smss)"

definition cubic_loss :: "int \<Rightarrow> int \<Rightarrow> int" where
  "cubic_loss w smss =
     (case cubic_loss_event_ssthresh w smss False 0 of Inl _ \<Rightarrow> 2 * smss | Inr (ssthresh, _) \<Rightarrow> ssthresh)"

interpretation reno_loss: loss_response reno_loss
  by unfold_locales (auto simp: reno_loss_def compute_loss_event_ssthresh_def)

interpretation ecn_loss: loss_response ecn_loss
  by unfold_locales (auto simp: ecn_loss_def compute_ecn_event_ssthresh_def)

interpretation cubic_loss: loss_response cubic_loss
  by unfold_locales
    (auto simp: cubic_loss_def cubic_loss_event_ssthresh_def passert_def Let_def cubic_consts split: sum.splits)

section \<open>Growth over a window\<close>

lemma reno_slow_start_run:
  assumes "0 < cwnd" "0 < smss" "k = 0 \<or> cwnd + int (k - 1) * smss < ssthresh"
  shows "fold (reno_ack ssthresh smss) (replicate k smss) cwnd = cwnd + int k * smss"
  using assms
proof (induction k arbitrary: cwnd)
  case (Suc k)
  have "0 \<le> int k * smss" using Suc.prems(2) by simp
  then have lt: "cwnd < ssthresh" using Suc.prems(3) by simp
  have "reno_ack ssthresh smss smss cwnd = cwnd + smss"
    using Suc.prems lt by (simp add: reno_ack_def cwnd_grow_per_ack_def)
  moreover have "k = 0 \<or> cwnd + smss + int (k - 1) * smss < ssthresh"
    using Suc.prems(3) by (cases k) (auto simp: algebra_simps)
  ultimately show ?case using Suc.IH [of "cwnd + smss"] Suc.prems by (simp add: algebra_simps)
qed simp

lemma reno_avoidance_run:
  assumes "0 < ssthresh" "ssthresh \<le> cwnd" "0 < smss" "0 < cwnd0" "cwnd0 \<le> cwnd" "cwnd0 \<le> smss * smss"
    "\<forall>a \<in> set acks. 0 \<le> a"
  shows "let c = fold (reno_ack ssthresh smss) acks cwnd in
    cwnd + int (length acks) \<le> c \<and> c \<le> cwnd + int (length acks) * (smss * smss div cwnd0)"
  using assms
proof (induction acks arbitrary: cwnd)
  case (Cons a acks)
  define d where "d = max 1 (smss * smss div cwnd)"
  let ?m = "smss * smss div cwnd0"
  have "1 \<le> ?m" using Cons.prems(4,6) by (simp add: pos_imp_zdiv_pos_iff int_one_le_iff_zero_less)
  moreover have "smss * smss div cwnd \<le> ?m" using Cons.prems by (intro zdiv_mono2) auto
  ultimately have d: "1 \<le> d" "d \<le> ?m" by (auto simp: d_def)
  have "reno_ack ssthresh smss a cwnd = cwnd + d"
    using Cons.prems by (simp add: reno_ack_def cwnd_grow_per_ack_def d_def)
  then show ?case using Cons.IH [of "cwnd + d"] Cons.prems d by (simp add: Let_def algebra_simps)
qed simp

lemma cube_mono: "x \<le> y \<Longrightarrow> x * x * x \<le> y * y * y" for x y :: int
  using power_mono_odd [of 3 x y] by (simp add: power3_eq_cube)

section \<open>Properties\<close>

text \<open>
  Reno growth per window: acknowledging a window of \<open>n\<close> full segments one by one in
  slow start exactly doubles it; in congestion avoidance, while the window is at most the
  square of the segment size, any acknowledgements, one per segment of the window, add at
  least one byte each and at most one segment in total.
\<close>

lemma reno_growth_per_window:
  assumes "0 < n" "0 < smss" "0 < ssthresh" "\<forall>a \<in> set acks. 0 \<le> a" "length acks = n"
  shows "(2 * int n * smss \<le> ssthresh \<longrightarrow>
      fold (reno_ack ssthresh smss) (replicate n smss) (int n * smss) = 2 * (int n * smss)) \<and>
    (ssthresh \<le> int n * smss \<and> int n \<le> smss \<longrightarrow>
      int n * smss + int n \<le> fold (reno_ack ssthresh smss) acks (int n * smss) \<and>
      fold (reno_ack ssthresh smss) acks (int n * smss) \<le> int n * smss + smss)"
proof -
  define w where "w = int n * smss"
  have w: "0 < w" using assms(1,2) by (simp add: w_def)
  have ss: "fold (reno_ack ssthresh smss) (replicate n smss) w = 2 * w" if "2 * w \<le> ssthresh"
  proof -
    have "int (n - 1) * smss < w" using assms(1,2) by (simp add: w_def)
    then have "w + int (n - 1) * smss < ssthresh" using that by linarith
    then have "fold (reno_ack ssthresh smss) (replicate n smss) w = w + int n * smss"
      using w assms(2) by (intro reno_slow_start_run) auto
    then show ?thesis by (simp add: w_def)
  qed
  have ca: "w + int n \<le> fold (reno_ack ssthresh smss) acks w \<and> fold (reno_ack ssthresh smss) acks w \<le> w + smss"
    if le: "ssthresh \<le> w" "int n \<le> smss"
  proof -
    have sq: "w \<le> smss * smss" using le(2) assms(2) by (simp add: w_def)
    have "int n * (smss * smss div w) \<le> smss"
    proof -
      have "smss * smss div w = smss div int n"
        using assms(2) by (simp add: w_def mult.commute)
      moreover have "int n * (smss div int n) \<le> smss"
        using assms(1) mult_div_mod_eq [of "int n" smss] pos_mod_sign [of "int n" smss] by linarith
      ultimately show ?thesis by simp
    qed
    then show ?thesis
      using reno_avoidance_run [OF assms(3) le(1) assms(2) w order_refl sq assms(4)] assms(5)
      by (simp add: Let_def)
  qed
  show ?thesis using ss ca by (simp add: w_def)
qed

text \<open>
  The CUBIC curve: with its arguments in range the window function never raises, does
  not decrease with time, and passes through \<open>w_max\<close> at time \<open>K\<close>; the window that an
  acknowledgement leaves is then at least the one before it and exceeds it by at most a
  segment in slow start, and by at most half the bytes acknowledged, or one byte, in
  congestion avoidance.
\<close>

theorem cubic_curve:
  assumes "0 \<le> w_max" "0 \<le> K" "0 < smss" "0 < cwnd" "0 < ssthresh" "0 \<le> acked" "t \<le> t'"
  shows "(\<exists>a b. cubic_w t w_max K smss = Inr a \<and> cubic_w t' w_max K smss = Inr b \<and> a \<le> b) \<and>
    cubic_w K w_max K smss = Inr w_max \<and>
    (\<exists>c. cubic_grow_per_ack cwnd ssthresh w_max K e now acked smss srtt = Inr c \<and>
         cwnd \<le> c \<and> c \<le> cwnd + (if cwnd < ssthresh then smss else max 1 (acked div 2)))"
proof (intro conjI)
  define x y where "x = C_NUM * ((t - K) * (t - K) * (t - K)) * smss" and
    "y = C_NUM * ((t' - K) * (t' - K) * (t' - K)) * smss"
  have "x \<le> y"
    unfolding x_def y_def using assms(3,7)
    by (intro mult_right_mono mult_left_mono cube_mono) (auto simp: cubic_consts)
  then have "max 0 (w_max + x div (C_DEN * 1000000000)) \<le> max 0 (w_max + y div (C_DEN * 1000000000))"
    by (intro max.mono add_mono zdiv_mono1) (auto simp: cubic_consts)
  then show "\<exists>a b. cubic_w t w_max K smss = Inr a \<and> cubic_w t' w_max K smss = Inr b \<and> a \<le> b"
    using assms(1-3) unfolding cubic_w_def Let_def x_def y_def by simp
  show "cubic_w K w_max K smss = Inr w_max"
    using assms by (simp add: cubic_w_def Let_def)
  obtain target where tg: "cubic_target cwnd w_max K (max 0 (now - e) + srtt) smss = Inr target"
    using cubic_target_total [OF assms(1-4)] by blast
  have "(target - cwnd) * acked div cwnd \<le> acked div 2"
  proof -
    have "2 * (target - cwnd) \<le> cwnd" using cubic_target_bounds [OF tg] by presburger
    then have "2 * (target - cwnd) * acked \<le> cwnd * acked" using assms(6) by (rule mult_right_mono)
    moreover define q where "q = (target - cwnd) * acked div cwnd"
    moreover have "cwnd * q \<le> (target - cwnd) * acked"
      unfolding q_def using mult_div_mod_eq [of cwnd "(target - cwnd) * acked"]
        pos_mod_sign [OF assms(4), of "(target - cwnd) * acked"] by linarith
    ultimately have "cwnd * (2 * q) \<le> cwnd * acked" by (simp add: algebra_simps)
    then have "2 * q \<le> acked" using assms(4) by simp
    then show ?thesis unfolding q_def [symmetric] by presburger
  qed
  then show "\<exists>c. cubic_grow_per_ack cwnd ssthresh w_max K e now acked smss srtt = Inr c \<and>
       cwnd \<le> c \<and> c \<le> cwnd + (if cwnd < ssthresh then smss else max 1 (acked div 2))"
    using assms tg by (auto simp: cubic_grow_per_ack_def Let_def)
qed

theorem cubic_curve_witness:
  "cubic_w 900 50000 900 1460 = Inr 50000"
  using cubic_curve [of 50000 900 1460 10000 5000 1460 0 10 0 0 0] by simp

text \<open>
  Persistent congestion: whatever the window at the first event, repeating the response
  to loss (Reno), to an ECN mark (RFC 8511) or of CUBIC brings the threshold to exactly
  two segments after finitely many events, and it stays there.
\<close>

theorem loss_reaches_floor:
  assumes "0 < smss" "0 \<le> w"
  shows "\<forall>resp \<in> {reno_loss, ecn_loss, cubic_loss}.
    \<exists>n. \<forall>k \<ge> n. ((\<lambda>x. resp x smss) ^^ k) w = 2 * smss"
proof -
  have ex: "\<exists>n. \<forall>k \<ge> n. (f ^^ k) w = 2 * smss"
    if hit: "\<exists>n. (f ^^ n) w = 2 * smss" and stay: "\<And>n. (f ^^ n) (2 * smss) = 2 * smss"
    for f :: "int \<Rightarrow> int"
  proof -
    obtain n where n: "(f ^^ n) w = 2 * smss" using hit by blast
    have "(f ^^ k) w = 2 * smss" if "n \<le> k" for k
      using n stay [of "k - n"] funpow_add [of "k - n" n f] that by simp
    then show ?thesis by blast
  qed
  show ?thesis
    using ex [OF reno_loss.reaches_floor [OF assms] reno_loss.stays_at_floor [OF assms(1)]]
      ex [OF ecn_loss.reaches_floor [OF assms] ecn_loss.stays_at_floor [OF assms(1)]]
      ex [OF cubic_loss.reaches_floor [OF assms] cubic_loss.stays_at_floor [OF assms(1)]]
    by simp
qed

theorem loss_reaches_floor_witness:
  "\<exists>n. \<forall>k \<ge> n. ((\<lambda>x. reno_loss x 1000) ^^ k) 64000 = 2000"
  using loss_reaches_floor [of 1000 64000] by simp

end
