(* ===== verification/Plpmtud.thy ===== *)
theory Plpmtud
  imports Prelude Complex_Main
begin

text \<open>
  \<^verbatim>\<open>lib/plpmtud.py\<close>: the packetization-layer path-MTU search engine (RFC 4821, RFC 8899) that
  the TCP and UDP adapters drive. \<open>pmtu_search\<close> has the slots of \<^verbatim>\<open>PmtuSearch\<close>; the address
  only selects the family constants and is represented by its version. Time stamps, floats in
  the code, are exact rationals; the engine only adds durations to them and compares.

  The engine is a machine over its public operations. Its invariant bounds every size by the
  family floor and the interface MTU and ties timers and candidate to the state. The search
  itself is shown to end, within the granularity of the ladder.
\<close>

definition MAX_PROBES :: int where "MAX_PROBES = 3"
definition PROBE_TIMER__SEC :: rat where "PROBE_TIMER__SEC = 30"
definition PMTU_RAISE_TIMER__SEC :: rat where "PMTU_RAISE_TIMER__SEC = 600"
definition MIN_PLPMTU__IP4 :: int where "MIN_PLPMTU__IP4 = 576"
definition MIN_PLPMTU__IP6 :: int where "MIN_PLPMTU__IP6 = 1280"
definition BASE_PLPMTU__IP4 :: int where "BASE_PLPMTU__IP4 = 1200"
definition BASE_PLPMTU__IP6 :: int where "BASE_PLPMTU__IP6 = 1280"
definition LADDER_GRANULARITY :: int where "LADDER_GRANULARITY = 8"
definition VALIDATION_ACKS :: int where "VALIDATION_ACKS = 3"

lemmas plpmtud_consts = MAX_PROBES_def PROBE_TIMER__SEC_def PMTU_RAISE_TIMER__SEC_def MIN_PLPMTU__IP4_def
  MIN_PLPMTU__IP6_def BASE_PLPMTU__IP4_def BASE_PLPMTU__IP6_def LADDER_GRANULARITY_def VALIDATION_ACKS_def

datatype pmtu_state = DISABLED | BASE | SEARCHING | SEARCH_COMPLETE | ERROR

record pmtu_search =
  pm_state :: pmtu_state
  current_mtu :: int
  candidate_mtu :: "int option"
  ack_size :: int
  max_mtu :: int
  min_mtu :: int
  base_mtu :: int
  search_high :: int
  probe_count :: int
  probe_timer_sec :: rat
  probe_timer_expiry :: "rat option"
  raise_timer_expiry :: "rat option"
  probing :: bool
  validation_size :: int
  validation_acks :: int
  seed_mtu :: int

section \<open>Construction\<close>

definition pmtu_init :: "bool \<Rightarrow> int \<Rightarrow> bool \<Rightarrow> rat \<Rightarrow> int option \<Rightarrow> pmtu_search" where
  "pmtu_init is_ip6 interface_mtu prob timer_sec plpmtu_seed =
     (let mn = (if is_ip6 then MIN_PLPMTU__IP6 else MIN_PLPMTU__IP4);
          bs = (if is_ip6 then BASE_PLPMTU__IP6 else BASE_PLPMTU__IP4);
          mx = max interface_mtu mn;
          seed = (case plpmtu_seed of
                    Some s \<Rightarrow> if prob then min (max s mn) mx else bs
                  | None \<Rightarrow> bs)
      in \<lparr>pm_state = BASE, current_mtu = (if prob then seed else mx), candidate_mtu = Some bs,
          ack_size = mn, max_mtu = mx, min_mtu = mn, base_mtu = bs, search_high = mx,
          probe_count = 0, probe_timer_sec = timer_sec, probe_timer_expiry = None,
          raise_timer_expiry = None, probing = prob, validation_size = 0, validation_acks = 0,
          seed_mtu = seed\<rparr>)"

definition is_probing :: "pmtu_search \<Rightarrow> bool" where
  "is_probing st \<longleftrightarrow> candidate_mtu st \<noteq> None"

definition disable :: "pmtu_search \<Rightarrow> pmtu_search" where
  "disable st = st\<lparr>pm_state := DISABLED, candidate_mtu := None, probe_timer_expiry := None,
     raise_timer_expiry := None\<rparr>"

section \<open>The ladder\<close>

definition next_candidate :: "pmtu_search \<Rightarrow> int option" where
  "next_candidate st =
     (let gap = search_high st - ack_size st in
      if gap \<le> LADDER_GRANULARITY then None
      else
        (let mid = (ack_size st + search_high st) div 2;
             mid = (mid div LADDER_GRANULARITY) * LADDER_GRANULARITY;
             mid = (if mid \<le> ack_size st then ack_size st + LADDER_GRANULARITY else mid)
         in if mid \<ge> search_high st then None else Some mid))"

definition enter_search_complete :: "rat \<Rightarrow> pmtu_search \<Rightarrow> pmtu_search" where
  "enter_search_complete now st =
     st\<lparr>pm_state := SEARCH_COMPLETE, candidate_mtu := None, probe_timer_expiry := None,
        raise_timer_expiry := Some (now + PMTU_RAISE_TIMER__SEC)\<rparr>"

text \<open>
  The four places that open or continue the search share this tail: the next candidate, or
  completion when there is none.
\<close>

definition advance_search :: "rat \<Rightarrow> pmtu_search \<Rightarrow> pmtu_search" where
  "advance_search now st =
     (let st' = st\<lparr>candidate_mtu := next_candidate st\<rparr> in
      if candidate_mtu st' = None then enter_search_complete now st' else st'\<lparr>pm_state := SEARCHING\<rparr>)"

section \<open>Probing\<close>

definition next_probe_size :: "rat \<Rightarrow> pmtu_search \<Rightarrow> pmtu_search \<times> int option" where
  "next_probe_size now st =
     (case pm_state st of
        DISABLED \<Rightarrow> (st, None)
      | ERROR \<Rightarrow>
          if (case raise_timer_expiry st of None \<Rightarrow> True | Some t \<Rightarrow> now < t) then (st, None)
          else (st\<lparr>pm_state := BASE, candidate_mtu := Some (base_mtu st), probe_count := 0,
                   probe_timer_expiry := Some (now + probe_timer_sec st), raise_timer_expiry := None\<rparr>,
                Some (base_mtu st))
      | SEARCH_COMPLETE \<Rightarrow>
          if (case raise_timer_expiry st of None \<Rightarrow> True | Some t \<Rightarrow> now < t) then (st, None)
          else
            (let st1 = st\<lparr>search_high := max_mtu st, raise_timer_expiry := None\<rparr>;
                 st2 = st1\<lparr>candidate_mtu := next_candidate st1, pm_state := SEARCHING\<rparr>
             in if candidate_mtu st2 \<noteq> None
                then (st2\<lparr>probe_timer_expiry := Some (now + probe_timer_sec st2)\<rparr>, candidate_mtu st2)
                else (st2, None))
      | _ \<Rightarrow>
          if candidate_mtu st = None then (st, None)
          else if probe_timer_expiry st = None
          then (st\<lparr>probe_timer_expiry := Some (now + probe_timer_sec st)\<rparr>, candidate_mtu st)
          else (st, None))"

text \<open>
  The validation of a SEARCHING candidate in probing mode: the state with the count updated,
  and whether the acknowledgment stops there.
\<close>

definition validate_ack :: "int \<Rightarrow> pmtu_search \<Rightarrow> pmtu_search \<times> bool" where
  "validate_ack sz st =
     (if probing st \<and> pm_state st = SEARCHING then
        (let st1 = (if sz = validation_size st
                    then st\<lparr>validation_acks := validation_acks st + 1\<rparr>
                    else st\<lparr>validation_size := sz, validation_acks := 1\<rparr>)
         in if validation_acks st1 < VALIDATION_ACKS then (st1\<lparr>probe_timer_expiry := None\<rparr>, True)
            else (st1\<lparr>validation_size := 0, validation_acks := 0\<rparr>, False))
      else (st, False))"

definition accept_size :: "int \<Rightarrow> pmtu_search \<Rightarrow> pmtu_search" where
  "accept_size sz st =
     st\<lparr>ack_size := (if sz > ack_size st then sz else ack_size st),
        current_mtu := (if sz > current_mtu st then sz else current_mtu st)\<rparr>"

definition on_probe_ack :: "int \<Rightarrow> rat \<Rightarrow> pmtu_search \<Rightarrow> pmtu_search" where
  "on_probe_ack sz now st =
     (if pm_state st = DISABLED then st
      else
        (case validate_ack sz (st\<lparr>probe_count := 0\<rparr>) of (st1, stop) \<Rightarrow>
           if stop then st1
           else
             (let st2 = accept_size sz st1 in
              case pm_state st2 of
                BASE \<Rightarrow> advance_search now (st2\<lparr>probe_timer_expiry := None\<rparr>)
              | SEARCHING \<Rightarrow> advance_search now (st2\<lparr>probe_timer_expiry := None\<rparr>)
              | ERROR \<Rightarrow> advance_search now (st2\<lparr>probe_timer_expiry := None, raise_timer_expiry := None\<rparr>)
              | _ \<Rightarrow> st2)))"

definition on_probe_loss :: "rat \<Rightarrow> pmtu_search \<Rightarrow> pmtu_search" where
  "on_probe_loss now st =
     (if pm_state st \<in> {DISABLED, SEARCH_COMPLETE, ERROR} then st
      else
        (let st1 = st\<lparr>probe_count := probe_count st + 1, probe_timer_expiry := None,
                      validation_size := 0, validation_acks := 0\<rparr>
         in if probe_count st1 \<ge> MAX_PROBES
            then st1\<lparr>pm_state := ERROR, current_mtu := (if probing st1 then seed_mtu st1 else min_mtu st1),
                     candidate_mtu := None, probe_count := 0,
                     raise_timer_expiry := Some (now + PMTU_RAISE_TIMER__SEC)\<rparr>
            else if pm_state st1 = BASE then st1
            else
              (let st2 = (case candidate_mtu st1 of None \<Rightarrow> st1 | Some c \<Rightarrow> st1\<lparr>search_high := c - 1\<rparr>)
               in advance_search now st2)))"

definition on_classical_pmtu :: "int \<Rightarrow> rat \<Rightarrow> pmtu_search \<Rightarrow> pmtu_search" where
  "on_classical_pmtu mtu now st =
     (if pm_state st = DISABLED then st
      else
        (let effective = max (min_mtu st) mtu in
         if pm_state st = ERROR
         then
           (let st1 = st\<lparr>search_high := max effective (min_mtu st), current_mtu := effective,
                         ack_size := min_mtu st\<rparr>;
                st2 = st1\<lparr>candidate_mtu := next_candidate st1, probe_count := 0,
                          probe_timer_expiry := None, raise_timer_expiry := None\<rparr>
            in if candidate_mtu st2 \<noteq> None then st2\<lparr>pm_state := SEARCHING\<rparr> else enter_search_complete now st2)
         else if effective < current_mtu st then st\<lparr>current_mtu := effective\<rparr>
         else st))"

definition confirm_current :: "int \<Rightarrow> rat \<Rightarrow> pmtu_search \<Rightarrow> pmtu_search" where
  "confirm_current sz now st =
     (if pm_state st = DISABLED then st
      else
        (let st1 = (if sz > ack_size st \<and> sz \<le> current_mtu st then st\<lparr>ack_size := sz\<rparr> else st)
         in if pm_state st1 = BASE \<and> sz \<ge> base_mtu st1
            then advance_search now (st1\<lparr>probe_count := 0, probe_timer_expiry := None\<rparr>)
            else st1))"

definition on_black_hole_suspected :: "rat \<Rightarrow> pmtu_search \<Rightarrow> pmtu_search" where
  "on_black_hole_suspected now st =
     (if \<not> probing st \<or> pm_state st = DISABLED then st
      else if current_mtu st \<le> seed_mtu st then st
      else
        (let revoked = current_mtu st in
         advance_search now
           (st\<lparr>current_mtu := seed_mtu st, ack_size := min (ack_size st) (seed_mtu st),
               search_high := min (search_high st) (revoked - 1), probe_count := 0,
               probe_timer_expiry := None, validation_size := 0, validation_acks := 0\<rparr>)))"

definition probe_timer_expired :: "rat \<Rightarrow> pmtu_search \<Rightarrow> bool" where
  "probe_timer_expired now st \<longleftrightarrow>
     pm_state st \<in> {BASE, SEARCHING} \<and>
     (case probe_timer_expiry st of None \<Rightarrow> False | Some t \<Rightarrow> now \<ge> t)"

definition limit_max :: "int \<Rightarrow> pmtu_search \<Rightarrow> pmtu_search" where
  "limit_max mtu st =
     (let effective = max mtu (min_mtu st);
          st1 = (if effective < max_mtu st then st\<lparr>max_mtu := effective\<rparr> else st);
          st2 = (if search_high st1 > max_mtu st1 then st1\<lparr>search_high := max_mtu st1\<rparr> else st1)
      in if current_mtu st2 > max_mtu st2 then st2\<lparr>current_mtu := max_mtu st2\<rparr> else st2)"

section \<open>The ladder narrows\<close>

lemma next_candidate_fields:
  "next_candidate (st\<lparr>probe_count := n\<rparr>) = next_candidate st"
  "next_candidate (st\<lparr>probe_timer_expiry := t\<rparr>) = next_candidate st"
  "next_candidate (st\<lparr>raise_timer_expiry := t\<rparr>) = next_candidate st"
  by (simp_all add: next_candidate_def Let_def)

lemma next_candidate_None: "next_candidate st = None \<longleftrightarrow> search_high st - ack_size st \<le> 8"
proof -
  define a h where "a = ack_size st" and "h = search_high st"
  have "(a + h) div 2 div 8 * 8 < h" if "8 < h - a" using that by presburger
  then show ?thesis by (auto simp: next_candidate_def Let_def plpmtud_consts simp flip: a_def h_def)
qed

lemma next_candidate_Some:
  "next_candidate st = Some c \<Longrightarrow> ack_size st < c \<and> c < search_high st"
  by (auto simp: next_candidate_def Let_def plpmtud_consts split: if_splits)

section \<open>The engine as a machine\<close>

datatype pmtu_event =
    NextProbe rat
  | ProbeAck int rat
  | ProbeLoss rat
  | ClassicalPmtu int rat
  | Confirm int rat
  | BlackHole rat
  | LimitMax int
  | Disable

definition pmtu_step :: "pmtu_event \<Rightarrow> pmtu_search \<Rightarrow> pmtu_search" where
  "pmtu_step ev st =
     (case ev of
        NextProbe now \<Rightarrow> fst (next_probe_size now st)
      | ProbeAck sz now \<Rightarrow> on_probe_ack sz now st
      | ProbeLoss now \<Rightarrow> on_probe_loss now st
      | ClassicalPmtu mtu now \<Rightarrow> on_classical_pmtu mtu now st
      | Confirm sz now \<Rightarrow> confirm_current sz now st
      | BlackHole now \<Rightarrow> on_black_hole_suspected now st
      | LimitMax mtu \<Rightarrow> limit_max mtu st
      | Disable \<Rightarrow> disable st)"

text \<open>Sizes named by the environment do not exceed \<open>M\<close>, the interface MTU.\<close>

definition pmtu_event_ok :: "int \<Rightarrow> pmtu_event \<Rightarrow> bool" where
  "pmtu_event_ok M ev =
     (case ev of ProbeAck sz _ \<Rightarrow> sz \<le> M | ClassicalPmtu mtu _ \<Rightarrow> mtu \<le> M | _ \<Rightarrow> True)"

definition sizes_ok :: "int \<Rightarrow> pmtu_search \<Rightarrow> bool" where
  "sizes_ok M st \<longleftrightarrow>
     (\<forall>x \<in> {base_mtu st, max_mtu st, seed_mtu st, current_mtu st, ack_size st}. min_mtu st \<le> x \<and> x \<le> M) \<and>
     search_high st \<le> M"

definition counts_ok :: "pmtu_search \<Rightarrow> bool" where
  "counts_ok st \<longleftrightarrow> probe_count st \<in> {0..<3} \<and> validation_acks st \<in> {0..<3}"

definition phase_ok :: "int \<Rightarrow> pmtu_search \<Rightarrow> bool" where
  "phase_ok M st \<longleftrightarrow>
     (\<forall>c. candidate_mtu st = Some c \<longrightarrow> min_mtu st \<le> c \<and> c \<le> M) \<and>
     (pm_state st \<in> {DISABLED, SEARCH_COMPLETE, ERROR} \<longrightarrow> candidate_mtu st = None \<and> probe_timer_expiry st = None) \<and>
     (pm_state st \<in> {SEARCH_COMPLETE, ERROR} \<longrightarrow> raise_timer_expiry st \<noteq> None) \<and>
     (pm_state st = BASE \<longrightarrow> candidate_mtu st = Some (base_mtu st))"

definition pmtu_inv :: "int \<Rightarrow> pmtu_search \<Rightarrow> bool" where
  "pmtu_inv M st \<longleftrightarrow> sizes_ok M st \<and> counts_ok st \<and> phase_ok M st"

lemma advance_search_inv:
  assumes "sizes_ok M st" "counts_ok st" "probe_timer_expiry st = None"
  shows "pmtu_inv M (advance_search now st)"
  using assms next_candidate_Some [of st]
  by (auto simp: pmtu_inv_def sizes_ok_def counts_ok_def phase_ok_def advance_search_def enter_search_complete_def Let_def)

lemma next_probe_size_inv:
  assumes "pmtu_inv M st"
  shows "pmtu_inv M (fst (next_probe_size now st))"
proof -
  have "ack_size st < c \<and> c < max_mtu st"
    if "next_candidate (st\<lparr>search_high := max_mtu st, raise_timer_expiry := None\<rparr>) = Some c" for c
    using next_candidate_Some [OF that] by simp
  then show ?thesis
    using assms
    by (cases "pm_state st")
      (fastforce simp: pmtu_inv_def sizes_ok_def counts_ok_def phase_ok_def next_probe_size_def Let_def)+
qed

lemma validate_ack_keeps:
  assumes "validate_ack sz st = (st1, stop)" "counts_ok st"
  shows "counts_ok st1" "pm_state st1 = pm_state st" "sizes_ok M st1 = sizes_ok M st"
    "stop \<Longrightarrow> pm_state st = SEARCHING \<and> candidate_mtu st1 = candidate_mtu st \<and> min_mtu st1 = min_mtu st"
    "\<not> stop \<Longrightarrow> candidate_mtu st1 = candidate_mtu st \<and> probe_timer_expiry st1 = probe_timer_expiry st \<and>
       raise_timer_expiry st1 = raise_timer_expiry st \<and> min_mtu st1 = min_mtu st"
  using assms by (auto simp: validate_ack_def Let_def counts_ok_def plpmtud_consts sizes_ok_def split: if_splits)

lemma on_probe_ack_inv:
  assumes "pmtu_inv M st" "sz \<le> M"
  shows "pmtu_inv M (on_probe_ack sz now st)"
proof (cases "pm_state st = DISABLED")
  case False
  obtain st1 stop where v: "validate_ack sz (st\<lparr>probe_count := 0\<rparr>) = (st1, stop)" by fastforce
  have c: "counts_ok (st\<lparr>probe_count := 0\<rparr>)" and sz: "sizes_ok M (st\<lparr>probe_count := 0\<rparr>)"
    using assms(1) by (auto simp: pmtu_inv_def counts_ok_def sizes_ok_def)
  note k = validate_ack_keeps [OF v c]
  show ?thesis
  proof (cases stop)
    case True
    have "phase_ok M st1" using k(2) k(4) [OF True] assms(1) by (simp add: pmtu_inv_def phase_ok_def)
    then show ?thesis using False True v k(1) k(3) [of M] sz by (simp add: on_probe_ack_def pmtu_inv_def)
  next
    case stop: False
    define st2 where "st2 = accept_size sz st1"
    have s2: "sizes_ok M st2" "counts_ok st2" "pm_state st2 = pm_state st"
      using k(1,2) k(3) [of M] sz assms(2) by (auto simp: st2_def accept_size_def sizes_ok_def counts_ok_def)
    have "pmtu_inv M (advance_search now (st2\<lparr>probe_timer_expiry := None\<rparr>))"
      "pmtu_inv M (advance_search now (st2\<lparr>probe_timer_expiry := None, raise_timer_expiry := None\<rparr>))"
      using s2 by (auto intro!: advance_search_inv simp: sizes_ok_def counts_ok_def)
    moreover have "phase_ok M st2" if "pm_state st2 = SEARCH_COMPLETE"
      using assms(1) k(2) k(5) [OF stop] that by (simp add: pmtu_inv_def phase_ok_def st2_def accept_size_def)
    ultimately show ?thesis
      using False stop v s2 by (cases "pm_state st2") (auto simp: on_probe_ack_def Let_def pmtu_inv_def simp flip: st2_def)
  qed
qed (use assms in \<open>simp add: on_probe_ack_def\<close>)

lemma on_probe_loss_inv:
  assumes "pmtu_inv M st"
  shows "pmtu_inv M (on_probe_loss now st)"
proof -
  define st1 where "st1 = st\<lparr>probe_count := probe_count st + 1, probe_timer_expiry := None,
    validation_size := 0, validation_acks := 0\<rparr>"
  define st2 where "st2 = (case candidate_mtu st1 of None \<Rightarrow> st1 | Some c \<Rightarrow> st1\<lparr>search_high := c - 1\<rparr>)"
  define st3 where "st3 = st1\<lparr>pm_state := ERROR, current_mtu := (if probing st1 then seed_mtu st1 else min_mtu st1),
    candidate_mtu := None, probe_count := 0, raise_timer_expiry := Some (now + PMTU_RAISE_TIMER__SEC)\<rparr>"
  have ok: "sizes_ok M st" "counts_ok st" "phase_ok M st" using assms by (simp_all add: pmtu_inv_def)
  have "min_mtu st \<le> M" using ok(1) by (auto simp: sizes_ok_def)
  then have "sizes_ok M st3" using ok(1) by (simp add: st3_def st1_def sizes_ok_def)
  then have inv3: "pmtu_inv M st3" by (simp add: pmtu_inv_def counts_ok_def phase_ok_def st3_def st1_def)
  have s2: "sizes_ok M st2" using ok(1,3) by (cases "candidate_mtu st") (auto simp: st2_def st1_def sizes_ok_def phase_ok_def)
  have low: "counts_ok st1" "phase_ok M st1" "sizes_ok M st1" if "\<not> 3 \<le> probe_count st1" "pm_state st \<in> {BASE, SEARCHING}"
    using ok that by (auto simp: st1_def counts_ok_def phase_ok_def sizes_ok_def)
  have inv2: "pmtu_inv M (advance_search now st2)" if "\<not> 3 \<le> probe_count st1" "pm_state st \<in> {BASE, SEARCHING}"
    using s2 low [OF that] by (intro advance_search_inv) (auto simp: st2_def st1_def counts_ok_def split: option.splits)
  have eq: "on_probe_loss now st = (if pm_state st \<in> {DISABLED, SEARCH_COMPLETE, ERROR} then st
      else if probe_count st1 \<ge> 3 then st3 else if pm_state st = BASE then st1 else advance_search now st2)"
    by (simp add: on_probe_loss_def Let_def st3_def st2_def st1_def MAX_PROBES_def split: option.split)
  show ?thesis unfolding eq using assms inv3 inv2 low by (cases "pm_state st") (simp_all add: pmtu_inv_def)
qed

lemma on_classical_error:
  "pm_state st = ERROR \<Longrightarrow> on_classical_pmtu mtu now st =
     advance_search now (st\<lparr>search_high := max (min_mtu st) mtu,
       current_mtu := max (min_mtu st) mtu, ack_size := min_mtu st, probe_count := 0,
       probe_timer_expiry := None, raise_timer_expiry := None\<rparr>)"
  by (simp add: on_classical_pmtu_def Let_def advance_search_def next_candidate_fields max.absorb1
    enter_search_complete_def)

lemma on_classical_other:
  "pm_state st \<noteq> ERROR \<Longrightarrow> on_classical_pmtu mtu now st =
     (if pm_state st \<noteq> DISABLED \<and> max (min_mtu st) mtu < current_mtu st
      then st\<lparr>current_mtu := max (min_mtu st) mtu\<rparr> else st)"
  by (simp add: on_classical_pmtu_def Let_def)

lemma on_classical_inv:
  assumes "pmtu_inv M st" "mtu \<le> M"
  shows "pmtu_inv M (on_classical_pmtu mtu now st)"
proof (cases "pm_state st = ERROR")
  case True
  have ok: "sizes_ok M st" "counts_ok st" using assms(1) by (simp_all add: pmtu_inv_def)
  have "min_mtu st \<le> M" using ok(1) by (auto simp: sizes_ok_def)
  then show ?thesis unfolding on_classical_error [OF True]
    using ok assms(2) by (intro advance_search_inv) (simp_all add: sizes_ok_def counts_ok_def)
next
  case False
  have "min_mtu st \<le> M" using assms(1) by (auto simp: pmtu_inv_def sizes_ok_def)
  then show ?thesis unfolding on_classical_other [OF False]
    using assms by (simp add: pmtu_inv_def sizes_ok_def counts_ok_def phase_ok_def)
qed

lemma confirm_inv:
  assumes "pmtu_inv M st"
  shows "pmtu_inv M (confirm_current sz now st)"
proof -
  define st1 where "st1 = (if sz > ack_size st \<and> sz \<le> current_mtu st then st\<lparr>ack_size := sz\<rparr> else st)"
  have st1: "pmtu_inv M st1" using assms by (auto simp: st1_def pmtu_inv_def sizes_ok_def counts_ok_def phase_ok_def)
  then have "pmtu_inv M (advance_search now (st1\<lparr>probe_count := 0, probe_timer_expiry := None\<rparr>))"
    by (intro advance_search_inv) (auto simp: pmtu_inv_def sizes_ok_def counts_ok_def)
  then show ?thesis using assms st1 by (simp add: confirm_current_def Let_def flip: st1_def)
qed

lemma black_hole_inv:
  assumes "pmtu_inv M st"
  shows "pmtu_inv M (on_black_hole_suspected now st)"
proof -
  have "pmtu_inv M (advance_search now
      (st\<lparr>current_mtu := seed_mtu st, ack_size := min (ack_size st) (seed_mtu st),
          search_high := min (search_high st) (current_mtu st - 1), probe_count := 0,
          probe_timer_expiry := None, validation_size := 0, validation_acks := 0\<rparr>))"
    using assms by (intro advance_search_inv) (auto simp: pmtu_inv_def sizes_ok_def counts_ok_def)
  then show ?thesis using assms by (simp add: on_black_hole_suspected_def Let_def)
qed

lemma limit_max_eq:
  "limit_max mtu st =
     (let m = min (max_mtu st) (max mtu (min_mtu st)) in
      st\<lparr>max_mtu := m, search_high := min (search_high st) m, current_mtu := min (current_mtu st) m\<rparr>)"
  by (cases st) (simp add: limit_max_def Let_def min_def max_def not_less not_le)

lemma limit_disable_inv:
  assumes "pmtu_inv M st"
  shows "pmtu_inv M (limit_max mtu st)" "pmtu_inv M (disable st)"
proof -
  define m where "m = min (max_mtu st) (max mtu (min_mtu st))"
  have ok: "sizes_ok M st" "counts_ok st" "phase_ok M st" using assms by (simp_all add: pmtu_inv_def)
  have "min_mtu st \<le> m" "m \<le> M" using ok(1) by (auto simp: m_def sizes_ok_def)
  then have "sizes_ok M (limit_max mtu st)" "counts_ok (limit_max mtu st)" "phase_ok M (limit_max mtu st)"
    using ok by (simp_all add: limit_max_eq Let_def sizes_ok_def counts_ok_def phase_ok_def min_le_iff_disj flip: m_def)
  then show "pmtu_inv M (limit_max mtu st)" by (simp add: pmtu_inv_def)
  show "pmtu_inv M (disable st)" using ok by (simp add: pmtu_inv_def disable_def sizes_ok_def counts_ok_def phase_ok_def)
qed

lemmas pmtu_ops_inv [inv_intros] = next_probe_size_inv on_probe_ack_inv on_probe_loss_inv on_classical_inv confirm_inv
  black_hole_inv limit_disable_inv

interpretation pmtu: inv_machine pmtu_step "pmtu_event_ok M" "pmtu_inv M" for M
  by unfold_locales (auto simp: pmtu_step_def pmtu_event_ok_def intro: inv_intros split: pmtu_event.splits)

section \<open>The search converges\<close>

text \<open>
  One round on a path that delivers exactly the packets of at most \<open>P\<close> bytes: the engine asks
  for a probe, which is acknowledged or lost.
\<close>

definition search_round :: "int \<Rightarrow> rat \<Rightarrow> pmtu_search \<Rightarrow> pmtu_search" where
  "search_round P now st =
     (case next_probe_size now st of
        (st1, None) \<Rightarrow> st1
      | (st1, Some c) \<Rightarrow> if c \<le> P then on_probe_ack c now st1 else on_probe_loss now st1)"

text \<open>A running search whose bracket contains \<open>P\<close>.\<close>

definition bracketed :: "int \<Rightarrow> pmtu_search \<Rightarrow> bool" where
  "bracketed P st \<longleftrightarrow> ack_size st \<le> P \<and> P \<le> search_high st"

definition search_running :: "int \<Rightarrow> pmtu_search \<Rightarrow> bool" where
  "search_running P st \<longleftrightarrow>
     pm_state st = SEARCHING \<and> probe_timer_expiry st = None \<and> bracketed P st \<and>
     (\<exists>c. candidate_mtu st = Some c \<and> ack_size st < c \<and> c < search_high st)"

definition search_settled :: "int \<Rightarrow> pmtu_search \<Rightarrow> bool" where
  "search_settled P st \<longleftrightarrow>
     pm_state st = SEARCH_COMPLETE \<and> bracketed P st \<and> search_high st \<le> ack_size st + LADDER_GRANULARITY"

definition search_measure :: "pmtu_search \<Rightarrow> nat" where
  "search_measure st =
     nat (3 * (search_high st - ack_size st) -
       (if candidate_mtu st = Some (validation_size st) then validation_acks st else 0))"

lemma advance_search_cases:
  assumes "bracketed P st" "probe_timer_expiry st = None"
  shows "search_running P (advance_search now st) \<or> search_settled P (advance_search now st)"
proof (cases "next_candidate st")
  case None
  then have "search_high st \<le> ack_size st + 8" by (simp add: next_candidate_None)
  then have "search_settled P (advance_search now st)"
    using None assms by (simp add: search_settled_def bracketed_def advance_search_def enter_search_complete_def Let_def plpmtud_consts)
  then show ?thesis ..
next
  case (Some c)
  then have "search_running P (advance_search now st)"
    using next_candidate_Some [OF Some] assms by (simp add: search_running_def bracketed_def advance_search_def Let_def)
  then show ?thesis ..
qed

lemma advance_search_fields [simp]:
  "search_high (advance_search now st) = search_high st" "ack_size (advance_search now st) = ack_size st"
  "validation_acks (advance_search now st) = validation_acks st" "probe_count (advance_search now st) = probe_count st"
  "counts_ok (advance_search now st) = counts_ok st"
  by (simp_all add: advance_search_def enter_search_complete_def Let_def counts_ok_def)

lemma validate_fields:
  "snd (validate_ack sz st) \<longleftrightarrow> probing st \<and> pm_state st = SEARCHING \<and>
     (if sz = validation_size st then validation_acks st else 0) < 2"
  "ack_size (fst (validate_ack sz st)) = ack_size st" "search_high (fst (validate_ack sz st)) = search_high st"
  "probe_count (fst (validate_ack sz st)) = probe_count st"
  by (auto simp: validate_ack_def Let_def VALIDATION_ACKS_def)

lemma round_emits:
  assumes "search_running P st" "candidate_mtu st = Some c"
  shows "search_round P now st =
    (let st1 = st\<lparr>probe_timer_expiry := Some (now + probe_timer_sec st)\<rparr> in
     if c \<le> P then on_probe_ack c now st1 else on_probe_loss now st1)"
  using assms by (simp add: search_round_def next_probe_size_def search_running_def Let_def)

lemma round_lost:
  assumes run: "search_running P st" and c: "candidate_mtu st = Some c" and "P < c" and cnt: "counts_ok st"
  shows "(pm_state (search_round P now st) = ERROR \<or>
      ((search_running P (search_round P now st) \<or> search_settled P (search_round P now st)) \<and>
       search_measure (search_round P now st) < search_measure st)) \<and> counts_ok (search_round P now st) \<and>
    (if pm_state (search_round P now st) = ERROR then MAX_PROBES \<le> probe_count st + 1
     else probe_count (search_round P now st) = probe_count st + 1)"
proof -
  define st2 where "st2 = st\<lparr>probe_count := probe_count st + 1, probe_timer_expiry := None,
    validation_size := 0, validation_acks := 0, search_high := c - 1\<rparr>"
  have eq: "search_round P now st =
      (if 3 \<le> probe_count st + 1
       then st\<lparr>probe_timer_expiry := None, validation_size := 0, validation_acks := 0, pm_state := ERROR,
          current_mtu := (if probing st then seed_mtu st else min_mtu st), candidate_mtu := None, probe_count := 0,
          raise_timer_expiry := Some (now + PMTU_RAISE_TIMER__SEC)\<rparr>
       else advance_search now st2)"
    using run c assms(3) unfolding round_emits [OF run c]
    by (simp add: on_probe_loss_def Let_def search_running_def st2_def MAX_PROBES_def)
  have b: "bracketed P st2" using run c assms(3) by (auto simp: search_running_def bracketed_def st2_def)
  have cs: "search_running P (advance_search now st2) \<or> search_settled P (advance_search now st2)"
    by (rule advance_search_cases [OF b]) (simp add: st2_def)
  have "search_measure (advance_search now st2) \<le> nat (3 * (c - 1 - ack_size st))"
    by (simp add: search_measure_def st2_def)
  also have "\<dots> < search_measure st"
    using run c cnt by (auto simp: search_running_def search_measure_def counts_ok_def)
  finally show ?thesis using cs cnt
    by (auto simp: eq counts_ok_def st2_def MAX_PROBES_def search_running_def search_settled_def)
qed

lemma round_acked:
  assumes run: "search_running P st" and c: "candidate_mtu st = Some c" and "c \<le> P" and cnt: "counts_ok st"
  shows "(search_running P (search_round P now st) \<or> search_settled P (search_round P now st)) \<and>
       search_measure (search_round P now st) < search_measure st \<and> counts_ok (search_round P now st) \<and>
       probe_count (search_round P now st) = 0"
proof -
  define st1 where "st1 = st\<lparr>probe_timer_expiry := Some (now + probe_timer_sec st), probe_count := 0\<rparr>"
  have cs: "ack_size st < c" "c < search_high st" using run c by (auto simp: search_running_def)
  have eq: "search_round P now st = (case validate_ack c st1 of (st2, stop) \<Rightarrow>
      if stop then st2 else advance_search now ((accept_size c st2)\<lparr>probe_timer_expiry := None\<rparr>))"
    using run assms(3) unfolding round_emits [OF run c]
    by (auto simp: on_probe_ack_def Let_def search_running_def st1_def validate_ack_def accept_size_def)
  show ?thesis
  proof (cases "probing st \<and> (if c = validation_size st then validation_acks st else 0) < 2")
    case True
    define n where "n = (if c = validation_size st then validation_acks st else 0) + 1"
    have "validate_ack c st1 =
        (st1\<lparr>validation_size := c, validation_acks := n, probe_timer_expiry := None\<rparr>, True)"
      using True run by (auto simp: validate_ack_def Let_def st1_def n_def search_running_def plpmtud_consts)
    then have r: "search_round P now st = st1\<lparr>validation_size := c, validation_acks := n, probe_timer_expiry := None\<rparr>"
      by (simp add: eq)
    show ?thesis unfolding r using run c cs True cnt
      by (auto simp: search_running_def bracketed_def search_measure_def st1_def n_def counts_ok_def split: if_splits)
  next
    case False
    obtain st2 stop where v: "validate_ack c st1 = (st2, stop)" by fastforce
    have "counts_ok st1" using cnt by (simp add: st1_def counts_ok_def)
    then have st2: "validate_ack c st1 = (st2, False)" "ack_size st2 = ack_size st"
      "search_high st2 = search_high st" "counts_ok st2" "probe_count st2 = 0"
      using v False run validate_fields [of c st1] validate_ack_keeps(1) [OF v]
      by (auto simp: st1_def search_running_def)
    define st3 where "st3 = (accept_size c st2)\<lparr>probe_timer_expiry := None\<rparr>"
    have r: "search_round P now st = advance_search now st3" by (simp add: eq st2 st3_def)
    have f: "ack_size st3 = c" "search_high st3 = search_high st" "probe_timer_expiry st3 = None" "counts_ok st3"
      "probe_count st3 = 0"
      using st2 cs by (simp_all add: st3_def accept_size_def counts_ok_def)
    have b: "bracketed P st3" using run assms(3) f by (simp add: search_running_def bracketed_def)
    have "search_measure (advance_search now st3) \<le> nat (3 * (search_high st - c))"
      using f by (auto simp: search_measure_def counts_ok_def)
    also have "\<dots> < search_measure st" using cs cnt by (auto simp: search_measure_def counts_ok_def)
    finally show ?thesis unfolding r using advance_search_cases [OF b f(3)] f(4,5) by simp
  qed
qed

text \<open>The rounds that lose their probe, and how a search can end: \<open>m\<close> losses in a row precede it.\<close>

definition lost_round :: "int \<Rightarrow> pmtu_search \<Rightarrow> bool" where
  "lost_round P st \<longleftrightarrow> (\<exists>c. candidate_mtu st = Some c \<and> P < c)"

definition ends_after :: "int \<Rightarrow> rat \<Rightarrow> int \<Rightarrow> pmtu_search \<Rightarrow> nat \<Rightarrow> bool" where
  "ends_after P now m st n \<longleftrightarrow>
     (\<forall>k < n. search_running P ((search_round P now ^^ k) st)) \<and>
     (search_settled P ((search_round P now ^^ n) st) \<or>
      pm_state ((search_round P now ^^ n) st) = ERROR \<and> MAX_PROBES \<le> int n + m \<and>
      (\<forall>k < n. int n \<le> int k + MAX_PROBES \<longrightarrow> lost_round P ((search_round P now ^^ k) st)))"

lemma ends_after_Suc:
  assumes run: "search_running P st" and rest: "ends_after P now m' (search_round P now st) n"
    and lost: "lost_round P st \<and> m' = m + 1 \<or> m' = 0" and m: "0 \<le> m"
  shows "ends_after P now m st (Suc n)"
proof -
  let ?f = "\<lambda>k. (search_round P now ^^ k) st"
  have f: "(search_round P now ^^ k) (search_round P now st) = ?f (Suc k)" for k by (simp add: funpow_swap1)
  have all: "P' (?f k)" if "k < Suc n" "P' st" "\<forall>j < n. P' (?f (Suc j))" for P' k using that by (cases k) auto
  have "search_running P (?f k)" if "k < Suc n" for k
    using all [of k "search_running P"] that run rest by (auto simp: ends_after_def f)
  moreover have "lost_round P (?f k)" if "k < Suc n" "int (Suc n) \<le> int k + MAX_PROBES" "MAX_PROBES \<le> int n + m'"
      "\<forall>j < n. int n \<le> int j + MAX_PROBES \<longrightarrow> lost_round P (?f (Suc j))" for k
    using that lost by (cases k) (auto simp: MAX_PROBES_def)
  ultimately show ?thesis using rest lost m unfolding ends_after_def f by auto
qed

lemma search_converges:
  "search_running P st \<Longrightarrow> counts_ok st \<Longrightarrow> 0 \<le> probe_count st \<Longrightarrow> \<exists>n. ends_after P now (probe_count st) st n"
proof (induction "search_measure st" arbitrary: st rule: less_induct)
  case less
  obtain c where c: "candidate_mtu st = Some c" using less.prems(1) by (auto simp: search_running_def)
  let ?r = "search_round P now st"
  show ?case
  proof (cases "pm_state ?r = ERROR \<or> search_settled P ?r")
    case True
    have "c \<le> P \<Longrightarrow> pm_state ?r \<noteq> ERROR"
      using round_acked [OF less.prems(1) c _ less.prems(2), of now] by (auto simp: search_running_def search_settled_def)
    then have "ends_after P now (probe_count st) st 1"
      using True round_lost [OF less.prems(1) c _ less.prems(2), of now] less.prems(1) c
      by (force simp: ends_after_def lost_round_def search_settled_def)
    then show ?thesis by blast
  next
    case False
    have r: "search_running P ?r" "search_measure ?r < search_measure st" "counts_ok ?r"
      "P < c \<and> probe_count ?r = probe_count st + 1 \<or> probe_count ?r = 0"
      using False round_lost [OF less.prems(1) c _ less.prems(2), of now] round_acked [OF less.prems(1) c _ less.prems(2), of now]
      by (cases "c \<le> P"; auto)+
    then obtain n where "ends_after P now (probe_count ?r) ?r n" using less.hyps [of ?r] less.prems(3) by force
    from ends_after_Suc [OF less.prems(1) this, of "probe_count st"] show ?thesis
      using r(4) c less.prems(3) by (auto simp: lost_round_def)
  qed
qed

section \<open>What each operation leaves alone\<close>

lemma advance_search_current [simp]:
  "current_mtu (advance_search now st) = current_mtu st" "min_mtu (advance_search now st) = min_mtu st"
  by (simp_all add: advance_search_def enter_search_complete_def Let_def)

lemma validate_ack_min: "min_mtu (fst (validate_ack sz st)) = min_mtu st"
  by (simp add: validate_ack_def Let_def)

lemma on_probe_ack_min: "min_mtu (on_probe_ack sz now st) = min_mtu st"
  using validate_ack_min [of sz "st\<lparr>probe_count := 0\<rparr>"]
  by (auto simp: on_probe_ack_def accept_size_def Let_def split: prod.splits pmtu_state.splits)

lemma next_probe_min: "min_mtu (fst (next_probe_size now st)) = min_mtu st"
  by (simp add: next_probe_size_def Let_def split: pmtu_state.splits)

lemma on_probe_loss_min: "min_mtu (on_probe_loss now st) = min_mtu st"
  by (simp add: on_probe_loss_def Let_def split: option.splits)

lemma on_classical_min: "min_mtu (on_classical_pmtu mtu now st) = min_mtu st"
  by (cases "pm_state st = ERROR") (simp_all add: on_classical_error on_classical_other)

lemma pmtu_step_min: "min_mtu (pmtu_step ev st) = min_mtu st"
  by (cases ev)
    (simp_all add: pmtu_step_def next_probe_min on_probe_ack_min on_probe_loss_min on_classical_min confirm_current_def
      on_black_hole_suspected_def limit_max_eq disable_def Let_def)

lemma next_probe_candidate: "snd (next_probe_size now st) = Some c \<Longrightarrow> candidate_mtu (fst (next_probe_size now st)) = Some c"
  by (auto simp: next_probe_size_def Let_def split: pmtu_state.splits if_splits)

section \<open>Properties\<close>

text \<open>
  Every size the engine holds stays in range. On an interface whose MTU is at least the
  base size of the family, whatever sequence of probes, acknowledgments and losses of sizes
  up to that MTU, ICMP reports up to that MTU, confirmations, black-hole reports and limits
  the engine sees: the working MTU lies between the family floor and the interface MTU, so
  does every probe it asks for, an idle state has no candidate and no probe timer, and the
  completed and failed states always have the raise timer armed.
\<close>

theorem pmtu_sizes_in_range:
  assumes "(if is_ip6 then BASE_PLPMTU__IP6 else BASE_PLPMTU__IP4) \<le> interface_mtu"
    "list_all (pmtu_event_ok interface_mtu) evs"
  shows "let st = fold pmtu_step evs (pmtu_init is_ip6 interface_mtu prob timer seed);
      floor_mtu = (if is_ip6 then MIN_PLPMTU__IP6 else MIN_PLPMTU__IP4) in
    floor_mtu \<le> current_mtu st \<and> current_mtu st \<le> interface_mtu \<and>
    (\<forall>c. snd (next_probe_size now st) = Some c \<longrightarrow> floor_mtu \<le> c \<and> c \<le> interface_mtu) \<and>
    (pm_state st \<in> {DISABLED, SEARCH_COMPLETE, ERROR} \<longrightarrow> candidate_mtu st = None \<and> probe_timer_expiry st = None) \<and>
    (pm_state st \<in> {SEARCH_COMPLETE, ERROR} \<longrightarrow> raise_timer_expiry st \<noteq> None)"
proof -
  define fl where "fl = (if is_ip6 then MIN_PLPMTU__IP6 else MIN_PLPMTU__IP4)"
  have init: "pmtu_inv interface_mtu (pmtu_init is_ip6 interface_mtu prob timer seed)"
    using assms(1)
    by (auto simp: pmtu_init_def Let_def pmtu_inv_def sizes_ok_def counts_ok_def phase_ok_def plpmtud_consts
      split: option.splits if_splits)
  have "min_mtu (fold pmtu_step evs st) = min_mtu st" for st
    by (induction evs arbitrary: st) (simp_all add: pmtu_step_min)
  then have fl: "min_mtu (fold pmtu_step evs (pmtu_init is_ip6 interface_mtu prob timer seed)) = fl"
    by (simp add: pmtu_init_def Let_def fl_def)
  obtain st where st: "fold pmtu_step evs (pmtu_init is_ip6 interface_mtu prob timer seed) = st"
    "pmtu_inv interface_mtu st" using pmtu.run_inv [OF init assms(2)] by blast
  have "snd (next_probe_size now st) = Some c \<Longrightarrow> min_mtu st \<le> c \<and> c \<le> interface_mtu" for c
    using next_probe_size_inv [OF st(2), of now] next_probe_candidate [of now st c]
    by (auto simp: pmtu_inv_def phase_ok_def next_probe_min)
  then show ?thesis
    using st(2) fl unfolding st(1) by (simp add: pmtu_inv_def sizes_ok_def phase_ok_def Let_def fl_def)
qed

theorem pmtu_sizes_in_range_witness:
  "current_mtu (fold pmtu_step [NextProbe 0, ProbeAck 1200 1, NextProbe 1, ProbeLoss 2] (pmtu_init False 1500 True 30 None)) \<le> 1500"
  using pmtu_sizes_in_range [of False 1500 "[NextProbe 0, ProbeAck 1200 1, NextProbe 1, ProbeLoss 2]"  True 30 None]
  by (simp add: pmtu_event_ok_def plpmtud_consts Let_def)

text \<open>
  C39. The search ends, and for one of two reasons. On a path that delivers exactly the packets of
  at most \<open>P\<close> bytes, with \<open>P\<close> inside the bracket and no loss counted yet, finitely many rounds of probing end the
  search, in classical as in validating mode, and up to then every round is one of a running search: either the
  bracket has closed to the ladder's granularity of eight bytes around \<open>P\<close> and the search is complete, or the
  engine has given up, and then the last three rounds each sent a probe larger than \<open>P\<close> and lost it.
\<close>

theorem pmtu_search_converges:
  assumes "search_running P st" "counts_ok st" "probe_count st = 0"
  shows "\<exists>n. (\<forall>k < n. search_running P ((search_round P now ^^ k) st)) \<and>
    (let st' = (search_round P now ^^ n) st in
     (pm_state st' = SEARCH_COMPLETE \<and> ack_size st' \<le> P \<and> P \<le> search_high st' \<and>
      search_high st' \<le> ack_size st' + LADDER_GRANULARITY) \<or>
     (pm_state st' = ERROR \<and> 3 \<le> n \<and>
      (\<forall>k \<in> {n - 3..<n}. \<exists>c. candidate_mtu ((search_round P now ^^ k) st) = Some c \<and> P < c)))"
proof -
  obtain n where "ends_after P now 0 st n" using search_converges [OF assms(1,2), of now] assms(3) by auto
  then show ?thesis
    by (intro exI [of _ n]) (auto simp: ends_after_def search_settled_def bracketed_def lost_round_def MAX_PROBES_def Let_def)
qed

theorem pmtu_search_converges_witness:
  "\<exists>n. let st' = (search_round 1400 0 ^^ n) (on_probe_ack 1200 0 (pmtu_init False 1500 True 30 None)) in
    pm_state st' = ERROR \<and> 3 \<le> n \<or>
    (pm_state st' = SEARCH_COMPLETE \<and> ack_size st' \<le> 1400 \<and> 1400 \<le> search_high st' \<and>
     search_high st' \<le> ack_size st' + LADDER_GRANULARITY)"
proof -
  let ?st = "on_probe_ack 1200 0 (pmtu_init False 1500 True 30 None)"
  have "search_running 1400 ?st" "counts_ok ?st" "probe_count ?st = 0"
    by (simp_all add: search_running_def bracketed_def counts_ok_def on_probe_ack_def validate_ack_def accept_size_def
      advance_search_def next_candidate_def pmtu_init_def plpmtud_consts Let_def)
  from pmtu_search_converges [OF this, of 0] show ?thesis by (auto simp: Let_def)
qed

text \<open>
  In validating mode only three confirmations in a row raise the working size. If any
  operation on a searching engine increases the working MTU, it is an acknowledgment of
  exactly the new size, and two acknowledgments of the same size were already counted.
\<close>

theorem pmtu_raise_is_validated:
  assumes "probing st" "pm_state st = SEARCHING" "seed_mtu st \<le> current_mtu st"
    "current_mtu st < current_mtu (pmtu_step ev st)"
  shows "\<exists>now. ev = ProbeAck (current_mtu (pmtu_step ev st)) now \<and>
    validation_size st = current_mtu (pmtu_step ev st) \<and> VALIDATION_ACKS - 1 \<le> validation_acks st"
proof (cases ev)
  case (ProbeAck sz now)
  then show ?thesis using assms
    by (auto simp: pmtu_step_def on_probe_ack_def validate_ack_def accept_size_def advance_search_current Let_def
      plpmtud_consts split: if_splits)
qed (use assms in \<open>auto simp: pmtu_step_def next_probe_size_def on_probe_loss_def on_classical_other confirm_current_def
  on_black_hole_suspected_def limit_max_eq disable_def advance_search_current Let_def split: if_splits option.splits\<close>)

theorem pmtu_raise_is_validated_witness:
  "let st = (pmtu_init False 1500 True 30 None)\<lparr>pm_state := SEARCHING, candidate_mtu := Some 1344,
      validation_size := 1344, validation_acks := 2\<rparr> in
   current_mtu (pmtu_step (ProbeAck 1344 5) st) = 1344 \<and> VALIDATION_ACKS - 1 \<le> validation_acks st"
proof -
  let ?st = "(pmtu_init False 1500 True 30 None)\<lparr>pm_state := SEARCHING, candidate_mtu := Some 1344,
      validation_size := 1344, validation_acks := 2\<rparr>"
  have "current_mtu (pmtu_step (ProbeAck 1344 5) ?st) = 1344"
    by (simp add: pmtu_step_def on_probe_ack_def validate_ack_def accept_size_def advance_search_current
      pmtu_init_def plpmtud_consts Let_def)
  with pmtu_raise_is_validated [of ?st "ProbeAck 1344 5"] show ?thesis
    by (simp add: pmtu_init_def plpmtud_consts Let_def)
qed

section \<open>Departures from the documented behaviour\<close>

text \<open>
  \<^verbatim>\<open>on_classical_pmtu\<close> says that the classical signal "MUST NOT raise the PLPMTU". After a
  black hole an ICMP report does: it sets the working MTU to the reported value, even beyond
  the interface MTU.
\<close>

lemma classical_raises_after_error:
  "let st = (pmtu_init False 1500 False 30 None)\<lparr>pm_state := ERROR, current_mtu := 576, candidate_mtu := None,
       raise_timer_expiry := Some 600\<rparr>
   in current_mtu (on_classical_pmtu 9000 1 st) = 9000 \<and> max_mtu st = 1500"
  by (simp add: on_classical_error advance_search_current pmtu_init_def plpmtud_consts Let_def)

text \<open>
  \<^verbatim>\<open>limit_max\<close> says that the ladder then never proposes a packet above the limit. A candidate
  chosen before is still proposed, and the base candidate is proposed on an interface below
  the base size.
\<close>

lemma limit_max_keeps_candidate:
  "snd (next_probe_size 0 (limit_max 1000 (pmtu_init False 1500 True 30 None))) = Some 1200"
  "snd (next_probe_size 0 (pmtu_init False 1000 True 30 None)) = Some 1200"
  by (simp_all add: next_probe_size_def limit_max_def pmtu_init_def plpmtud_consts Let_def)

text \<open>
  RFC 8899 section 5.2 leaves the searching state for search-complete when the probe counter
  reaches its maximum. The code counts losses of different candidates together and declares a
  black hole: on a path of 1210 bytes the base size is confirmed and the engine then falls
  back to the 576-byte floor.
\<close>

lemma search_gives_up_above_confirmed_size:
  "let st = (search_round 1210 0 ^^ 4) (pmtu_init False 1500 False 30 None)
   in ack_size st = 1200 \<and> pm_state st = ERROR \<and> current_mtu st = 576"
  by (simp add: numeral_eq_Suc search_round_def next_probe_size_def on_probe_ack_def on_probe_loss_def validate_ack_def
    accept_size_def advance_search_def next_candidate_def pmtu_init_def plpmtud_consts Let_def)

text \<open>
  When the raise timer expires with the bracket already closed, the engine enters the
  searching state with no candidate and asks for no probe again.
\<close>

lemma raise_without_candidate_is_stuck:
  assumes "pm_state st = SEARCH_COMPLETE" "raise_timer_expiry st = Some t" "t \<le> now"
    "max_mtu st \<le> ack_size st + LADDER_GRANULARITY"
  shows "let st' = fst (next_probe_size now st) in
    pm_state st' = SEARCHING \<and> snd (next_probe_size now st) = None \<and> next_probe_size later st' = (st', None)"
proof -
  have "next_candidate (st\<lparr>search_high := max_mtu st, raise_timer_expiry := None\<rparr>) = None"
    using assms(4) by (simp add: next_candidate_None LADDER_GRANULARITY_def)
  then show ?thesis using assms(1-3) by (simp add: next_probe_size_def Let_def)
qed

end
