(* ===== verification/Tcp_Plpmtud.thy ===== *)
theory Tcp_Plpmtud
  imports Tcp_Seq Plpmtud
begin

text \<open>
  \<^verbatim>\<open>tcp__plpmtud_adapter.py\<close>: the adapter that ties one session's segments to its path-MTU
  engine. It remembers the probes in flight, by their terminal sequence number, and one
  regular segment whose acknowledgment confirms the working size.

  TCP acknowledges bytes, not packets: a cumulative ACK past a probe says that its bytes
  arrived, in one piece or in a repair. The adapter must therefore forget a probe as soon as
  anything of it is sent again. The theory shows that it does, and that the working size
  then never exceeds what the path delivers.
\<close>

definition seq_le :: "seq32 \<Rightarrow> seq32 \<Rightarrow> bool" where
  "seq_le seq_a seq_b \<longleftrightarrow> seq_b - seq_a < 0x80000000"

definition ranges_overlap :: "seq32 \<Rightarrow> seq32 \<Rightarrow> seq32 \<Rightarrow> seq32 \<Rightarrow> bool" where
  "ranges_overlap a_start a_end b_start b_end \<longleftrightarrow>
     seq_le a_start b_end \<and> a_start \<noteq> b_end \<and> seq_le b_start a_end \<and> b_start \<noteq> a_end"

record plpmtud_adapter =
  pa_engine :: pmtu_search
  pa_in_flight :: "(seq32 \<times> seq32 \<times> int) list"
  pa_implicit_confirm :: "(seq32 \<times> seq32 \<times> int) option"

definition adapter_init :: "bool \<Rightarrow> int \<Rightarrow> bool \<Rightarrow> rat option \<Rightarrow> int option \<Rightarrow> plpmtud_adapter" where
  "adapter_init is_ip6 interface_mtu prob timer_sec plpmtu_seed =
     \<lparr>pa_engine = pmtu_init is_ip6 interface_mtu prob
        (case timer_sec of Some t \<Rightarrow> t | None \<Rightarrow> PROBE_TIMER__SEC) plpmtu_seed,
      pa_in_flight = [], pa_implicit_confirm = None\<rparr>"

definition in_flight_probe_sizes :: "plpmtud_adapter \<Rightarrow> int list" where
  "in_flight_probe_sizes a = map (\<lambda>(_, _, sz). sz) (pa_in_flight a)"

definition lose_probes :: "rat \<Rightarrow> 'b list \<Rightarrow> pmtu_search \<Rightarrow> pmtu_search" where
  "lose_probes now lost e = fold (\<lambda>_ e. on_probe_loss now e) lost e"

definition maybe_probe :: "rat \<Rightarrow> plpmtud_adapter \<Rightarrow> plpmtud_adapter \<times> int option" where
  "maybe_probe now a =
     (let a1 = (if pa_in_flight a \<noteq> [] \<and> probe_timer_expired now (pa_engine a)
                then a\<lparr>pa_engine := lose_probes now (pa_in_flight a) (pa_engine a), pa_in_flight := []\<rparr>
                else a)
      in case next_probe_size now (pa_engine a1) of (e, sz) \<Rightarrow> (a1\<lparr>pa_engine := e\<rparr>, sz))"

definition record_emitted_probe :: "seq32 \<Rightarrow> int \<Rightarrow> seq32 option \<Rightarrow> plpmtud_adapter \<Rightarrow> plpmtud_adapter" where
  "record_emitted_probe seq sz seq_start a =
     a\<lparr>pa_in_flight := AList.update seq (case seq_start of None \<Rightarrow> seq | Some s \<Rightarrow> s, sz) (pa_in_flight a)\<rparr>"

definition on_snd_una_advance :: "seq32 \<Rightarrow> rat \<Rightarrow> plpmtud_adapter \<Rightarrow> plpmtud_adapter" where
  "on_snd_una_advance new_snd_una now a =
     (let acked = filter (\<lambda>(seq, _, _). seq_le seq new_snd_una) (pa_in_flight a) in
      a\<lparr>pa_engine := fold (\<lambda>(_, _, sz) e. on_probe_ack sz now e) acked (pa_engine a),
        pa_in_flight := filter (\<lambda>(seq, _, _). \<not> seq_le seq new_snd_una) (pa_in_flight a)\<rparr>)"

definition on_rto_timeout :: "rat \<Rightarrow> plpmtud_adapter \<Rightarrow> plpmtud_adapter" where
  "on_rto_timeout now a =
     (let a1 = a\<lparr>pa_implicit_confirm := None\<rparr>;
          a2 = a1\<lparr>pa_engine := lose_probes now (pa_in_flight a1) (pa_engine a1), pa_in_flight := []\<rparr>
      in a2\<lparr>pa_engine := on_black_hole_suspected now (pa_engine a2)\<rparr>)"

definition on_range_retransmitted :: "seq32 \<Rightarrow> seq32 \<Rightarrow> rat \<Rightarrow> plpmtud_adapter \<Rightarrow> plpmtud_adapter" where
  "on_range_retransmitted seq_start seq_end now a =
     (let a1 = (case pa_implicit_confirm a of
                  None \<Rightarrow> a
                | Some (ic_start, ic_end, _) \<Rightarrow>
                    if ranges_overlap seq_start seq_end ic_start ic_end then a\<lparr>pa_implicit_confirm := None\<rparr> else a);
          hit = (\<lambda>(probe_end, probe_start, _). ranges_overlap seq_start seq_end probe_start probe_end)
      in if pa_in_flight a1 = [] then a1
         else a1\<lparr>pa_engine := lose_probes now (filter hit (pa_in_flight a1)) (pa_engine a1),
                 pa_in_flight := filter (\<lambda>p. \<not> hit p) (pa_in_flight a1)\<rparr>)"

definition note_data_segment :: "seq32 \<Rightarrow> seq32 \<Rightarrow> int \<Rightarrow> plpmtud_adapter \<Rightarrow> plpmtud_adapter" where
  "note_data_segment seq_start end_seq packet_size a =
     (if (case pa_implicit_confirm a of None \<Rightarrow> True | Some (_, _, sz) \<Rightarrow> packet_size > sz)
      then a\<lparr>pa_implicit_confirm := Some (seq_start, end_seq, packet_size)\<rparr> else a)"

definition check_implicit_confirm :: "seq32 \<Rightarrow> rat \<Rightarrow> plpmtud_adapter \<Rightarrow> plpmtud_adapter" where
  "check_implicit_confirm new_snd_una now a =
     (case pa_implicit_confirm a of
        None \<Rightarrow> a
      | Some (_, end_seq, packet_size) \<Rightarrow>
          if seq_le end_seq new_snd_una
          then a\<lparr>pa_implicit_confirm := None, pa_engine := confirm_current packet_size now (pa_engine a)\<rparr>
          else a)"

definition adapter_limit_max :: "int \<Rightarrow> plpmtud_adapter \<Rightarrow> plpmtud_adapter" where
  "adapter_limit_max mtu a = a\<lparr>pa_engine := limit_max mtu (pa_engine a)\<rparr>"

definition adapter_on_classical_pmtu :: "int \<Rightarrow> rat \<Rightarrow> plpmtud_adapter \<Rightarrow> plpmtud_adapter" where
  "adapter_on_classical_pmtu mtu now a = a\<lparr>pa_engine := on_classical_pmtu mtu now (pa_engine a)\<rparr>"

definition adapter_confirm_current :: "int \<Rightarrow> rat \<Rightarrow> plpmtud_adapter \<Rightarrow> plpmtud_adapter" where
  "adapter_confirm_current sz now a = a\<lparr>pa_engine := confirm_current sz now (pa_engine a)\<rparr>"

section \<open>Overlap of ranges\<close>

lemma seq_le_iff: "seq_le a b \<longleftrightarrow> fwd a b < 2147483648"
  by (simp add: seq_le_def fwd_def word_less_def)

text \<open>\<open>x\<close> is a byte of the half-open range from \<open>s\<close> to \<open>e\<close>.\<close>

definition in_seq_range :: "seq32 \<Rightarrow> seq32 \<Rightarrow> seq32 \<Rightarrow> bool" where
  "in_seq_range s e x \<longleftrightarrow> fwd s x < fwd s e"

lemma fwd_chain: "fwd a x + fwd x b < 4294967296 \<Longrightarrow> fwd a b = fwd a x + fwd x b"
  unfolding fwd_eq
  by (rule word32_cases [of a]; rule word32_cases [of b]; rule word32_cases [of x]; simp split: if_splits; linarith)

lemma crossing:
  assumes "in_seq_range s e x" "fwd s e \<le> 1073741824" "in_seq_range s' e' x" "fwd s' e' \<le> 1073741824"
  shows "seq_le s e' \<and> s \<noteq> e'"
proof -
  have "fwd x e' = fwd s' e' - fwd s' x"
    using assms(3) by (intro fwd_rebase) (simp add: in_seq_range_def)
  then have x: "0 < fwd x e'" "fwd x e' \<le> 1073741824"
    using assms(3,4) fwd_nonneg [of s' x] unfolding in_seq_range_def by linarith+
  have s: "fwd s x < 1073741824" using assms(1,2) by (simp add: in_seq_range_def)
  have "fwd s e' = fwd s x + fwd x e'" using x s by (intro fwd_chain) linarith
  then have "0 < fwd s e'" "fwd s e' < 2147483648" using x s fwd_nonneg [of s x] by linarith+
  then show ?thesis by (auto simp: seq_le_iff)
qed

lemma common_byte_overlaps:
  assumes "in_seq_range s e x" "fwd s e \<le> 1073741824" "in_seq_range s' e' x" "fwd s' e' \<le> 1073741824"
  shows "ranges_overlap s e s' e'"
  using crossing [OF assms] crossing [OF assms(3,4,1,2)] by (simp add: ranges_overlap_def)

text \<open>Inside one half of the sequence space the test is exact.\<close>

lemma ranges_overlap_exact:
  assumes "fwd u s < fwd u e" "fwd u e < 2147483648" "fwd u s' < fwd u e'" "fwd u e' < 2147483648"
  shows "ranges_overlap s e s' e' \<longleftrightarrow> (\<exists>x. in_seq_range s e x \<and> in_seq_range s' e' x)"
proof -
  have le: "seq_le a b \<and> a \<noteq> b \<longleftrightarrow> fwd u a < fwd u b" if "fwd u a < 2147483648" "fwd u b < 2147483648" for a b
  proof (cases "fwd u a \<le> fwd u b")
    case True
    then have "fwd a b < 2147483648" using fwd_rebase [OF True] that fwd_nonneg [of u a] by linarith
    then show ?thesis using True by (auto simp: seq_le_iff order_le_less)
  next
    case False
    then have "fwd a b = fwd u b - fwd u a + 4294967296" by (intro fwd_rebase_back) simp
    then have "\<not> fwd a b < 2147483648" using that fwd_nonneg [of u b] by linarith
    then show ?thesis using False by (simp add: seq_le_iff)
  qed
  have mem: "in_seq_range a b x \<longleftrightarrow> fwd u a \<le> fwd u x \<and> fwd u x < fwd u b" if "fwd u a < fwd u b" for a b x
  proof -
    have "a \<noteq> b" using that by auto
    then show ?thesis using in_block32 [OF that, of x] by (simp add: in_seq_range_def in_range32_iff fwd_sub1)
  qed
  have "ranges_overlap s e s' e' \<longleftrightarrow> fwd u s < fwd u e' \<and> fwd u s' < fwd u e"
    using le [of s e'] le [of s' e] assms by (auto simp: ranges_overlap_def)
  also have "\<dots> \<longleftrightarrow> (\<exists>x. in_seq_range s e x \<and> in_seq_range s' e' x)"
  proof
    assume *: "fwd u s < fwd u e' \<and> fwd u s' < fwd u e"
    then show "\<exists>x. in_seq_range s e x \<and> in_seq_range s' e' x"
      using assms by (cases "fwd u s \<le> fwd u s'") (auto simp: mem intro: exI [of _ s] exI [of _ s'])
  qed (use assms in \<open>auto simp: mem\<close>)
  finally show ?thesis .
qed

section \<open>The adapter as a machine\<close>

datatype adapter_event =
    Poll rat
  | Emitted seq32 seq32 int
  | UnaAdvance seq32 rat
  | RtoTimeout rat
  | Retransmitted seq32 seq32 rat
  | DataSegment seq32 seq32 int
  | CheckConfirm seq32 rat
  | PeerLimit int
  | IcmpPmtu int rat
  | RegularConfirm int rat

definition adapter_step :: "adapter_event \<Rightarrow> plpmtud_adapter \<Rightarrow> plpmtud_adapter" where
  "adapter_step ev a =
     (case ev of
        Poll now \<Rightarrow> fst (maybe_probe now a)
      | Emitted seq start sz \<Rightarrow> record_emitted_probe seq sz (Some start) a
      | UnaAdvance una now \<Rightarrow> on_snd_una_advance una now a
      | RtoTimeout now \<Rightarrow> on_rto_timeout now a
      | Retransmitted s e now \<Rightarrow> on_range_retransmitted s e now a
      | DataSegment s e sz \<Rightarrow> note_data_segment s e sz a
      | CheckConfirm una now \<Rightarrow> check_implicit_confirm una now a
      | PeerLimit mtu \<Rightarrow> adapter_limit_max mtu a
      | IcmpPmtu mtu now \<Rightarrow> adapter_on_classical_pmtu mtu now a
      | RegularConfirm sz now \<Rightarrow> adapter_confirm_current sz now a)"

text \<open>
  What happened on the wire, told without the adapter: the probes of which no byte has been
  sent again. A timeout sends everything again.
\<close>

definition wire_step :: "adapter_event \<Rightarrow> (seq32 \<times> seq32 \<times> int) set \<Rightarrow> (seq32 \<times> seq32 \<times> int) set" where
  "wire_step ev W =
     (case ev of
        Emitted seq start sz \<Rightarrow> insert (seq, start, sz) W
      | RtoTimeout _ \<Rightarrow> {}
      | Retransmitted s e _ \<Rightarrow> {(seq, start, sz) \<in> W. \<not> (\<exists>x. in_seq_range s e x \<and> in_seq_range start seq x)}
      | _ \<Rightarrow> W)"

text \<open>
  A path that delivers only packets of at most \<open>P\<close> bytes: no acknowledgment passes a larger
  probe of which nothing was sent again, and ICMP reports are truthful. Segments are short
  against the sequence space.
\<close>

definition path_event :: "int \<Rightarrow> (seq32 \<times> seq32 \<times> int) set \<Rightarrow> adapter_event \<Rightarrow> bool" where
  "path_event P W ev \<longleftrightarrow>
     (case ev of
        Emitted seq start sz \<Rightarrow> fwd start seq \<le> 1073741824
      | UnaAdvance una _ \<Rightarrow> \<forall>(seq, start, sz) \<in> W. P < sz \<longrightarrow> \<not> seq_le seq una
      | Retransmitted s e _ \<Rightarrow> fwd s e \<le> 1073741824
      | IcmpPmtu mtu _ \<Rightarrow> mtu \<le> P
      | _ \<Rightarrow> True)"

fun path_run :: "int \<Rightarrow> (seq32 \<times> seq32 \<times> int) set \<Rightarrow> adapter_event list \<Rightarrow> bool" where
  "path_run P W [] \<longleftrightarrow> True"
| "path_run P W (ev # evs) \<longleftrightarrow> path_event P W ev \<and> path_run P (wire_step ev W) evs"

section \<open>The engine below a bound\<close>

definition engine_below :: "int \<Rightarrow> pmtu_search \<Rightarrow> bool" where
  "engine_below P e \<longleftrightarrow> current_mtu e \<le> P \<and> seed_mtu e \<le> P \<and> min_mtu e \<le> P"

lemma advance_search_seed [simp]: "seed_mtu (advance_search now st) = seed_mtu st"
  by (simp add: advance_search_def enter_search_complete_def Let_def)

lemma validate_ack_below:
  "validate_ack sz st = (st1, stop) \<Longrightarrow> engine_below P st1 = engine_below P st"
  by (auto simp: validate_ack_def engine_below_def Let_def split: if_splits)

lemma probe_ack_below: "engine_below P e \<Longrightarrow> sz \<le> P \<Longrightarrow> engine_below P (on_probe_ack sz now e)"
  by (auto simp: on_probe_ack_def Let_def accept_size_def engine_below_def
      dest: validate_ack_below [of _ _ _ _ P] split: prod.split pmtu_state.split)

lemma probe_loss_below: "engine_below P e \<Longrightarrow> engine_below P (on_probe_loss now e)"
  by (auto simp: on_probe_loss_def Let_def engine_below_def split: option.split)

lemma other_below:
  assumes "engine_below P e"
  shows "engine_below P (fst (next_probe_size now e))" "engine_below P (on_black_hole_suspected now e)"
    "engine_below P (confirm_current sz now e)" "engine_below P (limit_max mtu e)"
    "mtu \<le> P \<Longrightarrow> engine_below P (on_classical_pmtu mtu now e)"
proof -
  show "engine_below P (fst (next_probe_size now e))"
    using assms by (simp add: next_probe_size_def Let_def engine_below_def split: pmtu_state.split)
  show "engine_below P (on_black_hole_suspected now e)" "engine_below P (confirm_current sz now e)"
    using assms by (simp_all add: on_black_hole_suspected_def confirm_current_def Let_def engine_below_def)
  show "engine_below P (limit_max mtu e)" using assms by (simp add: limit_max_eq Let_def engine_below_def min_le_iff_disj)
  show "mtu \<le> P \<Longrightarrow> engine_below P (on_classical_pmtu mtu now e)"
    using assms by (cases "pm_state e = ERROR") (simp_all add: on_classical_error on_classical_other engine_below_def)
qed

lemma lose_below: "engine_below P e \<Longrightarrow> engine_below P (lose_probes now ps e)"
  by (induction ps arbitrary: e) (simp_all add: lose_probes_def probe_loss_below)

lemma acks_below:
  "engine_below P e \<Longrightarrow> \<forall>(seq, start, sz) \<in> set ps. sz \<le> P \<Longrightarrow>
   engine_below P (fold (\<lambda>(_, _, sz) e. on_probe_ack sz now e) ps e)"
  by (induction ps arbitrary: e) (auto simp: probe_ack_below)

section \<open>The adapter forgets repaired probes\<close>

text \<open>The adapter never remembers a probe the wire has repaired.\<close>

definition tracks :: "int \<Rightarrow> (seq32 \<times> seq32 \<times> int) set \<Rightarrow> plpmtud_adapter \<Rightarrow> bool" where
  "tracks P W a \<longleftrightarrow> engine_below P (pa_engine a) \<and> set (pa_in_flight a) \<subseteq> W \<and>
     (\<forall>(seq, start, sz) \<in> W. fwd start seq \<le> 1073741824)"

lemma retransmitted_tracks:
  assumes "tracks P W a" "fwd s e \<le> 1073741824"
  shows "tracks P (wire_step (Retransmitted s e now) W) (on_range_retransmitted s e now a)"
proof -
  define a1 where "a1 = (case pa_implicit_confirm a of None \<Rightarrow> a | Some (ic_start, ic_end, _) \<Rightarrow>
    if ranges_overlap s e ic_start ic_end then a\<lparr>pa_implicit_confirm := None\<rparr> else a)"
  have a1: "pa_engine a1 = pa_engine a" "pa_in_flight a1 = pa_in_flight a"
    by (auto simp: a1_def split: option.split)
  have keep: "(seq, start, sz) \<in> wire_step (Retransmitted s e now) W"
    if "(seq, start, sz) \<in> W" "\<not> ranges_overlap s e start seq" for seq start sz
  proof -
    have "fwd start seq \<le> 1073741824" using that(1) assms(1) by (fastforce simp: tracks_def)
    then have "\<not> (in_seq_range s e x \<and> in_seq_range start seq x)" for x
      using common_byte_overlaps [of s e x start seq] that(2) assms(2) by blast
    then show ?thesis using that(1) by (simp add: wire_step_def)
  qed
  show ?thesis
    using assms lose_below [of P "pa_engine a" now] keep
    by (auto simp: on_range_retransmitted_def Let_def tracks_def a1 wire_step_def simp flip: a1_def)
qed

lemma adapter_step_tracks:
  assumes "tracks P W a" "path_event P W ev"
  shows "tracks P (wire_step ev W) (adapter_step ev a)"
proof (cases ev)
  case (Poll now)
  have "engine_below P (lose_probes now (pa_in_flight a) (pa_engine a))" "engine_below P (pa_engine a)"
    using assms(1) by (auto simp: tracks_def intro: lose_below)
  from other_below(1) [OF this(1), of now] other_below(1) [OF this(2), of now] show ?thesis
    using assms(1) by (auto simp: Poll adapter_step_def maybe_probe_def Let_def tracks_def wire_step_def split: prod.splits)
next
  case (Emitted seq start sz)
  then show ?thesis using assms set_update_subset [of seq "(start, sz)" "pa_in_flight a"]
    by (auto simp: adapter_step_def record_emitted_probe_def tracks_def wire_step_def path_event_def)
next
  case (UnaAdvance una now)
  have "\<forall>(seq, start, sz) \<in> set (filter (\<lambda>(seq, _, _). seq_le seq una) (pa_in_flight a)). sz \<le> P"
    using assms by (fastforce simp: UnaAdvance path_event_def tracks_def not_less)
  with assms(1) show ?thesis
    by (auto simp: UnaAdvance adapter_step_def on_snd_una_advance_def Let_def tracks_def wire_step_def intro: acks_below)
next
  case (Retransmitted s e now)
  then show ?thesis using assms retransmitted_tracks by (simp add: adapter_step_def path_event_def)
next
  case (DataSegment s e sz)
  then show ?thesis using assms(1)
    by (auto simp: adapter_step_def note_data_segment_def tracks_def wire_step_def split: option.split)
next
  case (CheckConfirm una now)
  then show ?thesis using assms(1)
    by (auto simp: adapter_step_def check_implicit_confirm_def tracks_def wire_step_def intro: other_below split: option.split)
qed (use assms in \<open>auto simp: adapter_step_def on_rto_timeout_def Let_def tracks_def wire_step_def path_event_def
  adapter_limit_max_def adapter_on_classical_pmtu_def adapter_confirm_current_def intro: other_below lose_below\<close>)

lemma path_run_tracks: "tracks P W a \<Longrightarrow> path_run P W evs \<Longrightarrow> tracks P (fold wire_step evs W) (fold adapter_step evs a)"
  by (induction evs arbitrary: W a) (auto intro: adapter_step_tracks)

section \<open>Properties\<close>

text \<open>
  The working size never rises into a black hole. Take a path that delivers no packet of
  more than \<open>P\<close> bytes, so that a cumulative ACK passes a larger probe only after some byte
  of it was sent again, and let the session report its probes, retransmissions, timeouts,
  acknowledgments, ordinary segments and ICMP messages to the adapter in any order and with
  sequence numbers anywhere on the ring. Then the working packet size stays at most \<open>P\<close>, and
  every probe still remembered is one of which nothing was sent again.
\<close>

theorem no_black_hole_raise:
  assumes "path_run P {} evs" "engine_below P (pmtu_init is_ip6 interface_mtu prob timer seed)"
    "a = fold adapter_step evs (adapter_init is_ip6 interface_mtu prob (Some timer) seed)"
  shows "current_mtu (pa_engine a) \<le> P \<and> set (pa_in_flight a) \<subseteq> fold wire_step evs {}"
proof -
  have "tracks P {} (adapter_init is_ip6 interface_mtu prob (Some timer) seed)"
    using assms(2) by (simp add: tracks_def adapter_init_def)
  from path_run_tracks [OF this assms(1)] show ?thesis
    by (simp add: assms(3) tracks_def engine_below_def)
qed

text \<open>
  A 1400-byte path: the 1200-byte probe is acknowledged; the probe of 1448 bytes is lost, its
  bytes are sent again, and the ACK that then passes it counts for nothing.
\<close>

theorem no_black_hole_raise_witness:
  "current_mtu (pa_engine (fold adapter_step
     [Poll 0, Emitted 0xFFFFFFF0 0xFFFFFB68 1200, UnaAdvance 0xFFFFFFF0 1,
      Poll 2, Emitted 1392 0xFFFFFFF0 1448, Retransmitted 0xFFFFFFF0 500 3, UnaAdvance 1392 4]
     (adapter_init False 1500 True (Some 30) None))) \<le> 1400"
proof -
  let ?evs = "[Poll 0, Emitted 0xFFFFFFF0 0xFFFFFB68 1200, UnaAdvance 0xFFFFFFF0 1,
      Poll 2, Emitted 1392 0xFFFFFFF0 1448, Retransmitted 0xFFFFFFF0 500 3, UnaAdvance 1392 4]"
  have "in_seq_range 0xFFFFFFF0 500 0 \<and> in_seq_range 0xFFFFFFF0 1392 0" by (simp add: in_seq_range_def fwd_eq)
  then have ov: "\<exists>x. in_seq_range 0xFFFFFFF0 500 x \<and> in_seq_range 0xFFFFFFF0 1392 x" by blast
  have "path_run 1400 {} ?evs"
    using ov by (auto simp: path_event_def wire_step_def fwd_eq)
  moreover have "engine_below 1400 (pmtu_init False 1500 True 30 None)"
    by (simp add: engine_below_def pmtu_init_def plpmtud_consts)
  ultimately show ?thesis using no_black_hole_raise [of 1400 ?evs False 1500 True 30 None] by simp
qed

text \<open>
  A retransmission inside an in-flight probe declares it lost at once, whatever the length of
  the repair; probes it does not touch are kept.
\<close>

lemma retransmission_exact:
  "set (pa_in_flight (on_range_retransmitted s e now a)) =
     {(seq, start, sz) \<in> set (pa_in_flight a). \<not> ranges_overlap s e start seq}"
  by (auto simp: on_range_retransmitted_def Let_def split: option.splits)

end
