(* ===== verification/Tcp_Session.thy ===== *)
theory Tcp_Session
  imports Tcp_Timers Tcp_Rack Tcp_Rto Tcp_Cc Tcp_Plpmtud
begin

text \<open>
  \<^verbatim>\<open>session/tcp__session.py\<close>: the state of one TCP session and the operations that do not go
  through its state machine.

  \<open>tcp_session\<close> has the attributes of \<^verbatim>\<open>TcpSession\<close>; the addresses, ports and the socket of
  the session are constants that only label what is sent and are left out, and the
  collaborators are functions on the record. Everything that leaves the session is appended
  to \<open>se_effects\<close>, oldest first. Clock readings, run-time settings and the stack-wide tables
  a step consults are the fields of \<open>tcp_env\<close>, fixed during one step.
\<close>

section \<open>Packets\<close>

text \<open>\<^verbatim>\<open>TcpMetadata\<close>: what the session sees of a received segment.\<close>

record tcp_metadata =
  md_ecn :: int
  md_syn :: bool
  md_ack_flag :: bool
  md_fin :: bool
  md_rst :: bool
  md_ece :: bool
  md_cwr :: bool
  md_ns :: bool
  md_seq :: seq32
  md_ack :: seq32
  md_win :: int
  md_wscale :: int
  md_mss :: int
  md_sackperm :: bool
  md_sack_blocks :: "sack_block list"
  md_tsval :: "seq32 option"
  md_tsecr :: "seq32 option"
  md_fastopen_cookie :: "bytes option"
  md_accecn0_counters :: "accecn_counters option"
  md_data :: bytes

text \<open>The arguments of \<^verbatim>\<open>send_tcp_packet\<close>.\<close>

record tcp_segment =
  sg_ecn :: int
  sg_syn :: bool
  sg_ack_flag :: bool
  sg_fin :: bool
  sg_rst :: bool
  sg_psh :: bool
  sg_ece :: bool
  sg_cwr :: bool
  sg_ns :: bool
  sg_seq :: seq32
  sg_ack :: seq32
  sg_win :: int
  sg_mss :: "int option"
  sg_wscale :: "int option"
  sg_sackperm :: bool
  sg_sack_blocks :: "sack_block list option"
  sg_tsval :: "seq32 option"
  sg_tsecr :: "seq32 option"
  sg_fastopen_cookie :: "bytes option"
  sg_accecn0_counters :: "accecn_counters option"
  sg_accecn1_counters :: "accecn_counters option"
  sg_payload :: bytes

datatype session_effect =
    Send_Segment tcp_segment
  | Unregister_Socket
  | Decr_Fastopen_Pending
  | Record_Classical_Pmtu int
  | Record_Pmtu_Engine pmtu_search
  | Confirm_Reachability
  | Mark_Fastopen_Negative
  | Cache_Fastopen_Cookie bytes
  | Incr_Fastopen_Pending
  | Enqueue_Accepted
  | Fork_Listener

section \<open>The state\<close>

text \<open>
  What a session in LISTEN reads of its socket and of the stack: the accept queue and its
  bound, the sessions of the port in SYN-RECEIVED, the options a child inherits, Fast Open.
\<close>

record listener =
  li_accept_len :: int
  li_backlog :: int
  li_embryonic :: int
  li_so_keepalive :: bool
  li_keepidle :: "int option"
  li_keepintvl :: "int option"
  li_keepcnt :: "int option"
  li_cc_mode :: cc_mode
  li_nodelay :: bool
  li_fastopen_qlen :: int
  li_fastopen_pending :: int
  li_fastopen_cookie :: bytes

text \<open>
  \<open>env_cube_root\<close> is the floating-point cube root of CUBIC, \<open>env_fastopen_cookie\<close> and
  \<open>env_fastopen_negative\<close> what the client-side caches hold for the peer, \<open>li_fastopen_cookie\<close>
  the keyed digest of the peer's address.
\<close>

record tcp_env =
  env_now_ms :: int
  env_now :: rat
  env_iss :: seq32
  env_interface_mtu :: int
  env_base_mss :: int
  env_snd_mss_max :: int
  env_mtu_probing :: int
  env_probe_timer_ms :: int
  env_rcv_wnd_max :: int
  env_rto_initial_ms :: int
  env_delayed_ack_ms :: int
  env_persist_max_ms :: int
  env_challenge_ack_ms :: int
  env_keepalive_idle_ms :: int
  env_keepalive_interval_ms :: int
  env_keepalive_max_count :: int
  env_ts_outdated_ms :: int
  env_fastopen_cookie :: "bytes option"
  env_fastopen_negative :: bool
  env_rto_min_ms :: int
  env_cube_root :: "int \<Rightarrow> int"
  env_retransmit_max_count :: int
  env_ooo_queue_max_len :: nat
  env_time_wait_ms :: int
  env_fin_wait_2_ms :: int
  env_syn_backlog_max :: int
  env_socket_closed :: bool
  env_socket_has_parent :: bool
  env_listener :: listener

record tcp_session =
  se_state :: fsm_state
  se_rx_buffer :: bytes
  se_tx :: tx_buffer_state
  se_rcv_seq :: recv_seq_state
  se_ip_tcp_overhead :: int
  se_win :: window_state
  se_plpmtud_probing_enabled :: bool
  se_plpmtud_adapter :: plpmtud_adapter
  se_advertise :: advertise_state
  se_ts :: timestamps_state
  se_keepalive :: keepalive_state
  se_sack_scoreboard :: scoreboard
  se_cc :: cc_state
  se_fastopen :: fastopen_state
  se_ecn :: classic_ecn_state
  se_accecn :: accecn_state
  se_pending_dsack :: "sack_block option"
  se_dsack_received :: int
  se_rack_tlp :: rack_tlp_state
  se_rto_state :: rto_state
  se_rtt :: rtt_sample_state
  se_retransmit_count :: int
  se_syn_retransmit_count :: int
  se_snd_seq :: send_seq_state
  se_peer_contacted :: bool
  se_tcp_nodelay :: bool
  se_user_timeout_ms :: int
  se_maxseg_override :: int
  se_persist :: persist_state
  se_delayed_ack_segments_pending :: int
  se_shut :: shutdown_state
  se_event_connect :: int
  se_event_rx_buffer :: bool
  se_event_closed :: bool
  se_closing :: bool
  se_ooo_packet_queue :: "(seq32 \<times> tcp_metadata) list"
  se_connection_error :: conn_error
  se_timers :: timer_service
  se_effects :: "session_effect list"

section \<open>Timers\<close>

definition arm_timer :: "tcp_env \<Rightarrow> string \<Rightarrow> int \<Rightarrow> tcp_session \<Rightarrow> tcp_session" where
  "arm_timer env name delay_ms s =
     s\<lparr>se_timers := timer_arm (se_state s) (env_now_ms env) name delay_ms (se_timers s)\<rparr>"

definition session_timer_expired :: "tcp_env \<Rightarrow> string \<Rightarrow> tcp_session \<Rightarrow> bool" where
  "session_timer_expired env name s = timer_expired (env_now_ms env) name (se_timers s)"

definition session_timer_armed :: "tcp_env \<Rightarrow> string \<Rightarrow> tcp_session \<Rightarrow> bool" where
  "session_timer_armed env name s = timer_armed (env_now_ms env) name (se_timers s)"

definition cancel_timer :: "tcp_env \<Rightarrow> string \<Rightarrow> tcp_session \<Rightarrow> tcp_session" where
  "cancel_timer env name s = s\<lparr>se_timers := timer_cancel (se_state s) (env_now_ms env) name (se_timers s)\<rparr>"

definition cancel_all_timers :: "tcp_session \<Rightarrow> tcp_session" where
  "cancel_all_timers s = s\<lparr>se_timers := timer_cancel_all (se_timers s)\<rparr>"

section \<open>Derived attributes\<close>

definition rcv_wnd :: "tcp_session \<Rightarrow> int" where
  "rcv_wnd s = max 0 (win_rcv_wnd_max (se_win s) - int (length (se_rx_buffer s)))"

definition tx_buffer_nxt :: "tcp_session \<Rightarrow> int" where
  "tx_buffer_nxt s = uint (snd_nxt (se_snd_seq s) - tx_seq_mod (se_tx s))"

definition tx_buffer_una :: "tcp_session \<Rightarrow> int" where
  "tx_buffer_una s = uint (snd_una (se_snd_seq s) - tx_seq_mod (se_tx s))"

definition mss_ceiling :: "tcp_env \<Rightarrow> int \<Rightarrow> bool \<Rightarrow> int" where
  "mss_ceiling env ip_tcp_overhead probing_enabled =
     (let iface_ceiling = env_interface_mtu env - ip_tcp_overhead;
          ceiling = (if probing_enabled then min (env_base_mss env - ip_tcp_overhead) iface_ceiling
                     else iface_ceiling)
      in if env_snd_mss_max env \<noteq> 0 then min ceiling (env_snd_mss_max env) else ceiling)"

definition has_pump_work :: "tcp_session \<Rightarrow> bool" where
  "has_pump_work s \<longleftrightarrow>
     tx_buffer (se_tx s) \<noteq> [] \<or> snd_una (se_snd_seq s) \<noteq> snd_max (se_snd_seq s) \<or>
     (se_closing s \<and> se_state s \<in> {ESTABLISHED, CLOSE_WAIT})"

definition pump_tail :: "tcp_env \<Rightarrow> fsm_state \<Rightarrow> bool \<Rightarrow> tcp_session \<Rightarrow> tcp_session" where
  "pump_tail env state_at_entry external s =
     (let s1 = cancel_timer env ''tx_pump'' s in
      if se_state s1 = CLOSED then s1
      else if external \<or> se_state s1 \<noteq> state_at_entry \<or> has_pump_work s1 then arm_timer env ''tx_pump'' 1 s1
      else s1)"

definition kick_pump :: "tcp_env \<Rightarrow> tcp_session \<Rightarrow> tcp_session" where
  "kick_pump env s = (if se_state s \<noteq> CLOSED then arm_timer env ''tx_pump'' 1 s else s)"

section \<open>Construction\<close>

definition session_init :: "tcp_env \<Rightarrow> bool \<Rightarrow> tcp_session" where
  "session_init env is_ip6 =
     (let overhead = (if is_ip6 then 40 else 20) + 20;
          prob = env_mtu_probing env \<noteq> 0;
          ceiling = mss_ceiling env overhead prob;
          mss = (if prob then ceiling else win_snd_mss window_init)
      in \<lparr>se_state = CLOSED, se_rx_buffer = [],
          se_tx = \<lparr>tx_buffer = [], tx_seq_mod = env_iss env, tx_retransmit_request_counter = []\<rparr>,
          se_rcv_seq = \<lparr>rcv_ini = 0, rcv_nxt = 0, rcv_una = 0\<rparr>,
          se_ip_tcp_overhead = overhead,
          se_win = window_init\<lparr>win_rcv_mss := env_interface_mtu env - overhead,
                               win_rcv_wnd_max := env_rcv_wnd_max env,
                               win_snd_mss := mss, win_snd_wnd := mss, win_max_window := mss\<rparr>,
          se_plpmtud_probing_enabled = prob,
          se_plpmtud_adapter = adapter_init is_ip6 (env_interface_mtu env) prob
            (Some (of_int (env_probe_timer_ms env) / 1000)) (if prob then Some (ceiling + overhead) else None),
          se_advertise = \<lparr>adv_ts = True, adv_wscale = True, adv_sack = True, adv_ecn = True, adv_accecn = True,
                          adv_fastopen = True, adv_send_sack = False\<rparr>,
          se_ts = \<lparr>ts_send_ts = False, ts_recent = 0, ts_recent_updated_at_ms = 0\<rparr>,
          se_keepalive = \<lparr>ka_enabled = False, ka_probes_unacked = 0, ka_idle_override = None,
                          ka_interval_override = None, ka_max_count_override = None, ka_active = False\<rparr>,
          se_sack_scoreboard = [],
          se_cc = cc_init\<lparr>cc_cwnd := mss, cc_snd_ewn := mss\<rparr>,
          se_fastopen = \<lparr>fo_cookie_to_emit = None, fo_pending_counted = False, fo_syn_retransmitted = False\<rparr>,
          se_ecn = \<lparr>ecn_enabled = False, ecn_send_ece = False, ecn_send_cwr = False, ecn_recovery_point = 0\<rparr>,
          se_accecn = accecn_init, se_pending_dsack = None, se_dsack_received = 0,
          se_rack_tlp = rack_tlp_init, se_rto_state = initial_state,
          se_rtt = \<lparr>rtt_seq = None, rtt_send_time_ms = None, rtt_retransmitted = False, rtt_last_send_time_ms = None\<rparr>,
          se_retransmit_count = 0, se_syn_retransmit_count = 0,
          se_snd_seq = \<lparr>snd_ini = env_iss env, snd_una = env_iss env, snd_nxt = env_iss env,
                        snd_max = env_iss env, snd_fin = 0, snd_fin_sent = False, snd_sml = env_iss env\<rparr>,
          se_peer_contacted = False, se_tcp_nodelay = False, se_user_timeout_ms = 0, se_maxseg_override = 0,
          se_persist = \<lparr>ps_active = False, ps_timeout = env_rto_initial_ms env\<rparr>,
          se_delayed_ack_segments_pending = 0, se_shut = \<lparr>shut_rd = False, shut_wr = False\<rparr>,
          se_event_connect = 0, se_event_rx_buffer = False, se_event_closed = False, se_closing = False,
          se_ooo_packet_queue = [], se_connection_error = NONE, se_timers = timer_init, se_effects = []\<rparr>)"

section \<open>Keep-alive and change of state\<close>

definition keepalive_arm_idle :: "tcp_env \<Rightarrow> tcp_session \<Rightarrow> tcp_session" where
  "keepalive_arm_idle env s =
     (if \<not> ka_enabled (se_keepalive s) then s
      else
        (let s1 = s\<lparr>se_keepalive := reset_for_idle (se_keepalive s)\<rparr> in
         arm_timer env ''keepalive'' (idle_timeout (env_keepalive_idle_ms env) (se_keepalive s1)) s1))"

definition leave_established :: "fsm_state \<Rightarrow> fsm_state \<Rightarrow> tcp_session \<Rightarrow> tcp_session" where
  "leave_established old_state new_state s =
     (if old_state = ESTABLISHED \<and> new_state \<noteq> ESTABLISHED
      then s\<lparr>se_cc := (se_cc s)\<lparr>cc_recovery_point := 0, cc_recover_fs := 0, cc_prr_delivered := 0, cc_prr_out := 0\<rparr>\<rparr>
      else s)"

definition leave_syn_rcvd :: "fsm_state \<Rightarrow> fsm_state \<Rightarrow> tcp_session \<Rightarrow> tcp_session" where
  "leave_syn_rcvd old_state new_state s =
     (if old_state = SYN_RCVD \<and> new_state \<noteq> SYN_RCVD
      then
        (let s1 = s\<lparr>se_fastopen := (se_fastopen s)\<lparr>fo_cookie_to_emit := None\<rparr>\<rparr> in
         if fo_pending_counted (se_fastopen s1)
         then s1\<lparr>se_fastopen := (se_fastopen s1)\<lparr>fo_pending_counted := False\<rparr>,
                 se_effects := se_effects s1 @ [Decr_Fastopen_Pending]\<rparr>
         else s1)
      else s)"

definition change_state :: "tcp_env \<Rightarrow> fsm_state \<Rightarrow> tcp_session \<Rightarrow> tcp_session" where
  "change_state env st s =
     (let old_state = se_state s;
          s1 = leave_syn_rcvd old_state st (leave_established old_state st (s\<lparr>se_state := st\<rparr>));
          s2 = (if st \<in> {CLOSING, TIME_WAIT, CLOSED} then s1\<lparr>se_event_rx_buffer := True\<rparr> else s1);
          s3 = (if se_state s2 = CLOSED
                then cancel_all_timers (s2\<lparr>se_event_closed := True, se_effects := se_effects s2 @ [Unregister_Socket]\<rparr>)
                else s2)
      in if st = ESTABLISHED then keepalive_arm_idle env s3 else s3)"

definition keepalive_probe :: "tcp_session \<Rightarrow> tcp_segment" where
  "keepalive_probe s =
     \<lparr>sg_ecn = 0, sg_syn = False, sg_ack_flag = True, sg_fin = False, sg_rst = False, sg_psh = False,
      sg_ece = False, sg_cwr = False, sg_ns = False,
      sg_seq = sub32 (snd_nxt (se_snd_seq s)) 1, sg_ack = rcv_nxt (se_rcv_seq s),
      sg_win = drop_bit (nat (win_rcv_wsc (se_win s))) (rcv_wnd s),
      sg_mss = None, sg_wscale = None, sg_sackperm = False, sg_sack_blocks = None, sg_tsval = None, sg_tsecr = None,
      sg_fastopen_cookie = None, sg_accecn0_counters = None, sg_accecn1_counters = None, sg_payload = []\<rparr>"

definition keepalive_tick :: "tcp_env \<Rightarrow> tcp_session \<Rightarrow> tcp_session" where
  "keepalive_tick env s =
     (if \<not> ka_enabled (se_keepalive s) then s
      else if \<not> ka_active (se_keepalive s) then keepalive_arm_idle env s
      else if \<not> session_timer_expired env ''keepalive'' s then s
      else if ka_probes_unacked (se_keepalive s) \<ge> max_probes (env_keepalive_max_count env) (se_keepalive s)
      then change_state env CLOSED
             (s\<lparr>se_connection_error := TIMEOUT, se_event_connect := se_event_connect s + 1, se_event_rx_buffer := True\<rparr>)
      else
        (let s1 = s\<lparr>se_effects := se_effects s @ [Send_Segment (keepalive_probe s)],
                    se_keepalive := (se_keepalive s)\<lparr>ka_probes_unacked := ka_probes_unacked (se_keepalive s) + 1\<rparr>\<rparr>
         in arm_timer env ''keepalive'' (interval_timeout (env_keepalive_interval_ms env) (se_keepalive s1)) s1))"

section \<open>Selective acknowledgments\<close>

definition ingest_sack_info :: "tcp_metadata \<Rightarrow> tcp_session \<Rightarrow> tcp_session res" where
  "ingest_sack_info md s =
     (let blocks = md_sack_blocks md; snd = se_snd_seq s in
      if \<not> adv_send_sack (se_advertise s) then Inr s
      else if blocks = [] then Inr s
      else
        (let dsack = is_dsack (snd_una snd) blocks;
             s1 = (if dsack then s\<lparr>se_dsack_received := se_dsack_received s + 1\<rparr> else s);
             s2 = (if dsack \<and> cc_cc_mode (se_cc s1) = CUBIC \<and> fr_cubic_snapshot_valid (se_cc s1) \<and>
                      cc_recovery_point (se_cc s1) \<noteq> 0
                   then s1\<lparr>se_cc := restore_fr_cubic_snapshot (se_cc s1)\<rparr> else s1);
             s3 = (if dsack \<and> cc_recovery_point (se_cc s2) = 0
                   then s2\<lparr>se_rack_tlp := maybe_close_dsack_round (snd_una snd) (snd_max snd) (se_rack_tlp s2)\<rparr>
                   else s2);
             rest = (if dsack then tl blocks else blocks)
         in bind_res (ingest_loop (snd_una snd) (snd_max snd) rest (se_sack_scoreboard s3))
              (\<lambda>sb. Inr (if cc_recovery_point (se_cc s3) \<noteq> 0
                then s3\<lparr>se_sack_scoreboard := sb,
                  se_cc := (se_cc s3)\<lparr>cc_prr_delivered := cc_prr_delivered (se_cc s3) +
                    (total_sacked_bytes sb - total_sacked_bytes (se_sack_scoreboard s3))\<rparr>\<rparr>
                else s3\<lparr>se_sack_scoreboard := sb\<rparr>))))"

definition prune_sack_scoreboard :: "tcp_session \<Rightarrow> tcp_session" where
  "prune_sack_scoreboard s =
     (if adv_send_sack (se_advertise s)
      then s\<lparr>se_sack_scoreboard := prune_below (snd_una (se_snd_seq s)) (se_sack_scoreboard s)\<rparr> else s)"

definition skip_sacked :: "scoreboard \<Rightarrow> seq32 \<Rightarrow> seq32" where
  "skip_sacked bs nxt = fold (\<lambda>(left, right) nxt. if le32 left nxt \<and> lt32 nxt right then right else nxt) bs nxt"

definition advance_snd_nxt_past_sacked :: "tcp_session \<Rightarrow> tcp_session" where
  "advance_snd_nxt_past_sacked s =
     (if cc_recovery_point (se_cc s) = 0 \<or> \<not> adv_send_sack (se_advertise s) then s
      else
        (let snd = se_snd_seq s;
             sorted = sort_key (\<lambda>b. uint (fst b - snd_una snd)) (se_sack_scoreboard s)
         in s\<lparr>se_snd_seq := snd\<lparr>snd_nxt := skip_sacked sorted (snd_nxt snd)\<rparr>\<rparr>))"

section \<open>Application calls and ICMP\<close>

definition enqueue_rx_buffer :: "bytes \<Rightarrow> tcp_session \<Rightarrow> tcp_session" where
  "enqueue_rx_buffer data s =
     (if shut_rd (se_shut s) then s
      else s\<lparr>se_rx_buffer := se_rx_buffer s @ data, se_event_rx_buffer := True\<rparr>)"

definition session_send :: "tcp_env \<Rightarrow> bytes \<Rightarrow> tcp_session \<Rightarrow> (tcp_session \<times> int) res" where
  "session_send env data s =
     (if se_closing s \<or> shut_wr (se_shut s) then Inl (TcpSessionError ''TCP session is closing'')
      else if se_state s \<in> {ESTABLISHED, CLOSE_WAIT}
      then Inr (kick_pump env (s\<lparr>se_tx := (se_tx s)\<lparr>tx_buffer := tx_buffer (se_tx s) @ data\<rparr>\<rparr>), int (length data))
      else Inl (TcpSessionError ''TCP session not in ESTABLISHED or CLOSE_WAIT state''))"

text \<open>
  \<^verbatim>\<open>receive\<close> from the moment its wait has ended: either the event is set, or the time is up.
\<close>

definition session_receive :: "nat option \<Rightarrow> tcp_session \<Rightarrow> (tcp_session \<times> bytes) res" where
  "session_receive byte_count s =
     (let over = se_state s \<in> {CLOSE_WAIT, CLOSING, TIME_WAIT, CLOSED} in
      if \<not> se_event_rx_buffer s then Inl TimeoutError
      else if se_rx_buffer s = [] \<and> se_connection_error s = RESET
      then Inl (TcpSessionError ''Connection reset by peer'')
      else if se_rx_buffer s = [] \<and> se_connection_error s = CANCELED
      then Inl (TcpSessionError ''Connection canceled'')
      else if se_rx_buffer s = [] \<and> se_connection_error s = TIMEOUT
      then Inl (TcpSessionError ''Connection timeout'')
      else if se_rx_buffer s = [] \<and> over then Inr (s, [])
      else
        (let n = (case byte_count of None \<Rightarrow> length (se_rx_buffer s) | Some b \<Rightarrow> min b (length (se_rx_buffer s)));
             s1 = s\<lparr>se_rx_buffer := drop n (se_rx_buffer s)\<rparr>;
             s2 = (if se_rx_buffer s1 = [] \<and> \<not> over then s1\<lparr>se_event_rx_buffer := False\<rparr> else s1)
         in Inr (s2, take n (se_rx_buffer s))))"

definition apply_pmtu_update :: "tcp_env \<Rightarrow> int \<Rightarrow> int \<Rightarrow> tcp_session \<Rightarrow> tcp_session" where
  "apply_pmtu_update env next_hop_mtu ip_version s =
     (let ip_overhead = (if ip_version = 4 then 20 else 40);
          floor_mss = (if ip_version = 4 then 536 - 20 else 1280 - 40 - 20);
          new_mss = max (max (next_hop_mtu - ip_overhead - 20) 0) floor_mss;
          shrunk = new_mss < win_snd_mss (se_win s);
          s1 = (if shrunk then s\<lparr>se_win := (se_win s)\<lparr>win_snd_mss := new_mss\<rparr>\<rparr> else s);
          ad = adapter_on_classical_pmtu next_hop_mtu (env_now env) (se_plpmtud_adapter s1);
          s2 = s1\<lparr>se_plpmtud_adapter := ad,
                  se_effects := se_effects s1 @ [Record_Classical_Pmtu next_hop_mtu, Record_Pmtu_Engine (pa_engine ad)]\<rparr>
      in if shrunk \<and> list_ex (\<lambda>(seq, seg). uint (end_seq seg - seq) > new_mss) (rt_segments (se_rack_tlp s2))
         then s2\<lparr>se_rack_tlp := mark_all_lost (se_rack_tlp s2),
                 se_snd_seq := (se_snd_seq s2)\<lparr>snd_nxt := snd_una (se_snd_seq s2)\<rparr>\<rparr>
         else s2)"

end
