(* ===== verification/Tcp_Tx.thy ===== *)
theory Tcp_Tx
  imports Tcp_Session "HOL-Library.Sublist"
begin

text \<open>
  \<^verbatim>\<open>session/tcp__session__tx.py\<close>: the outbound side of a session. \<open>transmit_packet\<close> composes
  the phases of the pipeline in the order of the code, \<open>transmit_data\<close> is one turn of the send
  pump with Nagle's algorithm, path-MTU probes and the persist timer, and the pump of
  \<^verbatim>\<open>TcpSession._transmit_data\<close> repeats it. The segments that leave are appended to
  \<open>se_effects\<close>.
\<close>

record tx_request =
  rq_seq :: "seq32 option"
  rq_syn :: bool
  rq_ack :: bool
  rq_fin :: bool
  rq_rst :: bool
  rq_psh :: bool
  rq_data :: bytes

definition tx_plain :: tx_request where
  "tx_plain = \<lparr>rq_seq = None, rq_syn = False, rq_ack = False, rq_fin = False, rq_rst = False, rq_psh = False, rq_data = []\<rparr>"

definition consumes_seq :: "tx_request \<Rightarrow> bool" where
  "consumes_seq rq \<longleftrightarrow> rq_data rq \<noteq> [] \<or> rq_syn rq \<or> rq_fin rq"

section \<open>The phases\<close>

definition restart_after_idle :: "tcp_env \<Rightarrow> tx_request \<Rightarrow> tcp_session \<Rightarrow> tcp_session res" where
  "restart_after_idle env rq s =
     (if consumes_seq rq \<and>
         (case rtt_last_send_time_ms (se_rtt s) of
            None \<Rightarrow> False | Some t \<Rightarrow> env_now_ms env - t > rto_ms (se_rto_state s))
      then
        (let s1 = s\<lparr>se_rto_state := initial_state\<rparr>; cc = se_cc s1 in
         if rq_data rq = [] then Inr s1
         else bind_res (initial_window (win_snd_mss (se_win s1))) (\<lambda>iw.
                let rw = min iw (cc_cwnd cc) in
                Inr (if rw < cc_cwnd cc
                     then s1\<lparr>se_cc := cc\<lparr>cc_cwnd := rw, cc_snd_ewn := min rw (win_snd_wnd (se_win s1))\<rparr>\<rparr>
                     else s1)))
      else Inr s)"

definition sample_rtt :: "tcp_env \<Rightarrow> seq32 \<Rightarrow> tx_request \<Rightarrow> rtt_sample_state \<Rightarrow> rtt_sample_state" where
  "sample_rtt env seq rq rtt =
     (let rtt1 = (if consumes_seq rq \<and> rtt_seq rtt = None then rtt_record seq (env_now_ms env) rtt else rtt)
      in if consumes_seq rq then rtt1\<lparr>rtt_last_send_time_ms := Some (env_now_ms env)\<rparr> else rtt1)"

definition phase0_pre_send_hygiene :: "tcp_env \<Rightarrow> seq32 \<Rightarrow> tx_request \<Rightarrow> tcp_session \<Rightarrow> tcp_session res" where
  "phase0_pre_send_hygiene env seq rq s =
     bind_res (restart_after_idle env rq s) (\<lambda>s1. Inr (s1\<lparr>se_rtt := sample_rtt env seq rq (se_rtt s1)\<rparr>))"

definition build_sack_blocks :: "tcp_session \<Rightarrow> tcp_session \<times> sack_block list" where
  "build_sack_blocks s =
     (let block_cap = (if ts_send_ts (se_ts s) then 3 else 4);
          dsack = (case se_pending_dsack s of None \<Rightarrow> [] | Some b \<Rightarrow> [b]);
          ooo = map (\<lambda>(seq, md). (seq, add32 seq [int (length (md_data md))])) (rev (se_ooo_packet_queue s))
      in (s\<lparr>se_pending_dsack := None\<rparr>, dsack @ take (block_cap - length dsack) ooo))"

definition phase1_compose_ecn_flags :: "tx_request \<Rightarrow> tcp_session \<Rightarrow> tcp_session \<times> bool \<times> bool \<times> bool" where
  "phase1_compose_ecn_flags rq s =
     (case
        (if rq_syn rq \<and> \<not> rq_ack rq \<and> adv_accecn (se_advertise s) then (s, True, True, True)
         else if rq_syn rq \<and> \<not> rq_ack rq \<and> adv_ecn (se_advertise s) then (s, True, True, False)
         else if rq_syn rq \<and> rq_ack rq \<and> ae_enabled (se_accecn s) then
           (let cp = ae_synack_codepoint (se_accecn s) in
            (s, cp AND 1 \<noteq> 0, cp AND 2 = 0 \<or> cp AND 1 \<noteq> 0, cp AND 2 \<noteq> 0))
         else if rq_syn rq \<and> rq_ack rq \<and> ecn_enabled (se_ecn s) then (s, True, False, False)
         else if ae_enabled (se_accecn s) \<and> \<not> rq_rst rq then
           (case next_ace_field (se_accecn s) of (ae, ace) \<Rightarrow>
             (s\<lparr>se_accecn := ae\<rparr>, ace AND 1 \<noteq> 0, ace AND 2 \<noteq> 0, ace AND 4 \<noteq> 0))
         else if ecn_enabled (se_ecn s) \<and> ecn_send_ece (se_ecn s) \<and> \<not> rq_rst rq then (s, True, False, False)
         else (s, False, False, False))
      of (s1, ece, cwr, ns) \<Rightarrow>
        if ecn_enabled (se_ecn s1) \<and> rq_data rq \<noteq> [] then
          (case consume_cwr (se_ecn s1) of (ecn, hit) \<Rightarrow> (s1\<lparr>se_ecn := ecn\<rparr>, ece, cwr \<or> hit, ns))
        else (s1, ece, cwr, ns))"

definition phase2_build_accecn_counters ::
    "tx_request \<Rightarrow> tcp_session \<Rightarrow> tcp_session \<times> accecn_counters option \<times> accecn_counters option" where
  "phase2_build_accecn_counters rq s =
     (if \<not> ae_enabled (se_accecn s) \<or> rq_rst rq \<or> (rq_syn rq \<and> \<not> rq_ack rq) then (s, None, None)
      else (case next_emit_counters (se_accecn s) of (ae, counters) \<Rightarrow> (s\<lparr>se_accecn := ae\<rparr>, counters)))"

definition phase3_build_fastopen_cookie :: "tcp_env \<Rightarrow> tx_request \<Rightarrow> tcp_session \<Rightarrow> bytes option" where
  "phase3_build_fastopen_cookie env rq s =
     (if rq_syn rq \<and> rq_ack rq \<and> fo_cookie_to_emit (se_fastopen s) \<noteq> None then fo_cookie_to_emit (se_fastopen s)
      else if rq_syn rq \<and> \<not> rq_ack rq \<and> adv_fastopen (se_advertise s)
      then (if env_fastopen_negative env \<or> fo_syn_retransmitted (se_fastopen s) then None
            else (case env_fastopen_cookie env of None \<Rightarrow> Some [] | Some c \<Rightarrow> Some c))
      else None)"

definition advanced_snd :: "seq32 \<Rightarrow> tx_request \<Rightarrow> send_seq_state \<Rightarrow> send_seq_state" where
  "advanced_snd seq rq sq =
     (let sq1 = bump_max_to_nxt (snd_advance_nxt seq (int (length (rq_data rq))) (rq_syn rq) (rq_fin rq) sq)
      in if rq_fin rq then record_fin sq1 else sq1)"

definition phase4_advance_send_state :: "tcp_env \<Rightarrow> seq32 \<Rightarrow> tx_request \<Rightarrow> tcp_session \<Rightarrow> tcp_session" where
  "phase4_advance_send_state env seq rq s =
     (let n = int (length (rq_data rq)) in
      s\<lparr>se_rack_tlp :=
             (if consumes_seq rq
              then record_segment seq (add32 seq [n, of_bool (rq_syn rq), of_bool (rq_fin rq)]) (env_now_ms env) (se_rack_tlp s)
              else se_rack_tlp s),
           se_rcv_seq := (se_rcv_seq s)\<lparr>rcv_una := rcv_nxt (se_rcv_seq s)\<rparr>,
           se_snd_seq := advanced_snd seq rq (se_snd_seq s),
           se_tx := bump_seq_mod_for_flags (rq_syn rq) (rq_fin rq) (se_tx s),
           se_cc :=
             (if cc_recovery_point (se_cc s) \<noteq> 0 \<and> consumes_seq rq
              then (se_cc s)\<lparr>cc_prr_out := cc_prr_out (se_cc s) + (n + of_bool (rq_syn rq) + of_bool (rq_fin rq))\<rparr>
              else se_cc s),
           se_delayed_ack_segments_pending := (if rq_ack rq then 0 else se_delayed_ack_segments_pending s)\<rparr>)"

definition arm_send_timers :: "tcp_env \<Rightarrow> tx_request \<Rightarrow> tcp_session \<Rightarrow> tcp_session" where
  "arm_send_timers env rq s =
     (let s1 = keepalive_arm_idle env s;
          s2 = (if se_state s1 = ESTABLISHED then arm_timer env ''delayed_ack'' (env_delayed_ack_ms env) s1 else s1)
      in if consumes_seq rq \<and> \<not> session_timer_armed env ''retransmit'' s2
         then arm_timer env ''retransmit'' (rto_ms (se_rto_state s2)) s2 else s2)"

definition arm_tlp :: "tcp_env \<Rightarrow> tx_request \<Rightarrow> tcp_session \<Rightarrow> tcp_session res" where
  "arm_tlp env rq s =
     (if rq_data rq \<noteq> [] \<and> cc_recovery_point (se_cc s) = 0 \<and> \<not> frto_active (se_cc s) \<and>
         (case srtt_ms (se_rto_state s) of None \<Rightarrow> False | Some srtt \<Rightarrow> srtt > 0)
      then
        bind_res (tlp_calc_pto (srtt_ms (se_rto_state s))
            (uint (snd_max (se_snd_seq s) - snd_una (se_snd_seq s))) (win_snd_mss (se_win s))
            (tlp_max_ack_delay_ms (se_rack_tlp s)) (timer_deadline ''retransmit'' (se_timers s)) (env_now_ms env))
          (\<lambda>pto_ms.
            Inr (if pto_ms > 0
                 then (arm_timer env ''tlp'' pto_ms s)\<lparr>se_rack_tlp := (se_rack_tlp s)\<lparr>tlp_armed := True\<rparr>\<rparr>
                 else s))
      else Inr s)"

definition phase5_post_send_timers :: "tcp_env \<Rightarrow> tx_request \<Rightarrow> tcp_session \<Rightarrow> tcp_session res" where
  "phase5_post_send_timers env rq s = arm_tlp env rq (arm_send_timers env rq s)"

section \<open>The pipeline\<close>

definition tx_window_field :: "tx_request \<Rightarrow> tcp_session \<Rightarrow> int" where
  "tx_window_field rq s =
     (if rq_syn rq then min (rcv_wnd s) 0xFFFF
      else if 0 < rcv_wnd s \<and> rcv_wnd s < win_rcv_mss (se_win s) then 0
      else drop_bit (nat (win_rcv_wsc (se_win s))) (rcv_wnd s))"

definition tx_timestamps :: "tcp_env \<Rightarrow> tx_request \<Rightarrow> tcp_session \<Rightarrow> seq32 option \<times> seq32 option" where
  "tx_timestamps env rq s =
     (let ts_clock = of_int (env_now_ms env) in
      if rq_syn rq \<and> \<not> rq_ack rq
      then (if adv_ts (se_advertise s) then (Some ts_clock, Some 0) else (None, None))
      else (if ts_send_ts (se_ts s) then (Some ts_clock, Some (ts_recent (se_ts s))) else (None, None)))"

definition tx_sack_option :: "tx_request \<Rightarrow> tcp_session \<Rightarrow> tcp_session \<times> sack_block list option" where
  "tx_sack_option rq s =
     (if \<not> rq_syn rq \<and> adv_send_sack (se_advertise s) \<and> (se_ooo_packet_queue s \<noteq> [] \<or> se_pending_dsack s \<noteq> None)
      then (case build_sack_blocks s of (s', bs) \<Rightarrow> (s', Some bs)) else (s, None))"

text \<open>
  The segment \<open>transmit_packet\<close> hands to the packet handler, and the session after the parts
  of its state that a segment consumes.
\<close>

definition compose_segment :: "tcp_env \<Rightarrow> seq32 \<Rightarrow> seq32 \<Rightarrow> tx_request \<Rightarrow> tcp_session \<Rightarrow> tcp_session \<times> tcp_segment" where
  "compose_segment env seq ack rq s0 =
     (let win = tx_window_field rq s0;
          wscale = (if rq_syn rq then Some (if adv_wscale (se_advertise s0) then win_rcv_wsc (se_win s0) else 0) else None);
          sackperm = (if rq_syn rq \<and> \<not> rq_ack rq then adv_sack (se_advertise s0)
                      else if rq_syn rq \<and> rq_ack rq then adv_send_sack (se_advertise s0) else False);
          (s1, sack_blocks) = tx_sack_option rq s0;
          (tsval, tsecr) = tx_timestamps env rq s1;
          (s2, ece, cwr, ns) = phase1_compose_ecn_flags rq s1;
          cookie = phase3_build_fastopen_cookie env rq s2;
          (s3, accecn0, accecn1) = phase2_build_accecn_counters rq s2;
          is_retransmit = rq_data rq \<noteq> [] \<and> lt32 seq (snd_max (se_snd_seq s3))
      in (s3, \<lparr>sg_ecn = (if ecn_enabled (se_ecn s3) \<and> rq_data rq \<noteq> [] \<and> \<not> is_retransmit then 2 else 0),
               sg_syn = rq_syn rq, sg_ack_flag = rq_ack rq, sg_fin = rq_fin rq, sg_rst = rq_rst rq,
               sg_psh = rq_psh rq, sg_ece = ece, sg_cwr = cwr, sg_ns = ns, sg_seq = seq, sg_ack = ack,
               sg_win = win,
               sg_mss = (if rq_syn rq
                         then Some (min (min (win_rcv_mss (se_win s3)) 0xFFFF)
                                (if se_maxseg_override s3 > 0 then se_maxseg_override s3 else 0xFFFF))
                         else None),
               sg_wscale = wscale, sg_sackperm = sackperm, sg_sack_blocks = sack_blocks,
               sg_tsval = tsval, sg_tsecr = tsecr, sg_fastopen_cookie = cookie,
               sg_accecn0_counters = accecn0, sg_accecn1_counters = accecn1, sg_payload = rq_data rq\<rparr>))"

definition transmit_packet :: "tcp_env \<Rightarrow> tx_request \<Rightarrow> tcp_session \<Rightarrow> tcp_session res" where
  "transmit_packet env rq s =
     (let seq = (case rq_seq rq of Some q \<Rightarrow> q | None \<Rightarrow> snd_nxt (se_snd_seq s));
          ack = (if rq_ack rq then rcv_nxt (se_rcv_seq s) else 0)
      in bind_res (phase0_pre_send_hygiene env seq rq s) (\<lambda>s0.
         case compose_segment env seq ack rq s0 of (s1, seg) \<Rightarrow>
           phase5_post_send_timers env rq
             (phase4_advance_send_state env seq rq (s1\<lparr>se_effects := se_effects s1 @ [Send_Segment seg]\<rparr>))))"

definition emit_challenge_ack :: "tcp_env \<Rightarrow> tcp_session \<Rightarrow> tcp_session res" where
  "emit_challenge_ack env s =
     (if session_timer_armed env ''challenge_ack'' s then Inr s
      else bind_res (transmit_packet env (tx_plain\<lparr>rq_ack := True\<rparr>) s)
             (\<lambda>s1. Inr (arm_timer env ''challenge_ack'' (env_challenge_ack_ms env) s1)))"

definition delayed_ack :: "tcp_env \<Rightarrow> tcp_session \<Rightarrow> tcp_session res" where
  "delayed_ack env s =
     (if session_timer_armed env ''delayed_ack'' s then Inr s
      else bind_res
             (if gt32 (rcv_nxt (se_rcv_seq s)) (rcv_una (se_rcv_seq s))
              then transmit_packet env (tx_plain\<lparr>rq_ack := True\<rparr>) s else Inr s)
             (\<lambda>s1. Inr (if session_timer_expired env ''delayed_ack'' s1
                        then cancel_timer env ''delayed_ack'' s1 else s1)))"

section \<open>The send pump\<close>

definition options_overhead :: "tcp_session \<Rightarrow> int" where
  "options_overhead s =
     (if ts_send_ts (se_ts s) then 12 else 0) +
     (if adv_send_sack (se_advertise s) \<and> (se_ooo_packet_queue s \<noteq> [] \<or> se_pending_dsack s \<noteq> None)
      then ((2 + 8 * (if ts_send_ts (se_ts s) then 3 else 4) + 3) div 4) * 4 else 0) +
     (if ae_enabled (se_accecn s) then 12 else 0)"

definition mss_for_data :: "tcp_session \<Rightarrow> int" where
  "mss_for_data s = max (win_snd_mss (se_win s) - options_overhead s) 1"

definition remaining_data_len :: "tcp_session \<Rightarrow> int" where
  "remaining_data_len s = int (length (tx_buffer (se_tx s))) - tx_buffer_nxt s"

definition usable_window :: "tcp_session \<Rightarrow> int" where
  "usable_window s = cc_snd_ewn (se_cc s) - tx_buffer_nxt s"

text \<open>The length of the next segment and, for a path-MTU probe, its packet size.\<close>

definition plan_segment :: "tcp_env \<Rightarrow> tcp_session \<Rightarrow> tcp_session \<times> int option \<times> int" where
  "plan_segment env s =
     (let regular = min (min (mss_for_data s) (usable_window s)) (remaining_data_len s) in
      case candidate_mtu (pa_engine (se_plpmtud_adapter s)) of
        None \<Rightarrow> (s, None, regular)
      | Some cand \<Rightarrow>
          (let probe_payload = cand - se_ip_tcp_overhead s - options_overhead s in
           if se_plpmtud_probing_enabled s \<and> probe_payload > win_snd_mss (se_win s) \<and>
              probe_payload \<le> usable_window s \<and> probe_payload \<le> remaining_data_len s
           then (case maybe_probe (env_now env) (se_plpmtud_adapter s) of (ad, reserved) \<Rightarrow>
                  (s\<lparr>se_plpmtud_adapter := ad\<rparr>, reserved, if reserved \<noteq> None then probe_payload else regular))
           else (s, None, regular)))"

definition tx_slice :: "tcp_session \<Rightarrow> int \<Rightarrow> bytes" where
  "tx_slice s n = take (nat n) (drop (nat (tx_buffer_nxt s)) (tx_buffer (se_tx s)))"

text \<open>What the adapter is told after a segment of \<open>n\<close> bytes at \<open>seq\<close>.\<close>

definition report_to_adapter :: "tcp_env \<Rightarrow> int option \<Rightarrow> seq32 \<Rightarrow> int \<Rightarrow> bool \<Rightarrow> int \<Rightarrow> tcp_session \<Rightarrow> tcp_session" where
  "report_to_adapter env probe seq n is_retransmit overhead s =
     (let ad = se_plpmtud_adapter s; e = seq + of_int n in
      case probe of
        Some sz \<Rightarrow> s\<lparr>se_plpmtud_adapter := record_emitted_probe e sz (Some seq) ad\<rparr>
      | None \<Rightarrow>
          if \<not> se_plpmtud_probing_enabled s then s
          else if is_retransmit then s\<lparr>se_plpmtud_adapter := on_range_retransmitted seq e (env_now env) ad\<rparr>
          else s\<lparr>se_plpmtud_adapter := note_data_segment seq e (n + se_ip_tcp_overhead s + overhead) ad\<rparr>)"

definition send_planned :: "tcp_env \<Rightarrow> int option \<Rightarrow> int \<Rightarrow> tcp_session \<Rightarrow> tcp_session res" where
  "send_planned env probe n s =
     (let snd = se_snd_seq s;
          is_retransmit = lt32 (snd_nxt snd) (snd_max snd);
          is_partial = n < mss_for_data s;
          prev_partial_in_flight = gt32 (snd_sml snd) (snd_una snd)
      in if is_partial \<and> prev_partial_in_flight \<and> \<not> is_retransmit \<and> \<not> se_tcp_nodelay s then Inr s
         else
           bind_res (transmit_packet env
               (tx_plain\<lparr>rq_ack := True, rq_psh := (n = remaining_data_len s), rq_data := tx_slice s n\<rparr>) s)
             (\<lambda>s1.
               let s2 = report_to_adapter env probe (snd_nxt snd) n is_retransmit (options_overhead s) s1
               in Inr (if is_partial then s2\<lparr>se_snd_seq := (se_snd_seq s2)\<lparr>snd_sml := snd_nxt (se_snd_seq s2)\<rparr>\<rparr> else s2)))"

definition persist_turn :: "tcp_env \<Rightarrow> tcp_session \<Rightarrow> tcp_session res" where
  "persist_turn env s =
     (if cc_snd_ewn (se_cc s) \<noteq> 0 then Inr s
      else if \<not> ps_active (se_persist s)
      then Inr (arm_timer env ''persist'' (env_rto_initial_ms env)
                  (s\<lparr>se_persist := \<lparr>ps_active = True, ps_timeout = env_rto_initial_ms env\<rparr>\<rparr>))
      else if session_timer_expired env ''persist'' s
      then bind_res (transmit_packet env (tx_plain\<lparr>rq_ack := True, rq_data := tx_slice s 1\<rparr>) s)
             (\<lambda>s1.
               let t = min (ps_timeout (se_persist s1) * 2) (env_persist_max_ms env) in
               Inr (arm_timer env ''persist'' t
                     (s1\<lparr>se_snd_seq := (se_snd_seq s1)\<lparr>snd_sml := snd_nxt (se_snd_seq s1)\<rparr>,
                         se_persist := (se_persist s1)\<lparr>ps_timeout := t\<rparr>\<rparr>)))
      else Inr s)"

definition transmit_data :: "tcp_env \<Rightarrow> tcp_session \<Rightarrow> tcp_session res" where
  "transmit_data env s =
     (let snd = se_snd_seq s; right_edge = add32 (snd_una snd) [cc_snd_ewn (se_cc s)] in
      if \<not> in_range32 (snd_nxt snd) (snd_una snd) right_edge then Inr s
      else if se_state s = SYN_SENT \<and> snd_nxt snd = snd_ini snd
      then (let tfo_data =
                  (if (case env_fastopen_cookie env of None \<Rightarrow> False | Some c \<Rightarrow> c \<noteq> []) \<and>
                      adv_fastopen (se_advertise s) \<and> tx_buffer (se_tx s) \<noteq> []
                   then take (nat (min (win_snd_mss (se_win s)) (int (length (tx_buffer (se_tx s))))))
                          (tx_buffer (se_tx s))
                   else [])
            in transmit_packet env (tx_plain\<lparr>rq_syn := True, rq_data := tfo_data\<rparr>) s)
      else if se_state s = SYN_RCVD \<and> snd_nxt snd = snd_ini snd
      then transmit_packet env (tx_plain\<lparr>rq_syn := True, rq_ack := True\<rparr>) s
      else if se_state s \<in> {ESTABLISHED, CLOSE_WAIT}
      then (let s1 = advance_snd_nxt_past_sacked s in
            case plan_segment env s1 of (s2, probe, n) \<Rightarrow>
              if remaining_data_len s1 = 0 then Inr s2
              else if n > 0 then send_planned env probe n s2 else persist_turn env s2)
      else if se_state s \<in> {FIN_WAIT_1, CLOSING, LAST_ACK} \<and> snd_nxt snd \<noteq> snd_fin snd
      then transmit_packet env (tx_plain\<lparr>rq_fin := True, rq_ack := True\<rparr>) s
      else Inr s)"

definition MAX_SEGMENTS_PER_PUMP :: nat where "MAX_SEGMENTS_PER_PUMP = 512"

fun pump_loop :: "tcp_env \<Rightarrow> nat \<Rightarrow> tcp_session \<Rightarrow> tcp_session res" where
  "pump_loop env 0 s = Inr s"
| "pump_loop env (Suc k) s =
     bind_res (transmit_data env s)
       (\<lambda>s1. if snd_nxt (se_snd_seq s1) = snd_nxt (se_snd_seq s) then Inr s1 else pump_loop env k s1)"

definition session_transmit_data :: "tcp_env \<Rightarrow> tcp_session \<Rightarrow> tcp_session res" where
  "session_transmit_data env s =
     pump_loop env (if cc_recovery_point (se_cc s) \<noteq> 0 then 1 else MAX_SEGMENTS_PER_PUMP) s"

section \<open>What each phase writes\<close>

text \<open>Frame lemmas: a phase returns its argument with only the named fields written.\<close>

lemma bind_res_Inr: "bind_res x f = Inr y \<longleftrightarrow> (\<exists>z. x = Inr z \<and> f z = Inr y)"
  by (cases x) simp_all

lemma phase0_frame:
  assumes "phase0_pre_send_hygiene env seq rq s = Inr s'"
  obtains r w e t where "s' = s\<lparr>se_rto_state := r, se_cc := (se_cc s)\<lparr>cc_cwnd := w, cc_snd_ewn := e\<rparr>, se_rtt := t\<rparr>"
proof -
  have cc: "(se_cc s)\<lparr>cc_cwnd := cc_cwnd (se_cc s), cc_snd_ewn := cc_snd_ewn (se_cc s)\<rparr> = se_cc s" by simp
  obtain s1 where s1: "restart_after_idle env rq s = Inr s1" "s' = s1\<lparr>se_rtt := sample_rtt env seq rq (se_rtt s1)\<rparr>"
    using assms by (auto simp: phase0_pre_send_hygiene_def bind_res_Inr)
  have "\<exists>r. s1 = s\<lparr>se_rto_state := r\<rparr> \<or>
      (\<exists>w e. s1 = s\<lparr>se_rto_state := r, se_cc := (se_cc s)\<lparr>cc_cwnd := w, cc_snd_ewn := e\<rparr>\<rparr>)"
    using s1(1) by (auto simp: restart_after_idle_def bind_res_Inr Let_def split: if_splits intro: exI [of _ "se_rto_state s"])
  then show ?thesis
  proof (elim exE disjE)
    fix r assume "s1 = s\<lparr>se_rto_state := r\<rparr>"
    then have "s' = s\<lparr>se_rto_state := r, se_cc := (se_cc s)\<lparr>cc_cwnd := cc_cwnd (se_cc s), cc_snd_ewn := cc_snd_ewn (se_cc s)\<rparr>,
        se_rtt := sample_rtt env seq rq (se_rtt s1)\<rparr>" using s1(2) by (simp add: cc)
    then show ?thesis by (rule that)
  qed (use s1(2) that in simp)
qed

lemma phase1_frame:
  assumes "phase1_compose_ecn_flags rq s = (s', fl)"
  obtains e a where "s' = s\<lparr>se_ecn := e, se_accecn := a\<rparr>"
proof -
  have "s' = s\<lparr>se_ecn := se_ecn s', se_accecn := se_accecn s'\<rparr>"
    using assms by (auto simp: phase1_compose_ecn_flags_def Let_def split: if_splits prod.splits)
  then show ?thesis by (rule that)
qed

lemma phase2_frame:
  assumes "phase2_build_accecn_counters rq s = (s', c)"
  obtains a where "s' = s\<lparr>se_accecn := a\<rparr>"
proof -
  have "s' = s\<lparr>se_accecn := se_accecn s'\<rparr>"
    using assms by (auto simp: phase2_build_accecn_counters_def split: if_splits prod.splits)
  then show ?thesis by (rule that)
qed

lemma compose_frame:
  assumes "compose_segment env seq ack rq s = (s', seg)"
  obtains d e a where "s' = s\<lparr>se_pending_dsack := d, se_ecn := e, se_accecn := a\<rparr>"
proof -
  obtain s1 sb where 1: "tx_sack_option rq s = (s1, sb)" by fastforce
  obtain s2 f1 f2 f3 where 2: "phase1_compose_ecn_flags rq s1 = (s2, f1, f2, f3)" by (metis prod_cases3)
  obtain s3 c1 c2 where 3: "phase2_build_accecn_counters rq s2 = (s3, c1, c2)" by (metis prod_cases3)
  obtain ts where t: "tx_timestamps env rq s1 = ts" by blast
  have "fst (compose_segment env seq ack rq s) = s3"
    by (simp add: compose_segment_def Let_def 1 2 3 t case_prod_unfold)
  then have "s3 = s'" using assms by simp
  moreover have "s1 = s\<lparr>se_pending_dsack := se_pending_dsack s1\<rparr>"
    using 1 by (auto simp: tx_sack_option_def build_sack_blocks_def Let_def split: if_splits)
  then obtain d where "s1 = s\<lparr>se_pending_dsack := d\<rparr>" by blast
  moreover obtain e a where "s2 = s1\<lparr>se_ecn := e, se_accecn := a\<rparr>" using phase1_frame [OF 2] by blast
  moreover obtain a' where "s3 = s2\<lparr>se_accecn := a'\<rparr>" using phase2_frame [OF 3] by blast
  ultimately have "s' = s\<lparr>se_pending_dsack := d, se_ecn := e, se_accecn := a'\<rparr>" by simp
  then show ?thesis by (rule that)
qed

lemma compose_fields:
  assumes "compose_segment env seq ack rq s = (s', seg)"
  shows "sg_seq seg = seq" "sg_ack seg = ack" "sg_payload seg = rq_data rq" "sg_syn seg = rq_syn rq"
    "sg_ack_flag seg = rq_ack rq" "sg_fin seg = rq_fin rq" "sg_rst seg = rq_rst rq" "sg_win seg = tx_window_field rq s"
  using assms by (auto simp: compose_segment_def Let_def split: prod.splits)

lemma keepalive_frame:
  obtains k t where "keepalive_arm_idle env s = s\<lparr>se_keepalive := k, se_timers := t\<rparr>"
proof (cases "ka_enabled (se_keepalive s)")
  case False
  then have "keepalive_arm_idle env s = s\<lparr>se_keepalive := se_keepalive s, se_timers := se_timers s\<rparr>"
    by (simp add: keepalive_arm_idle_def)
  then show ?thesis by (rule that)
qed (simp add: keepalive_arm_idle_def arm_timer_def Let_def that)

lemma arm_send_timers_frame:
  obtains k t where "arm_send_timers env rq s = s\<lparr>se_keepalive := k, se_timers := t\<rparr>"
proof -
  obtain k t where 1: "keepalive_arm_idle env s = s\<lparr>se_keepalive := k, se_timers := t\<rparr>" by (rule keepalive_frame)
  obtain t' where 2: "(if se_state s = ESTABLISHED
      then arm_timer env ''delayed_ack'' (env_delayed_ack_ms env) (s\<lparr>se_keepalive := k, se_timers := t\<rparr>)
      else s\<lparr>se_keepalive := k, se_timers := t\<rparr>) = s\<lparr>se_keepalive := k, se_timers := t'\<rparr>"
    by (cases "se_state s = ESTABLISHED") (auto simp: arm_timer_def)
  define s2 where "s2 = s\<lparr>se_keepalive := k, se_timers := t'\<rparr>"
  have "arm_send_timers env rq s = (if consumes_seq rq \<and> \<not> session_timer_armed env ''retransmit'' s2
      then arm_timer env ''retransmit'' (rto_ms (se_rto_state s2)) s2 else s2)"
    by (simp add: arm_send_timers_def 1 2 flip: s2_def)
  also have "\<dots> = s\<lparr>se_keepalive := k, se_timers :=
      (if consumes_seq rq \<and> \<not> session_timer_armed env ''retransmit'' s2
       then timer_arm (se_state s2) (env_now_ms env) ''retransmit'' (rto_ms (se_rto_state s2)) t' else t')\<rparr>"
    by (simp add: arm_timer_def s2_def)
  finally show ?thesis by (rule that)
qed

lemma phase5_frame:
  assumes "phase5_post_send_timers env rq s = Inr s'"
  obtains k t b where "s' = s\<lparr>se_keepalive := k, se_timers := t, se_rack_tlp := (se_rack_tlp s)\<lparr>tlp_armed := b\<rparr>\<rparr>"
proof -
  define s1 where "s1 = arm_send_timers env rq s"
  obtain k t where s1: "s1 = s\<lparr>se_keepalive := k, se_timers := t\<rparr>" using arm_send_timers_frame unfolding s1_def by blast
  have "arm_tlp env rq s1 = Inr s'" using assms by (simp add: phase5_post_send_timers_def s1_def)
  then consider "s' = s1" | pto where "s' = (arm_timer env ''tlp'' pto s1)\<lparr>se_rack_tlp := (se_rack_tlp s1)\<lparr>tlp_armed := True\<rparr>\<rparr>"
    by (auto simp: arm_tlp_def bind_res_Inr split: if_splits)
  then show ?thesis
  proof cases
    case 1
    then have "s' = s\<lparr>se_keepalive := k, se_timers := t, se_rack_tlp := (se_rack_tlp s)\<lparr>tlp_armed := tlp_armed (se_rack_tlp s)\<rparr>\<rparr>"
      by (simp add: s1)
    then show ?thesis by (rule that)
  next
    case 2
    then have "s' = s\<lparr>se_keepalive := k, se_timers := timer_arm (se_state s1) (env_now_ms env) ''tlp'' pto t,
        se_rack_tlp := (se_rack_tlp s)\<lparr>tlp_armed := True\<rparr>\<rparr>" by (simp add: s1 arm_timer_def)
    then show ?thesis by (rule that)
  qed
qed

lemma phase4_frame:
  obtains rk c da where "phase4_advance_send_state env seq rq s =
    s\<lparr>se_rack_tlp := rk, se_rcv_seq := (se_rcv_seq s)\<lparr>rcv_una := rcv_nxt (se_rcv_seq s)\<rparr>,
      se_snd_seq := advanced_snd seq rq (se_snd_seq s),
      se_tx := bump_seq_mod_for_flags (rq_syn rq) (rq_fin rq) (se_tx s),
      se_cc := (se_cc s)\<lparr>cc_prr_out := c\<rparr>, se_delayed_ack_segments_pending := da\<rparr>"
    "tlp_max_ack_delay_ms rk = tlp_max_ack_delay_ms (se_rack_tlp s)"
proof -
  obtain c where c: "(if cc_recovery_point (se_cc s) \<noteq> 0 \<and> consumes_seq rq
      then (se_cc s)\<lparr>cc_prr_out := cc_prr_out (se_cc s) +
        (int (length (rq_data rq)) + of_bool (rq_syn rq) + of_bool (rq_fin rq))\<rparr>
      else se_cc s) = (se_cc s)\<lparr>cc_prr_out := c\<rparr>"
    by (cases "cc_recovery_point (se_cc s) \<noteq> 0 \<and> consumes_seq rq") (force intro: that [of "cc_prr_out (se_cc s)"] that)+
  show ?thesis by (rule that, simp only: phase4_advance_send_state_def Let_def c) (simp add: record_segment_def)
qed

text \<open>
  The whole of \<open>transmit_packet\<close>: one segment leaves, with the data and the place in the stream
  asked for; the listed fields are written and no other.
\<close>

lemma transmit_packet_frame:
  assumes "transmit_packet env rq s = Inr s'"
  obtains seg seq r w e pr t d ec a k tm rk da where
    "s' = s\<lparr>se_rto_state := r, se_cc := (se_cc s)\<lparr>cc_cwnd := w, cc_snd_ewn := e, cc_prr_out := pr\<rparr>, se_rtt := t,
        se_pending_dsack := d, se_ecn := ec, se_accecn := a, se_effects := se_effects s @ [Send_Segment seg],
        se_rack_tlp := rk, se_rcv_seq := (se_rcv_seq s)\<lparr>rcv_una := rcv_nxt (se_rcv_seq s)\<rparr>,
        se_snd_seq := advanced_snd seq rq (se_snd_seq s),
        se_tx := bump_seq_mod_for_flags (rq_syn rq) (rq_fin rq) (se_tx s),
        se_delayed_ack_segments_pending := da, se_keepalive := k, se_timers := tm\<rparr>"
    "seq = (case rq_seq rq of Some q \<Rightarrow> q | None \<Rightarrow> snd_nxt (se_snd_seq s))" "sg_seq seg = seq"
    "sg_ack seg = (if rq_ack rq then rcv_nxt (se_rcv_seq s) else 0)" "sg_payload seg = rq_data rq"
    "sg_syn seg = rq_syn rq" "sg_fin seg = rq_fin rq" "sg_rst seg = rq_rst rq" "sg_ack_flag seg = rq_ack rq"
    "tlp_max_ack_delay_ms rk = tlp_max_ack_delay_ms (se_rack_tlp s)"
proof -
  define seq ack where "seq = (case rq_seq rq of Some q \<Rightarrow> q | None \<Rightarrow> snd_nxt (se_snd_seq s))"
    and "ack = (if rq_ack rq then rcv_nxt (se_rcv_seq s) else 0)"
  obtain s0 where s0: "phase0_pre_send_hygiene env seq rq s = Inr s0"
    using assms by (auto simp: transmit_packet_def Let_def bind_res_Inr simp flip: seq_def)
  obtain s1 seg where s1: "compose_segment env seq ack rq s0 = (s1, seg)" by fastforce
  define s2 where "s2 = phase4_advance_send_state env seq rq (s1\<lparr>se_effects := se_effects s1 @ [Send_Segment seg]\<rparr>)"
  have s': "phase5_post_send_timers env rq s2 = Inr s'"
    using assms by (simp add: transmit_packet_def Let_def s0 s1 s2_def flip: seq_def ack_def)
  obtain r w e t where 0: "s0 = s\<lparr>se_rto_state := r, se_cc := (se_cc s)\<lparr>cc_cwnd := w, cc_snd_ewn := e\<rparr>, se_rtt := t\<rparr>"
    by (rule phase0_frame [OF s0])
  obtain d ec a where 1: "s1 = s0\<lparr>se_pending_dsack := d, se_ecn := ec, se_accecn := a\<rparr>" by (rule compose_frame [OF s1])
  obtain rk pr da where 2: "s2 = (s1\<lparr>se_effects := se_effects s1 @ [Send_Segment seg]\<rparr>)
     \<lparr>se_rack_tlp := rk, se_rcv_seq := (se_rcv_seq s1)\<lparr>rcv_una := rcv_nxt (se_rcv_seq s1)\<rparr>,
      se_snd_seq := advanced_snd seq rq (se_snd_seq s1),
      se_tx := bump_seq_mod_for_flags (rq_syn rq) (rq_fin rq) (se_tx s1),
      se_cc := (se_cc s1)\<lparr>cc_prr_out := pr\<rparr>, se_delayed_ack_segments_pending := da\<rparr>"
    and rk: "tlp_max_ack_delay_ms rk = tlp_max_ack_delay_ms (se_rack_tlp s1)"
    unfolding s2_def by (rule phase4_frame [of env seq rq "s1\<lparr>se_effects := se_effects s1 @ [Send_Segment seg]\<rparr>"]) simp
  obtain k tm b where 5: "s' = s2\<lparr>se_keepalive := k, se_timers := tm, se_rack_tlp := (se_rack_tlp s2)\<lparr>tlp_armed := b\<rparr>\<rparr>"
    by (rule phase5_frame [OF s'])
  have "s' = s\<lparr>se_rto_state := r, se_cc := (se_cc s)\<lparr>cc_cwnd := w, cc_snd_ewn := e, cc_prr_out := pr\<rparr>, se_rtt := t,
        se_pending_dsack := d, se_ecn := ec, se_accecn := a, se_effects := se_effects s @ [Send_Segment seg],
        se_rack_tlp := rk\<lparr>tlp_armed := b\<rparr>, se_rcv_seq := (se_rcv_seq s)\<lparr>rcv_una := rcv_nxt (se_rcv_seq s)\<rparr>,
        se_snd_seq := advanced_snd seq rq (se_snd_seq s),
        se_tx := bump_seq_mod_for_flags (rq_syn rq) (rq_fin rq) (se_tx s),
        se_delayed_ack_segments_pending := da, se_keepalive := k, se_timers := tm\<rparr>"
    by (simp add: 0 1 2 5)
  then show ?thesis
    by (rule that) (use compose_fields [OF s1] rk in \<open>simp_all add: seq_def ack_def 0 1\<close>)
qed

section \<open>The pump sends the stream\<close>

lemma plan_segment_spec:
  assumes "plan_segment env s = (s', probe, n)"
  shows "s' = s\<lparr>se_plpmtud_adapter := se_plpmtud_adapter s'\<rparr>" "n \<le> usable_window s" "n \<le> remaining_data_len s"
proof -
  have r: "min (min (mss_for_data s) (usable_window s)) (remaining_data_len s) \<le> usable_window s"
    "min (min (mss_for_data s) (usable_window s)) (remaining_data_len s) \<le> remaining_data_len s" by linarith+
  show "s' = s\<lparr>se_plpmtud_adapter := se_plpmtud_adapter s'\<rparr>"
    using assms by (auto simp: plan_segment_def Let_def split: option.splits if_splits prod.splits)
  show "n \<le> usable_window s" "n \<le> remaining_data_len s"
    using assms r by (auto simp: plan_segment_def Let_def split: option.splits if_splits prod.splits)
qed

text \<open>Length and content of a slice of the buffer.\<close>

lemma tx_buffer_nxt_fwd: "tx_buffer_nxt s = fwd (tx_seq_mod (se_tx s)) (snd_nxt (se_snd_seq s))"
  by (simp add: tx_buffer_nxt_def fwd_def)

lemma tx_slice_length:
  assumes "0 \<le> n" "n \<le> remaining_data_len s"
  shows "int (length (tx_slice s n)) = n"
proof -
  have "0 \<le> tx_buffer_nxt s" by (simp add: tx_buffer_nxt_fwd)
  then show ?thesis using assms unfolding remaining_data_len_def tx_slice_def by (simp add: min_def) linarith
qed

lemma tx_slice_bytes:
  assumes "i < length (tx_slice s n)" "int (length (tx_buffer (se_tx s))) < 4294967296"
  shows "tx_byte (se_tx s) (snd_nxt (se_snd_seq s) + of_nat i) = Some (tx_slice s n ! i)"
proof -
  let ?m = "tx_seq_mod (se_tx s)" and ?x = "snd_nxt (se_snd_seq s)"
  have "i < length (tx_buffer (se_tx s)) - nat (fwd ?m ?x)" "i < nat n"
    using assms(1) by (simp_all add: tx_slice_def tx_buffer_nxt_fwd)
  then have i: "nat (fwd ?m ?x) + i < length (tx_buffer (se_tx s))" "i < nat n" by linarith+
  have "fwd ?m (?x + of_nat i) = (fwd ?m ?x + int i) mod 4294967296" using fwd_add [of ?m ?x "int i"] by simp
  also have "\<dots> = fwd ?m ?x + int i" using i assms(2) fwd_nonneg [of ?m ?x] by (intro mod_pos_pos_trivial) linarith+
  finally have "nat (fwd ?m (?x + of_nat i)) = nat (fwd ?m ?x) + i" by (simp add: nat_add_distrib)
  then show ?thesis using i by (simp add: tx_byte_def tx_slice_def tx_buffer_nxt_fwd Let_def)
qed

text \<open>
  What a data segment of the pump must satisfy: it carries exactly the bytes of the stream at
  its sequence number; it fits the usable window, or is a persist probe of at most one byte
  into a closed window; and a short one does not follow another unacknowledged short one.
\<close>

definition stream_segment :: "tcp_env \<Rightarrow> tcp_session \<Rightarrow> tcp_segment \<Rightarrow> bool" where
  "stream_segment env s seg \<longleftrightarrow>
     \<not> sg_syn seg \<and> \<not> sg_fin seg \<and> \<not> sg_rst seg \<and> sg_ack_flag seg \<and> sg_ack seg = rcv_nxt (se_rcv_seq s) \<and>
     (\<forall>i < length (sg_payload seg). tx_byte (se_tx s) (sg_seq seg + of_nat i) = Some (sg_payload seg ! i)) \<and>
     (if cc_snd_ewn (se_cc s) = 0
      then length (sg_payload seg) \<le> 1 \<and> session_timer_expired env ''persist'' s
      else sg_payload seg \<noteq> [] \<and>
        fwd (snd_una (se_snd_seq s)) (sg_seq seg) + int (length (sg_payload seg)) \<le> cc_snd_ewn (se_cc s) \<and>
        (int (length (sg_payload seg)) < mss_for_data s \<and> \<not> lt32 (sg_seq seg) (snd_max (se_snd_seq s)) \<and> \<not> se_tcp_nodelay s \<longrightarrow>
         \<not> gt32 (snd_sml (se_snd_seq s)) (snd_una (se_snd_seq s))))"

lemma advance_frame:
  obtains x where "advance_snd_nxt_past_sacked s = s\<lparr>se_snd_seq := (se_snd_seq s)\<lparr>snd_nxt := x\<rparr>\<rparr>"
    "cc_recovery_point (se_cc s) = 0 \<Longrightarrow> x = snd_nxt (se_snd_seq s)"
proof (cases "cc_recovery_point (se_cc s) = 0 \<or> \<not> adv_send_sack (se_advertise s)")
  case True
  then have "advance_snd_nxt_past_sacked s = s\<lparr>se_snd_seq := (se_snd_seq s)\<lparr>snd_nxt := snd_nxt (se_snd_seq s)\<rparr>\<rparr>"
    by (simp add: advance_snd_nxt_past_sacked_def)
  then show ?thesis by (rule that) simp
next
  case False
  then show ?thesis by (intro that) (auto simp: advance_snd_nxt_past_sacked_def Let_def)
qed

lemma report_frame: "report_to_adapter env probe q n rt ov s = s\<lparr>se_plpmtud_adapter :=
    se_plpmtud_adapter (report_to_adapter env probe q n rt ov s)\<rparr>"
  by (simp add: report_to_adapter_def Let_def split: option.split)

text \<open>A turn that sends: what it sends, and what it leaves.\<close>

definition sent_data :: "bytes \<Rightarrow> tcp_session \<Rightarrow> tcp_session \<Rightarrow> tcp_segment \<Rightarrow> bool" where
  "sent_data data s s' seg \<longleftrightarrow>
     se_effects s' = se_effects s @ [Send_Segment seg] \<and>
     \<not> sg_syn seg \<and> \<not> sg_fin seg \<and> \<not> sg_rst seg \<and> sg_ack_flag seg \<and> sg_ack seg = rcv_nxt (se_rcv_seq s) \<and>
     sg_seq seg = snd_nxt (se_snd_seq s) \<and> sg_payload seg = data \<and>
     snd_nxt (se_snd_seq s') = snd_nxt (se_snd_seq s) + of_nat (length data) \<and>
     snd_una (se_snd_seq s') = snd_una (se_snd_seq s) \<and>
     se_tx s' = se_tx s \<and> se_state s' = se_state s \<and> cc_recovery_point (se_cc s') = cc_recovery_point (se_cc s)"

lemma bump_no_flags [simp]: "bump_seq_mod_for_flags False False tx = tx"
  by (simp add: bump_seq_mod_for_flags_def add32_def)

lemma transmit_plain_data:
  assumes "transmit_packet env (tx_plain\<lparr>rq_ack := True, rq_psh := p, rq_data := data\<rparr>) s = Inr s'"
  obtains seg where "sent_data data s s' seg"
    "snd_sml (se_snd_seq s') = snd_sml (se_snd_seq s)" "se_persist s' = se_persist s"
  by (rule transmit_packet_frame [OF assms])
    (auto simp: sent_data_def tx_plain_def advanced_snd_def snd_advance_nxt_def bump_max_to_nxt_def add32_def Let_def intro!: that)

lemma send_planned_spec:
  assumes "send_planned env probe n s = Inr s'"
  shows "s' = s \<or> (\<exists>seg. sent_data (tx_slice s n) s s' seg \<and>
    (n < mss_for_data s \<and> \<not> lt32 (snd_nxt (se_snd_seq s)) (snd_max (se_snd_seq s)) \<and> \<not> se_tcp_nodelay s \<longrightarrow>
     \<not> gt32 (snd_sml (se_snd_seq s)) (snd_una (se_snd_seq s))))"
proof (cases "n < mss_for_data s \<and> gt32 (snd_sml (se_snd_seq s)) (snd_una (se_snd_seq s)) \<and>
    \<not> lt32 (snd_nxt (se_snd_seq s)) (snd_max (se_snd_seq s)) \<and> \<not> se_tcp_nodelay s")
  case True
  then show ?thesis using assms by (simp add: send_planned_def Let_def)
next
  case False
  define s2 where "s2 s1 = report_to_adapter env probe (snd_nxt (se_snd_seq s)) n
    (lt32 (snd_nxt (se_snd_seq s)) (snd_max (se_snd_seq s))) (options_overhead s) s1" for s1
  obtain s1 where s1: "transmit_packet env
      (tx_plain\<lparr>rq_ack := True, rq_psh := (n = remaining_data_len s), rq_data := tx_slice s n\<rparr>) s = Inr s1"
    and s': "s' = (if n < mss_for_data s then (s2 s1)\<lparr>se_snd_seq := (se_snd_seq (s2 s1))\<lparr>snd_sml := snd_nxt (se_snd_seq (s2 s1))\<rparr>\<rparr>
      else s2 s1)"
    using assms False by (auto simp: send_planned_def Let_def bind_res_Inr s2_def)
  obtain ad where ad: "s2 s1 = s1\<lparr>se_plpmtud_adapter := ad\<rparr>" unfolding s2_def by (metis report_frame)
  obtain seg where "sent_data (tx_slice s n) s s1 seg" by (rule transmit_plain_data [OF s1])
  then have "sent_data (tx_slice s n) s s' seg" by (simp add: s' ad sent_data_def)
  then show ?thesis using False by blast
qed

lemma persist_turn_spec:
  assumes "persist_turn env s = Inr s'"
  shows "(se_effects s' = se_effects s \<and> se_tx s' = se_tx s \<and> se_snd_seq s' = se_snd_seq s \<and> se_state s' = se_state s \<and>
      cc_recovery_point (se_cc s') = cc_recovery_point (se_cc s)) \<or>
    (cc_snd_ewn (se_cc s) = 0 \<and> session_timer_expired env ''persist'' s \<and> (\<exists>seg. sent_data (tx_slice s 1) s s' seg))"
proof (cases "cc_snd_ewn (se_cc s) = 0 \<and> ps_active (se_persist s) \<and> session_timer_expired env ''persist'' s")
  case False
  then show ?thesis using assms by (auto simp: persist_turn_def arm_timer_def split: if_splits)
next
  case True
  then obtain s1 where s1: "transmit_packet env (tx_plain\<lparr>rq_ack := True, rq_data := tx_slice s 1\<rparr>) s = Inr s1"
    and s': "s' = arm_timer env ''persist'' (min (ps_timeout (se_persist s1) * 2) (env_persist_max_ms env))
        (s1\<lparr>se_snd_seq := (se_snd_seq s1)\<lparr>snd_sml := snd_nxt (se_snd_seq s1)\<rparr>,
            se_persist := (se_persist s1)\<lparr>ps_timeout := min (ps_timeout (se_persist s1) * 2) (env_persist_max_ms env)\<rparr>\<rparr>)"
    using assms by (auto simp: persist_turn_def bind_res_Inr Let_def)
  have "tx_plain\<lparr>rq_ack := True, rq_data := tx_slice s 1\<rparr> = tx_plain\<lparr>rq_ack := True, rq_psh := False, rq_data := tx_slice s 1\<rparr>"
    by (simp add: tx_plain_def)
  then obtain seg where "sent_data (tx_slice s 1) s s1 seg" using transmit_plain_data s1 by metis
  then have "sent_data (tx_slice s 1) s s' seg" by (simp add: s' arm_timer_def sent_data_def)
  then show ?thesis using True by blast
qed

text \<open>One turn in a data state, in terms of the session \<open>s1\<close> after skipping what the peer has.\<close>

definition quiet :: "tcp_session \<Rightarrow> tcp_session \<Rightarrow> bool" where
  "quiet s s' \<longleftrightarrow> se_effects s' = se_effects s \<and> se_tx s' = se_tx s \<and> se_snd_seq s' = se_snd_seq s \<and>
     se_state s' = se_state s \<and> cc_recovery_point (se_cc s') = cc_recovery_point (se_cc s)"

lemma data_turn:
  assumes "transmit_data env s = Inr s'" "se_state s \<in> {ESTABLISHED, CLOSE_WAIT}"
  defines "s1 \<equiv> advance_snd_nxt_past_sacked s"
  shows "quiet s s' \<or> quiet s1 s' \<or> (\<exists>k seg. sent_data (tx_slice s1 k) s1 s' seg \<and>
     (if cc_snd_ewn (se_cc s) = 0 then k = 1 \<and> session_timer_expired env ''persist'' s
      else 0 < k \<and> k \<le> usable_window s1 \<and> k \<le> remaining_data_len s1 \<and>
        (k < mss_for_data s \<and> \<not> lt32 (snd_nxt (se_snd_seq s1)) (snd_max (se_snd_seq s)) \<and> \<not> se_tcp_nodelay s \<longrightarrow>
         \<not> gt32 (snd_sml (se_snd_seq s)) (snd_una (se_snd_seq s)))))"
proof -
  obtain x where x: "s1 = s\<lparr>se_snd_seq := (se_snd_seq s)\<lparr>snd_nxt := x\<rparr>\<rparr>" using advance_frame unfolding s1_def by blast
  obtain s2 probe n where pl: "plan_segment env s1 = (s2, probe, n)" by (metis prod_cases3)
  obtain ad where s2: "s2 = s1\<lparr>se_plpmtud_adapter := ad\<rparr>" using plan_segment_spec(1) [OF pl] by blast
  note n = plan_segment_spec(2,3) [OF pl]
  have eq: "tx_slice s2 k = tx_slice s1 k" "mss_for_data s2 = mss_for_data s" for k
    by (auto simp: s2 x tx_slice_def tx_buffer_nxt_def mss_for_data_def options_overhead_def)
  have sent: "sent_data d s2 s' seg \<longleftrightarrow> sent_data d s1 s' seg" for d seg by (simp add: s2 sent_data_def)
  consider "quiet s s'" | "quiet s1 s'" | "n > 0" "send_planned env probe n s2 = Inr s'" | "n \<le> 0" "persist_turn env s2 = Inr s'"
    using assms(1,2) pl s2 unfolding transmit_data_def Let_def s1_def [symmetric]
    by (auto simp: quiet_def split: if_splits)
  then show ?thesis
  proof cases
    case 3
    then have e: "0 < cc_snd_ewn (se_cc s)"
      using n(1) by (simp add: usable_window_def tx_buffer_nxt_fwd x) (smt (verit) fwd_nonneg)
    have f: "se_snd_seq s2 = se_snd_seq s1" "snd_sml (se_snd_seq s1) = snd_sml (se_snd_seq s)"
      "snd_una (se_snd_seq s1) = snd_una (se_snd_seq s)" "snd_max (se_snd_seq s1) = snd_max (se_snd_seq s)"
      "se_tcp_nodelay s2 = se_tcp_nodelay s" by (simp_all add: s2 x)
    have "quiet s1 s2" by (simp add: s2 quiet_def)
    with send_planned_spec [OF 3(2)] show ?thesis
    proof (elim disjE exE conjE)
      fix seg
      assume "sent_data (tx_slice s2 n) s2 s' seg" and "n < mss_for_data s2 \<and>
        \<not> lt32 (snd_nxt (se_snd_seq s2)) (snd_max (se_snd_seq s2)) \<and> \<not> se_tcp_nodelay s2 \<longrightarrow>
        \<not> gt32 (snd_sml (se_snd_seq s2)) (snd_una (se_snd_seq s2))"
      then show ?thesis using 3(1) n e unfolding eq f sent
        by (intro disjI2 exI [of _ n] exI [of _ seg] conjI) simp_all
    qed simp
  next
    case 4
    have f: "cc_snd_ewn (se_cc s2) = cc_snd_ewn (se_cc s)" "session_timer_expired env n' s2 = session_timer_expired env n' s" for n'
      by (simp_all add: s2 x session_timer_expired_def)
    from persist_turn_spec [OF 4(2)] show ?thesis
    proof
      assume "se_effects s' = se_effects s2 \<and> se_tx s' = se_tx s2 \<and> se_snd_seq s' = se_snd_seq s2 \<and> se_state s' = se_state s2 \<and>
        cc_recovery_point (se_cc s') = cc_recovery_point (se_cc s2)"
      then have "quiet s1 s'" by (simp add: quiet_def s2)
      then show ?thesis by blast
    next
      assume "cc_snd_ewn (se_cc s2) = 0 \<and> session_timer_expired env ''persist'' s2 \<and> (\<exists>seg. sent_data (tx_slice s2 1) s2 s' seg)"
      then show ?thesis unfolding f eq sent by (intro disjI2 exI [of _ 1]) simp
    qed
  qed blast+
qed

text \<open>Segments that follow each other without gap or overlap, from \<open>q\<close> to \<open>q'\<close>.\<close>

fun consecutive :: "seq32 \<Rightarrow> tcp_segment list \<Rightarrow> seq32 \<Rightarrow> bool" where
  "consecutive q [] q' \<longleftrightarrow> q' = q"
| "consecutive q (seg # segs) q' \<longleftrightarrow> sg_seq seg = q \<and> consecutive (q + of_nat (length (sg_payload seg))) segs q'"

lemma quiet_turn_pump:
  "quiet s s' \<Longrightarrow> \<exists>segs. se_effects s' = se_effects s @ map Send_Segment segs \<and>
     consecutive (snd_nxt (se_snd_seq s)) segs (snd_nxt (se_snd_seq s')) \<and>
     prefix (concat (map sg_payload segs)) (drop (nat (tx_buffer_nxt s)) (tx_buffer (se_tx s)))"
  by (rule exI [of _ "[]"]) (simp add: quiet_def)

lemma sent_nxt:
  assumes "sent_data (tx_slice s k) s s' seg" "int (length (tx_buffer (se_tx s))) < 4294967296"
  shows "nat (tx_buffer_nxt s') = nat (tx_buffer_nxt s) + length (tx_slice s k) \<or> tx_slice s k = [] \<and> tx_buffer_nxt s' = tx_buffer_nxt s"
proof (cases "tx_slice s k = []")
  case True
  then show ?thesis using assms(1) by (simp add: sent_data_def tx_buffer_nxt_def)
next
  case False
  let ?m = "tx_seq_mod (se_tx s)" and ?x = "snd_nxt (se_snd_seq s)" and ?l = "length (tx_slice s k)"
  have "?l \<le> length (tx_buffer (se_tx s)) - nat (fwd ?m ?x)" "0 < ?l"
    using False by (simp_all add: tx_slice_def tx_buffer_nxt_fwd)
  then have "nat (fwd ?m ?x) + ?l \<le> length (tx_buffer (se_tx s))" by linarith
  then have "fwd ?m (?x + of_nat ?l) = fwd ?m ?x + int ?l"
    using fwd_add [of ?m ?x "int ?l"] assms(2) fwd_nonneg [of ?m ?x] by simp
  then show ?thesis using assms(1) by (simp add: sent_data_def tx_buffer_nxt_fwd nat_add_distrib)
qed

lemma pump_stream:
  assumes "pump_loop env k s = Inr s'" "se_state s \<in> {ESTABLISHED, CLOSE_WAIT}" "cc_recovery_point (se_cc s) = 0"
    "int (length (tx_buffer (se_tx s))) < 4294967296"
  shows "\<exists>segs. se_effects s' = se_effects s @ map Send_Segment segs \<and>
     consecutive (snd_nxt (se_snd_seq s)) segs (snd_nxt (se_snd_seq s')) \<and>
     prefix (concat (map sg_payload segs)) (drop (nat (tx_buffer_nxt s)) (tx_buffer (se_tx s)))"
  using assms
proof (induction k arbitrary: s)
  case (Suc k)
  obtain s1 where s1: "transmit_data env s = Inr s1" and rest: "snd_nxt (se_snd_seq s1) = snd_nxt (se_snd_seq s) \<and> s' = s1 \<or>
      pump_loop env k s1 = Inr s'"
    using Suc.prems(1) by (auto simp: bind_res_Inr split: if_splits)
  have adv: "advance_snd_nxt_past_sacked s = s" using Suc.prems(3) by (simp add: advance_snd_nxt_past_sacked_def)
  consider "quiet s s1" | j seg where "sent_data (tx_slice s j) s s1 seg"
    using data_turn [OF s1 Suc.prems(2)] unfolding adv by blast
  then show ?case
  proof cases
    case 1
    show ?thesis using rest
    proof
      assume "pump_loop env k s1 = Inr s'"
      from Suc.IH [OF this] show ?thesis using 1 Suc.prems by (simp add: quiet_def tx_buffer_nxt_def)
    qed (use quiet_turn_pump [OF 1] in simp)
  next
    case 2
    let ?d = "tx_slice s j" and ?buf = "tx_buffer (se_tx s)" and ?n = "nat (tx_buffer_nxt s)"
    have d: "?d = take (length ?d) (drop ?n ?buf)" by (simp add: tx_slice_def min_def)
    have eff: "se_effects s1 = se_effects s @ [Send_Segment seg]" "sg_payload seg = ?d" "sg_seq seg = snd_nxt (se_snd_seq s)"
      "snd_nxt (se_snd_seq s1) = snd_nxt (se_snd_seq s) + of_nat (length ?d)" "se_tx s1 = se_tx s"
      "se_state s1 = se_state s" "cc_recovery_point (se_cc s1) = cc_recovery_point (se_cc s)"
      using 2 by (simp_all add: sent_data_def)
    show ?thesis using rest
    proof
      assume "pump_loop env k s1 = Inr s'"
      from Suc.IH [OF this] obtain segs where segs: "se_effects s' = se_effects s1 @ map Send_Segment segs"
        "consecutive (snd_nxt (se_snd_seq s1)) segs (snd_nxt (se_snd_seq s'))"
        "prefix (concat (map sg_payload segs)) (drop (nat (tx_buffer_nxt s1)) ?buf)"
        using Suc.prems eff by auto
      have "nat (tx_buffer_nxt s1) = ?n + length ?d" using sent_nxt [OF 2 Suc.prems(4)] by auto
      moreover have "drop ?n ?buf = ?d @ drop (?n + length ?d) ?buf"
        using append_take_drop_id [of "length ?d" "drop ?n ?buf"] d by (simp add: add.commute)
      ultimately have "prefix (concat (map sg_payload (seg # segs))) (drop ?n ?buf)" using segs(3) eff(2) by simp
      then show ?thesis using segs(1,2) eff by (intro exI [of _ "seg # segs"]) simp
    next
      assume "snd_nxt (se_snd_seq s1) = snd_nxt (se_snd_seq s) \<and> s' = s1"
      moreover have "prefix ?d (drop ?n ?buf)" by (subst d) (rule take_is_prefix)
      ultimately show ?thesis using eff by (intro exI [of _ "[seg]"]) simp
    qed
  qed
qed (use quiet_turn_pump in \<open>auto simp: quiet_def\<close>)

section \<open>The assertions hold\<close>

text \<open>
  The outbound path can only raise through the assertions of \<^verbatim>\<open>initial_window\<close> and
  \<^verbatim>\<open>tlp_calc_pto\<close>; a positive MSS and a non-negative ACK delay rule that out.
\<close>

definition tx_ready :: "tcp_session \<Rightarrow> bool" where
  "tx_ready s \<longleftrightarrow> 0 < win_snd_mss (se_win s) \<and> 0 \<le> tlp_max_ack_delay_ms (se_rack_tlp s)"

lemma transmit_packet_returns:
  assumes "tx_ready s"
  obtains s' where "transmit_packet env rq s = Inr s'" "tx_ready s'"
proof -
  define seq where "seq = (case rq_seq rq of Some q \<Rightarrow> q | None \<Rightarrow> snd_nxt (se_snd_seq s))"
  define ack where "ack = (if rq_ack rq then rcv_nxt (se_rcv_seq s) else 0)"
  have "\<exists>s1. restart_after_idle env rq s = Inr s1"
    using assms by (simp add: restart_after_idle_def initial_window_def tx_ready_def Let_def)
  then obtain s0 where s0: "phase0_pre_send_hygiene env seq rq s = Inr s0"
    by (auto simp: phase0_pre_send_hygiene_def)
  obtain s1 seg where s1: "compose_segment env seq ack rq s0 = (s1, seg)" by fastforce
  define s2 where "s2 = phase4_advance_send_state env seq rq (s1\<lparr>se_effects := se_effects s1 @ [Send_Segment seg]\<rparr>)"
  define s3 where "s3 = arm_send_timers env rq s2"
  have "se_win s0 = se_win s \<and> se_rack_tlp s0 = se_rack_tlp s" by (rule phase0_frame [OF s0]) simp
  moreover have "se_win s1 = se_win s0 \<and> se_rack_tlp s1 = se_rack_tlp s0" by (rule compose_frame [OF s1]) simp
  moreover have "se_win s2 = se_win s1 \<and> tlp_max_ack_delay_ms (se_rack_tlp s2) = tlp_max_ack_delay_ms (se_rack_tlp s1)"
    unfolding s2_def by (rule phase4_frame [of env seq rq "s1\<lparr>se_effects := se_effects s1 @ [Send_Segment seg]\<rparr>"]) simp
  moreover have "se_win s3 = se_win s2 \<and> se_rack_tlp s3 = se_rack_tlp s2"
    unfolding s3_def by (rule arm_send_timers_frame [of env rq s2]) simp
  ultimately have ready: "tx_ready s3" using assms by (simp add: tx_ready_def)
  have "\<exists>pto. tlp_calc_pto srtt (uint (x :: 32 word)) (win_snd_mss (se_win s3)) (tlp_max_ack_delay_ms (se_rack_tlp s3)) d now = Inr pto"
    for srtt x d now
    using ready by (cases d) (simp_all add: tlp_calc_pto_def tx_ready_def Let_def)
  then obtain pto where "tlp_calc_pto (srtt_ms (se_rto_state s3)) (uint (snd_max (se_snd_seq s3) - snd_una (se_snd_seq s3)))
      (win_snd_mss (se_win s3)) (tlp_max_ack_delay_ms (se_rack_tlp s3)) (timer_deadline ''retransmit'' (se_timers s3))
      (env_now_ms env) = Inr pto" by blast
  then have "\<exists>s'. arm_tlp env rq s3 = Inr s'" by (simp add: arm_tlp_def)
  then obtain s' where s': "arm_tlp env rq s3 = Inr s'" ..
  have t: "transmit_packet env rq s = Inr s'"
    using s' by (simp add: transmit_packet_def phase5_post_send_timers_def Let_def s0 s1 s2_def s3_def flip: seq_def ack_def)
  then have "se_win s' = se_win s \<and> tlp_max_ack_delay_ms (se_rack_tlp s') = tlp_max_ack_delay_ms (se_rack_tlp s)"
    by (rule transmit_packet_frame) simp
  then have "tx_ready s'" using assms by (simp add: tx_ready_def)
  with t show ?thesis by (rule that)
qed

lemma report_ready: "tx_ready x \<Longrightarrow> tx_ready (report_to_adapter env p q k b ov x)"
  by (subst report_frame) (simp add: tx_ready_def)

lemma send_planned_returns:
  assumes "tx_ready s"
  shows "\<exists>s'. send_planned env probe n s = Inr s' \<and> tx_ready s'"
proof -
  obtain s1 where s1: "transmit_packet env
      (tx_plain\<lparr>rq_ack := True, rq_psh := (n = remaining_data_len s), rq_data := tx_slice s n\<rparr>) s = Inr s1" "tx_ready s1"
    by (rule transmit_packet_returns [OF assms])
  have "tx_ready (x\<lparr>se_snd_seq := y\<rparr>)" if "tx_ready x" for x y using that by (simp add: tx_ready_def)
  then show ?thesis using assms report_ready [OF s1(2)] by (simp add: send_planned_def Let_def s1(1))
qed

lemma persist_turn_returns:
  assumes "tx_ready s"
  shows "\<exists>s'. persist_turn env s = Inr s' \<and> tx_ready s'"
proof -
  obtain s1 where s1: "transmit_packet env (tx_plain\<lparr>rq_ack := True, rq_data := tx_slice s 1\<rparr>) s = Inr s1" "tx_ready s1"
    by (rule transmit_packet_returns [OF assms])
  show ?thesis using assms s1(2) by (simp add: persist_turn_def Let_def s1(1) arm_timer_def tx_ready_def)
qed

lemma transmit_data_returns:
  assumes "tx_ready s"
  obtains s' where "transmit_data env s = Inr s'" "tx_ready s'"
proof -
  have plain: "\<exists>s'. transmit_packet env rq s = Inr s' \<and> tx_ready s'" for rq
    using transmit_packet_returns [OF assms] by metis
  obtain s2 probe n where pl: "plan_segment env (advance_snd_nxt_past_sacked s) = (s2, probe, n)" by (metis prod_cases3)
  have "tx_ready (advance_snd_nxt_past_sacked s)"
    using assms by (simp add: tx_ready_def advance_snd_nxt_past_sacked_def Let_def)
  then have s2: "tx_ready s2" by (subst plan_segment_spec(1) [OF pl]) (simp add: tx_ready_def)
  have "\<exists>s'. transmit_data env s = Inr s' \<and> tx_ready s'"
    using assms s2 plain send_planned_returns [OF s2, of env probe n] persist_turn_returns [OF s2, of env]
    by (simp add: transmit_data_def Let_def pl)
  then show ?thesis using that by blast
qed

lemma pump_loop_returns:
  "tx_ready s \<Longrightarrow> \<exists>s'. pump_loop env k s = Inr s' \<and> tx_ready s'"
proof (induction k arbitrary: s)
  case (Suc k)
  obtain s1 where "transmit_data env s = Inr s1" "tx_ready s1" by (rule transmit_data_returns [OF Suc.prems])
  then show ?case using Suc.IH [of s1] by simp
qed simp

section \<open>Challenge ACKs\<close>

lemma arm_timer_deadline:
  "timer_deadline n (se_timers (arm_timer env m delay s)) =
     (if n = m then Some (env_now_ms env + delay) else timer_deadline n (se_timers s))"
  by (simp add: arm_timer_def deadline_laws)

lemma send_timers_deadline:
  assumes "n \<notin> {''keepalive'', ''delayed_ack'', ''retransmit''}"
  shows "timer_deadline n (se_timers (arm_send_timers env rq s)) = timer_deadline n (se_timers s)"
  using assms by (simp add: arm_send_timers_def keepalive_arm_idle_def arm_timer_deadline Let_def)

text \<open>The timers a transmission may touch.\<close>

lemma transmit_packet_deadline:
  assumes "transmit_packet env rq s = Inr s'" "n \<notin> {''keepalive'', ''delayed_ack'', ''retransmit'', ''tlp''}"
  shows "timer_deadline n (se_timers s') = timer_deadline n (se_timers s)"
proof -
  define seq ack where "seq = (case rq_seq rq of Some q \<Rightarrow> q | None \<Rightarrow> snd_nxt (se_snd_seq s))"
    and "ack = (if rq_ack rq then rcv_nxt (se_rcv_seq s) else 0)"
  obtain s0 where s0: "phase0_pre_send_hygiene env seq rq s = Inr s0"
    using assms by (auto simp: transmit_packet_def Let_def bind_res_Inr simp flip: seq_def)
  obtain s1 seg where s1: "compose_segment env seq ack rq s0 = (s1, seg)" by fastforce
  define s2 where "s2 = phase4_advance_send_state env seq rq (s1\<lparr>se_effects := se_effects s1 @ [Send_Segment seg]\<rparr>)"
  have s': "arm_tlp env rq (arm_send_timers env rq s2) = Inr s'"
    using assms by (simp add: transmit_packet_def phase5_post_send_timers_def Let_def s0 s1 s2_def flip: seq_def ack_def)
  have "se_timers s0 = se_timers s" by (rule phase0_frame [OF s0]) simp
  moreover have "se_timers s1 = se_timers s0" by (rule compose_frame [OF s1]) simp
  moreover have "se_timers s2 = se_timers s1" by (simp add: s2_def phase4_advance_send_state_def Let_def)
  moreover have "timer_deadline n (se_timers s') = timer_deadline n (se_timers (arm_send_timers env rq s2))"
    using s' assms(2) by (auto simp: arm_tlp_def bind_res_Inr arm_timer_deadline split: if_splits)
  ultimately show ?thesis using assms(2) send_timers_deadline [of n env rq s2] by simp
qed

lemma challenge_silent: "session_timer_armed env ''challenge_ack'' s \<Longrightarrow> emit_challenge_ack env s = Inr s"
  by (simp add: emit_challenge_ack_def)

lemma challenge_sends:
  assumes "emit_challenge_ack env s = Inr s'" "\<not> session_timer_armed env ''challenge_ack'' s"
  obtains seg where "se_effects s' = se_effects s @ [Send_Segment seg]" "sg_payload seg = []" "sg_ack_flag seg"
    "sg_ack seg = rcv_nxt (se_rcv_seq s)" "sg_seq seg = snd_nxt (se_snd_seq s)" "\<not> sg_syn seg" "\<not> sg_fin seg" "\<not> sg_rst seg"
    "timer_deadline ''challenge_ack'' (se_timers s') = Some (env_now_ms env + env_challenge_ack_ms env)"
proof -
  obtain s1 where s1: "transmit_packet env (tx_plain\<lparr>rq_ack := True\<rparr>) s = Inr s1"
    "s' = arm_timer env ''challenge_ack'' (env_challenge_ack_ms env) s1"
    using assms by (auto simp: emit_challenge_ack_def bind_res_Inr)
  have e: "se_effects s' = se_effects s1" by (simp add: s1 arm_timer_def)
  show ?thesis
    by (rule transmit_packet_frame [OF s1(1)])
      (rule that, simp_all add: e tx_plain_def, simp add: s1 arm_timer_deadline)
qed

text \<open>A run of requests at given times; its result lists the times at which an ACK left.\<close>

fun challenge_run :: "tcp_env \<Rightarrow> int list \<Rightarrow> tcp_session \<Rightarrow> int list res" where
  "challenge_run env [] s = Inr []"
| "challenge_run env (t # ts) s =
     bind_res (emit_challenge_ack (env\<lparr>env_now_ms := t\<rparr>) s) (\<lambda>s1.
       bind_res (challenge_run env ts s1) (\<lambda>rest.
         Inr (if se_effects s1 = se_effects s then rest else t # rest)))"

lemma challenge_run_step:
  assumes "challenge_run env (t # ts) s = Inr out"
  obtains (silent) "challenge_run env ts s = Inr out" "session_timer_armed (env\<lparr>env_now_ms := t\<rparr>) ''challenge_ack'' s"
  | (sent) s1 rest where "challenge_run env ts s1 = Inr rest" "out = t # rest"
      "\<not> session_timer_armed (env\<lparr>env_now_ms := t\<rparr>) ''challenge_ack'' s"
      "timer_deadline ''challenge_ack'' (se_timers s1) = Some (t + env_challenge_ack_ms env)"
proof (cases "session_timer_armed (env\<lparr>env_now_ms := t\<rparr>) ''challenge_ack'' s")
  case True
  then show ?thesis using assms silent by (simp add: challenge_silent bind_res_Inr)
next
  case False
  obtain s1 rest where s1: "emit_challenge_ack (env\<lparr>env_now_ms := t\<rparr>) s = Inr s1" "challenge_run env ts s1 = Inr rest"
    "out = (if se_effects s1 = se_effects s then rest else t # rest)"
    using assms by (auto simp: bind_res_Inr)
  obtain seg where "se_effects s1 = se_effects s @ [Send_Segment seg]"
    "timer_deadline ''challenge_ack'' (se_timers s1) = Some (t + env_challenge_ack_ms env)"
    using challenge_sends [OF s1(1) False] by auto
  then show ?thesis using sent s1 False by simp
qed

lemma challenge_run_after:
  "challenge_run env ts s = Inr out \<Longrightarrow> timer_deadline ''challenge_ack'' (se_timers s) = Some d \<Longrightarrow>
     0 \<le> env_challenge_ack_ms env \<Longrightarrow> u \<in> set out \<Longrightarrow> d \<le> u"
proof (induction ts arbitrary: s d out)
  case (Cons t ts)
  from Cons.prems(1) show ?case
  proof (cases rule: challenge_run_step)
    case (sent s1 rest)
    then have "d \<le> t" using Cons.prems(2) by (simp add: session_timer_armed_def armed_expired)
    then show ?thesis using Cons.IH [OF sent(1,4)] Cons.prems(3,4) sent(2) by auto
  qed (use Cons in auto)
qed simp

section \<open>A concrete session\<close>

text \<open>
  An established session over a 1500-byte link whose sequence numbers are about to wrap, with
  two segments' worth of data to send.
\<close>

definition sample_env :: tcp_env where
  "sample_env = \<lparr>env_now_ms = 5000, env_now = 5, env_iss = 0xFFFFFFFE, env_interface_mtu = 1500, env_base_mss = 1024,
     env_snd_mss_max = 0, env_mtu_probing = 0, env_probe_timer_ms = 30000, env_rcv_wnd_max = 65535,
     env_rto_initial_ms = 1000, env_delayed_ack_ms = 100, env_persist_max_ms = 60000, env_challenge_ack_ms = 1000,
     env_keepalive_idle_ms = 7200000, env_keepalive_interval_ms = 75000, env_keepalive_max_count = 9,
     env_ts_outdated_ms = 2073600000, env_fastopen_cookie = None, env_fastopen_negative = False,
     env_rto_min_ms = 1000, env_cube_root = (\<lambda>x. x), env_retransmit_max_count = 6, env_ooo_queue_max_len = 64,
     env_time_wait_ms = 30000, env_fin_wait_2_ms = 60000, env_syn_backlog_max = 128,
     env_socket_closed = False, env_socket_has_parent = False,
     env_listener = \<lparr>li_accept_len = 0, li_backlog = 5, li_embryonic = 0, li_so_keepalive = False, li_keepidle = None,
       li_keepintvl = None, li_keepcnt = None, li_cc_mode = CUBIC, li_nodelay = False, li_fastopen_qlen = 0,
       li_fastopen_pending = 0, li_fastopen_cookie = []\<rparr>\<rparr>"

definition sample_session :: tcp_session where
  "sample_session = (let s = session_init sample_env False in
     s\<lparr>se_state := ESTABLISHED, se_tx := (se_tx s)\<lparr>tx_buffer := replicate 1000 7\<rparr>\<rparr>)"

lemma sample_ready: "tx_ready sample_session"
  by (simp add: sample_session_def session_init_def tx_ready_def rack_tlp_init_def rack_consts sample_env_def window_init_def)

lemmas sample_defs = sample_session_def session_init_def sample_env_def window_init_def cc_init_def timer_init_def
  rack_tlp_init_def

section \<open>Properties\<close>

text \<open>
  Challenge ACKs are rate limited (RFC 5961). Whatever the times of the requests and the
  state of the session, any two challenge ACKs that leave are at least the configured
  interval apart, and the first request of a session that has sent none is answered.
\<close>

theorem challenge_acks_spaced:
  assumes "challenge_run env ts s = Inr out" "0 \<le> env_challenge_ack_ms env"
  shows "sorted_wrt (\<lambda>t u. t + env_challenge_ack_ms env \<le> u) out \<and>
    (timer_deadline ''challenge_ack'' (se_timers s) = None \<longrightarrow> ts \<noteq> [] \<longrightarrow> hd ts \<in> set out)"
proof
  show "sorted_wrt (\<lambda>t u. t + env_challenge_ack_ms env \<le> u) out" using assms
  proof (induction ts arbitrary: s out)
    case (Cons t ts)
    from Cons.prems(1) show ?case
    proof (cases rule: challenge_run_step)
      case (sent s1 rest)
      then show ?thesis using Cons.IH [OF sent(1)] challenge_run_after [OF sent(1,4)] Cons.prems(2) by simp
    qed (use Cons in auto)
  qed simp
  show "timer_deadline ''challenge_ack'' (se_timers s) = None \<longrightarrow> ts \<noteq> [] \<longrightarrow> hd ts \<in> set out"
  proof (cases ts)
    case (Cons t ts')
    from assms(1) show ?thesis unfolding Cons
      by (cases rule: challenge_run_step) (auto simp: session_timer_armed_def armed_expired)
  qed simp
qed

theorem challenge_acks_spaced_witness:
  "\<exists>out. challenge_run sample_env [5, 500, 1200] sample_session = Inr out \<and>
     sorted_wrt (\<lambda>t u. t + 1000 \<le> u) out \<and> 5 \<in> set out"
proof -
  have run: "challenge_run sample_env [5, 500, 1200] sample_session = Inr [5, 1200]" by code_simp
  have "env_challenge_ack_ms sample_env = 1000" by (simp add: sample_env_def)
  moreover have "timer_deadline ''challenge_ack'' (se_timers sample_session) = None"
    by (simp add: sample_defs timer_deadline_def)
  ultimately show ?thesis using run challenge_acks_spaced [OF run] by (intro exI [of _ "[5, 1200]"]) simp
qed

text \<open>
  C27. A turn of the send pump sends the stream, inside the window. In ESTABLISHED and
  CLOSE_WAIT a turn emits at most one segment. It acknowledges everything received, carries
  exactly the bytes of the send buffer that belong to its sequence number, and its last byte
  lies inside the usable window above SND.UNA; into a closed window only the persist timer
  lets a probe of one byte go. Unless Nagle's algorithm is switched off, a fresh segment of
  less than full size never follows an earlier such segment that is still unacknowledged.
\<close>

theorem transmit_data_sends_stream:
  assumes "transmit_data env s = Inr s'" "se_state s \<in> {ESTABLISHED, CLOSE_WAIT}"
    "tx_seq_mod (se_tx s) = snd_una (se_snd_seq s)" "int (length (tx_buffer (se_tx s))) < 4294967296"
  shows "se_tx s' = se_tx s \<and>
    (se_effects s' = se_effects s \<or> (\<exists>seg. se_effects s' = se_effects s @ [Send_Segment seg] \<and> stream_segment env s seg))"
proof -
  define s1 where "s1 = advance_snd_nxt_past_sacked s"
  obtain x where x: "s1 = s\<lparr>se_snd_seq := (se_snd_seq s)\<lparr>snd_nxt := x\<rparr>\<rparr>" using advance_frame unfolding s1_def by blast
  from data_turn [OF assms(1,2), folded s1_def] show ?thesis
  proof (elim disjE exE conjE)
    fix k seg
    assume sent: "sent_data (tx_slice s1 k) s1 s' seg" and w: "if cc_snd_ewn (se_cc s) = 0
      then k = 1 \<and> session_timer_expired env ''persist'' s
      else 0 < k \<and> k \<le> usable_window s1 \<and> k \<le> remaining_data_len s1 \<and>
        (k < mss_for_data s \<and> \<not> lt32 (snd_nxt (se_snd_seq s1)) (snd_max (se_snd_seq s)) \<and> \<not> se_tcp_nodelay s \<longrightarrow>
         \<not> gt32 (snd_sml (se_snd_seq s)) (snd_una (se_snd_seq s)))"
    have seg: "sg_payload seg = tx_slice s1 k" "sg_seq seg = x" using sent by (simp_all add: sent_data_def x)
    have bytes: "tx_byte (se_tx s) (x + of_nat i) = Some (tx_slice s1 k ! i)" if "i < length (tx_slice s1 k)" for i
      using tx_slice_bytes [OF that] assms(4) by (simp add: x)
    have len: "int (length (tx_slice s1 k)) = k" if "cc_snd_ewn (se_cc s) \<noteq> 0" using w that by (simp add: tx_slice_length)
    have "length (tx_slice s1 1) \<le> 1" by (simp add: tx_slice_def)
    moreover have "fwd (snd_una (se_snd_seq s)) x + k \<le> cc_snd_ewn (se_cc s)" if "cc_snd_ewn (se_cc s) \<noteq> 0"
      using w that assms(3) by (simp add: usable_window_def tx_buffer_nxt_fwd x)
    ultimately have "stream_segment env s seg"
      using sent w bytes len by (auto simp: stream_segment_def seg sent_data_def x)
    then show ?thesis using sent by (auto simp: sent_data_def x)
  qed (auto simp: quiet_def x)
qed

theorem transmit_data_sends_stream_witness:
  "\<exists>s' seg. transmit_data sample_env sample_session = Inr s' \<and> se_effects s' = [Send_Segment seg] \<and>
     length (sg_payload seg) = 536 \<and> stream_segment sample_env sample_session seg"
proof -
  obtain s' where s': "transmit_data sample_env sample_session = Inr s'" by (rule transmit_data_returns [OF sample_ready])
  have "map_sum id (\<lambda>s. map (\<lambda>e. case e of Send_Segment g \<Rightarrow> length (sg_payload g) | _ \<Rightarrow> 0) (se_effects s))
      (transmit_data sample_env sample_session) = Inr [536]" by code_simp
  then have eff: "map (\<lambda>e. case e of Send_Segment g \<Rightarrow> length (sg_payload g) | _ \<Rightarrow> 0) (se_effects s') = [536]"
    by (simp add: s')
  have "se_effects sample_session = []" by (simp add: sample_defs)
  then obtain seg where "se_effects s' = [Send_Segment seg]" "stream_segment sample_env sample_session seg"
    using transmit_data_sends_stream [OF s'] eff by (auto simp: sample_defs)
  then show ?thesis using s' eff by auto
qed

text \<open>
  C28. The pump sends the stream in order and without a gap. Outside loss recovery, one call of
  the pump in a data state emits segments whose sequence numbers follow each other exactly,
  from the old SND.NXT to the new one, and whose payloads together are the bytes of the send
  buffer that lie there. It always returns when no turn raises.
\<close>

theorem pump_sends_in_order:
  assumes "session_transmit_data env s = Inr s'" "se_state s \<in> {ESTABLISHED, CLOSE_WAIT}"
    "cc_recovery_point (se_cc s) = 0" "int (length (tx_buffer (se_tx s))) < 4294967296"
  shows "\<exists>segs. se_effects s' = se_effects s @ map Send_Segment segs \<and>
     consecutive (snd_nxt (se_snd_seq s)) segs (snd_nxt (se_snd_seq s')) \<and>
     prefix (concat (map sg_payload segs)) (drop (nat (tx_buffer_nxt s)) (tx_buffer (se_tx s)))"
  using pump_stream assms unfolding session_transmit_data_def by simp

theorem pump_sends_in_order_witness:
  "\<exists>s' segs. session_transmit_data sample_env (sample_session\<lparr>se_tcp_nodelay := True\<rparr>) = Inr s' \<and>
     se_effects s' = map Send_Segment segs \<and> consecutive 0xFFFFFFFE segs (snd_nxt (se_snd_seq s')) \<and>
     prefix (concat (map sg_payload segs)) (replicate 1000 7)"
proof -
  let ?s = "sample_session\<lparr>se_tcp_nodelay := True\<rparr>"
  have "tx_ready ?s" using sample_ready by (simp add: tx_ready_def)
  then obtain s' where s': "session_transmit_data sample_env ?s = Inr s'"
    using pump_loop_returns by (metis session_transmit_data_def)
  from pump_sends_in_order [OF this] s' show ?thesis by (auto simp: sample_defs tx_buffer_nxt_def)
qed

end
