(* ===== verification/Tcp_Validate.thy ===== *)
theory Tcp_Validate
  imports Tcp_Tx
begin

text \<open>
  \<^verbatim>\<open>session/tcp__session__validate.py\<close>: the checks an inbound segment passes before a state
  handler looks at it (RFC 9293 acceptability, RFC 7323 PAWS, RFC 5961 resets, RFC 5927 ICMP)
  and the re-initialisation of a session that TIME-WAIT reuse gives a second life.

  A check returns the session, since a refusal may send a challenge ACK or note a duplicate,
  and the verdict.
\<close>

section \<open>The checks\<close>

definition is_seq_in_window :: "seq32 \<Rightarrow> tcp_session \<Rightarrow> bool" where
  "is_seq_in_window seq s =
     (let una = snd_una (se_snd_seq s); nxt = snd_nxt (se_snd_seq s) in
      if nxt = 0 \<and> una = 0 then True
      else if uint una \<le> uint nxt then uint una \<le> uint seq \<and> uint seq \<le> uint nxt
      else uint seq \<ge> uint una \<or> uint seq \<le> uint nxt)"

definition seg_len :: "tcp_metadata \<Rightarrow> int" where
  "seg_len md = int (length (md_data md)) + of_bool (md_syn md) + of_bool (md_fin md)"

definition segment_acceptable :: "tcp_metadata \<Rightarrow> tcp_session \<Rightarrow> bool" where
  "segment_acceptable md s =
     (let nxt = rcv_nxt (se_rcv_seq s); seg_end = add32 (md_seq md) [seg_len md] in
      if seg_len md = 0
      then (if rcv_wnd s > 0 then in_range32 (md_seq md) nxt (add32 nxt [rcv_wnd s]) else md_seq md = nxt)
      else (if rcv_wnd s > 0 then lt32 (md_seq md) (add32 nxt [rcv_wnd s]) \<and> gt32 seg_end nxt else False))"

definition check_segment_acceptability :: "tcp_env \<Rightarrow> tcp_metadata \<Rightarrow> tcp_session \<Rightarrow> (tcp_session \<times> bool) res" where
  "check_segment_acceptability env md s =
     (let nxt = rcv_nxt (se_rcv_seq s); seg_end = add32 (md_seq md) [seg_len md] in
      if segment_acceptable md s then Inr (s, True)
      else if md_rst md then Inr (s, False)
      else
        (let s1 = (if adv_send_sack (se_advertise s) \<and> md_data md \<noteq> [] \<and> lt32 (md_seq md) nxt \<and> le32 seg_end nxt
                   then s\<lparr>se_pending_dsack := Some (md_seq md, seg_end)\<rparr> else s)
         in bind_res (emit_challenge_ack env s1) (\<lambda>s2. Inr (s2, False))))"

definition check_paws_and_update_ts_recent :: "tcp_env \<Rightarrow> tcp_metadata \<Rightarrow> tcp_session \<Rightarrow> (tcp_session \<times> bool) res" where
  "check_paws_and_update_ts_recent env md s =
     (if \<not> ts_send_ts (se_ts s) then Inr (s, True)
      else case md_tsval md of
        None \<Rightarrow> Inr (s, md_syn md)
      | Some tsval \<Rightarrow>
          (let gate_ok = md_syn md \<or> le32 (md_seq md) (rcv_nxt (se_rcv_seq s));
               refreshed = s\<lparr>se_ts := ts_update tsval (env_now_ms env) (se_ts s)\<rparr>
           in if lt32 tsval (ts_recent (se_ts s))
              then
                (if ts_recent_updated_at_ms (se_ts s) \<noteq> 0 \<and>
                    env_now_ms env - ts_recent_updated_at_ms (se_ts s) > env_ts_outdated_ms env
                 then Inr (refreshed, True)
                 else bind_res (emit_challenge_ack env s) (\<lambda>s1. Inr (s1, False)))
              else Inr (if gate_ok then refreshed else s, True)))"

definition check_rst_acceptability :: "tcp_env \<Rightarrow> tcp_metadata \<Rightarrow> tcp_session \<Rightarrow> (tcp_session \<times> bool) res" where
  "check_rst_acceptability env md s =
     (let seq = md_seq md; nxt = rcv_nxt (se_rcv_seq s);
          ack_acceptable = (\<not> md_ack_flag md \<or> in_range32 (md_ack md) (snd_una (se_snd_seq s)) (snd_max (se_snd_seq s)))
      in if seq = nxt \<and> ack_acceptable then Inr (s, True)
         else if lt32 nxt seq \<and> lt32 seq (add32 nxt [rcv_wnd s])
         then bind_res (emit_challenge_ack env s) (\<lambda>s1. Inr (s1, False))
         else Inr (s, False))"

section \<open>Reuse of a session in TIME-WAIT\<close>

definition TCP__MIN_MSS :: int where "TCP__MIN_MSS = 536"

definition reinit_for_rfc6191_reuse :: "tcp_env \<Rightarrow> tcp_metadata \<Rightarrow> tcp_session \<Rightarrow> tcp_session" where
  "reinit_for_rfc6191_reuse env md s =
     (let s1 = cancel_all_timers s;
          iss = env_iss env;
          snd_mss = max TCP__MIN_MSS (min (md_mss md) (mss_ceiling env (se_ip_tcp_overhead s1) (se_plpmtud_probing_enabled s1)));
          scale = adv_wscale (se_advertise s1) \<and> md_wscale md \<noteq> 0;
          irs = add32 (md_seq md) [of_bool (md_syn md), int (length (md_data md))];
          s2 = s1\<lparr>
            se_snd_seq := (se_snd_seq s1)\<lparr>snd_ini := iss, snd_una := iss, snd_nxt := iss, snd_max := iss, snd_sml := iss,
                            snd_fin := 0, snd_fin_sent := False\<rparr>,
            se_plpmtud_adapter := adapter_limit_max (md_mss md + se_ip_tcp_overhead s1) (se_plpmtud_adapter s1),
            se_win := (se_win s1)\<lparr>win_snd_mss := snd_mss, win_snd_wnd := md_win md, win_max_window := md_win md,
                        win_snd_wsc := (if scale then md_wscale md else 0),
                        win_rcv_wsc := (if scale then win_rcv_wsc (se_win s1) else 0)\<rparr>,
            se_advertise := (se_advertise s1)\<lparr>adv_send_sack := adv_sack (se_advertise s1) \<and> md_sackperm md\<rparr>,
            se_ts := (se_ts s1)\<lparr>ts_send_ts := adv_ts (se_advertise s1) \<and> md_tsval md \<noteq> None\<rparr>,
            se_cc := (se_cc s1)\<lparr>cc_cwnd := snd_mss, cc_ssthresh := 0x7FFFFFFF, cc_snd_ewn := min snd_mss (md_win md),
                       cc_recovery_point := 0, cc_recover_fs := 0, cc_prr_delivered := 0, cc_prr_out := 0\<rparr>,
            se_rcv_seq := \<lparr>rcv_ini = md_seq md, rcv_nxt = irs, rcv_una = irs\<rparr>,
            se_peer_contacted := True,
            se_rto_state := initial_state, se_retransmit_count := 0,
            se_rtt := rtt_clear ((se_rtt s1)\<lparr>rtt_last_send_time_ms := None\<rparr>),
            se_sack_scoreboard := [], se_pending_dsack := None, se_dsack_received := 0,
            se_ooo_packet_queue := [],
            se_tx := (se_tx s1)\<lparr>tx_buffer := [], tx_seq_mod := iss\<rparr>,
            se_rx_buffer := []\<rparr>
      in if md_data md \<noteq> [] then enqueue_rx_buffer (md_data md) s2 else s2)"

section \<open>The window test\<close>

lemma fwd_add32_self: "0 \<le> n \<Longrightarrow> n < 4294967296 \<Longrightarrow> fwd a (add32 a [n]) = n"
  using fwd_add [of a a n] by (simp add: add32_def)

lemma le32_not_lt32: "le32 a b \<longleftrightarrow> \<not> lt32 b a"
  unfolding le32_iff lt32_iff fwd_eq
  by (rule word32_cases [of a]; rule word32_cases [of b]; simp split: if_splits; linarith)

text \<open>Two modular half-open ranges intersect.\<close>

lemma mod32_carry:
  "0 \<le> x \<Longrightarrow> x < 8589934592 \<Longrightarrow> x mod 4294967296 = (if x < 4294967296 then x else x - 4294967296)" for x :: int
  using minus_mod_self2 [of x 4294967296] mod_pos_pos_trivial [of "x - 4294967296" 4294967296] by simp

lemma fwd_back: "fwd q n = (if fwd n q = 0 then 0 else 4294967296 - fwd n q)"
  unfolding fwd_eq by (rule word32_cases [of n]; rule word32_cases [of q]; simp split: if_splits; linarith)

lemma ranges_meet:
  assumes "0 < l" "0 < w" "l + w \<le> 2147483648"
  shows "lt32 q (add32 n [w]) \<and> gt32 (add32 q [l]) n \<longleftrightarrow> fwd n q < w \<or> fwd q n < l"
proof -
  let ?e = "add32 n [w]" and ?f = "add32 q [l]"
  define d where "d = fwd n q"
  have b: "0 \<le> d" "d < 4294967296" unfolding d_def by (rule fwd_bounds)+
  have nq: "fwd q n = (if d = 0 then 0 else 4294967296 - d)" unfolding d_def by (rule fwd_back)
  have e: "fwd q ?e = (fwd q n + w) mod 4294967296" using fwd_add [of q n w] by (simp add: add32_def)
  have f: "fwd n ?f = (d + l) mod 4294967296" using fwd_add [of n q l] by (simp add: add32_def d_def)
  have lt: "lt32 q ?e \<longleftrightarrow> (if fwd q ?e = 2147483648 then uint q < uint ?e else 0 < fwd q ?e \<and> fwd q ?e < 2147483648)"
    and gt: "gt32 ?f n \<longleftrightarrow> (if fwd n ?f = 2147483648 then uint n < uint ?f else 0 < fwd n ?f \<and> fwd n ?f < 2147483648)"
    by (simp_all add: lt32_iff gt32_def)
  have fe: "fwd q ?e = (if d = 0 then w else if d \<le> w then w - d else 4294967296 - d + w)"
    unfolding e nq using b assms by (simp add: mod32_carry)
  have ff: "fwd n ?f = (if d + l < 4294967296 then d + l else d + l - 4294967296)"
    unfolding f using b assms by (simp add: mod32_carry)
  consider "d < w" | "w \<le> d" "4294967296 - d < l" | "w \<le> d" "l \<le> 4294967296 - d" by linarith
  then show ?thesis
  proof cases
    case 1
    then show ?thesis using assms b unfolding lt gt fe ff d_def [symmetric] by auto
  next
    case 2
    then show ?thesis using assms b unfolding lt gt fe ff nq d_def [symmetric] by auto
  next
    case 3
    then have "\<not> (d - w \<ge> 2147483648 \<and> d + l \<le> 2147483648)" using assms by linarith
    then show ?thesis using 3 assms b unfolding lt gt fe ff nq d_def [symmetric] by auto
  qed
qed

lemma common_byte_iff:
  assumes "0 < l" "0 < w" "l + w \<le> 2147483648"
  shows "(\<exists>x. in_seq_range n (add32 n [w]) x \<and> in_seq_range q (add32 q [l]) x) \<longleftrightarrow> fwd n q < w \<or> fwd q n < l"
proof
  have len: "fwd n (add32 n [w]) = w" "fwd q (add32 q [l]) = l" using assms by (simp_all add: fwd_add32_self)
  show "\<exists>x. in_seq_range n (add32 n [w]) x \<and> in_seq_range q (add32 q [l]) x \<Longrightarrow> fwd n q < w \<or> fwd q n < l"
  proof (elim exE conjE)
    fix x assume "in_seq_range n (add32 n [w]) x" "in_seq_range q (add32 q [l]) x"
    then have x: "fwd n x < w" "fwd q x < l" by (simp_all add: in_seq_range_def len)
    show ?thesis
    proof (cases "fwd n q \<le> fwd n x")
      case False
      then have "fwd q x = fwd n x - fwd n q + 4294967296" by (intro fwd_rebase_back) simp
      then have "4294967296 - fwd n q < l" using x(2) fwd_bounds(1) [of n x] by linarith
      then have "fwd q n < l" using assms(1) by (simp add: fwd_back [of q n])
      then show ?thesis ..
    qed (use x in simp)
  qed
  show "fwd n q < w \<or> fwd q n < l \<Longrightarrow> \<exists>x. in_seq_range n (add32 n [w]) x \<and> in_seq_range q (add32 q [l]) x"
    using assms by (auto simp: in_seq_range_def len intro: exI [of _ q] exI [of _ n])
qed

text \<open>RFC 5927: outside the initial state the test is the modular interval from SND.UNA to SND.NXT.\<close>

lemma is_seq_in_window_iff:
  assumes "\<not> (snd_nxt (se_snd_seq s) = 0 \<and> snd_una (se_snd_seq s) = 0)"
  shows "is_seq_in_window q s \<longleftrightarrow> in_range32 q (snd_una (se_snd_seq s)) (snd_nxt (se_snd_seq s))"
proof -
  define u n where "u = snd_una (se_snd_seq s)" and "n = snd_nxt (se_snd_seq s)"
  have "is_seq_in_window q s \<longleftrightarrow> (if uint u \<le> uint n then uint u \<le> uint q \<and> uint q \<le> uint n else uint q \<ge> uint u \<or> uint q \<le> uint n)"
    using assms by (auto simp: is_seq_in_window_def Let_def u_def n_def)
  then show ?thesis unfolding u_def [symmetric] n_def [symmetric] in_range32_iff fwd_eq
    by (rule_tac word32_cases [of u]; rule_tac word32_cases [of n]; rule_tac word32_cases [of q]; simp split: if_splits; linarith)
qed

section \<open>What a refusal sends\<close>

text \<open>The answer to a refused segment: nothing inside the rate limit, otherwise one bare ACK.\<close>

definition answered :: "tcp_env \<Rightarrow> tcp_session \<Rightarrow> tcp_session \<Rightarrow> bool" where
  "answered env s s' \<longleftrightarrow>
     (if session_timer_armed env ''challenge_ack'' s then se_effects s' = se_effects s
      else \<exists>seg. se_effects s' = se_effects s @ [Send_Segment seg] \<and> sg_payload seg = [] \<and> sg_ack_flag seg \<and>
        sg_seq seg = snd_nxt (se_snd_seq s) \<and> sg_ack seg = rcv_nxt (se_rcv_seq s) \<and>
        \<not> sg_syn seg \<and> \<not> sg_fin seg \<and> \<not> sg_rst seg) \<and>
     se_rx_buffer s' = se_rx_buffer s \<and> rcv_nxt (se_rcv_seq s') = rcv_nxt (se_rcv_seq s) \<and> se_ts s' = se_ts s \<and>
     se_state s' = se_state s \<and> se_ooo_packet_queue s' = se_ooo_packet_queue s \<and>
     snd_una (se_snd_seq s') = snd_una (se_snd_seq s) \<and> se_tx s' = se_tx s"

lemma answered_dsack: "answered env (s\<lparr>se_pending_dsack := d\<rparr>) s' = answered env s s'"
  by (cases "timer_armed (env_now_ms env) ''challenge_ack'' (se_timers s)")
    (simp_all add: answered_def session_timer_armed_def)

lemma challenge_answered:
  assumes "emit_challenge_ack env s = Inr s'"
  shows "answered env s s'"
proof (cases "session_timer_armed env ''challenge_ack'' s")
  case True
  then show ?thesis using assms by (simp add: challenge_silent answered_def)
next
  case False
  obtain s1 where s1: "transmit_packet env (tx_plain\<lparr>rq_ack := True\<rparr>) s = Inr s1"
    "s' = arm_timer env ''challenge_ack'' (env_challenge_ack_ms env) s1"
    using assms False by (auto simp: emit_challenge_ack_def bind_res_Inr)
  have "se_rx_buffer s' = se_rx_buffer s \<and> rcv_nxt (se_rcv_seq s') = rcv_nxt (se_rcv_seq s) \<and> se_ts s' = se_ts s \<and>
     se_state s' = se_state s \<and> se_ooo_packet_queue s' = se_ooo_packet_queue s \<and>
     snd_una (se_snd_seq s') = snd_una (se_snd_seq s) \<and> se_tx s' = se_tx s"
    by (rule transmit_packet_frame [OF s1(1)])
      (simp add: s1(2) arm_timer_def tx_plain_def advanced_snd_def bump_max_to_nxt_def snd_advance_nxt_def Let_def)
  then show ?thesis using False challenge_sends [OF assms False] unfolding answered_def by auto
qed

text \<open>RFC 5961: a reset counts only at RCV.NXT; elsewhere in the window it is challenged, outside it is ignored.\<close>

lemma rst_verdict:
  assumes "check_rst_acceptability env md s = Inr (s', ok)"
  shows "ok \<Longrightarrow> md_seq md = rcv_nxt (se_rcv_seq s) \<and> s' = s"
    "\<not> ok \<Longrightarrow> s' = s \<or> lt32 (rcv_nxt (se_rcv_seq s)) (md_seq md) \<and> answered env s s'"
  using assms by (auto simp: check_rst_acceptability_def Let_def bind_res_Inr challenge_answered split: if_splits)

section \<open>Properties\<close>

text \<open>
  C29. The acceptability test of RFC 9293, and the answer to what it refuses. While segment and
  window together span at most half the sequence space: with a closed window only an empty
  segment exactly at RCV.NXT is accepted; with an open one an empty segment that is not exactly at the right
  edge is accepted exactly when it lies in the window, and a segment that occupies sequence numbers exactly when one of
  them lies in the window, wherever the numbers wrap. An accepted segment changes nothing, a
  refused reset neither; any other refused segment is answered by at most one bare ACK and
  touches neither the receive state nor SND.UNA. Nothing is said here of an empty segment at the right edge.
\<close>

theorem segment_acceptability_exact:
  assumes "check_segment_acceptability env md s = Inr (s', ok)" "seg_len md + rcv_wnd s \<le> 2147483648"
    and "\<not> (seg_len md = 0 \<and> 0 < rcv_wnd s \<and> md_seq md = add32 (rcv_nxt (se_rcv_seq s)) [rcv_wnd s])"
  shows "(ok \<longleftrightarrow> (if rcv_wnd s = 0 then seg_len md = 0 \<and> md_seq md = rcv_nxt (se_rcv_seq s)
      else if seg_len md = 0 then fwd (rcv_nxt (se_rcv_seq s)) (md_seq md) < rcv_wnd s
      else \<exists>x. in_seq_range (rcv_nxt (se_rcv_seq s)) (add32 (rcv_nxt (se_rcv_seq s)) [rcv_wnd s]) x \<and>
             in_seq_range (md_seq md) (add32 (md_seq md) [seg_len md]) x)) \<and>
    (ok \<or> md_rst md \<longrightarrow> s' = s) \<and> (\<not> ok \<and> \<not> md_rst md \<longrightarrow> answered env s s')"
proof -
  have nn: "0 \<le> rcv_wnd s" "0 \<le> seg_len md" by (simp_all add: rcv_wnd_def seg_len_def)
  have "fwd (rcv_nxt (se_rcv_seq s)) (add32 (rcv_nxt (se_rcv_seq s)) [rcv_wnd s]) = rcv_wnd s"
    using nn assms(2) by (intro fwd_add32_self) auto
  then have edge: "seg_len md = 0 \<Longrightarrow> 0 < rcv_wnd s \<Longrightarrow> fwd (rcv_nxt (se_rcv_seq s)) (md_seq md) \<noteq> rcv_wnd s"
    using assms(3) fwd_inject by metis
  have ok: "ok \<longleftrightarrow> segment_acceptable md s" and s': "ok \<or> md_rst md \<Longrightarrow> s' = s"
    using assms(1) by (auto simp: check_segment_acceptability_def Let_def bind_res_Inr split: if_splits)
  have "segment_acceptable md s \<longleftrightarrow> (if rcv_wnd s = 0 then seg_len md = 0 \<and> md_seq md = rcv_nxt (se_rcv_seq s)
      else if seg_len md = 0 then fwd (rcv_nxt (se_rcv_seq s)) (md_seq md) < rcv_wnd s
      else \<exists>x. in_seq_range (rcv_nxt (se_rcv_seq s)) (add32 (rcv_nxt (se_rcv_seq s)) [rcv_wnd s]) x \<and>
             in_seq_range (md_seq md) (add32 (md_seq md) [seg_len md]) x)"
    using nn assms(2) edge by (auto simp: segment_acceptable_def Let_def in_range32_iff fwd_add32_self ranges_meet common_byte_iff)
  moreover have "answered env s s'" if "\<not> ok" "\<not> md_rst md"
  proof -
    let ?late = "adv_send_sack (se_advertise s) \<and> md_data md \<noteq> [] \<and> lt32 (md_seq md) (rcv_nxt (se_rcv_seq s)) \<and>
      le32 (add32 (md_seq md) [seg_len md]) (rcv_nxt (se_rcv_seq s))"
    have "emit_challenge_ack env (s\<lparr>se_pending_dsack := if ?late then Some (md_seq md, add32 (md_seq md) [seg_len md])
        else se_pending_dsack s\<rparr>) = Inr s'"
      using assms(1) that(2) that(1) [unfolded ok]
      by (cases ?late) (auto simp: check_segment_acceptability_def Let_def bind_res_Inr)
    then have "\<exists>d. emit_challenge_ack env (s\<lparr>se_pending_dsack := d\<rparr>) = Inr s'" ..
    then obtain d where "emit_challenge_ack env (s\<lparr>se_pending_dsack := d\<rparr>) = Inr s'" ..
    from challenge_answered [OF this] show ?thesis unfolding answered_dsack .
  qed
  ultimately show ?thesis using ok s' by blast
qed

definition sample_segment :: tcp_metadata where
  "sample_segment = \<lparr>md_ecn = 0, md_syn = False, md_ack_flag = True, md_fin = False, md_rst = False,
     md_ece = False, md_cwr = False, md_ns = False,
     md_seq = 0xFFFFFF00, md_ack = 0, md_win = 1000, md_wscale = 0, md_mss = 1460, md_sackperm = False, md_sack_blocks = [],
     md_tsval = Some 5, md_tsecr = Some 0, md_fastopen_cookie = None, md_accecn0_counters = None, md_data = replicate 300 1\<rparr>"

theorem segment_acceptability_exact_witness:
  "check_segment_acceptability sample_env sample_segment sample_session = Inr (sample_session, True) \<and>
   (\<exists>x. in_seq_range (rcv_nxt (se_rcv_seq sample_session))
          (add32 (rcv_nxt (se_rcv_seq sample_session)) [rcv_wnd sample_session]) x \<and>
        in_seq_range (md_seq sample_segment) (add32 (md_seq sample_segment) [seg_len sample_segment]) x)"
proof -
  have ok: "segment_acceptable sample_segment sample_session" by code_simp
  then have run: "check_segment_acceptability sample_env sample_segment sample_session = Inr (sample_session, True)"
    by (simp add: check_segment_acceptability_def Let_def)
  have sz: "seg_len sample_segment = 300 \<and> rcv_wnd sample_session = 65535" by code_simp
  then show ?thesis using segment_acceptability_exact [OF run] run by simp
qed

text \<open>
  With an open window the code also accepts an empty segment exactly at the right edge, where RFC 9293 has a
  strict inequality.
\<close>

lemma empty_at_right_edge_accepted:
  assumes "seg_len md = 0" "0 < rcv_wnd s" "rcv_wnd s \<le> 2147483648" "md_seq md = add32 (rcv_nxt (se_rcv_seq s)) [rcv_wnd s]"
  shows "check_segment_acceptability env md s = Inr (s, True)"
  using assms by (simp add: check_segment_acceptability_def segment_acceptable_def in_range32_iff fwd_add32_self Let_def)



text \<open>
  A reused session starts over: no timer is armed, all send numbers are the new ISS, nothing is
  buffered or queued in either direction but the data of the SYN, and RCV.NXT is past SYN and data.
\<close>

lemma reuse_starts_over:
  fixes env md s
  defines "s' \<equiv> reinit_for_rfc6191_reuse env md s"
  shows "tm_deadlines (se_timers s') = []" "tx_buffer (se_tx s') = []" "se_rx_buffer s' = (if shut_rd (se_shut s) then [] else md_data md)"
    "snd_una (se_snd_seq s') = env_iss env" "snd_nxt (se_snd_seq s') = env_iss env" "snd_max (se_snd_seq s') = env_iss env"
    "se_ooo_packet_queue s' = []" "se_sack_scoreboard s' = []" "se_retransmit_count s' = 0"
    "rcv_nxt (se_rcv_seq s') = add32 (md_seq md) [of_bool (md_syn md), int (length (md_data md))]"
  by (simp_all add: s'_def reinit_for_rfc6191_reuse_def Let_def cancel_all_timers_def enqueue_rx_buffer_def timer_cancel_all_def)

text \<open>
  What the old incarnation leaves behind. The close request and the shutdown flags survive, so
  the second connection of a session that was closed still refuses to send and discards what it
  receives, and so do the RACK-TLP records of segments of the first connection.
\<close>

lemma reuse_keeps:
  fixes env md s
  defines "s' \<equiv> reinit_for_rfc6191_reuse env md s"
  shows "se_closing s' = se_closing s" "se_shut s' = se_shut s" "se_rack_tlp s' = se_rack_tlp s"
    "cc_recover_seq (se_cc s') = cc_recover_seq (se_cc s)" "frto_active (se_cc s') = frto_active (se_cc s)"
    "se_closing s \<Longrightarrow> session_send env data s' = Inl (TcpSessionError ''TCP session is closing'')"
  by (simp_all add: s'_def reinit_for_rfc6191_reuse_def Let_def cancel_all_timers_def enqueue_rx_buffer_def session_send_def)

end
