(* ===== verification/Tcp_Retransmit.thy ===== *)
theory Tcp_Retransmit
  imports Tcp_Validate
begin

text \<open>
  \<^verbatim>\<open>session/tcp__session__retransmit.py\<close>: the retransmission timeout, the fast-retransmit
  request of a duplicate ACK, the tail loss probe and the RACK hooks of a session.
\<close>

section \<open>RACK hooks\<close>

definition session_rack_process_ack :: "tcp_env \<Rightarrow> tcp_metadata \<Rightarrow> tcp_session \<Rightarrow> tcp_session res" where
  "session_rack_process_ack env md s =
     bind_res (rack_process_ack (env_now_ms env) (snd_una (se_snd_seq s)) (adv_send_sack (se_advertise s))
                (se_sack_scoreboard s) (case md_tsecr md of None \<Rightarrow> 0 | Some t \<Rightarrow> uint t) (se_rack_tlp s))
       (\<lambda>(rt, timeout_ms).
         let s1 = s\<lparr>se_rack_tlp := rt\<rparr> in
         Inr (if timeout_ms > 0 then arm_timer env ''rack'' timeout_ms s1 else s1))"

definition session_rack_reorder_tick :: "tcp_env \<Rightarrow> tcp_session \<Rightarrow> tcp_session res" where
  "session_rack_reorder_tick env s =
     (if \<not> session_timer_expired env ''rack'' s then Inr s
      else
        (let s1 = cancel_timer env ''rack'' s in
         bind_res (rack_reorder_tick (env_now_ms env) (se_rack_tlp s1)) (\<lambda>(rt, timeout_ms).
           let s2 = s1\<lparr>se_rack_tlp := rt\<rparr> in
           Inr (if timeout_ms > 0 then arm_timer env ''rack'' timeout_ms s2 else s2))))"

section \<open>Retransmission timeout\<close>

definition flight_size :: "send_seq_state \<Rightarrow> int" where
  "flight_size sq = uint (snd_max sq - snd_una sq)"

definition retransmit_budget :: "tcp_env \<Rightarrow> tcp_session \<Rightarrow> int" where
  "retransmit_budget env s =
     (if se_user_timeout_ms s > 0
      then max 1 (se_user_timeout_ms s div max 1 (rto_ms (se_rto_state s)))
      else env_retransmit_max_count env)"

text \<open>The retransmission budget is spent: reset the peer, tell the application, close.\<close>

definition note_timeout :: "tcp_session \<Rightarrow> tcp_session" where
  "note_timeout s =
     (let s1 = (if se_state s \<in> {ESTABLISHED, FIN_WAIT_1, FIN_WAIT_2, CLOSING, CLOSE_WAIT}
                then s\<lparr>se_connection_error := TIMEOUT, se_event_rx_buffer := True\<rparr> else s)
      in if se_state s1 \<in> {SYN_SENT, SYN_RCVD}
         then s1\<lparr>se_connection_error :=
                  (if se_connection_error s1 \<in> {HOST_UNREACHABLE, NET_UNREACHABLE} then se_connection_error s1
                   else TIMEOUT),
                se_event_connect := se_event_connect s1 + 1\<rparr>
         else s1)"

definition abandon_session :: "tcp_env \<Rightarrow> tcp_session \<Rightarrow> tcp_session res" where
  "abandon_session env s =
     bind_res (if se_peer_contacted s
               then transmit_packet env
                      (tx_plain\<lparr>rq_rst := True, rq_ack := True, rq_seq := Some (snd_una (se_snd_seq s))\<rparr>) s
               else Inr s)
       (\<lambda>s1. Inr (change_state env CLOSED (note_timeout s1)))"

text \<open>The congestion response: F-RTO snapshot, slow-start threshold, window of one segment.\<close>

definition frto_enter :: "send_seq_state \<Rightarrow> cc_state \<Rightarrow> cc_state" where
  "frto_enter sq cc =
     (if frto_step cc \<noteq> 0 \<and> \<not> lt32 (frto_pre_snd_max cc) (snd_una sq)
      then cc\<lparr>frto_pre_snd_max := snd_max sq\<rparr> else save_frto_snapshot (snd_max sq) cc)"

definition rto_ssthresh :: "(int \<Rightarrow> int) \<Rightarrow> int \<Rightarrow> int \<Rightarrow> int \<Rightarrow> cc_state \<Rightarrow> cc_state res" where
  "rto_ssthresh cube_root now_ms flight mss cc =
     (if cc_cc_mode cc = CUBIC
      then bind_res (cubic_loss_event_ssthresh (max (cc_cwnd cc) mss) mss True (cubic_w_max cc)) (\<lambda>(ssthresh, w_max).
             bind_res (cubic_compute_K cube_root w_max mss mss) (\<lambda>k.
               Inr (cc\<lparr>cc_ssthresh := ssthresh, cubic_w_max := w_max, cubic_w_last_max := cubic_w_max cc,
                       cubic_K_ms := k, cubic_epoch_start_ms := now_ms, cubic_in_ca := False, cc_cubic_w_est := 0\<rparr>)))
      else bind_res (compute_loss_event_ssthresh flight mss) (\<lambda>ssthresh. Inr (cc\<lparr>cc_ssthresh := ssthresh\<rparr>)))"

definition rto_congestion :: "tcp_env \<Rightarrow> send_seq_state \<Rightarrow> window_state \<Rightarrow> cc_state \<Rightarrow> cc_state res" where
  "rto_congestion env sq win cc =
     bind_res (rto_ssthresh (env_cube_root env) (env_now_ms env) (flight_size sq) (win_snd_mss win) (frto_enter sq cc))
       (\<lambda>cc1. Inr (cc1\<lparr>cc_cwnd := win_snd_mss win, cc_snd_ewn := min (win_snd_mss win) (win_snd_wnd win),
                       cc_recovery_point := 0, cc_recover_seq := snd_max sq\<rparr>))"

definition rto_shrink_mss :: "tcp_session \<Rightarrow> tcp_session" where
  "rto_shrink_mss s =
     (let engine_mss = current_mtu (pa_engine (se_plpmtud_adapter s)) - se_ip_tcp_overhead s in
      if se_plpmtud_probing_enabled s \<and> engine_mss < win_snd_mss (se_win s)
      then s\<lparr>se_win := (se_win s)\<lparr>win_snd_mss := engine_mss\<rparr>\<rparr> else s)"

definition rto_handshake :: "tcp_session \<Rightarrow> tcp_session" where
  "rto_handshake s =
     (if se_state s \<in> {SYN_SENT, SYN_RCVD}
      then
        (let s1 = s\<lparr>se_syn_retransmit_count := se_syn_retransmit_count s + 1\<rparr> in
         if se_state s1 = SYN_SENT \<and> adv_fastopen (se_advertise s1)
         then s1\<lparr>se_fastopen := (se_fastopen s1)\<lparr>fo_syn_retransmitted := True\<rparr>,
                 se_effects := se_effects s1 @ [Mark_Fastopen_Negative]\<rparr>
         else s1)
      else s)"

definition rto_backoff :: "tcp_env \<Rightarrow> tcp_session \<Rightarrow> tcp_session" where
  "rto_backoff env s =
     (let s1 = s\<lparr>se_rtt := (if rtt_seq (se_rtt s) = Some (snd_una (se_snd_seq s)) then rtt_taint (se_rtt s) else se_rtt s),
                 se_rack_tlp := mark_all_lost (se_rack_tlp s),
                 se_rto_state := back_off (se_rto_state s),
                 se_retransmit_count := se_retransmit_count s + 1,
                 se_plpmtud_adapter := on_rto_timeout (env_now env) (se_plpmtud_adapter s)\<rparr>;
          s2 = rto_handshake (rto_shrink_mss s1)
      in arm_timer env ''retransmit'' (rto_ms (se_rto_state s2)) s2)"

text \<open>SND.NXT back to SND.UNA; a SYN or FIN that is sent again will move the buffer base again.\<close>

definition rewind :: "send_seq_state \<Rightarrow> tx_buffer_state \<Rightarrow> tx_buffer_state" where
  "rewind sq tx =
     (if snd_una sq = snd_ini sq \<or> snd_fin_sent sq \<and> snd_una sq = sub32 (snd_fin sq) 1
      then tx\<lparr>tx_seq_mod := sub32 (tx_seq_mod tx) 1\<rparr> else tx)"

definition retransmit_packet_timeout :: "tcp_env \<Rightarrow> tcp_session \<Rightarrow> tcp_session res" where
  "retransmit_packet_timeout env s =
     (if \<not> session_timer_expired env ''retransmit'' s then Inr s
      else if snd_una (se_snd_seq s) = snd_max (se_snd_seq s) then Inr s
      else if se_retransmit_count s \<ge> retransmit_budget env s then abandon_session env s
      else
        (let s1 = rto_backoff env s in
         bind_res (rto_congestion env (se_snd_seq s1) (se_win s1) (se_cc s1)) (\<lambda>cc.
           Inr (s1\<lparr>se_cc := cc, se_snd_seq := (se_snd_seq s1)\<lparr>snd_nxt := snd_una (se_snd_seq s1)\<rparr>,
                   se_tx := rewind (se_snd_seq s1) (se_tx s1)\<rparr>))))"

section \<open>Fast retransmit\<close>

definition count_dup_ack :: "seq32 \<Rightarrow> tx_buffer_state \<Rightarrow> tx_buffer_state" where
  "count_dup_ack ack tx =
     tx\<lparr>tx_retransmit_request_counter :=
          AList.update ack ((case map_of (tx_retransmit_request_counter tx) ack of None \<Rightarrow> 0 | Some n \<Rightarrow> n) + 1)
            (tx_retransmit_request_counter tx)\<rparr>"

definition dup_ack_count :: "seq32 \<Rightarrow> tx_buffer_state \<Rightarrow> int" where
  "dup_ack_count ack tx = (case map_of (tx_retransmit_request_counter tx) ack of None \<Rightarrow> 0 | Some n \<Rightarrow> n)"

text \<open>RFC 3042 limited transmit: a new segment beyond the window on the first two duplicates.\<close>

definition limited_transmit :: "tcp_env \<Rightarrow> int \<Rightarrow> tcp_session \<Rightarrow> tcp_session res" where
  "limited_transmit env count s =
     (if count \<in> {1, 2} \<and> tx_buffer (se_tx s) \<noteq> []
      then
        (let cc = se_cc s; w = se_win s in
         bind_res (session_transmit_data env
             (s\<lparr>se_cc := cc\<lparr>cc_snd_ewn := min (cc_cwnd cc + count * win_snd_mss w) (win_snd_wnd w)\<rparr>\<rparr>))
           (\<lambda>s1. Inr (s1\<lparr>se_cc := (se_cc s1)\<lparr>cc_snd_ewn := cc_snd_ewn cc\<rparr>\<rparr>)))
      else Inr s)"

definition fast_ssthresh :: "(int \<Rightarrow> int) \<Rightarrow> int \<Rightarrow> int \<Rightarrow> int \<Rightarrow> cc_state \<Rightarrow> cc_state res" where
  "fast_ssthresh cube_root now_ms flight mss cc =
     (if cc_cc_mode cc = CUBIC
      then
        (let cc1 = save_fr_cubic_snapshot cc in
         bind_res (cubic_loss_event_ssthresh (cc_cwnd cc1) mss True (cubic_w_max cc)) (\<lambda>(ssthresh, w_max).
           bind_res (cubic_compute_K cube_root w_max ssthresh mss) (\<lambda>k.
             Inr (cc1\<lparr>cc_ssthresh := ssthresh, cubic_w_max := w_max, cubic_w_last_max := cubic_w_max cc,
                      cubic_K_ms := k, cubic_epoch_start_ms := now_ms, cubic_in_ca := True, cc_cubic_w_est := 0\<rparr>))))
      else bind_res (compute_loss_event_ssthresh flight mss) (\<lambda>ssthresh. Inr (cc\<lparr>cc_ssthresh := ssthresh\<rparr>)))"

definition enter_recovery :: "tcp_env \<Rightarrow> send_seq_state \<Rightarrow> window_state \<Rightarrow> cc_state \<Rightarrow> cc_state res" where
  "enter_recovery env sq win cc =
     bind_res (fast_ssthresh (env_cube_root env) (env_now_ms env) (flight_size sq) (win_snd_mss win) cc) (\<lambda>cc1.
       Inr (cc1\<lparr>cc_recover_fs := flight_size sq, cc_prr_delivered := 0, cc_prr_out := 0,
                cc_cwnd := flight_size sq, cc_snd_ewn := min (flight_size sq) (win_snd_wnd win),
                cc_recovery_point := (if snd_max sq \<noteq> 0 then snd_max sq else 1)\<rparr>))"

definition start_fast_retransmit :: "tcp_env \<Rightarrow> tcp_session \<Rightarrow> tcp_session res" where
  "start_fast_retransmit env s =
     bind_res (enter_recovery env (se_snd_seq s) (se_win s) (se_cc s)) (\<lambda>cc.
     bind_res (if adv_send_sack (se_advertise s)
               then next_seg (se_sack_scoreboard s) (snd_una (se_snd_seq s)) (snd_max (se_snd_seq s))
                      (win_snd_mss (se_win s)) TCP__DUP_THRESH
               else Inr None) (\<lambda>ns.
       Inr (s\<lparr>se_cc := cc,
              se_snd_seq := (se_snd_seq s)\<lparr>snd_nxt := (case ns of Some n \<Rightarrow> n | None \<Rightarrow> snd_una (se_snd_seq s))\<rparr>\<rparr>)))"

definition sack_trigger :: "tcp_session \<Rightarrow> bool res" where
  "sack_trigger s =
     (if adv_send_sack (se_advertise s)
      then is_lost (snd_una (se_snd_seq s)) (se_sack_scoreboard s) (win_snd_mss (se_win s)) TCP__DUP_THRESH
      else Inr False)"

definition retransmit_packet_request :: "tcp_env \<Rightarrow> tcp_metadata \<Rightarrow> tcp_session \<Rightarrow> tcp_session res" where
  "retransmit_packet_request env md s =
     bind_res (ingest_sack_info md s) (\<lambda>s1.
     bind_res (session_rack_process_ack env md s1) (\<lambda>s2.
       let s3 = s2\<lparr>se_tx := count_dup_ack (md_ack md) (se_tx s2)\<rparr>;
           count = dup_ack_count (md_ack md) (se_tx s3)
       in if cc_recovery_point (se_cc s3) \<noteq> 0 then Inr s3
          else if cc_recover_seq (se_cc s3) \<noteq> 0 \<and> lt32 (snd_una (se_snd_seq s3)) (cc_recover_seq (se_cc s3)) then Inr s3
          else bind_res (sack_trigger s3) (\<lambda>sack.
               bind_res (limited_transmit env count s3) (\<lambda>s4.
                 if \<not> (count = 3 \<or> sack) then Inr s4 else start_fast_retransmit env s4))))"

section \<open>Tail loss probe\<close>

definition tlp_target :: "tcp_session \<Rightarrow> tcp_session" where
  "tlp_target s =
     (let snd = se_snd_seq s; tx_buffer_max = uint (sub32 (snd_max snd) (uint (tx_seq_mod (se_tx s)))) in
      if tx_buffer_max < int (length (tx_buffer (se_tx s))) \<and> cc_snd_ewn (se_cc s) > tx_buffer_max
      then s\<lparr>se_snd_seq := snd\<lparr>snd_nxt := snd_max snd\<rparr>, se_rack_tlp := (se_rack_tlp s)\<lparr>tlp_is_retrans := False\<rparr>\<rparr>
      else s\<lparr>se_snd_seq := snd\<lparr>snd_nxt := sub32 (snd_max snd) (min (win_snd_mss (se_win s)) (flight_size snd))\<rparr>,
             se_rack_tlp := (se_rack_tlp s)\<lparr>tlp_is_retrans := True\<rparr>\<rparr>)"

definition tlp_pto_tick :: "tcp_env \<Rightarrow> tcp_session \<Rightarrow> tcp_session res" where
  "tlp_pto_tick env s =
     (if \<not> session_timer_expired env ''tlp'' s then Inr s
      else
        (let s1 = cancel_timer env ''tlp'' s in
         if \<not> tlp_armed (se_rack_tlp s1) \<or> snd_una (se_snd_seq s1) = snd_max (se_snd_seq s1) \<or>
            tlp_end_seq (se_rack_tlp s1) \<noteq> None \<or>
            (se_retransmit_count s1 > 0 \<or> cc_recovery_point (se_cc s1) \<noteq> 0 \<or> frto_active (se_cc s1))
         then Inr s1
         else bind_res (session_transmit_data env (tlp_target s1)) (\<lambda>s2.
                Inr (arm_timer env ''retransmit'' (rto_ms (se_rto_state s2))
                  (s2\<lparr>se_rack_tlp := (se_rack_tlp s2)\<lparr>tlp_end_seq := Some (snd_max (se_snd_seq s2)), tlp_armed := False\<rparr>\<rparr>)))))"

end
