(* ===== verification/Tcp_Ack.thy ===== *)
theory Tcp_Ack
  imports Tcp_Retransmit Tcp_Hystart
begin

text \<open>
  \<^verbatim>\<open>session/tcp__session__ack.py\<close>: the five phases that process an acceptable segment.
  \<open>process_ack_packet\<close> ends by handing a queued segment that has become in order back to the
  state machine; that call is the argument \<open>fsm\<close>.
\<close>

section \<open>Phase 1: the cumulative acknowledgment\<close>

definition follow_plpmtud :: "tcp_env \<Rightarrow> tcp_session \<Rightarrow> tcp_session" where
  "follow_plpmtud env s =
     (let una = snd_una (se_snd_seq s);
          ad0 = se_plpmtud_adapter s;
          ad1 = on_snd_una_advance una (env_now env) ad0;
          ad2 = (if se_plpmtud_probing_enabled s then check_implicit_confirm una (env_now env) ad1 else ad1);
          engine_mss = current_mtu (pa_engine ad2) - se_ip_tcp_overhead s;
          mss = win_snd_mss (se_win s);
          new_mss =
            (if se_plpmtud_probing_enabled s
             then (if engine_mss \<noteq> mss \<and> engine_mss \<ge> TCP__MIN_MSS then engine_mss else mss)
             else if current_mtu (pa_engine ad2) > current_mtu (pa_engine ad0)
             then (if engine_mss > mss then engine_mss else mss)
             else mss)
      in s\<lparr>se_plpmtud_adapter := ad2, se_win := (se_win s)\<lparr>win_snd_mss := new_mss\<rparr>\<rparr>)"

definition cc_round_boundary :: "seq32 \<Rightarrow> seq32 \<Rightarrow> cc_state \<Rightarrow> cc_state" where
  "cc_round_boundary una nxt cc =
     (let h = round_boundary \<lparr>hystart = cc_hystart cc, hs_cwnd = cc_cwnd cc, hs_ssthresh = cc_ssthresh cc\<rparr> una nxt
      in cc\<lparr>cc_hystart := hystart h, cc_ssthresh := hs_ssthresh h\<rparr>)"

definition note_delivered :: "seq32 \<Rightarrow> int \<Rightarrow> cc_state \<Rightarrow> cc_state" where
  "note_delivered una acked cc =
     (let cc1 = (if cc_recover_seq cc \<noteq> 0 \<and> ge32 una (cc_recover_seq cc) then cc\<lparr>cc_recover_seq := 0\<rparr> else cc)
      in if cc_recovery_point cc1 \<noteq> 0 then cc1\<lparr>cc_prr_delivered := cc_prr_delivered cc1 + acked\<rparr> else cc1)"

text \<open>RFC 6937 proportional rate reduction inside a recovery episode.\<close>

definition prr_window :: "int \<Rightarrow> int \<Rightarrow> bool \<Rightarrow> int \<Rightarrow> cc_state \<Rightarrow> cc_state res" where
  "prr_window current_pipe acked send_sack mss cc =
     (if current_pipe > cc_ssthresh cc
      then (if cc_recover_fs cc = 0 then Inl ZeroDivisionError
            else
              (let target = - ((- cc_prr_delivered cc * cc_ssthresh cc) div cc_recover_fs cc);
                   sndcnt = target - cc_prr_out cc
               in Inr (cc\<lparr>cc_cwnd := current_pipe + max 0 sndcnt\<rparr>)))
      else
        (let limit = (if send_sack \<and> acked > 0 then max (cc_prr_delivered cc - cc_prr_out cc) acked + mss
                      else cc_prr_delivered cc - cc_prr_out cc);
             sndcnt = min (cc_ssthresh cc - current_pipe) limit
         in Inr (cc\<lparr>cc_cwnd := current_pipe + max 0 sndcnt\<rparr>)))"

definition grow_window :: "int \<Rightarrow> int \<Rightarrow> int \<Rightarrow> int \<Rightarrow> cc_state \<Rightarrow> cc_state res" where
  "grow_window now_ms acked mss srtt cc =
     (if cc_cc_mode cc = CUBIC \<and> cc_cwnd cc \<ge> cc_ssthresh cc
      then bind_res (cubic_grow_per_ack (cc_cwnd cc) (cc_ssthresh cc) (cubic_w_max cc) (cubic_K_ms cc)
                       (cubic_epoch_start_ms cc) now_ms acked mss srtt) (\<lambda>cubic_cwnd.
           bind_res (cubic_w_est (if cc_cubic_w_est cc = 0 then cc_cwnd cc else cc_cubic_w_est cc)
                       (cc_cwnd cc) mss acked) (\<lambda>w_est.
             Inr (cc\<lparr>cubic_in_ca := True, cc_cubic_w_est := w_est, cc_cwnd := max cubic_cwnd w_est\<rparr>)))
      else if cc_cwnd cc < cc_ssthresh cc \<and> in_css (cc_hystart cc)
      then bind_res (css_growth_increment acked mss) (\<lambda>inc. Inr (cc\<lparr>cc_cwnd := cc_cwnd cc + inc\<rparr>))
      else bind_res (cwnd_grow_per_ack (cc_cwnd cc) (cc_ssthresh cc) acked mss)
             (\<lambda>cwnd. Inr (cc\<lparr>cc_cwnd := cwnd\<rparr>)))"

definition ack_congestion :: "tcp_env \<Rightarrow> int \<Rightarrow> tcp_session \<Rightarrow> cc_state res" where
  "ack_congestion env acked s =
     (let snd = se_snd_seq s; mss = win_snd_mss (se_win s);
          cc1 = note_delivered (snd_una snd) acked (cc_round_boundary (snd_una snd) (snd_nxt snd) (se_cc s))
      in bind_res
           (if cc_recovery_point cc1 \<noteq> 0 \<and> lt32 (snd_una snd) (cc_recovery_point cc1)
            then prr_window (pipe (se_sack_scoreboard s) (snd_una snd) (snd_max snd)) acked
                   (adv_send_sack (se_advertise s)) mss cc1
            else grow_window (env_now_ms env) acked mss (case srtt_ms (se_rto_state s) of None \<Rightarrow> 0 | Some v \<Rightarrow> v) cc1)
           (\<lambda>cc2. Inr (cc2\<lparr>cc_snd_ewn := min (cc_cwnd cc2) (win_snd_wnd (se_win s))\<rparr>)))"

definition tlp_on_ack :: "tcp_metadata \<Rightarrow> tcp_session \<Rightarrow> tcp_session res" where
  "tlp_on_ack md s =
     (case tlp_process_ack (tlp_end_seq (se_rack_tlp s)) (tlp_is_retrans (se_rack_tlp s)) (md_ack md)
             (se_dsack_received s > 0) (se_sack_scoreboard s \<noteq> []) of (new_end, invoke_cc) \<Rightarrow>
        let s1 = s\<lparr>se_rack_tlp := (se_rack_tlp s)\<lparr>tlp_end_seq := new_end\<rparr>\<rparr> in
        if invoke_cc
        then bind_res (compute_loss_event_ssthresh (flight_size (se_snd_seq s1)) (win_snd_mss (se_win s1))) (\<lambda>ssthresh.
               Inr (s1\<lparr>se_cc := (se_cc s1)\<lparr>cc_ssthresh := ssthresh, cc_cwnd := ssthresh,
                                           cc_snd_ewn := min ssthresh (win_snd_wnd (se_win s1))\<rparr>\<rparr>))
        else Inr s1)"

definition ack_timers :: "tcp_env \<Rightarrow> tcp_session \<Rightarrow> tcp_session" where
  "ack_timers env s =
     (if snd_una (se_snd_seq s) = snd_max (se_snd_seq s)
      then (let s1 = cancel_timer env ''tlp'' (cancel_timer env ''retransmit'' s)
            in s1\<lparr>se_rack_tlp := cancel_tlp (se_rack_tlp s1)\<rparr>)
      else arm_timer env ''retransmit'' (rto_ms (se_rto_state s)) s)"

section \<open>Phase 2: F-RTO\<close>

definition phase2_frto_spurious_detect :: "seq32 \<Rightarrow> int \<Rightarrow> cc_state \<Rightarrow> cc_state" where
  "phase2_frto_spurious_detect una snd_wnd cc =
     (if \<not> frto_active cc then cc
      else if frto_step cc = 1
      then (if \<not> lt32 una (frto_pre_snd_max cc)
            then restore_frto_snapshot snd_wnd (cc\<lparr>frto_step := 0, frto_active := False\<rparr>)
            else cc\<lparr>frto_step := 2\<rparr>)
      else if frto_step cc = 2
      then restore_frto_snapshot snd_wnd (cc\<lparr>frto_step := 0, frto_active := False\<rparr>)
      else cc)"

definition phase1_cum_ack_side_effects :: "tcp_env \<Rightarrow> tcp_metadata \<Rightarrow> tcp_session \<Rightarrow> tcp_session res" where
  "phase1_cum_ack_side_effects env md s =
     (if \<not> lt32 (snd_una (se_snd_seq s)) (md_ack md) then Inr s
      else
        (let acked = uint (md_ack md - snd_una (se_snd_seq s));
             s1 = s\<lparr>se_effects := se_effects s @ [Confirm_Reachability],
                    se_snd_seq := (se_snd_seq s)\<lparr>snd_una := md_ack md\<rparr>\<rparr>;
             s2 = follow_plpmtud env s1
         in bind_res (ack_congestion env acked s2) (\<lambda>cc.
            bind_res (tlp_on_ack md (s2\<lparr>se_cc := cc, se_retransmit_count := 0\<rparr>)) (\<lambda>s3.
              let s4 = ack_timers env s3 in
              Inr (s4\<lparr>se_cc := phase2_frto_spurious_detect (snd_una (se_snd_seq s4)) (win_snd_wnd (se_win s4)) (se_cc s4)\<rparr>)))))"

section \<open>Phase 3: round-trip samples\<close>

definition cc_harvest :: "int \<Rightarrow> cc_state \<Rightarrow> cc_state res" where
  "cc_harvest rtt cc =
     bind_res (harvest_rtt \<lparr>hystart = cc_hystart cc, hs_cwnd = cc_cwnd cc, hs_ssthresh = cc_ssthresh cc\<rparr> rtt)
       (\<lambda>h. Inr (cc\<lparr>cc_hystart := hystart h\<rparr>))"

definition take_sample :: "tcp_env \<Rightarrow> int \<Rightarrow> tcp_session \<Rightarrow> tcp_session res" where
  "take_sample env rtt s =
     bind_res (rto_update (env_rto_min_ms env) (se_rto_state s) rtt) (\<lambda>rto.
     bind_res (cc_harvest rtt (se_cc s)) (\<lambda>cc. Inr (s\<lparr>se_rto_state := rto, se_cc := cc\<rparr>)))"

definition phase3_harvest_rtt_samples :: "tcp_env \<Rightarrow> tcp_metadata \<Rightarrow> tcp_session \<Rightarrow> tcp_session res" where
  "phase3_harvest_rtt_samples env md s =
     bind_res
       (case md_tsecr md of
          None \<Rightarrow> Inr s
        | Some t \<Rightarrow>
            if ts_send_ts (se_ts s) \<and> t \<noteq> 0
            then bind_res (take_sample env ((env_now_ms env - uint t) mod 0x100000000) s)
                   (\<lambda>s1. Inr (s1\<lparr>se_rtt := rtt_clear (se_rtt s1)\<rparr>))
            else Inr s)
       (\<lambda>s1.
         case rtt_seq (se_rtt s1) of
           None \<Rightarrow> Inr s1
         | Some q \<Rightarrow>
             if \<not> gt32 (md_ack md) q then Inr s1
             else bind_res
                    (if rtt_retransmitted (se_rtt s1) then Inr s1
                     else (case rtt_send_time_ms (se_rtt s1) of
                             None \<Rightarrow> Inl AssertionError
                           | Some t \<Rightarrow> take_sample env (env_now_ms env - t) s1))
                    (\<lambda>s2. Inr (s2\<lparr>se_rtt := rtt_clear (se_rtt s2)\<rparr>)))"

section \<open>Phase 4: loss detection and the end of recovery\<close>

definition exit_recovery :: "int \<Rightarrow> cc_state \<Rightarrow> cc_state" where
  "exit_recovery snd_wnd cc =
     (clear_fr_cubic_snapshot (cc\<lparr>cc_cwnd := cc_ssthresh cc, cc_snd_ewn := min (cc_ssthresh cc) snd_wnd,
        cc_recovery_point := 0\<rparr>))\<lparr>cc_recover_fs := 0, cc_prr_delivered := 0, cc_prr_out := 0\<rparr>"

definition phase4_loss_detection_and_recovery_exit :: "tcp_env \<Rightarrow> tcp_metadata \<Rightarrow> tcp_session \<Rightarrow> tcp_session res" where
  "phase4_loss_detection_and_recovery_exit env md s =
     bind_res (session_rack_process_ack env md s) (\<lambda>s1.
       let una = snd_una (se_snd_seq s1);
           s2 = s1\<lparr>se_rack_tlp := prune_segments una (se_rack_tlp s1)\<rparr>
       in Inr (if cc_recovery_point (se_cc s2) \<noteq> 0 \<and> le32 (cc_recovery_point (se_cc s2)) una
               then s2\<lparr>se_cc := exit_recovery (win_snd_wnd (se_win s2)) (se_cc s2),
                       se_rack_tlp := decay_reo_wnd_persist (se_rack_tlp s2)\<rparr>
               else s2))"

section \<open>Phase 5: the segment itself\<close>

definition overlap_prefix :: "tcp_metadata \<Rightarrow> tcp_session \<Rightarrow> int" where
  "overlap_prefix md s =
     (if lt32 (md_seq md) (rcv_nxt (se_rcv_seq s)) then uint (rcv_nxt (se_rcv_seq s) - md_seq md) else 0)"

definition md_end :: "tcp_metadata \<Rightarrow> seq32" where
  "md_end md = add32 (md_seq md) [int (length (md_data md)), of_bool (md_syn md), of_bool (md_fin md)]"

definition advance_rcv :: "tcp_metadata \<Rightarrow> tcp_session \<Rightarrow> tcp_session" where
  "advance_rcv md s =
     (let ovl = overlap_prefix md s in
      s\<lparr>se_pending_dsack := (if adv_send_sack (se_advertise s) \<and> ovl > 0
                              then Some (md_seq md, add32 (md_seq md) [ovl]) else se_pending_dsack s),
        se_rcv_seq := (if lt32 (rcv_nxt (se_rcv_seq s)) (md_end md)
                       then (se_rcv_seq s)\<lparr>rcv_nxt := md_end md\<rparr> else se_rcv_seq s)\<rparr>)"

definition consume_data :: "tcp_env \<Rightarrow> tcp_metadata \<Rightarrow> tcp_session \<Rightarrow> tcp_session res" where
  "consume_data env md s =
     (let ovl = overlap_prefix md s; s1 = advance_rcv md s in
      if md_data md \<noteq> [] \<and> ovl < int (length (md_data md))
      then
        (let s2 = enqueue_rx_buffer (drop (nat ovl) (md_data md)) s1;
             s3 = s2\<lparr>se_delayed_ack_segments_pending := se_delayed_ack_segments_pending s2 + 1\<rparr>
         in if se_delayed_ack_segments_pending s3 \<ge> 2
            then transmit_packet env (tx_plain\<lparr>rq_ack := True\<rparr>) s3
            else Inr (arm_timer env ''delayed_ack'' (env_delayed_ack_ms env) s3))
      else Inr s1)"

definition follow_window :: "tcp_env \<Rightarrow> tcp_metadata \<Rightarrow> tcp_session \<Rightarrow> tcp_session" where
  "follow_window env md s =
     (let w = se_win s; wnd = push_bit (nat (win_snd_wsc w)) (md_win md);
          s1 = (if win_snd_wnd w \<noteq> wnd
                then s\<lparr>se_win := w\<lparr>win_snd_wnd := wnd\<rparr>, se_cc := (se_cc s)\<lparr>cc_snd_ewn := min (cc_cwnd (se_cc s)) wnd\<rparr>\<rparr>
                else s);
          s2 = s1\<lparr>se_win := bump_max_window (win_snd_wnd (se_win s1)) (se_win s1)\<rparr>
      in if win_snd_wnd (se_win s2) > 0 \<and> ps_active (se_persist s2)
         then cancel_timer env ''persist''
                (s2\<lparr>se_persist := persist_deactivate (env_rto_initial_ms env) (se_persist s2)\<rparr>)
         else s2)"

text \<open>The bookkeeping after the data: acknowledged bytes, window, stale counters and queue entries.\<close>

definition settle :: "tcp_env \<Rightarrow> tcp_metadata \<Rightarrow> tcp_session \<Rightarrow> tcp_session" where
  "settle env md s =
     (let s1 = s\<lparr>se_tx := tx_drain (nat (tx_buffer_una s)) (se_tx s)\<rparr>;
          s2 = follow_window env md s1
      in s2\<lparr>se_tx := (se_tx s2)\<lparr>tx_retransmit_request_counter :=
               filter (\<lambda>(seq, _). \<not> lt32 seq (md_ack md)) (tx_retransmit_request_counter (se_tx s2))\<rparr>,
             se_ooo_packet_queue :=
               filter (\<lambda>(seq, _). \<not> lt32 seq (rcv_nxt (se_rcv_seq s2))) (se_ooo_packet_queue s2)\<rparr>)"

definition catch_up_nxt :: "send_seq_state \<Rightarrow> send_seq_state" where
  "catch_up_nxt sq =
     (if lt32 (snd_nxt sq) (snd_una sq) \<and> le32 (snd_una sq) (snd_max sq) then sq\<lparr>snd_nxt := snd_una sq\<rparr> else sq)"

definition phase5_consume_segment_and_postprocess ::
    "(tcp_metadata \<Rightarrow> tcp_session \<Rightarrow> tcp_session res) \<Rightarrow> tcp_env \<Rightarrow> tcp_metadata \<Rightarrow> tcp_session \<Rightarrow> tcp_session res" where
  "phase5_consume_segment_and_postprocess fsm env md s =
     bind_res (consume_data env md (s\<lparr>se_snd_seq := catch_up_nxt (se_snd_seq s)\<rparr>)) (\<lambda>s1.
       let s2 = settle env md s1; nxt = rcv_nxt (se_rcv_seq s2) in
       case map_of (se_ooo_packet_queue s2) nxt of
         None \<Rightarrow> Inr s2
       | Some queued \<Rightarrow> fsm queued (s2\<lparr>se_ooo_packet_queue := AList.delete nxt (se_ooo_packet_queue s2)\<rparr>))"

section \<open>The pipeline\<close>

text \<open>Everything before the segment's own data is looked at.\<close>

definition ack_side :: "tcp_env \<Rightarrow> tcp_metadata \<Rightarrow> tcp_session \<Rightarrow> tcp_session res" where
  "ack_side env md s =
     bind_res (phase1_cum_ack_side_effects env md (keepalive_arm_idle env s)) (\<lambda>s1.
     bind_res (phase3_harvest_rtt_samples env md s1) (\<lambda>s2.
     bind_res (ingest_sack_info md (prune_sack_scoreboard s2)) (\<lambda>s3.
       phase4_loss_detection_and_recovery_exit env md s3)))"

definition process_ack_packet ::
    "(tcp_metadata \<Rightarrow> tcp_session \<Rightarrow> tcp_session res) \<Rightarrow> tcp_env \<Rightarrow> tcp_metadata \<Rightarrow> tcp_session \<Rightarrow> tcp_session res" where
  "process_ack_packet fsm env md s =
     bind_res (check_paws_and_update_ts_recent env md s) (\<lambda>(s1, ok).
       if \<not> ok then Inr s1
       else bind_res (ack_side env md s1) (phase5_consume_segment_and_postprocess fsm env md))"

end
