(* ===== verification/Tcp_Fsm.thy ===== *)
theory Tcp_Fsm
  imports Tcp_Ack
begin

text \<open>
  The state machine: \<^verbatim>\<open>TcpSession.tcp_fsm\<close> with its ECN preamble and pump, the dispatch tables of
  \<^verbatim>\<open>fsm/tcp__fsm.py\<close> and the handlers of the eleven states.

  A segment from the out-of-order queue is dispatched again from inside the processing of the
  segment that made it in order. \<open>fsm_packet\<close> counts these nested dispatches down; \<open>tcp_fsm\<close>
  starts it with one more than the length of the queue, which is always enough.
\<close>

section \<open>Events\<close>

datatype icmp_category = DEST_UNREACHABLE | TIME_EXCEEDED | PARAM_PROBLEM | PMTU

record icmp_metadata =
  im_category :: icmp_category
  im_type :: int
  im_code :: int
  im_ip_version :: int
  im_pointer :: "int option"
  im_next_hop_mtu :: "int option"

datatype fsm_event = Packet tcp_metadata | Syscall sys_call | Timer_Tick | Icmp icmp_metadata

text \<open>The flag combinations the handlers test.\<close>

definition pure_ack :: "tcp_metadata \<Rightarrow> bool" where
  "pure_ack md \<longleftrightarrow> md_ack_flag md \<and> \<not> (md_syn md \<or> md_rst md \<or> md_fin md)"

definition fin_ack :: "tcp_metadata \<Rightarrow> bool" where
  "fin_ack md \<longleftrightarrow> (md_fin md \<and> md_ack_flag md) \<and> \<not> (md_syn md \<or> md_rst md)"

definition plain_rst :: "tcp_metadata \<Rightarrow> bool" where
  "plain_rst md \<longleftrightarrow> md_rst md \<and> \<not> (md_fin md \<or> md_syn md)"

definition plain_syn :: "tcp_metadata \<Rightarrow> bool" where
  "plain_syn md \<longleftrightarrow> md_syn md \<and> \<not> (md_ack_flag md \<or> md_fin md \<or> md_rst md)"

section \<open>Shared steps\<close>

definition send_ack :: "tcp_env \<Rightarrow> tcp_session \<Rightarrow> tcp_session res" where
  "send_ack env s = transmit_packet env (tx_plain\<lparr>rq_ack := True\<rparr>) s"

definition session_abort :: "tcp_env \<Rightarrow> tcp_session \<Rightarrow> tcp_session res" where
  "session_abort env s =
     bind_res (if se_state s \<in> {SYN_RCVD, ESTABLISHED, FIN_WAIT_1, FIN_WAIT_2, CLOSE_WAIT}
               then transmit_packet env
                      (tx_plain\<lparr>rq_rst := True, rq_ack := True, rq_seq := Some (snd_nxt (se_snd_seq s))\<rparr>) s
               else Inr s)
       (\<lambda>s1. Inr (change_state env CLOSED
         (s1\<lparr>se_connection_error := CANCELED, se_event_rx_buffer := True, se_event_connect := se_event_connect s1 + 1\<rparr>)))"

definition take_rst :: "tcp_env \<Rightarrow> conn_error option \<Rightarrow> tcp_metadata \<Rightarrow> tcp_session \<Rightarrow> tcp_session res" where
  "take_rst env err md s =
     bind_res (check_rst_acceptability env md s) (\<lambda>(s1, ok).
       Inr (if ok
            then change_state env CLOSED (s1\<lparr>se_connection_error := (case err of None \<Rightarrow> se_connection_error s1 | Some e \<Rightarrow> e)\<rparr>)
            else s1))"

definition ack_in_window :: "tcp_metadata \<Rightarrow> tcp_session \<Rightarrow> bool" where
  "ack_in_window md s \<longleftrightarrow> in_range32 (md_ack md) (snd_una (se_snd_seq s)) (snd_max (se_snd_seq s))"

definition challenge_future_ack :: "tcp_env \<Rightarrow> tcp_metadata \<Rightarrow> tcp_session \<Rightarrow> tcp_session res" where
  "challenge_future_ack env md s =
     (if gt32 (md_ack md) (snd_max (se_snd_seq s)) then emit_challenge_ack env s else Inr s)"

text \<open>A bare ACK at SND.UNA that changes the peer's window.\<close>

definition window_update :: "tcp_env \<Rightarrow> int \<Rightarrow> tcp_metadata \<Rightarrow> tcp_session \<Rightarrow> tcp_session res" where
  "window_update env new_wnd md s =
     (let s1 = s\<lparr>se_win := (se_win s)\<lparr>win_snd_wnd := new_wnd\<rparr>\<rparr>;
          s2 = (if new_wnd > 0 \<and> ps_active (se_persist s1)
                then cancel_timer env ''persist'' (s1\<lparr>se_persist := \<lparr>ps_active = False, ps_timeout = env_rto_initial_ms env\<rparr>\<rparr>)
                else s1)
      in ingest_sack_info md s2)"

definition scaled_window :: "tcp_metadata \<Rightarrow> tcp_session \<Rightarrow> int" where
  "scaled_window md s = push_bit (nat (win_snd_wsc (se_win s))) (md_win md)"

definition bare_ack_at_una :: "tcp_metadata \<Rightarrow> tcp_session \<Rightarrow> bool" where
  "bare_ack_at_una md s \<longleftrightarrow>
     md_seq md = rcv_nxt (se_rcv_seq s) \<and> md_ack md = snd_una (se_snd_seq s) \<and> md_data md = []"

text \<open>What a SYN says about the peer.\<close>

definition adopt_peer_mss :: "tcp_env \<Rightarrow> tcp_metadata \<Rightarrow> tcp_session \<Rightarrow> tcp_session" where
  "adopt_peer_mss env md s =
     s\<lparr>se_win := (se_win s)\<lparr>
          win_snd_mss := max TCP__MIN_MSS (min (md_mss md) (mss_ceiling env (se_ip_tcp_overhead s) (se_plpmtud_probing_enabled s))),
          win_snd_wnd := md_win md\<rparr>,
       se_plpmtud_adapter := adapter_limit_max (md_mss md + se_ip_tcp_overhead s) (se_plpmtud_adapter s)\<rparr>"

definition adopt_options :: "tcp_env \<Rightarrow> tcp_metadata \<Rightarrow> tcp_session \<Rightarrow> tcp_session" where
  "adopt_options env md s =
     (let scale = adv_wscale (se_advertise s) \<and> md_wscale md \<noteq> 0;
          s1 = s\<lparr>se_win := (if scale then (se_win s)\<lparr>win_snd_wsc := md_wscale md\<rparr>
                             else (se_win s)\<lparr>win_rcv_wsc := 0, win_snd_wsc := 0\<rparr>),
                 se_advertise := (se_advertise s)\<lparr>adv_send_sack := adv_sack (se_advertise s) \<and> md_sackperm md\<rparr>\<rparr>
      in case md_tsval md of
           None \<Rightarrow> s1
         | Some v \<Rightarrow>
             if adv_ts (se_advertise s1)
             then s1\<lparr>se_ts := \<lparr>ts_send_ts = True, ts_recent = v, ts_recent_updated_at_ms = env_now_ms env\<rparr>\<rparr>
             else s1)"

definition one_segment_window :: "tcp_session \<Rightarrow> tcp_session" where
  "one_segment_window s =
     s\<lparr>se_cc := (se_cc s)\<lparr>cc_cwnd := win_snd_mss (se_win s),
                           cc_snd_ewn := min (win_snd_mss (se_win s)) (win_snd_wnd (se_win s))\<rparr>\<rparr>"

definition open_window :: "tcp_session \<Rightarrow> tcp_session res" where
  "open_window s =
     bind_res (initial_window (win_snd_mss (se_win s))) (\<lambda>iw.
       let s1 = s\<lparr>se_cc := (se_cc s)\<lparr>cc_cwnd := iw, cc_snd_ewn := min iw (win_snd_wnd (se_win s))\<rparr>\<rparr> in
       Inr (if se_syn_retransmit_count s1 > 0 \<and> rto_ms (se_rto_state s1) < 3000
            then s1\<lparr>se_rto_state := (se_rto_state s1)\<lparr>rto_ms := 3000\<rparr>\<rparr> else s1))"

section \<open>CLOSED and LISTEN\<close>

definition fsm__closed__syscall :: "tcp_env \<Rightarrow> sys_call \<Rightarrow> tcp_session \<Rightarrow> tcp_session res" where
  "fsm__closed__syscall env sc s =
     (case sc of
        SYSCALL_CONNECT \<Rightarrow> Inr (change_state env SYN_SENT s)
      | SYSCALL_LISTEN \<Rightarrow> Inr (change_state env LISTEN s)
      | SYSCALL_ABORT \<Rightarrow> session_abort env s
      | SYSCALL_CLOSE \<Rightarrow> Inr s)"

definition fsm__listen__syscall :: "tcp_env \<Rightarrow> sys_call \<Rightarrow> tcp_session \<Rightarrow> tcp_session res" where
  "fsm__listen__syscall env sc s =
     (case sc of
        SYSCALL_CLOSE \<Rightarrow> Inr (change_state env CLOSED s)
      | SYSCALL_ABORT \<Rightarrow> session_abort env s
      | _ \<Rightarrow> Inr s)"

definition fsm__listen__icmp :: "icmp_metadata \<Rightarrow> tcp_session \<Rightarrow> tcp_session res" where
  "fsm__listen__icmp md s = Inr s"

text \<open>
  The session that takes over the listening socket when this one becomes a connection: a
  fresh session that has gone through \<^verbatim>\<open>listen()\<close>, with the options of the socket.
\<close>

definition forked_listener :: "tcp_env \<Rightarrow> tcp_session \<Rightarrow> tcp_session" where
  "forked_listener env s =
     (let li = env_listener env;
          s0 = session_init env (se_ip_tcp_overhead s = 60);
          s1 = pump_tail env CLOSED True (change_state env LISTEN s0)
      in s1\<lparr>se_keepalive := (se_keepalive s1)\<lparr>ka_enabled := li_so_keepalive li, ka_idle_override := li_keepidle li,
              ka_interval_override := li_keepintvl li, ka_max_count_override := li_keepcnt li\<rparr>,
            se_cc := (se_cc s1)\<lparr>cc_cc_mode := li_cc_mode li\<rparr>, se_tcp_nodelay := li_nodelay li\<rparr>)"

definition listen_ecn :: "tcp_metadata \<Rightarrow> tcp_session \<Rightarrow> tcp_session" where
  "listen_ecn md s =
     (let is_classic = \<not> md_ns md \<and> md_cwr md \<and> md_ece md; any_bit = md_ns md \<or> md_cwr md \<or> md_ece md in
      if adv_accecn (se_advertise s) \<and> any_bit \<and> \<not> is_classic
      then s\<lparr>se_accecn := (se_accecn s)\<lparr>ae_enabled := True, ae_synack_codepoint := md_ecn md\<rparr>\<rparr>
      else if adv_ecn (se_advertise s) \<and> is_classic
      then s\<lparr>se_ecn := (se_ecn s)\<lparr>ecn_enabled := True\<rparr>\<rparr>
      else s)"

definition tfo_enabled :: "tcp_env \<Rightarrow> bool" where
  "tfo_enabled env \<longleftrightarrow>
     li_fastopen_qlen (env_listener env) > 0 \<and>
     li_fastopen_pending (env_listener env) < li_fastopen_qlen (env_listener env)"

definition tfo_cookie_valid :: "tcp_env \<Rightarrow> tcp_metadata \<Rightarrow> bool" where
  "tfo_cookie_valid env md \<longleftrightarrow>
     tfo_enabled env \<and>
     (case md_fastopen_cookie md of None \<Rightarrow> False | Some c \<Rightarrow> c \<noteq> [] \<and> li_fastopen_cookie (env_listener env) = c)"

definition syn_data :: "tcp_env \<Rightarrow> tcp_metadata \<Rightarrow> bytes" where
  "syn_data env md =
     (if \<not> (tfo_enabled env \<and> md_fastopen_cookie md \<noteq> None) \<or> tfo_cookie_valid env md then md_data md else [])"

definition accept_syn :: "tcp_env \<Rightarrow> tcp_metadata \<Rightarrow> tcp_session \<Rightarrow> tcp_session" where
  "accept_syn env md s =
     (let li = env_listener env;
          s0 = s\<lparr>se_effects := se_effects s @ [Fork_Listener],
                 se_cc := (se_cc s)\<lparr>cc_cc_mode := li_cc_mode li\<rparr>, se_tcp_nodelay := li_nodelay li\<rparr>;
          s1 = listen_ecn md (adopt_options env md (adopt_peer_mss env md s0));
          s2 = (if tfo_enabled env \<and> md_fastopen_cookie md \<noteq> None
                then s1\<lparr>se_fastopen := (se_fastopen s1)\<lparr>fo_cookie_to_emit := Some (li_fastopen_cookie li)\<rparr>\<rparr> else s1);
          data = syn_data env md;
          s3 = one_segment_window
                 (s2\<lparr>se_rcv_seq := (se_rcv_seq s2)\<lparr>rcv_ini := md_seq md,
                       rcv_nxt := add32 (md_seq md) [of_bool (md_syn md), int (length data)]\<rparr>,
                     se_peer_contacted := True\<rparr>);
          s4 = (if data \<noteq> [] then enqueue_rx_buffer data s3 else s3);
          s5 = (if tfo_cookie_valid env md
                then s4\<lparr>se_effects := se_effects s4 @ [Incr_Fastopen_Pending],
                        se_fastopen := (se_fastopen s4)\<lparr>fo_pending_counted := True\<rparr>\<rparr> else s4)
      in change_state env SYN_RCVD s5)"

definition fsm__listen__packet :: "tcp_env \<Rightarrow> tcp_metadata \<Rightarrow> tcp_session \<Rightarrow> tcp_session res" where
  "fsm__listen__packet env md s =
     Inr (if plain_syn md \<and> md_ack md = 0 \<and>
             li_accept_len (env_listener env) < li_backlog (env_listener env) \<and>
             li_embryonic (env_listener env) < env_syn_backlog_max env
          then accept_syn env md s else s)"

section \<open>SYN-SENT\<close>

definition hard_codes :: "(int \<times> int) list" where "hard_codes = [(3, 2), (3, 3), (1, 1), (1, 4)]"
definition soft_host_codes :: "(int \<times> int) list" where "soft_host_codes = [(3, 1), (1, 3)]"
definition soft_net_codes :: "(int \<times> int) list" where "soft_net_codes = [(3, 0), (1, 0)]"

definition icmp_pmtu_event :: "tcp_env \<Rightarrow> icmp_metadata \<Rightarrow> tcp_session \<Rightarrow> tcp_session res" where
  "icmp_pmtu_event env md s =
     (case im_next_hop_mtu md of
        None \<Rightarrow> Inl AssertionError
      | Some mtu \<Rightarrow> Inr (apply_pmtu_update env mtu (im_ip_version md) s))"

definition fsm__syn_sent__icmp :: "tcp_env \<Rightarrow> icmp_metadata \<Rightarrow> tcp_session \<Rightarrow> tcp_session res" where
  "fsm__syn_sent__icmp env md s =
     (case im_category md of
        DEST_UNREACHABLE \<Rightarrow>
          Inr (if (im_type md, im_code md) \<in> set hard_codes
               then change_state env CLOSED
                      (s\<lparr>se_connection_error := REFUSED, se_event_rx_buffer := True, se_event_connect := se_event_connect s + 1\<rparr>)
               else if (im_type md, im_code md) \<in> set soft_host_codes then s\<lparr>se_connection_error := HOST_UNREACHABLE\<rparr>
               else if (im_type md, im_code md) \<in> set soft_net_codes then s\<lparr>se_connection_error := NET_UNREACHABLE\<rparr>
               else s)
      | PMTU \<Rightarrow> icmp_pmtu_event env md s
      | _ \<Rightarrow> Inr s)"

definition retry_and_send :: "tcp_env \<Rightarrow> tcp_session \<Rightarrow> tcp_session res" where
  "retry_and_send env s = bind_res (retransmit_packet_timeout env s) (session_transmit_data env)"

definition fsm__syn_sent__timer :: "tcp_env \<Rightarrow> tcp_session \<Rightarrow> tcp_session res" where
  "fsm__syn_sent__timer env s = retry_and_send env s"

definition fsm__syn_sent__syscall :: "tcp_env \<Rightarrow> sys_call \<Rightarrow> tcp_session \<Rightarrow> tcp_session res" where
  "fsm__syn_sent__syscall env sc s =
     (case sc of
        SYSCALL_CLOSE \<Rightarrow> Inr (change_state env CLOSED
          (s\<lparr>se_connection_error := CANCELED, se_event_connect := se_event_connect s + 1\<rparr>))
      | SYSCALL_ABORT \<Rightarrow> session_abort env s
      | _ \<Rightarrow> Inr s)"

definition reject_reset :: "tcp_metadata \<Rightarrow> tcp_session \<Rightarrow> tcp_segment" where
  "reject_reset md s =
     \<lparr>sg_ecn = 0, sg_syn = False, sg_ack_flag = False, sg_fin = False, sg_rst = True, sg_psh = False,
      sg_ece = False, sg_cwr = False, sg_ns = False, sg_seq = md_ack md, sg_ack = 0, sg_win = rcv_wnd s,
      sg_mss = None, sg_wscale = None, sg_sackperm = False, sg_sack_blocks = None, sg_tsval = None, sg_tsecr = None,
      sg_fastopen_cookie = None, sg_accecn0_counters = None, sg_accecn1_counters = None, sg_payload = []\<rparr>"

definition syn_sent_ecn :: "tcp_metadata \<Rightarrow> tcp_session \<Rightarrow> tcp_session" where
  "syn_sent_ecn md s =
     (if md_ns md \<and> md_cwr md \<and> md_ece md then s
      else if adv_accecn (se_advertise s) \<and> (md_ns md \<or> md_cwr md)
      then
        (let ae = se_accecn s;
             ace = (if md_ecn md = 0 then 2 else if md_ecn md = 1 then 3 else if md_ecn md = 2 then 4 else 6)
         in s\<lparr>se_accecn := ae\<lparr>ae_enabled := True, ae_handshake_ack_pending := Some ace,
                r_cep := (if md_ecn md = 3 then 6 else r_cep ae),
                ae_mangling_detected := (if md_ns md \<or> md_ece md then True else ae_mangling_detected ae)\<rparr>\<rparr>)
      else if adv_ecn (se_advertise s) \<and> md_ece md \<and> \<not> md_cwr md
      then s\<lparr>se_ecn := (se_ecn s)\<lparr>ecn_enabled := True\<rparr>\<rparr>
      else s)"

definition adopt_syn_ack :: "tcp_env \<Rightarrow> tcp_metadata \<Rightarrow> tcp_session \<Rightarrow> tcp_session" where
  "adopt_syn_ack env md s =
     (let s1 = adopt_peer_mss env md s;
          s2 = one_segment_window
                 (s1\<lparr>se_rcv_seq := (se_rcv_seq s1)\<lparr>rcv_ini := md_seq md,
                       rcv_nxt := add32 (md_seq md) [of_bool (md_syn md), int (length (md_data md))]\<rparr>,
                     se_peer_contacted := True\<rparr>)
      in if md_data md \<noteq> [] then enqueue_rx_buffer (md_data md) s2 else s2)"

definition finish_syn_ack :: "tcp_env \<Rightarrow> tcp_metadata \<Rightarrow> tcp_session \<Rightarrow> tcp_session res" where
  "finish_syn_ack env md s =
     bind_res (open_window
         (if lt32 (snd_una (se_snd_seq s)) (snd_nxt (se_snd_seq s))
          then s\<lparr>se_snd_seq := (se_snd_seq s)\<lparr>snd_nxt := snd_una (se_snd_seq s)\<rparr>\<rparr> else s)) (\<lambda>s1.
       let s2 = syn_sent_ecn md (adopt_options env md s1);
           s3 = (case md_fastopen_cookie md of
                   None \<Rightarrow> s2
                 | Some c \<Rightarrow> if c \<noteq> [] then s2\<lparr>se_effects := se_effects s2 @ [Cache_Fastopen_Cookie c]\<rparr> else s2)
       in bind_res (send_ack env s3) (\<lambda>s4.
            let s5 = change_state env ESTABLISHED s4 in Inr (s5\<lparr>se_event_connect := se_event_connect s5 + 1\<rparr>)))"

definition simultaneous_open :: "tcp_env \<Rightarrow> tcp_metadata \<Rightarrow> tcp_session \<Rightarrow> tcp_session res" where
  "simultaneous_open env md s =
     (let s1 = adopt_options env md (adopt_peer_mss env md s);
          s2 = one_segment_window
                 (s1\<lparr>se_rcv_seq := (se_rcv_seq s1)\<lparr>rcv_ini := md_seq md, rcv_nxt := add32 (md_seq md) [of_bool (md_syn md)]\<rparr>,
                     se_peer_contacted := True\<rparr>)
      in bind_res (transmit_packet env (tx_plain\<lparr>rq_syn := True, rq_ack := True, rq_seq := Some (snd_ini (se_snd_seq s2))\<rparr>) s2)
           (\<lambda>s3. Inr (change_state env SYN_RCVD s3)))"

definition fsm__syn_sent__packet ::
    "(tcp_metadata \<Rightarrow> tcp_session \<Rightarrow> tcp_session res) \<Rightarrow> tcp_env \<Rightarrow> tcp_metadata \<Rightarrow> tcp_session \<Rightarrow> tcp_session res" where
  "fsm__syn_sent__packet fsm env md s =
     (let snd = se_snd_seq s in
      if md_ack_flag md \<and> \<not> (lt32 (snd_una snd) (md_ack md) \<and> le32 (md_ack md) (snd_max snd))
      then Inr (if md_rst md then s else s\<lparr>se_effects := se_effects s @ [Send_Segment (reject_reset md s)]\<rparr>)
      else if md_syn md \<and> md_ack_flag md \<and> \<not> (md_fin md \<or> md_rst md) \<and>
              lt32 (snd_una snd) (md_ack md) \<and> le32 (md_ack md) (snd_nxt snd)
      then bind_res (process_ack_packet fsm env md (adopt_syn_ack env md s)) (finish_syn_ack env md)
      else if plain_syn md \<and> md_ack md = 0 \<and> md_data md = []
      then simultaneous_open env md s
      else if md_rst md \<and> md_ack_flag md \<and> \<not> (md_fin md \<or> md_syn md) \<and> md_seq md = 0 \<and> md_ack md = snd_nxt snd
      then (let s1 = change_state env CLOSED s in
            Inr (s1\<lparr>se_connection_error := REFUSED, se_event_connect := se_event_connect s1 + 1\<rparr>))
      else Inr s)"

section \<open>SYN-RECEIVED\<close>

definition fsm__syn_rcvd__timer :: "tcp_env \<Rightarrow> tcp_session \<Rightarrow> tcp_session res" where
  "fsm__syn_rcvd__timer env s = retry_and_send env s"

definition fsm__syn_rcvd__syscall :: "tcp_env \<Rightarrow> sys_call \<Rightarrow> tcp_session \<Rightarrow> tcp_session res" where
  "fsm__syn_rcvd__syscall env sc s =
     (case sc of
        SYSCALL_CLOSE \<Rightarrow> Inr (change_state env FIN_WAIT_1
          (s\<lparr>se_connection_error := CANCELED, se_event_connect := se_event_connect s + 1\<rparr>))
      | SYSCALL_ABORT \<Rightarrow> session_abort env s
      | _ \<Rightarrow> Inr s)"

definition incoming_ace :: "tcp_metadata \<Rightarrow> int" where
  "incoming_ace md = 4 * of_bool (md_ns md) + 2 * of_bool (md_cwr md) + of_bool (md_ece md)"

definition syn_rcvd_ecn :: "tcp_metadata \<Rightarrow> tcp_session \<Rightarrow> tcp_session" where
  "syn_rcvd_ecn md s =
     (if ae_enabled (se_accecn s) \<and> md_sack_blocks md = []
      then
        (let ace = incoming_ace md; ae = se_accecn s;
             ae1 = (if ace = 0 then ae\<lparr>s_disabled := True\<rparr> else if ace = 6 then ae\<lparr>s_cep := 6\<rparr> else ae\<lparr>s_cep := 5\<rparr>)
         in s\<lparr>se_accecn := (if ace \<in> {3, 4, 6} then ae1\<lparr>ae_mangling_detected := True\<rparr> else ae1)\<rparr>)
      else s)"

definition finish_handshake :: "tcp_env \<Rightarrow> tcp_metadata \<Rightarrow> tcp_session \<Rightarrow> tcp_session res" where
  "finish_handshake env md s =
     bind_res (open_window s) (\<lambda>s1.
     bind_res (if md_data md \<noteq> [] then send_ack env s1 else Inr s1) (\<lambda>s2.
       let s3 = change_state env ESTABLISHED s2;
           s4 = (if env_socket_has_parent env then s3\<lparr>se_effects := se_effects s3 @ [Enqueue_Accepted]\<rparr> else s3)
       in Inr (s4\<lparr>se_event_connect := se_event_connect s4 + 1\<rparr>)))"

definition fsm__syn_rcvd__packet ::
    "(tcp_metadata \<Rightarrow> tcp_session \<Rightarrow> tcp_session res) \<Rightarrow> tcp_env \<Rightarrow> tcp_metadata \<Rightarrow> tcp_session \<Rightarrow> tcp_session res" where
  "fsm__syn_rcvd__packet fsm env md s =
     (if md_syn md \<and> \<not> md_rst md then emit_challenge_ack env s
      else if pure_ack md \<and> md_seq md = rcv_nxt (se_rcv_seq s) \<and> md_ack md = snd_nxt (se_snd_seq s)
      then bind_res (process_ack_packet fsm env md (syn_rcvd_ecn md s)) (finish_handshake env md)
      else if plain_rst md
      then bind_res (check_rst_acceptability env md s) (\<lambda>(s1, ok).
             Inr (if ok
                  then change_state env CLOSED (s1\<lparr>se_connection_error := REFUSED, se_event_connect := se_event_connect s1 + 1\<rparr>)
                  else s1))
      else Inr s)"

section \<open>ESTABLISHED\<close>

definition fsm__established__timer :: "tcp_env \<Rightarrow> tcp_session \<Rightarrow> tcp_session res" where
  "fsm__established__timer env s =
     bind_res (retry_and_send env s) (\<lambda>s1.
     bind_res (delayed_ack env s1) (\<lambda>s2.
     bind_res (session_rack_reorder_tick env (keepalive_tick env s2)) (\<lambda>s3.
     bind_res (tlp_pto_tick env s3) (\<lambda>s4.
       Inr (if se_closing s4 \<and> tx_buffer (se_tx s4) = [] then change_state env FIN_WAIT_1 s4 else s4)))))"

definition fsm__established__syscall :: "tcp_env \<Rightarrow> sys_call \<Rightarrow> tcp_session \<Rightarrow> tcp_session res" where
  "fsm__established__syscall env sc s =
     (case sc of
        SYSCALL_CLOSE \<Rightarrow> Inr (s\<lparr>se_closing := True\<rparr>)
      | SYSCALL_ABORT \<Rightarrow> session_abort env s
      | _ \<Rightarrow> Inr s)"

text \<open>RFC 2883: the part of a segment that a queued one already has.\<close>

definition queue_overlap :: "tcp_metadata \<Rightarrow> seq32 \<times> tcp_metadata \<Rightarrow> sack_block" where
  "queue_overlap md e =
     (case e of (left, queued) \<Rightarrow>
        let seg_left = md_seq md; seg_right = add32 seg_left [int (length (md_data md))];
            right = add32 left [int (length (md_data queued))]
        in (if ge32 left seg_left then left else seg_left, if le32 right seg_right then right else seg_right))"

definition queue_segment :: "tcp_env \<Rightarrow> tcp_metadata \<Rightarrow> tcp_session \<Rightarrow> tcp_session" where
  "queue_segment env md s =
     (let q = se_ooo_packet_queue s;
          s1 = (if adv_send_sack (se_advertise s)
                then (case List.find (\<lambda>(l, r). lt32 l r) (map (queue_overlap md) q) of
                        None \<Rightarrow> s | Some b \<Rightarrow> s\<lparr>se_pending_dsack := Some b\<rparr>)
                else s)
      in if length q < env_ooo_queue_max_len env \<or> md_seq md \<in> fst ` set q
         then s1\<lparr>se_ooo_packet_queue := AList.update (md_seq md) md q\<rparr> else s1)"

definition established_bare_ack :: "tcp_env \<Rightarrow> tcp_metadata \<Rightarrow> tcp_session \<Rightarrow> tcp_session res" where
  "established_bare_ack env md s =
     (let s1 = keepalive_arm_idle env s; new_wnd = scaled_window md s1 in
      if new_wnd \<noteq> win_snd_wnd (se_win s1) then window_update env new_wnd md s1
      else if snd_una (se_snd_seq s1) = snd_nxt (se_snd_seq s1) then Inr s1
      else retransmit_packet_request env md s1)"

definition established_ack ::
    "(tcp_metadata \<Rightarrow> tcp_session \<Rightarrow> tcp_session res) \<Rightarrow> tcp_env \<Rightarrow> tcp_metadata \<Rightarrow> tcp_session \<Rightarrow> tcp_session res" where
  "established_ack fsm env md s =
     (let nxt = rcv_nxt (se_rcv_seq s); snd = se_snd_seq s;
          ack_ok = le32 (snd_una snd) (md_ack md) \<and> le32 (md_ack md) (snd_max snd)
      in if bare_ack_at_una md s then established_bare_ack env md s
         else if gt32 (md_seq md) nxt \<and> ack_ok then send_ack env (queue_segment env md s)
         else if (md_seq md = nxt \<or> lt32 (md_seq md) nxt \<and> lt32 nxt (md_end md)) \<and> ack_ok
         then process_ack_packet fsm env md s
         else if gt32 (md_ack md) (snd_max snd) then emit_challenge_ack env s
         else if lt32 (md_ack md) (sub32 (snd_una snd) (win_max_window (se_win s))) then emit_challenge_ack env s
         else Inr s)"

definition established_fin ::
    "(tcp_metadata \<Rightarrow> tcp_session \<Rightarrow> tcp_session res) \<Rightarrow> tcp_env \<Rightarrow> tcp_metadata \<Rightarrow> tcp_session \<Rightarrow> tcp_session res" where
  "established_fin fsm env md s =
     (if md_seq md = rcv_nxt (se_rcv_seq s) \<and> ack_in_window md s
      then bind_res (process_ack_packet fsm env md s) (\<lambda>s1.
           bind_res (if md_data md \<noteq> [] then send_ack env s1 else Inr s1) (\<lambda>s2.
             Inr (change_state env CLOSE_WAIT (s2\<lparr>se_event_rx_buffer := True\<rparr>))))
      else Inr s)"

definition fsm__established__packet ::
    "(tcp_metadata \<Rightarrow> tcp_session \<Rightarrow> tcp_session res) \<Rightarrow> tcp_env \<Rightarrow> tcp_metadata \<Rightarrow> tcp_session \<Rightarrow> tcp_session res" where
  "fsm__established__packet fsm env md s =
     (if md_syn md then emit_challenge_ack env s
      else
        bind_res (check_segment_acceptability env md s) (\<lambda>(s1, ok).
          if \<not> ok then Inr s1
          else bind_res (check_paws_and_update_ts_recent env md s1) (\<lambda>(s2, ok).
            if \<not> ok then Inr s2
            else if pure_ack md then established_ack fsm env md s2
            else if fin_ack md then established_fin fsm env md s2
            else if plain_rst md then take_rst env (Some RESET) md s2
            else Inr s2)))"

section \<open>FIN-WAIT-1 and FIN-WAIT-2\<close>

definition fsm__fin_wait_1__timer :: "tcp_env \<Rightarrow> tcp_session \<Rightarrow> tcp_session res" where
  "fsm__fin_wait_1__timer env s = retry_and_send env s"

definition abort_only :: "tcp_env \<Rightarrow> sys_call \<Rightarrow> tcp_session \<Rightarrow> tcp_session res" where
  "abort_only env sc s = (if sc = SYSCALL_ABORT then session_abort env s else Inr s)"

definition fsm__fin_wait_1__syscall :: "tcp_env \<Rightarrow> sys_call \<Rightarrow> tcp_session \<Rightarrow> tcp_session res" where
  "fsm__fin_wait_1__syscall env sc s = abort_only env sc s"

definition enter_time_wait :: "tcp_env \<Rightarrow> tcp_session \<Rightarrow> tcp_session" where
  "enter_time_wait env s = arm_timer env ''time_wait'' (env_time_wait_ms env) (change_state env TIME_WAIT s)"

definition fin_acked_step :: "tcp_env \<Rightarrow> tcp_metadata \<Rightarrow> tcp_session \<Rightarrow> tcp_session" where
  "fin_acked_step env md s =
     (if ge32 (md_ack md) (snd_fin (se_snd_seq s))
      then (let s1 = change_state env FIN_WAIT_2 s in
            if env_socket_closed env then arm_timer env ''fin_wait_2'' (env_fin_wait_2_ms env) s1 else s1)
      else s)"

definition fin_wait_1_ack ::
    "(tcp_metadata \<Rightarrow> tcp_session \<Rightarrow> tcp_session res) \<Rightarrow> tcp_env \<Rightarrow> tcp_metadata \<Rightarrow> tcp_session \<Rightarrow> tcp_session res" where
  "fin_wait_1_ack fsm env md s =
     (if md_seq md = rcv_nxt (se_rcv_seq s) \<and> ack_in_window md s
      then bind_res (process_ack_packet fsm env md s) (\<lambda>s1.
           bind_res (if md_data md \<noteq> [] then send_ack env s1 else Inr s1) (\<lambda>s2. Inr (fin_acked_step env md s2)))
      else challenge_future_ack env md s)"

definition fin_wait_1_fin ::
    "(tcp_metadata \<Rightarrow> tcp_session \<Rightarrow> tcp_session res) \<Rightarrow> tcp_env \<Rightarrow> tcp_metadata \<Rightarrow> tcp_session \<Rightarrow> tcp_session res" where
  "fin_wait_1_fin fsm env md s =
     (if md_seq md = rcv_nxt (se_rcv_seq s) \<and> ack_in_window md s
      then bind_res (process_ack_packet fsm env md s) (\<lambda>s1.
           bind_res (send_ack env s1) (\<lambda>s2.
             Inr (if ge32 (md_ack md) (snd_fin (se_snd_seq s2)) then enter_time_wait env s2 else change_state env CLOSING s2)))
      else Inr s)"

definition fsm__fin_wait_1__packet ::
    "(tcp_metadata \<Rightarrow> tcp_session \<Rightarrow> tcp_session res) \<Rightarrow> tcp_env \<Rightarrow> tcp_metadata \<Rightarrow> tcp_session \<Rightarrow> tcp_session res" where
  "fsm__fin_wait_1__packet fsm env md s =
     (if md_syn md then emit_challenge_ack env s
      else
        bind_res (check_segment_acceptability env md s) (\<lambda>(s1, ok).
          if \<not> ok then Inr s1
          else if pure_ack md then fin_wait_1_ack fsm env md s1
          else if fin_ack md then fin_wait_1_fin fsm env md s1
          else if plain_rst md then take_rst env (Some RESET) md s1
          else Inr s1))"

definition fsm__fin_wait_2__timer :: "tcp_env \<Rightarrow> tcp_session \<Rightarrow> tcp_session res" where
  "fsm__fin_wait_2__timer env s =
     Inr (if session_timer_expired env ''fin_wait_2'' s then change_state env CLOSED s else s)"

definition fsm__fin_wait_2__syscall :: "tcp_env \<Rightarrow> sys_call \<Rightarrow> tcp_session \<Rightarrow> tcp_session res" where
  "fsm__fin_wait_2__syscall env sc s =
     (case sc of
        SYSCALL_CLOSE \<Rightarrow> Inr (arm_timer env ''fin_wait_2'' (env_fin_wait_2_ms env) s)
      | SYSCALL_ABORT \<Rightarrow> session_abort env s
      | _ \<Rightarrow> Inr s)"

definition fin_wait_2_ack ::
    "(tcp_metadata \<Rightarrow> tcp_session \<Rightarrow> tcp_session res) \<Rightarrow> tcp_env \<Rightarrow> tcp_metadata \<Rightarrow> tcp_session \<Rightarrow> tcp_session res" where
  "fin_wait_2_ack fsm env md s =
     (if md_seq md = rcv_nxt (se_rcv_seq s) \<and> ack_in_window md s
      then bind_res (process_ack_packet fsm env md s) (\<lambda>s1. if md_data md \<noteq> [] then send_ack env s1 else Inr s1)
      else challenge_future_ack env md s)"

definition fin_wait_2_fin ::
    "(tcp_metadata \<Rightarrow> tcp_session \<Rightarrow> tcp_session res) \<Rightarrow> tcp_env \<Rightarrow> tcp_metadata \<Rightarrow> tcp_session \<Rightarrow> tcp_session res" where
  "fin_wait_2_fin fsm env md s =
     (if md_seq md = rcv_nxt (se_rcv_seq s) \<and> ack_in_window md s
      then bind_res (process_ack_packet fsm env md s) (\<lambda>s1.
           bind_res (send_ack env s1) (\<lambda>s2.
             Inr (arm_timer env ''time_wait'' (env_time_wait_ms env)
                   (cancel_timer env ''fin_wait_2'' (change_state env TIME_WAIT s2)))))
      else Inr s)"

definition fsm__fin_wait_2__packet ::
    "(tcp_metadata \<Rightarrow> tcp_session \<Rightarrow> tcp_session res) \<Rightarrow> tcp_env \<Rightarrow> tcp_metadata \<Rightarrow> tcp_session \<Rightarrow> tcp_session res" where
  "fsm__fin_wait_2__packet fsm env md s =
     (if md_syn md then emit_challenge_ack env s
      else
        bind_res (check_segment_acceptability env md s) (\<lambda>(s1, ok).
          if \<not> ok then Inr s1
          else if pure_ack md then fin_wait_2_ack fsm env md s1
          else if fin_ack md then fin_wait_2_fin fsm env md s1
          else if plain_rst md then take_rst env (Some RESET) md s1
          else Inr s1))"

section \<open>CLOSING, CLOSE-WAIT, LAST-ACK\<close>

definition fsm__closing__timer :: "tcp_env \<Rightarrow> tcp_session \<Rightarrow> tcp_session res" where
  "fsm__closing__timer env s = retry_and_send env s"

definition fsm__closing__syscall :: "tcp_env \<Rightarrow> sys_call \<Rightarrow> tcp_session \<Rightarrow> tcp_session res" where
  "fsm__closing__syscall env sc s = abort_only env sc s"

definition closing_ack ::
    "(tcp_metadata \<Rightarrow> tcp_session \<Rightarrow> tcp_session res) \<Rightarrow> tcp_env \<Rightarrow> tcp_metadata \<Rightarrow> tcp_session \<Rightarrow> tcp_session res" where
  "closing_ack fsm env md s =
     (if md_seq md = rcv_nxt (se_rcv_seq s) \<and> ack_in_window md s
      then bind_res (process_ack_packet fsm env md s) (\<lambda>s1.
             Inr (if ge32 (snd_una (se_snd_seq s1)) (snd_fin (se_snd_seq s1)) then enter_time_wait env s1 else s1))
      else challenge_future_ack env md s)"

definition fsm__closing__packet ::
    "(tcp_metadata \<Rightarrow> tcp_session \<Rightarrow> tcp_session res) \<Rightarrow> tcp_env \<Rightarrow> tcp_metadata \<Rightarrow> tcp_session \<Rightarrow> tcp_session res" where
  "fsm__closing__packet fsm env md s =
     (if md_syn md then emit_challenge_ack env s
      else
        bind_res (check_segment_acceptability env md s) (\<lambda>(s1, ok).
          if \<not> ok then Inr s1
          else if pure_ack md then closing_ack fsm env md s1
          else if plain_rst md then take_rst env (Some RESET) md s1
          else Inr s1))"

definition fsm__close_wait__timer :: "tcp_env \<Rightarrow> tcp_session \<Rightarrow> tcp_session res" where
  "fsm__close_wait__timer env s =
     bind_res (retry_and_send env s) (\<lambda>s1.
     bind_res (delayed_ack env s1) (\<lambda>s2.
       Inr (if se_closing s2 \<and> tx_buffer (se_tx s2) = [] then change_state env LAST_ACK s2 else s2)))"

definition fsm__close_wait__syscall :: "tcp_env \<Rightarrow> sys_call \<Rightarrow> tcp_session \<Rightarrow> tcp_session res" where
  "fsm__close_wait__syscall env sc s =
     (case sc of
        SYSCALL_CLOSE \<Rightarrow> Inr (s\<lparr>se_closing := True\<rparr>)
      | SYSCALL_ABORT \<Rightarrow> session_abort env s
      | _ \<Rightarrow> Inr s)"

definition close_wait_ack ::
    "(tcp_metadata \<Rightarrow> tcp_session \<Rightarrow> tcp_session res) \<Rightarrow> tcp_env \<Rightarrow> tcp_metadata \<Rightarrow> tcp_session \<Rightarrow> tcp_session res" where
  "close_wait_ack fsm env md s =
     (let nxt = rcv_nxt (se_rcv_seq s) in
      if bare_ack_at_una md s
      then (let new_wnd = scaled_window md s in
            if new_wnd \<noteq> win_snd_wnd (se_win s) then window_update env new_wnd md s
            else retransmit_packet_request env md s)
      else if gt32 (md_seq md) nxt \<and> ack_in_window md s then send_ack env s
      else if md_seq md = nxt \<and> ack_in_window md s \<and> md_data md = [] then process_ack_packet fsm env md s
      else if md_seq md = nxt \<and> ack_in_window md s then send_ack env s
      else Inr s)"

definition fsm__close_wait__packet ::
    "(tcp_metadata \<Rightarrow> tcp_session \<Rightarrow> tcp_session res) \<Rightarrow> tcp_env \<Rightarrow> tcp_metadata \<Rightarrow> tcp_session \<Rightarrow> tcp_session res" where
  "fsm__close_wait__packet fsm env md s =
     (if md_syn md then emit_challenge_ack env s
      else
        bind_res (check_segment_acceptability env md s) (\<lambda>(s1, ok).
          if \<not> ok then Inr s1
          else if pure_ack md then close_wait_ack fsm env md s1
          else if plain_rst md then take_rst env (Some RESET) md s1
          else Inr s1))"

definition fsm__last_ack__timer :: "tcp_env \<Rightarrow> tcp_session \<Rightarrow> tcp_session res" where
  "fsm__last_ack__timer env s = retry_and_send env s"

definition fsm__last_ack__syscall :: "tcp_env \<Rightarrow> sys_call \<Rightarrow> tcp_session \<Rightarrow> tcp_session res" where
  "fsm__last_ack__syscall env sc s = abort_only env sc s"

definition fsm__last_ack__packet :: "tcp_env \<Rightarrow> tcp_metadata \<Rightarrow> tcp_session \<Rightarrow> tcp_session res" where
  "fsm__last_ack__packet env md s =
     (if md_syn md then emit_challenge_ack env s
      else
        bind_res (check_segment_acceptability env md s) (\<lambda>(s1, ok).
          if \<not> ok then Inr s1
          else if pure_ack md
          then (if md_ack md = snd_nxt (se_snd_seq s1) \<and> ack_in_window md s1 then Inr (change_state env CLOSED s1)
                else challenge_future_ack env md s1)
          else if plain_rst md then take_rst env None md s1
          else Inr s1))"

section \<open>TIME-WAIT\<close>

definition fsm__time_wait__timer :: "tcp_env \<Rightarrow> tcp_session \<Rightarrow> tcp_session res" where
  "fsm__time_wait__timer env s =
     Inr (if session_timer_expired env ''time_wait'' s then change_state env CLOSED s else s)"

definition fsm__time_wait__syscall :: "tcp_env \<Rightarrow> sys_call \<Rightarrow> tcp_session \<Rightarrow> tcp_session res" where
  "fsm__time_wait__syscall env sc s = abort_only env sc s"

definition reusable_syn :: "seq32 \<Rightarrow> tcp_metadata \<Rightarrow> tcp_session \<Rightarrow> bool" where
  "reusable_syn ts_recent_at_entry md s \<longleftrightarrow>
     md_syn md \<and> \<not> md_ack_flag md \<and> \<not> md_rst md \<and>
     (gt32 (md_seq md) (rcv_nxt (se_rcv_seq s)) \<or>
      (case md_tsval md of None \<Rightarrow> False | Some v \<Rightarrow> gt32 v ts_recent_at_entry))"

definition fsm__time_wait__packet :: "tcp_env \<Rightarrow> tcp_metadata \<Rightarrow> tcp_session \<Rightarrow> tcp_session res" where
  "fsm__time_wait__packet env md s =
     bind_res (check_paws_and_update_ts_recent env md s) (\<lambda>(s1, ok).
       if \<not> ok then Inr s1
       else if reusable_syn (ts_recent (se_ts s)) md s1
       then transmit_packet env (tx_plain\<lparr>rq_syn := True, rq_ack := True\<rparr>)
              (change_state env SYN_RCVD (reinit_for_rfc6191_reuse env md s1))
       else if md_fin md \<and> add32 (md_seq md) [1] = rcv_nxt (se_rcv_seq s1)
       then bind_res (send_ack env s1) (\<lambda>s2. Inr (arm_timer env ''time_wait'' (env_time_wait_ms env) s2))
       else if md_syn md then emit_challenge_ack env s1
       else Inr s1)"

section \<open>Dispatch\<close>

definition fsm__icmp__synchronized :: "tcp_env \<Rightarrow> icmp_metadata \<Rightarrow> tcp_session \<Rightarrow> tcp_session res" where
  "fsm__icmp__synchronized env md s = (if im_category md = PMTU then icmp_pmtu_event env md s else Inr s)"

definition dispatch_packet ::
    "(tcp_metadata \<Rightarrow> tcp_session \<Rightarrow> tcp_session res) \<Rightarrow> tcp_env \<Rightarrow> tcp_metadata \<Rightarrow> tcp_session \<Rightarrow> tcp_session res" where
  "dispatch_packet fsm env md s =
     (case se_state s of
        LISTEN \<Rightarrow> fsm__listen__packet env md s
      | SYN_SENT \<Rightarrow> fsm__syn_sent__packet fsm env md s
      | SYN_RCVD \<Rightarrow> fsm__syn_rcvd__packet fsm env md s
      | ESTABLISHED \<Rightarrow> fsm__established__packet fsm env md s
      | FIN_WAIT_1 \<Rightarrow> fsm__fin_wait_1__packet fsm env md s
      | FIN_WAIT_2 \<Rightarrow> fsm__fin_wait_2__packet fsm env md s
      | CLOSING \<Rightarrow> fsm__closing__packet fsm env md s
      | CLOSE_WAIT \<Rightarrow> fsm__close_wait__packet fsm env md s
      | LAST_ACK \<Rightarrow> fsm__last_ack__packet env md s
      | TIME_WAIT \<Rightarrow> fsm__time_wait__packet env md s
      | CLOSED \<Rightarrow> Inr s)"

definition dispatch_syscall :: "tcp_env \<Rightarrow> sys_call \<Rightarrow> tcp_session \<Rightarrow> tcp_session res" where
  "dispatch_syscall env sc s =
     (case se_state s of
        CLOSED \<Rightarrow> fsm__closed__syscall env sc s
      | LISTEN \<Rightarrow> fsm__listen__syscall env sc s
      | SYN_SENT \<Rightarrow> fsm__syn_sent__syscall env sc s
      | SYN_RCVD \<Rightarrow> fsm__syn_rcvd__syscall env sc s
      | ESTABLISHED \<Rightarrow> fsm__established__syscall env sc s
      | FIN_WAIT_1 \<Rightarrow> fsm__fin_wait_1__syscall env sc s
      | FIN_WAIT_2 \<Rightarrow> fsm__fin_wait_2__syscall env sc s
      | CLOSING \<Rightarrow> fsm__closing__syscall env sc s
      | CLOSE_WAIT \<Rightarrow> fsm__close_wait__syscall env sc s
      | LAST_ACK \<Rightarrow> fsm__last_ack__syscall env sc s
      | TIME_WAIT \<Rightarrow> fsm__time_wait__syscall env sc s)"

definition dispatch_timer :: "tcp_env \<Rightarrow> tcp_session \<Rightarrow> tcp_session res" where
  "dispatch_timer env s =
     (case se_state s of
        SYN_SENT \<Rightarrow> fsm__syn_sent__timer env s
      | SYN_RCVD \<Rightarrow> fsm__syn_rcvd__timer env s
      | ESTABLISHED \<Rightarrow> fsm__established__timer env s
      | FIN_WAIT_1 \<Rightarrow> fsm__fin_wait_1__timer env s
      | FIN_WAIT_2 \<Rightarrow> fsm__fin_wait_2__timer env s
      | CLOSING \<Rightarrow> fsm__closing__timer env s
      | CLOSE_WAIT \<Rightarrow> fsm__close_wait__timer env s
      | LAST_ACK \<Rightarrow> fsm__last_ack__timer env s
      | TIME_WAIT \<Rightarrow> fsm__time_wait__timer env s
      | _ \<Rightarrow> Inr s)"

definition dispatch_icmp :: "tcp_env \<Rightarrow> icmp_metadata \<Rightarrow> tcp_session \<Rightarrow> tcp_session res" where
  "dispatch_icmp env md s =
     (case se_state s of
        CLOSED \<Rightarrow> Inr s
      | LISTEN \<Rightarrow> fsm__listen__icmp md s
      | SYN_SENT \<Rightarrow> fsm__syn_sent__icmp env md s
      | _ \<Rightarrow> fsm__icmp__synchronized env md s)"

section \<open>The ECN preamble\<close>

definition ecn_guard :: "tcp_session \<Rightarrow> bool" where
  "ecn_guard s \<longleftrightarrow>
     ecn_recovery_point (se_ecn s) = 0 \<or> le32 (ecn_recovery_point (se_ecn s)) (snd_una (se_snd_seq s))"

definition ecn_reduce :: "tcp_session \<Rightarrow> tcp_session res" where
  "ecn_reduce s =
     bind_res (compute_ecn_event_ssthresh (flight_size (se_snd_seq s)) (win_snd_mss (se_win s))) (\<lambda>ssthresh.
       Inr (s\<lparr>se_cc := (se_cc s)\<lparr>cc_ssthresh := ssthresh, cc_cwnd := ssthresh,
                                 cc_snd_ewn := min ssthresh (win_snd_wnd (se_win s))\<rparr>\<rparr>))"

definition ecn_track :: "tcp_metadata \<Rightarrow> tcp_session \<Rightarrow> tcp_session" where
  "ecn_track md s =
     (let ecn = se_ecn s;
          ecn1 = (if ecn_enabled ecn \<and> md_cwr md then ecn\<lparr>ecn_send_ece := False\<rparr> else ecn);
          ecn2 = (if ecn_enabled ecn1 \<and> md_ecn md = 3 then ecn1\<lparr>ecn_send_ece := True\<rparr> else ecn1)
      in s\<lparr>se_ecn := ecn2,
           se_accecn := (if ae_enabled (se_accecn s)
                         then record_received_codepoint (md_ecn md) (int (length (md_data md))) (se_accecn s)
                         else se_accecn s)\<rparr>)"

definition ecn_classic_response :: "tcp_metadata \<Rightarrow> tcp_session \<Rightarrow> tcp_session res" where
  "ecn_classic_response md s =
     (if ecn_enabled (se_ecn s) \<and> md_ece md \<and> ecn_guard s
      then bind_res (ecn_reduce s) (\<lambda>s1.
             Inr (s1\<lparr>se_ecn := arm_cwr_response (snd_nxt (se_snd_seq s1)) (se_ecn s1)\<rparr>))
      else Inr s)"

definition accecn_mark :: "tcp_session \<Rightarrow> tcp_session res" where
  "accecn_mark s =
     bind_res (ecn_reduce s) (\<lambda>s1.
       Inr (s1\<lparr>se_ecn := (se_ecn s1)\<lparr>ecn_recovery_point := snd_nxt (se_snd_seq s1)\<rparr>\<rparr>))"

definition accecn_response :: "tcp_metadata \<Rightarrow> tcp_session \<Rightarrow> tcp_session res" where
  "accecn_response md s =
     (if \<not> ae_enabled (se_accecn s) then Inr s
      else
        (case md_accecn0_counters md of
           Some counters \<Rightarrow>
             bind_res (if (case fst (snd counters) of None \<Rightarrow> False | Some ce \<Rightarrow> ce > s_ce_b (se_accecn s)) \<and> ecn_guard s
                       then accecn_mark s else Inr s)
               (\<lambda>s1. Inr (s1\<lparr>se_accecn := update_sender_counters_from_option counters (se_accecn s1)\<rparr>))
         | None \<Rightarrow>
             if md_syn md then Inr s
             else (case apparent_ce_delta (incoming_ace md) (se_accecn s) of (ae, delta) \<Rightarrow>
                     let s1 = s\<lparr>se_accecn := ae\<rparr> in
                     if delta > 0 \<and> ecn_guard s1 then accecn_mark s1 else Inr s1)))"

definition ecn_receive :: "tcp_metadata \<Rightarrow> tcp_session \<Rightarrow> tcp_session res" where
  "ecn_receive md s = bind_res (ecn_classic_response md (ecn_track md s)) (accecn_response md)"

section \<open>The machine\<close>

definition packet_step ::
    "(tcp_metadata \<Rightarrow> tcp_session \<Rightarrow> tcp_session res) \<Rightarrow> tcp_env \<Rightarrow> tcp_metadata \<Rightarrow> tcp_session \<Rightarrow> tcp_session res" where
  "packet_step fsm env md s =
     bind_res (ecn_receive md s) (\<lambda>s1.
     bind_res (dispatch_packet fsm env md s1) (\<lambda>s2.
       Inr (pump_tail env (se_state s) True s2)))"

fun fsm_packet :: "nat \<Rightarrow> tcp_env \<Rightarrow> tcp_metadata \<Rightarrow> tcp_session \<Rightarrow> tcp_session res" where
  "fsm_packet 0 env md s = Inl RecursionError"
| "fsm_packet (Suc n) env md s = packet_step (fsm_packet n env) env md s"

definition tcp_fsm :: "tcp_env \<Rightarrow> fsm_event \<Rightarrow> tcp_session \<Rightarrow> tcp_session res" where
  "tcp_fsm env ev s =
     (case ev of
        Icmp md \<Rightarrow> bind_res (dispatch_icmp env md s) (\<lambda>s1. Inr (pump_tail env (se_state s) True s1))
      | Packet md \<Rightarrow> fsm_packet (Suc (length (se_ooo_packet_queue s))) env md s
      | Syscall sc \<Rightarrow> bind_res (dispatch_syscall env sc s) (\<lambda>s1. Inr (pump_tail env (se_state s) True s1))
      | Timer_Tick \<Rightarrow> bind_res (dispatch_timer env s) (\<lambda>s1. Inr (pump_tail env (se_state s) False s1)))"

definition session_shutdown :: "tcp_env \<Rightarrow> int \<Rightarrow> tcp_session \<Rightarrow> tcp_session res" where
  "session_shutdown env how s =
     passert (how \<in> {0, 1, 2})
       (let s1 = (if how \<in> {0, 2} \<and> \<not> shut_rd (se_shut s)
                  then s\<lparr>se_shut := (se_shut s)\<lparr>shut_rd := True\<rparr>, se_event_rx_buffer := True\<rparr> else s)
        in if how \<in> {1, 2} \<and> \<not> shut_wr (se_shut s1) \<and> \<not> se_closing s1
           then tcp_fsm env (Syscall SYSCALL_CLOSE) (s1\<lparr>se_shut := (se_shut s1)\<lparr>shut_wr := True\<rparr>\<rparr>)
           else Inr s1)"

section \<open>Concrete runs\<close>

text \<open>Events one after the other, in one environment.\<close>

fun run_events :: "tcp_env \<Rightarrow> fsm_event list \<Rightarrow> tcp_session \<Rightarrow> tcp_session res" where
  "run_events env [] s = Inr s"
| "run_events env (e # es) s = bind_res (tcp_fsm env e s) (run_events env es)"

text \<open>A segment without options at 100, and an open session that expects it and has sent nothing but its SYN.\<close>

definition sample_md :: tcp_metadata where
  "sample_md = \<lparr>md_ecn = 0, md_syn = False, md_ack_flag = True, md_fin = False, md_rst = False,
     md_ece = False, md_cwr = False, md_ns = False, md_seq = 100, md_ack = 5000, md_win = 1000, md_wscale = 0,
     md_mss = 1460, md_sackperm = False, md_sack_blocks = [], md_tsval = None, md_tsecr = None,
     md_fastopen_cookie = None, md_accecn0_counters = None, md_data = []\<rparr>"

definition sample_open :: tcp_session where
  "sample_open = (let s = session_init (sample_env\<lparr>env_iss := 5000\<rparr>) False in
     s\<lparr>se_state := ESTABLISHED, se_rcv_seq := \<lparr>rcv_ini = 99, rcv_nxt = 100, rcv_una = 100\<rparr>, se_peer_contacted := True,
       se_win := (se_win s)\<lparr>win_snd_wnd := 1000, win_snd_wsc := 0\<rparr>\<rparr>)"

lemma pump_loop_numeral:
  "pump_loop env (numeral k) s =
     bind_res (transmit_data env s) (\<lambda>s1. if snd_nxt (se_snd_seq s1) = snd_nxt (se_snd_seq s) then Inr s1
        else pump_loop env (pred_numeral k) s1)"
  by (simp add: numeral_eq_Suc)

text \<open>The definitions an event goes through; with \<open>eval_cong\<close> they evaluate a concrete run.\<close>

lemmas tcp_eval =
  passert_def lt32_def le32_def gt32_def ge32_def add32_def sub32_def in_range32_def CC_STATE__SSTHRESH_INF_def
  cc_init_def save_frto_snapshot_def restore_frto_snapshot_def save_fr_cubic_snapshot_def
  restore_fr_cubic_snapshot_def clear_fr_cubic_snapshot_def snd_advance_nxt_def bump_max_to_nxt_def
  record_fin_def bytes_acked_def window_init_def bump_max_window_def tx_drain_def bump_seq_mod_for_flags_def
  rtt_record_def rtt_clear_def rtt_taint_def ts_update_def arm_cwr_response_def consume_cwr_def
  ACCECN__INITIAL_BYTE_COUNTER_def ACCECN__INITIAL_CE_BYTE_COUNTER_def ACCECN__INITIAL_CEP_def
  ACCECN__LAST_EMIT_SENTINEL_def ACCECN__COUNTER_MASK_def accecn_init_def record_received_codepoint_def
  update_sender_counters_from_option_def next_ace_field_def next_emit_counters_def apparent_ce_delta_def
  reset_for_idle_def idle_timeout_def interval_timeout_def max_probes_def persist_deactivate_def
  serviced_timers_def timer_init_def pending_deadlines_def timer_reschedule_def timer_arm_def timer_cancel_def
  timer_cancel_all_def timer_deadline_def timer_armed_def timer_expired_def MAX_PROBES_def PROBE_TIMER__SEC_def
  PMTU_RAISE_TIMER__SEC_def MIN_PLPMTU__IP4_def MIN_PLPMTU__IP6_def BASE_PLPMTU__IP4_def BASE_PLPMTU__IP6_def
  LADDER_GRANULARITY_def VALIDATION_ACKS_def pmtu_init_def next_candidate_def enter_search_complete_def
  advance_search_def next_probe_size_def validate_ack_def accept_size_def on_probe_ack_def on_probe_loss_def
  on_classical_pmtu_def confirm_current_def on_black_hole_suspected_def probe_timer_expired_def limit_max_def
  seq_le_def ranges_overlap_def adapter_init_def lose_probes_def maybe_probe_def record_emitted_probe_def
  on_snd_una_advance_def on_rto_timeout_def on_range_retransmitted_def note_data_segment_def
  check_implicit_confirm_def adapter_limit_max_def adapter_on_classical_pmtu_def INITIAL_RTO_MS_def
  MAX_RTO_MS_def CLOCK_GRANULARITY_MS_def RTO_K_def ALPHA_NUM_def ALPHA_DEN_def BETA_NUM_def BETA_DEN_def
  initial_state_def clamp_rto_def rto_of_def rto_update_def back_off_def INITIAL_WINDOW_FACTOR_def
  INITIAL_WINDOW_BYTES_def cwnd_grow_per_ack_def compute_loss_event_ssthresh_def compute_ecn_event_ssthresh_def
  initial_window_def C_NUM_def C_DEN_def BETA_CUBIC_NUM_def BETA_CUBIC_DEN_def ALPHA_CUBIC_NUM_def
  ALPHA_CUBIC_DEN_def FAST_CONV_NUM_def FAST_CONV_DEN_def cubic_compute_K_def cubic_w_def cubic_target_def
  cubic_grow_per_ack_def cubic_loss_event_ssthresh_def cubic_w_est_def overlaps_or_touches_def merge_blocks_def
  add_block_def is_sacked_def total_sacked_bytes_def first_gap_def TCP__DUP_THRESH_def blocks_above_def
  is_lost_def next_seg_def pipe_def INFINITE_TS_def rack_sent_after_def rack_skip_def rack_fold_def
  rack_update_def mark_lost_def detect_one_def rack_detect_loss_def rack_compute_reo_wnd_def tlp_calc_pto_def
  tlp_process_ack_def RACK__REO_WND_PERSIST_DEFAULT_def RACK__REO_WND_MULT_INITIAL_def
  TLP__MAX_ACK_DELAY_MS_DEFAULT_def rack_tlp_init_def record_segment_def prune_segments_def
  decay_reo_wnd_persist_def maybe_close_dsack_round_def cancel_tlp_def mark_all_lost_def newly_acked_def
  fack_step_def run_detection_def rack_process_ack_def rack_reorder_tick_def candidate_def pending_def
  HYSTART__MIN_RTT_THRESH_MS_def HYSTART__MAX_RTT_THRESH_MS_def HYSTART__MIN_RTT_DIVISOR_def
  HYSTART__N_RTT_SAMPLE_def HYSTART__CSS_GROWTH_DIVISOR_def HYSTART__CSS_ROUNDS_def HYSTART__RTT_INFINITY_def
  hystart_init_def rtt_thresh_ms_def should_exit_slow_start_to_css_def should_resume_slow_start_from_css_def
  css_growth_increment_def fold_rtt_sample_def rotate_round_def enter_css_def resume_slow_start_def
  hystart_check_phase_transition_def harvest_rtt_def round_boundary_def arm_timer_def session_timer_expired_def
  session_timer_armed_def cancel_timer_def cancel_all_timers_def rcv_wnd_def tx_buffer_nxt_def tx_buffer_una_def
  mss_ceiling_def has_pump_work_def pump_tail_def kick_pump_def session_init_def keepalive_arm_idle_def
  leave_established_def leave_syn_rcvd_def change_state_def keepalive_probe_def keepalive_tick_def
  ingest_sack_info_def prune_sack_scoreboard_def skip_sacked_def advance_snd_nxt_past_sacked_def
  enqueue_rx_buffer_def session_send_def session_receive_def apply_pmtu_update_def tx_plain_def consumes_seq_def
  restart_after_idle_def sample_rtt_def phase0_pre_send_hygiene_def build_sack_blocks_def
  phase1_compose_ecn_flags_def phase2_build_accecn_counters_def phase3_build_fastopen_cookie_def
  advanced_snd_def phase4_advance_send_state_def arm_send_timers_def arm_tlp_def phase5_post_send_timers_def
  tx_window_field_def tx_timestamps_def tx_sack_option_def compose_segment_def transmit_packet_def
  emit_challenge_ack_def delayed_ack_def options_overhead_def mss_for_data_def remaining_data_len_def
  usable_window_def plan_segment_def tx_slice_def report_to_adapter_def send_planned_def persist_turn_def
  transmit_data_def MAX_SEGMENTS_PER_PUMP_def session_transmit_data_def sample_env_def seg_len_def
  segment_acceptable_def check_segment_acceptability_def check_paws_and_update_ts_recent_def
  check_rst_acceptability_def TCP__MIN_MSS_def reinit_for_rfc6191_reuse_def session_rack_process_ack_def
  session_rack_reorder_tick_def flight_size_def retransmit_budget_def note_timeout_def abandon_session_def
  frto_enter_def rto_ssthresh_def rto_congestion_def rto_shrink_mss_def rto_handshake_def rto_backoff_def
  rewind_def retransmit_packet_timeout_def count_dup_ack_def dup_ack_count_def limited_transmit_def
  fast_ssthresh_def enter_recovery_def start_fast_retransmit_def sack_trigger_def retransmit_packet_request_def
  tlp_target_def tlp_pto_tick_def follow_plpmtud_def cc_round_boundary_def note_delivered_def prr_window_def
  grow_window_def ack_congestion_def tlp_on_ack_def ack_timers_def phase2_frto_spurious_detect_def
  phase1_cum_ack_side_effects_def cc_harvest_def take_sample_def phase3_harvest_rtt_samples_def
  exit_recovery_def phase4_loss_detection_and_recovery_exit_def overlap_prefix_def md_end_def advance_rcv_def
  consume_data_def follow_window_def settle_def catch_up_nxt_def phase5_consume_segment_and_postprocess_def
  ack_side_def process_ack_packet_def pure_ack_def fin_ack_def plain_rst_def plain_syn_def send_ack_def
  session_abort_def take_rst_def ack_in_window_def challenge_future_ack_def window_update_def scaled_window_def
  bare_ack_at_una_def adopt_peer_mss_def adopt_options_def one_segment_window_def open_window_def
  fsm__closed__syscall_def fsm__listen__syscall_def fsm__listen__icmp_def listen_ecn_def tfo_enabled_def
  tfo_cookie_valid_def syn_data_def accept_syn_def fsm__listen__packet_def hard_codes_def soft_host_codes_def
  soft_net_codes_def icmp_pmtu_event_def fsm__syn_sent__icmp_def retry_and_send_def fsm__syn_sent__timer_def
  fsm__syn_sent__syscall_def reject_reset_def syn_sent_ecn_def adopt_syn_ack_def finish_syn_ack_def
  simultaneous_open_def fsm__syn_sent__packet_def fsm__syn_rcvd__timer_def fsm__syn_rcvd__syscall_def
  incoming_ace_def syn_rcvd_ecn_def finish_handshake_def fsm__syn_rcvd__packet_def fsm__established__timer_def
  fsm__established__syscall_def queue_overlap_def queue_segment_def established_bare_ack_def established_ack_def
  established_fin_def fsm__established__packet_def fsm__fin_wait_1__timer_def abort_only_def
  fsm__fin_wait_1__syscall_def enter_time_wait_def fin_acked_step_def fin_wait_1_ack_def fin_wait_1_fin_def
  fsm__fin_wait_1__packet_def fsm__fin_wait_2__timer_def fsm__fin_wait_2__syscall_def fin_wait_2_ack_def
  fin_wait_2_fin_def fsm__fin_wait_2__packet_def fsm__closing__timer_def fsm__closing__syscall_def
  closing_ack_def fsm__closing__packet_def fsm__close_wait__timer_def fsm__close_wait__syscall_def
  close_wait_ack_def fsm__close_wait__packet_def fsm__last_ack__timer_def fsm__last_ack__syscall_def
  fsm__last_ack__packet_def fsm__time_wait__timer_def fsm__time_wait__syscall_def reusable_syn_def
  fsm__time_wait__packet_def fsm__icmp__synchronized_def dispatch_packet_def dispatch_syscall_def
  dispatch_timer_def dispatch_icmp_def ecn_guard_def ecn_reduce_def ecn_track_def ecn_classic_response_def
  accecn_mark_def accecn_response_def ecn_receive_def packet_step_def tcp_fsm_def session_shutdown_def
  sample_md_def sample_open_def pump_loop_numeral Let_def

end
