(* ===== verification/Tcp_Frame.thy ===== *)
theory Tcp_Frame
  imports Tcp_Fsm
begin

text \<open>
  What the operations of a session leave alone. A \<^emph>\<open>view\<close> is the part of a session that a proof
  follows. Locale \<open>session_view\<close> is for views that do not look at the fields the senders, the
  timers, the congestion control and the loss recovery write: sending, retransmitting,
  validating a segment and processing its acknowledgment leave the view as it was.
  \<open>stateless_view\<close> extends it to views that do not look at the connection state either. The
  receive side of a session is a \<open>stateless_view\<close>, the connection state a \<open>session_view\<close>.
\<close>

section \<open>Steps that leave a view alone\<close>

text \<open>A step that returns a session, and one that returns a session and a verdict.\<close>

definition leaves :: "(tcp_session \<Rightarrow> 'v) \<Rightarrow> tcp_session \<Rightarrow> tcp_session res \<Rightarrow> bool" where
  "leaves view s r \<longleftrightarrow> (\<forall>s'. r = Inr s' \<longrightarrow> view s' = view s)"

definition leaves2 :: "(tcp_session \<Rightarrow> 'v) \<Rightarrow> tcp_session \<Rightarrow> (tcp_session \<times> bool) res \<Rightarrow> bool" where
  "leaves2 view s r \<longleftrightarrow> (\<forall>s' ok. r = Inr (s', ok) \<longrightarrow> view s' = view s)"

named_theorems view_keep

lemma leavesD: "leaves view s r \<Longrightarrow> r = Inr s' \<Longrightarrow> view s' = view s"
  by (simp add: leaves_def)

lemma leaves2D: "leaves2 view s r \<Longrightarrow> r = Inr (s', ok) \<Longrightarrow> view s' = view s"
  by (simp add: leaves2_def)

lemma leaves_Inr [simp]: "leaves view s (Inr s') \<longleftrightarrow> view s' = view s"
  by (simp add: leaves_def)

lemma leaves2_Inr [simp]: "leaves2 view s (Inr (s', ok)) \<longleftrightarrow> view s' = view s"
  by (simp add: leaves2_def)

lemma leaves_Inl [simp]: "leaves view s (Inl e)"
  by (simp add: leaves_def)

lemma leaves_cong: "view s = view t \<Longrightarrow> leaves view t r \<Longrightarrow> leaves view s r"
  by (simp add: leaves_def)

lemma leaves_bind:
  "leaves view s x \<Longrightarrow> (\<And>a. x = Inr a \<Longrightarrow> view a = view s \<Longrightarrow> leaves view a (f a)) \<Longrightarrow> leaves view s (bind_res x f)"
  by (auto simp: leaves_def bind_res_Inr)

lemma leaves2_bind:
  "leaves2 view s x \<Longrightarrow> (\<And>a ok. x = Inr (a, ok) \<Longrightarrow> view a = view s \<Longrightarrow> leaves view a (f (a, ok))) \<Longrightarrow>
   leaves view s (bind_res x f)"
  by (auto simp: leaves_def leaves2_def bind_res_Inr)

lemma leaves_bind2:
  "leaves view s x \<Longrightarrow> (\<And>a. x = Inr a \<Longrightarrow> view a = view s \<Longrightarrow> leaves2 view a (f a)) \<Longrightarrow> leaves2 view s (bind_res x f)"
  by (auto simp: leaves_def leaves2_def bind_res_Inr)

text \<open>A pure computation followed by a step.\<close>

lemma leaves_bind_pure: "(\<And>a. x = Inr a \<Longrightarrow> leaves view s (f a)) \<Longrightarrow> leaves view s (bind_res x f)"
  by (auto simp: leaves_def bind_res_Inr)

lemma leaves_if: "leaves view s x \<Longrightarrow> leaves view s y \<Longrightarrow> leaves view s (if b then x else y)"
  by simp

section \<open>Views that do not look at the sender\<close>

locale session_view =
  fixes view :: "tcp_session \<Rightarrow> 'v"
  assumes view_upd [simp]:
      "view (s\<lparr>se_snd_seq := v1\<rparr>) = view s" "view (s\<lparr>se_cc := v2\<rparr>) = view s"
      "view (s\<lparr>se_rack_tlp := v3\<rparr>) = view s" "view (s\<lparr>se_tx := v4\<rparr>) = view s"
      "view (s\<lparr>se_win := v5\<rparr>) = view s" "view (s\<lparr>se_effects := v6\<rparr>) = view s"
      "view (s\<lparr>se_plpmtud_adapter := v7\<rparr>) = view s" "view (s\<lparr>se_persist := v8\<rparr>) = view s"
      "view (s\<lparr>se_rtt := v9\<rparr>) = view s" "view (s\<lparr>se_rto_state := v10\<rparr>) = view s"
      "view (s\<lparr>se_connection_error := v11\<rparr>) = view s" "view (s\<lparr>se_event_rx_buffer := v12\<rparr>) = view s"
      "view (s\<lparr>se_event_connect := v13\<rparr>) = view s" "view (s\<lparr>se_retransmit_count := v14\<rparr>) = view s"
      "view (s\<lparr>se_syn_retransmit_count := v15\<rparr>) = view s" "view (s\<lparr>se_fastopen := v16\<rparr>) = view s"
      "view (s\<lparr>se_ts := v17\<rparr>) = view s" "view (s\<lparr>se_pending_dsack := v18\<rparr>) = view s"
      "view (s\<lparr>se_sack_scoreboard := v19\<rparr>) = view s" "view (s\<lparr>se_dsack_received := v20\<rparr>) = view s"
      "view (s\<lparr>se_ecn := v21\<rparr>) = view s" "view (s\<lparr>se_accecn := v22\<rparr>) = view s"
      "view (s\<lparr>se_closing := v23\<rparr>) = view s" "view (s\<lparr>se_keepalive := v24\<rparr>) = view s"
      "view (s\<lparr>se_timers := v25\<rparr>) = view s" "view (s\<lparr>se_delayed_ack_segments_pending := v26\<rparr>) = view s"
      "view (s\<lparr>se_event_closed := v27\<rparr>) = view s" "view (s\<lparr>se_advertise := v28\<rparr>) = view s"
    and view_rcv_una [simp]:
      "rcv_nxt r = rcv_nxt (se_rcv_seq s) \<Longrightarrow> rcv_ini r = rcv_ini (se_rcv_seq s) \<Longrightarrow> view (s\<lparr>se_rcv_seq := r\<rparr>) = view s"
begin

subsection \<open>Timers, state changes and the outbound engine\<close>

lemma view_arm_timer [view_keep]: "view (arm_timer env n d s) = view s"
  by (simp add: cancel_all_timers_def arm_timer_def)

lemma view_cancel_timer [view_keep]: "view (cancel_timer env n s) = view s"
  by (simp add: cancel_all_timers_def cancel_timer_def)

lemma view_pump_tail [view_keep]: "view (pump_tail env st ext s) = view s"
  by (simp add: pump_tail_def Let_def view_keep)

lemma view_arm_idle [view_keep]: "view (keepalive_arm_idle env s) = view s"
  by (rule keepalive_frame [of env s]) (simp add: cancel_all_timers_def)

lemma view_transmit_packet [view_keep]: "leaves view s (transmit_packet env rq s)"
  unfolding leaves_def
proof (intro allI impI)
  fix s' assume "transmit_packet env rq s = Inr s'"
  then show "view s' = view s" by (rule transmit_packet_frame) (simp add: cancel_all_timers_def)
qed

lemma view_send_ack [view_keep]: "leaves view s (send_ack env s)"
  by (simp add: send_ack_def view_keep)

lemma view_challenge [view_keep]: "leaves view s (emit_challenge_ack env s)"
  by (auto simp: emit_challenge_ack_def view_keep intro!: leaves_bind)

lemma view_delayed_ack [view_keep]: "leaves view s (delayed_ack env s)"
  by (auto simp: delayed_ack_def view_keep intro!: leaves_bind)

lemma view_send_planned [view_keep]: "leaves view s (send_planned env probe n s)"
  by (auto simp: send_planned_def Let_def view_keep intro!: leaves_bind) (subst report_frame, simp)+

lemma view_persist_turn [view_keep]: "leaves view s (persist_turn env s)"
  by (auto simp: persist_turn_def Let_def view_keep intro!: leaves_bind)

lemma view_transmit_data [view_keep]: "leaves view s (transmit_data env s)"
proof -
  obtain x where adv: "advance_snd_nxt_past_sacked s = s\<lparr>se_snd_seq := (se_snd_seq s)\<lparr>snd_nxt := x\<rparr>\<rparr>" by (rule advance_frame)
  obtain s2 probe n where pl: "plan_segment env (advance_snd_nxt_past_sacked s) = (s2, probe, n)" by (metis prod_cases3)
  have s2: "view s2 = view s" by (subst plan_segment_spec(1) [OF pl]) (simp add: adv)
  then have "leaves view s (send_planned env probe n s2)" "leaves view s (persist_turn env s2)"
    by (metis leaves_cong view_send_planned) (metis leaves_cong s2 view_persist_turn)
  then show ?thesis by (auto simp: transmit_data_def Let_def pl s2 view_keep)
qed

lemma view_pump_loop [view_keep]: "leaves view s (pump_loop env k s)"
  by (induction k arbitrary: s) (auto simp: view_keep intro!: leaves_bind)

lemma view_session_transmit_data [view_keep]: "leaves view s (session_transmit_data env s)"
  by (simp add: session_transmit_data_def view_keep)

subsection \<open>Checks on inbound segments\<close>

lemma view_acceptability [view_keep]: "leaves2 view s (check_segment_acceptability env md s)"
proof -
  have "leaves view s (emit_challenge_ack env (s\<lparr>se_pending_dsack := d\<rparr>))" for d
    by (rule leaves_cong [OF _ view_challenge]) simp
  then show ?thesis by (auto simp: check_segment_acceptability_def Let_def view_keep intro!: leaves_bind2)
qed

lemma view_paws [view_keep]: "leaves2 view s (check_paws_and_update_ts_recent env md s)"
  by (auto simp: check_paws_and_update_ts_recent_def Let_def view_keep intro!: leaves_bind2 split: option.splits)

lemma view_rst [view_keep]: "leaves2 view s (check_rst_acceptability env md s)"
  by (auto simp: check_rst_acceptability_def Let_def view_keep intro!: leaves_bind2)

subsection \<open>The retransmitter\<close>

lemma view_ingest [view_keep]: "leaves view s (ingest_sack_info md s)"
  by (auto simp: ingest_sack_info_def Let_def intro!: leaves_bind_pure)

lemma view_prune [view_keep]: "view (prune_sack_scoreboard s) = view s"
  by (simp add: prune_sack_scoreboard_def)

lemma view_rack_process [view_keep]: "leaves view s (session_rack_process_ack env md s)"
  by (auto simp: session_rack_process_ack_def Let_def view_keep intro!: leaves_bind_pure)

lemma view_rack_tick [view_keep]: "leaves view s (session_rack_reorder_tick env s)"
  by (auto simp: session_rack_reorder_tick_def Let_def view_keep intro!: leaves_bind_pure)

lemma view_note_timeout [view_keep]: "view (note_timeout s) = view s"
  by (simp add: note_timeout_def Let_def cancel_all_timers_def)

lemma view_backoff [view_keep]: "view (rto_backoff env s) = view s"
proof -
  have "view (rto_shrink_mss x) = view x" "view (rto_handshake x) = view x" for x
    by (simp_all add: rto_shrink_mss_def rto_handshake_def Let_def cancel_all_timers_def)
  then show ?thesis by (simp add: rto_backoff_def Let_def view_keep)
qed

lemma view_limited_transmit [view_keep]: "leaves view s (limited_transmit env count s)"
proof -
  have "leaves view s (session_transmit_data env (s\<lparr>se_cc := c\<rparr>))" for c
    by (rule leaves_cong [OF _ view_session_transmit_data]) simp
  then show ?thesis by (auto simp: limited_transmit_def Let_def intro!: leaves_bind)
qed

lemma view_fast_retransmit [view_keep]: "leaves view s (start_fast_retransmit env s)"
  by (auto simp: start_fast_retransmit_def intro!: leaves_bind_pure)

lemma view_request [view_keep]: "leaves view s (retransmit_packet_request env md s)"
proof -
  have tail: "leaves view x (bind_res (sack_trigger y) (\<lambda>sack. bind_res (limited_transmit env c y)
      (\<lambda>z. if c \<noteq> 3 \<and> \<not> sack then Inr z else start_fast_retransmit env z)))" if "view y = view x" for x y c
    by (rule leaves_bind_pure, rule leaves_bind, rule leaves_cong [OF _ view_limited_transmit]) (auto simp: that view_keep)
  show ?thesis unfolding retransmit_packet_request_def Let_def
    by (rule leaves_bind, rule view_ingest, rule leaves_bind, rule view_rack_process) (auto simp: tail)
qed

lemma view_tlp_tick [view_keep]: "leaves view s (tlp_pto_tick env s)"
proof -
  have "view (tlp_target x) = view x" for x by (simp add: tlp_target_def Let_def cancel_all_timers_def)
  then have "leaves view s (session_transmit_data env (tlp_target (cancel_timer env ''tlp'' s)))"
    by (intro leaves_cong [OF _ view_session_transmit_data]) (simp add: view_keep)
  then show ?thesis by (auto simp: tlp_pto_tick_def Let_def view_keep intro!: leaves_bind)
qed

subsection \<open>The acknowledgment side of a segment\<close>

lemma view_phase1 [view_keep]: "leaves view s (phase1_cum_ack_side_effects env md s)"
proof -
  have f: "view (follow_plpmtud env x) = view x" for x by (simp add: follow_plpmtud_def Let_def cancel_all_timers_def)
  have t: "leaves view x (tlp_on_ack md x)" for x
    by (auto simp: tlp_on_ack_def Let_def split: prod.splits intro!: leaves_bind_pure)
  have k: "view (ack_timers env x) = view x" for x by (simp add: ack_timers_def Let_def view_keep)
  have tail: "leaves view s (bind_res (ack_congestion env n y) (\<lambda>cc. bind_res (tlp_on_ack md (y\<lparr>se_cc := cc, se_retransmit_count := 0\<rparr>))
      (\<lambda>z. Inr ((ack_timers env z)\<lparr>se_cc := c z\<rparr>))))" if "view y = view s" for y n c
    by (rule leaves_bind_pure, rule leaves_bind, rule leaves_cong [OF _ t]) (auto simp: that k)
  show ?thesis unfolding phase1_cum_ack_side_effects_def Let_def by (auto simp: f tail)
qed

lemma view_phase3 [view_keep]: "leaves view s (phase3_harvest_rtt_samples env md s)"
proof -
  have t: "leaves view x (take_sample env rtt x)" for x rtt by (auto simp: take_sample_def intro!: leaves_bind_pure)
  show ?thesis unfolding phase3_harvest_rtt_samples_def
    by (rule leaves_bind) (auto simp: t split: option.splits intro!: leaves_bind)
qed

lemma view_phase4 [view_keep]: "leaves view s (phase4_loss_detection_and_recovery_exit env md s)"
  unfolding phase4_loss_detection_and_recovery_exit_def Let_def by (rule leaves_bind, rule view_rack_process) auto

lemma view_ack_side [view_keep]: "leaves view s (ack_side env md s)"
  unfolding ack_side_def
  by (auto simp: view_keep intro!: leaves_bind leaves_cong [OF _ view_phase1] leaves_cong [OF _ view_ingest])

lemma view_challenge_future [view_keep]: "leaves view s (challenge_future_ack env md s)"
  by (simp add: challenge_future_ack_def view_keep)

lemma view_window_update [view_keep]: "leaves view s (window_update env w md s)"
  unfolding window_update_def Let_def by (rule leaves_cong [OF _ view_ingest]) (simp add: view_keep)

lemma view_bare_ack [view_keep]: "leaves view s (established_bare_ack env md s)"
proof -
  have "view (keepalive_arm_idle env s) = view s" by (rule view_arm_idle)
  then show ?thesis unfolding established_bare_ack_def Let_def
    using leaves_cong [OF _ view_window_update] leaves_cong [OF _ view_request] by auto
qed

lemma view_open_window [view_keep]: "leaves view s (open_window s)"
  by (auto simp: open_window_def Let_def intro!: leaves_bind_pure)

lemma view_syn_rcvd_ecn [view_keep]: "view (syn_rcvd_ecn md s) = view s"
  by (simp add: syn_rcvd_ecn_def Let_def)

lemma view_ecn_receive [view_keep]: "leaves view s (ecn_receive md s)"
proof -
  have r: "leaves view x (ecn_reduce x)" for x by (auto simp: ecn_reduce_def intro!: leaves_bind_pure)
  then have mark: "leaves view x (accecn_mark x)" for x unfolding accecn_mark_def by (rule leaves_bind) simp
  have a: "leaves view x (accecn_response md x)" for x
    unfolding accecn_response_def Let_def
    by (auto split: option.split prod.split intro!: leaves_bind leaves_cong [OF _ mark] simp: mark)
  have c: "leaves view x (ecn_classic_response md x)" for x
    by (auto simp: ecn_classic_response_def r intro!: leaves_bind)
  have "view (ecn_track md s) = view s" by (simp add: ecn_track_def Let_def)
  then show ?thesis unfolding ecn_receive_def by (intro leaves_bind leaves_cong [OF _ c] a) simp
qed

end

section \<open>Views that do not look at the connection state\<close>

locale stateless_view = session_view +
  assumes view_state [simp]: "view (s\<lparr>se_state := st\<rparr>) = view s"
begin

lemma view_change_state [view_keep]: "view (change_state env st s) = view s"
proof -
  have a: "view (leave_syn_rcvd o1 n1 x) = view x" "view (leave_established o1 n1 x) = view x" for o1 n1 x
    by (simp_all add: leave_syn_rcvd_def leave_established_def cancel_all_timers_def Let_def)
  have b: "view (cancel_all_timers x) = view x" "view (x\<lparr>se_event_rx_buffer := y\<rparr>) = view x"
    "view (x\<lparr>se_event_closed := z, se_effects := e\<rparr>) = view x" "view (x\<lparr>se_state := st2\<rparr>) = view x" for x y z e st2
    by (simp_all add: cancel_all_timers_def cancel_all_timers_def)
  show ?thesis by (simp add: change_state_def Let_def view_arm_idle a b)
qed

lemma view_abandon [view_keep]: "leaves view s (abandon_session env s)"
  by (auto simp: abandon_session_def view_keep intro!: leaves_bind)

lemma view_timeout [view_keep]: "leaves view s (retransmit_packet_timeout env s)"
  by (auto simp: retransmit_packet_timeout_def Let_def view_keep intro!: leaves_bind_pure)

lemma view_take_rst [view_keep]: "leaves view s (take_rst env err md s)"
  unfolding take_rst_def by (rule leaves2_bind, rule view_rst) (simp add: view_keep)

lemma view_abort [view_keep]: "leaves view s (session_abort env s)"
  by (auto simp: session_abort_def view_keep intro!: leaves_bind)

lemma view_abort_only [view_keep]: "leaves view s (abort_only env sc s)"
  by (simp add: abort_only_def view_keep)

lemma view_finish_handshake [view_keep]: "leaves view s (finish_handshake env md s)"
  unfolding finish_handshake_def Let_def
  by (rule leaves_bind, rule view_open_window, rule leaves_bind) (auto simp: view_keep)

lemma view_retry [view_keep]: "leaves view s (retry_and_send env s)"
  unfolding retry_and_send_def by (rule leaves_bind) (rule view_timeout, rule view_session_transmit_data)

lemma view_time_wait [view_keep]: "view (enter_time_wait env s) = view s"
  by (simp add: enter_time_wait_def view_keep)

lemma view_fin_acked [view_keep]: "view (fin_acked_step env md s) = view s"
  by (simp add: fin_acked_step_def Let_def view_keep)

lemma view_timer [view_keep]: "leaves view s (dispatch_timer env s)"
proof -
  have k: "view (keepalive_tick env x) = view x" for x by (simp add: keepalive_tick_def Let_def view_keep)
  have "leaves view s (fsm__established__timer env s)" unfolding fsm__established__timer_def
    by (rule leaves_bind, rule view_retry, rule leaves_bind, rule view_delayed_ack, rule leaves_bind,
        rule leaves_cong [OF sym [OF k] view_rack_tick], rule leaves_bind, rule view_tlp_tick) (simp add: view_keep)
  moreover have "leaves view s (fsm__close_wait__timer env s)" unfolding fsm__close_wait__timer_def
    by (rule leaves_bind, rule view_retry, rule leaves_bind, rule view_delayed_ack) (simp add: view_keep)
  ultimately show ?thesis
    by (simp add: dispatch_timer_def fsm__syn_sent__timer_def fsm__syn_rcvd__timer_def fsm__fin_wait_1__timer_def
      fsm__fin_wait_2__timer_def fsm__closing__timer_def fsm__last_ack__timer_def fsm__time_wait__timer_def view_keep
      split: fsm_state.split)
qed

lemma view_syscall [view_keep]: "leaves view s (dispatch_syscall env sc s)"
  by (simp add: dispatch_syscall_def fsm__closed__syscall_def fsm__listen__syscall_def fsm__syn_sent__syscall_def
    fsm__syn_rcvd__syscall_def fsm__established__syscall_def fsm__fin_wait_1__syscall_def fsm__fin_wait_2__syscall_def
    fsm__closing__syscall_def fsm__close_wait__syscall_def fsm__last_ack__syscall_def fsm__time_wait__syscall_def view_keep
    split: fsm_state.split sys_call.split)

lemma view_icmp [view_keep]: "leaves view s (dispatch_icmp env md s)"
proof -
  have p: "view (apply_pmtu_update env mtu v s) = view s" for mtu v by (simp add: apply_pmtu_update_def Let_def cancel_all_timers_def)
  then have "leaves view s (icmp_pmtu_event env md s)" by (simp add: icmp_pmtu_event_def split: option.split)
  then show ?thesis
    by (simp add: dispatch_icmp_def fsm__listen__icmp_def fsm__syn_sent__icmp_def fsm__icmp__synchronized_def view_keep
      split: fsm_state.split icmp_category.split)
qed

end

end
