(* ===== verification/Tcp_Rx.thy ===== *)
theory Tcp_Rx
  imports Tcp_Frame
begin

text \<open>
  What a session delivers. The sender's stream is a list of bytes; a genuine segment carries a
  slice of it at the slice's sequence number. The theory follows the receive buffer, RCV.NXT
  and the out-of-order queue through every handler of the state machine and shows that the
  application reads a prefix of the stream, whatever the order, overlap and repetition of the
  segments, the timers, the ICMP errors and the system calls in between.

  Almost everything the machine does leaves the receive side alone. \<open>rx_side\<close> is that side,
  and the first sections show which steps keep it.
\<close>

section \<open>Steps that keep the receive side\<close>

definition rx_side :: "tcp_session \<Rightarrow> bytes \<times> seq32 \<times> (seq32 \<times> tcp_metadata) list \<times> shutdown_state" where
  "rx_side s = (se_rx_buffer s, rcv_nxt (se_rcv_seq s), se_ooo_packet_queue s, se_shut s)"

interpretation rx: stateless_view rx_side
  by unfold_locales (simp_all add: rx_side_def)

abbreviation keeps :: "tcp_session \<Rightarrow> tcp_session res \<Rightarrow> bool" where "keeps \<equiv> leaves rx_side"

abbreviation keeps2 :: "tcp_session \<Rightarrow> (tcp_session \<times> bool) res \<Rightarrow> bool" where "keeps2 \<equiv> leaves2 rx_side"

section \<open>Positions in the stream\<close>

lemma fwd_pos: "a \<le> b \<Longrightarrow> int b - int a < 4294967296 \<Longrightarrow> fwd (base + of_nat a) (base + of_nat b) = int b - int a"
  using fwd_add [of "base + of_nat a" "base + of_nat a" "int b - int a"] by simp

lemma lt32_pos:
  assumes "\<bar>int a - int b\<bar> < 2147483648"
  shows "lt32 (base + of_nat a) (base + of_nat b) \<longleftrightarrow> a < b"
proof (cases "a \<le> b")
  case True
  then show ?thesis using assms fwd_pos [of a b base] by (simp add: lt32_iff)
next
  case False
  then have "fwd (base + of_nat b) (base + of_nat a) = int a - int b" using assms fwd_pos [of b a base] by simp
  then have "fwd (base + of_nat a) (base + of_nat b) = 4294967296 - (int a - int b)"
    using False by (simp add: fwd_back [of "base + of_nat a"])
  then show ?thesis using False assms by (simp add: lt32_iff)
qed

lemma pos_inject:
  fixes base :: seq32
  assumes "base + of_nat a = base + of_nat b" "\<bar>int a - int b\<bar> < 2147483648"
  shows "a = b"
  using fwd_pos [of a b base] fwd_pos [of b a base] assms by (cases "a \<le> b") auto

text \<open>The segment \<open>md\<close> carries the bytes of the stream from position \<open>k\<close> on; FIN follows the last byte.\<close>

definition seg_at :: "seq32 \<Rightarrow> bytes \<Rightarrow> nat \<Rightarrow> tcp_metadata \<Rightarrow> bool" where
  "seg_at base str k md \<longleftrightarrow>
     \<not> md_syn md \<and> md_seq md = base + of_nat k \<and> length (md_data md) \<le> 65535 \<and>
     k + length (md_data md) \<le> length str \<and> md_data md = take (length (md_data md)) (drop k str) \<and>
     (md_fin md \<longrightarrow> k + length (md_data md) = length str)"

text \<open>A segment of the stream that is not older or newer than half the sequence space.\<close>

definition genuine :: "seq32 \<Rightarrow> bytes \<Rightarrow> nat \<Rightarrow> tcp_metadata \<Rightarrow> bool" where
  "genuine base str p md \<longleftrightarrow> (\<exists>k. seg_at base str k md \<and> \<bar>int k - int p\<bar> < 2147000000)"

text \<open>
  The invariant at position \<open>p\<close>, after \<open>got\<close> has been read: RCV.NXT is at \<open>p\<close>, what was read
  and what is buffered is the stream up to \<open>p\<close>, or to where reading was shut down, and the
  queue holds segments of the stream at or after \<open>p\<close> under their sequence numbers.
\<close>

definition queue_ok :: "seq32 \<Rightarrow> bytes \<Rightarrow> nat \<Rightarrow> (seq32 \<times> tcp_metadata) list \<Rightarrow> bool" where
  "queue_ok base str p q \<longleftrightarrow>
     (\<forall>(n, md) \<in> set q. md_seq md = n \<and> (\<exists>k. seg_at base str k md \<and> p \<le> k \<and> int k - int p < 2147000000))"

definition rx_inv :: "seq32 \<Rightarrow> bytes \<Rightarrow> bytes \<Rightarrow> nat \<Rightarrow> tcp_session \<Rightarrow> bool" where
  "rx_inv base str got p s \<longleftrightarrow>
     rcv_nxt (se_rcv_seq s) = base + of_nat p \<and> p \<le> Suc (length str) \<and>
     (\<exists>m \<le> p. got @ se_rx_buffer s = take m str \<and> (\<not> shut_rd (se_shut s) \<longrightarrow> m = p)) \<and>
     queue_ok base str p (se_ooo_packet_queue s)"

lemma rx_inv_cong: "rx_side s' = rx_side s \<Longrightarrow> rx_inv base str got p s' = rx_inv base str got p s"
  by (simp add: rx_inv_def rx_side_def)

lemma md_end_pos: "seg_at base str k md \<Longrightarrow> md_end md = base + of_nat (k + length (md_data md) + of_bool (md_fin md))"
  by (simp add: seg_at_def md_end_def add32_def)

text \<open>The new part of a segment continues the stream.\<close>

lemma take_extend:
  assumes "k \<le> p" "p \<le> k + l"
  shows "take p str @ drop (p - k) (take l (drop k str)) = take (k + l) str"
proof -
  have "drop (p - k) (take l (drop k str)) = take (k + l - p) (drop p str)"
    using assms by (simp add: drop_take add.commute)
  then show ?thesis using assms take_add [of p "k + l - p" str] by simp
qed

lemma consume_data_inv:
  assumes inv: "rx_inv base str got p s" and seg: "seg_at base str k md" and k: "k \<le> p" "int p - int k < 2147000000"
    and run: "consume_data env md s = Inr s'"
  defines "p' \<equiv> max p (k + length (md_data md) + of_bool (md_fin md))"
  shows "rcv_nxt (se_rcv_seq s') = base + of_nat p'" "p' \<le> Suc (length str)" "p \<le> p'" "int p' - int p \<le> 65536"
    "\<exists>m \<le> p'. got @ se_rx_buffer s' = take m str \<and> (\<not> shut_rd (se_shut s') \<longrightarrow> m = p')"
    "se_ooo_packet_queue s' = se_ooo_packet_queue s" "se_shut s' = se_shut s"
proof -
  let ?l = "length (md_data md)" and ?f = "of_bool (md_fin md) :: nat"
  have nxt: "rcv_nxt (se_rcv_seq s) = base + of_nat p" and p: "p \<le> Suc (length str)"
    and m: "\<exists>m \<le> p. got @ se_rx_buffer s = take m str \<and> (\<not> shut_rd (se_shut s) \<longrightarrow> m = p)"
    using inv by (simp_all add: rx_inv_def)
  have l: "?l \<le> 65535" "k + ?l \<le> length str" "md_fin md \<Longrightarrow> k + ?l = length str"
    and data: "md_data md = take ?l (drop k str)" using seg by (simp_all add: seg_at_def)
  have ovl: "overlap_prefix md s = int p - int k"
  proof -
    have "md_seq md = base + of_nat k" using seg by (simp add: seg_at_def)
    then show ?thesis using k lt32_pos [of k p base] fwd_pos [of k p base]
      by (auto simp: overlap_prefix_def nxt fwd_def)
  qed
  define s1 where "s1 = advance_rcv md s"
  have s1: "rcv_nxt (se_rcv_seq s1) = base + of_nat p'" "se_rx_buffer s1 = se_rx_buffer s" "se_shut s1 = se_shut s"
    "se_ooo_packet_queue s1 = se_ooo_packet_queue s"
  proof -
    have "lt32 (base + of_nat p) (md_end md) \<longleftrightarrow> p < k + ?l + ?f"
      unfolding md_end_pos [OF seg] using l(1) k by (intro lt32_pos) (cases "md_fin md"; simp)
    then show "rcv_nxt (se_rcv_seq s1) = base + of_nat p'"
      by (simp add: s1_def advance_rcv_def Let_def nxt p'_def max_def md_end_pos [OF seg])
  qed (simp_all add: s1_def advance_rcv_def Let_def)
  show "p \<le> p'" "p' \<le> Suc (length str)" using p l by (auto simp: p'_def)
  show "int p' - int p \<le> 65536" using l(1) k by (auto simp: p'_def)
  define e where "e = k + ?l + ?f"
  have e: "take e str = take (k + ?l) str" "p' = max p e" using l by (auto simp: e_def p'_def)
  have kept: "rx_side s' = rx_side (if p < k + ?l then enqueue_rx_buffer (drop (p - k) (md_data md)) s1 else s1)"
  proof (cases "p < k + ?l")
    case True
    define s2 where "s2 = enqueue_rx_buffer (drop (p - k) (md_data md)) s1"
    define s3 where "s3 = s2\<lparr>se_delayed_ack_segments_pending := se_delayed_ack_segments_pending s2 + 1\<rparr>"
    have "consume_data env md s = (if se_delayed_ack_segments_pending s3 \<ge> 2 then transmit_packet env (tx_plain\<lparr>rq_ack := True\<rparr>) s3
        else Inr (arm_timer env ''delayed_ack'' (env_delayed_ack_ms env) s3))"
      using True k by (auto simp: consume_data_def ovl Let_def s1_def s2_def s3_def nat_diff_distrib)
    then have "rx_side s' = rx_side s3" using run leavesD [OF rx.view_transmit_packet] by (auto simp: view_keep split: if_splits)
    then show ?thesis using True by (simp add: s2_def s3_def rx_side_def)
  next
    case False
    then have "s' = s1" using run by (auto simp: consume_data_def ovl Let_def s1_def)
    then show ?thesis using False by simp
  qed
  then show "rcv_nxt (se_rcv_seq s') = base + of_nat p'" "se_ooo_packet_queue s' = se_ooo_packet_queue s" "se_shut s' = se_shut s"
    using s1 by (auto simp: rx_side_def enqueue_rx_buffer_def split: if_splits)
  show "\<exists>m \<le> p'. got @ se_rx_buffer s' = take m str \<and> (\<not> shut_rd (se_shut s') \<longrightarrow> m = p')"
  proof (cases "shut_rd (se_shut s)")
    case True
    then have "se_rx_buffer s' = se_rx_buffer s" "shut_rd (se_shut s')" using kept s1 by (auto simp: rx_side_def enqueue_rx_buffer_def)
    then show ?thesis using m \<open>p \<le> p'\<close> by (auto intro: order_trans)
  next
    case False
    then have buf: "got @ se_rx_buffer s = take p str" using m by auto
    have "got @ se_rx_buffer s' = take p' str"
    proof (cases "p < k + ?l")
      case True
      then have "se_rx_buffer s' = se_rx_buffer s @ drop (p - k) (md_data md)"
        using kept s1 False by (simp add: rx_side_def enqueue_rx_buffer_def)
      then have "got @ se_rx_buffer s' = take p str @ drop (p - k) (take ?l (drop k str))" using buf data by simp
      also have "\<dots> = take p' str" using True k e by (simp add: take_extend max_def e_def)
      finally show ?thesis .
    next
      case False
      then have "p' = p \<or> p' = e \<and> p = k + ?l" unfolding e(2) e_def by (cases "md_fin md") auto
      then have "take p' str = take p str" using e(1) by auto
      then show ?thesis using kept s1 False buf by (simp add: rx_side_def)
    qed
    then show ?thesis by blast
  qed
qed


section \<open>Steps that extend what was received\<close>

definition extends :: "seq32 \<Rightarrow> bytes \<Rightarrow> bytes \<Rightarrow> tcp_session \<Rightarrow> tcp_session res \<Rightarrow> bool" where
  "extends base str got s r \<longleftrightarrow> (\<forall>s'. r = Inr s' \<longrightarrow> se_shut s' = se_shut s \<and> (\<exists>p. rx_inv base str got p s'))"

definition extending :: "seq32 \<Rightarrow> bytes \<Rightarrow> bytes \<Rightarrow> (tcp_metadata \<Rightarrow> tcp_session \<Rightarrow> tcp_session res) \<Rightarrow> bool" where
  "extending base str got fsm \<longleftrightarrow>
     (\<forall>p md s. rx_inv base str got p s \<longrightarrow> genuine base str p md \<longrightarrow> extends base str got s (fsm md s))"

lemma rx_side_shut: "rx_side s' = rx_side s \<Longrightarrow> se_shut s' = se_shut s"
  by (simp add: rx_side_def)

lemma extends_keeps: "rx_inv base str got p s \<Longrightarrow> keeps s r \<Longrightarrow> extends base str got s r"
  unfolding extends_def leaves_def using rx_inv_cong rx_side_shut by blast

lemma extends_keeps2:
  assumes "rx_inv base str got p s" "keeps2 s x"
    "\<And>a ok. rx_side a = rx_side s \<Longrightarrow> rx_inv base str got p a \<Longrightarrow> extends base str got a (f (a, ok))"
  shows "extends base str got s (bind_res x f)"
  unfolding extends_def bind_res_Inr
proof (intro allI impI, elim exE conjE)
  fix s' z assume z: "x = Inr z" "f z = Inr s'"
  obtain a ok where a: "z = (a, ok)" by fastforce
  then have rx: "rx_side a = rx_side s" using assms(2) z(1) by (simp add: leaves2_def)
  then have "extends base str got a (f (a, ok))" using assms(1,3) rx_inv_cong by blast
  then have "se_shut s' = se_shut a \<and> (\<exists>p. rx_inv base str got p s')" using z(2) unfolding a extends_def by blast
  then show "se_shut s' = se_shut s \<and> (\<exists>p. rx_inv base str got p s')" unfolding rx_side_shut [OF rx] .
qed

lemma extends_bind:
  assumes "extends base str got s x" "\<And>a. keeps a (f a)"
  shows "extends base str got s (bind_res x f)"
  unfolding extends_def bind_res_Inr
proof (intro allI impI, elim exE conjE)
  fix s' a assume a: "x = Inr a" "f a = Inr s'"
  then have "rx_side s' = rx_side a" using assms(2) leavesD by blast
  then show "se_shut s' = se_shut s \<and> (\<exists>p. rx_inv base str got p s')"
    using assms(1) a(1) rx_inv_cong rx_side_shut unfolding extends_def by metis
qed

lemma extends_cong: "rx_side s = rx_side t \<Longrightarrow> extends base str got t r \<Longrightarrow> extends base str got s r"
  by (simp add: extends_def rx_side_def)

text \<open>RCV.NXT against the position of a genuine segment.\<close>

lemma genuine_at:
  assumes "rx_inv base str got p s" "genuine base str p md"
  obtains k where "seg_at base str k md" "\<bar>int k - int p\<bar> < 2147000000"
    "md_seq md = rcv_nxt (se_rcv_seq s) \<longrightarrow> k = p"
    "lt32 (md_seq md) (rcv_nxt (se_rcv_seq s)) \<longleftrightarrow> k < p" "gt32 (md_seq md) (rcv_nxt (se_rcv_seq s)) \<longleftrightarrow> p < k"
proof -
  obtain k where k: "seg_at base str k md" "\<bar>int k - int p\<bar> < 2147000000" using assms(2) by (auto simp: genuine_def)
  have "md_seq md = base + of_nat k" "rcv_nxt (se_rcv_seq s) = base + of_nat p"
    using k(1) assms(1) by (simp_all add: seg_at_def rx_inv_def)
  then show ?thesis using k lt32_pos [of k p base] lt32_pos [of p k base] pos_inject [of base k p]
    by (intro that) (auto simp: gt32_def)
qed

lemma settle_rx:
  "rx_side (settle env md s) =
     (se_rx_buffer s, rcv_nxt (se_rcv_seq s),
      filter (\<lambda>(seq, _). \<not> lt32 seq (rcv_nxt (se_rcv_seq s))) (se_ooo_packet_queue s), se_shut s)"
proof -
  have "rx_side (follow_window env md x) = rx_side x" for x by (simp add: follow_window_def Let_def view_keep)
  then show ?thesis by (simp add: settle_def Let_def rx_side_def)
qed

lemma queue_ok_settle:
  assumes "queue_ok base str p q" "p \<le> p'" "int p' - int p \<le> 65536"
  shows "queue_ok base str p' (filter (\<lambda>(seq, _). \<not> lt32 seq (base + of_nat p')) q)"
  unfolding queue_ok_def
proof (clarsimp)
  fix n md assume e: "(n, md) \<in> set q" "\<not> lt32 n (base + of_nat p')"
  then obtain k where k: "md_seq md = n" "seg_at base str k md" "p \<le> k" "int k - int p < 2147000000"
    using assms(1) by (auto simp: queue_ok_def)
  then have "n = base + of_nat k" by (simp add: seg_at_def)
  then have "p' \<le> k" using e(2) lt32_pos [of k p' base] k assms by simp
  then show "md_seq md = n \<and> (\<exists>k. seg_at base str k md \<and> p' \<le> k \<and> int k - int p' < 2147000000)"
    using k assms(2) by (intro conjI exI [of _ k]) auto
qed

lemma phase5_extends:
  assumes inv: "rx_inv base str got p s" and seg: "seg_at base str k md" "k \<le> p" "int p - int k < 2147000000"
    and fsm: "extending base str got fsm"
  shows "extends base str got s (phase5_consume_segment_and_postprocess fsm env md s)"
  unfolding extends_def
proof (intro allI impI)
  fix s' assume run: "phase5_consume_segment_and_postprocess fsm env md s = Inr s'"
  define s0 where "s0 = s\<lparr>se_snd_seq := catch_up_nxt (se_snd_seq s)\<rparr>"
  have inv0: "rx_inv base str got p s0" using inv rx_inv_cong [of s0 s] by (simp add: s0_def)
  obtain s1 where s1: "consume_data env md s0 = Inr s1" using run
    by (auto simp: phase5_consume_segment_and_postprocess_def bind_res_Inr s0_def)
  note c = consume_data_inv [OF inv0 seg s1]
  define p' where "p' = max p (k + length (md_data md) + of_bool (md_fin md))"
  define s2 where "s2 = settle env md s1"
  have q0: "queue_ok base str p (se_ooo_packet_queue s1)" using c(6) inv inv0 by (simp add: rx_inv_def)
  have s2: "rx_inv base str got p' s2" "se_shut s2 = se_shut s"
  proof -
    have "se_rx_buffer s2 = se_rx_buffer s1" "rcv_nxt (se_rcv_seq s2) = rcv_nxt (se_rcv_seq s1)" "se_shut s2 = se_shut s1"
      "se_ooo_packet_queue s2 = filter (\<lambda>(seq, _). \<not> lt32 seq (rcv_nxt (se_rcv_seq s1))) (se_ooo_packet_queue s1)"
      using settle_rx [of env md s1] by (auto simp: rx_side_def s2_def)
    then show "rx_inv base str got p' s2" "se_shut s2 = se_shut s"
      using c inv0 queue_ok_settle [OF q0 c(3) c(4)] by (simp_all add: rx_inv_def p'_def s0_def)
  qed
  consider "s' = s2" | queued where "map_of (se_ooo_packet_queue s2) (rcv_nxt (se_rcv_seq s2)) = Some queued"
      "fsm queued (s2\<lparr>se_ooo_packet_queue := AList.delete (rcv_nxt (se_rcv_seq s2)) (se_ooo_packet_queue s2)\<rparr>) = Inr s'"
    using run s1 by (auto simp: phase5_consume_segment_and_postprocess_def bind_res_Inr s0_def s2_def Let_def split: option.splits)
  then show "se_shut s' = se_shut s \<and> (\<exists>p. rx_inv base str got p s')"
  proof cases
    case (2 queued)
    have "(rcv_nxt (se_rcv_seq s2), queued) \<in> set (se_ooo_packet_queue s2)" using 2(1) by (rule map_of_SomeD)
    then have "genuine base str p' queued" using s2(1) unfolding rx_inv_def queue_ok_def genuine_def by fastforce
    moreover have "rx_inv base str got p' (s2\<lparr>se_ooo_packet_queue := AList.delete n (se_ooo_packet_queue s2)\<rparr>)" for n
      using s2(1) by (auto simp: rx_inv_def queue_ok_def AList.delete_eq)
    ultimately show ?thesis using fsm 2(2) s2(2) unfolding extending_def extends_def by fastforce
  qed (use s2 in blast)
qed


lemma process_ack_extends:
  assumes inv: "rx_inv base str got p s" and seg: "seg_at base str k md" "k \<le> p" "int p - int k < 2147000000"
    and fsm: "extending base str got fsm"
  shows "extends base str got s (process_ack_packet fsm env md s)"
  unfolding process_ack_packet_def
proof (rule extends_keeps2 [OF inv rx.view_paws])
  fix a ok assume a: "rx_side a = rx_side s" "rx_inv base str got p a"
  have "extends base str got a (bind_res (ack_side env md a) (phase5_consume_segment_and_postprocess fsm env md))"
    unfolding extends_def bind_res_Inr
  proof (intro allI impI, elim exE conjE)
    fix s' z assume z: "ack_side env md a = Inr z" "phase5_consume_segment_and_postprocess fsm env md z = Inr s'"
    then have rx: "rx_side z = rx_side a" using leavesD [OF rx.view_ack_side] by blast
    then have "rx_inv base str got p z" using a(2) rx_inv_cong by blast
    from phase5_extends [OF this seg fsm] have "se_shut s' = se_shut z \<and> (\<exists>p. rx_inv base str got p s')"
      using z(2) unfolding extends_def by blast
    then show "se_shut s' = se_shut a \<and> (\<exists>p. rx_inv base str got p s')" unfolding rx_side_shut [OF rx] .
  qed
  moreover have "extends base str got a (Inr a)" using a(2) by (auto simp: extends_def)
  ultimately show "extends base str got a (case (a, ok) of (s1, ok) \<Rightarrow> if \<not> ok then Inr s1
      else bind_res (ack_side env md s1) (phase5_consume_segment_and_postprocess fsm env md))" by simp
qed

lemma process_in_order:
  assumes "rx_inv base str got p s" "genuine base str p md" "extending base str got fsm"
    "md_seq md = rcv_nxt (se_rcv_seq s) \<or> lt32 (md_seq md) (rcv_nxt (se_rcv_seq s))"
  shows "extends base str got s (process_ack_packet fsm env md s)"
proof -
  obtain k where k: "seg_at base str k md" "\<bar>int k - int p\<bar> < 2147000000"
    "md_seq md = rcv_nxt (se_rcv_seq s) \<longrightarrow> k = p" "lt32 (md_seq md) (rcv_nxt (se_rcv_seq s)) \<longleftrightarrow> k < p"
    by (rule genuine_at [OF assms(1,2)]) blast
  then show ?thesis using assms by (intro process_ack_extends [OF assms(1) k(1)]) auto
qed

lemma queue_segment_inv:
  assumes "rx_inv base str got p s" "genuine base str p md" "gt32 (md_seq md) (rcv_nxt (se_rcv_seq s))"
  shows "rx_inv base str got p (queue_segment env md s)" "se_shut (queue_segment env md s) = se_shut s"
proof -
  obtain k where k: "seg_at base str k md" "\<bar>int k - int p\<bar> < 2147000000" "p < k"
    by (rule genuine_at [OF assms(1,2)]) (use assms(3) in blast)
  have q: "queue_ok base str p (se_ooo_packet_queue s)" using assms(1) by (simp add: rx_inv_def)
  have "queue_ok base str p (AList.update (md_seq md) md (se_ooo_packet_queue s))"
    unfolding queue_ok_def
  proof (clarsimp)
    fix n m assume "(n, m) \<in> set (AList.update (md_seq md) md (se_ooo_packet_queue s))"
    then consider "(n, m) = (md_seq md, md)" | "(n, m) \<in> set (se_ooo_packet_queue s)" using set_update_subset by fastforce
    then show "md_seq m = n \<and> (\<exists>k. seg_at base str k m \<and> p \<le> k \<and> int k - int p < 2147000000)"
    proof cases
      case 1
      then show ?thesis using k by (auto intro!: exI [of _ k])
    next
      case 2
      then show ?thesis using q by (auto simp: queue_ok_def)
    qed
  qed
  moreover define d where "d = (if adv_send_sack (se_advertise s)
      then (case List.find (\<lambda>(l, r). lt32 l r) (map (queue_overlap md) (se_ooo_packet_queue s)) of None \<Rightarrow> s
            | Some b \<Rightarrow> s\<lparr>se_pending_dsack := Some b\<rparr>) else s)"
  then have "rx_side d = rx_side s" by (simp split: option.split)
  moreover have "queue_segment env md s = (if length (se_ooo_packet_queue s) < env_ooo_queue_max_len env \<or>
      md_seq md \<in> fst ` set (se_ooo_packet_queue s) then d\<lparr>se_ooo_packet_queue := AList.update (md_seq md) md (se_ooo_packet_queue s)\<rparr> else d)"
    by (simp add: queue_segment_def d_def Let_def)
  ultimately show "rx_inv base str got p (queue_segment env md s)" "se_shut (queue_segment env md s) = se_shut s"
    using assms(1) q by (auto simp: rx_inv_def rx_side_def)
qed


subsection \<open>The handlers\<close>

lemma extends_after:
  assumes "rx_inv base str got p s" "keeps s x" "\<And>a. rx_inv base str got p a \<Longrightarrow> extends base str got a (f a)"
  shows "extends base str got s (bind_res x f)"
  unfolding extends_def bind_res_Inr
proof (intro allI impI, elim exE conjE)
  fix s' a assume a: "x = Inr a" "f a = Inr s'"
  then have rx: "rx_side a = rx_side s" using assms(2) leavesD by blast
  then have "extends base str got a (f a)" using assms(1,3) rx_inv_cong by blast
  then have "se_shut s' = se_shut a \<and> (\<exists>p. rx_inv base str got p s')" using a(2) unfolding extends_def by blast
  then show "se_shut s' = se_shut s \<and> (\<exists>p. rx_inv base str got p s')" unfolding rx_side_shut [OF rx] .
qed

text \<open>A genuine segment meets a session in the invariant and a machine that keeps it.\<close>

definition meets :: "seq32 \<Rightarrow> bytes \<Rightarrow> bytes \<Rightarrow> (tcp_metadata \<Rightarrow> tcp_session \<Rightarrow> tcp_session res) \<Rightarrow> tcp_metadata \<Rightarrow> tcp_session \<Rightarrow> bool" where
  "meets base str got fsm md s \<longleftrightarrow> (\<exists>p. rx_inv base str got p s \<and> genuine base str p md) \<and> extending base str got fsm"

lemma meets_cong: "rx_side a = rx_side s \<Longrightarrow> meets base str got fsm md s \<Longrightarrow> meets base str got fsm md a"
  unfolding meets_def using rx_inv_cong by blast

lemma meets_keeps: "meets base str got fsm md s \<Longrightarrow> keeps s r \<Longrightarrow> extends base str got s r"
  unfolding meets_def using extends_keeps by blast

lemma meets_process:
  assumes "meets base str got fsm md s" "md_seq md = rcv_nxt (se_rcv_seq s)" "\<And>a. keeps a (f a)"
  shows "extends base str got s (bind_res (process_ack_packet fsm env md s) f)"
  using assms process_in_order by (intro extends_bind) (auto simp: meets_def)

text \<open>The shape of the handlers: an in-order segment is processed and answered, any other is answered.\<close>

lemma meets_process_else:
  assumes "meets base str got fsm md s" "\<And>a. keeps a (f a)" "keeps s y"
  shows "extends base str got s (if md_seq md = rcv_nxt (se_rcv_seq s) \<and> c
    then bind_res (process_ack_packet fsm env md s) f else y)"
  using meets_process [OF assms(1) _ assms(2)] meets_keeps [OF assms(1,3)] by simp

lemma extends_established_ack:
  assumes "meets base str got fsm md s"
  shows "extends base str got s (established_ack fsm env md s)"
proof -
  obtain p where inv: "rx_inv base str got p s" and md: "genuine base str p md" and fsm: "extending base str got fsm"
    using assms by (auto simp: meets_def)
  have "extends base str got s (send_ack env (queue_segment env md s))" if "gt32 (md_seq md) (rcv_nxt (se_rcv_seq s))"
    using extends_keeps [OF queue_segment_inv(1) [OF inv md that] rx.view_send_ack] queue_segment_inv(2) [OF inv md that]
    unfolding extends_def by auto
  then show ?thesis unfolding established_ack_def Let_def
    using process_in_order [OF inv md fsm] by (auto intro: extends_keeps [OF inv] simp: view_keep)
qed

lemma extends_close_handlers:
  assumes m: "meets base str got fsm md s"
  shows "extends base str got s (established_fin fsm env md s)"
    "extends base str got s (fin_wait_1_ack fsm env md s)"
    "extends base str got s (fin_wait_1_fin fsm env md s)"
    "extends base str got s (fin_wait_2_ack fsm env md s)"
    "extends base str got s (fin_wait_2_fin fsm env md s)"
    "extends base str got s (closing_ack fsm env md s)"
    "extends base str got s (close_wait_ack fsm env md s)"
proof -
  have plain: "extends base str got s (process_ack_packet fsm env md s)" if "md_seq md = rcv_nxt (se_rcv_seq s)"
    using process_in_order m that by (auto simp: meets_def)
  have ack: "keeps a (bind_res (if b then send_ack env a else Inr a) (\<lambda>s. Inr (g s)))" if "\<And>x. rx_side (g x) = rx_side x" for a b g
    by (rule leaves_bind) (auto simp: that view_keep)
  show "extends base str got s (established_fin fsm env md s)" "extends base str got s (fin_wait_1_ack fsm env md s)"
    "extends base str got s (fin_wait_2_ack fsm env md s)" "extends base str got s (closing_ack fsm env md s)"
    unfolding established_fin_def fin_wait_1_ack_def fin_wait_2_ack_def closing_ack_def
    by (rule meets_process_else [OF m]; simp add: view_keep ack)+
  show "extends base str got s (fin_wait_1_fin fsm env md s)" "extends base str got s (fin_wait_2_fin fsm env md s)"
    unfolding fin_wait_1_fin_def fin_wait_2_fin_def
    by (rule meets_process_else [OF m]; auto simp: view_keep intro!: leaves_bind)+
  show "extends base str got s (close_wait_ack fsm env md s)" unfolding close_wait_ack_def Let_def
    using plain by (auto intro: meets_keeps [OF m] simp: view_keep)
qed

text \<open>The part shared by the handlers of synchronized states: challenge a SYN, test acceptability.\<close>

lemma extends_checked:
  assumes m: "meets base str got fsm md s" and "\<And>a. meets base str got fsm md a \<Longrightarrow> extends base str got a (f a)"
  shows "extends base str got s (if md_syn md then emit_challenge_ack env s
    else bind_res (check_segment_acceptability env md s) (\<lambda>(s1, ok). if \<not> ok then Inr s1 else f s1))"
proof -
  obtain p where inv: "rx_inv base str got p s" using m by (auto simp: meets_def)
  have "extends base str got s (bind_res (check_segment_acceptability env md s) (\<lambda>(s1, ok). if \<not> ok then Inr s1 else f s1))"
    using assms(2) meets_cong [OF _ m] by (intro extends_keeps2 [OF inv rx.view_acceptability]) (auto simp: extends_def)
  moreover have "extends base str got s (emit_challenge_ack env s)" by (rule meets_keeps [OF m rx.view_challenge])
  ultimately show ?thesis by simp
qed

lemma extends_dispatch:
  assumes m: "meets base str got fsm md s"
  shows "extends base str got s (dispatch_packet fsm env md s)"
proof -
  have syn: "\<not> md_syn md" "\<not> plain_syn md" using m by (auto simp: meets_def genuine_def seg_at_def plain_syn_def)
  note k = meets_keeps [OF m]
  note h = extends_established_ack extends_close_handlers meets_keeps
  have "extends base str got s (fsm__listen__packet env md s)" by (simp add: fsm__listen__packet_def syn k)
  moreover have "extends base str got s (fsm__syn_sent__packet fsm env md s)"
    by (auto simp: fsm__syn_sent__packet_def Let_def syn view_keep intro!: k)
  moreover have "extends base str got s (fsm__syn_rcvd__packet fsm env md s)"
  proof -
    have "extends base str got s (bind_res (process_ack_packet fsm env md (syn_rcvd_ecn md s)) (finish_handshake env md))"
      if seq: "md_seq md = rcv_nxt (se_rcv_seq s)"
    proof (rule extends_cong [OF sym [OF rx.view_syn_rcvd_ecn]], rule meets_process)
      show "meets base str got fsm md (syn_rcvd_ecn md s)" by (rule meets_cong [OF rx.view_syn_rcvd_ecn m])
      show "md_seq md = rcv_nxt (se_rcv_seq (syn_rcvd_ecn md s))" using rx.view_syn_rcvd_ecn [of md s] seq by (simp add: rx_side_def)
    qed (rule rx.view_finish_handshake)
    moreover have "keeps s (bind_res (check_rst_acceptability env md s) (\<lambda>(s1, ok).
        Inr (if ok then change_state env CLOSED (s1\<lparr>se_connection_error := REFUSED, se_event_connect := se_event_connect s1 + 1\<rparr>)
             else s1)))" by (rule leaves2_bind, rule rx.view_rst) (simp add: view_keep)
    ultimately show ?thesis by (auto simp: fsm__syn_rcvd__packet_def syn intro: k)
  qed
  moreover have "extends base str got s (fsm__established__packet fsm env md s)"
    unfolding fsm__established__packet_def
  proof (rule extends_checked [OF m])
    fix a assume a: "meets base str got fsm md a"
    then obtain p where inv: "rx_inv base str got p a" by (auto simp: meets_def)
    show "extends base str got a (bind_res (check_paws_and_update_ts_recent env md a) (\<lambda>(s2, ok).
        if \<not> ok then Inr s2 else if pure_ack md then established_ack fsm env md s2
        else if fin_ack md then established_fin fsm env md s2
        else if plain_rst md then take_rst env (Some RESET) md s2 else Inr s2))"
    proof (rule extends_keeps2 [OF inv rx.view_paws])
      fix x ok assume "rx_side x = rx_side a"
      then have x: "meets base str got fsm md x" using a by (rule meets_cong)
      show "extends base str got x (case (x, ok) of (s2, ok) \<Rightarrow> if \<not> ok then Inr s2 else if pure_ack md then established_ack fsm env md s2
        else if fin_ack md then established_fin fsm env md s2
        else if plain_rst md then take_rst env (Some RESET) md s2 else Inr s2)"
        using extends_established_ack [OF x] extends_close_handlers(1) [OF x] by (auto intro: meets_keeps [OF x] simp: view_keep)
    qed
  qed
  moreover have "extends base str got s (fsm__fin_wait_1__packet fsm env md s)" "extends base str got s (fsm__fin_wait_2__packet fsm env md s)"
    "extends base str got s (fsm__closing__packet fsm env md s)" "extends base str got s (fsm__close_wait__packet fsm env md s)"
    "extends base str got s (fsm__last_ack__packet env md s)"
    unfolding fsm__fin_wait_1__packet_def fsm__fin_wait_2__packet_def fsm__closing__packet_def fsm__close_wait__packet_def fsm__last_ack__packet_def
    by (rule extends_checked [OF m]; auto intro!: h simp: view_keep)+
  moreover have "extends base str got s (fsm__time_wait__packet env md s)"
    unfolding fsm__time_wait__packet_def
    by (rule k, rule leaves2_bind, rule rx.view_paws) (auto simp: reusable_syn_def syn view_keep intro!: leaves_bind)
  ultimately show ?thesis using k by (auto simp: dispatch_packet_def split: fsm_state.split)
qed


subsection \<open>The machine\<close>

lemma fsm_packet_extending: "extending base str got (fsm_packet n env)"
proof (induction n)
  case 0
  then show ?case by (simp add: extending_def extends_def)
next
  case (Suc n)
  show ?case unfolding extending_def
  proof (intro allI impI)
    fix p md s assume inv: "rx_inv base str got p s" and md: "genuine base str p md"
    have "extends base str got a (bind_res (dispatch_packet (fsm_packet n env) env md a) (\<lambda>s2. Inr (pump_tail env (se_state s) True s2)))"
      if "rx_inv base str got p a" for a
      using that md Suc by (intro extends_bind extends_dispatch) (auto simp: meets_def view_keep)
    then show "extends base str got s (fsm_packet (Suc n) env md s)" using extends_after [OF inv rx.view_ecn_receive]
      by (simp add: packet_step_def)
  qed
qed

lemma rx_other_events:
  assumes "\<And>md. ev \<noteq> Packet md"
  shows "keeps s (tcp_fsm env ev s)"
  using assms by (cases ev) (auto simp: tcp_fsm_def view_keep intro!: leaves_bind)

section \<open>Runs\<close>

text \<open>
  A session from the end of the handshake on: segments of the peer's stream \<open>str\<close>, whose first
  byte has sequence number \<open>base\<close>, system calls, timer ticks, ICMP errors and the application's
  send, receive and half-close, in any order, each with its own clock and settings. The reading
  side stays open. \<open>got\<close> is what the application has read.
\<close>

inductive rx_run :: "seq32 \<Rightarrow> bytes \<Rightarrow> bytes \<Rightarrow> tcp_session \<Rightarrow> bool" for base str where
  start: "se_rx_buffer s = [] \<Longrightarrow> se_ooo_packet_queue s = [] \<Longrightarrow> rcv_nxt (se_rcv_seq s) = base \<Longrightarrow>
    \<not> shut_rd (se_shut s) \<Longrightarrow> rx_run base str [] s"
| packet: "rx_run base str got s \<Longrightarrow>
    seg_at base str k md \<Longrightarrow> \<bar>int k - int (length (got @ se_rx_buffer s))\<bar> < 2000000000 \<Longrightarrow>
    tcp_fsm env (Packet md) s = Inr s' \<Longrightarrow> rx_run base str got s'"
| event: "rx_run base str got s \<Longrightarrow> \<forall>md. ev \<noteq> Packet md \<Longrightarrow> tcp_fsm env ev s = Inr s' \<Longrightarrow> rx_run base str got s'"
| receive: "rx_run base str got s \<Longrightarrow> session_receive n s = Inr (s', data) \<Longrightarrow> rx_run base str (got @ data) s'"
| send: "rx_run base str got s \<Longrightarrow> session_send env data s = Inr (s', n) \<Longrightarrow> rx_run base str got s'"
| half_close: "rx_run base str got s \<Longrightarrow> session_shutdown env 1 s = Inr s' \<Longrightarrow> rx_run base str got s'"

lemma rx_inv_position:
  assumes "rx_inv base str got p s" "\<not> shut_rd (se_shut s)"
  shows "got @ se_rx_buffer s = take p str" "length (got @ se_rx_buffer s) \<le> p" "p \<le> Suc (length (got @ se_rx_buffer s))"
  using assms by (auto simp: rx_inv_def)

text \<open>The half-close the application asks for.\<close>

definition half_closed :: "tcp_session \<Rightarrow> tcp_session" where
  "half_closed s = s\<lparr>se_shut := (se_shut s)\<lparr>shut_wr := True\<rparr>\<rparr>"

lemma session_shutdown_wr:
  "session_shutdown env 1 s =
     (if \<not> shut_wr (se_shut s) \<and> \<not> se_closing s then tcp_fsm env (Syscall SYSCALL_CLOSE) (half_closed s) else Inr s)"
  by (simp add: session_shutdown_def half_closed_def)

lemma rx_inv_half_closed: "rx_inv base str got p (half_closed s) = rx_inv base str got p s"
  by (simp add: rx_inv_def half_closed_def)

lemma rx_run_inv:
  assumes "rx_run base str got s"
  shows "\<not> shut_rd (se_shut s) \<and> (\<exists>p. rx_inv base str got p s)"
  using assms
proof induction
  case (start s)
  then show ?case by (auto simp: rx_inv_def queue_ok_def intro!: exI [of _ 0])
next
  case (packet got s k md env s')
  then obtain p where p: "rx_inv base str got p s" by blast
  then have "\<bar>int k - int p\<bar> < 2147000000" using packet rx_inv_position [OF p] by linarith
  then have "genuine base str p md" using packet(2) by (auto simp: genuine_def)
  then have "extends base str got s (fsm_packet (Suc (length (se_ooo_packet_queue s))) env md s)"
    using p fsm_packet_extending unfolding extending_def by blast
  then show ?case using packet by (auto simp: extends_def tcp_fsm_def simp del: fsm_packet.simps)
next
  case (event got s ev env s')
  then have rx: "rx_side s' = rx_side s" using leavesD [OF rx_other_events] by blast
  show ?case using event.IH rx_inv_cong [OF rx] rx_side_shut [OF rx] by simp
next
  case (receive got s n s' data)
  then obtain p where p: "rx_inv base str got p s" by blast
  have "se_shut s' = se_shut s" using receive(2) by (auto simp: session_receive_def Let_def split: if_splits)
  moreover have "rx_inv base str (got @ data) p s'"
    using receive(2) p by (auto simp: session_receive_def rx_inv_def Let_def split: if_splits)
  ultimately show ?case using receive.IH by auto
next
  case (send got s env data s' n)
  then have rx: "rx_side s' = rx_side s" by (auto simp: session_send_def kick_pump_def view_keep split: if_splits)
  show ?case using send.IH rx_inv_cong [OF rx] rx_side_shut [OF rx] by simp
next
  case (half_close got s env s')
  have eq: "(if \<not> shut_wr (se_shut s) \<and> \<not> se_closing s then tcp_fsm env (Syscall SYSCALL_CLOSE) (half_closed s) else Inr s) = Inr s'"
    using half_close(2) by (simp only: session_shutdown_wr)
  show ?case
  proof (cases "\<not> shut_wr (se_shut s) \<and> \<not> se_closing s")
    case True
    have "tcp_fsm env (Syscall SYSCALL_CLOSE) (half_closed s) = Inr s'" using eq unfolding if_P [OF True] .
    then have rx: "rx_side s' = rx_side (half_closed s)" by (rule leavesD [OF rx_other_events, rotated]) simp
    show ?thesis using half_close.IH rx_inv_cong [OF rx] rx_side_shut [OF rx] by (simp add: rx_inv_half_closed) (simp add: half_closed_def)
  next
    case False
    have "Inr s = (Inr s' :: tcp_session res)" using eq unfolding if_not_P [OF False] .
    then show ?thesis using half_close.IH by simp
  qed
qed

lemma map_sum_eq_Inr: "map_sum id f x = Inr y \<longleftrightarrow> (\<exists>a. x = Inr a \<and> f a = y)"
  by (cases x) auto

section \<open>Properties\<close>

text \<open>
  C2. Reliable in-order delivery, while the reading side is open. Let the peer send the stream
  \<open>str\<close> from sequence number \<open>base\<close> on, and let the application never shut down its reading
  side (after that the code advances RCV.NXT over bytes it discards). Whatever segments of the
  stream arrive, in whatever order, overlapping, repeated or with gaps, no older or newer than
  about half the sequence space, and whatever timers, events of the machine (connect, listen,
  close, abort), ICMP errors, reads, writes and shutdowns of the sending side come in between:
  what the application has read together with what is buffered for it is a prefix of the
  stream, without a lost, repeated or reordered byte, and RCV.NXT, the number every ACK carries,
  is just past that prefix, or past the FIN when the prefix is the whole stream. The numbers
  may wrap any number of times.
\<close>

theorem stream_received_in_order:
  assumes "rx_run base str got s"
  shows "(\<exists>rest. str = got @ se_rx_buffer s @ rest) \<and>
    (rcv_nxt (se_rcv_seq s) = base + of_nat (length (got @ se_rx_buffer s)) \<or>
     got @ se_rx_buffer s = str \<and> rcv_nxt (se_rcv_seq s) = base + of_nat (Suc (length str)))"
proof -
  obtain p where p: "rx_inv base str got p s" "\<not> shut_rd (se_shut s)" using rx_run_inv [OF assms] by blast
  note g = rx_inv_position [OF p]
  have "str = (got @ se_rx_buffer s) @ drop p str" unfolding g(1) by simp
  moreover have "rcv_nxt (se_rcv_seq s) = base + of_nat p" "p \<le> Suc (length str)" using p(1) by (simp_all add: rx_inv_def)
  moreover have "p = Suc (length str) \<or> p = length (got @ se_rx_buffer s)" using g(1) calculation(3) by auto
  moreover have "p = Suc (length str) \<Longrightarrow> got @ se_rx_buffer s = str" using g(1) by simp
  ultimately show ?thesis by (metis append.assoc)
qed

text \<open>The second half arrives first; two bytes are read.\<close>

definition sample_late :: tcp_metadata where
  "sample_late = sample_md\<lparr>md_seq := 103, md_data := [4, 5]\<rparr>"

definition sample_early :: tcp_metadata where
  "sample_early = sample_md\<lparr>md_data := [1, 2, 3]\<rparr>"

lemma sample_segments: "seg_at 100 [1, 2, 3, 4, 5, 6] 3 sample_late" "seg_at 100 [1, 2, 3, 4, 5, 6] 0 sample_early"
  by (simp_all add: seg_at_def sample_late_def sample_early_def sample_md_def)

corollary stream_received_in_order_witness:
  "\<exists>s. rx_run 100 [1, 2, 3, 4, 5, 6] [1, 2] s \<and> se_rx_buffer s = [3, 4, 5] \<and> rcv_nxt (se_rcv_seq s) = 105 \<and>
     (\<exists>rest. [1, 2, 3, 4, 5, 6] = [1, 2] @ se_rx_buffer s @ rest)"
proof -
  have start: "rx_run 100 [1, 2, 3, 4, 5, 6] [] sample_open"
    by (rule rx_run.start) (simp_all add: sample_open_def session_init_def Let_def)
  have "map_sum id (\<lambda>s. (se_rx_buffer s, rcv_nxt (se_rcv_seq s)))
      (bind_res (tcp_fsm sample_env (Packet sample_late) sample_open) (\<lambda>s1.
       bind_res (tcp_fsm sample_env (Packet sample_early) s1) (\<lambda>s2.
       bind_res (session_receive (Some 2) s2) (\<lambda>(s3, data). if data = [1, 2] then Inr s3 else Inl TimeoutError)))) =
    Inr ([3, 4, 5], 105)"
    by (simp add: tcp_eval sample_late_def sample_early_def cong: eval_cong)
  then obtain s3 where s3: "bind_res (tcp_fsm sample_env (Packet sample_late) sample_open) (\<lambda>s1.
       bind_res (tcp_fsm sample_env (Packet sample_early) s1) (\<lambda>s2.
       bind_res (session_receive (Some 2) s2) (\<lambda>(s3, data). if data = [1, 2] then Inr s3 else Inl TimeoutError))) = Inr s3"
    "(se_rx_buffer s3, rcv_nxt (se_rcv_seq s3)) = ([3, 4, 5], 105)" unfolding map_sum_eq_Inr by blast
  obtain s1 s2 where run: "tcp_fsm sample_env (Packet sample_late) sample_open = Inr s1"
    "tcp_fsm sample_env (Packet sample_early) s1 = Inr s2" "session_receive (Some 2) s2 = Inr (s3, [1, 2])"
    using s3(1) unfolding bind_res_Inr by (force split: if_splits)
  have one: "rx_run 100 [1, 2, 3, 4, 5, 6] [] s1"
    by (rule rx_run.packet [OF start sample_segments(1) _ run(1)]) (simp add: sample_open_def session_init_def Let_def)
  have "length (se_rx_buffer s1) \<le> 6" using stream_received_in_order [OF one] by (auto dest: arg_cong [of _ _ length])
  then have two: "rx_run 100 [1, 2, 3, 4, 5, 6] [] s2" by (intro rx_run.packet [OF one sample_segments(2) _ run(2)]) simp
  have three: "rx_run 100 [1, 2, 3, 4, 5, 6] [1, 2] s3" using rx_run.receive [OF two run(3)] by simp
  show ?thesis using three s3(2) stream_received_in_order [OF three] by auto
qed

end
