(* ===== verification/Tcp_Machine.thy ===== *)
theory Tcp_Machine
  imports Tcp_Frame
begin

text \<open>
  The state machine as a whole: the nested dispatch of queued segments ends, the connection
  moves along the edges of the state diagram only, and a reset closes it only where it may.
\<close>

section \<open>Nested dispatch\<close>

text \<open>Two machines agree on the sessions with fewer than \<open>k\<close> queued segments.\<close>

definition agree :: "nat \<Rightarrow> (tcp_metadata \<Rightarrow> tcp_session \<Rightarrow> tcp_session res) \<Rightarrow> (tcp_metadata \<Rightarrow> tcp_session \<Rightarrow> tcp_session res) \<Rightarrow> bool" where
  "agree k f g \<longleftrightarrow> (\<forall>md s. length (se_ooo_packet_queue s) < k \<longrightarrow> f md s = g md s)"

interpretation queue: stateless_view se_ooo_packet_queue
  by unfold_locales simp_all

lemma bind_res_cong: "(\<And>a. x = Inr a \<Longrightarrow> f a = g a) \<Longrightarrow> bind_res x f = bind_res x g"
  by (cases x) simp_all

lemma bind_leaves_cong:
  "leaves view s x \<Longrightarrow> (\<And>a. view a = view s \<Longrightarrow> f a = g a) \<Longrightarrow> bind_res x f = bind_res x g"
  by (rule bind_res_cong) (simp add: leaves_def)

lemma bind_leaves2_cong:
  "leaves2 view s x \<Longrightarrow> (\<And>a ok. view a = view s \<Longrightarrow> f (a, ok) = g (a, ok)) \<Longrightarrow> bind_res x f = bind_res x g"
  by (rule bind_res_cong) (auto simp: leaves2_def)

lemma length_delete_queue: "map_of q n = Some v \<Longrightarrow> length (AList.delete n q) < length q"
  by (auto simp: AList.delete_eq intro!: length_filter_less dest!: map_of_SomeD)

lemma consume_data_queue: "leaves se_ooo_packet_queue s (consume_data env md s)"
proof -
  have "se_ooo_packet_queue (enqueue_rx_buffer d (advance_rcv md x)) = se_ooo_packet_queue x"
    "se_ooo_packet_queue (advance_rcv md x) = se_ooo_packet_queue x" for d x
    by (simp_all add: enqueue_rx_buffer_def advance_rcv_def Let_def)
  then show ?thesis unfolding consume_data_def Let_def
    by (auto simp: queue.view_arm_timer intro!: leaves_cong [OF _ queue.view_transmit_packet])
qed

lemma settle_queue: "length (se_ooo_packet_queue (settle env md s)) \<le> length (se_ooo_packet_queue s)"
proof -
  have "se_ooo_packet_queue (follow_window env md x) = se_ooo_packet_queue x" for x
    by (simp add: follow_window_def Let_def view_keep)
  then show ?thesis by (simp add: settle_def Let_def)
qed

lemma phase5_agree:
  assumes "agree (length (se_ooo_packet_queue s)) f g"
  shows "phase5_consume_segment_and_postprocess f env md s = phase5_consume_segment_and_postprocess g env md s"
  unfolding phase5_consume_segment_and_postprocess_def
proof (rule bind_leaves_cong [OF consume_data_queue])
  fix a :: tcp_session assume "se_ooo_packet_queue a = se_ooo_packet_queue (s\<lparr>se_snd_seq := catch_up_nxt (se_snd_seq s)\<rparr>)"
  then have le: "length (se_ooo_packet_queue (settle env md a)) \<le> length (se_ooo_packet_queue s)"
    using settle_queue [of env md a] by simp
  define b where "b = settle env md a"
  have "f q (b\<lparr>se_ooo_packet_queue := AList.delete n (se_ooo_packet_queue b)\<rparr>) =
        g q (b\<lparr>se_ooo_packet_queue := AList.delete n (se_ooo_packet_queue b)\<rparr>)"
    if "map_of (se_ooo_packet_queue b) n = Some q" for n q
    using assms length_delete_queue [OF that] le by (simp add: agree_def b_def)
  then show "(let s2 = settle env md a; nxt = rcv_nxt (se_rcv_seq s2) in
       case map_of (se_ooo_packet_queue s2) nxt of None \<Rightarrow> Inr s2
       | Some queued \<Rightarrow> f queued (s2\<lparr>se_ooo_packet_queue := AList.delete nxt (se_ooo_packet_queue s2)\<rparr>)) =
     (let s2 = settle env md a; nxt = rcv_nxt (se_rcv_seq s2) in
       case map_of (se_ooo_packet_queue s2) nxt of None \<Rightarrow> Inr s2
       | Some queued \<Rightarrow> g queued (s2\<lparr>se_ooo_packet_queue := AList.delete nxt (se_ooo_packet_queue s2)\<rparr>))"
    by (simp add: Let_def b_def split: option.split)
qed

lemma process_ack_agree:
  assumes "agree (length (se_ooo_packet_queue s)) f g"
  shows "process_ack_packet f env md s = process_ack_packet g env md s"
  unfolding process_ack_packet_def
proof (rule bind_leaves2_cong [OF queue.view_paws])
  fix a :: tcp_session and ok assume a: "se_ooo_packet_queue a = se_ooo_packet_queue s"
  have "bind_res (ack_side env md a) (phase5_consume_segment_and_postprocess f env md) =
        bind_res (ack_side env md a) (phase5_consume_segment_and_postprocess g env md)"
    using assms a by (intro bind_leaves_cong [OF queue.view_ack_side] phase5_agree) simp
  then show "(case (a, ok) of (s1, ok) \<Rightarrow> if \<not> ok then Inr s1
      else bind_res (ack_side env md s1) (phase5_consume_segment_and_postprocess f env md)) =
    (case (a, ok) of (s1, ok) \<Rightarrow> if \<not> ok then Inr s1
      else bind_res (ack_side env md s1) (phase5_consume_segment_and_postprocess g env md))" by simp
qed

lemma dispatch_agree:
  assumes "agree (length (se_ooo_packet_queue s)) f g"
  shows "dispatch_packet f env md s = dispatch_packet g env md s"
proof -
  have p: "process_ack_packet f env md a = process_ack_packet g env md a"
    if "se_ooo_packet_queue a = se_ooo_packet_queue s" for a
    using assms that by (intro process_ack_agree) simp
  have checked: "bind_res (check_segment_acceptability env md s) (\<lambda>(s1, ok). if \<not> ok then Inr s1 else h f s1) =
      bind_res (check_segment_acceptability env md s) (\<lambda>(s1, ok). if \<not> ok then Inr s1 else h g s1)"
    if "\<And>a. se_ooo_packet_queue a = se_ooo_packet_queue s \<Longrightarrow> h f a = h g a" for h
    using that by (intro bind_leaves2_cong [OF queue.view_acceptability]) simp
  have q: "se_ooo_packet_queue (adopt_syn_ack env md s) = se_ooo_packet_queue s"
    by (simp add: adopt_syn_ack_def adopt_peer_mss_def one_segment_window_def enqueue_rx_buffer_def Let_def)
  have "fsm__syn_sent__packet f env md s = fsm__syn_sent__packet g env md s"
    unfolding fsm__syn_sent__packet_def p [OF q] by (rule refl)
  moreover have "fsm__syn_rcvd__packet f env md s = fsm__syn_rcvd__packet g env md s"
    unfolding fsm__syn_rcvd__packet_def p [OF queue.view_syn_rcvd_ecn] by (rule refl)
  moreover have "fsm__established__packet f env md s = fsm__established__packet g env md s"
    unfolding fsm__established__packet_def
    by (intro if_cong refl checked bind_leaves2_cong [OF queue.view_paws]; simp add: established_ack_def established_fin_def p Let_def)
  moreover have "fsm__fin_wait_1__packet f env md s = fsm__fin_wait_1__packet g env md s"
    unfolding fsm__fin_wait_1__packet_def by (intro if_cong refl checked; simp add: fin_wait_1_ack_def fin_wait_1_fin_def p)
  moreover have "fsm__fin_wait_2__packet f env md s = fsm__fin_wait_2__packet g env md s"
    unfolding fsm__fin_wait_2__packet_def by (intro if_cong refl checked; simp add: fin_wait_2_ack_def fin_wait_2_fin_def p)
  moreover have "fsm__closing__packet f env md s = fsm__closing__packet g env md s"
    unfolding fsm__closing__packet_def by (intro if_cong refl checked; simp add: closing_ack_def p)
  moreover have "fsm__close_wait__packet f env md s = fsm__close_wait__packet g env md s"
    unfolding fsm__close_wait__packet_def by (intro if_cong refl checked; simp add: close_wait_ack_def p Let_def)
  ultimately show ?thesis by (simp add: dispatch_packet_def split: fsm_state.split)
qed

lemma packet_step_agree:
  assumes "agree (length (se_ooo_packet_queue s)) f g"
  shows "packet_step f env md s = packet_step g env md s"
  unfolding packet_step_def using assms by (intro bind_leaves_cong [OF queue.view_ecn_receive]) (simp add: dispatch_agree)

lemma fsm_packet_fuel: "length (se_ooo_packet_queue s) < n \<Longrightarrow> fsm_packet n env md s = fsm_packet (Suc n) env md s"
proof (induction n arbitrary: md s)
  case (Suc n)
  then have "agree n (fsm_packet n env) (fsm_packet (Suc n) env)" unfolding agree_def by blast
  then have "agree (length (se_ooo_packet_queue s)) (fsm_packet n env) (fsm_packet (Suc n) env)"
    using Suc.prems unfolding agree_def by (meson less_Suc_eq_le order_less_le_trans)
  from packet_step_agree [OF this] show ?case by (simp only: fsm_packet.simps)
qed simp

lemma fsm_packet_enough:
  assumes "length (se_ooo_packet_queue s) < n"
  shows "fsm_packet n env md s = tcp_fsm env (Packet md) s"
proof -
  have "Suc (length (se_ooo_packet_queue s)) \<le> n" using assms by simp
  then have "fsm_packet n env md s = fsm_packet (Suc (length (se_ooo_packet_queue s))) env md s"
    by (induction rule: dec_induct) (auto simp: fsm_packet_fuel [symmetric] simp del: fsm_packet.simps)
  then show ?thesis by (simp add: tcp_fsm_def)
qed

section \<open>The state diagram\<close>

text \<open>
  The edges of RFC 9293 figure 5, with what may take them; RFC 6191 adds the one out of TIME-WAIT. A received
  segment may make the machine handle queued ones, so the edges of segments are labelled by one of \<open>S\<close>, the
  segments at hand.
\<close>

inductive diagram :: "tcp_metadata set \<Rightarrow> fsm_state \<Rightarrow> fsm_event \<Rightarrow> fsm_state \<Rightarrow> bool" for S where
  active_open: "diagram S CLOSED (Syscall SYSCALL_CONNECT) SYN_SENT"
| passive_open: "diagram S CLOSED (Syscall SYSCALL_LISTEN) LISTEN"
| close_unopened: "st \<in> {LISTEN, SYN_SENT} \<Longrightarrow> diagram S st (Syscall SYSCALL_CLOSE) CLOSED"
| close_half_open: "diagram S SYN_RCVD (Syscall SYSCALL_CLOSE) FIN_WAIT_1"
| abort: "diagram S st (Syscall SYSCALL_ABORT) CLOSED"
| drained: "diagram S ESTABLISHED Timer_Tick FIN_WAIT_1"
| drained_second: "diagram S CLOSE_WAIT Timer_Tick LAST_ACK"
| timeout: "st \<notin> {CLOSED, LISTEN} \<Longrightarrow> diagram S st Timer_Tick CLOSED"
| refused: "im_category im = DEST_UNREACHABLE \<Longrightarrow> diagram S SYN_SENT (Icmp im) CLOSED"
| syn: "md_syn md \<Longrightarrow> st \<in> {LISTEN, SYN_SENT, TIME_WAIT} \<Longrightarrow> diagram S st (Packet md) SYN_RCVD"
| syn_ack: "md_syn md \<Longrightarrow> md_ack_flag md \<Longrightarrow> diagram S SYN_SENT (Packet md) ESTABLISHED"
| handshake_ack: "md_ack_flag md \<Longrightarrow> diagram S SYN_RCVD (Packet md) ESTABLISHED"
| peer_fin: "m \<in> S \<Longrightarrow> fin_ack m \<Longrightarrow> diagram S ESTABLISHED (Packet md) CLOSE_WAIT"
| fin_acked: "m \<in> S \<Longrightarrow> pure_ack m \<Longrightarrow> diagram S FIN_WAIT_1 (Packet md) FIN_WAIT_2"
| crossed_fin: "m \<in> S \<Longrightarrow> fin_ack m \<Longrightarrow> diagram S FIN_WAIT_1 (Packet md) CLOSING"
| both_fins: "m \<in> S \<Longrightarrow> fin_ack m \<Longrightarrow> st \<in> {FIN_WAIT_1, FIN_WAIT_2} \<Longrightarrow> diagram S st (Packet md) TIME_WAIT"
| crossed_acked: "m \<in> S \<Longrightarrow> pure_ack m \<Longrightarrow> diagram S CLOSING (Packet md) TIME_WAIT"
| last_ack: "pure_ack md \<Longrightarrow> diagram S LAST_ACK (Packet md) CLOSED"
| reset: "m \<in> S \<Longrightarrow> md_rst m \<Longrightarrow> st \<notin> {CLOSED, LISTEN, TIME_WAIT} \<Longrightarrow> diagram S st (Packet md) CLOSED"

inductive_simps diagram_packet: "diagram S st (Packet md) st'"

text \<open>The received segment and those that wait in the queue.\<close>

definition queued_mds :: "tcp_session \<Rightarrow> tcp_metadata set" where
  "queued_mds s = snd ` set (se_ooo_packet_queue s)"

definition seat :: "tcp_session \<Rightarrow> fsm_state \<times> (seq32 \<times> tcp_metadata) list" where
  "seat s = (se_state s, se_ooo_packet_queue s)"

interpretation seat: session_view seat
  by unfold_locales (simp_all add: seat_def)

lemma seat_eq: "seat a = seat s \<longleftrightarrow> se_state a = se_state s \<and> se_ooo_packet_queue a = se_ooo_packet_queue s"
  by (simp add: seat_def)

lemma seat_waiting: "seat a = seat s \<Longrightarrow> queued_mds a = queued_mds s"
  by (simp add: seat_eq queued_mds_def)

interpretation state: session_view se_state
  by unfold_locales simp_all

lemma change_state_state [simp]: "se_state (change_state env st s) = st"
proof -
  have "se_state (leave_syn_rcvd o1 n1 x) = se_state x" "se_state (leave_established o1 n1 x) = se_state x"
    "se_state (cancel_all_timers x) = se_state x" "se_state (keepalive_arm_idle env x) = se_state x" for o1 n1 x
    by (simp_all add: leave_syn_rcvd_def leave_established_def cancel_all_timers_def state.view_arm_idle Let_def)
  then show ?thesis by (simp add: change_state_def Let_def)
qed

text \<open>The states a step may end in.\<close>

definition ends_in :: "fsm_state set \<Rightarrow> tcp_session res \<Rightarrow> bool" where
  "ends_in X r \<longleftrightarrow> (\<forall>s. r = Inr s \<longrightarrow> se_state s \<in> X)"

lemma ends_in_Inr [simp]: "ends_in X (Inr s) \<longleftrightarrow> se_state s \<in> X"
  unfolding ends_in_def by blast

lemma ends_in_leaves: "leaves se_state s r \<Longrightarrow> se_state s \<in> X \<Longrightarrow> ends_in X r"
  unfolding ends_in_def leaves_def by metis

lemma ends_in_bind: "ends_in X x \<Longrightarrow> (\<And>a. se_state a \<in> X \<Longrightarrow> ends_in Y (f a)) \<Longrightarrow> ends_in Y (bind_res x f)"
  unfolding ends_in_def bind_res_Inr by blast

lemma ends_in_any: "(\<And>a. ends_in Y (f a)) \<Longrightarrow> ends_in Y (bind_res x f)"
  unfolding ends_in_def bind_res_Inr by blast

lemma ends_in_if: "(b \<Longrightarrow> ends_in X x) \<Longrightarrow> (\<not> b \<Longrightarrow> ends_in X y) \<Longrightarrow> ends_in X (if b then x else y)"
  by simp


lemma ends_in_mono: "ends_in X r \<Longrightarrow> X \<subseteq> Y \<Longrightarrow> ends_in Y r"
  unfolding ends_in_def by blast

lemma ends_in_leaves2:
  "leaves2 se_state s x \<Longrightarrow> (\<And>a ok. se_state a = se_state s \<Longrightarrow> ends_in Y (f (a, ok))) \<Longrightarrow> ends_in Y (bind_res x f)"
  unfolding ends_in_def bind_res_Inr leaves2_def by auto

lemma ends_in_seat2:
  "leaves2 seat s x \<Longrightarrow> (\<And>a ok. seat a = seat s \<Longrightarrow> ends_in Y (f (a, ok))) \<Longrightarrow> ends_in Y (bind_res x f)"
  unfolding ends_in_def bind_res_Inr leaves2_def by auto

lemma ends_in_seat_bind:
  "leaves seat s x \<Longrightarrow> (\<And>a. seat a = seat s \<Longrightarrow> ends_in Y (f a)) \<Longrightarrow> ends_in Y (bind_res x f)"
  unfolding ends_in_def bind_res_Inr leaves_def by auto

lemma ends_in_leaves_bind:
  "leaves se_state s x \<Longrightarrow> (\<And>a. se_state a = se_state s \<Longrightarrow> ends_in Y (f a)) \<Longrightarrow> ends_in Y (bind_res x f)"
  unfolding ends_in_def bind_res_Inr leaves_def by auto

lemma abort_ends: "ends_in {CLOSED} (session_abort env s)"
  unfolding session_abort_def by (rule ends_in_any) simp

lemma take_rst_ends: "ends_in {se_state s, CLOSED} (take_rst env err md s)"
  unfolding take_rst_def by (rule ends_in_leaves2 [OF state.view_rst]) simp

lemma syscall_ends:
  "ends_in (insert (se_state s) {st. diagram S (se_state s) (Syscall sc) st}) (dispatch_syscall env sc s)"
proof -
  have a: "ends_in (insert x {st. diagram S y (Syscall SYSCALL_ABORT) st}) (session_abort env s)" for x y
    by (rule ends_in_mono [OF abort_ends]) (auto intro: diagram.intros)
  show ?thesis
    by (cases sc; cases "se_state s")
      (simp_all add: dispatch_syscall_def fsm__closed__syscall_def fsm__listen__syscall_def fsm__syn_sent__syscall_def
        fsm__syn_rcvd__syscall_def fsm__established__syscall_def fsm__fin_wait_1__syscall_def fsm__fin_wait_2__syscall_def
        fsm__closing__syscall_def fsm__close_wait__syscall_def fsm__last_ack__syscall_def fsm__time_wait__syscall_def
        abort_only_def a diagram.intros state.view_arm_timer)
qed

lemma icmp_ends: "ends_in (insert (se_state s) {st. diagram S (se_state s) (Icmp md) st}) (dispatch_icmp env md s)"
proof -
  have p: "se_state (apply_pmtu_update env mtu v s) = se_state s" for mtu v by (simp add: apply_pmtu_update_def Let_def)
  have "ends_in X (icmp_pmtu_event env md s)" if "se_state s \<in> X" for X
    using that by (simp add: icmp_pmtu_event_def p ends_in_def split: option.split)
  then show ?thesis
    by (auto simp: dispatch_icmp_def fsm__listen__icmp_def fsm__syn_sent__icmp_def fsm__icmp__synchronized_def diagram.intros
      split: fsm_state.split icmp_category.split)
qed

lemma retry_ends: "ends_in {se_state s, CLOSED} (retry_and_send env s)"
proof -
  have bo: "se_state (rto_backoff env x) = se_state x" for x by (rule state.view_backoff)
  have "ends_in {se_state s, CLOSED} (abandon_session env s)" unfolding abandon_session_def by (rule ends_in_any) simp
  then have "ends_in {se_state s, CLOSED} (retransmit_packet_timeout env s)"
    unfolding retransmit_packet_timeout_def Let_def by (auto intro!: ends_in_any simp: bo)
  then show ?thesis unfolding retry_and_send_def
    by (rule ends_in_bind) (rule ends_in_leaves [OF state.view_session_transmit_data])
qed

lemma timer_ends: "ends_in (insert (se_state s) {st. diagram S (se_state s) Timer_Tick st}) (dispatch_timer env s)"
proof -
  have ka: "se_state (keepalive_tick env x) \<in> {ESTABLISHED, CLOSED}" if "se_state x \<in> {ESTABLISHED, CLOSED}" for x
    using that by (simp add: keepalive_tick_def Let_def view_keep)
  have "ends_in {ESTABLISHED, CLOSED, FIN_WAIT_1} (fsm__established__timer env s)" if "se_state s = ESTABLISHED"
    unfolding fsm__established__timer_def
  proof (rule ends_in_bind [OF retry_ends], rule ends_in_leaves_bind [OF state.view_delayed_ack], unfold that)
    fix a b :: tcp_session assume "se_state a \<in> {ESTABLISHED, CLOSED}" "se_state b = se_state a"
    then have "se_state (keepalive_tick env b) \<in> {ESTABLISHED, CLOSED}" by (intro ka) simp
    then show "ends_in {ESTABLISHED, CLOSED, FIN_WAIT_1}
      (bind_res (session_rack_reorder_tick env (keepalive_tick env b)) (\<lambda>s3. bind_res (tlp_pto_tick env s3) (\<lambda>s4.
        Inr (if se_closing s4 \<and> tx_buffer (se_tx s4) = [] then change_state env FIN_WAIT_1 s4 else s4))))"
      by (intro ends_in_leaves_bind [OF state.view_rack_tick] ends_in_leaves_bind [OF state.view_tlp_tick]) auto
  qed
  moreover have "ends_in {CLOSE_WAIT, CLOSED, LAST_ACK} (fsm__close_wait__timer env s)" if "se_state s = CLOSE_WAIT"
    unfolding fsm__close_wait__timer_def
  proof (rule ends_in_bind [OF retry_ends], unfold that)
    fix a :: tcp_session assume "se_state a \<in> {CLOSE_WAIT, CLOSED}"
    then show "ends_in {CLOSE_WAIT, CLOSED, LAST_ACK} (bind_res (delayed_ack env a) (\<lambda>s2.
        Inr (if se_closing s2 \<and> tx_buffer (se_tx s2) = [] then change_state env LAST_ACK s2 else s2)))"
      by (intro ends_in_leaves_bind [OF state.view_delayed_ack]) auto
  qed
  ultimately show ?thesis using retry_ends [of s env]
    by (cases "se_state s") (auto simp: dispatch_timer_def fsm__syn_sent__timer_def fsm__syn_rcvd__timer_def
      fsm__fin_wait_1__timer_def fsm__fin_wait_2__timer_def fsm__closing__timer_def fsm__last_ack__timer_def
      fsm__time_wait__timer_def diagram.intros elim!: ends_in_mono)
qed

subsection \<open>Segments\<close>

text \<open>
  Where segments of \<open>S\<close> may take a session; while a handshake is under way the
  handler moves the session itself after the segment has been processed.
\<close>

definition after_packet :: "tcp_metadata set \<Rightarrow> fsm_state \<Rightarrow> fsm_state set" where
  "after_packet S st =
     (if st \<in> {ESTABLISHED, FIN_WAIT_1, FIN_WAIT_2, CLOSING, CLOSE_WAIT}
      then insert st {st'. \<exists>md. diagram S st (Packet md) st'} else UNIV)"

definition tame :: "tcp_metadata set \<Rightarrow> (tcp_metadata \<Rightarrow> tcp_session \<Rightarrow> tcp_session res) \<Rightarrow> bool" where
  "tame S fsm \<longleftrightarrow> (\<forall>md s. md \<in> S \<longrightarrow> queued_mds s \<subseteq> S \<longrightarrow> ends_in (after_packet S (se_state s)) (fsm md s))"

lemma after_packet_refl [simp]: "st \<in> after_packet S st"
  by (simp add: after_packet_def)

lemma after_packet_diagram: "insert st {st'. diagram S st (Packet md) st'} \<subseteq> after_packet S st"
  by (auto simp: after_packet_def)

lemma after_packet_edges:
  assumes "st \<in> {ESTABLISHED, FIN_WAIT_1, FIN_WAIT_2, CLOSING, CLOSE_WAIT}"
  shows "after_packet S st \<subseteq> insert st {st'. diagram S st (Packet md) st'}"
proof -
  have "diagram S st (Packet md) st'" if "diagram S st (Packet md') st'" for md' st'
    using that assms by (auto simp: diagram_packet)
  then show ?thesis using assms unfolding after_packet_def by auto
qed

lemma diagram_mono: "diagram S st ev st' \<Longrightarrow> S \<subseteq> T \<Longrightarrow> diagram T st ev st'"
  by (induction rule: diagram.induct) (auto intro: diagram.intros)

lemma consume_data_seat: "leaves seat s (consume_data env md s)"
proof -
  have "seat (enqueue_rx_buffer d (advance_rcv md x)) = seat x" "seat (advance_rcv md x) = seat x" for d x
    by (simp_all add: enqueue_rx_buffer_def advance_rcv_def Let_def seat_def)
  then show ?thesis unfolding consume_data_def Let_def
    by (auto simp: seat.view_arm_timer intro!: leaves_cong [OF _ seat.view_transmit_packet])
qed

lemma settle_seat: "se_state (settle env md s) = se_state s" "queued_mds (settle env md s) \<subseteq> queued_mds s"
proof -
  have "seat (follow_window env md x) = seat x" for x by (simp add: follow_window_def Let_def view_keep)
  then show "se_state (settle env md s) = se_state s" "queued_mds (settle env md s) \<subseteq> queued_mds s"
    by (auto simp: settle_def Let_def seat_eq queued_mds_def)
qed

lemma phase5_ends:
  assumes "tame S fsm" "queued_mds x \<subseteq> S"
  shows "ends_in (after_packet S (se_state x)) (phase5_consume_segment_and_postprocess fsm env md x)"
  unfolding phase5_consume_segment_and_postprocess_def
proof (rule ends_in_seat_bind [OF consume_data_seat])
  fix a :: tcp_session assume a: "seat a = seat (x\<lparr>se_snd_seq := catch_up_nxt (se_snd_seq x)\<rparr>)"
  let ?b = "settle env md a"
  have st: "se_state ?b = se_state x" using a settle_seat(1) [of env md a] by (simp add: seat_eq)
  have q: "queued_mds ?b \<subseteq> S" using a settle_seat(2) [of env md a] assms(2) seat_waiting [of a x] by simp
  have "ends_in (after_packet S (se_state x)) (fsm m (?b\<lparr>se_ooo_packet_queue := AList.delete n (se_ooo_packet_queue ?b)\<rparr>))"
    if "map_of (se_ooo_packet_queue ?b) n = Some m" for n m
  proof -
    have "m \<in> S" using map_of_SomeD [OF that] q by (force simp: queued_mds_def)
    moreover have "queued_mds (?b\<lparr>se_ooo_packet_queue := AList.delete n (se_ooo_packet_queue ?b)\<rparr>) \<subseteq> S"
      using q by (auto simp: queued_mds_def AList.delete_eq)
    ultimately show ?thesis
      using assms(1) [unfolded tame_def, rule_format, of m "?b\<lparr>se_ooo_packet_queue := AList.delete n (se_ooo_packet_queue ?b)\<rparr>"] st by simp
  qed
  then show "ends_in (after_packet S (se_state x)) (let s2 = settle env md a; nxt = rcv_nxt (se_rcv_seq s2) in
     case map_of (se_ooo_packet_queue s2) nxt of None \<Rightarrow> Inr s2
     | Some queued \<Rightarrow> fsm queued (s2\<lparr>se_ooo_packet_queue := AList.delete nxt (se_ooo_packet_queue s2)\<rparr>))"
    using st by (simp add: Let_def split: option.split)
qed

lemma process_ack_ends:
  assumes "tame S fsm" "queued_mds s \<subseteq> S" "se_state s = st"
  shows "ends_in (after_packet S st) (process_ack_packet fsm env md s)"
  unfolding process_ack_packet_def
proof (rule ends_in_seat2 [OF seat.view_paws])
  fix a :: tcp_session and ok assume a: "seat a = seat s"
  have "ends_in (after_packet S st) (bind_res (ack_side env md a) (phase5_consume_segment_and_postprocess fsm env md))"
  proof (rule ends_in_seat_bind [OF seat.view_ack_side])
    fix b :: tcp_session assume "seat b = seat a"
    then show "ends_in (after_packet S st) (phase5_consume_segment_and_postprocess fsm env md b)"
      using phase5_ends [OF assms(1), of b env md] assms(2,3) a seat_waiting [of b s] by (simp add: seat_eq)
  qed
  then show "ends_in (after_packet S st) (case (a, ok) of (s1, ok) \<Rightarrow> if \<not> ok then Inr s1
      else bind_res (ack_side env md s1) (phase5_consume_segment_and_postprocess fsm env md))"
    using a assms(3) by (simp add: seat_eq)
qed

text \<open>The shape of the handlers: a SYN is challenged, an unacceptable segment dropped, the rest handled.\<close>

lemma checked_ends:
  assumes "se_state s \<in> X" "\<And>a. seat a = seat s \<Longrightarrow> ends_in X (f a)"
  shows "ends_in X (if md_syn md then emit_challenge_ack env s
    else bind_res (check_segment_acceptability env md s) (\<lambda>(s1, ok). if \<not> ok then Inr s1 else f s1))"
proof (rule ends_in_if)
  show "ends_in X (emit_challenge_ack env s)" using assms(1) by (rule ends_in_leaves [OF state.view_challenge])
  show "ends_in X (bind_res (check_segment_acceptability env md s) (\<lambda>(s1, ok). if \<not> ok then Inr s1 else f s1))"
    by (rule ends_in_seat2 [OF seat.view_acceptability]) (use assms in \<open>auto simp: seat_eq\<close>)
qed

text \<open>A session in state \<open>st\<close> whose queued segments are of \<open>S\<close>, and a segment of \<open>S\<close> for it.\<close>

definition ready :: "tcp_metadata set \<Rightarrow> fsm_state \<Rightarrow> tcp_session \<Rightarrow> bool" where
  "ready S st s \<longleftrightarrow> se_state s = st \<and> queued_mds s \<subseteq> S"

lemma ready_seat: "ready S st s \<Longrightarrow> seat a = seat s \<Longrightarrow> ready S st a"
  using seat_waiting [of a s] by (simp add: ready_def seat_eq)

lemma packet_steps:
  assumes "tame S fsm" "ready S st a" "md \<in> S"
  shows "ends_in (after_packet S st) (process_ack_packet fsm env md a)"
    "ends_in (after_packet S st) (challenge_future_ack env md a)" "ends_in (after_packet S st) (send_ack env a)"
    "ends_in (after_packet S st) (emit_challenge_ack env a)" "ends_in (after_packet S st) (Inr a)"
    "ends_in (after_packet S st) (window_update env w md a)" "ends_in (after_packet S st) (retransmit_packet_request env md a)"
    "md_rst md \<Longrightarrow> ends_in (after_packet S st) (take_rst env e md a)"
proof -
  have st: "se_state a = st" using assms(2) by (simp add: ready_def)
  show "ends_in (after_packet S st) (process_ack_packet fsm env md a)"
    using process_ack_ends [OF assms(1)] assms(2) by (simp add: ready_def)
  show "ends_in (after_packet S st) (take_rst env e md a)" if "md_rst md"
  proof (rule ends_in_mono [OF take_rst_ends])
    have "CLOSED \<in> after_packet S st" using diagram.reset [OF assms(3) that] by (cases st) (auto simp: after_packet_def)
    then show "{se_state a, CLOSED} \<subseteq> after_packet S st" using st by simp
  qed
  show "ends_in (after_packet S st) (challenge_future_ack env md a)" "ends_in (after_packet S st) (send_ack env a)"
    "ends_in (after_packet S st) (emit_challenge_ack env a)"
    "ends_in (after_packet S st) (window_update env w md a)" "ends_in (after_packet S st) (retransmit_packet_request env md a)"
    by (rule ends_in_leaves [OF state.view_challenge_future] ends_in_leaves [OF state.view_send_ack] ends_in_leaves [OF state.view_challenge]
      ends_in_leaves [OF state.view_window_update] ends_in_leaves [OF state.view_request]; simp add: st)+
qed (simp add: assms(2) [unfolded ready_def])

lemma ack_if_ends: "se_state x \<in> X \<Longrightarrow> ends_in X (if b then send_ack env x else Inr x)"
  by (intro ends_in_if ends_in_leaves [OF state.view_send_ack]) auto

lemma established_ends:
  assumes fsm: "tame S fsm" and md: "md \<in> S" and s: "ready S ESTABLISHED s"
  shows "ends_in (after_packet S ESTABLISHED) (fsm__established__packet fsm env md s)"
proof -
  have q: "se_state (queue_segment env md a) = se_state a" for a
    by (simp add: queue_segment_def Let_def split: option.split)
  have ack: "ends_in (after_packet S ESTABLISHED) (established_ack fsm env md a)" if a: "ready S ESTABLISHED a" for a
  proof -
    have "ends_in (after_packet S ESTABLISHED) (established_bare_ack env md a)" "ends_in (after_packet S ESTABLISHED) (send_ack env (queue_segment env md a))"
      using a by (auto simp: ready_def q intro!: ends_in_leaves [OF state.view_bare_ack] ends_in_leaves [OF state.view_send_ack])
    then show ?thesis unfolding established_ack_def Let_def by (intro ends_in_if packet_steps [OF fsm a md])
  qed
  have fin: "ends_in (after_packet S ESTABLISHED) (established_fin fsm env md a)" if "ready S ESTABLISHED a" "fin_ack md" for a
    using that diagram.peer_fin [OF md that(2)] unfolding established_fin_def
    by (intro ends_in_if ends_in_any) (auto simp: ready_def after_packet_def)
  have rst: "ends_in (after_packet S ESTABLISHED) (take_rst env e md a)" if "ready S ESTABLISHED a" "plain_rst md" for a e
    using that by (intro packet_steps [OF fsm _ md]) (simp_all add: plain_rst_def)
  show ?thesis unfolding fsm__established__packet_def
  proof (rule checked_ends, goal_cases)
    case 1
    then show ?case using s by (simp add: ready_def)
  next
    case (2 a)
    have a: "ready S ESTABLISHED a" by (rule ready_seat [OF s 2])
    show ?case
    proof (rule ends_in_seat2 [OF seat.view_paws], goal_cases)
      case (1 b ok)
      have b: "ready S ESTABLISHED b" by (rule ready_seat [OF a 1])
      then have "se_state b \<in> after_packet S ESTABLISHED" by (simp add: ready_def)
      then show ?case using ack [OF b] fin [OF b] rst [OF b] by simp
    qed
  qed
qed

text \<open>The steps of the handlers of a session that is closing.\<close>

lemma fin_wait_1_ends:
  assumes "tame S fsm" "md \<in> S" "ready S FIN_WAIT_1 a"
  shows "pure_ack md \<Longrightarrow> ends_in (after_packet S FIN_WAIT_1) (fin_wait_1_ack fsm env md a)"
    "fin_ack md \<Longrightarrow> ends_in (after_packet S FIN_WAIT_1) (fin_wait_1_fin fsm env md a)"
proof -
  note h = packet_steps [OF assms(1,3,2)]
  show "ends_in (after_packet S FIN_WAIT_1) (fin_wait_1_ack fsm env md a)" if "pure_ack md"
  proof -
    have step: "se_state (fin_acked_step env md x) \<in> after_packet S FIN_WAIT_1" if "se_state x \<in> after_packet S FIN_WAIT_1" for x
      using that diagram.fin_acked [OF assms(2) \<open>pure_ack md\<close>] by (auto simp: fin_acked_step_def Let_def state.view_arm_timer after_packet_def)
    show ?thesis unfolding fin_wait_1_ack_def
      by (intro ends_in_if h ends_in_bind [OF h(1)] ends_in_bind [OF ack_if_ends]; (assumption | simp only: ends_in_Inr, erule step))
  qed
  show "ends_in (after_packet S FIN_WAIT_1) (fin_wait_1_fin fsm env md a)" if "fin_ack md"
    using that assms(3) diagram.crossed_fin [OF assms(2) that] diagram.both_fins [OF assms(2) that, of FIN_WAIT_1] unfolding fin_wait_1_fin_def
    by (intro ends_in_if h ends_in_any) (auto simp: enter_time_wait_def state.view_arm_timer after_packet_def)
qed

lemma fin_wait_2_ends:
  assumes "tame S fsm" "md \<in> S" "ready S FIN_WAIT_2 a"
  shows "ends_in (after_packet S FIN_WAIT_2) (fin_wait_2_ack fsm env md a)"
    "fin_ack md \<Longrightarrow> ends_in (after_packet S FIN_WAIT_2) (fin_wait_2_fin fsm env md a)"
proof -
  note h = packet_steps [OF assms(1,3,2)]
  show "ends_in (after_packet S FIN_WAIT_2) (fin_wait_2_ack fsm env md a)" unfolding fin_wait_2_ack_def
    by (intro ends_in_if h ends_in_bind [OF h(1)] ends_in_leaves [OF state.view_send_ack]) simp_all
  show "ends_in (after_packet S FIN_WAIT_2) (fin_wait_2_fin fsm env md a)" if "fin_ack md"
    using diagram.both_fins [OF assms(2) that, of FIN_WAIT_2] unfolding fin_wait_2_fin_def
    by (intro ends_in_if h ends_in_any) (auto simp: state.view_cancel_timer state.view_arm_timer after_packet_def)
qed

lemma closing_ends:
  assumes "tame S fsm" "md \<in> S" "ready S CLOSING a" "pure_ack md"
  shows "ends_in (after_packet S CLOSING) (closing_ack fsm env md a)"
proof -
  note h = packet_steps [OF assms(1,3,2)]
  show ?thesis using diagram.crossed_acked [OF assms(2,4)] unfolding closing_ack_def
    by (intro ends_in_if h ends_in_bind [OF h(1)]) (auto simp: enter_time_wait_def state.view_arm_timer after_packet_def)
qed

lemma close_wait_ends:
  assumes "tame S fsm" "md \<in> S" "ready S CLOSE_WAIT a"
  shows "ends_in (after_packet S CLOSE_WAIT) (close_wait_ack fsm env md a)"
  unfolding close_wait_ack_def Let_def by (intro ends_in_if packet_steps [OF assms(1,3,2)])

lemma dispatch_packet_ends:
  assumes fsm: "tame S fsm" and md: "md \<in> S" and q: "queued_mds s \<subseteq> S"
  shows "ends_in (insert (se_state s) {st. diagram S (se_state s) (Packet md) st}) (dispatch_packet fsm env md s)"
proof -
  have after: "ends_in (insert (se_state s) {st. diagram S (se_state s) (Packet md) st}) r"
    if "ends_in (after_packet S (se_state s)) r" "se_state s \<in> {ESTABLISHED, FIN_WAIT_1, FIN_WAIT_2, CLOSING, CLOSE_WAIT}" for r
    using ends_in_mono [OF that(1) after_packet_edges [OF that(2)]] .
  have rdy: "ready S (se_state s) a" if "seat a = seat s" for a using q seat_waiting [OF that] that by (simp add: ready_def seat_eq)
  note rst = packet_steps(8) [OF fsm rdy md] and keep = packet_steps(5) [OF fsm rdy md]
  show ?thesis
  proof (cases "se_state s")
    case LISTEN
    have "se_state (accept_syn env md s) = SYN_RCVD" by (simp add: accept_syn_def Let_def)
    then show ?thesis by (auto simp: dispatch_packet_def LISTEN fsm__listen__packet_def plain_syn_def diagram_packet)
  next
    case SYN_SENT
    let ?S = "insert SYN_SENT {st. diagram S SYN_SENT (Packet md) st}"
    have "ends_in {ESTABLISHED} (finish_syn_ack env md x)" for x
      unfolding finish_syn_ack_def Let_def by (intro ends_in_any) simp
    then have "ends_in {ESTABLISHED} (bind_res r (finish_syn_ack env md))" for r by (rule ends_in_any)
    then have sa: "ends_in ?S (bind_res r (finish_syn_ack env md))" if "md_syn md" "md_ack_flag md" for r
      by (rule ends_in_mono) (use that diagram.syn_ack in simp)
    have "ends_in {SYN_RCVD} (simultaneous_open env md s)"
      unfolding simultaneous_open_def Let_def by (rule ends_in_any) simp
    then have so: "ends_in ?S (simultaneous_open env md s)" if "md_syn md"
      by (rule ends_in_mono) (use that diagram.syn in simp)
    show ?thesis unfolding dispatch_packet_def fsm__syn_sent__packet_def Let_def SYN_SENT fsm_state.case
      by (intro ends_in_if sa so) (simp_all add: SYN_SENT plain_syn_def diagram.reset [OF md])
  next
    case SYN_RCVD
    have "ends_in {ESTABLISHED} (finish_handshake env md x)" for x
      unfolding finish_handshake_def Let_def by (intro ends_in_any) simp
    then have "ends_in {ESTABLISHED} (bind_res r (finish_handshake env md))" for r by (rule ends_in_any)
    then have ha: "ends_in (insert SYN_RCVD {st. diagram S SYN_RCVD (Packet md) st}) (bind_res r (finish_handshake env md))"
      if "md_ack_flag md" for r
      by (rule ends_in_mono) (use that diagram.handshake_ack in simp)
    show ?thesis unfolding dispatch_packet_def fsm__syn_rcvd__packet_def SYN_RCVD fsm_state.case
      by (intro ends_in_if ha ends_in_leaves [OF state.view_challenge] ends_in_leaves2 [OF state.view_rst])
        (simp_all add: SYN_RCVD pure_ack_def plain_rst_def diagram.reset [OF md])
  next
    case ESTABLISHED
    then show ?thesis using established_ends [OF fsm md, of s env] rdy [OF refl] after by (simp add: dispatch_packet_def)
  next
    case FIN_WAIT_1
    have "ends_in (after_packet S FIN_WAIT_1) (fsm__fin_wait_1__packet fsm env md s)" unfolding fsm__fin_wait_1__packet_def
      by (intro checked_ends ends_in_if fin_wait_1_ends [OF fsm md] rst [unfolded FIN_WAIT_1] keep [unfolded FIN_WAIT_1] rdy [unfolded FIN_WAIT_1])
        (simp_all add: FIN_WAIT_1 plain_rst_def)
    then show ?thesis using after by (simp add: dispatch_packet_def FIN_WAIT_1)
  next
    case FIN_WAIT_2
    have "ends_in (after_packet S FIN_WAIT_2) (fsm__fin_wait_2__packet fsm env md s)" unfolding fsm__fin_wait_2__packet_def
      by (intro checked_ends ends_in_if fin_wait_2_ends [OF fsm md] rst [unfolded FIN_WAIT_2] keep [unfolded FIN_WAIT_2] rdy [unfolded FIN_WAIT_2])
        (simp_all add: FIN_WAIT_2 plain_rst_def)
    then show ?thesis using after by (simp add: dispatch_packet_def FIN_WAIT_2)
  next
    case CLOSING
    have "ends_in (after_packet S CLOSING) (fsm__closing__packet fsm env md s)" unfolding fsm__closing__packet_def
      by (intro checked_ends ends_in_if closing_ends [OF fsm md] rst [unfolded CLOSING] keep [unfolded CLOSING] rdy [unfolded CLOSING])
        (simp_all add: CLOSING plain_rst_def)
    then show ?thesis using after by (simp add: dispatch_packet_def CLOSING)
  next
    case CLOSE_WAIT
    have "ends_in (after_packet S CLOSE_WAIT) (fsm__close_wait__packet fsm env md s)" unfolding fsm__close_wait__packet_def
      by (intro checked_ends ends_in_if close_wait_ends [OF fsm md] rst [unfolded CLOSE_WAIT] keep [unfolded CLOSE_WAIT] rdy [unfolded CLOSE_WAIT])
        (simp_all add: CLOSE_WAIT plain_rst_def)
    then show ?thesis using after by (simp add: dispatch_packet_def CLOSE_WAIT)
  next
    case LAST_ACK
    let ?X = "insert LAST_ACK {st. diagram S LAST_ACK (Packet md) st}"
    have "ends_in ?X (take_rst env e md a)" if "seat a = seat s" "plain_rst md" for a e
      by (rule ends_in_mono [OF take_rst_ends])
        (use that LAST_ACK diagram.reset [OF md, of LAST_ACK] in \<open>simp add: seat_eq plain_rst_def\<close>)
    then have "ends_in ?X (fsm__last_ack__packet env md s)" unfolding fsm__last_ack__packet_def
      by (intro checked_ends ends_in_if ends_in_leaves [OF state.view_challenge_future])
        (auto simp: LAST_ACK seat_eq diagram.last_ack)
    then show ?thesis by (simp add: dispatch_packet_def LAST_ACK)
  next
    case TIME_WAIT
    have "leaves se_state a (transmit_packet env rq a)" for a rq by (rule state.view_transmit_packet)
    then show ?thesis unfolding dispatch_packet_def fsm__time_wait__packet_def TIME_WAIT fsm_state.case
      by (intro ends_in_leaves2 [OF state.view_paws] ends_in_leaves2 [OF state.view_paws])
        (auto simp: TIME_WAIT reusable_syn_def diagram_packet state.view_arm_timer intro!: ends_in_leaves [OF state.view_transmit_packet]
          ends_in_leaves [OF state.view_challenge] ends_in_leaves_bind [OF state.view_send_ack])
  next
    case CLOSED
    then show ?thesis by (simp add: dispatch_packet_def)
  qed
qed

lemma packet_ends:
  "md \<in> S \<Longrightarrow> queued_mds s \<subseteq> S \<Longrightarrow> ends_in (insert (se_state s) {st. diagram S (se_state s) (Packet md) st}) (fsm_packet n env md s)"
proof (induction n arbitrary: md s)
  case 0
  then show ?case by (simp add: ends_in_def)
next
  case (Suc n)
  have t: "tame S (fsm_packet n env)" unfolding tame_def using ends_in_mono [OF Suc.IH after_packet_diagram] by blast
  have "ends_in (insert (se_state s) {st. diagram S (se_state s) (Packet md) st}) (bind_res (dispatch_packet (fsm_packet n env) env md a)
      (\<lambda>s2. Inr (pump_tail env (se_state s) True s2)))" if "seat a = seat s" for a
    using dispatch_packet_ends [OF t Suc.prems(1), of a env] Suc.prems(2) seat_waiting [OF that] that
    by (intro ends_in_bind [where X = "insert (se_state s) {st. diagram S (se_state s) (Packet md) st}"]) (simp_all add: seat_eq state.view_pump_tail)
  then show ?case unfolding fsm_packet.simps packet_step_def by (rule ends_in_seat_bind [OF seat.view_ecn_receive])
qed

text \<open>The acknowledgment that ends FIN-WAIT-1 covers the FIN.\<close>

definition fin_covered :: "tcp_metadata set \<Rightarrow> tcp_session \<Rightarrow> bool" where
  "fin_covered S s \<longleftrightarrow> (se_state s = FIN_WAIT_2 \<longrightarrow> (\<exists>m \<in> S. pure_ack m \<and> ge32 (md_ack m) (snd_fin (se_snd_seq s))))"

text \<open>And the one that ends CLOSING leaves nothing unacknowledged, the FIN included.\<close>

definition all_covered :: "tcp_session \<Rightarrow> bool" where
  "all_covered s \<longleftrightarrow> (se_state s = TIME_WAIT \<longrightarrow> ge32 (snd_una (se_snd_seq s)) (snd_fin (se_snd_seq s)))"

definition yields :: "tcp_metadata set \<Rightarrow> fsm_state \<Rightarrow> (tcp_session \<Rightarrow> bool) \<Rightarrow> (tcp_metadata \<Rightarrow> tcp_session \<Rightarrow> tcp_session res) \<Rightarrow> bool" where
  "yields S st P fsm \<longleftrightarrow> (\<forall>md s s'. md \<in> S \<longrightarrow> queued_mds s \<subseteq> S \<longrightarrow> se_state s = st \<longrightarrow> fsm md s = Inr s' \<longrightarrow> P s')"

lemma send_ack_fin: "send_ack env s = Inr s' \<Longrightarrow> se_state s' = se_state s \<and> snd_fin (se_snd_seq s') = snd_fin (se_snd_seq s)"
  unfolding send_ack_def
  by (erule transmit_packet_frame) (simp add: advanced_snd_def tx_plain_def snd_advance_nxt_def bump_max_to_nxt_def Let_def)

lemma change_state_snd [simp]: "se_snd_seq (change_state env st s) = se_snd_seq s"
  by (simp add: change_state_def leave_syn_rcvd_def leave_established_def cancel_all_timers_def keepalive_arm_idle_def arm_timer_def Let_def)

lemma arm_timer_snd [simp]: "se_snd_seq (arm_timer env n d s) = se_snd_seq s" "se_snd_seq (pump_tail env st x s) = se_snd_seq s"
  by (simp_all add: arm_timer_def pump_tail_def cancel_timer_def Let_def)

lemma process_ack_yields:
  assumes f: "yields S st P fsm" and idle: "\<And>x. se_state x = st \<Longrightarrow> P x"
    and a: "queued_mds s \<subseteq> S" "se_state s = st" and run: "process_ack_packet fsm env md s = Inr s'"
  shows "P s'"
proof -
  obtain b ok where b: "check_paws_and_update_ts_recent env md s = Inr (b, ok)"
    "(if \<not> ok then Inr b else bind_res (ack_side env md b) (phase5_consume_segment_and_postprocess fsm env md)) = Inr s'"
    using run unfolding process_ack_packet_def bind_res_Inr by (auto simp del: bind_res_eq_Inr)
  have sb: "seat b = seat s" by (rule leaves2D [OF seat.view_paws b(1)])
  show ?thesis
  proof (cases ok)
    case True
    then obtain c where c: "ack_side env md b = Inr c" "phase5_consume_segment_and_postprocess fsm env md c = Inr s'"
      using b(2) by (auto simp: bind_res_Inr simp del: bind_res_eq_Inr)
    obtain d where d: "consume_data env md (c\<lparr>se_snd_seq := catch_up_nxt (se_snd_seq c)\<rparr>) = Inr d"
      "(let s2 = settle env md d; nxt = rcv_nxt (se_rcv_seq s2) in
         case map_of (se_ooo_packet_queue s2) nxt of None \<Rightarrow> Inr s2
         | Some queued \<Rightarrow> fsm queued (s2\<lparr>se_ooo_packet_queue := AList.delete nxt (se_ooo_packet_queue s2)\<rparr>)) = Inr s'"
      using c(2) unfolding phase5_consume_segment_and_postprocess_def by (auto simp: bind_res_Inr simp del: bind_res_eq_Inr)
    have "seat d = seat s"
      using leavesD [OF consume_data_seat d(1)] leavesD [OF seat.view_ack_side c(1)] sb by simp
    then have std: "se_state (settle env md d) = st" and q: "queued_mds (settle env md d) \<subseteq> S"
      using settle_seat [of env md d] a seat_waiting [of d s] by (auto simp: seat_eq)
    show ?thesis
    proof (cases "map_of (se_ooo_packet_queue (settle env md d)) (rcv_nxt (se_rcv_seq (settle env md d)))")
      case None
      then show ?thesis using d(2) std by (auto simp: Let_def intro: idle)
    next
      case (Some m)
      let ?e = "(settle env md d)\<lparr>se_ooo_packet_queue := AList.delete (rcv_nxt (se_rcv_seq (settle env md d))) (se_ooo_packet_queue (settle env md d))\<rparr>"
      have "m \<in> S" using map_of_SomeD [OF Some] q by (force simp: queued_mds_def)
      moreover have "queued_mds ?e \<subseteq> S" using q by (auto simp: queued_mds_def AList.delete_eq)
      moreover have "se_state ?e = st" using std by simp
      moreover have "fsm m ?e = Inr s'" using d(2) Some by (simp add: Let_def)
      ultimately show ?thesis by (rule f [unfolded yields_def, rule_format, of m ?e s'])
    qed
  qed (use b sb a in \<open>auto simp: seat_eq intro: idle\<close>)
qed

lemma fin_wait_1_covers:
  assumes f: "yields S FIN_WAIT_1 (fin_covered S) fsm" and md: "md \<in> S" and s: "ready S FIN_WAIT_1 s" and run: "fsm__fin_wait_1__packet fsm env md s = Inr s'"
  shows "fin_covered S s'"
proof (cases "md_syn md")
  case True
  then have "se_state s' = se_state s" using run leavesD [OF state.view_challenge] by (simp add: fsm__fin_wait_1__packet_def)
  then show ?thesis using s by (simp add: fin_covered_def ready_def)
next
  case False
  then obtain a ok where a: "check_segment_acceptability env md s = Inr (a, ok)"
    "(if \<not> ok then Inr a else if pure_ack md then fin_wait_1_ack fsm env md a else if fin_ack md then fin_wait_1_fin fsm env md a
      else if plain_rst md then take_rst env (Some RESET) md a else Inr a) = Inr s'"
    using run unfolding fsm__fin_wait_1__packet_def by (auto simp: bind_res_Inr simp del: bind_res_eq_Inr)
  have rd: "ready S FIN_WAIT_1 a" by (rule ready_seat [OF s leaves2D [OF seat.view_acceptability a(1)]])
  then have st: "se_state a = FIN_WAIT_1" "queued_mds a \<subseteq> S" by (simp_all add: ready_def)
  have quiet: "fin_covered S x" if "se_state x \<noteq> FIN_WAIT_2" for x using that by (simp add: fin_covered_def)
  have rst: "fin_covered S s'" if "take_rst env e md a = Inr s'" for e
    using take_rst_ends [of a env e md] that st unfolding ends_in_def by (auto intro!: quiet)
  have fin: "fin_covered S s'" if "fin_wait_1_fin fsm env md a = Inr s'"
    using that st by (auto simp: fin_wait_1_fin_def bind_res_Inr enter_time_wait_def state.view_arm_timer intro!: quiet split: if_splits)
  have ack: "fin_covered S s'" if pure: "pure_ack md" and run: "fin_wait_1_ack fsm env md a = Inr s'"
  proof (cases "md_seq md = rcv_nxt (se_rcv_seq a) \<and> ack_in_window md a")
    case True
    then obtain b c where b: "process_ack_packet fsm env md a = Inr b" "(if md_data md \<noteq> [] then send_ack env b else Inr b) = Inr c"
      "s' = fin_acked_step env md c"
      using run by (auto simp: fin_wait_1_ack_def bind_res_Inr)
    have "fin_covered S b" by (rule process_ack_yields [OF f quiet st(2,1) b(1)]) simp
    then have "fin_covered S c" using b(2) send_ack_fin [of env b c] by (auto simp: fin_covered_def split: if_splits)
    then show ?thesis using pure md by (auto simp: b(3) fin_acked_step_def fin_covered_def Let_def state.view_arm_timer)
  next
    case False
    then have "challenge_future_ack env md a = Inr s'" using run by (simp add: fin_wait_1_ack_def split: if_splits)
    then show ?thesis using leavesD [OF state.view_challenge_future] st by (auto intro!: quiet)
  qed
  show ?thesis using a(2) ack fin rst st by (auto intro!: quiet split: if_splits)
qed

lemma closing_covers:
  assumes f: "yields S CLOSING all_covered fsm" and s: "ready S CLOSING s" and run: "fsm__closing__packet fsm env md s = Inr s'"
  shows "all_covered s'"
proof (cases "md_syn md")
  case True
  then have "se_state s' = se_state s" using run leavesD [OF state.view_challenge] by (simp add: fsm__closing__packet_def)
  then show ?thesis using s by (simp add: all_covered_def ready_def)
next
  case False
  then obtain a ok where a: "check_segment_acceptability env md s = Inr (a, ok)"
    "(if \<not> ok then Inr a else if pure_ack md then closing_ack fsm env md a
      else if plain_rst md then take_rst env (Some RESET) md a else Inr a) = Inr s'"
    using run unfolding fsm__closing__packet_def by (auto simp: bind_res_Inr simp del: bind_res_eq_Inr)
  have rd: "ready S CLOSING a" by (rule ready_seat [OF s leaves2D [OF seat.view_acceptability a(1)]])
  then have st: "se_state a = CLOSING" "queued_mds a \<subseteq> S" by (simp_all add: ready_def)
  have quiet: "all_covered x" if "se_state x \<noteq> TIME_WAIT" for x using that by (simp add: all_covered_def)
  have rst: "all_covered s'" if "take_rst env e md a = Inr s'" for e
    using take_rst_ends [of a env e md] that st unfolding ends_in_def by (auto intro!: quiet)
  have ack: "all_covered s'" if run: "closing_ack fsm env md a = Inr s'"
  proof (cases "md_seq md = rcv_nxt (se_rcv_seq a) \<and> ack_in_window md a")
    case True
    then obtain b where b: "process_ack_packet fsm env md a = Inr b"
      "s' = (if ge32 (snd_una (se_snd_seq b)) (snd_fin (se_snd_seq b)) then enter_time_wait env b else b)"
      using run by (auto simp: closing_ack_def bind_res_Inr)
    have "all_covered b" by (rule process_ack_yields [OF f quiet st(2,1) b(1)]) simp
    then show ?thesis by (auto simp: b(2) all_covered_def enter_time_wait_def)
  next
    case False
    then have "challenge_future_ack env md a = Inr s'" using run by (simp add: closing_ack_def split: if_splits)
    then show ?thesis using leavesD [OF state.view_challenge_future] st by (auto intro!: quiet)
  qed
  show ?thesis using a(2) ack rst st by (auto intro!: quiet split: if_splits)
qed

lemma packet_yields:
  assumes "\<And>fsm md s s'. yields S st P fsm \<Longrightarrow> md \<in> S \<Longrightarrow> ready S st s \<Longrightarrow> dispatch_packet fsm env md s = Inr s' \<Longrightarrow> P s'"
    and tail: "\<And>s st ext. P s \<Longrightarrow> P (pump_tail env st ext s)"
  shows "yields S st P (fsm_packet n env)"
proof (induction n)
  case 0
  then show ?case by (simp add: yields_def)
next
  case (Suc n)
  show ?case unfolding yields_def
  proof (intro allI impI)
    fix md and s s' :: tcp_session
    assume md: "md \<in> S" and q: "queued_mds s \<subseteq> S" and st: "se_state s = st" and run: "fsm_packet (Suc n) env md s = Inr s'"
    then obtain a b where a: "ecn_receive md s = Inr a" "dispatch_packet (fsm_packet n env) env md a = Inr b"
      "s' = pump_tail env (se_state s) True b" by (auto simp: packet_step_def bind_res_Inr)
    have "ready S st a" using q st by (intro ready_seat [OF _ leavesD [OF seat.view_ecn_receive a(1)]]) (simp add: ready_def)
    then have "P b" using assms(1) [OF Suc.IH md] a(2) by blast
    then show "P s'" unfolding a(3) by (rule tail)
  qed
qed

lemma packet_covers_fin: "yields S FIN_WAIT_1 (fin_covered S) (fsm_packet n env)"
proof (rule packet_yields)
  show "fin_covered S s'" if "yields S FIN_WAIT_1 (fin_covered S) fsm" "md \<in> S" "ready S FIN_WAIT_1 s" "dispatch_packet fsm env md s = Inr s'"
    for fsm md s s'
    using fin_wait_1_covers [OF that(1-3)] that(3,4) by (simp add: dispatch_packet_def ready_def)
qed (simp add: fin_covered_def state.view_pump_tail)

lemma packet_covers_all: "yields S CLOSING all_covered (fsm_packet n env)"
proof (rule packet_yields)
  show "all_covered s'" if "yields S CLOSING all_covered fsm" "md \<in> S" "ready S CLOSING s" "dispatch_packet fsm env md s = Inr s'"
    for fsm md s s'
    using closing_covers [OF that(1,3)] that(3,4) by (simp add: dispatch_packet_def ready_def)
qed (simp add: all_covered_def state.view_pump_tail)

text \<open>The segment that ends LAST-ACK without a reset acknowledges all that was sent.\<close>

lemma ecn_receive_snd: "leaves se_snd_seq s (ecn_receive md s)"
proof -
  have r: "leaves se_snd_seq x (ecn_reduce x)" for x by (auto simp: ecn_reduce_def intro!: leaves_bind_pure)
  then have mark: "leaves se_snd_seq x (accecn_mark x)" for x unfolding accecn_mark_def by (rule leaves_bind) simp
  have a: "leaves se_snd_seq x (accecn_response md x)" for x
    unfolding accecn_response_def Let_def
    by (auto split: option.split prod.split intro!: leaves_bind leaves_cong [OF _ mark] simp: mark)
  have c: "leaves se_snd_seq x (ecn_classic_response md x)" for x
    by (auto simp: ecn_classic_response_def r intro!: leaves_bind)
  have "se_snd_seq (ecn_track md s) = se_snd_seq s" by (simp add: ecn_track_def Let_def)
  then show ?thesis unfolding ecn_receive_def by (intro leaves_bind leaves_cong [OF _ c] a) simp
qed

lemma last_ack_acks:
  assumes "se_state s = LAST_ACK" "\<not> md_rst md" "fsm_packet n env md s = Inr s'" "se_state s' = CLOSED"
  shows "md_ack md = snd_nxt (se_snd_seq s)"
proof (cases n)
  case (Suc k)
  then obtain a b where a: "ecn_receive md s = Inr a" "dispatch_packet (fsm_packet k env) env md a = Inr b"
    "s' = pump_tail env (se_state s) True b" using assms(3) by (auto simp: packet_step_def bind_res_Inr)
  have st: "se_state a = LAST_ACK" and snd: "se_snd_seq a = se_snd_seq s"
    using leavesD [OF seat.view_ecn_receive a(1)] leavesD [OF ecn_receive_snd a(1)] assms(1) by (simp_all add: seat_eq)
  have b: "se_state b = CLOSED" "fsm__last_ack__packet env md a = Inr b"
    using assms(4) a(2,3) st by (simp_all add: dispatch_packet_def state.view_pump_tail)
  have "\<not> md_syn md" using b st leavesD [OF state.view_challenge, of env a b] by (auto simp: fsm__last_ack__packet_def)
  then obtain c ok where c: "check_segment_acceptability env md a = Inr (c, ok)"
    "(if \<not> ok then Inr c else if pure_ack md
      then if md_ack md = snd_nxt (se_snd_seq c) \<and> ack_in_window md c then Inr (change_state env CLOSED c) else challenge_future_ack env md c
      else if plain_rst md then take_rst env None md c else Inr c) = Inr b"
    using b(2) by (auto simp: fsm__last_ack__packet_def bind_res_Inr simp del: bind_res_eq_Inr)
  have "ok \<Longrightarrow> c = a" using c(1) by (auto simp: check_segment_acceptability_def Let_def bind_res_Inr split: if_splits)
  moreover have "se_state c = LAST_ACK" using leaves2D [OF state.view_acceptability c(1)] st by simp
  ultimately show ?thesis using c(2) b(1) assms(2) snd leavesD [OF state.view_challenge_future, of env md c b]
    by (auto simp: plain_rst_def split: if_splits)
qed (use assms in simp)

text \<open>The timer moves a session to the closing states only once its data is sent.\<close>

lemma timer_drained:
  assumes "dispatch_timer env s = Inr s'" "se_state s' \<noteq> se_state s" "se_state s' \<noteq> CLOSED"
  shows "se_closing s' \<and> tx_buffer (se_tx s') = []"
proof -
  have c: "se_closing (change_state env st x) = se_closing x" "se_tx (change_state env st x) = se_tx x" for st x
    by (simp_all add: change_state_def leave_syn_rcvd_def leave_established_def cancel_all_timers_def keepalive_arm_idle_def arm_timer_def Let_def)
  have ka: "se_state (keepalive_tick env x) \<in> {se_state x, CLOSED}" for x by (simp add: keepalive_tick_def Let_def view_keep)
  have retry: "se_state x' \<in> {se_state x, CLOSED}" if "retry_and_send env x = Inr x'" for x x'
    using retry_ends [of x env] that by (auto simp: ends_in_def)
  have plain: "retry_and_send env s \<noteq> Inr s'" using retry assms(2,3) by auto
  have other: "x' = s' \<Longrightarrow> se_state x' \<in> {se_state s, CLOSED} \<Longrightarrow> False" for x' using assms(2,3) by auto
  show ?thesis
  proof (cases "se_state s")
    case ESTABLISHED
    obtain a b d e where r: "retry_and_send env s = Inr a" "delayed_ack env a = Inr b"
      "session_rack_reorder_tick env (keepalive_tick env b) = Inr d" "tlp_pto_tick env d = Inr e"
      "s' = (if se_closing e \<and> tx_buffer (se_tx e) = [] then change_state env FIN_WAIT_1 e else e)"
      using assms(1) ESTABLISHED by (auto simp: dispatch_timer_def fsm__established__timer_def bind_res_Inr)
    have "se_state e \<in> {se_state s, CLOSED}"
      using retry [OF r(1)] leavesD [OF state.view_delayed_ack r(2)] ka [of b] leavesD [OF state.view_rack_tick r(3)]
        leavesD [OF state.view_tlp_tick r(4)] by auto
    then show ?thesis using r(5) c other [of e] by (auto split: if_splits)
  next
    case CLOSE_WAIT
    obtain a b where r: "retry_and_send env s = Inr a" "delayed_ack env a = Inr b"
      "s' = (if se_closing b \<and> tx_buffer (se_tx b) = [] then change_state env LAST_ACK b else b)"
      using assms(1) CLOSE_WAIT by (auto simp: dispatch_timer_def fsm__close_wait__timer_def bind_res_Inr)
    have "se_state b \<in> {se_state s, CLOSED}" using retry [OF r(1)] leavesD [OF state.view_delayed_ack r(2)] by auto
    then show ?thesis using r(3) c other [of b] by (auto split: if_splits)
  qed (use assms plain in \<open>auto simp: dispatch_timer_def fsm__syn_sent__timer_def fsm__syn_rcvd__timer_def fsm__fin_wait_1__timer_def
    fsm__fin_wait_2__timer_def fsm__closing__timer_def fsm__last_ack__timer_def fsm__time_wait__timer_def split: if_splits\<close>)
qed

section \<open>Resets\<close>

text \<open>What a reset is judged by; the ECN preamble and the checks before it leave it alone.\<close>

definition reset_side :: "tcp_session \<Rightarrow> fsm_state \<times> seq32 \<times> seq32 \<times> seq32 \<times> bool" where
  "reset_side s = (se_state s, rcv_nxt (se_rcv_seq s), snd_una (se_snd_seq s), snd_max (se_snd_seq s), ts_send_ts (se_ts s))"

definition reset_ok :: "tcp_metadata \<Rightarrow> tcp_session \<Rightarrow> bool" where
  "reset_ok md s \<longleftrightarrow> md_seq md = rcv_nxt (se_rcv_seq s) \<and> (md_ack_flag md \<longrightarrow> ack_in_window md s)"

lemma reset_ok_cong: "reset_side a = reset_side s \<Longrightarrow> reset_ok md a = reset_ok md s"
  by (simp add: reset_side_def reset_ok_def ack_in_window_def)

lemma ecn_receive_reset: "leaves reset_side s (ecn_receive md s)"
proof -
  have r: "leaves reset_side x (ecn_reduce x)" for x by (auto simp: ecn_reduce_def reset_side_def intro!: leaves_bind_pure)
  then have mark: "leaves reset_side x (accecn_mark x)" for x
    unfolding accecn_mark_def by (rule leaves_bind) (simp add: reset_side_def)
  have upd: "reset_side (x\<lparr>se_accecn := v\<rparr>) = reset_side x" "reset_side (x\<lparr>se_ecn := e\<rparr>) = reset_side x" for x v e
    by (simp_all add: reset_side_def)
  have a: "leaves reset_side x (accecn_response md x)" for x
    unfolding accecn_response_def Let_def
    by (auto split: option.split prod.split intro!: leaves_bind leaves_cong [OF _ mark] simp: mark upd)
  have c: "leaves reset_side x (ecn_classic_response md x)" for x
    by (auto simp: ecn_classic_response_def r upd intro!: leaves_bind)
  have "reset_side (ecn_track md s) = reset_side s" by (simp add: ecn_track_def Let_def reset_side_def)
  then show ?thesis unfolding ecn_receive_def by (intro leaves_bind leaves_cong [OF _ c] a) simp
qed

lemma checks_reset:
  "check_segment_acceptability env md s = Inr (a, True) \<Longrightarrow> a = s"
  "check_paws_and_update_ts_recent env md s = Inr (a, True) \<Longrightarrow> reset_side a = reset_side s"
  "check_rst_acceptability env md s = Inr (a, True) \<Longrightarrow> a = s \<and> reset_ok md s"
  by (auto simp: check_segment_acceptability_def check_paws_and_update_ts_recent_def check_rst_acceptability_def Let_def
    reset_side_def reset_ok_def ack_in_window_def bind_res_Inr ts_update_def split: if_splits option.splits)

lemma rst_closes:
  assumes "bind_res (check_rst_acceptability env md a) (\<lambda>(s1, ok). Inr (if ok then g s1 else s1)) = Inr b"
    "\<And>x. se_state (g x) = CLOSED"
  shows "se_state b = (if reset_ok md a then CLOSED else se_state a)"
proof (cases "reset_ok md a")
  case True
  then have "check_rst_acceptability env md a = Inr (a, True)"
    by (auto simp: check_rst_acceptability_def reset_ok_def ack_in_window_def)
  then show ?thesis using assms True by auto
next
  case False
  obtain c ok where c: "check_rst_acceptability env md a = Inr (c, ok)" "b = (if ok then g c else c)"
    using assms(1) unfolding bind_res_Inr by force
  then have "\<not> ok" using False checks_reset(3) [of env md a c] by auto
  then show ?thesis using False c leaves2D [OF state.view_rst c(1)] by simp
qed

lemma take_rst_if:
  assumes "(if p then take_rst env e md a else Inr a) = Inr b"
  shows "se_state b = se_state a \<or> se_state b = CLOSED \<and> reset_ok md a"
proof (cases p)
  case True
  then have "take_rst env e md a = Inr b" using assms by (simp only: if_True)
  then have "se_state b = (if reset_ok md a then CLOSED else se_state a)"
    unfolding take_rst_def by (rule rst_closes) (rule change_state_state)
  then show ?thesis by (cases "reset_ok md a") (simp_all only: if_True if_False simp_thms)
next
  case False
  then show ?thesis using assms by (simp only: if_False sum.inject simp_thms)
qed

lemma rst_flags: "md_rst md \<Longrightarrow> \<not> pure_ack md \<and> \<not> fin_ack md \<and> \<not> plain_syn md"
  by (simp add: pure_ack_def fin_ack_def plain_syn_def)

text \<open>What the handlers make of a reset, as a step \<open>f\<close> behind the tests they share.\<close>

lemma checked_reset:
  assumes run: "(if md_syn md then emit_challenge_ack env s
    else bind_res (check_segment_acceptability env md s) (\<lambda>(s1, ok). if \<not> ok then Inr s1 else f s1)) = Inr b"
    and f: "\<And>b. f s = Inr b \<Longrightarrow> se_state b = se_state s \<or> Q b"
  shows "se_state b = se_state s \<or> Q b"
proof (cases "md_syn md")
  case True
  then show ?thesis using run leavesD [OF state.view_challenge] by simp
next
  case False
  then obtain a ok where a: "check_segment_acceptability env md s = Inr (a, ok)" "(if \<not> ok then Inr a else f a) = Inr b"
    using run unfolding bind_res_Inr by force
  show ?thesis
  proof (cases ok)
    case True
    then show ?thesis using a f checks_reset(1) [of env md s a] by auto
  next
    case False
    then show ?thesis using a leaves2D [OF state.view_acceptability a(1)] by simp
  qed
qed

lemma established_reset:
  assumes "md_rst md" "se_state s = ESTABLISHED" "fsm__established__packet fsm env md s = Inr b"
  shows "se_state b = ESTABLISHED \<or> se_state b = CLOSED \<and> reset_ok md s"
proof -
  have "se_state c = se_state s \<or> se_state c = CLOSED \<and> reset_ok md s"
    if run: "bind_res (check_paws_and_update_ts_recent env md s) (\<lambda>(s2, ok). if \<not> ok then Inr s2
        else if plain_rst md then take_rst env (Some RESET) md s2 else Inr s2) = Inr c" for c
  proof -
    obtain a ok where a: "check_paws_and_update_ts_recent env md s = Inr (a, ok)"
        "(if \<not> ok then Inr a else if plain_rst md then take_rst env (Some RESET) md a else Inr a) = Inr c"
      using run unfolding bind_res_Inr by force
    have st: "se_state a = se_state s" by (rule leaves2D [OF state.view_paws a(1)])
    show ?thesis
    proof (cases ok)
      case True
      have "reset_ok md a = reset_ok md s" by (rule reset_ok_cong, rule checks_reset(2)) (use a(1) True in simp)
      moreover have "(if plain_rst md then take_rst env (Some RESET) md a else Inr a) = Inr c" using a(2) True by (simp only: simp_thms if_False)
      ultimately show ?thesis using take_rst_if [of "plain_rst md"] st by metis
    next
      case False
      then show ?thesis using a(2) st by simp
    qed
  qed
  moreover have "(if md_syn md then emit_challenge_ack env s
    else bind_res (check_segment_acceptability env md s) (\<lambda>(s1, ok). if \<not> ok then Inr s1
      else bind_res (check_paws_and_update_ts_recent env md s1) (\<lambda>(s2, ok). if \<not> ok then Inr s2
        else if plain_rst md then take_rst env (Some RESET) md s2 else Inr s2))) = Inr b"
    using assms(3) unfolding fsm__established__packet_def by (simp only: rst_flags [OF assms(1)] if_False)
  ultimately have "se_state b = se_state s \<or> se_state b = CLOSED \<and> reset_ok md s" by (rule checked_reset [rotated])
  then show ?thesis by (simp only: assms(2))
qed

lemma dispatch_reset:
  assumes "md_rst md" "se_state s \<notin> {CLOSED, LISTEN, SYN_SENT}" "dispatch_packet fsm env md s = Inr b"
  shows "se_state b = se_state s \<or> se_state b = CLOSED \<and> se_state s \<noteq> TIME_WAIT \<and> reset_ok md s"
proof -
  note f = rst_flags [OF assms(1)]
  have h: "se_state b = se_state s \<or> se_state b = CLOSED \<and> reset_ok md s"
    if "(if md_syn md then emit_challenge_ack env s
      else bind_res (check_segment_acceptability env md s) (\<lambda>(s1, ok). if \<not> ok then Inr s1
        else if plain_rst md then take_rst env e md s1 else Inr s1)) = Inr b" for e
    by (rule checked_reset [OF that]) (rule take_rst_if)
  show ?thesis
  proof (cases "se_state s")
    case SYN_RCVD
    have "(if plain_rst md then bind_res (check_rst_acceptability env md s) (\<lambda>(s1, ok).
             Inr (if ok
                  then change_state env CLOSED (s1\<lparr>se_connection_error := REFUSED, se_event_connect := se_event_connect s1 + 1\<rparr>)
                  else s1)) else Inr s) = Inr b"
      using assms(3) unfolding dispatch_packet_def fsm__syn_rcvd__packet_def SYN_RCVD fsm_state.case
      by (simp only: f assms(1) if_False simp_thms)
    then have "se_state b = (if plain_rst md \<and> reset_ok md s then CLOSED else se_state s)"
      using rst_closes [of env md s _ b, OF _ change_state_state] by (cases "plain_rst md") (simp_all only: if_True if_False simp_thms sum.inject)
    then show ?thesis using SYN_RCVD by (cases "plain_rst md \<and> reset_ok md s") simp_all
  next
    case ESTABLISHED
    then show ?thesis using established_reset [OF assms(1) ESTABLISHED] assms(3) by (simp add: dispatch_packet_def)
  next
    case FIN_WAIT_1
    then show ?thesis using h assms(3) unfolding dispatch_packet_def fsm__fin_wait_1__packet_def by (simp only: f if_False fsm_state.case simp_thms fsm_state.distinct)
  next
    case FIN_WAIT_2
    then show ?thesis using h assms(3) unfolding dispatch_packet_def fsm__fin_wait_2__packet_def by (simp only: f if_False fsm_state.case simp_thms fsm_state.distinct)
  next
    case CLOSING
    then show ?thesis using h assms(3) unfolding dispatch_packet_def fsm__closing__packet_def by (simp only: f if_False fsm_state.case simp_thms fsm_state.distinct)
  next
    case CLOSE_WAIT
    then show ?thesis using h assms(3) unfolding dispatch_packet_def fsm__close_wait__packet_def by (simp only: f if_False fsm_state.case simp_thms fsm_state.distinct)
  next
    case LAST_ACK
    then show ?thesis using h assms(3) unfolding dispatch_packet_def fsm__last_ack__packet_def by (simp only: f if_False fsm_state.case simp_thms fsm_state.distinct)
  next
    case TIME_WAIT
    have "ends_in {TIME_WAIT} (fsm__time_wait__packet env md s)" unfolding fsm__time_wait__packet_def
      by (rule ends_in_leaves2 [OF state.view_paws])
        (auto simp: TIME_WAIT reusable_syn_def assms(1) state.view_arm_timer intro!: ends_in_leaves [OF state.view_challenge]
          ends_in_leaves_bind [OF state.view_send_ack])
    then show ?thesis using assms(3) TIME_WAIT by (simp add: dispatch_packet_def ends_in_def)
  qed (use assms(2) in auto)
qed

section \<open>The end of a connection\<close>

text \<open>A session that enters CLOSED has given up its socket and all its timers and has woken whoever waits on it.\<close>

definition torn_down :: "tcp_session \<Rightarrow> bool" where
  "torn_down s \<longleftrightarrow> se_state s = CLOSED \<and> tm_deadlines (se_timers s) = [] \<and> Unregister_Socket \<in> set (se_effects s) \<and>
     se_event_rx_buffer s \<and> se_event_closed s"

definition closing_effects :: "session_effect list \<Rightarrow> bool" where
  "closing_effects e \<longleftrightarrow> Unregister_Socket \<in> set e \<and> set e \<subseteq> {Decr_Fastopen_Pending, Unregister_Socket}"

lemma change_closed:
  "torn_down (change_state env CLOSED s)"
  "se_connection_error (change_state env CLOSED s) = se_connection_error s"
  "\<exists>e. closing_effects e \<and> se_effects (change_state env CLOSED s) = se_effects s @ e"
  by (simp_all add: closing_effects_def torn_down_def change_state_def leave_syn_rcvd_def leave_established_def cancel_all_timers_def
    timer_cancel_all_def Let_def)

lemma pump_tail_closed: "torn_down s \<Longrightarrow> torn_down (pump_tail env st ext s)"
  "se_effects (pump_tail env st ext s) = se_effects s" "se_connection_error (pump_tail env st ext s) = se_connection_error s"
  by (simp_all add: torn_down_def pump_tail_def cancel_timer_def arm_timer_def timer_cancel_def timer_reschedule_def Let_def
    AList.delete_eq split: option.split)

text \<open>The states in which an abort owes the peer a reset.\<close>

definition owes_reset :: "fsm_state \<Rightarrow> bool" where
  "owes_reset st \<longleftrightarrow> st \<in> {SYN_RCVD, ESTABLISHED, FIN_WAIT_1, FIN_WAIT_2, CLOSE_WAIT}"

text \<open>A segment without data is sent whatever the session.\<close>

lemma transmit_empty_returns:
  assumes "rq_data rq = []"
  obtains s' where "transmit_packet env rq s = Inr s'"
proof -
  define seq where "seq = (case rq_seq rq of Some q \<Rightarrow> q | None \<Rightarrow> snd_nxt (se_snd_seq s))"
  have "\<exists>r. restart_after_idle env rq s = Inr r" using assms by (simp add: restart_after_idle_def Let_def)
  then obtain s0 where s0: "phase0_pre_send_hygiene env seq rq s = Inr s0" by (auto simp: phase0_pre_send_hygiene_def)
  have "phase5_post_send_timers env rq x = Inr (arm_send_timers env rq x)" for x
    using assms by (simp add: phase5_post_send_timers_def arm_tlp_def)
  then have "\<exists>s'. transmit_packet env rq s = Inr s'"
    by (simp add: transmit_packet_def Let_def s0 [unfolded seq_def] split: prod.split)
  then show thesis using that by blast
qed

lemma session_abort_result:
  obtains s' e where "session_abort env s = Inr s'" "torn_down s'" "se_connection_error s' = CANCELED"
    "se_event_connect s' = se_event_connect s + 1"
    "closing_effects e"
    "se_effects s' = se_effects s @ e \<and> \<not> owes_reset (se_state s) \<or>
     (\<exists>g. se_effects s' = se_effects s @ Send_Segment g # e \<and> sg_rst g \<and> sg_seq g = snd_nxt (se_snd_seq s)) \<and> owes_reset (se_state s)"
proof -
  define fin where "fin x = change_state env CLOSED
      (x\<lparr>se_connection_error := CANCELED, se_event_rx_buffer := True, se_event_connect := se_event_connect x + 1\<rparr>)" for x
  have ev: "se_event_connect (fin x) = se_event_connect x + 1" for x
    by (simp add: fin_def change_state_def leave_syn_rcvd_def leave_established_def cancel_all_timers_def Let_def)
  have fin: "torn_down (fin x)" "se_connection_error (fin x) = CANCELED"
    "\<exists>e. closing_effects e \<and> se_effects (fin x) = se_effects x @ e" for x
    using change_closed(3) [of env "x\<lparr>se_connection_error := CANCELED, se_event_rx_buffer := True, se_event_connect := se_event_connect x + 1\<rparr>"]
    by (simp_all add: fin_def change_closed)
  show ?thesis
  proof (cases "owes_reset (se_state s)")
    case True
    let ?rq = "tx_plain\<lparr>rq_rst := True, rq_ack := True, rq_seq := Some (snd_nxt (se_snd_seq s))\<rparr>"
    have empty: "rq_data ?rq = []" by (simp add: tx_plain_def)
    obtain s1 where s1: "transmit_packet env ?rq s = Inr s1" by (rule transmit_empty_returns [OF empty])
    obtain g where g: "se_effects s1 = se_effects s @ [Send_Segment g]" "sg_rst g" "sg_seq g = snd_nxt (se_snd_seq s)"
      "se_event_connect s1 = se_event_connect s"
      by (rule transmit_packet_frame [OF s1]) (simp add: tx_plain_def)
    obtain e where e: "closing_effects e" "se_effects (fin s1) = se_effects s1 @ e"
      using fin(3) by blast
    have "session_abort env s = Inr (fin s1)" using s1 True by (simp add: session_abort_def owes_reset_def fin_def)
    then show ?thesis using that [of "fin s1" e] fin e g ev True by simp
  next
    case False
    obtain e where e: "closing_effects e" "se_effects (fin s) = se_effects s @ e"
      using fin(3) by blast
    have "session_abort env s = Inr (fin s)" using False by (simp add: session_abort_def owes_reset_def fin_def)
    then show ?thesis using that [of "fin s" e] fin e ev False by simp
  qed
qed

lemma abort_dispatch: "dispatch_syscall env SYSCALL_ABORT s = session_abort env s"
  by (simp add: dispatch_syscall_def fsm__closed__syscall_def fsm__listen__syscall_def fsm__syn_sent__syscall_def
    fsm__syn_rcvd__syscall_def fsm__established__syscall_def fsm__fin_wait_1__syscall_def fsm__fin_wait_2__syscall_def
    fsm__closing__syscall_def fsm__close_wait__syscall_def fsm__last_ack__syscall_def fsm__time_wait__syscall_def abort_only_def
    split: fsm_state.split)

section \<open>Properties\<close>

text \<open>
  C31. The nested dispatch of queued segments ends, and the count of nested dispatches in the
  model is no restriction: \<open>tcp_fsm\<close> on packets satisfies the recursive equation of the code,
  in which the processing of a segment may call the whole machine again on a queued one, and
  every function that satisfies the equation is equal to it.
\<close>

theorem redispatch_recursion:
  "(\<forall>md s. tcp_fsm env (Packet md) s = packet_step (\<lambda>md s. tcp_fsm env (Packet md) s) env md s) \<and>
   (\<forall>F. (\<forall>md s. F md s = packet_step F env md s) \<longrightarrow> (\<forall>md s. F md s = tcp_fsm env (Packet md) s))"
proof (intro conjI allI impI)
  fix md and s :: tcp_session
  have "agree (length (se_ooo_packet_queue s)) (fsm_packet (length (se_ooo_packet_queue s)) env) (\<lambda>md s. tcp_fsm env (Packet md) s)"
    using fsm_packet_enough unfolding agree_def by blast
  from packet_step_agree [OF this]
  show "tcp_fsm env (Packet md) s = packet_step (\<lambda>md s. tcp_fsm env (Packet md) s) env md s" by (simp add: tcp_fsm_def)
next
  fix F md and s :: tcp_session assume F: "\<forall>md s. F md s = packet_step F env md s"
  show "F md s = tcp_fsm env (Packet md) s"
  proof (induction "length (se_ooo_packet_queue s)" arbitrary: md s rule: less_induct)
    case less
    then have "agree (length (se_ooo_packet_queue s)) F (fsm_packet (length (se_ooo_packet_queue s)) env)"
      using fsm_packet_enough unfolding agree_def by metis
    from packet_step_agree [OF this] show ?case using F by (simp add: tcp_fsm_def)
  qed
qed

corollary redispatch_recursion_witness:
  "tcp_fsm sample_env (Packet sample_md) sample_open =
     packet_step (\<lambda>md s. tcp_fsm sample_env (Packet md) s) sample_env sample_md sample_open \<and>
   (\<lambda>md s. tcp_fsm sample_env (Packet md) s) sample_md sample_open = tcp_fsm sample_env (Packet sample_md) sample_open"
  using redispatch_recursion [of sample_env] by blast

text \<open>
  C3. The connection state moves along the edges of the diagram of RFC 9293, with the one edge
  of RFC 6191, and only on the events that label them: whatever the session and the
  environment, an event that is handled leaves the state where it was or takes it along such an
  edge. On a segment, the way to CLOSE-WAIT, to CLOSING and to TIME-WAIT from FIN-WAIT-1 and
  FIN-WAIT-2 needs a segment with FIN; the way from FIN-WAIT-1 to FIN-WAIT-2 an ACK at or past SND.FIN, the
  number recorded for the FIN, and from CLOSING to TIME-WAIT an ACK after which SND.UNA is at or past it; and
  the way to CLOSED needs a segment with RST or, in LAST-ACK, an ACK of everything sent. That segment is the
  one received or, as handling a segment dispatches queued ones, one of the queue. A timer
  moves to FIN-WAIT-1 or LAST-ACK only after a close and with nothing left to send.
\<close>

theorem connection_follows_diagram:
  assumes "tcp_fsm env ev s = Inr s'"
  shows "(se_state s' = se_state s \<or> diagram (case ev of Packet md \<Rightarrow> insert md (queued_mds s) | _ \<Rightarrow> {}) (se_state s) ev (se_state s')) \<and>
    (case ev of
       Packet md \<Rightarrow>
         (se_state s = FIN_WAIT_1 \<and> se_state s' = FIN_WAIT_2 \<longrightarrow>
            (\<exists>m \<in> insert md (queued_mds s). pure_ack m \<and> ge32 (md_ack m) (snd_fin (se_snd_seq s')))) \<and>
         (se_state s = CLOSING \<and> se_state s' = TIME_WAIT \<longrightarrow> ge32 (snd_una (se_snd_seq s')) (snd_fin (se_snd_seq s'))) \<and>
         (se_state s = LAST_ACK \<and> se_state s' = CLOSED \<and> \<not> md_rst md \<longrightarrow> md_ack md = snd_nxt (se_snd_seq s))
     | Timer_Tick \<Rightarrow> se_state s' \<in> {se_state s, CLOSED} \<or> se_closing s' \<and> tx_buffer (se_tx s') = []
     | _ \<Rightarrow> True)"
proof -
  let ?S = "case ev of Packet md \<Rightarrow> insert md (queued_mds s) | _ \<Rightarrow> {}"
  have tail: "ends_in X (bind_res r (\<lambda>s1. Inr (pump_tail env st ext s1)))" if "ends_in X r" for X r st ext
    using that by (rule ends_in_bind) (simp add: state.view_pump_tail)
  have "ends_in (insert (se_state s) {st. diagram ?S (se_state s) ev st}) (tcp_fsm env ev s)"
    by (cases ev) (auto simp: tcp_fsm_def simp del: fsm_packet.simps intro!: tail icmp_ends syscall_ends timer_ends packet_ends)
  then have "se_state s' = se_state s \<or> diagram ?S (se_state s) ev (se_state s')" using assms unfolding ends_in_def by blast
  moreover have "se_state s' \<in> {se_state s, CLOSED} \<or> se_closing s' \<and> tx_buffer (se_tx s') = []" if tick: "ev = Timer_Tick"
  proof -
    obtain a where a: "dispatch_timer env s = Inr a" "s' = pump_tail env (se_state s) False a"
      using assms tick by (auto simp: tcp_fsm_def bind_res_Inr)
    have "se_state s' = se_state a" "se_closing s' = se_closing a" "se_tx s' = se_tx a"
      by (simp_all add: a(2) pump_tail_def arm_timer_def cancel_timer_def Let_def)
    then show ?thesis using timer_drained [OF a(1)] by auto
  qed
  moreover have "\<exists>m \<in> insert md (queued_mds s). pure_ack m \<and> ge32 (md_ack m) (snd_fin (se_snd_seq s'))"
    if "ev = Packet md" "se_state s = FIN_WAIT_1" "se_state s' = FIN_WAIT_2" for md
    using packet_covers_fin [unfolded yields_def, rule_format, of md "insert md (queued_mds s)" s] assms that
    by (auto simp: tcp_fsm_def fin_covered_def simp del: fsm_packet.simps)
  moreover have "ge32 (snd_una (se_snd_seq s')) (snd_fin (se_snd_seq s'))"
    if "ev = Packet md" "se_state s = CLOSING" "se_state s' = TIME_WAIT" for md
    using packet_covers_all [unfolded yields_def, rule_format, of md "insert md (queued_mds s)" s] assms that
    by (auto simp: tcp_fsm_def all_covered_def simp del: fsm_packet.simps)
  moreover have "md_ack md = snd_nxt (se_snd_seq s)"
    if "ev = Packet md" "se_state s = LAST_ACK" "se_state s' = CLOSED" "\<not> md_rst md" for md
    using last_ack_acks [OF that(2,4) _ that(3)] assms that(1) by (simp add: tcp_fsm_def del: fsm_packet.simps)
  ultimately show ?thesis by (auto split: fsm_event.split)
qed

corollary connection_follows_diagram_witness:
  "\<exists>s'. tcp_fsm sample_env (Packet (sample_md\<lparr>md_fin := True\<rparr>)) sample_open = Inr s' \<and>
    se_state s' \<noteq> se_state sample_open \<and>
    diagram (insert (sample_md\<lparr>md_fin := True\<rparr>) (queued_mds sample_open)) (se_state sample_open) (Packet (sample_md\<lparr>md_fin := True\<rparr>)) (se_state s')"
proof -
  have "map_sum id se_state (tcp_fsm sample_env (Packet (sample_md\<lparr>md_fin := True\<rparr>)) sample_open) = Inr CLOSE_WAIT"
    by (simp add: tcp_eval cong: eval_cong)
  then obtain s' where s': "tcp_fsm sample_env (Packet (sample_md\<lparr>md_fin := True\<rparr>)) sample_open = Inr s'" "se_state s' = CLOSE_WAIT"
    by (cases "tcp_fsm sample_env (Packet (sample_md\<lparr>md_fin := True\<rparr>)) sample_open") simp_all
  moreover have "se_state sample_open = ESTABLISHED" by (simp add: sample_open_def Let_def)
  ultimately show ?thesis using connection_follows_diagram [OF s'(1)] by (intro exI [of _ s']) simp
qed

text \<open>
  C30. Blind resets (RFC 5961, RFC 1337). In every synchronized state a segment with RST set
  either leaves the connection state alone or closes the connection, and it closes it only when
  its sequence number is exactly RCV.NXT and its acknowledgment number, if it has one, lies
  within the data in flight; in TIME-WAIT no reset closes it.
\<close>

theorem reset_closes_only_in_place:
  assumes "md_rst md" "se_state s \<notin> {CLOSED, LISTEN, SYN_SENT}" "tcp_fsm env (Packet md) s = Inr s'"
  shows "se_state s' = se_state s \<or>
    se_state s' = CLOSED \<and> se_state s \<noteq> TIME_WAIT \<and> md_seq md = rcv_nxt (se_rcv_seq s) \<and>
    (md_ack_flag md \<longrightarrow> in_range32 (md_ack md) (snd_una (se_snd_seq s)) (snd_max (se_snd_seq s)))"
proof -
  obtain a b where ab: "ecn_receive md s = Inr a" "dispatch_packet (fsm_packet (length (se_ooo_packet_queue s)) env) env md a = Inr b"
      "s' = pump_tail env (se_state s) True b"
    using assms(3) by (auto simp: tcp_fsm_def packet_step_def bind_res_Inr)
  have r: "reset_side a = reset_side s" by (rule leavesD [OF ecn_receive_reset ab(1)])
  then have st: "se_state a = se_state s" by (simp add: reset_side_def)
  have "se_state b = se_state a \<or> se_state b = CLOSED \<and> se_state a \<noteq> TIME_WAIT \<and> reset_ok md a"
    using dispatch_reset [OF assms(1) _ ab(2)] assms(2) st by simp
  moreover have "se_state s' = se_state b" by (simp add: ab(3) state.view_pump_tail)
  ultimately show ?thesis using st reset_ok_cong [OF r, of md] by (auto simp: reset_ok_def ack_in_window_def)
qed

corollary reset_closes_only_in_place_witness:
  "(\<exists>s'. tcp_fsm sample_env (Packet (sample_md\<lparr>md_rst := True\<rparr>)) sample_open = Inr s' \<and> se_state s' = CLOSED \<and>
     md_seq (sample_md\<lparr>md_rst := True\<rparr>) = rcv_nxt (se_rcv_seq sample_open)) \<and>
   (\<exists>s'. tcp_fsm sample_env (Packet (sample_md\<lparr>md_rst := True, md_seq := 101\<rparr>)) sample_open = Inr s' \<and> se_state s' = ESTABLISHED)"
proof -
  have st: "se_state sample_open = ESTABLISHED" by (simp add: sample_open_def Let_def)
  have "map_sum id se_state (tcp_fsm sample_env (Packet (sample_md\<lparr>md_rst := True\<rparr>)) sample_open) = Inr CLOSED"
    by (simp add: tcp_eval cong: eval_cong)
  then obtain s1 where s1: "tcp_fsm sample_env (Packet (sample_md\<lparr>md_rst := True\<rparr>)) sample_open = Inr s1" "se_state s1 = CLOSED"
    by (cases "tcp_fsm sample_env (Packet (sample_md\<lparr>md_rst := True\<rparr>)) sample_open") simp_all
  have "map_sum id se_state (tcp_fsm sample_env (Packet (sample_md\<lparr>md_rst := True, md_seq := 101\<rparr>)) sample_open) = Inr ESTABLISHED"
    by (simp add: tcp_eval cong: eval_cong)
  then obtain s2 where "tcp_fsm sample_env (Packet (sample_md\<lparr>md_rst := True, md_seq := 101\<rparr>)) sample_open = Inr s2" "se_state s2 = ESTABLISHED"
    by (cases "tcp_fsm sample_env (Packet (sample_md\<lparr>md_rst := True, md_seq := 101\<rparr>)) sample_open") simp_all
  then show ?thesis using s1 st reset_closes_only_in_place [OF _ _ s1(1)] by auto
qed


end
