(* ===== verification/Tcp_Departures.thy ===== *)
theory Tcp_Departures
  imports Tcp_Fsm
begin

text \<open>
  Runs of the state machine on which the code does not do what it means to, each evaluated on
  the sample session: an open connection that expects sequence number 100 and has sent nothing
  but its SYN.
\<close>

definition segments_out :: "tcp_session \<Rightarrow> tcp_segment list" where
  "segments_out s = concat (map (\<lambda>e. case e of Send_Segment g \<Rightarrow> [g] | _ \<Rightarrow> []) (se_effects s))"

text \<open>The sample session with timestamps in use.\<close>

definition with_ts :: "tcp_session \<Rightarrow> tcp_session" where
  "with_ts s = s\<lparr>se_ts := \<lparr>ts_send_ts = True, ts_recent = 10, ts_recent_updated_at_ms = 4000\<rparr>\<rparr>"

lemmas case_eval = tcp_eval segments_out_def with_ts_def

section \<open>Queued segments\<close>

text \<open>
  A segment is queued with its own timestamp; when the gap is filled by a segment that was sent
  later, TS.Recent has moved past it and the queued segment, already selectively acknowledged
  and now taken out of the queue, is refused as old: its bytes are lost.
\<close>

lemma queued_segment_fails_paws:
  "map_sum id (\<lambda>s. (se_rx_buffer s, rcv_nxt (se_rcv_seq s), se_ooo_packet_queue s))
     (run_events sample_env
       [Packet (sample_md\<lparr>md_seq := 103, md_data := [4, 5], md_tsval := Some 20, md_tsecr := Some 1\<rparr>),
        Packet (sample_md\<lparr>md_data := [1, 2, 3], md_tsval := Some 30, md_tsecr := Some 1\<rparr>)] (with_ts sample_open)) =
   Inr ([1, 2, 3], 103, [])"
  by (simp add: case_eval cong: eval_cong)

text \<open>A congestion mark on a queued segment is counted when it arrives and again when it is dispatched.\<close>

lemma queued_mark_counted_twice:
  "map_sum id (\<lambda>s. r_cep (se_accecn s) - r_cep (se_accecn sample_open))
     (run_events sample_env
       [Packet (sample_md\<lparr>md_seq := 103, md_data := [4, 5], md_ecn := 3\<rparr>), Packet (sample_md\<lparr>md_data := [1, 2, 3]\<rparr>)]
       (sample_open\<lparr>se_accecn := (se_accecn sample_open)\<lparr>ae_enabled := True\<rparr>\<rparr>)) = Inr 2"
  by (simp add: case_eval cong: eval_cong)

section \<open>Closing\<close>

text \<open>
  FIN-WAIT-1 is entered one timer tick before the FIN is sent, with the FIN's number still 0:
  any acknowledgment below \<open>2 ^ 31\<close> counts as that of the FIN, and no FIN is ever sent.
\<close>

lemma fin_wait_2_without_fin:
  "map_sum id (\<lambda>s. (se_state s, list_ex sg_fin (segments_out s), tx_buffer (se_tx s)))
     (run_events sample_env [Syscall SYSCALL_CLOSE, Timer_Tick, Packet (sample_md\<lparr>md_data := [9]\<rparr>)] sample_open) =
   Inr (FIN_WAIT_2, False, [])"
  by (simp add: case_eval cong: eval_cong)

text \<open>In LAST-ACK, before the FIN is sent, an acknowledgment of everything sent closes the connection.\<close>

lemma last_ack_closes_without_fin:
  "map_sum id (\<lambda>s. (se_state s, list_ex sg_fin (segments_out s)))
     (run_events sample_env [Syscall SYSCALL_CLOSE, Timer_Tick, Packet sample_md] (sample_open\<lparr>se_state := CLOSE_WAIT\<rparr>)) =
   Inr (CLOSED, False)"
  by (simp add: case_eval cong: eval_cong)

text \<open>A FIN that is refused by its timestamp is acknowledged without RCV.NXT moving, and taken as received.\<close>

lemma fin_wait_2_takes_refused_fin:
  "map_sum id (\<lambda>s. (se_state s, map sg_ack (segments_out s)))
     (run_events sample_env [Packet (sample_md\<lparr>md_fin := True, md_tsval := Some 5, md_tsecr := Some 1\<rparr>)]
       (with_ts (sample_open\<lparr>se_state := FIN_WAIT_2\<rparr>))) = Inr (TIME_WAIT, [100, 100])"
  by (simp add: case_eval cong: eval_cong)

text \<open>
  When the last keep-alive probe times out on the tick after a close, the session is torn down
  and its socket unregistered, and the same tick then moves it to FIN-WAIT-1.
\<close>

lemma keepalive_timeout_reopens:
  "map_sum id (\<lambda>s. (se_state s, Unregister_Socket \<in> set (se_effects s), se_connection_error s, se_event_closed s))
     (run_events sample_env [Syscall SYSCALL_CLOSE, Timer_Tick]
       (sample_open\<lparr>se_keepalive := (se_keepalive sample_open)\<lparr>ka_enabled := True, ka_active := True, ka_probes_unacked := 9\<rparr>,
          se_timers := \<lparr>tm_deadlines = [(''keepalive'', 4000)], tm_handle = None\<rparr>\<rparr>)) =
   Inr (FIN_WAIT_1, True, TIMEOUT, True)"
  by (simp add: case_eval cong: eval_cong)

section \<open>Duplicate acknowledgments and resets\<close>

text \<open>
  CLOSE-WAIT counts duplicate acknowledgments with nothing in flight: the third starts a
  recovery with a congestion window of 0, and what the application sends afterwards stays in
  the buffer.
\<close>

lemma close_wait_idle_recovery:
  "map_sum id (\<lambda>s. (cc_cwnd (se_cc s), tx_buffer (se_tx s), map sg_payload (segments_out s)))
     (bind_res (run_events sample_env [Packet sample_md, Packet sample_md, Packet sample_md] (sample_open\<lparr>se_state := CLOSE_WAIT\<rparr>))
       (\<lambda>s. bind_res (session_send sample_env [1, 2, 3] s) (\<lambda>(s1, n). run_events sample_env [Timer_Tick] s1))) =
   Inr (0, [1, 2, 3], [])"
  by (simp add: case_eval cong: eval_cong)

text \<open>A reset without a timestamp is dropped as if it were data, though RFC 7323 exempts resets.\<close>

lemma reset_without_timestamp_dropped:
  "map_sum id se_state (run_events sample_env [Packet (sample_md\<lparr>md_rst := True\<rparr>)] (with_ts sample_open)) = Inr ESTABLISHED"
  by (simp add: case_eval cong: eval_cong)

end
