(* ===== verification/Inet_Cksum.thy ===== *)
theory Inet_Cksum
  imports Prelude
begin

text \<open>
  \<^verbatim>\<open>pmd_net_proto/lib/inet_cksum.py\<close>: the Internet checksum, computed with 64-bit and
  16-bit big-endian loads over a sequence of buffers, a byte carried between buffers and a
  final folding to 16 bits. Buffers are lists of \<open>8 word\<close>; the accumulator is Python's
  unbounded integer.

  The reference is the one's complement sum of RFC 1071 over 16-bit words with end-around
  carry (\<open>rfc1071\<close>).
\<close>

section \<open>The program\<close>

text \<open>Big-endian value of a byte string, and \<open>sum(struct.unpack_from(f"!{n}Q", ...))\<close>.\<close>

definition be_int :: "bytes \<Rightarrow> int" where
  "be_int bs = foldl (\<lambda>acc b. acc * 256 + uint b) 0 bs"

fun unpack_sum :: "nat \<Rightarrow> nat \<Rightarrow> bytes \<Rightarrow> int" where
  "unpack_sum width 0 bs = 0"
| "unpack_sum width (Suc n) bs = be_int (take width bs) + unpack_sum width n (drop width bs)"

text \<open>A load of \<open>count\<close> words of \<open>width\<close> bytes: the new sum and the new offset.\<close>

definition load_pass :: "nat \<Rightarrow> nat \<Rightarrow> bytes \<Rightarrow> int \<times> nat \<Rightarrow> int \<times> nat" where
  "load_pass width count buffer st =
     (fst st + unpack_sum width count (drop (snd st) buffer), snd st + count * width)"

text \<open>The body of the loop after the carried byte, from \<open>offset\<close>: new sum and new carry.\<close>

definition cksum_body :: "bytes \<Rightarrow> int \<Rightarrow> nat \<Rightarrow> int \<times> int" where
  "cksum_body buffer cksum offset =
     (let buffer_len = length buffer;
          remainder = buffer_len - offset;
          st = (if remainder \<ge> 8 then load_pass 8 (remainder div 8) buffer (cksum, offset)
                else (cksum, offset));
          even_len = 2 * ((buffer_len - snd st) div 2);
          st = (if even_len \<noteq> 0 then load_pass 2 (even_len div 2) buffer st else st)
      in (fst st, if buffer_len - snd st = 1 then uint (buffer ! snd st) else 0))"

definition cksum_buffer :: "int \<times> int \<Rightarrow> bytes \<Rightarrow> int \<times> int" where
  "cksum_buffer st buffer =
     (case st of (cksum, carry) \<Rightarrow>
        if carry \<noteq> 0 then
          (case buffer of
             [] \<Rightarrow> (cksum, carry)
           | b # _ \<Rightarrow> cksum_body buffer (cksum + (push_bit 8 carry OR uint b)) 1)
        else cksum_body buffer cksum 0)"

definition fold_sum :: "int \<Rightarrow> int" where
  "fold_sum cksum =
     (let cksum = (cksum AND 0xFFFFFFFFFFFFFFFF) + drop_bit 64 cksum;
          cksum = (cksum AND 0xFFFFFFFF) + drop_bit 32 cksum;
          cksum = (cksum AND 0xFFFF) + drop_bit 16 cksum
      in (cksum AND 0xFFFF) + drop_bit 16 cksum)"

definition inet_cksum :: "bytes list \<Rightarrow> int \<Rightarrow> int" where
  "inet_cksum buffers init =
     (case foldl cksum_buffer (init, 0) buffers of
        (cksum, carry) \<Rightarrow> NOT (fold_sum (cksum + push_bit 8 carry)) AND 0xFFFF)"

section \<open>The reference\<close>

text \<open>One's complement addition of 16-bit quantities and the sum of a byte string's words.\<close>

definition oc_add :: "int \<Rightarrow> int \<Rightarrow> int" where
  "oc_add a b = (if a + b > 0xFFFF then a + b - 0xFFFF else a + b)"

fun words16 :: "bytes \<Rightarrow> int list" where
  "words16 [] = []"
| "words16 [a] = [uint a * 256]"
| "words16 (a # b # bs) = (uint a * 256 + uint b) # words16 bs"

text \<open>The one's complement representative of a non-negative partial sum.\<close>

definition ones_fold :: "int \<Rightarrow> int" where
  "ones_fold n = (if n = 0 then 0 else (n - 1) mod 65535 + 1)"

definition rfc1071 :: "bytes \<Rightarrow> int \<Rightarrow> int" where
  "rfc1071 bs init = 0xFFFF - foldl oc_add (ones_fold init) (words16 bs)"

section \<open>Sums up to end-around carry\<close>

text \<open>Two sums are equivalent if they are congruent modulo 65535 and both zero or both positive.\<close>

definition oc_eq :: "int \<Rightarrow> int \<Rightarrow> bool" where
  "oc_eq a b \<longleftrightarrow> 0 \<le> a \<and> 0 \<le> b \<and> a mod 65535 = b mod 65535 \<and> (a = 0 \<longleftrightarrow> b = 0)"

lemma oc_eq_refl: "0 \<le> a \<Longrightarrow> oc_eq a a"
  by (simp add: oc_eq_def)

lemma oc_eq_trans: "oc_eq a b \<Longrightarrow> oc_eq b c \<Longrightarrow> oc_eq a c"
  by (auto simp: oc_eq_def)

lemma oc_eq_add: "oc_eq a b \<Longrightarrow> oc_eq c d \<Longrightarrow> oc_eq (a + c) (b + d)"
  unfolding oc_eq_def by (auto intro: mod_add_cong)

lemma oc_eq_fold: "oc_eq a b \<Longrightarrow> ones_fold a = ones_fold b"
  unfolding oc_eq_def ones_fold_def by (auto intro: mod_diff_cong)

lemma ones_fold_id: "0 \<le> a \<Longrightarrow> a \<le> 65535 \<Longrightarrow> ones_fold a = a"
  by (simp add: ones_fold_def)

lemma oc_eq_split: "0 \<le> h \<Longrightarrow> 0 \<le> l \<Longrightarrow> oc_eq (65536 ^ k * h + l) (h + l)"
proof -
  assume a: "0 \<le> h" "0 \<le> l"
  have "(65536::int) ^ k mod 65535 = 1 mod 65535"
    using power_mod [of "65536::int" 65535 k] by simp
  then have "(65536 ^ k * h + l) mod 65535 = (1 * h + l) mod 65535"
    by (intro mod_add_cong mod_mult_cong refl)
  then have "(65536 ^ k * h + l) mod 65535 = (h + l) mod 65535" by simp
  moreover have "65536 ^ k * h + l = 0 \<longleftrightarrow> h + l = 0" using a by (auto simp: add_nonneg_eq_0_iff)
  ultimately show ?thesis using a by (simp add: oc_eq_def)
qed

definition sum16 :: "bytes \<Rightarrow> int" where
  "sum16 bs = sum_list (words16 bs)"

lemma sum16_simps [simp]:
  "sum16 [] = 0" "sum16 [a] = uint a * 256" "sum16 (a # b # bs) = uint a * 256 + uint b + sum16 bs"
  by (simp_all add: sum16_def)

lemma sum16_nonneg [simp]: "0 \<le> sum16 bs"
  by (induction bs rule: words16.induct) auto

lemma sum16_append: "even (length xs) \<Longrightarrow> sum16 (xs @ ys) = sum16 xs + sum16 ys"
  by (induction xs rule: words16.induct) auto

lemma be_int_acc: "foldl (\<lambda>acc b. acc * 256 + uint b) acc bs = acc * 256 ^ length bs + be_int bs"
proof (induction bs arbitrary: acc)
  case (Cons b bs)
  have "be_int (b # bs) = uint b * 256 ^ length bs + be_int bs"
    using Cons [of "uint b"] by (simp add: be_int_def)
  then show ?case using Cons [of "acc * 256 + uint b"] by (simp add: algebra_simps)
qed (simp add: be_int_def)

lemma be_int_Nil [simp]: "be_int [] = 0"
  by (simp add: be_int_def)

lemma be_int_Cons2: "be_int (a # b # bs) = (uint a * 256 + uint b) * 256 ^ length bs + be_int bs"
  using be_int_acc [of "uint a * 256 + uint b" bs] by (simp add: be_int_def)

lemma be_int_sum16: "even (length bs) \<Longrightarrow> oc_eq (be_int bs) (sum16 bs)"
proof (induction bs rule: words16.induct)
  case (3 a b bs)
  then have IH: "oc_eq (be_int bs) (sum16 bs)" and ev: "even (length bs)" by auto
  obtain k where k: "length bs = 2 * k" using ev by (elim evenE)
  have pw: "(256::int) ^ length bs = 65536 ^ k" by (simp add: k power_mult)
  have "0 \<le> be_int bs" using IH by (simp add: oc_eq_def)
  then have "oc_eq (65536 ^ k * (uint a * 256 + uint b) + be_int bs) (uint a * 256 + uint b + be_int bs)"
    by (intro oc_eq_split) auto
  moreover have "oc_eq (uint a * 256 + uint b + be_int bs) (uint a * 256 + uint b + sum16 bs)"
    using IH by (intro oc_eq_add oc_eq_refl) auto
  ultimately show ?case using oc_eq_trans by (auto simp: be_int_Cons2 pw mult.commute)
qed (auto simp: oc_eq_refl)

lemma unpack_sum_sum16:
  "even w \<Longrightarrow> w * n \<le> length bs \<Longrightarrow> oc_eq (unpack_sum w n bs) (sum16 (take (w * n) bs))"
proof (induction n arbitrary: bs)
  case (Suc n)
  have "take (w * Suc n) bs = take w bs @ take (w * n) (drop w bs)" by (simp add: take_add)
  moreover have "even (length (take w bs))" using Suc.prems by simp
  ultimately have "sum16 (take (w * Suc n) bs) = sum16 (take w bs) + sum16 (take (w * n) (drop w bs))"
    by (simp add: sum16_append)
  moreover have "oc_eq (be_int (take w bs)) (sum16 (take w bs))" using Suc.prems by (intro be_int_sum16) simp
  ultimately show ?case using Suc by (auto intro!: oc_eq_add)
qed (simp add: oc_eq_refl)

section \<open>One buffer\<close>

text \<open>The whole 16-bit words of a byte string, and its last byte when the length is odd.\<close>

definition even_part :: "bytes \<Rightarrow> bytes" where
  "even_part bs = take (2 * (length bs div 2)) bs"

definition odd_byte :: "bytes \<Rightarrow> int" where
  "odd_byte bs = (if odd (length bs) then uint (last bs) else 0)"

lemma sum16_parts: "sum16 bs = sum16 (even_part bs) + odd_byte bs * 256"
proof (cases "odd (length bs)")
  case True
  then have "bs = even_part bs @ [last bs]"
    by (cases bs rule: rev_cases) (auto simp: even_part_def elim!: evenE)
  moreover have "even (length (even_part bs))" by (simp add: even_part_def)
  ultimately show ?thesis using True sum16_append [of "even_part bs" "[last bs]"] by (simp add: odd_byte_def)
qed (auto simp: even_part_def odd_byte_def)

lemma cksum_body_eq:
  "cksum_body bs c k =
     (let r = length bs - k; q = r div 8; h = (r - q * 8) div 2 in
      (c + unpack_sum 8 q (drop k bs) + unpack_sum 2 h (drop (k + q * 8) bs),
       if odd r then uint (bs ! (k + 2 * (r div 2))) else 0))"
proof -
  define r q where "r = length bs - k" and "q = r div 8"
  define h where "h = (length bs - (k + q * 8)) div 2"
  have h: "h = (r - q * 8) div 2" by (simp add: h_def r_def)
  have p8: "(if r \<ge> 8 then load_pass 8 (r div 8) bs (c, k) else (c, k)) =
      (c + unpack_sum 8 q (drop k bs), k + q * 8)" (is "_ = ?st")
    by (simp add: load_pass_def q_def)
  have p2: "(if 2 * h \<noteq> 0 then load_pass 2 (2 * h div 2) bs ?st else ?st) =
      (fst ?st + unpack_sum 2 h (drop (k + q * 8) bs), k + q * 8 + 2 * h)"
    by (simp add: load_pass_def)
  have off: "k + q * 8 + 2 * h = k + 2 * (r div 2)" unfolding h q_def by presburger
  have odd: "length bs - (k + 2 * (r div 2)) = 1 \<longleftrightarrow> odd r" unfolding r_def by presburger
  show ?thesis
    unfolding cksum_body_def Let_def r_def [symmetric] p8 snd_conv h_def [symmetric] p2 off odd fst_conv
    by (simp only: q_def h)
qed

lemma cksum_body_shift: "cksum_body (b # bs) c (Suc k) = cksum_body bs c k"
  unfolding cksum_body_eq Let_def by simp

lemma cksum_body_0:
  assumes "0 \<le> c"
  shows "\<exists>t. cksum_body bs c 0 = (c + t, odd_byte bs) \<and> oc_eq t (sum16 (even_part bs))"
proof -
  let ?n = "length bs" and ?q = "length bs div 8"
  let ?t = "unpack_sum 8 ?q bs + unpack_sum 2 ((?n - ?q * 8) div 2) (drop (?q * 8) bs)"
  have off: "?q * 8 + 2 * ((?n - ?q * 8) div 2) = 2 * (?n div 2)" by presburger
  have q: "8 * ?q \<le> ?n" by presburger
  have "even_part bs = take (8 * ?q) bs @ take (2 * ((?n - ?q * 8) div 2)) (drop (8 * ?q) bs)"
    unfolding even_part_def off [symmetric] by (simp add: take_add mult.commute)
  moreover have "even (length (take (8 * ?q) bs))" using q by simp
  ultimately have "sum16 (even_part bs) =
      sum16 (take (8 * ?q) bs) + sum16 (take (2 * ((?n - ?q * 8) div 2)) (drop (8 * ?q) bs))"
    by (simp only: sum16_append)
  then have "oc_eq ?t (sum16 (even_part bs))"
    using unpack_sum_sum16 [of 8 ?q bs] unpack_sum_sum16 [of 2 "(?n - ?q * 8) div 2" "drop (?q * 8) bs"] q
    by (auto simp: mult.commute intro!: oc_eq_add)
  moreover have "cksum_body bs c 0 = (c + ?t, odd_byte bs)"
  proof -
    have "bs ! (2 * (?n div 2)) = last bs" if "odd ?n"
      using that by (cases bs rule: rev_cases) (auto simp: nth_append)
    then show ?thesis by (simp add: cksum_body_eq Let_def odd_byte_def)
  qed
  ultimately show ?thesis by blast
qed

section \<open>All buffers\<close>

text \<open>
  No buffer but the last ends, at an odd position of the whole byte string, in a zero byte.
  \<open>pre\<close> is the byte string consumed so far.
\<close>

fun no_zero_carry :: "bytes \<Rightarrow> bytes list \<Rightarrow> bool" where
  "no_zero_carry pre [] \<longleftrightarrow> True"
| "no_zero_carry pre (b # bufs) \<longleftrightarrow>
     (bufs \<noteq> [] \<and> odd (length (pre @ b)) \<longrightarrow> last (pre @ b) \<noteq> 0) \<and> no_zero_carry (pre @ b) bufs"

lemma byte_bounds: "0 \<le> uint (b :: 8 word)" "uint (b :: 8 word) < 256"
  using uint_ge_0 [of b] uint_lt2p [of b] by simp_all

lemma shift8_or: "0 \<le> k \<Longrightarrow> push_bit 8 k OR uint (b :: 8 word) = k * 256 + uint b"
proof -
  have "push_bit 8 k AND uint b = 0"
  proof (rule bit_eqI)
    fix n
    show "bit (push_bit 8 k AND uint b) n = bit (0::int) n"
      by (cases "n < 8") (auto simp: bit_simps bit_uint_iff dest: bit_imp_le_length)
  qed
  then show ?thesis using disjunctive_add_eq_or [of "push_bit 8 k" "uint b"] by (simp add: push_bit_eq_mult)
qed

lemma even_part_odd: "odd (length pre) \<Longrightarrow> pre = even_part pre @ [last pre]"
  by (cases pre rule: rev_cases) (auto simp: even_part_def elim!: evenE)

lemma odd_byte_bounds: "0 \<le> odd_byte bs" "odd_byte bs < 256"
  using byte_bounds by (auto simp: odd_byte_def)

lemma odd_byte_append_even: "even (length pre) \<Longrightarrow> odd_byte (pre @ bs) = odd_byte bs"
  by (cases bs) (auto simp: odd_byte_def)

lemma even_part_append: "even (length pre) \<Longrightarrow> even_part (pre @ bs) = pre @ even_part bs"
  by (auto simp: even_part_def elim!: evenE)

text \<open>One iteration, on the byte string consumed so far.\<close>

lemma cksum_buffer_step:
  assumes inv: "oc_eq c (init + sum16 (even_part pre))" and k: "k = odd_byte pre"
    and nz: "odd (length pre) \<Longrightarrow> last pre \<noteq> 0"
  shows "\<exists>c'. cksum_buffer (c, k) b = (c', odd_byte (pre @ b)) \<and>
     oc_eq c' (init + sum16 (even_part (pre @ b)))"
proof (cases "odd (length pre)")
  case False
  then have ev: "even_part pre = pre" "k = 0" by (auto simp: even_part_def k odd_byte_def)
  obtain t where t: "cksum_body b c 0 = (c + t, odd_byte b)" "oc_eq t (sum16 (even_part b))"
    using cksum_body_0 [of c b] inv by (auto simp: oc_eq_def)
  have "oc_eq (c + t) (init + sum16 pre + sum16 (even_part b))"
    using inv t(2) unfolding ev by (rule oc_eq_add)
  then show ?thesis
    using False t(1) ev by (simp add: cksum_buffer_def even_part_append odd_byte_append_even sum16_append add.assoc)
next
  case True
  have pre: "pre = even_part pre @ [last pre]" by (rule even_part_odd [OF True])
  have kn: "k = uint (last pre)" "k \<noteq> 0"
    using True nz by (auto simp: k odd_byte_def word_uint_eq_iff)
  show ?thesis
  proof (cases b)
    case Nil
    then show ?thesis using inv kn(2) k by (simp add: cksum_buffer_def)
  next
    case (Cons x r)
    let ?p = "even_part pre @ [last pre, x]"
    have ev: "even (length ?p)" by (simp add: even_part_def)
    have app: "pre @ b = ?p @ r" by (subst pre) (simp add: Cons)
    have s: "sum16 ?p = sum16 (even_part pre) + (k * 256 + uint x)"
      by (simp add: sum16_append even_part_def kn(1))
    let ?c = "c + (k * 256 + uint x)"
    have c: "oc_eq ?c (init + sum16 ?p)"
      using inv unfolding s add.assoc [symmetric, of init]
      by (intro oc_eq_add oc_eq_refl) (auto simp: kn(1))
    obtain t where t: "cksum_body r ?c 0 = (?c + t, odd_byte r)" "oc_eq t (sum16 (even_part r))"
      using cksum_body_0 [of ?c r] c by (auto simp: oc_eq_def)
    have "oc_eq (?c + t) (init + sum16 ?p + sum16 (even_part r))" using c t(2) by (rule oc_eq_add)
    then have "oc_eq (?c + t) (init + sum16 (even_part (pre @ b)))"
      unfolding app even_part_append [OF ev] sum16_append [OF ev] by (simp add: add.assoc)
    moreover have "cksum_buffer (c, k) b = (?c + t, odd_byte (pre @ b))"
      unfolding app odd_byte_append_even [OF ev]
      using kn t(1) cksum_body_shift [of x r ?c 0]
      by (simp add: cksum_buffer_def Cons shift8_or)
    ultimately show ?thesis by blast
  qed
qed

lemma cksum_fold:
  assumes "oc_eq c (init + sum16 (even_part pre))" "k = odd_byte pre" "no_zero_carry pre bufs"
    "bufs \<noteq> [] \<Longrightarrow> odd (length pre) \<Longrightarrow> last pre \<noteq> 0"
  shows "\<exists>c'. foldl cksum_buffer (c, k) bufs = (c', odd_byte (pre @ concat bufs)) \<and>
     oc_eq c' (init + sum16 (even_part (pre @ concat bufs)))"
  using assms
proof (induction bufs arbitrary: c k pre)
  case (Cons b bufs)
  obtain c' where c': "cksum_buffer (c, k) b = (c', odd_byte (pre @ b))"
    "oc_eq c' (init + sum16 (even_part (pre @ b)))"
    using cksum_buffer_step [OF Cons.prems(1,2), of b] Cons.prems(4) by blast
  show ?case
    using Cons.IH [OF c'(2) refl] Cons.prems(3) c'(1) by auto
qed auto

section \<open>Bounds of the accumulator\<close>

lemma be_int_bounds: "0 \<le> be_int bs" "be_int bs < 256 ^ length bs"
proof -
  have "0 \<le> be_int bs \<and> be_int bs < 256 ^ length bs"
  proof (induction bs rule: rev_induct)
    case (snoc b bs)
    have "be_int (bs @ [b]) = be_int bs * 256 + uint b" by (simp add: be_int_def)
    then show ?case using snoc byte_bounds [of b] by auto
  qed simp
  then show "0 \<le> be_int bs" "be_int bs < 256 ^ length bs" by auto
qed

lemma unpack_sum_le: "w \<le> 8 \<Longrightarrow> unpack_sum w n bs \<le> int n * 2 ^ 64"
proof (induction n arbitrary: bs)
  case (Suc n)
  have "be_int (take w bs) < 256 ^ length (take w bs)" by (rule be_int_bounds)
  also have "(256::int) ^ length (take w bs) \<le> 256 ^ 8" using Suc.prems by (intro power_increasing) auto
  finally have "be_int (take w bs) \<le> 2 ^ 64" by simp
  moreover have "unpack_sum w n (drop w bs) \<le> int n * 2 ^ 64" using Suc by blast
  ultimately show ?case by (simp add: algebra_simps)
qed simp

lemma cksum_body_le:
  "fst (cksum_body bs c k) \<le> c + int (length bs - k) * 2 ^ 64"
  "0 \<le> snd (cksum_body bs c k)" "snd (cksum_body bs c k) < 256"
proof -
  define r q where "r = length bs - k" and "q = r div 8"
  define h where "h = (r - q * 8) div 2"
  have "q * 8 \<le> r" "h \<le> r - q * 8" unfolding q_def h_def by simp_all
  then have "q + h \<le> r" by linarith
  then have "int q + int h \<le> int r" by linarith
  then have "int q * 2 ^ 64 + int h * 2 ^ 64 \<le> int r * 2 ^ 64" by simp
  moreover have "fst (cksum_body bs c k) =
      c + unpack_sum 8 q (drop k bs) + unpack_sum 2 h (drop (k + q * 8) bs)"
    unfolding cksum_body_eq Let_def fst_conv q_def h_def r_def ..
  ultimately show "fst (cksum_body bs c k) \<le> c + int (length bs - k) * 2 ^ 64"
    using unpack_sum_le [of 8 q "drop k bs"] unpack_sum_le [of 2 h "drop (k + q * 8) bs"]
    by (simp add: r_def)
  show "0 \<le> snd (cksum_body bs c k)" "snd (cksum_body bs c k) < 256"
    using byte_bounds by (auto simp: cksum_body_eq Let_def)
qed

lemma cksum_buffer_le:
  assumes "0 \<le> k" "k < 256"
  shows "fst (cksum_buffer (c, k) b) \<le> c + int (length b) * 2 ^ 64"
    and "0 \<le> snd (cksum_buffer (c, k) b)" and "snd (cksum_buffer (c, k) b) < 256"
proof -
  have "fst (cksum_buffer (c, k) (x # r)) \<le> c + int (length (x # r)) * 2 ^ 64" if "k \<noteq> 0" for x r
    using cksum_body_le(1) [of "x # r" "c + (k * 256 + uint x)" 1] assms that byte_bounds [of x]
    by (simp add: cksum_buffer_def shift8_or)
  then show "fst (cksum_buffer (c, k) b) \<le> c + int (length b) * 2 ^ 64"
    using cksum_body_le(1) [of b c 0] by (cases b; cases "k = 0") (simp_all add: cksum_buffer_def)
  show "0 \<le> snd (cksum_buffer (c, k) b)" "snd (cksum_buffer (c, k) b) < 256"
    using assms cksum_body_le(2,3) by (auto simp: cksum_buffer_def split: list.splits)
qed

lemma cksum_fold_le:
  "0 \<le> k \<Longrightarrow> k < 256 \<Longrightarrow>
   fst (foldl cksum_buffer (c, k) bufs) \<le> c + int (length (concat bufs)) * 2 ^ 64"
proof (induction bufs arbitrary: c k)
  case (Cons b bufs)
  obtain c' k' where ck: "cksum_buffer (c, k) b = (c', k')" by fastforce
  then have "fst (foldl cksum_buffer (c', k') bufs) \<le> c' + int (length (concat bufs)) * 2 ^ 64"
    and "c' \<le> c + int (length b) * 2 ^ 64"
    using Cons.IH [of k' c'] cksum_buffer_le [OF Cons.prems, of c b] by auto
  then show ?case by (simp add: ck algebra_simps)
qed simp

section \<open>Folding\<close>

definition fold_at :: "nat \<Rightarrow> int \<Rightarrow> int" where
  "fold_at w n = n mod 2 ^ w + n div 2 ^ w"

lemma fold_sum_eq: "fold_sum n = fold_at 16 (fold_at 16 (fold_at 32 (fold_at 64 n)))"
proof -
  have at: "(x AND 0xFFFFFFFFFFFFFFFF) + drop_bit 64 x = fold_at 64 x"
    "(x AND 0xFFFFFFFF) + drop_bit 32 x = fold_at 32 x"
    "(x AND 0xFFFF) + drop_bit 16 x = fold_at 16 x" for x
    by (simp_all only: fold_at_def drop_bit_eq_div and_mask16 and_mask32 and_mask64) simp_all
  show ?thesis unfolding fold_sum_def Let_def at ..
qed

lemma split_at:
  fixes n m :: int
  assumes "0 < m"
  obtains q r where "n div m = q" "n mod m = r" "n = m * q + r" "0 \<le> r" "r < m"
  using assms by (metis mult_div_mod_eq pos_mod_bound pos_mod_sign)

lemma fold_at_oc_eq: "0 \<le> n \<Longrightarrow> oc_eq (fold_at (16 * k) n) n"
proof -
  assume n: "0 \<le> n"
  let ?m = "65536 ^ k :: int"
  have w: "(2::int) ^ (16 * k) = ?m" by (simp add: power_mult)
  have "oc_eq (?m * (n div ?m) + n mod ?m) (n div ?m + n mod ?m)"
    using n by (intro oc_eq_split) (auto simp: pos_imp_zdiv_nonneg_iff)
  then show ?thesis by (auto simp: fold_at_def w oc_eq_def add.commute)
qed

lemma fold_sum_correct:
  assumes "0 \<le> n" "n < 2 ^ 97"
  shows "oc_eq (fold_sum n) n" and "fold_sum n \<le> 65536"
proof -
  define a b c where "a = fold_at 64 n" and "b = fold_at 32 a" and "c = fold_at 16 b"
  have oc: "oc_eq a n" "oc_eq b a" "oc_eq c b" "oc_eq (fold_at 16 c) c"
    using fold_at_oc_eq [of n 4] fold_at_oc_eq [of a 2] fold_at_oc_eq [of b 1] fold_at_oc_eq [of c 1] assms
    by (auto simp: a_def b_def c_def oc_eq_def)
  then show "oc_eq (fold_sum n) n"
    unfolding fold_sum_eq a_def [symmetric] b_def [symmetric] c_def [symmetric] by (metis oc_eq_trans)
  have a: "a < 18446744073709551616 + 8589934592"
    by (rule split_at [of 18446744073709551616 n]) (use assms in \<open>auto simp: a_def fold_at_def\<close>)
  have b: "b \<le> 8589934592"
    by (rule split_at [of 4294967296 a]) (use a in \<open>auto simp: b_def fold_at_def\<close>)
  have c: "c \<le> 0x2FFFE"
    by (rule split_at [of 65536 b]) (use b in \<open>auto simp: c_def fold_at_def\<close>)
  have "fold_at 16 c \<le> 65536"
    by (rule split_at [of 65536 c]) (use c in \<open>auto simp: fold_at_def\<close>)
  then show "fold_sum n \<le> 65536"
    unfolding fold_sum_eq a_def [symmetric] b_def [symmetric] c_def [symmetric] .
qed

section \<open>The reference in closed form\<close>

lemma words16_bounds: "w \<in> set (words16 bs) \<Longrightarrow> 0 \<le> w \<and> w \<le> 65535"
proof (induction bs rule: words16.induct)
  case (2 a)
  then show ?case using byte_bounds [of a] by auto
next
  case (3 a b bs)
  then show ?case using byte_bounds [of a] byte_bounds [of b] by auto
qed simp

lemma oc_add_fold:
  assumes "0 \<le> a" "a \<le> 65535" "0 \<le> w" "w \<le> 65535"
  shows "oc_eq (oc_add a w) (a + w)" "0 \<le> oc_add a w" "oc_add a w \<le> 65535"
proof -
  have "(a + w - 65535) mod 65535 = (a + w) mod 65535" by (rule minus_mod_self2)
  then show "oc_eq (oc_add a w) (a + w)" "0 \<le> oc_add a w" "oc_add a w \<le> 65535"
    using assms by (auto simp: oc_add_def oc_eq_def)
qed

lemma foldl_oc_add:
  "0 \<le> a \<Longrightarrow> a \<le> 65535 \<Longrightarrow> \<forall>w \<in> set ws. 0 \<le> w \<and> w \<le> 65535 \<Longrightarrow>
   oc_eq (foldl oc_add a ws) (a + sum_list ws) \<and> foldl oc_add a ws \<le> 65535"
proof (induction ws arbitrary: a)
  case (Cons w ws)
  have w: "0 \<le> w" "w \<le> 65535" using Cons.prems by auto
  note st = oc_add_fold [OF Cons.prems(1,2) w]
  have "0 \<le> sum_list ws" using Cons.prems(3) by (intro sum_list_nonneg) auto
  then have "oc_eq (oc_add a w + sum_list ws) (a + w + sum_list ws)"
    using st(1) by (intro oc_eq_add oc_eq_refl)
  then show ?case using Cons.IH [OF st(2,3)] Cons.prems(3) by (auto simp: add.assoc intro: oc_eq_trans)
qed (simp add: oc_eq_refl)

lemma ones_fold_oc_eq: "0 \<le> n \<Longrightarrow> oc_eq (ones_fold n) n \<and> ones_fold n \<le> 65535"
proof -
  assume n: "0 \<le> n"
  have "((n - 1) mod 65535 + 1) mod 65535 = (n - 1 + 1) mod 65535" by (rule mod_add_left_eq)
  moreover have "0 \<le> (n - 1) mod 65535" "(n - 1) mod 65535 < 65535" by simp_all
  ultimately show ?thesis using n by (auto simp: ones_fold_def oc_eq_def)
qed

lemma rfc1071_eq: "0 \<le> init \<Longrightarrow> rfc1071 bs init = 65535 - ones_fold (init + sum16 bs)"
proof -
  assume init: "0 \<le> init"
  let ?s = "foldl oc_add (ones_fold init) (words16 bs)"
  have o: "oc_eq (ones_fold init) init" "ones_fold init \<le> 65535" "0 \<le> ones_fold init"
    using ones_fold_oc_eq [OF init] by (auto simp: oc_eq_def)
  have s: "oc_eq ?s (ones_fold init + sum16 bs)" "?s \<le> 65535"
    using foldl_oc_add [OF o(3,2), of "words16 bs"] words16_bounds by (auto simp: sum16_def)
  have "oc_eq (ones_fold init + sum16 bs) (init + sum16 bs)" using o(1) by (intro oc_eq_add oc_eq_refl) auto
  then have "ones_fold ?s = ones_fold (init + sum16 bs)" using s(1) oc_eq_trans oc_eq_fold by blast
  moreover have "ones_fold ?s = ?s" using s by (intro ones_fold_id) (auto simp: oc_eq_def)
  ultimately show ?thesis by (simp add: rfc1071_def)
qed

lemma inet_cksum_total:
  assumes "no_zero_carry [] buffers" "0 \<le> init" "init < 2 ^ 96" "length (concat buffers) < 2 ^ 32"
  obtains n where "inet_cksum buffers init = NOT (fold_sum n) AND 0xFFFF"
    "oc_eq n (init + sum16 (concat buffers))" "n < 2 ^ 97"
proof -
  obtain c where c: "foldl cksum_buffer (init, 0) buffers = (c, odd_byte (concat buffers))"
      "oc_eq c (init + sum16 (even_part (concat buffers)))"
    using cksum_fold [of init init "[]" 0 buffers] assms by (auto simp: even_part_def odd_byte_def oc_eq_refl)
  let ?n = "c + odd_byte (concat buffers) * 256"
  have "oc_eq ?n (init + sum16 (concat buffers))"
    using c(2) odd_byte_bounds(1) unfolding sum16_parts [of "concat buffers"] add.assoc [symmetric]
    by (intro oc_eq_add oc_eq_refl) auto
  moreover have "inet_cksum buffers init = NOT (fold_sum ?n) AND 0xFFFF"
    by (simp add: inet_cksum_def c(1) push_bit_eq_mult)
  moreover have "?n < 2 ^ 97"
  proof -
    have "int (length (concat buffers)) < 4294967296" using assms(4) by simp
    moreover have "c \<le> init + int (length (concat buffers)) * 2 ^ 64"
      using cksum_fold_le [of 0 init buffers] c(1) by simp
    ultimately show ?thesis using assms(3) odd_byte_bounds(2) [of "concat buffers"] by simp
  qed
  ultimately show ?thesis using that by blast
qed

lemma not_mask16: "0 \<le> x \<Longrightarrow> x \<le> 65535 \<Longrightarrow> NOT x AND 0xFFFF = 65535 - x" for x :: int
  using not_and_mask [of x 16] by simp

text \<open>The value of the checksum and the parsers' test, in terms of the folded sum.\<close>

lemma inet_cksum_fold:
  assumes "no_zero_carry [] buffers" "0 \<le> init" "init < 2 ^ 96" "length (concat buffers) < 2 ^ 32"
  shows "inet_cksum buffers init = 65535 - ones_fold (init + sum16 (concat buffers)) \<or>
         (ones_fold (init + sum16 (concat buffers)) = 1 \<and> inet_cksum buffers init = 65535)"
proof -
  obtain n where n: "inet_cksum buffers init = NOT (fold_sum n) AND 0xFFFF"
      "oc_eq n (init + sum16 (concat buffers))" "n < 2 ^ 97"
    by (rule inet_cksum_total [OF assms])
  have f: "oc_eq (fold_sum n) n" "fold_sum n \<le> 65536"
    using fold_sum_correct [of n] n(2,3) by (auto simp: oc_eq_def)
  have r: "ones_fold (init + sum16 (concat buffers)) = ones_fold (fold_sum n)"
    using f(1) n(2) oc_eq_trans oc_eq_fold by metis
  show ?thesis
  proof (cases "fold_sum n = 65536")
    case True
    then show ?thesis using n(1) r by (simp add: ones_fold_def)
  next
    case False
    then have "0 \<le> fold_sum n" "fold_sum n \<le> 65535" using f by (auto simp: oc_eq_def)
    then show ?thesis using n(1) r not_mask16 ones_fold_id by simp
  qed
qed

lemma inet_cksum_zero:
  assumes "0 \<le> init" "init < 2 ^ 96" "length frame < 2 ^ 32"
  shows "inet_cksum [frame] init = 0 \<longleftrightarrow> ones_fold (init + sum16 frame) = 65535"
  using inet_cksum_fold [of "[frame]" init] assms by auto

section \<open>Properties\<close>

text \<open>
  C34. The checksum of any buffers of less than 4 GiB, of which none but the last leaves a
  pending zero byte, is the RFC 1071 checksum of their concatenation, with one exception: where
  the reference is \<open>0xFFFE\<close> (the folded sum is 1) the code may return \<open>0xFFFF\<close>, because
  the last of its two 16-bit foldings can itself carry.
\<close>

theorem inet_cksum_rfc1071:
  assumes "no_zero_carry [] buffers" "0 \<le> init" "init < 2 ^ 96" "length (concat buffers) < 2 ^ 32"
  shows "inet_cksum buffers init = rfc1071 (concat buffers) init \<or>
         (rfc1071 (concat buffers) init = 0xFFFE \<and> inet_cksum buffers init = 0xFFFF)"
  using inet_cksum_fold [OF assms] assms(2) by (auto simp: rfc1071_eq)

theorem inet_cksum_rfc1071_witness:
  "inet_cksum [[0x45, 0], [0, 0x54, 0x12]] 7 = rfc1071 [0x45, 0, 0, 0x54, 0x12] 7 \<or>
   (rfc1071 [0x45, 0, 0, 0x54, 0x12] 7 = 0xFFFE \<and> inet_cksum [[0x45, 0], [0, 0x54, 0x12]] 7 = 0xFFFF)"
  using inet_cksum_rfc1071 [of "[[0x45, 0], [0, 0x54, 0x12]]" 7] by simp

text \<open>
  Verification is exact: the parsers' test that the checksum over the received bytes is
  zero holds exactly when the one's complement sum of the bytes, the checksum field included, is
  all ones.
\<close>

lemma inet_cksum_verify:
  assumes "0 \<le> init" "init < 2 ^ 96" "length frame < 2 ^ 32"
  shows "inet_cksum [frame] init = 0 \<longleftrightarrow> foldl oc_add (ones_fold init) (words16 frame) = 0xFFFF"
  using inet_cksum_zero [OF assms] rfc1071_eq [OF assms(1), of frame] by (simp add: rfc1071_def)

lemma inet_cksum_verify_witness:
  "inet_cksum [[0x45, 0, 0xBA, 0xFF]] 0 = 0"
  using inet_cksum_verify [of 0 "[0x45, 0, 0xBA, 0xFF]"] by (simp add: oc_add_def ones_fold_def)

text \<open>
  Two inputs on which the code departs from RFC 1071: a sum whose last folding carries, and
  an odd buffer that ends in a zero byte and is followed by another buffer.
\<close>

lemma inet_cksum_missing_fold:
  "inet_cksum [[0xFF, 0xFF, 0x00, 0x01, 0xFF, 0xFF, 0xFF, 0xFF]] 0 = 0xFFFF \<and>
   rfc1071 [0xFF, 0xFF, 0x00, 0x01, 0xFF, 0xFF, 0xFF, 0xFF] 0 = 0xFFFE"
  by code_simp

lemma inet_cksum_zero_carry:
  "inet_cksum [[0x00], [0x01]] 0 = 0xFEFF \<and> inet_cksum [[0x00, 0x01]] 0 = 0xFFFE"
  by code_simp

end
