(* ===== verification/Wire.thy ===== *)
theory Wire
  imports Inet_Cksum
begin

text \<open>
  The byte-level operations the codecs of \<^verbatim>\<open>pmd_net_proto/protocols\<close> share: \<open>int.to_bytes\<close> and
  \<open>int.from_bytes\<close>, \<open>struct.pack\<close> and \<open>struct.unpack\<close> with network byte order, indexing and
  slicing of a received buffer, and \<^verbatim>\<open>lib/proto_option.py\<close>. A value out of the range of its
  field raises \<open>struct.error\<close> (\<open>OverflowError\<close> for \<open>to_bytes\<close>), an index past the end
  raises \<open>IndexError\<close>, a slice past the end is shorter.

  The interface \<open>wire_item\<close> is the contract of an encodable item; \<open>option_reader\<close> adds the
  loop that reads a list of them from a buffer, and proves once that the loop reads back what the
  concatenated encodings hold.
\<close>

section \<open>Integers and bytes\<close>

text \<open>\<open>x.to_bytes(n, "big")\<close>; \<open>be_int\<close> is \<open>int.from_bytes\<close>.\<close>

fun to_bytes :: "nat \<Rightarrow> int \<Rightarrow> bytes" where
  "to_bytes 0 x = []"
| "to_bytes (Suc n) x = to_bytes n (x div 256) @ [word_of_int x]"

definition int_to_bytes :: "nat \<Rightarrow> int \<Rightarrow> bytes res" where
  "int_to_bytes n x = (if 0 \<le> x \<and> x < 256 ^ n then Inr (to_bytes n x) else Inl OverflowError)"

lemma length_to_bytes [simp]: "length (to_bytes n x) = n"
  by (induction n arbitrary: x) auto

lemma be_int_snoc [simp]: "be_int (bs @ [b]) = be_int bs * 256 + uint b"
  by (simp add: be_int_def)

lemma be_int_to_bytes: "0 \<le> x \<Longrightarrow> x < 256 ^ n \<Longrightarrow> be_int (to_bytes n x) = x"
proof (induction n arbitrary: x)
  case (Suc n)
  then have "be_int (to_bytes n (x div 256)) = x div 256"
    by (intro Suc.IH) auto
  then show ?case by (simp add: uint_word_of_int)
qed simp

lemma to_bytes_be_int: "to_bytes (length bs) (be_int bs) = bs"
proof (induction bs rule: rev_induct)
  case (snoc b bs)
  have "(be_int bs * 256 + uint b) div 256 = be_int bs"
    using uint_lt2p [of b] by (simp add: div_add1_eq)
  moreover have "word_of_int (be_int bs * 256 + uint b) = b"
  proof -
    have "word_of_int (be_int bs * 256) = (0 :: 8 word)" by (simp only: of_int_eq_0_iff word_of_int_eq_0_iff) simp
    then show ?thesis by (simp only: of_int_add) simp
  qed
  ultimately show ?case using snoc by simp
qed simp

section \<open>Packed structures\<close>

text \<open>
  The format letters the codecs use, all unsigned and big-endian. The six bytes of a link-layer
  address under \<open>6s\<close> are read and written as the integer they encode.
\<close>

datatype wire_fmt = Fmt_B | Fmt_H | Fmt_L | Fmt_6s

primrec fmt_size :: "wire_fmt \<Rightarrow> nat" where
  "fmt_size Fmt_B = 1"
| "fmt_size Fmt_H = 2"
| "fmt_size Fmt_L = 4"
| "fmt_size Fmt_6s = 6"

definition calcsize :: "wire_fmt list \<Rightarrow> nat" where
  "calcsize fs = sum_list (map fmt_size fs)"

fun struct_pack :: "(wire_fmt \<times> int) list \<Rightarrow> bytes res" where
  "struct_pack [] = Inr []"
| "struct_pack ((f, x) # fs) =
     (if 0 \<le> x \<and> x < 256 ^ fmt_size f
      then bind_res (struct_pack fs) (\<lambda>bs. Inr (to_bytes (fmt_size f) x @ bs))
      else Inl StructError)"

fun unpack_fields :: "wire_fmt list \<Rightarrow> bytes \<Rightarrow> int list" where
  "unpack_fields [] bs = []"
| "unpack_fields (f # fs) bs = be_int (take (fmt_size f) bs) # unpack_fields fs (drop (fmt_size f) bs)"

definition struct_unpack :: "wire_fmt list \<Rightarrow> bytes \<Rightarrow> int list res" where
  "struct_unpack fs bs = (if length bs = calcsize fs then Inr (unpack_fields fs bs) else Inl StructError)"

definition struct_unpack_from :: "wire_fmt list \<Rightarrow> bytes \<Rightarrow> int list res" where
  "struct_unpack_from fs bs =
     (if calcsize fs \<le> length bs then Inr (unpack_fields fs bs) else Inl StructError)"

definition field_ok :: "wire_fmt \<times> int \<Rightarrow> bool" where
  "field_ok fx \<longleftrightarrow> 0 \<le> snd fx \<and> snd fx < 256 ^ fmt_size (fst fx)"

lemma struct_pack_total:
  "list_all field_ok fs \<Longrightarrow> struct_pack fs = Inr (concat (map (\<lambda>(f, x). to_bytes (fmt_size f) x) fs))"
  by (induction fs) (auto simp: field_ok_def)

lemma struct_pack_length: "struct_pack fs = Inr bs \<Longrightarrow> length bs = calcsize (map fst fs)"
  by (induction fs arbitrary: bs) (auto simp: calcsize_def split: if_splits)

lemma unpack_fields_pack:
  "struct_pack fs = Inr bs \<Longrightarrow> unpack_fields (map fst fs) (bs @ rest) = map snd fs"
  by (induction fs arbitrary: bs) (auto simp: be_int_to_bytes split: if_splits)

lemma unpack_fields_range:
  "calcsize fs \<le> length bs \<Longrightarrow> list_all field_ok (zip fs (unpack_fields fs bs))"
proof (induction fs arbitrary: bs)
  case (Cons f fs)
  have "be_int (take (fmt_size f) bs) < 256 ^ fmt_size f"
    using be_int_bounds(2) [of "take (fmt_size f) bs"] Cons.prems by (simp add: calcsize_def min_absorb2)
  then show ?case using Cons be_int_bounds(1) by (simp add: field_ok_def calcsize_def)
qed simp

text \<open>Packing what was unpacked gives the buffer back.\<close>

lemma struct_pack_unpack:
  "calcsize fs \<le> length bs \<Longrightarrow> struct_pack (zip fs (unpack_fields fs bs)) = Inr (take (calcsize fs) bs)"
proof (induction fs arbitrary: bs)
  case (Cons f fs)
  have f: "field_ok (f, be_int (take (fmt_size f) bs))"
    using unpack_fields_range [OF Cons.prems] by simp
  have "to_bytes (fmt_size f) (be_int (take (fmt_size f) bs)) = take (fmt_size f) bs"
    using to_bytes_be_int [of "take (fmt_size f) bs"] Cons.prems by (simp add: calcsize_def min_absorb2)
  then show ?case using Cons f by (simp add: calcsize_def field_ok_def take_add)
qed (simp add: calcsize_def)

lemma length_unpack_fields [simp]: "length (unpack_fields fs bs) = length fs"
  by (induction fs arbitrary: bs) auto

section \<open>Reading a buffer\<close>

definition byte_at :: "bytes \<Rightarrow> nat \<Rightarrow> int res" where
  "byte_at bs i = (if i < length bs then Inr (uint (bs ! i)) else Inl IndexError)"

definition bslice :: "nat \<Rightarrow> nat \<Rightarrow> bytes \<Rightarrow> bytes" where
  "bslice i j bs = take (j - i) (drop i bs)"

lemma byte_at_Inr: "byte_at bs i = Inr v \<longleftrightarrow> i < length bs \<and> v = uint (bs ! i)"
  by (auto simp: byte_at_def)

lemma byte_at_Inl: "byte_at bs i = Inl e \<longleftrightarrow> \<not> i < length bs \<and> e = IndexError"
  by (auto simp: byte_at_def)

lemma length_bslice: "length (bslice i j bs) = min (j - i) (length bs - i)"
  by (auto simp: bslice_def)

lemma uint8_range [simp]: "0 \<le> uint (b :: 8 word)" "uint (b :: 8 word) \<le> 255"
  using uint_lt2p [of b] by auto

named_theorems wire_simps "reading back packed bytes"

lemma bslice_Cons [wire_simps]: "bslice (Suc i) (Suc j) (b # bs) = bslice i j bs"
  by (simp add: bslice_def)

lemma bslice_prefix [wire_simps]: "length xs = j \<Longrightarrow> bslice 0 j (xs @ ys) = xs"
  by (simp add: bslice_def)

lemma bslice_skip [wire_simps]: "length xs \<le> i \<Longrightarrow> bslice i j (xs @ ys) = bslice (i - length xs) (j - length xs) ys"
  by (simp add: bslice_def)

lemma bslice_drop: "bslice (i + a) (i + b) bs = bslice a b (drop i bs)"
  by (simp add: bslice_def add.commute)

lemma byte_at_Cons [simp]:
  "byte_at (b # bs) 0 = Inr (uint b)"
  "byte_at (b # bs) (Suc i) = byte_at bs i"
  "byte_at (b # bs) (numeral k) = byte_at bs (pred_numeral k)"
  by (auto simp: byte_at_def numeral_eq_Suc)

lemma be_int_single [simp]: "be_int [b] = uint b"
  by (simp add: be_int_def)


lemma drop_chunks:
  assumes "\<forall>x \<in> set xs. length (f x) = k" "i < length xs"
  shows "drop (k * i) (concat (map f xs) @ rest) = f (xs ! i) @ concat (map f (drop (Suc i) xs)) @ rest"
  using assms
proof (induction i arbitrary: xs)
  case 0
  then show ?case by (cases xs) auto
next
  case (Suc i)
  then obtain y ys where xs: "xs = y # ys" by (cases xs) auto
  then have "drop (k * Suc i) (concat (map f xs) @ rest) = drop (k * i) (concat (map f ys) @ rest)"
    using Suc.prems(1) by simp
  then show ?case using Suc xs by simp
qed

lemma uint_byte: "is_uint8 x \<Longrightarrow> uint (word_of_int x :: 8 word) = x"
  by (simp only: uint_word_of_int is_uint8_def) simp

lemma map_res_map: "map_res f (map g xs) = map_res (\<lambda>x. f (g x)) xs"
  by (induction xs) auto

lemma be_int_field: "length bs \<le> n \<Longrightarrow> be_int bs < 256 ^ n"
  using be_int_bounds(2) [of bs] power_increasing [of "length bs" n "256 :: int"] by linarith

lemma be_int_uint16 [simp]: "length bs \<le> 2 \<Longrightarrow> is_uint16 (be_int bs)"
  using be_int_field [of bs 2] be_int_bounds(1) by (simp add: is_uint16_def)

lemma be_int_uint24 [simp]: "length bs \<le> 3 \<Longrightarrow> is_uint24 (be_int bs)"
  using be_int_field [of bs 3] be_int_bounds(1) by (simp add: is_uint24_def)

lemma be_int_uint32 [simp]: "length bs \<le> 4 \<Longrightarrow> is_uint32 (be_int bs)"
  using be_int_field [of bs 4] be_int_bounds(1) by (simp add: is_uint32_def)

lemma byte_at_drop: "byte_at (drop i bs) j = byte_at bs (i + j)"
  by (auto simp: byte_at_def)

lemma byte_at_bslice: "byte_at (bslice i j bs) k = (if i + k < j then byte_at bs (i + k) else Inl IndexError)"
  by (auto simp: byte_at_def bslice_def)

section \<open>Checksum fields\<close>

text \<open>\<open>b[i : i + len(c)] = c\<close>\<close>

definition put_at :: "nat \<Rightarrow> bytes \<Rightarrow> bytes \<Rightarrow> bytes" where
  "put_at i c b = take i b @ c @ drop (i + length c) b"

lemma length_put_at: "i + length c \<le> length b \<Longrightarrow> length (put_at i c b) = length b"
  by (simp add: put_at_def)

lemma inet_cksum_uint16: "is_uint16 (inet_cksum buffers init)"
proof -
  have "inet_cksum buffers init = (NOT (fold_sum (fst r + push_bit 8 (snd r)))) mod 65536"
    if "foldl cksum_buffer (init, 0) buffers = r" for r
    using that by (cases r) (simp add: inet_cksum_def and_mask16)
  then show ?thesis by (simp add: is_uint16_def)
qed

lemma sum16_put_at:
  assumes "even i" "i + 2 \<le> length bs" "is_uint16 ck" "bslice i (i + 2) bs = [0, 0]"
  shows "sum16 (put_at i (to_bytes 2 ck) bs @ rest) = sum16 (bs @ rest) + ck"
proof -
  have h: "bs = take i bs @ [0, 0] @ drop (i + 2) bs"
    using assms(4) append_take_drop_id [of 2 "drop i bs"] append_take_drop_id [of i bs]
    by (simp add: bslice_def add.commute)
  have e: "even (length (take i bs))" using assms(1,2) by simp
  have c: "sum16 (to_bytes 2 ck @ xs) = ck + sum16 xs" for xs
    using be_int_to_bytes [of ck 2] assms(3) be_int_def by (simp add: is_uint16_def numeral_2_eq_2)
  have "sum16 (bs @ rest) = sum16 (take i bs) + sum16 (drop (i + 2) bs @ rest)"
    by (subst h) (simp add: sum16_append [OF e])
  then show ?thesis by (simp add: put_at_def sum16_append [OF e] c)
qed

text \<open>A buffer completed with the checksum of its parts verifies, unless the folding lost a carry.\<close>

lemma completed_sum:
  assumes "0 \<le> s" "ck = 65535 - ones_fold s \<or> (ones_fold s = 1 \<and> ck = 65535)"
  shows "ones_fold (s + ck) = 65535 \<longleftrightarrow> ck = 65535 - ones_fold s"
proof (cases "s = 0")
  case True
  then show ?thesis using assms(2) by (auto simp: ones_fold_def)
next
  case False
  define r q where "r = (s - 1) mod 65535" and "q = (s - 1) div 65535"
  have s: "s = 65535 * q + r + 1" "0 \<le> r" "r < 65535" "0 \<le> q" and f: "ones_fold s = r + 1"
    using False assms(1) by (auto simp: r_def q_def ones_fold_def)
  have "ones_fold (s + ck) = (65535 * q + (r + ck)) mod 65535 + 1"
    using s assms f by (auto simp: ones_fold_def)
  also have "\<dots> = (r + ck) mod 65535 + 1" by simp
  finally show ?thesis using assms(2) s f by auto
qed

lemma cksum_completed:
  assumes "even i" "i + 2 \<le> length hdr" "bslice i (i + 2) hdr = [0, 0]" "no_zero_carry [] (hdr # bufs)"
    and "0 \<le> init" "init < 2 ^ 96" "length (hdr @ concat bufs) < 2 ^ 32" "ck = inet_cksum (hdr # bufs) init"
  shows "inet_cksum [put_at i (to_bytes 2 ck) hdr @ concat bufs] init = 0 \<longleftrightarrow>
    inet_cksum (hdr # bufs) init = rfc1071 (hdr @ concat bufs) init"
proof -
  let ?s = "init + sum16 (hdr @ concat bufs)"
  have "ck = 65535 - ones_fold ?s \<or> (ones_fold ?s = 1 \<and> ck = 65535)"
    using inet_cksum_fold [OF assms(4-6)] assms(7) by (simp add: assms(8))
  moreover have "0 \<le> ?s" using assms(5) by simp
  ultimately have "ones_fold (?s + ck) = 65535 \<longleftrightarrow> ck = 65535 - ones_fold ?s" using completed_sum by blast
  moreover have ck16: "is_uint16 ck" by (simp add: assms(8) inet_cksum_uint16)
  moreover have "length (put_at i (to_bytes 2 ck) hdr @ concat bufs) < 2 ^ 32"
    using assms(2,7) by (simp add: length_put_at)
  ultimately show ?thesis
    using inet_cksum_zero [OF assms(5,6), of "put_at i (to_bytes 2 ck) hdr @ concat bufs"]
    by (simp add: sum16_put_at [OF assms(1,2) ck16 assms(3)] rfc1071_eq [OF assms(5)] assms(8) [symmetric] add.assoc)
qed

section \<open>Lists of options\<close>

text \<open>An item with its encoding, its decoding from the head of a buffer and its length.\<close>

locale wire_item =
  fixes ok :: "'a \<Rightarrow> bool"
    and enc :: "'a \<Rightarrow> bytes res"
    and dec :: "bytes \<Rightarrow> 'a res"
    and len :: "'a \<Rightarrow> nat"
  assumes enc_total: "ok x \<Longrightarrow> \<exists>bs. enc x = Inr bs \<and> length bs = len x"
    and dec_enc: "ok x \<Longrightarrow> enc x = Inr bs \<Longrightarrow> dec (bs @ rest) = Inr x"
    and len_pos: "0 < len x"
begin

lemma encs_total:
  "list_all ok xs \<Longrightarrow> \<exists>bss. map_res enc xs = Inr bss \<and> length (concat bss) = sum_list (map len xs)"
proof (induction xs)
  case (Cons x xs)
  then obtain bss where "map_res enc xs = Inr bss" "length (concat bss) = sum_list (map len xs)" by auto
  moreover obtain bs where "enc x = Inr bs" "length bs = len x" using Cons.prems enc_total by auto
  ultimately show ?case by simp
qed simp

end

text \<open>
  The reading loop of a protocol's \<open>from_buffer\<close>: one item at a time from \<open>offset\<close>, until the
  buffer is used up or a terminating item was read.
\<close>

locale option_reader = wire_item +
  fixes stop :: "'a \<Rightarrow> bool"
    and loop :: "bytes \<Rightarrow> nat \<Rightarrow> 'a list res"
  assumes loop_eq: "loop buf off =
    (if off < length buf
     then bind_res (dec (drop off buf)) (\<lambda>x.
       if stop x then Inr [x]
       else bind_res (loop buf (off + len x)) (\<lambda>xs. Inr (x # xs)))
     else Inr [])"
begin

lemma loop_encoded:
  assumes "list_all ok xs" "list_all (\<lambda>x. \<not> stop x) (butlast xs)" "map_res enc xs = Inr bss"
    and "rest = [] \<or> (xs \<noteq> [] \<and> stop (last xs))"
  shows "loop (pre @ concat bss @ rest) (length pre) = Inr xs"
  using assms
proof (induction xs arbitrary: pre bss)
  case Nil
  then show ?case by (simp add: loop_eq)
next
  case (Cons x xs)
  obtain bs bss' where b: "enc x = Inr bs" "map_res enc xs = Inr bss'" "bss = bs # bss'"
    using Cons.prems(3) by auto
  have l: "length bs = len x" using enc_total [of x] Cons.prems(1) b(1) by auto
  have d: "dec (bs @ concat bss' @ rest) = Inr x" using dec_enc [of x bs] Cons.prems(1) b(1) by simp
  have pos: "bs \<noteq> []" using l len_pos [of x] by auto
  show ?case
  proof (cases "stop x")
    case True
    then have "xs = []" using Cons.prems(2) by (cases xs) auto
    then show ?thesis using True d pos by (subst loop_eq) (simp add: b)
  next
    case False
    have "loop ((pre @ bs) @ concat bss' @ rest) (length (pre @ bs)) = Inr xs"
      using Cons.prems False b(2) by (intro Cons.IH) (auto split: if_splits)
    then show ?thesis using False d pos by (subst loop_eq) (simp add: b l [symmetric])
  qed
qed

end

end
