(* ===== verification/Tlv.thy ===== *)
theory Tlv
  imports Wire
begin

text \<open>
  Options of a header as the TCP and IPv4 codecs have them: a kind byte, a length byte that counts both, and
  data, with two kinds of one byte (0 ends the list, 1 pads). Both \<open>validate_integrity\<close>
  methods walk over the raw bytes with the same loop, \<open>options_walk\<close>, before any option is
  parsed.

  The interface \<open>tlv_options\<close> extends \<open>option_reader\<close> by what a protocol's options promise on
  arbitrary bytes: an option that the walk has passed is read in its full length, or raises an
  exception that the protocol accounts for. Its lemmas: encoded options pass the walk; after
  the walk the reading loop returns well-formed options or such an exception.
\<close>

section \<open>Reading one option\<close>

text \<open>The two assertions every \<open>from_buffer\<close> opens with.\<close>

definition expect_type :: "nat \<Rightarrow> int \<Rightarrow> bytes \<Rightarrow> 'a res \<Rightarrow> 'a res" where
  "expect_type min_len type buffer k =
     passert (min_len \<le> length buffer)
       (bind_res (byte_at buffer 0) (\<lambda>value. passert (value = type) k))"

text \<open>\<open>_validate_integrity\<close> of an option of fixed length \<open>n\<close>.\<close>

definition fixed_integrity :: "int \<Rightarrow> bytes \<Rightarrow> 'a res \<Rightarrow> 'a res" where
  "fixed_integrity n buffer k =
     bind_res (byte_at buffer 1) (\<lambda>value.
       if value \<noteq> n then Inl IntegrityError
       else if value > int (length buffer) then Inl IntegrityError
       else k)"

lemma option_kind:
  "byte_at buffer 0 = Inr k \<Longrightarrow> be_int (bslice 0 (Suc 0) buffer) = k"
  by (cases buffer) (auto simp: bslice_def byte_at_def)

lemma nat_2_plus: "nat (2 + int n) = Suc (Suc n)"
  by simp

text \<open>An option of kind, length and verbatim data.\<close>

lemma tlv_buffer:
  assumes "bind_res (struct_pack [(Fmt_B, type), (Fmt_B, int (2 + length data))]) (\<lambda>hd. Inr (hd @ data)) = Inr bs"
  shows "byte_at (bs @ rest) 0 = Inr type \<and> byte_at (bs @ rest) 1 = Inr (2 + int (length data)) \<and>
    length bs = 2 + length data \<and> bslice 2 (2 + length data) (bs @ rest) = data"
proof -
  define v where "v = 2 + int (length data)"
  have "bs = word_of_int type # word_of_int v # data \<and> is_uint8 type \<and> is_uint8 v"
    using assms by (auto simp: v_def [symmetric] is_uint8_def split: if_splits)
  then show ?thesis
    by (auto simp: uint_byte v_def [symmetric] bslice_def)
qed

section \<open>Slots of a fixed size\<close>

text \<open>\<open>[read(buffer[offset : offset + k]) for offset in range(base, end, k)]\<close>\<close>

lemma slots_read:
  assumes "0 < k" "length pre = base" "\<forall>x \<in> set xs. length (f x) = k \<and> rd (f x) = Inr x"
    and "v = int base + int (length xs) * int k"
  shows "map_res (\<lambda>offset. rd (bslice (nat offset) (nat offset + k) (pre @ concat (map f xs) @ rest)))
    (range_up (int base) v (int k)) = Inr xs"
proof -
  let ?buf = "pre @ concat (map f xs) @ rest"
  have "rd (bslice (base + i * k) (base + i * k + k) ?buf) = Inr (xs ! i)" if i: "i < length xs" for i
  proof -
    have "drop (base + i * k) ?buf = f (xs ! i) @ concat (map f (drop (Suc i) xs)) @ rest"
      using drop_chunks [of xs f k i rest] assms(2,3) i by (simp add: mult.commute)
    then have "bslice (base + i * k) (base + i * k + k) ?buf = f (xs ! i)"
      using assms(3) i by (simp add: bslice_def)
    then show ?thesis using assms(3) i by simp
  qed
  then have "map_res (\<lambda>i. rd (bslice (nat (int base + int i * int k)) (nat (int base + int i * int k) + k) ?buf))
      [0..<length xs] = Inr (map ((!) xs) [0..<length xs])"
    by (intro map_res_Inr) (auto simp flip: of_nat_mult of_nat_add)
  then show ?thesis
    using assms(1) by (simp add: assms(4) range_up_count map_res_map map_nth)
qed

text \<open>Slots within the buffer are read whatever they hold.\<close>

lemma slots_total:
  assumes "0 < k" "v = int base + int n * int k" "v \<le> int (length buf)"
    and "\<And>b. length b = k \<Longrightarrow> \<exists>x. rd b = Inr x \<and> P x"
  obtains xs where "map_res (\<lambda>offset. rd (bslice (nat offset) (nat offset + k) buf)) (range_up (int base) v (int k)) = Inr xs"
    "length xs = n" "list_all P xs"
proof -
  define g where "g b = (SOME x. rd b = Inr x \<and> P x)" for b
  have g: "rd b = Inr (g b) \<and> P (g b)" if "length b = k" for b
    unfolding g_def using assms(4) [OF that] by (rule someI_ex)
  have len: "length (bslice (base + i * k) (base + i * k + k) buf) = k" if "i < n" for i
  proof -
    have "Suc i * k \<le> n * k" using that by (intro mult_le_mono1) simp
    moreover have "base + n * k \<le> length buf" using assms(2,3) by (simp flip: of_nat_mult of_nat_add)
    ultimately show ?thesis by (simp add: length_bslice)
  qed
  let ?xs = "map (\<lambda>i. g (bslice (base + i * k) (base + i * k + k) buf)) [0..<n]"
  have "map_res (\<lambda>i. rd (bslice (nat (int base + int i * int k)) (nat (int base + int i * int k) + k) buf)) [0..<n] = Inr ?xs"
    using g [OF len] by (intro map_res_Inr) (auto simp flip: of_nat_mult of_nat_add)
  then show ?thesis
    using assms(1) g [OF len] by (intro that [of ?xs]) (auto simp: assms(2) range_up_count map_res_map list_all_iff)
qed

section \<open>Accessors\<close>

fun find_opt :: "('a \<Rightarrow> 'b option) \<Rightarrow> 'a list \<Rightarrow> 'b option" where
  "find_opt f [] = None"
| "find_opt f (x # xs) = (case f x of Some v \<Rightarrow> Some v | None \<Rightarrow> find_opt f xs)"

section \<open>The integrity walk\<close>

function options_walk :: "bytes \<Rightarrow> nat \<Rightarrow> nat \<Rightarrow> unit res" where
  "options_walk frame hlen offset =
     (if offset < hlen
      then bind_res (byte_at frame offset) (\<lambda>kind.
        if kind = 0 then Inr ()
        else if kind = 1 then options_walk frame hlen (offset + 1)
        else bind_res (byte_at frame (offset + 1)) (\<lambda>value.
          if value < 2 then Inl IntegrityError
          else if offset + nat value > hlen then Inl IntegrityError
          else options_walk frame hlen (offset + nat value)))
      else Inr ())"
  by pat_completeness auto
termination
  by (relation "measure (\<lambda>(frame, hlen, offset). hlen - offset)") auto

declare options_walk.simps [simp del]

text \<open>The steps of the walk.\<close>

lemma walk_end: "\<not> offset < hlen \<Longrightarrow> options_walk frame hlen offset = Inr ()"
  by (simp add: options_walk.simps)

lemma walk_eol: "offset < hlen \<Longrightarrow> byte_at frame offset = Inr 0 \<Longrightarrow> options_walk frame hlen offset = Inr ()"
  by (simp add: options_walk.simps [of _ _ offset] del: bind_res_eq_Inr)

lemma walk_nop: "offset < hlen \<Longrightarrow> byte_at frame offset = Inr 1 \<Longrightarrow>
    options_walk frame hlen offset = options_walk frame hlen (offset + 1)"
  by (simp add: options_walk.simps [of _ _ offset] del: bind_res_eq_Inr)

lemma walk_tlv: "offset < hlen \<Longrightarrow> byte_at frame offset = Inr kind \<Longrightarrow> kind \<noteq> 0 \<Longrightarrow> kind \<noteq> 1 \<Longrightarrow>
    options_walk frame hlen offset =
      bind_res (byte_at frame (offset + 1)) (\<lambda>value.
        if value < 2 then Inl IntegrityError
        else if offset + nat value > hlen then Inl IntegrityError
        else options_walk frame hlen (offset + nat value))"
  by (simp add: options_walk.simps [of _ _ offset] del: bind_res_eq_Inr)

text \<open>The only exception of the walk besides the integrity error: a kind byte that ends the frame.\<close>

lemma walk_error:
  assumes "options_walk frame hlen offset = Inl e" "hlen \<le> length frame"
  shows "e = IntegrityError \<or>
    (e = IndexError \<and> hlen = length frame \<and> hlen > 0 \<and> uint (frame ! (hlen - 1)) \<notin> {0, 1})"
  using assms
proof (induction "hlen - offset" arbitrary: offset rule: less_induct)
  case less
  show ?case
  proof (cases "offset < hlen")
    case True
    let ?kind = "uint (frame ! offset)"
    have at: "byte_at frame offset = Inr ?kind" using True less.prems(2) by (simp add: byte_at_def)
    consider "?kind = 0" | "?kind = 1" | "?kind \<noteq> 0" "?kind \<noteq> 1" by blast
    then show ?thesis
    proof cases
      case 1
      then show ?thesis using less.prems(1) True at by (simp add: walk_eol)
    next
      case 2
      then show ?thesis using less.hyps [of "offset + 1"] less.prems True at by (simp add: walk_nop)
    next
      case 3
      show ?thesis
      proof (cases "byte_at frame (offset + 1)")
        case (Inl e')
        then have "hlen = length frame" "offset = hlen - 1" "e' = IndexError"
          using True less.prems(2) by (auto simp: byte_at_Inl)
        then show ?thesis using Inl 3 True less.prems(1) walk_tlv [OF True at 3] by auto
      next
        case (Inr v)
        then have w: "(if v < 2 then Inl IntegrityError
             else if offset + nat v > hlen then Inl IntegrityError
             else options_walk frame hlen (offset + nat v)) = Inl e"
          using walk_tlv [OF True at 3] less.prems(1) by simp
        show ?thesis
        proof (cases "v < 2 \<or> hlen < offset + nat v")
          case True
          then show ?thesis using w by (auto split: if_splits)
        next
          case False
          then have "hlen - (offset + nat v) < hlen - offset" using True by linarith
          then show ?thesis using False less.hyps [of "offset + nat v"] less.prems(2) w by simp
        qed
      qed
    qed
  next
    case False
    then show ?thesis using less.prems(1) by (simp add: walk_end)
  qed
qed

section \<open>Options of a protocol\<close>

lemma uint_one_iff: "uint (b :: 8 word) = 1 \<longleftrightarrow> b = 1"
  using word_uint_eq_iff [of b 1] by simp

text \<open>What a reading loop that starts at \<open>off\<close> may return: an exception the protocol accounts for, or options that fit.\<close>

definition loop_outcome ::
    "('a \<Rightarrow> bool) \<Rightarrow> ('a \<Rightarrow> nat) \<Rightarrow> 'a \<Rightarrow> (py_error \<Rightarrow> bytes \<Rightarrow> bool) \<Rightarrow> bytes \<Rightarrow> nat \<Rightarrow> 'a list res \<Rightarrow> bool" where
  "loop_outcome ok len eol excuse buf off r \<longleftrightarrow>
     (\<exists>e i. r = Inl e \<and> off \<le> i \<and> i < length buf \<and> excuse e (drop i buf)) \<or>
     (\<exists>xs. r = Inr xs \<and> list_all ok xs \<and> eol \<notin> set (butlast xs) \<and> off + sum_list (map len xs) \<le> length buf)"

locale tlv_options = option_reader ok enc dec len stop loop
  for ok :: "'a \<Rightarrow> bool" and enc :: "'a \<Rightarrow> bytes res" and dec :: "bytes \<Rightarrow> 'a res" and len :: "'a \<Rightarrow> nat"
    and stop :: "'a \<Rightarrow> bool" and loop :: "bytes \<Rightarrow> nat \<Rightarrow> 'a list res" +
  fixes eol :: 'a and nop :: 'a
    and excuse :: "py_error \<Rightarrow> bytes \<Rightarrow> bool"
  assumes stop_iff: "stop x \<longleftrightarrow> x = eol"
    and single: "ok eol" "ok nop" "nop \<noteq> eol" "enc eol = Inr [0]" "enc nop = Inr [1]"
    and head: "ok x \<Longrightarrow> enc x = Inr bs \<Longrightarrow> x \<noteq> eol \<Longrightarrow> x \<noteq> nop \<Longrightarrow>
      2 \<le> len x \<and> byte_at (bs @ rest) 1 = Inr (int (len x)) \<and> (\<exists>kind. byte_at (bs @ rest) 0 = Inr kind \<and> kind \<noteq> 0 \<and> kind \<noteq> 1)"
    and outcome: "byte_at buf 0 = Inr kind \<Longrightarrow> kind \<noteq> 0 \<Longrightarrow> kind \<noteq> 1 \<Longrightarrow>
      byte_at buf 1 = Inr v \<Longrightarrow> 2 \<le> v \<Longrightarrow> v \<le> int (length buf) \<Longrightarrow>
      (\<exists>e. dec buf = Inl e \<and> excuse e buf) \<or> (\<exists>x. dec buf = Inr x \<and> ok x \<and> len x = nat v \<and> x \<noteq> eol)"
begin

lemma single_len: "len eol = 1" "len nop = 1"
  using enc_total [OF single(1)] enc_total [OF single(2)] single(4,5) by auto

lemma dec_single: "byte_at buf 0 = Inr 0 \<Longrightarrow> dec buf = Inr eol" "byte_at buf 0 = Inr 1 \<Longrightarrow> dec buf = Inr nop"
  using dec_enc [OF single(1,4)] dec_enc [OF single(2,5)]
  by (cases buf; auto simp: byte_at_def uint_0_iff uint_one_iff)+

lemma walk_encoded:
  assumes "list_all ok xs" "map_res enc xs = Inr bss" "hlen = length (pre @ concat bss)"
  shows "options_walk (pre @ concat bss @ rest) hlen (length pre) = Inr ()"
  using assms
proof (induction xs arbitrary: pre bss)
  case Nil
  then show ?case by (simp add: options_walk.simps)
next
  case (Cons x xs)
  obtain bs bss' where b: "enc x = Inr bs" "map_res enc xs = Inr bss'" "bss = bs # bss'"
    using Cons.prems(2) by auto
  have l: "length bs = len x" using enc_total [of x] Cons.prems(1) b(1) by auto
  have IH: "options_walk ((pre @ bs) @ concat bss' @ rest) hlen (length (pre @ bs)) = Inr ()"
    using Cons.prems b by (intro Cons.IH) auto
  have at: "byte_at (pre @ bs @ concat bss' @ rest) (length pre + j) = byte_at (bs @ concat bss' @ rest) j" for j
    using byte_at_drop [of "length pre" "pre @ bs @ concat bss' @ rest" j] by simp
  have in_range: "length pre < hlen" using l len_pos [of x] Cons.prems(3) by (simp add: b)
  show ?case
  proof (cases "x = eol \<or> x = nop")
    case True
    then show ?thesis using IH l at [of 0] in_range single_len b single
      by (auto simp: walk_eol walk_nop)
  next
    case False
    then obtain kind where k: "byte_at (pre @ bs @ concat bss' @ rest) (length pre) = Inr kind" "kind \<noteq> 0" "kind \<noteq> 1"
        "byte_at (pre @ bs @ concat bss' @ rest) (length pre + 1) = Inr (int (len x))" "2 \<le> len x"
      using head [of x bs "concat bss' @ rest"] at [of 0] at [of 1] Cons.prems(1) b(1) by auto
    then show ?thesis using IH l Cons.prems(3) walk_tlv [OF in_range k(1-3)] by (simp add: b del: bind_res_eq_Inr)
  qed
qed

lemma loop_outcome_step:
  assumes "off < length buf" "dec (drop off buf) = Inr x" "ok x" "x \<noteq> eol"
    and "loop_outcome ok len eol excuse buf (off + len x) (loop buf (off + len x))"
  shows "loop_outcome ok len eol excuse buf off (loop buf off)"
proof -
  have l: "loop buf off = bind_res (loop buf (off + len x)) (\<lambda>xs. Inr (x # xs))"
    using assms(1,2,4) by (subst loop_eq) (simp add: stop_iff del: bind_res_eq_Inr)
  show ?thesis
  proof (cases "loop buf (off + len x)")
    case (Inl e)
    then obtain i where "off + len x \<le> i" "i < length buf" "excuse e (drop i buf)"
      using assms(5) by (auto simp: loop_outcome_def)
    then show ?thesis using l Inl by (auto simp: loop_outcome_def intro: exI [of _ i])
  next
    case (Inr xs)
    then have "list_all ok xs" "eol \<notin> set (butlast xs)" "off + len x + sum_list (map len xs) \<le> length buf"
      using assms(5) by (auto simp: loop_outcome_def)
    then show ?thesis using l Inr assms(3,4) by (auto simp: loop_outcome_def)
  qed
qed

lemma loop_after_walk:
  assumes "options_walk frame hlen (base + off) = Inr ()" "base \<le> hlen" "hlen \<le> length frame" "base + off \<le> hlen"
  shows "loop_outcome ok len eol excuse (bslice base hlen frame) off (loop (bslice base hlen frame) off)"
  using assms(1,4)
proof (induction "hlen - off" arbitrary: off rule: less_induct)
  case less
  let ?buf = "bslice base hlen frame"
  let ?here = "drop off ?buf"
  have blen: "length ?buf = hlen - base" using assms(3) by (simp add: length_bslice)
  show ?case
  proof (cases "base + off < hlen")
    case True
    let ?kind = "uint (frame ! (base + off))"
    have at: "byte_at frame (base + off) = Inr ?kind" using True assms(3) by (simp add: byte_at_def)
    have hd0: "byte_at ?here 0 = Inr ?kind" using at True by (simp add: byte_at_drop byte_at_bslice)
    have inside: "off < length ?buf" using True blen by simp
    consider "?kind = 0" | "?kind = 1" | "?kind \<noteq> 0" "?kind \<noteq> 1" by blast
    then show ?thesis
    proof cases
      case 1
      then have "dec ?here = Inr eol" using hd0 dec_single by simp
      then show ?thesis using inside single single_len
        by (subst loop_eq) (simp add: loop_outcome_def stop_iff del: bind_res_eq_Inr)
    next
      case 2
      then have "dec ?here = Inr nop" using hd0 dec_single by simp
      moreover have "loop_outcome ok len eol excuse ?buf (off + 1) (loop ?buf (off + 1))"
        using less.prems 2 at True by (intro less.hyps) (auto simp: walk_nop)
      ultimately show ?thesis using loop_outcome_step [OF inside] single single_len by simp
    next
      case 3
      obtain v where v: "byte_at frame (base + off + 1) = Inr v" "2 \<le> v" "base + off + nat v \<le> hlen"
          "options_walk frame hlen (base + off + nat v) = Inr ()"
        using less.prems(1) unfolding walk_tlv [OF True at 3] by (auto split: if_splits)
      have "byte_at ?here 1 = Inr v" using v(1-3) by (simp add: byte_at_drop byte_at_bslice)
      moreover have "v \<le> int (length ?here)" using v(2,3) blen by simp
      ultimately consider e where "dec ?here = Inl e" "excuse e ?here"
        | x where "dec ?here = Inr x" "ok x" "len x = nat v" "x \<noteq> eol"
        using outcome [OF hd0 3 _ v(2)] by blast
      then show ?thesis
      proof cases
        case 1
        then show ?thesis using inside by (subst loop_eq) (auto simp: loop_outcome_def)
      next
        case (2 x)
        have "loop_outcome ok len eol excuse ?buf (off + nat v) (loop ?buf (off + nat v))"
          using v True by (intro less.hyps) (auto simp: add.assoc)
        then show ?thesis using loop_outcome_step [OF inside 2(1,2,4)] 2(3) by simp
      qed
    qed
  next
    case False
    then have "loop ?buf off = Inr []" using blen by (subst loop_eq) simp
    then show ?thesis using False less.prems(2) blen by (simp add: loop_outcome_def)
  qed
qed

end

end
