(* ===== verification/Tcp_Options.thy ===== *)
theory Tcp_Options
  imports Tlv
begin

text \<open>
  \<^verbatim>\<open>pmd_net_proto/protocols/tcp/options/\<close>: the TCP options, one constructor function per option
  class (its \<open>__post_init__\<close> assertions), one encoder (\<open>__buffer__\<close>), and one decoder each
  (\<open>_validate_integrity\<close> followed by \<open>from_buffer\<close>); then \<^verbatim>\<open>tcp__options.py\<close>: the integrity
  walk over the raw option bytes, the reading loop and the accessors.

  A received option kind is the number itself; the dynamically created enum members for unknown
  kinds carry nothing else.
\<close>

section \<open>Options and their construction\<close>

datatype tcp_option =
    OptEol
  | OptNop
  | OptMss int
  | OptWscale int
  | OptSackperm
  | OptSack "(int \<times> int) list"
  | OptTimestamps int int
  | OptFastopen bytes
  | OptAccecn0 "int option" "int option" "int option"
  | OptAccecn1 "int option" "int option" "int option"
  | OptUnknown int bytes

definition known_option_types :: "int list" where
  "known_option_types = [0, 1, 2, 3, 4, 5, 8, 34, 172, 174]"

definition mk_mss :: "int \<Rightarrow> tcp_option res" where
  "mk_mss mss = passert (is_uint16 mss) (Inr (OptMss mss))"

definition mk_wscale :: "int \<Rightarrow> tcp_option res" where
  "mk_wscale wscale = passert (is_uint8 wscale) (passert (wscale \<le> 14) (Inr (OptWscale wscale)))"

definition mk_sack_block :: "int \<Rightarrow> int \<Rightarrow> (int \<times> int) res" where
  "mk_sack_block left right = passert (is_uint32 left) (passert (is_uint32 right) (Inr (left, right)))"

definition mk_sack :: "(int \<times> int) list \<Rightarrow> tcp_option res" where
  "mk_sack blocks = passert (length blocks \<le> 4) (Inr (OptSack blocks))"

definition mk_timestamps :: "int \<Rightarrow> int \<Rightarrow> tcp_option res" where
  "mk_timestamps tsval tsecr =
     passert (is_uint32 tsval) (passert (is_uint32 tsecr) (Inr (OptTimestamps tsval tsecr)))"

definition mk_fastopen :: "bytes \<Rightarrow> tcp_option res" where
  "mk_fastopen cookie =
     passert (length cookie = 0 \<or> (4 \<le> length cookie \<and> length cookie \<le> 16)) (Inr (OptFastopen cookie))"

text \<open>
  The two AccECN classes differ in the wire order of their counters: \<open>first\<close>, \<open>eceb\<close>,
  \<open>last\<close> are \<open>ee0b\<close>, \<open>eceb\<close>, \<open>ee1b\<close> for AccECN0 and \<open>ee1b\<close>, \<open>eceb\<close>, \<open>ee0b\<close> for
  AccECN1. A present counter requires the ones before it.
\<close>

definition uint24_or_none :: "int option \<Rightarrow> bool" where
  "uint24_or_none x = (case x of None \<Rightarrow> True | Some v \<Rightarrow> is_uint24 v)"

definition accecn_presence :: "int option \<Rightarrow> int option \<Rightarrow> int option \<Rightarrow> bool" where
  "accecn_presence first eceb third =
     (if third \<noteq> None then eceb \<noteq> None \<and> first \<noteq> None
      else if eceb \<noteq> None then first \<noteq> None
      else True)"

definition accecn_checks :: "int option \<Rightarrow> int option \<Rightarrow> int option \<Rightarrow> bool" where
  "accecn_checks first eceb third \<longleftrightarrow>
     accecn_presence first eceb third \<and>
     uint24_or_none first \<and> uint24_or_none eceb \<and> uint24_or_none third"

definition accecn_len :: "int option \<Rightarrow> int option \<Rightarrow> int option \<Rightarrow> nat" where
  "accecn_len first eceb third =
     (if third \<noteq> None then 11 else if eceb \<noteq> None then 8 else if first \<noteq> None then 5 else 2)"

definition mk_accecn0 :: "int option \<Rightarrow> int option \<Rightarrow> int option \<Rightarrow> tcp_option res" where
  "mk_accecn0 ee0b eceb ee1b = passert (accecn_checks ee0b eceb ee1b) (Inr (OptAccecn0 ee0b eceb ee1b))"

definition mk_accecn1 :: "int option \<Rightarrow> int option \<Rightarrow> int option \<Rightarrow> tcp_option res" where
  "mk_accecn1 ee0b eceb ee1b = passert (accecn_checks ee1b eceb ee0b) (Inr (OptAccecn1 ee0b eceb ee1b))"

definition mk_unknown :: "int \<Rightarrow> bytes \<Rightarrow> tcp_option res" where
  "mk_unknown type data =
     passert (type \<notin> set known_option_types)
       (passert (is_uint8 (2 + int (length data))) (Inr (OptUnknown type data)))"

text \<open>The attribute \<open>len\<close> each class sets on construction.\<close>

fun option_len :: "tcp_option \<Rightarrow> nat" where
  "option_len OptEol = 1"
| "option_len OptNop = 1"
| "option_len (OptMss _) = 4"
| "option_len (OptWscale _) = 3"
| "option_len OptSackperm = 2"
| "option_len (OptSack blocks) = 2 + 8 * length blocks"
| "option_len (OptTimestamps _ _) = 10"
| "option_len (OptFastopen cookie) = 2 + length cookie"
| "option_len (OptAccecn0 ee0b eceb ee1b) = accecn_len ee0b eceb ee1b"
| "option_len (OptAccecn1 ee0b eceb ee1b) = accecn_len ee1b eceb ee0b"
| "option_len (OptUnknown _ data) = 2 + length data"

text \<open>The options the constructors return.\<close>

fun option_ok :: "tcp_option \<Rightarrow> bool" where
  "option_ok OptEol = True"
| "option_ok OptNop = True"
| "option_ok (OptMss mss) = is_uint16 mss"
| "option_ok (OptWscale wscale) = (is_uint8 wscale \<and> wscale \<le> 14)"
| "option_ok OptSackperm = True"
| "option_ok (OptSack blocks) =
     (length blocks \<le> 4 \<and> list_all (\<lambda>(left, right). is_uint32 left \<and> is_uint32 right) blocks)"
| "option_ok (OptTimestamps tsval tsecr) = (is_uint32 tsval \<and> is_uint32 tsecr)"
| "option_ok (OptFastopen cookie) = (length cookie = 0 \<or> (4 \<le> length cookie \<and> length cookie \<le> 16))"
| "option_ok (OptAccecn0 ee0b eceb ee1b) = accecn_checks ee0b eceb ee1b"
| "option_ok (OptAccecn1 ee0b eceb ee1b) = accecn_checks ee1b eceb ee0b"
| "option_ok (OptUnknown type data) =
     (is_uint8 type \<and> type \<notin> set known_option_types \<and> is_uint8 (2 + int (length data)))"

section \<open>Encoding\<close>

definition sack_block_buffer :: "int \<times> int \<Rightarrow> bytes res" where
  "sack_block_buffer block = struct_pack [(Fmt_L, fst block), (Fmt_L, snd block)]"

definition counter_bytes :: "int option \<Rightarrow> bytes res" where
  "counter_bytes x = (case x of None \<Rightarrow> Inr [] | Some v \<Rightarrow> int_to_bytes 3 v)"

definition accecn_buffer :: "int \<Rightarrow> int option \<Rightarrow> int option \<Rightarrow> int option \<Rightarrow> bytes res" where
  "accecn_buffer type first eceb third =
     bind_res (counter_bytes first) (\<lambda>b1.
     bind_res (counter_bytes eceb) (\<lambda>b2.
     bind_res (counter_bytes third) (\<lambda>b3.
       Inr ([word_of_int type, word_of_nat (accecn_len first eceb third)] @ b1 @ b2 @ b3))))"

text \<open>\<open>__buffer__\<close> of each class.\<close>

definition mss_buffer :: "int \<Rightarrow> bytes res" where
  [simp]: "mss_buffer mss = struct_pack [(Fmt_B, 2), (Fmt_B, 4), (Fmt_H, mss)]"

definition wscale_buffer :: "int \<Rightarrow> bytes res" where
  [simp]: "wscale_buffer wscale = struct_pack [(Fmt_B, 3), (Fmt_B, 3), (Fmt_B, wscale)]"

definition sackperm_buffer :: "bytes res" where
  [simp]: "sackperm_buffer = struct_pack [(Fmt_B, 4), (Fmt_B, 2)]"

definition sack_buffer :: "(int \<times> int) list \<Rightarrow> bytes res" where
  [simp]: "sack_buffer blocks =
     bind_res (struct_pack [(Fmt_B, 5), (Fmt_B, int (option_len (OptSack blocks)))]) (\<lambda>hd.
     bind_res (map_res sack_block_buffer blocks) (\<lambda>bs. Inr (hd @ concat bs)))"

definition timestamps_buffer :: "int \<Rightarrow> int \<Rightarrow> bytes res" where
  [simp]: "timestamps_buffer tsval tsecr = struct_pack [(Fmt_B, 8), (Fmt_B, 10), (Fmt_L, tsval), (Fmt_L, tsecr)]"

definition fastopen_buffer :: "bytes \<Rightarrow> bytes res" where
  [simp]: "fastopen_buffer cookie =
     bind_res (struct_pack [(Fmt_B, 34), (Fmt_B, int (2 + length cookie))]) (\<lambda>hd. Inr (hd @ cookie))"

definition accecn0_buffer :: "int option \<Rightarrow> int option \<Rightarrow> int option \<Rightarrow> bytes res" where
  [simp]: "accecn0_buffer ee0b eceb ee1b = accecn_buffer 172 ee0b eceb ee1b"

definition accecn1_buffer :: "int option \<Rightarrow> int option \<Rightarrow> int option \<Rightarrow> bytes res" where
  [simp]: "accecn1_buffer ee0b eceb ee1b = accecn_buffer 174 ee1b eceb ee0b"

definition unknown_buffer :: "int \<Rightarrow> bytes \<Rightarrow> bytes res" where
  [simp]: "unknown_buffer type data =
     bind_res (struct_pack [(Fmt_B, type), (Fmt_B, int (2 + length data))]) (\<lambda>hd. Inr (hd @ data))"

fun option_buffer :: "tcp_option \<Rightarrow> bytes res" where
  "option_buffer OptEol = Inr [0]"
| "option_buffer OptNop = Inr [1]"
| "option_buffer (OptMss mss) = mss_buffer mss"
| "option_buffer (OptWscale wscale) = wscale_buffer wscale"
| "option_buffer OptSackperm = sackperm_buffer"
| "option_buffer (OptSack blocks) = sack_buffer blocks"
| "option_buffer (OptTimestamps tsval tsecr) = timestamps_buffer tsval tsecr"
| "option_buffer (OptFastopen cookie) = fastopen_buffer cookie"
| "option_buffer (OptAccecn0 ee0b eceb ee1b) = accecn0_buffer ee0b eceb ee1b"
| "option_buffer (OptAccecn1 ee0b eceb ee1b) = accecn1_buffer ee0b eceb ee1b"
| "option_buffer (OptUnknown type data) = unknown_buffer type data"

section \<open>Decoding one option\<close>

definition mss_integrity :: "bytes \<Rightarrow> 'a res \<Rightarrow> 'a res" where
  "mss_integrity = fixed_integrity 4"

definition wscale_integrity :: "bytes \<Rightarrow> 'a res \<Rightarrow> 'a res" where
  "wscale_integrity = fixed_integrity 3"

definition timestamps_integrity :: "bytes \<Rightarrow> 'a res \<Rightarrow> 'a res" where
  "timestamps_integrity = fixed_integrity 10"

definition eol_from_buffer :: "bytes \<Rightarrow> tcp_option res" where
  "eol_from_buffer buffer = expect_type 1 0 buffer (Inr OptEol)"

definition nop_from_buffer :: "bytes \<Rightarrow> tcp_option res" where
  "nop_from_buffer buffer = expect_type 1 1 buffer (Inr OptNop)"

definition mss_from_buffer :: "bytes \<Rightarrow> tcp_option res" where
  "mss_from_buffer buffer =
     expect_type 2 2 buffer (mss_integrity buffer (mk_mss (be_int (bslice 2 4 buffer))))"

definition wscale_from_buffer :: "bytes \<Rightarrow> tcp_option res" where
  "wscale_from_buffer buffer =
     expect_type 2 3 buffer (wscale_integrity buffer
       (bind_res (byte_at buffer 2) (\<lambda>value. mk_wscale (min value 14))))"

text \<open>SACK-permitted checks the length byte only: two bytes are there by the assertion.\<close>

definition sackperm_integrity :: "bytes \<Rightarrow> 'a res \<Rightarrow> 'a res" where
  "sackperm_integrity buffer k =
     bind_res (byte_at buffer 1) (\<lambda>value. if value \<noteq> 2 then Inl IntegrityError else k)"

definition sackperm_from_buffer :: "bytes \<Rightarrow> tcp_option res" where
  "sackperm_from_buffer buffer = expect_type 2 4 buffer (sackperm_integrity buffer (Inr OptSackperm))"

definition sack_integrity :: "bytes \<Rightarrow> (int \<Rightarrow> 'a res) \<Rightarrow> 'a res" where
  "sack_integrity buffer k =
     bind_res (byte_at buffer 1) (\<lambda>value.
       if value > int (length buffer) then Inl IntegrityError
       else if (value - 2) mod 8 \<noteq> 0 then Inl IntegrityError
       else if (value - 2) div 8 > 4 then Inl IntegrityError
       else k value)"

definition sack_from_buffer :: "bytes \<Rightarrow> tcp_option res" where
  "sack_from_buffer buffer =
     expect_type 2 5 buffer (sack_integrity buffer (\<lambda>value.
       bind_res (map_res (\<lambda>offset.
           mk_sack_block (be_int (bslice (nat offset) (nat offset + 4) buffer))
                         (be_int (bslice (nat offset + 4) (nat offset + 8) buffer)))
         (range_up 2 value 8)) mk_sack))"

definition timestamps_from_buffer :: "bytes \<Rightarrow> tcp_option res" where
  "timestamps_from_buffer buffer =
     expect_type 2 8 buffer (timestamps_integrity buffer
       (bind_res (struct_unpack_from [Fmt_B, Fmt_B, Fmt_L, Fmt_L] buffer) (\<lambda>fields.
          mk_timestamps (fields ! 2) (fields ! 3))))"

definition fastopen_integrity :: "bytes \<Rightarrow> (int \<Rightarrow> 'a res) \<Rightarrow> 'a res" where
  "fastopen_integrity buffer k =
     bind_res (byte_at buffer 1) (\<lambda>value.
       if value < 2 then Inl IntegrityError
       else if value > int (length buffer) then Inl IntegrityError
       else let cookie_len = value - 2 in
            if cookie_len \<noteq> 0 \<and> \<not> (4 \<le> cookie_len \<and> cookie_len \<le> 16) then Inl IntegrityError
            else k value)"

definition fastopen_from_buffer :: "bytes \<Rightarrow> tcp_option res" where
  "fastopen_from_buffer buffer =
     expect_type 2 34 buffer (fastopen_integrity buffer (\<lambda>option_len.
       mk_fastopen (bslice 2 (nat option_len) buffer)))"

definition accecn_integrity :: "bytes \<Rightarrow> (int \<Rightarrow> 'a res) \<Rightarrow> 'a res" where
  "accecn_integrity buffer k =
     bind_res (byte_at buffer 1) (\<lambda>value.
       if value \<notin> {2, 5, 8, 11} then Inl IntegrityError
       else if value > int (length buffer) then Inl IntegrityError
       else k value)"

definition counter_from :: "int \<Rightarrow> int \<Rightarrow> nat \<Rightarrow> nat \<Rightarrow> bytes \<Rightarrow> int option" where
  "counter_from wire_len least i j buffer =
     (if wire_len \<ge> least then Some (be_int (bslice i j buffer)) else None)"

definition accecn0_from_buffer :: "bytes \<Rightarrow> tcp_option res" where
  "accecn0_from_buffer buffer =
     expect_type 2 172 buffer (accecn_integrity buffer (\<lambda>wire_len.
       let ee0b = counter_from wire_len 5 2 5 buffer;
           eceb = counter_from wire_len 8 5 8 buffer;
           ee1b = counter_from wire_len 11 8 11 buffer
       in mk_accecn0 ee0b eceb ee1b))"

definition accecn1_from_buffer :: "bytes \<Rightarrow> tcp_option res" where
  "accecn1_from_buffer buffer =
     expect_type 2 174 buffer (accecn_integrity buffer (\<lambda>wire_len.
       let ee1b = counter_from wire_len 5 2 5 buffer;
           eceb = counter_from wire_len 8 5 8 buffer;
           ee0b = counter_from wire_len 11 8 11 buffer
       in mk_accecn1 ee0b eceb ee1b))"

definition unknown_integrity :: "bytes \<Rightarrow> (int \<Rightarrow> 'a res) \<Rightarrow> 'a res" where
  "unknown_integrity buffer k =
     bind_res (byte_at buffer 1) (\<lambda>value. if value > int (length buffer) then Inl IntegrityError else k value)"

definition unknown_from_buffer :: "bytes \<Rightarrow> tcp_option res" where
  "unknown_from_buffer buffer =
     passert (2 \<le> length buffer)
       (bind_res (byte_at buffer 0) (\<lambda>type.
        passert (type \<notin> set known_option_types)
          (unknown_integrity buffer (\<lambda>value. mk_unknown type (bslice 2 (nat value) buffer)))))"

section \<open>Option lists\<close>

text \<open>The dispatch of \<open>TcpOptions.from_buffer\<close> on the kind byte, and its loop.\<close>

definition option_from_buffer :: "bytes \<Rightarrow> tcp_option res" where
  "option_from_buffer buffer =
     (let type = be_int (bslice 0 1 buffer) in
      if type = 0 then eol_from_buffer buffer
      else if type = 1 then nop_from_buffer buffer
      else if type = 2 then mss_from_buffer buffer
      else if type = 3 then wscale_from_buffer buffer
      else if type = 4 then sackperm_from_buffer buffer
      else if type = 5 then sack_from_buffer buffer
      else if type = 8 then timestamps_from_buffer buffer
      else if type = 34 then fastopen_from_buffer buffer
      else if type = 172 then accecn0_from_buffer buffer
      else if type = 174 then accecn1_from_buffer buffer
      else unknown_from_buffer buffer)"

lemma option_len_pos [simp]: "0 < option_len opt"
  by (cases opt) (auto simp: accecn_len_def)

function options_loop :: "bytes \<Rightarrow> nat \<Rightarrow> tcp_option list res" where
  "options_loop buffer offset =
     (if offset < length buffer
      then bind_res (option_from_buffer (drop offset buffer)) (\<lambda>opt.
        if opt = OptEol then Inr [opt]
        else bind_res (options_loop buffer (offset + option_len opt)) (\<lambda>opts. Inr (opt # opts)))
      else Inr [])"
  by pat_completeness auto
termination
  by (relation "measure (\<lambda>(buffer, offset). length buffer - offset)") (auto intro!: diff_less_mono2)

declare options_loop.simps [simp del]

definition options_from_buffer :: "bytes \<Rightarrow> tcp_option list res" where
  "options_from_buffer buffer = options_loop buffer 0"

definition options_len :: "tcp_option list \<Rightarrow> nat" where
  "options_len opts = sum_list (map option_len opts)"

definition options_buffer :: "tcp_option list \<Rightarrow> bytes res" where
  "options_buffer opts = bind_res (map_res option_buffer opts) (\<lambda>bss. Inr (concat bss))"

text \<open>\<open>TcpOptions.validate_integrity\<close>: the walk over the raw header, before any option is parsed.\<close>

definition options_validate_integrity :: "bytes \<Rightarrow> nat \<Rightarrow> unit res" where
  "options_validate_integrity frame hlen = options_walk frame hlen 20"

section \<open>Accessors\<close>

definition options_mss :: "tcp_option list \<Rightarrow> int option" where
  "options_mss = find_opt (\<lambda>opt. case opt of OptMss mss \<Rightarrow> Some mss | _ \<Rightarrow> None)"

definition options_wscale :: "tcp_option list \<Rightarrow> int option" where
  "options_wscale = find_opt (\<lambda>opt. case opt of OptWscale wscale \<Rightarrow> Some wscale | _ \<Rightarrow> None)"

definition options_sackperm :: "tcp_option list \<Rightarrow> bool option" where
  "options_sackperm = find_opt (\<lambda>opt. case opt of OptSackperm \<Rightarrow> Some True | _ \<Rightarrow> None)"

definition options_sack :: "tcp_option list \<Rightarrow> (int \<times> int) list option" where
  "options_sack = find_opt (\<lambda>opt. case opt of OptSack blocks \<Rightarrow> Some blocks | _ \<Rightarrow> None)"

definition options_timestamps :: "tcp_option list \<Rightarrow> (int \<times> int) option" where
  "options_timestamps =
     find_opt (\<lambda>opt. case opt of OptTimestamps tsval tsecr \<Rightarrow> Some (tsval, tsecr) | _ \<Rightarrow> None)"

definition options_fastopen :: "tcp_option list \<Rightarrow> bytes option" where
  "options_fastopen = find_opt (\<lambda>opt. case opt of OptFastopen cookie \<Rightarrow> Some cookie | _ \<Rightarrow> None)"

definition options_accecn :: "tcp_option list \<Rightarrow> tcp_option option" where
  "options_accecn =
     find_opt (\<lambda>opt. case opt of OptAccecn0 _ _ _ \<Rightarrow> Some opt | OptAccecn1 _ _ _ \<Rightarrow> Some opt | _ \<Rightarrow> None)"

text \<open>The defaults of \<open>TcpOptionsProperties\<close> where an option is absent.\<close>

definition mss_property :: "tcp_option list \<Rightarrow> int" where
  "mss_property opts = (case options_mss opts of None \<Rightarrow> 536 | Some mss \<Rightarrow> mss)"

definition wscale_property :: "tcp_option list \<Rightarrow> int" where
  "wscale_property opts = (case options_wscale opts of None \<Rightarrow> 0 | Some wscale \<Rightarrow> wscale)"

definition sackperm_property :: "tcp_option list \<Rightarrow> bool" where
  "sackperm_property opts = (case options_sackperm opts of None \<Rightarrow> False | Some b \<Rightarrow> b)"

section \<open>Encoding and decoding one option\<close>

lemmas option_readers =
  eol_from_buffer_def nop_from_buffer_def mss_from_buffer_def wscale_from_buffer_def
  sackperm_from_buffer_def sack_from_buffer_def timestamps_from_buffer_def fastopen_from_buffer_def
  accecn0_from_buffer_def accecn1_from_buffer_def unknown_from_buffer_def unknown_integrity_def
  expect_type_def mss_integrity_def wscale_integrity_def timestamps_integrity_def fixed_integrity_def sackperm_integrity_def sack_integrity_def
  fastopen_integrity_def accecn_integrity_def

lemmas option_makers =
  mk_mss_def mk_wscale_def mk_sack_block_def mk_sack_def mk_timestamps_def mk_fastopen_def
  mk_accecn0_def mk_accecn1_def mk_unknown_def


lemma sack_blocks_packed:
  "list_all (\<lambda>(left, right). is_uint32 left \<and> is_uint32 right) blocks \<Longrightarrow>
   map_res sack_block_buffer blocks = Inr (map (\<lambda>b. to_bytes 4 (fst b) @ to_bytes 4 (snd b)) blocks)"
  by (rule map_res_Inr) (auto simp: sack_block_buffer_def list_all_iff is_uint32_def)

lemma sack_read_back:
  assumes "option_ok (OptSack blocks)" "option_buffer (OptSack blocks) = Inr bs"
  shows "sack_from_buffer (bs @ rest) = Inr (OptSack blocks) \<and> length bs = option_len (OptSack blocks) \<and>
    byte_at (bs @ rest) 0 = Inr 5 \<and> byte_at (bs @ rest) 1 = Inr (int (option_len (OptSack blocks)))"
proof -
  let ?f = "\<lambda>b :: int \<times> int. to_bytes 4 (fst b) @ to_bytes 4 (snd b)"
  have ok: "length blocks \<le> 4" "list_all (\<lambda>(left, right). is_uint32 left \<and> is_uint32 right) blocks"
    using assms(1) by auto
  define n where "n = length blocks"
  define v where "v = 2 + 8 * int n"
  have v: "is_uint8 v" using ok(1) by (simp add: is_uint8_def v_def n_def)
  have bs: "bs = word_of_int 5 # word_of_int v # concat (map ?f blocks)"
    using assms(2) ok v by (auto simp: sack_blocks_packed n_def [symmetric] v_def [symmetric] is_uint8_def)
  have len: "length (concat (map ?f blocks)) = 8 * n"
    by (simp add: n_def length_concat comp_def sum_list_triv)
  have "mk_sack_block (be_int (bslice (2 + 8 * i) (2 + 8 * i + 4) (bs @ rest)))
          (be_int (bslice (2 + 8 * i + 4) (2 + 8 * i + 8) (bs @ rest))) = Inr (blocks ! i)"
    if i: "i < n" for i
  proof -
    obtain tail where d: "drop (8 * i) (concat (map ?f blocks) @ rest) = ?f (blocks ! i) @ tail"
      using drop_chunks [of blocks ?f 8 i rest] i by (auto simp: n_def)
    have r: "is_uint32 (fst (blocks ! i))" "is_uint32 (snd (blocks ! i))"
      using ok(2) i by (simp_all add: list_all_length n_def case_prod_beta)
    have "drop (2 + 8 * i) (bs @ rest) = ?f (blocks ! i) @ tail"
      using d by (simp add: bs)
    then have "bslice (2 + 8 * i + a) (2 + 8 * i + b) (bs @ rest) = bslice a b (?f (blocks ! i) @ tail)" for a b
      by (simp only: bslice_drop)
    from this [of 0 4] this [of 4 8] show ?thesis
      using r by (simp add: wire_simps mk_sack_block_def be_int_to_bytes is_uint32_def)
  qed
  then have "map_res (\<lambda>offset.
           mk_sack_block (be_int (bslice (nat offset) (nat offset + 4) (bs @ rest)))
                         (be_int (bslice (nat offset + 4) (nat offset + 8) (bs @ rest))))
         (map (\<lambda>i. 2 + int i * 8) [0..<n]) = Inr (map ((!) blocks) [0..<n])"
    by (subst map_res_map) (auto intro: map_res_Inr simp: nat_add_distrib nat_mult_distrib mult.commute)
  then have blocks: "bind_res (map_res (\<lambda>offset.
           mk_sack_block (be_int (bslice (nat offset) (nat offset + 4) (bs @ rest)))
                         (be_int (bslice (nat offset + 4) (nat offset + 8) (bs @ rest))))
         (range_up 2 v 8)) mk_sack = Inr (OptSack blocks)"
    using ok(1) range_up_count [of 8 2 n] by (simp add: v_def mult.commute mk_sack_def n_def map_nth)
  have "byte_at (bs @ rest) 0 = Inr 5" "byte_at (bs @ rest) 1 = Inr v" "int (length (bs @ rest)) = v + int (length rest)"
    using uint_byte [OF v] len by (simp_all add: bs v_def)
  then show ?thesis
    using blocks ok(1) len by (simp add: sack_from_buffer_def expect_type_def sack_integrity_def v_def n_def bs)
qed


lemma accecn_buffer_cases:
  assumes "accecn_checks first eceb third" "accecn_buffer type first eceb third = Inr bs" "is_uint8 type"
  shows "length bs = accecn_len first eceb third \<and> byte_at (bs @ rest) 0 = Inr type \<and>
    byte_at (bs @ rest) 1 = Inr (int (accecn_len first eceb third)) \<and>
    counter_from (int (accecn_len first eceb third)) 5 2 5 (bs @ rest) = first \<and>
    counter_from (int (accecn_len first eceb third)) 8 5 8 (bs @ rest) = eceb \<and>
    counter_from (int (accecn_len first eceb third)) 11 8 11 (bs @ rest) = third"
  using assms
  by (auto simp: accecn_checks_def accecn_presence_def uint24_or_none_def accecn_buffer_def accecn_len_def
      counter_bytes_def int_to_bytes_def is_uint24_def uint_byte bslice_def counter_from_def be_int_to_bytes
      split: if_splits option.splits)

text \<open>Every constructible option encodes to \<open>option_len\<close> bytes, from which it is read back.\<close>

lemma option_read_back:
  assumes "option_ok opt" "option_buffer opt = Inr bs"
  shows "length bs = option_len opt \<and> option_from_buffer (bs @ rest) = Inr opt"
proof (cases opt)
  case (OptSack blocks)
  then show ?thesis
    using sack_read_back [of blocks bs rest] assms by (simp add: option_from_buffer_def option_kind OptSack)
next
  case (OptAccecn0 a b c)
  then show ?thesis
    using assms accecn_buffer_cases [of a b c 172 bs rest]
    by (auto simp: option_from_buffer_def option_kind option_readers option_makers is_uint8_def accecn_len_def
        accecn_integrity_def)
next
  case (OptAccecn1 a b c)
  then show ?thesis
    using assms accecn_buffer_cases [of c b a 174 bs rest]
    by (auto simp: option_from_buffer_def option_kind option_readers option_makers is_uint8_def accecn_len_def
        accecn_integrity_def)
next
  case OptEol
  then show ?thesis using assms by (auto simp: option_from_buffer_def option_readers bslice_def)
next
  case OptNop
  then show ?thesis using assms by (auto simp: option_from_buffer_def option_readers bslice_def)
next
  case (OptMss x3)
  then show ?thesis using assms by (auto simp: option_from_buffer_def option_readers bslice_def uint_checks option_makers be_int_to_bytes)
next
  case (OptWscale x4)
  then show ?thesis using assms by (auto simp: option_from_buffer_def option_readers bslice_def uint_checks option_makers uint_word_of_int)
next
  case OptSackperm
  then show ?thesis using assms by (auto simp: option_from_buffer_def option_readers bslice_def uint_checks option_makers)
next
  case (OptTimestamps x71 x72)
  then show ?thesis using assms by (auto simp: option_from_buffer_def option_readers bslice_def uint_checks option_makers struct_unpack_from_def calcsize_def be_int_to_bytes)
next
  case (OptFastopen cookie)
  note tlv = tlv_buffer [of 34 cookie bs rest]
  show ?thesis
    using assms tlv unfolding OptFastopen
    by (simp add: option_from_buffer_def option_kind option_readers option_makers Let_def nat_2_plus)
next
  case (OptUnknown type data)
  note tlv = tlv_buffer [of type data bs rest]
  show ?thesis
    using assms tlv unfolding OptUnknown
    by (simp add: option_from_buffer_def option_kind option_readers option_makers Let_def nat_2_plus known_option_types_def)
qed


lemma option_buffer_total: "option_ok opt \<Longrightarrow> \<exists>bs. option_buffer opt = Inr bs"
  by (cases opt)
    (auto simp: uint_checks sack_blocks_packed accecn_buffer_def accecn_checks_def counter_bytes_def
      uint24_or_none_def int_to_bytes_def split: option.splits)

text \<open>What the integrity walk reads at the head of an encoded option.\<close>

lemma option_head_encoded:
  assumes "option_ok opt" "option_buffer opt = Inr bs" "opt \<noteq> OptEol" "opt \<noteq> OptNop"
  shows "2 \<le> option_len opt \<and> byte_at (bs @ rest) 1 = Inr (int (option_len opt)) \<and>
    (\<exists>kind. byte_at (bs @ rest) 0 = Inr kind \<and> kind \<noteq> 0 \<and> kind \<noteq> 1)"
proof (cases opt)
  case (OptSack blocks)
  then show ?thesis using sack_read_back [of blocks bs rest] assms by simp
next
  case (OptAccecn0 a b c)
  then show ?thesis using accecn_buffer_cases [of a b c 172 bs rest] assms by (auto simp: is_uint8_def accecn_len_def)
next
  case (OptAccecn1 a b c)
  then show ?thesis using accecn_buffer_cases [of c b a 174 bs rest] assms by (auto simp: is_uint8_def accecn_len_def)
next
  case (OptFastopen cookie)
  then show ?thesis using tlv_buffer [of 34 cookie bs rest] assms by simp
next
  case (OptUnknown type data)
  then show ?thesis using tlv_buffer [of type data bs rest] assms by (auto simp: known_option_types_def)
qed (use assms in \<open>auto split: if_splits\<close>)

section \<open>Decoding arbitrary bytes\<close>

declare length_bslice [simp]

definition tlv_outcome :: "int \<Rightarrow> tcp_option res \<Rightarrow> bool" where
  "tlv_outcome value r \<longleftrightarrow> r = Inl IntegrityError \<or>
     (\<exists>opt. r = Inr opt \<and> option_ok opt \<and> option_len opt = nat value \<and> opt \<noteq> OptEol)"

lemma sack_outcome:
  assumes "byte_at buffer 0 = Inr 5" "byte_at buffer 1 = Inr value" "2 \<le> value" "value \<le> int (length buffer)"
  shows "tlv_outcome value (sack_from_buffer buffer)"
proof (cases "(value - 2) mod 8 = 0 \<and> (value - 2) div 8 \<le> 4")
  case True
  define n where "n = nat ((value - 2) div 8)"
  have v: "value = 2 + int n * 8" "n \<le> 4" using True assms(3) by (auto simp: n_def)
  define f where "f i = (be_int (bslice i (i + 4) buffer), be_int (bslice (i + 4) (i + 8) buffer))" for i
  have "map_res (\<lambda>offset. mk_sack_block (be_int (bslice (nat offset) (nat offset + 4) buffer))
      (be_int (bslice (nat offset + 4) (nat offset + 8) buffer))) (range_up 2 value 8) =
    Inr (map (\<lambda>offset. f (nat offset)) (range_up 2 value 8))"
    by (rule map_res_Inr) (auto simp: mk_sack_block_def f_def)
  moreover have "length (range_up 2 value 8) = n" using range_up_count [of 8 2 n] v(1) by simp
  moreover have "list_all (\<lambda>(left, right). is_uint32 left \<and> is_uint32 right) (map (\<lambda>offset. f (nat offset)) (range_up 2 value 8))"
    by (simp add: list_all_iff f_def)
  moreover have "sack_from_buffer buffer = Inr (OptSack (map (\<lambda>offset. f (nat offset)) (range_up 2 value 8)))"
    using assms True v(2) calculation(1,2)
    by (simp add: sack_from_buffer_def expect_type_def sack_integrity_def mk_sack_def)
  ultimately show ?thesis using v by (simp add: tlv_outcome_def nat_add_distrib nat_mult_distrib)
next
  case False
  then show ?thesis using assms
    by (auto simp: tlv_outcome_def sack_from_buffer_def expect_type_def sack_integrity_def)
qed


lemma option_outcome:
  assumes "byte_at buffer 0 = Inr kind" "kind \<noteq> 0" "kind \<noteq> 1"
    and "byte_at buffer 1 = Inr value" "2 \<le> value" "value \<le> int (length buffer)"
  shows "tlv_outcome value (option_from_buffer buffer)"
proof -
  have k: "is_uint8 kind" "is_uint8 value" using assms(1,4) by (auto simp: byte_at_def is_uint8_def split: if_splits)
  have l: "2 \<le> length buffer" using assms(5,6) by linarith
  have v: "Suc (Suc (nat value - 2)) = nat value" using assms(5) by linarith
  have d: "length (bslice 2 (nat value) buffer) = nat value - 2" using assms(6) by auto
  consider "kind = 2" | "kind = 3" | "kind = 4" | "kind = 5" | "kind = 8" | "kind = 34" | "kind = 172" | "kind = 174"
    | "kind \<notin> set known_option_types" using assms(2,3) by (auto simp: known_option_types_def)
  then show ?thesis
  proof cases
    case 1
    then show ?thesis using assms l
      by (simp add: option_from_buffer_def option_kind option_readers option_makers tlv_outcome_def)
  next
    case 2
    then show ?thesis using assms l
      by (auto simp: option_from_buffer_def option_kind option_readers option_makers tlv_outcome_def byte_at_def is_uint8_def)
  next
    case 3
    then show ?thesis using assms l
      by (simp add: option_from_buffer_def option_kind option_readers tlv_outcome_def)
  next
    case 4
    then show ?thesis using sack_outcome [of buffer "value"] assms by (simp add: option_from_buffer_def option_kind)
  next
    case 5
    then show ?thesis using assms l
      by (auto simp: option_from_buffer_def option_kind option_readers option_makers tlv_outcome_def
          struct_unpack_from_def calcsize_def)
  next
    case 6
    then show ?thesis using assms l d
      by (auto simp: option_from_buffer_def option_kind option_readers option_makers tlv_outcome_def Let_def)
  next
    case 7
    then show ?thesis using assms l
      by (auto simp: option_from_buffer_def option_kind option_readers option_makers tlv_outcome_def Let_def
          counter_from_def accecn_checks_def accecn_presence_def uint24_or_none_def accecn_len_def)
  next
    case 8
    then show ?thesis using assms l
      by (auto simp: option_from_buffer_def option_kind option_readers option_makers tlv_outcome_def Let_def
          counter_from_def accecn_checks_def accecn_presence_def uint24_or_none_def accecn_len_def)
  next
    case 9
    then show ?thesis using assms l d k v
      by (auto simp: option_from_buffer_def option_kind option_readers option_makers tlv_outcome_def
          known_option_types_def is_uint8_def)
  qed
qed

interpretation tcp_opts: tlv_options option_ok option_buffer option_from_buffer option_len
  "\<lambda>opt. opt = OptEol" options_loop OptEol OptNop "\<lambda>e _. e = IntegrityError"
proof
  fix opt bs rest
  assume ok: "option_ok opt"
  then show "\<exists>bs. option_buffer opt = Inr bs \<and> length bs = option_len opt"
    using option_buffer_total option_read_back by blast
  assume enc: "option_buffer opt = Inr bs"
  then show "option_from_buffer (bs @ rest) = Inr opt" using ok option_read_back by blast
  assume "opt \<noteq> OptEol" "opt \<noteq> OptNop"
  then show "2 \<le> option_len opt \<and> byte_at (bs @ rest) 1 = Inr (int (option_len opt)) \<and>
      (\<exists>kind. byte_at (bs @ rest) 0 = Inr kind \<and> kind \<noteq> 0 \<and> kind \<noteq> 1)"
    using option_head_encoded [OF ok enc] by blast
next
  fix buf kind v
  assume "byte_at buf 0 = Inr kind" "kind \<noteq> 0" "kind \<noteq> 1" "byte_at buf 1 = Inr v" "2 \<le> v" "v \<le> int (length buf)"
  then have "tlv_outcome v (option_from_buffer buf)" by (rule option_outcome)
  then show "(\<exists>e. option_from_buffer buf = Inl e \<and> e = IntegrityError) \<or>
      (\<exists>x. option_from_buffer buf = Inr x \<and> option_ok x \<and> option_len x = nat v \<and> x \<noteq> OptEol)"
    by (simp add: tlv_outcome_def)
qed (rule options_loop.simps | simp)+

end
