(* ===== verification/Tcp_Codec.thy ===== *)
theory Tcp_Codec
  imports Tcp_Options
begin

text \<open>
  \<^verbatim>\<open>pmd_net_proto/protocols/tcp/\<close>: the TCP header (\<^verbatim>\<open>tcp__header.py\<close>), the assembler and the parser.
  A received frame is a byte string with the payload length and the pseudo-header sum its IP
  header gave; the parser validates, parses and checks it, and every exception it raises is a
  value of the result.
\<close>

section \<open>The header\<close>

record tcp_header =
  h_sport :: int
  h_dport :: int
  h_seq :: int
  h_ack :: int
  h_hlen :: int
  h_flag_ns :: bool
  h_flag_cwr :: bool
  h_flag_ece :: bool
  h_flag_urg :: bool
  h_flag_ack :: bool
  h_flag_psh :: bool
  h_flag_rst :: bool
  h_flag_syn :: bool
  h_flag_fin :: bool
  h_win :: int
  h_cksum :: int
  h_urg :: int

definition header_ok :: "tcp_header \<Rightarrow> bool" where
  "header_ok h \<longleftrightarrow>
     is_uint16 (h_sport h) \<and> is_uint16 (h_dport h) \<and> is_uint32 (h_seq h) \<and> is_uint32 (h_ack h) \<and>
     is_uint6 (h_hlen h) \<and> is_4_byte_alligned (h_hlen h) \<and>
     is_uint16 (h_win h) \<and> is_uint16 (h_cksum h) \<and> is_uint16 (h_urg h)"

definition mk_tcp_header :: "tcp_header \<Rightarrow> tcp_header res" where
  "mk_tcp_header h = passert (header_ok h) (Inr h)"

definition header_fmt :: "wire_fmt list" where
  "header_fmt = [Fmt_H, Fmt_H, Fmt_L, Fmt_L, Fmt_H, Fmt_H, Fmt_H, Fmt_H]"

definition hlen__flags :: "tcp_header \<Rightarrow> int" where
  "hlen__flags h =
     push_bit 10 (h_hlen h)
     OR push_bit 8 (of_bool (h_flag_ns h))
     OR push_bit 7 (of_bool (h_flag_cwr h))
     OR push_bit 6 (of_bool (h_flag_ece h))
     OR push_bit 5 (of_bool (h_flag_urg h))
     OR push_bit 4 (of_bool (h_flag_ack h))
     OR push_bit 3 (of_bool (h_flag_psh h))
     OR push_bit 2 (of_bool (h_flag_rst h))
     OR push_bit 1 (of_bool (h_flag_syn h))
     OR of_bool (h_flag_fin h)"

definition header_buffer :: "tcp_header \<Rightarrow> bytes res" where
  "header_buffer h =
     struct_pack (zip header_fmt
       [h_sport h, h_dport h, h_seq h, h_ack h, hlen__flags h, h_win h, 0, h_urg h])"

definition header_from_buffer :: "bytes \<Rightarrow> tcp_header res" where
  "header_from_buffer buffer =
     bind_res (struct_unpack header_fmt (take 20 buffer)) (\<lambda>fields.
       let hlen__flags = fields ! 4 in
       mk_tcp_header
         \<lparr> h_sport = fields ! 0, h_dport = fields ! 1, h_seq = fields ! 2, h_ack = fields ! 3,
           h_hlen = drop_bit 10 (hlen__flags AND 0xF000),
           h_flag_ns = (hlen__flags AND 0x100 \<noteq> 0),
           h_flag_cwr = (hlen__flags AND 0x80 \<noteq> 0),
           h_flag_ece = (hlen__flags AND 0x40 \<noteq> 0),
           h_flag_urg = (hlen__flags AND 0x20 \<noteq> 0),
           h_flag_ack = (hlen__flags AND 0x10 \<noteq> 0),
           h_flag_psh = (hlen__flags AND 0x08 \<noteq> 0),
           h_flag_rst = (hlen__flags AND 0x04 \<noteq> 0),
           h_flag_syn = (hlen__flags AND 0x02 \<noteq> 0),
           h_flag_fin = (hlen__flags AND 0x01 \<noteq> 0),
           h_win = fields ! 5, h_cksum = fields ! 6, h_urg = fields ! 7 \<rparr>)"

section \<open>The assembler\<close>

record tcp_packet =
  seg_header :: tcp_header
  seg_options :: "tcp_option list"
  seg_payload :: bytes

text \<open>
  \<open>TcpAssembler.__init__\<close>: the header arguments are the fields of \<open>args\<close>, of which the header
  length and the checksum are replaced.
\<close>

definition tcp_assembler :: "tcp_header \<Rightarrow> tcp_option list \<Rightarrow> bytes \<Rightarrow> tcp_packet res" where
  "tcp_assembler args opts payload =
     passert (options_len opts \<le> 40)
       (passert (is_4_byte_alligned (int (options_len opts)))
         (passert (OptEol \<notin> set opts \<or> last opts = OptEol)
           (bind_res (mk_tcp_header (args \<lparr>h_hlen := 20 + int (options_len opts), h_cksum := 0\<rparr>)) (\<lambda>header.
              Inr \<lparr>seg_header = header, seg_options = opts, seg_payload = payload\<rparr>))))"

text \<open>\<open>b[16:18] = c\<close> for a two-byte \<open>c\<close>.\<close>

definition put_cksum :: "bytes \<Rightarrow> bytes \<Rightarrow> bytes" where
  "put_cksum b c = take 16 b @ c @ drop 18 b"

definition assemble :: "tcp_packet \<Rightarrow> int \<Rightarrow> bytes list res" where
  "assemble seg pshdr_sum =
     bind_res (header_buffer (seg_header seg)) (\<lambda>header.
     bind_res (options_buffer (seg_options seg)) (\<lambda>opts.
     bind_res (int_to_bytes 2 (inet_cksum [header, opts, seg_payload seg] pshdr_sum)) (\<lambda>cksum.
       Inr [put_cksum header cksum, opts, seg_payload seg])))"

text \<open>\<open>Tcp.__buffer__\<close> and \<open>Tcp.__len__\<close> of \<^verbatim>\<open>tcp__base.py\<close>.\<close>

definition segment_buffer :: "tcp_packet \<Rightarrow> int \<Rightarrow> bytes res" where
  "segment_buffer seg pshdr_sum =
     bind_res (header_buffer (seg_header seg)) (\<lambda>header.
     bind_res (options_buffer (seg_options seg)) (\<lambda>opts.
     let buffer = header @ opts @ seg_payload seg in
     bind_res (int_to_bytes 2 (inet_cksum [buffer] pshdr_sum)) (\<lambda>cksum.
       Inr (put_cksum buffer cksum))))"

definition segment_len :: "tcp_packet \<Rightarrow> nat" where
  "segment_len seg = 20 + options_len (seg_options seg) + length (seg_payload seg)"

section \<open>The parser\<close>

definition tcp_validate_integrity :: "bytes \<Rightarrow> int \<Rightarrow> int \<Rightarrow> bool \<Rightarrow> unit res" where
  "tcp_validate_integrity frame ip__payload_len ip__pshdr_sum validate_checksum =
     (if \<not> (20 \<le> ip__payload_len \<and> ip__payload_len \<le> int (length frame)) then Inl IntegrityError
      else bind_res (byte_at frame 12) (\<lambda>b.
        let hlen = drop_bit 2 (b AND 0xF0) in
        if \<not> (20 \<le> hlen \<and> hlen \<le> ip__payload_len \<and> ip__payload_len \<le> int (length frame)) then Inl IntegrityError
        else if validate_checksum \<and> inet_cksum [take (nat ip__payload_len) frame] ip__pshdr_sum \<noteq> 0
        then Inl IntegrityError
        else options_validate_integrity frame (nat hlen)))"

definition tcp_parse :: "bytes \<Rightarrow> int \<Rightarrow> tcp_packet res" where
  "tcp_parse frame ip__payload_len =
     bind_res (header_from_buffer frame) (\<lambda>header.
     bind_res (options_from_buffer (bslice 20 (nat (h_hlen header)) frame)) (\<lambda>opts.
       Inr \<lparr>seg_header = header, seg_options = opts,
            seg_payload = bslice (nat (h_hlen header)) (nat ip__payload_len) frame\<rparr>))"

definition tcp_validate_sanity :: "tcp_header \<Rightarrow> unit res" where
  "tcp_validate_sanity h =
     (if h_sport h = 0 then Inl SanityError
      else if h_dport h = 0 then Inl SanityError
      else if h_flag_syn h \<and> h_flag_fin h then Inl SanityError
      else if h_flag_syn h \<and> h_flag_rst h then Inl SanityError
      else if h_flag_fin h \<and> h_flag_rst h then Inl SanityError
      else if h_flag_fin h \<and> \<not> h_flag_ack h then Inl SanityError
      else Inr ())"

text \<open>The whole constructor: the segment, and what is left of \<open>packet_rx.frame\<close>.\<close>

definition tcp_parser :: "bytes \<Rightarrow> int \<Rightarrow> int \<Rightarrow> bool \<Rightarrow> (tcp_packet \<times> bytes) res" where
  "tcp_parser frame ip__payload_len ip__pshdr_sum validate_checksum =
     bind_res (tcp_validate_integrity frame ip__payload_len ip__pshdr_sum validate_checksum) (\<lambda>_.
     bind_res (tcp_parse frame ip__payload_len) (\<lambda>seg.
     bind_res (tcp_validate_sanity (seg_header seg)) (\<lambda>_.
       Inr (seg, drop (nat (h_hlen (seg_header seg))) frame))))"

section \<open>The flags word\<close>

lemma hlen_bits:
  assumes "is_uint6 n" "is_4_byte_alligned n"
  obtains k where "n = push_bit 2 (take_bit 4 k)"
proof
  show "n = push_bit 2 (take_bit 4 (n div 4))"
    using assms by (auto simp: is_uint6_def is_4_byte_alligned_def push_bit_eq_mult take_bit_eq_mod)
qed

lemma hlen__flags_fields:
  assumes "header_ok h"
  shows "0 \<le> hlen__flags h" "hlen__flags h < 65536"
    "drop_bit 10 (hlen__flags h AND 0xF000) = h_hlen h"
    "hlen__flags h AND 0x100 \<noteq> 0 \<longleftrightarrow> h_flag_ns h"
    "hlen__flags h AND 0x80 \<noteq> 0 \<longleftrightarrow> h_flag_cwr h"
    "hlen__flags h AND 0x40 \<noteq> 0 \<longleftrightarrow> h_flag_ece h"
    "hlen__flags h AND 0x20 \<noteq> 0 \<longleftrightarrow> h_flag_urg h"
    "hlen__flags h AND 0x10 \<noteq> 0 \<longleftrightarrow> h_flag_ack h"
    "hlen__flags h AND 0x08 \<noteq> 0 \<longleftrightarrow> h_flag_psh h"
    "hlen__flags h AND 0x04 \<noteq> 0 \<longleftrightarrow> h_flag_rst h"
    "hlen__flags h AND 0x02 \<noteq> 0 \<longleftrightarrow> h_flag_syn h"
    "hlen__flags h AND 0x01 \<noteq> 0 \<longleftrightarrow> h_flag_fin h"
proof -
  obtain k where k: "h_hlen h = push_bit 2 (take_bit 4 k)"
    using assms hlen_bits [of "h_hlen h"] by (auto simp: header_ok_def)
  have flag: "x AND 2 ^ n \<noteq> 0 \<longleftrightarrow> bit x n" for x :: int and n
    by (simp add: and_exp_eq_0_iff_not_bit)
  show "hlen__flags h AND 0x100 \<noteq> 0 \<longleftrightarrow> h_flag_ns h"
    using flag [of "hlen__flags h" 8] by (simp add: hlen__flags_def bit_simps)
  show "hlen__flags h AND 0x80 \<noteq> 0 \<longleftrightarrow> h_flag_cwr h"
    using flag [of "hlen__flags h" 7] by (simp add: hlen__flags_def bit_simps)
  show "hlen__flags h AND 0x40 \<noteq> 0 \<longleftrightarrow> h_flag_ece h"
    using flag [of "hlen__flags h" 6] by (simp add: hlen__flags_def bit_simps)
  show "hlen__flags h AND 0x20 \<noteq> 0 \<longleftrightarrow> h_flag_urg h"
    using flag [of "hlen__flags h" 5] by (simp add: hlen__flags_def bit_simps)
  show "hlen__flags h AND 0x10 \<noteq> 0 \<longleftrightarrow> h_flag_ack h"
    using flag [of "hlen__flags h" 4] by (simp add: hlen__flags_def bit_simps)
  show "hlen__flags h AND 0x08 \<noteq> 0 \<longleftrightarrow> h_flag_psh h"
    using flag [of "hlen__flags h" 3] by (simp add: hlen__flags_def bit_simps)
  show "hlen__flags h AND 0x04 \<noteq> 0 \<longleftrightarrow> h_flag_rst h"
    using flag [of "hlen__flags h" 2] by (simp add: hlen__flags_def bit_simps)
  show "hlen__flags h AND 0x02 \<noteq> 0 \<longleftrightarrow> h_flag_syn h"
    using flag [of "hlen__flags h" 1] by (simp add: hlen__flags_def bit_simps)
  show "hlen__flags h AND 0x01 \<noteq> 0 \<longleftrightarrow> h_flag_fin h"
    using flag [of "hlen__flags h" 0] by (simp add: hlen__flags_def bit_simps)
  have m: "0xF000 = push_bit 12 (mask 4 :: int)" by (simp add: mask_eq_exp_minus_1 push_bit_eq_mult)
  show "drop_bit 10 (hlen__flags h AND 0xF000) = h_hlen h"
    unfolding m by (rule bit_eqI) (auto simp: hlen__flags_def k bit_simps)
  have b: "take_bit 16 (push_bit n (of_bool c)) = push_bit n (of_bool c :: int)" if "n < 16" for n c
    using that by (simp add: take_bit_push_bit)
  have t: "take_bit 16 (hlen__flags h) = hlen__flags h"
    using b [of 0] by (simp add: hlen__flags_def k b take_bit_push_bit del: push_bit_of_Suc_0)
  show "0 \<le> hlen__flags h" "hlen__flags h < 65536"
    using take_bit_nonnegative [of 16 "hlen__flags h"] take_bit_int_less_exp [of 16 "hlen__flags h"]
    unfolding t by simp_all
qed

text \<open>The header is read back from its encoding, with the checksum field of the bytes.\<close>

lemma header_buffer_total: "header_ok h \<Longrightarrow> \<exists>bs. header_buffer h = Inr bs \<and> length bs = 20"
  using hlen__flags_fields(1,2) [of h]
  by (simp add: header_buffer_def header_fmt_def header_ok_def uint_checks)

lemma header_read_back:
  assumes "header_ok h" "header_buffer h = Inr bs" "is_uint16 ck"
  shows "header_from_buffer (put_cksum bs (to_bytes 2 ck) @ rest) = Inr (h\<lparr>h_cksum := ck\<rparr>)"
proof -
  let ?vals = "[h_sport h, h_dport h, h_seq h, h_ack h, hlen__flags h, h_win h, ck, h_urg h]"
  have "struct_pack (zip header_fmt ?vals) = Inr (put_cksum bs (to_bytes 2 ck))"
    using assms hlen__flags_fields(1,2) [OF assms(1)]
    by (auto simp: header_buffer_def header_fmt_def header_ok_def uint_checks put_cksum_def split: if_splits)
  then have u: "unpack_fields header_fmt (put_cksum bs (to_bytes 2 ck)) = ?vals"
      and l: "length (put_cksum bs (to_bytes 2 ck)) = 20"
    using unpack_fields_pack [of "zip header_fmt ?vals" _ "[]"] struct_pack_length [of "zip header_fmt ?vals"]
    by (simp_all add: header_fmt_def calcsize_def)
  have f: "struct_unpack header_fmt (take 20 (put_cksum bs (to_bytes 2 ck) @ rest)) = Inr ?vals"
    using u l by (simp add: struct_unpack_def calcsize_def header_fmt_def)
  have n: "?vals ! 0 = h_sport h" "?vals ! 1 = h_dport h" "?vals ! 2 = h_seq h" "?vals ! 3 = h_ack h"
      "?vals ! 4 = hlen__flags h" "?vals ! 5 = h_win h" "?vals ! 6 = ck" "?vals ! 7 = h_urg h" by simp_all
  have "header_from_buffer (put_cksum bs (to_bytes 2 ck) @ rest) = mk_tcp_header (h\<lparr>h_cksum := ck\<rparr>)"
    unfolding header_from_buffer_def f bind_res.simps Let_def n hlen__flags_fields [OF assms(1)] by (cases h) simp
  then show ?thesis using assms(1,3) by (simp add: mk_tcp_header_def header_ok_def)
qed


text \<open>Any twenty bytes are a header.\<close>

lemma and_high_nibble: "x AND push_bit n (mask 4) = push_bit n (take_bit 4 (drop_bit n x))" for x :: int
  by (rule bit_eqI) (auto simp: bit_simps)

lemma hlen_from_word: "drop_bit 10 (x AND 0xF000) = 4 * (x div 4096 mod 16)" for x :: int
  using and_high_nibble [of x 12]
  by (simp add: mask_eq_exp_minus_1 push_bit_eq_mult take_bit_eq_mod drop_bit_eq_div)

lemma hlen_from_byte: "drop_bit 2 (x AND 0xF0) = 4 * (x div 16 mod 16)" for x :: int
  using and_high_nibble [of x 4]
  by (simp add: mask_eq_exp_minus_1 push_bit_eq_mult take_bit_eq_mod drop_bit_eq_div)

lemma header_from_buffer_total:
  assumes "20 \<le> length frame"
  shows "\<exists>h. header_from_buffer frame = Inr h \<and> header_ok h \<and> h_hlen h = drop_bit 2 (uint (frame ! 12) AND 0xF0)"
proof -
  let ?f = "unpack_fields header_fmt (take 20 frame)"
  have f: "struct_unpack header_fmt (take 20 frame) = Inr ?f"
    using assms by (simp add: struct_unpack_def calcsize_def header_fmt_def)
  have w: "take 2 (drop 12 (take 20 frame)) = [frame ! 12, frame ! 13]"
    using assms by (simp add: take_Suc_conv_app_nth numeral_2_eq_2 Cons_nth_drop_Suc [symmetric])
  have n4: "?f ! 4 = uint (frame ! 12) * 256 + uint (frame ! 13)"
    using w by (simp add: header_fmt_def be_int_def)
  have "(uint (frame ! 12) * 256 + uint (frame ! 13)) div 4096 = uint (frame ! 12) div 16"
    using zdiv_zmult2_eq [of 16 "uint (frame ! 12) * 256 + uint (frame ! 13)" 256] uint8_range [of "frame ! 13"]
    by simp
  then have h: "drop_bit 10 (?f ! 4 AND 0xF000) = drop_bit 2 (uint (frame ! 12) AND 0xF0)"
    unfolding hlen_from_word hlen_from_byte n4 by simp
  have ok: "is_uint16 (?f ! 0)" "is_uint16 (?f ! 1)" "is_uint32 (?f ! 2)" "is_uint32 (?f ! 3)"
      "is_uint16 (?f ! 5)" "is_uint16 (?f ! 6)" "is_uint16 (?f ! 7)"
    by (simp_all add: header_fmt_def)
  have "is_uint6 (drop_bit 2 (uint (frame ! 12) AND 0xF0))" "is_4_byte_alligned (drop_bit 2 (uint (frame ! 12) AND 0xF0))"
    unfolding hlen_from_byte by (auto simp: is_uint6_def is_4_byte_alligned_def)
  then show ?thesis
    unfolding header_from_buffer_def f bind_res.simps Let_def h mk_tcp_header_def passert_eq_Inr
    using ok by (simp add: header_ok_def)
qed


section \<open>Checksums of assembled segments\<close>

lemma length_put_cksum: "length bs = 20 \<Longrightarrow> length (put_cksum bs (to_bytes 2 ck)) = 20"
  by (simp add: put_cksum_def)

lemma put_cksum_at: "length c = 2 \<Longrightarrow> put_cksum b c = put_at 16 c b"
  by (simp add: put_cksum_def put_at_def)

text \<open>The checksum the assembler writes is the one RFC 1071 asks for.\<close>

definition sum_exact :: "tcp_packet \<Rightarrow> int \<Rightarrow> bool" where
  "sum_exact seg pshdr_sum =
     (case (header_buffer (seg_header seg), options_buffer (seg_options seg)) of
        (Inr header, Inr opts) \<Rightarrow>
          inet_cksum [header, opts, seg_payload seg] pshdr_sum =
          rfc1071 (header @ opts @ seg_payload seg) pshdr_sum
      | _ \<Rightarrow> False)"

definition segment_ok :: "tcp_packet \<Rightarrow> bool" where
  "segment_ok seg \<longleftrightarrow> header_ok (seg_header seg) \<and> list_all option_ok (seg_options seg) \<and>
     OptEol \<notin> set (butlast (seg_options seg)) \<and>
     h_hlen (seg_header seg) = 20 + int (options_len (seg_options seg))"

lemma options_buffer_total:
  assumes "list_all option_ok opts"
  obtains bss where "map_res option_buffer opts = Inr bss" "options_buffer opts = Inr (concat bss)"
    "length (concat bss) = options_len opts"
  using tcp_opts.encs_total [OF assms] by (auto simp: options_buffer_def options_len_def)

lemma assemble_total:
  assumes "segment_ok seg"
  obtains hdr bss where "header_buffer (seg_header seg) = Inr hdr" "length hdr = 20" "bslice 16 18 hdr = [0, 0]"
    "map_res option_buffer (seg_options seg) = Inr bss" "options_buffer (seg_options seg) = Inr (concat bss)"
    "length (concat bss) = options_len (seg_options seg)"
    "assemble seg psum = Inr [put_cksum hdr (to_bytes 2 (inet_cksum [hdr, concat bss, seg_payload seg] psum)),
       concat bss, seg_payload seg]"
proof -
  obtain hdr where h: "header_buffer (seg_header seg) = Inr hdr" "length hdr = 20"
    using header_buffer_total assms by (auto simp: segment_ok_def)
  obtain bss where b: "map_res option_buffer (seg_options seg) = Inr bss"
      "options_buffer (seg_options seg) = Inr (concat bss)" "length (concat bss) = options_len (seg_options seg)"
    using options_buffer_total assms by (auto simp: segment_ok_def)
  have z: "bslice 16 18 hdr = [0, 0]"
    using h(1) by (auto simp: header_buffer_def header_fmt_def bslice_def numeral_2_eq_2 split: if_splits)
  show ?thesis
    using inet_cksum_uint16 [of "[hdr, concat bss, seg_payload seg]" psum]
    by (intro that [OF h z b]) (simp add: assemble_def h b int_to_bytes_def is_uint16_def)
qed


lemma segment_sum:
  assumes "segment_ok seg" "0 \<le> psum" "psum < 2 ^ 96" "segment_len seg < 2 ^ 32"
    and h: "header_buffer (seg_header seg) = Inr hdr" "length hdr = 20" "bslice 16 18 hdr = [0, 0]"
    and b: "options_buffer (seg_options seg) = Inr ob" "length ob = options_len (seg_options seg)"
    and ck: "ck = inet_cksum [hdr, ob, seg_payload seg] psum"
  shows "inet_cksum [put_cksum hdr (to_bytes 2 ck) @ ob @ seg_payload seg] psum = 0 \<longleftrightarrow> sum_exact seg psum"
proof -
  have "even (length ob)"
    using assms(1) b(2) by (auto simp: segment_ok_def header_ok_def is_4_byte_alligned_def) presburger
  then show ?thesis
    using cksum_completed [of 16 hdr "[ob, seg_payload seg]" psum ck] assms
    by (simp add: put_cksum_at sum_exact_def segment_len_def)
qed

text \<open>What the sanity checks leave.\<close>

definition header_sane :: "tcp_header \<Rightarrow> bool" where
  "header_sane h \<longleftrightarrow> h_sport h \<noteq> 0 \<and> h_dport h \<noteq> 0 \<and>
     \<not> (h_flag_syn h \<and> h_flag_fin h) \<and> \<not> (h_flag_syn h \<and> h_flag_rst h) \<and>
     \<not> (h_flag_fin h \<and> h_flag_rst h) \<and> (h_flag_fin h \<longrightarrow> h_flag_ack h)"

lemma sanity_outcome: "tcp_validate_sanity h = (if header_sane h then Inr () else Inl SanityError)"
  by (auto simp: tcp_validate_sanity_def header_sane_def)

lemma assembled_parses:
  assumes "segment_ok seg" "0 \<le> psum" "psum < 2 ^ 96" "segment_len seg < 2 ^ 32"
  obtains bufs ck where "assemble seg psum = Inr bufs"
    "tcp_parser (concat bufs @ trailer) (int (segment_len seg)) psum True =
       (if \<not> sum_exact seg psum then Inl IntegrityError
        else if \<not> header_sane (seg_header seg) then Inl SanityError
        else Inr (seg\<lparr>seg_header := (seg_header seg)\<lparr>h_cksum := ck\<rparr>\<rparr>, seg_payload seg @ trailer))"
proof -
  obtain hdr bss where a: "header_buffer (seg_header seg) = Inr hdr" "length hdr = 20" "bslice 16 18 hdr = [0, 0]"
    "map_res option_buffer (seg_options seg) = Inr bss" "options_buffer (seg_options seg) = Inr (concat bss)"
    "length (concat bss) = options_len (seg_options seg)"
    "assemble seg psum = Inr [put_cksum hdr (to_bytes 2 (inet_cksum [hdr, concat bss, seg_payload seg] psum)),
       concat bss, seg_payload seg]"
    using assemble_total [OF assms(1)] by blast
  define ck where "ck = inet_cksum [hdr, concat bss, seg_payload seg] psum"
  let ?h = "put_cksum hdr (to_bytes 2 ck)"
  let ?frame = "?h @ concat bss @ seg_payload seg @ trailer"
  let ?H = "(seg_header seg)\<lparr>h_cksum := ck\<rparr>"
  let ?hlen = "20 + options_len (seg_options seg)"
  have ok: "header_ok (seg_header seg)" "list_all option_ok (seg_options seg)"
      "list_all (\<lambda>opt. opt \<noteq> OptEol) (butlast (seg_options seg))" "h_hlen (seg_header seg) = int ?hlen"
    using assms(1) by (auto simp: segment_ok_def list_all_iff)
  have l: "length ?h = 20" using a(2) by (simp add: put_cksum_def)
  have H: "header_from_buffer ?frame = Inr ?H"
    using header_read_back [OF ok(1) a(1), of ck] inet_cksum_uint16 by (simp add: ck_def)
  then have hlen: "drop_bit 2 (uint (?frame ! 12) AND 0xF0) = int ?hlen"
    using header_from_buffer_total [of ?frame] l ok(4) by simp
  have "20 \<le> length ?frame" using l by simp
  then have b12: "byte_at ?frame 12 = Inr (uint (?frame ! 12))" unfolding byte_at_def by simp
  have walk: "options_validate_integrity ?frame ?hlen = Inr ()"
    using tcp_opts.walk_encoded [OF ok(2) a(4), of ?hlen ?h "seg_payload seg @ trailer"] l a(6)
    by (simp add: options_validate_integrity_def)
  have sum: "take (segment_len seg) ?frame = ?h @ concat bss @ seg_payload seg"
    using l a(6) by (simp add: segment_len_def)
  have len: "segment_len seg \<le> length ?frame" "?hlen \<le> segment_len seg"
    using l a(6) by (simp_all add: segment_len_def)
  have "inet_cksum [take (segment_len seg) ?frame] psum = 0 \<longleftrightarrow> sum_exact seg psum"
    unfolding sum using segment_sum [OF assms(1-4) a(1-3,5,6) ck_def] by simp
  then have integrity: "tcp_validate_integrity ?frame (int (segment_len seg)) psum True =
      (if sum_exact seg psum then Inr () else Inl IntegrityError)"
    unfolding tcp_validate_integrity_def b12 bind_res.simps Let_def hlen nat_int
    using len walk by (simp add: of_nat_le_iff [symmetric] del: of_nat_le_iff of_nat_add)
  have opts: "bslice 20 ?hlen ?frame = concat bss" "options_from_buffer (concat bss) = Inr (seg_options seg)"
    using l a(6) tcp_opts.loop_encoded [OF ok(2,3) a(4), of "[]" "[]"]
    by (simp_all add: bslice_def options_from_buffer_def)
  have parse: "tcp_parse ?frame (int (segment_len seg)) = Inr (seg\<lparr>seg_header := ?H\<rparr>)"
  proof -
    have "nat (h_hlen ?H) = ?hlen" using ok(4) by simp
    moreover have "bslice ?hlen (segment_len seg) ?frame = seg_payload seg"
      using l a(6) by (simp add: bslice_def segment_len_def)
    ultimately have "tcp_parse ?frame (int (segment_len seg)) =
        Inr \<lparr>seg_header = ?H, seg_options = seg_options seg, seg_payload = seg_payload seg\<rparr>"
      unfolding tcp_parse_def H bind_res.simps nat_int by (simp only: opts bind_res.simps)
    then show ?thesis by simp
  qed
  have sane: "tcp_validate_sanity ?H = (if header_sane (seg_header seg) then Inr () else Inl SanityError)"
    by (simp add: sanity_outcome header_sane_def)
  show ?thesis
  proof (rule that [OF a(7)])
    have "drop (nat (h_hlen ?H)) ?frame = seg_payload seg @ trailer"
      using l a(6) ok(4) by (simp add: nat_add_distrib)
    then show "tcp_parser (concat [put_cksum hdr (to_bytes 2 (inet_cksum [hdr, concat bss, seg_payload seg] psum)),
          concat bss, seg_payload seg] @ trailer) (int (segment_len seg)) psum True =
       (if \<not> sum_exact seg psum then Inl IntegrityError else if \<not> header_sane (seg_header seg) then Inl SanityError
        else Inr (seg\<lparr>seg_header := ?H\<rparr>, seg_payload seg @ trailer))"
      using integrity parse sane by (simp add: tcp_parser_def ck_def [symmetric] del: bind_res_eq_Inr)
  qed
qed


section \<open>Parsing arbitrary bytes\<close>

text \<open>The header length the received bytes declare.\<close>

definition declared_hlen :: "bytes \<Rightarrow> int" where
  "declared_hlen frame = drop_bit 2 (uint (frame ! 12) AND 0xF0)"

lemma integrity_eq:
  "tcp_validate_integrity frame plen psum validate =
     (if 20 \<le> plen \<and> plen \<le> int (length frame) \<and> 20 \<le> declared_hlen frame \<and> declared_hlen frame \<le> plen \<and>
         (validate \<longrightarrow> inet_cksum [take (nat plen) frame] psum = 0)
      then options_walk frame (nat (declared_hlen frame)) 20 else Inl IntegrityError)"
proof (cases "20 \<le> plen \<and> plen \<le> int (length frame)")
  case True
  then have "byte_at frame 12 = Inr (uint (frame ! 12))" by (simp add: byte_at_def)
  then show ?thesis
    unfolding tcp_validate_integrity_def options_validate_integrity_def Let_def
    using True by (simp only: bind_res.simps declared_hlen_def [symmetric]) auto
qed (auto simp: tcp_validate_integrity_def)

text \<open>A frame that passes the integrity checks parses, or one of its options is malformed.\<close>

lemma parse_outcome:
  assumes "tcp_validate_integrity frame plen psum validate = Inr ()"
  shows "tcp_parse frame plen = Inl IntegrityError \<or>
    (\<exists>seg. tcp_parse frame plen = Inr seg \<and> header_ok (seg_header seg) \<and> list_all option_ok (seg_options seg) \<and>
       20 + int (options_len (seg_options seg)) \<le> h_hlen (seg_header seg) \<and> h_hlen (seg_header seg) \<le> plen \<and>
       int (length (seg_payload seg)) = plen - h_hlen (seg_header seg) \<and>
       seg_payload seg = take (nat (plen - h_hlen (seg_header seg))) (drop (nat (h_hlen (seg_header seg))) frame))"
proof -
  define hlen where "hlen = declared_hlen frame"
  have i: "20 \<le> hlen" "hlen \<le> plen" "plen \<le> int (length frame)" "options_walk frame (nat hlen) 20 = Inr ()"
    using assms unfolding integrity_eq hlen_def [symmetric] by (auto split: if_splits)
  obtain h where h: "header_from_buffer frame = Inr h" "header_ok h" "h_hlen h = hlen"
    using header_from_buffer_total [of frame] i unfolding hlen_def declared_hlen_def by auto
  have "loop_outcome option_ok option_len OptEol (\<lambda>e _. e = IntegrityError) (bslice 20 (nat hlen) frame) 0
      (options_from_buffer (bslice 20 (nat hlen) frame))"
    using tcp_opts.loop_after_walk [of frame "nat hlen" 20 0] i by (simp add: options_from_buffer_def)
  then show ?thesis
    using i h by (auto simp: loop_outcome_def tcp_parse_def options_len_def bslice_def nat_diff_distrib simp del: bind_res_eq_Inr)
qed

lemma integrity_error:
  assumes "tcp_validate_integrity frame plen psum validate = Inl e"
  shows "e = IntegrityError \<or> (e = IndexError \<and> plen = int (length frame) \<and>
    declared_hlen frame = plen \<and> uint (last frame) \<notin> {0, 1})"
proof -
  define hlen where "hlen = declared_hlen frame"
  consider "e = IntegrityError"
    | "20 \<le> hlen" "hlen \<le> plen" "plen \<le> int (length frame)" "options_walk frame (nat hlen) 20 = Inl e"
    using assms unfolding integrity_eq hlen_def [symmetric] by (auto split: if_splits)
  then show ?thesis
  proof cases
    case 2
    then have "e = IntegrityError \<or> (e = IndexError \<and> nat hlen = length frame \<and> uint (frame ! (nat hlen - 1)) \<notin> {0, 1})"
      using walk_error [of frame "nat hlen" 20 e] by auto
    moreover have "frame \<noteq> []" using 2 by auto
    ultimately show ?thesis using 2 by (auto simp: hlen_def [symmetric] last_conv_nth)
  qed simp
qed


lemma parsed_header: "tcp_parser frame plen psum validate = Inr (seg, rest) \<Longrightarrow> header_ok (seg_header seg) \<and> header_sane (seg_header seg)"
  using parse_outcome [of frame plen psum validate] by (auto simp: tcp_parser_def sanity_outcome split: if_splits)

lemma parser_error_kinds:
  assumes "tcp_parser frame plen psum validate = Inl e"
  shows "e = IntegrityError \<or> e = SanityError \<or>
    (e = IndexError \<and> plen = int (length frame) \<and> declared_hlen frame = plen \<and> uint (last frame) \<notin> {0, 1})"
proof (cases "tcp_validate_integrity frame plen psum validate")
  case (Inl e')
  then show ?thesis using assms integrity_error [OF Inl] by (auto simp: tcp_parser_def)
next
  case (Inr u)
  then show ?thesis
    using assms parse_outcome [of frame plen psum validate]
    by (auto simp: tcp_parser_def sanity_outcome simp del: bind_res_eq_Inr split: if_splits)
qed

section \<open>Properties\<close>

lemma assembler_segment_ok:
  assumes "tcp_assembler args opts payload = Inr seg" "list_all option_ok opts" "OptEol \<notin> set (butlast opts)"
  shows "segment_ok seg \<and> seg_payload seg = payload \<and> seg_options seg = opts \<and>
    seg_header seg = args\<lparr>h_hlen := 20 + int (options_len opts), h_cksum := 0\<rparr> \<and> (header_sane (seg_header seg) \<longleftrightarrow> header_sane args)"
proof -
  let ?h = "args\<lparr>h_hlen := 20 + int (options_len opts), h_cksum := 0\<rparr>"
  have "header_ok ?h" "seg = \<lparr>seg_header = ?h, seg_options = opts, seg_payload = payload\<rparr>"
    using assms(1) unfolding tcp_assembler_def mk_tcp_header_def
    by (simp_all only: passert_eq_Inr bind_res_eq_Inr) (auto simp only: sum.inject)
  then show ?thesis using assms(2,3) by (simp add: segment_ok_def header_sane_def)
qed

text \<open>
  C5. Assembling and parsing, with every outcome. A segment the assembler accepts, with
  constructible options of which none but the last is an end-of-list, for a pseudo-header sum
  below 2 to the 96 and a length below 2 to the 32, is encoded without error. The parser is
  given the bytes, any trailing padding, the length and the same pseudo-header sum. Where the
  checksum code lost a carry, so that the checksum is not the one of RFC 1071, it rejects the
  segment with an integrity error; else, for a header the assembler accepts and the parser's sanity
  check does not (a port 0, SYN with FIN or RST, FIN with RST or without ACK), it rejects it with a sanity
  error; and in every other case it returns exactly the header fields, options and payload the assembler was
  given, with the header length and the checksum filled in, and leaves payload and padding in
  the frame.
\<close>

theorem segment_roundtrip:
  assumes "tcp_assembler args opts payload = Inr seg" "list_all option_ok opts" "OptEol \<notin> set (butlast opts)"
    and "0 \<le> psum" "psum < 2 ^ 96" "segment_len seg < 2 ^ 32"
  shows "\<exists>bufs ck. assemble seg psum = Inr bufs \<and>
    tcp_parser (concat bufs @ trailer) (int (segment_len seg)) psum True =
      (if \<not> sum_exact seg psum then Inl IntegrityError
       else if \<not> header_sane args then Inl SanityError
       else Inr (\<lparr>seg_header = args\<lparr>h_hlen := 20 + int (options_len opts), h_cksum := ck\<rparr>,
                  seg_options = opts, seg_payload = payload\<rparr>, payload @ trailer))"
proof -
  note ok = assembler_segment_ok [OF assms(1-3)]
  obtain bufs ck where b: "assemble seg psum = Inr bufs"
    "tcp_parser (concat bufs @ trailer) (int (segment_len seg)) psum True =
      (if \<not> sum_exact seg psum then Inl IntegrityError else if \<not> header_sane (seg_header seg) then Inl SanityError
       else Inr (seg\<lparr>seg_header := (seg_header seg)\<lparr>h_cksum := ck\<rparr>\<rparr>, seg_payload seg @ trailer))"
    by (rule assembled_parses [OF _ assms(4-6)]) (use ok in blast)
  have "seg\<lparr>seg_header := (seg_header seg)\<lparr>h_cksum := ck\<rparr>\<rparr> =
      \<lparr>seg_header = args\<lparr>h_hlen := 20 + int (options_len opts), h_cksum := ck\<rparr>, seg_options = opts, seg_payload = payload\<rparr>"
    using ok by (cases seg) simp
  moreover have "header_sane (seg_header seg) = header_sane args" "seg_payload seg = payload" using ok by blast+
  ultimately show ?thesis using b by (intro exI [of _ bufs] exI [of _ ck]) simp
qed

text \<open>A SYN with the options the stack sends.\<close>

definition sample_syn :: tcp_header where
  "sample_syn = \<lparr>h_sport = 49152, h_dport = 443, h_seq = 4294967295, h_ack = 0, h_hlen = 0,
     h_flag_ns = False, h_flag_cwr = True, h_flag_ece = True, h_flag_urg = False, h_flag_ack = False,
     h_flag_psh = False, h_flag_rst = False, h_flag_syn = True, h_flag_fin = False,
     h_win = 65535, h_cksum = 0, h_urg = 0\<rparr>"

definition sample_options :: "tcp_option list" where
  "sample_options = [OptMss 1460, OptSackperm, OptTimestamps 7 0, OptNop, OptWscale 7]"

definition sample_syn_packet :: tcp_packet where
  "sample_syn_packet = \<lparr>seg_header = sample_syn\<lparr>h_hlen := 40\<rparr>, seg_options = sample_options, seg_payload = [1, 2, 3]\<rparr>"

lemma sample_assembled:
  "tcp_assembler sample_syn sample_options [1, 2, 3] = Inr sample_syn_packet"
  "list_all option_ok sample_options" "OptEol \<notin> set (butlast sample_options)" "header_sane sample_syn"
  "segment_len sample_syn_packet = 43"
  by (simp_all add: sample_syn_packet_def sample_syn_def sample_options_def tcp_assembler_def options_len_def
      mk_tcp_header_def header_ok_def uint_checks is_4_byte_alligned_def header_sane_def segment_len_def)

lemma sample_sum_exact: "sum_exact sample_syn_packet 77"
  by code_simp

theorem segment_roundtrip_witness:
  "\<exists>bufs ck. assemble sample_syn_packet 77 = Inr bufs \<and>
    tcp_parser (concat bufs @ [0, 0]) 43 77 True =
      Inr (\<lparr>seg_header = sample_syn\<lparr>h_hlen := 40, h_cksum := ck\<rparr>, seg_options = sample_options, seg_payload = [1, 2, 3]\<rparr>,
           [1, 2, 3] @ [0, 0])"
proof -
  have "20 + int (options_len sample_options) = 40" by (simp add: sample_options_def options_len_def)
  then show ?thesis using segment_roundtrip [OF sample_assembled(1-3), of 77 "[0, 0]"] sample_assembled(4,5) sample_sum_exact by simp
qed

text \<open>
  C6. Whatever the bytes, the parser accepts the segment or raises one of the two documented
  validation errors. The one exception is an \<open>IndexError\<close> of the option walk, and only for a frame
  that holds nothing after the header and whose last header byte is a lone option kind.
\<close>

theorem tcp_parser_errors:
  assumes "tcp_parser frame plen psum validate = Inl e"
  shows "e = IntegrityError \<or> e = SanityError \<or>
    (e = IndexError \<and> plen = int (length frame) \<and> declared_hlen frame = plen \<and> uint (last frame) \<notin> {0, 1})"
  using assms by (rule parser_error_kinds)

text \<open>A header of 24 bytes whose last byte is the kind of an MSS option.\<close>

definition lone_kind_frame :: bytes where
  "lone_kind_frame = [0xC0, 0, 1, 0xBB, 0, 0, 0, 1, 0, 0, 0, 0, 0x60, 2, 0xFF, 0xFF, 0, 0, 0, 0, 1, 1, 1, 2]"

lemma lone_kind_raises: "tcp_parser lone_kind_frame 24 0 False = Inl IndexError"
  by code_simp

theorem tcp_parser_errors_witness:
  "IndexError = IntegrityError \<or> IndexError = SanityError \<or>
   (IndexError = IndexError \<and> 24 = int (length lone_kind_frame) \<and> declared_hlen lone_kind_frame = 24 \<and>
    uint (last lone_kind_frame) \<notin> {0, 1})"
  using tcp_parser_errors [OF lone_kind_raises] by blast

text \<open>The bytes of the sample segment.\<close>

definition sample_wire :: bytes where
  "sample_wire = (case assemble sample_syn_packet 77 of Inr bufs \<Rightarrow> concat bufs | Inl _ \<Rightarrow> [])"

lemma sample_wire_parses: "\<exists>seg rest. tcp_parser sample_wire 43 77 True = Inr (seg, rest)"
proof -
  have "segment_ok sample_syn_packet" "header_sane (seg_header sample_syn_packet)"
    using assembler_segment_ok [OF sample_assembled(1-3)] sample_assembled(4) by auto
  moreover obtain bufs ck where "assemble sample_syn_packet 77 = Inr bufs"
    "tcp_parser (concat bufs @ []) (int (segment_len sample_syn_packet)) 77 True =
      (if \<not> sum_exact sample_syn_packet 77 then Inl IntegrityError
       else if \<not> header_sane (seg_header sample_syn_packet) then Inl SanityError
       else Inr (sample_syn_packet\<lparr>seg_header := (seg_header sample_syn_packet)\<lparr>h_cksum := ck\<rparr>\<rparr>, seg_payload sample_syn_packet @ []))"
    by (rule assembled_parses [OF calculation(1), of 77 "[]"]) (simp_all add: sample_assembled(5))
  ultimately show ?thesis using sample_sum_exact by (simp add: sample_wire_def sample_assembled(5))
qed

text \<open>
  C8. A segment that parses is well typed: every header field is in the range of its width, the
  header length is a multiple of four that covers the options and fits the IP payload, every option
  is one its constructor accepts, the payload is exactly the bytes of the IP payload after the
  header, and the ports and flags satisfy the sanity conditions; what is left of the frame
  starts after the header.
\<close>

theorem tcp_parser_typed:
  assumes "tcp_parser frame plen psum validate = Inr (seg, rest)"
  shows "header_ok (seg_header seg) \<and> header_sane (seg_header seg) \<and> list_all option_ok (seg_options seg) \<and>
    20 + int (options_len (seg_options seg)) \<le> h_hlen (seg_header seg) \<and> h_hlen (seg_header seg) \<le> plen \<and>
    int (length (seg_payload seg)) = plen - h_hlen (seg_header seg) \<and>
    seg_payload seg = take (nat (plen - h_hlen (seg_header seg))) (drop (nat (h_hlen (seg_header seg))) frame) \<and>
    rest = drop (nat (h_hlen (seg_header seg))) frame"
  using assms parse_outcome [of frame plen psum validate]
  by (auto simp: tcp_parser_def sanity_outcome split: if_splits)

theorem tcp_parser_typed_witness:
  "\<exists>seg rest. tcp_parser sample_wire 43 77 True = Inr (seg, rest) \<and>
    header_ok (seg_header seg) \<and> h_hlen (seg_header seg) \<le> 43 \<and> list_all option_ok (seg_options seg)"
proof -
  obtain seg rest where p: "tcp_parser sample_wire 43 77 True = Inr (seg, rest)" using sample_wire_parses by blast
  from p show ?thesis using tcp_parser_typed [OF p] by blast
qed

text \<open>The options a repeated end-of-list hides pass the assembler's check and are lost by the parser.\<close>

lemma double_eol_lost:
  "\<exists>seg. tcp_assembler sample_syn [OptEol, OptMss 1460, OptNop, OptNop, OptEol] [] = Inr seg"
  by (simp add: sample_syn_def tcp_assembler_def options_len_def mk_tcp_header_def header_ok_def
      uint_checks is_4_byte_alligned_def)

lemma double_eol_read:
  "options_from_buffer [0, 2, 4, 5, 180, 1, 1, 0] = Inr [OptEol]"
  by code_simp

end
