(* ===== verification/Ip_Mask.thy ===== *)
theory Ip_Mask
  imports Prelude
begin

text \<open>
  \<^verbatim>\<open>pmd_net_addr/ip_version.py\<close>, \<^verbatim>\<open>address.py\<close> (integer part), \<^verbatim>\<open>ip_mask.py\<close>,
  \<^verbatim>\<open>ip4_mask.py\<close> and \<^verbatim>\<open>ip6_mask.py\<close>: address families, addresses as integers of the
  family's width, and network masks. The IPv4 and IPv6 classes differ only in their width,
  so each operation is one definition over \<open>ip_version\<close>.

  The lemmas show that the bit trick of \<open>_is_contiguous_mask\<close> accepts exactly the prefix
  masks, and turn masks, their complement and masking into arithmetic on powers of two.
\<close>

section \<open>Address families and addresses\<close>

datatype ip_version = IP4 | IP6

fun address_len :: "ip_version \<Rightarrow> nat" where
  "address_len IP4 = 4"
| "address_len IP6 = 16"

definition max_prefixlen :: "ip_version \<Rightarrow> nat" where
  "max_prefixlen v = address_len v * 8"

fun IP__MASK :: "ip_version \<Rightarrow> int" where
  "IP__MASK IP4 = 0xFFFFFFFF"
| "IP__MASK IP6 = 0xFFFFFFFFFFFFFFFFFFFFFFFFFFFFFFFF"

record ip_address =
  ia_version :: ip_version
  ia_int :: int

definition mk_address :: "ip_version \<Rightarrow> int \<Rightarrow> ip_address res" where
  "mk_address v a =
     (if 0 \<le> a \<and> a \<le> IP__MASK v then Inr \<lparr>ia_version = v, ia_int = a\<rparr> else Inl FormatError)"

definition with_offset :: "ip_address \<Rightarrow> int \<Rightarrow> ip_address res" where
  "with_offset a delta =
     (let result = ia_int a + delta in
      if \<not> (0 \<le> result \<and> result \<le> push_bit (address_len (ia_version a) * 8) 1 - 1)
      then Inl SanityError
      else mk_address (ia_version a) result)"

definition address_add :: "ip_address \<Rightarrow> int \<Rightarrow> ip_address res" where
  "address_add a n = with_offset a n"

definition address_sub :: "ip_address \<Rightarrow> int \<Rightarrow> ip_address res" where
  "address_sub a n = with_offset a (- n)"

section \<open>Masks\<close>

record ip_mask =
  im_version :: ip_version
  im_mask :: int

text \<open>\<open>bin(m).count("1")\<close> of a non-negative integer.\<close>

function bin_ones :: "int \<Rightarrow> nat" where
  "bin_ones n = (if n \<le> 0 then 0 else nat (n mod 2) + bin_ones (n div 2))"
  by auto
termination by (relation "measure nat") auto

declare bin_ones.simps [simp del]

definition mask_len :: "ip_mask \<Rightarrow> nat" where
  "mask_len m = bin_ones (im_mask m)"

definition is_contiguous_mask :: "int \<Rightarrow> nat \<Rightarrow> bool" where
  "is_contiguous_mask value bits \<longleftrightarrow>
     (let inverted = NOT value AND (push_bit bits 1 - 1) in inverted AND (inverted + 1) = 0)"

text \<open>The constructor on an integer, and on the text \<open>/n\<close> once its digits are read.\<close>

definition mask_of_int :: "ip_version \<Rightarrow> int \<Rightarrow> ip_mask res" where
  "mask_of_int v m =
     (if 0 \<le> m \<and> m \<le> IP__MASK v \<and> is_contiguous_mask m (address_len v * 8)
      then Inr \<lparr>im_version = v, im_mask = m\<rparr> else Inl FormatError)"

definition mask_of_bit_count :: "ip_version \<Rightarrow> nat \<Rightarrow> ip_mask res" where
  "mask_of_bit_count v bit_count =
     (if bit_count \<le> address_len v * 8
      then Inr \<lparr>im_version = v,
                im_mask = push_bit (address_len v * 8 - bit_count) (push_bit bit_count 1 - 1)\<rparr>
      else Inl FormatError)"

text \<open>\<open>address & mask\<close>; None is Python's \<open>NotImplemented\<close> for a cross-version operand.\<close>

definition mask_and :: "ip_mask \<Rightarrow> ip_address \<Rightarrow> ip_address res option" where
  "mask_and m a =
     (if im_version m = ia_version a
      then Some (mk_address (ia_version a) (ia_int a AND im_mask m)) else None)"

section \<open>Arithmetic of prefix masks\<close>

lemma IP__MASK_eq: "IP__MASK v = 2 ^ max_prefixlen v - 1"
  by (cases v) (simp_all add: max_prefixlen_def)

lemma max_prefixlen_pos [simp]: "0 < max_prefixlen v"
  by (cases v) (simp_all add: max_prefixlen_def)

definition prefix_mask :: "ip_version \<Rightarrow> nat \<Rightarrow> int" where
  "prefix_mask v p = 2 ^ max_prefixlen v - 2 ^ (max_prefixlen v - p)"

lemma power_split: "p \<le> w \<Longrightarrow> (2::int) ^ w = 2 ^ p * 2 ^ (w - p)"
  by (simp flip: power_add)

lemma shifted_ones:
  assumes "p \<le> w"
  shows "push_bit (w - p) (2 ^ p - 1) = (2 ^ w - 2 ^ (w - p) :: int)"
  using assms by (simp add: push_bit_eq_mult algebra_simps power_split [of p w])

lemma mask_of_bit_count_eq:
  "mask_of_bit_count v p =
     (if p \<le> max_prefixlen v then Inr \<lparr>im_version = v, im_mask = prefix_mask v p\<rparr>
      else Inl FormatError)"
  by (simp add: mask_of_bit_count_def prefix_mask_def shifted_ones flip: max_prefixlen_def)

lemma prefix_mask_bounds:
  "0 \<le> prefix_mask v p" "prefix_mask v p < 2 ^ max_prefixlen v"
  by (simp_all add: prefix_mask_def)

lemma wildcard_eq: "NOT (prefix_mask v p) AND IP__MASK v = 2 ^ (max_prefixlen v - p) - 1"
  unfolding IP__MASK_eq not_and_mask [OF prefix_mask_bounds] by (simp add: prefix_mask_def)

lemma and_not_low: "x AND NOT (2 ^ k - 1) = x - x mod 2 ^ k" for x :: int
proof -
  have "x AND NOT (mask k) = push_bit k (drop_bit k x)"
    by (rule bit_eqI) (auto simp: bit_simps)
  then show ?thesis
    by (simp add: mask_eq_exp_minus_1 push_bit_eq_mult drop_bit_eq_div minus_mod_eq_div_mult)
qed

text \<open>Masking an address clears its low bits.\<close>

lemma and_prefix_mask:
  assumes "0 \<le> x" "x < 2 ^ max_prefixlen v"
  shows "x AND prefix_mask v p = x - x mod 2 ^ (max_prefixlen v - p)"
proof -
  let ?w = "max_prefixlen v" and ?k = "max_prefixlen v - p"
  have "prefix_mask v p = NOT (2 ^ ?k - 1) AND (2 ^ ?w - 1)"
  proof -
    have "(2::int) ^ ?k \<le> 2 ^ ?w" by (rule power_increasing) auto
    then have "2 ^ ?k - 1 < (2::int) ^ ?w" "0 \<le> (2::int) ^ ?k - 1" by linarith simp
    from not_and_mask [OF this(2,1)] show ?thesis by (simp add: prefix_mask_def)
  qed
  then have "x AND prefix_mask v p = (x AND (2 ^ ?w - 1)) AND NOT (2 ^ ?k - 1)"
    by (simp only: and.assoc and.commute and.left_commute)
  also have "\<dots> = x AND NOT (2 ^ ?k - 1)" using assms by (simp add: and_mask_mod)
  finally show ?thesis by (simp only: and_not_low)
qed

text \<open>\<open>x & (x + 1) == 0\<close> holds exactly for the numbers that are all ones in binary.\<close>

lemma and_succ_eq_0_iff: "0 \<le> x \<Longrightarrow> x AND (x + 1) = 0 \<longleftrightarrow> (\<exists>k. x = 2 ^ k - 1)" for x :: int
proof (induction "nat x" arbitrary: x rule: less_induct)
  case less
  define j where "j = x div 2"
  show ?case
  proof (cases "even x")
    case True
    then have x: "x = 2 * j" by (simp add: j_def)
    have "x AND (x + 1) = 2 * j"
      by (simp add: x and_int_rec [of "2 * j"])
    moreover have "(\<exists>k. x = 2 ^ k - 1) \<longleftrightarrow> x = 0"
    proof
      assume "\<exists>k. x = 2 ^ k - 1"
      then obtain k where k: "x = 2 ^ k - 1" ..
      with True have "k = 0" by (cases k) auto
      then show "x = 0" using k by simp
    next
      assume "x = 0"
      then have "x = 2 ^ 0 - 1" by simp
      then show "\<exists>k. x = 2 ^ k - 1" ..
    qed
    ultimately show ?thesis using x by simp
  next
    case False
    then have x: "x = 2 * j + 1" by (simp add: j_def)
    then have "0 \<le> j" "nat j < nat x" using less.prems by auto
    with less.hyps have IH: "j AND (j + 1) = 0 \<longleftrightarrow> (\<exists>k. j = 2 ^ k - 1)" by blast
    have "x AND (x + 1) = 2 * (j AND (j + 1))"
      using and_int_rec [of "2 * j + 1" "2 * j + 2"] by (simp add: x add.commute)
    moreover have "(\<exists>k. x = 2 ^ k - 1) \<longleftrightarrow> (\<exists>k. j = 2 ^ k - 1)"
    proof
      assume "\<exists>k. x = 2 ^ k - 1"
      then obtain k where k: "x = 2 ^ k - 1" ..
      with x \<open>0 \<le> j\<close> obtain k' where "k = Suc k'" by (cases k) auto
      with k x have "j = 2 ^ k' - 1" by simp
      then show "\<exists>k. j = 2 ^ k - 1" ..
    next
      assume "\<exists>k. j = 2 ^ k - 1"
      then obtain k where "j = 2 ^ k - 1" ..
      then have "x = 2 ^ Suc k - 1" by (simp add: x)
      then show "\<exists>k. x = 2 ^ k - 1" ..
    qed
    ultimately show ?thesis using IH by simp
  qed
qed

lemma is_contiguous_mask_iff:
  assumes "0 \<le> m" "m < 2 ^ max_prefixlen v"
  shows "is_contiguous_mask m (max_prefixlen v) \<longleftrightarrow> (\<exists>p \<le> max_prefixlen v. m = prefix_mask v p)"
proof -
  let ?w = "max_prefixlen v"
  have "is_contiguous_mask m ?w \<longleftrightarrow> (\<exists>k. 2 ^ ?w - 1 - m = 2 ^ k - 1)"
    using assms and_succ_eq_0_iff [of "2 ^ ?w - 1 - m"]
    by (simp add: is_contiguous_mask_def Let_def not_and_mask)
  also have "\<dots> \<longleftrightarrow> (\<exists>p \<le> ?w. m = prefix_mask v p)"
  proof
    assume "\<exists>k. 2 ^ ?w - 1 - m = 2 ^ k - 1"
    then obtain k where "2 ^ ?w - 1 - m = 2 ^ k - 1" ..
    then have k: "m = 2 ^ ?w - 2 ^ k" by simp
    with assms have "(2::int) ^ k \<le> 2 ^ ?w" by simp
    then have "k \<le> ?w" by (simp add: power_increasing_iff)
    then have "m = prefix_mask v (?w - k)" by (simp add: k prefix_mask_def)
    then show "\<exists>p \<le> ?w. m = prefix_mask v p" by (intro exI [of _ "?w - k"]) simp
  next
    assume "\<exists>p \<le> ?w. m = prefix_mask v p"
    then show "\<exists>k. 2 ^ ?w - 1 - m = 2 ^ k - 1" by (auto simp: prefix_mask_def)
  qed
  finally show ?thesis .
qed

lemma mask_of_int_iff:
  "mask_of_int v m = Inr r \<longleftrightarrow>
     (\<exists>p \<le> max_prefixlen v. m = prefix_mask v p \<and> r = \<lparr>im_version = v, im_mask = m\<rparr>)"
  using prefix_mask_bounds [of v] is_contiguous_mask_iff [of m v]
  by (auto simp: mask_of_int_def IP__MASK_eq simp flip: max_prefixlen_def)

lemma mask_of_int_prefix [simp]:
  "p \<le> max_prefixlen v \<Longrightarrow>
     mask_of_int v (prefix_mask v p) = Inr \<lparr>im_version = v, im_mask = prefix_mask v p\<rparr>"
  by (auto simp: mask_of_int_iff)

section \<open>The prefix length of a mask\<close>

lemma bin_ones_0 [simp]: "bin_ones 0 = 0"
  by (simp add: bin_ones.simps)

lemma bin_ones_double: "bin_ones (2 * n) = bin_ones n"
  by (cases "n \<le> 0") (simp_all add: bin_ones.simps [of "2 * n"] bin_ones.simps [of n])

lemma bin_ones_shift: "bin_ones (2 ^ k * n) = bin_ones n"
  by (induction k) (simp_all add: bin_ones_double mult.assoc)

lemma bin_ones_full: "bin_ones (2 ^ p - 1) = p"
proof (induction p)
  case (Suc p)
  have "(2 * 2 ^ p - 1 :: int) mod 2 = 1" "(2 * 2 ^ p - 1 :: int) div 2 = 2 ^ p - 1" by presburger+
  moreover have "\<not> (2 * 2 ^ p - 1 :: int) \<le> 0"
    using one_le_power [of "2::int" p] by linarith
  ultimately show ?case using Suc by (simp add: bin_ones.simps [of "2 * 2 ^ p - 1"])
qed simp

lemma bin_ones_prefix_mask [simp]: "p \<le> max_prefixlen v \<Longrightarrow> bin_ones (prefix_mask v p) = p"
proof -
  assume p: "p \<le> max_prefixlen v"
  then have "prefix_mask v p = 2 ^ (max_prefixlen v - p) * (2 ^ p - 1)"
    by (simp add: prefix_mask_def algebra_simps power_split [OF p])
  then show ?thesis by (simp only: bin_ones_shift bin_ones_full)
qed

lemma prefix_mask_inject:
  "p \<le> max_prefixlen v \<Longrightarrow> q \<le> max_prefixlen v \<Longrightarrow> prefix_mask v p = prefix_mask v q \<longleftrightarrow> p = q"
  using bin_ones_prefix_mask by metis

end
