(* ===== verification/Tcp_Handler.thy ===== *)
theory Tcp_Handler
  imports Tcp_Codec Tcp_Tx Ip_Mask
begin

text \<open>
  \<^verbatim>\<open>pmd_pytcp/runtime/packet_handler/packet_handler__tcp__tx.py\<close> and
  \<^verbatim>\<open>packet_handler__tcp__rx.py\<close>, with \<^verbatim>\<open>socket/tcp__metadata.py\<close> and \<^verbatim>\<open>socket/socket_id.py\<close>: how a
  segment of a session becomes an encoded packet, how a received packet becomes the metadata a
  session processes, which socket it goes to, and the reset that answers it otherwise. The packet
  counters, the log lines and the hand-over to the transmit thread are left out; the IP layer
  receives the packet this model returns.
\<close>

section \<open>Sending\<close>

text \<open>The option arguments of \<open>_phtx_tcp\<close>.\<close>

record tx_option_args =
  oa_mss :: "int option"
  oa_wscale :: "int option"
  oa_sackperm :: bool
  oa_sack_blocks :: "(int \<times> int) list option"
  oa_tsval :: "int option"
  oa_tsecr :: "int option"
  oa_fastopen_cookie :: "bytes option"
  oa_accecn0_counters :: "accecn_counters option"
  oa_accecn1_counters :: "accecn_counters option"

definition no_options :: tx_option_args where
  "no_options = \<lparr>oa_mss = None, oa_wscale = None, oa_sackperm = False, oa_sack_blocks = None, oa_tsval = None,
     oa_tsecr = None, oa_fastopen_cookie = None, oa_accecn0_counters = None, oa_accecn1_counters = None\<rparr>"

text \<open>\<open>opts.append(...)\<close> of a constructed option, after the ones in \<open>before\<close>.\<close>

definition append_opt :: "tcp_option list \<Rightarrow> tcp_option res \<Rightarrow> tcp_option list res" where
  "append_opt before m = bind_res m (\<lambda>opt. Inr (before @ [opt]))"

fun gather :: "'a list res list \<Rightarrow> 'a list res" where
  "gather [] = Inr []"
| "gather (m # ms) = bind_res m (\<lambda>xs. bind_res (gather ms) (\<lambda>ys. Inr (xs @ ys)))"

definition tx_option_parts :: "tx_option_args \<Rightarrow> tcp_option list res list" where
  "tx_option_parts oa =
    [ case oa_mss oa of Some mss \<Rightarrow> (if mss \<noteq> 0 then append_opt [] (mk_mss mss) else Inr []) | None \<Rightarrow> Inr [],
      if oa_sackperm oa then Inr [OptSackperm] else Inr [],
      case oa_wscale oa of Some wscale \<Rightarrow> (if wscale \<noteq> 0 then append_opt [OptNop] (mk_wscale wscale) else Inr [])
      | None \<Rightarrow> Inr [],
      case oa_sack_blocks oa of
        Some blocks \<Rightarrow>
          (if blocks \<noteq> []
           then append_opt [] (bind_res (map_res (\<lambda>(left, right). mk_sack_block left right) blocks) mk_sack)
           else Inr [])
      | None \<Rightarrow> Inr [],
      case (oa_tsval oa, oa_tsecr oa) of
        (Some tsval, Some tsecr) \<Rightarrow> append_opt [] (mk_timestamps tsval tsecr)
      | _ \<Rightarrow> Inr [],
      case oa_fastopen_cookie oa of Some cookie \<Rightarrow> append_opt [] (mk_fastopen cookie) | None \<Rightarrow> Inr [],
      case oa_accecn0_counters oa of
        Some (ee0b, eceb, ee1b) \<Rightarrow> append_opt [] (mk_accecn0 ee0b eceb ee1b) | None \<Rightarrow> Inr [],
      case oa_accecn1_counters oa of
        Some (ee0b, eceb, ee1b) \<Rightarrow> append_opt [] (mk_accecn1 ee0b eceb ee1b) | None \<Rightarrow> Inr [] ]"

definition pad_options :: "tcp_option list \<Rightarrow> tcp_option list" where
  "pad_options opts = opts @ replicate (nat ((- int (options_len opts)) mod 4)) OptNop"

definition phtx_options :: "tx_option_args \<Rightarrow> tcp_option list res" where
  "phtx_options oa = bind_res (gather (tx_option_parts oa)) (\<lambda>opts. Inr (pad_options opts))"

text \<open>\<open>_phtx_tcp\<close>: the packet, and the IP version whose transmit handler it is given to.\<close>

definition phtx_tcp ::
    "ip_address \<Rightarrow> ip_address \<Rightarrow> tcp_header \<Rightarrow> tx_option_args \<Rightarrow> bytes \<Rightarrow> (ip_version \<times> tcp_packet) res" where
  "phtx_tcp ip__src ip__dst args oa payload =
     bind_res (phtx_options oa) (\<lambda>opts.
     bind_res (tcp_assembler args opts payload) (\<lambda>tcp_packet_tx.
       if ia_version ip__src = IP6 \<and> ia_version ip__dst = IP6 then Inr (IP6, tcp_packet_tx)
       else if ia_version ip__src = IP4 \<and> ia_version ip__dst = IP4 then Inr (IP4, tcp_packet_tx)
       else Inl ValueError))"

text \<open>\<open>send_tcp_packet\<close>: the arguments a session gives, in the names of the session's segment.\<close>

definition segment_header :: "int \<Rightarrow> int \<Rightarrow> tcp_segment \<Rightarrow> tcp_header" where
  "segment_header local_port remote_port sg =
     \<lparr>h_sport = local_port, h_dport = remote_port, h_seq = uint (sg_seq sg), h_ack = uint (sg_ack sg), h_hlen = 0,
      h_flag_ns = sg_ns sg, h_flag_cwr = sg_cwr sg, h_flag_ece = sg_ece sg, h_flag_urg = False,
      h_flag_ack = sg_ack_flag sg, h_flag_psh = sg_psh sg, h_flag_rst = sg_rst sg, h_flag_syn = sg_syn sg,
      h_flag_fin = sg_fin sg, h_win = sg_win sg, h_cksum = 0, h_urg = 0\<rparr>"

definition segment_options :: "tcp_segment \<Rightarrow> tx_option_args" where
  "segment_options sg =
     \<lparr>oa_mss = sg_mss sg, oa_wscale = sg_wscale sg, oa_sackperm = sg_sackperm sg,
      oa_sack_blocks = map_option (map (\<lambda>(l, r). (uint l, uint r))) (sg_sack_blocks sg),
      oa_tsval = map_option uint (sg_tsval sg), oa_tsecr = map_option uint (sg_tsecr sg),
      oa_fastopen_cookie = sg_fastopen_cookie sg, oa_accecn0_counters = sg_accecn0_counters sg,
      oa_accecn1_counters = sg_accecn1_counters sg\<rparr>"

definition send_tcp_packet ::
    "ip_address \<Rightarrow> ip_address \<Rightarrow> int \<Rightarrow> int \<Rightarrow> tcp_segment \<Rightarrow> (ip_version \<times> tcp_packet) res" where
  "send_tcp_packet local_address remote_address local_port remote_port sg =
     phtx_tcp local_address remote_address (segment_header local_port remote_port sg) (segment_options sg) (sg_payload sg)"

section \<open>Receiving\<close>

text \<open>The metadata the receive handler builds from the parsed packet.\<close>

definition accecn_tuple :: "tcp_option option \<Rightarrow> accecn_counters option" where
  "accecn_tuple opt =
     (case opt of
        Some (OptAccecn0 ee0b eceb ee1b) \<Rightarrow> Some (ee0b, eceb, ee1b)
      | Some (OptAccecn1 ee0b eceb ee1b) \<Rightarrow> Some (ee0b, eceb, ee1b)
      | _ \<Rightarrow> None)"

definition rx_metadata :: "int \<Rightarrow> tcp_packet \<Rightarrow> tcp_metadata" where
  "rx_metadata ip__ecn pkt =
     (let h = seg_header pkt; opts = seg_options pkt in
      \<lparr>md_ecn = ip__ecn, md_syn = h_flag_syn h, md_ack_flag = h_flag_ack h, md_fin = h_flag_fin h,
       md_rst = h_flag_rst h, md_ece = h_flag_ece h, md_cwr = h_flag_cwr h, md_ns = h_flag_ns h,
       md_seq = word_of_int (h_seq h), md_ack = word_of_int (h_ack h), md_win = h_win h,
       md_wscale = wscale_property opts, md_mss = mss_property opts, md_sackperm = sackperm_property opts,
       md_sack_blocks =
         (case options_sack opts of None \<Rightarrow> []
          | Some blocks \<Rightarrow> map (\<lambda>(l, r). (word_of_int l, word_of_int r)) blocks),
       md_tsval = map_option (\<lambda>ts. word_of_int (fst ts)) (options_timestamps opts),
       md_tsecr = map_option (\<lambda>ts. word_of_int (snd ts)) (options_timestamps opts),
       md_fastopen_cookie = options_fastopen opts,
       md_accecn0_counters = accecn_tuple (options_accecn opts),
       md_data = seg_payload pkt\<rparr>)"

text \<open>Socket identifiers; a TCP socket is always of type \<open>STREAM\<close>.\<close>

record socket_id =
  si_family :: ip_version
  si_local :: ip_address
  si_local_port :: int
  si_remote :: ip_address
  si_remote_port :: int

definition unspecified :: "ip_version \<Rightarrow> ip_address" where
  "unspecified v = \<lparr>ia_version = v, ia_int = 0\<rparr>"

definition active_socket_id :: "ip_version \<Rightarrow> ip_address \<Rightarrow> int \<Rightarrow> ip_address \<Rightarrow> int \<Rightarrow> socket_id" where
  "active_socket_id ver local lport remote rport =
     \<lparr>si_family = ver, si_local = local, si_local_port = lport, si_remote = remote, si_remote_port = rport\<rparr>"

definition listening_socket_ids :: "ip_version \<Rightarrow> ip_address \<Rightarrow> int \<Rightarrow> ip_address \<Rightarrow> socket_id list" where
  "listening_socket_ids ver local lport remote =
     [active_socket_id ver local lport (unspecified (ia_version remote)) 0,
      active_socket_id ver (unspecified (ia_version local)) lport (unspecified (ia_version remote)) 0] @
     (if ver = IP4 then [active_socket_id IP6 (unspecified IP6) lport (unspecified IP6) 0] else [])"

text \<open>What the handler reads of a socket.\<close>

record tcp_socket_view =
  sk_family :: ip_version
  sk_ipv6_v6only :: bool

datatype rx_verdict =
    Parse_Drop
  | To_Active socket_id tcp_metadata
  | To_Listener socket_id tcp_metadata
  | Rst_Drop
  | Respond "(ip_version \<times> tcp_packet) res"
  | Raised py_error

text \<open>The loop over the listening patterns, with the dual-stack filter.\<close>

fun find_listener :: "(socket_id \<rightharpoonup> tcp_socket_view) \<Rightarrow> ip_version \<Rightarrow> socket_id list \<Rightarrow> socket_id option" where
  "find_listener sockets local_ver [] = None"
| "find_listener sockets local_ver (p # ps) =
     (case sockets p of
        None \<Rightarrow> find_listener sockets local_ver ps
      | Some sk \<Rightarrow>
          if sk_family sk = IP6 \<and> local_ver = IP4 \<and> sk_ipv6_v6only sk
          then find_listener sockets local_ver ps
          else Some p)"

definition rst_header :: "int \<Rightarrow> int \<Rightarrow> int \<Rightarrow> int \<Rightarrow> bool \<Rightarrow> tcp_header" where
  "rst_header sport dport seq ack flag_ack =
     \<lparr>h_sport = sport, h_dport = dport, h_seq = seq, h_ack = ack, h_hlen = 0, h_flag_ns = False, h_flag_cwr = False,
      h_flag_ece = False, h_flag_urg = False, h_flag_ack = flag_ack, h_flag_psh = False, h_flag_rst = True,
      h_flag_syn = False, h_flag_fin = False, h_win = 0, h_cksum = 0, h_urg = 0\<rparr>"

text \<open>The reset that answers an unmatched segment.\<close>

definition respond_rst :: "ip_address \<Rightarrow> ip_address \<Rightarrow> tcp_packet \<Rightarrow> (ip_version \<times> tcp_packet) res" where
  "respond_rst ip__src ip__dst pkt =
     (let h = seg_header pkt in
      if h_flag_ack h
      then phtx_tcp ip__dst ip__src (rst_header (h_dport h) (h_sport h) (h_ack h) 0 False) no_options []
      else phtx_tcp ip__dst ip__src
             (rst_header (h_dport h) (h_sport h) 0
                (h_seq h + of_bool (h_flag_syn h) + of_bool (h_flag_fin h) + int (length (seg_payload pkt))) True)
             no_options [])"

definition rx_demux ::
    "(socket_id \<rightharpoonup> tcp_socket_view) \<Rightarrow> ip_version \<Rightarrow> int \<Rightarrow> ip_address \<Rightarrow> ip_address \<Rightarrow> tcp_packet \<Rightarrow> rx_verdict" where
  "rx_demux sockets ver ecn ip__src ip__dst pkt =
     (let h = seg_header pkt;
          md = rx_metadata ecn pkt;
          active = active_socket_id ver ip__dst (h_dport h) ip__src (h_sport h) in
      if sockets active \<noteq> None then To_Active active md
      else
        (case (if h_flag_syn h \<and> \<not> (h_flag_ack h \<or> h_flag_fin h \<or> h_flag_rst h)
               then find_listener sockets (ia_version ip__dst) (listening_socket_ids ver ip__dst (h_dport h) ip__src)
               else None) of
           Some p \<Rightarrow> To_Listener p md
         | None \<Rightarrow> if h_flag_rst h then Rst_Drop else Respond (respond_rst ip__src ip__dst pkt)))"

text \<open>\<open>_phrx_tcp\<close>: only the two validation errors are caught.\<close>

definition phrx_tcp ::
    "(socket_id \<rightharpoonup> tcp_socket_view) \<Rightarrow> ip_version \<Rightarrow> int \<Rightarrow> ip_address \<Rightarrow> ip_address \<Rightarrow> bytes \<Rightarrow> int \<Rightarrow> int \<Rightarrow> bool \<Rightarrow> rx_verdict" where
  "phrx_tcp sockets ver ecn ip__src ip__dst frame payload_len pshdr_sum validate =
     (case tcp_parser frame payload_len pshdr_sum validate of
        Inl e \<Rightarrow> if e = IntegrityError \<or> e = SanityError then Parse_Drop else Raised e
      | Inr (pkt, rest) \<Rightarrow> rx_demux sockets ver ecn ip__src ip__dst pkt)"


section \<open>The options sent\<close>

text \<open>The options in the order they are appended, where no constructor refuses its arguments.\<close>

definition mss_part :: "tx_option_args \<Rightarrow> tcp_option list" where
  "mss_part oa = (case oa_mss oa of Some mss \<Rightarrow> if mss \<noteq> 0 then [OptMss mss] else [] | None \<Rightarrow> [])"

definition sackperm_part :: "tx_option_args \<Rightarrow> tcp_option list" where
  "sackperm_part oa = (if oa_sackperm oa then [OptSackperm] else [])"

definition wscale_part :: "tx_option_args \<Rightarrow> tcp_option list" where
  "wscale_part oa =
     (case oa_wscale oa of Some wscale \<Rightarrow> if wscale \<noteq> 0 then [OptNop, OptWscale wscale] else [] | None \<Rightarrow> [])"

definition sack_part :: "tx_option_args \<Rightarrow> tcp_option list" where
  "sack_part oa =
     (case oa_sack_blocks oa of Some blocks \<Rightarrow> if blocks \<noteq> [] then [OptSack blocks] else [] | None \<Rightarrow> [])"

definition timestamps_part :: "tx_option_args \<Rightarrow> tcp_option list" where
  "timestamps_part oa =
     (case (oa_tsval oa, oa_tsecr oa) of (Some tsval, Some tsecr) \<Rightarrow> [OptTimestamps tsval tsecr] | _ \<Rightarrow> [])"

definition fastopen_part :: "tx_option_args \<Rightarrow> tcp_option list" where
  "fastopen_part oa = (case oa_fastopen_cookie oa of Some cookie \<Rightarrow> [OptFastopen cookie] | None \<Rightarrow> [])"

definition accecn_part :: "tx_option_args \<Rightarrow> tcp_option list" where
  "accecn_part oa =
     (case oa_accecn0_counters oa of Some (ee0b, eceb, ee1b) \<Rightarrow> [OptAccecn0 ee0b eceb ee1b] | None \<Rightarrow> []) @
     (case oa_accecn1_counters oa of Some (ee0b, eceb, ee1b) \<Rightarrow> [OptAccecn1 ee0b eceb ee1b] | None \<Rightarrow> [])"

definition tx_option_list :: "tx_option_args \<Rightarrow> tcp_option list" where
  "tx_option_list oa =
     mss_part oa @ sackperm_part oa @ wscale_part oa @ sack_part oa @ timestamps_part oa @ fastopen_part oa @
     accecn_part oa"

lemmas option_parts =
  mss_part_def sackperm_part_def wscale_part_def sack_part_def timestamps_part_def fastopen_part_def accecn_part_def

text \<open>The constructors accept exactly the options that are well formed.\<close>

definition checked :: "tcp_option list \<Rightarrow> tcp_option list res" where
  "checked opts = (if list_all option_ok opts then Inr opts else Inl AssertionError)"

lemma gather_checked: "gather (map checked parts) = checked (concat parts)"
  by (induction parts) (auto simp: checked_def)

lemma sack_blocks_made:
  "map_res (\<lambda>(left, right). mk_sack_block left right) blocks =
     (if list_all (\<lambda>(left, right). is_uint32 left \<and> is_uint32 right) blocks then Inr blocks else Inl AssertionError)"
proof (induction blocks)
  case (Cons b bs)
  then show ?case by (cases b) (simp add: mk_sack_block_def passert_def del: bind_res_eq_Inr)
qed simp

lemma parts_checked:
  "tx_option_parts oa =
     map checked [mss_part oa, sackperm_part oa, wscale_part oa, sack_part oa, timestamps_part oa, fastopen_part oa,
       (case oa_accecn0_counters oa of Some (ee0b, eceb, ee1b) \<Rightarrow> [OptAccecn0 ee0b eceb ee1b] | None \<Rightarrow> []),
       (case oa_accecn1_counters oa of Some (ee0b, eceb, ee1b) \<Rightarrow> [OptAccecn1 ee0b eceb ee1b] | None \<Rightarrow> [])]"
  unfolding tx_option_parts_def list.map list.inject
  by (intro conjI refl)
    (simp_all add: option_parts checked_def append_opt_def option_makers passert_def sack_blocks_made
      split: option.split prod.split)

lemma phtx_options_eq: "phtx_options oa = bind_res (checked (tx_option_list oa)) (\<lambda>opts. Inr (pad_options opts))"
  unfolding phtx_options_def parts_checked gather_checked by (simp add: tx_option_list_def accecn_part_def)

lemma pad_len: "options_len (pad_options opts) mod 4 = 0" "options_len opts \<le> options_len (pad_options opts)"
    "options_len (pad_options opts) < options_len opts + 4"
proof -
  let ?n = "options_len opts"
  have e: "int (options_len (pad_options opts)) = int ?n + (- int ?n) mod 4"
    by (simp add: pad_options_def options_len_def sum_list_replicate)
  have "int (options_len (pad_options opts)) mod 4 = 0" unfolding e by presburger
  then show "options_len (pad_options opts) mod 4 = 0" by presburger
  have "0 \<le> (- int ?n) mod 4" "(- int ?n) mod 4 < 4" by simp_all
  then show "?n \<le> options_len (pad_options opts)" "options_len (pad_options opts) < ?n + 4" using e by linarith+
qed

lemma find_opt_append: "find_opt f (xs @ ys) = (case find_opt f xs of Some v \<Rightarrow> Some v | None \<Rightarrow> find_opt f ys)"
  by (induction xs) (auto split: option.split)

lemma find_opt_replicate: "f x = None \<Longrightarrow> find_opt f (replicate n x) = None"
  by (induction n) auto

lemma mss_in_parts:
  "options_mss (mss_part oa) = (case oa_mss oa of Some mss \<Rightarrow> if mss \<noteq> 0 then Some mss else None | None \<Rightarrow> None)"
  "options_mss (sackperm_part oa) = None"
  "options_mss (wscale_part oa) = None"
  "options_mss (sack_part oa) = None"
  "options_mss (timestamps_part oa) = None"
  "options_mss (fastopen_part oa) = None"
  "options_mss (accecn_part oa) = None"
  "options_mss (xs @ ys) = (case options_mss xs of Some v \<Rightarrow> Some v | None \<Rightarrow> options_mss ys)"
  "options_mss (replicate n OptNop) = None"
  by (simp_all add: options_mss_def option_parts find_opt_append find_opt_replicate split: option.split prod.split)

lemma wscale_in_parts:
  "options_wscale (mss_part oa) = None"
  "options_wscale (sackperm_part oa) = None"
  "options_wscale (wscale_part oa) = (case oa_wscale oa of Some wscale \<Rightarrow> if wscale \<noteq> 0 then Some wscale else None | None \<Rightarrow> None)"
  "options_wscale (sack_part oa) = None"
  "options_wscale (timestamps_part oa) = None"
  "options_wscale (fastopen_part oa) = None"
  "options_wscale (accecn_part oa) = None"
  "options_wscale (xs @ ys) = (case options_wscale xs of Some v \<Rightarrow> Some v | None \<Rightarrow> options_wscale ys)"
  "options_wscale (replicate n OptNop) = None"
  by (simp_all add: options_wscale_def option_parts find_opt_append find_opt_replicate split: option.split prod.split)

lemma sackperm_in_parts:
  "options_sackperm (mss_part oa) = None"
  "options_sackperm (sackperm_part oa) = (if oa_sackperm oa then Some True else None)"
  "options_sackperm (wscale_part oa) = None"
  "options_sackperm (sack_part oa) = None"
  "options_sackperm (timestamps_part oa) = None"
  "options_sackperm (fastopen_part oa) = None"
  "options_sackperm (accecn_part oa) = None"
  "options_sackperm (xs @ ys) = (case options_sackperm xs of Some v \<Rightarrow> Some v | None \<Rightarrow> options_sackperm ys)"
  "options_sackperm (replicate n OptNop) = None"
  by (simp_all add: options_sackperm_def option_parts find_opt_append find_opt_replicate split: option.split prod.split)

lemma sack_in_parts:
  "options_sack (mss_part oa) = None"
  "options_sack (sackperm_part oa) = None"
  "options_sack (wscale_part oa) = None"
  "options_sack (sack_part oa) = (case oa_sack_blocks oa of Some blocks \<Rightarrow> if blocks \<noteq> [] then Some blocks else None | None \<Rightarrow> None)"
  "options_sack (timestamps_part oa) = None"
  "options_sack (fastopen_part oa) = None"
  "options_sack (accecn_part oa) = None"
  "options_sack (xs @ ys) = (case options_sack xs of Some v \<Rightarrow> Some v | None \<Rightarrow> options_sack ys)"
  "options_sack (replicate n OptNop) = None"
  by (simp_all add: options_sack_def option_parts find_opt_append find_opt_replicate split: option.split prod.split)

lemma timestamps_in_parts:
  "options_timestamps (mss_part oa) = None"
  "options_timestamps (sackperm_part oa) = None"
  "options_timestamps (wscale_part oa) = None"
  "options_timestamps (sack_part oa) = None"
  "options_timestamps (timestamps_part oa) = (case (oa_tsval oa, oa_tsecr oa) of (Some tsval, Some tsecr) \<Rightarrow> Some (tsval, tsecr) | _ \<Rightarrow> None)"
  "options_timestamps (fastopen_part oa) = None"
  "options_timestamps (accecn_part oa) = None"
  "options_timestamps (xs @ ys) = (case options_timestamps xs of Some v \<Rightarrow> Some v | None \<Rightarrow> options_timestamps ys)"
  "options_timestamps (replicate n OptNop) = None"
  by (simp_all add: options_timestamps_def option_parts find_opt_append find_opt_replicate split: option.split prod.split)

lemma fastopen_in_parts:
  "options_fastopen (mss_part oa) = None"
  "options_fastopen (sackperm_part oa) = None"
  "options_fastopen (wscale_part oa) = None"
  "options_fastopen (sack_part oa) = None"
  "options_fastopen (timestamps_part oa) = None"
  "options_fastopen (fastopen_part oa) = oa_fastopen_cookie oa"
  "options_fastopen (accecn_part oa) = None"
  "options_fastopen (xs @ ys) = (case options_fastopen xs of Some v \<Rightarrow> Some v | None \<Rightarrow> options_fastopen ys)"
  "options_fastopen (replicate n OptNop) = None"
  by (simp_all add: options_fastopen_def option_parts find_opt_append find_opt_replicate split: option.split prod.split)

lemma accecn_in_parts:
  "options_accecn (mss_part oa) = None"
  "options_accecn (sackperm_part oa) = None"
  "options_accecn (wscale_part oa) = None"
  "options_accecn (sack_part oa) = None"
  "options_accecn (timestamps_part oa) = None"
  "options_accecn (fastopen_part oa) = None"
  "options_accecn (accecn_part oa) = (case oa_accecn0_counters oa of Some (ee0b, eceb, ee1b) \<Rightarrow> Some (OptAccecn0 ee0b eceb ee1b)
      | None \<Rightarrow> map_option (\<lambda>(ee0b, eceb, ee1b). OptAccecn1 ee0b eceb ee1b) (oa_accecn1_counters oa))"
  "options_accecn (xs @ ys) = (case options_accecn xs of Some v \<Rightarrow> Some v | None \<Rightarrow> options_accecn ys)"
  "options_accecn (replicate n OptNop) = None"
  by (simp_all add: options_accecn_def option_parts find_opt_append find_opt_replicate split: option.split prod.split)

lemma options_mss_sent:
  "options_mss (pad_options (tx_option_list oa)) =
     (case oa_mss oa of Some mss \<Rightarrow> if mss \<noteq> 0 then Some mss else None | None \<Rightarrow> None)"
  by (simp add: pad_options_def tx_option_list_def mss_in_parts split: option.split)

lemma options_wscale_sent:
  "options_wscale (pad_options (tx_option_list oa)) =
     (case oa_wscale oa of Some wscale \<Rightarrow> if wscale \<noteq> 0 then Some wscale else None | None \<Rightarrow> None)"
  by (simp add: pad_options_def tx_option_list_def wscale_in_parts split: option.split)

lemma options_sackperm_sent:
  "options_sackperm (pad_options (tx_option_list oa)) =
     (if oa_sackperm oa then Some True else None)"
  by (simp add: pad_options_def tx_option_list_def sackperm_in_parts split: option.split)

lemma options_sack_sent:
  "options_sack (pad_options (tx_option_list oa)) =
     (case oa_sack_blocks oa of Some blocks \<Rightarrow> if blocks \<noteq> [] then Some blocks else None | None \<Rightarrow> None)"
  by (simp add: pad_options_def tx_option_list_def sack_in_parts split: option.split)

lemma options_timestamps_sent:
  "options_timestamps (pad_options (tx_option_list oa)) =
     (case (oa_tsval oa, oa_tsecr oa) of (Some tsval, Some tsecr) \<Rightarrow> Some (tsval, tsecr) | _ \<Rightarrow> None)"
  by (simp add: pad_options_def tx_option_list_def timestamps_in_parts split: option.split)

lemma options_fastopen_sent:
  "options_fastopen (pad_options (tx_option_list oa)) =
     oa_fastopen_cookie oa"
  by (simp add: pad_options_def tx_option_list_def fastopen_in_parts split: option.split)

lemma options_accecn_sent:
  "accecn_tuple (options_accecn (pad_options (tx_option_list oa))) =
     (case oa_accecn0_counters oa of Some c \<Rightarrow> Some c | None \<Rightarrow> oa_accecn1_counters oa)"
  by (simp add: pad_options_def tx_option_list_def accecn_in_parts accecn_tuple_def split: option.split prod.split)

lemmas options_sent =
  options_mss_sent options_wscale_sent options_sackperm_sent options_sack_sent options_timestamps_sent
  options_fastopen_sent options_accecn_sent

section \<open>From session to session\<close>

text \<open>The metadata a peer should see for a segment a session sends.\<close>

definition delivered_md :: "int \<Rightarrow> tcp_segment \<Rightarrow> tcp_metadata" where
  "delivered_md ecn sg =
     \<lparr>md_ecn = ecn, md_syn = sg_syn sg, md_ack_flag = sg_ack_flag sg, md_fin = sg_fin sg, md_rst = sg_rst sg,
      md_ece = sg_ece sg, md_cwr = sg_cwr sg, md_ns = sg_ns sg, md_seq = sg_seq sg, md_ack = sg_ack sg,
      md_win = sg_win sg,
      md_wscale = (case sg_wscale sg of Some wscale \<Rightarrow> wscale | None \<Rightarrow> 0),
      md_mss = (case sg_mss sg of Some mss \<Rightarrow> if mss = 0 then 536 else mss | None \<Rightarrow> 536),
      md_sackperm = sg_sackperm sg,
      md_sack_blocks = (case sg_sack_blocks sg of Some blocks \<Rightarrow> blocks | None \<Rightarrow> []),
      md_tsval = (if sg_tsecr sg = None then None else sg_tsval sg),
      md_tsecr = (if sg_tsval sg = None then None else sg_tsecr sg),
      md_fastopen_cookie = sg_fastopen_cookie sg,
      md_accecn0_counters =
        (case sg_accecn0_counters sg of Some c \<Rightarrow> Some c | None \<Rightarrow> sg_accecn1_counters sg),
      md_data = sg_payload sg\<rparr>"

lemma word_of_uint_blocks: "map ((\<lambda>(l, r). (word_of_int l, word_of_int r)) \<circ> (\<lambda>(l, r). (uint l, uint r))) bs = bs"
  for bs :: "sack_block list"
  by (induction bs) auto

lemma rx_metadata_sent:
  "rx_metadata ecn \<lparr>seg_header = (segment_header lport rport sg)\<lparr>h_hlen := n, h_cksum := ck\<rparr>,
      seg_options = pad_options (tx_option_list (segment_options sg)), seg_payload = sg_payload sg\<rparr> =
   delivered_md ecn sg"
  unfolding rx_metadata_def delivered_md_def Let_def
  by (simp add: segment_header_def segment_options_def mss_property_def wscale_property_def sackperm_property_def
      options_sent word_of_uint_blocks split: option.split)


lemma parts_no_eol:
  "OptEol \<notin> set (mss_part oa)"
  "OptEol \<notin> set (sackperm_part oa)"
  "OptEol \<notin> set (wscale_part oa)"
  "OptEol \<notin> set (sack_part oa)"
  "OptEol \<notin> set (timestamps_part oa)"
  "OptEol \<notin> set (fastopen_part oa)"
  "OptEol \<notin> set (accecn_part oa)"
  by (simp_all add: option_parts split: option.split prod.split)

lemma tx_list_no_eol: "OptEol \<notin> set (butlast (pad_options (tx_option_list oa)))"
proof -
  have "OptEol \<notin> set (pad_options (tx_option_list oa))"
    by (simp add: pad_options_def tx_option_list_def parts_no_eol)
  then show ?thesis by (meson in_set_butlastD)
qed

lemma pad_ok: "list_all option_ok (pad_options opts) \<longleftrightarrow> list_all option_ok opts"
  by (auto simp: pad_options_def list_all_iff)

lemma send_outcome:
  assumes "send_tcp_packet local remote lport rport sg = Inr (v, pkt)"
  shows "tcp_assembler (segment_header lport rport sg) (pad_options (tx_option_list (segment_options sg))) (sg_payload sg) = Inr pkt \<and>
    list_all option_ok (tx_option_list (segment_options sg)) \<and> ia_version local = v \<and> ia_version remote = v"
  using assms unfolding send_tcp_packet_def phtx_tcp_def phtx_options_eq
  by (auto simp: checked_def split: if_splits)

lemma assembled_packet:
  assumes "tcp_assembler args opts payload = Inr pkt"
  shows "pkt = \<lparr>seg_header = args\<lparr>h_hlen := 20 + int (options_len opts), h_cksum := 0\<rparr>, seg_options = opts, seg_payload = payload\<rparr>"
  using assms unfolding tcp_assembler_def mk_tcp_header_def
  by (simp only: passert_eq_Inr bind_res_eq_Inr) (auto simp only: sum.inject)

section \<open>A concrete connection\<close>

definition sample_rq :: tx_request where
  "sample_rq = \<lparr>rq_seq = None, rq_syn = False, rq_ack = True, rq_fin = False, rq_rst = False, rq_psh = False, rq_data = [1, 2]\<rparr>"

definition sample_host :: "int \<Rightarrow> ip_address" where
  "sample_host n = \<lparr>ia_version = IP4, ia_int = 0x0A000000 + n\<rparr>"

definition sample_ack :: tcp_segment where
  "sample_ack = \<lparr>sg_ecn = 0, sg_syn = False, sg_ack_flag = True, sg_fin = False, sg_rst = False, sg_psh = True, sg_ece = False,
     sg_cwr = False, sg_ns = False, sg_seq = 0xFFFFFFFE, sg_ack = 17, sg_win = 1024, sg_mss = None, sg_wscale = None,
     sg_sackperm = False, sg_sack_blocks = Some [(100, 200), (0xFFFFFFF0, 3)], sg_tsval = Some 5000, sg_tsecr = Some 4000,
     sg_fastopen_cookie = None, sg_accecn0_counters = Some (None, None, None), sg_accecn1_counters = None,
     sg_payload = [104, 105]\<rparr>"

definition sample_packet :: tcp_packet where
  "sample_packet =
     \<lparr>seg_header = (segment_header 49152 443 sample_ack)\<lparr>h_hlen := 52\<rparr>,
      seg_options = pad_options (tx_option_list (segment_options sample_ack)), seg_payload = [104, 105]\<rparr>"

lemma sample_sent: "send_tcp_packet (sample_host 1) (sample_host 2) 49152 443 sample_ack = Inr (IP4, sample_packet)"
  by code_simp

lemma sample_packet_sum: "sum_exact sample_packet 4321" "segment_len sample_packet = 54"
  by code_simp+

section \<open>Properties\<close>

text \<open>
  C4. End to end, with every outcome. A segment that a session hands to the packet handler and
  that the handler accepts is encoded, for a pseudo-header sum below 2 to the 96 and a length
  below 2 to the 32; let the socket of the connection exist at the receiving side. The receiving
  handler drops the segment in two cases: the checksum code lost a carry, so that the checksum is not the one of RFC
  1071, or the header is one the assembler lets pass and the parser's sanity check refuses (a
  port 0, SYN with FIN or RST, FIN with RST or without ACK). In every other case it delivers it to that
  socket as exactly the metadata that describes it: same sequence numbers, flags, window,
  payload, SACK blocks, timestamps, Fast Open cookie and counters, a window scale or MSS option
  that was not sent read as its default.
\<close>

theorem segment_delivered:
  assumes "send_tcp_packet local remote lport rport sg = Inr (v, pkt)"
    and "0 \<le> psum" "psum < 2 ^ 96" "segment_len pkt < 2 ^ 32"
    and "sockets (active_socket_id v remote rport local lport) \<noteq> None"
  shows "\<exists>bufs. assemble pkt psum = Inr bufs \<and>
    phrx_tcp sockets v ecn local remote (concat bufs @ trailer) (int (segment_len pkt)) psum True =
      (if sum_exact pkt psum \<and> header_sane (segment_header lport rport sg)
       then To_Active (active_socket_id v remote rport local lport) (delivered_md ecn sg)
       else Parse_Drop)"
proof -
  let ?opts = "pad_options (tx_option_list (segment_options sg))"
  have a: "tcp_assembler (segment_header lport rport sg) ?opts (sg_payload sg) = Inr pkt"
      "list_all option_ok ?opts" "OptEol \<notin> set (butlast ?opts)"
    using send_outcome [OF assms(1)] by (simp_all add: pad_ok tx_list_no_eol)
  have ok: "segment_ok pkt" "header_sane (seg_header pkt) = header_sane (segment_header lport rport sg)"
    using assembler_segment_ok [OF a] by blast+
  obtain bufs ck where b: "assemble pkt psum = Inr bufs"
      "tcp_parser (concat bufs @ trailer) (int (segment_len pkt)) psum True =
         (if \<not> sum_exact pkt psum then Inl IntegrityError else if \<not> header_sane (seg_header pkt) then Inl SanityError
          else Inr (pkt\<lparr>seg_header := (seg_header pkt)\<lparr>h_cksum := ck\<rparr>\<rparr>, seg_payload pkt @ trailer))"
    by (rule assembled_parses [OF ok(1) assms(2-4)])
  have p: "pkt\<lparr>seg_header := (seg_header pkt)\<lparr>h_cksum := ck\<rparr>\<rparr> =
      \<lparr>seg_header = (segment_header lport rport sg)\<lparr>h_hlen := 20 + int (options_len ?opts), h_cksum := ck\<rparr>,
       seg_options = ?opts, seg_payload = sg_payload sg\<rparr>"
    by (simp add: assembled_packet [OF a(1)])
  have "rx_demux sockets v ecn local remote (pkt\<lparr>seg_header := (seg_header pkt)\<lparr>h_cksum := ck\<rparr>\<rparr>) =
      To_Active (active_socket_id v remote rport local lport) (delivered_md ecn sg)"
    using assms(5) unfolding rx_demux_def Let_def p rx_metadata_sent by (simp add: segment_header_def)
  then show ?thesis using b ok(2) by (simp add: phrx_tcp_def)
qed


theorem segment_delivered_witness:
  "\<exists>bufs. assemble sample_packet 4321 = Inr bufs \<and>
    phrx_tcp [active_socket_id IP4 (sample_host 2) 443 (sample_host 1) 49152 \<mapsto> \<lparr>sk_family = IP4, sk_ipv6_v6only = False\<rparr>]
      IP4 2 (sample_host 1) (sample_host 2) (concat bufs @ [0]) 54 4321 True =
      To_Active (active_socket_id IP4 (sample_host 2) 443 (sample_host 1) 49152) (delivered_md 2 sample_ack)"
  using segment_delivered [OF sample_sent, of 4321
      "[active_socket_id IP4 (sample_host 2) 443 (sample_host 1) 49152 \<mapsto> \<lparr>sk_family = IP4, sk_ipv6_v6only = False\<rparr>]" 2 "[0]"]
    sample_packet_sum
  by (simp add: header_sane_def segment_header_def sample_ack_def)

section \<open>Option space\<close>

text \<open>What a session puts in the options of a segment.\<close>

lemma composed_fields:
  assumes "compose_segment env seq ack rq s = (s', sg)"
  shows "sg_mss sg = (if rq_syn rq then Some (min (min (win_rcv_mss (se_win s')) 0xFFFF)
           (if se_maxseg_override s' > 0 then se_maxseg_override s' else 0xFFFF)) else None)"
    and "sg_wscale sg = (if rq_syn rq then Some (if adv_wscale (se_advertise s) then win_rcv_wsc (se_win s) else 0) else None)"
    and "sg_sackperm sg \<longrightarrow> rq_syn rq"
    and "sg_sack_blocks sg = snd (tx_sack_option rq s)"
    and "(sg_tsval sg, sg_tsecr sg) = tx_timestamps env rq (fst (tx_sack_option rq s))"
    and "sg_fastopen_cookie sg = phase3_build_fastopen_cookie env rq (fst (phase1_compose_ecn_flags rq (fst (tx_sack_option rq s))))"
    and "(sg_accecn0_counters sg, sg_accecn1_counters sg) =
           snd (phase2_build_accecn_counters rq (fst (phase1_compose_ecn_flags rq (fst (tx_sack_option rq s)))))"
    and "sg_win sg = tx_window_field rq s"
    and "sg_seq sg = seq" "sg_ack sg = ack"
proof -
  obtain s1 bs where 1: "tx_sack_option rq s = (s1, bs)" by (cases "tx_sack_option rq s")
  obtain tv te where 2: "tx_timestamps env rq s1 = (tv, te)" by (cases "tx_timestamps env rq s1")
  obtain s2 e c n where 3: "phase1_compose_ecn_flags rq s1 = (s2, e, c, n)" by (cases "phase1_compose_ecn_flags rq s1")
  obtain s3 a0 a1 where 4: "phase2_build_accecn_counters rq s2 = (s3, a0, a1)" by (cases "phase2_build_accecn_counters rq s2")
  note C = assms [unfolded compose_segment_def Let_def 1 prod.case 2 3 4 prod.inject]
  show "sg_mss sg = (if rq_syn rq then Some (min (min (win_rcv_mss (se_win s')) 0xFFFF)
           (if se_maxseg_override s' > 0 then se_maxseg_override s' else 0xFFFF)) else None)"
    and "sg_wscale sg = (if rq_syn rq then Some (if adv_wscale (se_advertise s) then win_rcv_wsc (se_win s) else 0) else None)"
    and "sg_sackperm sg \<longrightarrow> rq_syn rq"
    and "sg_sack_blocks sg = snd (tx_sack_option rq s)"
    and "(sg_tsval sg, sg_tsecr sg) = tx_timestamps env rq (fst (tx_sack_option rq s))"
    and "sg_fastopen_cookie sg = phase3_build_fastopen_cookie env rq (fst (phase1_compose_ecn_flags rq (fst (tx_sack_option rq s))))"
    and "(sg_accecn0_counters sg, sg_accecn1_counters sg) =
           snd (phase2_build_accecn_counters rq (fst (phase1_compose_ecn_flags rq (fst (tx_sack_option rq s)))))"
    and "sg_win sg = tx_window_field rq s"
    and "sg_seq sg = seq" "sg_ack sg = ack"
    unfolding 1 fst_conv snd_conv 2 3 4 using C [THEN conjunct1, symmetric] C [THEN conjunct2, symmetric] by simp_all
qed


lemma options_len_append: "options_len (xs @ ys) = options_len xs + options_len ys"
  by (simp add: options_len_def)

lemma part_lens:
  "options_len (mss_part oa) \<le> 4" "oa_mss oa = None \<Longrightarrow> options_len (mss_part oa) = 0"
  "options_len (sackperm_part oa) = (if oa_sackperm oa then 2 else 0)"
  "options_len (wscale_part oa) \<le> 4" "oa_wscale oa = None \<Longrightarrow> options_len (wscale_part oa) = 0"
  "options_len (sack_part oa) =
     (case oa_sack_blocks oa of Some blocks \<Rightarrow> if blocks \<noteq> [] then 2 + 8 * length blocks else 0 | None \<Rightarrow> 0)"
  "options_len (timestamps_part oa) = (if oa_tsval oa \<noteq> None \<and> oa_tsecr oa \<noteq> None then 10 else 0)"
  "options_len (fastopen_part oa) = (case oa_fastopen_cookie oa of Some cookie \<Rightarrow> 2 + length cookie | None \<Rightarrow> 0)"
  "oa_accecn0_counters oa = None \<Longrightarrow> oa_accecn1_counters oa = None \<Longrightarrow> options_len (accecn_part oa) = 0"
  by (simp_all add: option_parts options_len_def split: option.split)

definition cookie_ok :: "bytes option \<Rightarrow> bool" where
  "cookie_ok c = (case c of None \<Rightarrow> True | Some cookie \<Rightarrow> length cookie = 0 \<or> (4 \<le> length cookie \<and> length cookie \<le> 16))"

lemma sack_count:
  assumes "tx_sack_option rq s = (s1, blocks)"
  shows "(blocks = None \<or> (\<not> rq_syn rq \<and> (\<exists>bs. blocks = Some bs \<and> length bs \<le> (if ts_send_ts (se_ts s) then 3 else 4)))) \<and>
    (\<exists>d. s1 = s\<lparr>se_pending_dsack := d\<rparr>)"
  using assms unfolding tx_sack_option_def build_sack_blocks_def Let_def
  by (auto split: if_splits option.splits intro: exI [of _ "se_pending_dsack s"])

lemma ecn_off_frame:
  assumes "\<not> ae_enabled (se_accecn s)" "phase1_compose_ecn_flags rq s = (s', c)"
  shows "\<exists>e. s' = s\<lparr>se_ecn := e\<rparr>"
proof -
  have "s' = s\<lparr>se_ecn := se_ecn s'\<rparr>"
    using assms(2) unfolding phase1_compose_ecn_flags_def
    by (auto simp: assms(1) split: if_splits prod.splits)
  then show ?thesis by blast
qed

text \<open>The options of a session without AccECN.\<close>

lemma plain_options:
  assumes "compose_segment env seq ack rq s = (s', sg)" "\<not> ae_enabled (se_accecn s)"
  shows "sg_accecn0_counters sg = None \<and> sg_accecn1_counters sg = None \<and>
    (if rq_syn rq then sg_sack_blocks sg = None
     else sg_mss sg = None \<and> sg_wscale sg = None \<and> \<not> sg_sackperm sg \<and> sg_fastopen_cookie sg = None \<and>
       (case sg_sack_blocks sg of None \<Rightarrow> True
        | Some bs \<Rightarrow> length bs \<le> (if sg_tsval sg = None then 4 else 3)))"
proof -
  note f = composed_fields [OF assms(1)]
  obtain s1 blocks where 1: "tx_sack_option rq s = (s1, blocks)" by (cases "tx_sack_option rq s")
  obtain d where d: "s1 = s\<lparr>se_pending_dsack := d\<rparr>" using sack_count [OF 1] by blast
  obtain s2 c where 2: "phase1_compose_ecn_flags rq s1 = (s2, c)" by (cases "phase1_compose_ecn_flags rq s1")
  obtain e where e: "s2 = s1\<lparr>se_ecn := e\<rparr>" using ecn_off_frame [OF _ 2] assms(2) d by auto
  have acc: "sg_accecn0_counters sg = None" "sg_accecn1_counters sg = None"
    using f(7) [unfolded 1 fst_conv 2] assms(2) by (simp_all add: e d phase2_build_accecn_counters_def)
  have ck: "\<not> rq_syn rq \<Longrightarrow> sg_fastopen_cookie sg = None"
    using f(6) [unfolded 1 fst_conv 2] by (auto simp: e d phase3_build_fastopen_cookie_def split: option.splits)
  have ts: "\<not> rq_syn rq \<Longrightarrow> sg_tsval sg = None \<longleftrightarrow> \<not> ts_send_ts (se_ts s)"
    using f(5) [unfolded 1 fst_conv] by (auto simp: d tx_timestamps_def Let_def split: if_splits)
  show ?thesis using f(1-3) f(4) [unfolded 1 snd_conv] acc ck ts sack_count [OF 1, THEN conjunct1]
    by (auto split: option.splits if_splits)
qed


lemma uint32_ok [simp]: "is_uint32 (uint (w :: 32 word))"
  using uint_lt2p [of w] by (simp add: is_uint32_def)

lemma plain_list_ok:
  assumes "sg_accecn0_counters sg = None" "sg_accecn1_counters sg = None"
    and "case sg_sack_blocks sg of None \<Rightarrow> True | Some bs \<Rightarrow> length bs \<le> 4"
  shows "list_all option_ok (tx_option_list (segment_options sg)) \<longleftrightarrow>
    cookie_ok (sg_fastopen_cookie sg) \<and> (case sg_mss sg of None \<Rightarrow> True | Some mss \<Rightarrow> is_uint16 mss) \<and>
    (case sg_wscale sg of None \<Rightarrow> True | Some wscale \<Rightarrow> 0 \<le> wscale \<and> wscale \<le> 14)"
proof -
  let ?oa = "segment_options sg"
  have "list_all option_ok (sackperm_part ?oa)" "list_all option_ok (timestamps_part ?oa)" "list_all option_ok (accecn_part ?oa)"
    using assms(1,2) by (simp_all add: option_parts segment_options_def split: option.splits)
  moreover have "list_all option_ok (sack_part ?oa)"
    using assms(3) by (auto simp: option_parts segment_options_def list_all_iff split: option.splits)
  moreover have "list_all option_ok (fastopen_part ?oa) \<longleftrightarrow> cookie_ok (sg_fastopen_cookie sg)"
    by (simp add: option_parts segment_options_def cookie_ok_def split: option.splits)
  moreover have "list_all option_ok (mss_part ?oa) \<longleftrightarrow> (case sg_mss sg of None \<Rightarrow> True | Some mss \<Rightarrow> is_uint16 mss)"
    by (auto simp: option_parts segment_options_def is_uint16_def split: option.splits)
  moreover have "list_all option_ok (wscale_part ?oa) \<longleftrightarrow>
      (case sg_wscale sg of None \<Rightarrow> True | Some wscale \<Rightarrow> 0 \<le> wscale \<and> wscale \<le> 14)"
    by (auto simp: option_parts segment_options_def is_uint8_def split: option.splits)
  ultimately show ?thesis by (simp add: tx_option_list_def) blast
qed

lemma plain_list_fits:
  assumes "sg_accecn0_counters sg = None" "sg_accecn1_counters sg = None" "cookie_ok (sg_fastopen_cookie sg)"
    and "if syn then sg_sack_blocks sg = None
      else sg_mss sg = None \<and> sg_wscale sg = None \<and> \<not> sg_sackperm sg \<and> sg_fastopen_cookie sg = None \<and>
        (case sg_sack_blocks sg of None \<Rightarrow> True | Some bs \<Rightarrow> length bs \<le> (if sg_tsval sg = None then 4 else 3))"
  shows "options_len (pad_options (tx_option_list (segment_options sg))) \<le> 40"
proof -
  let ?oa = "segment_options sg"
  have "options_len (tx_option_list ?oa) \<le> 38"
    using assms part_lens(1,2,4,5) [of ?oa]
    by (auto simp: tx_option_list_def options_len_append part_lens(3,6-9) segment_options_def cookie_ok_def
        split: option.splits if_splits)
  then show ?thesis using pad_len [of "tx_option_list ?oa"] by presburger
qed

text \<open>Sending, once the options are known to fit: the options and the window field decide.\<close>

lemma send_decided:
  fixes sg :: tcp_segment
  assumes ports: "is_uint16 lport" "is_uint16 rport" "ia_version local = ia_version remote"
  defines "opts \<equiv> pad_options (tx_option_list (segment_options sg))"
  assumes fit: "list_all option_ok (tx_option_list (segment_options sg)) \<Longrightarrow> options_len opts \<le> 40"
  shows "send_tcp_packet local remote lport rport sg =
    (if list_all option_ok (tx_option_list (segment_options sg)) \<and> is_uint16 (sg_win sg)
     then Inr (ia_version remote,
       \<lparr>seg_header = (segment_header lport rport sg)\<lparr>h_hlen := 20 + int (options_len opts), h_cksum := 0\<rparr>,
        seg_options = opts, seg_payload = sg_payload sg\<rparr>)
     else Inl AssertionError)"
proof (cases "list_all option_ok (tx_option_list (segment_options sg))")
  case True
  let ?h = "(segment_header lport rport sg)\<lparr>h_hlen := 20 + int (options_len opts), h_cksum := 0\<rparr>"
  have al: "is_4_byte_alligned (int (options_len opts))" using pad_len(1) [of "tx_option_list (segment_options sg)"]
    unfolding is_4_byte_alligned_def opts_def by presburger
  have "is_uint6 (20 + int (options_len opts))" "is_4_byte_alligned (20 + int (options_len opts))"
    using fit [OF True] al unfolding is_uint6_def is_4_byte_alligned_def by presburger+
  then have "header_ok ?h \<longleftrightarrow> is_uint16 (sg_win sg)"
    using ports(1,2) by (simp add: header_ok_def segment_header_def) (simp add: is_uint16_def)
  moreover have "OptEol \<notin> set opts" by (simp add: opts_def pad_options_def tx_option_list_def parts_no_eol)
  ultimately have "tcp_assembler (segment_header lport rport sg) opts (sg_payload sg) =
      (if is_uint16 (sg_win sg) then Inr \<lparr>seg_header = ?h, seg_options = opts, seg_payload = sg_payload sg\<rparr> else Inl AssertionError)"
    using fit [OF True] al by (simp add: tcp_assembler_def mk_tcp_header_def passert_def del: bind_res_eq_Inr)
  then show ?thesis
    using True ports(3) unfolding send_tcp_packet_def phtx_tcp_def phtx_options_eq opts_def [symmetric]
    by (cases "ia_version remote") (simp_all add: checked_def opts_def del: bind_res_eq_Inr)
next
  case False
  then have "phtx_options (segment_options sg) = Inl AssertionError" by (simp add: phtx_options_eq checked_def)
  then show ?thesis using False by (simp add: send_tcp_packet_def phtx_tcp_def)
qed

text \<open>
  C7. Which segments of a session can be sent. Whatever mix of MSS, window scale,
  SACK-permitted, SACK blocks, timestamps and Fast Open cookie the state of a session without
  AccECN calls for, the options of the segment it composes fit the 40 bytes a TCP header has for
  them, if the cookie has a length its option can have. The packet handler then builds the packet with the header
  fields, options and payload of the segment exactly when four conditions hold, and raises
  \<open>AssertionError\<close> when one fails: the value for the window field fits its 16 bits, the cookie, if one is sent, is empty or
  has 4 to 16 bytes, and on a SYN the receive MSS is not negative and the window scale, if offered, is at most 14. The window
  is the condition that the settings can break: \<open>tcp.rcv_wnd_max\<close> is any positive number and
  an unscaled window above 65535 is not clamped. Ports are 16-bit numbers and the two addresses
  of one version.
\<close>

theorem session_segment_encodable:
  assumes "compose_segment env seq ack rq s = (s', sg)" "\<not> ae_enabled (se_accecn s)"
    and "is_uint16 lport" "is_uint16 rport" "ia_version local = ia_version remote"
  defines "opts \<equiv> pad_options (tx_option_list (segment_options sg))"
  shows "(cookie_ok (sg_fastopen_cookie sg) \<longrightarrow> options_len opts \<le> 40) \<and>
    send_tcp_packet local remote lport rport sg =
      (if is_uint16 (tx_window_field rq s) \<and> cookie_ok (sg_fastopen_cookie sg) \<and>
          (rq_syn rq \<longrightarrow> 0 \<le> win_rcv_mss (se_win s)) \<and>
          (rq_syn rq \<and> adv_wscale (se_advertise s) \<longrightarrow> 0 \<le> win_rcv_wsc (se_win s) \<and> win_rcv_wsc (se_win s) \<le> 14)
       then Inr (ia_version remote,
         \<lparr>seg_header = (segment_header lport rport sg)\<lparr>h_hlen := 20 + int (options_len opts), h_cksum := 0\<rparr>,
          seg_options = opts, seg_payload = sg_payload sg\<rparr>)
       else Inl AssertionError)"
proof -
  note f = composed_fields [OF assms(1)]
  note p = plain_options [OF assms(1,2)]
  obtain d e a where s': "s' = s\<lparr>se_pending_dsack := d, se_ecn := e, se_accecn := a\<rparr>"
    by (rule compose_frame [OF assms(1)])
  have mss: "(case sg_mss sg of None \<Rightarrow> True | Some mss \<Rightarrow> is_uint16 mss) \<longleftrightarrow> (rq_syn rq \<longrightarrow> 0 \<le> win_rcv_mss (se_win s))"
    unfolding f(1) by (auto simp: s' is_uint16_def)
  have wsc: "(case sg_wscale sg of None \<Rightarrow> True | Some wscale \<Rightarrow> 0 \<le> wscale \<and> wscale \<le> 14) \<longleftrightarrow>
      (rq_syn rq \<and> adv_wscale (se_advertise s) \<longrightarrow> 0 \<le> win_rcv_wsc (se_win s) \<and> win_rcv_wsc (se_win s) \<le> 14)"
    unfolding f(2) by simp
  have sacks: "case sg_sack_blocks sg of None \<Rightarrow> True | Some bs \<Rightarrow> length bs \<le> 4"
    using p by (auto split: option.splits if_splits)
  have ok: "list_all option_ok (tx_option_list (segment_options sg)) \<longleftrightarrow> cookie_ok (sg_fastopen_cookie sg) \<and>
      (rq_syn rq \<longrightarrow> 0 \<le> win_rcv_mss (se_win s)) \<and>
      (rq_syn rq \<and> adv_wscale (se_advertise s) \<longrightarrow> 0 \<le> win_rcv_wsc (se_win s) \<and> win_rcv_wsc (se_win s) \<le> 14)"
    unfolding mss [symmetric] wsc [symmetric] using p sacks by (intro plain_list_ok) blast+
  have fit: "cookie_ok (sg_fastopen_cookie sg) \<Longrightarrow> options_len opts \<le> 40"
    unfolding opts_def by (rule plain_list_fits [where syn = "rq_syn rq"]) (use p in blast)+
  show ?thesis using fit send_decided [OF assms(3-5), of sg, folded opts_def] unfolding ok f(8) by auto
qed


theorem session_segment_encodable_witness:
  "\<exists>s' sg pkt. compose_segment sample_env 1 1 sample_rq (sample_session\<lparr>se_pending_dsack := Some (1, 5)\<rparr>) = (s', sg) \<and>
    send_tcp_packet (sample_host 1) (sample_host 2) 49152 443 sg = Inr (IP4, pkt)"
proof -
  let ?s = "sample_session\<lparr>se_pending_dsack := Some (1, 5)\<rparr>"
  obtain s' sg where c: "compose_segment sample_env 1 1 sample_rq ?s = (s', sg)"
    by (cases "compose_segment sample_env 1 1 sample_rq ?s")
  have w: "\<not> ae_enabled (se_accecn ?s)" "is_uint16 (tx_window_field sample_rq ?s)" "\<not> rq_syn sample_rq" by code_simp+
  have "sg_fastopen_cookie sg = None" using composed_fields(6) [OF c] w(3) by (simp add: phase3_build_fastopen_cookie_def)
  then show ?thesis
    using session_segment_encodable [OF c, of 49152 443 "sample_host 1" "sample_host 2"] w c
    by (auto simp: sample_host_def is_uint16_def cookie_ok_def)
qed

text \<open>
  With AccECN the options can exceed 40 bytes and the assembler's assertion fails: an
  acknowledgment with timestamps and three SACK blocks has no room for a changed byte counter.
\<close>

lemma too_long_unsendable:
  assumes "40 < options_len (tx_option_list (segment_options sg))"
  shows "send_tcp_packet local remote lport rport sg = Inl AssertionError"
proof -
  have "\<not> options_len (pad_options (tx_option_list (segment_options sg))) \<le> 40"
    using assms pad_len(2) [of "tx_option_list (segment_options sg)"] by linarith
  then have "tcp_assembler args (pad_options (tx_option_list (segment_options sg))) payload = Inl AssertionError" for args payload
    by (simp add: tcp_assembler_def)
  then show ?thesis
    unfolding send_tcp_packet_def phtx_tcp_def phtx_options_eq checked_def by simp
qed

lemma accecn_sack_overflow:
  assumes "sg_tsval sg = Some tv" "sg_tsecr sg = Some te" "sg_sack_blocks sg = Some bs" "length bs = 3"
    and "sg_accecn0_counters sg = Some (Some e0b, None, None)" "is_uint24 e0b" "sg_accecn1_counters sg = None"
    and "sg_mss sg = None" "sg_wscale sg = None" "\<not> sg_sackperm sg" "sg_fastopen_cookie sg = None"
  shows "send_tcp_packet local remote lport rport sg = Inl AssertionError"
proof -
  let ?oa = "segment_options sg"
  have parts: "mss_part ?oa = []" "sackperm_part ?oa = []" "wscale_part ?oa = []" "fastopen_part ?oa = []"
      "sack_part ?oa = [OptSack (map (\<lambda>(l, r). (uint l, uint r)) bs)]"
      "timestamps_part ?oa = [OptTimestamps (uint tv) (uint te)]" "accecn_part ?oa = [OptAccecn0 (Some e0b) None None]"
    using assms by (auto simp: option_parts segment_options_def)
  have "options_len (tx_option_list ?oa) = 41"
    by (simp add: tx_option_list_def parts options_len_def assms(4) accecn_len_def)
  then show ?thesis by (intro too_long_unsendable) simp
qed

text \<open>The session composes such a segment when three segments are queued out of order and ECT(0) bytes arrived.\<close>

lemma accecn_sack_composed:
  assumes "compose_segment env seq ack rq s = (s', sg)" "\<not> rq_syn rq" "\<not> rq_rst rq"
    and "ae_enabled (se_accecn s)" "ae_handshake_ack_pending (se_accecn s) = None" "is_uint24 (r_ect0_b (se_accecn s))"
    and "r_ect0_b (se_accecn s) \<noteq> r_last_emit_e0b (se_accecn s)" "r_ce_b (se_accecn s) = r_last_emit_ceb (se_accecn s)"
      "r_ect1_b (se_accecn s) = r_last_emit_e1b (se_accecn s)"
    and "adv_send_sack (se_advertise s)" "ts_send_ts (se_ts s)" "se_pending_dsack s = None" "3 \<le> length (se_ooo_packet_queue s)"
  shows "send_tcp_packet local remote lport rport sg = Inl AssertionError"
proof -
  note f = composed_fields [OF assms(1)]
  define s1 where "s1 = s\<lparr>se_pending_dsack := None\<rparr>"
  have ne: "se_ooo_packet_queue s \<noteq> []" using assms(13) by auto
  obtain bs where 1: "tx_sack_option rq s = (s1, Some bs)" "length bs = 3"
    using assms(2,10-13) ne unfolding tx_sack_option_def build_sack_blocks_def Let_def s1_def by auto
  obtain s2 c where 2: "phase1_compose_ecn_flags rq s1 = (s2, c)" by (cases "phase1_compose_ecn_flags rq s1")
  have ae: "se_accecn s2 = se_accecn s" "se_ts s2 = se_ts s"
    using 2 assms(2-5) unfolding phase1_compose_ecn_flags_def next_ace_field_def s1_def
    by (auto split: if_splits prod.splits)
  have acc: "sg_accecn0_counters sg = Some (Some (r_ect0_b (se_accecn s)), None, None)" "sg_accecn1_counters sg = None"
    using f(7) [unfolded 1 fst_conv 2] assms(2-9)
    by (simp_all add: phase2_build_accecn_counters_def ae next_emit_counters_def Let_def)
  have "sg_tsval sg = Some (of_int (env_now_ms env))" "sg_tsecr sg = Some (ts_recent (se_ts s))"
    using f(5) [unfolded 1 fst_conv] assms(2,11) by (simp_all add: tx_timestamps_def Let_def s1_def)
  then show ?thesis
    using accecn_sack_overflow [of sg _ _ bs] f(1-3) f(4) [unfolded 1 snd_conv] f(6) 1(2) acc assms(2,6)
    by (simp add: phase3_build_fastopen_cookie_def)
qed

text \<open>A server's SYN with a Fast Open cookie of eight bytes and the initial counters does not fit either.\<close>

lemma accecn_fastopen_overflow:
  assumes "sg_tsval sg = Some tv" "sg_tsecr sg = Some te" "sg_sack_blocks sg = None"
    and "sg_accecn0_counters sg = Some (Some e0b, Some ceb, Some e1b)" "sg_accecn1_counters sg = None"
    and "sg_mss sg = Some mss" "mss \<noteq> 0" "sg_wscale sg = Some wscale" "wscale \<noteq> 0" "sg_sackperm sg"
    and "sg_fastopen_cookie sg = Some cookie" "length cookie = 8"
  shows "send_tcp_packet local remote lport rport sg = Inl AssertionError"
proof -
  let ?oa = "segment_options sg"
  have parts: "mss_part ?oa = [OptMss mss]" "sackperm_part ?oa = [OptSackperm]" "wscale_part ?oa = [OptNop, OptWscale wscale]"
      "fastopen_part ?oa = [OptFastopen cookie]" "sack_part ?oa = []"
      "timestamps_part ?oa = [OptTimestamps (uint tv) (uint te)]" "accecn_part ?oa = [OptAccecn0 (Some e0b) (Some ceb) (Some e1b)]"
    using assms by (auto simp: option_parts segment_options_def)
  have "options_len (tx_option_list ?oa) = 41"
    by (simp add: tx_option_list_def parts options_len_def assms(12) accecn_len_def)
  then show ?thesis by (intro too_long_unsendable) simp
qed


section \<open>Demultiplexing\<close>

text \<open>The reset packet itself.\<close>

definition reset_packet :: "tcp_header \<Rightarrow> tcp_packet" where
  "reset_packet h = \<lparr>seg_header = h\<lparr>h_hlen := 20\<rparr>, seg_options = [], seg_payload = []\<rparr>"

lemma phtx_no_options:
  assumes "ia_version src = ia_version dst" "h_cksum h = 0" "h_hlen h = 0"
  shows "phtx_tcp src dst h no_options [] =
    (if header_ok h then Inr (ia_version dst, reset_packet h) else Inl AssertionError)"
proof -
  have o: "phtx_options no_options = Inr []"
    by (simp add: phtx_options_eq checked_def tx_option_list_def option_parts no_options_def pad_options_def options_len_def)
  have hd: "h\<lparr>h_hlen := 20, h_cksum := 0\<rparr> = h\<lparr>h_hlen := 20\<rparr>" using assms(2) by simp
  have ok: "header_ok (h\<lparr>h_hlen := 20\<rparr>) \<longleftrightarrow> header_ok h"
    using assms(3) by (simp add: header_ok_def is_uint6_def is_4_byte_alligned_def)
  show ?thesis
    using assms(1) unfolding phtx_tcp_def o
    by (cases "ia_version dst") (simp_all add: tcp_assembler_def options_len_def is_4_byte_alligned_def mk_tcp_header_def hd ok reset_packet_def passert_def del: bind_res_eq_Inr)
qed

text \<open>
  A segment for which no socket exists and which is not itself a reset is answered as RFC 9293
  prescribes: with its acknowledgment number as sequence number if it carries one, otherwise with an
  acknowledgment of everything it occupies. The exception is a segment whose end passes
  \<open>2 ^ 32\<close>: the acknowledgment number is not reduced modulo \<open>2 ^ 32\<close> and the header assertion fails.
\<close>

theorem unmatched_segment_reset:
  assumes "header_ok (seg_header pkt)" "ia_version src = ia_version dst"
  shows "respond_rst src dst pkt =
    (let h = seg_header pkt;
         seg_end = h_seq h + of_bool (h_flag_syn h) + of_bool (h_flag_fin h) + int (length (seg_payload pkt)) in
     if h_flag_ack h then Inr (ia_version src, reset_packet (rst_header (h_dport h) (h_sport h) (h_ack h) 0 False))
     else if seg_end < 2 ^ 32 then Inr (ia_version src, reset_packet (rst_header (h_dport h) (h_sport h) 0 seg_end True))
     else Inl AssertionError)"
  using assms by (auto simp: respond_rst_def Let_def phtx_no_options rst_header_def header_ok_def uint_checks
      is_4_byte_alligned_def)

theorem unmatched_segment_reset_witness:
  "respond_rst (sample_host 1) (sample_host 2) \<lparr>seg_header = sample_syn\<lparr>h_seq := 7\<rparr>, seg_options = [], seg_payload = [1, 2, 3]\<rparr> =
     Inr (IP4, reset_packet (rst_header 443 49152 0 11 True)) \<and>
   respond_rst (sample_host 1) (sample_host 2) \<lparr>seg_header = sample_syn, seg_options = [], seg_payload = []\<rparr> = Inl AssertionError"
  using unmatched_segment_reset [of "\<lparr>seg_header = sample_syn\<lparr>h_seq := 7\<rparr>, seg_options = [], seg_payload = [1, 2, 3]\<rparr>"
      "sample_host 1" "sample_host 2"]
    unmatched_segment_reset [of "\<lparr>seg_header = sample_syn, seg_options = [], seg_payload = []\<rparr>" "sample_host 1" "sample_host 2"]
  by (simp add: sample_syn_def sample_host_def header_ok_def uint_checks is_4_byte_alligned_def)

text \<open>The listener a SYN is for: the first candidate whose socket takes packets to the address.\<close>

definition admits :: "(socket_id \<rightharpoonup> tcp_socket_view) \<Rightarrow> ip_address \<Rightarrow> socket_id \<Rightarrow> bool" where
  "admits sockets dst p \<longleftrightarrow> (\<exists>sk. sockets p = Some sk \<and> \<not> (sk_family sk = IP6 \<and> ia_version dst = IP4 \<and> sk_ipv6_v6only sk))"

definition first_listener :: "(socket_id \<rightharpoonup> tcp_socket_view) \<Rightarrow> ip_address \<Rightarrow> socket_id list \<Rightarrow> socket_id \<Rightarrow> bool" where
  "first_listener sockets dst ids p \<longleftrightarrow>
     (\<exists>before after. ids = before @ p # after \<and> admits sockets dst p \<and> (\<forall>q \<in> set before. \<not> admits sockets dst q))"

lemma find_listener_find: "find_listener sockets (ia_version dst) ps = find (admits sockets dst) ps"
  by (induction ps) (auto simp: admits_def split: option.split)

lemma first_listener_Cons:
  "first_listener sockets dst (q # ps) p \<longleftrightarrow> (if admits sockets dst q then p = q else first_listener sockets dst ps p)"
proof (cases "admits sockets dst q")
  case False
  have "first_listener sockets dst ps p" if "q # ps = before @ p # after" "admits sockets dst p" "\<forall>x \<in> set before. \<not> admits sockets dst x"
    for before after using that False unfolding first_listener_def by (cases before) auto
  moreover have "first_listener sockets dst (q # ps) p" if "first_listener sockets dst ps p"
  proof -
    obtain before after where "ps = before @ p # after" "admits sockets dst p" "\<forall>x \<in> set before. \<not> admits sockets dst x"
      using \<open>first_listener sockets dst ps p\<close> unfolding first_listener_def by blast
    then show ?thesis using False unfolding first_listener_def by (intro exI [of _ "q # before"] exI [of _ after]) simp
  qed
  ultimately show ?thesis using False unfolding first_listener_def [of _ _ "q # ps"] by auto
qed (auto simp: first_listener_def Cons_eq_append_conv)

lemma find_listener_Some: "find_listener sockets (ia_version dst) ps = Some p \<longleftrightarrow> first_listener sockets dst ps p"
  unfolding find_listener_find by (induction ps) (auto simp: first_listener_Cons, simp add: first_listener_def)

lemma find_listener_None: "find_listener sockets (ia_version dst) ps = None \<longleftrightarrow> (\<nexists>p. first_listener sockets dst ps p)"
  unfolding find_listener_Some [symmetric] by (cases "find_listener sockets (ia_version dst) ps") auto

text \<open>
  C9. Demultiplexing, for every frame and every set of sockets. A frame that the parser refuses
  reaches no socket and is not answered: it is dropped, but for the \<open>IndexError\<close> of the option walk, which
  escapes. A segment that parses reaches the socket of its four-tuple exactly when there is one.
  It reaches a listener exactly when there is none, the segment is a SYN without ACK, and the
  listener is the first of the candidates (the address, then any address, then any IPv6 address
  for an IPv4 packet) that exists and is not an IPv6-only socket for an IPv4 packet. When neither
  is so, a reset is dropped, and any other segment is answered as RFC 9293 prescribes, with a reset
  from the port addressed: at the acknowledgment number received if there is one, otherwise at 0 and with an acknowledgment
  of everything the segment occupies (as long as that number stays below 2 to the 32).
\<close>

theorem rx_demultiplexing:
  assumes "ia_version src = ia_version dst"
  shows "case tcp_parser frame plen psum validate of
      Inl e \<Rightarrow> e \<in> {IntegrityError, SanityError, IndexError} \<and>
        phrx_tcp sockets ver ecn src dst frame plen psum validate = (if e = IndexError then Raised IndexError else Parse_Drop)
    | Inr (pkt, rest) \<Rightarrow>
        (let h = seg_header pkt; active = active_socket_id ver dst (h_dport h) src (h_sport h);
             v = phrx_tcp sockets ver ecn src dst frame plen psum validate;
             wanted = (\<lambda>p. h_flag_syn h \<and> \<not> h_flag_ack h \<and> first_listener sockets dst (listening_socket_ids ver dst (h_dport h) src) p);
             seg_end = h_seq h + of_bool (h_flag_syn h) + of_bool (h_flag_fin h) + int (length (seg_payload pkt)) in
         (sockets active \<noteq> None \<longrightarrow> v = To_Active active (rx_metadata ecn pkt)) \<and>
         (\<forall>p. sockets active = None \<and> wanted p \<longrightarrow> v = To_Listener p (rx_metadata ecn pkt)) \<and>
         (sockets active = None \<and> (\<nexists>p. wanted p) \<longrightarrow>
            (if h_flag_rst h then v = Rst_Drop
             else \<exists>r. v = Respond r \<and>
               (h_flag_ack h \<longrightarrow> r = Inr (ia_version src, reset_packet (rst_header (h_dport h) (h_sport h) (h_ack h) 0 False))) \<and>
               (\<not> h_flag_ack h \<and> seg_end < 2 ^ 32 \<longrightarrow>
                  r = Inr (ia_version src, reset_packet (rst_header (h_dport h) (h_sport h) 0 seg_end True))))))"
proof (cases "tcp_parser frame plen psum validate")
  case (Inl e)
  then show ?thesis using parser_error_kinds [OF Inl] by (auto simp: phrx_tcp_def)
next
  case (Inr r)
  obtain pkt rest where r: "r = (pkt, rest)" by fastforce
  have ok: "header_ok (seg_header pkt)" "header_sane (seg_header pkt)"
    using parsed_header [of frame plen psum validate pkt rest] Inr r by simp_all
  let ?ids = "listening_socket_ids ver dst (h_dport (seg_header pkt)) src"
  have v: "phrx_tcp sockets ver ecn src dst frame plen psum validate = rx_demux sockets ver ecn src dst pkt"
    by (simp add: phrx_tcp_def Inr r)
  have flags: "h_flag_syn (seg_header pkt) \<and> \<not> (h_flag_ack (seg_header pkt) \<or> h_flag_fin (seg_header pkt) \<or> h_flag_rst (seg_header pkt)) \<longleftrightarrow>
      h_flag_syn (seg_header pkt) \<and> \<not> h_flag_ack (seg_header pkt)" using ok(2) by (auto simp: header_sane_def)
  note reset = unmatched_segment_reset [OF ok(1) assms]
  show ?thesis
  proof (cases "find_listener sockets (ia_version dst) ?ids")
    case None
    then have "\<not> first_listener sockets dst ?ids p" for p unfolding find_listener_None by blast
    then show ?thesis unfolding Inr r sum.case prod.case v Let_def rx_demux_def flags reset None by simp
  next
    case (Some q)
    have "first_listener sockets dst ?ids p \<longleftrightarrow> p = q" for p using Some find_listener_Some [of sockets dst ?ids p] by auto
    then show ?thesis unfolding Inr r sum.case prod.case v Let_def rx_demux_def flags reset Some by simp
  qed
qed

theorem rx_demultiplexing_witness:
  "\<exists>pkt rest r. tcp_parser sample_wire 43 77 True = Inr (pkt, rest) \<and>
    phrx_tcp Map.empty IP4 0 (sample_host 1) (sample_host 2) sample_wire 43 77 True = (if h_flag_rst (seg_header pkt) then Rst_Drop else Respond r)"
proof -
  obtain pkt rest where p: "tcp_parser sample_wire 43 77 True = Inr (pkt, rest)" using sample_wire_parses by blast
  show ?thesis using rx_demultiplexing [where src = "sample_host 1" and dst = "sample_host 2" and frame = sample_wire and plen = 43 and psum = 77
      and validate = True and sockets = Map.empty and ver = IP4 and ecn = 0] p
    by (auto simp: sample_host_def Let_def first_listener_def admits_def)
qed

end
