(* ===== verification/Ip_Block.thy ===== *)
theory Ip_Block
  imports Prelude "HOL-Library.Product_Lexorder"
begin

text \<open>
  The integer core of CIDR aggregation in \<^verbatim>\<open>pmd_net_addr/ip_network.py\<close>:
  \<open>IpNetwork._merge_spans\<close> (union of inclusive intervals) and
  \<open>IpNetwork._summarize_ints\<close> (greedy tiling of an interval with aligned blocks).

  An aligned block \<open>block a k\<close> is the set of the \<open>2 ^ k\<close> integers from \<open>a\<close>, where \<open>2 ^ k\<close>
  divides \<open>a\<close>. Two aligned blocks are disjoint or nested, which is all that the exactness
  and minimality of the greedy tiling need.
\<close>

section \<open>Definitions\<close>

text \<open>Python's \<open>int.bit_length\<close>.\<close>

function bit_length :: "int \<Rightarrow> nat" where
  "bit_length n = (if n = 0 then 0 else if n < 0 then bit_length (- n) else Suc (bit_length (n div 2)))"
  by auto
termination by (relation "measure (\<lambda>n. nat (2 * \<bar>n\<bar>) + (if n < 0 then 1 else 0))") auto

declare bit_length.simps [simp del]

definition align_of :: "nat \<Rightarrow> int \<Rightarrow> nat" where
  "align_of bits lo = (if lo = 0 then bits else bit_length (lo AND - lo) - 1)"

definition step_of :: "nat \<Rightarrow> int \<Rightarrow> int \<Rightarrow> nat" where
  "step_of bits lo hi = min (align_of bits lo) (bit_length (hi - lo + 1) - 1)"

text \<open>
  The generator as the list it yields; a pair is the first address and the prefix length,
  which Python computes without a floor at zero.
\<close>

function summarize_ints :: "int \<Rightarrow> int \<Rightarrow> nat \<Rightarrow> (int \<times> int) list" where
  "summarize_ints lo hi bits =
     (if lo \<le> hi then
        (let step = step_of bits lo hi in
         (lo, int bits - int step) # summarize_ints (lo + push_bit step 1) hi bits)
      else [])"
  by auto
termination by (relation "measure (\<lambda>(lo, hi, bits). nat (hi + 1 - lo))") auto

declare summarize_ints.simps [simp del]

definition merge_step :: "(int \<times> int) list \<Rightarrow> int \<times> int \<Rightarrow> (int \<times> int) list" where
  "merge_step merged span =
     (case span of (lo, hi) \<Rightarrow>
        if merged \<noteq> [] \<and> lo \<le> snd (last merged) + 1
        then butlast merged @ [(fst (last merged), max (snd (last merged)) hi)]
        else merged @ [(lo, hi)])"

definition merge_spans :: "(int \<times> int) list \<Rightarrow> (int \<times> int) list" where
  "merge_spans spans = foldl merge_step [] (sort spans)"

section \<open>Bit length and lowest set bit\<close>

lemma bit_length_bounds: "0 < n \<Longrightarrow> 0 < bit_length n \<and> 2 ^ (bit_length n - 1) \<le> n \<and> n < 2 ^ bit_length n"
proof (induction "nat n" arbitrary: n rule: less_induct)
  case less
  show ?case
  proof (cases "n = 1")
    case True
    then show ?thesis by (simp add: bit_length.simps)
  next
    case False
    with less.prems have "0 < n div 2" "nat (n div 2) < nat n" by auto
    with less.hyps have IH: "0 < bit_length (n div 2)" "2 ^ (bit_length (n div 2) - 1) \<le> n div 2"
      "n div 2 < 2 ^ bit_length (n div 2)" by blast+
    have eq: "bit_length n = Suc (bit_length (n div 2))"
      using less.prems by (simp add: bit_length.simps [of n])
    have "(2::int) ^ bit_length (n div 2) = 2 * 2 ^ (bit_length (n div 2) - 1)"
      using IH(1) by (cases "bit_length (n div 2)") auto
    then have "2 ^ bit_length (n div 2) \<le> n" "n < 2 * 2 ^ bit_length (n div 2)"
      using IH(2,3) by linarith+
    then show ?thesis by (simp add: eq)
  qed
qed

lemma le_bit_length_iff: "0 < n \<Longrightarrow> k \<le> bit_length n - 1 \<longleftrightarrow> 2 ^ k \<le> n"
proof
  assume n: "0 < n" and "k \<le> bit_length n - 1"
  then have "(2::int) ^ k \<le> 2 ^ (bit_length n - 1)" by (intro power_increasing) auto
  also have "\<dots> \<le> n" using bit_length_bounds [OF n] by blast
  finally show "2 ^ k \<le> n" .
next
  assume n: "0 < n" and "2 ^ k \<le> n"
  then have "(2::int) ^ k < 2 ^ bit_length n" using bit_length_bounds [OF n] by linarith
  then show "k \<le> bit_length n - 1" by (simp add: power_strict_increasing_iff)
qed

lemma bit_length_exp [simp]: "bit_length (2 ^ k) = Suc k"
proof -
  have "k \<le> bit_length (2 ^ k) - 1" "\<not> Suc k \<le> bit_length (2 ^ k) - 1"
    using le_bit_length_iff [of "2 ^ k"] by simp_all
  moreover have "0 < bit_length (2 ^ k)" using bit_length_bounds [of "2 ^ k"] by simp
  ultimately show ?thesis by linarith
qed

lemma lowest_bit:
  "lo \<noteq> 0 \<Longrightarrow> \<exists>k. lo AND - lo = 2 ^ k \<and> 2 ^ k dvd lo \<and> \<not> 2 ^ Suc k dvd lo" for lo :: int
proof (induction "nat \<bar>lo\<bar>" arbitrary: lo rule: less_induct)
  case less
  define j where "j = lo div 2"
  show ?case
  proof (cases "even lo")
    case True
    then have lo: "lo = 2 * j" by (simp add: j_def)
    with less.prems have "j \<noteq> 0" "nat \<bar>j\<bar> < nat \<bar>lo\<bar>" by auto
    with less.hyps obtain k where k: "j AND - j = 2 ^ k" "2 ^ k dvd j" "\<not> 2 ^ Suc k dvd j" by blast
    have "lo AND - lo = 2 * (j AND - j)"
    proof -
      have "- (2 * j) div 2 = - j" by presburger
      then show ?thesis using and_int_rec [of "2 * j" "- (2 * j)"] by (simp add: lo)
    qed
    moreover have "\<not> 2 * 2 ^ Suc k dvd 2 * j" using k(3) by (subst dvd_mult_cancel_left) simp
    ultimately show ?thesis using k by (intro exI [of _ "Suc k"]) (simp add: lo)
  next
    case False
    then have lo: "lo = 2 * j + 1" by (simp add: j_def)
    have "- lo div 2 = NOT j" by (simp add: lo not_int_def)
    then have "lo AND - lo = 1"
      using and_int_rec [of lo "- lo"] False by (simp add: j_def)
    with False show ?thesis by (intro exI [of _ 0]) simp
  qed
qed

lemma le_align_of_iff:
  assumes "0 \<le> lo" "lo < 2 ^ bits" "k \<le> bits"
  shows "k \<le> align_of bits lo \<longleftrightarrow> 2 ^ k dvd lo"
proof (cases "lo = 0")
  case False
  then obtain j where j: "lo AND - lo = 2 ^ j" "2 ^ j dvd lo" "\<not> 2 ^ Suc j dvd lo"
    using lowest_bit by blast
  have "k \<le> j \<longleftrightarrow> 2 ^ k dvd lo"
  proof
    assume "k \<le> j"
    then show "2 ^ k dvd lo" using j(2) le_imp_power_dvd dvd_trans by blast
  next
    assume "2 ^ k dvd lo"
    then show "k \<le> j" using j(3) le_imp_power_dvd dvd_trans not_less_eq_eq by metis
  qed
  then show ?thesis using False by (simp add: align_of_def j(1))
qed (use assms in \<open>simp add: align_of_def\<close>)

lemma align_of_le:
  assumes "0 \<le> lo" "lo < 2 ^ bits"
  shows "align_of bits lo \<le> bits"
proof (cases "lo = 0")
  case False
  then obtain j where j: "lo AND - lo = 2 ^ j" "2 ^ j dvd lo" using lowest_bit by blast
  then have "(2::int) ^ j \<le> lo" using False assms by (intro zdvd_imp_le) auto
  then have "(2::int) ^ j < 2 ^ bits" using assms by linarith
  then show ?thesis using False by (simp add: align_of_def j(1))
qed (simp add: align_of_def)

section \<open>Aligned blocks\<close>

definition block :: "int \<Rightarrow> nat \<Rightarrow> int set" where
  "block a k = {a..<a + 2 ^ k}"

lemma block_start [simp]: "a \<in> block a k"
  by (simp add: block_def)

lemma block_ne [simp]: "block a k \<noteq> {}"
  using block_start by blast

lemma block_nested:
  assumes "2 ^ j dvd a" "2 ^ k dvd b" "j \<le> k" "x \<in> block a j" "x \<in> block b k"
  shows "block a j \<subseteq> block b k"
proof -
  obtain s q where s: "a = 2 ^ j * s" and q: "b = 2 ^ k * q" using assms(1,2) by (auto elim!: dvdE)
  have pk: "(2::int) ^ k = 2 ^ j * 2 ^ (k - j)" using assms(3) by (simp flip: power_add)
  define r :: int where "r = 2 ^ (k - j)"
  have b: "b = 2 ^ j * (r * q)" "2 ^ k = 2 ^ j * r" by (simp_all add: q pk r_def)
  have "2 ^ j * s < 2 ^ j * (r * q + r)" "2 ^ j * (r * q) < 2 ^ j * (s + 1)"
    using assms(4,5) by (auto simp: block_def s b algebra_simps)
  then have "s + 1 \<le> r * q + r" "r * q \<le> s" by (simp_all add: mult_less_cancel_left_pos)
  then have "2 ^ j * (s + 1) \<le> 2 ^ j * (r * q + r)" "2 ^ j * (r * q) \<le> 2 ^ j * s"
    by (simp_all add: mult_le_cancel_left_pos)
  then show ?thesis by (auto simp: block_def s b algebra_simps)
qed

lemma block_laminar:
  assumes "2 ^ j dvd a" "2 ^ k dvd b" "block a j \<inter> block b k \<noteq> {}"
  shows "block a j \<subseteq> block b k \<or> block b k \<subseteq> block a j"
  using assms block_nested [of j a k b] block_nested [of k b j a] nat_le_linear [of j k] by blast

lemma block_subset_exp: "block a k \<subseteq> {lo..hi} \<Longrightarrow> lo \<le> a \<and> a + 2 ^ k \<le> hi + 1"
proof -
  assume sub: "block a k \<subseteq> {lo..hi}"
  have "a \<in> block a k" "a + 2 ^ k - 1 \<in> block a k" by (simp_all add: block_def)
  with sub have "a \<in> {lo..hi}" "a + 2 ^ k - 1 \<in> {lo..hi}" by blast+
  then show ?thesis by simp
qed

section \<open>Greedy tiling\<close>

lemma step_of_iff:
  assumes "0 \<le> lo" "lo \<le> hi" "hi < 2 ^ bits"
  shows "k \<le> step_of bits lo hi \<longleftrightarrow> 2 ^ k dvd lo \<and> lo + 2 ^ k \<le> hi + 1"
proof (cases "k \<le> bits")
  case True
  have "k \<le> align_of bits lo \<longleftrightarrow> 2 ^ k dvd lo"
    using assms True by (intro le_align_of_iff) auto
  moreover have "k \<le> bit_length (hi - lo + 1) - 1 \<longleftrightarrow> 2 ^ k \<le> hi - lo + 1"
    using assms by (intro le_bit_length_iff) simp
  ultimately show ?thesis by (auto simp: step_of_def)
next
  case False
  then have "(2::int) ^ bits < 2 ^ k" by (intro power_strict_increasing) auto
  then have "\<not> lo + 2 ^ k \<le> hi + 1" using assms by linarith
  moreover have "step_of bits lo hi \<le> bits"
    using assms align_of_le [of lo bits] by (simp add: step_of_def)
  ultimately show ?thesis using False by linarith
qed

lemma step_of_le: "0 \<le> lo \<Longrightarrow> lo \<le> hi \<Longrightarrow> hi < 2 ^ bits \<Longrightarrow> step_of bits lo hi \<le> bits"
  using align_of_le [of lo bits] by (simp add: step_of_def)

text \<open>
  \<open>tiles bits lo hi bs\<close>: the blocks \<open>bs\<close>, given as first address and prefix length, are
  aligned, follow each other without gap or overlap, start at \<open>lo\<close> and end at \<open>hi\<close>.
\<close>

fun tiles :: "nat \<Rightarrow> int \<Rightarrow> int \<Rightarrow> (int \<times> int) list \<Rightarrow> bool" where
  "tiles bits lo hi [] \<longleftrightarrow> lo = hi + 1"
| "tiles bits lo hi ((a, p) # bs) \<longleftrightarrow>
     a = lo \<and> 0 \<le> p \<and> p \<le> int bits \<and> 2 ^ (bits - nat p) dvd a \<and>
     tiles bits (lo + 2 ^ (bits - nat p)) hi bs"

definition pair_block :: "nat \<Rightarrow> int \<times> int \<Rightarrow> int set" where
  "pair_block bits = (\<lambda>(a, p). block a (bits - nat p))"

lemma summarize_ints_tiles:
  "0 \<le> lo \<Longrightarrow> lo \<le> hi + 1 \<Longrightarrow> hi < 2 ^ bits \<Longrightarrow> tiles bits lo hi (summarize_ints lo hi bits)"
proof (induction lo hi bits rule: summarize_ints.induct)
  case (1 lo hi bits)
  show ?case
  proof (cases "lo \<le> hi")
    case True
    define s where "s = step_of bits lo hi"
    have "s \<le> step_of bits lo hi" by (simp add: s_def)
    then have s: "2 ^ s dvd lo" "lo + 2 ^ s \<le> hi + 1" "s \<le> bits"
      using True 1(2,4) step_of_iff [of lo hi bits s] step_of_le [of lo hi bits] by simp_all
    have "tiles bits (lo + 2 ^ s) hi (summarize_ints (lo + 2 ^ s) hi bits)"
      using 1(1) [OF True s_def] 1(2,4) s(2) by simp
    then show ?thesis
      using True s by (simp add: summarize_ints.simps [of lo hi] nat_diff_distrib flip: s_def)
  next
    case False
    then show ?thesis using 1(3) by (simp add: summarize_ints.simps [of lo hi])
  qed
qed

lemma tiles_le: "tiles bits lo hi bs \<Longrightarrow> lo \<le> hi + 1"
  by (induction bits lo hi bs rule: tiles.induct) (auto intro: order_trans [rotated])

lemma tiles_union: "tiles bits lo hi bs \<Longrightarrow> \<Union> (pair_block bits ` set bs) = {lo..hi}"
proof (induction bits lo hi bs rule: tiles.induct)
  case (2 bits lo hi a p bs)
  define m where "m = lo + 2 ^ (bits - nat p)"
  have "lo \<le> m" by (simp add: m_def)
  moreover have "m \<le> hi + 1" using 2(2) tiles_le [of bits m hi bs] by (simp add: m_def)
  ultimately have "{lo..<m} \<union> {m..hi} = {lo..hi}" by auto
  then show ?case using 2 by (simp add: pair_block_def block_def flip: m_def)
qed simp

lemma tiles_disjoint:
  "tiles bits lo hi bs \<Longrightarrow> sorted_wrt (\<lambda>b c. pair_block bits b \<inter> pair_block bits c = {}) bs"
proof (induction bits lo hi bs rule: tiles.induct)
  case (2 bits lo hi a p bs)
  let ?m = "lo + 2 ^ (bits - nat p)"
  have "\<Union> (pair_block bits ` set bs) = {?m..hi}" using 2(2) by (intro tiles_union) simp
  moreover have "pair_block bits (a, p) \<inter> {?m..hi} = {}" using 2(2) by (auto simp: pair_block_def block_def)
  ultimately have "\<forall>c \<in> set bs. pair_block bits (a, p) \<inter> pair_block bits c = {}" by blast
  then show ?case using 2 by simp
qed simp

text \<open>Every aligned block inside the interval lies inside one of the greedy blocks.\<close>

lemma summarize_ints_maximal:
  "0 \<le> lo \<Longrightarrow> hi < 2 ^ bits \<Longrightarrow> 2 ^ k dvd a \<Longrightarrow> block a k \<subseteq> {lo..hi} \<Longrightarrow>
   \<exists>b \<in> set (summarize_ints lo hi bits). block a k \<subseteq> pair_block bits b"
proof (induction lo hi bits rule: summarize_ints.induct)
  case (1 lo hi bits)
  have sub: "lo \<le> a" "a + 2 ^ k \<le> hi + 1" using block_subset_exp [OF 1(5)] by blast+
  then have le: "lo \<le> hi" using one_le_power [of "2::int" k] by linarith
  define s where "s = step_of bits lo hi"
  have step: "k' \<le> s \<longleftrightarrow> 2 ^ k' dvd lo \<and> lo + 2 ^ k' \<le> hi + 1" for k'
    using step_of_iff [of lo hi bits k'] le 1(2,3) by (simp add: s_def)
  have s: "2 ^ s dvd lo" "lo + 2 ^ s \<le> hi + 1" "s \<le> bits"
    using step [of s] step_of_le [of lo hi bits] le 1(2,3) by (simp_all add: s_def)
  have eq: "summarize_ints lo hi bits =
      (lo, int bits - int s) # summarize_ints (lo + 2 ^ s) hi bits"
    using le by (simp add: summarize_ints.simps [of lo hi] flip: s_def)
  have first: "pair_block bits (lo, int bits - int s) = block lo s"
    using s(3) by (simp add: pair_block_def nat_diff_distrib)
  show ?case
  proof (cases "a < lo + 2 ^ s")
    case True
    then have a: "a \<in> block lo s" using sub by (simp add: block_def)
    have "k \<le> s"
    proof (rule ccontr)
      assume "\<not> k \<le> s"
      then have "block lo s \<subseteq> block a k"
        using block_nested [of s lo k a a] s(1) 1(4) a by simp
      then have "a = lo" using sub(1) block_start [of lo s] by (auto simp: block_def)
      then show False using step [of k] \<open>\<not> k \<le> s\<close> 1(4) sub(2) by simp
    qed
    then have "block a k \<subseteq> block lo s" using block_nested [of k a s lo a] s(1) 1(4) a by simp
    then show ?thesis by (simp add: eq first)
  next
    case False
    then have "block a k \<subseteq> {lo + 2 ^ s..hi}" using sub by (auto simp: block_def)
    then show ?thesis using 1(1) [OF le s_def] 1(2,3,4) by (simp add: eq)
  qed
qed

section \<open>Merging spans\<close>

definition span_set :: "(int \<times> int) list \<Rightarrow> int set" where
  "span_set spans = (\<Union>(lo, hi) \<in> set spans. {lo..hi})"

text \<open>Spans in increasing order with at least one missing integer between neighbours.\<close>

definition separated :: "(int \<times> int) list \<Rightarrow> bool" where
  "separated spans \<longleftrightarrow>
     sorted_wrt (\<lambda>s t. snd s + 1 < fst t) spans \<and> list_all (\<lambda>(lo, hi). lo \<le> hi) spans"

lemma separated_snoc:
  "separated (spans @ [(lo, hi)]) \<longleftrightarrow>
     separated spans \<and> lo \<le> hi \<and> (\<forall>s \<in> set spans. snd s + 1 < lo)"
  by (auto simp: separated_def sorted_wrt_append)

lemma span_set_append [simp]: "span_set (xs @ ys) = span_set xs \<union> span_set ys"
  by (simp add: span_set_def)

lemma span_set_Cons [simp]: "span_set ((lo, hi) # ys) = {lo..hi} \<union> span_set ys"
  by (simp add: span_set_def)

lemma span_set_Nil [simp]: "span_set [] = {}"
  by (simp add: span_set_def)

lemma merge_step_snoc:
  "merge_step (ms @ [(l, h)]) (lo, hi) =
     (if lo \<le> h + 1 then ms @ [(l, max h hi)] else ms @ [(l, h), (lo, hi)])"
  by (simp add: merge_step_def)

lemma merge_step_correct:
  assumes "separated merged" "lo \<le> hi" "merged \<noteq> [] \<Longrightarrow> fst (last merged) \<le> lo"
  shows "separated (merge_step merged (lo, hi)) \<and>
         span_set (merge_step merged (lo, hi)) = span_set merged \<union> {lo..hi} \<and>
         merge_step merged (lo, hi) \<noteq> [] \<and> fst (last (merge_step merged (lo, hi))) \<le> lo"
proof (cases merged rule: rev_cases)
  case Nil
  then show ?thesis using assms by (simp add: merge_step_def separated_def)
next
  case (snoc ms m)
  obtain l h where m: "m = (l, h)" by (cases m)
  have sep: "separated ms" "l \<le> h" "\<forall>s \<in> set ms. snd s + 1 < l" "l \<le> lo"
    using assms by (auto simp: snoc m separated_snoc)
  show ?thesis
  proof (cases "lo \<le> h + 1")
    case True
    then have "{l..max h hi} = {l..h} \<union> {lo..hi}" using sep(2,4) assms(2) by auto
    then show ?thesis
      using True sep by (simp add: snoc m merge_step_snoc separated_snoc Un_assoc le_max_iff_disj)
  next
    case False
    have "separated ((ms @ [(l, h)]) @ [(lo, hi)])"
      using False sep assms(2) by (subst separated_snoc) (auto simp: separated_snoc)
    then show ?thesis using False by (simp add: snoc m merge_step_snoc Un_assoc)
  qed
qed

lemma merge_fold_correct:
  assumes "separated merged" "sorted spans" "list_all (\<lambda>(lo, hi). lo \<le> hi) spans"
    "merged \<noteq> [] \<Longrightarrow> \<forall>s \<in> set spans. fst (last merged) \<le> fst s"
  shows "separated (foldl merge_step merged spans) \<and>
         span_set (foldl merge_step merged spans) = span_set merged \<union> span_set spans"
  using assms
proof (induction spans arbitrary: merged)
  case (Cons s spans)
  obtain lo hi where s: "s = (lo, hi)" by (cases s)
  have le: "lo \<le> hi" "merged \<noteq> [] \<Longrightarrow> fst (last merged) \<le> lo" using Cons.prems by (auto simp: s)
  note step = merge_step_correct [OF Cons.prems(1) le]
  have "\<forall>t \<in> set spans. lo \<le> fst t" using Cons.prems(2) by (auto simp: s less_eq_prod_def)
  then have "\<forall>t \<in> set spans. fst (last (merge_step merged (lo, hi))) \<le> fst t"
    using step order_trans by blast
  with Cons.IH [of "merge_step merged (lo, hi)"] Cons.prems step
  show ?case by (simp add: s Un_assoc)
qed simp

lemma merge_spans_correct:
  assumes "list_all (\<lambda>(lo, hi). lo \<le> hi) spans"
  shows "separated (merge_spans spans)" "span_set (merge_spans spans) = span_set spans"
proof -
  have sort: "list_all (\<lambda>(lo, hi). lo \<le> hi) (sort spans)" "span_set (sort spans) = span_set spans"
    using assms by (simp_all add: list_all_iff span_set_def)
  have "separated []" by (simp add: separated_def)
  from merge_fold_correct [OF this sorted_sort sort(1)]
  show "separated (merge_spans spans)" "span_set (merge_spans spans) = span_set spans"
    by (simp_all add: merge_spans_def sort(2))
qed

lemma merge_spans_bounds:
  assumes "list_all (\<lambda>(lo, hi). lo \<le> hi \<and> L \<le> lo \<and> hi \<le> H) spans" "(lo, hi) \<in> set (merge_spans spans)"
  shows "L \<le> lo" "lo \<le> hi" "hi \<le> H"
proof -
  have le: "list_all (\<lambda>(lo, hi). lo \<le> hi) spans" using assms(1) by (auto simp: list_all_iff)
  note m = merge_spans_correct [OF le]
  show "lo \<le> hi" using m(1) assms(2) by (auto simp: separated_def list_all_iff)
  have "span_set spans \<subseteq> {L..H}" using assms(1) by (fastforce simp: span_set_def list_all_iff)
  moreover have "lo \<in> span_set (merge_spans spans)" "hi \<in> span_set (merge_spans spans)"
    using \<open>lo \<le> hi\<close> by (auto simp: span_set_def intro!: bexI [OF _ assms(2)])
  ultimately show "L \<le> lo" "hi \<le> H" using m(2) by auto
qed

text \<open>An interval inside a union of separated spans lies inside one of them.\<close>

lemma interval_in_one_span:
  assumes "separated spans" "x \<le> y" "{x..y} \<subseteq> span_set spans"
  shows "\<exists>(lo, hi) \<in> set spans. {x..y} \<subseteq> {lo..hi}"
proof -
  have "x \<in> span_set spans" using assms by auto
  then obtain lo hi where s: "(lo, hi) \<in> set spans" "lo \<le> x" "x \<le> hi" by (auto simp: span_set_def)
  have "y \<le> hi"
  proof (rule ccontr)
    assume "\<not> y \<le> hi"
    then have "hi + 1 \<in> span_set spans" using assms(3) s by auto
    then obtain l h where t: "(l, h) \<in> set spans" "l \<le> hi + 1" "hi + 1 \<le> h" by (auto simp: span_set_def)
    then have "(lo, hi) \<noteq> (l, h)" by auto
    with s(1) t(1) assms(1) have "hi + 1 < l \<or> h + 1 < lo"
      unfolding separated_def sorted_wrt_iff_nth_less in_set_conv_nth
      by (metis fst_conv linorder_neqE_nat snd_conv)
    then show False using t s by linarith
  qed
  with s show ?thesis by auto
qed

section \<open>Least number of blocks\<close>

text \<open>
  A list of pairwise disjoint non-empty sets is no longer than any list of sets with the same
  union whose members each fit inside one of them.
\<close>

lemma disjoint_cover_minimal:
  assumes disj: "sorted_wrt (\<lambda>b c. f b \<inter> f c = {}) bs" and ne: "\<forall>b \<in> set bs. f b \<noteq> {}"
    and union: "\<Union> (f ` set bs) = \<Union> (set cs)"
    and inside: "\<forall>c \<in> set cs. \<exists>b \<in> set bs. c \<subseteq> f b"
  shows "length bs \<le> length cs"
proof -
  have pair: "f (bs ! i) \<inter> f (bs ! j) = {}" if "i < length bs" "j < length bs" "i \<noteq> j" for i j
  proof (cases "i < j")
    case True
    then show ?thesis using sorted_wrt_nth_less [OF disj] that by blast
  next
    case False
    then have "f (bs ! j) \<inter> f (bs ! i) = {}" using sorted_wrt_nth_less [OF disj, of j i] that by simp
    then show ?thesis by blast
  qed
  have "\<exists>j < length cs. cs ! j \<subseteq> f (bs ! i) \<and> cs ! j \<noteq> {}" if i: "i < length bs" for i
  proof -
    obtain x where x: "x \<in> f (bs ! i)" using ne i nth_mem by blast
    then have "x \<in> \<Union> (set cs)" using union i nth_mem by blast
    then obtain j where j: "j < length cs" "x \<in> cs ! j" by (auto simp: in_set_conv_nth)
    obtain i' where i': "i' < length bs" "cs ! j \<subseteq> f (bs ! i')"
      using inside nth_mem [OF j(1)] by (metis in_set_conv_nth)
    have "i' = i" using pair [OF i'(1) i] i'(2) j(2) x by blast
    then show ?thesis using i' j by blast
  qed
  then obtain g where g: "\<And>i. i < length bs \<Longrightarrow> g i < length cs \<and> cs ! g i \<subseteq> f (bs ! i) \<and> cs ! g i \<noteq> {}"
    by metis
  have "inj_on g {..<length bs}"
  proof (rule inj_onI)
    fix i j assume ij: "i \<in> {..<length bs}" "j \<in> {..<length bs}" "g i = g j"
    then have "f (bs ! i) \<inter> f (bs ! j) \<noteq> {}" using g [of i] g [of j] by auto
    then show "i = j" using pair [of i j] ij by auto
  qed
  moreover have "g ` {..<length bs} \<subseteq> {..<length cs}" using g by auto
  ultimately show ?thesis using card_inj_on_le [of g "{..<length bs}" "{..<length cs}"] by simp
qed

end
