(* ===== verification/Ip_Network.thy ===== *)
theory Ip_Network
  imports Ip_Mask Ip_Block
begin

text \<open>
  \<^verbatim>\<open>pmd_net_addr/ip_network.py\<close> with the version-specific parts of \<^verbatim>\<open>ip4_network.py\<close> and
  \<^verbatim>\<open>ip6_network.py\<close>: CIDR networks, membership, containment, enumeration, subnetting,
  exclusion and aggregation. A network keeps the integer values of its address and mask
  objects, whose version is the network's own. Iterators are the lists they yield, and
  an iterator that raises is the error alone.

  \<open>network_ok\<close> is the class invariant every constructor establishes. Under it a network is
  an aligned block of \<^verbatim>\<open>Ip_Block\<close>, and the operations are set operations on blocks.
\<close>

section \<open>Networks\<close>

record ip_network =
  nw_version :: ip_version
  nw_address :: int
  nw_mask :: int

text \<open>The constructor on an address and mask of the network's version.\<close>

definition mk_network :: "ip_version \<Rightarrow> int \<Rightarrow> int \<Rightarrow> bool \<Rightarrow> ip_network res" where
  "mk_network v a m strict =
     (if strict \<and> a AND NOT m AND IP__MASK v \<noteq> 0 then Inl FormatError
      else Inr \<lparr>nw_version = v, nw_address = a AND m, nw_mask = m\<rparr>)"

definition network_prefixlen :: "ip_network \<Rightarrow> nat" where
  "network_prefixlen n = bin_ones (nw_mask n)"

definition network_last :: "ip_network \<Rightarrow> int" where
  "network_last n = nw_address n + (NOT (nw_mask n) AND IP__MASK (nw_version n))"

definition hostmask :: "ip_network \<Rightarrow> int" where
  "hostmask n = NOT (nw_mask n) AND IP__MASK (nw_version n)"

definition network_contains :: "ip_network \<Rightarrow> ip_address \<Rightarrow> bool" where
  "network_contains n a \<longleftrightarrow>
     nw_version n = ia_version a \<and> nw_address n \<le> ia_int a \<and> ia_int a \<le> network_last n"

definition network_lt :: "ip_network \<Rightarrow> ip_network \<Rightarrow> bool option" where
  "network_lt n k =
     (if nw_version n \<noteq> nw_version k then None
      else Some ((nw_address n, nw_mask n) < (nw_address k, nw_mask k)))"

definition network_le :: "ip_network \<Rightarrow> ip_network \<Rightarrow> bool option" where
  "network_le n k =
     (if nw_version n \<noteq> nw_version k then None
      else Some ((nw_address n, nw_mask n) \<le> (nw_address k, nw_mask k)))"

definition network_gt :: "ip_network \<Rightarrow> ip_network \<Rightarrow> bool option" where
  "network_gt n k =
     (if nw_version n \<noteq> nw_version k then None
      else Some ((nw_address n, nw_mask n) > (nw_address k, nw_mask k)))"

definition network_ge :: "ip_network \<Rightarrow> ip_network \<Rightarrow> bool option" where
  "network_ge n k =
     (if nw_version n \<noteq> nw_version k then None
      else Some ((nw_address n, nw_mask n) \<ge> (nw_address k, nw_mask k)))"

definition num_addresses :: "ip_network \<Rightarrow> int" where
  "num_addresses n = network_last n - nw_address n + 1"

definition network_iter :: "ip_network \<Rightarrow> int list" where
  "network_iter n = range_up (nw_address n) (network_last n + 1) 1"

definition network_getitem :: "ip_network \<Rightarrow> int \<Rightarrow> int res" where
  "network_getitem n index =
     (let count = num_addresses n;
          index = (if index < 0 then index + count else index) in
      if \<not> (0 \<le> index \<and> index < count) then Inl SanityError else Inr (nw_address n + index))"

definition hosts :: "ip_network \<Rightarrow> int list" where
  "hosts n =
     (case nw_version n of
        IP4 \<Rightarrow> if 31 \<le> network_prefixlen n then network_iter n
               else range_up (nw_address n + 1) (network_last n) 1
      | IP6 \<Rightarrow> if 127 \<le> network_prefixlen n then network_iter n
               else range_up (nw_address n + 1) (network_last n + 1) 1)"

definition overlaps :: "ip_network \<Rightarrow> ip_network \<Rightarrow> bool" where
  "overlaps n k \<longleftrightarrow>
     nw_version n = nw_version k \<and> nw_address n \<le> network_last k \<and> nw_address k \<le> network_last n"

definition subnet_of :: "ip_network \<Rightarrow> ip_network \<Rightarrow> bool" where
  "subnet_of n k \<longleftrightarrow>
     nw_version n = nw_version k \<and> nw_address k \<le> nw_address n \<and> network_last n \<le> network_last k"

definition supernet_of :: "ip_network \<Rightarrow> ip_network \<Rightarrow> bool" where
  "supernet_of n k \<longleftrightarrow> subnet_of k n"

definition mask_int :: "ip_version \<Rightarrow> int \<Rightarrow> int" where
  "mask_int v prefixlen =
     (if prefixlen = 0 then 0
      else push_bit (max_prefixlen v - nat prefixlen) (push_bit (nat prefixlen) 1 - 1))"

section \<open>Subnets, supernets and exclusion\<close>

definition subnets :: "ip_network \<Rightarrow> int \<Rightarrow> int option \<Rightarrow> ip_network list res" where
  "subnets n prefixlen_diff new_prefix =
     (let v = nw_version n; prefixlen = int (network_prefixlen n); w = int (max_prefixlen v) in
      if prefixlen = w then Inr [n]
      else
        bind_res
          (case new_prefix of
             Some np \<Rightarrow> if np \<le> prefixlen then Inl SanityError else Inr np
           | None \<Rightarrow> if prefixlen_diff < 1 then Inl SanityError else Inr (prefixlen + prefixlen_diff))
          (\<lambda>np. if np > w then Inl SanityError
                else bind_res (mask_of_int v (mask_int v np)) (\<lambda>mask.
                  (let step = push_bit (max_prefixlen v - nat np) 1 in
                   Inr (map (\<lambda>start. \<lparr>nw_version = v, nw_address = start AND im_mask mask,
                                      nw_mask = im_mask mask\<rparr>)
                         (range_up (nw_address n) (network_last n + 1) step))))))"

definition supernet :: "ip_network \<Rightarrow> int \<Rightarrow> int option \<Rightarrow> ip_network res" where
  "supernet n prefixlen_diff new_prefix =
     (let v = nw_version n; prefixlen = int (network_prefixlen n) in
      if prefixlen = 0 then Inr n
      else
        bind_res
          (case new_prefix of
             Some np \<Rightarrow> if np \<ge> prefixlen then Inl SanityError else Inr np
           | None \<Rightarrow> if prefixlen_diff < 1 then Inl SanityError else Inr (prefixlen - prefixlen_diff))
          (\<lambda>np. if np < 0 then Inl SanityError
                else bind_res (mask_of_int v (mask_int v np)) (\<lambda>mask.
                  mk_network v (nw_address n) (im_mask mask) False)))"

definition halve :: "ip_network \<Rightarrow> (ip_network \<times> ip_network) res" where
  "halve n = bind_res (subnets n 1 None) (\<lambda>halves.
     case halves of [h1, h2] \<Rightarrow> Inr (h1, h2) | _ \<Rightarrow> Inl SanityError)"

section \<open>Blocks of a network\<close>

definition network_ok :: "ip_network \<Rightarrow> bool" where
  "network_ok n \<longleftrightarrow>
     0 \<le> nw_address n \<and> nw_address n \<le> IP__MASK (nw_version n) \<and>
     0 \<le> nw_mask n \<and> nw_mask n \<le> IP__MASK (nw_version n) \<and>
     is_contiguous_mask (nw_mask n) (max_prefixlen (nw_version n)) \<and>
     nw_address n AND nw_mask n = nw_address n"

definition net :: "ip_version \<Rightarrow> nat \<Rightarrow> int \<Rightarrow> ip_network" where
  "net v p a = \<lparr>nw_version = v, nw_address = a, nw_mask = prefix_mask v p\<rparr>"

definition net_ok :: "ip_version \<Rightarrow> nat \<Rightarrow> int \<Rightarrow> bool" where
  "net_ok v p a \<longleftrightarrow>
     p \<le> max_prefixlen v \<and> 0 \<le> a \<and> a < 2 ^ max_prefixlen v \<and> 2 ^ (max_prefixlen v - p) dvd a"

definition net_set :: "ip_network \<Rightarrow> int set" where
  "net_set n = {nw_address n..network_last n}"

lemma net_simps [simp]:
  "nw_version (net v p a) = v" "nw_address (net v p a) = a" "nw_mask (net v p a) = prefix_mask v p"
  by (simp_all add: net_def)

lemma network_ok_iff: "network_ok n \<longleftrightarrow> (\<exists>v p a. n = net v p a \<and> net_ok v p a)"
proof
  assume ok: "network_ok n"
  let ?v = "nw_version n" and ?a = "nw_address n"
  have b: "0 \<le> ?a" "?a < 2 ^ max_prefixlen ?v" "0 \<le> nw_mask n" "nw_mask n < 2 ^ max_prefixlen ?v"
    using ok by (auto simp: network_ok_def IP__MASK_eq)
  with ok obtain p where p: "p \<le> max_prefixlen ?v" "nw_mask n = prefix_mask ?v p"
    by (auto simp: network_ok_def is_contiguous_mask_iff)
  then have "?a mod 2 ^ (max_prefixlen ?v - p) = 0"
    using ok b and_prefix_mask [of ?a ?v p] by (simp add: network_ok_def)
  then have "n = net ?v p ?a \<and> net_ok ?v p ?a" using b p by (auto simp: net_def net_ok_def)
  then show "\<exists>v p a. n = net v p a \<and> net_ok v p a" by blast
next
  assume "\<exists>v p a. n = net v p a \<and> net_ok v p a"
  then obtain v p a where n: "n = net v p a" "net_ok v p a" by blast
  then show "network_ok n"
    using prefix_mask_bounds [of v p] is_contiguous_mask_iff [of "prefix_mask v p" v]
      and_prefix_mask [of a v p]
    by (auto simp: network_ok_def net_ok_def IP__MASK_eq)
qed

lemma network_okE:
  assumes "network_ok n"
  obtains v p a where "n = net v p a" "net_ok v p a"
  using assms by (auto simp: network_ok_iff)

lemma network_ok_net [simp]: "net_ok v p a \<Longrightarrow> network_ok (net v p a)"
  by (auto simp: network_ok_iff)

lemma network_last_net [simp]: "network_last (net v p a) = a + 2 ^ (max_prefixlen v - p) - 1"
  by (simp add: network_last_def wildcard_eq)

lemma network_prefixlen_net [simp]: "net_ok v p a \<Longrightarrow> network_prefixlen (net v p a) = p"
  by (simp add: network_prefixlen_def net_ok_def)

lemma net_set_net [simp]: "net_set (net v p a) = block a (max_prefixlen v - p)"
  by (auto simp: net_set_def block_def)

lemma net_ok_end: "net_ok v p a \<Longrightarrow> a + 2 ^ (max_prefixlen v - p) \<le> 2 ^ max_prefixlen v"
  using block_nested [of "max_prefixlen v - p" a "max_prefixlen v" 0 a]
    block_subset_exp [of a "max_prefixlen v - p" 0 "2 ^ max_prefixlen v - 1"]
  by (auto simp: net_ok_def block_def)

lemma mask_int_eq: "0 \<le> q \<Longrightarrow> q \<le> int (max_prefixlen v) \<Longrightarrow> mask_int v q = prefix_mask v (nat q)"
  by (simp add: mask_int_def prefix_mask_def shifted_ones nat_le_iff)

lemma mk_network_eq:
  assumes "0 \<le> a" "a < 2 ^ max_prefixlen v" "p \<le> max_prefixlen v"
  shows "mk_network v a (prefix_mask v p) False = Inr (net v p (a - a mod 2 ^ (max_prefixlen v - p)))"
    and "net_ok v p (a - a mod 2 ^ (max_prefixlen v - p))"
proof -
  let ?k = "max_prefixlen v - p"
  show "mk_network v a (prefix_mask v p) False = Inr (net v p (a - a mod 2 ^ ?k))"
    using assms by (simp add: mk_network_def net_def and_prefix_mask)
  have "0 \<le> a - a mod 2 ^ ?k" "a - a mod 2 ^ ?k \<le> a" using assms(1) by (simp_all add: zmod_le_nonneg_dividend)
  then have "0 \<le> a - a mod 2 ^ ?k" "a - a mod 2 ^ ?k < 2 ^ max_prefixlen v" using assms(2) by linarith+
  then show "net_ok v p (a - a mod 2 ^ ?k)" using assms(3) by (simp only: net_ok_def dvd_minus_mod simp_thms)
qed

section \<open>Membership and containment\<close>

lemma contains_masked:
  assumes "network_ok n" "0 \<le> ia_int a" "ia_int a \<le> IP__MASK (ia_version a)"
  shows "network_contains n a \<longleftrightarrow>
    nw_version n = ia_version a \<and> ia_int a AND nw_mask n = nw_address n"
proof (cases "nw_version n = ia_version a")
  case True
  from assms(1) obtain v p b where n: "n = net v p b" "net_ok v p b" by (rule network_okE)
  let ?k = "max_prefixlen v - p" and ?x = "ia_int a"
  have x: "?x AND prefix_mask v p = ?x - ?x mod 2 ^ ?k"
    using assms(2,3) True by (intro and_prefix_mask) (auto simp: n IP__MASK_eq)
  have "b \<le> ?x \<and> ?x < b + 2 ^ ?k \<longleftrightarrow> ?x - ?x mod 2 ^ ?k = b"
  proof
    assume "b \<le> ?x \<and> ?x < b + 2 ^ ?k"
    then have "(?x - b) mod 2 ^ ?k = ?x - b" by simp
    moreover have "b mod 2 ^ ?k = 0" using n(2) by (simp add: net_ok_def)
    then have "(?x - b) mod 2 ^ ?k = ?x mod 2 ^ ?k" using mod_diff_right_eq [of ?x b "2 ^ ?k"] by simp
    ultimately show "?x - ?x mod 2 ^ ?k = b" by simp
  next
    assume "?x - ?x mod 2 ^ ?k = b"
    moreover have "0 \<le> ?x mod 2 ^ ?k" "?x mod 2 ^ ?k < 2 ^ ?k" by simp_all
    ultimately show "b \<le> ?x \<and> ?x < b + 2 ^ ?k" by linarith
  qed
  then show ?thesis using True x by (auto simp: network_contains_def n)
qed (simp add: network_contains_def)

lemma net_set_ne: "network_ok n \<Longrightarrow> net_set n \<noteq> {}"
  by (auto elim!: network_okE)

lemma subnet_of_iff:
  "network_ok n \<Longrightarrow> subnet_of n k \<longleftrightarrow> nw_version n = nw_version k \<and> net_set n \<subseteq> net_set k"
  using net_set_ne [of n] by (auto simp: subnet_of_def net_set_def)

lemma overlaps_iff:
  assumes "network_ok n" "network_ok k"
  shows "overlaps n k \<longleftrightarrow> nw_version n = nw_version k \<and> net_set n \<inter> net_set k \<noteq> {}"
  using net_set_ne [OF assms(1)] net_set_ne [OF assms(2)]
  by (auto simp: overlaps_def net_set_def Int_atLeastAtMost)

lemma overlaps_nested:
  assumes "network_ok n" "network_ok k"
  shows "overlaps n k \<longleftrightarrow> subnet_of n k \<or> subnet_of k n"
proof -
  obtain v p a u q b where n: "n = net v p a" "net_ok v p a" and k: "k = net u q b" "net_ok u q b"
    using assms by (auto elim!: network_okE)
  have "net_set n \<inter> net_set k \<noteq> {} \<longleftrightarrow> net_set n \<subseteq> net_set k \<or> net_set k \<subseteq> net_set n"
    using block_laminar [of "max_prefixlen v - p" a "max_prefixlen u - q" b]
      net_set_ne [OF assms(1)] net_set_ne [OF assms(2)] n(2) k(2)
    unfolding n(1) k(1) net_set_net net_ok_def by blast
  then show ?thesis using assms by (auto simp: overlaps_iff subnet_of_iff)
qed

section \<open>Subnetting\<close>

definition tile :: "ip_version \<Rightarrow> nat \<Rightarrow> int \<Rightarrow> nat \<Rightarrow> ip_network list" where
  "tile v q a n = map (\<lambda>i. net v q (a + int i * 2 ^ (max_prefixlen v - q))) [0..<n]"

lemma net_ok_sub:
  assumes "net_ok v p a" "p \<le> q" "q \<le> max_prefixlen v" "i < 2 ^ (q - p)"
  shows "net_ok v q (a + int i * 2 ^ (max_prefixlen v - q))"
proof -
  let ?w = "max_prefixlen v"
  have pw: "(2::int) ^ (?w - p) = 2 ^ (q - p) * 2 ^ (?w - q)" using assms by (simp flip: power_add)
  have "int i < int (2 ^ (q - p))" using assms(4) by (simp only: of_nat_less_iff)
  then have "int i + 1 \<le> 2 ^ (q - p)" unfolding of_nat_power of_nat_numeral by linarith
  then have "(int i + 1) * 2 ^ (?w - q) \<le> 2 ^ (?w - p)" unfolding pw by (rule mult_right_mono) simp
  then have "a + int i * 2 ^ (?w - q) + 2 ^ (?w - q) \<le> 2 ^ ?w"
    using net_ok_end [OF assms(1)] by (simp add: algebra_simps)
  moreover have "(0::int) < 2 ^ (?w - q)" by simp
  ultimately have "a + int i * 2 ^ (?w - q) < 2 ^ ?w" by linarith
  moreover have "2 ^ (?w - q) dvd a"
    using assms(1) pw by (auto simp: net_ok_def intro: dvd_trans dvd_triv_right)
  ultimately show ?thesis using assms(1,3) by (simp add: net_ok_def)
qed

lemma subnets_net:
  assumes "net_ok v p a" "int p < q" "q \<le> int (max_prefixlen v)"
  shows "subnets (net v p a) d (Some q) = Inr (tile v (nat q) a (2 ^ (nat q - p)))"
    and "0 < d \<Longrightarrow> q = int p + d \<Longrightarrow> subnets (net v p a) d None = Inr (tile v (nat q) a (2 ^ (nat q - p)))"
proof -
  let ?w = "max_prefixlen v" and ?q = "nat q"
  have pw: "(2::int) ^ (?w - p) = int (2 ^ (?q - p)) * 2 ^ (?w - ?q)" using assms by (simp flip: power_add)
  have range: "range_up a (a + 2 ^ (?w - p)) (2 ^ (?w - ?q)) =
      map (\<lambda>i. a + int i * 2 ^ (?w - ?q)) [0..<2 ^ (?q - p)]"
    unfolding pw by (rule range_up_count) simp
  have sub: "(a + int i * 2 ^ (?w - ?q)) AND prefix_mask v ?q = a + int i * 2 ^ (?w - ?q)"
    if "i < 2 ^ (?q - p)" for i
  proof -
    have "net_ok v ?q (a + int i * 2 ^ (?w - ?q))"
      using assms that by (intro net_ok_sub [of v p]) auto
    then show ?thesis by (simp add: and_prefix_mask net_ok_def)
  qed
  have m: "mask_of_int v (mask_int v q) = Inr \<lparr>im_version = v, im_mask = prefix_mask v ?q\<rparr>"
    using assms by (simp add: mask_int_eq)
  show "subnets (net v p a) d (Some q) = Inr (tile v ?q a (2 ^ (?q - p)))"
    using assms by (simp add: subnets_def m range sub tile_def net_def [of v ?q])
  show "subnets (net v p a) d None = Inr (tile v ?q a (2 ^ (?q - p)))" if "0 < d" "q = int p + d"
  proof -
    have d: "int p + d = q" using that by simp
    show ?thesis
      using assms that(1) by (simp add: subnets_def Let_def d m range sub tile_def net_def [of v ?q])
  qed
qed

lemma halve_prefixlen:
  assumes "halve n = Inr (t1, t2)"
  shows "network_prefixlen n < max_prefixlen (nw_version n)"
    and "t \<in> {t1, t2} \<Longrightarrow> nw_version t = nw_version n \<and> network_prefixlen t = Suc (network_prefixlen n)"
proof -
  let ?v = "nw_version n" and ?p = "network_prefixlen n"
  have sub: "subnets n 1 None = Inr [t1, t2]"
    using assms by (cases "subnets n 1 None") (auto simp: halve_def split: list.split_asm)
  then have p: "Suc ?p \<le> max_prefixlen ?v" by (auto simp: subnets_def Let_def split: if_splits)
  then show "?p < max_prefixlen ?v" by simp
  have "mask_of_int ?v (mask_int ?v (int ?p + 1)) =
      Inr \<lparr>im_version = ?v, im_mask = prefix_mask ?v (Suc ?p)\<rparr>"
    using p by (simp add: mask_int_eq nat_add_distrib)
  then show "nw_version t = ?v \<and> network_prefixlen t = Suc ?p" if "t \<in> {t1, t2}"
    using sub that p by (auto simp: subnets_def Let_def network_prefixlen_def split: if_splits)
qed

text \<open>The halving loop of \<open>address_exclude\<close>.\<close>

function exclude_loop :: "ip_network \<Rightarrow> ip_network \<Rightarrow> ip_network \<Rightarrow> ip_network list res" where
  "exclude_loop s1 s2 other =
     (if s1 \<noteq> other \<and> s2 \<noteq> other then
        (if subnet_of other s1 then
           (case halve s1 of
              Inl e \<Rightarrow> Inl e
            | Inr (t1, t2) \<Rightarrow> bind_res (exclude_loop t1 t2 other) (\<lambda>ns. Inr (s2 # ns)))
         else if subnet_of other s2 then
           (case halve s2 of
              Inl e \<Rightarrow> Inl e
            | Inr (t1, t2) \<Rightarrow> bind_res (exclude_loop t1 t2 other) (\<lambda>ns. Inr (s1 # ns)))
         else Inl SanityError)
      else if s1 = other then Inr [s2]
      else Inr [s1])"
  by auto
termination
proof (relation "measure (\<lambda>(s1, s2, _).
    max (max_prefixlen (nw_version s1) - network_prefixlen s1)
        (max_prefixlen (nw_version s2) - network_prefixlen s2))", goal_cases)
  case 1
  show ?case by simp
next
  case (2 s1 s2 other halves t1 t2)
  then have h: "halve s1 = Inr (t1, t2)" by simp
  from halve_prefixlen(1) [OF h] halve_prefixlen(2) [OF h, of t1] halve_prefixlen(2) [OF h, of t2]
  show ?case by simp
next
  case (3 s1 s2 other halves t1 t2)
  then have h: "halve s2 = Inr (t1, t2)" by simp
  from halve_prefixlen(1) [OF h] halve_prefixlen(2) [OF h, of t1] halve_prefixlen(2) [OF h, of t2]
  show ?case by simp
qed

declare exclude_loop.simps [simp del]

definition address_exclude :: "ip_network \<Rightarrow> ip_network \<Rightarrow> ip_network list res" where
  "address_exclude n other =
     (if \<not> subnet_of other n then Inl SanityError
      else if other = n then Inr []
      else bind_res (halve n) (\<lambda>(s1, s2). exclude_loop s1 s2 other))"

lemma halve_net:
  assumes "net_ok v p a" "p < max_prefixlen v"
  shows "halve (net v p a) = Inr (net v (Suc p) a, net v (Suc p) (a + 2 ^ (max_prefixlen v - Suc p)))"
    and "net_ok v (Suc p) a" and "net_ok v (Suc p) (a + 2 ^ (max_prefixlen v - Suc p))"
    and "block a (max_prefixlen v - p) =
      block a (max_prefixlen v - Suc p) \<union>
      block (a + 2 ^ (max_prefixlen v - Suc p)) (max_prefixlen v - Suc p)"
proof -
  let ?h = "max_prefixlen v - Suc p"
  have "subnets (net v p a) 1 None = Inr (tile v (Suc p) a 2)"
    using subnets_net(2) [OF assms(1), of "int p + 1" 1] assms(2) by (simp add: nat_add_distrib)
  then show "halve (net v p a) = Inr (net v (Suc p) a, net v (Suc p) (a + 2 ^ ?h))"
    by (simp add: halve_def tile_def upt_rec)
  show "net_ok v (Suc p) a" "net_ok v (Suc p) (a + 2 ^ ?h)"
    using net_ok_sub [OF assms(1), of "Suc p" 0] net_ok_sub [OF assms(1), of "Suc p" 1] assms(2) by simp_all
  have "max_prefixlen v - p = Suc ?h" using assms(2) by simp
  then have w: "(2::int) ^ (max_prefixlen v - p) = 2 * 2 ^ ?h" by (simp only: power_Suc)
  define h :: int where "h = 2 ^ ?h"
  have "0 \<le> h" by (simp add: h_def)
  then show "block a (max_prefixlen v - p) = block a ?h \<union> block (a + 2 ^ ?h) ?h"
    unfolding block_def w h_def [symmetric] by auto
qed

text \<open>Result of removing \<open>X\<close> from \<open>S\<close>: disjoint well-formed networks, exactly covering the rest.\<close>

definition partition_of :: "ip_version \<Rightarrow> int set \<Rightarrow> ip_network list \<Rightarrow> bool" where
  "partition_of v S ns \<longleftrightarrow>
     (\<forall>n \<in> set ns. network_ok n \<and> nw_version n = v) \<and>
     sorted_wrt (\<lambda>n k. net_set n \<inter> net_set k = {}) ns \<and>
     \<Union> (net_set ` set ns) = S"

lemma partition_of_Cons:
  assumes "partition_of v S ns" "network_ok n" "nw_version n = v" "net_set n \<inter> S = {}"
  shows "partition_of v (net_set n \<union> S) (n # ns)"
  using assms by (auto simp: partition_of_def)

lemma net_eq_iff:
  "p \<le> max_prefixlen v \<Longrightarrow> q \<le> max_prefixlen v \<Longrightarrow> net v p a = net v q b \<longleftrightarrow> p = q \<and> a = b"
  by (auto simp: net_def prefix_mask_inject)

lemma same_size_block:
  "2 ^ k dvd a \<Longrightarrow> 2 ^ k dvd b \<Longrightarrow> b \<in> block a k \<Longrightarrow> a = b"
  using block_nested [of k a k b b] block_start [of a k]
  by (auto simp: block_def dest: subsetD [of _ _ a])

lemma exclude_loop_base:
  assumes "net_ok v q a" "net_ok v q (a + 2 ^ (max_prefixlen v - q))" "net_ok v q b"
    "b \<in> block a (max_prefixlen v - q) \<union> block (a + 2 ^ (max_prefixlen v - q)) (max_prefixlen v - q)"
  shows "\<exists>ns. exclude_loop (net v q a) (net v q (a + 2 ^ (max_prefixlen v - q))) (net v q b) = Inr ns \<and>
    length ns = 1 \<and>
    partition_of v (block a (max_prefixlen v - q) \<union> block (a + 2 ^ (max_prefixlen v - q)) (max_prefixlen v - q)
                    - block b (max_prefixlen v - q)) ns"
proof -
  let ?k = "max_prefixlen v - q"
  have dvd: "2 ^ ?k dvd a" "2 ^ ?k dvd a + 2 ^ ?k" "2 ^ ?k dvd b"
    using assms by (auto simp: net_ok_def)
  then have b: "b = a \<or> b = a + 2 ^ ?k"
    using assms(4) same_size_block [of ?k a b] same_size_block [of ?k "a + 2 ^ ?k" b] by auto
  have disj: "block a ?k \<inter> block (a + 2 ^ ?k) ?k = {}" by (auto simp: block_def)
  have q: "q \<le> max_prefixlen v" using assms(1) by (simp add: net_ok_def)
  have part: "partition_of v (block c ?k) [net v q c]" if "net_ok v q c" for c
    using that by (simp add: partition_of_def)
  from b show ?thesis
  proof
    assume "b = a"
    then have "exclude_loop (net v q a) (net v q (a + 2 ^ ?k)) (net v q b) = Inr [net v q (a + 2 ^ ?k)]"
      by (simp add: exclude_loop.simps)
    moreover have "block a ?k \<union> block (a + 2 ^ ?k) ?k - block b ?k = block (a + 2 ^ ?k) ?k"
      using disj \<open>b = a\<close> by blast
    ultimately show ?thesis using part assms(2) by simp
  next
    assume "b = a + 2 ^ ?k"
    then have "exclude_loop (net v q a) (net v q (a + 2 ^ ?k)) (net v q b) = Inr [net v q a]"
      using q by (simp add: exclude_loop.simps net_eq_iff)
    moreover have "block a ?k \<union> block (a + 2 ^ ?k) ?k - block b ?k = block a ?k"
      using disj \<open>b = a + 2 ^ ?k\<close> by blast
    ultimately show ?thesis using part assms(1) by simp
  qed
qed

lemma exclude_loop_net:
  assumes "net_ok v q a" "net_ok v q (a + 2 ^ (max_prefixlen v - q))" "net_ok v r b" "r = q + d"
    "b \<in> block a (max_prefixlen v - q) \<union> block (a + 2 ^ (max_prefixlen v - q)) (max_prefixlen v - q)"
  shows "\<exists>ns. exclude_loop (net v q a) (net v q (a + 2 ^ (max_prefixlen v - q))) (net v r b) = Inr ns \<and>
    length ns = Suc d \<and>
    partition_of v (block a (max_prefixlen v - q) \<union> block (a + 2 ^ (max_prefixlen v - q)) (max_prefixlen v - q)
                    - block b (max_prefixlen v - r)) ns"
  using assms
proof (induction d arbitrary: q a)
  case 0
  then show ?case using exclude_loop_base [of v q a b] by simp
next
  case (Suc d)
  let ?k = "max_prefixlen v - q" and ?l = "max_prefixlen v - r"
  let ?s1 = "net v q a" and ?s2 = "net v q (a + 2 ^ ?k)"
  have q: "q < max_prefixlen v" "q \<noteq> r" "r \<le> max_prefixlen v" using Suc.prems(3,4) by (auto simp: net_ok_def)
  have ne: "?s1 \<noteq> net v r b" "?s2 \<noteq> net v r b" using q by (auto simp: net_eq_iff)
  have disj: "block a ?k \<inter> block (a + 2 ^ ?k) ?k = {}" by (auto simp: block_def)
  have sub: "subnet_of (net v r b) (net v q c) \<longleftrightarrow> b \<in> block c ?k"
    and nest: "b \<in> block c ?k \<Longrightarrow> block b ?l \<subseteq> block c ?k" if "net_ok v q c" for c
  proof -
    show nest: "b \<in> block c ?k \<Longrightarrow> block b ?l \<subseteq> block c ?k"
      using that Suc.prems(3,4) by (intro block_nested [of _ _ _ _ b]) (auto simp: net_ok_def)
    show "subnet_of (net v r b) (net v q c) \<longleftrightarrow> b \<in> block c ?k"
      using nest Suc.prems(3) block_start [of b ?l] by (auto simp: subnet_of_iff)
  qed
  have half: "\<exists>ns. exclude_loop t1 t2 (net v r b) = Inr ns \<and> length ns = Suc d \<and>
      partition_of v (block c ?k - block b ?l) ns \<and> halve (net v q c) = Inr (t1, t2)"
    if c: "net_ok v q c" "b \<in> block c ?k"
      and t: "t1 = net v (Suc q) c" "t2 = net v (Suc q) (c + 2 ^ (max_prefixlen v - Suc q))" for c t1 t2
    using Suc.IH [OF halve_net(2,3) [OF c(1) q(1)] Suc.prems(3)] Suc.prems(4) c(2)
      halve_net(1,4) [OF c(1) q(1)] by (simp add: t)
  show ?case
  proof (cases "b \<in> block a ?k")
    case True
    from half [OF Suc.prems(1) True refl refl] obtain ns t1 t2 where
      ns: "exclude_loop t1 t2 (net v r b) = Inr ns" "length ns = Suc d"
        "partition_of v (block a ?k - block b ?l) ns" "halve ?s1 = Inr (t1, t2)" by blast
    have "exclude_loop ?s1 ?s2 (net v r b) = Inr (?s2 # ns)"
      using ne True ns(1,4) sub [OF Suc.prems(1)] by (simp add: exclude_loop.simps [of ?s1])
    moreover have "partition_of v (net_set ?s2 \<union> (block a ?k - block b ?l)) (?s2 # ns)"
      using ns(3) Suc.prems(2) disj by (intro partition_of_Cons) auto
    moreover have "net_set ?s2 \<union> (block a ?k - block b ?l) = block a ?k \<union> block (a + 2 ^ ?k) ?k - block b ?l"
      using disj nest [OF Suc.prems(1) True] by auto
    ultimately show ?thesis using ns(2) by simp
  next
    case False
    then have b2: "b \<in> block (a + 2 ^ ?k) ?k" using Suc.prems(5) by simp
    from half [OF Suc.prems(2) b2 refl refl] obtain ns t1 t2 where
      ns: "exclude_loop t1 t2 (net v r b) = Inr ns" "length ns = Suc d"
        "partition_of v (block (a + 2 ^ ?k) ?k - block b ?l) ns" "halve ?s2 = Inr (t1, t2)" by blast
    have "exclude_loop ?s1 ?s2 (net v r b) = Inr (?s1 # ns)"
      using ne False b2 ns(1,4) sub [OF Suc.prems(1)] sub [OF Suc.prems(2)]
      by (simp add: exclude_loop.simps [of ?s1])
    moreover have "partition_of v (net_set ?s1 \<union> (block (a + 2 ^ ?k) ?k - block b ?l)) (?s1 # ns)"
      using ns(3) Suc.prems(1) disj by (intro partition_of_Cons) auto
    moreover have "net_set ?s1 \<union> (block (a + 2 ^ ?k) ?k - block b ?l) =
        block a ?k \<union> block (a + 2 ^ ?k) ?k - block b ?l"
      using disj nest [OF Suc.prems(2) b2] by auto
    ultimately show ?thesis using ns(2) by simp
  qed
qed

lemma block_subset_prefix:
  assumes "net_ok v p a" "net_ok v r b" "block b (max_prefixlen v - r) \<subseteq> block a (max_prefixlen v - p)"
  shows "p \<le> r"
proof -
  let ?k = "max_prefixlen v - p" and ?l = "max_prefixlen v - r"
  have "block a ?k = {a..a + 2 ^ ?k - 1}" by (auto simp: block_def)
  then have "a \<le> b" "b + 2 ^ ?l \<le> a + 2 ^ ?k" using block_subset_exp [of b ?l] assms(3) by force+
  then have "(2::int) ^ ?l \<le> 2 ^ ?k" by linarith
  then have "?l \<le> ?k" by (simp add: power_increasing_iff)
  then show ?thesis using assms(1,2) unfolding net_ok_def by linarith
qed

lemma partition_of_mem:
  "partition_of v S ns \<Longrightarrow> n \<in> set ns \<Longrightarrow> net_set n \<subseteq> S \<and> network_ok n \<and> nw_version n = v"
  by (auto simp: partition_of_def)

lemma tile_length [simp]: "length (tile v q a n) = n"
  by (simp add: tile_def)

lemma tile_union: "\<Union> (net_set ` set (tile v q a n)) = {a..<a + int n * 2 ^ (max_prefixlen v - q)}"
proof (induction n)
  case (Suc n)
  define h :: int where "h = 2 ^ (max_prefixlen v - q)"
  define m where "m = int n * h"
  have "0 \<le> m" "0 \<le> h" by (simp_all add: h_def m_def)
  then have "{a..<a + m} \<union> {a + m..<a + m + h} = {a..<a + (m + h)}" by auto
  moreover have "m + h = int (Suc n) * h" by (simp add: m_def algebra_simps)
  ultimately have "{a..<a + int n * h} \<union> {a + int n * h..<a + int n * h + h} = {a..<a + int (Suc n) * h}"
    by (simp add: m_def)
  then show ?case using Suc by (simp add: tile_def block_def Un_commute flip: h_def)
qed (simp add: tile_def)

lemma tile_disjoint: "sorted_wrt (\<lambda>n k. net_set n \<inter> net_set k = {}) (tile v q a n)"
proof (induction n)
  case (Suc n)
  have "net_set s \<inter> net_set (net v q (a + int n * 2 ^ (max_prefixlen v - q))) = {}"
    if "s \<in> set (tile v q a n)" for s
  proof -
    have "net_set s \<subseteq> {a..<a + int n * 2 ^ (max_prefixlen v - q)}" using that tile_union by blast
    then show ?thesis by (auto simp: block_def)
  qed
  then show ?case using Suc by (simp add: tile_def sorted_wrt_append)
qed (simp add: tile_def)

lemma tile_partition:
  assumes "net_ok v p a" "p \<le> q" "q \<le> max_prefixlen v"
  shows "partition_of v (net_set (net v p a)) (tile v q a (2 ^ (q - p)))"
proof -
  have "int (2 ^ (q - p)) * 2 ^ (max_prefixlen v - q) = 2 ^ (max_prefixlen v - p)"
    using assms by (simp flip: power_add)
  then have "\<Union> (net_set ` set (tile v q a (2 ^ (q - p)))) = block a (max_prefixlen v - p)"
    unfolding tile_union by (simp only: block_def)
  moreover have "\<forall>n \<in> set (tile v q a (2 ^ (q - p))). network_ok n \<and> nw_version n = v"
    using net_ok_sub [OF assms] by (auto simp: tile_def)
  ultimately show ?thesis using tile_disjoint by (simp add: partition_of_def)
qed

section \<open>Aggregation\<close>

datatype ip_item = Addr_Item ip_address | Net_Item ip_network | Other_Item

fun collect_spans ::
  "ip_item list \<Rightarrow> (int \<times> int) list \<Rightarrow> (int \<times> int) list \<Rightarrow> ((int \<times> int) list \<times> (int \<times> int) list) res" where
  "collect_spans [] spans4 spans6 = Inr (spans4, spans6)"
| "collect_spans (Addr_Item a # items) spans4 spans6 =
     (case ia_version a of
        IP4 \<Rightarrow> collect_spans items (spans4 @ [(ia_int a, ia_int a)]) spans6
      | IP6 \<Rightarrow> collect_spans items spans4 (spans6 @ [(ia_int a, ia_int a)]))"
| "collect_spans (Net_Item n # items) spans4 spans6 =
     (case nw_version n of
        IP4 \<Rightarrow> collect_spans items (spans4 @ [(nw_address n, network_last n)]) spans6
      | IP6 \<Rightarrow> collect_spans items spans4 (spans6 @ [(nw_address n, network_last n)]))"
| "collect_spans (Other_Item # items) spans4 spans6 = Inl SanityError"

definition network_of_pair :: "ip_version \<Rightarrow> int \<times> int \<Rightarrow> ip_network res" where
  "network_of_pair v pair =
     (case pair of (network_int, prefixlen) \<Rightarrow>
        bind_res (mk_address v network_int) (\<lambda>a.
        bind_res (if prefixlen < 0 then Inl FormatError else mask_of_bit_count v (nat prefixlen)) (\<lambda>m.
        mk_network v (ia_int a) (im_mask m) False)))"

definition summarize_spans :: "ip_version \<Rightarrow> (int \<times> int) list \<Rightarrow> ip_network list res" where
  "summarize_spans v spans =
     map_res (network_of_pair v)
       (concat (map (\<lambda>(lo, hi). summarize_ints lo hi (max_prefixlen v)) (merge_spans spans)))"

definition summarize :: "ip_item list \<Rightarrow> ip_network list res" where
  "summarize items =
     bind_res (collect_spans items [] []) (\<lambda>(spans4, spans6).
       if spans4 \<noteq> [] \<and> spans6 \<noteq> [] then Inl SanityError
       else bind_res (summarize_spans IP4 spans4) (\<lambda>ns4.
            bind_res (summarize_spans IP6 spans6) (\<lambda>ns6. Inr (ns4 @ ns6))))"

text \<open>What an item covers, and when it is a well-formed item of version \<open>v\<close>.\<close>

fun item_set :: "ip_item \<Rightarrow> int set" where
  "item_set (Addr_Item a) = {ia_int a}"
| "item_set (Net_Item n) = net_set n"
| "item_set Other_Item = {}"

fun item_ok :: "ip_version \<Rightarrow> ip_item \<Rightarrow> bool" where
  "item_ok v (Addr_Item a) \<longleftrightarrow> ia_version a = v \<and> 0 \<le> ia_int a \<and> ia_int a \<le> IP__MASK v"
| "item_ok v (Net_Item n) \<longleftrightarrow> nw_version n = v \<and> network_ok n"
| "item_ok v Other_Item \<longleftrightarrow> False"

fun item_span :: "ip_item \<Rightarrow> int \<times> int" where
  "item_span (Addr_Item a) = (ia_int a, ia_int a)"
| "item_span (Net_Item n) = (nw_address n, network_last n)"
| "item_span Other_Item = (0, -1)"

lemma collect_spans_eq:
  "\<forall>i \<in> set items. item_ok v i \<Longrightarrow>
   collect_spans items s4 s6 =
     Inr (if v = IP4 then (s4 @ map item_span items, s6) else (s4, s6 @ map item_span items))"
proof (induction items arbitrary: s4 s6)
  case (Cons i items)
  then show ?case by (cases i; cases v) auto
qed simp

lemma item_span_set: "span_set (map item_span items) = \<Union> (item_set ` set items)"
proof (induction items)
  case (Cons i items)
  then show ?case by (cases i) (auto simp: net_set_def)
qed simp

lemma item_span_bounds:
  assumes "\<forall>i \<in> set items. item_ok v i"
  shows "list_all (\<lambda>(lo, hi). lo \<le> hi \<and> 0 \<le> lo \<and> hi \<le> 2 ^ max_prefixlen v - 1) (map item_span items)"
proof -
  have "case item_span i of (lo, hi) \<Rightarrow> lo \<le> hi \<and> 0 \<le> lo \<and> hi \<le> 2 ^ max_prefixlen v - 1"
    if "item_ok v i" for i
  proof (cases i)
    case (Net_Item n)
    with that obtain p a where n: "n = net v p a" "net_ok v p a" by (auto elim!: network_okE)
    then show ?thesis using net_ok_end [OF n(2)] by (simp add: Net_Item net_ok_def)
  qed (use that in \<open>auto simp: IP__MASK_eq\<close>)
  then show ?thesis using assms by (auto simp: list_all_iff)
qed

lemma tiles_mem:
  "tiles bits lo hi bs \<Longrightarrow> (a, p) \<in> set bs \<Longrightarrow>
   lo \<le> a \<and> a + 2 ^ (bits - nat p) \<le> hi + 1 \<and> 0 \<le> p \<and> p \<le> int bits \<and> 2 ^ (bits - nat p) dvd a"
proof (induction bits lo hi bs rule: tiles.induct)
  case (2 bits lo hi b q bs)
  define m where "m = lo + 2 ^ (bits - nat q)"
  have "lo \<le> m" by (simp add: m_def)
  moreover have "tiles bits m hi bs" using 2(2) by (simp add: m_def)
  ultimately show ?case using 2 tiles_le [of bits m hi bs] by (auto simp flip: m_def)
qed simp

lemma network_of_pair_eq:
  assumes "0 \<le> a" "a + 2 ^ (max_prefixlen v - nat p) \<le> 2 ^ max_prefixlen v" "0 \<le> p"
    "p \<le> int (max_prefixlen v)" "2 ^ (max_prefixlen v - nat p) dvd a"
  shows "network_of_pair v (a, p) = Inr (net v (nat p) a)" and "net_ok v (nat p) a"
proof -
  have "(0::int) < 2 ^ (max_prefixlen v - nat p)" by simp
  then have a: "a < 2 ^ max_prefixlen v" using assms(2) by linarith
  then show "net_ok v (nat p) a" using assms by (simp add: net_ok_def nat_le_iff)
  have "mk_network v a (prefix_mask v (nat p)) False = Inr (net v (nat p) a)"
    using mk_network_eq(1) [of a v "nat p"] assms a by (simp add: nat_le_iff)
  then show "network_of_pair v (a, p) = Inr (net v (nat p) a)"
    using assms a by (simp add: network_of_pair_def mk_address_def IP__MASK_eq mask_of_bit_count_eq nat_le_iff)
qed

definition span_blocks :: "nat \<Rightarrow> (int \<times> int) list \<Rightarrow> (int \<times> int) list" where
  "span_blocks bits spans = concat (map (\<lambda>(lo, hi). summarize_ints lo hi bits) spans)"

lemma span_blocks_tile:
  assumes "separated spans" "\<forall>(lo, hi) \<in> set spans. 0 \<le> lo \<and> hi < 2 ^ bits"
  shows "\<Union> (pair_block bits ` set (span_blocks bits spans)) = span_set spans \<and>
         sorted_wrt (\<lambda>b c. pair_block bits b \<inter> pair_block bits c = {}) (span_blocks bits spans)"
  using assms
proof (induction spans)
  case Nil
  show ?case by (simp add: span_blocks_def)
next
  case (Cons s spans)
  obtain lo hi where s: "s = (lo, hi)" by (cases s)
  have b: "0 \<le> lo" "lo \<le> hi" "hi < 2 ^ bits" and far: "\<forall>t \<in> set spans. hi + 1 < fst t"
    using Cons.prems by (auto simp: s separated_def)
  have IH: "\<Union> (pair_block bits ` set (span_blocks bits spans)) = span_set spans"
    "sorted_wrt (\<lambda>b c. pair_block bits b \<inter> pair_block bits c = {}) (span_blocks bits spans)"
    using Cons by (auto simp: separated_def)
  have tl: "tiles bits lo hi (summarize_ints lo hi bits)" using b by (intro summarize_ints_tiles) auto
  note here = tiles_union [OF tl] tiles_disjoint [OF tl]
  have eq: "span_blocks bits (s # spans) = summarize_ints lo hi bits @ span_blocks bits spans"
    by (simp add: span_blocks_def s)
  have "{lo..hi} \<inter> span_set spans = {}" using far by (force simp: span_set_def)
  then have "\<forall>x \<in> set (summarize_ints lo hi bits). \<forall>y \<in> set (span_blocks bits spans).
      pair_block bits x \<inter> pair_block bits y = {}"
    using here(1) IH(1) by blast
  then show ?case unfolding eq using here IH by (simp add: sorted_wrt_append s)
qed

lemma span_blocks_maximal:
  assumes "separated spans" "\<forall>(lo, hi) \<in> set spans. 0 \<le> lo \<and> hi < 2 ^ bits"
    "2 ^ k dvd a" "block a k \<subseteq> span_set spans"
  shows "\<exists>b \<in> set (span_blocks bits spans). block a k \<subseteq> pair_block bits b"
proof -
  have "block a k = {a..a + 2 ^ k - 1}" by (auto simp: block_def)
  then obtain lo hi where m: "(lo, hi) \<in> set spans" "block a k \<subseteq> {lo..hi}"
    using interval_in_one_span [OF assms(1), of a "a + 2 ^ k - 1"] assms(4) by auto
  have "0 \<le> lo" "hi < 2 ^ bits" using assms(2) m(1) by auto
  from summarize_ints_maximal [OF this assms(3) m(2)]
  obtain b where "b \<in> set (summarize_ints lo hi bits)" "block a k \<subseteq> pair_block bits b" ..
  then show ?thesis using m(1) by (intro bexI [of _ b]) (auto simp: span_blocks_def)
qed

lemma summarize_spans_correct:
  assumes "list_all (\<lambda>(lo, hi). lo \<le> hi \<and> 0 \<le> lo \<and> hi \<le> 2 ^ max_prefixlen v - 1) spans"
  shows "\<exists>ns. summarize_spans v spans = Inr ns \<and> partition_of v (span_set spans) ns \<and>
    (\<forall>ks. (\<forall>k \<in> set ks. network_ok k \<and> nw_version k = v) \<and> \<Union> (net_set ` set ks) = span_set spans
       \<longrightarrow> length ns \<le> length ks)"
proof -
  let ?w = "max_prefixlen v" and ?ms = "merge_spans spans"
  let ?bs = "span_blocks ?w ?ms" and ?n = "\<lambda>(a, p). net v (nat p) a"
  have "list_all (\<lambda>(lo, hi). lo \<le> hi) spans" using assms by (auto simp: list_all_iff)
  note ms = merge_spans_correct [OF this]
  have bd: "0 \<le> lo" "lo \<le> hi" "hi < 2 ^ ?w" if "(lo, hi) \<in> set ?ms" for lo hi
    using merge_spans_bounds [OF assms that] by auto
  then have in_range: "\<forall>(lo, hi) \<in> set ?ms. 0 \<le> lo \<and> hi < 2 ^ ?w" by auto
  note tile = span_blocks_tile [OF ms(1) in_range, unfolded ms(2)]
  have each: "network_of_pair v b = Inr (?n b) \<and> net_ok v (nat (snd b)) (fst b)" if b: "b \<in> set ?bs" for b
  proof -
    from b obtain lo hi where m: "(lo, hi) \<in> set ?ms" "b \<in> set (summarize_ints lo hi ?w)"
      by (auto simp: span_blocks_def)
    have "tiles ?w lo hi (summarize_ints lo hi ?w)" using bd [OF m(1)] by (intro summarize_ints_tiles) auto
    from tiles_mem [OF this, of "fst b" "snd b"] m(2) bd [OF m(1)]
      network_of_pair_eq [of "fst b" v "snd b"]
    show ?thesis by (auto split: prod.splits)
  qed
  have run: "summarize_spans v spans = Inr (map ?n ?bs)"
    using each by (auto simp: summarize_spans_def simp flip: span_blocks_def intro!: map_res_Inr)
  have ns: "net_set (?n b) = pair_block ?w b" for b by (cases b) (simp add: pair_block_def)
  have part: "partition_of v (span_set spans) (map ?n ?bs)"
    using tile each by (auto simp: partition_of_def sorted_wrt_map ns image_image)
  have "length ?bs \<le> length ks"
    if ks: "\<forall>k \<in> set ks. network_ok k \<and> nw_version k = v" "\<Union> (net_set ` set ks) = span_set spans" for ks
  proof -
    have "\<exists>b \<in> set ?bs. net_set k \<subseteq> pair_block ?w b" if k: "k \<in> set ks" for k
    proof -
      obtain p a where a: "k = net v p a" "net_ok v p a" using ks(1) k by (auto elim!: network_okE)
      have "net_set k \<subseteq> span_set ?ms" using ks(2) k unfolding ms(2) by blast
      then have "block a (?w - p) \<subseteq> span_set ?ms" by (simp add: a(1))
      then show ?thesis
        using span_blocks_maximal [OF ms(1) in_range] a(2) by (simp add: a(1) net_ok_def)
    qed
    then have "length ?bs \<le> length (map net_set ks)"
      using tile ks(2) by (intro disjoint_cover_minimal [of "pair_block ?w"]) (auto simp: pair_block_def)
    then show ?thesis by simp
  qed
  then show ?thesis using run part by auto
qed

section \<open>Properties\<close>

text \<open>
  Network membership is the mask test: an address of the network's version is in a
  well-formed network, by the comparison with the first and last address that
  \<open>__contains__\<close> performs, exactly when clearing its host bits gives the network address.
\<close>

lemma contains_iff_masked:
  assumes "network_ok n" "mk_address v x = Inr a"
  shows "network_contains n a \<longleftrightarrow> nw_version n = v \<and> x AND nw_mask n = nw_address n"
  using assms contains_masked [of n a] by (auto simp: mk_address_def split: if_splits)

text \<open>
  Networks are disjoint or nested: two well-formed networks overlap exactly when one is
  a subnet of the other, so every routing table over them has a most specific match.
\<close>

lemma overlaps_iff_nested:
  assumes "network_ok n" "network_ok k"
  shows "overlaps n k \<longleftrightarrow> subnet_of n k \<or> supernet_of n k"
  using overlaps_nested [OF assms] by (simp add: supernet_of_def)

lemma overlaps_iff_nested_witness:
  "overlaps (net IP4 8 0x0A000000) (net IP4 16 0x0A010000) \<and>
   supernet_of (net IP4 8 0x0A000000) (net IP4 16 0x0A010000)"
proof -
  have ok: "network_ok (net IP4 8 0x0A000000)" "network_ok (net IP4 16 0x0A010000)"
    by (simp_all add: net_ok_def max_prefixlen_def)
  have "supernet_of (net IP4 8 0x0A000000) (net IP4 16 0x0A010000)"
    by (simp add: supernet_of_def subnet_of_def max_prefixlen_def)
  then show ?thesis using overlaps_iff_nested [OF ok] by blast
qed

text \<open>
  \<open>subnets\<close> tiles the network: for a longer prefix length within the address width it
  returns \<open>2 ^ (q - p)\<close> well-formed networks of that length, pairwise disjoint, whose
  union is the network; it raises the sanity error for a prefix length that is not longer or
  exceeds the width, unless the network is already a single address.
\<close>

lemma subnets_partition:
  assumes "network_ok n" "network_prefixlen n < max_prefixlen (nw_version n)"
  shows "if int (network_prefixlen n) < q \<and> q \<le> int (max_prefixlen (nw_version n))
    then \<exists>ns. subnets n d (Some q) = Inr ns \<and> partition_of (nw_version n) (net_set n) ns \<and>
              length ns = 2 ^ (nat q - network_prefixlen n) \<and>
              (\<forall>s \<in> set ns. network_prefixlen s = nat q \<and> subnet_of s n)
    else subnets n d (Some q) = Inl SanityError"
proof -
  from assms(1) obtain v p a where n: "n = net v p a" "net_ok v p a" by (rule network_okE)
  show ?thesis
  proof (cases "int p < q \<and> q \<le> int (max_prefixlen v)")
    case True
    let ?q = "nat q"
    have ok: "net_ok v ?q (a + int i * 2 ^ (max_prefixlen v - ?q))" if "i < 2 ^ (?q - p)" for i
      using n(2) True that by (intro net_ok_sub [of v p]) auto
    have part: "partition_of v (net_set n) (tile v ?q a (2 ^ (?q - p)))"
      using tile_partition [OF n(2), of ?q] True n(1) by (simp add: le_nat_iff nat_le_iff)
    have len: "\<forall>s \<in> set (tile v ?q a (2 ^ (?q - p))). network_prefixlen s = ?q"
      using ok by (auto simp: tile_def)
    have sub: "\<forall>s \<in> set (tile v ?q a (2 ^ (?q - p))). subnet_of s n"
      using partition_of_mem [OF part] n(1) by (simp add: subnet_of_iff)
    show ?thesis using subnets_net(1) [OF n(2), of q d] True part len sub n by simp
  next
    case False
    then show ?thesis using n assms(2) by (auto simp: subnets_def Let_def)
  qed
qed

lemma subnets_partition_witness:
  "\<exists>ns. subnets (net IP4 8 0x0A000000) 1 (Some 10) = Inr ns \<and> length ns = 4"
proof -
  have n: "net_ok IP4 8 0x0A000000" by (simp add: net_ok_def max_prefixlen_def)
  show ?thesis
    using subnets_partition [of "net IP4 8 0x0A000000" 10 1] n by (auto simp: max_prefixlen_def)
qed

text \<open>
  \<open>address_exclude\<close> removes exactly the other network: for a contained network it
  terminates with as many well-formed, pairwise disjoint networks as the prefix lengths
  differ, covering every address of the first network outside the second and no other; a network
  that is not contained is refused with the sanity error.
\<close>

theorem address_exclude_exact:
  assumes "network_ok n" "network_ok k"
  shows "if subnet_of k n
    then \<exists>ns. address_exclude n k = Inr ns \<and>
              length ns = network_prefixlen k - network_prefixlen n \<and>
              partition_of (nw_version n) (net_set n - net_set k) ns
    else address_exclude n k = Inl SanityError"
proof (cases "subnet_of k n")
  case True
  obtain v p a u r b where n: "n = net v p a" "net_ok v p a" and k: "k = net u r b" "net_ok u r b"
    using assms by (auto elim!: network_okE)
  have vu: "u = v" and sub: "block b (max_prefixlen v - r) \<subseteq> block a (max_prefixlen v - p)"
    using True assms(2) by (auto simp: subnet_of_iff n k)
  have pr: "p \<le> r" by (rule block_subset_prefix [OF n(2) k(2) [unfolded vu] sub])
  show ?thesis
  proof (cases "k = n")
    case True
    then have "address_exclude n k = Inr []" by (simp add: address_exclude_def subnet_of_def)
    then show ?thesis using True by (simp add: partition_of_def subnet_of_def)
  next
    case False
    have "p \<noteq> r"
    proof
      assume "p = r"
      then have "b \<in> block a (max_prefixlen v - r)" using sub block_start by blast
      then have "a = b"
        using same_size_block [of "max_prefixlen v - r" a b] n(2) k(2) vu \<open>p = r\<close> by (simp add: net_ok_def)
      then show False using False \<open>p = r\<close> n(1) k(1) vu by simp
    qed
    then have p: "p < max_prefixlen v" "r = Suc p + (r - Suc p)" using pr k(2) vu by (auto simp: net_ok_def)
    note h = halve_net [OF n(2) p(1)]
    have "b \<in> block a (max_prefixlen v - p)" using sub block_start by blast
    from exclude_loop_net [OF h(2,3) k(2) [unfolded vu] p(2) this [unfolded h(4)]]
    show ?thesis using True False n(2) k(2) pr \<open>p \<noteq> r\<close> h(1)
      by (auto simp: address_exclude_def n(1) k(1) vu h(4))
  qed
qed (simp add: address_exclude_def)

theorem address_exclude_exact_witness:
  "\<exists>ns. address_exclude (net IP4 8 0x0A000000) (net IP4 10 0x0A400000) = Inr ns \<and> length ns = 2 \<and>
     partition_of IP4 (net_set (net IP4 8 0x0A000000) - net_set (net IP4 10 0x0A400000)) ns"
proof -
  have ok: "net_ok IP4 8 0x0A000000" "net_ok IP4 10 0x0A400000" by (simp_all add: net_ok_def max_prefixlen_def)
  have "subnet_of (net IP4 10 0x0A400000) (net IP4 8 0x0A000000)" by (simp add: subnet_of_def max_prefixlen_def)
  then show ?thesis
    using address_exclude_exact [of "net IP4 8 0x0A000000" "net IP4 10 0x0A400000"] ok by simp
qed

text \<open>
  C38. \<open>summarize\<close> is exact and minimal: on any list of addresses and networks of one
  version it returns pairwise disjoint well-formed networks that cover exactly the union of
  the items, and no list of networks with the same union is shorter.
\<close>

theorem summarize_exact_minimal:
  assumes "\<forall>i \<in> set items. item_ok v i"
  shows "\<exists>ns. summarize items = Inr ns \<and> partition_of v (\<Union> (item_set ` set items)) ns \<and>
    (\<forall>ks. (\<forall>k \<in> set ks. network_ok k \<and> nw_version k = v) \<and>
          \<Union> (net_set ` set ks) = \<Union> (item_set ` set items) \<longrightarrow> length ns \<le> length ks)"
proof -
  have nil: "summarize_spans u [] = Inr []" for u by (simp add: summarize_spans_def merge_spans_def)
  from summarize_spans_correct [OF item_span_bounds [OF assms]]
  show ?thesis
    by (cases v) (auto simp: summarize_def collect_spans_eq [OF assms] item_span_set nil)
qed

theorem summarize_exact_minimal_witness:
  "\<exists>ns. summarize [Net_Item (net IP4 8 0x0A000000), Addr_Item \<lparr>ia_version = IP4, ia_int = 5\<rparr>] = Inr ns \<and>
     partition_of IP4 (net_set (net IP4 8 0x0A000000) \<union> {5}) ns"
proof -
  have "net_ok IP4 8 0x0A000000" by (simp add: net_ok_def max_prefixlen_def)
  then have "\<forall>i \<in> set [Net_Item (net IP4 8 0x0A000000), Addr_Item \<lparr>ia_version = IP4, ia_int = 5\<rparr>]. item_ok IP4 i"
    by simp
  from summarize_exact_minimal [OF this] show ?thesis by auto
qed

end
