(* ===== verification/Addresses.thy ===== *)
theory Addresses
  imports Ip_Network
begin

text \<open>
  The classes of addresses the link layer and the ARP handlers test: \<^verbatim>\<open>mac_address.py\<close>,
  \<^verbatim>\<open>ip4_address.py\<close> and the multicast part of \<^verbatim>\<open>ip6_address.py\<close>. A link-layer address is
  a 48-bit word; the tests mask it as the code does.
\<close>

section \<open>Link-layer addresses\<close>

type_synonym mac = "48 word"

definition MAC__MULTICAST_BIT :: mac where "MAC__MULTICAST_BIT = 0x010000000000"
definition MAC__BROADCAST :: mac where "MAC__BROADCAST = 0xFFFFFFFFFFFF"
definition MAC__IP4_MULTICAST_PREFIX :: mac where "MAC__IP4_MULTICAST_PREFIX = 0x01005E000000"
definition MAC__IP6_MULTICAST_PREFIX :: mac where "MAC__IP6_MULTICAST_PREFIX = 0x333300000000"

definition mac_is_unspecified :: "mac \<Rightarrow> bool" where
  "mac_is_unspecified m \<longleftrightarrow> m = 0"

definition mac_is_broadcast :: "mac \<Rightarrow> bool" where
  "mac_is_broadcast m \<longleftrightarrow> m = MAC__BROADCAST"

definition mac_is_multicast :: "mac \<Rightarrow> bool" where
  "mac_is_multicast m \<longleftrightarrow> m AND MAC__MULTICAST_BIT = MAC__MULTICAST_BIT \<and> \<not> mac_is_broadcast m"

definition mac_is_unicast :: "mac \<Rightarrow> bool" where
  "mac_is_unicast m \<longleftrightarrow> m AND MAC__MULTICAST_BIT = 0 \<and> \<not> mac_is_unspecified m"

lemmas mac_classes = mac_is_unspecified_def mac_is_broadcast_def mac_is_multicast_def mac_is_unicast_def
  MAC__MULTICAST_BIT_def MAC__BROADCAST_def

lemma bit_MULTICAST: "bit MAC__MULTICAST_BIT n \<longleftrightarrow> n = 40"
proof -
  have b: "MAC__MULTICAST_BIT = 2 ^ 40" by (simp add: MAC__MULTICAST_BIT_def)
  show ?thesis unfolding b bit_exp_iff by (auto simp: possible_bit_word)
qed

lemma and_single_bit: "m AND MAC__MULTICAST_BIT = (if bit m 40 then MAC__MULTICAST_BIT else 0)"
  by (rule bit_eqI) (auto simp: bit_and_iff bit_MULTICAST)

text \<open>Every link-layer address is of exactly one of the four kinds.\<close>

lemma mac_kinds:
  "mac_is_unicast m \<longleftrightarrow> \<not> mac_is_unspecified m \<and> \<not> mac_is_broadcast m \<and> \<not> mac_is_multicast m"
proof -
  have "MAC__MULTICAST_BIT \<noteq> 0" "bit MAC__BROADCAST 40" "\<not> bit (0 :: mac) 40"
    by (simp_all add: MAC__MULTICAST_BIT_def MAC__BROADCAST_def)
  then show ?thesis
    by (auto simp: mac_is_unspecified_def mac_is_broadcast_def mac_is_multicast_def mac_is_unicast_def and_single_bit
        split: if_splits)
qed

section \<open>IPv4 addresses\<close>

definition ip_masked :: "ip_address \<Rightarrow> int \<Rightarrow> int \<Rightarrow> bool" where
  "ip_masked a msk pfx \<longleftrightarrow> ia_int a AND msk = pfx"

definition ip_is_unspecified :: "ip_address \<Rightarrow> bool" where
  "ip_is_unspecified a \<longleftrightarrow> ia_int a = 0"

definition ip4_is_link_local :: "ip_address \<Rightarrow> bool" where
  "ip4_is_link_local a \<longleftrightarrow> ip_masked a 0xFFFF0000 0xA9FE0000"

definition ip4_is_loopback :: "ip_address \<Rightarrow> bool" where
  "ip4_is_loopback a \<longleftrightarrow> ip_masked a 0xFF000000 0x7F000000"

definition ip4_is_multicast :: "ip_address \<Rightarrow> bool" where
  "ip4_is_multicast a \<longleftrightarrow> ip_masked a 0xF0000000 0xE0000000"

definition ip4_is_private :: "ip_address \<Rightarrow> bool" where
  "ip4_is_private a \<longleftrightarrow> ip_masked a 0xFF000000 0x0A000000 \<or> ip_masked a 0xFFF00000 0xAC100000 \<or>
     ip_masked a 0xFFFF0000 0xC0A80000"

definition ip4_is_reserved :: "ip_address \<Rightarrow> bool" where
  "ip4_is_reserved a \<longleftrightarrow> ip_masked a 0xF0000000 0xF0000000 \<and> ia_int a \<noteq> 0xFFFFFFFF"

definition ip4_is_limited_broadcast :: "ip_address \<Rightarrow> bool" where
  "ip4_is_limited_broadcast a \<longleftrightarrow> ia_int a = 0xFFFFFFFF"

definition ip4_is_invalid :: "ip_address \<Rightarrow> bool" where
  "ip4_is_invalid a \<longleftrightarrow> ip_masked a 0xFF000000 0 \<and> ia_int a \<noteq> 0"

definition ip4_is_global :: "ip_address \<Rightarrow> bool" where
  "ip4_is_global a \<longleftrightarrow>
     \<not> (ip_is_unspecified a \<or> ip4_is_invalid a \<or> ip4_is_link_local a \<or> ip4_is_loopback a \<or> ip4_is_multicast a \<or>
        ip4_is_private a \<or> ip4_is_reserved a \<or> ip4_is_limited_broadcast a)"

definition ip4_is_unicast :: "ip_address \<Rightarrow> bool" where
  "ip4_is_unicast a \<longleftrightarrow> ip4_is_global a \<or> ip4_is_private a \<or> ip4_is_link_local a \<or> ip4_is_loopback a"

definition ip4_multicast_mac :: "ip_address \<Rightarrow> mac res" where
  "ip4_multicast_mac a =
     (if \<not> ip4_is_multicast a then Inl SanityError
      else Inr (MAC__IP4_MULTICAST_PREFIX OR word_of_int (ia_int a AND 0x7FFFFF)))"

definition ip6_is_multicast :: "ip_address \<Rightarrow> bool" where
  "ip6_is_multicast a \<longleftrightarrow> ip_masked a 0xFF000000000000000000000000000000 0xFF000000000000000000000000000000"

definition ip6_multicast_mac :: "ip_address \<Rightarrow> mac res" where
  "ip6_multicast_mac a =
     (if \<not> ip6_is_multicast a then Inl SanityError
      else Inr (MAC__IP6_MULTICAST_PREFIX OR word_of_int (ia_int a AND 0xFFFFFFFF)))"

text \<open>What the constructors of \<open>Ip4Address\<close> return.\<close>

definition ip4_ok :: "ip_address \<Rightarrow> bool" where
  "ip4_ok a \<longleftrightarrow> ia_version a = IP4 \<and> 0 \<le> ia_int a \<and> ia_int a < 2 ^ 32"

lemma mk_address_ip4: "mk_address IP4 x = (if 0 \<le> x \<and> x < 2 ^ 32 then Inr \<lparr>ia_version = IP4, ia_int = x\<rparr> else Inl FormatError)"
  by (auto simp: mk_address_def)

text \<open>A frame to a multicast group never carries a unicast or the unspecified link-layer address.\<close>

lemma multicast_mac_group: "ip4_multicast_mac a = Inr m \<or> ip6_multicast_mac a = Inr m \<Longrightarrow> \<not> mac_is_unicast m \<and> \<not> mac_is_unspecified m"
proof -
  assume "ip4_multicast_mac a = Inr m \<or> ip6_multicast_mac a = Inr m"
  then have "bit m 40"
    by (auto simp: ip4_multicast_mac_def ip6_multicast_mac_def bit_or_iff MAC__IP4_MULTICAST_PREFIX_def
        MAC__IP6_MULTICAST_PREFIX_def split: if_splits)
  then have "m AND MAC__MULTICAST_BIT \<noteq> 0" "m \<noteq> 0" using bit_MULTICAST [of 40] by (auto simp: and_single_bit)
  then show ?thesis by (simp add: mac_is_unicast_def mac_is_unspecified_def)
qed

end
