(* ===== verification/Neighbor.thy ===== *)
theory Neighbor
  imports Complex_Main Addresses
begin

text \<open>
  \<^verbatim>\<open>lib/neighbor.py\<close>: the neighbour unreachability detection machine that the ARP cache and the
  neighbor discovery cache share. Entries are an insertion-ordered dictionary; the clock reading
  of every operation is its argument \<open>now\<close>; the settings of \<^verbatim>\<open>neighbor__constants.py\<close> are the
  record \<open>nbr_sysctl\<close>.

  The two callbacks the code stores are arguments: \<open>solicit a cached c\<close> runs on the cache \<open>c\<close>,
  because the one of the IPv6 cache sends a probe through the Ethernet layer, which looks
  up the same cache; \<open>flush p m\<close> hands a waiting packet to the transmit ring. Both return the
  frames they send. The interface \<open>solicit_hook\<close> says what the machine needs of them.
\<close>

section \<open>Entries, settings and cache\<close>

datatype nud_state =
    NUD_INCOMPLETE
  | NUD_REACHABLE
  | NUD_STALE
  | NUD_DELAY
  | NUD_PROBE
  | NUD_FAILED
  | NUD_PERMANENT

record ('a, 'p) neighbor_entry =
  ne_address :: 'a
  ne_mac_address :: "mac option"
  ne_state :: nud_state
  ne_state_changed_at :: real
  ne_probe_count :: int
  ne_queued_packets :: "'p list"
  ne_last_used_at :: real

record ('a, 'p) neighbor_cache =
  nb_entries :: "('a \<times> ('a, 'p) neighbor_entry) list"
  nb_reachable_time_override :: "real option"

record nbr_sysctl =
  sy_reachable_time :: int
  sy_delay_first_probe_time :: int
  sy_retrans_timer :: int
  sy_max_unicast_solicit :: int
  sy_max_multicast_solicit :: int
  sy_gc_thresh1 :: int
  sy_gc_thresh2 :: int
  sy_gc_thresh3 :: int
  sy_gc_stale_time :: int
  sy_unres_qlen :: int

definition nbr_defaults :: nbr_sysctl where
  "nbr_defaults = \<lparr>sy_reachable_time = 30, sy_delay_first_probe_time = 5, sy_retrans_timer = 1,
     sy_max_unicast_solicit = 3, sy_max_multicast_solicit = 3, sy_gc_thresh1 = 128, sy_gc_thresh2 = 512,
     sy_gc_thresh3 = 1024, sy_gc_stale_time = 60, sy_unres_qlen = 64\<rparr>"

text \<open>What the registered validators, with the one that runs at the end, let through.\<close>

definition sysctl_valid :: "nbr_sysctl \<Rightarrow> bool" where
  "sysctl_valid sy \<longleftrightarrow>
     0 < sy_reachable_time sy \<and> 0 < sy_delay_first_probe_time sy \<and> 0 < sy_retrans_timer sy \<and>
     0 < sy_max_unicast_solicit sy \<and> 0 < sy_max_multicast_solicit sy \<and>
     0 \<le> sy_gc_thresh1 sy \<and> 0 \<le> sy_gc_thresh2 sy \<and> 0 \<le> sy_gc_thresh3 sy \<and>
     0 < sy_gc_stale_time sy \<and> 0 < sy_unres_qlen sy \<and>
     sy_gc_thresh1 sy \<le> sy_gc_thresh2 sy \<and> sy_gc_thresh2 sy \<le> sy_gc_thresh3 sy"

text \<open>A call that works on the cache, returns a value and sends frames, or raises.\<close>

type_synonym ('x, 'a, 'p, 'e) nbr_call = "('x \<times> ('a, 'p) neighbor_cache \<times> 'e list) res"

type_synonym ('a, 'p, 'e) solicit_cb =
  "'a \<Rightarrow> mac option \<Rightarrow> ('a, 'p) neighbor_cache \<Rightarrow> (('a, 'p) neighbor_cache \<times> 'e list) res"

type_synonym ('p, 'e) flush_cb = "'p \<Rightarrow> mac \<Rightarrow> 'e list"

definition empty_cache :: "('a, 'p) neighbor_cache" where
  "empty_cache = \<lparr>nb_entries = [], nb_reachable_time_override = None\<rparr>"

definition set_reachable_time_override_ms :: "int option \<Rightarrow> ('a, 'p) neighbor_cache \<Rightarrow> ('a, 'p) neighbor_cache" where
  "set_reachable_time_override_ms value_ms c =
     c\<lparr>nb_reachable_time_override := map_option (\<lambda>v. real_of_int v / 1000) value_ms\<rparr>"

text \<open>\<open>self._entries[address]\<close> read, assigned and deleted.\<close>

definition get_entry :: "'a \<Rightarrow> ('a, 'p) neighbor_cache \<Rightarrow> ('a, 'p) neighbor_entry option" where
  "get_entry a c = map_of (nb_entries c) a"

definition put_entry :: "'a \<Rightarrow> ('a, 'p) neighbor_entry \<Rightarrow> ('a, 'p) neighbor_cache \<Rightarrow> ('a, 'p) neighbor_cache" where
  "put_entry a e c = c\<lparr>nb_entries := AList.update a e (nb_entries c)\<rparr>"

definition del_entry :: "'a \<Rightarrow> ('a, 'p) neighbor_cache \<Rightarrow> ('a, 'p) neighbor_cache res" where
  "del_entry a c =
     (if get_entry a c = None then Inl KeyError else Inr (c\<lparr>nb_entries := AList.delete a (nb_entries c)\<rparr>))"

section \<open>Operations\<close>

definition transition ::
    "('a, 'p) neighbor_entry \<Rightarrow> nud_state \<Rightarrow> real \<Rightarrow> ('a, 'p) neighbor_entry" where
  "transition e new_state now = e\<lparr>ne_state := new_state, ne_state_changed_at := now\<rparr>"

definition fail_entry :: "('a, 'p) neighbor_entry \<Rightarrow> real \<Rightarrow> ('a, 'p) neighbor_entry" where
  "fail_entry e now = transition (e\<lparr>ne_queued_packets := []\<rparr>) NUD_FAILED now"

definition find_entry ::
    "('a, 'p, 'e) solicit_cb \<Rightarrow> real \<Rightarrow> 'a \<Rightarrow> ('a, 'p) neighbor_cache \<Rightarrow> (mac option, 'a, 'p, 'e) nbr_call" where
  "find_entry solicit now address c =
     (case get_entry address c of
        None \<Rightarrow>
          bind_res (solicit address None (put_entry address
              \<lparr>ne_address = address, ne_mac_address = None, ne_state = NUD_INCOMPLETE, ne_state_changed_at = now,
               ne_probe_count = 1, ne_queued_packets = [], ne_last_used_at = now\<rparr> c))
            (\<lambda>r. Inr (None, r))
      | Some entry0 \<Rightarrow>
          let entry = entry0\<lparr>ne_last_used_at := now\<rparr>
          in if ne_state entry \<in> {NUD_REACHABLE, NUD_DELAY, NUD_PROBE, NUD_PERMANENT} then
               Inr (ne_mac_address entry, put_entry address entry c, [])
             else if ne_state entry = NUD_STALE then
               Inr (ne_mac_address entry, put_entry address (transition entry NUD_DELAY now) c, [])
             else if ne_state entry = NUD_FAILED then
               bind_res (solicit address None (put_entry address
                   ((transition entry NUD_INCOMPLETE now)\<lparr>ne_probe_count := 1, ne_mac_address := None\<rparr>) c))
                 (\<lambda>r. Inr (None, r))
             else Inr (None, put_entry address entry c, []))"

definition add_entry ::
    "('p, 'e) flush_cb option \<Rightarrow> real \<Rightarrow> 'a \<Rightarrow> mac \<Rightarrow> ('a, 'p) neighbor_cache \<Rightarrow> ('a, 'p) neighbor_cache \<times> 'e list" where
  "add_entry flush now address mac_address c =
     (case get_entry address c of
        None \<Rightarrow>
          (put_entry address
             \<lparr>ne_address = address, ne_mac_address = Some mac_address, ne_state = NUD_REACHABLE,
              ne_state_changed_at = now, ne_probe_count = 0, ne_queued_packets = [], ne_last_used_at = now\<rparr> c, [])
      | Some entry \<Rightarrow>
          if ne_state entry = NUD_PERMANENT then (c, [])
          else
            (put_entry address
               (transition (entry\<lparr>ne_queued_packets := [], ne_mac_address := Some mac_address, ne_probe_count := 0\<rparr>)
                 NUD_REACHABLE now) c,
             case flush of
               None \<Rightarrow> []
             | Some f \<Rightarrow> concat (map (\<lambda>p. f p mac_address) (ne_queued_packets entry))))"

definition add_permanent_entry ::
    "real \<Rightarrow> 'a \<Rightarrow> mac \<Rightarrow> ('a, 'p) neighbor_cache \<Rightarrow> ('a, 'p) neighbor_cache" where
  "add_permanent_entry now address mac_address c =
     put_entry address
       \<lparr>ne_address = address, ne_mac_address = Some mac_address, ne_state = NUD_PERMANENT,
        ne_state_changed_at = now, ne_probe_count = 0, ne_queued_packets = [], ne_last_used_at = now\<rparr> c"

definition remove_entry :: "'a \<Rightarrow> ('a, 'p) neighbor_cache \<Rightarrow> bool \<times> ('a, 'p) neighbor_cache" where
  "remove_entry address c =
     (get_entry address c \<noteq> None, c\<lparr>nb_entries := AList.delete address (nb_entries c)\<rparr>)"

definition flush_cache :: "('a, 'p) neighbor_cache \<Rightarrow> nat \<times> ('a, 'p) neighbor_cache" where
  "flush_cache c = (length (nb_entries c), c\<lparr>nb_entries := []\<rparr>)"

definition cache_snapshot :: "('a, 'p) neighbor_cache \<Rightarrow> ('a, 'p) neighbor_entry list" where
  "cache_snapshot c = map snd (nb_entries c)"

definition confirm_reachability :: "real \<Rightarrow> 'a \<Rightarrow> ('a, 'p) neighbor_cache \<Rightarrow> ('a, 'p) neighbor_cache" where
  "confirm_reachability now address c =
     (case get_entry address c of
        None \<Rightarrow> c
      | Some entry \<Rightarrow>
          if ne_state entry \<in> {NUD_STALE, NUD_DELAY, NUD_PROBE}
          then put_entry address ((transition entry NUD_REACHABLE now)\<lparr>ne_probe_count := 0\<rparr>) c
          else c)"

text \<open>\<open>while len(queue) >= bound: queue.popleft()\<close>; an empty queue raises.\<close>

fun make_room :: "int \<Rightarrow> 'p list \<Rightarrow> 'p list res" where
  "make_room bound [] = (if 0 \<ge> bound then Inl IndexError else Inr [])"
| "make_room bound (p # ps) = (if int (length (p # ps)) \<ge> bound then make_room bound ps else Inr (p # ps))"

definition enqueue_pending ::
    "nbr_sysctl \<Rightarrow> 'a \<Rightarrow> 'p \<Rightarrow> ('a, 'p) neighbor_cache \<Rightarrow> ('a, 'p) neighbor_cache res" where
  "enqueue_pending sy address packet c =
     (case get_entry address c of
        None \<Rightarrow> Inr c
      | Some entry \<Rightarrow>
          bind_res (make_room (sy_unres_qlen sy) (ne_queued_packets entry)) (\<lambda>queue.
            Inr (put_entry address (entry\<lparr>ne_queued_packets := queue @ [packet]\<rparr>) c)))"

section \<open>Timers and garbage collection\<close>

text \<open>
  One entry in the maintenance pass: its new value and, where the pass solicits for it, the
  link-layer address the solicitation goes to (\<open>None\<close> is the broadcast form).
\<close>

definition maintain_entry ::
    "nbr_sysctl \<Rightarrow> real option \<Rightarrow> real \<Rightarrow> ('a, 'p) neighbor_entry \<Rightarrow> ('a, 'p) neighbor_entry \<times> mac option option" where
  "maintain_entry sy override now entry =
     (let age = now - ne_state_changed_at entry;
          effective_reachable_time =
            (case override of Some t \<Rightarrow> t | None \<Rightarrow> real_of_int (sy_reachable_time sy))
      in if ne_state entry = NUD_REACHABLE \<and> age \<ge> effective_reachable_time then
           (transition entry NUD_STALE now, None)
         else if ne_state entry = NUD_DELAY \<and> age \<ge> real_of_int (sy_delay_first_probe_time sy) then
           ((transition entry NUD_PROBE now)\<lparr>ne_probe_count := 1\<rparr>, Some (ne_mac_address entry))
         else if ne_state entry = NUD_INCOMPLETE then
           (if ne_probe_count entry \<ge> sy_max_multicast_solicit sy then (fail_entry entry now, None)
            else if age \<ge> real_of_int (sy_retrans_timer sy) then
              (entry\<lparr>ne_probe_count := ne_probe_count entry + 1, ne_state_changed_at := now\<rparr>, Some None)
            else (entry, None))
         else if ne_state entry = NUD_PROBE then
           (if ne_probe_count entry \<ge> sy_max_unicast_solicit sy then (fail_entry entry now, None)
            else if age \<ge> real_of_int (sy_retrans_timer sy) then
              (entry\<lparr>ne_probe_count := ne_probe_count entry + 1, ne_state_changed_at := now\<rparr>,
               Some (ne_mac_address entry))
            else (entry, None))
         else (entry, None))"

fun maintenance_loop ::
    "('a, 'p, 'e) solicit_cb \<Rightarrow> nbr_sysctl \<Rightarrow> real \<Rightarrow> 'a list \<Rightarrow> ('a, 'p) neighbor_cache \<Rightarrow>
     (('a, 'p) neighbor_cache \<times> 'e list) res" where
  "maintenance_loop solicit sy now [] c = Inr (c, [])"
| "maintenance_loop solicit sy now (address # addresses) c =
     (case get_entry address c of
        None \<Rightarrow> maintenance_loop solicit sy now addresses c
      | Some entry \<Rightarrow>
          (case maintain_entry sy (nb_reachable_time_override c) now entry of
             (entry', None) \<Rightarrow> maintenance_loop solicit sy now addresses (put_entry address entry' c)
           | (entry', Some cached_mac) \<Rightarrow>
               bind_res (solicit address cached_mac (put_entry address entry' c)) (\<lambda>(c1, sent).
                 bind_res (maintenance_loop solicit sy now addresses c1) (\<lambda>(c2, sent').
                   Inr (c2, sent @ sent')))))"

text \<open>\<open>for entry in ...: if size <= limit: break; del self._entries[entry.address]; size -= 1\<close>\<close>

fun evict_until ::
    "int \<Rightarrow> ('a, 'p) neighbor_entry list \<Rightarrow> int \<Rightarrow> ('a, 'p) neighbor_cache \<Rightarrow> (int \<times> ('a, 'p) neighbor_cache) res" where
  "evict_until limit [] count c = Inr (count, c)"
| "evict_until limit (e # es) count c =
     (if count \<le> limit then Inr (count, c)
      else bind_res (del_entry (ne_address e) c) (\<lambda>c'. evict_until limit es (count - 1) c'))"

fun evict_all ::
    "('a, 'p) neighbor_entry list \<Rightarrow> int \<Rightarrow> ('a, 'p) neighbor_cache \<Rightarrow> (int \<times> ('a, 'p) neighbor_cache) res" where
  "evict_all [] count c = Inr (count, c)"
| "evict_all (e # es) count c = bind_res (del_entry (ne_address e) c) (\<lambda>c'. evict_all es (count - 1) c')"

definition evictable :: "('a, 'p) neighbor_entry \<Rightarrow> bool" where
  "evictable e \<longleftrightarrow> ne_state e \<noteq> NUD_PERMANENT \<and> (ne_state e = NUD_FAILED \<or> ne_queued_packets e = [])"

definition gc_pass :: "nbr_sysctl \<Rightarrow> real \<Rightarrow> ('a, 'p) neighbor_cache \<Rightarrow> ('a, 'p) neighbor_cache res" where
  "gc_pass sy now c =
     (let count = int (length (nb_entries c)); all = filter evictable (map snd (nb_entries c))
      in if count \<le> sy_gc_thresh1 sy then Inr c
         else
           bind_res (evict_all (sort_key ne_state_changed_at (filter (\<lambda>e. ne_state e = NUD_FAILED) all)) count c)
           (\<lambda>(count1, c1).
             bind_res
               (if count1 > sy_gc_thresh2 sy then
                  evict_until (sy_gc_thresh2 sy)
                    (sort_key ne_state_changed_at
                      (filter (\<lambda>e. ne_state e = NUD_STALE \<and>
                         now - ne_state_changed_at e \<ge> real_of_int (sy_gc_stale_time sy) \<and>
                         get_entry (ne_address e) c1 \<noteq> None) all)) count1 c1
                else Inr (count1, c1))
             (\<lambda>(count2, c2).
               bind_res
                 (if count2 > sy_gc_thresh3 sy then
                    evict_until (sy_gc_thresh3 sy)
                      (sort_key ne_last_used_at (filter (\<lambda>e. get_entry (ne_address e) c2 \<noteq> None) all)) count2 c2
                  else Inr (count2, c2))
               (\<lambda>(_, c3). Inr c3))))"

definition run_maintenance_once ::
    "('a, 'p, 'e) solicit_cb \<Rightarrow> nbr_sysctl \<Rightarrow> real \<Rightarrow> ('a, 'p) neighbor_cache \<Rightarrow>
     (('a, 'p) neighbor_cache \<times> 'e list) res" where
  "run_maintenance_once solicit sy now c =
     bind_res (maintenance_loop solicit sy now (map fst (nb_entries c)) c) (\<lambda>(c1, sent).
       bind_res (gc_pass sy now c1) (\<lambda>c2. Inr (c2, sent)))"

text \<open>
  How the senders use the cache: look the next hop up, and let the packet wait there when its
  link-layer address is not known yet.
\<close>

definition resolve_or_queue ::
    "('a, 'p, 'e) solicit_cb \<Rightarrow> nbr_sysctl \<Rightarrow> real \<Rightarrow> 'a \<Rightarrow> 'p \<Rightarrow> ('a, 'p) neighbor_cache \<Rightarrow>
     (mac option, 'a, 'p, 'e) nbr_call" where
  "resolve_or_queue solicit sy now address packet c =
     bind_res (find_entry solicit now address c) (\<lambda>(found, c1, sent).
       case found of
         Some m \<Rightarrow> Inr (Some m, c1, sent)
       | None \<Rightarrow> bind_res (enqueue_pending sy address packet c1) (\<lambda>c2. Inr (None, c2, sent)))"

section \<open>The cache as a map\<close>

lemma get_put [simp]: "get_entry b (put_entry a e c) = (if b = a then Some e else get_entry b c)"
  by (simp add: get_entry_def put_entry_def update_conv')

lemma put_override [simp]: "nb_reachable_time_override (put_entry a e c) = nb_reachable_time_override c"
  by (simp add: put_entry_def)

lemma get_override [simp]: "get_entry a (c\<lparr>nb_reachable_time_override := r\<rparr>) = get_entry a c"
  by (simp add: get_entry_def)

definition without :: "'a set \<Rightarrow> ('a, 'p) neighbor_cache \<Rightarrow> ('a, 'p) neighbor_cache" where
  "without A c = c\<lparr>nb_entries := filter (\<lambda>x. fst x \<notin> A) (nb_entries c)\<rparr>"

lemma map_of_filter_key: "map_of (filter (\<lambda>x. fst x \<notin> A) al) b = (if b \<in> A then None else map_of al b)"
  by (induction al) auto

lemma get_without [simp]: "get_entry b (without A c) = (if b \<in> A then None else get_entry b c)"
  by (simp add: get_entry_def without_def map_of_filter_key)

lemma without_empty [simp]: "without {} c = c"
  by (simp add: without_def)

lemma without_without: "without B (without A c) = without (A \<union> B) c"
  by (simp add: without_def)

lemma delete_without: "c\<lparr>nb_entries := AList.delete a (nb_entries c)\<rparr> = without {a} c"
  by (simp add: without_def AList.delete_eq split_def eq_commute)

lemma del_entry_present: "get_entry a c \<noteq> None \<Longrightarrow> del_entry a c = Inr (without {a} c)"
  by (simp add: del_entry_def delete_without)

lemma length_filter_key:
  "distinct (map fst al) \<Longrightarrow> a \<in> fst ` set al \<Longrightarrow> Suc (length (filter (\<lambda>x. fst x \<noteq> a) al)) = length al"
proof (induction al)
  case (Cons x al)
  have "filter (\<lambda>x. fst x \<noteq> a) al = al" if "fst x = a"
    using Cons.prems that by (auto simp: filter_id_conv intro: rev_image_eqI)
  then show ?case using Cons by (cases "fst x = a") auto
qed simp

lemma length_without_one:
  "distinct (map fst (nb_entries c)) \<Longrightarrow> get_entry a c \<noteq> None \<Longrightarrow>
   int (length (nb_entries (without {a} c))) = int (length (nb_entries c)) - 1"
  using length_filter_key [of "nb_entries c" a]
  by (simp add: without_def get_entry_def map_of_eq_None_iff del: not_None_eq)

section \<open>What every entry satisfies\<close>

text \<open>
  A link-layer address is known in every state that sends to it and not at an entry under
  resolution (a failed entry may keep the one it had, which is not used), packets wait only at an entry under
  resolution and no more of them than the queue holds, and no more solicitations have been sent
  than the settings allow.
\<close>

definition entry_ok :: "nbr_sysctl \<Rightarrow> ('a, 'p) neighbor_entry \<Rightarrow> bool" where
  "entry_ok sy e \<longleftrightarrow>
     (case ne_state e of
        NUD_INCOMPLETE \<Rightarrow> ne_mac_address e = None \<and> 1 \<le> ne_probe_count e \<and>
          ne_probe_count e \<le> sy_max_multicast_solicit sy \<and> int (length (ne_queued_packets e)) \<le> sy_unres_qlen sy
      | NUD_FAILED \<Rightarrow> ne_queued_packets e = []
      | NUD_PROBE \<Rightarrow> ne_mac_address e \<noteq> None \<and> ne_queued_packets e = [] \<and>
          1 \<le> ne_probe_count e \<and> ne_probe_count e \<le> sy_max_unicast_solicit sy
      | _ \<Rightarrow> ne_mac_address e \<noteq> None \<and> ne_queued_packets e = [])"

definition cache_ok :: "nbr_sysctl \<Rightarrow> ('a, 'p) neighbor_cache \<Rightarrow> bool" where
  "cache_ok sy c \<longleftrightarrow> distinct (map fst (nb_entries c)) \<and>
     (\<forall>a e. get_entry a c = Some e \<longrightarrow> ne_address e = a \<and> entry_ok sy e)"

lemma cache_okD: "cache_ok sy c \<Longrightarrow> get_entry a c = Some e \<Longrightarrow> ne_address e = a \<and> entry_ok sy e"
  by (simp add: cache_ok_def)

lemma cache_ok_put [intro]:
  "cache_ok sy c \<Longrightarrow> ne_address e = a \<Longrightarrow> entry_ok sy e \<Longrightarrow> cache_ok sy (put_entry a e c)"
  by (simp add: cache_ok_def) (simp add: put_entry_def distinct_update)

lemma cache_ok_without: "cache_ok sy c \<Longrightarrow> cache_ok sy (without A c)"
  by (simp add: cache_ok_def) (simp add: without_def distinct_fst_filter)

lemma cache_ok_empty: "cache_ok sy empty_cache"
  by (simp add: cache_ok_def empty_cache_def get_entry_def)

lemmas entry_simps = entry_ok_def transition_def fail_entry_def

lemma make_room_ok: "0 < bound \<Longrightarrow> \<exists>qs. make_room bound ps = Inr qs \<and> int (length qs) < bound"
  by (induction ps) auto

lemma make_room_drop:
  "0 < bound \<Longrightarrow> make_room bound ps = Inr (drop (nat (int (length ps) - bound + 1)) ps)"
proof (induction ps)
  case (Cons p ps)
  have "nat (int (length (p # ps)) - bound + 1) = Suc (nat (int (length ps) - bound + 1))"
    if "int (length (p # ps)) \<ge> bound"
    using that by simp
  then show ?case using Cons by auto
qed simp

lemma maintain_entry_ok:
  "sysctl_valid sy \<Longrightarrow> entry_ok sy e \<Longrightarrow> entry_ok sy (fst (maintain_entry sy ov now e))"
  by (cases "ne_state e") (auto simp: maintain_entry_def entry_simps sysctl_valid_def Let_def)

lemma maintain_entry_address [simp]: "ne_address (fst (maintain_entry sy ov now e)) = ne_address e"
  by (simp add: maintain_entry_def entry_simps Let_def)

lemma maintain_solicits:
  assumes "entry_ok sy e" "maintain_entry sy ov now e = (e', Some cached)"
  shows "cached = (if ne_state e' = NUD_INCOMPLETE then None else ne_mac_address e') \<and>
    (ne_state e' = NUD_INCOMPLETE \<or> ne_state e' = NUD_PROBE \<and> (\<exists>m. ne_mac_address e' = Some m))"
  using assms by (cases "ne_state e")
    (auto simp: maintain_entry_def entry_simps Let_def split: if_splits intro: sym)

section \<open>Using an entry\<close>

text \<open>The entry a lookup leaves at the address, and the one a sent packet leaves.\<close>

definition used_entry :: "real \<Rightarrow> 'a \<Rightarrow> ('a, 'p) neighbor_entry option \<Rightarrow> ('a, 'p) neighbor_entry" where
  "used_entry now a found =
     (case found of
        None \<Rightarrow> \<lparr>ne_address = a, ne_mac_address = None, ne_state = NUD_INCOMPLETE, ne_state_changed_at = now,
                 ne_probe_count = 1, ne_queued_packets = [], ne_last_used_at = now\<rparr>
      | Some e \<Rightarrow>
          if ne_state e = NUD_STALE then transition (e\<lparr>ne_last_used_at := now\<rparr>) NUD_DELAY now
          else if ne_state e = NUD_FAILED then
            (transition (e\<lparr>ne_last_used_at := now\<rparr>) NUD_INCOMPLETE now)\<lparr>ne_probe_count := 1, ne_mac_address := None\<rparr>
          else e\<lparr>ne_last_used_at := now\<rparr>)"

definition sent_entry ::
    "nbr_sysctl \<Rightarrow> real \<Rightarrow> 'a \<Rightarrow> 'p \<Rightarrow> ('a, 'p) neighbor_entry option \<Rightarrow> ('a, 'p) neighbor_entry" where
  "sent_entry sy now a p found =
     (let e = used_entry now a found; qs = ne_queued_packets e
      in if ne_state e = NUD_INCOMPLETE
         then e\<lparr>ne_queued_packets := drop (nat (int (length qs) - sy_unres_qlen sy + 1)) qs @ [p]\<rparr> else e)"

definition direct :: "('a, 'p, 'e) solicit_cb \<Rightarrow> bool" where
  "direct solicit \<longleftrightarrow> (\<forall>a c. \<exists>sent. solicit a None c = Inr (c, sent))"

definition silent :: "('a, 'p, 'e) solicit_cb" where
  "silent a cached c = Inr (c, [])"

lemma direct_silent: "direct silent"
  by (simp add: direct_def silent_def)

text \<open>A lookup uses the callback in its broadcast form only.\<close>

lemma find_entry_hook:
  "(\<And>a c. solicit a None c = solicit' a None c) \<Longrightarrow> find_entry solicit now a c = find_entry solicit' now a c"
  by (auto simp: find_entry_def Let_def split: option.splits)

lemma used_entry_ok:
  assumes "sysctl_valid sy" "cache_ok sy c"
  shows "entry_ok sy (used_entry now a (get_entry a c))" "ne_address (used_entry now a (get_entry a c)) = a"
proof -
  have "entry_ok sy (used_entry now a (get_entry a c)) \<and> ne_address (used_entry now a (get_entry a c)) = a"
  proof (cases "get_entry a c")
    case None
    then show ?thesis using assms(1) by (simp add: used_entry_def entry_ok_def sysctl_valid_def)
  next
    case (Some e)
    then have "ne_address e = a" "entry_ok sy e" using cache_okD [OF assms(2) Some] by auto
    then show ?thesis using Some assms(1)
      by (cases "ne_state e") (auto simp: used_entry_def entry_simps sysctl_valid_def)
  qed
  then show "entry_ok sy (used_entry now a (get_entry a c))" "ne_address (used_entry now a (get_entry a c)) = a"
    by auto
qed

lemma find_entry_used:
  assumes "direct solicit" "cache_ok sy c"
  shows "\<exists>sent. find_entry solicit now a c =
    Inr (ne_mac_address (used_entry now a (get_entry a c)), put_entry a (used_entry now a (get_entry a c)) c, sent)"
proof (cases "get_entry a c")
  case None
  then show ?thesis using assms(1) by (auto simp: find_entry_def used_entry_def direct_def)
next
  case (Some e)
  obtain sent where "solicit a None (put_entry a (used_entry now a (Some e)) c) =
      Inr (put_entry a (used_entry now a (Some e)) c, sent)"
    using assms(1) unfolding direct_def by blast
  then show ?thesis using Some cache_okD [OF assms(2) Some]
    by (cases "ne_state e") (auto simp: find_entry_def used_entry_def entry_ok_def transition_def)
qed

lemma put_put [simp]: "put_entry a e (put_entry a e' c) = put_entry a e c"
  by (simp add: put_entry_def)

lemma resolve_sent:
  assumes "direct solicit" "sysctl_valid sy" "cache_ok sy c"
  shows "\<exists>sent. resolve_or_queue solicit sy now a p c =
    Inr (ne_mac_address (sent_entry sy now a p (get_entry a c)), put_entry a (sent_entry sy now a p (get_entry a c)) c, sent)"
proof -
  let ?u = "used_entry now a (get_entry a c)"
  obtain sent where f: "find_entry solicit now a c = Inr (ne_mac_address ?u, put_entry a ?u c, sent)"
    using find_entry_used [OF assms(1,3)] by blast
  have ok: "entry_ok sy ?u" by (rule used_entry_ok [OF assms(2,3)])
  have room: "make_room (sy_unres_qlen sy) qs = Inr (drop (nat (int (length qs) - sy_unres_qlen sy + 1)) qs)" for qs :: "'b list"
    using assms(2) by (intro make_room_drop) (simp add: sysctl_valid_def)
  show ?thesis
  proof (cases "ne_state ?u = NUD_INCOMPLETE")
    case True
    then show ?thesis using f ok room
      by (simp add: resolve_or_queue_def sent_entry_def enqueue_pending_def entry_ok_def Let_def del: bind_res_eq_Inr)
  next
    case False
    then obtain m where "ne_mac_address ?u = Some m"
      using ok by (cases "ne_state ?u") (auto simp: entry_simps used_entry_def split: option.splits if_splits)
    then show ?thesis using f False by (simp add: resolve_or_queue_def sent_entry_def Let_def del: bind_res_eq_Inr)
  qed
qed

lemma sent_entry_ok:
  assumes "sysctl_valid sy" "cache_ok sy c"
  shows "entry_ok sy (sent_entry sy now a p (get_entry a c))" "ne_address (sent_entry sy now a p (get_entry a c)) = a"
  using used_entry_ok [OF assms, of now a] assms(1)
  by (auto simp: sent_entry_def entry_ok_def sysctl_valid_def Let_def split: nud_state.splits)

section \<open>Eviction\<close>

lemma evict_until_run:
  "cache_ok sy c \<Longrightarrow> distinct (map ne_address es) \<Longrightarrow> \<forall>e \<in> set es. get_entry (ne_address e) c \<noteq> None \<Longrightarrow>
   \<exists>k \<le> length es. let c' = without (ne_address ` set (take k es)) c in
     evict_until limit es (int (length (nb_entries c))) c = Inr (int (length (nb_entries c')), c') \<and>
     (k = length es \<or> int (length (nb_entries c')) \<le> limit) \<and> (0 < k \<longrightarrow> limit < int (length (nb_entries c)))"
proof (induction es arbitrary: c)
  case (Cons e es)
  show ?case
  proof (cases "int (length (nb_entries c)) \<le> limit")
    case True
    then show ?thesis by (intro exI [of _ 0]) simp
  next
    case False
    let ?c = "without {ne_address e} c"
    have len: "int (length (nb_entries ?c)) = int (length (nb_entries c)) - 1"
      using Cons.prems by (intro length_without_one) (auto simp: cache_ok_def)
    have d: "distinct (map ne_address es)" and present: "\<forall>x \<in> set es. get_entry (ne_address x) ?c \<noteq> None"
      using Cons.prems by (auto dest: image_eqI [OF sym])
    obtain k where k: "k \<le> length es" "let c' = without (ne_address ` set (take k es)) ?c in
        evict_until limit es (int (length (nb_entries ?c))) ?c = Inr (int (length (nb_entries c')), c') \<and>
        (k = length es \<or> int (length (nb_entries c')) \<le> limit) \<and> (0 < k \<longrightarrow> limit < int (length (nb_entries ?c)))"
      using Cons.IH [OF cache_ok_without [OF Cons.prems(1)] d present] by blast
    have "get_entry (ne_address e) c \<noteq> None" using Cons.prems(3) by simp
    then show ?thesis using False k len
      by (intro exI [of _ "Suc k"]) (simp add: Let_def del_entry_present without_without del: bind_res_eq_Inr not_None_eq)
  qed
qed simp

lemma evict_all_until: "limit \<le> n - int (length es) \<Longrightarrow> evict_all es n c = evict_until limit es n c"
proof (induction es arbitrary: n c)
  case (Cons e es)
  then have "evict_all es (n - 1) = (evict_until limit es (n - 1) :: ('a, 'b) neighbor_cache \<Rightarrow> _)" by (intro ext) simp
  then show ?case using Cons.prems by simp
qed simp

text \<open>The entries a tier of the collection goes through, in the order of its key.\<close>

lemma victims:
  assumes "cache_ok sy c" and xs: "xs = sort_key f (filter P (filter evictable (map snd (nb_entries c))))"
  shows "distinct (map ne_address xs)" "\<forall>e \<in> set xs. get_entry (ne_address e) c = Some e \<and> evictable e \<and> P e"
    "\<forall>a e. get_entry a c = Some e \<longrightarrow> evictable e \<longrightarrow> P e \<longrightarrow> e \<in> set xs"
proof -
  have entry: "get_entry k c = Some e" if "(k, e) \<in> set (nb_entries c)" for k e
    using assms(1) that by (simp add: cache_ok_def get_entry_def)
  then have key: "ne_address e = k" if "(k, e) \<in> set (nb_entries c)" for k e
    using cache_okD [OF assms(1)] that by blast
  then have "map ne_address (map snd (nb_entries c)) = map fst (nb_entries c)" by auto
  then have "distinct (map ne_address (map snd (nb_entries c)))"
    using assms(1) unfolding cache_ok_def by (simp only:)
  then have "distinct (map ne_address (filter P (filter evictable (map snd (nb_entries c)))))"
    by (intro distinct_map_filter)
  then show "distinct (map ne_address xs)" by (simp add: xs distinct_map)
  show "\<forall>e \<in> set xs. get_entry (ne_address e) c = Some e \<and> evictable e \<and> P e"
    using entry key by (auto simp: xs)
  show "\<forall>a e. get_entry a c = Some e \<longrightarrow> evictable e \<longrightarrow> P e \<longrightarrow> e \<in> set xs"
    by (auto simp: xs get_entry_def dest!: map_of_SomeD intro!: image_eqI)
qed

text \<open>The number of entries a cache must exceed for the collection to touch an entry.\<close>

definition gc_tier :: "nbr_sysctl \<Rightarrow> real \<Rightarrow> ('a, 'p) neighbor_entry \<Rightarrow> int" where
  "gc_tier sy now e =
     (if ne_state e = NUD_FAILED then sy_gc_thresh1 sy
      else if ne_state e = NUD_STALE \<and> now - ne_state_changed_at e \<ge> real_of_int (sy_gc_stale_time sy)
      then sy_gc_thresh2 sy else sy_gc_thresh3 sy)"

definition cache_size :: "('a, 'p) neighbor_cache \<Rightarrow> int" where
  "cache_size c = int (length (nb_entries c))"

text \<open>The entries at \<open>A\<close> may go when the tiers of the collection allow it.\<close>

definition may_evict :: "nbr_sysctl \<Rightarrow> real \<Rightarrow> ('a, 'p) neighbor_cache \<Rightarrow> 'a set \<Rightarrow> bool" where
  "may_evict sy now c A \<longleftrightarrow>
     (\<forall>a \<in> A. \<exists>e. get_entry a c = Some e \<and> evictable e \<and> gc_tier sy now e < cache_size c)"

lemma cache_size_without: "cache_size (without A c) \<le> cache_size c"
  by (simp add: cache_size_def without_def)

lemma may_evict_more:
  "may_evict sy now c A \<Longrightarrow> may_evict sy now (without A c) B \<Longrightarrow> may_evict sy now c (A \<union> B)"
  using cache_size_without [of A c] unfolding may_evict_def by (force split: if_splits)

lemma evict_tier:
  assumes "cache_ok sy c" "xs = sort_key f (filter P (filter evictable (map snd (nb_entries c))))"
    "\<forall>e. evictable e \<longrightarrow> P e \<longrightarrow> gc_tier sy now e \<le> limit"
  shows "\<exists>A. evict_until limit xs (cache_size c) c = Inr (cache_size (without A c), without A c) \<and> may_evict sy now c A \<and>
    (cache_size (without A c) \<le> limit \<or> (\<forall>a e. get_entry a (without A c) = Some e \<longrightarrow> evictable e \<longrightarrow> \<not> P e))"
proof -
  note v = victims [OF assms(1,2)]
  obtain k where k: "let c' = without (ne_address ` set (take k xs)) c in
     evict_until limit xs (int (length (nb_entries c))) c = Inr (int (length (nb_entries c')), c') \<and>
     (k = length xs \<or> int (length (nb_entries c')) \<le> limit) \<and> (0 < k \<longrightarrow> limit < int (length (nb_entries c)))"
    using evict_until_run [OF assms(1) v(1), of limit] v(2) by auto
  let ?A = "ne_address ` set (take k xs)"
  have "may_evict sy now c ?A"
    unfolding may_evict_def
  proof
    fix a assume "a \<in> ?A"
    then obtain e where e: "e \<in> set (take k xs)" "a = ne_address e" by auto
    then have "0 < k" and x: "e \<in> set xs" by (cases k, auto dest: in_set_takeD)
    then have "gc_tier sy now e < cache_size c"
      using k v(2) assms(3) by (fastforce simp: cache_size_def Let_def)
    then show "\<exists>e. get_entry a c = Some e \<and> evictable e \<and> gc_tier sy now e < cache_size c"
      using v(2) x e(2) by blast
  qed
  moreover have "a \<in> ne_address ` set xs" if "get_entry a c = Some e" "evictable e" "P e" for a e
    using v(3) that cache_okD [OF assms(1) that(1)] by blast
  ultimately show ?thesis using k by (intro exI [of _ ?A]) (auto simp: cache_size_def Let_def split: if_splits)
qed

lemma left_after:
  assumes "cache_ok sy c"
  shows "filter (\<lambda>e. Q e \<and> get_entry (ne_address e) (without A c) \<noteq> None) (filter evictable (map snd (nb_entries c))) =
    filter Q (filter evictable (map snd (nb_entries (without A c))))"
proof -
  have "(get_entry (ne_address (snd x)) (without A c) \<noteq> None) = (fst x \<notin> A)" if "x \<in> set (nb_entries c)" for x
  proof -
    have "get_entry (fst x) c = Some (snd x)" using assms that by (simp add: cache_ok_def get_entry_def)
    then show ?thesis using cache_okD [OF assms] by fastforce
  qed
  then have "filter (\<lambda>x. evictable (snd x) \<and> Q (snd x) \<and> get_entry (ne_address (snd x)) (without A c) \<noteq> None) (nb_entries c) =
    filter (\<lambda>x. fst x \<notin> A \<and> evictable (snd x) \<and> Q (snd x)) (nb_entries c)"
    by (intro filter_cong) auto
  then show ?thesis by (simp add: filter_map o_def without_def conj_commute conj_left_commute del: get_without not_None_eq)
qed

lemma evict_failed:
  assumes "cache_ok sy c" "sy_gc_thresh1 sy < cache_size c"
    and xs: "xs = sort_key ne_state_changed_at (filter (\<lambda>e. ne_state e = NUD_FAILED) (filter evictable (map snd (nb_entries c))))"
  shows "\<exists>A. evict_all xs (cache_size c) c = Inr (cache_size (without A c), without A c) \<and> may_evict sy now c A"
proof -
  note v = victims [OF assms(1) xs]
  have all: "evict_all xs (cache_size c) c = evict_until (cache_size c - int (length xs)) xs (cache_size c) c"
    by (rule evict_all_until) simp
  obtain k where "let c' = without (ne_address ` set (take k xs)) c in
      evict_until (cache_size c - int (length xs)) xs (int (length (nb_entries c))) c = Inr (int (length (nb_entries c')), c')"
    using evict_until_run [OF assms(1) v(1), of "cache_size c - int (length xs)"] v(2) by (auto simp: Let_def)
  then have "evict_all xs (cache_size c) c =
      Inr (cache_size (without (ne_address ` set (take k xs)) c), without (ne_address ` set (take k xs)) c)"
    using all by (simp add: Let_def cache_size_def)
  moreover have "may_evict sy now c (ne_address ` set (take k xs))"
    unfolding may_evict_def using v(2) assms(2) by (fastforce simp: gc_tier_def dest: in_set_takeD)
  ultimately show ?thesis by blast
qed

lemma gc_pass_run:
  assumes "cache_ok sy c" "sysctl_valid sy"
  shows "\<exists>A. gc_pass sy now c = Inr (without A c) \<and> may_evict sy now c A \<and>
    (cache_size (without A c) \<le> sy_gc_thresh3 sy \<or> (\<forall>a e. get_entry a (without A c) = Some e \<longrightarrow> \<not> evictable e))"
proof (cases "cache_size c \<le> sy_gc_thresh1 sy")
  case True
  then show ?thesis using assms(2)
    by (intro exI [of _ "{}"]) (simp add: gc_pass_def cache_size_def may_evict_def sysctl_valid_def)
next
  case False
  let ?all = "filter evictable (map snd (nb_entries c))"
  let ?old = "\<lambda>e. ne_state e = NUD_STALE \<and> now - ne_state_changed_at e \<ge> real_of_int (sy_gc_stale_time sy)"
  let ?left = "\<lambda>c. filter evictable (map snd (nb_entries c))"
  have tiers: "sy_gc_thresh1 sy \<le> sy_gc_thresh2 sy" "sy_gc_thresh2 sy \<le> sy_gc_thresh3 sy"
    using assms(2) by (simp_all add: sysctl_valid_def)
  obtain A where A: "evict_all (sort_key ne_state_changed_at (filter (\<lambda>e. ne_state e = NUD_FAILED) ?all)) (cache_size c) c =
      Inr (cache_size (without A c), without A c)" "may_evict sy now c A"
    using evict_failed [OF assms(1) _ refl, of now] False by (meson not_le)
  let ?c1 = "without A c"
  obtain B where B: "(if cache_size ?c1 > sy_gc_thresh2 sy
        then evict_until (sy_gc_thresh2 sy) (sort_key ne_state_changed_at (filter ?old (?left ?c1))) (cache_size ?c1) ?c1
        else Inr (cache_size ?c1, ?c1)) = Inr (cache_size (without B ?c1), without B ?c1)" "may_evict sy now ?c1 B"
  proof (cases "cache_size ?c1 > sy_gc_thresh2 sy")
    case True
    have t: "\<forall>e :: ('a, 'b) neighbor_entry. evictable e \<longrightarrow> ?old e \<longrightarrow> gc_tier sy now e \<le> sy_gc_thresh2 sy"
      using tiers by (simp add: gc_tier_def)
    show thesis
      using evict_tier [where c = ?c1 and f = ne_state_changed_at, OF cache_ok_without [OF assms(1)] refl t] True
      by (elim exE conjE) (rule that, simp_all only: if_True)
  next
    case small: False
    show thesis by (rule that [of "{}"]) (simp_all only: if_not_P [OF small] without_empty may_evict_def ball_empty)
  qed
  let ?c2 = "without (A \<union> B) c"
  obtain C where C: "(if cache_size ?c2 > sy_gc_thresh3 sy
        then evict_until (sy_gc_thresh3 sy) (sort_key ne_last_used_at (filter (\<lambda>e. True) (?left ?c2))) (cache_size ?c2) ?c2
        else Inr (cache_size ?c2, ?c2)) = Inr (cache_size (without C ?c2), without C ?c2)" "may_evict sy now ?c2 C"
    "cache_size (without C ?c2) \<le> sy_gc_thresh3 sy \<or> (\<forall>a e. get_entry a (without C ?c2) = Some e \<longrightarrow> \<not> evictable e)"
  proof (cases "cache_size ?c2 > sy_gc_thresh3 sy")
    case True
    have t: "\<forall>e :: ('a, 'b) neighbor_entry. evictable e \<longrightarrow> True \<longrightarrow> gc_tier sy now e \<le> sy_gc_thresh3 sy"
      using tiers by (simp add: gc_tier_def)
    show thesis
      using evict_tier [where c = ?c2 and f = ne_last_used_at, OF cache_ok_without [OF assms(1)] refl t] True
      by (elim exE conjE) (rule that, simp_all only: if_True simp_thms)
  next
    case small: False
    then have "cache_size ?c2 \<le> sy_gc_thresh3 sy" by simp
    then show thesis
      by (intro that [of "{}"]) (simp_all only: if_not_P [OF small] without_empty may_evict_def ball_empty simp_thms)
  qed
  have old: "filter (\<lambda>e. ne_state e = NUD_STALE \<and> now - ne_state_changed_at e \<ge> real_of_int (sy_gc_stale_time sy) \<and>
      get_entry (ne_address e) ?c1 \<noteq> None) ?all = filter ?old (?left ?c1)"
    using left_after [OF assms(1), of ?old A] by (simp only: conj_assoc)
  have rest: "filter (\<lambda>e. get_entry (ne_address e) ?c2 \<noteq> None) ?all = filter (\<lambda>e. True) (?left ?c2)"
    using left_after [OF assms(1), of "\<lambda>e. True" "A \<union> B"] by (simp only: simp_thms)
  have "gc_pass sy now c = Inr (without (A \<union> B \<union> C) c)"
    unfolding gc_pass_def Let_def cache_size_def [symmetric] if_not_P [OF False] A(1) bind_res.simps prod.case old B(1)
      without_without rest C(1) by simp
  moreover have "may_evict sy now c (A \<union> B \<union> C)"
    using A(2) B(2) C(2) by (blast intro: may_evict_more)
  ultimately show ?thesis using C(3) unfolding without_without by blast
qed

section \<open>The machine and its diagram\<close>

text \<open>
  The operations of a cache as steps: \<open>Send\<close> is the lookup of a sender with the packet it parks
  on a miss, \<open>Reply\<close> a received answer, \<open>Confirm\<close> the hint of the transport layer, \<open>Tick\<close> one
  maintenance pass, the others the control plane.
\<close>

datatype ('a, 'p) nbr_op =
    Send real 'a 'p
  | Reply real 'a mac
  | Confirm real 'a
  | Tick real
  | Static real 'a mac
  | Remove 'a
  | Flush
  | Override "int option"

fun nbr_apply ::
    "('a, 'p, 'e) solicit_cb \<Rightarrow> ('p, 'e) flush_cb option \<Rightarrow> nbr_sysctl \<Rightarrow> ('a, 'p) nbr_op \<Rightarrow> ('a, 'p) neighbor_cache \<Rightarrow>
     (('a, 'p) neighbor_cache \<times> 'e list) res" where
  "nbr_apply solicit flush sy (Send now a p) c =
     bind_res (resolve_or_queue solicit sy now a p c) (\<lambda>(_, c', sent). Inr (c', sent))"
| "nbr_apply solicit flush sy (Reply now a m) c = Inr (add_entry flush now a m c)"
| "nbr_apply solicit flush sy (Confirm now a) c = Inr (confirm_reachability now a c, [])"
| "nbr_apply solicit flush sy (Tick now) c = run_maintenance_once solicit sy now c"
| "nbr_apply solicit flush sy (Static now a m) c = Inr (add_permanent_entry now a m c, [])"
| "nbr_apply solicit flush sy (Remove a) c = Inr (snd (remove_entry a c), [])"
| "nbr_apply solicit flush sy Flush c = Inr (snd (flush_cache c), [])"
| "nbr_apply solicit flush sy (Override v) c = Inr (set_reachable_time_override_ms v c, [])"

fun nbr_run ::
    "('a, 'p, 'e) solicit_cb \<Rightarrow> ('p, 'e) flush_cb option \<Rightarrow> nbr_sysctl \<Rightarrow> ('a, 'p) nbr_op list \<Rightarrow> ('a, 'p) neighbor_cache \<Rightarrow>
     (('a, 'p) neighbor_cache \<times> 'e list) res" where
  "nbr_run solicit flush sy [] c = Inr (c, [])"
| "nbr_run solicit flush sy (op # ops) c =
     bind_res (nbr_apply solicit flush sy op c) (\<lambda>(c1, sent).
       bind_res (nbr_run solicit flush sy ops c1) (\<lambda>(c2, sent'). Inr (c2, sent @ sent')))"

text \<open>The diagram of the module: \<open>None\<close> is the state of an address without an entry.\<close>

datatype nud_cause = Used | Answered | Confirmed | Aged | Collected | Configured

inductive nud_edge :: "nud_cause \<Rightarrow> nud_state option \<Rightarrow> nud_state option \<Rightarrow> bool" where
  resolve: "nud_edge Used None (Some NUD_INCOMPLETE)"
| retry: "nud_edge Used (Some NUD_FAILED) (Some NUD_INCOMPLETE)"
| delay: "nud_edge Used (Some NUD_STALE) (Some NUD_DELAY)"
| answered: "s \<noteq> Some NUD_PERMANENT \<Longrightarrow> nud_edge Answered s (Some NUD_REACHABLE)"
| confirmed: "s \<in> {NUD_STALE, NUD_DELAY, NUD_PROBE} \<Longrightarrow> nud_edge Confirmed (Some s) (Some NUD_REACHABLE)"
| stale: "nud_edge Aged (Some NUD_REACHABLE) (Some NUD_STALE)"
| probe: "nud_edge Aged (Some NUD_DELAY) (Some NUD_PROBE)"
| failed: "s \<in> {NUD_INCOMPLETE, NUD_PROBE} \<Longrightarrow> nud_edge Aged (Some s) (Some NUD_FAILED)"
| collected: "s \<noteq> NUD_PERMANENT \<Longrightarrow> nud_edge Collected (Some s) None"
| configured: "nud_edge Configured s (Some NUD_PERMANENT)"
| removed: "nud_edge Configured (Some s) None"

inductive_cases permanent_edgeE: "nud_edge k (Some NUD_PERMANENT) t"

fun causes :: "('a, 'p) nbr_op \<Rightarrow> nud_cause set" where
  "causes (Send now a p) = {Used}"
| "causes (Reply now a m) = {Answered}"
| "causes (Confirm now a) = {Confirmed}"
| "causes (Tick now) = {Aged, Used, Collected}"
| "causes (Static now a m) = {Configured}"
| "causes (Remove a) = {Configured}"
| "causes Flush = {Configured}"
| "causes (Override v) = {}"

definition nud_at :: "('a, 'p) neighbor_cache \<Rightarrow> 'a \<Rightarrow> nud_state option" where
  "nud_at c a = map_option ne_state (get_entry a c)"

definition moves :: "nud_cause set \<Rightarrow> nud_state option \<Rightarrow> nud_state option \<Rightarrow> bool" where
  "moves K s t \<longleftrightarrow> (\<exists>k \<in> K. nud_edge k s t)"

text \<open>A static entry keeps its link-layer address.\<close>

definition pinned :: "('a, 'p) neighbor_cache \<Rightarrow> 'a \<Rightarrow> mac option \<Rightarrow> bool" where
  "pinned c a m \<longleftrightarrow> (\<exists>e. get_entry a c = Some e \<and> ne_state e = NUD_PERMANENT \<and> ne_mac_address e = m)"

lemma used_edge:
  "(moves {Used})\<^sup>=\<^sup>= (map_option ne_state found) (Some (ne_state (used_entry now a found)))"
  by (auto simp: used_entry_def transition_def moves_def intro: nud_edge.intros split: option.splits)

lemma sent_state [simp]: "ne_state (sent_entry sy now a p found) = ne_state (used_entry now a found)"
  by (simp add: sent_entry_def Let_def)

lemma maintain_edge:
  "(moves {Aged})\<^sup>=\<^sup>= (Some (ne_state e)) (Some (ne_state (fst (maintain_entry sy ov now e))))"
  by (auto simp: maintain_entry_def fail_entry_def transition_def moves_def Let_def intro: nud_edge.intros)

lemma permanent_kept:
  "ne_state e = NUD_PERMANENT \<Longrightarrow> sent_entry sy now a p (Some e) = e\<lparr>ne_last_used_at := now\<rparr>"
  "ne_state e = NUD_PERMANENT \<Longrightarrow> used_entry now a (Some e) = e\<lparr>ne_last_used_at := now\<rparr>"
  "ne_state e = NUD_PERMANENT \<Longrightarrow> maintain_entry sy ov now e = (e, None)"
  by (simp_all add: sent_entry_def used_entry_def maintain_entry_def Let_def)

definition aging_keeps ::
    "nbr_sysctl \<Rightarrow> real \<Rightarrow> (('a, 'p) neighbor_cache \<Rightarrow> ('a, 'p) neighbor_cache \<Rightarrow> bool) \<Rightarrow> bool" where
  "aging_keeps sy now R \<longleftrightarrow>
     (\<forall>c. R c c) \<and> (\<forall>c c1 c2. R c c1 \<longrightarrow> R c1 c2 \<longrightarrow> R c c2) \<and>
     (\<forall>c a e. cache_ok sy c \<longrightarrow> get_entry a c = Some e \<longrightarrow>
        R c (put_entry a (fst (maintain_entry sy (nb_reachable_time_override c) now e)) c)) \<and>
     (\<forall>c t b p. cache_ok sy c \<longrightarrow> R c (put_entry b (sent_entry sy t b p (get_entry b c)) c))"

text \<open>
  The effect of a step on every address: it moves along the edges of the diagram that the step
  causes, at most one unless the step is a maintenance pass, and a static entry stays.
\<close>

fun op_path :: "('a, 'p) nbr_op \<Rightarrow> nud_state option \<Rightarrow> nud_state option \<Rightarrow> bool" where
  "op_path (Tick now) = (moves (causes (Tick now :: ('a, 'p) nbr_op)))\<^sup>*\<^sup>*"
| "op_path op = (moves (causes op))\<^sup>=\<^sup>="

definition kept :: "('a, 'p) nbr_op \<Rightarrow> ('a, 'p) neighbor_cache \<Rightarrow> ('a, 'p) neighbor_cache \<Rightarrow> bool" where
  "kept op c c' \<longleftrightarrow> (\<forall>a. op_path op (nud_at c a) (nud_at c' a)) \<and>
     (Configured \<notin> causes op \<longrightarrow> (\<forall>a m. pinned c a m \<longrightarrow> pinned c' a m))"

definition aged_path :: "('a, 'p) neighbor_cache \<Rightarrow> ('a, 'p) neighbor_cache \<Rightarrow> bool" where
  "aged_path c c' \<longleftrightarrow> (\<forall>a. (moves {Aged, Used, Collected})\<^sup>*\<^sup>* (nud_at c a) (nud_at c' a)) \<and>
     (\<forall>a m. pinned c a m \<longrightarrow> pinned c' a m)"

lemma moves_mono: "(moves K)\<^sup>=\<^sup>= s t \<Longrightarrow> K \<subseteq> L \<Longrightarrow> (moves L)\<^sup>*\<^sup>* s t"
  unfolding moves_def by (auto intro: r_into_rtranclp)

lemma nud_at_put: "nud_at (put_entry a e c) b = (if b = a then Some (ne_state e) else nud_at c b)"
  by (simp add: nud_at_def)

lemma pinned_put:
  "pinned (put_entry a e c) b m =
     (if b = a then ne_state e = NUD_PERMANENT \<and> ne_mac_address e = m else pinned c b m)"
  by (auto simp: pinned_def)

lemma sent_kept: "kept (Send now a p) c (put_entry a (sent_entry sy now a p (get_entry a c)) c)"
  using used_edge [of "get_entry a c" now a]
  by (auto simp: kept_def nud_at_put nud_at_def pinned_put) (auto simp: pinned_def permanent_kept)

lemma aged_path_put:
  assumes "(moves K)\<^sup>=\<^sup>= (nud_at c a) (Some (ne_state e))" "K \<subseteq> {Aged, Used, Collected}"
    "\<And>m. pinned c a m \<Longrightarrow> ne_state e = NUD_PERMANENT \<and> ne_mac_address e = m"
  shows "aged_path c (put_entry a e c)"
  using assms(3) moves_mono [OF assms(1,2)] by (auto simp: aged_path_def nud_at_put pinned_put)

lemma aged_path_kept: "aging_keeps sy now aged_path"
  unfolding aging_keeps_def
proof (intro conjI allI impI)
  fix c c1 c2 :: "('a, 'p) neighbor_cache"
  show "aged_path c c" by (simp add: aged_path_def)
  assume "aged_path c c1" "aged_path c1 c2"
  then show "aged_path c c2" unfolding aged_path_def by (blast intro: rtranclp_trans)
next
  fix c :: "('a, 'p) neighbor_cache" and a e
  assume "get_entry a c = Some e"
  then show "aged_path c (put_entry a (fst (maintain_entry sy (nb_reachable_time_override c) now e)) c)"
    using maintain_edge [of e sy "nb_reachable_time_override c" now]
    by (intro aged_path_put [of "{Aged}"]) (auto simp: nud_at_def pinned_def permanent_kept)
next
  fix c :: "('a, 'p) neighbor_cache" and t b p
  show "aged_path c (put_entry b (sent_entry sy t b p (get_entry b c)) c)"
    using used_edge [of "get_entry b c" t b]
    by (intro aged_path_put [of "{Used}"]) (auto simp: nud_at_def pinned_def permanent_kept)
qed

lemma collected_kept:
  assumes "aged_path c c1" "may_evict sy now c1 A"
  shows "kept (Tick t) c (without A c1)"
proof -
  have "(moves {Aged, Used, Collected})\<^sup>*\<^sup>* (nud_at c1 a) (nud_at (without A c1) a)" for a
    using assms(2) by (auto simp: may_evict_def nud_at_def evictable_def moves_def intro!: r_into_rtranclp nud_edge.collected)
  moreover have "pinned (without A c1) a m" if "pinned c1 a m" for a m
    using assms(2) that by (force simp: may_evict_def pinned_def evictable_def)
  ultimately show ?thesis using assms(1)
    unfolding kept_def aged_path_def op_path.simps causes.simps by (blast intro: rtranclp_trans)
qed

lemma op_path_quiet: "\<forall>now. op \<noteq> Tick now \<Longrightarrow> op_path op = (moves (causes op))\<^sup>=\<^sup>="
  by (cases op) auto

lemma kept_put:
  assumes "\<forall>now. op \<noteq> Tick now" "(moves (causes op))\<^sup>=\<^sup>= (nud_at c a) (Some (ne_state e))"
    "Configured \<notin> causes op \<Longrightarrow> nud_at c a \<noteq> Some NUD_PERMANENT"
  shows "kept op c (put_entry a e c)"
  using assms by (auto simp: kept_def op_path_quiet nud_at_put pinned_put) (auto simp: pinned_def nud_at_def)

lemma kept_refl: "kept op c c"
  by (cases op) (auto simp: kept_def)

lemma kept_without: "Configured \<in> causes op \<Longrightarrow> kept op c (without A c)"
  by (cases op) (auto simp: kept_def nud_at_def moves_def intro: nud_edge.removed)

lemma quiet_keeps:
  assumes "cache_ok sy c" "\<And>now a p. op \<noteq> Send now a p" "\<And>now. op \<noteq> Tick now"
  shows "\<exists>c' sent. nbr_apply solicit flush sy op c = Inr (c', sent) \<and> cache_ok sy c' \<and> kept op c c'"
proof (cases op)
  case (Reply now a m)
  show ?thesis
  proof (cases "get_entry a c")
    case None
    then show ?thesis using assms(1)
      by (auto simp: Reply add_entry_def entry_ok_def nud_at_def moves_def intro!: kept_put nud_edge.answered)
  next
    case (Some e)
    then show ?thesis using assms(1) cache_okD [OF assms(1) Some]
      by (auto simp: Reply add_entry_def entry_simps nud_at_def moves_def intro!: kept_put kept_refl nud_edge.answered)
  qed
next
  case (Confirm now a)
  then show ?thesis using assms(1) cache_okD [OF assms(1), of a]
    by (auto simp: confirm_reachability_def entry_simps nud_at_def moves_def
        intro!: kept_put kept_refl cache_ok_put nud_edge.confirmed split: option.splits)
next
  case (Static now a m)
  then show ?thesis using assms(1)
    by (auto simp: add_permanent_entry_def entry_ok_def moves_def intro!: kept_put nud_edge.configured)
next
  case (Remove a)
  then show ?thesis using assms(1) by (simp add: remove_entry_def delete_without cache_ok_without kept_without)
next
  case Flush
  have "c\<lparr>nb_entries := []\<rparr> = without UNIV c" by (simp add: without_def)
  then show ?thesis using Flush assms(1) by (simp add: flush_cache_def cache_ok_without kept_without)
next
  case (Override v)
  then show ?thesis using assms(1)
    by (simp add: set_reachable_time_override_ms_def cache_ok_def kept_def nud_at_def pinned_def)
qed (use assms in auto)

section \<open>The interface of the callbacks\<close>

text \<open>
  The broadcast form of a solicitation has its link-layer destination and does not look at the
  cache. The unicast form leaves the cache alone or sends one packet through it, whose own
  solicitation is of the broadcast form.
\<close>

locale solicit_hook =
  fixes solicit :: "('a, 'p, 'e) solicit_cb"
  assumes broadcast_direct: "\<exists>sent. solicit a None c = Inr (c, sent)"
    and unicast_sends: "sysctl_valid sy \<Longrightarrow> cache_ok sy c \<Longrightarrow> \<exists>c' sent. solicit a (Some m) c = Inr (c', sent) \<and>
      (c' = c \<or> (\<exists>now b p found (frames :: 'e list).
         resolve_or_queue silent sy now b p c = Inr (found, c', frames)))"
begin

lemma hook_direct: "direct solicit"
  using broadcast_direct by (simp add: direct_def)

lemma hook_step:
  assumes valid: "sysctl_valid sy" and ok: "cache_ok sy c"
  shows "\<exists>c' sent. solicit a cached c = Inr (c', sent) \<and>
    (c' = c \<or> (\<exists>now b p. c' = put_entry b (sent_entry sy now b p (get_entry b c)) c))"
proof (cases cached)
  case None
  then show ?thesis using broadcast_direct [of a c] by auto
next
  case (Some m)
  obtain c' sent where r: "solicit a (Some m) c = Inr (c', sent)"
    "c' = c \<or> (\<exists>now b p found (frames :: 'e list). resolve_or_queue silent sy now b p c = Inr (found, c', frames))"
    using unicast_sends [OF assms] by blast
  have "c' = put_entry b (sent_entry sy now b p (get_entry b c)) c"
    if "resolve_or_queue silent sy now b p c = Inr (found, c', frames)" for now b p found and frames :: "'e list"
    using resolve_sent [where solicit = "silent :: ('a, 'p, 'e) solicit_cb", OF direct_silent assms, of now b p] that
    by auto
  then show ?thesis using r Some by blast
qed

text \<open>What every aged entry and every sent packet keeps, a maintenance pass up to its collection keeps.\<close>

lemma loop_rule:
  assumes valid: "sysctl_valid sy" and R: "aging_keeps sy now R"
  shows "cache_ok sy c \<Longrightarrow>
    \<exists>c' sent. maintenance_loop solicit sy now addresses c = Inr (c', sent) \<and> cache_ok sy c' \<and> R c c'"
proof (induction addresses arbitrary: c)
  case Nil
  then show ?case using R by (simp add: aging_keeps_def)
next
  case (Cons a addresses)
  show ?case
  proof (cases "get_entry a c")
    case None
    then show ?thesis using Cons by simp
  next
    case entry: (Some e)
    obtain e' out where m: "maintain_entry sy (nb_reachable_time_override c) now e = (e', out)" by fastforce
    have ok: "cache_ok sy (put_entry a e' c)"
      using maintain_entry_ok [OF valid, of e "nb_reachable_time_override c" now] cache_okD [OF Cons.prems entry]
        maintain_entry_address [of sy "nb_reachable_time_override c" now e] Cons.prems
      by (simp add: m cache_ok_put)
    have "R c (put_entry a (fst (maintain_entry sy (nb_reachable_time_override c) now e)) c)"
      using R Cons.prems entry unfolding aging_keeps_def by blast
    then have aged: "R c (put_entry a e' c)" by (simp add: m)
    have tr: "R x y \<Longrightarrow> R y z \<Longrightarrow> R x z" for x y z using R unfolding aging_keeps_def by blast
    have trans: "R c d" if "R (put_entry a e' c) c1" "R c1 d" for c1 d
      by (rule tr [OF tr [OF aged that(1)] that(2)])
    have same: "R d d" for d using R unfolding aging_keeps_def by blast
    show ?thesis
    proof (cases out)
      case None
      then show ?thesis using Cons.IH [OF ok] trans [OF same] entry m by auto
    next
      case (Some cached)
      obtain c1 sent where h: "solicit a cached (put_entry a e' c) = Inr (c1, sent)"
        "c1 = put_entry a e' c \<or> (\<exists>t b p. c1 = put_entry b (sent_entry sy t b p (get_entry b (put_entry a e' c))) (put_entry a e' c))"
        using hook_step [OF valid ok] by blast
      have "cache_ok sy c1" using h(2) ok sent_entry_ok [OF valid ok] by blast
      then obtain c2 sent' where l: "maintenance_loop solicit sy now addresses c1 = Inr (c2, sent')" "cache_ok sy c2" "R c1 c2"
        using Cons.IH by blast
      have "R (put_entry a e' c) c1" using h(2) ok R same unfolding aging_keeps_def by blast
      then show ?thesis using entry m h(1) l Some trans by (simp del: bind_res_eq_Inr)
    qed
  qed
qed

lemma tick_rule:
  assumes valid: "sysctl_valid sy" and "aging_keeps sy now R" "cache_ok sy c"
  shows "\<exists>c1 sent A. run_maintenance_once solicit sy now c = Inr (without A c1, sent) \<and> cache_ok sy c1 \<and> R c c1 \<and>
    may_evict sy now c1 A \<and>
    (cache_size (without A c1) \<le> sy_gc_thresh3 sy \<or> (\<forall>a e. get_entry a (without A c1) = Some e \<longrightarrow> \<not> evictable e))"
proof -
  obtain c1 sent where l: "maintenance_loop solicit sy now (map fst (nb_entries c)) c = Inr (c1, sent)"
    "cache_ok sy c1" "R c c1"
    using loop_rule [OF assms] by blast
  obtain A where "gc_pass sy now c1 = Inr (without A c1)" "may_evict sy now c1 A"
    "cache_size (without A c1) \<le> sy_gc_thresh3 sy \<or> (\<forall>a e. get_entry a (without A c1) = Some e \<longrightarrow> \<not> evictable e)"
    using gc_pass_run [OF l(2) valid] by blast
  then show ?thesis using l
    by (intro exI [of _ c1] exI [of _ sent] exI [of _ A])
      (simp add: run_maintenance_once_def del: bind_res_eq_Inr get_without)
qed

lemma send_keeps:
  assumes "sysctl_valid sy" "cache_ok sy c"
  shows "\<exists>c' sent. nbr_apply solicit flush sy (Send now a p) c = Inr (c', sent) \<and>
    c' = put_entry a (sent_entry sy now a p (get_entry a c)) c \<and> cache_ok sy c'"
  using resolve_sent [OF hook_direct assms, of now a p] sent_entry_ok [OF assms, of now a p] assms(2)
  by (auto simp del: bind_res_eq_Inr)

lemma tick_keeps:
  assumes "sysctl_valid sy" "cache_ok sy c"
  shows "\<exists>c' sent. nbr_apply solicit flush sy (Tick now) c = Inr (c', sent) \<and> cache_ok sy c' \<and> kept (Tick now) c c' \<and>
    (cache_size c' \<le> sy_gc_thresh3 sy \<or> (\<forall>a e. get_entry a c' = Some e \<longrightarrow> \<not> evictable e))"
proof -
  obtain c1 sent A where t: "run_maintenance_once solicit sy now c = Inr (without A c1, sent)" "cache_ok sy c1"
    "aged_path c c1" "may_evict sy now c1 A"
    "cache_size (without A c1) \<le> sy_gc_thresh3 sy \<or> (\<forall>a e. get_entry a (without A c1) = Some e \<longrightarrow> \<not> evictable e)"
    using tick_rule [OF assms(1) aged_path_kept assms(2), of now] by blast
  have "kept (Tick now) c (without A c1)"
    using collected_kept [OF t(3,4)] .
  then show ?thesis using t cache_ok_without [OF t(2), of A] by (auto simp del: get_without)
qed

lemma apply_keeps:
  assumes "sysctl_valid sy" "cache_ok sy c"
  shows "\<exists>c' sent. nbr_apply solicit flush sy op c = Inr (c', sent) \<and> cache_ok sy c' \<and> kept op c c'"
proof (cases op)
  case (Send now a p)
  then show ?thesis using send_keeps [OF assms, of flush now a p] sent_kept by fastforce
next
  case (Tick now)
  then show ?thesis using tick_keeps [OF assms] by blast
qed (use quiet_keeps [OF assms(2), of op solicit flush] in auto)

text \<open>Any run: nothing raises, the cache stays well formed.\<close>

lemma run_keeps: "sysctl_valid sy \<Longrightarrow> cache_ok sy c \<Longrightarrow> \<exists>c' sent. nbr_run solicit flush sy ops c = Inr (c', sent) \<and> cache_ok sy c'"
proof (induction ops arbitrary: c)
  case (Cons op ops)
  obtain c1 sent where a: "nbr_apply solicit flush sy op c = Inr (c1, sent)" "cache_ok sy c1"
    using apply_keeps [OF Cons.prems] by blast
  then show ?case using Cons.IH [OF Cons.prems(1) a(2)] by (auto simp del: bind_res_eq_Inr)
qed simp

lemma run_pinned:
  assumes valid: "sysctl_valid sy" and "\<forall>op \<in> set ops. Configured \<notin> causes op"
  shows "cache_ok sy c \<Longrightarrow> nbr_run solicit flush sy ops c = Inr (c', sent) \<Longrightarrow> pinned c a m \<Longrightarrow> pinned c' a m"
  using assms(2)
proof (induction ops arbitrary: c sent)
  case (Cons op ops)
  obtain c1 s1 where a: "nbr_apply solicit flush sy op c = Inr (c1, s1)" "cache_ok sy c1" "kept op c c1"
    using apply_keeps [OF valid Cons.prems(1)] by blast
  then have "pinned c1 a m" using Cons.prems by (simp add: kept_def)
  then show ?case using Cons.IH [OF a(2)] Cons.prems a(1) by auto
qed simp

end

section \<open>Callbacks that leave the cache alone\<close>

text \<open>
  With such a callback, as the ARP cache has it, a maintenance pass treats every entry on
  its own.
\<close>

definition solicited ::
    "('a \<Rightarrow> mac option \<Rightarrow> 'e list) \<Rightarrow> nbr_sysctl \<Rightarrow> real option \<Rightarrow> real \<Rightarrow> 'a \<Rightarrow> ('a, 'p) neighbor_entry option \<Rightarrow> 'e list" where
  "solicited frames sy ov now a found =
     (case found of
        None \<Rightarrow> []
      | Some e \<Rightarrow> (case snd (maintain_entry sy ov now e) of None \<Rightarrow> [] | Some cached \<Rightarrow> frames a cached))"

lemma cache_size_dom: "cache_ok sy c \<Longrightarrow> cache_size c = int (card {a. get_entry a c \<noteq> None})"
proof -
  assume "cache_ok sy c"
  then have "length (nb_entries c) = card (set (map fst (nb_entries c)))"
    by (metis cache_ok_def distinct_card length_map)
  moreover have "{a. get_entry a c \<noteq> None} = set (map fst (nb_entries c))"
    by (auto simp: get_entry_def map_of_eq_None_iff simp del: not_None_eq)
  ultimately show ?thesis by (simp add: cache_size_def)
qed

locale inert_hook =
  fixes solicit :: "('a, 'p, 'e) solicit_cb" and frames :: "'a \<Rightarrow> mac option \<Rightarrow> 'e list"
  assumes inert: "solicit a cached c = Inr (c, frames a cached)"

sublocale inert_hook \<subseteq> solicit_hook solicit
  by unfold_locales (auto simp: inert)

context inert_hook
begin

lemma loop_exact:
  "distinct addresses \<Longrightarrow> \<exists>c'. maintenance_loop solicit sy now addresses c =
     Inr (c', concat (map (\<lambda>a. solicited frames sy (nb_reachable_time_override c) now a (get_entry a c)) addresses)) \<and>
   nb_reachable_time_override c' = nb_reachable_time_override c \<and>
   (\<forall>a. get_entry a c' = (if a \<in> set addresses
      then map_option (\<lambda>e. fst (maintain_entry sy (nb_reachable_time_override c) now e)) (get_entry a c) else get_entry a c))"
proof (induction addresses arbitrary: c)
  case (Cons b addresses)
  show ?case
  proof (cases "get_entry b c")
    case None
    then show ?thesis using Cons.IH [of c] Cons.prems by (auto simp: solicited_def)
  next
    case (Some e)
    let ?ov = "nb_reachable_time_override c"
    obtain e' out where m: "maintain_entry sy ?ov now e = (e', out)" by fastforce
    have other: "map (\<lambda>a. solicited frames sy ?ov now a (get_entry a (put_entry b e' c))) addresses =
        map (\<lambda>a. solicited frames sy ?ov now a (get_entry a c)) addresses"
      using Cons.prems by (intro map_cong) auto
    obtain c' where c': "maintenance_loop solicit sy now addresses (put_entry b e' c) =
        Inr (c', concat (map (\<lambda>a. solicited frames sy ?ov now a (get_entry a c)) addresses))"
      "nb_reachable_time_override c' = ?ov"
      "\<forall>a. get_entry a c' = (if a \<in> set addresses
         then map_option (\<lambda>e. fst (maintain_entry sy ?ov now e)) (get_entry a (put_entry b e' c)) else get_entry a (put_entry b e' c))"
      using Cons.IH [of "put_entry b e' c"] Cons.prems unfolding put_override other by auto
    have get: "get_entry a c' = (if a \<in> set (b # addresses)
        then map_option (\<lambda>e. fst (maintain_entry sy ?ov now e)) (get_entry a c) else get_entry a c)" for a
      using c'(3) Cons.prems Some m by auto
    have here: "solicited frames sy ?ov now b (get_entry b c) = (case out of None \<Rightarrow> [] | Some cached \<Rightarrow> frames b cached)"
      by (simp add: solicited_def Some m)
    have hook: "solicit b cached (put_entry b e' c) = Inr (put_entry b e' c, frames b cached)" for cached
      by (rule inert)
    show ?thesis using c'(1,2) get Some m here
      by (intro exI [of _ c']) (cases out, simp_all add: hook del: bind_res_eq_Inr)
  qed
qed simp

text \<open>A lookup solicits when it starts a resolution, and only then.\<close>

lemma resolve_exact:
  assumes "sysctl_valid sy" "cache_ok sy c"
  shows "resolve_or_queue solicit sy now a p c =
    Inr (ne_mac_address (sent_entry sy now a p (get_entry a c)), put_entry a (sent_entry sy now a p (get_entry a c)) c,
      if nud_at c a \<in> {None, Some NUD_FAILED} then frames a None else [])"
proof -
  obtain sent where r: "resolve_or_queue solicit sy now a p c =
      Inr (ne_mac_address (sent_entry sy now a p (get_entry a c)), put_entry a (sent_entry sy now a p (get_entry a c)) c, sent)"
    using resolve_sent [OF hook_direct assms] by blast
  moreover have "sent = (if nud_at c a \<in> {None, Some NUD_FAILED} then frames a None else [])"
    using r by (cases "get_entry a c")
      (auto simp: resolve_or_queue_def find_entry_def inert nud_at_def Let_def split: option.splits if_splits)
  ultimately show ?thesis by simp
qed

lemma tick_exact:
  assumes valid: "sysctl_valid sy" and ok: "cache_ok sy c"
  shows "\<exists>c1 A. run_maintenance_once solicit sy now c = Inr (without A c1,
      concat (map (\<lambda>a. solicited frames sy (nb_reachable_time_override c) now a (get_entry a c)) (map fst (nb_entries c)))) \<and>
    (\<forall>a. get_entry a c1 = map_option (\<lambda>e. fst (maintain_entry sy (nb_reachable_time_override c) now e)) (get_entry a c)) \<and>
    cache_ok sy c1 \<and> cache_ok sy (without A c1) \<and> may_evict sy now c1 A \<and>
    (cache_size (without A c1) \<le> sy_gc_thresh3 sy \<or> (\<forall>a e. get_entry a (without A c1) = Some e \<longrightarrow> \<not> evictable e))"
proof -
  have d: "distinct (map fst (nb_entries c))" using ok by (simp add: cache_ok_def)
  obtain c1 where l: "maintenance_loop solicit sy now (map fst (nb_entries c)) c =
      Inr (c1, concat (map (\<lambda>a. solicited frames sy (nb_reachable_time_override c) now a (get_entry a c)) (map fst (nb_entries c))))"
    and g: "\<forall>a. get_entry a c1 = (if a \<in> set (map fst (nb_entries c))
      then map_option (\<lambda>e. fst (maintain_entry sy (nb_reachable_time_override c) now e)) (get_entry a c) else get_entry a c)"
    using loop_exact [OF d, of sy now c] by blast
  have ok1: "cache_ok sy c1" using loop_rule [OF valid aged_path_kept ok, of now "map fst (nb_entries c)"] l by auto
  have "get_entry a c = None" if "a \<notin> set (map fst (nb_entries c))" for a
    using that by (simp add: get_entry_def map_of_eq_None_iff)
  then have "\<forall>a. get_entry a c1 = map_option (\<lambda>e. fst (maintain_entry sy (nb_reachable_time_override c) now e)) (get_entry a c)"
    using g by auto
  moreover obtain A where "gc_pass sy now c1 = Inr (without A c1)" "may_evict sy now c1 A"
    "cache_size (without A c1) \<le> sy_gc_thresh3 sy \<or> (\<forall>a e. get_entry a (without A c1) = Some e \<longrightarrow> \<not> evictable e)"
    using gc_pass_run [OF ok1 valid] by blast
  ultimately show ?thesis using l ok1 cache_ok_without [OF ok1, of A]
    by (intro exI [of _ c1] exI [of _ A]) (simp add: run_maintenance_once_def del: bind_res_eq_Inr get_without)
qed

text \<open>A cache at or below the first threshold is not collected from.\<close>

lemma small_tick:
  assumes valid: "sysctl_valid sy" and ok: "cache_ok sy c" and small: "cache_size c \<le> sy_gc_thresh1 sy"
  shows "\<exists>c'. run_maintenance_once solicit sy now c = Inr (c',
      concat (map (\<lambda>a. solicited frames sy (nb_reachable_time_override c) now a (get_entry a c)) (map fst (nb_entries c)))) \<and>
    (\<forall>a. get_entry a c' = map_option (\<lambda>e. fst (maintain_entry sy (nb_reachable_time_override c) now e)) (get_entry a c)) \<and>
    cache_ok sy c' \<and> cache_size c' = cache_size c"
proof -
  obtain c1 A where t: "run_maintenance_once solicit sy now c = Inr (without A c1,
      concat (map (\<lambda>a. solicited frames sy (nb_reachable_time_override c) now a (get_entry a c)) (map fst (nb_entries c))))"
    "\<forall>a. get_entry a c1 = map_option (\<lambda>e. fst (maintain_entry sy (nb_reachable_time_override c) now e)) (get_entry a c)"
    "cache_ok sy c1" "may_evict sy now c1 A"
    using tick_exact [OF valid ok, of now] by blast
  have size: "cache_size c1 = cache_size c"
    using t(2) cache_size_dom [OF t(3)] cache_size_dom [OF ok] by simp
  have "\<not> gc_tier sy now e < cache_size c1" for e :: "('a, 'p) neighbor_entry"
    using valid small size by (simp add: gc_tier_def sysctl_valid_def)
  then have "A = {}" using t(4) unfolding may_evict_def by blast
  then show ?thesis using t size by auto
qed

end

section \<open>Giving up\<close>

text \<open>What a pass that comes a retransmission interval or more after the last one makes of an unresolved entry.\<close>

lemma maintain_incomplete:
  assumes "entry_ok sy e" "ne_state e = NUD_INCOMPLETE" "real_of_int (sy_retrans_timer sy) \<le> now - ne_state_changed_at e"
  shows "maintain_entry sy ov now e =
    (if ne_probe_count e = sy_max_multicast_solicit sy then (fail_entry e now, None)
     else (e\<lparr>ne_probe_count := ne_probe_count e + 1, ne_state_changed_at := now\<rparr>, Some None))"
  using assms by (auto simp: maintain_entry_def entry_ok_def Let_def)

text \<open>A failed entry stays failed, or is collected, until it is used again.\<close>

lemma maintain_failed: "ne_state e = NUD_FAILED \<Longrightarrow> maintain_entry sy ov now e = (e, None)"
  by (simp add: maintain_entry_def Let_def)

text \<open>
  The number of solicitations is tested before the timer: once the last one is out, the next
  pass gives up however soon it comes.
\<close>

lemma last_solicit_not_awaited:
  assumes "ne_state e = NUD_INCOMPLETE" "ne_probe_count e = sy_max_multicast_solicit sy"
  shows "maintain_entry sy ov now e = (fail_entry e now, None)"
  using assms by (simp add: maintain_entry_def Let_def)

end
