(* ===== verification/Link_Codec.thy ===== *)
theory Link_Codec
  imports Addresses Wire
begin

text \<open>
  The codecs of the link layer: the Ethernet II header (\<^verbatim>\<open>protocols/ethernet\<close>) and the ARP packet
  (\<^verbatim>\<open>protocols/arp\<close>), each with its assembler and its parser in three phases. A code point
  that no member of an enumeration has becomes an unknown member that carries it
  (\<^verbatim>\<open>lib/proto_enum.py\<close>).
\<close>

section \<open>The Ethernet header\<close>

datatype ether_type = ETHER_ARP | ETHER_IP4 | ETHER_IP6 | ETHER_RAW | ETHER_UNKNOWN int

fun ether_type_int :: "ether_type \<Rightarrow> int" where
  "ether_type_int ETHER_ARP = 0x0806"
| "ether_type_int ETHER_IP4 = 0x0800"
| "ether_type_int ETHER_IP6 = 0x86DD"
| "ether_type_int ETHER_RAW = 0xFFFF"
| "ether_type_int (ETHER_UNKNOWN v) = v"

definition ether_type_from_int :: "int \<Rightarrow> ether_type" where
  "ether_type_from_int v =
     (if v = 0x0806 then ETHER_ARP else if v = 0x0800 then ETHER_IP4 else if v = 0x86DD then ETHER_IP6
      else if v = 0xFFFF then ETHER_RAW else ETHER_UNKNOWN v)"

record ethernet_header =
  et_dst :: mac
  et_src :: mac
  et_type :: ether_type

definition ethernet_fmt :: "wire_fmt list" where
  "ethernet_fmt = [Fmt_6s, Fmt_6s, Fmt_H]"

definition ethernet_buffer :: "ethernet_header \<Rightarrow> bytes res" where
  "ethernet_buffer h =
     struct_pack (zip ethernet_fmt [uint (et_dst h), uint (et_src h), ether_type_int (et_type h)])"

definition ethernet_from_buffer :: "bytes \<Rightarrow> ethernet_header res" where
  "ethernet_from_buffer buffer =
     bind_res (struct_unpack ethernet_fmt (take 14 buffer)) (\<lambda>f.
       Inr \<lparr>et_dst = word_of_int (f ! 0), et_src = word_of_int (f ! 1), et_type = ether_type_from_int (f ! 2)\<rparr>)"

definition ethernet_validate_sanity :: "ethernet_header \<Rightarrow> unit res" where
  "ethernet_validate_sanity h =
     (if ether_type_int (et_type h) < 0x0600 then Inl SanityError
      else if mac_is_unspecified (et_src h) then Inl SanityError
      else if mac_is_multicast (et_src h) then Inl SanityError
      else if mac_is_broadcast (et_src h) then Inl SanityError
      else Inr ())"

text \<open>The parser: the header and the frame that is left for the next protocol.\<close>

definition ethernet_parser :: "bytes \<Rightarrow> (ethernet_header \<times> bytes) res" where
  "ethernet_parser frame =
     (if length frame < 14 then Inl IntegrityError
      else bind_res (ethernet_from_buffer frame) (\<lambda>h.
        bind_res (ethernet_validate_sanity h) (\<lambda>_. Inr (h, drop 14 frame))))"

section \<open>The ARP packet\<close>

datatype arp_operation = ARP_REQUEST | ARP_REPLY | ARP_UNKNOWN int

fun arp_operation_int :: "arp_operation \<Rightarrow> int" where
  "arp_operation_int ARP_REQUEST = 1"
| "arp_operation_int ARP_REPLY = 2"
| "arp_operation_int (ARP_UNKNOWN v) = v"

definition arp_operation_from_int :: "int \<Rightarrow> arp_operation" where
  "arp_operation_from_int v = (if v = 1 then ARP_REQUEST else if v = 2 then ARP_REPLY else ARP_UNKNOWN v)"

fun arp_is_unknown :: "arp_operation \<Rightarrow> bool" where
  "arp_is_unknown (ARP_UNKNOWN v) = True"
| "arp_is_unknown _ = False"

record arp_header =
  ar_oper :: arp_operation
  ar_sha :: mac
  ar_spa :: ip_address
  ar_tha :: mac
  ar_tpa :: ip_address

definition arp_fmt :: "wire_fmt list" where
  "arp_fmt = [Fmt_H, Fmt_H, Fmt_B, Fmt_B, Fmt_H, Fmt_6s, Fmt_L, Fmt_6s, Fmt_L]"

definition arp_buffer :: "arp_header \<Rightarrow> bytes res" where
  "arp_buffer h =
     struct_pack (zip arp_fmt
       [1, 0x0800, 6, 4, arp_operation_int (ar_oper h), uint (ar_sha h), ia_int (ar_spa h), uint (ar_tha h), ia_int (ar_tpa h)])"

definition arp_from_buffer :: "bytes \<Rightarrow> arp_header res" where
  "arp_from_buffer buffer =
     bind_res (struct_unpack arp_fmt (take 28 buffer)) (\<lambda>f.
       bind_res (mk_address IP4 (f ! 6)) (\<lambda>spa. bind_res (mk_address IP4 (f ! 8)) (\<lambda>tpa.
         Inr \<lparr>ar_oper = arp_operation_from_int (f ! 4), ar_sha = word_of_int (f ! 5), ar_spa = spa,
              ar_tha = word_of_int (f ! 7), ar_tpa = tpa\<rparr>)))"

definition arp_assembler :: "arp_operation \<Rightarrow> mac \<Rightarrow> ip_address \<Rightarrow> mac \<Rightarrow> ip_address \<Rightarrow> arp_header res" where
  "arp_assembler oper sha spa tha tpa =
     passert (\<not> arp_is_unknown oper) (Inr \<lparr>ar_oper = oper, ar_sha = sha, ar_spa = spa, ar_tha = tha, ar_tpa = tpa\<rparr>)"

definition arp_validate_integrity :: "bytes \<Rightarrow> unit res" where
  "arp_validate_integrity frame =
     (if length frame < 28 then Inl IntegrityError
      else if be_int (bslice 0 2 frame) \<noteq> 1 then Inl IntegrityError
      else if be_int (bslice 2 4 frame) \<noteq> 0x0800 then Inl IntegrityError
      else bind_res (byte_at frame 4) (\<lambda>hrlen.
        if hrlen \<noteq> 6 then Inl IntegrityError
        else bind_res (byte_at frame 5) (\<lambda>prlen. if prlen \<noteq> 4 then Inl IntegrityError else Inr ())))"

definition arp_validate_sanity :: "arp_header \<Rightarrow> unit res" where
  "arp_validate_sanity h =
     (if arp_is_unknown (ar_oper h) then Inl SanityError
      else if mac_is_unspecified (ar_sha h) then Inl SanityError
      else if mac_is_multicast (ar_sha h) then Inl SanityError
      else if mac_is_broadcast (ar_sha h) then Inl SanityError
      else if ar_oper h = ARP_REPLY \<and> ip_is_unspecified (ar_spa h) then Inl SanityError
      else if ip4_is_loopback (ar_spa h) then Inl SanityError
      else if ip4_is_multicast (ar_spa h) then Inl SanityError
      else if ip4_is_limited_broadcast (ar_spa h) then Inl SanityError
      else if ip4_is_multicast (ar_tpa h) then Inl SanityError
      else if ip4_is_limited_broadcast (ar_tpa h) then Inl SanityError
      else Inr ())"

definition arp_parser :: "bytes \<Rightarrow> (arp_header \<times> bytes) res" where
  "arp_parser frame =
     bind_res (arp_validate_integrity frame) (\<lambda>_. bind_res (arp_from_buffer frame) (\<lambda>h.
       bind_res (arp_validate_sanity h) (\<lambda>_. Inr (h, drop 28 frame))))"

section \<open>Reading back\<close>

lemma uint_mac_range: "0 \<le> uint (m :: mac)" "uint (m :: mac) < 256 ^ 6"
  using uint_lt2p [of m] by simp_all

lemma arp_operation_read: "\<not> arp_is_unknown p \<Longrightarrow> arp_operation_from_int (arp_operation_int p) = p"
  by (cases p) (auto simp: arp_operation_from_int_def)

lemma arp_buffer_total:
  assumes "\<not> arp_is_unknown (ar_oper h)" "ip4_ok (ar_spa h)" "ip4_ok (ar_tpa h)"
  shows "\<exists>bs. arp_buffer h = Inr bs \<and> length bs = 28"
proof -
  let ?f = "zip arp_fmt [1, 0x0800, 6, 4, arp_operation_int (ar_oper h), uint (ar_sha h), ia_int (ar_spa h),
    uint (ar_tha h), ia_int (ar_tpa h)]"
  have "list_all field_ok ?f"
    using assms uint_mac_range [of "ar_sha h"] uint_mac_range [of "ar_tha h"]
    by (cases "ar_oper h") (simp_all add: arp_fmt_def field_ok_def ip4_ok_def)
  then obtain bs where b: "struct_pack ?f = Inr bs" using struct_pack_total by blast
  then have "length bs = 28" using struct_pack_length [OF b] by (simp add: arp_fmt_def calcsize_def)
  then show ?thesis using b by (simp add: arp_buffer_def)
qed

lemma arp_buffer_fields:
  assumes "arp_buffer h = Inr bs"
  shows "unpack_fields arp_fmt (bs @ rest) =
    [1, 0x0800, 6, 4, arp_operation_int (ar_oper h), uint (ar_sha h), ia_int (ar_spa h), uint (ar_tha h), ia_int (ar_tpa h)]"
  using unpack_fields_pack [OF assms [unfolded arp_buffer_def], of rest] by (simp add: arp_fmt_def)

text \<open>The fixed fields of the header, read where the parser tests them.\<close>

lemma arp_fixed_fields:
  assumes "length frame \<ge> 28"
  shows "be_int (bslice 0 2 frame) = unpack_fields arp_fmt frame ! 0"
    "be_int (bslice 2 4 frame) = unpack_fields arp_fmt frame ! 1"
    "byte_at frame 4 = Inr (unpack_fields arp_fmt frame ! 2)"
    "byte_at frame 5 = Inr (unpack_fields arp_fmt frame ! 3)"
proof -
  have one: "be_int (take 1 (drop i frame)) = uint (frame ! i)" if "i < 28" for i
    using that assms by (simp add: take_Suc_conv_app_nth [of 0] hd_drop_conv_nth take_Suc)
  show "be_int (bslice 0 2 frame) = unpack_fields arp_fmt frame ! 0"
    "be_int (bslice 2 4 frame) = unpack_fields arp_fmt frame ! 1"
    by (simp_all add: arp_fmt_def bslice_def)
  show "byte_at frame 4 = Inr (unpack_fields arp_fmt frame ! 2)"
    "byte_at frame 5 = Inr (unpack_fields arp_fmt frame ! 3)"
    using one [of 4] one [of 5] assms by (simp_all add: arp_fmt_def byte_at_def)
qed

lemma arp_from_buffer_fields:
  assumes "length frame \<ge> 28"
  shows "arp_from_buffer frame = (let f = unpack_fields arp_fmt frame in
    Inr \<lparr>ar_oper = arp_operation_from_int (f ! 4), ar_sha = word_of_int (f ! 5), ar_spa = \<lparr>ia_version = IP4, ia_int = f ! 6\<rparr>,
         ar_tha = word_of_int (f ! 7), ar_tpa = \<lparr>ia_version = IP4, ia_int = f ! 8\<rparr>\<rparr>)"
    "ip4_ok \<lparr>ia_version = IP4, ia_int = unpack_fields arp_fmt frame ! 6\<rparr>"
    "ip4_ok \<lparr>ia_version = IP4, ia_int = unpack_fields arp_fmt frame ! 8\<rparr>"
proof -
  have c: "calcsize arp_fmt = 28" by (simp add: calcsize_def arp_fmt_def)
  have r: "list_all field_ok (zip arp_fmt (unpack_fields arp_fmt frame))"
    using assms c by (intro unpack_fields_range) simp
  have "0 \<le> unpack_fields arp_fmt frame ! i \<and> unpack_fields arp_fmt frame ! i < 2 ^ 32" if "i < 9" "arp_fmt ! i = Fmt_L" for i
  proof -
    have "length arp_fmt = 9" by (simp add: arp_fmt_def)
    then have "field_ok (arp_fmt ! i, unpack_fields arp_fmt frame ! i)"
      using r that(1) by (auto simp: list_all_length)
    then show ?thesis by (simp add: that(2) field_ok_def)
  qed
  from this [of 6] this [of 8]
  show ok: "ip4_ok \<lparr>ia_version = IP4, ia_int = unpack_fields arp_fmt frame ! 6\<rparr>"
    "ip4_ok \<lparr>ia_version = IP4, ia_int = unpack_fields arp_fmt frame ! 8\<rparr>"
    by (simp_all add: ip4_ok_def arp_fmt_def)
  have "unpack_fields arp_fmt (take 28 frame) = unpack_fields arp_fmt frame"
    using assms by (simp add: arp_fmt_def take_drop)
  then show "arp_from_buffer frame = (let f = unpack_fields arp_fmt frame in
    Inr \<lparr>ar_oper = arp_operation_from_int (f ! 4), ar_sha = word_of_int (f ! 5), ar_spa = \<lparr>ia_version = IP4, ia_int = f ! 6\<rparr>,
         ar_tha = word_of_int (f ! 7), ar_tpa = \<lparr>ia_version = IP4, ia_int = f ! 8\<rparr>\<rparr>)"
    using assms ok c by (simp add: arp_from_buffer_def struct_unpack_def mk_address_ip4 ip4_ok_def Let_def del: bind_res_eq_Inr)
qed

lemma arp_operation_write: "arp_operation_int (arp_operation_from_int v) = v"
  by (simp add: arp_operation_from_int_def)

lemma arp_integrity_fields:
  assumes "length frame \<ge> 28"
  shows "arp_validate_integrity frame =
    (if take 4 (unpack_fields arp_fmt frame) = [1, 0x0800, 6, 4] then Inr () else Inl IntegrityError)"
  using assms by (auto simp: arp_validate_integrity_def arp_fixed_fields arp_fmt_def simp del: bind_res_eq_Inr)

lemma arp_read:
  assumes h: "arp_buffer h = Inr bs" "length bs = 28" and ok: "ip4_ok (ar_spa h)" "ip4_ok (ar_tpa h)"
    and sane: "arp_validate_sanity h = Inr ()"
  shows "arp_parser (bs @ rest) = Inr (h, rest)"
proof -
  have op: "arp_operation_from_int (arp_operation_int (ar_oper h)) = ar_oper h"
    using sane by (intro arp_operation_read) (auto simp: arp_validate_sanity_def split: if_splits)
  have "arp_from_buffer (bs @ rest) = Inr h"
    using ok op h(2) by (subst arp_from_buffer_fields(1)) (simp_all add: arp_buffer_fields [OF h(1)] ip4_ok_def Let_def)
  moreover have "arp_validate_integrity (bs @ rest) = Inr ()"
    using h(2) by (subst arp_integrity_fields) (simp_all add: arp_buffer_fields [OF h(1)])
  ultimately show ?thesis using sane h(2) by (simp add: arp_parser_def)
qed

lemma arp_written:
  assumes "arp_parser frame = Inr (h, rest)"
  shows "ip4_ok (ar_spa h) \<and> ip4_ok (ar_tpa h) \<and> arp_validate_sanity h = Inr () \<and>
    arp_buffer h = Inr (take 28 frame) \<and> rest = drop 28 frame \<and> 28 \<le> length frame"
proof -
  define F where "F = unpack_fields arp_fmt frame"
  have len: "length frame \<ge> 28"
    using assms by (auto simp: arp_parser_def arp_validate_integrity_def split: if_splits)
  have fixed: "take 4 F = [1, 0x0800, 6, 4]"
    using assms len unfolding F_def by (auto simp: arp_parser_def arp_integrity_fields split: if_splits)
  have h: "h = \<lparr>ar_oper = arp_operation_from_int (F ! 4), ar_sha = word_of_int (F ! 5), ar_spa = \<lparr>ia_version = IP4, ia_int = F ! 6\<rparr>,
      ar_tha = word_of_int (F ! 7), ar_tpa = \<lparr>ia_version = IP4, ia_int = F ! 8\<rparr>\<rparr>"
    and rest: "rest = drop 28 frame" "arp_validate_sanity h = Inr ()"
    using assms len unfolding F_def by (auto simp: arp_parser_def arp_from_buffer_fields(1) Let_def)
  have c: "calcsize arp_fmt = 28" and n: "length arp_fmt = 9" by (simp_all add: calcsize_def arp_fmt_def)
  have ok: "field_ok (arp_fmt ! i, F ! i)" if "i < 9" for i
    using unpack_fields_range [of arp_fmt frame] len c n that by (simp add: list_all_length F_def)
  have mac: "uint (word_of_int (F ! i) :: mac) = F ! i" if "i < 9" "arp_fmt ! i = Fmt_6s" for i
    using ok [OF that(1)] by (simp add: that(2) field_ok_def uint_word_of_int)
  have F: "F = take 4 F @ [F ! 4, F ! 5, F ! 6, F ! 7, F ! 8]"
    by (simp add: F_def arp_fmt_def)
  have "arp_buffer h = struct_pack (zip arp_fmt (take 4 F @ [F ! 4, F ! 5, F ! 6, F ! 7, F ! 8]))"
    using mac [of 5] mac [of 7] fixed by (simp add: arp_buffer_def h arp_operation_write arp_fmt_def)
  also have "\<dots> = Inr (take 28 frame)"
    using struct_pack_unpack [of arp_fmt frame] len c F by (simp add: F_def)
  finally show ?thesis using rest len arp_from_buffer_fields(2,3) [OF len] by (simp add: h F_def)
qed

lemma arp_parser_errors: "arp_parser frame = Inl e \<Longrightarrow> e \<in> {IntegrityError, SanityError}"
proof (cases "length frame < 28")
  case True
  then show "arp_parser frame = Inl e \<Longrightarrow> ?thesis" by (simp add: arp_parser_def arp_validate_integrity_def)
next
  case False
  then obtain h where "arp_from_buffer frame = Inr h" using arp_from_buffer_fields(1) [of frame] by (auto simp: Let_def)
  then show "arp_parser frame = Inl e \<Longrightarrow> ?thesis" using False
    by (auto simp: arp_parser_def arp_integrity_fields arp_validate_sanity_def split: if_splits simp del: bind_res_eq_Inr)
qed

text \<open>The same for the Ethernet header: its parser accepts exactly what its assembler writes.\<close>

definition ethernet_ok :: "ethernet_header \<Rightarrow> bool" where
  "ethernet_ok h \<longleftrightarrow> ether_type_from_int (ether_type_int (et_type h)) = et_type h \<and>
     0 \<le> ether_type_int (et_type h) \<and> ether_type_int (et_type h) < 0x10000 \<and> ethernet_validate_sanity h = Inr ()"

lemma ether_type_write: "ether_type_int (ether_type_from_int v) = v"
  by (simp add: ether_type_from_int_def)

lemma ethernet_parser_exact:
  "ethernet_parser frame = Inr (h, rest) \<longleftrightarrow> ethernet_ok h \<and> (\<exists>bs. ethernet_buffer h = Inr bs \<and> frame = bs @ rest)"
proof
  assume p: "ethernet_parser frame = Inr (h, rest)"
  define F where "F = unpack_fields ethernet_fmt frame"
  have len: "14 \<le> length frame" using p by (auto simp: ethernet_parser_def split: if_splits)
  have c: "calcsize ethernet_fmt = 14" by (simp add: calcsize_def ethernet_fmt_def)
  have "unpack_fields ethernet_fmt (take 14 frame) = F" using len by (simp add: F_def ethernet_fmt_def take_drop)
  then have h: "h = \<lparr>et_dst = word_of_int (F ! 0), et_src = word_of_int (F ! 1), et_type = ether_type_from_int (F ! 2)\<rparr>"
    and rest: "rest = drop 14 frame" "ethernet_validate_sanity h = Inr ()"
    using p len c by (auto simp: ethernet_parser_def ethernet_from_buffer_def struct_unpack_def split: if_splits)
  have "list_all field_ok (zip ethernet_fmt F)" using unpack_fields_range [of ethernet_fmt frame] len c by (simp add: F_def)
  moreover have F: "F = [F ! 0, F ! 1, F ! 2]" by (simp add: F_def ethernet_fmt_def)
  ultimately have ok: "list_all field_ok (zip ethernet_fmt [F ! 0, F ! 1, F ! 2])" by simp
  then have "ethernet_buffer h = struct_pack (zip ethernet_fmt [F ! 0, F ! 1, F ! 2])"
    by (simp add: ethernet_buffer_def h ether_type_write ethernet_fmt_def field_ok_def uint_word_of_int)
  also have "\<dots> = Inr (take 14 frame)" using struct_pack_unpack [of ethernet_fmt frame] len c F by (simp add: F_def)
  finally show "ethernet_ok h \<and> (\<exists>bs. ethernet_buffer h = Inr bs \<and> frame = bs @ rest)"
    using rest ok by (simp add: ethernet_ok_def h ether_type_write ethernet_fmt_def field_ok_def)
next
  assume "ethernet_ok h \<and> (\<exists>bs. ethernet_buffer h = Inr bs \<and> frame = bs @ rest)"
  then obtain bs where b: "ethernet_ok h" "ethernet_buffer h = Inr bs" "frame = bs @ rest" by blast
  have l: "length bs = 14"
    using struct_pack_length [OF b(2) [unfolded ethernet_buffer_def]] by (simp add: ethernet_fmt_def calcsize_def)
  have "unpack_fields ethernet_fmt bs = [uint (et_dst h), uint (et_src h), ether_type_int (et_type h)]"
    using unpack_fields_pack [OF b(2) [unfolded ethernet_buffer_def], of "[]"] by (simp add: ethernet_fmt_def)
  then show "ethernet_parser frame = Inr (h, rest)"
    using b(1,3) l by (cases h) (simp add: ethernet_parser_def ethernet_from_buffer_def struct_unpack_def calcsize_def
        ethernet_fmt_def ethernet_ok_def)
qed

section \<open>Properties\<close>

text \<open>
  The ARP parser accepts exactly what the assembler writes: it returns a header
  and the rest of a frame exactly when the header is sane and the frame is its encoding followed by
  that rest. On any other frame it raises an integrity or a sanity error and nothing else.
\<close>

theorem arp_parser_exact:
  "(arp_parser frame = Inr (h, rest) \<longleftrightarrow>
      ip4_ok (ar_spa h) \<and> ip4_ok (ar_tpa h) \<and> arp_validate_sanity h = Inr () \<and>
      (\<exists>bs. arp_buffer h = Inr bs \<and> frame = bs @ rest)) \<and>
   (arp_parser frame \<in> {Inl IntegrityError, Inl SanityError} \<or> (\<exists>h rest. arp_parser frame = Inr (h, rest)))"
proof
  have accepted: "arp_parser frame = Inr (h, rest)"
    if a: "ip4_ok (ar_spa h)" "ip4_ok (ar_tpa h)" "arp_validate_sanity h = Inr ()" "arp_buffer h = Inr bs" "frame = bs @ rest" for bs
  proof -
    have "\<not> arp_is_unknown (ar_oper h)" using a(3) by (auto simp: arp_validate_sanity_def split: if_splits)
    then have "length bs = 28" using arp_buffer_total [OF _ a(1,2)] a(4) by auto
    then show ?thesis using arp_read a by blast
  qed
  show "arp_parser frame = Inr (h, rest) \<longleftrightarrow>
      ip4_ok (ar_spa h) \<and> ip4_ok (ar_tpa h) \<and> arp_validate_sanity h = Inr () \<and>
      (\<exists>bs. arp_buffer h = Inr bs \<and> frame = bs @ rest)"
  proof
    assume "arp_parser frame = Inr (h, rest)"
    note w = arp_written [OF this]
    then show "ip4_ok (ar_spa h) \<and> ip4_ok (ar_tpa h) \<and> arp_validate_sanity h = Inr () \<and>
        (\<exists>bs. arp_buffer h = Inr bs \<and> frame = bs @ rest)"
      by (intro conjI exI [of _ "take 28 frame"]) simp_all
  qed (use accepted in blast)
next
  show "arp_parser frame \<in> {Inl IntegrityError, Inl SanityError} \<or> (\<exists>h rest. arp_parser frame = Inr (h, rest))"
    using arp_parser_errors [of frame] by (cases "arp_parser frame") auto
qed

end
