(* ===== verification/Fib.thy ===== *)
theory Fib
  imports Ip_Network
begin

text \<open>
  \<^verbatim>\<open>runtime/fib.py\<close>: the host routing table. Explicit routes are a list in installation
  order; connected routes are synthesized on every lookup. \<open>lookup\<close> is longest-prefix
  match with ties broken by metric and then by preferring a direct route.

  The interface \<open>prefix_networks\<close> states what longest-prefix match needs of networks: a
  longer prefix that matches the same address denotes a smaller set. It is interpreted on the
  networks of \<^verbatim>\<open>Ip_Network\<close>.
\<close>

section \<open>Routes and tables\<close>

datatype route_scope = UNIVERSE | SITE | LINK | HOST | NOWHERE

datatype route_protocol = UNSPEC | REDIRECT | KERNEL | BOOT | STATIC | RA | DHCP

record route =
  rt_destination :: ip_network
  rt_gateway :: "ip_address option"
  rt_prefsrc :: "ip_address option"
  rt_metric :: int
  rt_scope :: route_scope
  rt_protocol :: route_protocol
  rt_oif :: "int option"

definition route_post_init :: "route \<Rightarrow> route res" where
  "route_post_init r =
     passert (rt_metric r \<ge> 0)
       (passert (case rt_gateway r of None \<Rightarrow> True | Some g \<Rightarrow> ia_version g = nw_version (rt_destination r))
         (passert (case rt_prefsrc r of None \<Rightarrow> True | Some p \<Rightarrow> ia_version p = nw_version (rt_destination r))
           (Inr r)))"

type_synonym route_table = "route list"

definition table_add :: "route \<Rightarrow> route_table \<Rightarrow> route_table" where
  "table_add r t = t @ [r]"

definition table_remove :: "ip_network \<Rightarrow> ip_address option \<Rightarrow> route_table \<Rightarrow> route_table \<times> nat" where
  "table_remove destination gateway t =
     (let t' = filter (\<lambda>r. \<not> (rt_destination r = destination \<and>
                              (gateway = None \<or> rt_gateway r = gateway))) t
      in (t', length t - length t'))"

definition table_remove_by_oif :: "int \<Rightarrow> route_table \<Rightarrow> route_table \<times> nat" where
  "table_remove_by_oif oif t =
     (let t' = filter (\<lambda>r. rt_oif r \<noteq> Some oif) t in (t', length t - length t'))"

definition connected_route :: "ip_network \<times> int \<Rightarrow> route" where
  "connected_route c =
     \<lparr>rt_destination = fst c, rt_gateway = None, rt_prefsrc = None, rt_metric = 0,
      rt_scope = LINK, rt_protocol = KERNEL, rt_oif = Some (snd c)\<rparr>"

text \<open>Python's \<open>max(xs, key=...)\<close>: the first element whose key no other exceeds.\<close>

fun max_by :: "('a \<Rightarrow> 'k::linorder) \<Rightarrow> 'a \<Rightarrow> 'a list \<Rightarrow> 'a" where
  "max_by key best [] = best"
| "max_by key best (x # xs) = max_by key (if key best < key x then x else best) xs"

definition route_key :: "route \<Rightarrow> int \<times> int \<times> bool" where
  "route_key r = (int (network_prefixlen (rt_destination r)), - rt_metric r, rt_gateway r = None)"

definition candidates :: "route_table \<Rightarrow> (ip_network \<times> int) list \<Rightarrow> route list" where
  "candidates t connected = t @ map connected_route connected"

definition lookup :: "ip_address \<Rightarrow> (ip_network \<times> int) list \<Rightarrow> route_table \<Rightarrow> route option" where
  "lookup destination connected t =
     (case filter (\<lambda>r. network_contains (rt_destination r) destination) (candidates t connected) of
        [] \<Rightarrow> None
      | r # rs \<Rightarrow> Some (max_by route_key r rs))"

definition snapshot :: "route_table \<Rightarrow> route list" where
  "snapshot t = t"

section \<open>The interface of networks to routing\<close>

locale prefix_networks =
  fixes ok :: "'n \<Rightarrow> bool" and covers :: "'n \<Rightarrow> 'a \<Rightarrow> bool" and plen :: "'n \<Rightarrow> nat"
  assumes nested: "ok n \<Longrightarrow> ok k \<Longrightarrow> covers n a \<Longrightarrow> covers k a \<Longrightarrow> plen n \<le> plen k \<Longrightarrow>
    covers k b \<Longrightarrow> covers n b"
begin

text \<open>Matching networks of one length cover the same addresses.\<close>

lemma same_length:
  "ok n \<Longrightarrow> ok k \<Longrightarrow> covers n a \<Longrightarrow> covers k a \<Longrightarrow> plen n = plen k \<Longrightarrow> covers n b \<longleftrightarrow> covers k b"
  using nested [of n k a b] nested [of k n a b] by auto

lemma most_specific:
  assumes "\<forall>x \<in> set xs. ok (dest x)" "y \<in> set xs" "covers (dest y) a"
    "\<forall>x \<in> set xs. covers (dest x) a \<longrightarrow> plen (dest x) \<le> plen (dest y)"
  shows "\<forall>x \<in> set xs. covers (dest x) a \<longrightarrow> (\<forall>b. covers (dest y) b \<longrightarrow> covers (dest x) b)"
  using assms nested by blast

end

lemma contains_net:
  "network_contains (net v p a) x \<longleftrightarrow> v = ia_version x \<and> ia_int x \<in> block a (max_prefixlen v - p)"
  by (auto simp: network_contains_def block_def)

interpretation ip_prefix: prefix_networks network_ok network_contains network_prefixlen
proof
  fix n k :: ip_network and x y :: ip_address
  assume ok: "network_ok n" "network_ok k" and c: "network_contains n x" "network_contains k x"
    and le: "network_prefixlen n \<le> network_prefixlen k" and y: "network_contains k y"
  obtain v p a u q b where n: "n = net v p a" "net_ok v p a" and k: "k = net u q b" "net_ok u q b"
    using ok by (auto elim!: network_okE)
  have "p \<le> q" using le n k by simp
  then have "block b (max_prefixlen u - q) \<subseteq> block a (max_prefixlen v - p)"
    using c n k by (intro block_nested [of _ _ _ _ "ia_int x"]) (auto simp: net_ok_def contains_net)
  then show "network_contains n y" using y c by (auto simp: n(1) k(1) contains_net)
qed

lemma contains_subnet_of:
  assumes "network_ok n" "network_contains n a" "network_contains k a"
    "\<forall>b. network_contains n b \<longrightarrow> network_contains k b"
  shows "subnet_of n k"
proof -
  have "net_set n \<subseteq> net_set k"
  proof
    fix x assume "x \<in> net_set n"
    then have "network_contains n \<lparr>ia_version = nw_version n, ia_int = x\<rparr>"
      by (simp add: network_contains_def net_set_def)
    then have "network_contains k \<lparr>ia_version = nw_version n, ia_int = x\<rparr>" using assms(4) by blast
    then show "x \<in> net_set k" by (simp add: network_contains_def net_set_def)
  qed
  then show ?thesis using assms(1-3) by (simp add: subnet_of_iff network_contains_def)
qed

section \<open>The best match\<close>

lemma max_by_mem: "max_by key b xs \<in> insert b (set xs)"
  by (induction xs arbitrary: b) (auto split: if_splits)

lemma max_by_ge: "\<forall>x \<in> insert b (set xs). key x \<le> key (max_by key b xs)"
proof (induction xs arbitrary: b)
  case (Cons x xs)
  from Cons [of "if key b < key x then x else b"] show ?case by (auto split: if_splits)
qed simp

lemma lookup_Some:
  assumes "lookup a conn t = Some r"
  shows "r \<in> set (candidates t conn)" "network_contains (rt_destination r) a"
    "\<forall>s \<in> set (candidates t conn). network_contains (rt_destination s) a \<longrightarrow> route_key s \<le> route_key r"
proof -
  obtain m ms where m: "filter (\<lambda>r. network_contains (rt_destination r) a) (candidates t conn) = m # ms"
    "r = max_by route_key m ms"
    using assms by (auto simp: lookup_def split: list.splits)
  have set: "insert m (set ms) = {s \<in> set (candidates t conn). network_contains (rt_destination s) a}"
    using arg_cong [OF m(1), of set] by auto
  show "r \<in> set (candidates t conn)" "network_contains (rt_destination r) a"
    using max_by_mem [of route_key m ms] set m(2) by auto
  show "\<forall>s \<in> set (candidates t conn). network_contains (rt_destination s) a \<longrightarrow> route_key s \<le> route_key r"
    using max_by_ge [of m ms route_key] set m(2) by auto
qed

lemma lookup_None:
  "lookup a conn t = None \<longleftrightarrow> (\<forall>s \<in> set (candidates t conn). \<not> network_contains (rt_destination s) a)"
  by (auto simp: lookup_def filter_empty_conv split: list.splits) (metis filter_empty_conv list.discI)

section \<open>Properties\<close>

text \<open>
  C37. \<open>lookup\<close> is longest-prefix match: it finds no route exactly when no explicit or
  connected route covers the destination. Otherwise the route it returns covers it, its network
  lies inside the network of every other covering route; among those of the same length
  none has a lower metric, and among those of the same metric it is direct if any is.
\<close>

theorem lookup_longest_prefix:
  assumes "\<forall>s \<in> set (candidates t conn). network_ok (rt_destination s)"
  shows "case lookup a conn t of
     None \<Rightarrow> \<forall>s \<in> set (candidates t conn). \<not> network_contains (rt_destination s) a
   | Some r \<Rightarrow>
       r \<in> set (candidates t conn) \<and> network_contains (rt_destination r) a \<and>
       (\<forall>s \<in> set (candidates t conn). network_contains (rt_destination s) a \<longrightarrow>
          subnet_of (rt_destination r) (rt_destination s) \<and>
          (network_prefixlen (rt_destination s) = network_prefixlen (rt_destination r) \<longrightarrow>
             rt_metric r \<le> rt_metric s \<and>
             (rt_metric s = rt_metric r \<and> rt_gateway s = None \<longrightarrow> rt_gateway r = None)))"
proof (cases "lookup a conn t")
  case None
  then show ?thesis using lookup_None [of a conn t] by (simp del: not_None_eq)
next
  case (Some r)
  note best = lookup_Some [OF Some]
  have key: "route_key s \<le> route_key r"
    if "s \<in> set (candidates t conn)" "network_contains (rt_destination s) a" for s
    using best(3) that by blast
  have inside: "\<forall>s \<in> set (candidates t conn). network_contains (rt_destination s) a \<longrightarrow>
      (\<forall>b. network_contains (rt_destination r) b \<longrightarrow> network_contains (rt_destination s) b)"
    using key by (intro ip_prefix.most_specific [OF assms best(1,2)]) (force simp: route_key_def)
  have sub: "subnet_of (rt_destination r) (rt_destination s)"
    if "s \<in> set (candidates t conn)" "network_contains (rt_destination s) a" for s
    using inside that best(1,2) assms by (intro contains_subnet_of) auto
  show ?thesis using Some best(1,2) key sub by (fastforce simp: route_key_def)
qed

theorem lookup_longest_prefix_witness:
  "\<exists>r. lookup \<lparr>ia_version = IP4, ia_int = 0x0A010203\<rparr> [(net IP4 16 0x0A010000, 2)]
      [\<lparr>rt_destination = net IP4 0 0, rt_gateway = Some \<lparr>ia_version = IP4, ia_int = 0x0A000001\<rparr>,
        rt_prefsrc = None, rt_metric = 0, rt_scope = UNIVERSE, rt_protocol = STATIC, rt_oif = Some 1\<rparr>] = Some r \<and>
    subnet_of (rt_destination r) (net IP4 0 0)"
proof -
  let ?d = "\<lparr>rt_destination = net IP4 0 0, rt_gateway = Some \<lparr>ia_version = IP4, ia_int = 0x0A000001\<rparr>,
    rt_prefsrc = None, rt_metric = 0, rt_scope = UNIVERSE, rt_protocol = STATIC, rt_oif = Some 1\<rparr>"
  let ?a = "\<lparr>ia_version = IP4, ia_int = 0x0A010203\<rparr>" and ?c = "[(net IP4 16 0x0A010000, 2)]"
  have ok: "net_ok IP4 0 0" "net_ok IP4 16 0x0A010000" by (simp_all add: net_ok_def max_prefixlen_def)
  then have cand: "\<forall>s \<in> set (candidates [?d] ?c). network_ok (rt_destination s)"
    by (simp add: candidates_def connected_route_def)
  have in_d: "network_contains (net IP4 0 0) ?a" by (simp add: contains_net block_def max_prefixlen_def)
  then have "lookup ?a ?c [?d] \<noteq> None" unfolding lookup_None by (simp add: candidates_def)
  then show ?thesis using lookup_longest_prefix [OF cand, of ?a] in_d by (auto simp: candidates_def)
qed

text \<open>
  Route removal: removing by output interface leaves exactly the routes with another
  interface, reports how many it took away, and afterwards no lookup
  leads to that interface, unless a connected network still names it.
\<close>

lemma remove_by_oif_unreachable:
  assumes "table_remove_by_oif oif t = (t', n)" "lookup a conn t' = Some r" "oif \<notin> snd ` set conn"
  shows "rt_oif r \<noteq> Some oif \<and> length t = length t' + n \<and>
    (\<forall>s. s \<in> set t' \<longleftrightarrow> s \<in> set t \<and> rt_oif s \<noteq> Some oif)"
proof -
  have t': "t' = filter (\<lambda>r. rt_oif r \<noteq> Some oif) t" "n = length t - length t'"
    using assms(1) by (auto simp: table_remove_by_oif_def Let_def)
  have "r \<in> set (candidates t' conn)" by (rule lookup_Some [OF assms(2)])
  then have "rt_oif r \<noteq> Some oif" using assms(3) by (force simp: candidates_def t'(1) connected_route_def)
  moreover have "length t' \<le> length t" by (simp add: t'(1))
  ultimately show ?thesis by (auto simp: t')
qed

lemma remove_by_oif_unreachable_witness:
  "\<exists>r. lookup \<lparr>ia_version = IP4, ia_int = 5\<rparr> [(net IP4 0 0, 2)]
     (fst (table_remove_by_oif 1 [connected_route (net IP4 0 0, 1)])) = Some r \<and> rt_oif r \<noteq> Some 1"
proof -
  let ?t = "[connected_route (net IP4 0 0, 1)]" and ?a = "\<lparr>ia_version = IP4, ia_int = 5\<rparr>"
  have run: "table_remove_by_oif 1 ?t = ([], 1)" by (simp add: table_remove_by_oif_def connected_route_def)
  have "network_contains (net IP4 0 0) ?a" by (simp add: contains_net block_def max_prefixlen_def)
  then obtain r where r: "lookup ?a [(net IP4 0 0, 2)] [] = Some r"
    by (simp add: lookup_def candidates_def connected_route_def)
  then show ?thesis using remove_by_oif_unreachable [OF run r] run by simp
qed

end
