(* ===== verification/Link_Layer.thy ===== *)
theory Link_Layer
  imports Neighbor Link_Codec Fib
begin

text \<open>
  The link layer of one interface: the Ethernet sender
  (\<^verbatim>\<open>packet_handler__ethernet__tx.py\<close>), the ARP handlers (\<^verbatim>\<open>packet_handler__arp__tx.py\<close>,
  \<^verbatim>\<open>packet_handler__arp__rx.py\<close>), the adapter of the neighbour machine that is the ARP
  cache (\<^verbatim>\<open>arp__cache.py\<close>) and the transmit ring's queue (\<^verbatim>\<open>tx_ring.py\<close>).

  The callbacks of the ARP cache do not look at the cache, so what they do to the rest of the
  interface is a list of effects, performed as soon as the cache operation is over. The IPv6 cache is
  the same machine; its solicitation, which runs through the ICMPv6 sender, is the argument
  \<open>nd_solicit\<close>. The counters are a function from the names the code gives them.
\<close>

section \<open>Frames and the interface\<close>

text \<open>A payload with the addresses the Ethernet sender reads; \<open>'b\<close> is the rest of it.\<close>

datatype 'b eth_payload =
    PayArp arp_header
  | PayIp4 ip_address ip_address 'b
  | PayIp6 ip_address 'b
  | PayRaw ether_type 'b

fun ether_type_from_proto :: "'b eth_payload \<Rightarrow> ether_type" where
  "ether_type_from_proto (PayIp6 dst b) = ETHER_IP6"
| "ether_type_from_proto (PayIp4 src dst b) = ETHER_IP4"
| "ether_type_from_proto (PayArp h) = ETHER_ARP"
| "ether_type_from_proto (PayRaw t b) = t"

record 'b eth_frame =
  fr_header :: ethernet_header
  fr_payload :: "'b eth_payload"

type_synonym if_addr = "ip_address \<times> ip_network"

type_synonym 'b frame_cache = "(ip_address, 'b eth_frame) neighbor_cache"

record 'b link_if =
  li_mac_unicast :: mac
  li_ifindex :: int
  li_ip4_support :: bool
  li_ip4_ifaddr :: "if_addr list"
  li_ip6_ifaddr :: "if_addr list"
  li_ip4_fib :: route_table
  li_ip6_fib :: route_table
  li_arp_cache :: "'b frame_cache"
  li_nd_cache :: "'b frame_cache"
  li_sysctl :: nbr_sysctl
  li_arp_accept :: int
  li_arp_announce :: int
  li_arp_ignore :: int
  li_tx_deque :: "'b eth_frame list"
  li_queue_max_size :: nat
  li_stats :: "string \<Rightarrow> int"

datatype tx_status =
    PASSED__ETHERNET__TO_TX_RING
  | DROPPED__ETHERNET__DST_ARP_CACHE_MISS
  | DROPPED__ETHERNET__DST_ND_CACHE_MISS
  | DROPPED__ETHERNET__DST_NO_GATEWAY_IP4
  | DROPPED__ETHERNET__DST_NO_GATEWAY_IP6
  | DROPPED__ETHERNET__DST_GATEWAY_ARP_CACHE_MISS
  | DROPPED__ETHERNET__DST_GATEWAY_ND_CACHE_MISS
  | DROPPED__ETHERNET__DST_RESOLUTION_FAIL
  | DROPPED__ARP__NO_PROTOCOL_SUPPORT
  | PASSED__IP4__TO_TX_RING
  | DROPPED__IP4__NO_PROTOCOL_SUPPORT
  | DROPPED__IP4__SRC_NOT_OWNED
  | DROPPED__IP4__SRC_MULTICAST
  | DROPPED__IP4__SRC_LIMITED_BROADCAST
  | DROPPED__IP4__SRC_UNSPECIFIED
  | DROPPED__IP4__DST_UNSPECIFIED
  | DROPPED__IP4__MTU_EXCEED_DF
  | DROPPED__IP4__UNKNOWN
  | DROPPED__IP4__DST_BROADCAST_DISALLOWED
  | DROPPED__IP4__LINK_LOCAL_SCOPE_MISMATCH

definition bump :: "string \<Rightarrow> 'b link_if \<Rightarrow> 'b link_if" where
  "bump k st = st\<lparr>li_stats := (li_stats st)(k := li_stats st k + 1)\<rparr>"

definition ip4_unicast :: "'b link_if \<Rightarrow> ip_address list" where
  "ip4_unicast st = map fst (li_ip4_ifaddr st)"

definition ring_enqueue :: "'b eth_frame \<Rightarrow> 'b link_if \<Rightarrow> 'b link_if" where
  "ring_enqueue frame st =
     (if length (li_tx_deque st) \<ge> li_queue_max_size st then bump ''tx_ring__queue_full__drop'' st
      else st\<lparr>li_tx_deque := li_tx_deque st @ [frame]\<rparr>)"

definition set_dst :: "mac \<Rightarrow> 'b eth_frame \<Rightarrow> 'b eth_frame" where
  "set_dst m frame = frame\<lparr>fr_header := (fr_header frame)\<lparr>et_dst := m\<rparr>\<rparr>"

definition send_out_packet :: "'b eth_frame \<Rightarrow> 'b link_if \<Rightarrow> (tx_status \<times> 'b link_if) res" where
  "send_out_packet frame st = Inr (PASSED__ETHERNET__TO_TX_RING, ring_enqueue frame st)"

section \<open>Sending a frame\<close>

text \<open>
  \<open>_phtx_ethernet\<close> up to the lookups: \<open>resolve\<close> is what it does with an IP payload whose
  link-layer destination is not given.
\<close>

definition phtx_ethernet_with ::
    "('b eth_frame \<Rightarrow> 'b link_if \<Rightarrow> (tx_status \<times> 'b link_if) res) \<Rightarrow> mac \<Rightarrow> mac \<Rightarrow> 'b eth_payload \<Rightarrow> 'b link_if \<Rightarrow>
     (tx_status \<times> 'b link_if) res" where
  "phtx_ethernet_with resolve src dst payload st =
     (let st = bump ''ethernet__pre_assemble'' st;
          packet = \<lparr>fr_header = \<lparr>et_dst = dst, et_src = src, et_type = ether_type_from_proto payload\<rparr>, fr_payload = payload\<rparr>;
          (packet, st) =
            (if mac_is_unspecified src
             then (packet\<lparr>fr_header := (fr_header packet)\<lparr>et_src := li_mac_unicast st\<rparr>\<rparr>, bump ''ethernet__src_unspec__fill'' st)
             else (packet, bump ''ethernet__src_spec'' st))
      in if \<not> mac_is_unspecified dst then
           send_out_packet packet (bump ''ethernet__dst_spec__send'' st)
         else case payload of
                PayIp6 _ _ \<Rightarrow> resolve packet st
              | PayIp4 _ _ _ \<Rightarrow> resolve packet st
              | _ \<Rightarrow> Inr (DROPPED__ETHERNET__DST_RESOLUTION_FAIL, bump ''ethernet__dst_unspec__drop'' st))"

definition select_arp_spa :: "'b link_if \<Rightarrow> ip_address \<Rightarrow> ip_address" where
  "select_arp_spa st tpa =
     (if ip4_unicast st = [] then \<lparr>ia_version = IP4, ia_int = 0\<rparr>
      else case (if li_arp_announce st \<in> {1, 2} then find (\<lambda>h. network_contains (snd h) tpa) (li_ip4_ifaddr st) else None) of
             Some h \<Rightarrow> fst h
           | None \<Rightarrow> ip4_unicast st ! 0)"

text \<open>An ARP payload never reaches the lookups of the Ethernet sender.\<close>

definition phtx_arp ::
    "mac \<Rightarrow> mac \<Rightarrow> arp_operation \<Rightarrow> mac \<Rightarrow> ip_address \<Rightarrow> mac \<Rightarrow> ip_address \<Rightarrow> 'b link_if \<Rightarrow> (tx_status \<times> 'b link_if) res" where
  "phtx_arp src dst oper sha spa tha tpa st =
     (let st = bump ''arp__pre_assemble'' st
      in if \<not> li_ip4_support st then
           Inr (DROPPED__ARP__NO_PROTOCOL_SUPPORT, bump ''arp__no_proto_support__drop'' st)
         else bind_res
           (if oper = ARP_REQUEST then Inr (bump ''arp__op_request__send'' st)
            else if oper = ARP_REPLY then Inr (bump ''arp__op_reply__send'' st)
            else Inl ValueError)
           (\<lambda>st. bind_res (arp_assembler oper sha spa tha tpa) (\<lambda>h.
             phtx_ethernet_with (\<lambda>_ st. Inr (DROPPED__ETHERNET__DST_RESOLUTION_FAIL, st)) src dst (PayArp h) st)))"

definition send_arp_reply :: "ip_address \<Rightarrow> mac \<Rightarrow> ip_address \<Rightarrow> 'b link_if \<Rightarrow> 'b link_if res" where
  "send_arp_reply spa tha tpa st =
     bind_res (phtx_arp (li_mac_unicast st) tha ARP_REPLY (li_mac_unicast st) spa tha tpa st) (\<lambda>(_, st). Inr st)"

definition send_arp_request :: "ip_address \<Rightarrow> 'b link_if \<Rightarrow> 'b link_if res" where
  "send_arp_request tpa st =
     bind_res (phtx_arp (li_mac_unicast st) MAC__BROADCAST ARP_REQUEST (li_mac_unicast st) (select_arp_spa st tpa) 0 tpa st)
       (\<lambda>(_, st). Inr st)"

definition send_arp_unicast_request :: "ip_address \<Rightarrow> mac \<Rightarrow> ip_address option \<Rightarrow> 'b link_if \<Rightarrow> 'b link_if res" where
  "send_arp_unicast_request tpa dst spa st =
     bind_res (phtx_arp (li_mac_unicast st) dst ARP_REQUEST (li_mac_unicast st)
         (case spa of Some a \<Rightarrow> a | None \<Rightarrow> select_arp_spa st tpa) 0 tpa st)
       (\<lambda>(_, st). Inr st)"

section \<open>The ARP cache of the interface\<close>

datatype 'b link_effect =
    Arp_Solicit ip_address "mac option"
  | Release "'b eth_frame"

definition solicit_arp :: "(ip_address, 'b eth_frame, 'b link_effect) solicit_cb" where
  "solicit_arp ip4_address cached_mac c = Inr (c, [Arp_Solicit ip4_address cached_mac])"

definition flush_packet :: "('b eth_frame, 'b link_effect) flush_cb" where
  "flush_packet packet mac_address = [Release (set_dst mac_address packet)]"

fun perform :: "'b link_effect \<Rightarrow> 'b link_if \<Rightarrow> 'b link_if res" where
  "perform (Arp_Solicit a None) st = send_arp_request a st"
| "perform (Arp_Solicit a (Some m)) st = send_arp_unicast_request a m None st"
| "perform (Release frame) st = Inr (ring_enqueue frame st)"

fun perform_all :: "'b link_effect list \<Rightarrow> 'b link_if \<Rightarrow> 'b link_if res" where
  "perform_all [] st = Inr st"
| "perform_all (x # xs) st = bind_res (perform x st) (\<lambda>st. perform_all xs st)"

definition arp_resolve :: "real \<Rightarrow> ip_address \<Rightarrow> 'b eth_frame \<Rightarrow> 'b link_if \<Rightarrow> (mac option \<times> 'b link_if) res" where
  "arp_resolve now nexthop packet st =
     bind_res (resolve_or_queue solicit_arp (li_sysctl st) now nexthop packet (li_arp_cache st)) (\<lambda>(found, c, effects).
       bind_res (perform_all effects (st\<lparr>li_arp_cache := c\<rparr>)) (\<lambda>st. Inr (found, st)))"

definition nd_resolve ::
    "(ip_address, 'b eth_frame, 'b link_effect) solicit_cb \<Rightarrow> real \<Rightarrow> ip_address \<Rightarrow> 'b eth_frame \<Rightarrow> 'b link_if \<Rightarrow>
     (mac option \<times> 'b link_if) res" where
  "nd_resolve nd_solicit now nexthop packet st =
     bind_res (resolve_or_queue nd_solicit (li_sysctl st) now nexthop packet (li_nd_cache st)) (\<lambda>(found, c, effects).
       bind_res (perform_all effects (st\<lparr>li_nd_cache := c\<rparr>)) (\<lambda>st. Inr (found, st)))"

text \<open>The tail the four lookups share: send the packet on a hit, count it on a miss.\<close>

definition deliver_or_park ::
    "(mac option \<times> 'b link_if) res \<Rightarrow> 'b eth_frame \<Rightarrow> string \<Rightarrow> string \<Rightarrow> tx_status \<Rightarrow> (tx_status \<times> 'b link_if) res" where
  "deliver_or_park looked_up packet hit miss status =
     bind_res looked_up (\<lambda>(found, st).
       case found of
         Some m \<Rightarrow> send_out_packet (set_dst m packet) (bump hit st)
       | None \<Rightarrow> Inr (status, bump miss st))"

definition connected :: "if_addr list \<Rightarrow> int \<Rightarrow> (ip_network \<times> int) list" where
  "connected ifaddrs ifindex = map (\<lambda>h. (snd h, ifindex)) ifaddrs"

definition phtx_ethernet_ip6 ::
    "(ip_address, 'b eth_frame, 'b link_effect) solicit_cb \<Rightarrow> real \<Rightarrow> 'b eth_frame \<Rightarrow> ip_address \<Rightarrow> 'b link_if \<Rightarrow>
     (tx_status \<times> 'b link_if) res" where
  "phtx_ethernet_ip6 nd_solicit now packet ip6_dst st =
     (let st = bump ''ethernet__dst_unspec__ip6_lookup'' st
      in if ip6_is_multicast ip6_dst then
           bind_res (ip6_multicast_mac ip6_dst) (\<lambda>m.
             send_out_packet (set_dst m packet) (bump ''ethernet__dst_unspec__ip6_lookup__multicast__send'' st))
         else
           case lookup ip6_dst (connected (li_ip6_ifaddr st) (li_ifindex st)) (li_ip6_fib st) of
             None \<Rightarrow> Inr (DROPPED__ETHERNET__DST_NO_GATEWAY_IP6, bump ''ethernet__dst_unspec__ip6_lookup__extnet__no_gw__drop'' st)
           | Some route \<Rightarrow>
               (case rt_gateway route of
                  Some gateway \<Rightarrow>
                    deliver_or_park (nd_resolve nd_solicit now gateway packet st) packet
                      ''ethernet__dst_unspec__ip6_lookup__extnet__gw_nd_cache_hit__send''
                      ''ethernet__dst_unspec__ip6_lookup__extnet__gw_nd_cache_miss__drop''
                      DROPPED__ETHERNET__DST_GATEWAY_ND_CACHE_MISS
                | None \<Rightarrow>
                    deliver_or_park (nd_resolve nd_solicit now ip6_dst packet st) packet
                      ''ethernet__dst_unspec__ip6_lookup__locnet__nd_cache_hit__send''
                      ''ethernet__dst_unspec__ip6_lookup__locnet__nd_cache_miss__drop''
                      DROPPED__ETHERNET__DST_ND_CACHE_MISS))"

definition network_broadcast_for :: "'b link_if \<Rightarrow> ip_address \<Rightarrow> ip_address \<Rightarrow> bool" where
  "network_broadcast_for st ip4_src ip4_dst \<longleftrightarrow>
     list_ex (\<lambda>h. fst h = ip4_src \<and> ip4_dst \<in> {\<lparr>ia_version = nw_version (snd h), ia_int = nw_address (snd h)\<rparr>,
       \<lparr>ia_version = nw_version (snd h), ia_int = network_last (snd h)\<rparr>}) (li_ip4_ifaddr st)"

definition phtx_ethernet_ip4 ::
    "real \<Rightarrow> 'b eth_frame \<Rightarrow> ip_address \<Rightarrow> ip_address \<Rightarrow> 'b link_if \<Rightarrow> (tx_status \<times> 'b link_if) res" where
  "phtx_ethernet_ip4 now packet ip4_src ip4_dst st =
     (let st = bump ''ethernet__dst_unspec__ip4_lookup'' st
      in if ip4_is_multicast ip4_dst then
           bind_res (ip4_multicast_mac ip4_dst) (\<lambda>m.
             send_out_packet (set_dst m packet) (bump ''ethernet__dst_unspec__ip4_lookup__multicast__send'' st))
         else if ip4_is_limited_broadcast ip4_dst then
           send_out_packet (set_dst MAC__BROADCAST packet)
             (bump ''ethernet__dst_unspec__ip4_lookup__limited_broadcast__send'' st)
         else if network_broadcast_for st ip4_src ip4_dst then
           send_out_packet (set_dst MAC__BROADCAST packet)
             (bump ''ethernet__dst_unspec__ip4_lookup__network_broadcast__send'' st)
         else
           case lookup ip4_dst (connected (li_ip4_ifaddr st) (li_ifindex st)) (li_ip4_fib st) of
             None \<Rightarrow> Inr (DROPPED__ETHERNET__DST_NO_GATEWAY_IP4, bump ''ethernet__dst_unspec__ip4_lookup__extnet__no_gw__drop'' st)
           | Some route \<Rightarrow>
               (case rt_gateway route of
                  Some gateway \<Rightarrow>
                    deliver_or_park (arp_resolve now gateway packet st) packet
                      ''ethernet__dst_unspec__ip4_lookup__extnet__gw_arp_cache_hit__send''
                      ''ethernet__dst_unspec__ip4_lookup__extnet__gw_arp_cache_miss__drop''
                      DROPPED__ETHERNET__DST_GATEWAY_ARP_CACHE_MISS
                | None \<Rightarrow>
                    deliver_or_park (arp_resolve now ip4_dst packet st) packet
                      ''ethernet__dst_unspec__ip4_lookup__locnet__arp_cache_hit__send''
                      ''ethernet__dst_unspec__ip4_lookup__locnet__arp_cache_miss__drop''
                      DROPPED__ETHERNET__DST_ARP_CACHE_MISS))"

definition phtx_ethernet ::
    "(ip_address, 'b eth_frame, 'b link_effect) solicit_cb \<Rightarrow> real \<Rightarrow> mac \<Rightarrow> mac \<Rightarrow> 'b eth_payload \<Rightarrow> 'b link_if \<Rightarrow>
     (tx_status \<times> 'b link_if) res" where
  "phtx_ethernet nd_solicit now src dst payload st =
     phtx_ethernet_with
       (\<lambda>packet st. case fr_payload packet of
            PayIp6 ip6_dst _ \<Rightarrow> phtx_ethernet_ip6 nd_solicit now packet ip6_dst st
          | PayIp4 ip4_src ip4_dst _ \<Rightarrow> phtx_ethernet_ip4 now packet ip4_src ip4_dst st
          | _ \<Rightarrow> Inr (DROPPED__ETHERNET__DST_RESOLUTION_FAIL, st))
       src dst payload st"

section \<open>Receiving ARP\<close>

definition on_local_subnet :: "'b link_if \<Rightarrow> ip_address \<Rightarrow> bool" where
  "on_local_subnet st a \<longleftrightarrow> list_ex (\<lambda>h. network_contains (snd h) a) (li_ip4_ifaddr st)"

definition learns :: "'b link_if \<Rightarrow> mac \<Rightarrow> arp_header \<Rightarrow> bool" where
  "learns st eth_dst h \<longleftrightarrow>
     (on_local_subnet st (ar_spa h) \<or> li_arp_accept st = 1) \<and>
     (eth_dst = li_mac_unicast st \<or> mac_is_broadcast eth_dst) \<and> ar_spa h \<notin> set (ip4_unicast st)"

definition update_arp_cache :: "real \<Rightarrow> mac \<Rightarrow> arp_header \<Rightarrow> arp_operation \<Rightarrow> 'b link_if \<Rightarrow> 'b link_if res" where
  "update_arp_cache now eth_dst h operation st =
     (if learns st eth_dst h then
        bind_res
          (if operation = ARP_REQUEST then Inr (bump ''arp__op_request__update_arp_cache'' st)
           else if operation = ARP_REPLY then Inr (bump ''arp__op_reply__update_arp_cache'' st)
           else Inl ValueError)
          (\<lambda>st. case add_entry (Some flush_packet) now (ar_spa h) (ar_sha h) (li_arp_cache st) of
                   (c, effects) \<Rightarrow> perform_all effects (st\<lparr>li_arp_cache := c\<rparr>))
      else Inr st)"

definition should_reply :: "'b link_if \<Rightarrow> arp_header \<Rightarrow> bool" where
  "should_reply st h \<longleftrightarrow>
     (if li_arp_ignore st = 8 then False
      else \<not> (li_arp_ignore st = 2 \<and> \<not> (ip_is_unspecified (ar_spa h) \<or> on_local_subnet st (ar_spa h))))"

text \<open>The request handler up to the update of the cache: the reply, when there is one.\<close>

definition answer_request :: "mac \<Rightarrow> arp_header \<Rightarrow> 'b link_if \<Rightarrow> 'b link_if res" where
  "answer_request eth_dst h st =
     (if mac_is_broadcast eth_dst \<and> ip4_is_unicast (ar_spa h) \<and> ar_spa h = ar_tpa h \<and> mac_is_unspecified (ar_tha h) then
        Inr (bump ''arp__op_request__gratuitous'' st)
      else if ar_tpa h \<notin> set (ip4_unicast st) then Inr (bump ''arp__op_request__tpa_unknown'' st)
      else
        let st = (if ip_is_unspecified (ar_spa h) then bump ''arp__op_request__probe'' st
                  else if ip4_is_unicast (ar_spa h) then bump ''arp__op_request__tpa_stack'' st else st)
        in if should_reply st h \<and> (mac_is_broadcast eth_dst \<or> eth_dst = li_mac_unicast st) then
             send_arp_reply (ar_tpa h) (ar_sha h) (ar_spa h) (bump ''arp__op_request__respond'' st)
           else Inr st)"

definition phrx_arp__request :: "real \<Rightarrow> mac \<Rightarrow> arp_header \<Rightarrow> 'b link_if \<Rightarrow> 'b link_if res" where
  "phrx_arp__request now eth_dst h st =
     (let st = bump ''arp__op_request'' st
      in if (ar_spa h \<in> set (ip4_unicast st) \<or> ip_is_unspecified (ar_spa h)) \<and> ar_sha h = li_mac_unicast st then
           Inr (bump ''arp__op_request__looped__drop'' st)
         else bind_res (answer_request eth_dst h st) (\<lambda>st. update_arp_cache now eth_dst h ARP_REQUEST st))"

definition phrx_arp__reply :: "real \<Rightarrow> mac \<Rightarrow> arp_header \<Rightarrow> 'b link_if \<Rightarrow> 'b link_if res" where
  "phrx_arp__reply now eth_dst h st =
     (let st = bump ''arp__op_reply'' st
      in if ar_spa h \<in> set (ip4_unicast st) \<and> ar_sha h = li_mac_unicast st then
           Inr (bump ''arp__op_reply__looped__drop'' st)
         else
           let st = (if eth_dst = li_mac_unicast st then bump ''arp__op_reply__direct'' st
                     else if mac_is_broadcast eth_dst \<and> ar_spa h = ar_tpa h \<and> mac_is_unspecified (ar_tha h)
                     then bump ''arp__op_reply__gratuitous'' st else st)
           in update_arp_cache now eth_dst h ARP_REPLY st)"

definition phrx_arp :: "real \<Rightarrow> mac \<Rightarrow> bytes \<Rightarrow> 'b link_if \<Rightarrow> 'b link_if res" where
  "phrx_arp now eth_dst frame st =
     (let st = bump ''arp__pre_parse'' st
      in case arp_parser frame of
           Inl e \<Rightarrow> if e \<in> {IntegrityError, SanityError} then Inr (bump ''arp__failed_parse__drop'' st) else Inl e
         | Inr (h, _) \<Rightarrow>
             if ar_oper h = ARP_REQUEST then phrx_arp__request now eth_dst h st
             else if ar_oper h = ARP_REPLY then phrx_arp__reply now eth_dst h st
             else Inr (bump ''arp__op_unknown__drop'' st))"

text \<open>One maintenance pass of the ARP cache.\<close>

definition arp_maintenance :: "real \<Rightarrow> 'b link_if \<Rightarrow> 'b link_if res" where
  "arp_maintenance now st =
     bind_res (run_maintenance_once solicit_arp (li_sysctl st) now (li_arp_cache st)) (\<lambda>(c, effects).
       perform_all effects (st\<lparr>li_arp_cache := c\<rparr>))"

section \<open>The ARP cache as a neighbour machine\<close>

interpretation arp_nud: inert_hook solicit_arp "\<lambda>a cached. [Arp_Solicit a cached]"
  by unfold_locales (simp add: solicit_arp_def)

text \<open>The machine of the ARP cache: its callbacks are those of the interface.\<close>

abbreviation arp_apply ::
    "nbr_sysctl \<Rightarrow> (ip_address, 'b eth_frame) nbr_op \<Rightarrow> 'b frame_cache \<Rightarrow> ('b frame_cache \<times> 'b link_effect list) res" where
  "arp_apply sy op c \<equiv> nbr_apply solicit_arp (Some flush_packet) sy op c"

abbreviation arp_run ::
    "nbr_sysctl \<Rightarrow> (ip_address, 'b eth_frame) nbr_op list \<Rightarrow> 'b frame_cache \<Rightarrow> ('b frame_cache \<times> 'b link_effect list) res" where
  "arp_run sy ops c \<equiv> nbr_run solicit_arp (Some flush_packet) sy ops c"

text \<open>Readings of the clock at least \<open>gap\<close> apart, the first of them so far from \<open>t\<close>.\<close>

fun spaced :: "real \<Rightarrow> real \<Rightarrow> real list \<Rightarrow> bool" where
  "spaced gap t [] = True"
| "spaced gap t (u # us) = (t + gap \<le> u \<and> spaced gap u us)"

definition requests_for :: "ip_address \<Rightarrow> 'b link_effect list \<Rightarrow> nat" where
  "requests_for a sent = length (filter (\<lambda>x. \<exists>m. x = Arp_Solicit a m) sent)"

lemma requests_for_append [simp]: "requests_for a (xs @ ys) = requests_for a xs + requests_for a ys"
  by (simp add: requests_for_def)

lemma requests_for_tick:
  "distinct as \<Longrightarrow>
   requests_for a (concat (map (\<lambda>b. solicited (\<lambda>a cached. [Arp_Solicit a cached]) sy ov now b (g b)) as)) =
     (if a \<in> set as \<and> (\<exists>e. g a = Some e \<and> snd (maintain_entry sy ov now e) \<noteq> None) then 1 else 0)"
  by (induction as) (auto simp: requests_for_def solicited_def split: option.splits)

lemma arp_tick:
  fixes c :: "'b frame_cache"
  assumes "sysctl_valid sy" "cache_ok sy c" "cache_size c \<le> sy_gc_thresh1 sy"
  shows "\<exists>c' sent. arp_apply sy (Tick t) c = Inr (c', sent) \<and> cache_ok sy c' \<and> cache_size c' \<le> sy_gc_thresh1 sy \<and>
    (\<forall>a. get_entry a c' = map_option (\<lambda>e. fst (maintain_entry sy (nb_reachable_time_override c) t e)) (get_entry a c)) \<and>
    (\<forall>a. requests_for a sent =
      (if \<exists>e. get_entry a c = Some e \<and> snd (maintain_entry sy (nb_reachable_time_override c) t e) \<noteq> None then 1 else 0))"
proof -
  let ?sent = "concat (map (\<lambda>b. solicited (\<lambda>a cached. [Arp_Solicit a cached]) sy (nb_reachable_time_override c) t b (get_entry b c))
    (map fst (nb_entries c))) :: 'b link_effect list"
  obtain c' where c': "run_maintenance_once solicit_arp sy t c = Inr (c', ?sent)"
    "\<forall>a. get_entry a c' = map_option (\<lambda>e. fst (maintain_entry sy (nb_reachable_time_override c) t e)) (get_entry a c)"
    "cache_ok sy c'" "cache_size c' = cache_size c"
    using arp_nud.small_tick [OF assms, of t] by blast
  have d: "distinct (map fst (nb_entries c))" using assms(2) by (simp add: cache_ok_def)
  have key: "a \<in> set (map fst (nb_entries c))" if "get_entry a c = Some e" for a e
    using that by (force simp: get_entry_def dest: map_of_SomeD)
  have "requests_for a ?sent =
      (if \<exists>e. get_entry a c = Some e \<and> snd (maintain_entry sy (nb_reachable_time_override c) t e) \<noteq> None then 1 else 0)" for a
    using key by (subst requests_for_tick [OF d]) auto
  then show ?thesis using c' assms(3) by (intro exI [of _ c'] exI [of _ ?sent]) (simp del: map_map)
qed

lemma failed_stays:
  assumes valid: "sysctl_valid sy"
  shows "cache_ok sy c \<Longrightarrow> cache_size c \<le> sy_gc_thresh1 sy \<Longrightarrow> nud_at c a = Some NUD_FAILED \<Longrightarrow>
    \<exists>c' sent. arp_run sy (map Tick ts) c = Inr (c', sent) \<and> nud_at c' a = Some NUD_FAILED \<and> requests_for a sent = 0"
proof (induction ts arbitrary: c)
  case (Cons t ts)
  obtain e where e: "get_entry a c = Some e" "ne_state e = NUD_FAILED" using Cons.prems(3) by (auto simp: nud_at_def)
  obtain c1 s1 where c1: "arp_apply sy (Tick t) c = Inr (c1, s1)" "cache_ok sy c1" "cache_size c1 \<le> sy_gc_thresh1 sy"
    "nud_at c1 a = Some NUD_FAILED" "requests_for a s1 = 0"
    using arp_tick [OF valid Cons.prems(1,2), of t] e by (auto simp: nud_at_def maintain_failed)
  then show ?case using Cons.IH [OF c1(2-4)] by (auto simp del: bind_res_eq_Inr nbr_apply.simps)
qed (simp add: requests_for_def)

lemma gives_up:
  assumes valid: "sysctl_valid sy"
  shows "cache_ok sy c \<Longrightarrow> cache_size c \<le> sy_gc_thresh1 sy \<Longrightarrow> get_entry a c = Some e \<Longrightarrow> ne_state e = NUD_INCOMPLETE \<Longrightarrow>
    spaced (real_of_int (sy_retrans_timer sy)) (ne_state_changed_at e) ts \<Longrightarrow>
    sy_max_multicast_solicit sy - ne_probe_count e < int (length ts) \<Longrightarrow>
    \<exists>c' sent. arp_run sy (map Tick ts) c = Inr (c', sent) \<and> nud_at c' a = Some NUD_FAILED \<and>
      int (requests_for a sent) = sy_max_multicast_solicit sy - ne_probe_count e"
proof (induction ts arbitrary: c e)
  case Nil
  have "ne_probe_count e \<le> sy_max_multicast_solicit sy"
    using cache_okD [OF Nil.prems(1,3)] Nil.prems(4) by (simp add: entry_ok_def)
  then show ?case using Nil.prems(6) by simp
next
  case (Cons t ts)
  have ok: "entry_ok sy e" and probe: "ne_probe_count e \<le> sy_max_multicast_solicit sy"
    using cache_okD [OF Cons.prems(1,3)] Cons.prems(4) by (auto simp: entry_ok_def)
  have age: "real_of_int (sy_retrans_timer sy) \<le> t - ne_state_changed_at e" using Cons.prems(5) by simp
  note m = maintain_incomplete [OF ok Cons.prems(4) age]
  obtain c1 s1 where c1: "arp_apply sy (Tick t) c = Inr (c1, s1)" "cache_ok sy c1" "cache_size c1 \<le> sy_gc_thresh1 sy"
    "get_entry a c1 = Some (fst (maintain_entry sy (nb_reachable_time_override c) t e))"
    "requests_for a s1 = (if snd (maintain_entry sy (nb_reachable_time_override c) t e) \<noteq> None then 1 else 0)"
    using arp_tick [OF valid Cons.prems(1,2), of t] Cons.prems(3) by auto
  show ?case
  proof (cases "ne_probe_count e = sy_max_multicast_solicit sy")
    case True
    have "nud_at c1 a = Some NUD_FAILED" using c1(4) m True by (simp add: nud_at_def fail_entry_def transition_def)
    then show ?thesis using failed_stays [OF valid c1(2,3), of a ts] c1(1,5) m True
      by (auto simp del: bind_res_eq_Inr nbr_apply.simps)
  next
    case False
    let ?e = "e\<lparr>ne_probe_count := ne_probe_count e + 1, ne_state_changed_at := t\<rparr>"
    have g: "get_entry a c1 = Some ?e" "requests_for a s1 = 1" using c1(4,5) m False by auto
    obtain c2 s2 where "arp_run sy (map Tick ts) c1 = Inr (c2, s2)" "nud_at c2 a = Some NUD_FAILED"
      "int (requests_for a s2) = sy_max_multicast_solicit sy - ne_probe_count ?e"
      using Cons.IH [OF c1(2,3) g(1)] Cons.prems by auto
    then show ?thesis using c1(1) g(2) by (auto simp del: bind_res_eq_Inr nbr_apply.simps)
  qed
qed

end
