(* ===== verification/Link_Delivery.thy ===== *)
theory Link_Delivery
  imports Link_Layer
begin

text \<open>
  What the link layer promises its callers: the fate of every frame handed to the Ethernet sender,
  the delivery of the packets that wait for an ARP answer, what a received ARP packet may change, and
  the behaviour of the ARP cache over time.
\<close>

section \<open>Counters and the ring\<close>

lemma bump_fields [simp]:
  "li_mac_unicast (bump k st) = li_mac_unicast st" "li_ifindex (bump k st) = li_ifindex st"
  "li_ip4_support (bump k st) = li_ip4_support st" "li_ip4_ifaddr (bump k st) = li_ip4_ifaddr st"
  "li_ip6_ifaddr (bump k st) = li_ip6_ifaddr st" "li_ip4_fib (bump k st) = li_ip4_fib st"
  "li_ip6_fib (bump k st) = li_ip6_fib st" "li_arp_cache (bump k st) = li_arp_cache st"
  "li_nd_cache (bump k st) = li_nd_cache st" "li_sysctl (bump k st) = li_sysctl st"
  "li_arp_accept (bump k st) = li_arp_accept st" "li_arp_announce (bump k st) = li_arp_announce st"
  "li_arp_ignore (bump k st) = li_arp_ignore st" "li_tx_deque (bump k st) = li_tx_deque st"
  "li_queue_max_size (bump k st) = li_queue_max_size st"
  by (simp_all add: bump_def)

lemma ring_fields [simp]:
  "li_mac_unicast (ring_enqueue f st) = li_mac_unicast st" "li_ifindex (ring_enqueue f st) = li_ifindex st"
  "li_ip4_support (ring_enqueue f st) = li_ip4_support st" "li_ip4_ifaddr (ring_enqueue f st) = li_ip4_ifaddr st"
  "li_ip6_ifaddr (ring_enqueue f st) = li_ip6_ifaddr st" "li_ip4_fib (ring_enqueue f st) = li_ip4_fib st"
  "li_ip6_fib (ring_enqueue f st) = li_ip6_fib st" "li_arp_cache (ring_enqueue f st) = li_arp_cache st"
  "li_nd_cache (ring_enqueue f st) = li_nd_cache st" "li_sysctl (ring_enqueue f st) = li_sysctl st"
  "li_arp_accept (ring_enqueue f st) = li_arp_accept st" "li_arp_announce (ring_enqueue f st) = li_arp_announce st"
  "li_arp_ignore (ring_enqueue f st) = li_arp_ignore st"
  "li_queue_max_size (ring_enqueue f st) = li_queue_max_size st"
  by (simp_all add: ring_enqueue_def)

lemma ring_deque:
  "li_tx_deque (ring_enqueue f st) =
     (if length (li_tx_deque st) < li_queue_max_size st then li_tx_deque st @ [f] else li_tx_deque st)"
  by (simp add: ring_enqueue_def)

text \<open>Everything but the counters, the ring and the two caches.\<close>

definition same_config :: "'b link_if \<Rightarrow> 'b link_if \<Rightarrow> bool" where
  "same_config st st' \<longleftrightarrow>
     li_mac_unicast st' = li_mac_unicast st \<and> li_ifindex st' = li_ifindex st \<and> li_ip4_support st' = li_ip4_support st \<and>
     li_ip4_ifaddr st' = li_ip4_ifaddr st \<and> li_ip6_ifaddr st' = li_ip6_ifaddr st \<and> li_ip4_fib st' = li_ip4_fib st \<and>
     li_ip6_fib st' = li_ip6_fib st \<and> li_sysctl st' = li_sysctl st \<and> li_arp_accept st' = li_arp_accept st \<and>
     li_arp_announce st' = li_arp_announce st \<and> li_arp_ignore st' = li_arp_ignore st \<and>
     li_queue_max_size st' = li_queue_max_size st"

lemma same_config_simps [simp]:
  "same_config st st" "same_config st (bump k st') = same_config st st'"
  "same_config st (ring_enqueue f st') = same_config st st'"
  "same_config st (st'\<lparr>li_arp_cache := c\<rparr>) = same_config st st'" "same_config st (st'\<lparr>li_nd_cache := c\<rparr>) = same_config st st'"
  by (simp_all add: same_config_def)

lemma same_config_trans: "same_config a b \<Longrightarrow> same_config b c \<Longrightarrow> same_config a c"
  by (simp add: same_config_def)

lemma same_config_views:
  assumes "same_config st st'"
  shows "ip4_unicast st' = ip4_unicast st" "on_local_subnet st' a = on_local_subnet st a"
    "network_broadcast_for st' s d = network_broadcast_for st s d" "learns st' m h = learns st m h"
    "should_reply st' h = should_reply st h" "select_arp_spa st' a = select_arp_spa st a"
  using assms by (simp_all add: same_config_def ip4_unicast_def on_local_subnet_def network_broadcast_for_def learns_def
      should_reply_def select_arp_spa_def split: option.split)

section \<open>Sending ARP\<close>

definition arp_frame :: "'b link_if \<Rightarrow> mac \<Rightarrow> arp_operation \<Rightarrow> ip_address \<Rightarrow> mac \<Rightarrow> ip_address \<Rightarrow> 'b eth_frame" where
  "arp_frame st dst oper spa tha tpa =
     \<lparr>fr_header = \<lparr>et_dst = dst, et_src = li_mac_unicast st, et_type = ETHER_ARP\<rparr>,
      fr_payload = PayArp \<lparr>ar_oper = oper, ar_sha = li_mac_unicast st, ar_spa = spa, ar_tha = tha, ar_tpa = tpa\<rparr>\<rparr>"

text \<open>An interface without IPv4 sends no ARP; a packet to a given address goes to the ring.\<close>

lemma phtx_arp_run:
  assumes "oper \<in> {ARP_REQUEST, ARP_REPLY}"
  shows "\<exists>status st'. phtx_arp (li_mac_unicast st) dst oper (li_mac_unicast st) spa tha tpa st = Inr (status, st') \<and>
    same_config st st' \<and> li_arp_cache st' = li_arp_cache st \<and> li_nd_cache st' = li_nd_cache st \<and>
    li_tx_deque st' = (if li_ip4_support st \<and> \<not> mac_is_unspecified dst
      then li_tx_deque (ring_enqueue (arp_frame st dst oper spa tha tpa) st) else li_tx_deque st)"
  using assms
  by (auto simp: phtx_arp_def arp_assembler_def phtx_ethernet_with_def send_out_packet_def arp_frame_def ring_deque Let_def
      split: prod.splits)

text \<open>The frames an effect puts on the ring, as far as there is room.\<close>

fun effect_frames :: "'b link_if \<Rightarrow> 'b link_effect \<Rightarrow> 'b eth_frame list" where
  "effect_frames st (Arp_Solicit a cached) =
     (let dst = (case cached of None \<Rightarrow> MAC__BROADCAST | Some m \<Rightarrow> m)
      in if li_ip4_support st \<and> \<not> mac_is_unspecified dst
         then [arp_frame st dst ARP_REQUEST (select_arp_spa st a) 0 a] else [])"
| "effect_frames st (Release f) = [f]"

definition ring_with :: "'b link_if \<Rightarrow> 'b eth_frame list \<Rightarrow> 'b eth_frame list" where
  "ring_with st fs = li_tx_deque st @ take (li_queue_max_size st - length (li_tx_deque st)) fs"

lemma ring_with_Nil [simp]: "ring_with st [] = li_tx_deque st"
  by (simp add: ring_with_def)

lemma ring_with_one: "li_tx_deque (ring_enqueue f st) = ring_with st [f]"
  by (simp add: ring_deque ring_with_def)

lemma effect_frames_config: "same_config st st' \<Longrightarrow> effect_frames st' x = effect_frames st x"
  by (cases x) (auto simp: arp_frame_def same_config_views(6) same_config_def Let_def)

definition performed :: "'b link_if \<Rightarrow> 'b eth_frame list \<Rightarrow> 'b link_if \<Rightarrow> bool" where
  "performed st fs st' \<longleftrightarrow> same_config st st' \<and> li_arp_cache st' = li_arp_cache st \<and> li_nd_cache st' = li_nd_cache st \<and>
     li_tx_deque st' = ring_with st fs"

lemma perform_run: "\<exists>st'. perform x st = Inr st' \<and> performed st (effect_frames st x) st'"
proof (cases x)
  case (Arp_Solicit a cached)
  let ?dst = "case cached of None \<Rightarrow> MAC__BROADCAST | Some m \<Rightarrow> m"
  obtain status st' where r: "phtx_arp (li_mac_unicast st) ?dst ARP_REQUEST (li_mac_unicast st) (select_arp_spa st a) 0 a st =
      Inr (status, st')" "same_config st st'" "li_arp_cache st' = li_arp_cache st" "li_nd_cache st' = li_nd_cache st"
    "li_tx_deque st' = (if li_ip4_support st \<and> \<not> mac_is_unspecified ?dst
      then li_tx_deque (ring_enqueue (arp_frame st ?dst ARP_REQUEST (select_arp_spa st a) 0 a) st) else li_tx_deque st)"
    using phtx_arp_run [of ARP_REQUEST st ?dst "select_arp_spa st a" 0 a] by auto
  then show ?thesis
    by (cases cached) (auto simp: Arp_Solicit send_arp_request_def send_arp_unicast_request_def performed_def ring_with_one
        simp del: bind_res_eq_Inr)
qed (simp add: performed_def ring_with_one)

lemma room_left: "m - (n + min a (m - n)) = m - (n + a)" for m n a :: nat
  by (simp add: min_def)

lemma performed_trans:
  "performed st fs st1 \<Longrightarrow> performed st1 gs st2 \<Longrightarrow> performed st (fs @ gs) st2"
  using same_config_trans [of st st1 st2] by (auto simp: performed_def ring_with_def same_config_def room_left)

lemma perform_all_run: "\<exists>st'. perform_all xs st = Inr st' \<and> performed st (concat (map (effect_frames st) xs)) st'"
proof (induction xs arbitrary: st)
  case (Cons x xs)
  obtain st1 where s1: "perform x st = Inr st1" "performed st (effect_frames st x) st1" using perform_run by blast
  have "effect_frames st1 = effect_frames st"
    using s1(2) by (intro ext effect_frames_config) (simp add: performed_def)
  then obtain st2 where "perform_all xs st1 = Inr st2" "performed st1 (concat (map (effect_frames st) xs)) st2"
    using Cons.IH [of st1] by auto
  then show ?case using s1 performed_trans [OF s1(2)] by auto
qed (simp add: performed_def)

section \<open>Sending IPv4 packets\<close>

definition ip4_frame :: "'b link_if \<Rightarrow> ip_address \<Rightarrow> ip_address \<Rightarrow> 'b \<Rightarrow> 'b eth_frame" where
  "ip4_frame st src dst b =
     \<lparr>fr_header = \<lparr>et_dst = 0, et_src = li_mac_unicast st, et_type = ETHER_IP4\<rparr>, fr_payload = PayIp4 src dst b\<rparr>"

text \<open>A destination that the routing table decides about, and the neighbour its packets go to.\<close>

definition routed4 :: "'b link_if \<Rightarrow> ip_address \<Rightarrow> ip_address \<Rightarrow> bool" where
  "routed4 st src dst \<longleftrightarrow> \<not> ip4_is_multicast dst \<and> \<not> ip4_is_limited_broadcast dst \<and> \<not> network_broadcast_for st src dst"

definition next_hop4 :: "'b link_if \<Rightarrow> ip_address \<Rightarrow> ip_address option" where
  "next_hop4 st dst =
     map_option (\<lambda>route. case rt_gateway route of Some g \<Rightarrow> g | None \<Rightarrow> dst)
       (lookup dst (connected (li_ip4_ifaddr st) (li_ifindex st)) (li_ip4_fib st))"

definition arp_request_for :: "'b link_if \<Rightarrow> ip_address \<Rightarrow> 'b eth_frame list" where
  "arp_request_for st a = effect_frames st (Arp_Solicit a None)"

definition unresolved :: "'b frame_cache \<Rightarrow> ip_address \<Rightarrow> bool" where
  "unresolved c a \<longleftrightarrow> nud_at c a \<in> {None, Some NUD_FAILED}"

lemma arp_resolve_run:
  assumes "sysctl_valid (li_sysctl st)" "cache_ok (li_sysctl st) (li_arp_cache st)"
  shows "\<exists>st'. arp_resolve now g p st = Inr (ne_mac_address (sent_entry (li_sysctl st) now g p (get_entry g (li_arp_cache st))), st') \<and>
    same_config st st' \<and> li_nd_cache st' = li_nd_cache st \<and>
    li_arp_cache st' = put_entry g (sent_entry (li_sysctl st) now g p (get_entry g (li_arp_cache st))) (li_arp_cache st) \<and>
    li_tx_deque st' = ring_with st (if unresolved (li_arp_cache st) g then arp_request_for st g else [])"
proof -
  let ?e = "sent_entry (li_sysctl st) now g p (get_entry g (li_arp_cache st))"
  let ?c = "put_entry g ?e (li_arp_cache st)"
  let ?fx = "if unresolved (li_arp_cache st) g then [Arp_Solicit g None] else [] :: 'a link_effect list"
  have r: "resolve_or_queue solicit_arp (li_sysctl st) now g p (li_arp_cache st) = Inr (ne_mac_address ?e, ?c, ?fx)"
    using arp_nud.resolve_exact [OF assms, of now g p] by (simp add: unresolved_def)
  obtain st' where p: "perform_all ?fx (st\<lparr>li_arp_cache := ?c\<rparr>) = Inr st'"
    "performed (st\<lparr>li_arp_cache := ?c\<rparr>) (concat (map (effect_frames (st\<lparr>li_arp_cache := ?c\<rparr>)) ?fx)) st'"
    using perform_all_run by blast
  have "effect_frames (st\<lparr>li_arp_cache := ?c\<rparr>) = effect_frames st" by (intro ext effect_frames_config) simp
  then have "li_tx_deque st' = ring_with st (if unresolved (li_arp_cache st) g then arp_request_for st g else [])"
    using p(2) by (simp add: performed_def arp_request_for_def ring_with_def)
  moreover have "same_config st st'" using p(2) by (simp add: performed_def same_config_def)
  ultimately show ?thesis using r p
    by (intro exI [of _ st']) (simp add: arp_resolve_def performed_def del: bind_res_eq_Inr)
qed

lemma deliver_or_park_run:
  assumes "looked_up = Inr (found, st)"
  shows "\<exists>status st'. deliver_or_park looked_up p hit miss miss_status = Inr (status, st') \<and>
    performed st (case found of None \<Rightarrow> [] | Some m \<Rightarrow> [set_dst m p]) st' \<and>
    (status = (if found = None then miss_status else PASSED__ETHERNET__TO_TX_RING))"
  using assms
  by (cases found) (auto simp: deliver_or_park_def send_out_packet_def performed_def ring_with_def ring_deque same_config_def bump_def)

lemma phtx_ethernet_ip4_payload:
  "phtx_ethernet nd now 0 0 (PayIp4 src dst b) st =
     phtx_ethernet_ip4 now (ip4_frame st src dst b) src dst (bump ''ethernet__src_unspec__fill'' (bump ''ethernet__pre_assemble'' st))"
  by (simp add: phtx_ethernet_def phtx_ethernet_with_def mac_is_unspecified_def ip4_frame_def Let_def)

lemma ring_with_trans:
  "li_tx_deque st1 = ring_with st fs \<Longrightarrow> li_queue_max_size st1 = li_queue_max_size st \<Longrightarrow> ring_with st1 gs = ring_with st (fs @ gs)"
  by (simp add: ring_with_def room_left)

lemma send_ip4_routed:
  assumes valid: "sysctl_valid (li_sysctl st)" and ok: "cache_ok (li_sysctl st) (li_arp_cache st)"
    and dst: "routed4 st src dst" "next_hop4 st dst = Some g"
  shows "\<exists>status st'. phtx_ethernet nd now 0 0 (PayIp4 src dst b) st = Inr (status, st') \<and> same_config st st' \<and>
    li_nd_cache st' = li_nd_cache st \<and>
    (let e = sent_entry (li_sysctl st) now g (ip4_frame st src dst b) (get_entry g (li_arp_cache st)) in
       li_arp_cache st' = put_entry g e (li_arp_cache st) \<and>
       li_tx_deque st' = ring_with st ((if unresolved (li_arp_cache st) g then arp_request_for st g else []) @
         (case ne_mac_address e of None \<Rightarrow> [] | Some m \<Rightarrow> [set_dst m (ip4_frame st src dst b)])) \<and>
       (status = PASSED__ETHERNET__TO_TX_RING) = (ne_mac_address e \<noteq> None))"
proof -
  let ?p = "ip4_frame st src dst b"
  let ?st = "bump ''ethernet__dst_unspec__ip4_lookup'' (bump ''ethernet__src_unspec__fill'' (bump ''ethernet__pre_assemble'' st))"
  have cfg: "same_config st ?st" by simp
  obtain route where route: "lookup dst (connected (li_ip4_ifaddr st) (li_ifindex st)) (li_ip4_fib st) = Some route"
    "g = (case rt_gateway route of Some g \<Rightarrow> g | None \<Rightarrow> dst)"
    using dst(2) by (auto simp: next_hop4_def)
  obtain st1 where r: "arp_resolve now g ?p ?st = Inr (ne_mac_address (sent_entry (li_sysctl st) now g ?p (get_entry g (li_arp_cache st))), st1)"
    "same_config ?st st1" "li_nd_cache st1 = li_nd_cache st"
    "li_arp_cache st1 = put_entry g (sent_entry (li_sysctl st) now g ?p (get_entry g (li_arp_cache st))) (li_arp_cache st)"
    "li_tx_deque st1 = ring_with ?st (if unresolved (li_arp_cache st) g then arp_request_for ?st g else [])"
    using arp_resolve_run [of ?st now g ?p] valid ok by auto
  have ring: "li_tx_deque st1 = ring_with st (if unresolved (li_arp_cache st) g then arp_request_for st g else [])"
    using r(5) effect_frames_config [OF cfg, of "Arp_Solicit g None"] unfolding arp_request_for_def by (simp only: ring_with_def bump_fields)
  obtain hit miss ms where d: "phtx_ethernet nd now 0 0 (PayIp4 src dst b) st = deliver_or_park (arp_resolve now g ?p ?st) ?p hit miss ms"
    "ms \<noteq> PASSED__ETHERNET__TO_TX_RING"
    using dst(1) route same_config_views(3) [OF cfg]
    by (cases "rt_gateway route") (auto simp: phtx_ethernet_ip4_payload phtx_ethernet_ip4_def routed4_def Let_def)
  obtain status st' where s: "deliver_or_park (arp_resolve now g ?p ?st) ?p hit miss ms = Inr (status, st')"
    "performed st1 (case ne_mac_address (sent_entry (li_sysctl st) now g ?p (get_entry g (li_arp_cache st))) of
        None \<Rightarrow> [] | Some m \<Rightarrow> [set_dst m ?p]) st'"
    "status = (if ne_mac_address (sent_entry (li_sysctl st) now g ?p (get_entry g (li_arp_cache st))) = None then ms else PASSED__ETHERNET__TO_TX_RING)"
    using deliver_or_park_run [OF r(1)] by blast
  have "same_config st st1" using same_config_trans [OF cfg r(2)] .
  then have "same_config st st'" "li_queue_max_size st1 = li_queue_max_size st"
    using s(2) same_config_trans by (auto simp: performed_def same_config_def)
  then show ?thesis using d s r(3,4) ring_with_trans [OF ring]
    by (intro exI [of _ status] exI [of _ st']) (auto simp: performed_def Let_def)
qed

section \<open>Packets that wait for an answer\<close>

fun send_all ::
    "(ip_address, 'b eth_frame, 'b link_effect) solicit_cb \<Rightarrow> ip_address \<Rightarrow> ip_address \<Rightarrow> (real \<times> 'b) list \<Rightarrow> 'b link_if \<Rightarrow>
     'b link_if res" where
  "send_all nd src dst [] st = Inr st"
| "send_all nd src dst ((now, b) # ps) st =
     bind_res (phtx_ethernet nd now 0 0 (PayIp4 src dst b) st) (\<lambda>(_, st). send_all nd src dst ps st)"

lemma ip4_frame_config: "same_config st st' \<Longrightarrow> ip4_frame st' src dst b = ip4_frame st src dst b"
  by (simp add: ip4_frame_def same_config_def)

lemma routing_config:
  "same_config st st' \<Longrightarrow> routed4 st' src dst = routed4 st src dst"
  "same_config st st' \<Longrightarrow> next_hop4 st' dst = next_hop4 st dst"
  by (simp_all add: routed4_def next_hop4_def same_config_views) (simp add: same_config_def)

text \<open>One packet to a neighbour without an address: it waits, and the first of them asks.\<close>

definition waiting :: "'b link_if \<Rightarrow> ip_address \<Rightarrow> 'b eth_frame list \<Rightarrow> bool" where
  "waiting st g qs \<longleftrightarrow> (\<exists>e. get_entry g (li_arp_cache st) = Some e \<and> ne_state e = NUD_INCOMPLETE \<and> ne_queued_packets e = qs)"

lemma sent_entry_waits:
  assumes "sysctl_valid sy" "cache_ok sy c" "unresolved c g \<and> qs = [] \<or>
    (\<exists>e. get_entry g c = Some e \<and> ne_state e = NUD_INCOMPLETE \<and> ne_queued_packets e = qs)"
    "int (length qs) < sy_unres_qlen sy"
  shows "ne_mac_address (sent_entry sy now g p (get_entry g c)) = None"
    "ne_state (sent_entry sy now g p (get_entry g c)) = NUD_INCOMPLETE"
    "ne_queued_packets (sent_entry sy now g p (get_entry g c)) = qs @ [p]"
proof -
  have "nat (int (length qs) - sy_unres_qlen sy + 1) = 0" using assms(4) by simp
  then show "ne_mac_address (sent_entry sy now g p (get_entry g c)) = None"
    "ne_state (sent_entry sy now g p (get_entry g c)) = NUD_INCOMPLETE"
    "ne_queued_packets (sent_entry sy now g p (get_entry g c)) = qs @ [p]"
    using assms(3) cache_okD [OF assms(2), of g]
    by (auto simp: sent_entry_def used_entry_def transition_def unresolved_def nud_at_def entry_ok_def Let_def split: option.splits)
qed

lemma send_waits:
  assumes valid: "sysctl_valid (li_sysctl st)" and ok: "cache_ok (li_sysctl st) (li_arp_cache st)"
    and dst: "routed4 st src dst" "next_hop4 st dst = Some g"
    and w: "unresolved (li_arp_cache st) g \<and> qs = [] \<or> waiting st g qs" "int (length qs) < sy_unres_qlen (li_sysctl st)"
  shows "\<exists>status st'. phtx_ethernet nd now 0 0 (PayIp4 src dst b) st = Inr (status, st') \<and> same_config st st' \<and>
    cache_ok (li_sysctl st) (li_arp_cache st') \<and> waiting st' g (qs @ [ip4_frame st src dst b]) \<and>
    li_tx_deque st' = ring_with st (if unresolved (li_arp_cache st) g then arp_request_for st g else [])"
proof -
  let ?e = "sent_entry (li_sysctl st) now g (ip4_frame st src dst b) (get_entry g (li_arp_cache st))"
  have e: "ne_mac_address ?e = None" "ne_state ?e = NUD_INCOMPLETE" "ne_queued_packets ?e = qs @ [ip4_frame st src dst b]"
    using sent_entry_waits [OF valid ok, of g qs now "ip4_frame st src dst b"] w by (auto simp: waiting_def)
  obtain status st' where s: "phtx_ethernet nd now 0 0 (PayIp4 src dst b) st = Inr (status, st')" "same_config st st'"
    "li_arp_cache st' = put_entry g ?e (li_arp_cache st)"
    "li_tx_deque st' = ring_with st (if unresolved (li_arp_cache st) g then arp_request_for st g else [])"
    using send_ip4_routed [OF valid ok dst, of nd now b] e(1) by (auto simp: Let_def)
  have "cache_ok (li_sysctl st) (li_arp_cache st')" using sent_entry_ok [OF valid ok] ok by (auto simp: s(3))
  moreover have "waiting st' g (qs @ [ip4_frame st src dst b])" using e(2,3) by (simp add: waiting_def s(3))
  ultimately show ?thesis using s(1,2,4) by blast
qed

lemma send_all_waits:
  assumes valid: "sysctl_valid (li_sysctl st)"
  shows "cache_ok (li_sysctl st) (li_arp_cache st') \<Longrightarrow> same_config st st' \<Longrightarrow> routed4 st src dst \<Longrightarrow> next_hop4 st dst = Some g \<Longrightarrow>
    waiting st' g qs \<Longrightarrow> int (length qs + length ps) \<le> sy_unres_qlen (li_sysctl st) \<Longrightarrow>
    \<exists>st''. send_all nd src dst ps st' = Inr st'' \<and> same_config st st'' \<and> li_tx_deque st'' = li_tx_deque st' \<and>
      waiting st'' g (qs @ map (\<lambda>(t, b). ip4_frame st src dst b) ps)"
proof (induction ps arbitrary: st' qs)
  case (Cons p ps)
  obtain t b where p: "p = (t, b)" by (cases p)
  note cfg = \<open>same_config st st'\<close>
  have sy: "li_sysctl st' = li_sysctl st" using cfg by (simp add: same_config_def)
  have open_: "\<not> unresolved (li_arp_cache st') g" using Cons.prems(5) by (auto simp: waiting_def unresolved_def nud_at_def)
  obtain status s1 where s1: "phtx_ethernet nd t 0 0 (PayIp4 src dst b) st' = Inr (status, s1)" "same_config st' s1"
    "cache_ok (li_sysctl st') (li_arp_cache s1)" "waiting s1 g (qs @ [ip4_frame st' src dst b])" "li_tx_deque s1 = li_tx_deque st'"
    using send_waits [of st' src dst g qs nd t b] Cons.prems valid open_ sy routing_config [OF cfg] by auto
  obtain st'' where "send_all nd src dst ps s1 = Inr st''" "same_config st st''" "li_tx_deque st'' = li_tx_deque s1"
    "waiting st'' g ((qs @ [ip4_frame st' src dst b]) @ map (\<lambda>(t, b). ip4_frame st src dst b) ps)"
    using Cons.IH [OF _ same_config_trans [OF cfg s1(2)] Cons.prems(3,4) s1(4)] s1(3) sy Cons.prems(6) by auto
  then show ?case using s1(1,5) by (simp add: p ip4_frame_config [OF cfg] del: bind_res_eq_Inr)
qed simp

section \<open>Received ARP packets\<close>

text \<open>The packets an entry hands over when its neighbour becomes known.\<close>

definition released :: "'b link_if \<Rightarrow> arp_header \<Rightarrow> 'b eth_frame list" where
  "released st h =
     (case get_entry (ar_spa h) (li_arp_cache st) of
        Some e \<Rightarrow> if ne_state e = NUD_PERMANENT then [] else map (set_dst (ar_sha h)) (ne_queued_packets e)
      | None \<Rightarrow> [])"

definition looped :: "'b link_if \<Rightarrow> arp_header \<Rightarrow> bool" where
  "looped st h \<longleftrightarrow> ar_sha h = li_mac_unicast st \<and>
     (ar_spa h \<in> set (ip4_unicast st) \<or> ar_oper h = ARP_REQUEST \<and> ip_is_unspecified (ar_spa h))"

definition gratuitous :: "mac \<Rightarrow> arp_header \<Rightarrow> bool" where
  "gratuitous eth_dst h \<longleftrightarrow> mac_is_broadcast eth_dst \<and> ip4_is_unicast (ar_spa h) \<and> ar_spa h = ar_tpa h \<and> mac_is_unspecified (ar_tha h)"

definition answers :: "'b link_if \<Rightarrow> mac \<Rightarrow> arp_header \<Rightarrow> bool" where
  "answers st eth_dst h \<longleftrightarrow> ar_oper h = ARP_REQUEST \<and> \<not> looped st h \<and> \<not> gratuitous eth_dst h \<and>
     ar_tpa h \<in> set (ip4_unicast st) \<and> should_reply st h \<and>
     (mac_is_broadcast eth_dst \<or> eth_dst = li_mac_unicast st) \<and> li_ip4_support st \<and> \<not> mac_is_unspecified (ar_sha h)"

lemma add_entry_release:
  "add_entry (Some flush_packet) now (ar_spa h) (ar_sha h) (li_arp_cache st) = (c, effects) \<Longrightarrow>
   concat (map (effect_frames st') effects) = released st h"
proof -
  have *: "concat (map (effect_frames st') (concat (map (\<lambda>p. flush_packet p m) qs))) = map (set_dst m) qs" for m qs
    by (induction qs) (auto simp: flush_packet_def)
  assume "add_entry (Some flush_packet) now (ar_spa h) (ar_sha h) (li_arp_cache st) = (c, effects)"
  then show ?thesis by (auto simp: add_entry_def released_def * split: option.splits if_splits)
qed

lemma update_arp_cache_run:
  assumes "operation \<in> {ARP_REQUEST, ARP_REPLY}"
  shows "\<exists>st'. update_arp_cache now eth_dst h operation st = Inr st' \<and> same_config st st' \<and> li_nd_cache st' = li_nd_cache st \<and>
    li_arp_cache st' = (if learns st eth_dst h then fst (add_entry (Some flush_packet) now (ar_spa h) (ar_sha h) (li_arp_cache st))
      else li_arp_cache st) \<and>
    li_tx_deque st' = ring_with st (if learns st eth_dst h then released st h else [])"
proof (cases "learns st eth_dst h")
  case True
  obtain c effects where a: "add_entry (Some flush_packet) now (ar_spa h) (ar_sha h) (li_arp_cache st) = (c, effects)" by fastforce
  let ?k = "if operation = ARP_REQUEST then ''arp__op_request__update_arp_cache'' else ''arp__op_reply__update_arp_cache''"
  let ?st = "(bump ?k st)\<lparr>li_arp_cache := c\<rparr>"
  obtain st' where p: "perform_all effects ?st = Inr st'" "performed ?st (concat (map (effect_frames ?st) effects)) st'"
    using perform_all_run by blast
  have "li_tx_deque st' = ring_with st (released st h)"
    using p(2) add_entry_release [OF a] by (simp add: performed_def ring_with_def)
  moreover have "same_config st st'" using p(2) by (auto simp: performed_def same_config_def)
  ultimately show ?thesis using True a p assms
    by (intro exI [of _ st']) (auto simp: update_arp_cache_def performed_def simp del: bind_res_eq_Inr)
qed (simp add: update_arp_cache_def)

definition arp_reply_frame :: "'b link_if \<Rightarrow> arp_header \<Rightarrow> 'b eth_frame" where
  "arp_reply_frame st h = arp_frame st (ar_sha h) ARP_REPLY (ar_tpa h) (ar_sha h) (ar_spa h)"

text \<open>The whole effect of a received ARP packet on the interface.\<close>

definition arp_effect :: "real \<Rightarrow> mac \<Rightarrow> arp_header \<Rightarrow> 'b link_if \<Rightarrow> 'b link_if \<Rightarrow> bool" where
  "arp_effect now eth_dst h st st' \<longleftrightarrow> same_config st st' \<and> li_nd_cache st' = li_nd_cache st \<and>
     li_arp_cache st' =
       (if learns st eth_dst h \<and> \<not> looped st h
        then fst (add_entry (Some flush_packet) now (ar_spa h) (ar_sha h) (li_arp_cache st)) else li_arp_cache st) \<and>
     li_tx_deque st' = ring_with st
       ((if answers st eth_dst h then [arp_reply_frame st h] else []) @
        (if learns st eth_dst h \<and> \<not> looped st h then released st h else []))"

lemma performed_bump [simp]: "performed st fs (bump k st') = performed st fs st'"
  by (simp add: performed_def)

lemma performed_refl [simp]: "performed st [] st"
  by (simp add: performed_def)

lemma send_arp_reply_run:
  "\<exists>st'. send_arp_reply (ar_tpa h) (ar_sha h) (ar_spa h) st = Inr st' \<and>
     performed st (if li_ip4_support st \<and> \<not> mac_is_unspecified (ar_sha h) then [arp_reply_frame st h] else []) st'"
proof -
  obtain status st' where "phtx_arp (li_mac_unicast st) (ar_sha h) ARP_REPLY (li_mac_unicast st) (ar_tpa h) (ar_sha h) (ar_spa h) st =
      Inr (status, st')" "same_config st st'" "li_arp_cache st' = li_arp_cache st" "li_nd_cache st' = li_nd_cache st"
    "li_tx_deque st' = (if li_ip4_support st \<and> \<not> mac_is_unspecified (ar_sha h)
      then li_tx_deque (ring_enqueue (arp_frame st (ar_sha h) ARP_REPLY (ar_tpa h) (ar_sha h) (ar_spa h)) st) else li_tx_deque st)"
    using phtx_arp_run [of ARP_REPLY st "ar_sha h" "ar_tpa h" "ar_sha h" "ar_spa h"] by auto
  then show ?thesis
    by (auto simp: send_arp_reply_def performed_def arp_reply_frame_def ring_with_one simp del: bind_res_eq_Inr)
qed

lemma performed_update:
  assumes p: "performed st fs st1" and u: "operation \<in> {ARP_REQUEST, ARP_REPLY}"
  shows "\<exists>st'. update_arp_cache now eth_dst h operation st1 = Inr st' \<and> same_config st st' \<and> li_nd_cache st' = li_nd_cache st \<and>
    li_arp_cache st' = (if learns st eth_dst h then fst (add_entry (Some flush_packet) now (ar_spa h) (ar_sha h) (li_arp_cache st))
      else li_arp_cache st) \<and>
    li_tx_deque st' = ring_with st (fs @ (if learns st eth_dst h then released st h else []))"
proof -
  have cfg: "same_config st st1" using p by (simp add: performed_def)
  have "li_queue_max_size st1 = li_queue_max_size st" using cfg by (simp add: same_config_def)
  then have ring: "ring_with st1 gs = ring_with st (fs @ gs)" for gs
    using p by (intro ring_with_trans) (simp_all add: performed_def)
  have views: "learns st1 eth_dst h = learns st eth_dst h" "released st1 h = released st h" "li_arp_cache st1 = li_arp_cache st"
    "li_nd_cache st1 = li_nd_cache st"
    using same_config_views(4) [OF cfg] p by (auto simp: released_def performed_def)
  obtain st' where s: "update_arp_cache now eth_dst h operation st1 = Inr st'" "same_config st1 st'" "li_nd_cache st' = li_nd_cache st1"
    "li_arp_cache st' = (if learns st1 eth_dst h then fst (add_entry (Some flush_packet) now (ar_spa h) (ar_sha h) (li_arp_cache st1))
      else li_arp_cache st1)"
    "li_tx_deque st' = ring_with st1 (if learns st1 eth_dst h then released st1 h else [])"
    using update_arp_cache_run [OF u] by blast
  show ?thesis using s(1,3-5) same_config_trans [OF cfg s(2)] by (auto simp: views ring)
qed

lemma bump_views [simp]:
  "ip4_unicast (bump k st) = ip4_unicast st" "learns (bump k st) m h = learns st m h" "should_reply (bump k st) h = should_reply st h"
  "network_broadcast_for (bump k st) src dst = network_broadcast_for st src dst"
  by (simp_all add: ip4_unicast_def learns_def should_reply_def on_local_subnet_def network_broadcast_for_def)

lemma answer_request_run:
  assumes "ar_oper h = ARP_REQUEST" "\<not> looped st h"
  shows "\<exists>st'. answer_request eth_dst h st = Inr st' \<and>
    performed st (if answers st eth_dst h then [arp_reply_frame st h] else []) st'"
proof -
  let ?s = "if ip_is_unspecified (ar_spa h) then bump ''arp__op_request__probe'' st
      else if ip4_is_unicast (ar_spa h) then bump ''arp__op_request__tpa_stack'' st else st"
  let ?r = "bump ''arp__op_request__respond'' ?s"
  obtain st1 where s1: "send_arp_reply (ar_tpa h) (ar_sha h) (ar_spa h) ?r = Inr st1"
    "performed ?r (if li_ip4_support ?r \<and> \<not> mac_is_unspecified (ar_sha h) then [arp_reply_frame ?r h] else []) st1"
    using send_arp_reply_run by blast
  have r: "performed st [] ?r" "li_ip4_support ?r = li_ip4_support st" "arp_reply_frame ?r h = arp_reply_frame st h"
    by (simp_all add: arp_reply_frame_def arp_frame_def)
  have sent: "performed st (if li_ip4_support st \<and> \<not> mac_is_unspecified (ar_sha h) then [arp_reply_frame st h] else []) st1"
    using performed_trans [OF r(1) s1(2)] unfolding r(2,3) by simp
  have views: "should_reply ?s h = should_reply st h" "li_mac_unicast ?s = li_mac_unicast st" by simp_all
  have "answer_request eth_dst h st =
      (if gratuitous eth_dst h then Inr (bump ''arp__op_request__gratuitous'' st)
       else if ar_tpa h \<notin> set (ip4_unicast st) then Inr (bump ''arp__op_request__tpa_unknown'' st)
       else if should_reply st h \<and> (mac_is_broadcast eth_dst \<or> eth_dst = li_mac_unicast st) then Inr st1 else Inr ?s)"
    unfolding answer_request_def gratuitous_def Let_def views s1(1) by simp
  moreover have "performed st [] ?s" by simp
  ultimately show ?thesis using sent assms by (auto simp: answers_def split: if_splits)
qed

lemma request_run:
  assumes "ar_oper h = ARP_REQUEST"
  shows "\<exists>st'. phrx_arp__request now eth_dst h st = Inr st' \<and> arp_effect now eth_dst h st st'"
proof (cases "looped st h")
  case True
  then show ?thesis using assms
    by (auto simp: phrx_arp__request_def looped_def arp_effect_def answers_def Let_def)
next
  case False
  let ?b = "bump ''arp__op_request'' st"
  have b: "looped ?b h = looped st h" "answers ?b eth_dst h = answers st eth_dst h" "arp_reply_frame ?b h = arp_reply_frame st h"
    by (simp_all add: looped_def answers_def arp_reply_frame_def arp_frame_def)
  obtain st1 where a: "answer_request eth_dst h ?b = Inr st1"
    "performed ?b (if answers st eth_dst h then [arp_reply_frame st h] else []) st1"
    using answer_request_run [OF assms, of ?b eth_dst] False unfolding b by blast
  have "performed st (if answers st eth_dst h then [arp_reply_frame st h] else []) st1"
    using performed_trans [of st "[]" ?b, OF _ a(2)] by simp
  then obtain st' where "update_arp_cache now eth_dst h ARP_REQUEST st1 = Inr st'" "same_config st st'" "li_nd_cache st' = li_nd_cache st"
    "li_arp_cache st' = (if learns st eth_dst h then fst (add_entry (Some flush_packet) now (ar_spa h) (ar_sha h) (li_arp_cache st))
      else li_arp_cache st)"
    "li_tx_deque st' = ring_with st ((if answers st eth_dst h then [arp_reply_frame st h] else []) @
      (if learns st eth_dst h then released st h else []))"
    using performed_update [of st _ st1 ARP_REQUEST now eth_dst h] by blast
  then show ?thesis using False assms a(1)
    by (intro exI [of _ st']) (auto simp: phrx_arp__request_def looped_def arp_effect_def Let_def simp del: bind_res_eq_Inr)
qed

lemma reply_run:
  assumes "ar_oper h = ARP_REPLY"
  shows "\<exists>st'. phrx_arp__reply now eth_dst h st = Inr st' \<and> arp_effect now eth_dst h st st'"
proof (cases "looped st h")
  case True
  then show ?thesis using assms
    by (auto simp: phrx_arp__reply_def looped_def arp_effect_def answers_def Let_def)
next
  case False
  let ?b = "bump ''arp__op_reply'' st"
  let ?s = "if eth_dst = li_mac_unicast ?b then bump ''arp__op_reply__direct'' ?b
    else if mac_is_broadcast eth_dst \<and> ar_spa h = ar_tpa h \<and> mac_is_unspecified (ar_tha h)
    then bump ''arp__op_reply__gratuitous'' ?b else ?b"
  have "performed st [] ?s" by simp
  then obtain st' where "update_arp_cache now eth_dst h ARP_REPLY ?s = Inr st'" "same_config st st'" "li_nd_cache st' = li_nd_cache st"
    "li_arp_cache st' = (if learns st eth_dst h then fst (add_entry (Some flush_packet) now (ar_spa h) (ar_sha h) (li_arp_cache st))
      else li_arp_cache st)"
    "li_tx_deque st' = ring_with st ([] @ (if learns st eth_dst h then released st h else []))"
    using performed_update [of st "[]" ?s ARP_REPLY now eth_dst h] by blast
  moreover have nl: "\<not> (ar_spa h \<in> set (ip4_unicast ?b) \<and> ar_sha h = li_mac_unicast ?b)"
    using False by (auto simp: looped_def)
  have "phrx_arp__reply now eth_dst h st = update_arp_cache now eth_dst h ARP_REPLY ?s"
    unfolding phrx_arp__reply_def Let_def if_not_P [OF nl] ..
  ultimately show ?thesis using False assms by (auto simp: arp_effect_def answers_def)
qed

section \<open>A sample interface\<close>

definition sample_own :: ip_address where
  "sample_own = \<lparr>ia_version = IP4, ia_int = 0x0A000001\<rparr>"

definition sample_peer :: ip_address where
  "sample_peer = \<lparr>ia_version = IP4, ia_int = 0x0A000002\<rparr>"

definition sample_if :: "nat link_if" where
  "sample_if = \<lparr>li_mac_unicast = 2, li_ifindex = 1, li_ip4_support = True,
     li_ip4_ifaddr = [(sample_own, net IP4 24 0x0A000000)], li_ip6_ifaddr = [], li_ip4_fib = [], li_ip6_fib = [],
     li_arp_cache = empty_cache, li_nd_cache = empty_cache, li_sysctl = nbr_defaults, li_arp_accept = 0,
     li_arp_announce = 0, li_arp_ignore = 0, li_tx_deque = [], li_queue_max_size = 1000, li_stats = (\<lambda>_. 0)\<rparr>"

definition sample_answer :: arp_header where
  "sample_answer = \<lparr>ar_oper = ARP_REPLY, ar_sha = 6, ar_spa = sample_peer, ar_tha = 2, ar_tpa = sample_own\<rparr>"

definition sample_answer_bytes :: bytes where
  "sample_answer_bytes = (case arp_buffer sample_answer of Inr bs \<Rightarrow> bs | Inl _ \<Rightarrow> [])"

lemma defaults_valid: "sysctl_valid nbr_defaults"
  by (simp add: sysctl_valid_def nbr_defaults_def)

lemma sample_subnet: "network_contains (net IP4 24 0x0A000000) sample_peer"
  by (simp add: contains_net sample_peer_def block_def max_prefixlen_def)

lemma sample_parsed: "arp_parser sample_answer_bytes = Inr (sample_answer, [])"
proof -
  have sane: "arp_validate_sanity sample_answer = Inr ()"
    by (simp add: arp_validate_sanity_def sample_answer_def sample_peer_def sample_own_def mac_classes ip_is_unspecified_def
        ip4_is_loopback_def ip4_is_multicast_def ip4_is_limited_broadcast_def ip_masked_def)
  have ok: "ip4_ok (ar_spa sample_answer)" "ip4_ok (ar_tpa sample_answer)" "\<not> arp_is_unknown (ar_oper sample_answer)"
    by (simp_all add: sample_answer_def sample_peer_def sample_own_def ip4_ok_def)
  obtain bs where b: "arp_buffer sample_answer = Inr bs" "length bs = 28" using arp_buffer_total [OF ok(3,1,2)] by blast
  then show ?thesis using arp_read [OF b ok(1,2) sane, of "[]"] by (simp add: sample_answer_bytes_def)
qed

lemma sample_routing:
  "routed4 sample_if sample_own sample_peer" "next_hop4 sample_if sample_peer = Some sample_peer"
  "learns sample_if 2 sample_answer"
proof -
  have "network_last (net IP4 24 0x0A000000) = 0x0A0000FF" "nw_address (net IP4 24 0x0A000000) = 0x0A000000"
    by (simp_all add: max_prefixlen_def)
  then show "routed4 sample_if sample_own sample_peer"
    by (simp add: routed4_def network_broadcast_for_def sample_if_def sample_peer_def ip4_is_multicast_def
        ip4_is_limited_broadcast_def ip_masked_def)
  show "next_hop4 sample_if sample_peer = Some sample_peer"
    using sample_subnet by (simp add: next_hop4_def lookup_def candidates_def connected_def connected_route_def sample_if_def)
  show "learns sample_if 2 sample_answer"
    using sample_subnet by (simp add: learns_def on_local_subnet_def sample_if_def sample_answer_def ip4_unicast_def
        sample_peer_def sample_own_def)
qed

section \<open>Properties\<close>

lemma phrx_arp_run:
  "\<exists>st'. phrx_arp now eth_dst frame st = Inr st' \<and>
     (case arp_parser frame of Inl e \<Rightarrow> performed st [] st' | Inr (h, rest) \<Rightarrow> arp_effect now eth_dst h st st')"
proof (cases "arp_parser frame")
  case (Inl e)
  then have "e \<in> {IntegrityError, SanityError}" using arp_parser_errors [of frame e] by simp
  then show ?thesis using Inl by (simp add: phrx_arp_def)
next
  case (Inr hr)
  obtain h rest where hr: "hr = (h, rest)" by (cases hr)
  let ?b = "bump ''arp__pre_parse'' st"
  have known: "ar_oper h = ARP_REQUEST \<or> ar_oper h = ARP_REPLY"
    using arp_written [of frame h rest] Inr hr by (cases "ar_oper h") (auto simp: arp_validate_sanity_def)
  have views: "answers ?b eth_dst h = answers st eth_dst h" "looped ?b h = looped st h" "released ?b h = released st h"
    "arp_reply_frame ?b h = arp_reply_frame st h" "ring_with ?b fs = ring_with st fs" "same_config ?b st' = same_config st st'" for fs st'
    by (simp_all add: answers_def looped_def released_def arp_reply_frame_def arp_frame_def ring_with_def same_config_def)
  have "arp_effect now eth_dst h ?b st' = arp_effect now eth_dst h st st'" for st'
    unfolding arp_effect_def views by simp
  then have "\<exists>st'. (if ar_oper h = ARP_REQUEST then phrx_arp__request now eth_dst h ?b else phrx_arp__reply now eth_dst h ?b) = Inr st' \<and>
      arp_effect now eth_dst h st st'"
    using request_run [of h now eth_dst ?b] reply_run [of h now eth_dst ?b] known by auto
  then show ?thesis using known by (auto simp: phrx_arp_def Inr hr)
qed

text \<open>
  C12. A received frame changes an entry of the ARP cache only if it is a sane ARP packet whose
  sender address is that entry's, on a subnet of the interface (or accepted from outside by
  configuration), not one of the interface's own addresses, addressed to the interface or broadcast; a
  static entry never changes, and the entry then holds the unicast link-layer address of the sender.
\<close>

theorem arp_learning_guarded:
  assumes "phrx_arp now eth_dst frame st = Inr st'"
    and "get_entry a (li_arp_cache st') \<noteq> get_entry a (li_arp_cache st)"
  shows "\<exists>h rest e. arp_parser frame = Inr (h, rest) \<and> a = ar_spa h \<and> mac_is_unicast (ar_sha h) \<and>
    (on_local_subnet st a \<or> li_arp_accept st = 1) \<and> (eth_dst = li_mac_unicast st \<or> mac_is_broadcast eth_dst) \<and>
    a \<notin> set (ip4_unicast st) \<and> nud_at (li_arp_cache st) a \<noteq> Some NUD_PERMANENT \<and>
    get_entry a (li_arp_cache st') = Some e \<and> ne_mac_address e = Some (ar_sha h) \<and> ne_state e = NUD_REACHABLE"
proof -
  obtain h rest where p: "arp_parser frame = Inr (h, rest)" and fx: "arp_effect now eth_dst h st st'"
    using phrx_arp_run [of now eth_dst frame st] assms by (auto simp: performed_def split: sum.splits)
  have unicast: "mac_is_unicast (ar_sha h)"
    using arp_written [OF p] unfolding mac_kinds by (auto simp: arp_validate_sanity_def split: if_splits)
  have "learns st eth_dst h" "a = ar_spa h" "nud_at (li_arp_cache st) a \<noteq> Some NUD_PERMANENT"
    "\<exists>e. get_entry a (li_arp_cache st') = Some e \<and> ne_mac_address e = Some (ar_sha h) \<and> ne_state e = NUD_REACHABLE"
    using fx assms(2) by (auto simp: arp_effect_def add_entry_def nud_at_def transition_def split: if_splits option.splits)
  then show ?thesis using p unicast by (auto simp: learns_def)
qed

theorem arp_learning_guarded_witness:
  "\<exists>st' e. phrx_arp 3 2 sample_answer_bytes sample_if = Inr st' \<and> get_entry sample_peer (li_arp_cache st') = Some e \<and>
     mac_is_unicast (ar_sha sample_answer)"
proof -
  obtain st' where r: "phrx_arp 3 2 sample_answer_bytes sample_if = Inr st'" "arp_effect 3 2 sample_answer sample_if st'"
    using phrx_arp_run [of 3 2 sample_answer_bytes sample_if] by (auto simp: sample_parsed)
  have none: "get_entry sample_peer (li_arp_cache sample_if) = None" by (simp add: sample_if_def empty_cache_def get_entry_def)
  have "\<not> looped sample_if sample_answer" by (simp add: looped_def sample_if_def sample_answer_def)
  then have "get_entry sample_peer (li_arp_cache st') \<noteq> get_entry sample_peer (li_arp_cache sample_if)"
    using r(2) none sample_routing(3) by (simp add: arp_effect_def add_entry_def sample_answer_def)
  from arp_learning_guarded [OF r(1) this] show ?thesis using r(1) by (auto simp: sample_parsed)
qed

text \<open>
  C21. Handling a received ARP packet never raises, and the frames it puts on the ring, as far as the ring
  has room, are these. First the reply, exactly when the interface speaks IPv4 and the packet is a request for one of the
  interface's addresses that is neither its own echo nor gratuitous, sent to the interface or broadcast,
  and not suppressed by \<open>arp.ignore\<close> (8 suppresses every reply, 2 those to senders outside the local subnets,
  but not those to the unspecified address of a probe). Then, if the packet is one the interface
  learns from and not its own echo, every packet that waited for the sender, in order, addressed to it.
\<close>

theorem arp_packet_answered:
  assumes "arp_parser frame = Inr (h, rest)"
  shows "\<exists>st'. phrx_arp now eth_dst frame st = Inr st' \<and>
    li_tx_deque st' = ring_with st
      ((if ar_oper h = ARP_REQUEST \<and> ar_tpa h \<in> set (ip4_unicast st) \<and> \<not> looped st h \<and> \<not> gratuitous eth_dst h \<and>
           li_arp_ignore st \<noteq> 8 \<and> (li_arp_ignore st \<noteq> 2 \<or> ip_is_unspecified (ar_spa h) \<or> on_local_subnet st (ar_spa h)) \<and>
           (mac_is_broadcast eth_dst \<or> eth_dst = li_mac_unicast st) \<and> li_ip4_support st
        then [arp_frame st (ar_sha h) ARP_REPLY (ar_tpa h) (ar_sha h) (ar_spa h)] else []) @
       (if learns st eth_dst h \<and> \<not> looped st h then released st h else []))"
proof -
  have "\<not> mac_is_unspecified (ar_sha h)"
    using arp_written [OF assms] by (auto simp: arp_validate_sanity_def split: if_splits)
  then show ?thesis
    using phrx_arp_run [of now eth_dst frame st] assms
    by (auto simp: arp_effect_def answers_def arp_reply_frame_def should_reply_def)
qed

theorem arp_packet_answered_witness:
  "\<exists>st'. phrx_arp 3 2 sample_answer_bytes (sample_if :: nat link_if) = Inr st' \<and> li_tx_deque st' = []"
proof -
  have "released (sample_if :: nat link_if) sample_answer = []" "li_tx_deque (sample_if :: nat link_if) = []"
    "ar_oper sample_answer = ARP_REPLY"
    by (simp_all add: released_def sample_if_def sample_answer_def empty_cache_def get_entry_def)
  then show ?thesis using arp_packet_answered [OF sample_parsed, of 3 2 "sample_if :: nat link_if"] by (auto split: if_splits)
qed

lemma answer_releases:
  assumes "arp_parser answer = Inr (h, rest)" "ar_oper h = ARP_REPLY" "ar_spa h = g" "learns st eth_dst h" "waiting st g qs"
    "length (li_tx_deque st) + length qs \<le> li_queue_max_size st"
  shows "\<exists>st'. phrx_arp now eth_dst answer st = Inr st' \<and> li_tx_deque st' = li_tx_deque st @ map (set_dst (ar_sha h)) qs \<and>
    nud_at (li_arp_cache st') g = Some NUD_REACHABLE"
proof -
  obtain e where e: "get_entry g (li_arp_cache st) = Some e" "ne_state e = NUD_INCOMPLETE" "ne_queued_packets e = qs"
    using assms(5) by (auto simp: waiting_def)
  have "\<not> looped st h" using assms(2,4) by (simp add: looped_def learns_def)
  moreover have "released st h = map (set_dst (ar_sha h)) qs" using e by (simp add: released_def assms(3))
  ultimately show ?thesis
    using phrx_arp_run [of now eth_dst answer st] assms e
    by (auto simp: arp_effect_def answers_def ring_with_def add_entry_def nud_at_def transition_def)
qed

text \<open>
  C10. Nothing that waits for an address is lost: packets sent to a neighbour that is not
  resolved put one broadcast request on the ring, and when its answer comes they all leave, in the order
  they were sent, addressed to the link-layer address of the answer; as long as the queue
  of the neighbour and the ring hold them.
\<close>

theorem waiting_packets_delivered:
  assumes valid: "sysctl_valid (li_sysctl st)" and ok: "cache_ok (li_sysctl st) (li_arp_cache st)" and "li_ip4_support st"
    and dst: "routed4 st src dst" "next_hop4 st dst = Some g" and un: "unresolved (li_arp_cache st) g"
    and ps: "ps \<noteq> []" "int (length ps) \<le> sy_unres_qlen (li_sysctl st)"
    and room: "length (li_tx_deque st) + 1 + length ps \<le> li_queue_max_size st"
    and answer: "arp_parser answer = Inr (h, rest)" "ar_oper h = ARP_REPLY" "ar_spa h = g" "learns st eth_dst h"
  shows "\<exists>st1 st2. send_all nd src dst ps st = Inr st1 \<and> phrx_arp now eth_dst answer st1 = Inr st2 \<and>
    li_tx_deque st1 = li_tx_deque st @ [arp_frame st MAC__BROADCAST ARP_REQUEST (select_arp_spa st g) 0 g] \<and>
    li_tx_deque st2 = li_tx_deque st1 @ map (\<lambda>(t, b). set_dst (ar_sha h) (ip4_frame st src dst b)) ps \<and>
    nud_at (li_arp_cache st2) g = Some NUD_REACHABLE"
proof -
  obtain t b qs where p: "ps = (t, b) # qs" using ps(1) by (cases ps) auto
  let ?req = "arp_frame st MAC__BROADCAST ARP_REQUEST (select_arp_spa st g) 0 g"
  have "\<not> mac_is_unspecified MAC__BROADCAST" by (simp add: mac_is_unspecified_def MAC__BROADCAST_def)
  then have req: "ring_with st (arp_request_for st g) = li_tx_deque st @ [?req]"
    using room \<open>li_ip4_support st\<close> by (simp add: arp_request_for_def ring_with_def)
  have "0 < sy_unres_qlen (li_sysctl st)" using valid by (simp add: sysctl_valid_def)
  then obtain status s0 where s0: "phtx_ethernet nd t 0 0 (PayIp4 src dst b) st = Inr (status, s0)" "same_config st s0"
    "cache_ok (li_sysctl st) (li_arp_cache s0)" "waiting s0 g ([] @ [ip4_frame st src dst b])" "li_tx_deque s0 = li_tx_deque st @ [?req]"
    using send_waits [OF valid ok dst, of "[]" nd t b] un req by auto
  obtain s1 where s1: "send_all nd src dst qs s0 = Inr s1" "same_config st s1" "li_tx_deque s1 = li_tx_deque st @ [?req]"
    "waiting s1 g (map (\<lambda>(t, b). ip4_frame st src dst b) ps)"
    using send_all_waits [OF valid s0(3,2) dst s0(4), of qs nd] ps(2) s0(5) by (auto simp: p)
  have "learns s1 eth_dst h" "li_queue_max_size s1 = li_queue_max_size st"
    using answer(4) same_config_views(4) [OF s1(2)] s1(2) by (auto simp: same_config_def)
  then obtain st2 where "phrx_arp now eth_dst answer s1 = Inr st2" "nud_at (li_arp_cache st2) g = Some NUD_REACHABLE"
    "li_tx_deque st2 = li_tx_deque s1 @ map (set_dst (ar_sha h)) (map (\<lambda>(t, b). ip4_frame st src dst b) ps)"
    using answer_releases [OF answer(1-3) _ s1(4), of eth_dst now] room s1(3) by auto
  then show ?thesis using s0(1) s1(1,3) by (auto simp: p comp_def split_def simp del: bind_res_eq_Inr)
qed

theorem waiting_packets_delivered_witness:
  "\<exists>st1 st2. send_all silent sample_own sample_peer [(0, 7), (1, 8)] sample_if = Inr st1 \<and>
     phrx_arp 3 2 sample_answer_bytes st1 = Inr st2 \<and> length (li_tx_deque st1) = 1 \<and>
     li_tx_deque st2 = li_tx_deque st1 @ [set_dst 6 (ip4_frame sample_if sample_own sample_peer 7),
       set_dst 6 (ip4_frame sample_if sample_own sample_peer 8)]"
proof -
  have "sysctl_valid (li_sysctl sample_if)" "cache_ok (li_sysctl sample_if) (li_arp_cache sample_if)" "li_ip4_support sample_if"
    "unresolved (li_arp_cache sample_if) sample_peer"
    by (simp_all add: sample_if_def defaults_valid cache_ok_empty unresolved_def nud_at_def get_entry_def empty_cache_def)
       (simp add: cache_ok_empty [unfolded empty_cache_def])
  from waiting_packets_delivered [OF this(1-3) sample_routing(1,2) this(4) _ _ _ sample_parsed _ _ sample_routing(3),
      of "[(0, 7), (1, 8)]" silent 3]
  show ?thesis by (auto simp: sample_if_def nbr_defaults_def sample_answer_def)
qed

definition neighbour_mac :: "'b frame_cache \<Rightarrow> ip_address \<Rightarrow> mac option" where
  "neighbour_mac c g =
     (case get_entry g c of
        Some e \<Rightarrow> if ne_state e \<in> {NUD_INCOMPLETE, NUD_FAILED} then None else ne_mac_address e
      | None \<Rightarrow> None)"

lemma sent_entry_mac:
  assumes "cache_ok sy c"
  shows "ne_mac_address (sent_entry sy now g p (get_entry g c)) = neighbour_mac c g"
    "neighbour_mac c g = None \<Longrightarrow> ne_state (sent_entry sy now g p (get_entry g c)) = NUD_INCOMPLETE"
    "neighbour_mac c g = None \<Longrightarrow> \<exists>qs. ne_queued_packets (sent_entry sy now g p (get_entry g c)) = qs @ [p]"
    "neighbour_mac c g \<noteq> None \<Longrightarrow> \<not> unresolved c g"
  using cache_okD [OF assms, of g]
  by (auto simp: sent_entry_def used_entry_def neighbour_mac_def unresolved_def nud_at_def entry_ok_def transition_def Let_def
      split: option.splits nud_state.splits if_splits)

lemma send_ip4_group:
  assumes "\<not> routed4 st src dst"
  shows "\<exists>status st' m. phtx_ethernet nd now 0 0 (PayIp4 src dst b) st = Inr (status, st') \<and>
    performed st [set_dst m (ip4_frame st src dst b)] st' \<and> status = PASSED__ETHERNET__TO_TX_RING \<and>
    (if ip4_is_multicast dst then ip4_multicast_mac dst = Inr m else m = MAC__BROADCAST)"
  using assms
  by (auto simp: routed4_def phtx_ethernet_ip4_payload phtx_ethernet_ip4_def ip4_multicast_mac_def send_out_packet_def
      performed_def ring_with_one [symmetric] ring_deque Let_def)

text \<open>
  C11. The fate of an IPv4 packet without a given link-layer destination: a multicast or
  broadcast packet leaves with the mapped address; any other packet is dropped when no route covers its
  destination, leaves at once with the address of the next hop of the best route when the cache
  knows it, and otherwise is the last packet to wait at that next hop, with a request on the ring when
  none is outstanding. The sender never raises and keeps the cache well formed.
\<close>

theorem ip4_packet_fate:
  assumes valid: "sysctl_valid (li_sysctl st)" and ok: "cache_ok (li_sysctl st) (li_arp_cache st)"
  shows "\<exists>status st'. phtx_ethernet nd now 0 0 (PayIp4 src dst b) st = Inr (status, st') \<and> same_config st st' \<and>
    cache_ok (li_sysctl st) (li_arp_cache st') \<and>
    (if ip4_is_multicast dst
     then \<exists>m. ip4_multicast_mac dst = Inr m \<and> li_tx_deque st' = ring_with st [set_dst m (ip4_frame st src dst b)]
     else if \<not> routed4 st src dst then li_tx_deque st' = ring_with st [set_dst MAC__BROADCAST (ip4_frame st src dst b)]
     else case next_hop4 st dst of
            None \<Rightarrow> status = DROPPED__ETHERNET__DST_NO_GATEWAY_IP4 \<and> li_tx_deque st' = li_tx_deque st \<and>
              li_arp_cache st' = li_arp_cache st
          | Some g \<Rightarrow>
              (case neighbour_mac (li_arp_cache st) g of
                 Some m \<Rightarrow> status = PASSED__ETHERNET__TO_TX_RING \<and>
                   li_tx_deque st' = ring_with st [set_dst m (ip4_frame st src dst b)]
               | None \<Rightarrow> status \<noteq> PASSED__ETHERNET__TO_TX_RING \<and>
                   li_tx_deque st' = ring_with st (if unresolved (li_arp_cache st) g then arp_request_for st g else []) \<and>
                   (\<exists>qs. waiting st' g (qs @ [ip4_frame st src dst b]))))"
proof (cases "routed4 st src dst")
  case False
  obtain status st' m where g: "phtx_ethernet nd now 0 0 (PayIp4 src dst b) st = Inr (status, st')"
    "performed st [set_dst m (ip4_frame st src dst b)] st'"
    "if ip4_is_multicast dst then ip4_multicast_mac dst = Inr m else m = MAC__BROADCAST"
    using send_ip4_group [OF False, of nd now b] by blast
  show ?thesis using g ok False by (intro exI [of _ status] exI [of _ st']) (auto simp: performed_def)
next
  case True
  then have u: "\<not> ip4_is_multicast dst" by (simp add: routed4_def)
  show ?thesis
  proof (cases "next_hop4 st dst")
    case None
    then show ?thesis using True ok u
      by (auto simp: next_hop4_def routed4_def phtx_ethernet_ip4_payload phtx_ethernet_ip4_def Let_def)
  next
    case (Some g)
    let ?e = "sent_entry (li_sysctl st) now g (ip4_frame st src dst b) (get_entry g (li_arp_cache st))"
    note e = sent_entry_mac [OF ok]
    obtain status st' where s: "phtx_ethernet nd now 0 0 (PayIp4 src dst b) st = Inr (status, st')" "same_config st st'"
      "li_arp_cache st' = put_entry g ?e (li_arp_cache st)"
      "li_tx_deque st' = ring_with st ((if unresolved (li_arp_cache st) g then arp_request_for st g else []) @
         (case neighbour_mac (li_arp_cache st) g of None \<Rightarrow> [] | Some m \<Rightarrow> [set_dst m (ip4_frame st src dst b)]))"
      "(status = PASSED__ETHERNET__TO_TX_RING) = (neighbour_mac (li_arp_cache st) g \<noteq> None)"
      using send_ip4_routed [OF valid ok True Some, of nd now b] unfolding Let_def e(1) by blast
    have "cache_ok (li_sysctl st) (li_arp_cache st')" using sent_entry_ok [OF valid ok] ok by (auto simp: s(3))
    then show ?thesis using s True u Some e
      by (intro exI [of _ status] exI [of _ st']) (auto simp: waiting_def split: option.splits)
  qed
qed

theorem ip4_packet_fate_witness:
  "\<exists>status st'. phtx_ethernet silent 0 0 0 (PayIp4 sample_own sample_peer 7) sample_if = Inr (status, st') \<and>
     status \<noteq> PASSED__ETHERNET__TO_TX_RING \<and> (\<exists>qs. waiting st' sample_peer (qs @ [ip4_frame sample_if sample_own sample_peer 7]))"
proof -
  have "sysctl_valid (li_sysctl sample_if)" "cache_ok (li_sysctl sample_if) (li_arp_cache sample_if)"
    by (simp_all add: sample_if_def defaults_valid cache_ok_empty)
  moreover have "\<not> ip4_is_multicast sample_peer" using sample_routing(1) by (simp add: routed4_def)
  moreover have "neighbour_mac (li_arp_cache sample_if) sample_peer = None"
    by (simp add: neighbour_mac_def sample_if_def get_entry_def empty_cache_def)
  ultimately show ?thesis
    using ip4_packet_fate [of sample_if silent 0 sample_own sample_peer 7] sample_routing(1,2) by auto
qed

section \<open>The ARP cache over time\<close>

text \<open>
  C22. The ARP cache under any sequence of lookups, answers, confirmations, maintenance passes and
  control operations, from the empty cache and with any settings the validators admit: nothing
  raises, every address has one entry, which carries that address; an entry that is reachable, stale,
  delayed, probed or permanent has a link-layer address and one under resolution has none (a failed one may keep the
  address it had); packets wait only at entries under resolution and never more than the queue holds; and
  no more solicitations are out than configured.
\<close>

theorem arp_cache_safe:
  assumes "sysctl_valid sy"
  shows "\<exists>c sent. nbr_run solicit_arp (Some flush_packet) sy ops empty_cache = Inr (c, sent) \<and> cache_ok sy c"
  by (rule arp_nud.run_keeps [OF assms cache_ok_empty])

theorem arp_cache_safe_witness:
  "\<exists>c sent. nbr_run solicit_arp (Some flush_packet) nbr_defaults
     [Send 0 sample_peer (ip4_frame sample_if sample_own sample_peer 7), Tick 1, Reply 2 sample_peer 5, Tick 40, Flush]
     empty_cache = Inr (c, sent) \<and> cache_ok nbr_defaults c"
  by (rule arp_cache_safe [OF defaults_valid])

text \<open>
  The moves of one address in one operation. The solicitations of ARP do not look at the cache, so a
  maintenance pass ages an entry and then collects.
\<close>

fun arp_path :: "('a, 'p) nbr_op \<Rightarrow> nud_state option \<Rightarrow> nud_state option \<Rightarrow> bool" where
  "arp_path (Tick now) = (moves {Aged})\<^sup>=\<^sup>= OO (moves {Collected})\<^sup>=\<^sup>="
| "arp_path op = (moves (causes op))\<^sup>=\<^sup>="

lemma tick_path:
  assumes "sysctl_valid sy" "cache_ok sy c" "run_maintenance_once solicit_arp sy now c = Inr (c', sent)"
  shows "((moves {Aged})\<^sup>=\<^sup>= OO (moves {Collected})\<^sup>=\<^sup>=) (nud_at c a) (nud_at c' a)"
proof -
  obtain c1 A where t: "c' = without A c1"
    "\<forall>a. get_entry a c1 = map_option (\<lambda>e. fst (maintain_entry sy (nb_reachable_time_override c) now e)) (get_entry a c)"
    "may_evict sy now c1 A"
    using arp_nud.tick_exact [OF assms(1,2), of now] assms(3) by auto
  have "(moves {Aged})\<^sup>=\<^sup>= (nud_at c a) (nud_at c1 a)"
    using maintain_edge [of _ sy "nb_reachable_time_override c" now] t(2) by (cases "get_entry a c") (auto simp: nud_at_def)
  moreover have "(moves {Collected})\<^sup>=\<^sup>= (nud_at c1 a) (nud_at c' a)"
    using t(3) by (auto simp: t(1) nud_at_def may_evict_def evictable_def moves_def intro!: nud_edge.collected)
  ultimately show ?thesis by blast
qed

text \<open>
  C23. Every operation moves the state of every address along the edges of the
  diagram that it causes and no others, and along at most one of them, except for a maintenance pass, in which
  an entry ages by at most one edge and may then be collected. An operation of the control plane apart, a
  static entry stays with its link-layer address.
\<close>

theorem nud_follows_diagram:
  assumes "sysctl_valid sy" "cache_ok sy c"
  shows "\<exists>c' sent. nbr_apply solicit_arp (Some flush_packet) sy op c = Inr (c', sent) \<and>
    (\<forall>a. arp_path op (nud_at c a) (nud_at c' a)) \<and>
    (Configured \<notin> causes op \<longrightarrow> (\<forall>a m. pinned c a m \<longrightarrow> pinned c' a m))"
proof -
  obtain c' sent where r: "nbr_apply solicit_arp (Some flush_packet) sy op c = Inr (c', sent)" "kept op c c'"
    using arp_nud.apply_keeps [OF assms, of "Some flush_packet" op] by blast
  have "arp_path op (nud_at c a) (nud_at c' a)" for a
    using r tick_path [OF assms, of _ c' sent a] by (cases op) (auto simp: kept_def)
  then show ?thesis using r by (auto simp: kept_def)
qed

theorem nud_follows_diagram_witness:
  "\<exists>c' sent. nbr_apply solicit_arp (Some flush_packet) nbr_defaults (Static 0 sample_peer 5) empty_cache =
       Inr (c' :: nat frame_cache, sent) \<and>
     arp_path (Static 0 sample_peer 5 :: (ip_address, nat eth_frame) nbr_op) None (nud_at c' sample_peer)"
proof -
  obtain c' sent where "nbr_apply solicit_arp (Some flush_packet) nbr_defaults (Static 0 sample_peer 5) empty_cache =
      Inr (c' :: nat frame_cache, sent)"
    "arp_path (Static 0 sample_peer 5 :: (ip_address, nat eth_frame) nbr_op) (nud_at (empty_cache :: nat frame_cache) sample_peer) (nud_at c' sample_peer)"
    using nud_follows_diagram [OF defaults_valid cache_ok_empty, of "Static 0 sample_peer 5 :: (ip_address, nat eth_frame) nbr_op"]
    by blast
  moreover have "nud_at (empty_cache :: nat frame_cache) sample_peer = None"
    by (simp add: nud_at_def get_entry_def empty_cache_def)
  ultimately show ?thesis by metis
qed

text \<open>
  The collection of a maintenance pass is bounded on both sides: afterwards the cache is within the hard
  limit or holds only static entries and entries with waiting packets; and a packet that waits at an entry
  with solicitations left is still there, in its place.
\<close>

theorem collection_bounded:
  assumes "sysctl_valid sy" "cache_ok sy c"
  shows "\<exists>c' sent. run_maintenance_once solicit_arp sy now c = Inr (c', sent) \<and>
    (cache_size c' \<le> sy_gc_thresh3 sy \<or>
      (\<forall>a e. get_entry a c' = Some e \<longrightarrow> ne_state e = NUD_PERMANENT \<or> ne_state e \<noteq> NUD_FAILED \<and> ne_queued_packets e \<noteq> [])) \<and>
    (\<forall>a e. get_entry a c = Some e \<and> ne_queued_packets e \<noteq> [] \<and> ne_probe_count e < sy_max_multicast_solicit sy \<longrightarrow>
      (\<exists>e'. get_entry a c' = Some e' \<and> ne_state e' = NUD_INCOMPLETE \<and> ne_queued_packets e' = ne_queued_packets e))"
proof -
  obtain c1 A sent where t: "run_maintenance_once solicit_arp sy now c = Inr (without A c1, sent)"
    "\<forall>a. get_entry a c1 = map_option (\<lambda>e. fst (maintain_entry sy (nb_reachable_time_override c) now e)) (get_entry a c)"
    "may_evict sy now c1 A"
    "cache_size (without A c1) \<le> sy_gc_thresh3 sy \<or> (\<forall>a e. get_entry a (without A c1) = Some e \<longrightarrow> \<not> evictable e)"
    using arp_nud.tick_exact [OF assms, of now] by blast
  have "\<exists>e'. get_entry a (without A c1) = Some e' \<and> ne_state e' = NUD_INCOMPLETE \<and> ne_queued_packets e' = ne_queued_packets e"
    if a: "get_entry a c = Some e" "ne_queued_packets e \<noteq> []" "ne_probe_count e < sy_max_multicast_solicit sy" for a e
  proof -
    let ?e = "fst (maintain_entry sy (nb_reachable_time_override c) now e)"
    have "ne_state e = NUD_INCOMPLETE"
      using cache_okD [OF assms(2) a(1)] a(2) by (simp add: entry_ok_def split: nud_state.splits)
    then have e: "ne_state ?e = NUD_INCOMPLETE" "ne_queued_packets ?e = ne_queued_packets e"
      using a(3) by (auto simp: maintain_entry_def Let_def)
    then have "a \<notin> A" using t(2,3) a(1,2) by (force simp: may_evict_def evictable_def)
    then show ?thesis using t(2) a(1) e by simp
  qed
  then show ?thesis using t(1,4) unfolding evictable_def by (intro exI [of _ "without A c1"] exI [of _ sent]) blast
qed

theorem collection_bounded_witness:
  "\<exists>(c' :: nat frame_cache) sent. run_maintenance_once solicit_arp nbr_defaults 1 empty_cache = Inr (c', sent)"
  using collection_bounded [OF defaults_valid cache_ok_empty, of 1, where ?'a = nat] by blast

lemma length_update_le: "length (AList.update k v al) \<le> Suc (length al)"
  by (induction al) auto

lemma cache_size_put: "cache_size (put_entry a e c) \<le> cache_size c + 1"
  using length_update_le [of a e "nb_entries c"] by (simp add: cache_size_def put_entry_def)

text \<open>A pass over a cache of any size: an entry is as its age makes it, or collected if it may be.\<close>

lemma arp_tick_any:
  fixes c :: "'b frame_cache"
  assumes "sysctl_valid sy" "cache_ok sy c"
  shows "\<exists>c' sent. arp_apply sy (Tick t) c = Inr (c', sent) \<and> cache_ok sy c' \<and> (get_entry a c = None \<longrightarrow> get_entry a c' = None) \<and>
    (\<forall>e. get_entry a c = Some e \<longrightarrow> (let e' = fst (maintain_entry sy (nb_reachable_time_override c) t e) in
       get_entry a c' = Some e' \<or> get_entry a c' = None \<and> evictable e')) \<and>
    requests_for a sent =
      (if \<exists>e. get_entry a c = Some e \<and> snd (maintain_entry sy (nb_reachable_time_override c) t e) \<noteq> None then 1 else 0)"
proof -
  let ?sent = "concat (map (\<lambda>b. solicited (\<lambda>a cached. [Arp_Solicit a cached]) sy (nb_reachable_time_override c) t b (get_entry b c))
    (map fst (nb_entries c))) :: 'b link_effect list"
  obtain c1 A where c1: "run_maintenance_once solicit_arp sy t c = Inr (without A c1, ?sent)"
    "\<forall>a. get_entry a c1 = map_option (\<lambda>e. fst (maintain_entry sy (nb_reachable_time_override c) t e)) (get_entry a c)"
    "cache_ok sy (without A c1)" "may_evict sy t c1 A"
    using arp_nud.tick_exact [OF assms, of t] by blast
  have d: "distinct (map fst (nb_entries c))" using assms(2) by (simp add: cache_ok_def)
  have key: "a \<in> set (map fst (nb_entries c))" if "get_entry a c = Some e" for e
    using that by (force simp: get_entry_def dest: map_of_SomeD)
  have "requests_for a ?sent =
      (if \<exists>e. get_entry a c = Some e \<and> snd (maintain_entry sy (nb_reachable_time_override c) t e) \<noteq> None then 1 else 0)"
    using key by (subst requests_for_tick [OF d]) auto
  moreover have "get_entry a (without A c1) = Some e' \<or> get_entry a (without A c1) = None \<and> evictable e'"
    if "get_entry a c1 = Some e'" for e' using c1(4) that by (auto simp: may_evict_def)
  ultimately show ?thesis using c1 by (intro exI [of _ "without A c1"] exI [of _ ?sent]) (simp add: Let_def del: map_map)
qed

lemma failed_or_gone:
  assumes valid: "sysctl_valid sy"
  shows "cache_ok sy c \<Longrightarrow> nud_at c a \<in> {None, Some NUD_FAILED} \<Longrightarrow>
    \<exists>c' sent. arp_run sy (map Tick ts) c = Inr (c', sent) \<and> nud_at c' a \<in> {None, Some NUD_FAILED} \<and> requests_for a sent = 0"
proof (induction ts arbitrary: c)
  case (Cons t ts)
  obtain c1 s1 where c1: "arp_apply sy (Tick t) c = Inr (c1, s1)" "cache_ok sy c1" "get_entry a c = None \<longrightarrow> get_entry a c1 = None"
    "\<forall>e. get_entry a c = Some e \<longrightarrow> (let e' = fst (maintain_entry sy (nb_reachable_time_override c) t e) in
       get_entry a c1 = Some e' \<or> get_entry a c1 = None \<and> evictable e')"
    "requests_for a s1 = (if \<exists>e. get_entry a c = Some e \<and> snd (maintain_entry sy (nb_reachable_time_override c) t e) \<noteq> None then 1 else 0)"
    using arp_tick_any [OF valid Cons.prems(1)] by blast
  have "nud_at c1 a \<in> {None, Some NUD_FAILED}" "requests_for a s1 = 0"
    using c1(3-5) Cons.prems(2) by (auto simp: nud_at_def maintain_failed Let_def)
  then show ?case using Cons.IH [OF c1(2)] c1(1) by (auto simp del: bind_res_eq_Inr nbr_apply.simps)
qed (simp add: requests_for_def)

lemma gives_up_any:
  assumes valid: "sysctl_valid sy"
  shows "cache_ok sy c \<Longrightarrow> get_entry a c = Some e \<Longrightarrow> ne_state e = NUD_INCOMPLETE \<Longrightarrow> ne_queued_packets e \<noteq> [] \<Longrightarrow>
    spaced (real_of_int (sy_retrans_timer sy)) (ne_state_changed_at e) ts \<Longrightarrow>
    sy_max_multicast_solicit sy - ne_probe_count e < int (length ts) \<Longrightarrow>
    \<exists>c' sent. arp_run sy (map Tick ts) c = Inr (c', sent) \<and> nud_at c' a \<in> {None, Some NUD_FAILED} \<and>
      int (requests_for a sent) = sy_max_multicast_solicit sy - ne_probe_count e"
proof (induction ts arbitrary: c e)
  case Nil
  have "ne_probe_count e \<le> sy_max_multicast_solicit sy"
    using cache_okD [OF Nil.prems(1,2)] Nil.prems(3) by (simp add: entry_ok_def)
  then show ?case using Nil.prems(6) by simp
next
  case (Cons t ts)
  have ok: "entry_ok sy e" using cache_okD [OF Cons.prems(1,2)] by simp
  have age: "real_of_int (sy_retrans_timer sy) \<le> t - ne_state_changed_at e" using Cons.prems(5) by simp
  note m = maintain_incomplete [OF ok Cons.prems(3) age, of "nb_reachable_time_override c"]
  obtain c1 s1 where c1: "arp_apply sy (Tick t) c = Inr (c1, s1)" "cache_ok sy c1"
    "let e' = fst (maintain_entry sy (nb_reachable_time_override c) t e) in
       get_entry a c1 = Some e' \<or> get_entry a c1 = None \<and> evictable e'"
    "requests_for a s1 = (if snd (maintain_entry sy (nb_reachable_time_override c) t e) \<noteq> None then 1 else 0)"
    using arp_tick_any [OF valid Cons.prems(1), of t a] Cons.prems(2) by auto
  show ?case
  proof (cases "ne_probe_count e = sy_max_multicast_solicit sy")
    case True
    have "nud_at c1 a \<in> {None, Some NUD_FAILED}" using c1(3) m True by (auto simp: nud_at_def fail_entry_def transition_def)
    then show ?thesis using failed_or_gone [OF valid c1(2), of a ts] c1(1,4) m True
      by (auto simp del: bind_res_eq_Inr nbr_apply.simps)
  next
    case False
    let ?e = "e\<lparr>ne_probe_count := ne_probe_count e + 1, ne_state_changed_at := t\<rparr>"
    have g: "get_entry a c1 = Some ?e" "requests_for a s1 = 1"
      using c1(3,4) m False Cons.prems(3,4) by (auto simp: evictable_def)
    obtain c2 s2 where "arp_run sy (map Tick ts) c1 = Inr (c2, s2)" "nud_at c2 a \<in> {None, Some NUD_FAILED}"
      "int (requests_for a s2) = sy_max_multicast_solicit sy - ne_probe_count ?e"
      using Cons.IH [OF c1(2) g(1)] Cons.prems by auto
    then show ?thesis using c1(1) g(2) by (auto simp del: bind_res_eq_Inr nbr_apply.simps)
  qed
qed

text \<open>
  C24. A resolution that gets no answer ends: a packet sent to an unresolved neighbour and
  as many maintenance passes as there are solicitations, each at least the retransmission interval
  after the one before, leave the neighbour failed or, when the cache is so full that failed entries are
  collected, without an entry, with exactly the configured number of requests sent
  for it. In a cache with fewer entries than the first threshold of the collection the entry stays, failed.
\<close>

theorem resolution_gives_up:
  assumes valid: "sysctl_valid sy" and ok: "cache_ok sy c" and un: "nud_at c a \<in> {None, Some NUD_FAILED}"
    and ts: "spaced (real_of_int (sy_retrans_timer sy)) t ts" "sy_max_multicast_solicit sy \<le> int (length ts)"
  shows "\<exists>c' sent. nbr_run solicit_arp (Some flush_packet) sy (Send t a p # map Tick ts) c = Inr (c', sent) \<and>
    nud_at c' a \<in> {None, Some NUD_FAILED} \<and> int (requests_for a sent) = sy_max_multicast_solicit sy \<and>
    (cache_size c < sy_gc_thresh1 sy \<longrightarrow> nud_at c' a = Some NUD_FAILED)"
proof -
  let ?e = "sent_entry sy t a p (get_entry a c)" and ?c = "put_entry a (sent_entry sy t a p (get_entry a c)) c"
  have e: "ne_state ?e = NUD_INCOMPLETE" "ne_probe_count ?e = 1" "ne_state_changed_at ?e = t"
    using un by (auto simp: nud_at_def sent_entry_def used_entry_def transition_def Let_def split: option.splits)
  have "neighbour_mac c a = None" using un by (auto simp: neighbour_mac_def nud_at_def split: option.splits)
  then have q: "ne_queued_packets ?e \<noteq> []" using sent_entry_mac(3) [OF ok, of a t p] by auto
  have s: "nbr_apply solicit_arp (Some flush_packet) sy (Send t a p) c = Inr (?c, [Arp_Solicit a None])"
    using arp_nud.resolve_exact [OF valid ok, of t a p] un by (simp del: bind_res_eq_Inr)
  have okc: "cache_ok sy ?c" using sent_entry_ok [OF valid ok] ok by auto
  obtain c' sent where r: "arp_run sy (map Tick ts) ?c = Inr (c', sent)" "nud_at c' a \<in> {None, Some NUD_FAILED}"
    "int (requests_for a sent) = sy_max_multicast_solicit sy - ne_probe_count ?e"
    using gives_up_any [OF valid okc _ e(1) q, of a ts] ts e(2,3) by auto
  have "nud_at c' a = Some NUD_FAILED" if "cache_size c < sy_gc_thresh1 sy"
  proof -
    have "cache_size ?c \<le> sy_gc_thresh1 sy" using cache_size_put [of a ?e c] that by linarith
    then show ?thesis using gives_up [OF valid okc _ _ e(1), of a ts] ts e(2,3) r(1) by auto
  qed
  then show ?thesis using s e(2) r
    by (intro exI [of _ c'] exI [of _ "[Arp_Solicit a None] @ sent"]) (auto simp: requests_for_def simp del: bind_res_eq_Inr nbr_apply.simps)
qed

theorem resolution_gives_up_witness:
  "\<exists>c' sent. nbr_run solicit_arp (Some flush_packet) nbr_defaults
     [Send 0 sample_peer (ip4_frame sample_if sample_own sample_peer 7), Tick 1, Tick 2, Tick 3] empty_cache = Inr (c', sent) \<and>
     nud_at c' sample_peer = Some NUD_FAILED \<and> requests_for sample_peer sent = 3"
  using resolution_gives_up [OF defaults_valid cache_ok_empty, of sample_peer 0 "[1, 2, 3]" "ip4_frame sample_if sample_own sample_peer 7"]
  by (auto simp: nbr_defaults_def cache_size_def empty_cache_def nud_at_def get_entry_def simp del: nbr_run.simps)

end
