(* ===== verification/Ip4_Options.thy ===== *)
theory Ip4_Options
  imports Tlv Addresses
begin

text \<open>
  \<^verbatim>\<open>pmd_net_proto/protocols/ip4/options/\<close>: the IPv4 options, one constructor function per option
  class (its \<open>__post_init__\<close> assertions), one encoder (\<open>__buffer__\<close>) and one decoder each
  (\<open>_validate_integrity\<close> followed by \<open>from_buffer\<close>); then \<^verbatim>\<open>ip4__options.py\<close>: the reading loop,
  the selection by copy flag and the accessors. LSRR, SSRR and RR have the same code and differ
  in their type only. A received option type or timestamp flag is the number itself.

  The options interpret \<open>tlv_options\<close>: they are read back from their encoding, and on
  arbitrary bytes the reading loop raises nothing but the integrity error and, for an option that
  begins closer to the end of the header than its class demands, an assertion.
\<close>

section \<open>Options and their construction\<close>

type_synonym ip4_timestamp_entry = "int \<times> ip_address option"

datatype ip4_option =
    Ip4Eol
  | Ip4Nop
  | Ip4Lsrr int "ip_address list"
  | Ip4Ssrr int "ip_address list"
  | Ip4RouterAlert int
  | Ip4Rr int "ip_address list"
  | Ip4Timestamp int int int "ip4_timestamp_entry list"
  | Ip4Cipso int "bytes list"
  | Ip4Unknown int bytes

definition known_ip4_options :: "int list" where
  "known_ip4_options = [0, 1, 7, 68, 134, 131, 137, 148]"

fun ip4_option_type :: "ip4_option \<Rightarrow> int" where
  "ip4_option_type Ip4Eol = 0"
| "ip4_option_type Ip4Nop = 1"
| "ip4_option_type (Ip4Lsrr _ _) = 131"
| "ip4_option_type (Ip4Ssrr _ _) = 137"
| "ip4_option_type (Ip4RouterAlert _) = 148"
| "ip4_option_type (Ip4Rr _ _) = 7"
| "ip4_option_type (Ip4Timestamp _ _ _ _) = 68"
| "ip4_option_type (Ip4Cipso _ _) = 134"
| "ip4_option_type (Ip4Unknown t _) = t"

definition copy_flag :: "ip4_option \<Rightarrow> bool" where
  "copy_flag opt \<longleftrightarrow> drop_bit 7 (ip4_option_type opt) AND 1 \<noteq> 0"

text \<open>The checks of LSRR, SSRR and RR; \<open>con\<close> is the class.\<close>

definition mk_route :: "(int \<Rightarrow> ip_address list \<Rightarrow> ip4_option) \<Rightarrow> int \<Rightarrow> ip_address list \<Rightarrow> ip4_option res" where
  "mk_route con pointer route =
     passert (is_uint8 pointer) (passert (4 \<le> pointer) (passert ((pointer - 4) mod 4 = 0)
       (passert (1 \<le> length route) (passert (is_uint8 (3 + 4 * int (length route))) (Inr (con pointer route))))))"

definition mk_router_alert :: "int \<Rightarrow> ip4_option res" where
  "mk_router_alert v = passert (is_uint16 v) (Inr (Ip4RouterAlert v))"

definition entry_len_for_flag :: "int \<Rightarrow> nat" where
  "entry_len_for_flag flag = (if flag \<in> {1, 3} then 8 else 4)"

definition mk_ip4_timestamp :: "int \<Rightarrow> int \<Rightarrow> int \<Rightarrow> ip4_timestamp_entry list \<Rightarrow> ip4_option res" where
  "mk_ip4_timestamp pointer overflow flag entries =
     passert (is_uint8 pointer) (passert (5 \<le> pointer) (passert (0 \<le> overflow \<and> overflow \<le> 15)
       (passert (flag \<in> {0, 1, 3}) (passert ((pointer - 5) mod int (entry_len_for_flag flag) = 0)
         (passert (1 \<le> length entries)
           (passert (if flag = 0 then list_all (\<lambda>e. snd e = None) entries else list_all (\<lambda>e. snd e \<noteq> None) entries)
             (passert (is_uint8 (4 + int (entry_len_for_flag flag * length entries)))
               (Inr (Ip4Timestamp pointer overflow flag entries)))))))))"

definition cipso_tag_ok :: "bytes \<Rightarrow> bool" where
  "cipso_tag_ok tag \<longleftrightarrow> 2 \<le> length tag \<and> uint (tag ! 1) = int (length tag)"

definition mk_cipso :: "int \<Rightarrow> bytes list \<Rightarrow> ip4_option res" where
  "mk_cipso doi tags =
     passert (is_uint32 doi) (passert (list_all cipso_tag_ok tags)
       (passert (6 + length (concat tags) \<le> 255) (Inr (Ip4Cipso doi tags))))"

definition mk_ip4_unknown :: "int \<Rightarrow> bytes \<Rightarrow> ip4_option res" where
  "mk_ip4_unknown t data =
     passert (t \<notin> set known_ip4_options) (passert (is_uint8 (2 + int (length data))) (Inr (Ip4Unknown t data)))"

text \<open>The attribute \<open>len\<close> each class sets on construction.\<close>

fun ip4_option_len :: "ip4_option \<Rightarrow> nat" where
  "ip4_option_len Ip4Eol = 1"
| "ip4_option_len Ip4Nop = 1"
| "ip4_option_len (Ip4Lsrr _ route) = 3 + 4 * length route"
| "ip4_option_len (Ip4Ssrr _ route) = 3 + 4 * length route"
| "ip4_option_len (Ip4RouterAlert _) = 4"
| "ip4_option_len (Ip4Rr _ route) = 3 + 4 * length route"
| "ip4_option_len (Ip4Timestamp _ _ flag entries) = 4 + entry_len_for_flag flag * length entries"
| "ip4_option_len (Ip4Cipso _ tags) = 6 + length (concat tags)"
| "ip4_option_len (Ip4Unknown _ data) = 2 + length data"

section \<open>Encoding\<close>

definition address_bytes :: "ip_address \<Rightarrow> bytes" where
  "address_bytes a = to_bytes 4 (ia_int a)"

definition route_buffer :: "int \<Rightarrow> int \<Rightarrow> ip_address list \<Rightarrow> bytes res" where
  "route_buffer t pointer route =
     bind_res (struct_pack [(Fmt_B, t), (Fmt_B, int (3 + 4 * length route)), (Fmt_B, pointer)]) (\<lambda>prefix.
       Inr (prefix @ concat (map address_bytes route)))"

definition router_alert_buffer :: "int \<Rightarrow> bytes res" where
  "router_alert_buffer v = struct_pack [(Fmt_B, 148), (Fmt_B, 4), (Fmt_H, v)]"

definition timestamp_entry_buffer :: "ip4_timestamp_entry \<Rightarrow> bytes res" where
  "timestamp_entry_buffer e =
     bind_res (struct_pack [(Fmt_L, fst e)]) (\<lambda>ts.
       Inr (case snd e of None \<Rightarrow> ts | Some a \<Rightarrow> address_bytes a @ ts))"

definition ip4_timestamp_buffer :: "int \<Rightarrow> int \<Rightarrow> int \<Rightarrow> ip4_timestamp_entry list \<Rightarrow> bytes res" where
  "ip4_timestamp_buffer pointer overflow flag entries =
     bind_res (struct_pack [(Fmt_B, 68), (Fmt_B, int (4 + entry_len_for_flag flag * length entries)), (Fmt_B, pointer),
         (Fmt_B, push_bit 4 overflow OR (flag AND 0x0F))]) (\<lambda>prefix.
       bind_res (map_res timestamp_entry_buffer entries) (\<lambda>es. Inr (prefix @ concat es)))"

definition cipso_buffer :: "int \<Rightarrow> bytes list \<Rightarrow> bytes res" where
  "cipso_buffer doi tags =
     bind_res (struct_pack [(Fmt_B, 134), (Fmt_B, int (6 + length (concat tags))), (Fmt_L, doi)]) (\<lambda>prefix.
       Inr (prefix @ concat tags))"

definition ip4_unknown_buffer :: "int \<Rightarrow> bytes \<Rightarrow> bytes res" where
  "ip4_unknown_buffer t data =
     bind_res (struct_pack [(Fmt_B, t), (Fmt_B, int (2 + length data))]) (\<lambda>prefix. Inr (prefix @ data))"

fun ip4_option_buffer :: "ip4_option \<Rightarrow> bytes res" where
  "ip4_option_buffer Ip4Eol = Inr [0]"
| "ip4_option_buffer Ip4Nop = Inr [1]"
| "ip4_option_buffer (Ip4Lsrr pointer route) = route_buffer 131 pointer route"
| "ip4_option_buffer (Ip4Ssrr pointer route) = route_buffer 137 pointer route"
| "ip4_option_buffer (Ip4RouterAlert v) = router_alert_buffer v"
| "ip4_option_buffer (Ip4Rr pointer route) = route_buffer 7 pointer route"
| "ip4_option_buffer (Ip4Timestamp pointer overflow flag entries) = ip4_timestamp_buffer pointer overflow flag entries"
| "ip4_option_buffer (Ip4Cipso doi tags) = cipso_buffer doi tags"
| "ip4_option_buffer (Ip4Unknown t data) = ip4_unknown_buffer t data"

section \<open>Decoding one option\<close>

definition ip4_of_bytes :: "bytes \<Rightarrow> ip_address res" where
  "ip4_of_bytes b = (if length b = 4 then Inr \<lparr>ia_version = IP4, ia_int = be_int b\<rparr> else Inl FormatError)"

definition ip4_eol_from_buffer :: "bytes \<Rightarrow> ip4_option res" where
  "ip4_eol_from_buffer buffer = expect_type 1 0 buffer (Inr Ip4Eol)"

definition ip4_nop_from_buffer :: "bytes \<Rightarrow> ip4_option res" where
  "ip4_nop_from_buffer buffer = expect_type 1 1 buffer (Inr Ip4Nop)"

definition route_integrity :: "bytes \<Rightarrow> (int \<Rightarrow> int \<Rightarrow> 'a res) \<Rightarrow> 'a res" where
  "route_integrity buffer k =
     bind_res (byte_at buffer 1) (\<lambda>v.
       if v < 7 then Inl IntegrityError
       else if (v - 3) mod 4 \<noteq> 0 then Inl IntegrityError
       else if v > int (length buffer) then Inl IntegrityError
       else bind_res (byte_at buffer 2) (\<lambda>pointer.
         if pointer < 4 then Inl IntegrityError
         else if (pointer - 4) mod 4 \<noteq> 0 then Inl IntegrityError
         else k v pointer))"

definition route_from_buffer :: "int \<Rightarrow> (int \<Rightarrow> ip_address list \<Rightarrow> ip4_option) \<Rightarrow> bytes \<Rightarrow> ip4_option res" where
  "route_from_buffer t con buffer =
     expect_type 7 t buffer (route_integrity buffer (\<lambda>v pointer.
       bind_res (map_res (\<lambda>offset. ip4_of_bytes (bslice (nat offset) (nat offset + 4) buffer)) (range_up 3 v 4))
         (mk_route con pointer)))"

definition router_alert_from_buffer :: "bytes \<Rightarrow> ip4_option res" where
  "router_alert_from_buffer buffer =
     expect_type 4 148 buffer (fixed_integrity 4 buffer (mk_router_alert (be_int (bslice 2 4 buffer))))"

definition ip4_timestamp_integrity :: "bytes \<Rightarrow> (int \<Rightarrow> int \<Rightarrow> int \<Rightarrow> 'a res) \<Rightarrow> 'a res" where
  "ip4_timestamp_integrity buffer k =
     bind_res (byte_at buffer 3) (\<lambda>b.
       let flag = b AND 0x0F; entry_len = int (entry_len_for_flag flag)
       in if flag \<notin> {0, 1, 3} then Inl IntegrityError
          else bind_res (byte_at buffer 1) (\<lambda>v.
            if v < 4 + entry_len then Inl IntegrityError
            else if (v - 4) mod entry_len \<noteq> 0 then Inl IntegrityError
            else if v > int (length buffer) then Inl IntegrityError
            else bind_res (byte_at buffer 2) (\<lambda>pointer.
              if pointer < 5 then Inl IntegrityError
              else if (pointer - 5) mod entry_len \<noteq> 0 then Inl IntegrityError
              else k b v pointer)))"

definition timestamp_entry_at :: "nat \<Rightarrow> bytes \<Rightarrow> nat \<Rightarrow> ip4_timestamp_entry res" where
  "timestamp_entry_at entry_len buffer offset =
     (if entry_len = 8 then
        bind_res (ip4_of_bytes (bslice offset (offset + 4) buffer)) (\<lambda>a.
          Inr (be_int (bslice (offset + 4) (offset + 8) buffer), Some a))
      else Inr (be_int (bslice offset (offset + 4) buffer), None))"

definition ip4_timestamp_from_buffer :: "bytes \<Rightarrow> ip4_option res" where
  "ip4_timestamp_from_buffer buffer =
     expect_type 4 68 buffer (ip4_timestamp_integrity buffer (\<lambda>b v pointer.
       let flag = b AND 0x0F; overflow = drop_bit 4 b AND 0x0F; entry_len = entry_len_for_flag flag
       in bind_res (map_res (\<lambda>offset. timestamp_entry_at entry_len buffer (nat offset)) (range_up 4 v (int entry_len)))
            (mk_ip4_timestamp pointer overflow flag)))"

text \<open>The walk over the tags of a CIPSO option, and the loop that collects them after it.\<close>

function cipso_walk :: "bytes \<Rightarrow> nat \<Rightarrow> nat \<Rightarrow> unit res" where
  "cipso_walk buffer fin offset =
     (if offset < fin then
        (if fin - offset < 2 then Inl IntegrityError
         else bind_res (byte_at buffer (offset + 1)) (\<lambda>tag_len.
           if tag_len < 2 then Inl IntegrityError
           else if offset + nat tag_len > fin then Inl IntegrityError
           else cipso_walk buffer fin (offset + nat tag_len)))
      else Inr ())"
  by pat_completeness auto
termination by (relation "measure (\<lambda>(buffer, fin, offset). fin - offset)") auto

declare cipso_walk.simps [simp del]

definition cipso_integrity :: "bytes \<Rightarrow> (nat \<Rightarrow> 'a res) \<Rightarrow> 'a res" where
  "cipso_integrity buffer k =
     bind_res (byte_at buffer 1) (\<lambda>v.
       if v < 6 then Inl IntegrityError
       else if v > int (length buffer) then Inl IntegrityError
       else bind_res (cipso_walk buffer (nat v) 6) (\<lambda>_. k (nat v)))"

text \<open>A zero length byte, which the walk refuses, would keep this loop running: \<open>RecursionError\<close>.\<close>

function cipso_tags :: "bytes \<Rightarrow> nat \<Rightarrow> nat \<Rightarrow> bytes list res" where
  "cipso_tags buffer fin offset =
     (if offset < fin then
        bind_res (byte_at buffer (offset + 1)) (\<lambda>tag_len.
          if tag_len \<le> 0 then Inl RecursionError
          else bind_res (cipso_tags buffer fin (offset + nat tag_len)) (\<lambda>tags.
            Inr (bslice offset (offset + nat tag_len) buffer # tags)))
      else Inr [])"
  by pat_completeness auto
termination by (relation "measure (\<lambda>(buffer, fin, offset). fin - offset)") auto

declare cipso_tags.simps [simp del]

definition cipso_from_buffer :: "bytes \<Rightarrow> ip4_option res" where
  "cipso_from_buffer buffer =
     expect_type 6 134 buffer (cipso_integrity buffer (\<lambda>fin.
       bind_res (cipso_tags buffer fin 6) (mk_cipso (be_int (bslice 2 6 buffer)))))"

definition ip4_unknown_from_buffer :: "bytes \<Rightarrow> ip4_option res" where
  "ip4_unknown_from_buffer buffer =
     passert (2 \<le> length buffer)
       (bind_res (byte_at buffer 0) (\<lambda>t.
        passert (t \<notin> set known_ip4_options)
          (bind_res (byte_at buffer 1) (\<lambda>v.
             if v > int (length buffer) then Inl IntegrityError
             else mk_ip4_unknown t (bslice 2 (nat v) buffer)))))"

section \<open>Option lists\<close>

definition ip4_option_from_buffer :: "bytes \<Rightarrow> ip4_option res" where
  "ip4_option_from_buffer buffer =
     (let t = be_int (bslice 0 1 buffer) in
      if t = 0 then ip4_eol_from_buffer buffer
      else if t = 1 then ip4_nop_from_buffer buffer
      else if t = 131 then route_from_buffer 131 Ip4Lsrr buffer
      else if t = 137 then route_from_buffer 137 Ip4Ssrr buffer
      else if t = 148 then router_alert_from_buffer buffer
      else if t = 7 then route_from_buffer 7 Ip4Rr buffer
      else if t = 68 then ip4_timestamp_from_buffer buffer
      else if t = 134 then cipso_from_buffer buffer
      else ip4_unknown_from_buffer buffer)"

lemma ip4_option_len_pos [simp]: "0 < ip4_option_len opt"
  by (cases opt) auto

function ip4_options_loop :: "bytes \<Rightarrow> nat \<Rightarrow> ip4_option list res" where
  "ip4_options_loop buffer offset =
     (if offset < length buffer
      then bind_res (ip4_option_from_buffer (drop offset buffer)) (\<lambda>opt.
        if opt = Ip4Eol then Inr [opt]
        else bind_res (ip4_options_loop buffer (offset + ip4_option_len opt)) (\<lambda>opts. Inr (opt # opts)))
      else Inr [])"
  by pat_completeness auto
termination
  by (relation "measure (\<lambda>(buffer, offset). length buffer - offset)") (auto intro!: diff_less_mono2)

declare ip4_options_loop.simps [simp del]

definition ip4_options_from_buffer :: "bytes \<Rightarrow> ip4_option list res" where
  "ip4_options_from_buffer buffer = ip4_options_loop buffer 0"

definition ip4_options_len :: "ip4_option list \<Rightarrow> nat" where
  "ip4_options_len opts = sum_list (map ip4_option_len opts)"

definition ip4_options_buffer :: "ip4_option list \<Rightarrow> bytes res" where
  "ip4_options_buffer opts = bind_res (map_res ip4_option_buffer opts) (\<lambda>bss. Inr (concat bss))"

definition ip4_options_validate_integrity :: "bytes \<Rightarrow> nat \<Rightarrow> unit res" where
  "ip4_options_validate_integrity frame hlen = options_walk frame hlen 20"

definition with_copy_flag :: "bool \<Rightarrow> ip4_option list \<Rightarrow> ip4_option list" where
  "with_copy_flag flag opts = filter (\<lambda>opt. copy_flag opt = flag) opts"

definition options_lsrr :: "ip4_option list \<Rightarrow> ip4_option option" where
  "options_lsrr = find_opt (\<lambda>opt. case opt of Ip4Lsrr _ _ \<Rightarrow> Some opt | _ \<Rightarrow> None)"

definition options_ssrr :: "ip4_option list \<Rightarrow> ip4_option option" where
  "options_ssrr = find_opt (\<lambda>opt. case opt of Ip4Ssrr _ _ \<Rightarrow> Some opt | _ \<Rightarrow> None)"

definition options_router_alert :: "ip4_option list \<Rightarrow> ip4_option option" where
  "options_router_alert = find_opt (\<lambda>opt. case opt of Ip4RouterAlert _ \<Rightarrow> Some opt | _ \<Rightarrow> None)"

definition options_rr :: "ip4_option list \<Rightarrow> ip4_option option" where
  "options_rr = find_opt (\<lambda>opt. case opt of Ip4Rr _ _ \<Rightarrow> Some opt | _ \<Rightarrow> None)"

definition options_ip4_timestamp :: "ip4_option list \<Rightarrow> ip4_option option" where
  "options_ip4_timestamp = find_opt (\<lambda>opt. case opt of Ip4Timestamp _ _ _ _ \<Rightarrow> Some opt | _ \<Rightarrow> None)"

definition options_cipso :: "ip4_option list \<Rightarrow> ip4_option option" where
  "options_cipso = find_opt (\<lambda>opt. case opt of Ip4Cipso _ _ \<Rightarrow> Some opt | _ \<Rightarrow> None)"

section \<open>Encoding and decoding one option\<close>

text \<open>The options the constructors return, over addresses the address class returns.\<close>

definition route_ok :: "int \<Rightarrow> ip_address list \<Rightarrow> bool" where
  "route_ok pointer route \<longleftrightarrow> is_uint8 pointer \<and> 4 \<le> pointer \<and> (pointer - 4) mod 4 = 0 \<and> 1 \<le> length route \<and>
     is_uint8 (3 + 4 * int (length route)) \<and> list_all ip4_ok route"

definition entry_ok4 :: "int \<Rightarrow> ip4_timestamp_entry \<Rightarrow> bool" where
  "entry_ok4 flag e \<longleftrightarrow> is_uint32 (fst e) \<and> (flag = 0 \<longleftrightarrow> snd e = None) \<and> (\<forall>a. snd e = Some a \<longrightarrow> ip4_ok a)"

fun ip4_option_ok :: "ip4_option \<Rightarrow> bool" where
  "ip4_option_ok Ip4Eol = True"
| "ip4_option_ok Ip4Nop = True"
| "ip4_option_ok (Ip4Lsrr pointer route) = route_ok pointer route"
| "ip4_option_ok (Ip4Ssrr pointer route) = route_ok pointer route"
| "ip4_option_ok (Ip4RouterAlert v) = is_uint16 v"
| "ip4_option_ok (Ip4Rr pointer route) = route_ok pointer route"
| "ip4_option_ok (Ip4Timestamp pointer overflow flag entries) =
     (is_uint8 pointer \<and> 5 \<le> pointer \<and> 0 \<le> overflow \<and> overflow \<le> 15 \<and> flag \<in> {0, 1, 3} \<and>
      (pointer - 5) mod int (entry_len_for_flag flag) = 0 \<and> 1 \<le> length entries \<and>
      is_uint8 (4 + int (entry_len_for_flag flag * length entries)) \<and> list_all (entry_ok4 flag) entries)"
| "ip4_option_ok (Ip4Cipso doi tags) =
     (is_uint32 doi \<and> list_all cipso_tag_ok tags \<and> 6 + length (concat tags) \<le> 255)"
| "ip4_option_ok (Ip4Unknown t data) =
     (is_uint8 t \<and> t \<notin> set known_ip4_options \<and> is_uint8 (2 + int (length data)))"

lemma length_address_bytes [simp]: "length (address_bytes a) = 4"
  by (simp add: address_bytes_def)

lemma ip4_of_address_bytes: "ip4_ok a \<Longrightarrow> ip4_of_bytes (address_bytes a) = Inr a"
  by (cases a) (simp add: ip4_of_bytes_def address_bytes_def ip4_ok_def be_int_to_bytes)

lemma ip4_of_bytes_total: "length b = 4 \<Longrightarrow> \<exists>a. ip4_of_bytes b = Inr a \<and> ip4_ok a"
  using be_int_bounds [of b] by (simp add: ip4_of_bytes_def ip4_ok_def)

lemma length_concat_addresses: "length (concat (map address_bytes route)) = 4 * length route"
  by (induction route) auto

text \<open>What a reader of an encoded option finds first: its type and its length.\<close>

definition tlv_prefix :: "int \<Rightarrow> nat \<Rightarrow> bytes \<Rightarrow> bool" where
  "tlv_prefix t n bs \<longleftrightarrow> length bs = n \<and> (\<forall>rest. byte_at (bs @ rest) 0 = Inr t \<and> byte_at (bs @ rest) 1 = Inr (int n))"

lemma route_read_back:
  assumes "route_ok pointer route" "route_buffer t pointer route = Inr bs"
  shows "tlv_prefix t (3 + 4 * length route) bs \<and> route_from_buffer t con (bs @ rest) = Inr (con pointer route)"
proof -
  define n where "n = length route"
  define v where "v = 3 + 4 * int n"
  have r: "is_uint8 pointer" "is_uint8 v" "4 \<le> pointer" "(pointer - 4) mod 4 = 0" "1 \<le> n"
    and all: "list_all ip4_ok route"
    using assms(1) by (auto simp: route_ok_def v_def n_def)
  let ?pre = "[word_of_int t, word_of_int v, word_of_int pointer] :: bytes"
  have bs: "bs = ?pre @ concat (map address_bytes route)" and t: "is_uint8 t"
    using assms(2) r by (auto simp: route_buffer_def v_def [symmetric] n_def [symmetric] is_uint8_def split: if_splits)
  have head: "byte_at (bs @ rest) 0 = Inr t" "byte_at (bs @ rest) 1 = Inr v" "byte_at (bs @ rest) 2 = Inr pointer" for rest
    using r t by (simp_all add: bs uint_byte)
  have len: "length bs = 3 + 4 * n" by (simp add: bs length_concat_addresses n_def)
  have "map_res (\<lambda>offset. ip4_of_bytes (bslice (nat offset) (nat offset + 4) (?pre @ concat (map address_bytes route) @ rest)))
      (range_up (int 3) v (int 4)) = Inr route"
    by (rule slots_read) (use all in \<open>auto simp: ip4_of_address_bytes list_all_iff v_def n_def\<close>)
  then have "map_res (\<lambda>offset. ip4_of_bytes (bslice (nat offset) (nat offset + 4) (bs @ rest))) (range_up 3 v 4) = Inr route"
    by (simp add: bs)
  moreover have "7 \<le> v" "(v - 3) mod 4 = 0" "v \<le> int (length (bs @ rest))" "7 \<le> length (bs @ rest)"
    using r(5) len by (simp_all add: v_def)
  ultimately have "route_from_buffer t con (bs @ rest) = mk_route con pointer route"
    using head [of rest] r(3,4) by (simp add: route_from_buffer_def expect_type_def route_integrity_def)
  then show ?thesis
    using r head len by (simp add: mk_route_def tlv_prefix_def v_def n_def)
qed

lemma timestamp_entry_slot: "timestamp_entry_at k buf i = timestamp_entry_at k (bslice i (i + k) buf) 0" if "k = 4 \<or> k = 8"
  using that by (auto simp: timestamp_entry_at_def bslice_def min_def drop_take add.commute)

lemma timestamp_entry_read:
  assumes "entry_ok4 flag e" "flag \<in> {0, 1, 3}"
  shows "\<exists>bs. timestamp_entry_buffer e = Inr bs \<and> length bs = entry_len_for_flag flag \<and>
    timestamp_entry_at (entry_len_for_flag flag) bs 0 = Inr e"
proof -
  obtain ts a where e: "e = (ts, a)" by (cases e)
  have ts: "0 \<le> ts" "ts < 4294967296" using assms(1) by (auto simp: e entry_ok4_def is_uint32_def)
  show ?thesis
  proof (cases a)
    case None
    then have "flag = 0" using assms(1) by (simp add: e entry_ok4_def)
    then show ?thesis using ts None
      by (simp add: e timestamp_entry_buffer_def timestamp_entry_at_def entry_len_for_flag_def bslice_def be_int_to_bytes)
  next
    case (Some b)
    then have "entry_len_for_flag flag = 8" "ip4_ok b"
      using assms by (auto simp: e entry_ok4_def entry_len_for_flag_def)
    then show ?thesis using ts Some
      by (simp add: e timestamp_entry_buffer_def timestamp_entry_at_def bslice_def be_int_to_bytes ip4_of_address_bytes)
  qed
qed

lemma nibbles:
  assumes "0 \<le> x" "x \<le> 15" "0 \<le> y" "y \<le> (15 :: int)"
  shows "is_uint8 (push_bit 4 x OR (y AND 0x0F))" "(push_bit 4 x OR (y AND 0x0F)) AND 0x0F = y"
    "drop_bit 4 (push_bit 4 x OR (y AND 0x0F)) AND 0x0F = x"
proof -
  have y: "y AND 0x0F = y" using assms and_mask_mod [of y 4] by simp
  have d: "push_bit 4 x OR y = 16 * x + y" using push_bit_or [of y 4 x] assms by simp
  show "is_uint8 (push_bit 4 x OR (y AND 0x0F))" "(push_bit 4 x OR (y AND 0x0F)) AND 0x0F = y"
    "drop_bit 4 (push_bit 4 x OR (y AND 0x0F)) AND 0x0F = x"
    unfolding y d using assms and_mask_mod [of "16 * x + y" 4] and_mask_mod [of "(16 * x + y) div 16" 4]
    by (simp_all add: is_uint8_def drop_bit_eq_div)
qed

lemma timestamp_read_back:
  assumes ok: "ip4_option_ok (Ip4Timestamp pointer overflow flag entries)"
    and enc: "ip4_timestamp_buffer pointer overflow flag entries = Inr bs"
  shows "tlv_prefix 68 (4 + entry_len_for_flag flag * length entries) bs \<and>
    ip4_timestamp_from_buffer (bs @ rest) = Inr (Ip4Timestamp pointer overflow flag entries)"
proof -
  define el where "el = entry_len_for_flag flag"
  define v where "v = 4 + int (length entries) * int el"
  define b where "b = push_bit 4 overflow OR (flag AND 0x0F)"
  define eb where "eb e = (case timestamp_entry_buffer e of Inr x \<Rightarrow> x | Inl _ \<Rightarrow> [])" for e
  have o: "is_uint8 pointer" "5 \<le> pointer" "0 \<le> overflow" "overflow \<le> 15" "flag \<in> {0, 1, 3}"
    "(pointer - 5) mod int el = 0" "1 \<le> length entries" "is_uint8 v" "list_all (entry_ok4 flag) entries"
    using ok by (auto simp: el_def v_def mult.commute)
  have el: "el = 4 \<or> el = 8" by (simp add: el_def entry_len_for_flag_def)
  have f: "0 \<le> flag" "flag \<le> 15" using o(5) by auto
  have bits: "is_uint8 b" "b AND 0x0F = flag" "drop_bit 4 b AND 0x0F = overflow"
    unfolding b_def using nibbles [OF o(3,4) f] by simp_all
  have entry: "timestamp_entry_buffer e = Inr (eb e) \<and> length (eb e) = el \<and> timestamp_entry_at el (eb e) 0 = Inr e"
    if "e \<in> set entries" for e
    using timestamp_entry_read [of flag e] o(5,9) that by (auto simp: list_all_iff eb_def el_def)
  have "map_res timestamp_entry_buffer entries = Inr (map eb entries)" by (rule map_res_Inr) (simp add: entry)
  moreover have v: "v = 4 + int el * int (length entries)" by (simp add: v_def mult.commute)
  ultimately have bs: "bs = [68, word_of_int v, word_of_int pointer, word_of_int b] @ concat (map eb entries)"
    using enc o(1,8) bits(1)
    by (auto simp: ip4_timestamp_buffer_def el_def [symmetric] b_def [symmetric] is_uint8_def v [symmetric] split: if_splits)
  have head: "byte_at (bs @ rest) 0 = Inr 68" "byte_at (bs @ rest) 1 = Inr v" "byte_at (bs @ rest) 2 = Inr pointer"
    "byte_at (bs @ rest) 3 = Inr b" for rest
    using o(1,8) bits(1) by (simp_all add: bs uint_byte)
  have "length (concat (map eb es)) = el * length es" if "set es \<subseteq> set entries" for es
    using that by (induction es) (auto simp: entry)
  then have len: "length bs = 4 + el * length entries" by (simp add: bs)
  have "map_res (\<lambda>offset. (\<lambda>x. timestamp_entry_at el x 0)
        (bslice (nat offset) (nat offset + el) ([68, word_of_int v, word_of_int pointer, word_of_int b] @ concat (map eb entries) @ rest)))
      (range_up (int 4) v (int el)) = Inr entries"
    by (rule slots_read) (use el entry in \<open>auto simp: v_def\<close>)
  then have slots: "map_res (\<lambda>offset. timestamp_entry_at el (bs @ rest) (nat offset)) (range_up 4 v (int el)) = Inr entries"
    using timestamp_entry_slot [OF el] by (simp add: bs)
  have "4 + int el \<le> v" using o(7) by (cases "length entries") (simp_all add: v algebra_simps)
  moreover have "(v - 4) mod int el = 0" "v \<le> int (length (bs @ rest))" using len by (simp_all add: v)
  ultimately have "ip4_timestamp_from_buffer (bs @ rest) = mk_ip4_timestamp pointer overflow flag entries"
    using head [of rest] bits(2,3) o(2,5,6) slots
    by (simp add: ip4_timestamp_from_buffer_def expect_type_def ip4_timestamp_integrity_def Let_def el_def [symmetric] len
        del: insert_iff)
  also have "\<dots> = Inr (Ip4Timestamp pointer overflow flag entries)"
    using o by (auto simp: mk_ip4_timestamp_def v el_def list_all_iff entry_ok4_def)
  finally show ?thesis using head len by (simp add: tlv_prefix_def v el_def)
qed

lemma cipso_tags_read:
  assumes "list_all cipso_tag_ok tags" "fin = length (pre @ concat tags)"
  shows "cipso_walk (pre @ concat tags @ rest) fin (length pre) = Inr () \<and>
    cipso_tags (pre @ concat tags @ rest) fin (length pre) = Inr tags"
  using assms
proof (induction tags arbitrary: pre)
  case Nil
  then show ?case by (simp add: cipso_walk.simps cipso_tags.simps)
next
  case (Cons tag tags)
  let ?buf = "pre @ tag @ concat tags @ rest"
  have t: "2 \<le> length tag" "uint (tag ! 1) = int (length tag)" using Cons.prems(1) by (auto simp: cipso_tag_ok_def)
  then have ne: "tag \<noteq> []" by auto
  have at: "byte_at ?buf (length pre + 1) = Inr (int (length tag))"
    using t byte_at_drop [of "length pre" ?buf 1] by (simp add: byte_at_def nth_append)
  have IH: "cipso_walk ?buf fin (length pre + length tag) = Inr ()" "cipso_tags ?buf fin (length pre + length tag) = Inr tags"
    using Cons.IH [of "pre @ tag"] Cons.prems by simp_all
  have "bslice (length pre) (length pre + length tag) ?buf = tag" by (simp add: bslice_def)
  then have "cipso_walk ?buf fin (length pre) = Inr ()" "cipso_tags ?buf fin (length pre) = Inr (tag # tags)"
    unfolding cipso_walk.simps [of ?buf fin "length pre"] cipso_tags.simps [of ?buf fin "length pre"]
    using IH at t ne Cons.prems(2) by simp_all
  then show ?case by simp
qed

lemma cipso_tags_after_walk:
  "cipso_walk buf fin off = Inr () \<Longrightarrow> off \<le> fin \<Longrightarrow> fin \<le> length buf \<Longrightarrow>
   \<exists>tags. cipso_tags buf fin off = Inr tags \<and> list_all cipso_tag_ok tags \<and> off + length (concat tags) = fin"
proof (induction "fin - off" arbitrary: off rule: less_induct)
  case less
  show ?case
  proof (cases "off < fin")
    case True
    obtain v where v: "byte_at buf (off + 1) = Inr v" "2 \<le> v" "off + nat v \<le> fin" "cipso_walk buf fin (off + nat v) = Inr ()"
      using less.prems(1) True by (auto simp: cipso_walk.simps [of buf fin off] split: if_splits)
    have "fin - (off + nat v) < fin - off" using v(2) True by linarith
    then obtain tags where tags: "cipso_tags buf fin (off + nat v) = Inr tags" "list_all cipso_tag_ok tags"
      "off + nat v + length (concat tags) = fin"
      using less.hyps [of "off + nat v"] v less.prems(3) True by auto
    let ?tag = "bslice off (off + nat v) buf"
    have "length ?tag = nat v" using v(3) less.prems(3) by (simp add: length_bslice)
    moreover have "byte_at ?tag 1 = Inr v" using v(1,2) by (simp add: byte_at_bslice)
    ultimately have "cipso_tag_ok ?tag" using v(2) by (auto simp: cipso_tag_ok_def byte_at_Inr)
    then show ?thesis using tags v True \<open>length ?tag = nat v\<close>
      by (intro exI [of _ "?tag # tags"]) (simp add: cipso_tags.simps [of buf fin off])
  qed (use less.prems in \<open>simp add: cipso_tags.simps\<close>)
qed

lemma cipso_read_back:
  assumes ok: "ip4_option_ok (Ip4Cipso doi tags)" and enc: "cipso_buffer doi tags = Inr bs"
  shows "tlv_prefix 134 (6 + length (concat tags)) bs \<and> cipso_from_buffer (bs @ rest) = Inr (Ip4Cipso doi tags)"
proof -
  define n where "n = length (concat tags)"
  define v where "v = 6 + int n"
  have o: "is_uint32 doi" "list_all cipso_tag_ok tags" "n \<le> 249" using ok by (auto simp: n_def)
  have v8: "is_uint8 v" using o(3) by (simp add: v_def is_uint8_def)
  let ?pre = "134 # word_of_int v # to_bytes 4 doi"
  have bs: "bs = ?pre @ concat tags"
    using enc o v8 by (auto simp: cipso_buffer_def n_def [symmetric] v_def [symmetric] is_uint8_def is_uint32_def split: if_splits)
  have head: "byte_at (bs @ rest) 0 = Inr 134" "byte_at (bs @ rest) 1 = Inr v" "be_int (bslice 2 6 (bs @ rest)) = doi" for rest
    using v8 o(1) by (simp_all add: bs uint_byte bslice_def is_uint32_def be_int_to_bytes)
  have walk: "cipso_walk (bs @ rest) (6 + n) 6 = Inr ()" "cipso_tags (bs @ rest) (6 + n) 6 = Inr tags"
    using cipso_tags_read [OF o(2), of "6 + n" ?pre rest] by (simp_all add: bs n_def)
  have len: "length bs = 6 + n" by (simp add: bs n_def)
  have "nat v = 6 + n" by (simp add: v_def)
  then have "cipso_from_buffer (bs @ rest) = mk_cipso doi tags"
    using head [of rest] walk len by (simp add: cipso_from_buffer_def expect_type_def cipso_integrity_def v_def)
  then show ?thesis using o head len by (simp add: mk_cipso_def tlv_prefix_def v_def n_def)
qed

lemma ip4_unknown_read_back:
  assumes "ip4_option_ok (Ip4Unknown t data)" "ip4_unknown_buffer t data = Inr bs"
  shows "tlv_prefix t (2 + length data) bs \<and> ip4_unknown_from_buffer (bs @ rest) = Inr (Ip4Unknown t data)"
  using assms tlv_buffer [of t data bs]
  by (simp add: ip4_unknown_buffer_def ip4_unknown_from_buffer_def mk_ip4_unknown_def tlv_prefix_def nat_2_plus)

lemma router_alert_read_back:
  assumes "is_uint16 v" "router_alert_buffer v = Inr bs"
  shows "tlv_prefix 148 4 bs \<and> router_alert_from_buffer (bs @ rest) = Inr (Ip4RouterAlert v)"
  using assms
  by (auto simp: router_alert_buffer_def router_alert_from_buffer_def expect_type_def fixed_integrity_def mk_router_alert_def
      tlv_prefix_def bslice_def is_uint16_def be_int_to_bytes)

text \<open>Every constructible option encodes to \<open>ip4_option_len\<close> bytes that begin with its type, and is read back from them.\<close>

lemma ip4_option_read_back:
  assumes "ip4_option_ok opt" "ip4_option_buffer opt = Inr bs"
  shows "length bs = ip4_option_len opt \<and> ip4_option_from_buffer (bs @ rest) = Inr opt \<and>
    (opt \<noteq> Ip4Eol \<and> opt \<noteq> Ip4Nop \<longrightarrow> tlv_prefix (ip4_option_type opt) (ip4_option_len opt) bs)"
proof (cases opt)
  case (Ip4Lsrr p r)
  then show ?thesis using assms route_read_back [of p r 131 bs Ip4Lsrr rest]
    by (simp add: ip4_option_from_buffer_def tlv_prefix_def option_kind)
next
  case (Ip4Ssrr p r)
  then show ?thesis using assms route_read_back [of p r 137 bs Ip4Ssrr rest]
    by (simp add: ip4_option_from_buffer_def tlv_prefix_def option_kind)
next
  case (Ip4RouterAlert v)
  then show ?thesis using assms router_alert_read_back [of v bs rest]
    by (simp add: ip4_option_from_buffer_def tlv_prefix_def option_kind)
next
  case (Ip4Rr p r)
  then show ?thesis using assms route_read_back [of p r 7 bs Ip4Rr rest]
    by (simp add: ip4_option_from_buffer_def tlv_prefix_def option_kind)
next
  case (Ip4Timestamp p ov fl es)
  then show ?thesis using assms timestamp_read_back [of p ov fl es bs rest]
    by (simp add: ip4_option_from_buffer_def tlv_prefix_def option_kind)
next
  case (Ip4Cipso d ts)
  then show ?thesis using assms cipso_read_back [of d ts bs rest]
    by (simp add: ip4_option_from_buffer_def tlv_prefix_def option_kind)
next
  case (Ip4Unknown t d)
  then show ?thesis using assms ip4_unknown_read_back [of t d bs rest]
    by (simp add: ip4_option_from_buffer_def tlv_prefix_def option_kind known_ip4_options_def)
qed (use assms in \<open>auto simp: ip4_option_from_buffer_def ip4_eol_from_buffer_def ip4_nop_from_buffer_def expect_type_def bslice_def\<close>)

lemma ip4_option_buffer_total: "ip4_option_ok opt \<Longrightarrow> \<exists>bs. ip4_option_buffer opt = Inr bs"
proof (cases opt)
  case (Ip4Timestamp p ov fl es)
  assume "ip4_option_ok opt"
  then have o: "is_uint8 p" "0 \<le> ov" "ov \<le> 15" "0 \<le> fl" "fl \<le> 15" "fl \<in> {0, 1, 3}"
    "is_uint8 (4 + int (entry_len_for_flag fl * length es))" "list_all (entry_ok4 fl) es"
    using Ip4Timestamp by auto
  have "\<exists>bss. map_res timestamp_entry_buffer es = Inr bss" using o(8)
  proof (induction es)
    case (Cons e es)
    then show ?case using timestamp_entry_read [of fl e] o(6) by auto
  qed simp
  moreover have "\<exists>h. struct_pack [(Fmt_B, 68), (Fmt_B, int (4 + entry_len_for_flag fl * length es)), (Fmt_B, p),
      (Fmt_B, push_bit 4 ov OR (fl AND 0x0F))] = Inr h"
    using o(1,7) nibbles(1) [OF o(2-5)] by (simp add: is_uint8_def)
  ultimately show ?thesis using Ip4Timestamp by (auto simp: ip4_timestamp_buffer_def simp del: struct_pack.simps)
qed (auto simp: route_buffer_def route_ok_def router_alert_buffer_def cipso_buffer_def ip4_unknown_buffer_def uint_checks)

section \<open>Decoding arbitrary bytes\<close>

text \<open>The length each \<open>from_buffer\<close> asserts before it looks at the option.\<close>

definition ip4_min_len :: "int \<Rightarrow> nat" where
  "ip4_min_len kind = (if kind \<in> {131, 137, 7} then 7 else if kind \<in> {148, 68} then 4 else if kind = 134 then 6 else 0)"

definition ip4_excuse :: "py_error \<Rightarrow> bytes \<Rightarrow> bool" where
  "ip4_excuse e buf \<longleftrightarrow> e = IntegrityError \<or>
     (e = AssertionError \<and> (\<exists>kind. byte_at buf 0 = Inr kind \<and> length buf < ip4_min_len kind))"

definition ip4_tlv_outcome :: "int \<Rightarrow> ip4_option res \<Rightarrow> bool" where
  "ip4_tlv_outcome v r \<longleftrightarrow> r = Inl IntegrityError \<or>
     (\<exists>opt. r = Inr opt \<and> ip4_option_ok opt \<and> ip4_option_len opt = nat v \<and> opt \<noteq> Ip4Eol)"

lemma byte_at_uint8: "byte_at buf i = Inr v \<Longrightarrow> is_uint8 v"
  by (auto simp: byte_at_def is_uint8_def split: if_splits)

lemma route_outcome:
  assumes "byte_at buf 0 = Inr t" "byte_at buf 1 = Inr v" "v \<le> int (length buf)" "7 \<le> length buf"
    and con: "\<And>p r. ip4_option_ok (con p r) = route_ok p r" "\<And>p r. ip4_option_len (con p r) = 3 + 4 * length r"
  shows "ip4_tlv_outcome v (route_from_buffer t con buf)"
proof -
  obtain p where p: "byte_at buf 2 = Inr p" using assms(4) by (auto simp: byte_at_def)
  show ?thesis
  proof (cases "7 \<le> v \<and> (v - 3) mod 4 = 0 \<and> 4 \<le> p \<and> (p - 4) mod 4 = 0")
    case True
    define n where "n = nat ((v - 3) div 4)"
    have v: "v = int 3 + int n * int 4" using True by (auto simp: n_def)
    obtain route where route: "map_res (\<lambda>offset. ip4_of_bytes (bslice (nat offset) (nat offset + 4) buf)) (range_up (int 3) v (int 4)) = Inr route"
      "length route = n" "list_all ip4_ok route"
      by (rule slots_total [of 4 v 3 n buf ip4_of_bytes ip4_ok]) (use v assms(3) ip4_of_bytes_total in auto)
    have "is_uint8 p" "is_uint8 v" using byte_at_uint8 p assms(2) by blast+
    moreover have "1 \<le> n" using True v by linarith
    ultimately have ok: "route_ok p route" using True route v by (simp add: route_ok_def mult.commute)
    then have "route_from_buffer t con buf = Inr (con p route)"
      using assms(1-4) p True route(1)
      by (simp add: route_from_buffer_def expect_type_def route_integrity_def mk_route_def route_ok_def)
    moreover have "ip4_option_len (con p route) = nat v" using con(2) route(2) v by simp
    moreover have "con p route \<noteq> Ip4Eol" using con(2) [of p route] by auto
    ultimately show ?thesis using con(1) ok by (simp add: ip4_tlv_outcome_def)
  qed (use assms p in \<open>auto simp: ip4_tlv_outcome_def route_from_buffer_def expect_type_def route_integrity_def\<close>)
qed

lemma timestamp_entry_total:
  "length b = entry_len_for_flag flag \<Longrightarrow> flag \<in> {0, 1, 3} \<Longrightarrow>
   \<exists>e. timestamp_entry_at (entry_len_for_flag flag) b 0 = Inr e \<and> entry_ok4 flag e"
  using ip4_of_bytes_total [of "bslice 0 4 b"]
  by (auto simp: timestamp_entry_at_def entry_len_for_flag_def entry_ok4_def length_bslice split: if_splits)

lemma timestamp_outcome:
  assumes "byte_at buf 0 = Inr 68" "byte_at buf 1 = Inr v" "v \<le> int (length buf)" "4 \<le> length buf"
  shows "ip4_tlv_outcome v (ip4_timestamp_from_buffer buf)"
proof -
  obtain p b where pb: "byte_at buf 2 = Inr p" "byte_at buf 3 = Inr b" using assms(4) by (auto simp: byte_at_def)
  define flag where "flag = b AND 0x0F"
  define el where "el = entry_len_for_flag flag"
  have el: "el = 4 \<or> el = 8" by (simp add: el_def entry_len_for_flag_def)
  show ?thesis
  proof (cases "flag \<in> {0, 1, 3} \<and> 4 + int el \<le> v \<and> (v - 4) mod int el = 0 \<and> 5 \<le> p \<and> (p - 5) mod int el = 0")
    case True
    define n where "n = nat ((v - 4) div int el)"
    have v: "v = int 4 + int n * int el" using True el by (auto simp: n_def)
    obtain es where es: "map_res (\<lambda>offset. timestamp_entry_at el (bslice (nat offset) (nat offset + el) buf) 0) (range_up (int 4) v (int el)) = Inr es"
      "length es = n" "list_all (entry_ok4 flag) es"
      by (rule slots_total [of el v 4 n buf "\<lambda>b. timestamp_entry_at el b 0" "entry_ok4 flag"])
        (use v assms(3) el timestamp_entry_total [of _ flag] True in \<open>auto simp: el_def [symmetric] simp del: insert_iff\<close>)
    have u: "is_uint8 p" "is_uint8 v" using byte_at_uint8 pb(1) assms(2) by blast+
    have n: "1 \<le> n" using True v el by (cases n) auto
    define ov where "ov = drop_bit 4 b AND 0x0F"
    have ov: "0 \<le> ov" "ov \<le> 15" using and_mask_mod [of "drop_bit 4 b" 4] by (simp_all add: ov_def)
    let ?opt = "Ip4Timestamp p ov flag es"
    have v': "4 + int (el * length es) = v" using v es(2) by (simp add: mult.commute)
    have ok: "ip4_option_ok ?opt" using True u n ov es v' by (simp add: el_def [symmetric])
    have "mk_ip4_timestamp p ov flag es = Inr ?opt"
      using ok by (auto simp: mk_ip4_timestamp_def list_all_iff entry_ok4_def)
    moreover have "map_res (\<lambda>offset. timestamp_entry_at el buf (nat offset)) (range_up 4 v (int el)) = Inr es"
      using es(1) timestamp_entry_slot [OF el] by simp
    ultimately have "ip4_timestamp_from_buffer buf = Inr ?opt"
      using assms pb True
      by (simp add: ip4_timestamp_from_buffer_def expect_type_def ip4_timestamp_integrity_def Let_def flag_def [symmetric]
          el_def [symmetric] ov_def [symmetric] del: insert_iff)
    moreover have "ip4_option_len ?opt = nat v"
      using v' by (metis el_def ip4_option_len.simps(7) nat_int of_nat_add of_nat_numeral)
    ultimately show ?thesis using ok by (auto simp: ip4_tlv_outcome_def)
  next
    case False
    then show ?thesis using assms pb
      by (auto simp: ip4_tlv_outcome_def ip4_timestamp_from_buffer_def expect_type_def ip4_timestamp_integrity_def Let_def
          flag_def el_def simp del: insert_iff)
  qed
qed

lemma cipso_walk_error: "cipso_walk buf fin off = Inl e \<Longrightarrow> fin \<le> length buf \<Longrightarrow> e = IntegrityError"
proof (induction "fin - off" arbitrary: off rule: less_induct)
  case less
  have off: "off < fin" using less.prems(1) by (auto simp: cipso_walk.simps split: if_splits)
  show ?case
  proof (cases "fin - off < 2")
    case False
    then have "off + 1 < length buf" using less.prems(2) by linarith
    then obtain v where v: "byte_at buf (off + 1) = Inr v" by (simp add: byte_at_def)
    have step: "cipso_walk buf fin off = (if v < 2 \<or> off + nat v > fin then Inl IntegrityError else cipso_walk buf fin (off + nat v))"
      using off False v by (simp add: cipso_walk.simps [of buf fin off])
    show ?thesis
    proof (cases "v < 2 \<or> off + nat v > fin")
      case False
      then have "fin - (off + nat v) < fin - off" using off by linarith
      then show ?thesis using less step False by simp
    qed (use step less.prems(1) in simp)
  qed (use off less.prems(1) in \<open>simp add: cipso_walk.simps\<close>)
qed

lemma cipso_outcome:
  assumes "byte_at buf 0 = Inr 134" "byte_at buf 1 = Inr v" "v \<le> int (length buf)" "6 \<le> length buf"
  shows "ip4_tlv_outcome v (cipso_from_buffer buf)"
proof (cases "6 \<le> v \<and> cipso_walk buf (nat v) 6 = Inr ()")
  case True
  then have "6 \<le> nat v" "nat v \<le> length buf" using assms(3) by linarith+
  then obtain tags where tags: "cipso_tags buf (nat v) 6 = Inr tags" "list_all cipso_tag_ok tags" "6 + length (concat tags) = nat v"
    using cipso_tags_after_walk [of buf "nat v" 6] True by auto
  have "v \<le> 255" using byte_at_uint8 [OF assms(2)] by (simp add: is_uint8_def)
  then have ok: "ip4_option_ok (Ip4Cipso (be_int (bslice 2 6 buf)) tags)" using tags True by (simp add: length_bslice)
  then have "cipso_from_buffer buf = Inr (Ip4Cipso (be_int (bslice 2 6 buf)) tags)"
    using assms True tags(1) by (simp add: cipso_from_buffer_def expect_type_def cipso_integrity_def mk_cipso_def)
  then show ?thesis using ok tags(3) by (simp add: ip4_tlv_outcome_def)
next
  case False
  show ?thesis
  proof (cases "cipso_walk buf (nat v) 6")
    case (Inl e)
    then have "e = IntegrityError" using cipso_walk_error [OF Inl] assms(3) by simp
    then show ?thesis using Inl assms
      by (auto simp: ip4_tlv_outcome_def cipso_from_buffer_def expect_type_def cipso_integrity_def)
  next
    case (Inr u)
    then show ?thesis using False assms
      by (auto simp: ip4_tlv_outcome_def cipso_from_buffer_def expect_type_def cipso_integrity_def)
  qed
qed

lemma ip4_option_outcome:
  assumes "byte_at buf 0 = Inr kind" "kind \<noteq> 0" "kind \<noteq> 1" "byte_at buf 1 = Inr v" "2 \<le> v" "v \<le> int (length buf)"
  shows "(\<exists>e. ip4_option_from_buffer buf = Inl e \<and> ip4_excuse e buf) \<or> ip4_tlv_outcome v (ip4_option_from_buffer buf)"
proof (cases "length buf < ip4_min_len kind")
  case True
  then have "kind \<in> {131, 137, 7, 148, 68, 134}" by (auto simp: ip4_min_len_def split: if_splits)
  then have "ip4_option_from_buffer buf = Inl AssertionError"
    using True assms(1) by (auto simp: ip4_option_from_buffer_def option_kind ip4_min_len_def expect_type_def
        route_from_buffer_def router_alert_from_buffer_def ip4_timestamp_from_buffer_def cipso_from_buffer_def)
  then show ?thesis using True assms(1) by (auto simp: ip4_excuse_def)
next
  case False
  have k: "is_uint8 kind" "is_uint8 v" using assms(1,4) byte_at_uint8 by blast+
  have l: "2 \<le> length buf" using assms(5,6) by linarith
  consider "kind = 131" | "kind = 137" | "kind = 7" | "kind = 148" | "kind = 68" | "kind = 134" | "kind \<notin> set known_ip4_options"
    using assms(2,3) by (auto simp: known_ip4_options_def)
  then have "ip4_tlv_outcome v (ip4_option_from_buffer buf)"
  proof cases
    case 4
    then show ?thesis using False assms
      by (auto simp: ip4_option_from_buffer_def option_kind ip4_min_len_def router_alert_from_buffer_def expect_type_def
          fixed_integrity_def mk_router_alert_def ip4_tlv_outcome_def length_bslice)
  next
    case 7
    have "length (bslice 2 (nat v) buf) = nat v - 2" using assms(6) by (simp add: length_bslice)
    moreover have "int (nat v - 2) = v - 2" using assms(5) by simp
    ultimately show ?thesis using 7 assms k l
      by (auto simp: ip4_option_from_buffer_def option_kind ip4_unknown_from_buffer_def mk_ip4_unknown_def ip4_tlv_outcome_def
          known_ip4_options_def is_uint8_def)
  qed (use False assms in \<open>simp_all add: ip4_option_from_buffer_def option_kind ip4_min_len_def route_outcome timestamp_outcome cipso_outcome\<close>)
  then show ?thesis by blast
qed

interpretation ip4_opts: tlv_options ip4_option_ok ip4_option_buffer ip4_option_from_buffer ip4_option_len
  "\<lambda>opt. opt = Ip4Eol" ip4_options_loop Ip4Eol Ip4Nop ip4_excuse
proof
  fix opt bs rest
  assume ok: "ip4_option_ok opt"
  then show "\<exists>bs. ip4_option_buffer opt = Inr bs \<and> length bs = ip4_option_len opt"
    using ip4_option_buffer_total ip4_option_read_back by blast
  assume enc: "ip4_option_buffer opt = Inr bs"
  then show "ip4_option_from_buffer (bs @ rest) = Inr opt" using ok ip4_option_read_back by blast
  assume ne: "opt \<noteq> Ip4Eol" "opt \<noteq> Ip4Nop"
  have "2 \<le> ip4_option_len opt" "ip4_option_type opt \<noteq> 0" "ip4_option_type opt \<noteq> 1"
    using ok ne by (cases opt; auto simp: known_ip4_options_def)+
  then show "2 \<le> ip4_option_len opt \<and> byte_at (bs @ rest) 1 = Inr (int (ip4_option_len opt)) \<and>
      (\<exists>kind. byte_at (bs @ rest) 0 = Inr kind \<and> kind \<noteq> 0 \<and> kind \<noteq> 1)"
    using ip4_option_read_back [OF ok enc] ne by (simp add: tlv_prefix_def)
next
  fix buf kind v
  assume "byte_at buf 0 = Inr kind" "kind \<noteq> 0" "kind \<noteq> 1" "byte_at buf 1 = Inr v" "2 \<le> v" "v \<le> int (length buf)"
  note ip4_option_outcome [OF this]
  then show "(\<exists>e. ip4_option_from_buffer buf = Inl e \<and> ip4_excuse e buf) \<or>
      (\<exists>x. ip4_option_from_buffer buf = Inr x \<and> ip4_option_ok x \<and> ip4_option_len x = nat v \<and> x \<noteq> Ip4Eol)"
    by (auto simp: ip4_tlv_outcome_def ip4_excuse_def)
qed (rule ip4_options_loop.simps | simp)+

text \<open>Padding with NOP and keeping a subset of the options keeps them well formed.\<close>

lemma with_copy_flag_ok: "list_all ip4_option_ok opts \<Longrightarrow> list_all ip4_option_ok (with_copy_flag flag opts)"
  by (auto simp: with_copy_flag_def list_all_iff)

lemma with_copy_flag_len: "ip4_options_len (with_copy_flag flag opts) \<le> ip4_options_len opts"
  by (induction opts) (auto simp: with_copy_flag_def ip4_options_len_def)

lemma with_copy_flag_no_end: "Ip4Eol \<notin> set (with_copy_flag True opts)"
  by (simp add: with_copy_flag_def copy_flag_def)

end
