(* ===== verification/Ip4_Codec.thy ===== *)
theory Ip4_Codec
  imports Ip4_Options
begin

text \<open>
  \<^verbatim>\<open>pmd_net_proto/protocols/ip4/\<close>: the IPv4 header (\<^verbatim>\<open>ip4__header.py\<close>), the assemblers of whole
  datagrams and of fragments (\<^verbatim>\<open>ip4__assembler.py\<close>, \<^verbatim>\<open>ip4__base.py\<close>) and the parser
  (\<^verbatim>\<open>ip4__parser.py\<close>), with the raw payload of \<^verbatim>\<open>protocols/raw\<close>.

  The payload of an outgoing datagram is an object of another protocol. The record
  \<open>ip4_payload\<close> is what the IPv4 code uses of it: its class, its length and its two serialisations
  (\<open>__buffer__\<close> and \<open>assemble\<close>) as functions of the pseudo-header sum that the IPv4 code stores in it.
\<close>

section \<open>The header\<close>

datatype ip_proto =
    PROTO_IP6_HBH
  | PROTO_ICMP4
  | PROTO_IGMP
  | PROTO_IP4
  | PROTO_TCP
  | PROTO_UDP
  | PROTO_IP6
  | PROTO_IP6_ROUTING
  | PROTO_IP6_FRAG
  | PROTO_ICMP6
  | PROTO_IP6_NO_NEXT_HEADER
  | PROTO_IP6_DEST_OPTS
  | PROTO_RAW
  | PROTO_UNKNOWN int

fun ip_proto_int :: "ip_proto \<Rightarrow> int" where
  "ip_proto_int PROTO_IP6_HBH = 0"
| "ip_proto_int PROTO_ICMP4 = 1"
| "ip_proto_int PROTO_IGMP = 2"
| "ip_proto_int PROTO_IP4 = 4"
| "ip_proto_int PROTO_TCP = 6"
| "ip_proto_int PROTO_UDP = 17"
| "ip_proto_int PROTO_IP6 = 41"
| "ip_proto_int PROTO_IP6_ROUTING = 43"
| "ip_proto_int PROTO_IP6_FRAG = 44"
| "ip_proto_int PROTO_ICMP6 = 58"
| "ip_proto_int PROTO_IP6_NO_NEXT_HEADER = 59"
| "ip_proto_int PROTO_IP6_DEST_OPTS = 60"
| "ip_proto_int PROTO_RAW = 255"
| "ip_proto_int (PROTO_UNKNOWN v) = v"

definition known_ip_protos :: "ip_proto list" where
  "known_ip_protos =
     [PROTO_IP6_HBH, PROTO_ICMP4, PROTO_IGMP, PROTO_IP4, PROTO_TCP, PROTO_UDP, PROTO_IP6, PROTO_IP6_ROUTING,
      PROTO_IP6_FRAG, PROTO_ICMP6, PROTO_IP6_NO_NEXT_HEADER, PROTO_IP6_DEST_OPTS, PROTO_RAW]"

definition ip_proto_from_int :: "int \<Rightarrow> ip_proto" where
  "ip_proto_from_int v = (case find (\<lambda>p. ip_proto_int p = v) known_ip_protos of Some p \<Rightarrow> p | None \<Rightarrow> PROTO_UNKNOWN v)"

record ip4_header =
  v4_hlen :: int
  v4_dscp :: int
  v4_ecn :: int
  v4_plen :: int
  v4_id :: int
  v4_df :: bool
  v4_mf :: bool
  v4_offset :: int
  v4_ttl :: int
  v4_proto :: ip_proto
  v4_cksum :: int
  v4_src :: ip_address
  v4_dst :: ip_address

definition ip4_header_ok :: "ip4_header \<Rightarrow> bool" where
  "ip4_header_ok h \<longleftrightarrow>
     20 \<le> v4_hlen h \<and> v4_hlen h \<le> 60 \<and> is_4_byte_alligned (v4_hlen h) \<and> is_uint6 (v4_dscp h) \<and> is_uint2 (v4_ecn h) \<and>
     is_uint16 (v4_plen h) \<and> 20 \<le> v4_plen h \<and> is_uint16 (v4_id h) \<and>
     is_uint13 (drop_bit 3 (v4_offset h)) \<and> is_8_byte_alligned (v4_offset h) \<and> is_uint8 (v4_ttl h) \<and>
     is_uint16 (v4_cksum h) \<and> ia_version (v4_src h) = IP4 \<and> ia_version (v4_dst h) = IP4"

definition mk_ip4_header :: "ip4_header \<Rightarrow> ip4_header res" where
  "mk_ip4_header h = passert (ip4_header_ok h) (Inr h)"

definition ip4_fmt :: "wire_fmt list" where
  "ip4_fmt = [Fmt_B, Fmt_B, Fmt_H, Fmt_H, Fmt_H, Fmt_B, Fmt_B, Fmt_H, Fmt_L, Fmt_L]"

definition ip4_header_buffer :: "ip4_header \<Rightarrow> bytes res" where
  "ip4_header_buffer h =
     struct_pack (zip ip4_fmt
       [push_bit 4 4 OR drop_bit 2 (v4_hlen h),
        push_bit 2 (v4_dscp h) OR v4_ecn h,
        v4_plen h,
        v4_id h,
        push_bit 14 (of_bool (v4_df h)) OR push_bit 13 (of_bool (v4_mf h)) OR drop_bit 3 (v4_offset h),
        v4_ttl h,
        ip_proto_int (v4_proto h),
        0,
        ia_int (v4_src h),
        ia_int (v4_dst h)])"

definition ip4_header_from_buffer :: "bytes \<Rightarrow> ip4_header res" where
  "ip4_header_from_buffer buffer =
     bind_res (struct_unpack ip4_fmt (take 20 buffer)) (\<lambda>f.
     bind_res (mk_address IP4 (f ! 8)) (\<lambda>src. bind_res (mk_address IP4 (f ! 9)) (\<lambda>dst.
       mk_ip4_header
         \<lparr>v4_hlen = push_bit 2 (f ! 0 AND 0x0F), v4_dscp = drop_bit 2 (f ! 1), v4_ecn = f ! 1 AND 3,
          v4_plen = f ! 2, v4_id = f ! 3,
          v4_df = (drop_bit 8 (f ! 4) AND 0x40 \<noteq> 0), v4_mf = (drop_bit 8 (f ! 4) AND 0x20 \<noteq> 0),
          v4_offset = push_bit 3 (f ! 4 AND 0x1FFF), v4_ttl = f ! 5, v4_proto = ip_proto_from_int (f ! 6),
          v4_cksum = f ! 7, v4_src = src, v4_dst = dst\<rparr>)))"

section \<open>Payloads\<close>

text \<open>The payload classes; a UDP payload with its ports, a raw one with its protocol.\<close>

datatype payload_kind =
    Payload_Tcp
  | Payload_Udp int int
  | Payload_Icmp4
  | Payload_Igmp
  | Payload_Raw ip_proto

fun ip_proto_from_proto :: "payload_kind \<Rightarrow> ip_proto" where
  "ip_proto_from_proto Payload_Tcp = PROTO_TCP"
| "ip_proto_from_proto (Payload_Udp _ _) = PROTO_UDP"
| "ip_proto_from_proto Payload_Icmp4 = PROTO_ICMP4"
| "ip_proto_from_proto Payload_Igmp = PROTO_IGMP"
| "ip_proto_from_proto (Payload_Raw p) = p"

record ip4_payload =
  pl_kind :: payload_kind
  pl_len :: nat
  pl_buffer :: "int \<Rightarrow> bytes res"
  pl_assemble :: "int \<Rightarrow> bytes res"

definition raw_buffer :: "ip_proto \<Rightarrow> bytes \<Rightarrow> int \<Rightarrow> bytes res" where
  "raw_buffer proto payload pshdr_sum =
     (if proto = PROTO_ICMP6 \<and> 4 \<le> length payload then
        let buffer = put_at 2 [0, 0] payload
        in bind_res (int_to_bytes 2 (inet_cksum [buffer] pshdr_sum)) (\<lambda>ck. Inr (put_at 2 ck buffer))
      else Inr payload)"

definition raw_assemble :: "bytes \<Rightarrow> int \<Rightarrow> bytes res" where
  "raw_assemble payload pshdr_sum = Inr payload"

definition raw_payload :: "ip_proto \<Rightarrow> bytes \<Rightarrow> ip4_payload" where
  "raw_payload proto payload =
     \<lparr>pl_kind = Payload_Raw proto, pl_len = length payload, pl_buffer = raw_buffer proto payload,
      pl_assemble = raw_assemble payload\<rparr>"

section \<open>The assemblers\<close>

text \<open>The payload of a datagram is an object, that of a fragment is bytes.\<close>

datatype ip4_body = Body ip4_payload | Chunk bytes

record ip4_tx =
  t4_header :: ip4_header
  t4_options :: "ip4_option list"
  t4_body :: ip4_body

definition ip4_options_checked :: "ip4_option list \<Rightarrow> 'a res \<Rightarrow> 'a res" where
  "ip4_options_checked opts k =
     passert (ip4_options_len opts \<le> 40)
       (passert (is_4_byte_alligned (int (ip4_options_len opts)))
         (passert (Ip4Eol \<notin> set opts \<or> last opts = Ip4Eol) k))"

text \<open>The header arguments are the fields of \<open>args\<close>; lengths, protocol and fragment fields are replaced.\<close>

definition ip4_assembler :: "ip4_header \<Rightarrow> ip4_option list \<Rightarrow> ip4_payload \<Rightarrow> ip4_tx res" where
  "ip4_assembler args opts payload =
     ip4_options_checked opts
       (bind_res (mk_ip4_header (args\<lparr>v4_hlen := 20 + int (ip4_options_len opts),
           v4_plen := 20 + int (ip4_options_len opts) + int (pl_len payload),
           v4_mf := False, v4_offset := 0, v4_proto := ip_proto_from_proto (pl_kind payload), v4_cksum := 0\<rparr>)) (\<lambda>h.
         Inr \<lparr>t4_header = h, t4_options = opts, t4_body = Body payload\<rparr>))"

definition ip4_frag_assembler :: "ip4_header \<Rightarrow> ip4_option list \<Rightarrow> bytes \<Rightarrow> ip4_tx res" where
  "ip4_frag_assembler args opts chunk =
     ip4_options_checked opts
       (bind_res (mk_ip4_header (args\<lparr>v4_hlen := 20 + int (ip4_options_len opts),
           v4_plen := 20 + int (ip4_options_len opts) + int (length chunk), v4_df := False, v4_cksum := 0\<rparr>)) (\<lambda>h.
         Inr \<lparr>t4_header = h, t4_options = opts, t4_body = Chunk chunk\<rparr>))"

fun body_len :: "ip4_body \<Rightarrow> nat" where
  "body_len (Body p) = pl_len p"
| "body_len (Chunk c) = length c"

definition ip4_tx_len :: "ip4_tx \<Rightarrow> nat" where
  "ip4_tx_len pkt = 20 + ip4_options_len (t4_options pkt) + body_len (t4_body pkt)"

definition ip4_pshdr_sum :: "ip4_header \<Rightarrow> nat \<Rightarrow> int res" where
  "ip4_pshdr_sum h payload_len =
     bind_res (struct_pack [(Fmt_L, ia_int (v4_src h)), (Fmt_L, ia_int (v4_dst h)), (Fmt_B, 0),
         (Fmt_B, ip_proto_int (v4_proto h)), (Fmt_H, int payload_len)]) (\<lambda>pseudo.
       bind_res (struct_unpack [Fmt_L, Fmt_L, Fmt_L] pseudo) (\<lambda>f. Inr (sum_list f)))"

text \<open>The sum the object is given before it is serialised; the other classes do not use it.\<close>

definition payload_sum :: "ip4_tx \<Rightarrow> ip4_payload \<Rightarrow> int res" where
  "payload_sum pkt p =
     (case pl_kind p of
        Payload_Icmp4 \<Rightarrow> Inr 0
      | Payload_Igmp \<Rightarrow> Inr 0
      | _ \<Rightarrow> ip4_pshdr_sum (t4_header pkt) (pl_len p))"

definition ip4_body_bytes :: "ip4_tx \<Rightarrow> bytes res" where
  "ip4_body_bytes pkt =
     (case t4_body pkt of
        Chunk c \<Rightarrow> Inr c
      | Body p \<Rightarrow> bind_res (payload_sum pkt p) (pl_assemble p))"

definition ip4_assemble :: "ip4_tx \<Rightarrow> bytes list res" where
  "ip4_assemble pkt =
     bind_res (ip4_header_buffer (t4_header pkt)) (\<lambda>header.
     bind_res (ip4_options_buffer (t4_options pkt)) (\<lambda>opts.
     bind_res (int_to_bytes 2 (inet_cksum [header, opts] 0)) (\<lambda>cksum.
     bind_res (ip4_body_bytes pkt) (\<lambda>body.
       Inr [put_at 10 cksum header, opts, body]))))"

text \<open>\<open>Ip4.__buffer__\<close>\<close>

definition ip4_buffer :: "ip4_tx \<Rightarrow> bytes res" where
  "ip4_buffer pkt =
     bind_res (ip4_header_buffer (t4_header pkt)) (\<lambda>header.
     bind_res (ip4_options_buffer (t4_options pkt)) (\<lambda>opts.
     let buffer = header @ opts in
     bind_res (int_to_bytes 2 (inet_cksum [buffer] 0)) (\<lambda>cksum.
     bind_res (case t4_body pkt of
         Chunk c \<Rightarrow> Inr c
       | Body p \<Rightarrow> bind_res (payload_sum pkt p) (pl_buffer p)) (\<lambda>body.
       Inr (put_at 10 cksum buffer @ body)))))"

section \<open>The parser\<close>

record ip4_packet =
  p4_header :: ip4_header
  p4_options :: "ip4_option list"
  p4_payload :: bytes

definition ip4_validate_integrity :: "bytes \<Rightarrow> unit res" where
  "ip4_validate_integrity frame =
     (if length frame < 20 then Inl IntegrityError
      else bind_res (byte_at frame 0) (\<lambda>b.
        if drop_bit 4 b \<noteq> 4 then Inl IntegrityError
        else let hlen = push_bit 2 (b AND 0x0F); plen = be_int (bslice 2 4 frame)
             in if \<not> (20 \<le> hlen \<and> hlen \<le> plen \<and> plen \<le> int (length frame)) then Inl IntegrityError
                else if inet_cksum [take (nat hlen) frame] 0 \<noteq> 0 then Inl IntegrityError
                else ip4_options_validate_integrity frame (nat hlen)))"

definition ip4_parse :: "bytes \<Rightarrow> ip4_packet res" where
  "ip4_parse frame =
     bind_res (ip4_header_from_buffer frame) (\<lambda>h.
     bind_res (ip4_options_from_buffer (bslice 20 (nat (v4_hlen h)) frame)) (\<lambda>opts.
       Inr \<lparr>p4_header = h, p4_options = opts, p4_payload = bslice (nat (v4_hlen h)) (nat (v4_plen h)) frame\<rparr>))"

text \<open>The pointer of the field that fails the sanity check, if one does.\<close>

definition ip4_sanity_pointer :: "ip4_header \<Rightarrow> int option" where
  "ip4_sanity_pointer h =
     (if v4_ttl h = 0 then Some 8
      else if ip4_is_invalid (v4_src h) then Some 12
      else if ip4_is_loopback (v4_src h) then Some 12
      else if ip4_is_multicast (v4_src h) then Some 12
      else if ip4_is_reserved (v4_src h) then Some 12
      else if ip4_is_limited_broadcast (v4_src h) then Some 12
      else if v4_df h \<and> v4_mf h then Some 6
      else if v4_df h \<and> v4_offset h \<noteq> 0 then Some 6
      else None)"

text \<open>The stages before the sanity check: what \<open>packet_rx.ip4\<close> holds when it fails.\<close>

definition ip4_parsed :: "bytes \<Rightarrow> ip4_packet res" where
  "ip4_parsed frame = bind_res (ip4_validate_integrity frame) (\<lambda>_. ip4_parse frame)"

definition ip4_parser :: "bytes \<Rightarrow> ip4_packet res" where
  "ip4_parser frame =
     bind_res (ip4_parsed frame) (\<lambda>pkt.
       if ip4_sanity_pointer (p4_header pkt) = None then Inr pkt else Inl SanityError)"

definition ip4_packet_bytes :: "bytes \<Rightarrow> ip4_packet \<Rightarrow> bytes" where
  "ip4_packet_bytes frame pkt = take (20 + ip4_options_len (p4_options pkt) + length (p4_payload pkt)) frame"

section \<open>Bit fields\<close>

lemma frag_word:
  fixes off :: int
  assumes "is_uint13 (drop_bit 3 off)" "is_8_byte_alligned off" "w = push_bit 14 (of_bool df) OR push_bit 13 (of_bool mf) OR drop_bit 3 off"
  shows "0 \<le> w" "w < 65536" "drop_bit 8 w AND 0x40 \<noteq> 0 \<longleftrightarrow> df" "drop_bit 8 w AND 0x20 \<noteq> 0 \<longleftrightarrow> mf" "push_bit 3 (w AND 0x1FFF) = off"
proof -
  define k where "k = drop_bit 3 off"
  have k: "0 \<le> k" "k < 8192" using assms(1) by (simp_all add: k_def is_uint13_def)
  have flags: "w = 16384 * of_bool df + (8192 * of_bool mf + k)"
    using push_bit_or [of k 13 "of_bool mf"] push_bit_or [of "8192 * of_bool mf + k" 14 "of_bool df"] k
    by (simp add: assms(3) k_def [symmetric] del: push_bit_of_Suc_0)
  then show "0 \<le> w" "w < 65536" using k by (cases df; cases mf; simp)+
  have t: "k = take_bit 13 k" using k by (simp add: take_bit_int_eq_self)
  have flag: "drop_bit 8 w AND 2 ^ n \<noteq> 0 \<longleftrightarrow> bit w (8 + n)" for n
    by (simp add: and_exp_eq_0_iff_not_bit bit_simps)
  have b: "\<not> bit k n" if "13 \<le> n" for n by (subst t) (use that in \<open>simp add: bit_simps\<close>)
  show "drop_bit 8 w AND 0x40 \<noteq> 0 \<longleftrightarrow> df"
    using flag [of 6] b by (simp add: assms(3) k_def [symmetric] bit_simps)
  show "drop_bit 8 w AND 0x20 \<noteq> 0 \<longleftrightarrow> mf"
    using flag [of 5] b by (simp add: assms(3) k_def [symmetric] bit_simps)
  have "w AND 0x1FFF = w mod 8192" using and_mask_mod [of w 13] by simp
  also have "\<dots> = (k + (2 * of_bool df + of_bool mf) * 8192) mod 8192" by (simp add: flags algebra_simps)
  also have "\<dots> = k" using k by (simp only: mod_mult_self1) simp
  finally show "push_bit 3 (w AND 0x1FFF) = off"
    using assms(2) by (auto simp: k_def push_bit_eq_mult drop_bit_eq_div is_8_byte_alligned_def)
qed

lemma version_byte:
  assumes "20 \<le> n" "n \<le> 60" "is_4_byte_alligned n" "b = push_bit 4 4 OR drop_bit 2 n"
  shows "is_uint8 b" "drop_bit 4 b = 4" "push_bit 2 (b AND 0x0F) = n"
proof -
  obtain m where n: "n = 4 * m" using assms(3) by (auto simp: is_4_byte_alligned_def)
  have b: "b = 64 + m" using push_bit_or [of m 4 4] assms(1,2) by (simp add: assms(4) n drop_bit_eq_div)
  have "(m + 4 * 16) mod 16 = m mod 16" by (rule mod_mult_self1)
  then have "b mod 16 = m" using assms(1,2) by (simp add: b n add.commute)
  then show "is_uint8 b" "drop_bit 4 b = 4" "push_bit 2 (b AND 0x0F) = n"
    using assms(1,2) and_mask_mod [of b 4] by (auto simp: b n is_uint8_def drop_bit_eq_div push_bit_eq_mult)
qed

lemma tos_byte:
  assumes "is_uint6 d" "is_uint2 e" "b = push_bit 2 d OR e"
  shows "is_uint8 b" "drop_bit 2 b = d" "b AND 3 = e"
proof -
  have "b = 4 * d + e" using push_bit_or [of e 2 d] assms by (simp add: is_uint2_def)
  then show "is_uint8 b" "drop_bit 2 b = d" "b AND 3 = e"
    using assms(1,2) and_mask_mod [of b 2] by (auto simp: is_uint8_def is_uint6_def is_uint2_def drop_bit_eq_div)
qed

section \<open>Reading a header back\<close>

text \<open>A protocol that the wire can name: \<open>PROTO_UNKNOWN\<close> holds no number that has a member of its own.\<close>

definition proto_ok :: "ip_proto \<Rightarrow> bool" where
  "proto_ok p \<longleftrightarrow> is_uint8 (ip_proto_int p) \<and> ip_proto_from_int (ip_proto_int p) = p"

lemma proto_ok_from_int: "is_uint8 v \<Longrightarrow> ip_proto_int (ip_proto_from_int v) = v \<and> proto_ok (ip_proto_from_int v)"
proof -
  assume "is_uint8 v"
  moreover have "ip_proto_int (ip_proto_from_int v) = v"
    by (auto simp: ip_proto_from_int_def find_Some_iff split: option.splits)
  ultimately show ?thesis by (simp add: proto_ok_def)
qed

lemma proto_ok_known [simp]: "proto_ok PROTO_TCP" "proto_ok PROTO_UDP" "proto_ok PROTO_ICMP4" "proto_ok PROTO_IGMP"
  by (simp_all add: proto_ok_def ip_proto_from_int_def known_ip_protos_def is_uint8_def)

text \<open>A header whose addresses and protocol are ones the constructors give.\<close>

definition ip4_header_wf :: "ip4_header \<Rightarrow> bool" where
  "ip4_header_wf h \<longleftrightarrow> ip4_header_ok h \<and> ip4_ok (v4_src h) \<and> ip4_ok (v4_dst h) \<and> proto_ok (v4_proto h)"

lemma ip4_header_fields_ok:
  assumes "ip4_header_wf h"
  shows "list_all field_ok (zip ip4_fmt
    [push_bit 4 4 OR drop_bit 2 (v4_hlen h), push_bit 2 (v4_dscp h) OR v4_ecn h, v4_plen h, v4_id h,
     push_bit 14 (of_bool (v4_df h)) OR push_bit 13 (of_bool (v4_mf h)) OR drop_bit 3 (v4_offset h),
     v4_ttl h, ip_proto_int (v4_proto h), v4_cksum h, ia_int (v4_src h), ia_int (v4_dst h)])"
  using assms version_byte(1) [OF _ _ _ refl, of "v4_hlen h"] tos_byte(1) [OF _ _ refl, of "v4_dscp h" "v4_ecn h"]
    frag_word(1,2) [OF _ _ refl, of "v4_offset h" "v4_df h" "v4_mf h"]
  by (simp add: ip4_header_wf_def ip4_header_ok_def ip4_ok_def proto_ok_def field_ok_def ip4_fmt_def is_uint8_def is_uint16_def
      del: push_bit_of_Suc_0)

lemma ip4_header_buffer_total:
  assumes "ip4_header_wf h"
  obtains bs where "ip4_header_buffer h = Inr bs" "length bs = 20" "bslice 10 12 bs = [0, 0]"
proof -
  have "ip4_header_wf (h\<lparr>v4_cksum := 0\<rparr>)" using assms by (simp add: ip4_header_wf_def ip4_header_ok_def is_uint16_def)
  then have "\<exists>bs. ip4_header_buffer h = Inr bs \<and> length bs = 20 \<and> bslice 10 12 bs = [0, 0]"
    using struct_pack_total [OF ip4_header_fields_ok, of "h\<lparr>v4_cksum := 0\<rparr>"]
    by (simp add: ip4_header_buffer_def ip4_fmt_def bslice_def numeral_2_eq_2 del: struct_pack.simps push_bit_of_Suc_0)
  then show ?thesis using that by blast
qed

lemma ip4_header_read_back:
  assumes wf: "ip4_header_wf h" and enc: "ip4_header_buffer h = Inr bs" and ck: "is_uint16 ck"
  shows "ip4_header_from_buffer (put_at 10 (to_bytes 2 ck) bs @ rest) = Inr (h\<lparr>v4_cksum := ck\<rparr>)"
proof -
  let ?b0 = "push_bit 4 4 OR drop_bit 2 (v4_hlen h)" and ?b1 = "push_bit 2 (v4_dscp h) OR v4_ecn h"
  let ?w = "push_bit 14 (of_bool (v4_df h)) OR push_bit 13 (of_bool (v4_mf h)) OR drop_bit 3 (v4_offset h)"
  let ?vals = "[?b0, ?b1, v4_plen h, v4_id h, ?w, v4_ttl h, ip_proto_int (v4_proto h), ck, ia_int (v4_src h), ia_int (v4_dst h)]"
  let ?H = "h\<lparr>v4_cksum := ck\<rparr>" and ?bs = "put_at 10 (to_bytes 2 ck) bs"
  have ok: "ip4_header_ok ?H" and wf': "ip4_header_wf ?H" and wf0: "ip4_header_wf (h\<lparr>v4_cksum := 0\<rparr>)"
    using wf ck by (simp_all add: ip4_header_wf_def ip4_header_ok_def is_uint16_def)
  have bs: "bs = concat (map (\<lambda>(f, x). to_bytes (fmt_size f) x) (zip ip4_fmt (?vals[7 := 0])))"
    using struct_pack_total [OF ip4_header_fields_ok [OF wf0]] enc
    by (simp add: ip4_header_buffer_def del: struct_pack.simps push_bit_of_Suc_0)
  have "struct_pack (zip ip4_fmt ?vals) = Inr ?bs"
    using struct_pack_total [OF ip4_header_fields_ok [OF wf']]
    by (simp add: bs ip4_fmt_def put_at_def del: struct_pack.simps push_bit_of_Suc_0)
  then have "unpack_fields ip4_fmt ?bs = ?vals" "length ?bs = 20"
    using unpack_fields_pack [of "zip ip4_fmt ?vals" ?bs "[]"] struct_pack_length [of "zip ip4_fmt ?vals"]
    by (simp_all add: ip4_fmt_def calcsize_def del: struct_pack.simps push_bit_of_Suc_0)
  then have f: "struct_unpack ip4_fmt (take 20 (?bs @ rest)) = Inr ?vals"
    by (simp add: struct_unpack_def calcsize_def ip4_fmt_def)
  have n: "?vals ! 0 = ?b0" "?vals ! 1 = ?b1" "?vals ! 2 = v4_plen h" "?vals ! 3 = v4_id h" "?vals ! 4 = ?w" "?vals ! 5 = v4_ttl h"
    "?vals ! 6 = ip_proto_int (v4_proto h)" "?vals ! 7 = ck" "?vals ! 8 = ia_int (v4_src h)" "?vals ! 9 = ia_int (v4_dst h)"
    by (simp_all del: push_bit_of_Suc_0)
  have a: "mk_address IP4 (ia_int (v4_src h)) = Inr (v4_src h)" "mk_address IP4 (ia_int (v4_dst h)) = Inr (v4_dst h)"
    using wf by (auto simp: ip4_header_wf_def ip4_ok_def mk_address_ip4)
  have v: "push_bit 2 (?b0 AND 0x0F) = v4_hlen h" "drop_bit 2 ?b1 = v4_dscp h" "?b1 AND 3 = v4_ecn h"
    "(drop_bit 8 ?w AND 0x40 \<noteq> 0) = v4_df h" "(drop_bit 8 ?w AND 0x20 \<noteq> 0) = v4_mf h" "push_bit 3 (?w AND 0x1FFF) = v4_offset h"
    "ip_proto_from_int (ip_proto_int (v4_proto h)) = v4_proto h"
    using wf version_byte(3) [OF _ _ _ refl, of "v4_hlen h"] tos_byte(2,3) [OF _ _ refl, of "v4_dscp h" "v4_ecn h"]
      frag_word(3-5) [OF _ _ refl, of "v4_offset h" "v4_df h" "v4_mf h"]
    by (simp_all only: ip4_header_wf_def ip4_header_ok_def proto_ok_def)
  have "ip4_header_from_buffer (?bs @ rest) = mk_ip4_header ?H"
    unfolding ip4_header_from_buffer_def f bind_res.simps n a v by (cases h) simp
  then show ?thesis using ok by (simp add: mk_ip4_header_def)
qed

section \<open>Assembling and parsing\<close>

text \<open>A datagram as the assemblers build it, over constructible options, addresses and protocol.\<close>

definition ip4_tx_ok :: "ip4_tx \<Rightarrow> bool" where
  "ip4_tx_ok pkt \<longleftrightarrow> ip4_header_wf (t4_header pkt) \<and> list_all ip4_option_ok (t4_options pkt) \<and>
     Ip4Eol \<notin> set (butlast (t4_options pkt)) \<and> v4_hlen (t4_header pkt) = 20 + int (ip4_options_len (t4_options pkt)) \<and>
     v4_plen (t4_header pkt) = int (ip4_tx_len pkt)"

text \<open>The checksum the assembler writes is the one RFC 1071 asks for.\<close>

definition ip4_sum_exact :: "ip4_tx \<Rightarrow> bool" where
  "ip4_sum_exact pkt =
     (case (ip4_header_buffer (t4_header pkt), ip4_options_buffer (t4_options pkt)) of
        (Inr header, Inr opts) \<Rightarrow> inet_cksum [header, opts] 0 = rfc1071 (header @ opts) 0
      | _ \<Rightarrow> False)"

lemma ip4_options_buffer_total:
  assumes "list_all ip4_option_ok opts"
  obtains bss where "map_res ip4_option_buffer opts = Inr bss" "ip4_options_buffer opts = Inr (concat bss)"
    "length (concat bss) = ip4_options_len opts"
  using ip4_opts.encs_total [OF assms] by (auto simp: ip4_options_buffer_def ip4_options_len_def)

lemma ip4_assemble_total:
  assumes "ip4_tx_ok pkt" "ip4_body_bytes pkt = Inr body"
  obtains hdr bss where "ip4_header_buffer (t4_header pkt) = Inr hdr" "length hdr = 20" "bslice 10 12 hdr = [0, 0]"
    "map_res ip4_option_buffer (t4_options pkt) = Inr bss" "ip4_options_buffer (t4_options pkt) = Inr (concat bss)"
    "length (concat bss) = ip4_options_len (t4_options pkt)"
    "ip4_assemble pkt = Inr [put_at 10 (to_bytes 2 (inet_cksum [hdr, concat bss] 0)) hdr, concat bss, body]"
proof -
  obtain hdr where h: "ip4_header_buffer (t4_header pkt) = Inr hdr" "length hdr = 20" "bslice 10 12 hdr = [0, 0]"
    using ip4_header_buffer_total assms(1) by (auto simp: ip4_tx_ok_def)
  obtain bss where b: "map_res ip4_option_buffer (t4_options pkt) = Inr bss"
      "ip4_options_buffer (t4_options pkt) = Inr (concat bss)" "length (concat bss) = ip4_options_len (t4_options pkt)"
    using ip4_options_buffer_total assms(1) by (auto simp: ip4_tx_ok_def)
  show ?thesis
    using inet_cksum_uint16 [of "[hdr, concat bss]" 0]
    by (intro that [OF h b]) (simp add: ip4_assemble_def h b assms(2) int_to_bytes_def is_uint16_def)
qed

text \<open>The integrity checks as one condition on the bytes.\<close>

definition ip4_hlen :: "bytes \<Rightarrow> int" where
  "ip4_hlen frame = push_bit 2 (uint (frame ! 0) AND 0x0F)"

definition ip4_plen :: "bytes \<Rightarrow> int" where
  "ip4_plen frame = be_int (bslice 2 4 frame)"

lemma ip4_integrity_eq:
  "ip4_validate_integrity frame =
     (if 20 \<le> length frame \<and> drop_bit 4 (uint (frame ! 0)) = 4 \<and> 20 \<le> ip4_hlen frame \<and> ip4_hlen frame \<le> ip4_plen frame \<and>
         ip4_plen frame \<le> int (length frame) \<and> inet_cksum [take (nat (ip4_hlen frame)) frame] 0 = 0
      then options_walk frame (nat (ip4_hlen frame)) 20 else Inl IntegrityError)"
proof (cases "20 \<le> length frame")
  case True
  then have "byte_at frame 0 = Inr (uint (frame ! 0))" by (auto simp: byte_at_def)
  then show ?thesis
    unfolding ip4_validate_integrity_def ip4_options_validate_integrity_def Let_def
    using True by (simp only: bind_res.simps ip4_hlen_def [symmetric] ip4_plen_def [symmetric]) auto
qed (simp add: ip4_validate_integrity_def)

lemma ip4_unpacked:
  assumes "20 \<le> length frame"
  shows "unpack_fields ip4_fmt (take 20 frame) ! 0 = uint (frame ! 0)"
    "unpack_fields ip4_fmt (take 20 frame) ! 2 = ip4_plen frame"
proof -
  have "take (Suc 0) frame = [frame ! 0]" "take 2 (drop (Suc (Suc 0)) (take 20 frame)) = bslice 2 4 frame"
    using assms by (cases frame; auto simp: bslice_def drop_take numeral_2_eq_2)+
  then show "unpack_fields ip4_fmt (take 20 frame) ! 0 = uint (frame ! 0)"
    "unpack_fields ip4_fmt (take 20 frame) ! 2 = ip4_plen frame"
    by (simp_all add: ip4_fmt_def ip4_plen_def)
qed

lemma ip4_header_lengths:
  assumes "ip4_header_from_buffer frame = Inr h" "20 \<le> length frame"
  shows "v4_hlen h = ip4_hlen frame \<and> v4_plen h = ip4_plen frame"
  using assms(1) ip4_unpacked [OF assms(2)]
  by (auto simp: ip4_header_from_buffer_def struct_unpack_def mk_ip4_header_def ip4_hlen_def split: if_splits)

lemma ip4_header_total:
  assumes "20 \<le> length frame" "20 \<le> ip4_hlen frame" "20 \<le> ip4_plen frame"
  shows "\<exists>h. ip4_header_from_buffer frame = Inr h \<and> ip4_header_wf h \<and> v4_hlen h = ip4_hlen frame \<and> v4_plen h = ip4_plen frame"
proof -
  let ?f = "unpack_fields ip4_fmt (take 20 frame)"
  have f: "struct_unpack ip4_fmt (take 20 frame) = Inr ?f"
    using assms(1) by (simp add: struct_unpack_def calcsize_def ip4_fmt_def)
  note n = ip4_unpacked [OF assms(1)]
  have r: "field_ok (ip4_fmt ! i, ?f ! i)" if "i < 10" for i
  proof -
    have "length ip4_fmt = 10" "calcsize ip4_fmt = 20" by (simp_all add: ip4_fmt_def calcsize_def)
    then show ?thesis using unpack_fields_range [of ip4_fmt "take 20 frame"] that assms(1) by (simp add: list_all_length)
  qed
  have u: "is_uint8 (?f ! 1)" "is_uint16 (?f ! 2)" "is_uint16 (?f ! 3)" "is_uint16 (?f ! 4)" "is_uint8 (?f ! 5)" "is_uint8 (?f ! 6)"
    "is_uint16 (?f ! 7)"
    using r [of 1] r [of 2] r [of 3] r [of 4] r [of 5] r [of 6] r [of 7]
    by (simp_all add: field_ok_def ip4_fmt_def is_uint8_def is_uint16_def del: unpack_fields.simps)
  have a: "mk_address IP4 (?f ! i) = Inr \<lparr>ia_version = IP4, ia_int = ?f ! i\<rparr>" "ip4_ok \<lparr>ia_version = IP4, ia_int = ?f ! i\<rparr>"
    if "i = 8 \<or> i = 9" for i
    using r [of i] that by (auto simp: field_ok_def ip4_fmt_def mk_address_ip4 ip4_ok_def simp del: unpack_fields.simps)
  have hl: "ip4_hlen frame \<le> 60" "is_4_byte_alligned (ip4_hlen frame)"
    using and_mask_mod [of "uint (frame ! 0)" 4] by (simp_all add: ip4_hlen_def push_bit_eq_mult is_4_byte_alligned_def)
  have tos: "is_uint6 (drop_bit 2 (?f ! 1))" "is_uint2 (?f ! 1 AND 3)"
    using u(1) and_mask_mod [of "?f ! 1" 2] by (auto simp: is_uint8_def is_uint6_def is_uint2_def drop_bit_eq_div simp del: unpack_fields.simps)
  have off: "is_uint13 (drop_bit 3 (push_bit 3 (?f ! 4 AND 0x1FFF)))" "is_8_byte_alligned (push_bit 3 (?f ! 4 AND 0x1FFF))"
    using and_mask_mod [of "?f ! 4" 13]
    by (auto simp: is_uint13_def drop_bit_eq_div push_bit_eq_mult is_8_byte_alligned_def simp del: unpack_fields.simps)
  show ?thesis
    unfolding ip4_header_from_buffer_def f bind_res.simps a(1) [OF disjI1 [OF refl]] a(1) [OF disjI2 [OF refl]]
      mk_ip4_header_def passert_eq_Inr n ip4_hlen_def [symmetric]
    using assms(2,3) hl tos off u n(2) a(2) proto_ok_from_int [OF u(6)]
    by (simp add: ip4_header_wf_def ip4_header_ok_def del: unpack_fields.simps)
qed

text \<open>The bytes of a datagram with any checksum: the parser returns what was encoded if the header sums up.\<close>

lemma ip4_frame_outcome:
  assumes "ip4_tx_ok pkt" "ip4_header_buffer (t4_header pkt) = Inr hdr" "ip4_options_buffer (t4_options pkt) = Inr ob"
    and "length body = body_len (t4_body pkt)" "is_uint16 ck"
  shows "ip4_parser (put_at 10 (to_bytes 2 ck) hdr @ ob @ body @ trailer) =
    (if inet_cksum [put_at 10 (to_bytes 2 ck) hdr @ ob] 0 \<noteq> 0 then Inl IntegrityError
     else if ip4_sanity_pointer (t4_header pkt) \<noteq> None then Inl SanityError
     else Inr \<lparr>p4_header = (t4_header pkt)\<lparr>v4_cksum := ck\<rparr>, p4_options = t4_options pkt, p4_payload = body\<rparr>)"
proof -
  define hb where "hb = put_at 10 (to_bytes 2 ck) hdr"
  let ?frame = "hb @ ob @ body @ trailer"
  let ?H = "(t4_header pkt)\<lparr>v4_cksum := ck\<rparr>"
  let ?hlen = "20 + ip4_options_len (t4_options pkt)"
  have ok: "ip4_header_wf (t4_header pkt)" "list_all ip4_option_ok (t4_options pkt)"
      "list_all (\<lambda>opt. opt \<noteq> Ip4Eol) (butlast (t4_options pkt))" "v4_hlen (t4_header pkt) = int ?hlen"
      "v4_plen (t4_header pkt) = int (?hlen + length body)"
    using assms(1,4) by (auto simp: ip4_tx_ok_def ip4_tx_len_def list_all_iff)
  have hdr: "length hdr = 20" using ip4_header_buffer_total [OF ok(1)] assms(2) by auto
  obtain bss where b: "map_res ip4_option_buffer (t4_options pkt) = Inr bss" "ob = concat bss" "length ob = ip4_options_len (t4_options pkt)"
    using ip4_options_buffer_total [OF ok(2)] assms(3) by auto
  have l: "length hb = 20" using hdr by (simp add: hb_def length_put_at)
  have H: "ip4_header_from_buffer ?frame = Inr ?H"
    using ip4_header_read_back [OF ok(1) assms(2,5)] by (simp add: hb_def)
  have f0: "?frame ! 0 = hdr ! 0" using hdr by (simp add: hb_def put_at_def nth_append)
  have "uint (hdr ! 0) = push_bit 4 4 OR drop_bit 2 (v4_hlen (t4_header pkt))"
    using assms(2) version_byte(1) [OF _ _ _ refl, of "v4_hlen (t4_header pkt)"] ok(1)
    by (auto simp: ip4_header_buffer_def ip4_fmt_def ip4_header_wf_def ip4_header_ok_def uint_byte split: if_splits)
  then have version: "drop_bit 4 (uint (?frame ! 0)) = 4"
    using version_byte(2) [OF _ _ _ refl, of "v4_hlen (t4_header pkt)"] ok(1)
    by (simp add: f0 ip4_header_wf_def ip4_header_ok_def)
  have lens: "ip4_hlen ?frame = int ?hlen" "ip4_plen ?frame = int (?hlen + length body)"
    using ip4_header_lengths [OF H] l ok(4,5) by simp_all
  have "take ?hlen ?frame = hb @ ob" using l b(3) by simp
  moreover have "options_walk ?frame ?hlen 20 = Inr ()"
    using ip4_opts.walk_encoded [OF ok(2) b(1), of ?hlen hb "body @ trailer"] l b(2,3) by simp
  ultimately have integrity: "ip4_validate_integrity ?frame = (if inet_cksum [hb @ ob] 0 = 0 then Inr () else Inl IntegrityError)"
    unfolding ip4_integrity_eq lens version nat_int using l b(3) by simp
  have opts: "ip4_options_from_buffer (bslice 20 ?hlen ?frame) = Inr (t4_options pkt)"
    using l b(2,3) ip4_opts.loop_encoded [OF ok(2,3) b(1), of "[]" "[]"] by (simp add: bslice_def ip4_options_from_buffer_def)
  have "bslice ?hlen (?hlen + length body) ?frame = body" using l b(3) by (simp add: bslice_def)
  then have "ip4_parse ?frame = Inr \<lparr>p4_header = ?H, p4_options = t4_options pkt, p4_payload = body\<rparr>"
    unfolding ip4_parse_def H bind_res.simps using ok(4,5) opts by (simp del: of_nat_add)
  moreover have "ip4_sanity_pointer ?H = ip4_sanity_pointer (t4_header pkt)" by (simp add: ip4_sanity_pointer_def)
  ultimately show ?thesis
    using integrity by (simp add: ip4_parser_def ip4_parsed_def hb_def [symmetric] del: bind_res_eq_Inr)
qed

lemma ip4_frame_parses:
  assumes "ip4_tx_ok pkt" "ip4_header_buffer (t4_header pkt) = Inr hdr" "ip4_options_buffer (t4_options pkt) = Inr ob"
    and "length body = body_len (t4_body pkt)" "ip4_sanity_pointer (t4_header pkt) = None" "is_uint16 ck"
  shows "ip4_parser (put_at 10 (to_bytes 2 ck) hdr @ ob @ body @ trailer) =
    (if inet_cksum [put_at 10 (to_bytes 2 ck) hdr @ ob] 0 = 0
     then Inr \<lparr>p4_header = (t4_header pkt)\<lparr>v4_cksum := ck\<rparr>, p4_options = t4_options pkt, p4_payload = body\<rparr>
     else Inl IntegrityError)"
  using ip4_frame_outcome [OF assms(1-4,6)] assms(5) by simp

lemma ip4_options_even:
  assumes "ip4_tx_ok pkt" "length ob = ip4_options_len (t4_options pkt)"
  shows "even (length ob)" "length ob \<le> 40"
  using assms by (auto simp: ip4_tx_ok_def ip4_header_wf_def ip4_header_ok_def is_4_byte_alligned_def) presburger

lemma ip4_assembled_parses:
  assumes "ip4_tx_ok pkt" "ip4_body_bytes pkt = Inr body" "length body = body_len (t4_body pkt)"
  obtains bufs ck where "ip4_assemble pkt = Inr bufs"
    "ip4_parser (concat bufs @ trailer) =
       (if \<not> ip4_sum_exact pkt then Inl IntegrityError
        else if ip4_sanity_pointer (t4_header pkt) \<noteq> None then Inl SanityError
        else Inr \<lparr>p4_header = (t4_header pkt)\<lparr>v4_cksum := ck\<rparr>, p4_options = t4_options pkt, p4_payload = body\<rparr>)"
proof -
  obtain hdr bss where a: "ip4_header_buffer (t4_header pkt) = Inr hdr" "length hdr = 20" "bslice 10 12 hdr = [0, 0]"
    "map_res ip4_option_buffer (t4_options pkt) = Inr bss" "ip4_options_buffer (t4_options pkt) = Inr (concat bss)"
    "length (concat bss) = ip4_options_len (t4_options pkt)"
    "ip4_assemble pkt = Inr [put_at 10 (to_bytes 2 (inet_cksum [hdr, concat bss] 0)) hdr, concat bss, body]"
    using ip4_assemble_total [OF assms(1,2)] by blast
  let ?ck = "inet_cksum [hdr, concat bss] 0"
  have "inet_cksum [put_at 10 (to_bytes 2 ?ck) hdr @ concat bss] 0 = 0 \<longleftrightarrow> ip4_sum_exact pkt"
    using cksum_completed [of 10 hdr "[concat bss]" 0 ?ck] a(1-3,5) ip4_options_even [OF assms(1) a(6)]
    by (simp add: ip4_sum_exact_def)
  then show ?thesis
    using ip4_frame_outcome [OF assms(1) a(1,5) assms(3) inet_cksum_uint16, of "[hdr, concat bss]" 0 trailer]
    by (intro that [OF a(7)]) simp
qed

section \<open>Parsing arbitrary bytes\<close>

text \<open>What a parsed packet satisfies, and the exceptions besides the two of the module.\<close>

definition ip4_packet_ok :: "bytes \<Rightarrow> ip4_packet \<Rightarrow> bool" where
  "ip4_packet_ok frame pkt \<longleftrightarrow> ip4_header_wf (p4_header pkt) \<and> list_all ip4_option_ok (p4_options pkt) \<and>
     20 + int (ip4_options_len (p4_options pkt)) \<le> v4_hlen (p4_header pkt) \<and>
     v4_hlen (p4_header pkt) \<le> v4_plen (p4_header pkt) \<and> v4_plen (p4_header pkt) \<le> int (length frame) \<and>
     p4_payload pkt = bslice (nat (v4_hlen (p4_header pkt))) (nat (v4_plen (p4_header pkt))) frame"

definition lone_kind :: "bytes \<Rightarrow> bool" where
  "lone_kind frame \<longleftrightarrow> ip4_hlen frame = int (length frame) \<and> uint (last frame) \<notin> {0, 1}"

definition short_option :: "bytes \<Rightarrow> bool" where
  "short_option frame \<longleftrightarrow>
     (\<exists>i \<ge> 20. int i < ip4_hlen frame \<and> ip4_hlen frame - int i < int (ip4_min_len (uint (frame ! i))))"

lemma ip4_parse_outcome:
  assumes "ip4_validate_integrity frame = Inr ()"
  shows "(\<exists>pkt. ip4_parse frame = Inr pkt \<and> ip4_packet_ok frame pkt) \<or> ip4_parse frame = Inl IntegrityError \<or>
    (ip4_parse frame = Inl AssertionError \<and> short_option frame)"
proof -
  define hlen where "hlen = nat (ip4_hlen frame)"
  have i: "20 \<le> hlen" "int hlen \<le> ip4_plen frame" "ip4_plen frame \<le> int (length frame)" "options_walk frame hlen 20 = Inr ()"
    "ip4_hlen frame = int hlen"
    using assms unfolding ip4_integrity_eq hlen_def by (auto split: if_splits)
  obtain h where h: "ip4_header_from_buffer frame = Inr h" "ip4_header_wf h" "v4_hlen h = int hlen" "v4_plen h = ip4_plen frame"
    using ip4_header_total [of frame] i by auto
  let ?buf = "bslice 20 hlen frame"
  have l: "length ?buf = hlen - 20" using i by (simp add: length_bslice)
  have "loop_outcome ip4_option_ok ip4_option_len Ip4Eol ip4_excuse ?buf 0 (ip4_options_from_buffer ?buf)"
    using ip4_opts.loop_after_walk [of frame hlen 20 0] i by (simp add: ip4_options_from_buffer_def)
  then consider xs where "ip4_options_from_buffer ?buf = Inr xs" "list_all ip4_option_ok xs" "ip4_options_len xs \<le> hlen - 20"
    | "ip4_options_from_buffer ?buf = Inl IntegrityError"
    | j kind where "ip4_options_from_buffer ?buf = Inl AssertionError" "j < hlen - 20" "byte_at (drop j ?buf) 0 = Inr kind"
      "hlen - 20 - j < ip4_min_len kind"
    by (auto simp: loop_outcome_def ip4_excuse_def l ip4_options_len_def)
  then show ?thesis
  proof cases
    case 1
    then show ?thesis using h i by (simp add: ip4_parse_def ip4_packet_ok_def)
  next
    case 3
    then have "kind = uint (frame ! (20 + j))"
      using i by (auto simp: byte_at_drop byte_at_bslice byte_at_Inr split: if_splits)
    then have "short_option frame" using 3 i unfolding short_option_def by (intro exI [of _ "20 + j"]) auto
    then show ?thesis using 3 h by (simp add: ip4_parse_def)
  qed (use h in \<open>simp add: ip4_parse_def\<close>)
qed

lemma ip4_integrity_error:
  assumes "ip4_validate_integrity frame = Inl e"
  shows "e = IntegrityError \<or> (e = IndexError \<and> lone_kind frame)"
proof -
  consider "e = IntegrityError"
    | "20 \<le> ip4_hlen frame" "ip4_hlen frame \<le> int (length frame)" "options_walk frame (nat (ip4_hlen frame)) 20 = Inl e"
    using assms unfolding ip4_integrity_eq by (auto split: if_splits)
  then show ?thesis
  proof cases
    case 2
    then have "e = IntegrityError \<or>
        (e = IndexError \<and> nat (ip4_hlen frame) = length frame \<and> uint (frame ! (length frame - 1)) \<notin> {0, 1})"
      using walk_error [of frame "nat (ip4_hlen frame)" 20 e] by (auto simp: nat_le_iff)
    moreover have "frame \<noteq> []" using 2 by auto
    ultimately show ?thesis using 2 by (auto simp: lone_kind_def last_conv_nth)
  qed simp
qed

section \<open>Properties\<close>

lemma assembler_tx_ok:
  assumes "ip4_assembler args opts payload = Inr pkt \<or> ip4_frag_assembler args opts chunk = Inr pkt"
    and "list_all ip4_option_ok opts" "Ip4Eol \<notin> set (butlast opts)" "ip4_ok (v4_src args)" "ip4_ok (v4_dst args)"
    and "proto_ok (v4_proto (t4_header pkt))"
  shows "ip4_tx_ok pkt \<and> t4_options pkt = opts"
proof -
  have "ip4_header_ok (t4_header pkt)" "t4_options pkt = opts" "v4_src (t4_header pkt) = v4_src args"
    "v4_dst (t4_header pkt) = v4_dst args" "v4_hlen (t4_header pkt) = 20 + int (ip4_options_len opts)"
    "v4_plen (t4_header pkt) = int (ip4_tx_len pkt)"
    using assms(1) unfolding ip4_assembler_def ip4_frag_assembler_def ip4_options_checked_def mk_ip4_header_def
    by (auto simp only: passert_eq_Inr bind_res_eq_Inr sum.inject) (simp_all add: ip4_tx_len_def)
  then show ?thesis using assms(2-6) by (simp add: ip4_tx_ok_def ip4_header_wf_def)
qed

text \<open>
  C19. IPv4 round trip, with every outcome: a datagram or a fragment that an assembler accepts, over IPv4
  addresses, a protocol number of one byte, constructible options of which
  none but the last is an end-of-list and a payload that serialises to its declared length, is encoded
  without error. The parser is given the bytes and any trailing padding. Where the checksum code lost a carry, so
  that the checksum is not the one of RFC 1071, it rejects the datagram with an integrity error; else, where the
  header is one the assembler lets pass and the parser's sanity check refuses (TTL 0, a source that is no
  address of a host, contradictory fragment fields), it rejects it with a sanity error; in every other case it
  returns the header with the checksum filled in, the options and the payload. The header carries the addresses,
  DSCP, ECN, identification and TTL given to the assembler.
\<close>

theorem ip4_packet_roundtrip:
  assumes "ip4_assembler args opts payload = Inr pkt \<or> ip4_frag_assembler args opts chunk = Inr pkt"
    and "list_all ip4_option_ok opts" "Ip4Eol \<notin> set (butlast opts)" "ip4_ok (v4_src args)" "ip4_ok (v4_dst args)"
    and "proto_ok (v4_proto (t4_header pkt))"
    and "ip4_body_bytes pkt = Inr body" "length body = body_len (t4_body pkt)"
  shows "\<exists>bufs ck. ip4_assemble pkt = Inr bufs \<and>
    ip4_parser (concat bufs @ trailer) =
      (if \<not> ip4_sum_exact pkt then Inl IntegrityError
       else if ip4_sanity_pointer (t4_header pkt) \<noteq> None then Inl SanityError
       else Inr \<lparr>p4_header = (t4_header pkt)\<lparr>v4_cksum := ck\<rparr>, p4_options = opts, p4_payload = body\<rparr>) \<and>
    v4_src (t4_header pkt) = v4_src args \<and> v4_dst (t4_header pkt) = v4_dst args \<and>
    v4_dscp (t4_header pkt) = v4_dscp args \<and> v4_ecn (t4_header pkt) = v4_ecn args \<and> v4_id (t4_header pkt) = v4_id args \<and>
    v4_ttl (t4_header pkt) = v4_ttl args"
proof -
  have ok: "ip4_tx_ok pkt" "t4_options pkt = opts" using assembler_tx_ok [OF assms(1-6)] by auto
  have "v4_src (t4_header pkt) = v4_src args \<and> v4_dst (t4_header pkt) = v4_dst args \<and>
    v4_dscp (t4_header pkt) = v4_dscp args \<and> v4_ecn (t4_header pkt) = v4_ecn args \<and> v4_id (t4_header pkt) = v4_id args \<and>
    v4_ttl (t4_header pkt) = v4_ttl args"
    using assms(1) unfolding ip4_assembler_def ip4_frag_assembler_def ip4_options_checked_def mk_ip4_header_def
    by (auto simp only: passert_eq_Inr bind_res_eq_Inr sum.inject) simp_all
  moreover obtain bufs ck where "ip4_assemble pkt = Inr bufs"
    "ip4_parser (concat bufs @ trailer) =
       (if \<not> ip4_sum_exact pkt then Inl IntegrityError
        else if ip4_sanity_pointer (t4_header pkt) \<noteq> None then Inl SanityError
        else Inr \<lparr>p4_header = (t4_header pkt)\<lparr>v4_cksum := ck\<rparr>, p4_options = t4_options pkt, p4_payload = body\<rparr>)"
    by (rule ip4_assembled_parses [OF ok(1) assms(7,8)])
  ultimately show ?thesis unfolding ok(2) by blast
qed

text \<open>A fragment with a record-route option.\<close>

definition sample_ip4_args :: ip4_header where
  "sample_ip4_args = \<lparr>v4_hlen = 0, v4_dscp = 10, v4_ecn = 1, v4_plen = 0, v4_id = 4660, v4_df = True, v4_mf = True,
     v4_offset = 1480, v4_ttl = 64, v4_proto = PROTO_UDP, v4_cksum = 0,
     v4_src = \<lparr>ia_version = IP4, ia_int = 0x0A000001\<rparr>, v4_dst = \<lparr>ia_version = IP4, ia_int = 0x0A000002\<rparr>\<rparr>"

definition sample_ip4_options :: "ip4_option list" where
  "sample_ip4_options = [Ip4Rr 4 [\<lparr>ia_version = IP4, ia_int = 0\<rparr>], Ip4Eol]"

definition sample_ip4_tx :: ip4_tx where
  "sample_ip4_tx = \<lparr>t4_header = sample_ip4_args\<lparr>v4_hlen := 28, v4_plen := 31, v4_df := False\<rparr>,
     t4_options = sample_ip4_options, t4_body = Chunk [1, 2, 3]\<rparr>"

lemma sample_ip4_assembled:
  "ip4_frag_assembler sample_ip4_args sample_ip4_options [1, 2, 3] = Inr sample_ip4_tx"
  by (simp add: ip4_frag_assembler_def ip4_options_checked_def mk_ip4_header_def ip4_header_ok_def uint_checks ip4_options_len_def
      is_4_byte_alligned_def is_8_byte_alligned_def sample_ip4_tx_def sample_ip4_args_def sample_ip4_options_def drop_bit_eq_div)

lemma sample_ip4_options_ok: "list_all ip4_option_ok sample_ip4_options"
  by (simp add: sample_ip4_options_def route_ok_def uint_checks ip4_ok_def)

lemma sample_ip4_facts:
  "Ip4Eol \<notin> set (butlast sample_ip4_options)"
  "ip4_ok (v4_src sample_ip4_args)" "ip4_ok (v4_dst sample_ip4_args)"
  "proto_ok (v4_proto (t4_header sample_ip4_tx))"
  "ip4_body_bytes sample_ip4_tx = Inr [1, 2, 3]" "length [1, 2, 3] = body_len (t4_body sample_ip4_tx)"
  by code_simp+

lemma sample_ip4_exact: "ip4_sum_exact sample_ip4_tx" "ip4_sanity_pointer (t4_header sample_ip4_tx) = None"
  by code_simp+

theorem ip4_packet_roundtrip_witness:
  "\<exists>bufs ck. ip4_assemble sample_ip4_tx = Inr bufs \<and>
    ip4_parser (concat bufs @ [0, 0]) =
      Inr \<lparr>p4_header = (t4_header sample_ip4_tx)\<lparr>v4_cksum := ck\<rparr>, p4_options = sample_ip4_options, p4_payload = [1, 2, 3]\<rparr>"
  using ip4_packet_roundtrip [OF disjI2 [OF sample_ip4_assembled] sample_ip4_options_ok sample_ip4_facts, of "[0, 0]"] sample_ip4_exact
  by auto

text \<open>
  C20. Whatever the bytes, the IPv4 parser returns a well-typed packet (fields in the range of their
  widths, a header length that is a multiple of four and covers the options, both lengths within the frame,
  constructible options, the payload the bytes between the two lengths, and no field the sanity check refuses)
  or raises one of the two validation errors, with two exceptions: an \<open>IndexError\<close> where a lone option kind
  ends both header and frame, and an \<open>AssertionError\<close> where an option of a known type starts closer to the end
  of the header than the shortest encoding of its class.
\<close>

theorem ip4_parser_outcome:
  "case ip4_parser frame of
     Inr pkt \<Rightarrow> ip4_packet_ok frame pkt \<and> ip4_sanity_pointer (p4_header pkt) = None
   | Inl e \<Rightarrow> e \<in> {IntegrityError, SanityError} \<or> (e = IndexError \<and> lone_kind frame) \<or>
       (e = AssertionError \<and> short_option frame)"
proof (cases "ip4_validate_integrity frame")
  case (Inl e)
  then show ?thesis using ip4_integrity_error [OF Inl] by (auto simp: ip4_parser_def ip4_parsed_def)
next
  case (Inr u)
  then show ?thesis
    using ip4_parse_outcome [of frame] by (auto simp: ip4_parser_def ip4_parsed_def simp del: bind_res_eq_Inr)
qed

text \<open>
  The assertion is reached from the wire: a record-route option of length 4 that ends the header passes the
  option walk, and \<open>Ip4OptionRr.from_buffer\<close> asserts seven bytes before it validates the length.
\<close>

definition short_rr_frame :: bytes where
  "short_rr_frame = [0x46, 0, 0, 24, 0, 0, 0, 0, 64, 17, 0x5A, 0xCF, 10, 0, 0, 1, 10, 0, 0, 2, 7, 4, 4, 0]"

lemma short_rr_raises: "ip4_parser short_rr_frame = Inl AssertionError"
  by code_simp

text \<open>An ICMPv6 message over a raw socket: the serialisation the transmit path uses leaves the checksum as given.\<close>

lemma raw_checksum_skipped:
  "raw_buffer PROTO_ICMP6 [128, 0, 0, 0, 0, 1, 0, 1] 0 = Inr [128, 0, 0x7F, 0xFD, 0, 1, 0, 1] \<and>
   raw_assemble [128, 0, 0, 0, 0, 1, 0, 1] 0 = Inr [128, 0, 0, 0, 0, 1, 0, 1]"
  by code_simp

end
