(* ===== verification/Icmp_Errors.thy ===== *)
theory Icmp_Errors
  imports Ip4_Codec Complex_Main
begin

text \<open>
  \<^verbatim>\<open>protocols/icmp/icmp__error_emitter.py\<close> and \<^verbatim>\<open>icmp__inbound_classifier.py\<close>: whether an inbound
  datagram may be answered with an ICMP error. The gate is a function of the datagram; the token
  bucket is a record with the clock reading as an argument, its floats real numbers.
\<close>

section \<open>The gate\<close>

datatype icmp_error_block_reason =
    INBOUND_WAS_ICMP_ERROR
  | INBOUND_DST_IS_BROADCAST
  | INBOUND_DST_IS_MULTICAST
  | INBOUND_SRC_INVALID
  | INBOUND_NON_INITIAL_FRAGMENT
  | RATE_LIMIT_EXCEEDED

record icmp_error_context =
  inbound_was_icmp_error :: bool
  inbound_dst_is_broadcast :: bool
  inbound_dst_is_multicast :: bool
  inbound_src_invalid :: bool
  inbound_non_initial_fragment :: bool
  is_pmtud_response :: bool
  is_param_problem_code_2 :: bool

definition should_emit_icmp_error :: "icmp_error_context \<Rightarrow> icmp_error_block_reason option" where
  "should_emit_icmp_error ctx =
     (if inbound_was_icmp_error ctx then Some INBOUND_WAS_ICMP_ERROR
      else if inbound_dst_is_broadcast ctx then Some INBOUND_DST_IS_BROADCAST
      else if inbound_dst_is_multicast ctx \<and> \<not> (is_pmtud_response ctx \<or> is_param_problem_code_2 ctx)
      then Some INBOUND_DST_IS_MULTICAST
      else if inbound_src_invalid ctx then Some INBOUND_SRC_INVALID
      else if inbound_non_initial_fragment ctx then Some INBOUND_NON_INITIAL_FRAGMENT
      else None)"

text \<open>What the classifier reads of \<open>packet_rx.ip4\<close> and of \<open>packet_rx.ip6\<close>.\<close>

datatype inbound_ip =
    Inbound4 ip4_header
  | Inbound6 ip_address ip_address

definition ip6_is_loopback :: "ip_address \<Rightarrow> bool" where
  "ip6_is_loopback a \<longleftrightarrow> ia_int a = 1"

definition classify_inbound :: "inbound_ip \<Rightarrow> bool \<Rightarrow> bool \<Rightarrow> bool \<Rightarrow> icmp_error_context" where
  "classify_inbound ip was_error pmtud code_2 =
     (case ip of
        Inbound4 h \<Rightarrow>
          \<lparr>inbound_was_icmp_error = was_error,
           inbound_dst_is_broadcast = ip4_is_limited_broadcast (v4_dst h),
           inbound_dst_is_multicast = ip4_is_multicast (v4_dst h),
           inbound_src_invalid = (ip_is_unspecified (v4_src h) \<or> ip4_is_loopback (v4_src h) \<or> ip4_is_multicast (v4_src h) \<or>
             ip4_is_limited_broadcast (v4_src h) \<or> ip4_is_reserved (v4_src h)),
           inbound_non_initial_fragment = (v4_offset h \<noteq> 0),
           is_pmtud_response = pmtud, is_param_problem_code_2 = code_2\<rparr>
      | Inbound6 src dst \<Rightarrow>
          \<lparr>inbound_was_icmp_error = was_error,
           inbound_dst_is_broadcast = False,
           inbound_dst_is_multicast = ip6_is_multicast dst,
           inbound_src_invalid = (ip_is_unspecified src \<or> ip6_is_loopback src \<or> ip6_is_multicast src),
           inbound_non_initial_fragment = False,
           is_pmtud_response = pmtud, is_param_problem_code_2 = code_2\<rparr>)"

section \<open>The token bucket\<close>

record icmp_rate_limiter =
  rl_rate_pps :: int
  rl_burst :: int
  rl_tokens :: real
  rl_last_refill :: "real option"

definition ICMP__ERROR__RATE_PPS :: int where "ICMP__ERROR__RATE_PPS = 100"
definition ICMP__ERROR__BURST :: int where "ICMP__ERROR__BURST = 50"

definition mk_rate_limiter :: "int option \<Rightarrow> int option \<Rightarrow> icmp_rate_limiter res" where
  "mk_rate_limiter rate_pps burst =
     (let rate = (case rate_pps of Some r \<Rightarrow> r | None \<Rightarrow> ICMP__ERROR__RATE_PPS);
          b = (case burst of Some b \<Rightarrow> b | None \<Rightarrow> ICMP__ERROR__BURST)
      in passert (rate > 0) (passert (b > 0)
           (Inr \<lparr>rl_rate_pps = rate, rl_burst = b, rl_tokens = real_of_int b, rl_last_refill = None\<rparr>)))"

definition try_consume :: "real \<Rightarrow> icmp_rate_limiter \<Rightarrow> bool \<times> icmp_rate_limiter" where
  "try_consume now rl =
     (let last_refill = (case rl_last_refill rl of None \<Rightarrow> now | Some t \<Rightarrow> t);
          elapsed = max 0 (now - last_refill);
          tokens = min (real_of_int (rl_burst rl)) (rl_tokens rl + elapsed * real_of_int (rl_rate_pps rl));
          rl = rl\<lparr>rl_last_refill := Some now\<rparr>
      in if tokens \<ge> 1 then (True, rl\<lparr>rl_tokens := tokens - 1\<rparr>) else (False, rl\<lparr>rl_tokens := tokens\<rparr>))"

definition try_emit_icmp_error ::
    "icmp_error_context \<Rightarrow> real \<Rightarrow> icmp_rate_limiter \<Rightarrow> icmp_error_block_reason option \<times> icmp_rate_limiter" where
  "try_emit_icmp_error ctx now rl =
     (case should_emit_icmp_error ctx of
        Some reason \<Rightarrow> (Some reason, rl)
      | None \<Rightarrow> (case try_consume now rl of (granted, rl) \<Rightarrow> (if granted then None else Some RATE_LIMIT_EXCEEDED, rl)))"

text \<open>The verdicts of a sequence of calls.\<close>

fun consume_all :: "real list \<Rightarrow> icmp_rate_limiter \<Rightarrow> bool list \<times> icmp_rate_limiter" where
  "consume_all [] rl = ([], rl)"
| "consume_all (t # ts) rl =
     (case try_consume t rl of (granted, rl) \<Rightarrow> (case consume_all ts rl of (gs, rl) \<Rightarrow> (granted # gs, rl)))"

definition granted :: "bool list \<Rightarrow> nat" where
  "granted gs = length (filter (\<lambda>g. g) gs)"

section \<open>The bound\<close>

definition bucket_ok :: "icmp_rate_limiter \<Rightarrow> bool" where
  "bucket_ok rl \<longleftrightarrow> 0 < rl_rate_pps rl \<and> 0 < rl_burst rl \<and> 0 \<le> rl_tokens rl \<and> rl_tokens rl \<le> real_of_int (rl_burst rl)"

lemma try_consume_facts:
  assumes "bucket_ok rl" "try_consume now rl = (g, rl')"
  shows "bucket_ok rl' \<and> rl_last_refill rl' = Some now \<and> rl_rate_pps rl' = rl_rate_pps rl \<and> rl_burst rl' = rl_burst rl \<and>
    rl_tokens rl' + of_bool g =
      min (real_of_int (rl_burst rl))
        (rl_tokens rl + max 0 (now - (case rl_last_refill rl of None \<Rightarrow> now | Some t \<Rightarrow> t)) * real_of_int (rl_rate_pps rl))"
  using assms by (auto simp: try_consume_def bucket_ok_def Let_def split: if_splits)

lemma consume_all_ok:
  "bucket_ok rl \<Longrightarrow> consume_all ts rl = (gs, rl') \<Longrightarrow>
   bucket_ok rl' \<and> rl_rate_pps rl' = rl_rate_pps rl \<and> rl_burst rl' = rl_burst rl \<and> length gs = length ts"
proof (induction ts arbitrary: rl gs)
  case (Cons t ts)
  obtain g r where g: "try_consume t rl = (g, r)" by (cases "try_consume t rl")
  obtain gs' where "consume_all ts r = (gs', rl')" "gs = g # gs'"
    using Cons.prems(2) g by (auto split: prod.splits)
  then show ?case using Cons.IH try_consume_facts [OF Cons.prems(1) g] by auto
qed simp

lemma consume_all_append:
  "consume_all (xs @ ys) rl = (case consume_all xs rl of (a, r) \<Rightarrow> (case consume_all ys r of (b, r) \<Rightarrow> (a @ b, r)))"
  by (induction xs arbitrary: rl) (auto split: prod.splits)

text \<open>Every grant is paid for by the tokens at the start or by the time that has passed.\<close>

lemma grants_paid:
  assumes "bucket_ok rl" "rl_last_refill rl = Some l" "sorted (l # ts)" "consume_all ts rl = (gs, rl')"
  shows "real (granted gs) \<le> rl_tokens rl + real_of_int (rl_rate_pps rl) * (last (l # ts) - l)"
  using assms
proof (induction ts arbitrary: rl l gs)
  case Nil
  then show ?case by (simp add: granted_def bucket_ok_def)
next
  case (Cons t ts)
  obtain g r where g: "try_consume t rl = (g, r)" by (cases "try_consume t rl")
  obtain gs' where gs': "consume_all ts r = (gs', rl')" "gs = g # gs'"
    using Cons.prems(4) g by (auto split: prod.splits)
  have f: "bucket_ok r" "rl_last_refill r = Some t" "rl_rate_pps r = rl_rate_pps rl"
    "rl_tokens r + of_bool g \<le> rl_tokens rl + (t - l) * real_of_int (rl_rate_pps rl)"
    using try_consume_facts [OF Cons.prems(1) g] Cons.prems(2,3) by auto
  have "real (granted gs') \<le> rl_tokens r + real_of_int (rl_rate_pps r) * (last (t # ts) - t)"
    using Cons.IH [OF f(1,2) _ gs'(1)] Cons.prems(3) by simp
  moreover have "real (granted gs) = of_bool g + real (granted gs')" by (simp add: granted_def gs'(2))
  ultimately have "real (granted gs) \<le> rl_tokens rl + (t - l) * real_of_int (rl_rate_pps rl) +
      real_of_int (rl_rate_pps rl) * (last (t # ts) - t)"
    using f(3,4) by simp
  then show ?case by (simp add: algebra_simps)
qed

lemma idle_call_granted:
  assumes "bucket_ok rl" "rl_last_refill rl = Some l" "1 \<le> real_of_int (rl_rate_pps rl) * (now - l)"
  shows "fst (try_consume now rl)"
proof -
  have "0 < now - l"
  proof (rule ccontr)
    assume "\<not> 0 < now - l"
    then have "real_of_int (rl_rate_pps rl) * (now - l) \<le> 0"
      using assms(1) by (intro mult_nonneg_nonpos) (auto simp: bucket_ok_def)
    then show False using assms(3) by simp
  qed
  then show ?thesis using assms by (auto simp: try_consume_def Let_def bucket_ok_def mult.commute)
qed

text \<open>
  C18. The rate limiter of ICMP errors is a token bucket: whatever calls came before, a run of calls at
  non-decreasing clock readings is granted at most a full burst plus the configured rate for the time from
  the first to the last of them, and a call that comes at least one token's time after the previous one is
  always granted.
\<close>

theorem icmp_errors_limited:
  assumes "mk_rate_limiter rate_pps burst = Inr rl" "consume_all earlier rl = (gs0, mid)"
    and "sorted (t # ts)" "consume_all (t # ts) mid = (gs, rl')"
  shows "real (granted gs) \<le> real_of_int (rl_burst rl) + real_of_int (rl_rate_pps rl) * (last (t # ts) - t) \<and>
    (1 \<le> real_of_int (rl_rate_pps rl) * (now - last (t # ts)) \<longrightarrow> fst (try_consume now rl'))"
proof -
  have ok: "bucket_ok rl" using assms(1) by (auto simp: mk_rate_limiter_def bucket_ok_def Let_def)
  then have mid: "bucket_ok mid" "rl_rate_pps mid = rl_rate_pps rl" "rl_burst mid = rl_burst rl"
    using consume_all_ok assms(2) by auto
  obtain g r where g: "try_consume t mid = (g, r)" by (cases "try_consume t mid")
  obtain gs' where gs': "consume_all ts r = (gs', rl')" "gs = g # gs'"
    using assms(4) g by (auto split: prod.splits)
  have r: "bucket_ok r" "rl_last_refill r = Some t" "rl_rate_pps r = rl_rate_pps rl" "rl_burst r = rl_burst rl"
    "rl_tokens r + of_bool g \<le> real_of_int (rl_burst rl)"
    using try_consume_facts [OF mid(1) g] mid by auto
  have "real (granted gs) = of_bool g + real (granted gs')" by (simp add: granted_def gs'(2))
  then have bound: "real (granted gs) \<le> real_of_int (rl_burst rl) + real_of_int (rl_rate_pps rl) * (last (t # ts) - t)"
    using grants_paid [OF r(1,2) assms(3) gs'(1)] r by auto
  have "rl_last_refill rl' = Some (last (t # ts)) \<and> bucket_ok rl' \<and> rl_rate_pps rl' = rl_rate_pps rl \<and> rl_burst rl' = rl_burst rl"
  proof (cases ts rule: rev_cases)
    case Nil
    then show ?thesis using gs'(1) r by simp
  next
    case (snoc ys y)
    obtain a q where q: "consume_all ys r = (a, q)" by (cases "consume_all ys r")
    obtain h where h: "try_consume y q = (h, rl')" using gs'(1) q by (auto simp: snoc consume_all_append split: prod.splits)
    show ?thesis using consume_all_ok [OF r(1) q] try_consume_facts [OF _ h] r by (auto simp: snoc)
  qed
  then have "fst (try_consume now rl')" if "1 \<le> real_of_int (rl_rate_pps rl) * (now - last (t # ts))"
    using that idle_call_granted [of rl' "last (t # ts)" now] by simp
  then show ?thesis using bound by blast
qed

definition sample_bucket :: icmp_rate_limiter where
  "sample_bucket = \<lparr>rl_rate_pps = 2, rl_burst = 1, rl_tokens = 1, rl_last_refill = None\<rparr>"

lemma sample_bucket_run:
  "mk_rate_limiter (Some 2) (Some 1) = Inr sample_bucket" "consume_all [] sample_bucket = ([], sample_bucket)"
  "consume_all [0, 0, 1] sample_bucket = ([True, False, True], sample_bucket\<lparr>rl_tokens := 0, rl_last_refill := Some 1\<rparr>)"
  by (simp_all add: mk_rate_limiter_def sample_bucket_def try_consume_def Let_def)

theorem icmp_errors_limited_witness:
  "real (granted [True, False, True]) \<le> 1 + 2 * (1 - 0) \<and>
   fst (try_consume (3 / 2) (sample_bucket\<lparr>rl_tokens := 0, rl_last_refill := Some 1\<rparr>))"
  using icmp_errors_limited [OF sample_bucket_run(1,2) _ sample_bucket_run(3), of "3 / 2"]
  by (simp add: sample_bucket_def)

end
