(* ===== verification/Ip_Frag.thy ===== *)
theory Ip_Frag
  imports Ip_Mask Complex_Main "HOL-Library.Multiset"
begin

text \<open>
  \<^verbatim>\<open>protocols/ip/ip_frag.py\<close> and \<^verbatim>\<open>protocols/ip/ip_frag_table.py\<close>: fragmentation of a
  payload, aggregation of ECN codepoints and the reassembly table shared by IPv4 and IPv6.

  The table is a record of the flow dictionary (an association list in insertion order) and
  the timeout; \<open>add_fragment\<close> is the whole method, returning the new table and the tagged
  result. The clock is an argument: \<open>now\<close> is the reading of the expiry sweep, \<open>born\<close> the
  one that stamps a new flow. Offsets are natural numbers, as the header field is unsigned.
\<close>

section \<open>Fragmentation\<close>

definition FRAG_OFFSET_ALIGNMENT__BYTES :: int where
  "FRAG_OFFSET_ALIGNMENT__BYTES = 8"

definition FRAG_OFFSET_ALIGNMENT__MASK :: int where
  "FRAG_OFFSET_ALIGNMENT__MASK = NOT (FRAG_OFFSET_ALIGNMENT__BYTES - 1) AND 0xFFFF"

type_synonym chunk = "nat \<times> bytes \<times> bool"

text \<open>The \<open>while offset < total\<close> loop; None stands for a loop that does not end.\<close>

partial_function (option) chunk_loop :: "bytes \<Rightarrow> nat \<Rightarrow> nat \<Rightarrow> chunk list option" where
  "chunk_loop payload aligned offset =
     (if offset < length payload then
        Option.bind (chunk_loop payload aligned (offset + aligned)) (\<lambda>rest.
          let chunk = take aligned (drop offset payload) in
          Some ((offset, chunk, offset + length chunk \<ge> length payload) # rest))
      else Some [])"

definition iter_fragment_chunks :: "bytes \<Rightarrow> int \<Rightarrow> chunk list option res" where
  "iter_fragment_chunks payload max_chunk_bytes =
     (if max_chunk_bytes < FRAG_OFFSET_ALIGNMENT__BYTES then Inl ValueError
      else Inr (chunk_loop payload (nat (max_chunk_bytes AND FRAG_OFFSET_ALIGNMENT__MASK)) 0))"

section \<open>ECN aggregation\<close>

definition ECN__NOT_ECT :: int where "ECN__NOT_ECT = 0"
definition ECN__ECT_1 :: int where "ECN__ECT_1 = 1"
definition ECN__ECT_0 :: int where "ECN__ECT_0 = 2"
definition ECN__CE :: int where "ECN__CE = 3"

definition aggregate_ecn :: "int list \<Rightarrow> int option" where
  "aggregate_ecn ecns =
     (let seen = remdups ecns in
      if length seen = 1 then Some (hd seen)
      else if ECN__NOT_ECT \<in> set seen then None
      else if ECN__CE \<in> set seen then Some ECN__CE
      else Some ECN__ECT_0)"

section \<open>The reassembly table\<close>

record ip_frag_flow_id =
  ff_src :: ip_address
  ff_dst :: ip_address
  ff_id :: int
  ff_proto :: "int option"

record ip_frag_data =
  fd_timestamp :: real
  fd_header :: bytes
  fd_last :: bool
  fd_payload :: "(nat \<times> bytes) list"
  fd_ecn :: "(nat \<times> int) list"
  fd_discarded :: bool

definition new_frag_data :: "real \<Rightarrow> bytes \<Rightarrow> nat \<Rightarrow> bytes \<Rightarrow> int \<Rightarrow> ip_frag_data" where
  "new_frag_data born header offset payload ecn =
     \<lparr>fd_timestamp = born, fd_header = header, fd_last = False,
      fd_payload = [(offset, payload)], fd_ecn = [(offset, ecn)], fd_discarded = False\<rparr>"

definition received_last_frag :: "ip_frag_data \<Rightarrow> ip_frag_data" where
  "received_last_frag d = d\<lparr>fd_last := True\<rparr>"

definition mark_discarded :: "ip_frag_data \<Rightarrow> ip_frag_data" where
  "mark_discarded d = d\<lparr>fd_discarded := True, fd_payload := []\<rparr>"

datatype ip_frag_add_outcome = PENDING | COMPLETE | OVERLAP | DISCARDED | ECN_MIXED__DROP

record ip_frag_add_result =
  far_outcome :: ip_frag_add_outcome
  far_header :: bytes
  far_payload :: bytes
  far_ecn :: int

definition outcome_only :: "ip_frag_add_outcome \<Rightarrow> ip_frag_add_result" where
  "outcome_only oc = \<lparr>far_outcome = oc, far_header = [], far_payload = [], far_ecn = 0\<rparr>"

type_synonym flows = "(ip_frag_flow_id \<times> ip_frag_data) list"

record ip_frag_table =
  ft_flows :: flows
  ft_timeout :: real

definition IP_FRAG__MAX_FLOWS :: nat where
  "IP_FRAG__MAX_FLOWS = 64"

definition sweep_expired :: "real \<Rightarrow> ip_frag_table \<Rightarrow> ip_frag_table" where
  "sweep_expired now t =
     t\<lparr>ft_flows := filter (\<lambda>(f, d). now - fd_timestamp d < ft_timeout t) (ft_flows t)\<rparr>"

definition overlaps_stored :: "nat \<Rightarrow> bytes \<Rightarrow> (nat \<times> bytes) list \<Rightarrow> bool" where
  "overlaps_stored offset payload stored \<longleftrightarrow>
     list_ex (\<lambda>(stored_offset, stored_chunk).
       offset < stored_offset + length stored_chunk \<and> stored_offset < offset + length payload) stored"

text \<open>Stored fragments in the order \<open>sorted(payload)\<close> visits them.\<close>

definition frag_entries :: "(nat \<times> bytes) list \<Rightarrow> (nat \<times> bytes) list" where
  "frag_entries payload = map (\<lambda>k. (k, the (map_of payload k))) (sort (map fst payload))"

text \<open>The completeness loop: the payload length, or None where the chain has a gap.\<close>

fun chain_length :: "(nat \<times> bytes) list \<Rightarrow> nat \<Rightarrow> nat option" where
  "chain_length [] payload_len = Some payload_len"
| "chain_length ((entry_offset, chunk) # es) payload_len =
     (if entry_offset > payload_len then None else chain_length es (entry_offset + length chunk))"

definition pack_into :: "bytes \<Rightarrow> nat \<Rightarrow> bytes \<Rightarrow> bytes res" where
  "pack_into joined offset chunk =
     (if offset + length chunk > length joined then Inl StructError
      else Inr (take offset joined @ chunk @ drop (offset + length chunk) joined))"

fun join_chunks :: "(nat \<times> bytes) list \<Rightarrow> bytes \<Rightarrow> bytes res" where
  "join_chunks [] joined = Inr joined"
| "join_chunks ((entry_offset, chunk) # es) joined =
     bind_res (pack_into joined entry_offset chunk) (join_chunks es)"

text \<open>The part of \<open>add_fragment\<close> after the fragment is stored in flow \<open>d\<close>.\<close>

definition try_complete ::
  "ip_frag_flow_id \<Rightarrow> ip_frag_data \<Rightarrow> ip_frag_table \<Rightarrow> (ip_frag_table \<times> ip_frag_add_result) res" where
  "try_complete flow_id d t =
     (if \<not> fd_last d then Inr (t, outcome_only PENDING)
      else case chain_length (frag_entries (fd_payload d)) 0 of
        None \<Rightarrow> Inr (t, outcome_only PENDING)
      | Some payload_len \<Rightarrow>
          (case aggregate_ecn (map snd (fd_ecn d)) of
             None \<Rightarrow> Inr (t\<lparr>ft_flows := AList.delete flow_id (ft_flows t)\<rparr>, outcome_only ECN_MIXED__DROP)
           | Some aggregated_ecn \<Rightarrow>
               bind_res (join_chunks (frag_entries (fd_payload d)) (replicate payload_len 0)) (\<lambda>joined.
                 Inr (t\<lparr>ft_flows := AList.delete flow_id (ft_flows t)\<rparr>,
                      \<lparr>far_outcome = COMPLETE, far_header = fd_header d,
                       far_payload = joined, far_ecn = aggregated_ecn\<rparr>))))"

definition store_fragment ::
  "real \<Rightarrow> ip_frag_flow_id \<Rightarrow> nat \<Rightarrow> bytes \<Rightarrow> bool \<Rightarrow> bytes \<Rightarrow> int \<Rightarrow> flows \<Rightarrow> ip_frag_data" where
  "store_fragment born flow_id offset payload flag_mf header ecn flows =
     (let d = (case map_of flows flow_id of
                 Some d \<Rightarrow> d\<lparr>fd_payload := AList.update offset payload (fd_payload d),
                            fd_ecn := AList.update offset ecn (fd_ecn d)\<rparr>
               | None \<Rightarrow> new_frag_data born header offset payload ecn)
      in if \<not> flag_mf then received_last_frag d else d)"

record fragment =
  fr_flow_id :: ip_frag_flow_id
  fr_offset :: nat
  fr_payload :: bytes
  fr_flag_mf :: bool
  fr_header :: bytes
  fr_ecn :: int

text \<open>\<open>add_fragment\<close> after the expiry sweep, and the whole method.\<close>

definition admit_fragment ::
  "real \<Rightarrow> fragment \<Rightarrow> ip_frag_table \<Rightarrow> (ip_frag_table \<times> ip_frag_add_result) res" where
  "admit_fragment born fr t =
     (let flow_id = fr_flow_id fr; offset = fr_offset fr; payload = fr_payload fr;
          flows = ft_flows t; found = map_of flows flow_id in
      if (case found of Some d \<Rightarrow> fd_discarded d | None \<Rightarrow> False) then Inr (t, outcome_only DISCARDED)
      else if found = None \<and> length flows \<ge> IP_FRAG__MAX_FLOWS then Inr (t, outcome_only DISCARDED)
      else if (case found of Some d \<Rightarrow> overlaps_stored offset payload (fd_payload d) | None \<Rightarrow> False)
      then Inr (t\<lparr>ft_flows := AList.update flow_id (mark_discarded (the found)) flows\<rparr>,
                outcome_only OVERLAP)
      else
        (let d = store_fragment born flow_id offset payload (fr_flag_mf fr) (fr_header fr) (fr_ecn fr) flows
         in try_complete flow_id d (t\<lparr>ft_flows := AList.update flow_id d flows\<rparr>)))"

definition add_fragment ::
  "real \<Rightarrow> real \<Rightarrow> fragment \<Rightarrow> ip_frag_table \<Rightarrow> (ip_frag_table \<times> ip_frag_add_result) res" where
  "add_fragment now born fr t =
     (if fr_offset fr = 0 \<and> \<not> fr_flag_mf fr then
        Inr (t, \<lparr>far_outcome = COMPLETE, far_header = fr_header fr,
                 far_payload = fr_payload fr, far_ecn = fr_ecn fr\<rparr>)
      else admit_fragment born fr (sweep_expired now t))"

section \<open>The chunks of a payload\<close>

definition chunk_count :: "bytes \<Rightarrow> nat \<Rightarrow> nat" where
  "chunk_count p c = (length p + (c - 1)) div c"

definition chunk_bytes :: "bytes \<Rightarrow> nat \<Rightarrow> nat \<Rightarrow> bytes" where
  "chunk_bytes p c i = take c (drop (i * c) p)"

definition chunk_at :: "bytes \<Rightarrow> nat \<Rightarrow> nat \<Rightarrow> chunk" where
  "chunk_at p c i = (i * c, chunk_bytes p c i, Suc i = chunk_count p c)"

lemma chunk_count_less: "0 < c \<Longrightarrow> i < chunk_count p c \<longleftrightarrow> i * c < length p"
proof -
  assume c: "0 < c"
  have "i < chunk_count p c \<longleftrightarrow> Suc i * c \<le> length p + (c - 1)"
    unfolding chunk_count_def using c by (simp only: less_eq_div_iff_mult_less_eq Suc_le_eq [symmetric])
  then show ?thesis using c by auto
qed

lemma chunk_length:
  assumes "0 < c" "i < chunk_count p c"
  shows "Suc i < chunk_count p c \<Longrightarrow> length (chunk_bytes p c i) = c"
    and "Suc i = chunk_count p c \<Longrightarrow> i * c + length (chunk_bytes p c i) = length p"
    and "0 < length (chunk_bytes p c i)" and "length (chunk_bytes p c i) \<le> c"
proof -
  have i: "i * c < length p" using chunk_count_less [OF assms(1)] assms(2) by blast
  have s: "Suc i < chunk_count p c \<longleftrightarrow> i * c + c < length p"
    using chunk_count_less [OF assms(1), of "Suc i" p] by (simp add: add.commute)
  show "length (chunk_bytes p c i) = c" if "Suc i < chunk_count p c"
    using that s by (simp add: chunk_bytes_def)
  show "i * c + length (chunk_bytes p c i) = length p" if "Suc i = chunk_count p c"
    using that s i by (simp add: chunk_bytes_def)
  show "0 < length (chunk_bytes p c i)" "length (chunk_bytes p c i) \<le> c"
    using i assms(1) by (auto simp: chunk_bytes_def)
qed

lemma chunk_last_iff:
  assumes "0 < c" "i < chunk_count p c"
  shows "i * c + length (chunk_bytes p c i) \<ge> length p \<longleftrightarrow> Suc i = chunk_count p c"
proof (cases "Suc i < chunk_count p c")
  case True
  then show ?thesis
    using chunk_length(1) [OF assms True] chunk_count_less [OF assms(1), of "Suc i" p] by simp
next
  case False
  then have "Suc i = chunk_count p c" using assms(2) by simp
  then show ?thesis using chunk_length(2) [OF assms] by simp
qed

lemma chunk_loop_eq:
  assumes "0 < c"
  shows "chunk_loop p c (i * c) = Some (map (chunk_at p c) [i..<chunk_count p c])"
proof (induction "chunk_count p c - i" arbitrary: i)
  case 0
  then have "\<not> i < chunk_count p c" by simp
  then show ?case using chunk_count_less [OF assms, of i p] by (simp add: chunk_loop.simps)
next
  case (Suc k)
  then have i: "i < chunk_count p c" by simp
  have "chunk_loop p c (i * c + c) = Some (map (chunk_at p c) [Suc i..<chunk_count p c])"
    using Suc(1) [of "Suc i"] Suc(2) by (simp add: add.commute)
  then show ?case
    using i chunk_count_less [OF assms, of i p] chunk_last_iff [OF assms i]
    by (subst chunk_loop.simps) (simp add: chunk_at_def chunk_bytes_def upt_conv_Cons Let_def)
qed

lemma concat_chunks:
  "0 < c \<Longrightarrow> concat (map (chunk_bytes p c) [0..<i]) = take (i * c) p"
proof (induction i)
  case (Suc i)
  have "take (Suc i * c) p = take (i * c) p @ take c (drop (i * c) p)"
    using take_add [of "i * c" c p] by (simp add: add.commute)
  then show ?case using Suc by (simp add: chunk_bytes_def)
qed simp

lemma concat_all_chunks: "0 < c \<Longrightarrow> concat (map (chunk_bytes p c) [0..<chunk_count p c]) = p"
  using chunk_count_less [of c "chunk_count p c" p] by (simp add: concat_chunks)

text \<open>With a zero step the loop does not end.\<close>

lemma chunk_loop_Some_step: "chunk_loop p c off = Some r \<Longrightarrow> off < length p \<Longrightarrow> 0 < c"
proof -
  assume r: "chunk_loop p c off = Some r" and "off < length p"
  from r have "off < length p \<longrightarrow> 0 < c"
  proof (induction p c off r rule: chunk_loop.raw_induct [rotated, consumes 1, case_names step])
    case (step loop p c off r)
    show ?case
    proof (intro impI)
      assume off: "off < length p"
      with step(2) obtain r' where r': "loop p c (off + c) = Some r'" by (auto simp: bind_eq_Some_conv)
      then have "off + c < length p \<longrightarrow> 0 < c" by (rule step(1))
      then show "0 < c" using off by (cases "c = 0") auto
    qed
  qed
  then show "0 < c" using \<open>off < length p\<close> by blast
qed

lemma aligned_mask: "x AND FRAG_OFFSET_ALIGNMENT__MASK = (x mod 65536) - x mod 8"
proof -
  have "FRAG_OFFSET_ALIGNMENT__MASK = NOT (2 ^ 3 - 1) AND (2 ^ 16 - 1)"
    by (simp add: FRAG_OFFSET_ALIGNMENT__MASK_def FRAG_OFFSET_ALIGNMENT__BYTES_def)
  then have "x AND FRAG_OFFSET_ALIGNMENT__MASK = (x AND (2 ^ 16 - 1)) AND NOT (2 ^ 3 - 1)"
    by (simp only: and.assoc and.commute and.left_commute)
  also have "\<dots> = x mod 2 ^ 16 - (x mod 2 ^ 16) mod 2 ^ 3" by (simp only: and_mask_mod and_not_low)
  also have "\<dots> = x mod 65536 - x mod 8" by (simp add: mod_mod_cancel)
  finally show ?thesis .
qed

section \<open>Contiguous chains of fragments\<close>

text \<open>A strictly sorted list of aligned fragments passes the chain test only without gaps.\<close>

lemma chain_no_gap:
  assumes "chain_length es pl = Some L" "pl \<le> j * c" "sorted_wrt (\<lambda>x y. fst x < fst y) es" "0 < c"
    "\<forall>(off, ch) \<in> set es. j * c \<le> off \<and> c dvd off \<and> length ch \<le> c"
  shows "map fst es = map (\<lambda>i. i * c) [j..<j + length es]"
  using assms
proof (induction es arbitrary: j pl)
  case (Cons e es)
  obtain off ch where e: "e = (off, ch)" by (cases e)
  have off: "off = j * c" using Cons.prems by (auto simp: e split: if_splits)
  have "Suc j * c \<le> off'" if m: "(off', ch') \<in> set es" for off' ch'
  proof -
    have "off < off'" "c dvd off'" using Cons.prems(3,5) m by (auto simp: e)
    then obtain k where k: "off' = k * c" "j < k" using off by (auto elim!: dvdE simp: mult.commute)
    then show ?thesis by (simp only: k mult_le_mono1 Suc_leI)
  qed
  then have "\<forall>(off', ch') \<in> set es. Suc j * c \<le> off' \<and> c dvd off' \<and> length ch' \<le> c"
    using Cons.prems(5) by fastforce
  moreover have "chain_length es (off + length ch) = Some L" using Cons.prems(1) by (auto simp: e split: if_splits)
  moreover have "off + length ch \<le> Suc j * c" using Cons.prems(5) by (simp add: e off)
  ultimately have "map fst es = map (\<lambda>i. i * c) [Suc j..<Suc j + length es]"
    using Cons.IH [of "off + length ch" "Suc j"] Cons.prems(3,4) by simp
  moreover have "[j..<j + length (e # es)] = j # [Suc j..<Suc j + length es]"
    by (simp add: upt_conv_Cons del: upt_Suc)
  ultimately show ?case by (simp add: e off del: upt_Suc)
qed simp

lemma chain_chunks:
  assumes "0 < c" "i \<le> chunk_count p c" "pl = (if i = 0 then 0 else if i = chunk_count p c then length p else i * c)"
  shows "chain_length (map (\<lambda>k. (k * c, chunk_bytes p c k)) [i..<chunk_count p c]) pl = Some (length p)"
  using assms(2,3)
proof (induction "chunk_count p c - i" arbitrary: i pl)
  case 0
  then have "i = chunk_count p c" by simp
  moreover have "length p = 0" if "chunk_count p c = 0" using chunk_count_less [OF assms(1), of 0 p] that by simp
  ultimately show ?case using 0 by simp
next
  case (Suc k)
  then have i: "i < chunk_count p c" by simp
  have "i * c + length (chunk_bytes p c i) = (if Suc i = chunk_count p c then length p else Suc i * c)"
    using chunk_length(1,2) [OF assms(1) i] i by auto
  then have "chain_length (map (\<lambda>k. (k * c, chunk_bytes p c k)) [Suc i..<chunk_count p c])
      (i * c + length (chunk_bytes p c i)) = Some (length p)"
    using Suc(1) [of "Suc i"] Suc(2) i by simp
  moreover have "\<not> pl < i * c" using Suc.prems i by auto
  ultimately show ?case using i by (simp add: upt_conv_Cons)
qed

lemma join_chunks_eq:
  assumes "0 < c" "i \<le> chunk_count p c"
  shows "join_chunks (map (\<lambda>k. (k * c, chunk_bytes p c k)) [i..<chunk_count p c])
      (take (i * c) p @ replicate (length p - i * c) 0) = Inr p"
  using assms(2)
proof (induction "chunk_count p c - i" arbitrary: i)
  case 0
  then have "\<not> i < chunk_count p c" by simp
  then show ?case using chunk_count_less [OF assms(1), of i p] by simp
next
  case (Suc k)
  then have i: "i < chunk_count p c" by simp
  have ic: "i * c < length p" using i chunk_count_less [OF assms(1)] by blast
  let ?ch = "chunk_bytes p c i"
  have len: "length ?ch = min c (length p - i * c)" by (simp add: chunk_bytes_def)
  have tk: "take (Suc i * c) p = take (i * c) p @ ?ch"
    using take_add [of "i * c" c p] by (simp add: chunk_bytes_def add.commute)
  have rest: "length p - i * c - length ?ch = length p - Suc i * c" by (simp add: len add.commute)
  have "pack_into (take (i * c) p @ replicate (length p - i * c) 0) (i * c) ?ch =
      Inr (take (Suc i * c) p @ replicate (length p - Suc i * c) 0)"
    using ic unfolding pack_into_def tk rest [symmetric] by (simp add: len)
  then show ?case using Suc(1) [of "Suc i"] Suc(2) i by (simp add: upt_conv_Cons)
qed

section \<open>A flow under reassembly\<close>

definition frag_at :: "ip_frag_flow_id \<Rightarrow> bytes \<Rightarrow> int \<Rightarrow> bytes \<Rightarrow> nat \<Rightarrow> nat \<Rightarrow> fragment" where
  "frag_at f h e p c i =
     \<lparr>fr_flow_id = f, fr_offset = i * c, fr_payload = chunk_bytes p c i,
      fr_flag_mf = (Suc i \<noteq> chunk_count p c), fr_header = h, fr_ecn = e\<rparr>"

text \<open>The flow after the fragments with the indices \<open>xs\<close> arrived in this order.\<close>

definition flow_after :: "real \<Rightarrow> bytes \<Rightarrow> int \<Rightarrow> bytes \<Rightarrow> nat \<Rightarrow> nat list \<Rightarrow> ip_frag_data" where
  "flow_after b h e p c xs =
     \<lparr>fd_timestamp = b, fd_header = h, fd_last = (\<exists>i \<in> set xs. Suc i = chunk_count p c),
      fd_payload = map (\<lambda>i. (i * c, chunk_bytes p c i)) xs, fd_ecn = map (\<lambda>i. (i * c, e)) xs,
      fd_discarded = False\<rparr>"

lemma frag_entries_indices:
  assumes "0 < c" "distinct xs"
  shows "frag_entries (map (\<lambda>i. (i * c, chunk_bytes p c i)) xs) =
    map (\<lambda>i. (i * c, chunk_bytes p c i)) (sort xs)"
proof -
  have "sorted (map (\<lambda>i. i * c) (sort xs))"
    by (auto simp: sorted_map intro: sorted_wrt_mono_rel [OF _ sorted_sort])
  then have s: "sort (map (\<lambda>i. i * c) xs) = map (\<lambda>i. i * c) (sort xs)"
    by (intro properties_for_sort) simp_all
  have l: "map_of (map (\<lambda>i. (i * c, chunk_bytes p c i)) xs) (i * c) = Some (chunk_bytes p c i)"
    if "i \<in> set xs" for i
  proof (rule map_of_is_SomeI)
    have "inj_on (\<lambda>i. i * c) (set xs)" using assms(1) by (auto intro: inj_onI)
    then show "distinct (map fst (map (\<lambda>i. (i * c, chunk_bytes p c i)) xs))"
      using assms(2) by (simp add: comp_def distinct_map)
  qed (use that in auto)
  show ?thesis by (simp add: frag_entries_def comp_def s l)
qed

lemma aggregate_const: "xs \<noteq> [] \<Longrightarrow> aggregate_ecn (map (\<lambda>_. e) xs) = Some e"
proof -
  assume "xs \<noteq> []"
  then have "remdups (map (\<lambda>_. e) xs) = [e]" 
    by (induction xs rule: list_nonempty_induct) (auto simp: image_constant_conv)
  then show ?thesis by (simp add: aggregate_ecn_def)
qed

lemma chain_none:
  assumes "0 < c" "distinct xs" "set xs \<subset> {..<chunk_count p c}" "i \<in> set xs" "Suc i = chunk_count p c"
  shows "chain_length (map (\<lambda>i. (i * c, chunk_bytes p c i)) (sort xs)) 0 = None"
proof (rule ccontr)
  let ?es = "map (\<lambda>i. (i * c, chunk_bytes p c i)) (sort xs)"
  assume "chain_length ?es 0 \<noteq> None"
  then obtain L where L: "chain_length ?es 0 = Some L" by auto
  have "sorted_wrt (<) (sort xs)" using assms(2) by (simp add: strict_sorted_iff)
  then have "sorted_wrt (\<lambda>x y. fst x < fst y) ?es"
    using assms(1) by (auto simp: sorted_wrt_map intro: sorted_wrt_mono_rel)
  moreover have "\<forall>(off, ch) \<in> set ?es. 0 * c \<le> off \<and> c dvd off \<and> length ch \<le> c"
    by (auto simp: chunk_bytes_def)
  ultimately have "map fst ?es = map (\<lambda>i. i * c) [0..<0 + length ?es]"
    using chain_no_gap [OF L, of 0 c] assms(1) by simp
  then have "map (\<lambda>i. i * c) (sort xs) = map (\<lambda>i. i * c) [0..<length xs]" by (simp add: comp_def)
  then have "sort xs = [0..<length xs]"
    by (rule map_injective) (use assms(1) in \<open>auto intro: injI\<close>)
  then have eq: "set xs = {..<length xs}" by (metis set_sort set_upt lessThan_atLeast0)
  have "i < length xs" using assms(4) unfolding eq by simp
  then have "{..<chunk_count p c} \<subseteq> set xs" unfolding eq assms(5) [symmetric] by auto
  then show False using assms(3) by blast
qed

lemma try_complete_flow:
  assumes "0 < c" "distinct xs" "xs \<noteq> []" "set xs \<subseteq> {..<chunk_count p c}"
  shows "try_complete f (flow_after b h e p c xs) t =
    (if set xs = {..<chunk_count p c}
     then Inr (t\<lparr>ft_flows := AList.delete f (ft_flows t)\<rparr>,
               \<lparr>far_outcome = COMPLETE, far_header = h, far_payload = p, far_ecn = e\<rparr>)
     else Inr (t, outcome_only PENDING))"
proof (cases "set xs = {..<chunk_count p c}")
  case True
  have "sort xs = [0..<chunk_count p c]"
    using True assms(2) by (intro sorted_distinct_set_unique) (auto simp: atLeast0LessThan)
  then have es: "frag_entries (map (\<lambda>i. (i * c, chunk_bytes p c i)) xs) =
      map (\<lambda>k. (k * c, chunk_bytes p c k)) [0..<chunk_count p c]"
    using assms(1,2) by (simp add: frag_entries_indices)
  have "set xs \<noteq> {}" using assms(3) by simp
  then have n: "0 < chunk_count p c" unfolding True by (cases "chunk_count p c") simp_all
  have "chunk_count p c - 1 \<in> set xs" unfolding True using n by simp
  then have last: "\<exists>i \<in> set xs. Suc i = chunk_count p c"
    by (rule bexI [rotated]) (use n in simp)
  have "chain_length (map (\<lambda>k. (k * c, chunk_bytes p c k)) [0..<chunk_count p c]) 0 = Some (length p)"
    using assms(1) by (intro chain_chunks) auto
  moreover have "join_chunks (map (\<lambda>k. (k * c, chunk_bytes p c k)) [0..<chunk_count p c])
      (replicate (length p) 0) = Inr p"
    using join_chunks_eq [OF assms(1), of 0 p] by simp
  ultimately show ?thesis
    using True last assms(3)
    by (simp add: try_complete_def flow_after_def es comp_def aggregate_const)
next
  case False
  then have sub: "set xs \<subset> {..<chunk_count p c}" using assms(4) by blast
  show ?thesis
  proof (cases "\<exists>i \<in> set xs. Suc i = chunk_count p c")
    case last: True
    then obtain i where "i \<in> set xs" "Suc i = chunk_count p c" ..
    from chain_none [OF assms(1,2) sub this] show ?thesis
      using False last by (simp add: try_complete_def flow_after_def frag_entries_indices [OF assms(1,2)])
  qed (use False in \<open>simp add: try_complete_def flow_after_def\<close>)
qed

lemma no_overlap_indices:
  assumes "0 < c" "i \<notin> set xs"
  shows "\<not> overlaps_stored (i * c) (chunk_bytes p c i) (map (\<lambda>i. (i * c, chunk_bytes p c i)) xs)"
proof -
  have "\<not> (i * c < j * c + length (chunk_bytes p c j) \<and> j * c < i * c + length (chunk_bytes p c i))"
    if "j \<noteq> i" for j
  proof -
    have l: "length (chunk_bytes p c k) \<le> c" for k by (simp add: chunk_bytes_def)
    have "Suc j \<le> i \<or> Suc i \<le> j" using that by linarith
    then have "Suc j * c \<le> i * c \<or> Suc i * c \<le> j * c" using mult_le_mono1 by blast
    then show ?thesis using l [of i] l [of j] by auto
  qed
  then show ?thesis using assms(2) by (fastforce simp: overlaps_stored_def list_ex_iff)
qed

text \<open>The table has room for flow \<open>f\<close>, or holds it after the fragments \<open>xs\<close>.\<close>

definition reassembling ::
  "ip_frag_flow_id \<Rightarrow> real \<Rightarrow> bytes \<Rightarrow> int \<Rightarrow> bytes \<Rightarrow> nat \<Rightarrow> nat list \<Rightarrow> ip_frag_table \<Rightarrow> bool" where
  "reassembling f b h e p c xs t \<longleftrightarrow>
     distinct (map fst (ft_flows t)) \<and>
     (if xs = [] then map_of (ft_flows t) f = None \<and> length (ft_flows t) < IP_FRAG__MAX_FLOWS
      else map_of (ft_flows t) f = Some (flow_after b h e p c xs))"

lemma sweep_reassembling:
  assumes "reassembling f b h e p c xs t" "now - b < ft_timeout t"
  shows "reassembling f b h e p c xs (sweep_expired now t)"
proof -
  have len: "length (ft_flows (sweep_expired now t)) \<le> length (ft_flows t)"
    by (simp add: sweep_expired_def)
  have "map_of (ft_flows (sweep_expired now t)) f = map_of (ft_flows t) f"
    using assms
    by (cases "xs = []") (auto simp: sweep_expired_def reassembling_def map_of_filter_value flow_after_def)
  moreover have "distinct (map fst (ft_flows (sweep_expired now t)))"
    using assms(1) by (simp add: reassembling_def sweep_expired_def distinct_fst_filter)
  ultimately show ?thesis
    using assms(1) le_less_trans [OF len] by (cases "xs = []") (auto simp: reassembling_def)
qed

lemma update_index:
  "0 < c \<Longrightarrow> i \<notin> set xs \<Longrightarrow>
   AList.update (i * c) v (map (\<lambda>i. (i * c, g i)) xs) = map (\<lambda>i. (i * c, g i)) xs @ [(i * c :: nat, v)]"
  by (rule update_new) auto

lemma store_reassembling:
  assumes "reassembling f b h e p c xs t" "0 < c" "i \<notin> set xs"
    "xs = [] \<Longrightarrow> b = born \<and> h = hdr"
  shows "store_fragment born f (i * c) (chunk_bytes p c i) (Suc i \<noteq> chunk_count p c) hdr e (ft_flows t) =
      flow_after b h e p c (xs @ [i])"
proof (cases "xs = []")
  case True
  then show ?thesis
    using assms by (auto simp: reassembling_def store_fragment_def new_frag_data_def Let_def
        received_last_frag_def flow_after_def)
next
  case False
  then show ?thesis
    using assms(1) by (auto simp: reassembling_def store_fragment_def received_last_frag_def
        flow_after_def update_index [OF assms(2,3)] Let_def)
qed

lemma add_fragment_reassembling:
  assumes "reassembling f b h e p c xs t" "0 < c" "distinct (xs @ [i])"
    "set (xs @ [i]) \<subseteq> {..<chunk_count p c}" "2 \<le> chunk_count p c" "now - b < ft_timeout t"
    "xs = [] \<Longrightarrow> b = born \<and> h = hdr"
  shows "\<exists>t'. ft_timeout t' = ft_timeout t \<and>
    (if set (xs @ [i]) = {..<chunk_count p c}
     then map_of (ft_flows t') f = None \<and>
       add_fragment now born (frag_at f hdr e p c i) t =
         Inr (t', \<lparr>far_outcome = COMPLETE, far_header = h, far_payload = p, far_ecn = e\<rparr>)
     else reassembling f b h e p c (xs @ [i]) t' \<and>
       add_fragment now born (frag_at f hdr e p c i) t = Inr (t', outcome_only PENDING))"
proof -
  let ?t = "sweep_expired now t" and ?d = "flow_after b h e p c (xs @ [i])"
  let ?t' = "?t\<lparr>ft_flows := AList.update f ?d (ft_flows ?t)\<rparr>"
  have r: "reassembling f b h e p c xs ?t" by (rule sweep_reassembling [OF assms(1,6)])
  have i: "i \<notin> set xs" using assms(3) by simp
  have st: "store_fragment born f (i * c) (chunk_bytes p c i) (Suc i \<noteq> chunk_count p c) hdr e (ft_flows ?t) = ?d"
    by (rule store_reassembling [OF r assms(2) i assms(7)])
  have not_atomic: "\<not> (i * c = 0 \<and> Suc i = chunk_count p c)" using assms(2,5) by auto
  have "add_fragment now born (frag_at f hdr e p c i) t = try_complete f ?d ?t'"
    using r not_atomic no_overlap_indices [OF assms(2) i, of p] st
    by (auto simp: add_fragment_def admit_fragment_def frag_at_def Let_def reassembling_def flow_after_def
        split: if_splits)
  also have "\<dots> = (if set (xs @ [i]) = {..<chunk_count p c}
      then Inr (?t'\<lparr>ft_flows := AList.delete f (ft_flows ?t')\<rparr>,
               \<lparr>far_outcome = COMPLETE, far_header = h, far_payload = p, far_ecn = e\<rparr>)
      else Inr (?t', outcome_only PENDING))"
    using assms(2-4) by (intro try_complete_flow) auto
  finally have run: "add_fragment now born (frag_at f hdr e p c i) t = \<dots>" .
  have "reassembling f b h e p c (xs @ [i]) ?t'"
    using r by (simp add: reassembling_def distinct_update update_conv')
  moreover have "map_of (AList.delete f (ft_flows ?t')) f = None" by (simp add: delete_conv')
  moreover have "ft_timeout ?t' = ft_timeout t" by (simp add: sweep_expired_def)
  ultimately show ?thesis unfolding run by (auto simp del: set_append)
qed

text \<open>A run of the table over timed fragments, collecting the results.\<close>

fun run_fragments ::
  "(real \<times> real \<times> fragment) list \<Rightarrow> ip_frag_table \<Rightarrow> (ip_frag_table \<times> ip_frag_add_result list) res" where
  "run_fragments [] t = Inr (t, [])"
| "run_fragments ((now, born, fr) # frs) t =
     bind_res (add_fragment now born fr t) (\<lambda>(t, r).
     bind_res (run_fragments frs t) (\<lambda>(t, rs). Inr (t, r # rs)))"

definition complete_result :: "bytes \<Rightarrow> bytes \<Rightarrow> int \<Rightarrow> ip_frag_add_result" where
  "complete_result h p e = \<lparr>far_outcome = COMPLETE, far_header = h, far_payload = p, far_ecn = e\<rparr>"

lemma run_reassembling:
  assumes "reassembling f b h e p c xs t" "0 < c" "2 \<le> chunk_count p c" "as \<noteq> []"
    "distinct (xs @ map (snd \<circ> snd \<circ> snd) as)"
    "set (xs @ map (snd \<circ> snd \<circ> snd) as) = {..<chunk_count p c}"
    "\<forall>a \<in> set as. fst a - b < ft_timeout t"
    "xs = [] \<Longrightarrow> fst (snd (hd as)) = b \<and> fst (snd (snd (hd as))) = h"
  shows "\<exists>t'. map_of (ft_flows t') f = None \<and>
    run_fragments (map (\<lambda>(now, born, hdr, i). (now, born, frag_at f hdr e p c i)) as) t =
      Inr (t', replicate (length as - 1) (outcome_only PENDING) @ [complete_result h p e])"
  using assms
proof (induction as arbitrary: xs t)
  case (Cons a as)
  obtain now born hdr i where a: "a = (now, born, hdr, i)" by (cases a)
  let ?n = "chunk_count p c" and ?is = "map (snd \<circ> snd \<circ> snd) as"
  have d: "distinct (xs @ [i])" "set (xs @ [i]) \<subseteq> {..<?n}" "now - b < ft_timeout t"
    "xs = [] \<Longrightarrow> b = born \<and> h = hdr"
    using Cons.prems(5-8) by (auto simp: a)
  obtain t1 where t1: "ft_timeout t1 = ft_timeout t"
    "if set (xs @ [i]) = {..<?n}
     then map_of (ft_flows t1) f = None \<and>
       add_fragment now born (frag_at f hdr e p c i) t = Inr (t1, complete_result h p e)
     else reassembling f b h e p c (xs @ [i]) t1 \<and>
       add_fragment now born (frag_at f hdr e p c i) t = Inr (t1, outcome_only PENDING)"
    using add_fragment_reassembling [OF Cons.prems(1,2) d(1,2) Cons.prems(3) d(3,4)]
    unfolding complete_result_def by blast
  have full: "set (xs @ [i]) = {..<?n} \<longleftrightarrow> as = []"
  proof
    assume "set (xs @ [i]) = {..<?n}"
    then have "set ?is \<subseteq> set (xs @ [i])" using Cons.prems(6) by (auto simp: a)
    moreover have "set ?is \<inter> set (xs @ [i]) = {}" using Cons.prems(5) by (auto simp: a)
    ultimately show "as = []" by (cases as) auto
  next
    assume "as = []"
    then show "set (xs @ [i]) = {..<?n}" using Cons.prems(6) by (simp add: a)
  qed
  show ?case
  proof (cases "as = []")
    case True
    then show ?thesis using t1(2) full by (auto simp: a)
  next
    case False
    then have r: "reassembling f b h e p c (xs @ [i]) t1"
      "add_fragment now born (frag_at f hdr e p c i) t = Inr (t1, outcome_only PENDING)"
      using t1(2) full by auto
    have "\<forall>a \<in> set as. fst a - b < ft_timeout t1" using Cons.prems(7) t1(1) by simp
    then obtain t' where t': "map_of (ft_flows t') f = None"
      "run_fragments (map (\<lambda>(now, born, hdr, i). (now, born, frag_at f hdr e p c i)) as) t1 =
        Inr (t', replicate (length as - 1) (outcome_only PENDING) @ [complete_result h p e])"
      using Cons.IH [OF r(1) Cons.prems(2,3) False] Cons.prems(5,6) by (auto simp: a)
    then show ?thesis using r(2) False by (cases as) (auto simp: a)
  qed
qed simp

section \<open>The table invariant\<close>

definition disjoint_frags :: "nat \<times> bytes \<Rightarrow> nat \<times> bytes \<Rightarrow> bool" where
  "disjoint_frags x y \<longleftrightarrow> \<not> (fst x < fst y + length (snd y) \<and> fst y < fst x + length (snd x))"

definition flow_ok :: "ip_frag_data \<Rightarrow> bool" where
  "flow_ok d \<longleftrightarrow>
     distinct (map fst (fd_payload d)) \<and>
     (\<forall>x \<in> set (fd_payload d). \<forall>y \<in> set (fd_payload d). fst x \<noteq> fst y \<longrightarrow> disjoint_frags x y)"

definition table_ok :: "ip_frag_table \<Rightarrow> bool" where
  "table_ok t \<longleftrightarrow>
     distinct (map fst (ft_flows t)) \<and> length (ft_flows t) \<le> IP_FRAG__MAX_FLOWS \<and>
     (\<forall>(f, d) \<in> set (ft_flows t). flow_ok d)"

lemma sorted_entries:
  assumes "flow_ok d"
  shows "sorted_wrt (\<lambda>x y. fst x + length (snd x) \<le> fst y) (frag_entries (fd_payload d))"
proof -
  let ?p = "fd_payload d"
  have mem: "(k, the (map_of ?p k)) \<in> set ?p" if "k \<in> set (sort (map fst ?p))" for k
    using that by (auto dest!: weak_map_of_SomeI intro: map_of_SomeD)
  have "sorted_wrt (<) (sort (map fst ?p))" using assms by (simp add: flow_ok_def strict_sorted_iff)
  then have "sorted_wrt (\<lambda>k l. k + length (the (map_of ?p k)) \<le> l) (sort (map fst ?p))"
  proof (rule sorted_wrt_mono_rel [rotated])
    fix k l assume kl: "k \<in> set (sort (map fst ?p))" "l \<in> set (sort (map fst ?p))" "k < l"
    have "\<forall>x \<in> set ?p. \<forall>y \<in> set ?p. fst x \<noteq> fst y \<longrightarrow> disjoint_frags x y"
      using assms by (simp add: flow_ok_def)
    from this [rule_format, OF mem [OF kl(1)] mem [OF kl(2)]]
    have "disjoint_frags (k, the (map_of ?p k)) (l, the (map_of ?p l))" using kl(3) by simp
    then show "k + length (the (map_of ?p k)) \<le> l" using kl(3) by (auto simp: disjoint_frags_def)
  qed
  then show ?thesis by (simp add: frag_entries_def sorted_wrt_map)
qed

lemma chain_covers:
  assumes "chain_length es pl = Some L" "sorted_wrt (\<lambda>x y. fst x + length (snd x) \<le> fst y) es"
    "\<forall>x \<in> set es. pl \<le> fst x"
  shows "pl \<le> L \<and> (\<forall>x \<in> set es. fst x + length (snd x) \<le> L)"
  using assms
proof (induction es arbitrary: pl)
  case (Cons x es)
  obtain off ch where x: "x = (off, ch)" by (cases x)
  have "chain_length es (off + length ch) = Some L" "off = pl"
    using Cons.prems by (auto simp: x split: if_splits)
  then have "off + length ch \<le> L \<and> (\<forall>x \<in> set es. fst x + length (snd x) \<le> L)"
    using Cons.IH [of "off + length ch"] Cons.prems(2) by (auto simp: x)
  then show ?case using \<open>off = pl\<close> by (auto simp: x)
qed simp

lemma join_chunks_total:
  "\<forall>x \<in> set es. fst x + length (snd x) \<le> length joined \<Longrightarrow> \<exists>r. join_chunks es joined = Inr r"
proof (induction es arbitrary: joined)
  case (Cons x es)
  obtain off ch where x: "x = (off, ch)" by (cases x)
  let ?j = "take off joined @ ch @ drop (off + length ch) joined"
  have "off + length ch \<le> length joined" using Cons.prems by (simp add: x)
  moreover from this have "length ?j = length joined" by simp
  ultimately show ?case using Cons.IH [of ?j] Cons.prems by (simp add: x pack_into_def not_less)
qed simp

lemma flow_ok_update:
  assumes "flow_ok d" "\<not> overlaps_stored off ch (fd_payload d)"
  shows "flow_ok (d\<lparr>fd_payload := AList.update off ch (fd_payload d), fd_ecn := ec\<rparr>)"
proof -
  have dist: "distinct (map fst (fd_payload d))" using assms(1) by (simp add: flow_ok_def)
  have "disjoint_frags (off, ch) y \<and> disjoint_frags y (off, ch)" if "y \<in> set (fd_payload d)" for y
    using assms(2) that by (cases y) (auto simp: overlaps_stored_def list_ex_iff disjoint_frags_def)
  then show ?thesis
    using assms(1) distinct_update [OF dist] by (simp add: flow_ok_def set_update_distinct [OF dist])
qed

lemma store_flow_ok:
  assumes "\<And>d. map_of flows f = Some d \<Longrightarrow> flow_ok d \<and> \<not> overlaps_stored off ch (fd_payload d)"
  shows "flow_ok (store_fragment born f off ch mf hdr ecn flows)"
proof -
  have "flow_ok (received_last_frag x) = flow_ok x" for x by (simp add: flow_ok_def received_last_frag_def)
  moreover have "flow_ok (new_frag_data born hdr off ch ecn)" by (simp add: flow_ok_def new_frag_data_def)
  ultimately show ?thesis
    using assms flow_ok_update by (auto simp: store_fragment_def Let_def split: option.splits)
qed

lemma admit_fragment_cases:
  fixes fr t born
  defines "f \<equiv> fr_flow_id fr"
  defines "d' \<equiv> store_fragment born f (fr_offset fr) (fr_payload fr) (fr_flag_mf fr) (fr_header fr) (fr_ecn fr) (ft_flows t)"
  obtains (drop) "admit_fragment born fr t = Inr (t, outcome_only DISCARDED)"
      "\<And>d. map_of (ft_flows t) f = Some d \<Longrightarrow> fd_discarded d"
  | (overlap) d where "map_of (ft_flows t) f = Some d" "\<not> fd_discarded d"
      "admit_fragment born fr t =
         Inr (t\<lparr>ft_flows := AList.update f (mark_discarded d) (ft_flows t)\<rparr>, outcome_only OVERLAP)"
  | (store) "admit_fragment born fr t = try_complete f d' (t\<lparr>ft_flows := AList.update f d' (ft_flows t)\<rparr>)"
      "\<And>d. map_of (ft_flows t) f = Some d \<Longrightarrow>
         \<not> fd_discarded d \<and> \<not> overlaps_stored (fr_offset fr) (fr_payload fr) (fd_payload d)"
      "map_of (ft_flows t) f = None \<Longrightarrow> length (ft_flows t) < IP_FRAG__MAX_FLOWS"
proof (cases "map_of (ft_flows t) f")
  case None
  then show ?thesis
    using that(1,3) by (cases "length (ft_flows t) \<ge> IP_FRAG__MAX_FLOWS")
      (simp_all add: admit_fragment_def Let_def flip: f_def d'_def)
next
  case (Some d)
  consider "fd_discarded d" | "\<not> fd_discarded d" "overlaps_stored (fr_offset fr) (fr_payload fr) (fd_payload d)"
    | "\<not> fd_discarded d" "\<not> overlaps_stored (fr_offset fr) (fr_payload fr) (fd_payload d)" by blast
  then show ?thesis
    by cases (use Some that in \<open>simp_all add: admit_fragment_def Let_def flip: f_def d'_def\<close>)
qed

lemma set_delete_subset: "x \<in> set (AList.delete k al) \<Longrightarrow> x \<in> set al"
  by (simp add: AList.delete_eq)

lemma try_complete_ok:
  assumes "table_ok t" "flow_ok d"
  shows "\<exists>t' r. try_complete f d t = Inr (t', r) \<and> table_ok t'"
proof -
  have del: "table_ok (t\<lparr>ft_flows := AList.delete f (ft_flows t)\<rparr>)"
    using assms(1) length_delete_le [of f "ft_flows t"] distinct_delete [of "ft_flows t" f]
    by (auto simp: table_ok_def dest: set_delete_subset)
  have "\<exists>r. join_chunks (frag_entries (fd_payload d)) (replicate L 0) = Inr r"
    if "chain_length (frag_entries (fd_payload d)) 0 = Some L" for L
    using chain_covers [OF that sorted_entries [OF assms(2)]] by (intro join_chunks_total) simp
  then show ?thesis using del assms(1) by (force simp: try_complete_def split: option.splits)
qed

lemma table_ok_sweep: "table_ok t \<Longrightarrow> table_ok (sweep_expired now t)"
  unfolding table_ok_def sweep_expired_def
  by (auto simp: distinct_fst_filter intro: order_trans [OF length_filter_le])

lemma table_ok_found: "table_ok t \<Longrightarrow> map_of (ft_flows t) f = Some d \<Longrightarrow> flow_ok d"
  unfolding table_ok_def by (auto dest!: map_of_SomeD)

lemma length_update: "length (AList.update k v al) = (if k \<in> fst ` set al then length al else Suc (length al))"
  by (induction al) auto

lemma table_ok_update:
  assumes "table_ok t" "flow_ok d"
    "map_of (ft_flows t) f = None \<Longrightarrow> length (ft_flows t) < IP_FRAG__MAX_FLOWS"
  shows "table_ok (t\<lparr>ft_flows := AList.update f d (ft_flows t)\<rparr>)"
proof -
  have dist: "distinct (map fst (ft_flows t))" using assms(1) by (simp add: table_ok_def)
  have "length (AList.update f d (ft_flows t)) \<le> IP_FRAG__MAX_FLOWS"
    using assms(1,3) by (auto simp: table_ok_def length_update map_of_eq_None_iff Suc_le_eq)
  then show ?thesis
    using assms(1,2) distinct_update [OF dist, of f d]
    by (auto simp: table_ok_def set_update_distinct [OF dist])
qed

lemma admit_fragment_ok:
  assumes t: "table_ok t"
  shows "\<exists>t' r. admit_fragment born fr t = Inr (t', r) \<and> table_ok t'"
proof (cases rule: admit_fragment_cases [where fr = fr and t = t and born = born])
  case drop
  then show ?thesis using t by simp
next
  case (overlap d)
  have "flow_ok (mark_discarded d)" by (simp add: flow_ok_def mark_discarded_def)
  from table_ok_update [OF t this, of "fr_flow_id fr"] show ?thesis using overlap(1,3) by simp
next
  case store
  let ?d = "store_fragment born (fr_flow_id fr) (fr_offset fr) (fr_payload fr) (fr_flag_mf fr)
    (fr_header fr) (fr_ecn fr) (ft_flows t)"
  have "flow_ok ?d" using store(2) table_ok_found [OF t] by (intro store_flow_ok) blast
  then show ?thesis unfolding store(1) using table_ok_update [OF t _ store(3)] by (intro try_complete_ok)
qed

lemma add_fragment_ok:
  "table_ok t \<Longrightarrow> \<exists>t' r. add_fragment now born fr t = Inr (t', r) \<and> table_ok t'"
  using admit_fragment_ok [OF table_ok_sweep] by (simp add: add_fragment_def)

text \<open>The table as a machine: a step admits one fragment at its two clock readings.\<close>

definition table_step :: "real \<times> real \<times> fragment \<Rightarrow> ip_frag_table \<Rightarrow> ip_frag_table" where
  "table_step ev t =
     (case ev of (now, born, fr) \<Rightarrow>
        (case add_fragment now born fr t of Inl _ \<Rightarrow> t | Inr (t', _) \<Rightarrow> t'))"

interpretation frag_table: inv_machine table_step "\<lambda>_. True" table_ok
proof
  fix s e assume "table_ok s"
  then show "table_ok (table_step e s)"
    using add_fragment_ok [of s "fst e" "fst (snd e)" "snd (snd e)"]
    by (auto simp: table_step_def split: prod.splits)
qed

section \<open>Discarded flows\<close>

definition flow_discarded :: "ip_frag_flow_id \<Rightarrow> real \<Rightarrow> ip_frag_table \<Rightarrow> bool" where
  "flow_discarded f b t \<longleftrightarrow>
     distinct (map fst (ft_flows t)) \<and>
     (\<exists>d. map_of (ft_flows t) f = Some d \<and> fd_discarded d \<and> fd_timestamp d = b)"

lemma try_complete_other:
  assumes "try_complete g d t = Inr (t', r)" "f \<noteq> g" "distinct (map fst (ft_flows t))"
  shows "map_of (ft_flows t') f = map_of (ft_flows t) f" "distinct (map fst (ft_flows t'))"
proof -
  have "t' = t \<or> t' = t\<lparr>ft_flows := AList.delete g (ft_flows t)\<rparr>"
    using assms(1) by (auto simp: try_complete_def split: if_splits option.splits)
  then show "map_of (ft_flows t') f = map_of (ft_flows t) f" "distinct (map fst (ft_flows t'))"
    using assms(2,3) by (auto simp: delete_conv' distinct_delete)
qed

lemma sweep_simps: "ft_timeout (sweep_expired now t) = ft_timeout t"
  "distinct (map fst (ft_flows t)) \<Longrightarrow> distinct (map fst (ft_flows (sweep_expired now t)))"
  by (simp_all add: sweep_expired_def distinct_fst_filter)

lemma try_complete_timeout: "try_complete g d u = Inr (u', q) \<Longrightarrow> ft_timeout u' = ft_timeout u"
  by (auto simp: try_complete_def split: if_splits option.splits)

lemma try_complete_outcome: "try_complete g d u = Inr (u', q) \<Longrightarrow> far_outcome q \<noteq> OVERLAP"
  by (auto simp: try_complete_def outcome_only_def split: if_splits option.splits)

lemma admit_fragment_discarded:
  assumes t: "flow_discarded f b t" and run: "admit_fragment born fr t = Inr (t', r)"
  shows "flow_discarded f b t' \<and> ft_timeout t' = ft_timeout t \<and>
    (fr_flow_id fr = f \<longrightarrow> r = outcome_only DISCARDED)"
proof -
  have keep: "flow_discarded f b (t\<lparr>ft_flows := AList.update (fr_flow_id fr) x (ft_flows t)\<rparr>)"
    if "fr_flow_id fr \<noteq> f" for x
    using t that by (auto simp: flow_discarded_def distinct_update update_conv')
  show ?thesis
  proof (cases rule: admit_fragment_cases [where fr = fr and t = t and born = born])
    case drop
    then show ?thesis using t run by simp
  next
    case (overlap d)
    then have "fr_flow_id fr \<noteq> f" using t by (auto simp: flow_discarded_def)
    then show ?thesis using overlap run keep by auto
  next
    case store
    then have ne: "fr_flow_id fr \<noteq> f" using t by (auto simp: flow_discarded_def)
    let ?d = "store_fragment born (fr_flow_id fr) (fr_offset fr) (fr_payload fr) (fr_flag_mf fr)
      (fr_header fr) (fr_ecn fr) (ft_flows t)"
    note tc = run [unfolded store(1)]
    have "flow_discarded f b t'"
      using try_complete_other [OF tc ne [symmetric]] keep [OF ne, of ?d]
      unfolding flow_discarded_def by metis
    then show ?thesis using try_complete_timeout [OF tc] ne by simp
  qed
qed

lemma add_fragment_discarded:
  assumes "flow_discarded f b t" "now - b < ft_timeout t" "add_fragment now born fr t = Inr (t', r)"
  shows "flow_discarded f b t' \<and> ft_timeout t' = ft_timeout t \<and>
    (fr_flow_id fr = f \<and> (fr_offset fr \<noteq> 0 \<or> fr_flag_mf fr) \<longrightarrow> r = outcome_only DISCARDED)"
proof (cases "fr_offset fr = 0 \<and> \<not> fr_flag_mf fr")
  case True
  then show ?thesis using assms by (auto simp: add_fragment_def)
next
  case False
  obtain d where d: "map_of (ft_flows t) f = Some d" "fd_discarded d" "fd_timestamp d = b"
      "distinct (map fst (ft_flows t))"
    using assms(1) by (auto simp: flow_discarded_def)
  then have "map_of (ft_flows (sweep_expired now t)) f = Some d"
    using assms(2) by (simp add: sweep_expired_def map_of_filter_value)
  then have "flow_discarded f b (sweep_expired now t)"
    using d by (simp add: flow_discarded_def sweep_simps)
  then show ?thesis
    using admit_fragment_discarded [of f b "sweep_expired now t"] assms(3) False
    by (simp only: add_fragment_def if_False sweep_simps) blast
qed

lemma overlap_discards:
  assumes run: "add_fragment now born fr t = Inr (t', r)" "far_outcome r = OVERLAP"
    and dist: "distinct (map fst (ft_flows t))"
  shows "\<exists>b. flow_discarded (fr_flow_id fr) b t' \<and> now - b < ft_timeout t'"
proof -
  let ?s = "sweep_expired now t"
  have admit: "admit_fragment born fr ?s = Inr (t', r)" using run by (auto simp: add_fragment_def split: if_splits)
  show ?thesis
  proof (cases rule: admit_fragment_cases [where fr = fr and t = ?s and born = born])
    case (overlap d)
    have "now - fd_timestamp d < ft_timeout t"
      using map_of_SomeD [OF overlap(1)] by (auto simp: sweep_expired_def)
    then show ?thesis
      using overlap(3) admit sweep_simps(2) [OF dist, of now]
      by (auto simp: flow_discarded_def distinct_update update_conv' mark_discarded_def sweep_simps)
  next
    case store
    then show ?thesis using admit run(2) try_complete_outcome by metis
  qed (use admit run(2) in \<open>auto simp: outcome_only_def\<close>)
qed

lemma run_discarded:
  assumes "flow_discarded f b t" "run_fragments evs t = Inr (u, rs)" "\<forall>ev \<in> set evs. fst ev - b < ft_timeout t"
  shows "list_all2 (\<lambda>(_, _, fr') r'.
    fr_flow_id fr' = f \<and> (fr_offset fr' \<noteq> 0 \<or> fr_flag_mf fr') \<longrightarrow> far_outcome r' = DISCARDED) evs rs"
  using assms
proof (induction evs arbitrary: t rs)
  case (Cons ev evs)
  obtain now born fr where ev: "ev = (now, born, fr)" by (cases ev)
  from Cons.prems(2) obtain t1 r rs1 where run: "add_fragment now born fr t = Inr (t1, r)"
    "run_fragments evs t1 = Inr (u, rs1)" "rs = r # rs1"
    by (auto simp: ev split: prod.splits)
  have "now - b < ft_timeout t" using Cons.prems(3) by (simp add: ev)
  note st = add_fragment_discarded [OF Cons.prems(1) this run(1)]
  have "\<forall>ev \<in> set evs. fst ev - b < ft_timeout t1" using Cons.prems(3) st by simp
  then show ?case using Cons.IH [OF _ run(2)] st by (auto simp: ev run(3) outcome_only_def)
qed simp

section \<open>Properties\<close>

text \<open>
  Fragmentation: for a chunk size from 8 to 65535 the generator ends. The chunks
  concatenate to the payload, lie back to back from offset zero, are not empty nor longer
  than the chunk size, start at multiples of eight bytes, and exactly the final one is
  flagged as the last.
\<close>

lemma iter_fragment_chunks_correct:
  assumes "8 \<le> m" "m \<le> 65535"
  shows "\<exists>cs. iter_fragment_chunks p m = Inr (Some cs) \<and>
    concat (map (fst \<circ> snd) cs) = p \<and>
    (\<forall>k < length cs. case cs ! k of (off, ch, is_last) \<Rightarrow>
       off = length (concat (map (fst \<circ> snd) (take k cs))) \<and> 8 dvd off \<and>
       0 < length ch \<and> int (length ch) \<le> m \<and> (is_last \<longleftrightarrow> Suc k = length cs))"
proof -
  define c where "c = nat (m AND FRAG_OFFSET_ALIGNMENT__MASK)"
  have mask: "m AND FRAG_OFFSET_ALIGNMENT__MASK = m - m mod 8" using assms by (simp add: aligned_mask)
  have "0 < m - m mod 8" "m - m mod 8 \<le> m" using assms by (auto simp: zmod_le_nonneg_dividend)
  then have c: "0 < c" "int c \<le> m" unfolding c_def mask by auto
  have "c = 8 * nat (m div 8)"
    unfolding c_def mask minus_mod_eq_mult_div by (simp add: nat_mult_distrib)
  then have dvd: "8 dvd c" by simp
  let ?cs = "map (chunk_at p c) [0..<chunk_count p c]"
  have run: "iter_fragment_chunks p m = Inr (Some ?cs)"
    using chunk_loop_eq [OF c(1), of p 0] assms
    by (simp add: iter_fragment_chunks_def FRAG_OFFSET_ALIGNMENT__BYTES_def c_def)
  have fs: "map (fst \<circ> snd) ?cs = map (chunk_bytes p c) [0..<chunk_count p c]"
    by (simp add: chunk_at_def)
  have k: "case ?cs ! k of (off, ch, is_last) \<Rightarrow>
       off = length (concat (map (fst \<circ> snd) (take k ?cs))) \<and> 8 dvd off \<and>
       0 < length ch \<and> int (length ch) \<le> m \<and> (is_last \<longleftrightarrow> Suc k = length ?cs)"
    if "k < length ?cs" for k
  proof -
    have kn: "k < chunk_count p c" using that by simp
    have "map (fst \<circ> snd) (take k ?cs) = map (chunk_bytes p c) [0..<k]"
      using kn by (simp add: take_map chunk_at_def)
    then have "length (concat (map (fst \<circ> snd) (take k ?cs))) = k * c"
      using concat_chunks [OF c(1), of p k] chunk_count_less [OF c(1), of k p] kn by simp
    then show ?thesis
      using kn c dvd chunk_length(3,4) [OF c(1) kn] by (auto simp: chunk_at_def)
  qed
  have cc: "concat (map (fst \<circ> snd) ?cs) = p" unfolding fs by (rule concat_all_chunks [OF c(1)])
  show ?thesis by (intro exI [of _ ?cs] conjI allI impI run cc k)
qed

lemma iter_fragment_chunks_correct_witness:
  "\<exists>cs. iter_fragment_chunks [1, 2, 3, 4, 5, 6, 7, 8, 9] 12 = Inr (Some cs) \<and>
     concat (map (fst \<circ> snd) cs) = [1, 2, 3, 4, 5, 6, 7, 8, 9]"
  using iter_fragment_chunks_correct [of 12 "[1, 2, 3, 4, 5, 6, 7, 8, 9]"] by auto

definition frag_of_chunk :: "ip_frag_flow_id \<Rightarrow> bytes \<Rightarrow> int \<Rightarrow> chunk \<Rightarrow> fragment" where
  "frag_of_chunk f hdr e ck =
     (case ck of (off, ch, is_last) \<Rightarrow>
        \<lparr>fr_flow_id = f, fr_offset = off, fr_payload = ch, fr_flag_mf = (\<not> is_last),
         fr_header = hdr, fr_ecn = e\<rparr>)"

definition sample_flow :: ip_frag_flow_id where
  "sample_flow =
     \<lparr>ff_src = \<lparr>ia_version = IP4, ia_int = 0x0A000001\<rparr>, ff_dst = \<lparr>ia_version = IP4, ia_int = 0x0A000002\<rparr>,
      ff_id = 1, ff_proto = Some 17\<rparr>"

lemma perm_indices:
  assumes "0 < c" "mset (map g as) = mset (map (chunk_at p c) [0..<n])"
  shows "mset (map (\<lambda>a. fst (g a) div c) as) = mset [0..<n]"
proof -
  have "map (\<lambda>a. fst (g a) div c) as = map (\<lambda>ck. fst ck div c) (map g as)" by simp
  then have "mset (map (\<lambda>a. fst (g a) div c) as) =
      image_mset (\<lambda>ck. fst ck div c) (mset (map (chunk_at p c) [0..<n]))"
    using assms(2) by (metis mset_map)
  also have "\<dots> = mset (map (\<lambda>i. fst (chunk_at p c i) div c) [0..<n])"
    by (simp add: multiset.map_comp comp_def)
  also have "map (\<lambda>i. fst (chunk_at p c i) div c) [0..<n] = [0..<n]" using assms(1) by (simp add: chunk_at_def)
  finally show ?thesis .
qed

lemma chunks_shape:
  assumes "iter_fragment_chunks p m = Inr (Some cs)" "2 \<le> length cs"
  obtains c where "0 < c" "cs = map (chunk_at p c) [0..<chunk_count p c]"
proof -
  define c where "c = nat (m AND FRAG_OFFSET_ALIGNMENT__MASK)"
  have loop: "chunk_loop p c 0 = Some cs" using assms(1) by (simp add: iter_fragment_chunks_def c_def split: if_splits)
  have "0 < length p" using loop assms(2) by (cases "p = []") (auto simp: chunk_loop.simps)
  then have c: "0 < c" using chunk_loop_Some_step [OF loop] by simp
  show ?thesis using that [OF c] chunk_loop_eq [OF c, of p 0] loop by simp
qed

lemma reassembled_any_order:
  assumes chunks: "iter_fragment_chunks p m = Inr (Some cs)" "2 \<le> length cs"
    and perm: "mset (map (snd \<circ> snd \<circ> snd) as) = mset cs"
    and time: "\<forall>a \<in> set as. fst a - fst (snd (hd as)) < ft_timeout t"
    and room: "table_ok t" "map_of (ft_flows t) f = None" "length (ft_flows t) < IP_FRAG__MAX_FLOWS"
  shows "\<exists>t'. map_of (ft_flows t') f = None \<and>
    run_fragments (map (\<lambda>(now, born, hdr, ck). (now, born, frag_of_chunk f hdr e ck)) as) t =
      Inr (t', replicate (length cs - 1) (outcome_only PENDING) @
               [complete_result (fst (snd (snd (hd as)))) p e])"
proof -
  obtain c where c: "0 < c" and cs: "cs = map (chunk_at p c) [0..<chunk_count p c]" by (rule chunks_shape [OF chunks])
  let ?n = "chunk_count p c"
  define ix where "ix = (\<lambda>(now :: real, born :: real, hdr :: bytes, ck :: chunk). (now, born, hdr, fst ck div c))"
  have mem: "(snd \<circ> snd \<circ> snd) a \<in> set cs" if "a \<in> set as" for a
    using that mset_eq_setD [OF perm] by auto
  have frag: "(case a of (now, born, hdr, ck) \<Rightarrow> (now, born, frag_of_chunk f hdr e ck)) =
      (case ix a of (now, born, hdr, i) \<Rightarrow> (now, born, frag_at f hdr e p c i))" if "a \<in> set as" for a
    using mem [OF that] c by (cases a) (auto simp: cs ix_def frag_of_chunk_def frag_at_def chunk_at_def)
  have ids: "mset (map (snd \<circ> snd \<circ> snd) (map ix as)) = mset [0..<?n]"
  proof -
    have "map (snd \<circ> snd \<circ> snd) (map ix as) = map (\<lambda>a. fst ((snd \<circ> snd \<circ> snd) a) div c) as"
      by (auto simp: ix_def)
    then show ?thesis using perm_indices [OF c perm [unfolded cs]] by (simp only:)
  qed
  have dist: "distinct (map (snd \<circ> snd \<circ> snd) (map ix as))" "set (map (snd \<circ> snd \<circ> snd) (map ix as)) = {..<?n}"
    using mset_eq_imp_distinct_iff [OF ids] mset_eq_setD [OF ids] by (auto simp: atLeast0LessThan)
  have len: "length as = length cs" using perm by (metis length_map size_mset)
  then have ne: "as \<noteq> []" using chunks(2) by auto
  let ?b = "fst (snd (hd as))" and ?h = "fst (snd (snd (hd as)))"
  have "reassembling f ?b ?h e p c [] t" using room by (simp add: reassembling_def table_ok_def)
  moreover have "fst (snd (hd (map ix as))) = ?b \<and> fst (snd (snd (hd (map ix as)))) = ?h"
    using ne by (cases as) (auto simp: ix_def)
  moreover have "\<forall>a \<in> set (map ix as). fst a - ?b < ft_timeout t" using time by (auto simp: ix_def)
  ultimately obtain t' where t': "map_of (ft_flows t') f = None"
    "run_fragments (map (\<lambda>(now, born, hdr, i). (now, born, frag_at f hdr e p c i)) (map ix as)) t =
       Inr (t', replicate (length (map ix as) - 1) (outcome_only PENDING) @ [complete_result ?h p e])"
    using run_reassembling [of f ?b ?h e p c "[]" t "map ix as"] c dist ne chunks(2) by (auto simp: cs)
  have eq: "map (\<lambda>(now, born, hdr, ck). (now, born, frag_of_chunk f hdr e ck)) as =
      map (\<lambda>(now, born, hdr, i). (now, born, frag_at f hdr e p c i)) (map ix as)"
    using frag by simp
  show ?thesis unfolding eq using t' unfolding length_map len by blast
qed

text \<open>
  C1. Reassembly in any order: the chunks of a payload that takes at least two fragments,
  each sent as one fragment of the flow with the same ECN codepoint, arriving in any
  permutation at a table with room for the flow and before it expires, are reported pending until
  the last arrival, which completes the datagram with exactly the original payload and the common
  codepoint, under the header of one of the fragments, and frees the flow. That header is the one of the
  fragment at offset 0 when that fragment arrives first.
\<close>

theorem reassemble_any_order:
  assumes chunks: "iter_fragment_chunks p m = Inr (Some cs)" "2 \<le> length cs"
    and perm: "mset (map (snd \<circ> snd \<circ> snd) as) = mset cs"
    and time: "\<forall>a \<in> set as. fst a - fst (snd (hd as)) < ft_timeout t"
    and room: "table_ok t" "map_of (ft_flows t) f = None" "length (ft_flows t) < IP_FRAG__MAX_FLOWS"
  shows "\<exists>t' h. map_of (ft_flows t') f = None \<and>
    run_fragments (map (\<lambda>(now, born, hdr, ck). (now, born, frag_of_chunk f hdr e ck)) as) t =
      Inr (t', replicate (length cs - 1) (outcome_only PENDING) @ [complete_result h p e]) \<and>
    h \<in> (fst \<circ> snd \<circ> snd) ` set as \<and>
    (\<forall>now born hdr ch is_last. hd as = (now, born, hdr, 0, ch, is_last) \<longrightarrow> h = hdr)"
proof -
  have "as \<noteq> []" using chunks(2) perm by auto
  then have "fst (snd (snd (hd as))) \<in> (fst \<circ> snd \<circ> snd) ` set as" by simp
  then show ?thesis using reassembled_any_order [OF assms, of e] by (metis fst_conv snd_conv)
qed

text \<open>Nine bytes in two fragments, in both orders.\<close>

lemma sample_chunks:
  "iter_fragment_chunks [1, 2, 3, 4, 5, 6, 7, 8, 9] 8 = Inr (Some [(0, [1, 2, 3, 4, 5, 6, 7, 8], False), (8, [9], True)])"
  by (simp add: iter_fragment_chunks_def FRAG_OFFSET_ALIGNMENT__BYTES_def FRAG_OFFSET_ALIGNMENT__MASK_def chunk_loop.simps)

theorem reassemble_any_order_witness:
  "\<exists>t'. run_fragments
     [(1, 1, frag_of_chunk sample_flow [6] 2 (0, [1, 2, 3, 4, 5, 6, 7, 8], False)),
      (2, 2, frag_of_chunk sample_flow [7] 2 (8, [9], True))]
     \<lparr>ft_flows = [], ft_timeout = 5\<rparr> =
     Inr (t', [outcome_only PENDING, complete_result [6] [1, 2, 3, 4, 5, 6, 7, 8, 9] 2])"
proof -
  let ?as = "[(1, 1, [6], (0, [1, 2, 3, 4, 5, 6, 7, 8], False)), (2, 2, [7], (8, [9], True))]
    :: (real \<times> real \<times> bytes \<times> chunk) list"
  have ok: "table_ok \<lparr>ft_flows = [], ft_timeout = 5\<rparr>" by (simp add: table_ok_def)
  show ?thesis
    using reassemble_any_order [OF sample_chunks _ _ _ ok, of ?as sample_flow 2] by (auto simp: IP_FRAG__MAX_FLOWS_def)
qed

text \<open>
  When another fragment arrives first, the datagram is completed under that fragment's header, and the
  header of the fragment at offset 0 is lost, though it is the one that carries all the options.
\<close>

lemma late_first_fragment:
  "\<exists>t'. run_fragments
     [(1, 1, frag_of_chunk sample_flow [7] 2 (8, [9], True)),
      (2, 2, frag_of_chunk sample_flow [6] 2 (0, [1, 2, 3, 4, 5, 6, 7, 8], False))]
     \<lparr>ft_flows = [], ft_timeout = 5\<rparr> =
     Inr (t', [outcome_only PENDING, complete_result [7] [1, 2, 3, 4, 5, 6, 7, 8, 9] 2])"
proof -
  let ?as = "[(1, 1, [7], (8, [9], True)), (2, 2, [6], (0, [1, 2, 3, 4, 5, 6, 7, 8], False))]
    :: (real \<times> real \<times> bytes \<times> chunk) list"
  have ok: "table_ok \<lparr>ft_flows = [], ft_timeout = 5\<rparr>" by (simp add: table_ok_def)
  show ?thesis
    using reassembled_any_order [OF sample_chunks _ _ _ ok, of ?as sample_flow 2] by (auto simp: IP_FRAG__MAX_FLOWS_def)
qed

text \<open>
  C36. The table is safe under any traffic: from a well-formed table no sequence of
  fragments makes \<open>add_fragment\<close> raise (the copy into the joined buffer always fits), the
  table never holds more than \<open>IP_FRAG__MAX_FLOWS\<close> flows, and the fragments stored in
  a flow never overlap.
\<close>

theorem table_safe_under_any_traffic:
  assumes "table_ok t"
  shows "table_ok (fold table_step evs t) \<and>
    length (ft_flows (fold table_step evs t)) \<le> IP_FRAG__MAX_FLOWS \<and>
    (\<exists>r. add_fragment now born fr (fold table_step evs t) = Inr r)"
proof -
  have "list_all (\<lambda>_. True) evs" by (simp add: list_all_iff)
  from frag_table.run_inv [OF assms this] have ok: "table_ok (fold table_step evs t)" .
  then show ?thesis using add_fragment_ok [OF ok, of now born fr] by (auto simp: table_ok_def)
qed

theorem table_safe_under_any_traffic_witness:
  "table_ok (fold table_step
     [(1, 1, frag_of_chunk sample_flow [] 0 (8, [1, 2, 3], True)),
      (2, 2, frag_of_chunk sample_flow [] 0 (0, [1, 2, 3, 4, 5, 6, 7, 8, 9], False))]
     \<lparr>ft_flows = [], ft_timeout = 5\<rparr>)"
proof -
  have "table_ok \<lparr>ft_flows = [], ft_timeout = 5\<rparr>" by (simp add: table_ok_def)
  from table_safe_under_any_traffic [OF this] show ?thesis by blast
qed

text \<open>
  An overlap condemns the flow (RFC 5722 section 3): once a fragment is answered with
  \<open>OVERLAP\<close>, every later fragment of that flow that is not a whole datagram by itself and
  arrives before the flow expires is answered with \<open>DISCARDED\<close>, whatever fragments of other
  flows arrive in between.
\<close>

theorem overlap_condemns_flow:
  assumes "add_fragment now born fr t = Inr (t', r)" "far_outcome r = OVERLAP" "table_ok t"
  shows "\<exists>b. now - b < ft_timeout t' \<and>
    (\<forall>evs u rs. run_fragments evs t' = Inr (u, rs) \<and> (\<forall>ev \<in> set evs. fst ev - b < ft_timeout t') \<longrightarrow>
       list_all2 (\<lambda>(_, _, fr') r'.
         fr_flow_id fr' = fr_flow_id fr \<and> (fr_offset fr' \<noteq> 0 \<or> fr_flag_mf fr') \<longrightarrow>
         far_outcome r' = DISCARDED) evs rs)"
proof -
  have "distinct (map fst (ft_flows t))" using assms(3) by (simp add: table_ok_def)
  from overlap_discards [OF assms(1,2) this]
  obtain b where b: "flow_discarded (fr_flow_id fr) b t'" "now - b < ft_timeout t'" by blast
  show ?thesis using b run_discarded [OF b(1)] by blast
qed

theorem overlap_condemns_flow_witness:
  "\<exists>t' r. add_fragment 2 2 (frag_of_chunk sample_flow [] 0 (0, [1, 2, 3], False))
      \<lparr>ft_flows = [(sample_flow, new_frag_data 1 [] 0 [1, 2] 0)], ft_timeout = 5\<rparr> = Inr (t', r) \<and>
    (\<exists>b. 2 - b < ft_timeout t')"
proof -
  let ?t = "\<lparr>ft_flows = [(sample_flow, new_frag_data 1 [] 0 [1, 2] 0)], ft_timeout = 5\<rparr>"
  let ?fr = "frag_of_chunk sample_flow [] 0 (0, [1, 2, 3], False)"
  have ok: "table_ok ?t" by (simp add: table_ok_def flow_ok_def new_frag_data_def IP_FRAG__MAX_FLOWS_def)
  obtain t' r where run: "add_fragment 2 2 ?fr ?t = Inr (t', r)" "far_outcome r = OVERLAP"
    by (simp add: add_fragment_def admit_fragment_def sweep_expired_def frag_of_chunk_def
        new_frag_data_def overlaps_stored_def outcome_only_def Let_def)
  from overlap_condemns_flow [OF run ok] run show ?thesis by blast
qed

text \<open>
  Two inputs outside the theorems above. A chunk size of 65536 is masked to zero and the
  generator does not end; an empty fragment at an occupied offset is not seen as an overlap
  and replaces the stored one.
\<close>

lemma iter_fragment_chunks_diverges: "p \<noteq> [] \<Longrightarrow> iter_fragment_chunks p 65536 = Inr None"
proof -
  assume "p \<noteq> []"
  then have "chunk_loop p 0 0 = None" using chunk_loop_Some_step [of p 0 0] by (cases "chunk_loop p 0 0") auto
  then show ?thesis
    by (simp add: iter_fragment_chunks_def FRAG_OFFSET_ALIGNMENT__BYTES_def FRAG_OFFSET_ALIGNMENT__MASK_def)
qed

lemma empty_fragment_replaces:
  "overlaps_stored 8 [] [(8, [1, 2, 3])] = False \<and>
   fd_payload (store_fragment 0 sample_flow 8 [] True [] 0
     [(sample_flow, new_frag_data 0 [] 8 [1, 2, 3] 0)]) = [(8, [])]"
  by (simp add: overlaps_stored_def store_fragment_def new_frag_data_def)

end
