(* ===== verification/Ip4_Handler.thy ===== *)
theory Ip4_Handler
  imports Icmp_Errors Ip_Frag Link_Layer
begin

text \<open>
  The IPv4 layer of one interface: \<^verbatim>\<open>packet_handler__ip4__tx.py\<close> with the source selection of
  \<^verbatim>\<open>ip4__source_selection.py\<close>, and \<^verbatim>\<open>packet_handler__ip4__rx.py\<close> with the reassembly of fragments.

  The state is the link layer of the interface with the fields the IPv4 code adds. A datagram that has been
  accepted goes to the Ethernet sender or, on an interface without a link layer, to the transmit ring; the
  sender is an argument of \<open>phtx_ip4_with\<close> so that what reaches it can be stated. Receiving returns where the
  datagram goes: to a raw socket, to the handler of its protocol, or nowhere, with the ICMP error to send, if any.
  The raw sockets of the stack are a lookup function, their source filter a predicate.
\<close>

section \<open>The interface\<close>

datatype interface_layer = L2 | L3

record ip4_if =
  i4_link :: "ip4_tx link_if"
  i4_interface_layer :: interface_layer
  i4_interface_mtu :: int
  i4_ident :: int
  i4_multicast :: "ip_address list"
  i4_tx_deque :: "ip4_tx list"
  i4_default_ttl :: int
  i4_allow_broadcast :: int
  i4_accept_source_route :: bool
  i4_frag_table :: ip_frag_table
  i4_rate_limiter :: icmp_rate_limiter
  i4_stats_rx :: "string \<Rightarrow> int"

definition bump_tx :: "string \<Rightarrow> ip4_if \<Rightarrow> ip4_if" where
  "bump_tx k st = st\<lparr>i4_link := bump k (i4_link st)\<rparr>"

definition bump_rx :: "string \<Rightarrow> ip4_if \<Rightarrow> ip4_if" where
  "bump_rx k st = st\<lparr>i4_stats_rx := (i4_stats_rx st)(k := i4_stats_rx st k + 1)\<rparr>"

definition if_addrs :: "ip4_if \<Rightarrow> if_addr list" where
  "if_addrs st = li_ip4_ifaddr (i4_link st)"

definition owned :: "ip4_if \<Rightarrow> ip_address list" where
  "owned st = ip4_unicast (i4_link st)"

definition network_broadcast :: "ip_network \<Rightarrow> ip_address" where
  "network_broadcast n = \<lparr>ia_version = nw_version n, ia_int = network_last n\<rparr>"

definition ip4_broadcast :: "ip4_if \<Rightarrow> ip_address list" where
  "ip4_broadcast st = map (\<lambda>h. network_broadcast (snd h)) (if_addrs st) @ [\<lparr>ia_version = IP4, ia_int = 0xFFFFFFFF\<rparr>]"

definition ip4_zero :: ip_address where
  "ip4_zero = \<lparr>ia_version = IP4, ia_int = 0\<rparr>"

section \<open>Source selection\<close>

definition ip4_address_scope :: "ip_address \<Rightarrow> int" where
  "ip4_address_scope a = (if ip4_is_loopback a then 0x1 else if ip4_is_link_local a then 0x2 else 0xE)"

definition common_prefix_len :: "ip_address \<Rightarrow> ip_address \<Rightarrow> int" where
  "common_prefix_len a b = (let x = ia_int a XOR ia_int b in if x = 0 then 32 else 32 - int (bit_length x))"

definition source_key :: "ip_address \<Rightarrow> ip_address \<Rightarrow> (int \<times> int) \<times> int" where
  "source_key dst src =
     ((if ip4_address_scope src \<ge> ip4_address_scope dst then (1, - ip4_address_scope src) else (0, ip4_address_scope src)),
      common_prefix_len src dst)"

text \<open>\<open>sort(key=..., reverse=True)\<close> is the stable sort of the reversed list, reversed.\<close>

definition select_ip4_source :: "ip4_if \<Rightarrow> ip_address \<Rightarrow> ip_address option" where
  "select_ip4_source st dst =
     (let cands = map fst (if_addrs st)
      in if cands = [] then None
         else if dst \<in> set cands then Some dst
         else Some (rev (sort_key (source_key dst) (rev cands)) ! 0))"

section \<open>Sending\<close>

record ip4_send =
  s4_dst :: ip_address
  s4_src :: ip_address
  s4_ttl :: "int option"
  s4_ecn :: int
  s4_dscp :: int
  s4_df :: bool
  s4_options :: "ip4_option list"
  s4_payload :: ip4_payload

definition next_ip4_id :: "ip4_if \<Rightarrow> int \<times> ip4_if" where
  "next_ip4_id st = (let i = (i4_ident st + 1) AND 0xFFFF in (i, st\<lparr>i4_ident := i\<rparr>))"

definition is_dhcp_client :: "ip_address \<Rightarrow> ip4_payload \<Rightarrow> bool" where
  "is_dhcp_client src payload \<longleftrightarrow> ip_is_unspecified src \<and> pl_kind payload = Payload_Udp 68 67"

text \<open>The source to use, or the status of a packet that is not sent.\<close>

definition validate_src_ip4_address :: "ip4_send \<Rightarrow> ip4_if \<Rightarrow> (tx_status + ip_address) \<times> ip4_if" where
  "validate_src_ip4_address p st =
     (let src = s4_src p; mine = owned st in
      if src \<notin> set mine \<union> set (i4_multicast st) \<union> set (ip4_broadcast st) \<union> {ip4_zero} then
        (Inl DROPPED__IP4__SRC_NOT_OWNED, bump_tx ''ip4__src_not_owned__drop'' st)
      else if src \<in> set (i4_multicast st) then
        (if mine \<noteq> [] then (Inr (mine ! 0), bump_tx ''ip4__src_multicast__replace'' st)
         else (Inl DROPPED__IP4__SRC_MULTICAST, bump_tx ''ip4__src_multicast__drop'' st))
      else if ip4_is_limited_broadcast src then
        (if mine \<noteq> [] then (Inr (mine ! 0), bump_tx ''ip4__src_limited_broadcast__replace'' st)
         else (Inl DROPPED__IP4__SRC_LIMITED_BROADCAST, bump_tx ''ip4__src_limited_broadcast__drop'' st))
      else
        let hosts = (if src \<in> set (ip4_broadcast st)
                     then map fst (filter (\<lambda>h. network_broadcast (snd h) = src) (if_addrs st)) else [])
        in if hosts \<noteq> [] then (Inr (hosts ! 0), bump_tx ''ip4__src_network_broadcast__replace'' st)
           else if is_dhcp_client src (s4_payload p) then (Inr src, bump_tx ''ip4__src_unspecified__send'' st)
           else if ip_is_unspecified src then
             (case select_ip4_source st (s4_dst p) of
                Some selected \<Rightarrow>
                  (Inr selected,
                   if list_ex (\<lambda>h. network_contains (snd h) (s4_dst p)) (if_addrs st)
                   then bump_tx ''ip4__src_network_unspecified__replace_local'' st
                   else bump_tx ''ip4__src_network_unspecified__replace_external'' st)
              | None \<Rightarrow> (Inl DROPPED__IP4__SRC_UNSPECIFIED, bump_tx ''ip4__src_unspecified__drop'' st))
           else (Inr src, st))"

definition ip4_send_out_packet :: "ip4_tx \<Rightarrow> ip4_if \<Rightarrow> ip4_if" where
  "ip4_send_out_packet pkt st =
     (if length (i4_tx_deque st) \<ge> li_queue_max_size (i4_link st) then bump_tx ''tx_ring__queue_full__drop'' st
      else st\<lparr>i4_tx_deque := i4_tx_deque st @ [pkt]\<rparr>)"

text \<open>What both branches of the code do with a finished packet.\<close>

definition ip4_out ::
    "(ip_address, ip4_tx eth_frame, ip4_tx link_effect) solicit_cb \<Rightarrow> real \<Rightarrow> ip4_tx \<Rightarrow> ip4_if \<Rightarrow> (tx_status \<times> ip4_if) res" where
  "ip4_out nd_solicit now pkt st =
     (case i4_interface_layer st of
        L2 \<Rightarrow> bind_res (phtx_ethernet nd_solicit now 0 0 (PayIp4 (v4_src (t4_header pkt)) (v4_dst (t4_header pkt)) pkt) (i4_link st))
                (\<lambda>(status, link). Inr (status, st\<lparr>i4_link := link\<rparr>))
      | L3 \<Rightarrow> Inr (PASSED__IP4__TO_TX_RING, ip4_send_out_packet pkt st))"

definition copied_options :: "ip4_option list \<Rightarrow> ip4_option list" where
  "copied_options opts =
     (let filtered = with_copy_flag True opts
      in filtered @ replicate (nat (- int (ip4_options_len filtered) AND 3)) Ip4Nop)"

fun send_fragments ::
    "(ip4_tx \<Rightarrow> ip4_if \<Rightarrow> (tx_status \<times> ip4_if) res) \<Rightarrow> ip4_tx \<Rightarrow> int \<Rightarrow> chunk list \<Rightarrow> tx_status list \<Rightarrow> ip4_if \<Rightarrow>
     (tx_status list \<times> ip4_if) res" where
  "send_fragments emit pkt ident [] statuses st = Inr (statuses, st)"
| "send_fragments emit pkt ident ((offset, chunk, is_last) # chunks) statuses st =
     bind_res (ip4_frag_assembler
         ((t4_header pkt)\<lparr>v4_id := ident, v4_mf := \<not> is_last, v4_offset := int offset\<rparr>)
         (if offset = 0 then t4_options pkt else copied_options (t4_options pkt)) chunk) (\<lambda>frag.
     bind_res (emit frag (bump_tx ''ip4__mtu_exceed__frag__send'' st)) (\<lambda>(status, st).
       send_fragments emit pkt ident chunks (statuses @ [status]) st))"

definition most_severe :: "tx_status list \<Rightarrow> tx_status" where
  "most_severe statuses =
     (case find (\<lambda>s. s \<in> set statuses)
         [DROPPED__ETHERNET__DST_RESOLUTION_FAIL, DROPPED__ETHERNET__DST_NO_GATEWAY_IP4, DROPPED__ETHERNET__DST_ARP_CACHE_MISS,
          DROPPED__ETHERNET__DST_GATEWAY_ARP_CACHE_MISS, PASSED__ETHERNET__TO_TX_RING, PASSED__IP4__TO_TX_RING] of
        Some s \<Rightarrow> s
      | None \<Rightarrow> DROPPED__IP4__UNKNOWN)"

text \<open>The bytes that are cut into fragments.\<close>

definition fragment_payload :: "ip4_tx \<Rightarrow> ip4_payload \<Rightarrow> bytes res" where
  "fragment_payload pkt p =
     bind_res (case pl_kind p of
         Payload_Tcp \<Rightarrow> ip4_pshdr_sum (t4_header pkt) (pl_len p)
       | Payload_Udp _ _ \<Rightarrow> ip4_pshdr_sum (t4_header pkt) (pl_len p)
       | _ \<Rightarrow> Inr 0) (pl_buffer p)"

text \<open>A loop of the chunk iterator that does not end has no result: \<open>RecursionError\<close> stands for it.\<close>

definition fragment_and_send ::
    "(ip4_tx \<Rightarrow> ip4_if \<Rightarrow> (tx_status \<times> ip4_if) res) \<Rightarrow> ip4_tx \<Rightarrow> ip4_payload \<Rightarrow> ip4_if \<Rightarrow> (tx_status \<times> ip4_if) res" where
  "fragment_and_send emit pkt payload st =
     (case next_ip4_id st of (ident, st) \<Rightarrow>
        bind_res (fragment_payload pkt payload) (\<lambda>bs.
        bind_res (iter_fragment_chunks bs (i4_interface_mtu st - v4_hlen (t4_header pkt))) (\<lambda>r.
          case r of
            None \<Rightarrow> Inl RecursionError
          | Some chunks \<Rightarrow>
              bind_res (send_fragments emit pkt ident chunks [] st) (\<lambda>(statuses, st). Inr (most_severe statuses, st)))))"

definition broadcast_disallowed :: "ip4_if \<Rightarrow> ip_address \<Rightarrow> ip4_send \<Rightarrow> bool" where
  "broadcast_disallowed st src p \<longleftrightarrow>
     (ip4_is_limited_broadcast (s4_dst p) \<or> s4_dst p \<in> set (ip4_broadcast st)) \<and> i4_allow_broadcast st = 0 \<and>
     \<not> is_dhcp_client src (s4_payload p)"

definition send_ttl :: "ip4_send \<Rightarrow> ip4_if \<Rightarrow> int" where
  "send_ttl p st = (case s4_ttl p of Some t \<Rightarrow> t | None \<Rightarrow> if ip4_is_multicast (s4_dst p) then 1 else i4_default_ttl st)"

definition phtx_ip4_with ::
    "(ip4_tx \<Rightarrow> ip4_if \<Rightarrow> (tx_status \<times> ip4_if) res) \<Rightarrow> ip4_send \<Rightarrow> ip4_if \<Rightarrow> (tx_status \<times> ip4_if) res" where
  "phtx_ip4_with emit p st =
     (let st = bump_tx ''ip4__pre_assemble'' st; ttl = send_ttl p st in
      passert (0 < ttl \<and> ttl < 256)
        (if \<not> li_ip4_support (i4_link st) then
           Inr (DROPPED__IP4__NO_PROTOCOL_SUPPORT, bump_tx ''ip4__no_proto_support__drop'' st)
         else case validate_src_ip4_address p st of
           (Inl status, st) \<Rightarrow> Inr (status, st)
         | (Inr src, st) \<Rightarrow>
             if ip_is_unspecified (s4_dst p) then
               Inr (DROPPED__IP4__DST_UNSPECIFIED, bump_tx ''ip4__dst_unspecified__drop'' st)
             else if broadcast_disallowed st src p then
               Inr (DROPPED__IP4__DST_BROADCAST_DISALLOWED, bump_tx ''ip4__dst_broadcast_disallowed__drop'' st)
             else if ip4_is_link_local src \<noteq> ip4_is_link_local (s4_dst p) then
               Inr (DROPPED__IP4__LINK_LOCAL_SCOPE_MISMATCH, bump_tx ''ip4__link_local_scope_mismatch__drop'' st)
             else bind_res (ip4_assembler
                 \<lparr>v4_hlen = 20, v4_dscp = s4_dscp p, v4_ecn = s4_ecn p, v4_plen = 20, v4_id = 0, v4_df = s4_df p, v4_mf = False,
                  v4_offset = 0, v4_ttl = ttl, v4_proto = PROTO_RAW, v4_cksum = 0, v4_src = src, v4_dst = s4_dst p\<rparr>
                 (s4_options p) (s4_payload p)) (\<lambda>pkt.
               if int (ip4_tx_len pkt) \<le> i4_interface_mtu st then emit pkt (bump_tx ''ip4__mtu_ok__send'' st)
               else if s4_df p then Inr (DROPPED__IP4__MTU_EXCEED_DF, bump_tx ''ip4__mtu_exceed__df_set__drop'' st)
               else fragment_and_send emit pkt (s4_payload p) (bump_tx ''ip4__mtu_exceed__frag'' st))))"

definition phtx_ip4 ::
    "(ip_address, ip4_tx eth_frame, ip4_tx link_effect) solicit_cb \<Rightarrow> real \<Rightarrow> ip4_send \<Rightarrow> ip4_if \<Rightarrow> (tx_status \<times> ip4_if) res" where
  "phtx_ip4 nd_solicit now = phtx_ip4_with (ip4_out nd_solicit now)"

definition send_ip4_packet ::
    "(ip_address, ip4_tx eth_frame, ip4_tx link_effect) solicit_cb \<Rightarrow> real \<Rightarrow> ip_address \<Rightarrow> ip_address \<Rightarrow> ip_proto \<Rightarrow> bytes \<Rightarrow>
     int option \<Rightarrow> int \<Rightarrow> int \<Rightarrow> ip4_if \<Rightarrow> ip4_if res" where
  "send_ip4_packet nd_solicit now local remote proto payload ttl ecn dscp st =
     bind_res (phtx_ip4 nd_solicit now
         \<lparr>s4_dst = remote, s4_src = local, s4_ttl = ttl, s4_ecn = ecn, s4_dscp = dscp, s4_df = False, s4_options = [],
          s4_payload = raw_payload proto payload\<rparr> st) (\<lambda>(_, st). Inr st)"

section \<open>Receiving\<close>

datatype icmp4_error =
    Icmp4_Protocol_Unreachable bytes
  | Icmp4_Parameter_Problem int bytes

text \<open>
  Where a received datagram goes; an ICMP error is given with its source, its destination and the message.
\<close>

datatype 's ip4_rx =
    Rx_None
  | Rx_Icmp_Error ip_address ip_address icmp4_error
  | Rx_Raw_Socket 's ip4_packet
  | Rx_Handler ip_proto ip4_packet

definition forward_or_deliver_ip4 :: "ip4_packet \<Rightarrow> ip4_if \<Rightarrow> bool \<times> ip4_if" where
  "forward_or_deliver_ip4 pkt st =
     (if owned st = [] \<or> v4_dst (p4_header pkt) \<in> set (owned st) \<union> set (i4_multicast st) \<union> set (ip4_broadcast st)
      then (True, st) else (False, bump_rx ''ip4__dst_unknown__drop'' st))"

text \<open>The two senders of errors, which differ in their counters and in the message.\<close>

definition emit_icmp4_error :: "string \<Rightarrow> string \<Rightarrow> real \<Rightarrow> icmp4_error \<Rightarrow> ip4_packet \<Rightarrow> ip4_if \<Rightarrow> 's ip4_rx \<times> ip4_if" where
  "emit_icmp4_error suppressed respond now msg pkt st =
     (if owned st = [] then (Rx_None, st)
      else case try_emit_icmp_error (classify_inbound (Inbound4 (p4_header pkt)) False False False) now (i4_rate_limiter st) of
        (verdict, rl) \<Rightarrow>
          let st = st\<lparr>i4_rate_limiter := rl\<rparr> in
          if verdict \<noteq> None then (Rx_None, bump_rx suppressed st)
          else (Rx_Icmp_Error (v4_dst (p4_header pkt)) (v4_src (p4_header pkt)) msg, bump_rx respond st))"

definition emit_protocol_unreachable :: "real \<Rightarrow> bytes \<Rightarrow> ip4_packet \<Rightarrow> ip4_if \<Rightarrow> 's ip4_rx \<times> ip4_if" where
  "emit_protocol_unreachable now frame pkt st =
     emit_icmp4_error ''ip4__no_proto_support__icmp4_unreachable_suppressed'' ''ip4__no_proto_support__respond_icmp4_unreachable''
       now (Icmp4_Protocol_Unreachable (ip4_packet_bytes frame pkt)) pkt st"

definition emit_parameter_problem :: "real \<Rightarrow> bytes \<Rightarrow> int \<Rightarrow> ip4_packet \<Rightarrow> ip4_if \<Rightarrow> 's ip4_rx \<times> ip4_if" where
  "emit_parameter_problem now frame pointer pkt st =
     emit_icmp4_error ''ip4__sanity_error__icmp4_param_problem_suppressed'' ''ip4__sanity_error__respond_icmp4_param_problem''
       now (Icmp4_Parameter_Problem pointer (ip4_packet_bytes frame pkt)) pkt st"

text \<open>The rewritten header of a reassembled datagram.\<close>

definition rewrite_header :: "bytes \<Rightarrow> int \<Rightarrow> nat \<Rightarrow> bytes res" where
  "rewrite_header header ecn payload_len =
     bind_res (byte_at header 1) (\<lambda>tos.
     bind_res (int_to_bytes 1 ((tos AND 0xFC) OR (ecn AND 0x03))) (\<lambda>b1.
     bind_res (struct_pack [(Fmt_H, int (length header + payload_len))]) (\<lambda>plen.
     let header = put_at 10 [0, 0] (put_at 6 [0, 0] (put_at 2 plen (put_at 1 b1 header))) in
     bind_res (struct_pack [(Fmt_H, inet_cksum [header] 0)]) (\<lambda>ck. Inr (put_at 10 ck header)))))"

text \<open>A fragment added to the table: the reassembled packet and its bytes once it is complete.\<close>

definition defragment_ip4_packet ::
    "real \<Rightarrow> real \<Rightarrow> bytes \<Rightarrow> ip4_packet \<Rightarrow> ip4_if \<Rightarrow> ((ip4_packet \<times> bytes) option \<times> ip4_if) res" where
  "defragment_ip4_packet now born frame pkt st =
     (let h = p4_header pkt in
      bind_res (add_fragment now born
          \<lparr>fr_flow_id = \<lparr>ff_src = v4_src h, ff_dst = v4_dst h, ff_id = v4_id h, ff_proto = Some (ip_proto_int (v4_proto h))\<rparr>,
           fr_offset = nat (v4_offset h), fr_payload = p4_payload pkt, fr_flag_mf = v4_mf h,
           fr_header = take (nat (v4_hlen h)) (ip4_packet_bytes frame pkt), fr_ecn = v4_ecn h\<rparr> (i4_frag_table st))
        (\<lambda>(t, result).
          let st = st\<lparr>i4_frag_table := t\<rparr> in
          if far_outcome result = OVERLAP \<or> far_outcome result = DISCARDED then
            Inr (None, bump_rx ''ip4__frag__overlap__drop'' st)
          else if far_outcome result = ECN_MIXED__DROP then Inr (None, bump_rx ''ip4__frag__ecn_mixed__drop'' st)
          else if far_outcome result \<noteq> COMPLETE then Inr (None, st)
          else bind_res (rewrite_header (far_header result) (far_ecn result) (length (far_payload result))) (\<lambda>header.
            let whole = header @ far_payload result
            in bind_res (ip4_parser whole) (\<lambda>p. Inr (Some (p, whole), st)))))"

type_synonym raw_socket_id = "ip_address \<times> int \<times> ip_address"

definition raw_socket_ids :: "ip_address \<Rightarrow> ip_address \<Rightarrow> ip_proto \<Rightarrow> raw_socket_id list" where
  "raw_socket_ids local remote proto =
     [(local, ip_proto_int proto, remote), (local, ip_proto_int proto, ip4_zero), (ip4_zero, ip_proto_int proto, ip4_zero)]"

text \<open>The demultiplexing of a whole datagram: raw sockets first, then the registry of protocol handlers.\<close>

definition demux_ip4 ::
    "(raw_socket_id \<Rightarrow> 's option) \<Rightarrow> ('s \<Rightarrow> int \<Rightarrow> ip_address \<Rightarrow> ip_address \<Rightarrow> bool) \<Rightarrow> real \<Rightarrow> bytes \<Rightarrow> ip4_packet \<Rightarrow> ip4_if \<Rightarrow>
     's ip4_rx \<times> ip4_if" where
  "demux_ip4 sockets admits later frame pkt st =
     (let h = p4_header pkt in
      case find_opt sockets (raw_socket_ids (v4_dst h) (v4_src h) (v4_proto h)) of
        Some socket \<Rightarrow>
          if ip4_is_multicast (v4_dst h) \<and> \<not> admits socket (li_ifindex (i4_link st)) (v4_dst h) (v4_src h)
          then (Rx_None, bump_rx ''raw__multicast_source_filtered__drop'' st)
          else (Rx_Raw_Socket socket pkt, bump_rx ''raw__socket_match'' st)
      | None \<Rightarrow>
          if v4_proto h \<in> {PROTO_ICMP4, PROTO_IGMP, PROTO_UDP, PROTO_TCP} then (Rx_Handler (v4_proto h) pkt, st)
          else emit_protocol_unreachable later frame pkt (bump_rx ''ip4__no_proto_support__drop'' st))"

definition count_dst :: "ip4_packet \<Rightarrow> ip4_if \<Rightarrow> ip4_if" where
  "count_dst pkt st =
     (let dst = v4_dst (p4_header pkt);
          st = (if dst \<in> set (owned st) then bump_rx ''ip4__dst_unicast'' st else st);
          st = (if dst \<in> set (i4_multicast st) then bump_rx ''ip4__dst_multicast'' st else st)
      in if dst \<in> set (ip4_broadcast st) then bump_rx ''ip4__dst_broadcast'' st else st)"

text \<open>The handler after the parser has accepted the packet.\<close>

definition phrx_ip4_parsed ::
    "(raw_socket_id \<Rightarrow> 's option) \<Rightarrow> ('s \<Rightarrow> int \<Rightarrow> ip_address \<Rightarrow> ip_address \<Rightarrow> bool) \<Rightarrow> real \<Rightarrow> real \<Rightarrow> real \<Rightarrow> bytes \<Rightarrow>
     ip4_packet \<Rightarrow> ip4_if \<Rightarrow> ('s ip4_rx \<times> ip4_if) res" where
  "phrx_ip4_parsed sockets admits now born later frame pkt st =
     (let h = p4_header pkt in
      if \<not> i4_accept_source_route st \<and> (options_lsrr (p4_options pkt) \<noteq> None \<or> options_ssrr (p4_options pkt) \<noteq> None) then
        Inr (Rx_None, bump_rx ''ip4__source_route__drop'' st)
      else if v4_src h \<in> set (ip4_broadcast st) then
        Inr (Rx_None, bump_rx ''ip4__src_directed_broadcast__drop'' st)
      else case forward_or_deliver_ip4 pkt st of
        (False, st) \<Rightarrow> Inr (Rx_None, st)
      | (True, st) \<Rightarrow>
          let st = count_dst pkt st in
          if v4_offset h \<noteq> 0 \<or> v4_mf h then
            bind_res (defragment_ip4_packet now born frame pkt (bump_rx ''ip4__frag'' st)) (\<lambda>(r, st).
              case r of
                None \<Rightarrow> Inr (Rx_None, st)
              | Some (whole, bytes) \<Rightarrow> Inr (demux_ip4 sockets admits later bytes whole (bump_rx ''ip4__defrag'' st)))
          else Inr (demux_ip4 sockets admits later frame pkt st))"

definition phrx_ip4 ::
    "(raw_socket_id \<Rightarrow> 's option) \<Rightarrow> ('s \<Rightarrow> int \<Rightarrow> ip_address \<Rightarrow> ip_address \<Rightarrow> bool) \<Rightarrow> real \<Rightarrow> real \<Rightarrow> real \<Rightarrow> bytes \<Rightarrow> ip4_if \<Rightarrow>
     ('s ip4_rx \<times> ip4_if) res" where
  "phrx_ip4 sockets admits now born later frame st =
     (let st = bump_rx ''ip4__pre_parse'' st in
      case ip4_parsed frame of
        Inl e \<Rightarrow> if e = IntegrityError then Inr (Rx_None, bump_rx ''ip4__failed_parse__drop'' st) else Inl e
      | Inr pkt \<Rightarrow>
          (case ip4_sanity_pointer (p4_header pkt) of
             Some pointer \<Rightarrow> Inr (emit_parameter_problem later frame pointer pkt (bump_rx ''ip4__failed_parse__drop'' st))
           | None \<Rightarrow> phrx_ip4_parsed sockets admits now born later frame pkt st))"

section \<open>The policy of the sender\<close>

named_theorems ip4_if_simps "what the counters leave alone"

lemma bump_tx_keeps [ip4_if_simps]:
  "owned (bump_tx k st) = owned st" "if_addrs (bump_tx k st) = if_addrs st" "i4_multicast (bump_tx k st) = i4_multicast st"
  "i4_interface_mtu (bump_tx k st) = i4_interface_mtu st" "i4_allow_broadcast (bump_tx k st) = i4_allow_broadcast st"
  "i4_interface_layer (bump_tx k st) = i4_interface_layer st" "i4_tx_deque (bump_tx k st) = i4_tx_deque st"
  "li_queue_max_size (i4_link (bump_tx k st)) = li_queue_max_size (i4_link st)"
  "ip4_broadcast (bump_tx k st) = ip4_broadcast st" "i4_default_ttl (bump_tx k st) = i4_default_ttl st"
  by (simp_all add: bump_tx_def owned_def if_addrs_def ip4_unicast_def bump_def ip4_broadcast_def)

lemma bump_rx_keeps [ip4_if_simps]:
  "owned (bump_rx k st) = owned st" "i4_multicast (bump_rx k st) = i4_multicast st" "ip4_broadcast (bump_rx k st) = ip4_broadcast st"
  "i4_link (bump_rx k st) = i4_link st" "i4_accept_source_route (bump_rx k st) = i4_accept_source_route st"
  "i4_frag_table (bump_rx k st) = i4_frag_table st" "i4_rate_limiter (bump_rx k st) = i4_rate_limiter st"
  by (simp_all add: bump_rx_def owned_def if_addrs_def ip4_broadcast_def)

lemma select_ip4_source_owned: "select_ip4_source st dst = Some a \<Longrightarrow> a \<in> set (owned st)"
proof -
  assume a: "select_ip4_source st dst = Some a"
  let ?l = "rev (sort_key (source_key dst) (rev (map fst (if_addrs st))))"
  have "set ?l = set (owned st)" by (simp add: owned_def if_addrs_def ip4_unicast_def)
  moreover have "?l \<noteq> [] \<Longrightarrow> ?l ! 0 \<in> set ?l" by (meson length_greater_0_conv nth_mem)
  moreover have "if_addrs st \<noteq> [] \<Longrightarrow> ?l \<noteq> []" by (metis length_0_conv length_map length_rev length_sort)
  ultimately show ?thesis
    using a by (auto simp: select_ip4_source_def Let_def owned_def if_addrs_def ip4_unicast_def split: if_splits)
qed

lemma broadcast_has_host:
  assumes "src \<in> set (ip4_broadcast st)" "\<not> ip4_is_limited_broadcast src"
  shows "filter (\<lambda>h. network_broadcast (snd h) = src) (if_addrs st) \<noteq> []"
  using assms by (auto simp: ip4_broadcast_def ip4_is_limited_broadcast_def filter_empty_conv)

text \<open>The source of a datagram that is sent is an address of the interface, or the DHCP client's.\<close>

lemma validated_source:
  assumes "validate_src_ip4_address p st = (Inr src, st')"
  shows "src \<in> set (owned st) \<or> is_dhcp_client src (s4_payload p)"
proof -
  have first: "xs \<noteq> [] \<Longrightarrow> xs ! 0 \<in> set xs" for xs :: "ip_address list" by simp
  have hosts: "map fst (filter P (if_addrs st)) ! 0 \<in> set (owned st)" if "filter P (if_addrs st) \<noteq> []" for P
  proof -
    have "map fst (filter P (if_addrs st)) ! 0 \<in> set (map fst (filter P (if_addrs st)))" using that by (intro first) simp
    then show ?thesis by (auto simp: owned_def if_addrs_def ip4_unicast_def)
  qed
  show ?thesis
    using assms first [of "owned st"] hosts broadcast_has_host select_ip4_source_owned
    by (auto simp: validate_src_ip4_address_def Let_def ip4_zero_def ip_is_unspecified_def split: if_splits option.splits)
qed

lemma validate_keeps:
  assumes "validate_src_ip4_address p st = (r, st')"
  shows "owned st' = owned st \<and> ip4_broadcast st' = ip4_broadcast st \<and> i4_interface_mtu st' = i4_interface_mtu st \<and>
    i4_allow_broadcast st' = i4_allow_broadcast st \<and> i4_interface_layer st' = i4_interface_layer st \<and>
    i4_tx_deque st' = i4_tx_deque st \<and> li_queue_max_size (i4_link st') = li_queue_max_size (i4_link st)"
  using assms by (auto simp: validate_src_ip4_address_def Let_def ip4_if_simps split: if_splits option.splits)

text \<open>The options of the later fragments take no more room than those of the datagram.\<close>

lemma neg_and_3: "- int n AND 3 = int ((4 - n mod 4) mod 4)"
  using and_mask_mod [of "- int n" 2] by (simp add: zmod_zminus1_eq_if of_nat_mod)

lemma pad4:
  assumes "k \<le> n" "4 dvd (n :: nat)"
  shows "k + (4 - k mod 4) mod 4 \<le> n \<and> 4 dvd k + (4 - k mod 4) mod 4"
proof -
  obtain m where n: "n = 4 * m" using assms(2) by (elim dvdE)
  define q r where "q = k div 4" and "r = k mod 4"
  have k: "k = 4 * q + r" "r < 4" by (simp_all add: q_def r_def)
  show ?thesis
  proof (cases "r = 0")
    case True
    then show ?thesis using k assms(1) n by simp
  next
    case False
    then have "k + (4 - k mod 4) mod 4 = 4 * (q + 1)" using k by (simp add: r_def [symmetric])
    moreover have "q + 1 \<le> m" using False k(1) assms(1) n by linarith
    ultimately show ?thesis unfolding n by simp
  qed
qed

lemma copied_options_len:
  assumes "4 dvd ip4_options_len opts"
  shows "ip4_options_len (copied_options opts) \<le> ip4_options_len opts" "4 dvd ip4_options_len (copied_options opts)"
proof -
  let ?k = "ip4_options_len (with_copy_flag True opts)"
  have "ip4_options_len (copied_options opts) = ?k + (4 - ?k mod 4) mod 4"
    by (simp add: copied_options_def Let_def ip4_options_len_def neg_and_3 sum_list_replicate)
  then show "ip4_options_len (copied_options opts) \<le> ip4_options_len opts" "4 dvd ip4_options_len (copied_options opts)"
    using pad4 [OF with_copy_flag_len assms, of True] by simp_all
qed

text \<open>What the sender may hand to the link layer for the request \<open>p\<close>.\<close>

definition ip4_permitted :: "ip4_if \<Rightarrow> ip4_send \<Rightarrow> ip4_tx \<Rightarrow> bool" where
  "ip4_permitted st p pkt \<longleftrightarrow>
     (let src = v4_src (t4_header pkt); dst = v4_dst (t4_header pkt); dhcp = is_dhcp_client src (s4_payload p) in
      (src \<in> set (owned st) \<or> dhcp) \<and> dst = s4_dst p \<and> \<not> ip_is_unspecified dst \<and>
      (ip4_is_limited_broadcast dst \<or> dst \<in> set (ip4_broadcast st) \<longrightarrow> i4_allow_broadcast st \<noteq> 0 \<or> dhcp) \<and>
      ip4_is_link_local src = ip4_is_link_local dst \<and> 0 < v4_ttl (t4_header pkt) \<and>
      int (ip4_tx_len pkt) \<le> i4_interface_mtu st \<and> (s4_df p \<longrightarrow> t4_body pkt = Body (s4_payload p)))"

lemma ip4_assembler_Inr:
  assumes "ip4_assembler args opts payload = Inr pkt"
  shows "pkt = \<lparr>t4_header = args\<lparr>v4_hlen := 20 + int (ip4_options_len opts),
        v4_plen := 20 + int (ip4_options_len opts) + int (pl_len payload),
        v4_mf := False, v4_offset := 0, v4_proto := ip_proto_from_proto (pl_kind payload), v4_cksum := 0\<rparr>,
      t4_options = opts, t4_body = Body payload\<rparr> \<and> 4 dvd ip4_options_len opts \<and> ip4_header_ok (t4_header pkt)"
  using assms unfolding ip4_assembler_def ip4_options_checked_def mk_ip4_header_def
  by (auto simp only: passert_eq_Inr bind_res_eq_Inr sum.inject)
    (auto simp: is_4_byte_alligned_def simp flip: int_dvd_int_iff)

lemma ip4_frag_assembler_Inr:
  assumes "ip4_frag_assembler args opts chunk = Inr pkt"
  shows "pkt = \<lparr>t4_header = args\<lparr>v4_hlen := 20 + int (ip4_options_len opts),
        v4_plen := 20 + int (ip4_options_len opts) + int (length chunk), v4_df := False, v4_cksum := 0\<rparr>,
      t4_options = opts, t4_body = Chunk chunk\<rparr> \<and> ip4_header_ok (t4_header pkt)"
  using assms unfolding ip4_frag_assembler_def ip4_options_checked_def mk_ip4_header_def
  by (auto simp only: passert_eq_Inr bind_res_eq_Inr sum.inject) simp_all

text \<open>The chunks of the iterator fit the size asked for.\<close>

lemma chunk_fits:
  assumes "iter_fragment_chunks bs m = Inr (Some cs)" "(off, ch, l) \<in> set cs"
  shows "int (length ch) \<le> m"
proof -
  define c where "c = nat (m AND FRAG_OFFSET_ALIGNMENT__MASK)"
  have m: "8 \<le> m" and loop: "chunk_loop bs c 0 = Some cs"
    using assms(1) by (auto simp: iter_fragment_chunks_def c_def FRAG_OFFSET_ALIGNMENT__BYTES_def split: if_splits)
  have "m mod 65536 \<le> m" "0 \<le> m mod 8" using m by (auto simp: zmod_le_nonneg_dividend)
  then have "m mod 65536 - m mod 8 \<le> m" by linarith
  then have c: "int c \<le> m" using m by (simp add: c_def aligned_mask)
  have "0 < length bs" using loop assms(2) by (cases "bs = []") (auto simp: chunk_loop.simps)
  then have "0 < c" using chunk_loop_Some_step [OF loop] by simp
  then have "length ch \<le> c" using chunk_loop_eq [of c bs 0] loop assms(2) by (auto simp: chunk_at_def chunk_bytes_def)
  then show ?thesis using c by simp
qed

text \<open>The loop only sends fragments that satisfy what all of them satisfy.\<close>

lemma send_fragments_cong:
  assumes "\<And>off ch l frag. (off, ch, l) \<in> set chunks \<Longrightarrow>
      ip4_frag_assembler ((t4_header pkt)\<lparr>v4_id := ident, v4_mf := \<not> l, v4_offset := int off\<rparr>)
        (if off = 0 then t4_options pkt else copied_options (t4_options pkt)) ch = Inr frag \<Longrightarrow> emit frag = emit' frag"
  shows "send_fragments emit pkt ident chunks ss st = send_fragments emit' pkt ident chunks ss st"
  using assms
proof (induction chunks arbitrary: ss st)
  case (Cons a chunks)
  obtain off ch l where a: "a = (off, ch, l)" by (cases a)
  have IH: "send_fragments emit pkt ident chunks ss st = send_fragments emit' pkt ident chunks ss st" for ss st
    using Cons.prems by (intro Cons.IH) auto
  show ?case
    using Cons.prems [of off ch l] by (auto simp: a IH intro!: bind_res_fcong)
qed simp

lemma fragment_and_send_cong:
  assumes "\<And>frag. v4_src (t4_header frag) = v4_src (t4_header pkt) \<Longrightarrow> v4_dst (t4_header frag) = v4_dst (t4_header pkt) \<Longrightarrow>
      v4_ttl (t4_header frag) = v4_ttl (t4_header pkt) \<Longrightarrow> int (ip4_tx_len frag) \<le> i4_interface_mtu st \<Longrightarrow> emit frag = emit' frag"
    and "v4_hlen (t4_header pkt) = 20 + int (ip4_options_len (t4_options pkt))" "4 dvd ip4_options_len (t4_options pkt)"
  shows "fragment_and_send emit pkt payload st = fragment_and_send emit' pkt payload st"
proof -
  have "send_fragments emit pkt ident cs [] st' = send_fragments emit' pkt ident cs [] st'"
    if cs: "iter_fragment_chunks bs (i4_interface_mtu st - v4_hlen (t4_header pkt)) = Inr (Some cs)" for bs cs ident st'
  proof (rule send_fragments_cong)
    fix off ch l frag
    assume "(off, ch, l) \<in> set cs" and frag: "ip4_frag_assembler ((t4_header pkt)\<lparr>v4_id := ident, v4_mf := \<not> l, v4_offset := int off\<rparr>)
        (if off = 0 then t4_options pkt else copied_options (t4_options pkt)) ch = Inr frag"
    then have "int (length ch) \<le> i4_interface_mtu st - v4_hlen (t4_header pkt)" using chunk_fits [OF cs] by blast
    moreover have "ip4_options_len (t4_options frag) \<le> ip4_options_len (t4_options pkt)"
      using ip4_frag_assembler_Inr [OF frag] copied_options_len [OF assms(3)] by auto
    ultimately have "int (ip4_tx_len frag) \<le> i4_interface_mtu st"
      using ip4_frag_assembler_Inr [OF frag] assms(2) by (simp add: ip4_tx_len_def)
    then show "emit frag = emit' frag" using ip4_frag_assembler_Inr [OF frag] by (intro assms(1)) auto
  qed
  then show ?thesis
    by (auto simp: fragment_and_send_def next_ip4_id_def Let_def intro!: bind_res_fcong split: option.splits)
qed

text \<open>
  C15. The IPv4 sender hands to the link layer only datagrams it may send: it behaves exactly like a sender that
  refuses every packet that is not permitted. A permitted packet comes from an address of the interface (or
  from 0.0.0.0 for the DHCP client), goes to the destination asked for, which is not 0.0.0.0, is a broadcast
  only where broadcasts are allowed, does not mix link-local and other addresses, has a positive time to live
  and fits the interface MTU; with DF set it is the whole datagram, never a fragment.
\<close>

theorem ip4_sends_only_permitted:
  "phtx_ip4 nd_solicit now p st =
   phtx_ip4_with (\<lambda>pkt st'. if ip4_permitted st p pkt then ip4_out nd_solicit now pkt st' else Inl AssertionError) p st"
proof -
  let ?emit = "\<lambda>pkt st'. if ip4_permitted st p pkt then ip4_out nd_solicit now pkt st' else Inl AssertionError"
  let ?st = "bump_tx ''ip4__pre_assemble'' st"
  show ?thesis
  proof (cases "validate_src_ip4_address p ?st")
    case (Pair r st1)
    note keeps = validate_keeps [OF Pair, unfolded ip4_if_simps]
    let ?args = "\<lambda>src. \<lparr>v4_hlen = 20, v4_dscp = s4_dscp p, v4_ecn = s4_ecn p, v4_plen = 20, v4_id = 0, v4_df = s4_df p,
      v4_mf = False, v4_offset = 0, v4_ttl = send_ttl p ?st, v4_proto = PROTO_RAW, v4_cksum = 0, v4_src = src, v4_dst = s4_dst p\<rparr>"
    have allowed: "ip4_permitted st p pkt"
      if "r = Inr src" "0 < send_ttl p ?st" "\<not> ip_is_unspecified (s4_dst p)" "\<not> broadcast_disallowed st1 src p"
        "ip4_is_link_local src = ip4_is_link_local (s4_dst p)" "v4_src (t4_header pkt) = src" "v4_dst (t4_header pkt) = s4_dst p"
        "v4_ttl (t4_header pkt) = send_ttl p ?st" "int (ip4_tx_len pkt) \<le> i4_interface_mtu st"
        "s4_df p \<longrightarrow> t4_body pkt = Body (s4_payload p)" for src pkt
      using that validated_source [of p ?st src st1] Pair keeps
      by (auto simp: ip4_permitted_def Let_def broadcast_disallowed_def ip4_if_simps)
    show ?thesis
      unfolding phtx_ip4_def phtx_ip4_with_def Let_def Pair
      by (auto simp: allowed keeps ip4_if_simps intro!: passert_fcong bind_res_fcong fragment_and_send_cong
          dest!: ip4_assembler_Inr split: sum.splits)
  qed
qed

section \<open>Reassembled headers\<close>

lemma ip4_header_bytes:
  assumes "ip4_header_wf h"
  shows "ip4_header_buffer h =
    Inr (to_bytes 1 (push_bit 4 4 OR drop_bit 2 (v4_hlen h)) @ to_bytes 1 (push_bit 2 (v4_dscp h) OR v4_ecn h) @
      to_bytes 2 (v4_plen h) @ to_bytes 2 (v4_id h) @
      to_bytes 2 (push_bit 14 (of_bool (v4_df h)) OR push_bit 13 (of_bool (v4_mf h)) OR drop_bit 3 (v4_offset h)) @
      to_bytes 1 (v4_ttl h) @ to_bytes 1 (ip_proto_int (v4_proto h)) @ [0, 0] @
      to_bytes 4 (ia_int (v4_src h)) @ to_bytes 4 (ia_int (v4_dst h)))"
proof -
  have "ip4_header_wf (h\<lparr>v4_cksum := 0\<rparr>)" using assms by (simp add: ip4_header_wf_def ip4_header_ok_def is_uint16_def)
  then show ?thesis
    using struct_pack_total [OF ip4_header_fields_ok, of "h\<lparr>v4_cksum := 0\<rparr>"]
    by (simp add: ip4_header_buffer_def ip4_fmt_def numeral_2_eq_2 del: struct_pack.simps push_bit_of_Suc_0)
qed

text \<open>The rewriting on the level of bytes; the pieces are those of the header.\<close>

lemma rewrite_pieces:
  assumes "length A = 1" "length B = 1" "length P = 2" "length I = 2" "length F = 2" "length T = 2" "length C = 2" "length S = 8"
    and tos: "byte_at (A @ B @ P @ I @ F @ T @ C @ S @ ob) 1 = Inr tos" "int_to_bytes 1 ((tos AND 0xFC) OR (ecn AND 0x03)) = Inr B'"
    and plen: "20 + length ob + n < 65536"
  shows "rewrite_header (A @ B @ P @ I @ F @ T @ C @ S @ ob) ecn n =
    (let P' = to_bytes 2 (int (20 + length ob + n)); hdr = A @ B' @ P' @ I @ [0, 0] @ T @ [0, 0] @ S
     in Inr (put_at 10 (to_bytes 2 (inet_cksum [hdr @ ob] 0)) hdr @ ob))"
proof -
  let ?P = "to_bytes 2 (int (20 + length ob + n))"
  have B': "length B' = 1" using tos(2) by (auto simp: int_to_bytes_def split: if_splits)
  have len: "length (A @ B @ P @ I @ F @ T @ C @ S @ ob) = 20 + length ob" using assms(1-8) by simp
  have pack: "struct_pack [(Fmt_H, int (20 + length ob + n))] = Inr ?P" using plen by simp
  have "put_at 10 [0, 0] (put_at 6 [0, 0] (put_at 2 ?P (put_at 1 B' (A @ B @ P @ I @ F @ T @ C @ S @ ob)))) =
      (A @ B' @ ?P @ I @ [0, 0] @ T @ [0, 0] @ S) @ ob"
    using assms(1-8) B' by (simp add: put_at_def del: to_bytes.simps)
  moreover have "struct_pack [(Fmt_H, inet_cksum bufs 0)] = Inr (to_bytes 2 (inet_cksum bufs 0))" for bufs
    using inet_cksum_uint16 [of bufs 0] by (simp add: is_uint16_def)
  moreover have "put_at 10 (to_bytes 2 x) ((A @ B' @ ?P @ I @ [0, 0] @ T @ [0, 0] @ S) @ ob) =
      put_at 10 (to_bytes 2 x) (A @ B' @ ?P @ I @ [0, 0] @ T @ [0, 0] @ S) @ ob" for x
    using assms(1-8) B' by (simp add: put_at_def del: to_bytes.simps)
  ultimately show ?thesis
    using tos pack unfolding rewrite_header_def len Let_def by (simp only: bind_res.simps Let_def)
qed

lemma tos_rewrite:
  assumes "is_uint8 x"
  shows "(x AND 0xFC) OR ((x AND 3) AND 3) = (x :: int)"
proof -
  have "(x AND 0xFC) OR ((x AND 3) AND 3) = x AND 0xFF"
    by (simp add: and.assoc flip: bit.conj_disj_distrib)
  also have "\<dots> = x" using assms and_mask_mod [of x 8] by (simp add: is_uint8_def)
  finally show ?thesis .
qed

lemma rewrite_header_eq:
  assumes wf: "ip4_header_wf h" "ip4_header_wf h'"
    and h': "h' = h\<lparr>v4_plen := int (20 + length ob + n), v4_df := False, v4_mf := False, v4_offset := 0\<rparr>"
    and hdr: "ip4_header_buffer h = Inr hdr" "ip4_header_buffer h' = Inr hdr'"
  shows "rewrite_header (put_at 10 (to_bytes 2 ck) hdr @ ob) (v4_ecn h) n =
    Inr (put_at 10 (to_bytes 2 (inet_cksum [hdr' @ ob] 0)) hdr' @ ob)"
proof -
  define b1 where "b1 = push_bit 2 (v4_dscp h) OR v4_ecn h"
  have tos: "is_uint8 b1" "b1 AND 3 = v4_ecn h"
    using tos_byte [OF _ _ b1_def] wf(1) by (simp_all add: ip4_header_wf_def ip4_header_ok_def)
  define A B P I F T S where "A = to_bytes 1 (push_bit 4 4 OR drop_bit 2 (v4_hlen h))" and "B = to_bytes 1 b1"
    and "P = to_bytes 2 (v4_plen h)" and "I = to_bytes 2 (v4_id h)"
    and "F = to_bytes 2 (push_bit 14 (of_bool (v4_df h)) OR push_bit 13 (of_bool (v4_mf h)) OR drop_bit 3 (v4_offset h))"
    and "T = to_bytes 1 (v4_ttl h) @ to_bytes 1 (ip_proto_int (v4_proto h))"
    and "S = to_bytes 4 (ia_int (v4_src h)) @ to_bytes 4 (ia_int (v4_dst h))"
  note pieces = A_def B_def P_def I_def F_def T_def S_def
  have len: "length A = 1" "length B = 1" "length P = 2" "length I = 2" "length F = 2" "length T = 2" "length S = 8"
    by (simp_all add: pieces del: to_bytes.simps)
  have "hdr = A @ B @ P @ I @ F @ T @ [0, 0] @ S"
    using ip4_header_bytes [OF wf(1)] hdr(1) by (simp add: pieces b1_def del: to_bytes.simps)
  then have buf: "put_at 10 (to_bytes 2 ck) hdr @ ob = A @ B @ P @ I @ F @ T @ to_bytes 2 ck @ S @ ob"
    using len by (simp add: put_at_def del: to_bytes.simps)
  have b: "byte_at (A @ B @ P @ I @ F @ T @ to_bytes 2 ck @ S @ ob) 1 = Inr b1"
    using tos(1) by (simp add: A_def B_def uint_byte)
  have int1: "int_to_bytes 1 ((b1 AND 0xFC) OR (v4_ecn h AND 3)) = Inr B"
    unfolding tos(2) [symmetric] tos_rewrite [OF tos(1)] using tos(1) by (simp add: int_to_bytes_def is_uint8_def B_def)
  have p: "20 + length ob + n < 65536"
    using wf(2) by (simp add: h' ip4_header_wf_def ip4_header_ok_def is_uint16_def)
  have zero: "to_bytes 2 (push_bit 14 (of_bool False) OR push_bit 13 (of_bool False) OR drop_bit 3 0) = [0, 0]"
    by (simp add: numeral_2_eq_2)
  have "hdr' = A @ B @ to_bytes 2 (int (20 + length ob + n)) @ I @ [0, 0] @ T @ [0, 0] @ S"
    using ip4_header_bytes [OF wf(2)] hdr(2) zero by (simp add: h' pieces b1_def del: to_bytes.simps)
  then show ?thesis
    unfolding buf using rewrite_pieces [OF len(1-6) length_to_bytes len(7) b int1 p] by (simp add: Let_def del: to_bytes.simps)
qed

section \<open>Source selection and RFC 6724\<close>

text \<open>The first element of a descending stable sort is the first maximal one.\<close>

lemma descending_sort_first:
  fixes f :: "'a \<Rightarrow> 'k :: linorder"
  assumes "xs \<noteq> []" "m = rev (sort_key f (rev xs)) ! 0"
  obtains pre post where "xs = pre @ m # post" "\<forall>x \<in> set pre. f x < f m" "\<forall>x \<in> set xs. f x \<le> f m"
proof -
  let ?ys = "sort_key f (rev xs)"
  have ne: "?ys \<noteq> []" using assms(1) by (metis length_0_conv length_rev length_sort)
  have m: "m = last ?ys" using ne assms(2) by (metis hd_conv_nth hd_rev rev_is_Nil_conv)
  obtain bl where ys: "?ys = bl @ [m]" using ne m by (metis append_butlast_last_id)
  have le: "f x \<le> f m" if "x \<in> set xs" for x
  proof -
    have "sorted (map f (bl @ [m]))" using sorted_sort_key [of f "rev xs"] by (simp only: ys)
    moreover have "set ?ys = set xs" by simp
    then have "x \<in> set (bl @ [m])" using that unfolding ys by simp
    ultimately show ?thesis by (auto simp: sorted_append)
  qed
  have "filter (\<lambda>x. f x = f m) (bl @ [m]) = filter (\<lambda>x. f x = f m) (rev xs)"
    using sort_key_stable [of f "f m" "rev xs"] unfolding ys .
  then have "filter (\<lambda>x. f x = f m) bl @ [m] = rev (filter (\<lambda>x. f x = f m) xs)" by (simp add: rev_filter [symmetric])
  from arg_cong [OF this, of rev] have "filter (\<lambda>x. f x = f m) xs = m # rev (filter (\<lambda>x. f x = f m) bl)" by simp
  then obtain pre post where "xs = pre @ m # post" "\<forall>x \<in> set pre. f x \<noteq> f m"
    unfolding filter_eq_Cons_iff by blast
  then show ?thesis using that [of pre post] le by (simp add: order.not_eq_order_implies_strict)
qed

text \<open>The pairwise comparison of RFC 6724, rules 2 and 8.\<close>

definition rule2_prefers :: "ip_address \<Rightarrow> ip_address \<Rightarrow> ip_address \<Rightarrow> bool" where
  "rule2_prefers dst a b \<longleftrightarrow>
     (let sa = ip4_address_scope a; sb = ip4_address_scope b; sd = ip4_address_scope dst
      in if sa < sb then \<not> sa < sd else if sb < sa then sb < sd else False)"

definition rfc6724_prefers :: "ip_address \<Rightarrow> ip_address \<Rightarrow> ip_address \<Rightarrow> bool" where
  "rfc6724_prefers dst a b \<longleftrightarrow>
     rule2_prefers dst a b \<or> (\<not> rule2_prefers dst b a \<and> common_prefix_len b dst < common_prefix_len a dst)"

lemma source_key_order: "source_key dst b < source_key dst a \<longleftrightarrow> rfc6724_prefers dst a b"
  by (auto simp: source_key_def rfc6724_prefers_def rule2_prefers_def Let_def less_prod_simp)

text \<open>The prefix length the code computes from the exclusive or is the number of leading bits in common.\<close>

lemma bit_length_le: "0 < x \<Longrightarrow> bit_length x \<le> k \<longleftrightarrow> x < 2 ^ k" for x :: int
proof -
  assume "0 < x"
  then have n: "0 < bit_length x" "2 ^ (bit_length x - 1) \<le> x" "x < 2 ^ bit_length x" using bit_length_bounds [of x] by auto
  show ?thesis
  proof
    assume "bit_length x \<le> k"
    then have "(2 :: int) ^ bit_length x \<le> 2 ^ k" by (intro power_increasing) auto
    then show "x < 2 ^ k" using n(3) by linarith
  next
    assume "x < 2 ^ k"
    show "bit_length x \<le> k"
    proof (rule ccontr)
      assume "\<not> bit_length x \<le> k"
      then have "(2 :: int) ^ k \<le> 2 ^ (bit_length x - 1)" by (intro power_increasing) auto
      then show False using n(2) \<open>x < 2 ^ k\<close> by linarith
    qed
  qed
qed

lemma drop_bit_0_iff: "0 \<le> x \<Longrightarrow> drop_bit k x = 0 \<longleftrightarrow> x < 2 ^ k" for x :: int
  using zero_less_power [of "2 :: int" k] by (auto simp: drop_bit_eq_div zdiv_eq_0_iff)

lemma xor_0_iff: "a XOR b = 0 \<longleftrightarrow> a = b" for a b :: int
  by (metis xor.assoc xor.left_neutral xor.right_neutral xor_self_eq)

lemma common_prefix_bits:
  assumes "ip4_ok a" "ip4_ok b" "i < 32"
  shows "int i < common_prefix_len a b \<longleftrightarrow> drop_bit (31 - i) (ia_int a) = drop_bit (31 - i) (ia_int b)"
proof -
  let ?x = "ia_int a XOR ia_int b"
  have x: "0 \<le> ?x" using assms(1,2) by (simp add: ip4_ok_def)
  have "int i < common_prefix_len a b \<longleftrightarrow> ?x < 2 ^ (31 - i)"
  proof (cases "?x = 0")
    case False
    then have "int i < common_prefix_len a b \<longleftrightarrow> bit_length ?x \<le> 31 - i" using assms(3) by (auto simp: common_prefix_len_def)
    then show ?thesis using False x by (simp add: bit_length_le)
  qed (use assms(3) in \<open>simp add: common_prefix_len_def\<close>)
  also have "\<dots> \<longleftrightarrow> drop_bit (31 - i) ?x = 0" using drop_bit_0_iff [OF x] by simp
  also have "\<dots> \<longleftrightarrow> drop_bit (31 - i) (ia_int a) = drop_bit (31 - i) (ia_int b)" by (simp add: xor_0_iff)
  finally show ?thesis .
qed

text \<open>
  C17. Source selection is RFC 6724's over the addresses of the interface: none is returned exactly when there
  is none; a destination that is one of them is its own source; otherwise the address returned is the first that
  is preferred, by scope and then by the length of the prefix it shares with the destination, to every
  address before it, with none after it preferred to it.
\<close>

theorem ip4_source_selection:
  "case select_ip4_source st dst of
     None \<Rightarrow> owned st = []
   | Some a \<Rightarrow>
       if dst \<in> set (owned st) then a = dst
       else \<exists>pre post. owned st = pre @ a # post \<and> list_all (rfc6724_prefers dst a) pre \<and>
              list_all (\<lambda>b. \<not> rfc6724_prefers dst b a) (owned st)"
proof (cases "owned st = [] \<or> dst \<in> set (owned st)")
  case True
  then show ?thesis by (auto simp: select_ip4_source_def Let_def owned_def if_addrs_def ip4_unicast_def)
next
  case False
  have l: "map fst (if_addrs st) = owned st" by (simp add: owned_def if_addrs_def ip4_unicast_def)
  define a where "a = rev (sort_key (source_key dst) (rev (owned st))) ! 0"
  obtain pre post where "owned st = pre @ a # post" "\<forall>x \<in> set pre. source_key dst x < source_key dst a"
    "\<forall>x \<in> set (owned st). source_key dst x \<le> source_key dst a"
    using descending_sort_first [OF _ a_def] False by blast
  then have "owned st = pre @ a # post" "list_all (rfc6724_prefers dst a) pre" "list_all (\<lambda>b. \<not> rfc6724_prefers dst b a) (owned st)"
    by (simp_all add: list_all_iff source_key_order [symmetric] not_less)
  moreover have "select_ip4_source st dst = Some a"
    using False by (simp add: select_ip4_source_def Let_def l a_def)
  ultimately show ?thesis using False by auto
qed

section \<open>The policy of the receiver\<close>

definition is_fragment :: "ip4_packet \<Rightarrow> bool" where
  "is_fragment pkt \<longleftrightarrow> v4_offset (p4_header pkt) \<noteq> 0 \<or> v4_mf (p4_header pkt)"

text \<open>The fragment the receiver adds to its table, and the datagram that completes there.\<close>

definition rx_fragment :: "bytes \<Rightarrow> ip4_packet \<Rightarrow> fragment" where
  "rx_fragment frame pkt =
     (let h = p4_header pkt in
      \<lparr>fr_flow_id = \<lparr>ff_src = v4_src h, ff_dst = v4_dst h, ff_id = v4_id h, ff_proto = Some (ip_proto_int (v4_proto h))\<rparr>,
       fr_offset = nat (v4_offset h), fr_payload = p4_payload pkt, fr_flag_mf = v4_mf h,
       fr_header = take (nat (v4_hlen h)) (ip4_packet_bytes frame pkt), fr_ecn = v4_ecn h\<rparr>)"

definition reassembled :: "real \<Rightarrow> real \<Rightarrow> bytes \<Rightarrow> ip4_packet \<Rightarrow> ip4_if \<Rightarrow> ip4_packet \<Rightarrow> bool" where
  "reassembled now born frame pkt st q \<longleftrightarrow>
     (\<exists>t result header. add_fragment now born (rx_fragment frame pkt) (i4_frag_table st) = Inr (t, result) \<and>
        far_outcome result = COMPLETE \<and>
        rewrite_header (far_header result) (far_ecn result) (length (far_payload result)) = Inr header \<and>
        ip4_parser (header @ far_payload result) = Inr q)"

definition ip4_admitted :: "ip4_if \<Rightarrow> ip4_packet \<Rightarrow> bool" where
  "ip4_admitted st pkt \<longleftrightarrow>
     (let h = p4_header pkt in
      ip4_sanity_pointer h = None \<and>
      (i4_accept_source_route st \<or> options_lsrr (p4_options pkt) = None \<and> options_ssrr (p4_options pkt) = None) \<and>
      v4_src h \<notin> set (ip4_broadcast st) \<and>
      (owned st = [] \<or> v4_dst h \<in> set (owned st) \<union> set (i4_multicast st) \<union> set (ip4_broadcast st)))"

definition error_allowed :: "ip4_header \<Rightarrow> bool" where
  "error_allowed h \<longleftrightarrow>
     \<not> ip4_is_limited_broadcast (v4_dst h) \<and> \<not> ip4_is_multicast (v4_dst h) \<and> v4_offset h = 0 \<and>
     \<not> (ip_is_unspecified (v4_src h) \<or> ip4_is_loopback (v4_src h) \<or> ip4_is_multicast (v4_src h) \<or>
        ip4_is_limited_broadcast (v4_src h) \<or> ip4_is_reserved (v4_src h))"

text \<open>What is allowed to leave the receiver for a datagram \<open>q\<close>.\<close>

definition rx_allowed :: "ip4_if \<Rightarrow> ip4_packet \<Rightarrow> 's ip4_rx \<Rightarrow> bool" where
  "rx_allowed st q r \<longleftrightarrow>
     (case r of
        Rx_None \<Rightarrow> True
      | Rx_Icmp_Error a b _ \<Rightarrow> owned st \<noteq> [] \<and> error_allowed (p4_header q) \<and> a = v4_dst (p4_header q) \<and> b = v4_src (p4_header q)
      | Rx_Raw_Socket _ q' \<Rightarrow> q' = q
      | Rx_Handler proto q' \<Rightarrow> q' = q \<and> proto = v4_proto (p4_header q) \<and> proto \<in> {PROTO_ICMP4, PROTO_IGMP, PROTO_UDP, PROTO_TCP})"

lemma rx_allowed_same: "owned st' = owned st \<Longrightarrow> rx_allowed st' q r = rx_allowed st q r"
  by (cases r) (simp_all add: rx_allowed_def)

lemma emit_icmp4_error_allowed:
  assumes "emit_icmp4_error k1 k2 now msg pkt st = (r, st')"
  shows "rx_allowed st pkt r"
  using assms
  by (auto simp: emit_icmp4_error_def rx_allowed_def try_emit_icmp_error_def should_emit_icmp_error_def classify_inbound_def
      error_allowed_def Let_def split: if_splits prod.splits option.splits)

lemma demux_ip4_allowed:
  assumes "demux_ip4 sockets admits later frame pkt st = (r, st')"
  shows "rx_allowed st pkt r"
proof -
  have "rx_allowed st pkt r" if "emit_protocol_unreachable later frame pkt (bump_rx k st) = (r, st')" for k
    using emit_icmp4_error_allowed [OF that [unfolded emit_protocol_unreachable_def]]
    by (simp add: rx_allowed_same [of "bump_rx k st" st] ip4_if_simps)
  then show ?thesis
    using assms by (auto simp: demux_ip4_def Let_def rx_allowed_def split: option.splits if_splits)
qed

lemma count_dst_keeps: "owned (count_dst pkt st) = owned st"
  by (simp add: count_dst_def Let_def ip4_if_simps)

lemma defragment_keeps:
  "defragment_ip4_packet now born frame pkt st = Inr (r, st') \<Longrightarrow> owned st' = owned st"
  by (auto simp: defragment_ip4_packet_def Let_def ip4_if_simps owned_def split: if_splits prod.splits)

lemma defragment_reassembled:
  "defragment_ip4_packet now born frame pkt st = Inr (Some (q, bs), st') \<Longrightarrow> reassembled now born frame pkt st q"
  by (auto simp: defragment_ip4_packet_def rx_fragment_def reassembled_def Let_def split: if_splits)

lemma count_dst_table: "i4_frag_table (count_dst pkt st) = i4_frag_table st"
  by (simp add: count_dst_def Let_def ip4_if_simps)

lemma parsed_admitted:
  assumes "ip4_sanity_pointer (p4_header pkt) = None"
  shows "case phrx_ip4_parsed sockets admits now born later frame pkt st of
     Inl e \<Rightarrow> is_fragment pkt \<and> ip4_admitted st pkt
   | Inr (r, _) \<Rightarrow> r = Rx_None \<or> ip4_admitted st pkt \<and> 
       (\<exists>q. rx_allowed st q r \<and> (if is_fragment pkt then reassembled now born frame pkt st q else q = pkt))"
proof (cases "ip4_admitted st pkt")
  case False
  then show ?thesis
    using assms by (auto simp: phrx_ip4_parsed_def ip4_admitted_def forward_or_deliver_ip4_def Let_def)
next
  case True
  let ?st = "count_dst pkt st"
  have run: "phrx_ip4_parsed sockets admits now born later frame pkt st =
      (if is_fragment pkt
       then bind_res (defragment_ip4_packet now born frame pkt (bump_rx ''ip4__frag'' ?st)) (\<lambda>(r, st).
              case r of None \<Rightarrow> Inr (Rx_None, st)
              | Some (whole, bytes) \<Rightarrow> Inr (demux_ip4 sockets admits later bytes whole (bump_rx ''ip4__defrag'' st)))
       else Inr (demux_ip4 sockets admits later frame pkt ?st))"
    using True by (auto simp: phrx_ip4_parsed_def ip4_admitted_def forward_or_deliver_ip4_def is_fragment_def Let_def)
  show ?thesis
  proof (cases "is_fragment pkt")
    case False
    obtain r st' where d: "demux_ip4 sockets admits later frame pkt ?st = (r, st')" by (cases "demux_ip4 sockets admits later frame pkt ?st")
    show ?thesis using demux_ip4_allowed [OF d] rx_allowed_same [OF count_dst_keeps] True False by (auto simp: run d)
  next
    case frag: True
    have "\<exists>q. rx_allowed st q r \<and> reassembled now born frame pkt st q"
      if "defragment_ip4_packet now born frame pkt (bump_rx ''ip4__frag'' ?st) = Inr (Some (whole, bs), st1)"
        "demux_ip4 sockets admits later bs whole (bump_rx ''ip4__defrag'' st1) = (r, st2)" for whole bs st1 r st2
    proof -
      have "owned (bump_rx ''ip4__defrag'' st1) = owned st"
        using defragment_keeps [OF that(1)] by (simp add: ip4_if_simps count_dst_keeps)
      moreover have "reassembled now born frame pkt st whole"
        using defragment_reassembled [OF that(1)] by (simp add: reassembled_def ip4_if_simps count_dst_table)
      ultimately show ?thesis using demux_ip4_allowed [OF that(2)] rx_allowed_same by blast
    qed
    then show ?thesis using True frag by (auto simp: run bind_res_eq_Inl split: sum.splits option.splits)
  qed
qed

lemma ip4_parsed_error:
  assumes "ip4_parsed frame = Inl e"
  shows "e = IntegrityError \<or> (e = IndexError \<and> lone_kind frame) \<or> (e = AssertionError \<and> short_option frame)"
proof (cases "ip4_validate_integrity frame")
  case Inl
  then show ?thesis using assms ip4_integrity_error [OF Inl] by (auto simp: ip4_parsed_def)
next
  case (Inr u)
  then show ?thesis using assms ip4_parse_outcome [of frame] by (auto simp: ip4_parsed_def simp del: bind_res_eq_Inr)
qed

lemma sane_received:
  assumes "ip4_parsed frame = Inr pkt" "ip4_sanity_pointer (p4_header pkt) = None"
  shows "case phrx_ip4 sockets admits now born later frame st of
     Inl e \<Rightarrow> is_fragment pkt \<and> ip4_admitted st pkt
   | Inr (r, _) \<Rightarrow> r = Rx_None \<or> ip4_admitted st pkt \<and>
       (\<exists>q. rx_allowed st q r \<and> (if is_fragment pkt then reassembled now born frame pkt st q else q = pkt))"
proof -
  let ?st = "bump_rx ''ip4__pre_parse'' st"
  have adm: "ip4_admitted ?st pkt = ip4_admitted st pkt" "rx_allowed ?st q r = rx_allowed st q r"
    "reassembled now born frame pkt ?st q = reassembled now born frame pkt st q" for q and r :: "'a ip4_rx"
    by (simp_all add: reassembled_def ip4_admitted_def rx_allowed_same [of ?st st] ip4_if_simps Let_def)
  have run: "phrx_ip4 sockets admits now born later frame st = phrx_ip4_parsed sockets admits now born later frame pkt ?st"
    by (simp add: phrx_ip4_def Let_def assms)
  show ?thesis using parsed_admitted [OF assms(2), where sockets = sockets and admits = admits and now = now and born = born
      and later = later and frame = frame and st = ?st, unfolded adm] unfolding run .
qed

lemma insane_received:
  assumes "ip4_parsed frame = Inr pkt" "ip4_sanity_pointer (p4_header pkt) = Some pointer"
  shows "case phrx_ip4 sockets admits now born later frame st of
     Inl e \<Rightarrow> False
   | Inr (r, _) \<Rightarrow> rx_allowed st pkt r \<and> (case r of Rx_Raw_Socket _ _ \<Rightarrow> False | Rx_Handler _ _ \<Rightarrow> False | _ \<Rightarrow> True)"
proof -
  let ?st = "bump_rx ''ip4__failed_parse__drop'' (bump_rx ''ip4__pre_parse'' st)"
  obtain r :: "'a ip4_rx" and st' where e: "emit_parameter_problem later frame pointer pkt ?st = (r, st')"
    by (cases "emit_parameter_problem later frame pointer pkt ?st :: 'a ip4_rx \<times> ip4_if")
  have "rx_allowed ?st pkt r" using emit_icmp4_error_allowed e unfolding emit_parameter_problem_def by blast
  then have "rx_allowed st pkt r" by (simp add: rx_allowed_same [of ?st st] ip4_if_simps)
  moreover have "case r of Rx_Raw_Socket _ _ \<Rightarrow> False | Rx_Handler _ _ \<Rightarrow> False | _ \<Rightarrow> True"
    using e by (auto simp: emit_parameter_problem_def emit_icmp4_error_def Let_def split: if_splits prod.splits)
  ultimately show ?thesis using assms e by (simp add: phrx_ip4_def Let_def)
qed


section \<open>Departures\<close>

text \<open>
  On a point-to-point network of two addresses (RFC 3021) the far end has the address the code takes for the
  broadcast address: everything it sends is dropped as a martian, and nothing may be sent to it.
\<close>

definition p2p_addrs :: "if_addr list" where
  "p2p_addrs = [(\<lparr>ia_version = IP4, ia_int = 0x0A000000\<rparr>, net IP4 31 0x0A000000)]"

lemma p2p_broadcast: "li_ip4_ifaddr (i4_link st) = p2p_addrs \<Longrightarrow> \<lparr>ia_version = IP4, ia_int = 0x0A000001\<rparr> \<in> set (ip4_broadcast st)"
  by (simp add: ip4_broadcast_def if_addrs_def p2p_addrs_def network_broadcast_def) code_simp

lemma p2p_peer_dropped:
  assumes "li_ip4_ifaddr (i4_link st) = p2p_addrs" "v4_src (p4_header pkt) = \<lparr>ia_version = IP4, ia_int = 0x0A000001\<rparr>"
    and "p4_options pkt = []"
  shows "phrx_ip4_parsed sockets admits now born later frame pkt st = Inr (Rx_None, bump_rx ''ip4__src_directed_broadcast__drop'' st)"
  using assms p2p_broadcast [OF assms(1)]
  by (simp add: phrx_ip4_parsed_def Let_def options_lsrr_def options_ssrr_def)

lemma p2p_peer_unreachable:
  assumes "li_ip4_ifaddr (i4_link st) = p2p_addrs" "s4_dst p = \<lparr>ia_version = IP4, ia_int = 0x0A000001\<rparr>" "i4_allow_broadcast st = 0"
    and "\<not> is_dhcp_client src (s4_payload p)"
  shows "broadcast_disallowed st src p"
  using assms p2p_broadcast [OF assms(1)] by (simp add: broadcast_disallowed_def)

text \<open>
  A datagram to the directed broadcast address of the interface is answered with an ICMP error: the classifier
  only knows the limited broadcast address.
\<close>

lemma directed_broadcast_answered:
  assumes "li_ip4_ifaddr (i4_link st) = [(\<lparr>ia_version = IP4, ia_int = 0x0A000001\<rparr>, net IP4 24 0x0A000000)]"
    and "v4_dst (p4_header pkt) = \<lparr>ia_version = IP4, ia_int = 0x0A0000FF\<rparr>" "v4_src (p4_header pkt) = \<lparr>ia_version = IP4, ia_int = 0x0A000007\<rparr>"
    and "v4_offset (p4_header pkt) = 0" "fst (try_consume now (i4_rate_limiter st))"
  shows "v4_dst (p4_header pkt) \<in> set (ip4_broadcast st)"
    "\<exists>st'. emit_protocol_unreachable now frame pkt st =
      (Rx_Icmp_Error (v4_dst (p4_header pkt)) (v4_src (p4_header pkt)) (Icmp4_Protocol_Unreachable (ip4_packet_bytes frame pkt)), st')"
proof -
  show "v4_dst (p4_header pkt) \<in> set (ip4_broadcast st)"
    using assms(1,2) by (simp add: ip4_broadcast_def if_addrs_def network_broadcast_def) code_simp
  have own: "owned st \<noteq> []" using assms(1) by (simp add: owned_def ip4_unicast_def)
  have classes: "\<not> ip4_is_limited_broadcast \<lparr>ia_version = IP4, ia_int = 0x0A0000FF\<rparr>" "\<not> ip4_is_multicast \<lparr>ia_version = IP4, ia_int = 0x0A0000FF\<rparr>"
    "\<not> ip_is_unspecified \<lparr>ia_version = IP4, ia_int = 0x0A000007\<rparr>" "\<not> ip4_is_loopback \<lparr>ia_version = IP4, ia_int = 0x0A000007\<rparr>"
    "\<not> ip4_is_multicast \<lparr>ia_version = IP4, ia_int = 0x0A000007\<rparr>" "\<not> ip4_is_limited_broadcast \<lparr>ia_version = IP4, ia_int = 0x0A000007\<rparr>"
    "\<not> ip4_is_reserved \<lparr>ia_version = IP4, ia_int = 0x0A000007\<rparr>"
    by code_simp+
  obtain rl where "try_consume now (i4_rate_limiter st) = (True, rl)" using assms(5) by (cases "try_consume now (i4_rate_limiter st)") auto
  then show "\<exists>st'. emit_protocol_unreachable now frame pkt st =
      (Rx_Icmp_Error (v4_dst (p4_header pkt)) (v4_src (p4_header pkt)) (Icmp4_Protocol_Unreachable (ip4_packet_bytes frame pkt)), st')"
    using own classes assms(2-4)
    by (simp add: emit_protocol_unreachable_def emit_icmp4_error_def try_emit_icmp_error_def should_emit_icmp_error_def
        classify_inbound_def Let_def)
qed

text \<open>
  Fragments that reach past the largest datagram: the length does not fit the rewritten header, and
  \<open>struct.error\<close> leaves the handler.
\<close>

lemma oversized_reassembly_raises:
  assumes "2 \<le> length header" "65535 < length header + n"
  shows "rewrite_header header ecn n = Inl StructError"
proof -
  have "byte_at header 1 = Inr (uint (header ! 1))" using assms(1) by (simp add: byte_at_def)
  moreover have low: "0 \<le> ecn AND 3" "ecn AND 3 < 2 ^ 8" using and_mask_mod [of ecn 2] by (simp_all add: pos_mod_bound order.strict_trans)
  have high: "0 \<le> uint (header ! 1) AND 0xFC" "uint (header ! 1) AND 0xFC < 2 ^ 8"
    using AND_upper2 [of "0xFC" "uint (header ! 1)"] by simp_all
  have "0 \<le> (uint (header ! 1) AND 0xFC) OR (ecn AND 3)" "(uint (header ! 1) AND 0xFC) OR (ecn AND 3) < 2 ^ 8"
    using low(1) high(1) OR_upper [OF high(1,2) low(2)] by simp_all
  moreover have "\<not> int (length header + n) < 256 ^ 2" using assms(2) by simp
  ultimately show ?thesis by (simp add: rewrite_header_def int_to_bytes_def)
qed

end
