(* ===== verification/Ip4_Delivery.thy ===== *)
theory Ip4_Delivery
  imports Ip4_Handler
begin

text \<open>
  Sender, codec, reassembly and receiver of the IPv4 layer together: a datagram too large for the interface is
  cut, encoded, and delivered whole by the receiver whatever the order its fragments arrive in.
\<close>

section \<open>What a sender without a link layer puts on its ring\<close>

definition fragment_of :: "ip4_tx \<Rightarrow> int \<Rightarrow> chunk \<Rightarrow> ip4_tx res" where
  "fragment_of pkt ident ck =
     (case ck of (off, ch, l) \<Rightarrow>
        ip4_frag_assembler ((t4_header pkt)\<lparr>v4_id := ident, v4_mf := \<not> l, v4_offset := int off\<rparr>)
          (if off = 0 then t4_options pkt else copied_options (t4_options pkt)) ch)"

lemma ip4_out_L3:
  assumes "i4_interface_layer st = L3" "ip4_out nd now pkt st = Inr (status, st')"
  shows "status = PASSED__IP4__TO_TX_RING \<and> i4_interface_layer st' = L3 \<and> li_queue_max_size (i4_link st') = li_queue_max_size (i4_link st) \<and>
    i4_tx_deque st' = (if length (i4_tx_deque st) < li_queue_max_size (i4_link st) then i4_tx_deque st @ [pkt] else i4_tx_deque st)"
  using assms by (auto simp: ip4_out_def ip4_send_out_packet_def ip4_if_simps)

lemma send_fragments_ring:
  assumes "send_fragments (ip4_out nd now) pkt ident chunks ss st = Inr (ss', st')" "i4_interface_layer st = L3"
    and "length (i4_tx_deque st') < li_queue_max_size (i4_link st)"
  shows "\<exists>frags. map_res (fragment_of pkt ident) chunks = Inr frags \<and> i4_tx_deque st' = i4_tx_deque st @ frags"
  using assms
proof (induction chunks arbitrary: ss st)
  case (Cons a chunks)
  obtain off ch l where a: "a = (off, ch, l)" by (cases a)
  obtain frag status st1 where f: "fragment_of pkt ident a = Inr frag"
      "ip4_out nd now frag (bump_tx ''ip4__mtu_exceed__frag__send'' st) = Inr (status, st1)"
      "send_fragments (ip4_out nd now) pkt ident chunks (ss @ [status]) st1 = Inr (ss', st')"
    using Cons.prems(1) by (auto simp: a fragment_of_def)
  have o: "i4_interface_layer st1 = L3" "li_queue_max_size (i4_link st1) = li_queue_max_size (i4_link st)"
    "i4_tx_deque st1 = (if length (i4_tx_deque st) < li_queue_max_size (i4_link st) then i4_tx_deque st @ [frag] else i4_tx_deque st)"
    using ip4_out_L3 [OF _ f(2)] Cons.prems(2) by (simp_all add: ip4_if_simps)
  obtain frags where "map_res (fragment_of pkt ident) chunks = Inr frags" "i4_tx_deque st' = i4_tx_deque st1 @ frags"
    using Cons.IH [OF f(3) o(1)] Cons.prems(3) o(2) by auto
  then show ?case using f(1) o(3) Cons.prems(3) by (auto split: if_splits)
qed simp

text \<open>Two packets or more on the ring: the datagram was cut.\<close>

lemma phtx_fragmented:
  assumes "phtx_ip4 nd now p st = Inr (status, st')" "i4_interface_layer st = L3"
    and "i4_tx_deque st' = i4_tx_deque st @ pkts" "2 \<le> length pkts" "length (i4_tx_deque st') < li_queue_max_size (i4_link st)"
  obtains src pkt ident bs m cs where
    "src \<in> set (owned st) \<or> is_dhcp_client src (s4_payload p)"
    "t4_options pkt = s4_options p" "ip4_header_ok (t4_header pkt)" "v4_src (t4_header pkt) = src" "v4_dst (t4_header pkt) = s4_dst p"
    "v4_proto (t4_header pkt) = ip_proto_from_proto (pl_kind (s4_payload p))" "4 dvd ip4_options_len (s4_options p)"
    "v4_plen (t4_header pkt) = 20 + int (ip4_options_len (s4_options p)) + int (pl_len (s4_payload p))"
    "fragment_payload pkt (s4_payload p) = Inr bs" "iter_fragment_chunks bs m = Inr (Some cs)"
    "map_res (fragment_of pkt ident) cs = Inr pkts"
proof -
  let ?st = "bump_tx ''ip4__pre_assemble'' st"
  obtain r st1 where v: "validate_src_ip4_address p ?st = (r, st1)" by (cases "validate_src_ip4_address p ?st")
  note keeps = validate_keeps [OF v, unfolded ip4_if_simps]
  have short: "False" if "i4_tx_deque st' = i4_tx_deque st \<or> (\<exists>x. i4_tx_deque st' = i4_tx_deque st @ [x])"
    using that assms(3,4) by auto
  obtain src where r: "r = Inr src"
    using assms(1) short v keeps by (cases r) (auto simp: phtx_ip4_def phtx_ip4_with_def Let_def ip4_if_simps split: if_splits)
  let ?args = "\<lparr>v4_hlen = 20, v4_dscp = s4_dscp p, v4_ecn = s4_ecn p, v4_plen = 20, v4_id = 0, v4_df = s4_df p, v4_mf = False,
    v4_offset = 0, v4_ttl = send_ttl p ?st, v4_proto = PROTO_RAW, v4_cksum = 0, v4_src = src, v4_dst = s4_dst p\<rparr>"
  obtain pkt where pkt: "ip4_assembler ?args (s4_options p) (s4_payload p) = Inr pkt"
    and out: "(if int (ip4_tx_len pkt) \<le> i4_interface_mtu st then ip4_out nd now pkt (bump_tx ''ip4__mtu_ok__send'' st1)
       else if s4_df p then Inr (DROPPED__IP4__MTU_EXCEED_DF, bump_tx ''ip4__mtu_exceed__df_set__drop'' st1)
       else fragment_and_send (ip4_out nd now) pkt (s4_payload p) (bump_tx ''ip4__mtu_exceed__frag'' st1)) = Inr (status, st')"
    using assms(1) short keeps
    by (auto simp: phtx_ip4_def phtx_ip4_with_def Let_def v r ip4_if_simps split: if_splits)
  have "\<not> int (ip4_tx_len pkt) \<le> i4_interface_mtu st"
    using out short keeps assms(2) ip4_out_L3 [of "bump_tx ''ip4__mtu_ok__send'' st1" nd now pkt status st']
    by (auto simp: ip4_if_simps split: if_splits)
  then have frag: "fragment_and_send (ip4_out nd now) pkt (s4_payload p) (bump_tx ''ip4__mtu_exceed__frag'' st1) = Inr (status, st')"
    using out short keeps by (auto simp: ip4_if_simps split: if_splits)
  define st2 where "st2 = bump_tx ''ip4__mtu_exceed__frag'' st1"
  obtain ident st3 where id: "next_ip4_id st2 = (ident, st3)" by (cases "next_ip4_id st2")
  then have st3: "i4_interface_layer st3 = L3" "li_queue_max_size (i4_link st3) = li_queue_max_size (i4_link st)" "i4_tx_deque st3 = i4_tx_deque st"
    using keeps assms(2) by (auto simp: next_ip4_id_def Let_def st2_def ip4_if_simps)
  obtain bs cs ss where f: "fragment_payload pkt (s4_payload p) = Inr bs"
    "iter_fragment_chunks bs (i4_interface_mtu st3 - v4_hlen (t4_header pkt)) = Inr (Some cs)"
    "send_fragments (ip4_out nd now) pkt ident cs [] st3 = Inr (ss, st')"
    using frag unfolding st2_def [symmetric] by (auto simp: fragment_and_send_def id split: option.splits)
  obtain frags where "map_res (fragment_of pkt ident) cs = Inr frags" "i4_tx_deque st' = i4_tx_deque st @ frags"
    using send_fragments_ring [OF f(3) st3(1)] assms(5) st3 by auto
  then have "map_res (fragment_of pkt ident) cs = Inr pkts" using assms(3) by simp
  moreover have "src \<in> set (owned st) \<or> is_dhcp_client src (s4_payload p)"
    using validated_source [of p ?st src st1] v by (simp add: r ip4_if_simps)
  ultimately show ?thesis
    using that [of src pkt bs _ cs ident] f(1,2) ip4_assembler_Inr [OF pkt] by auto
qed

section \<open>The bytes of a packet\<close>

definition ip4_wire :: "ip4_tx \<Rightarrow> bytes" where
  "ip4_wire pkt = (case ip4_assemble pkt of Inr bufs \<Rightarrow> concat bufs | Inl _ \<Rightarrow> [])"

lemma ip4_wire_parsed:
  assumes "ip4_tx_ok pkt" "t4_body pkt = Chunk ch" "ip4_sanity_pointer (t4_header pkt) = None" "ip4_sum_exact pkt"
  obtains hdr ob ck where "ip4_header_buffer (t4_header pkt) = Inr hdr" "ip4_options_buffer (t4_options pkt) = Inr ob"
    "length hdr = 20" "length ob = ip4_options_len (t4_options pkt)" "ip4_wire pkt = put_at 10 (to_bytes 2 ck) hdr @ ob @ ch"
    "ip4_parsed (ip4_wire pkt) = Inr \<lparr>p4_header = (t4_header pkt)\<lparr>v4_cksum := ck\<rparr>, p4_options = t4_options pkt, p4_payload = ch\<rparr>"
proof -
  have body: "ip4_body_bytes pkt = Inr ch" "length ch = body_len (t4_body pkt)" by (simp_all add: ip4_body_bytes_def assms(2))
  obtain hdr bss where a: "ip4_header_buffer (t4_header pkt) = Inr hdr" "length hdr = 20" "bslice 10 12 hdr = [0, 0]"
    "map_res ip4_option_buffer (t4_options pkt) = Inr bss" "ip4_options_buffer (t4_options pkt) = Inr (concat bss)"
    "length (concat bss) = ip4_options_len (t4_options pkt)"
    "ip4_assemble pkt = Inr [put_at 10 (to_bytes 2 (inet_cksum [hdr, concat bss] 0)) hdr, concat bss, ch]"
    using ip4_assemble_total [OF assms(1) body(1)] by blast
  let ?ck = "inet_cksum [hdr, concat bss] 0"
  have wire: "ip4_wire pkt = put_at 10 (to_bytes 2 ?ck) hdr @ concat bss @ ch" by (simp add: ip4_wire_def a(7))
  have "inet_cksum [put_at 10 (to_bytes 2 ?ck) hdr @ concat bss] 0 = 0"
    using cksum_completed [of 10 hdr "[concat bss]" 0 ?ck] a(1-3,5) ip4_options_even [OF assms(1) a(6)] assms(4)
    by (simp add: ip4_sum_exact_def)
  then have "ip4_parser (ip4_wire pkt) =
      Inr \<lparr>p4_header = (t4_header pkt)\<lparr>v4_cksum := ?ck\<rparr>, p4_options = t4_options pkt, p4_payload = ch\<rparr>"
    using ip4_frame_parses [OF assms(1) a(1,5) body(2) assms(3) inet_cksum_uint16, of "[hdr, concat bss]" 0 "[]"] by (simp add: wire)
  then have "ip4_parsed (ip4_wire pkt) =
      Inr \<lparr>p4_header = (t4_header pkt)\<lparr>v4_cksum := ?ck\<rparr>, p4_options = t4_options pkt, p4_payload = ch\<rparr>"
    by (auto simp: ip4_parser_def split: if_splits)
  then show ?thesis using that a wire by blast
qed

section \<open>Receiving fragments\<close>

definition ip4_same_config :: "ip4_if \<Rightarrow> ip4_if \<Rightarrow> bool" where
  "ip4_same_config st st' \<longleftrightarrow> i4_link st' = i4_link st \<and> i4_multicast st' = i4_multicast st \<and>
     i4_accept_source_route st' = i4_accept_source_route st"

lemma ip4_same_config_admitted: "ip4_same_config st st' \<Longrightarrow> ip4_admitted st' pkt = ip4_admitted st pkt"
  by (simp add: ip4_same_config_def ip4_admitted_def Let_def ip4_broadcast_def owned_def if_addrs_def)

lemma ip4_same_config_bump [intro]: "ip4_same_config st st' \<Longrightarrow> ip4_same_config st (bump_rx k st')"
  by (simp add: ip4_same_config_def ip4_if_simps)

lemma ip4_same_config_count: "ip4_same_config st (count_dst pkt st) \<and> i4_frag_table (count_dst pkt st) = i4_frag_table st"
  by (simp add: count_dst_def Let_def ip4_same_config_def ip4_if_simps)

text \<open>A fragment that arrives is added to the table; then the datagram is pending or handed on.\<close>

lemma phrx_fragment:
  assumes "ip4_parsed frame = Inr pkt" "ip4_admitted st pkt" "is_fragment pkt"
    and "add_fragment now born (rx_fragment frame pkt) (i4_frag_table st) = Inr (t, r)"
  shows "\<exists>st'. ip4_same_config st st' \<and> i4_frag_table st' = t \<and>
    (far_outcome r = PENDING \<longrightarrow> phrx_ip4 sockets admits now born later frame st = Inr (Rx_None, st')) \<and>
    (\<forall>hdr whole. far_outcome r = COMPLETE \<and> rewrite_header (far_header r) (far_ecn r) (length (far_payload r)) = Inr hdr \<and>
       ip4_parser (hdr @ far_payload r) = Inr whole \<longrightarrow>
       phrx_ip4 sockets admits now born later frame st =
         Inr (demux_ip4 sockets admits later (hdr @ far_payload r) whole (bump_rx ''ip4__defrag'' st')))"
proof -
  let ?st = "bump_rx ''ip4__pre_parse'' st"
  define st1 where "st1 = bump_rx ''ip4__frag'' (count_dst pkt ?st)"
  have st1: "ip4_same_config st st1" "i4_frag_table st1 = i4_frag_table st"
    using ip4_same_config_count [of ?st pkt] by (simp_all add: st1_def ip4_same_config_def ip4_if_simps)
  have "ip4_admitted ?st pkt" using assms(2) by (simp add: ip4_admitted_def Let_def ip4_if_simps)
  then have run: "phrx_ip4 sockets admits now born later frame st =
      bind_res (defragment_ip4_packet now born frame pkt st1) (\<lambda>(r, st). case r of None \<Rightarrow> Inr (Rx_None, st)
        | Some (whole, bytes) \<Rightarrow> Inr (demux_ip4 sockets admits later bytes whole (bump_rx ''ip4__defrag'' st)))"
    using assms(1,3)
    by (auto simp: phrx_ip4_def phrx_ip4_parsed_def ip4_admitted_def forward_or_deliver_ip4_def is_fragment_def Let_def st1_def)
  let ?st' = "st1\<lparr>i4_frag_table := t\<rparr>"
  have d: "defragment_ip4_packet now born frame pkt st1 =
      (if far_outcome r = OVERLAP \<or> far_outcome r = DISCARDED then Inr (None, bump_rx ''ip4__frag__overlap__drop'' ?st')
       else if far_outcome r = ECN_MIXED__DROP then Inr (None, bump_rx ''ip4__frag__ecn_mixed__drop'' ?st')
       else if far_outcome r \<noteq> COMPLETE then Inr (None, ?st')
       else bind_res (rewrite_header (far_header r) (far_ecn r) (length (far_payload r))) (\<lambda>header.
            let whole = header @ far_payload r in bind_res (ip4_parser whole) (\<lambda>p. Inr (Some (p, whole), ?st'))))"
    using assms(4) st1(2) by (simp add: defragment_ip4_packet_def rx_fragment_def Let_def)
  have "ip4_same_config st ?st'" using st1(1) by (simp add: ip4_same_config_def)
  then show ?thesis by (intro exI [of _ ?st']) (simp add: run d Let_def)
qed

fun phrx_ip4_all ::
    "(raw_socket_id \<Rightarrow> 's option) \<Rightarrow> ('s \<Rightarrow> int \<Rightarrow> ip_address \<Rightarrow> ip_address \<Rightarrow> bool) \<Rightarrow> (real \<times> real \<times> real \<times> bytes) list \<Rightarrow> ip4_if \<Rightarrow>
     ('s ip4_rx list \<times> ip4_if) res" where
  "phrx_ip4_all sockets admits [] st = Inr ([], st)"
| "phrx_ip4_all sockets admits ((now, born, later, frame) # frames) st =
     bind_res (phrx_ip4 sockets admits now born later frame st) (\<lambda>(r, st).
     bind_res (phrx_ip4_all sockets admits frames st) (\<lambda>(rs, st). Inr (r # rs, st)))"

text \<open>What the table reports for each fragment decides what the receiver does with it.\<close>

lemma phrx_ip4_all_reassembled:
  assumes "\<forall>(now, born, later, frame, pkt) \<in> set xs. ip4_parsed frame = Inr pkt \<and> ip4_admitted st pkt \<and> is_fragment pkt" "xs \<noteq> []"
    and "run_fragments (map (\<lambda>(now, born, later, frame, pkt). (now, born, rx_fragment frame pkt)) xs) (i4_frag_table st) =
      Inr (t', replicate (length xs - 1) (outcome_only PENDING) @ [complete_result h p e])"
    and "rewrite_header h e (length p) = Inr hdr" "ip4_parser (hdr @ p) = Inr whole"
    and "find_opt sockets (raw_socket_ids (v4_dst (p4_header whole)) (v4_src (p4_header whole)) (v4_proto (p4_header whole))) = None"
    and "v4_proto (p4_header whole) \<in> {PROTO_ICMP4, PROTO_IGMP, PROTO_UDP, PROTO_TCP}"
  shows "\<exists>st'. phrx_ip4_all sockets admits (map (\<lambda>(now, born, later, frame, pkt). (now, born, later, frame)) xs) st =
      Inr (replicate (length xs - 1) Rx_None @ [Rx_Handler (v4_proto (p4_header whole)) whole], st')"
  using assms(1-3)
proof (induction xs arbitrary: st)
  case (Cons x xs)
  obtain now born later frame pkt where x: "x = (now, born, later, frame, pkt)" by (cases x)
  have frag: "ip4_parsed frame = Inr pkt" "ip4_admitted st pkt" "is_fragment pkt" using Cons.prems(1) by (auto simp: x)
  obtain t r rs where add: "add_fragment now born (rx_fragment frame pkt) (i4_frag_table st) = Inr (t, r)"
    and rest: "run_fragments (map (\<lambda>(now, born, later, frame, pkt). (now, born, rx_fragment frame pkt)) xs) t = Inr (t', rs)"
    and rs: "r # rs = replicate (length xs) (outcome_only PENDING) @ [complete_result h p e]"
    using Cons.prems(3) by (auto simp: x)
  obtain st1 where st1: "ip4_same_config st st1" "i4_frag_table st1 = t"
    "far_outcome r = PENDING \<longrightarrow> phrx_ip4 sockets admits now born later frame st = Inr (Rx_None, st1)"
    "\<forall>hdr whole. far_outcome r = COMPLETE \<and> rewrite_header (far_header r) (far_ecn r) (length (far_payload r)) = Inr hdr \<and>
       ip4_parser (hdr @ far_payload r) = Inr whole \<longrightarrow>
       phrx_ip4 sockets admits now born later frame st =
         Inr (demux_ip4 sockets admits later (hdr @ far_payload r) whole (bump_rx ''ip4__defrag'' st1))"
    using phrx_fragment [OF frag add, of sockets admits later] by blast
  show ?case
  proof (cases xs)
    case Nil
    then have "r = complete_result h p e" using rs by simp
    then have "phrx_ip4 sockets admits now born later frame st =
        Inr (Rx_Handler (v4_proto (p4_header whole)) whole, bump_rx ''ip4__defrag'' st1)"
      using st1(4) assms(4-7) by (simp add: complete_result_def demux_ip4_def Let_def)
    then show ?thesis by (simp add: x Nil)
  next
    case (Cons y ys)
    then have r: "r = outcome_only PENDING" "rs = replicate (length xs - 1) (outcome_only PENDING) @ [complete_result h p e]"
      using rs by simp_all
    have "\<forall>(now, born, later, frame, pkt) \<in> set xs. ip4_parsed frame = Inr pkt \<and> ip4_admitted st1 pkt \<and> is_fragment pkt"
      using Cons.prems(1) ip4_same_config_admitted [OF st1(1)] by auto
    then obtain st' where "phrx_ip4_all sockets admits (map (\<lambda>(now, born, later, frame, pkt). (now, born, later, frame)) xs) st1 =
      Inr (replicate (length xs - 1) Rx_None @ [Rx_Handler (v4_proto (p4_header whole)) whole], st')"
      using Cons.IH [of st1] rest r(2) Cons st1(2) by auto
    moreover have "phrx_ip4 sockets admits now born later frame st = Inr (Rx_None, st1)"
      using st1(3) r(1) by (simp add: outcome_only_def)
    ultimately show ?thesis by (simp add: x Cons)
  qed
qed simp

section \<open>The fragments of a datagram\<close>

text \<open>The chunk a fragment carries, the flow it belongs to and the header the receiver keeps of it.\<close>

definition chunk_of :: "ip4_tx \<Rightarrow> chunk" where
  "chunk_of x = (nat (v4_offset (t4_header x)), (case t4_body x of Chunk ch \<Rightarrow> ch | Body _ \<Rightarrow> []), \<not> v4_mf (t4_header x))"

definition flow_of :: "ip4_header \<Rightarrow> ip_frag_flow_id" where
  "flow_of h = \<lparr>ff_src = v4_src h, ff_dst = v4_dst h, ff_id = v4_id h, ff_proto = Some (ip_proto_int (v4_proto h))\<rparr>"

text \<open>A fragment with the length of the whole datagram, as the receiver rewrites it.\<close>

definition rejoined :: "bytes \<Rightarrow> ip4_tx \<Rightarrow> ip4_tx" where
  "rejoined bs x = \<lparr>t4_header = (t4_header x)\<lparr>v4_plen := int (20 + ip4_options_len (t4_options x) + length bs), v4_df := False,
       v4_mf := False, v4_offset := 0\<rparr>, t4_options = t4_options x, t4_body = Chunk bs\<rparr>"

definition rejoined_exact :: "nat \<Rightarrow> ip4_tx \<Rightarrow> bool" where
  "rejoined_exact n x =
     (let y = rejoined (replicate n 0) x in
      case (ip4_header_buffer (t4_header y), ip4_options_buffer (t4_options y)) of
        (Inr header, Inr opts) \<Rightarrow> inet_cksum [header @ opts] 0 = rfc1071 (header @ opts) 0
      | _ \<Rightarrow> False)"

lemma rejoined_header: "length bs = n \<Longrightarrow> t4_header (rejoined bs x) = t4_header (rejoined (replicate n 0) x)"
  by (simp add: rejoined_def)

lemma copied_options_ok:
  assumes "list_all ip4_option_ok opts" "Ip4Eol \<notin> set (butlast opts)"
  shows "list_all ip4_option_ok (if off = (0 :: nat) then opts else copied_options opts)"
    "Ip4Eol \<notin> set (butlast (if off = (0 :: nat) then opts else copied_options opts))"
proof -
  have "Ip4Eol \<notin> set (copied_options opts)"
    by (auto simp: copied_options_def with_copy_flag_def copy_flag_def Let_def)
  then show "Ip4Eol \<notin> set (butlast (if off = (0 :: nat) then opts else copied_options opts))"
    using assms(2) by (auto dest: in_set_butlastD)
  show "list_all ip4_option_ok (if off = (0 :: nat) then opts else copied_options opts)"
    using assms(1) by (auto simp: copied_options_def with_copy_flag_def Let_def list_all_iff)
qed

lemma fragment_of_Inr:
  assumes "fragment_of pkt ident ck = Inr x" "4 dvd ip4_options_len (t4_options pkt)"
    and "list_all ip4_option_ok (t4_options pkt)" "Ip4Eol \<notin> set (butlast (t4_options pkt))"
    and "ip4_ok (v4_src (t4_header pkt))" "ip4_ok (v4_dst (t4_header pkt))" "proto_ok (v4_proto (t4_header pkt))"
  shows "ip4_tx_ok x" "chunk_of x = ck" "\<exists>ch. t4_body x = Chunk ch"
    "flow_of (t4_header x) = flow_of ((t4_header pkt)\<lparr>v4_id := ident\<rparr>)" "v4_ecn (t4_header x) = v4_ecn (t4_header pkt)"
    "\<not> v4_df (t4_header x)" "ip4_options_len (t4_options x) \<le> ip4_options_len (t4_options pkt)" "v4_proto (t4_header x) = v4_proto (t4_header pkt)"
proof -
  obtain off ch l where ck: "ck = (off, ch, l)" by (cases ck)
  let ?opts = "if off = 0 then t4_options pkt else copied_options (t4_options pkt)"
  have a: "ip4_frag_assembler ((t4_header pkt)\<lparr>v4_id := ident, v4_mf := \<not> l, v4_offset := int off\<rparr>) ?opts ch = Inr x"
    using assms(1) by (simp add: fragment_of_def ck)
  note x = ip4_frag_assembler_Inr [OF a]
  then show p: "v4_proto (t4_header x) = v4_proto (t4_header pkt)" by (cases x) simp
  show "ip4_tx_ok x"
    using p assembler_tx_ok [OF disjI2 [OF a] copied_options_ok [OF assms(3,4)]] assms(5-7) by simp
  show "chunk_of x = ck" "\<exists>ch. t4_body x = Chunk ch"
    "flow_of (t4_header x) = flow_of ((t4_header pkt)\<lparr>v4_id := ident\<rparr>)" "v4_ecn (t4_header x) = v4_ecn (t4_header pkt)"
    "\<not> v4_df (t4_header x)"
    using x by (auto simp: chunk_of_def ck flow_of_def)
  show "ip4_options_len (t4_options x) \<le> ip4_options_len (t4_options pkt)"
    using x copied_options_len [OF assms(2)] by (auto simp: ck)
qed

lemma rejoined_tx_ok:
  assumes "ip4_tx_ok x" "is_uint16 n" "int (20 + ip4_options_len (t4_options x) + length bs) \<le> n"
  shows "ip4_tx_ok (rejoined bs x)"
  using assms by (auto simp: ip4_tx_ok_def rejoined_def ip4_header_wf_def ip4_header_ok_def ip4_tx_len_def uint_checks is_8_byte_alligned_def)

text \<open>One fragment, as the receiver sees it.\<close>

lemma fragment_received:
  assumes "ip4_tx_ok x" "\<exists>ch. t4_body x = Chunk ch" "ip4_sanity_pointer (t4_header x) = None" "ip4_sum_exact x"
  shows "\<exists>q hdr ob ck. ip4_parsed (ip4_wire x) = Inr q \<and> ip4_header_buffer (t4_header x) = Inr hdr \<and>
    ip4_options_buffer (t4_options x) = Inr ob \<and> length ob = ip4_options_len (t4_options x) \<and>
    rx_fragment (ip4_wire x) q = frag_of_chunk (flow_of (t4_header x)) (put_at 10 (to_bytes 2 ck) hdr @ ob) (v4_ecn (t4_header x)) (chunk_of x) \<and>
    p4_header q = (t4_header x)\<lparr>v4_cksum := ck\<rparr> \<and> p4_options q = t4_options x"
proof -
  obtain ch where ch: "t4_body x = Chunk ch" using assms(2) by blast
  obtain hdr ob ck where w: "ip4_header_buffer (t4_header x) = Inr hdr" "ip4_options_buffer (t4_options x) = Inr ob"
    "length hdr = 20" "length ob = ip4_options_len (t4_options x)" "ip4_wire x = put_at 10 (to_bytes 2 ck) hdr @ ob @ ch"
    "ip4_parsed (ip4_wire x) = Inr \<lparr>p4_header = (t4_header x)\<lparr>v4_cksum := ck\<rparr>, p4_options = t4_options x, p4_payload = ch\<rparr>"
    using ip4_wire_parsed [OF assms(1) ch assms(3,4)] by metis
  have "v4_hlen (t4_header x) = 20 + int (ip4_options_len (t4_options x))" using assms(1) by (simp add: ip4_tx_ok_def)
  then show ?thesis
    using w by (auto simp: rx_fragment_def Let_def ip4_packet_bytes_def frag_of_chunk_def chunk_of_def flow_of_def ch put_at_def nat_add_distrib)
qed

text \<open>The header kept, rewritten to the whole length, parses with the joined payload.\<close>

lemma rejoined_parsed:
  assumes "ip4_tx_ok x" "ip4_tx_ok (rejoined bs x)" "ip4_sanity_pointer (t4_header x) = None" "rejoined_exact (length bs) x"
    and "ip4_header_buffer (t4_header x) = Inr hdr" "ip4_options_buffer (t4_options x) = Inr ob" "length ob = ip4_options_len (t4_options x)"
  shows "\<exists>hdr2 ck2. rewrite_header (put_at 10 (to_bytes 2 ck) hdr @ ob) (v4_ecn (t4_header x)) (length bs) = Inr hdr2 \<and>
    ip4_parser (hdr2 @ bs) = Inr \<lparr>p4_header = (t4_header (rejoined bs x))\<lparr>v4_cksum := ck2\<rparr>, p4_options = t4_options x, p4_payload = bs\<rparr>"
proof -
  let ?y = "rejoined bs x"
  have wf: "ip4_header_wf (t4_header x)" "ip4_header_wf (t4_header ?y)" using assms(1,2) by (auto simp: ip4_tx_ok_def)
  obtain hdr' where hdr': "ip4_header_buffer (t4_header ?y) = Inr hdr'" "length hdr' = 20" "bslice 10 12 hdr' = [0, 0]"
    using ip4_header_buffer_total [OF wf(2)] by blast
  let ?ck = "inet_cksum [hdr' @ ob] 0"
  have rw: "rewrite_header (put_at 10 (to_bytes 2 ck) hdr @ ob) (v4_ecn (t4_header x)) (length bs) = Inr (put_at 10 (to_bytes 2 ?ck) hdr' @ ob)"
    by (rule rewrite_header_eq [OF wf _ assms(5) hdr'(1)]) (simp add: rejoined_def assms(7))
  have opts: "t4_options ?y = t4_options x" "t4_body ?y = Chunk bs" by (simp_all add: rejoined_def)
  have exact: "?ck = rfc1071 (hdr' @ ob) 0"
    using assms(4,6) hdr'(1) rejoined_header [of bs "length bs" x] by (simp add: rejoined_exact_def Let_def rejoined_def)
  have slice: "bslice 10 (10 + 2) (hdr' @ ob) = [0, 0]" using hdr'(2,3) by (simp add: bslice_def)
  have "inet_cksum [put_at 10 (to_bytes 2 ?ck) (hdr' @ ob)] 0 = 0"
    using cksum_completed [of 10 "hdr' @ ob" "[]" 0 ?ck] hdr'(2) slice ip4_options_even [OF assms(1,7)] exact by simp
  moreover have "put_at 10 (to_bytes 2 ?ck) (hdr' @ ob) = put_at 10 (to_bytes 2 ?ck) hdr' @ ob" using hdr'(2) by (simp add: put_at_def)
  moreover have "ip4_sanity_pointer (t4_header ?y) = None"
    using assms(3) by (auto simp: ip4_sanity_pointer_def rejoined_def split: if_splits)
  ultimately show ?thesis
    using rw ip4_frame_parses [OF assms(2) hdr'(1), of ob bs ?ck "[]"] assms(6) opts inet_cksum_uint16 [of "[hdr' @ ob]" 0] by auto
qed

lemma map_res_list_all2: "map_res f xs = Inr ys \<longleftrightarrow> list_all2 (\<lambda>x y. f x = Inr y) xs ys"
proof (induction xs arbitrary: ys)
  case (Cons x xs)
  then show ?case by (cases ys) auto
qed auto

section \<open>The fragments delivered\<close>

definition arrival_frames :: "(real \<times> real \<times> real \<times> ip4_tx) list \<Rightarrow> (real \<times> real \<times> real \<times> bytes) list" where
  "arrival_frames as = map (\<lambda>(now, born, later, x). (now, born, later, ip4_wire x)) as"

text \<open>The header without its payload: what the receiver's admission looks at.\<close>

definition rx_view :: "ip4_tx \<Rightarrow> ip4_packet" where
  "rx_view x = \<lparr>p4_header = t4_header x, p4_options = t4_options x, p4_payload = []\<rparr>"

lemma admitted_view:
  "p4_header q = (t4_header x)\<lparr>v4_cksum := ck\<rparr> \<Longrightarrow> p4_options q = t4_options x \<Longrightarrow> ip4_admitted st q = ip4_admitted st (rx_view x)"
  by (simp add: ip4_admitted_def rx_view_def ip4_sanity_pointer_def Let_def)

definition rx_packet :: "ip4_tx \<Rightarrow> ip4_packet" where
  "rx_packet x = (case ip4_parsed (ip4_wire x) of Inr q \<Rightarrow> q | Inl _ \<Rightarrow> rx_view x)"

definition kept_header :: "ip4_tx \<Rightarrow> bytes" where
  "kept_header x = fragment.fr_header (rx_fragment (ip4_wire x) (rx_packet x))"

definition fragment_kept :: "ip_frag_flow_id \<Rightarrow> int \<Rightarrow> ip4_if \<Rightarrow> ip4_tx \<Rightarrow> bool" where
  "fragment_kept f e st x \<longleftrightarrow> ip4_parsed (ip4_wire x) = Inr (rx_packet x) \<and>
     rx_fragment (ip4_wire x) (rx_packet x) = frag_of_chunk f (kept_header x) e (chunk_of x) \<and> ip4_admitted st (rx_packet x) \<and>
     v4_mf (p4_header (rx_packet x)) = v4_mf (t4_header x) \<and> v4_offset (p4_header (rx_packet x)) = v4_offset (t4_header x) \<and>
     (\<exists>hdr ob ck. ip4_header_buffer (t4_header x) = Inr hdr \<and> ip4_options_buffer (t4_options x) = Inr ob \<and>
        length ob = ip4_options_len (t4_options x) \<and> kept_header x = put_at 10 (to_bytes 2 ck) hdr @ ob)"

lemma fragment_kept:
  assumes "ip4_tx_ok x" "\<exists>ch. t4_body x = Chunk ch" "flow_of (t4_header x) = f \<and> v4_ecn (t4_header x) = e" "ip4_admitted st (rx_view x)"
    and "ip4_sanity_pointer (t4_header x) = None" "ip4_sum_exact x"
  shows "fragment_kept f e st x"
proof -
  obtain q hdr ob ck where r: "ip4_parsed (ip4_wire x) = Inr q" "ip4_header_buffer (t4_header x) = Inr hdr"
    "ip4_options_buffer (t4_options x) = Inr ob" "length ob = ip4_options_len (t4_options x)"
    "rx_fragment (ip4_wire x) q = frag_of_chunk f (put_at 10 (to_bytes 2 ck) hdr @ ob) e (chunk_of x)"
    "p4_header q = (t4_header x)\<lparr>v4_cksum := ck\<rparr>" "p4_options q = t4_options x"
    using fragment_received [OF assms(1,2,5,6)] assms(3) by blast
  have "rx_packet x = q" by (simp add: rx_packet_def r(1))
  then show ?thesis
    using r admitted_view [OF r(6,7), of st] assms(4) by (cases "chunk_of x") (auto simp: fragment_kept_def kept_header_def frag_of_chunk_def)
qed

lemma fragments_delivered:
  assumes cut: "iter_fragment_chunks bs m = Inr (Some cs)" "2 \<le> length cs" "map chunk_of pkts = cs"
    and frag: "\<forall>x \<in> set pkts. ip4_tx_ok x \<and> (\<exists>ch. t4_body x = Chunk ch) \<and> flow_of (t4_header x) = f \<and> v4_ecn (t4_header x) = e \<and>
      ip4_tx_ok (rejoined bs x) \<and> ip4_sum_exact x \<and> rejoined_exact (length bs) x \<and> ip4_admitted st (rx_view x)"
    and arr: "mset (map (snd \<circ> snd \<circ> snd) as) = mset pkts" "\<forall>a \<in> set as. fst a - fst (snd (hd as)) < ft_timeout (i4_frag_table st)"
    and room: "table_ok (i4_frag_table st)" "map_of (ft_flows (i4_frag_table st)) f = None" "length (ft_flows (i4_frag_table st)) < IP_FRAG__MAX_FLOWS"
    and proto: "\<forall>x \<in> set pkts. v4_proto (t4_header x) \<in> {PROTO_ICMP4, PROTO_IGMP, PROTO_UDP, PROTO_TCP} \<and>
      find_opt sockets (raw_socket_ids (v4_dst (t4_header x)) (v4_src (t4_header x)) (v4_proto (t4_header x))) = None"
  shows "\<exists>whole ck st'. phrx_ip4_all sockets admits (arrival_frames as) st =
      Inr (replicate (length pkts - 1) Rx_None @ [Rx_Handler (v4_proto (p4_header whole)) whole], st') \<and>
    p4_payload whole = bs \<and> p4_options whole = t4_options (snd (snd (snd (hd as)))) \<and>
    p4_header whole = (t4_header (rejoined bs (snd (snd (snd (hd as))))))\<lparr>v4_cksum := ck\<rparr>"
proof -
  have len: "length as = length pkts" using arr(1) by (metis length_map size_mset)
  have mem: "snd (snd (snd a)) \<in> set pkts" if "a \<in> set as" for a using that mset_eq_setD [OF arr(1)] by auto
  have ne: "as \<noteq> []" using len cut by auto
  have sane: "ip4_sanity_pointer (t4_header x) = None" if "x \<in> set pkts" for x
    using frag that by (auto simp: ip4_admitted_def rx_view_def Let_def)
  have got: "fragment_kept f e st x" if "x \<in> set pkts" for x using fragment_kept [OF _ _ _ _ sane [OF that]] frag that by simp
  define xs where "xs = map (\<lambda>(now, born, later, x). (now, born, later, ip4_wire x, rx_packet x)) as"
  define ys where "ys = map (\<lambda>(now, born, later :: real, x). (now, born, kept_header x, chunk_of x)) as"
  obtain c where c: "0 < c" "cs = map (chunk_at bs c) [0..<chunk_count bs c]" using chunks_shape [OF cut(1,2)] .
  have isf: "is_fragment (rx_packet x)" if "x \<in> set pkts" for x
  proof -
    have "chunk_of x \<in> set cs" using that cut(3) by auto
    then show ?thesis using got [OF that] c cut(2) by (auto simp: fragment_kept_def is_fragment_def chunk_of_def chunk_at_def)
  qed
  have ymap: "map (snd \<circ> snd \<circ> snd) ys = map chunk_of (map (snd \<circ> snd \<circ> snd) as)" by (auto simp: ys_def)
  have "mset (map (snd \<circ> snd \<circ> snd) ys) = mset cs"
    unfolding ymap mset_map [of chunk_of] arr(1) using cut(3) by (metis mset_map)
  moreover have "fst (snd (hd ys)) = fst (snd (hd as))" "fst (snd (snd (hd ys))) = kept_header (snd (snd (snd (hd as))))"
    using ne by (cases as; auto simp: ys_def)+
  moreover have "\<forall>a \<in> set ys. fst a - fst (snd (hd as)) < ft_timeout (i4_frag_table st)" using arr(2) by (auto simp: ys_def)
  ultimately obtain t' where t': "run_fragments (map (\<lambda>(now, born, hdr, ck). (now, born, frag_of_chunk f hdr e ck)) ys) (i4_frag_table st) =
      Inr (t', replicate (length cs - 1) (outcome_only PENDING) @ [complete_result (kept_header (snd (snd (snd (hd as))))) bs e])"
    using reassembled_any_order [OF cut(1,2), of ys "i4_frag_table st" f e] room by auto
  have eq: "map (\<lambda>(now, born, later, frame, pkt). (now, born, rx_fragment frame pkt)) xs =
      map (\<lambda>(now, born, hdr, ck). (now, born, frag_of_chunk f hdr e ck)) ys"
    using got mem by (auto simp: fragment_kept_def xs_def ys_def)
  define x where "x = snd (snd (snd (hd as)))"
  have x: "x \<in> set pkts" unfolding x_def using mem ne by auto
  obtain hdr ob ck where k: "ip4_header_buffer (t4_header x) = Inr hdr" "ip4_options_buffer (t4_options x) = Inr ob"
    "length ob = ip4_options_len (t4_options x)" "kept_header x = put_at 10 (to_bytes 2 ck) hdr @ ob" using got [OF x] unfolding fragment_kept_def by blast
  have xf: "ip4_tx_ok x" "ip4_tx_ok (rejoined bs x)" "rejoined_exact (length bs) x" "v4_ecn (t4_header x) = e" using frag x by auto
  obtain hdr2 ck2 where j: "rewrite_header (kept_header x) e (length bs) = Inr hdr2"
    "ip4_parser (hdr2 @ bs) = Inr \<lparr>p4_header = (t4_header (rejoined bs x))\<lparr>v4_cksum := ck2\<rparr>, p4_options = t4_options x, p4_payload = bs\<rparr>"
    using rejoined_parsed [OF xf(1,2) sane [OF x] xf(3) k(1-3), of ck] unfolding k(4) xf(4) by blast
  let ?whole = "\<lparr>p4_header = (t4_header (rejoined bs x))\<lparr>v4_cksum := ck2\<rparr>, p4_options = t4_options x, p4_payload = bs\<rparr>"
  have same: "v4_src (p4_header ?whole) = v4_src (t4_header x)" "v4_dst (p4_header ?whole) = v4_dst (t4_header x)"
    "v4_proto (p4_header ?whole) = v4_proto (t4_header x)" by (simp_all add: rejoined_def)
  have l: "length xs = length cs" "xs \<noteq> []" using len cut(3) ne by (auto simp: xs_def)
  have frames: "map (\<lambda>(now, born, later, frame, pkt). (now, born, later, frame)) xs = arrival_frames as"
    by (auto simp: xs_def arrival_frames_def)
  have "\<forall>(now, born, later, frame, pkt) \<in> set xs. ip4_parsed frame = Inr pkt \<and> ip4_admitted st pkt \<and> is_fragment pkt"
    using got isf mem by (fastforce simp: fragment_kept_def xs_def)
  then obtain st' where "phrx_ip4_all sockets admits (arrival_frames as) st =
      Inr (replicate (length xs - 1) Rx_None @ [Rx_Handler (v4_proto (p4_header ?whole)) ?whole], st')"
    using phrx_ip4_all_reassembled [of xs st t' "kept_header x" bs e hdr2 ?whole sockets admits] l j t' proto x same unfolding eq frames x_def by auto
  then show ?thesis using l len cut(3) x_def by (intro exI [of _ ?whole] exI [of _ ck2] exI [of _ st']) auto
qed

section \<open>Property\<close>

text \<open>The payload, serialised for the addresses and the protocol of a header.\<close>

definition serialised :: "ip4_payload \<Rightarrow> ip4_header \<Rightarrow> bytes res" where
  "serialised payload h = fragment_payload \<lparr>t4_header = h, t4_options = [], t4_body = Body payload\<rparr> payload"

lemma serialised_cong:
  "v4_src h = v4_src (t4_header pkt) \<Longrightarrow> v4_dst h = v4_dst (t4_header pkt) \<Longrightarrow> v4_proto h = v4_proto (t4_header pkt) \<Longrightarrow>
    serialised payload h = fragment_payload pkt payload"
  by (cases "pl_kind payload") (simp_all add: serialised_def fragment_payload_def ip4_pshdr_sum_def)

lemma fragment_of_options:
  assumes "fragment_of pkt ident ck = Inr x" "v4_offset (t4_header x) = 0"
  shows "t4_options x = t4_options pkt"
proof -
  obtain off ch l where ck: "ck = (off, ch, l)" by (cases ck)
  have x: "t4_options x = (if off = 0 then t4_options pkt else copied_options (t4_options pkt))" "v4_offset (t4_header x) = int off"
    using assms(1) by (auto simp: fragment_of_def ck ip4_frag_assembler_def ip4_options_checked_def mk_ip4_header_def split: if_splits)
  then show ?thesis using assms(2) by simp
qed

lemma sent_fragments:
  assumes sent: "phtx_ip4 nd tnow p A = Inr (status, A')" "i4_interface_layer A = L3" "i4_tx_deque A' = i4_tx_deque A @ pkts" "2 \<le> length pkts"
      "length (i4_tx_deque A') < li_queue_max_size (i4_link A)"
    and given: "list_all ip4_option_ok (s4_options p)" "Ip4Eol \<notin> set (butlast (s4_options p))" "\<forall>a \<in> set (owned A). ip4_ok a" "ip4_ok (s4_dst p)"
      "ip_proto_from_proto (pl_kind (s4_payload p)) \<in> {PROTO_ICMP4, PROTO_IGMP, PROTO_UDP, PROTO_TCP}"
      "\<forall>s bs. pl_buffer (s4_payload p) s = Inr bs \<longrightarrow> length bs = pl_len (s4_payload p)"
  obtains bs m cs h where "iter_fragment_chunks bs m = Inr (Some cs)" "map chunk_of pkts = cs" "length bs = pl_len (s4_payload p)"
    "serialised (s4_payload p) h = Inr bs" "v4_dst h = s4_dst p" "v4_proto h = ip_proto_from_proto (pl_kind (s4_payload p))"
    "\<forall>x \<in> set pkts. ip4_tx_ok x \<and> (\<exists>ch. t4_body x = Chunk ch) \<and> flow_of (t4_header x) = flow_of h \<and> v4_ecn (t4_header x) = v4_ecn h \<and>
      ip4_tx_ok (rejoined bs x) \<and> v4_proto (t4_header x) = v4_proto h"
    "\<forall>x \<in> set pkts. v4_offset (t4_header x) = 0 \<longrightarrow> t4_options x = s4_options p"
proof -
  obtain src pkt ident bs m cs where f: "src \<in> set (owned A) \<or> is_dhcp_client src (s4_payload p)"
    "t4_options pkt = s4_options p" "ip4_header_ok (t4_header pkt)" "v4_src (t4_header pkt) = src" "v4_dst (t4_header pkt) = s4_dst p"
    "v4_proto (t4_header pkt) = ip_proto_from_proto (pl_kind (s4_payload p))" "4 dvd ip4_options_len (s4_options p)"
    "v4_plen (t4_header pkt) = 20 + int (ip4_options_len (s4_options p)) + int (pl_len (s4_payload p))"
    "fragment_payload pkt (s4_payload p) = Inr bs" "iter_fragment_chunks bs m = Inr (Some cs)"
    "map_res (fragment_of pkt ident) cs = Inr pkts"
    by (rule phtx_fragmented [OF sent])
  let ?h = "(t4_header pkt)\<lparr>v4_id := ident\<rparr>"
  have src: "ip4_ok (v4_src (t4_header pkt))"
    using f(1,3,4) given(3) by (auto simp: is_dhcp_client_def ip_is_unspecified_def ip4_ok_def ip4_header_ok_def)
  have proto: "proto_ok (v4_proto (t4_header pkt))" using given(5) f(6) by (auto simp: proto_ok_def ip_proto_from_int_def known_ip_protos_def uint_checks)
  have len: "length bs = pl_len (s4_payload p)" using f(9) given(6) by (auto simp: fragment_payload_def)
  have plen: "is_uint16 (v4_plen (t4_header pkt))" using f(3) by (simp add: ip4_header_ok_def)
  note all = f(11) [unfolded map_res_list_all2]
  note frag = fragment_of_Inr [OF _ f(7) [folded f(2)] given(1,2) [folded f(2)] src given(4) [folded f(5)] proto]
  have "chunk_of (pkts ! i) = cs ! i" if "i < length pkts" for i
    using all frag(2) [of ident "cs ! i" "pkts ! i"] that by (simp add: list_all2_conv_all_nth)
  then have "map chunk_of pkts = cs" using all by (intro nth_equalityI) (auto simp: list_all2_conv_all_nth)
  moreover have "ip4_tx_ok x \<and> (\<exists>ch. t4_body x = Chunk ch) \<and> flow_of (t4_header x) = flow_of ?h \<and> v4_ecn (t4_header x) = v4_ecn ?h \<and>
      ip4_tx_ok (rejoined bs x) \<and> v4_proto (t4_header x) = v4_proto ?h" if "x \<in> set pkts" for x
  proof -
    have "\<exists>ck. fragment_of pkt ident ck = Inr x" using that all unfolding list_all2_conv_all_nth in_set_conv_nth by metis
    then obtain ck where ck: "fragment_of pkt ident ck = Inr x" ..
    have "ip4_tx_ok (rejoined bs x)" using rejoined_tx_ok [OF frag(1) [OF ck] plen, of bs] frag(7) [OF ck] f(2,8) len by simp
    then show ?thesis using frag(1,3-5,8) [OF ck] by simp
  qed
  moreover have "t4_options x = s4_options p" if "x \<in> set pkts" "v4_offset (t4_header x) = 0" for x
  proof -
    have "\<exists>ck. fragment_of pkt ident ck = Inr x" using that(1) all unfolding list_all2_conv_all_nth in_set_conv_nth by metis
    then show ?thesis using fragment_of_options that(2) f(2) by metis
  qed
  moreover have "serialised (s4_payload p) ?h = Inr bs" using f(9) serialised_cong [of ?h pkt "s4_payload p"] by simp
  ultimately show ?thesis using that [of bs m cs ?h] f(5,6,10) len by simp
qed

text \<open>
  C13. A datagram cut by the sender arrives whole: when the IPv4 sender of an interface without a link
  layer has put two or more packets on its ring for one call, the receiver given the encoded packets in any order
  returns nothing until the last of them and then hands one datagram to the handler of its protocol, whose
  payload is exactly the payload serialised for the addresses of its header, from the source the sender chose to
  the destination of the call. Its options are those of one of the fragments, and those of the call when
  the fragment at offset 0 arrives first. The options are
  constructible, the payload serialises to its declared length, every checksum computed is the one of RFC 1071, the
  receiver admits the headers, has room for the flow, which is new to it and does not expire, and no raw socket
  takes the datagram.
\<close>

theorem ip4_datagram_delivered:
  assumes sent: "phtx_ip4 nd tnow p A = Inr (status, A')" "i4_interface_layer A = L3" "i4_tx_deque A' = i4_tx_deque A @ pkts" "2 \<le> length pkts"
      "length (i4_tx_deque A') < li_queue_max_size (i4_link A)"
    and given: "list_all ip4_option_ok (s4_options p)" "Ip4Eol \<notin> set (butlast (s4_options p))" "\<forall>a \<in> set (owned A). ip4_ok a" "ip4_ok (s4_dst p)"
      "ip_proto_from_proto (pl_kind (s4_payload p)) \<in> {PROTO_ICMP4, PROTO_IGMP, PROTO_UDP, PROTO_TCP}"
      "\<forall>s bs. pl_buffer (s4_payload p) s = Inr bs \<longrightarrow> length bs = pl_len (s4_payload p)"
    and arrive: "mset (map (snd \<circ> snd \<circ> snd) as) = mset pkts" "\<forall>a \<in> set as. fst a - fst (snd (hd as)) < ft_timeout (i4_frag_table B)"
    and admit: "\<forall>x \<in> set pkts. ip4_sum_exact x \<and> rejoined_exact (pl_len (s4_payload p)) x \<and> ip4_admitted B (rx_view x)"
    and room: "table_ok (i4_frag_table B)" "map_of (ft_flows (i4_frag_table B)) (flow_of (t4_header (hd pkts))) = None"
      "length (ft_flows (i4_frag_table B)) < IP_FRAG__MAX_FLOWS"
    and raw: "find_opt sockets (raw_socket_ids (s4_dst p) (v4_src (t4_header (hd pkts))) (ip_proto_from_proto (pl_kind (s4_payload p)))) = None"
  shows "\<exists>whole B'. phrx_ip4_all sockets admits (arrival_frames as) B =
      Inr (replicate (length pkts - 1) Rx_None @ [Rx_Handler (ip_proto_from_proto (pl_kind (s4_payload p))) whole], B') \<and>
    serialised (s4_payload p) (p4_header whole) = Inr (p4_payload whole) \<and>
    v4_src (p4_header whole) = v4_src (t4_header (hd pkts)) \<and> v4_dst (p4_header whole) = s4_dst p \<and>
    p4_options whole \<in> t4_options ` set pkts \<and>
    (v4_offset (t4_header (snd (snd (snd (hd as))))) = 0 \<longrightarrow> p4_options whole = s4_options p)"
proof -
  obtain bs m cs h where f: "iter_fragment_chunks bs m = Inr (Some cs)" "map chunk_of pkts = cs" "length bs = pl_len (s4_payload p)"
    "serialised (s4_payload p) h = Inr bs" "v4_dst h = s4_dst p" "v4_proto h = ip_proto_from_proto (pl_kind (s4_payload p))"
    "\<forall>x \<in> set pkts. ip4_tx_ok x \<and> (\<exists>ch. t4_body x = Chunk ch) \<and> flow_of (t4_header x) = flow_of h \<and> v4_ecn (t4_header x) = v4_ecn h \<and>
      ip4_tx_ok (rejoined bs x) \<and> v4_proto (t4_header x) = v4_proto h"
    "\<forall>x \<in> set pkts. v4_offset (t4_header x) = 0 \<longrightarrow> t4_options x = s4_options p"
    by (rule sent_fragments [OF sent given])
  have ne: "hd pkts \<in> set pkts" using sent(4) by (cases pkts) auto
  have flow: "v4_src (t4_header x) = v4_src h" "v4_dst (t4_header x) = v4_dst h" if "x \<in> set pkts" for x
    using f(7) that by (auto simp: flow_of_def)
  have "\<exists>whole ck B'. phrx_ip4_all sockets admits (arrival_frames as) B =
      Inr (replicate (length pkts - 1) Rx_None @ [Rx_Handler (v4_proto (p4_header whole)) whole], B') \<and>
    p4_payload whole = bs \<and> p4_options whole = t4_options (snd (snd (snd (hd as)))) \<and>
    p4_header whole = (t4_header (rejoined bs (snd (snd (snd (hd as))))))\<lparr>v4_cksum := ck\<rparr>"
  proof (rule fragments_delivered [OF f(1) _ f(2) _ arrive room(1) _ room(3), of "flow_of h" "v4_ecn h"])
    show "2 \<le> length cs" using sent(4) f(2) by auto
    show "map_of (ft_flows (i4_frag_table B)) (flow_of h) = None" using room(2) f(7) ne by simp
  qed (use f(3,5-7) admit given(5) raw flow ne in auto)
  then obtain whole ck B' where w: "phrx_ip4_all sockets admits (arrival_frames as) B =
      Inr (replicate (length pkts - 1) Rx_None @ [Rx_Handler (v4_proto (p4_header whole)) whole], B')"
    "p4_payload whole = bs" "p4_options whole = t4_options (snd (snd (snd (hd as))))"
    "p4_header whole = (t4_header (rejoined bs (snd (snd (snd (hd as))))))\<lparr>v4_cksum := ck\<rparr>" by blast
  have "as \<noteq> []" using arrive(1) sent(4) by auto
  then have first: "snd (snd (snd (hd as))) \<in> set pkts" using mset_eq_setD [OF arrive(1)] by (cases as) auto
  then have hd: "v4_src (p4_header whole) = v4_src h" "v4_dst (p4_header whole) = v4_dst h" "v4_proto (p4_header whole) = v4_proto h"
    using flow f(7) by (auto simp: w(4) rejoined_def)
  then have "serialised (s4_payload p) (p4_header whole) = Inr bs"
    using f(4) serialised_cong [of "p4_header whole" "\<lparr>t4_header = h, t4_options = [], t4_body = Body (s4_payload p)\<rparr>"] by (simp add: serialised_def)
  moreover have "p4_options whole \<in> t4_options ` set pkts" using first w(3) by blast
  ultimately show ?thesis using w hd f(5,6) flow(1) [OF ne] f(8) first by auto
qed

text \<open>Two hosts on a link that carries 28 bytes, and a datagram of twelve.\<close>

definition sample_hosts :: "int \<Rightarrow> ip_address" where
  "sample_hosts i = \<lparr>ia_version = IP4, ia_int = 0x0A000000 + i\<rparr>"

definition sample_ip4_if :: "int \<Rightarrow> ip4_if" where
  "sample_ip4_if i = \<lparr>i4_link = \<lparr>li_mac_unicast = 2, li_ifindex = 1, li_ip4_support = True,
       li_ip4_ifaddr = [(sample_hosts i, net IP4 24 0x0A000000)], li_ip6_ifaddr = [], li_ip4_fib = [], li_ip6_fib = [],
       li_arp_cache = empty_cache, li_nd_cache = empty_cache, li_sysctl = nbr_defaults, li_arp_accept = 0, li_arp_announce = 0,
       li_arp_ignore = 0, li_tx_deque = [], li_queue_max_size = 16, li_stats = (\<lambda>_. 0)\<rparr>,
     i4_interface_layer = L3, i4_interface_mtu = 28, i4_ident = 6, i4_multicast = [], i4_tx_deque = [], i4_default_ttl = 64,
     i4_allow_broadcast = 0, i4_accept_source_route = False, i4_frag_table = \<lparr>ft_flows = [], ft_timeout = 5\<rparr>,
     i4_rate_limiter = sample_bucket, i4_stats_rx = (\<lambda>_. 0)\<rparr>"

definition sample_udp :: ip4_payload where
  "sample_udp = \<lparr>pl_kind = Payload_Udp 1000 2000, pl_len = 12, pl_buffer = (\<lambda>_. Inr [1, 2, 3, 4, 5, 6, 7, 8, 9, 10, 11, 12]),
     pl_assemble = (\<lambda>_. Inr [1, 2, 3, 4, 5, 6, 7, 8, 9, 10, 11, 12])\<rparr>"

definition sample_send :: ip4_send where
  "sample_send = \<lparr>s4_dst = sample_hosts 2, s4_src = sample_hosts 1, s4_ttl = None, s4_ecn = 0, s4_dscp = 0, s4_df = False,
     s4_options = [], s4_payload = sample_udp\<rparr>"

definition sample_part :: "int \<Rightarrow> bytes \<Rightarrow> bool \<Rightarrow> ip4_tx" where
  "sample_part off ch mf = \<lparr>t4_header = \<lparr>v4_hlen = 20, v4_dscp = 0, v4_ecn = 0, v4_plen = 20 + int (length ch), v4_id = 7, v4_df = False,
       v4_mf = mf, v4_offset = off, v4_ttl = 64, v4_proto = PROTO_UDP, v4_cksum = 0, v4_src = sample_hosts 1, v4_dst = sample_hosts 2\<rparr>,
     t4_options = [], t4_body = Chunk ch\<rparr>"

lemma sample_ip4_broadcast: "ip4_broadcast (sample_ip4_if i) = [sample_hosts 255, \<lparr>ia_version = IP4, ia_int = 0xFFFFFFFF\<rparr>]"
  by (simp add: ip4_broadcast_def if_addrs_def sample_ip4_if_def sample_hosts_def network_broadcast_def) code_simp

lemma sample_ip4_fields:
  "i4_interface_layer (sample_ip4_if i) = L3" "i4_tx_deque (sample_ip4_if i) = []" "li_queue_max_size (i4_link (sample_ip4_if i)) = 16"
  "owned (sample_ip4_if i) = [sample_hosts i]" "i4_frag_table (sample_ip4_if i) = \<lparr>ft_flows = [], ft_timeout = 5\<rparr>"
  "i4_multicast (sample_ip4_if i) = []" "\<not> i4_accept_source_route (sample_ip4_if i)" "li_ip4_support (i4_link (sample_ip4_if i))"
  "i4_interface_mtu (sample_ip4_if i) = 28" "i4_ident (sample_ip4_if i) = 6" "i4_default_ttl (sample_ip4_if i) = 64"
  by (simp_all add: sample_ip4_if_def owned_def if_addrs_def ip4_unicast_def)

lemma sample_ip4_scope:
  "ip4_is_link_local (sample_hosts 1) = ip4_is_link_local (sample_hosts 2)" "\<not> ip_is_unspecified (sample_hosts 2)" "\<not> ip_is_unspecified (sample_hosts 1)"
  "\<not> ip4_is_limited_broadcast (sample_hosts 1)" "\<not> ip4_is_limited_broadcast (sample_hosts 2)" "\<not> ip4_is_multicast (sample_hosts 2)"
  "\<not> ip4_is_multicast (sample_hosts 1)" "\<not> ip4_is_invalid (sample_hosts 1)" "\<not> ip4_is_loopback (sample_hosts 1)" "\<not> ip4_is_reserved (sample_hosts 1)"
  "sample_hosts 1 \<notin> set (ip4_broadcast (sample_ip4_if i))" "sample_hosts 2 \<notin> set (ip4_broadcast (sample_ip4_if i))"
  unfolding sample_ip4_broadcast by code_simp+

definition sample_datagram :: ip4_tx where
  "sample_datagram = \<lparr>t4_header = \<lparr>v4_hlen = 20, v4_dscp = 0, v4_ecn = 0, v4_plen = 32, v4_id = 0, v4_df = False,
       v4_mf = False, v4_offset = 0, v4_ttl = 64, v4_proto = PROTO_UDP, v4_cksum = 0, v4_src = sample_hosts 1, v4_dst = sample_hosts 2\<rparr>,
     t4_options = [], t4_body = Body sample_udp\<rparr>"

lemma sample_ip4_cut:
  "\<exists>st'. fragment_and_send (ip4_out nd 0) sample_datagram sample_udp (bump_tx k (bump_tx l (sample_ip4_if 1))) =
      Inr (PASSED__IP4__TO_TX_RING, st') \<and>
    i4_tx_deque st' = [sample_part 0 [1, 2, 3, 4, 5, 6, 7, 8] True, sample_part 8 [9, 10, 11, 12] False]"
proof -
  have p: "fragment_payload sample_datagram sample_udp = Inr [1, 2, 3, 4, 5, 6, 7, 8, 9, 10, 11, 12]" by code_simp
  have c: "iter_fragment_chunks [1, 2, 3, 4, 5, 6, 7, 8, 9, 10, 11, 12] 8 =
      Inr (Some [(0, [1, 2, 3, 4, 5, 6, 7, 8], False), (8, [9, 10, 11, 12], True)])"
    by (simp add: iter_fragment_chunks_def FRAG_OFFSET_ALIGNMENT__BYTES_def FRAG_OFFSET_ALIGNMENT__MASK_def chunk_loop.simps)
  have f: "fragment_of sample_datagram 7 (0, [1, 2, 3, 4, 5, 6, 7, 8], False) = Inr (sample_part 0 [1, 2, 3, 4, 5, 6, 7, 8] True)"
    "fragment_of sample_datagram 7 (8, [9, 10, 11, 12], True) = Inr (sample_part 8 [9, 10, 11, 12] False)"
    by (simp_all add: fragment_of_def ip4_frag_assembler_def ip4_options_checked_def mk_ip4_header_def ip4_header_ok_def uint_checks
        ip4_options_len_def is_4_byte_alligned_def is_8_byte_alligned_def sample_datagram_def sample_part_def sample_hosts_def copied_options_def with_copy_flag_def)
  have i: "i4_ident (bump_tx k st) = i4_ident st" for k st by (simp add: bump_tx_def)
  have h: "v4_hlen (t4_header sample_datagram) = 20" by (simp add: sample_datagram_def)
  show ?thesis
    using sample_ip4_fields [of 1] f
    by (simp add: fragment_and_send_def next_ip4_id_def ip4_if_simps p c fragment_of_def h i ip4_out_def ip4_send_out_packet_def most_severe_def
        Let_def del: bind_res_eq_Inr)
qed

lemma sample_ip4_sent:
  "\<exists>st. phtx_ip4 nd 0 sample_send (sample_ip4_if 1) = Inr (PASSED__IP4__TO_TX_RING, st) \<and>
    i4_tx_deque st = [sample_part 0 [1, 2, 3, 4, 5, 6, 7, 8] True, sample_part 8 [9, 10, 11, 12] False]"
proof -
  have v: "validate_src_ip4_address sample_send (bump_tx k (sample_ip4_if 1)) = (Inr (sample_hosts 1), bump_tx k (sample_ip4_if 1))" for k
    using sample_ip4_scope sample_ip4_fields [of 1]
    by (simp add: validate_src_ip4_address_def sample_send_def ip4_if_simps Let_def is_dhcp_client_def sample_udp_def)
  have t: "send_ttl sample_send (bump_tx k (sample_ip4_if 1)) = 64" "\<not> broadcast_disallowed (bump_tx k (sample_ip4_if 1)) (sample_hosts 1) sample_send" for k
    using sample_ip4_scope sample_ip4_fields [of 1]
    by (simp_all add: send_ttl_def broadcast_disallowed_def sample_send_def ip4_if_simps)
  have a: "ip4_assembler \<lparr>v4_hlen = 20, v4_dscp = s4_dscp sample_send, v4_ecn = s4_ecn sample_send, v4_plen = 20, v4_id = 0,
      v4_df = s4_df sample_send, v4_mf = False, v4_offset = 0, v4_ttl = 64, v4_proto = PROTO_RAW, v4_cksum = 0, v4_src = sample_hosts 1,
      v4_dst = s4_dst sample_send\<rparr> (s4_options sample_send) (s4_payload sample_send) = Inr sample_datagram"
    by (simp add: ip4_assembler_def ip4_options_checked_def mk_ip4_header_def ip4_header_ok_def uint_checks
        ip4_options_len_def is_4_byte_alligned_def is_8_byte_alligned_def sample_datagram_def sample_send_def sample_hosts_def sample_udp_def)
  have s: "s4_dst sample_send = sample_hosts 2" "s4_payload sample_send = sample_udp" "\<not> s4_df sample_send" "ip4_tx_len sample_datagram = 32"
    by (simp_all add: sample_send_def sample_datagram_def ip4_tx_len_def ip4_options_len_def sample_udp_def)
  have k: "li_ip4_support (i4_link (bump_tx k st)) = li_ip4_support (i4_link st)" for k st by (simp add: bump_tx_def bump_def)
  show ?thesis
    using sample_ip4_scope sample_ip4_fields [of 1] sample_ip4_cut [of nd "''ip4__mtu_exceed__frag''" "''ip4__pre_assemble''"]
    by (simp add: phtx_ip4_def phtx_ip4_with_def Let_def v t a [simplified s] s k ip4_if_simps del: bind_res_eq_Inr)
qed

lemma sample_ip4_admitted:
  "x \<in> {sample_part 0 [1, 2, 3, 4, 5, 6, 7, 8] True, sample_part 8 [9, 10, 11, 12] False} \<Longrightarrow>
    ip4_sum_exact x \<and> rejoined_exact 12 x \<and> ip4_admitted (sample_ip4_if 2) (rx_view x)"
proof -
  assume x: "x \<in> {sample_part 0 [1, 2, 3, 4, 5, 6, 7, 8] True, sample_part 8 [9, 10, 11, 12] False}"
  have "ip4_admitted (sample_ip4_if 2) (rx_view x)"
    using x sample_ip4_scope sample_ip4_fields [of 2]
    by (auto simp: ip4_admitted_def rx_view_def ip4_sanity_pointer_def sample_part_def Let_def options_lsrr_def options_ssrr_def)
  moreover have "ip4_sum_exact (sample_part 0 [1, 2, 3, 4, 5, 6, 7, 8] True)" "ip4_sum_exact (sample_part 8 [9, 10, 11, 12] False)"
    "rejoined_exact 12 (sample_part 0 [1, 2, 3, 4, 5, 6, 7, 8] True)" "rejoined_exact 12 (sample_part 8 [9, 10, 11, 12] False)"
    by code_simp+
  ultimately show ?thesis using x by auto
qed

theorem ip4_datagram_delivered_witness:
  "\<exists>whole B'. phrx_ip4_all (\<lambda>_. None :: nat option) (\<lambda>_ _ _ _. True)
      (arrival_frames [(1, 1, 1, sample_part 8 [9, 10, 11, 12] False), (2, 2, 2, sample_part 0 [1, 2, 3, 4, 5, 6, 7, 8] True)])
      (sample_ip4_if 2) = Inr ([Rx_None, Rx_Handler PROTO_UDP whole], B') \<and>
    p4_payload whole = [1, 2, 3, 4, 5, 6, 7, 8, 9, 10, 11, 12] \<and> v4_src (p4_header whole) = sample_hosts 1"
proof -
  let ?x = "sample_part 0 [1, 2, 3, 4, 5, 6, 7, 8] True" and ?y = "sample_part 8 [9, 10, 11, 12] False"
  let ?as = "[(1, 1, 1, ?y), (2, 2, 2, ?x)] :: (real \<times> real \<times> real \<times> ip4_tx) list"
  obtain st where st: "phtx_ip4 (\<lambda>_ _ c. Inr (c, [])) 0 sample_send (sample_ip4_if 1) = Inr (PASSED__IP4__TO_TX_RING, st)" "i4_tx_deque st = [?x, ?y]"
    using sample_ip4_sent by blast
  have send: "s4_options sample_send = []" "s4_dst sample_send = sample_hosts 2" "s4_payload sample_send = sample_udp"
    "pl_kind sample_udp = Payload_Udp 1000 2000" "pl_len sample_udp = 12" "\<And>s. pl_buffer sample_udp s = Inr [1, 2, 3, 4, 5, 6, 7, 8, 9, 10, 11, 12]"
    by (simp_all add: sample_send_def sample_udp_def)
  have ok: "ip4_ok (sample_hosts 1)" "ip4_ok (sample_hosts 2)" by (simp_all add: ip4_ok_def sample_hosts_def)
  have "\<exists>whole B'. phrx_ip4_all (\<lambda>_. None :: nat option) (\<lambda>_ _ _ _. True) (arrival_frames ?as) (sample_ip4_if 2) =
      Inr (replicate (length [?x, ?y] - 1) Rx_None @ [Rx_Handler (ip_proto_from_proto (pl_kind (s4_payload sample_send))) whole], B') \<and>
    serialised (s4_payload sample_send) (p4_header whole) = Inr (p4_payload whole) \<and>
    v4_src (p4_header whole) = v4_src (t4_header (hd [?x, ?y])) \<and> v4_dst (p4_header whole) = s4_dst sample_send \<and>
    p4_options whole \<in> t4_options ` set [?x, ?y] \<and>
    (v4_offset (t4_header (snd (snd (snd (hd ?as))))) = 0 \<longrightarrow> p4_options whole = s4_options sample_send)"
    by (rule ip4_datagram_delivered [OF st(1)])
      (use st(2) sample_ip4_fields send ok sample_ip4_admitted in \<open>simp_all add: table_ok_def IP_FRAG__MAX_FLOWS_def raw_socket_ids_def\<close>)
  then show ?thesis using send by (auto simp: serialised_def fragment_payload_def sample_part_def)
qed

end
