(* ===== verification/Ip4_Multicast.thy ===== *)
theory Ip4_Multicast
  imports Ip4_Handler
begin

text \<open>
  Multicast reception of one interface: the source filters of \<^verbatim>\<open>lib/ip4_multicast_filter.py\<close>, the contributors of
  a group and the reconciliation with the interface state (\<^verbatim>\<open>_mc_recompute\<close> and its callers in
  \<^verbatim>\<open>runtime/packet_handler/__init__.py\<close>), the IGMP sender \<^verbatim>\<open>packet_handler__igmp__tx.py\<close> and the IGMP receiver
  \<^verbatim>\<open>packet_handler__igmp__rx.py\<close>.

  Several of these operations change the state before they raise, so the result of an operation is the
  exception, if any, together with the state it leaves. Clock readings and random delays are arguments; a
  timer handle is the time it is due. The list \<open>ig_sent\<close> is what \<^verbatim>\<open>_emit_igmp\<close> hands to the IPv4 sender, with the
  source address it chose; the IPv4 sender (\<open>phtx_ip4\<close>) still drops a report whose source is unspecified, so that
  an interface without an address puts none of them on the wire.
\<close>

section \<open>Exceptions that keep the state\<close>

type_synonym 's act = "py_error option \<times> 's"

definition and_then :: "'s act \<Rightarrow> ('s \<Rightarrow> 's act) \<Rightarrow> 's act" where
  "and_then m f = (case m of (None, st) \<Rightarrow> f st | (Some e, st) \<Rightarrow> (Some e, st))"

definition with_res :: "'a res \<Rightarrow> 's \<Rightarrow> ('a \<Rightarrow> 's act) \<Rightarrow> 's act" where
  "with_res r st f = (case r of Inl e \<Rightarrow> (Some e, st) | Inr x \<Rightarrow> f x)"

lemma and_then_simps [simp]:
  "and_then (None, st) f = f st"
  "and_then (Some e, st) f = (Some e, st)"
  by (simp_all add: and_then_def)

lemma with_res_simps [simp]:
  "with_res (Inr x) st f = f x"
  "with_res (Inl e) st f = (Some e, st)"
  by (simp_all add: with_res_def)

section \<open>Source filters\<close>

datatype mc_filter_mode = INCLUDE | EXCLUDE

record mc_filter =
  mf_mode :: mc_filter_mode
  mf_sources :: "ip_address set"

definition has_reception :: "mc_filter \<Rightarrow> bool" where
  "has_reception f \<longleftrightarrow> mf_mode f = EXCLUDE \<or> mf_sources f \<noteq> {}"

definition filter_allows :: "mc_filter \<Rightarrow> ip_address \<Rightarrow> bool" where
  "filter_allows f s = (if mf_mode f = INCLUDE then s \<in> mf_sources f else s \<notin> mf_sources f)"

definition merge_filters :: "mc_filter list \<Rightarrow> mc_filter" where
  "merge_filters fs =
     (let included = \<Union> (set (map mf_sources (filter (\<lambda>f. mf_mode f = INCLUDE) fs)));
          lists = map mf_sources (filter (\<lambda>f. mf_mode f = EXCLUDE) fs)
      in case lists of
           [] \<Rightarrow> \<lparr>mf_mode = INCLUDE, mf_sources = included\<rparr>
         | l # ls \<Rightarrow> \<lparr>mf_mode = EXCLUDE, mf_sources = fold (\<inter>) ls l - included\<rparr>)"

definition nonmember :: mc_filter where
  "nonmember = \<lparr>mf_mode = INCLUDE, mf_sources = {}\<rparr>"

definition any_source :: mc_filter where
  "any_source = \<lparr>mf_mode = EXCLUDE, mf_sources = {}\<rparr>"

record group_membership =
  gm_operator :: bool
  gm_socket_filters :: "(int \<times> mc_filter) list"

definition new_membership :: group_membership where
  "new_membership = \<lparr>gm_operator = False, gm_socket_filters = []\<rparr>"

definition contributors :: "group_membership \<Rightarrow> mc_filter list" where
  "contributors m = map snd (gm_socket_filters m) @ (if gm_operator m then [any_source] else [])"

text \<open>The merged filter lets through exactly what one of the filters lets through.\<close>

lemma fold_inter: "fold (\<inter>) ls l = l \<inter> \<Inter> (set ls)"
  by (induction ls arbitrary: l) auto

lemma merge_allows: "filter_allows (merge_filters fs) s \<longleftrightarrow> (\<exists>f \<in> set fs. filter_allows f s)"
proof (cases "filter (\<lambda>f. mf_mode f = EXCLUDE) fs")
  case Nil
  then have "\<forall>f \<in> set fs. mf_mode f = INCLUDE" by (metis (mono_tags) filter_empty_conv mc_filter_mode.exhaust)
  then show ?thesis using Nil by (auto simp: merge_filters_def filter_allows_def)
next
  case (Cons x xs)
  have "{f \<in> set fs. mf_mode f = EXCLUDE} = insert x (set xs)" using arg_cong [OF Cons, of set] by simp
  then have "(\<exists>f \<in> {f \<in> set fs. mf_mode f = EXCLUDE}. s \<notin> mf_sources f) \<longleftrightarrow> (\<exists>f \<in> insert x (set xs). s \<notin> mf_sources f)"
    by (simp only:)
  moreover have "filter_allows f s \<longleftrightarrow> (mf_mode f = INCLUDE \<and> s \<in> mf_sources f) \<or> (mf_mode f = EXCLUDE \<and> s \<notin> mf_sources f)" for f
    by (cases "mf_mode f") (simp_all add: filter_allows_def)
  ultimately show ?thesis using Cons by (auto simp: merge_filters_def fold_inter)
qed

lemma merge_sources: "\<forall>f \<in> set fs. mf_sources f \<subseteq> U \<Longrightarrow> mf_sources (merge_filters fs) \<subseteq> U"
  by (cases "filter (\<lambda>f. mf_mode f = EXCLUDE) fs") (auto simp: merge_filters_def fold_inter dest!: arg_cong [where f = set] filter_eq_ConsD)

lemma merge_none: "merge_filters [] = nonmember" "\<not> has_reception f \<longleftrightarrow> f = nonmember"
  by (cases f; cases "mf_mode f"; auto simp: merge_filters_def nonmember_def has_reception_def)+

section \<open>Messages\<close>

datatype igmp_version = V1 | V2 | V3

datatype igmp_record_type =
    MODE_IS_INCLUDE
  | MODE_IS_EXCLUDE
  | CHANGE_TO_INCLUDE_MODE
  | CHANGE_TO_EXCLUDE_MODE
  | ALLOW_NEW_SOURCES
  | BLOCK_OLD_SOURCES

record igmp_record =
  gr_type :: igmp_record_type
  gr_group :: ip_address
  gr_sources :: "ip_address list"

definition mk_group_record :: "igmp_record_type \<Rightarrow> ip_address \<Rightarrow> ip_address list \<Rightarrow> igmp_record res" where
  "mk_group_record t g sources =
     passert (ip4_is_multicast g) (passert (list_all ip4_is_unicast sources)
       (Inr \<lparr>gr_type = t, gr_group = g, gr_sources = sources\<rparr>))"

definition record_len :: "igmp_record \<Rightarrow> nat" where
  "record_len r = 8 + 4 * length (gr_sources r)"

text \<open>\<open>sorted(sources, key=int)\<close> for a set of IPv4 addresses.\<close>

definition sorted_sources :: "ip_address set \<Rightarrow> ip_address list" where
  "sorted_sources ss = map (\<lambda>i. \<lparr>ia_version = IP4, ia_int = i\<rparr>) (sorted_list_of_set (ia_int ` ss))"

datatype igmp_message =
    Igmp_V3_Report "igmp_record list"
  | Igmp_V2_Report ip_address
  | Igmp_V1_Report ip_address
  | Igmp_V2_Leave ip_address

section \<open>The state of an interface\<close>

record pending_change =
  pc_records :: "igmp_record list"
  pc_coarse_type :: "igmp_record_type option"
  pc_remaining :: int

record group_query =
  gq_respond_at_ms :: int
  gq_handle :: int
  gq_sources :: "ip_address set"

record igmp_if =
  ig_layer :: interface_layer
  ig_unicast :: "ip_address list"
  ig_filters :: "(ip_address \<times> mc_filter) list"
  ig_refs :: "(ip_address \<times> group_membership) list"
  ig_mac_multicast :: "mac list"
  ig_pending :: "(ip_address \<times> pending_change) list"
  ig_handle :: "int option"
  ig_query_at :: "int option"
  ig_query_handle :: "int option"
  ig_suppressed :: "ip_address set"
  ig_group_query :: "(ip_address \<times> group_query) list"
  ig_v1_until :: "int option"
  ig_v2_until :: "int option"
  ig_stats :: "string \<Rightarrow> int"
  ig_sent :: "(ip_address \<times> ip_address \<times> igmp_message) list"

text \<open>The settings; \<open>ig_force_version\<close> is \<open>None\<close> for 0.\<close>

record igmp_sysctl =
  ig_robustness :: int
  ig_force_version :: "igmp_version option"
  ig_query_interval :: int
  ig_max_memberships :: int

definition ALL_SYSTEMS :: ip_address where "ALL_SYSTEMS = \<lparr>ia_version = IP4, ia_int = 0xE0000001\<rparr>"
definition ALL_ROUTERS :: ip_address where "ALL_ROUTERS = \<lparr>ia_version = IP4, ia_int = 0xE0000002\<rparr>"
definition ALL_IGMPV3_ROUTERS :: ip_address where "ALL_IGMPV3_ROUTERS = \<lparr>ia_version = IP4, ia_int = 0xE0000016\<rparr>"

definition igmp_bump :: "string \<Rightarrow> igmp_if \<Rightarrow> igmp_if" where
  "igmp_bump k st = st\<lparr>ig_stats := (ig_stats st)(k := ig_stats st k + 1)\<rparr>"

definition igmp_host_compatibility_mode :: "igmp_sysctl \<Rightarrow> int \<Rightarrow> igmp_if \<Rightarrow> igmp_version" where
  "igmp_host_compatibility_mode sy now st =
     (case ig_force_version sy of
        Some v \<Rightarrow> v
      | None \<Rightarrow>
          if (case ig_v1_until st of Some t \<Rightarrow> now < t | None \<Rightarrow> False) then V1
          else if (case ig_v2_until st of Some t \<Rightarrow> now < t | None \<Rightarrow> False) then V2
          else V3)"

section \<open>The sender\<close>

definition emit_igmp :: "igmp_message \<Rightarrow> ip_address \<Rightarrow> igmp_if \<Rightarrow> igmp_if" where
  "emit_igmp msg dst st =
     (let st = igmp_bump ''igmp__pre_assemble'' st;
          src = (case ig_unicast st of [] \<Rightarrow> \<lparr>ia_version = IP4, ia_int = 0\<rparr> | a # _ \<Rightarrow> a)
      in st\<lparr>ig_sent := ig_sent st @ [(src, dst, msg)]\<rparr>)"

definition emit_v3_report :: "igmp_record list \<Rightarrow> igmp_if \<Rightarrow> igmp_if act" where
  "emit_v3_report records st =
     (if records = [] then (None, st)
      else let st = igmp_bump ''igmp__v3_report__send'' st in
        with_res (passert (sum_list (map record_len records) \<le> 65507) (Inr (Igmp_V3_Report records))) st
          (\<lambda>msg. (None, emit_igmp msg ALL_IGMPV3_ROUTERS st)))"

definition current_state_record :: "ip_address \<Rightarrow> igmp_if \<Rightarrow> igmp_record option res" where
  "current_state_record g st =
     (case map_of (ig_filters st) g of
        None \<Rightarrow> Inr None
      | Some f \<Rightarrow> bind_res (mk_group_record (if mf_mode f = EXCLUDE then MODE_IS_EXCLUDE else MODE_IS_INCLUDE) g
            (sorted_sources (mf_sources f))) (\<lambda>r. Inr (Some r)))"

text \<open>\<open>dict.fromkeys(self._if._ip4_multicast)\<close> is the order of the filters, whose keys are distinct.\<close>

definition reported_groups :: "igmp_if \<Rightarrow> ip_address list" where
  "reported_groups st = filter (\<lambda>g. g \<noteq> ALL_SYSTEMS) (remdups (map fst (ig_filters st)))"

definition send_igmp_v3_report :: "igmp_if \<Rightarrow> igmp_if act" where
  "send_igmp_v3_report st =
     with_res (map_res (\<lambda>g. current_state_record g st) (reported_groups st)) st
       (\<lambda>rs. emit_v3_report (map the (filter (\<lambda>r. r \<noteq> None) rs)) st)"

definition send_igmp_leave_all :: "igmp_if \<Rightarrow> igmp_if act" where
  "send_igmp_leave_all st =
     with_res (map_res (\<lambda>g. mk_group_record CHANGE_TO_INCLUDE_MODE g []) (reported_groups st)) st (\<lambda>rs. emit_v3_report rs st)"

definition state_change_records :: "ip_address \<Rightarrow> mc_filter \<Rightarrow> mc_filter \<Rightarrow> igmp_record list res" where
  "state_change_records g old new =
     (if mf_mode old = mf_mode new then
        let (allow, block) =
              (if mf_mode old = INCLUDE then (mf_sources new - mf_sources old, mf_sources old - mf_sources new)
               else (mf_sources old - mf_sources new, mf_sources new - mf_sources old))
        in bind_res (if allow \<noteq> {} then bind_res (mk_group_record ALLOW_NEW_SOURCES g (sorted_sources allow)) (\<lambda>r. Inr [r]) else Inr [])
             (\<lambda>as. bind_res (if block \<noteq> {} then bind_res (mk_group_record BLOCK_OLD_SOURCES g (sorted_sources block)) (\<lambda>r. Inr [r]) else Inr [])
               (\<lambda>bs. Inr (as @ bs)))
      else bind_res (mk_group_record (if mf_mode new = EXCLUDE then CHANGE_TO_EXCLUDE_MODE else CHANGE_TO_INCLUDE_MODE) g
             (sorted_sources (mf_sources new))) (\<lambda>r. Inr [r]))"

definition emit_group_membership_report :: "ip_address \<Rightarrow> igmp_version \<Rightarrow> igmp_if \<Rightarrow> igmp_if" where
  "emit_group_membership_report g version st =
     (if g = ALL_SYSTEMS then st
      else if version = V2 then emit_igmp (Igmp_V2_Report g) g (igmp_bump ''igmp__v2_report__send'' st)
      else emit_igmp (Igmp_V1_Report g) g (igmp_bump ''igmp__v1_report__send'' st))"

definition emit_v2_leave :: "ip_address \<Rightarrow> igmp_if \<Rightarrow> igmp_if" where
  "emit_v2_leave g st = emit_igmp (Igmp_V2_Leave g) ALL_ROUTERS (igmp_bump ''igmp__v2_leave__send'' st)"

definition emit_state_change :: "igmp_sysctl \<Rightarrow> int \<Rightarrow> ip_address \<Rightarrow> igmp_record_type \<Rightarrow> igmp_if \<Rightarrow> igmp_if act" where
  "emit_state_change sy now g record_type st =
     (let mode = igmp_host_compatibility_mode sy now st; is_leave = (record_type = CHANGE_TO_INCLUDE_MODE) in
      if mode = V3 then with_res (mk_group_record record_type g []) st (\<lambda>r. emit_v3_report [r] st)
      else if mode = V2 then
        (None, if is_leave then emit_v2_leave g st else emit_group_membership_report g V2 st)
      else if \<not> is_leave then (None, emit_group_membership_report g V1 st)
      else (None, st))"

definition arm_state_change_retransmit :: "int \<Rightarrow> int \<Rightarrow> igmp_if \<Rightarrow> igmp_if" where
  "arm_state_change_retransmit now delay st = (if ig_handle st \<noteq> None then st else st\<lparr>ig_handle := Some (now + delay)\<rparr>)"

definition send_igmp_state_change ::
    "igmp_sysctl \<Rightarrow> int \<Rightarrow> int \<Rightarrow> ip_address \<Rightarrow> mc_filter \<Rightarrow> mc_filter \<Rightarrow> igmp_if \<Rightarrow> igmp_if act" where
  "send_igmp_state_change sy now delay g old new st =
     (if g = ALL_SYSTEMS then (None, st)
      else with_res (state_change_records g old new) st (\<lambda>records.
        let coarse_type =
              (if has_reception new \<and> \<not> has_reception old then Some CHANGE_TO_EXCLUDE_MODE
               else if has_reception old \<and> \<not> has_reception new then Some CHANGE_TO_INCLUDE_MODE else None)
        in and_then
             (if igmp_host_compatibility_mode sy now st = V3 then emit_v3_report records st
              else case coarse_type of Some t \<Rightarrow> emit_state_change sy now g t st | None \<Rightarrow> (None, st))
             (\<lambda>st. let repeats = ig_robustness sy - 1 in
                if records = [] \<or> repeats \<le> 0 then (None, st\<lparr>ig_pending := AList.delete g (ig_pending st)\<rparr>)
                else (None, arm_state_change_retransmit now delay
                  (st\<lparr>ig_pending := AList.update g \<lparr>pc_records = records, pc_coarse_type = coarse_type, pc_remaining = repeats\<rparr>
                     (ig_pending st)\<rparr>)))))"

fun emit_coarse :: "igmp_sysctl \<Rightarrow> int \<Rightarrow> (ip_address \<times> pending_change) list \<Rightarrow> igmp_if \<Rightarrow> igmp_if act" where
  "emit_coarse sy now [] st = (None, st)"
| "emit_coarse sy now ((g, p) # ps) st =
     and_then (case pc_coarse_type p of Some t \<Rightarrow> emit_state_change sy now g t st | None \<Rightarrow> (None, st)) (emit_coarse sy now ps)"

definition fire_state_change_retransmit :: "igmp_sysctl \<Rightarrow> int \<Rightarrow> int \<Rightarrow> igmp_if \<Rightarrow> igmp_if act" where
  "fire_state_change_retransmit sy now delay st =
     (let st = st\<lparr>ig_handle := None\<rparr>; pending = ig_pending st in
      and_then
        (if igmp_host_compatibility_mode sy now st = V3 then emit_v3_report (concat (map (pc_records \<circ> snd) pending)) st
         else emit_coarse sy now pending st)
        (\<lambda>st. let pending = map (\<lambda>(g, p). (g, p\<lparr>pc_remaining := pc_remaining p - 1\<rparr>))
                              (filter (\<lambda>(g, p). \<not> pc_remaining p \<le> 1) (ig_pending st));
                  st = st\<lparr>ig_pending := pending\<rparr>
              in (None, if pending \<noteq> [] then arm_state_change_retransmit now delay st else st)))"

definition cancel_state_change_retransmits :: "igmp_if \<Rightarrow> igmp_if" where
  "cancel_state_change_retransmits st = st\<lparr>ig_handle := None, ig_pending := []\<rparr>"

text \<open>The answer to a query for one group; with sources, those of them that the interface listens to.\<close>

definition send_igmp_v3_group_current_state :: "ip_address \<Rightarrow> ip_address set \<Rightarrow> igmp_if \<Rightarrow> igmp_if act" where
  "send_igmp_v3_group_current_state g queried st =
     (case map_of (ig_filters st) g of
        None \<Rightarrow> (None, st)
      | Some f \<Rightarrow>
          if queried = {} then
            with_res (current_state_record g st) st (\<lambda>r. case r of Some r \<Rightarrow> emit_v3_report [r] st | None \<Rightarrow> (None, st))
          else
            let answer = (if mf_mode f = INCLUDE then mf_sources f \<inter> queried else queried - mf_sources f) in
            if answer = {} then (None, st)
            else with_res (mk_group_record MODE_IS_INCLUDE g (sorted_sources answer)) st (\<lambda>r. emit_v3_report [r] st))"

section \<open>Membership of the interface\<close>

definition mc_is_joined :: "ip_address \<Rightarrow> igmp_if \<Rightarrow> bool" where
  "mc_is_joined g st \<longleftrightarrow> g \<in> set (map fst (ig_filters st))"

definition ip4_multicast_filter_for :: "ip_address \<Rightarrow> igmp_if \<Rightarrow> mc_filter" where
  "ip4_multicast_filter_for g st =
     (case map_of (ig_refs st) g of None \<Rightarrow> any_source | Some m \<Rightarrow> merge_filters (contributors m))"

definition assign_mac_multicast :: "ip_address \<Rightarrow> igmp_if \<Rightarrow> igmp_if act" where
  "assign_mac_multicast g st =
     (if ig_layer st = L3 then (None, st)
      else with_res (ip4_multicast_mac g) st (\<lambda>m. (None, st\<lparr>ig_mac_multicast := ig_mac_multicast st @ [m]\<rparr>)))"

definition remove_mac_multicast :: "ip_address \<Rightarrow> igmp_if \<Rightarrow> igmp_if act" where
  "remove_mac_multicast g st =
     (if ig_layer st = L3 then (None, st)
      else with_res (ip4_multicast_mac g) st (\<lambda>m.
        if m \<in> set (ig_mac_multicast st) then (None, st\<lparr>ig_mac_multicast := remove1 m (ig_mac_multicast st)\<rparr>)
        else (Some ValueError, st)))"

definition assign_ip4_multicast :: "igmp_sysctl \<Rightarrow> int \<Rightarrow> int \<Rightarrow> ip_address \<Rightarrow> igmp_if \<Rightarrow> igmp_if act" where
  "assign_ip4_multicast sy now delay g st =
     (let new = ip4_multicast_filter_for g st in
      and_then (assign_mac_multicast g (st\<lparr>ig_filters := AList.update g new (ig_filters st)\<rparr>))
        (send_igmp_state_change sy now delay g nonmember new))"

definition remove_ip4_multicast :: "igmp_sysctl \<Rightarrow> int \<Rightarrow> int \<Rightarrow> ip_address \<Rightarrow> igmp_if \<Rightarrow> igmp_if act" where
  "remove_ip4_multicast sy now delay g st =
     (case map_of (ig_filters st) g of
        None \<Rightarrow> (Some KeyError, st)
      | Some old \<Rightarrow>
          and_then (remove_mac_multicast g (st\<lparr>ig_filters := AList.delete g (ig_filters st)\<rparr>))
            (send_igmp_state_change sy now delay g old nonmember))"

definition wanted :: "igmp_if \<Rightarrow> ip_address \<Rightarrow> mc_filter list" where
  "wanted st g = (case map_of (ig_refs st) g of Some m \<Rightarrow> contributors m | None \<Rightarrow> [])"

definition mc_recompute :: "igmp_sysctl \<Rightarrow> int \<Rightarrow> int \<Rightarrow> ip_address \<Rightarrow> igmp_if \<Rightarrow> igmp_if act" where
  "mc_recompute sy now delay g st =
     (let merged = merge_filters (wanted st g) in
      if has_reception merged then
        (case map_of (ig_filters st) g of
           None \<Rightarrow> assign_ip4_multicast sy now delay g st
         | Some old \<Rightarrow>
             if merged \<noteq> old then
               send_igmp_state_change sy now delay g old merged (st\<lparr>ig_filters := AList.update g merged (ig_filters st)\<rparr>)
             else (None, st))
      else if mc_is_joined g st then remove_ip4_multicast sy now delay g st
      else (None, st))"

text \<open>\<open>setdefault\<close> with a change of the entry, and the removal of an entry without contributors.\<close>

definition membership_of :: "ip_address \<Rightarrow> igmp_if \<Rightarrow> group_membership" where
  "membership_of g st = (case map_of (ig_refs st) g of Some m \<Rightarrow> m | None \<Rightarrow> new_membership)"

definition put_membership :: "ip_address \<Rightarrow> group_membership \<Rightarrow> igmp_if \<Rightarrow> igmp_if" where
  "put_membership g m st = st\<lparr>ig_refs := AList.update g m (ig_refs st)\<rparr>"

definition drop_if_unused :: "ip_address \<Rightarrow> group_membership \<Rightarrow> igmp_if \<Rightarrow> igmp_if" where
  "drop_if_unused g m st =
     (if \<not> gm_operator m \<and> gm_socket_filters m = [] then st\<lparr>ig_refs := AList.delete g (ig_refs st)\<rparr> else put_membership g m st)"

definition mc_ref_acquire :: "igmp_sysctl \<Rightarrow> int \<Rightarrow> int \<Rightarrow> ip_address \<Rightarrow> igmp_if \<Rightarrow> igmp_if act" where
  "mc_ref_acquire sy now delay g st =
     (if g = ALL_SYSTEMS then (None, st)
      else mc_recompute sy now delay g (put_membership g ((membership_of g st)\<lparr>gm_operator := True\<rparr>) st))"

definition mc_ref_release :: "igmp_sysctl \<Rightarrow> int \<Rightarrow> int \<Rightarrow> ip_address \<Rightarrow> igmp_if \<Rightarrow> igmp_if act" where
  "mc_ref_release sy now delay g st =
     (if g = ALL_SYSTEMS then (None, st)
      else case map_of (ig_refs st) g of
        None \<Rightarrow> (None, st)
      | Some m \<Rightarrow> mc_recompute sy now delay g (drop_if_unused g (m\<lparr>gm_operator := False\<rparr>) st))"

definition mc_set_socket_filter :: "igmp_sysctl \<Rightarrow> int \<Rightarrow> int \<Rightarrow> ip_address \<Rightarrow> int \<Rightarrow> mc_filter \<Rightarrow> igmp_if \<Rightarrow> igmp_if act" where
  "mc_set_socket_filter sy now delay g token f st =
     (if g = ALL_SYSTEMS then (None, st)
      else let m = membership_of g st in
        mc_recompute sy now delay g (put_membership g (m\<lparr>gm_socket_filters := AList.update token f (gm_socket_filters m)\<rparr>) st))"

definition mc_clear_socket_filter :: "igmp_sysctl \<Rightarrow> int \<Rightarrow> int \<Rightarrow> ip_address \<Rightarrow> int \<Rightarrow> igmp_if \<Rightarrow> igmp_if act" where
  "mc_clear_socket_filter sy now delay g token st =
     (if g = ALL_SYSTEMS then (None, st)
      else case map_of (ig_refs st) g of
        None \<Rightarrow> (None, st)
      | Some m \<Rightarrow> mc_recompute sy now delay g
          (drop_if_unused g (m\<lparr>gm_socket_filters := AList.delete token (gm_socket_filters m)\<rparr>) st))"

section \<open>The membership interface\<close>

definition enforce_membership_cap :: "igmp_sysctl \<Rightarrow> ip_address \<Rightarrow> igmp_if \<Rightarrow> bool" where
  "enforce_membership_cap sy g st \<longleftrightarrow>
     mc_is_joined g st \<or>
     int (length (filter (\<lambda>m. m \<noteq> ALL_SYSTEMS) (map fst (ig_filters st)))) < ig_max_memberships sy"

definition api_join :: "igmp_sysctl \<Rightarrow> int \<Rightarrow> int \<Rightarrow> ip_address \<Rightarrow> igmp_if \<Rightarrow> igmp_if act" where
  "api_join sy now delay g st =
     (if \<not> ip4_is_multicast g then (Some ValueError, st)
      else if \<not> enforce_membership_cap sy g st then (Some ValueError, st)
      else mc_ref_acquire sy now delay g st)"

definition api_leave :: "igmp_sysctl \<Rightarrow> int \<Rightarrow> int \<Rightarrow> ip_address \<Rightarrow> igmp_if \<Rightarrow> igmp_if act" where
  "api_leave sy now delay g st =
     (if \<not> ip4_is_multicast g \<or> g = ALL_SYSTEMS then (Some ValueError, st)
      else mc_ref_release sy now delay g st)"

definition api_set_socket_filter :: "igmp_sysctl \<Rightarrow> int \<Rightarrow> int \<Rightarrow> ip_address \<Rightarrow> int \<Rightarrow> mc_filter \<Rightarrow> igmp_if \<Rightarrow> igmp_if act" where
  "api_set_socket_filter sy now delay g token f st =
     (if \<not> enforce_membership_cap sy g st then (Some ValueError, st) else mc_set_socket_filter sy now delay g token f st)"

definition api_clear_socket_filter :: "igmp_sysctl \<Rightarrow> int \<Rightarrow> int \<Rightarrow> ip_address \<Rightarrow> int \<Rightarrow> igmp_if \<Rightarrow> igmp_if act" where
  "api_clear_socket_filter sy now delay g token st = mc_clear_socket_filter sy now delay g token st"

definition list_memberships :: "igmp_if \<Rightarrow> ip_address list" where
  "list_memberships st = map fst (ig_filters st)"

section \<open>The receiver\<close>

record igmp_query =
  iq_version :: igmp_version
  iq_max_response_time :: int
  iq_group :: ip_address
  iq_sources :: "ip_address list"

datatype igmp_rx = Rx_Query igmp_query | Rx_V1_Report ip_address | Rx_V2_Report ip_address | Rx_Other

definition is_general_query :: "igmp_query \<Rightarrow> bool" where
  "is_general_query q \<longleftrightarrow> ip_is_unspecified (iq_group q) \<and> iq_sources q = []"

definition igmp_cancel_pending_timers :: "igmp_if \<Rightarrow> igmp_if" where
  "igmp_cancel_pending_timers st =
     cancel_state_change_retransmits (st\<lparr>ig_query_handle := None, ig_query_at := None, ig_group_query := []\<rparr>)"

definition igmp_update_compatibility_mode :: "igmp_sysctl \<Rightarrow> int \<Rightarrow> igmp_query \<Rightarrow> igmp_if \<Rightarrow> igmp_if" where
  "igmp_update_compatibility_mode sy now q st =
     (if iq_version q = V3 then st
      else let old_mode = igmp_host_compatibility_mode sy now st;
               deci = (if iq_version q = V2 then iq_max_response_time q else 100);
               deadline = now + (ig_robustness sy * ig_query_interval sy + deci * 100);
               st = (if iq_version q = V1 then st\<lparr>ig_v1_until := Some deadline\<rparr> else st\<lparr>ig_v2_until := Some deadline\<rparr>)
           in if igmp_host_compatibility_mode sy now st \<noteq> old_mode then igmp_cancel_pending_timers st else st)"

definition igmp_query_send_now :: "igmp_sysctl \<Rightarrow> int \<Rightarrow> igmp_if \<Rightarrow> igmp_if act" where
  "igmp_query_send_now sy now st =
     (let mode = igmp_host_compatibility_mode sy now st in
      and_then
        (if mode = V3 then send_igmp_v3_report st
         else (None, fold (\<lambda>g st. if g \<notin> ig_suppressed st then emit_group_membership_report g mode st else st)
                 (remdups (map fst (ig_filters st))) st))
        (\<lambda>st. (None, igmp_bump ''igmp__membership_query__respond'' (st\<lparr>ig_suppressed := {}\<rparr>))))"

definition igmp_query_deferred_send :: "igmp_sysctl \<Rightarrow> int \<Rightarrow> igmp_if \<Rightarrow> igmp_if act" where
  "igmp_query_deferred_send sy now st = igmp_query_send_now sy now (st\<lparr>ig_query_at := None, ig_query_handle := None\<rparr>)"

definition igmp_query_schedule_general :: "igmp_sysctl \<Rightarrow> int \<Rightarrow> int \<Rightarrow> igmp_if \<Rightarrow> igmp_if act" where
  "igmp_query_schedule_general sy now delay st =
     (if delay = 0 then igmp_query_send_now sy now st
      else let response_at = now + delay in
        if (case ig_query_at st of Some t \<Rightarrow> t \<le> response_at | None \<Rightarrow> False) then (None, st)
        else
          let st = (if ig_query_at st \<noteq> None
                    then igmp_bump ''igmp__membership_query__superseded'' (st\<lparr>ig_query_handle := None, ig_suppressed := {}\<rparr>) else st)
          in (None, igmp_bump ''igmp__membership_query__scheduled''
                (st\<lparr>ig_query_at := Some response_at, ig_query_handle := Some response_at\<rparr>)))"

definition igmp_group_query_send_now :: "igmp_sysctl \<Rightarrow> int \<Rightarrow> ip_address \<Rightarrow> ip_address set \<Rightarrow> igmp_if \<Rightarrow> igmp_if act" where
  "igmp_group_query_send_now sy now g sources st =
     (if g \<notin> set (map fst (ig_filters st)) then (None, st)
      else let mode = igmp_host_compatibility_mode sy now st in
        and_then
          (if mode = V3 then send_igmp_v3_group_current_state g sources st else (None, emit_group_membership_report g mode st))
          (\<lambda>st. (None, igmp_bump ''igmp__membership_query__respond'' st)))"

definition igmp_group_query_deferred_send :: "igmp_sysctl \<Rightarrow> int \<Rightarrow> ip_address \<Rightarrow> igmp_if \<Rightarrow> igmp_if act" where
  "igmp_group_query_deferred_send sy now g st =
     igmp_group_query_send_now sy now g (case map_of (ig_group_query st) g of Some p \<Rightarrow> gq_sources p | None \<Rightarrow> {})
       (st\<lparr>ig_group_query := AList.delete g (ig_group_query st)\<rparr>)"

definition igmp_query_schedule_group ::
    "igmp_sysctl \<Rightarrow> int \<Rightarrow> ip_address \<Rightarrow> ip_address set \<Rightarrow> int \<Rightarrow> igmp_if \<Rightarrow> igmp_if act" where
  "igmp_query_schedule_group sy now g sources delay st =
     (let response_at = now + delay; existing = map_of (ig_group_query st) g in
      if (case ig_query_at st of Some t \<Rightarrow> t \<le> response_at | None \<Rightarrow> False) then (None, st)
      else
        let recorded =
              (case existing of
                 None \<Rightarrow> sources
               | Some p \<Rightarrow> if sources = {} \<or> gq_sources p = {} then {} else gq_sources p \<union> sources)
        in case existing of
             Some p \<Rightarrow>
               if gq_respond_at_ms p \<le> response_at then
                 (None, if recorded \<noteq> gq_sources p
                        then st\<lparr>ig_group_query := AList.update g (p\<lparr>gq_sources := recorded\<rparr>) (ig_group_query st)\<rparr> else st)
               else if delay = 0 then
                 igmp_group_query_send_now sy now g recorded (st\<lparr>ig_group_query := AList.delete g (ig_group_query st)\<rparr>)
               else
                 (None, igmp_bump ''igmp__membership_query__scheduled''
                   ((igmp_bump ''igmp__membership_query__superseded'' st)
                     \<lparr>ig_group_query := AList.update g \<lparr>gq_respond_at_ms = response_at, gq_handle = now + delay, gq_sources = recorded\<rparr> (ig_group_query st)\<rparr>))
           | None \<Rightarrow>
               if delay = 0 then igmp_group_query_send_now sy now g recorded st
               else
                 (None, igmp_bump ''igmp__membership_query__scheduled''
                   (st\<lparr>ig_group_query := AList.update g \<lparr>gq_respond_at_ms = response_at, gq_handle = now + delay, gq_sources = recorded\<rparr> (ig_group_query st)\<rparr>)))"

definition phrx_igmp__membership_query :: "igmp_sysctl \<Rightarrow> int \<Rightarrow> int \<Rightarrow> igmp_query \<Rightarrow> igmp_if \<Rightarrow> igmp_if act" where
  "phrx_igmp__membership_query sy now delay q st =
     (let st = igmp_update_compatibility_mode sy now q (igmp_bump ''igmp__membership_query'' st) in
      if is_general_query q then igmp_query_schedule_general sy now delay st
      else igmp_query_schedule_group sy now (iq_group q) (set (iq_sources q)) delay st)"

definition phrx_igmp__report :: "igmp_sysctl \<Rightarrow> int \<Rightarrow> igmp_rx \<Rightarrow> igmp_if \<Rightarrow> igmp_if" where
  "phrx_igmp__report sy now msg st =
     (let st = igmp_bump ''igmp__membership_report'' st;
          heard = (case msg of Rx_V1_Report g \<Rightarrow> Some g | Rx_V2_Report g \<Rightarrow> Some g | _ \<Rightarrow> None)
      in case heard of
           None \<Rightarrow> st
         | Some g \<Rightarrow>
             if igmp_host_compatibility_mode sy now st \<noteq> V3 \<and> ig_query_at st \<noteq> None \<and>
                g \<in> set (map fst (ig_filters st)) \<and> g \<notin> ig_suppressed st
             then igmp_bump ''igmp__membership_query__suppressed'' (st\<lparr>ig_suppressed := insert g (ig_suppressed st)\<rparr>)
             else st)"

text \<open>The message is what the parser returns, \<open>None\<close> for a packet it rejects.\<close>

definition phrx_igmp :: "igmp_sysctl \<Rightarrow> int \<Rightarrow> int \<Rightarrow> int \<Rightarrow> igmp_rx option \<Rightarrow> igmp_if \<Rightarrow> igmp_if act" where
  "phrx_igmp sy now delay ttl parsed st =
     (let st = igmp_bump ''igmp__pre_parse'' st in
      if ttl \<noteq> 1 then (None, igmp_bump ''igmp__ttl_invalid__drop'' st)
      else case parsed of
        None \<Rightarrow> (None, igmp_bump ''igmp__failed_parse__drop'' st)
      | Some (Rx_Query q) \<Rightarrow> phrx_igmp__membership_query sy now delay q st
      | Some msg \<Rightarrow> (None, phrx_igmp__report sy now msg st))"

section \<open>The start\<close>

text \<open>An interface starts as a member of the all-systems group.\<close>

definition new_if :: "interface_layer \<Rightarrow> ip_address list \<Rightarrow> (string \<Rightarrow> int) \<Rightarrow> igmp_if" where
  "new_if layer addrs stats =
     \<lparr>ig_layer = layer, ig_unicast = addrs, ig_filters = [], ig_refs = [], ig_mac_multicast = [], ig_pending = [], ig_handle = None,
      ig_query_at = None, ig_query_handle = None, ig_suppressed = {}, ig_group_query = [], ig_v1_until = None, ig_v2_until = None,
      ig_stats = stats, ig_sent = []\<rparr>"

definition start_if :: "igmp_sysctl \<Rightarrow> int \<Rightarrow> int \<Rightarrow> interface_layer \<Rightarrow> ip_address list \<Rightarrow> (string \<Rightarrow> int) \<Rightarrow> igmp_if act" where
  "start_if sy now delay layer addrs stats = assign_ip4_multicast sy now delay ALL_SYSTEMS (new_if layer addrs stats)"

end
