(* ===== verification/Igmp_Host.thy ===== *)
theory Igmp_Host
  imports Ip4_Multicast
begin

text \<open>
  What a router learns from the reports of an interface, and what the interface answers to queries.

  The interface \<open>change_reports\<close> says what reports of differences promise: whoever applies one, for the first
  time or again, holds the new value, and it fits its bound. The records of RFC 3376 section 5.1 interpret it.
  \<open>router\<close> applies all that an interface has sent; \<open>mc_inv\<close> ties what it has learned to the filters of the
  interface, these to the contributors of each group, the pending retransmissions to the filters they report,
  and the MAC filters to the joined groups. Every operation keeps it (\<open>mc_run\<close>), so that the router always has
  the union of what the operator and the sockets asked for. Every operation also keeps
  \<open>timers_ok\<close>, that an armed timer and the deadline recorded with it agree, so that every query is answered in
  time.
\<close>

section \<open>Reports of differences\<close>

locale change_reports =
  fixes diff :: "'g \<Rightarrow> 'f \<Rightarrow> 'f \<Rightarrow> 'r list res" and heard :: "'r \<Rightarrow> 'f \<Rightarrow> 'f"
    and about :: "'g \<Rightarrow> bool" and ok :: "'f \<Rightarrow> bool" and fits :: "'g \<Rightarrow> 'r list \<Rightarrow> bool"
  assumes reported: "about g \<Longrightarrow> ok old \<Longrightarrow> ok new \<Longrightarrow>
    \<exists>rs. diff g old new = Inr rs \<and> fits g rs \<and> fold heard rs old = new \<and> fold heard rs new = new"
begin

text \<open>A report that is repeated any number of times leaves the receiver at the new value, also one that missed the first.\<close>

lemma repeated:
  assumes "about g" "ok old" "ok new" "diff g old new = Inr rs" "0 < n"
  shows "fold heard (concat (replicate n rs)) old = new"
proof -
  have r: "fold heard rs old = new" "fold heard rs new = new" using reported [OF assms(1-3)] assms(4) by auto
  have "fold heard (concat (replicate k rs)) new = new" for k by (induction k) (simp_all add: r)
  then show ?thesis using assms(5) r(1) by (cases n) simp_all
qed

end

text \<open>The filter a router keeps for a single host (RFC 3376, section 6.4).\<close>

definition heard :: "igmp_record \<Rightarrow> mc_filter \<Rightarrow> mc_filter" where
  "heard r f =
     (let ss = set (gr_sources r); listened = (if mf_mode f = INCLUDE then mf_sources f \<union> ss else mf_sources f - ss) in
      case gr_type r of
        MODE_IS_INCLUDE \<Rightarrow> f\<lparr>mf_sources := listened\<rparr>
      | ALLOW_NEW_SOURCES \<Rightarrow> f\<lparr>mf_sources := listened\<rparr>
      | BLOCK_OLD_SOURCES \<Rightarrow> f\<lparr>mf_sources := (if mf_mode f = INCLUDE then mf_sources f - ss else mf_sources f \<union> ss)\<rparr>
      | CHANGE_TO_INCLUDE_MODE \<Rightarrow> \<lparr>mf_mode = INCLUDE, mf_sources = ss\<rparr>
      | MODE_IS_EXCLUDE \<Rightarrow> \<lparr>mf_mode = EXCLUDE, mf_sources = ss\<rparr>
      | CHANGE_TO_EXCLUDE_MODE \<Rightarrow> \<lparr>mf_mode = EXCLUDE, mf_sources = ss\<rparr>)"

text \<open>Sets of sources that can be reported.\<close>

definition sources_ok :: "ip_address set \<Rightarrow> bool" where
  "sources_ok ss \<longleftrightarrow> finite ss \<and> (\<forall>a \<in> ss. ia_version a = IP4 \<and> ip4_is_unicast a)"

lemma sorted_sources_ok:
  assumes "sources_ok ss"
  shows "set (sorted_sources ss) = ss" "list_all ip4_is_unicast (sorted_sources ss)" "length (sorted_sources ss) = card ss"
proof -
  have fin: "finite (ia_int ` ss)" using assms by (simp add: sources_ok_def)
  have ip4: "\<lparr>ia_version = IP4, ia_int = ia_int a\<rparr> = a" if "a \<in> ss" for a using assms that by (cases a) (auto simp: sources_ok_def)
  then have "(\<lambda>i. \<lparr>ia_version = IP4, ia_int = i\<rparr>) ` ia_int ` ss = ss" by (force simp: image_iff)
  then show s: "set (sorted_sources ss) = ss" using fin by (simp add: sorted_sources_def)
  then show "list_all ip4_is_unicast (sorted_sources ss)" using assms by (auto simp: list_all_iff sources_ok_def)
  have "inj_on ia_int ss" using ip4 by (metis inj_onI)
  then show "length (sorted_sources ss) = card ss" by (simp add: sorted_sources_def card_image)
qed

lemma mk_group_record_ok:
  "ip4_is_multicast g \<Longrightarrow> sources_ok ss \<Longrightarrow>
    mk_group_record t g (sorted_sources ss) = Inr \<lparr>gr_type = t, gr_group = g, gr_sources = sorted_sources ss\<rparr>"
  by (simp add: mk_group_record_def sorted_sources_ok)

lemma sources_ok_subset: "sources_ok U \<Longrightarrow> ss \<subseteq> U \<Longrightarrow> sources_ok ss"
  by (auto simp: sources_ok_def intro: finite_subset)

text \<open>The records of a change, their size and their effect.\<close>

definition records_ok :: "ip_address set \<Rightarrow> ip_address \<Rightarrow> igmp_record list \<Rightarrow> bool" where
  "records_ok U g rs \<longleftrightarrow> (\<forall>r \<in> set rs. gr_group r = g) \<and> sum_list (map record_len rs) \<le> 16 + 4 * card U"

lemma state_change_records_ok:
  assumes "ip4_is_multicast g" "sources_ok U" "mf_sources old \<subseteq> U" "mf_sources new \<subseteq> U"
  shows "\<exists>rs. state_change_records g old new = Inr rs \<and> records_ok U g rs \<and> fold heard rs old = new \<and> fold heard rs new = new"
proof -
  have ok: "sources_ok ss" if "ss \<subseteq> U" for ss by (rule sources_ok_subset [OF assms(2) that])
  have le: "card ss \<le> card U" if "ss \<subseteq> U" for ss using that assms(2) by (simp add: card_mono sources_ok_def)
  have le2: "card (a - b) + card (b - a) \<le> card U" if "a \<subseteq> U" "b \<subseteq> U" for a b
  proof -
    have "card (a - b) + card (b - a) = card ((a - b) \<union> (b - a))"
      using that assms(2) by (intro card_Un_disjoint [symmetric]) (auto simp: sources_ok_def intro: finite_subset)
    then show ?thesis using le [of "(a - b) \<union> (b - a)"] that by auto
  qed
  have subs: "mf_sources old - mf_sources new \<subseteq> U" "mf_sources new - mf_sources old \<subseteq> U" using assms(3,4) by auto
  note facts = mk_group_record_ok [OF assms(1) ok] sorted_sources_ok [OF ok]
  have le2': "card (mf_sources old - mf_sources new) + card (mf_sources new - mf_sources old) \<le> card U"
    using le2 [of "mf_sources old" "mf_sources new"] assms(3,4) by simp
  show ?thesis
  proof (cases "mf_mode old = mf_mode new")
    case True
    obtain A m where old: "old = \<lparr>mf_mode = m, mf_sources = A\<rparr>" by (cases old)
    obtain B where new: "new = \<lparr>mf_mode = m, mf_sources = B\<rparr>" using True old by (cases new) simp
    have c: "finite A" "finite B" using assms(2-4) old new by (auto simp: sources_ok_def intro: finite_subset)
    show ?thesis
      using subs le2' le [OF subs(1)] le [OF subs(2)]
      by (cases m; cases "A - B = {}"; cases "B - A = {}")
        (auto simp: state_change_records_def old new facts records_ok_def record_len_def heard_def Let_def)
  next
    case False
    then show ?thesis
      using assms(4) le [OF assms(4)]
      by (cases new; cases "mf_mode new") (auto simp: state_change_records_def facts records_ok_def record_len_def heard_def Let_def)
  qed
qed

interpretation igmp: change_reports state_change_records heard ip4_is_multicast "\<lambda>f. sources_ok U \<and> mf_sources f \<subseteq> U" "records_ok U"
  for U
  by unfold_locales (blast intro: state_change_records_ok)

text \<open>A router that hears a change any number of times, but at least once, has the new filter.\<close>

lemma change_repeated:
  assumes "ip4_is_multicast g" "sources_ok U" "mf_sources old \<subseteq> U" "mf_sources new \<subseteq> U" "state_change_records g old new = Inr rs" "0 < n"
  shows "fold heard (concat (replicate n rs)) old = new"
  using igmp.repeated [of g U old new rs n] assms by blast

section \<open>The router\<close>

definition hear_record :: "igmp_record \<Rightarrow> (ip_address \<Rightarrow> mc_filter) \<Rightarrow> ip_address \<Rightarrow> mc_filter" where
  "hear_record r R = R(gr_group r := heard r (R (gr_group r)))"

fun hear_message :: "igmp_message \<Rightarrow> (ip_address \<Rightarrow> mc_filter) \<Rightarrow> ip_address \<Rightarrow> mc_filter" where
  "hear_message (Igmp_V3_Report rs) R = fold hear_record rs R"
| "hear_message _ R = R"

definition router :: "igmp_if \<Rightarrow> ip_address \<Rightarrow> mc_filter" where
  "router st = fold (\<lambda>(_, _, msg). hear_message msg) (ig_sent st) (\<lambda>_. nonmember)"

text \<open>A group sees the records about it.\<close>

lemma hear_records_at: "fold hear_record rs R g = fold heard (filter (\<lambda>r. gr_group r = g) rs) (R g)"
  by (induction rs arbitrary: R) (auto simp: hear_record_def)

lemma hear_records_one: "\<forall>r \<in> set rs. gr_group r = g \<Longrightarrow> fold hear_record rs R = R(g := fold heard rs (R g))"
  by (rule ext) (auto simp: hear_records_at filter_empty_conv)

lemma fold_fixed: "\<forall>r \<in> set rs. h r x = x \<Longrightarrow> fold h rs x = x"
  by (induction rs) auto

text \<open>What the IGMP operations may change of the state besides the fields they are about.\<close>

definition sends :: "igmp_if \<Rightarrow> igmp_record list \<Rightarrow> igmp_if \<Rightarrow> bool" where
  "sends st rs st' \<longleftrightarrow> st' = st\<lparr>ig_stats := ig_stats st', ig_sent := ig_sent st'\<rparr> \<and> router st' = fold hear_record rs (router st)"

lemma emit_v3_report_ok:
  "sum_list (map record_len rs) \<le> 65507 \<Longrightarrow> \<exists>st'. emit_v3_report rs st = (None, st') \<and> sends st rs st'"
  by (cases "rs = []") (auto simp: emit_v3_report_def emit_igmp_def igmp_bump_def sends_def router_def Let_def)

section \<open>The invariant\<close>

text \<open>Groups \<open>G\<close> and sources \<open>U\<close> few enough for one report.\<close>

definition universe_ok :: "ip_address set \<Rightarrow> ip_address set \<Rightarrow> bool" where
  "universe_ok G U \<longleftrightarrow> finite G \<and> (\<forall>g \<in> G. ip4_is_multicast g) \<and> ALL_SYSTEMS \<notin> G \<and> sources_ok U \<and> Suc (card G) * (16 + 4 * card U) \<le> 65507"

definition filter_of :: "igmp_if \<Rightarrow> ip_address \<Rightarrow> mc_filter" where
  "filter_of st g = (case map_of (ig_filters st) g of Some f \<Rightarrow> f | None \<Rightarrow> nonmember)"

definition refs_ok :: "ip_address set \<Rightarrow> ip_address set \<Rightarrow> (ip_address \<times> group_membership) list \<Rightarrow> bool" where
  "refs_ok G U refs \<longleftrightarrow> distinct (map fst refs) \<and>
     (\<forall>(g, m) \<in> set refs. g \<in> G \<and> distinct (map fst (gm_socket_filters m)) \<and>
       (\<forall>f \<in> set (contributors m). mf_sources f \<subseteq> U))"

definition filters_ok :: "ip_address set \<Rightarrow> igmp_if \<Rightarrow> bool" where
  "filters_ok G st \<longleftrightarrow> distinct (map fst (ig_filters st)) \<and> fst ` set (ig_filters st) \<subseteq> insert ALL_SYSTEMS G \<and>
     filter_of st ALL_SYSTEMS \<in> {nonmember, any_source} \<and>
     (\<forall>g \<in> G. map_of (ig_filters st) g =
        (let f = merge_filters (wanted st g) in if has_reception f then Some f else None))"

definition macs_ok :: "igmp_if \<Rightarrow> bool" where
  "macs_ok st \<longleftrightarrow> ig_layer st = L2 \<longrightarrow>
     image_mset (\<lambda>g. ip4_multicast_mac g) (mset (map fst (ig_filters st))) \<subseteq># image_mset Inr (mset (ig_mac_multicast st))"

definition pending_ok :: "ip_address set \<Rightarrow> ip_address set \<Rightarrow> igmp_if \<Rightarrow> bool" where
  "pending_ok G U st \<longleftrightarrow> distinct (map fst (ig_pending st)) \<and>
     (\<forall>(g, p) \<in> set (ig_pending st). g \<in> G \<and> records_ok U g (pc_records p) \<and> fold heard (pc_records p) (filter_of st g) = filter_of st g)"

definition mirrored :: "ip_address set \<Rightarrow> igmp_if \<Rightarrow> bool" where
  "mirrored G st \<longleftrightarrow> (\<forall>g. g \<noteq> ALL_SYSTEMS \<longrightarrow> router st g = (if g \<in> G then filter_of st g else nonmember))"

definition queries_ok :: "ip_address set \<Rightarrow> igmp_if \<Rightarrow> bool" where
  "queries_ok U st \<longleftrightarrow> (\<forall>(g, p) \<in> set (ig_group_query st). gq_sources p \<subseteq> U)"

definition v3_only :: "igmp_sysctl \<Rightarrow> igmp_if \<Rightarrow> bool" where
  "v3_only sy st \<longleftrightarrow> ig_force_version sy = Some V3 \<or> (ig_force_version sy = None \<and> ig_v1_until st = None \<and> ig_v2_until st = None)"

lemma v3_mode: "v3_only sy st \<Longrightarrow> igmp_host_compatibility_mode sy now st = V3"
  by (auto simp: v3_only_def igmp_host_compatibility_mode_def)

definition mc_inv :: "igmp_sysctl \<Rightarrow> ip_address set \<Rightarrow> ip_address set \<Rightarrow> igmp_if \<Rightarrow> bool" where
  "mc_inv sy G U st \<longleftrightarrow> refs_ok G U (ig_refs st) \<and> filters_ok G st \<and> macs_ok st \<and> pending_ok G U st \<and> mirrored G st \<and>
     v3_only sy st \<and> queries_ok U st"

lemma refs_sources: "refs_ok G U (ig_refs st) \<Longrightarrow> mf_sources (merge_filters (wanted st g)) \<subseteq> U"
  by (rule merge_sources) (fastforce simp: refs_ok_def wanted_def split: option.splits dest: map_of_SomeD)

lemma filter_of_sources:
  "filters_ok G st \<Longrightarrow> refs_ok G U (ig_refs st) \<Longrightarrow> g \<in> G \<Longrightarrow> filter_of st g = merge_filters (wanted st g)"
  by (auto simp: filters_ok_def filter_of_def Let_def merge_none)

section \<open>Changes\<close>

lemma universe_one: "universe_ok G U \<Longrightarrow> 16 + 4 * card U \<le> 65507"
  by (simp add: universe_ok_def)

text \<open>The report of a change and what is left to repeat.\<close>

lemma state_change_ok:
  assumes "universe_ok G U" "g \<in> G" "mf_sources old \<subseteq> U" "mf_sources new \<subseteq> U" "v3_only sy st" "router st g = old"
    and "distinct (map fst (ig_pending st))"
  shows "\<exists>st'. send_igmp_state_change sy now delay g old new st = (None, st') \<and> router st' = (router st)(g := new) \<and>
    st' = st\<lparr>ig_stats := ig_stats st', ig_sent := ig_sent st', ig_pending := ig_pending st', ig_handle := ig_handle st'\<rparr> \<and>
    distinct (map fst (ig_pending st')) \<and>
    (\<forall>(h, p) \<in> set (ig_pending st'). (h \<noteq> g \<and> (h, p) \<in> set (ig_pending st)) \<or>
       (h = g \<and> records_ok U g (pc_records p) \<and> fold heard (pc_records p) new = new))"
proof -
  have g: "ip4_is_multicast g" "sources_ok U" "g \<noteq> ALL_SYSTEMS" using assms(1,2) by (auto simp: universe_ok_def)
  obtain rs where rs: "state_change_records g old new = Inr rs" "records_ok U g rs" "fold heard rs old = new" "fold heard rs new = new"
    using igmp.reported [of g U old new] g(1,2) assms(3,4) by blast
  have "sum_list (map record_len rs) \<le> 65507" using rs(2) universe_one [OF assms(1)] by (simp add: records_ok_def)
  then obtain st1 where st1: "emit_v3_report rs st = (None, st1)" "sends st rs st1" using emit_v3_report_ok by blast
  have r: "router st1 = (router st)(g := new)"
    using st1(2) hear_records_one [of rs g "router st"] rs(2,3) assms(6) by (simp add: sends_def records_ok_def)
  have f: "st1 = st\<lparr>ig_stats := ig_stats st1, ig_sent := ig_sent st1\<rparr>" using st1(2) by (simp add: sends_def)
  have p: "ig_pending st1 = ig_pending st" using arg_cong [OF f, of ig_pending] by simp
  define st' where "st' = (if rs = [] \<or> ig_robustness sy - 1 \<le> 0 then st1\<lparr>ig_pending := AList.delete g (ig_pending st1)\<rparr>
      else arm_state_change_retransmit now delay (st1\<lparr>ig_pending := AList.update g \<lparr>pc_records = rs,
        pc_coarse_type = (if has_reception new \<and> \<not> has_reception old then Some CHANGE_TO_EXCLUDE_MODE
               else if has_reception old \<and> \<not> has_reception new then Some CHANGE_TO_INCLUDE_MODE else None),
        pc_remaining = ig_robustness sy - 1\<rparr> (ig_pending st1)\<rparr>))"
  have "send_igmp_state_change sy now delay g old new st = (None, st')"
    using g(3) rs(1) st1(1) v3_mode [OF assms(5)] by (simp add: send_igmp_state_change_def st'_def Let_def)
  moreover have "router st' = router st1" by (simp add: st'_def router_def arm_state_change_retransmit_def)
  moreover have "st' = st\<lparr>ig_stats := ig_stats st', ig_sent := ig_sent st', ig_pending := ig_pending st', ig_handle := ig_handle st'\<rparr>"
    using f by (cases st; cases st1) (simp add: st'_def arm_state_change_retransmit_def)
  moreover have "distinct (map fst (ig_pending st'))"
    using assms(7) p by (simp add: st'_def arm_state_change_retransmit_def distinct_update distinct_delete)
  moreover have "\<forall>(h, q) \<in> set (ig_pending st'). (h \<noteq> g \<and> (h, q) \<in> set (ig_pending st)) \<or>
       (h = g \<and> records_ok U g (pc_records q) \<and> fold heard (pc_records q) new = new)"
    using p assms(7) rs(2,4) set_update_distinct [OF assms(7)]
    by (auto simp: st'_def arm_state_change_retransmit_def AList.delete_eq split: if_splits)
  ultimately show ?thesis using r by auto
qed

text \<open>Once the filters are what the contributors want, the report of the change restores the invariant.\<close>

lemma settle_ok:
  assumes uni: "universe_ok G U" and inv: "mc_inv sy G U st" and g: "g \<in> G"
    and refs: "refs_ok G U refs" "\<forall>h. h \<noteq> g \<longrightarrow> map_of refs h = map_of (ig_refs st) h"
    and st1: "st1 = st\<lparr>ig_refs := refs, ig_filters := F, ig_mac_multicast := M\<rparr>" "macs_ok st1"
    and F: "distinct (map fst F)" "fst ` set F \<subseteq> insert ALL_SYSTEMS G"
      "map_of F = (map_of (ig_filters st))(g := if has_reception f then Some f else None)"
    and f: "f = merge_filters (wanted st1 g)"
  shows "\<exists>st'. send_igmp_state_change sy now delay g (filter_of st g) f st1 = (None, st') \<and> mc_inv sy G U st' \<and> ig_refs st' = refs"
proof -
  note i = inv [unfolded mc_inv_def]
  have src: "mf_sources (filter_of st g) \<subseteq> U" "mf_sources f \<subseteq> U"
    using filter_of_sources [of G st U g] refs_sources [of G U st g] refs_sources [of G U st1 g] i g refs(1) st1(1) f by simp_all
  have r: "router st1 = router st" "v3_only sy st1" "distinct (map fst (ig_pending st1))"
    using i by (simp_all add: st1(1) router_def v3_only_def pending_ok_def)
  have ga: "g \<noteq> ALL_SYSTEMS" using uni g by (auto simp: universe_ok_def)
  then have here: "router st1 g = filter_of st g" using r(1) i g by (simp add: mirrored_def)
  obtain st' where st': "send_igmp_state_change sy now delay g (filter_of st g) f st1 = (None, st')" "router st' = (router st1)(g := f)"
    "st' = st1\<lparr>ig_stats := ig_stats st', ig_sent := ig_sent st', ig_pending := ig_pending st', ig_handle := ig_handle st'\<rparr>"
    "distinct (map fst (ig_pending st'))"
    "\<forall>(h, p) \<in> set (ig_pending st'). (h \<noteq> g \<and> (h, p) \<in> set (ig_pending st1)) \<or>
       (h = g \<and> records_ok U g (pc_records p) \<and> fold heard (pc_records p) f = f)"
    using state_change_ok [OF uni g src r(2) here r(3), of now delay] by blast
  have fields: "ig_refs st' = refs" "ig_filters st' = F" "ig_mac_multicast st' = M" "ig_layer st' = ig_layer st"
    "ig_v1_until st' = ig_v1_until st" "ig_v2_until st' = ig_v2_until st" "ig_group_query st' = ig_group_query st"
    using arg_cong [OF st'(3), of ig_group_query] arg_cong [OF st'(3), of ig_refs] arg_cong [OF st'(3), of ig_filters] arg_cong [OF st'(3), of ig_mac_multicast]
      arg_cong [OF st'(3), of ig_layer] arg_cong [OF st'(3), of ig_v1_until] arg_cong [OF st'(3), of ig_v2_until] by (simp_all add: st1(1))
  have want: "wanted st' g = wanted st1 g" "h \<noteq> g \<Longrightarrow> wanted st' h = wanted st h" for h
    using refs(2) fields(1) by (simp_all add: wanted_def st1(1))
  have fof: "filter_of st' g = f" "h \<noteq> g \<Longrightarrow> filter_of st' h = filter_of st h" for h
    using F(3) fields(2) merge_none(2) [of f] by (auto simp: filter_of_def)
  have "filters_ok G st'"
    unfolding filters_ok_def
  proof (intro conjI ballI)
    show "map_of (ig_filters st') h = (let f = merge_filters (wanted st' h) in if has_reception f then Some f else None)" if "h \<in> G" for h
      using i that F(3) want f by (cases "h = g") (simp_all add: fields filters_ok_def)
    show "filter_of st' ALL_SYSTEMS \<in> {nonmember, any_source}" using i ga fof(2) [of ALL_SYSTEMS] by (simp add: filters_ok_def)
  qed (use F fields in simp_all)
  moreover have "macs_ok st'" using st1(2) fields by (simp add: macs_ok_def st1(1))
  moreover have "pending_ok G U st'"
    unfolding pending_ok_def
  proof (intro conjI ballI)
    show "case x of (h, p) \<Rightarrow> h \<in> G \<and> records_ok U h (pc_records p) \<and> fold heard (pc_records p) (filter_of st' h) = filter_of st' h"
      if mem: "x \<in> set (ig_pending st')" for x
    proof -
      obtain h p where x: "x = (h, p)" by (cases x)
      then consider "h \<noteq> g" "(h, p) \<in> set (ig_pending st)" | "h = g" "records_ok U g (pc_records p)" "fold heard (pc_records p) f = f"
        using st'(5) mem st1(1) by auto
      then show ?thesis using i fof g by cases (auto simp: x pending_ok_def)
    qed
  qed (rule st'(4))
  moreover have "mirrored G st'" using i st'(2) r(1) fof g by (simp add: mirrored_def)
  moreover have "v3_only sy st'" "queries_ok U st'" using i fields by (simp_all add: v3_only_def queries_ok_def)
  ultimately show ?thesis using st'(1) refs(1) fields(1) by (auto simp: mc_inv_def)
qed

lemma mset_diff_mono: "A \<subseteq># B \<Longrightarrow> A - C \<subseteq># B - C"
  by (simp add: subseteq_mset_def diff_le_mono)

text \<open>The MAC filters when a group is dropped, the state when nothing changes, and the branches of the code.\<close>

lemma macs_drop:
  assumes "macs_ok st" "distinct (map fst (ig_filters st))" "g \<in> set (map fst (ig_filters st))" "ip4_multicast_mac g = Inr m"
  shows "ig_layer st = L2 \<Longrightarrow> m \<in> set (ig_mac_multicast st)"
    and "macs_ok (st\<lparr>ig_refs := refs, ig_filters := AList.delete g (ig_filters st),
      ig_mac_multicast := (if ig_layer st = L2 then remove1 m (ig_mac_multicast st) else ig_mac_multicast st)\<rparr>)"
proof -
  let ?F = "ig_filters st" and ?M = "ig_mac_multicast st"
  show mac: "m \<in> set ?M" if "ig_layer st = L2"
    using assms(1,3,4) that mset_subset_eqD [of "image_mset ip4_multicast_mac (mset (map fst ?F))" "image_mset Inr (mset ?M)" "Inr m"]
    by (force simp: macs_ok_def)
  have "mset (map fst (AList.delete g ?F)) = mset (map fst ?F) - {#g#}"
    using assms(2,3) by (simp add: delete_keys distinct_remove1_removeAll [symmetric])
  then show "macs_ok (st\<lparr>ig_refs := refs, ig_filters := AList.delete g ?F, ig_mac_multicast := (if ig_layer st = L2 then remove1 m ?M else ?M)\<rparr>)"
    using assms mac by (auto simp: macs_ok_def image_mset_Diff simp flip: mset_map intro: mset_diff_mono)
qed

lemma unchanged_ok:
  assumes inv: "mc_inv sy G U st" and refs: "refs_ok G U refs" "\<forall>h. h \<noteq> g \<longrightarrow> map_of refs h = map_of (ig_refs st) h"
    and f: "f = merge_filters (wanted (st\<lparr>ig_refs := refs\<rparr>) g)" "map_of (ig_filters st) g = (if has_reception f then Some f else None)"
  shows "mc_inv sy G U (st\<lparr>ig_refs := refs\<rparr>)"
proof -
  let ?st = "st\<lparr>ig_refs := refs\<rparr>" and ?F = "ig_filters st"
  note i = inv [unfolded mc_inv_def]
  have "wanted ?st h = wanted st h" if "h \<noteq> g" for h using refs(2) that by (simp add: wanted_def)
  moreover have "map_of ?F h = (let f = merge_filters (wanted st h) in if has_reception f then Some f else None)" if "h \<in> G" for h
    using i that by (simp add: filters_ok_def)
  ultimately have "map_of ?F h = (let f = merge_filters (wanted ?st h) in if has_reception f then Some f else None)" if "h \<in> G" for h
    using f that by (cases "h = g") simp_all
  then show ?thesis
    using i refs(1) by (simp add: mc_inv_def filters_ok_def macs_ok_def pending_ok_def mirrored_def v3_only_def queries_ok_def filter_of_def [abs_def] router_def)
qed

lemma mc_recompute_cases:
  "mc_recompute sy now delay g st =
     (let f = merge_filters (wanted st g) in
      if has_reception f then case map_of (ig_filters st) g of None \<Rightarrow> assign_ip4_multicast sy now delay g st
        | Some old \<Rightarrow> if f \<noteq> old then send_igmp_state_change sy now delay g old f (st\<lparr>ig_filters := AList.update g f (ig_filters st)\<rparr>) else (None, st)
      else if map_of (ig_filters st) g \<noteq> None then remove_ip4_multicast sy now delay g st else (None, st))"
  by (simp add: mc_recompute_def Let_def mc_is_joined_def map_of_eq_None_iff split: option.split)

lemma recompute_ok:
  assumes uni: "universe_ok G U" and inv: "mc_inv sy G U st" and g: "g \<in> G"
    and refs: "refs_ok G U refs" "\<forall>h. h \<noteq> g \<longrightarrow> map_of refs h = map_of (ig_refs st) h"
  shows "\<exists>st'. mc_recompute sy now delay g (st\<lparr>ig_refs := refs\<rparr>) = (None, st') \<and> mc_inv sy G U st' \<and> ig_refs st' = refs"
proof -
  let ?st = "st\<lparr>ig_refs := refs\<rparr>" and ?F = "ig_filters st" and ?M = "ig_mac_multicast st"
  define f where "f = merge_filters (wanted ?st g)"
  note i = inv [unfolded mc_inv_def] and settle = settle_ok [OF uni inv g refs]
  have F: "distinct (map fst ?F)" "fst ` set ?F \<subseteq> insert ALL_SYSTEMS G" using i by (auto simp: filters_ok_def)
  obtain m where m: "ip4_multicast_mac g = Inr m" using uni g by (auto simp: universe_ok_def ip4_multicast_mac_def)
  have want: "wanted (st\<lparr>ig_refs := refs, ig_filters := F', ig_mac_multicast := M'\<rparr>) g = wanted ?st g"
    "wanted (st\<lparr>ig_refs := refs, ig_filters := F'\<rparr>) g = wanted ?st g" for F' M' by (simp_all add: wanted_def)
  note run = mc_recompute_cases [of sy now delay g ?st, unfolded f_def [symmetric] Let_def, simplified]
  consider (join) "has_reception f" "map_of ?F g = None" | (change) old where "has_reception f" "map_of ?F g = Some old" "f \<noteq> old"
    | (leave) old where "\<not> has_reception f" "map_of ?F g = Some old" | (same) "map_of ?F g = (if has_reception f then Some f else None)"
    by (cases "map_of ?F g"; cases "has_reception f") auto
  then show ?thesis
  proof cases
    case join
    let ?F' = "AList.update g f ?F" and ?M' = "if ig_layer st = L2 then ?M @ [m] else ?M"
    let ?st1 = "st\<lparr>ig_refs := refs, ig_filters := ?F', ig_mac_multicast := ?M'\<rparr>"
    have new: "g \<notin> fst ` set ?F" using join(2) by (simp add: map_of_eq_None_iff)
    have "ip4_multicast_filter_for g ?st = f"
      using join(1) by (auto simp: ip4_multicast_filter_for_def f_def wanted_def merge_none(1) nonmember_def has_reception_def split: option.splits)
    then have "mc_recompute sy now delay g ?st = send_igmp_state_change sy now delay g (filter_of st g) f ?st1"
      using join m by (cases "ig_layer st") (simp_all add: run assign_ip4_multicast_def assign_mac_multicast_def filter_of_def)
    moreover have "macs_ok ?st1" using i m update_new [OF new] by (auto simp: macs_ok_def)
    moreover have "distinct (map fst ?F')" "fst ` set ?F' \<subseteq> insert ALL_SYSTEMS G"
      using F g new by (force simp: distinct_update update_new [OF new])+
    ultimately show ?thesis using settle [of ?st1 ?M' ?F' f now delay] join(1) want f_def by (simp add: update_conv')
  next
    case (change old)
    let ?F' = "AList.update g f ?F"
    let ?st1 = "st\<lparr>ig_refs := refs, ig_filters := ?F', ig_mac_multicast := ?M\<rparr>"
    have keys: "map fst ?F' = map fst ?F" using change(2) by (simp add: update_keys) (metis map_of_SomeD fst_conv image_eqI)
    have "mc_recompute sy now delay g ?st = send_igmp_state_change sy now delay g (filter_of st g) f ?st1"
      using change by (simp add: run filter_of_def)
    moreover have "macs_ok ?st1" using i keys by (simp add: macs_ok_def del: map_map)
    moreover have "distinct (map fst ?F')" "fst ` set ?F' \<subseteq> insert ALL_SYSTEMS G"
      using F keys by (metis, metis set_map)
    ultimately show ?thesis using settle [of ?st1 ?M ?F' f now delay] change(1) want f_def by (simp add: update_conv')
  next
    case (leave old)
    let ?F' = "AList.delete g ?F" and ?M' = "if ig_layer st = L2 then remove1 m ?M else ?M"
    let ?st1 = "st\<lparr>ig_refs := refs, ig_filters := ?F', ig_mac_multicast := ?M'\<rparr>"
    have f0: "f = nonmember" using leave(1) merge_none(2) by blast
    have mem: "g \<in> set (map fst ?F)" using leave(2) by (metis map_of_SomeD fst_conv image_eqI set_map)
    note mac = macs_drop [OF _ F(1) mem m]
    have "macs_ok ?st1" using mac(2) i by simp
    moreover have "mc_recompute sy now delay g ?st = send_igmp_state_change sy now delay g (filter_of st g) f ?st1"
      using leave m mac(1) i f0 by (cases "ig_layer st") (simp_all add: run remove_ip4_multicast_def remove_mac_multicast_def filter_of_def)
    moreover have "distinct (map fst ?F')" "fst ` set ?F' \<subseteq> insert ALL_SYSTEMS G"
      using F dom_delete_subset [of g ?F] by (auto simp: distinct_delete)
    ultimately show ?thesis using settle [of ?st1 ?M' ?F' f now delay] leave(1) want f_def by (simp add: delete_conv')
  next
    case same
    have "mc_inv sy G U ?st" by (rule unchanged_ok [OF inv refs f_def same])
    then show ?thesis using same by (auto simp: run)
  qed
qed

section \<open>Events\<close>

datatype mc_event =
    Ev_Join ip_address
  | Ev_Leave ip_address
  | Ev_Set_Filter ip_address int mc_filter
  | Ev_Clear_Filter ip_address int
  | Ev_Retransmit
  | Ev_Packet int int "igmp_rx option"
  | Ev_Query_Timer
  | Ev_Group_Timer ip_address

text \<open>An event at a time, with the random delay drawn for a retransmission.\<close>

fun mc_step :: "igmp_sysctl \<Rightarrow> int \<times> int \<times> mc_event \<Rightarrow> igmp_if \<Rightarrow> igmp_if act" where
  "mc_step sy (now, delay, Ev_Join g) st = api_join sy now delay g st"
| "mc_step sy (now, delay, Ev_Leave g) st = api_leave sy now delay g st"
| "mc_step sy (now, delay, Ev_Set_Filter g token f) st = api_set_socket_filter sy now delay g token f st"
| "mc_step sy (now, delay, Ev_Clear_Filter g token) st = api_clear_socket_filter sy now delay g token st"
| "mc_step sy (now, delay, Ev_Retransmit) st = fire_state_change_retransmit sy now delay st"
| "mc_step sy (now, delay, Ev_Packet d ttl msg) st = phrx_igmp sy now d ttl msg st"
| "mc_step sy (now, delay, Ev_Query_Timer) st = igmp_query_deferred_send sy now st"
| "mc_step sy (now, delay, Ev_Group_Timer g) st = igmp_group_query_deferred_send sy now g st"

text \<open>Events over the groups \<open>G\<close> and the sources \<open>U\<close>; no querier of an older version.\<close>

fun event_ok :: "igmp_sysctl \<Rightarrow> ip_address set \<Rightarrow> ip_address set \<Rightarrow> int \<times> int \<times> mc_event \<Rightarrow> bool" where
  "event_ok sy G U (now, delay, Ev_Join g) = (g \<in> G \<or> g = ALL_SYSTEMS \<or> \<not> ip4_is_multicast g)"
| "event_ok sy G U (now, delay, Ev_Set_Filter g token f) = ((g \<in> G \<or> g = ALL_SYSTEMS) \<and> mf_sources f \<subseteq> U)"
| "event_ok sy G U (now, delay, Ev_Packet d ttl (Some (Rx_Query q))) =
     ((ig_force_version sy = Some V3 \<or> iq_version q = V3) \<and> set (iq_sources q) \<subseteq> U)"
| "event_ok sy G U _ = True"

lemma refs_ok_put:
  assumes "refs_ok G U refs" "g \<in> G" "\<forall>f \<in> set (contributors m). mf_sources f \<subseteq> U" "distinct (map fst (gm_socket_filters m))"
  shows "refs_ok G U (AList.update g m refs)"
  using assms set_update_distinct [of refs g m] by (auto simp: refs_ok_def distinct_update)

lemma refs_ok_delete: "refs_ok G U refs \<Longrightarrow> refs_ok G U (AList.delete g refs)"
  by (auto simp: refs_ok_def AList.delete_eq distinct_fst_filter)

lemma membership_sources:
  assumes "refs_ok G U (ig_refs st)"
  shows "f \<in> set (contributors (membership_of g st)) \<Longrightarrow> mf_sources f \<subseteq> U"
    and "distinct (map fst (gm_socket_filters (membership_of g st)))"
  using assms by (fastforce simp: refs_ok_def membership_of_def new_membership_def contributors_def split: option.splits dest: map_of_SomeD)+

text \<open>What the operator and the sockets asked for: a filter for each of them, the operator under \<open>None\<close>.\<close>

definition asks :: "group_membership \<Rightarrow> int option \<Rightarrow> mc_filter option" where
  "asks m k = (case k of None \<Rightarrow> if gm_operator m then Some any_source else None | Some t \<Rightarrow> map_of (gm_socket_filters m) t)"

definition demand :: "igmp_if \<Rightarrow> ip_address \<Rightarrow> int option \<Rightarrow> mc_filter option" where
  "demand st g = (case map_of (ig_refs st) g of None \<Rightarrow> \<lambda>_. None | Some m \<Rightarrow> asks m)"

fun asked :: "mc_event \<Rightarrow> (ip_address \<Rightarrow> int option \<Rightarrow> mc_filter option) \<Rightarrow> ip_address \<Rightarrow> int option \<Rightarrow> mc_filter option" where
  "asked (Ev_Join g) d = (if g = ALL_SYSTEMS then d else d(g := (d g)(None \<mapsto> any_source)))"
| "asked (Ev_Leave g) d = (if g = ALL_SYSTEMS then d else d(g := (d g)(None := None)))"
| "asked (Ev_Set_Filter g t f) d = (if g = ALL_SYSTEMS then d else d(g := (d g)(Some t \<mapsto> f)))"
| "asked (Ev_Clear_Filter g t) d = (if g = ALL_SYSTEMS then d else d(g := (d g)(Some t := None)))"
| "asked _ d = d"

lemma wanted_demand:
  assumes "refs_ok G U (ig_refs st)"
  shows "f \<in> set (wanted st g) \<longleftrightarrow> (\<exists>k. demand st g k = Some f)"
proof (cases "map_of (ig_refs st) g")
  case (Some m)
  have d: "distinct (map fst (gm_socket_filters m))" using assms Some by (auto simp: refs_ok_def dest!: map_of_SomeD)
  have "(\<exists>k. asks m k = Some f) \<longleftrightarrow> asks m None = Some f \<or> (\<exists>t. asks m (Some t) = Some f)" by (metis not_None_eq)
  also have "\<dots> \<longleftrightarrow> f \<in> set (contributors m)" using d by (force simp: asks_def contributors_def image_iff)
  finally show ?thesis using Some by (simp add: wanted_def demand_def)
qed (simp add: wanted_def demand_def)

lemma merge_reception: "has_reception (merge_filters fs) \<longleftrightarrow> (\<exists>f \<in> set fs. has_reception f)"
proof (cases "filter (\<lambda>f. mf_mode f = EXCLUDE) fs")
  case Nil
  then have "\<forall>f \<in> set fs. mf_mode f = INCLUDE" by (metis (mono_tags) filter_empty_conv mc_filter_mode.exhaust)
  then show ?thesis using Nil by (auto simp: merge_filters_def has_reception_def)
next
  case (Cons x xs)
  then have "x \<in> set fs \<and> mf_mode x = EXCLUDE" by (metis (mono_tags) filter_eq_ConsD in_set_conv_decomp)
  then show ?thesis using Cons by (auto simp: merge_filters_def has_reception_def)
qed

lemma demand_cong: "ig_refs st' = ig_refs st \<Longrightarrow> demand st' = demand st"
  by (simp add: demand_def fun_eq_iff)

lemma demand_membership: "demand st g = asks (membership_of g st)"
  by (auto simp: demand_def membership_of_def asks_def new_membership_def split: option.splits)

lemma demand_put: "demand (put_membership g m st) = (demand st)(g := asks m)"
  by (rule ext) (simp add: demand_def put_membership_def update_conv')

lemma demand_drop: "demand (drop_if_unused g m st) = (demand st)(g := asks m)"
proof (cases "\<not> gm_operator m \<and> gm_socket_filters m = []")
  case True
  then have "asks m = (\<lambda>_. None)" by (auto simp: asks_def split: option.split)
  then show ?thesis using True by (intro ext) (simp add: drop_if_unused_def demand_def delete_conv')
qed (auto simp: drop_if_unused_def demand_put)

lemma asks_update [simp]:
  "asks (m\<lparr>gm_operator := True\<rparr>) = (asks m)(None \<mapsto> any_source)"
  "asks (m\<lparr>gm_operator := False\<rparr>) = (asks m)(None := None)"
  "asks (m\<lparr>gm_socket_filters := AList.update t f (gm_socket_filters m)\<rparr>) = (asks m)(Some t \<mapsto> f)"
  "asks (m\<lparr>gm_socket_filters := AList.delete t (gm_socket_filters m)\<rparr>) = (asks m)(Some t := None)"
  by (auto simp: asks_def update_conv' delete_conv' split: option.split)

text \<open>The outcome of an event: the invariant, and what was asked for unless it was refused.\<close>

definition outcome :: "igmp_sysctl \<Rightarrow> ip_address set \<Rightarrow> ip_address set \<Rightarrow> mc_event \<Rightarrow> igmp_if \<Rightarrow> igmp_if act \<Rightarrow> bool" where
  "outcome sy G U ev st r \<longleftrightarrow> mc_inv sy G U (snd r) \<and>
     (if fst r = None then demand (snd r) = asked ev (demand st) else fst r = Some ValueError \<and> demand (snd r) = demand st)"

lemma recompute_outcome:
  assumes "universe_ok G U" "mc_inv sy G U st" "g \<in> G" "refs_ok G U (ig_refs st1)"
    and "st1 = st\<lparr>ig_refs := ig_refs st1\<rparr>" "demand st1 = asked ev (demand st)" "\<forall>h. h \<noteq> g \<longrightarrow> map_of (ig_refs st1) h = map_of (ig_refs st) h"
  shows "outcome sy G U ev st (mc_recompute sy now delay g st1)"
proof -
  obtain st' where "mc_recompute sy now delay g st1 = (None, st')" "mc_inv sy G U st'" "ig_refs st' = ig_refs st1"
    using recompute_ok [OF assms(1-4,7), of now delay] assms(5) by auto
  then show ?thesis using demand_cong [of st' st1] assms(6) by (simp add: outcome_def)
qed

lemma put_outcome:
  assumes "universe_ok G U" "mc_inv sy G U st" "g \<in> G" "\<forall>f \<in> set (contributors m). mf_sources f \<subseteq> U" "distinct (map fst (gm_socket_filters m))"
    and "(demand st)(g := asks m) = asked ev (demand st)"
  shows "outcome sy G U ev st (mc_recompute sy now delay g (put_membership g m st))"
proof (rule recompute_outcome [OF assms(1-3)])
  have r: "refs_ok G U (ig_refs st)" using assms(2) by (simp add: mc_inv_def)
  show "refs_ok G U (ig_refs (put_membership g m st))" using refs_ok_put [OF r assms(3-5)] by (simp add: put_membership_def)
qed (use assms(6) in \<open>simp_all add: demand_put, simp_all add: put_membership_def update_conv'\<close>)

lemma drop_outcome:
  assumes "universe_ok G U" "mc_inv sy G U st" "map_of (ig_refs st) g = Some m" "set (contributors m') \<subseteq> set (contributors m)"
    and "distinct (map fst (gm_socket_filters m)) \<Longrightarrow> distinct (map fst (gm_socket_filters m'))"
    and "(demand st)(g := asks m') = asked ev (demand st)"
  shows "outcome sy G U ev st (mc_recompute sy now delay g (drop_if_unused g m' st))"
proof -
  have r: "refs_ok G U (ig_refs st)" using assms(2) by (simp add: mc_inv_def)
  then have g: "g \<in> G" "\<forall>f \<in> set (contributors m'). mf_sources f \<subseteq> U" "distinct (map fst (gm_socket_filters m'))"
    using assms(3-5) by (fastforce simp: refs_ok_def dest: map_of_SomeD)+
  show ?thesis
  proof (rule recompute_outcome [OF assms(1,2) g(1)])
    show "refs_ok G U (ig_refs (drop_if_unused g m' st))"
      using refs_ok_put [OF r g] refs_ok_delete [OF r] by (simp add: drop_if_unused_def put_membership_def)
  qed (use assms(6) in \<open>simp_all add: demand_drop, simp_all add: drop_if_unused_def put_membership_def update_conv' delete_conv'\<close>)
qed

text \<open>An event about the all-systems group, or one that takes back what was never asked, changes nothing.\<close>

lemma no_outcome: "mc_inv sy G U st \<Longrightarrow> asked ev (demand st) = demand st \<Longrightarrow> outcome sy G U ev st (None, st)"
  by (simp add: outcome_def)

lemma refused: "mc_inv sy G U st \<Longrightarrow> outcome sy G U ev st (Some ValueError, st)"
  by (simp add: outcome_def)

lemma join_outcome:
  assumes "universe_ok G U" "mc_inv sy G U st" "g \<in> G \<or> g = ALL_SYSTEMS \<or> \<not> ip4_is_multicast g"
  shows "outcome sy G U (Ev_Join g) st (api_join sy now delay g st)"
proof -
  have r: "refs_ok G U (ig_refs st)" using assms(2) by (simp add: mc_inv_def)
  have "outcome sy G U (Ev_Join g) st (mc_ref_acquire sy now delay g st)" if "g \<in> G" "g \<noteq> ALL_SYSTEMS"
    using membership_sources [OF r] that
    by (simp add: mc_ref_acquire_def)
      (rule put_outcome [OF assms(1,2)], auto simp: contributors_def any_source_def demand_membership)
  then show ?thesis using assms no_outcome [OF assms(2), of "Ev_Join g"] refused [OF assms(2)]
    by (auto simp: api_join_def mc_ref_acquire_def)
qed

lemma set_filter_outcome:
  assumes "universe_ok G U" "mc_inv sy G U st" "g \<in> G \<or> g = ALL_SYSTEMS" "mf_sources f \<subseteq> U"
  shows "outcome sy G U (Ev_Set_Filter g token f) st (api_set_socket_filter sy now delay g token f st)"
proof -
  have r: "refs_ok G U (ig_refs st)" using assms(2) by (simp add: mc_inv_def)
  let ?m = "membership_of g st"
  let ?m' = "?m\<lparr>gm_socket_filters := AList.update token f (gm_socket_filters ?m)\<rparr>"
  have "snd ` set (AList.update token f (gm_socket_filters ?m)) \<subseteq> insert f (snd ` set (gm_socket_filters ?m))"
    using set_update_subset [of token f "gm_socket_filters ?m"] by auto
  then have "set (contributors ?m') \<subseteq> insert f (set (contributors ?m))" by (auto simp: contributors_def)
  then have "\<forall>f' \<in> set (contributors ?m'). mf_sources f' \<subseteq> U" using membership_sources(1) [OF r] assms(4) by blast
  then have "outcome sy G U (Ev_Set_Filter g token f) st (mc_set_socket_filter sy now delay g token f st)" if "g \<noteq> ALL_SYSTEMS"
    using membership_sources(2) [OF r] that assms(3)
    by (simp add: mc_set_socket_filter_def Let_def) (rule put_outcome [OF assms(1,2)], auto simp: distinct_update demand_membership)
  then show ?thesis using no_outcome [OF assms(2), of "Ev_Set_Filter g token f"] refused [OF assms(2)]
    by (auto simp: api_set_socket_filter_def mc_set_socket_filter_def)
qed

lemma leave_outcome:
  assumes "universe_ok G U" "mc_inv sy G U st"
  shows "outcome sy G U (Ev_Leave g) st (api_leave sy now delay g st)"
proof (cases "map_of (ig_refs st) g")
  case None
  then have "asked (Ev_Leave g) (demand st) = demand st" by (auto simp: demand_def fun_eq_iff)
  then have "outcome sy G U (Ev_Leave g) st (None, st)" by (rule no_outcome [OF assms(2)])
  then show ?thesis using None refused [OF assms(2)] by (simp add: api_leave_def mc_ref_release_def)
next
  case (Some m)
  have "demand st g = asks m" using Some by (simp add: demand_def)
  then have "outcome sy G U (Ev_Leave g) st (mc_ref_release sy now delay g st)" if "g \<noteq> ALL_SYSTEMS"
    using Some that by (simp add: mc_ref_release_def) (rule drop_outcome [OF assms Some], auto simp: contributors_def)
  then show ?thesis using refused [OF assms(2)] by (simp add: api_leave_def)
qed

lemma clear_filter_outcome:
  assumes "universe_ok G U" "mc_inv sy G U st"
  shows "outcome sy G U (Ev_Clear_Filter g token) st (api_clear_socket_filter sy now delay g token st)"
proof (cases "map_of (ig_refs st) g")
  case None
  then have "asked (Ev_Clear_Filter g token) (demand st) = demand st" by (auto simp: demand_def fun_eq_iff)
  then have "outcome sy G U (Ev_Clear_Filter g token) st (None, st)" by (rule no_outcome [OF assms(2)])
  then show ?thesis using None by (cases "g = ALL_SYSTEMS") (simp_all add: api_clear_socket_filter_def mc_clear_socket_filter_def)
next
  case (Some m)
  have "demand st g = asks m" using Some by (simp add: demand_def)
  moreover have "set (AList.delete token (gm_socket_filters m)) \<subseteq> set (gm_socket_filters m)" by (auto simp: AList.delete_eq)
  ultimately have "outcome sy G U (Ev_Clear_Filter g token) st (mc_clear_socket_filter sy now delay g token st)" if "g \<noteq> ALL_SYSTEMS"
    using Some that by (simp add: mc_clear_socket_filter_def)
      (rule drop_outcome [OF assms Some], auto simp: contributors_def distinct_delete)
  then show ?thesis using no_outcome [OF assms(2), of "Ev_Clear_Filter g token"]
    by (auto simp: api_clear_socket_filter_def mc_clear_socket_filter_def)
qed

section \<open>Repetitions and answers\<close>

lemma mc_inv_cong:
  assumes "mc_inv sy G U st" "\<forall>g. g \<noteq> ALL_SYSTEMS \<longrightarrow> router st' g = router st g" "ig_refs st' = ig_refs st" "ig_filters st' = ig_filters st" "ig_layer st' = ig_layer st"
    "ig_mac_multicast st' = ig_mac_multicast st" "pending_ok G U st'" "v3_only sy st'" "queries_ok U st'"
  shows "mc_inv sy G U st'"
proof -
  have "wanted st' = wanted st" "filter_of st' = filter_of st" using assms(3,4) by (auto simp: wanted_def filter_of_def)
  then show ?thesis using assms by (simp add: mc_inv_def filters_ok_def macs_ok_def mirrored_def)
qed

text \<open>Sending what the router knows, or nothing, keeps the invariant; so do the timers of the queries.\<close>

definition only_answers :: "igmp_if \<Rightarrow> igmp_if \<Rightarrow> bool" where
  "only_answers st st' \<longleftrightarrow> (\<forall>g. g \<noteq> ALL_SYSTEMS \<longrightarrow> router st' g = router st g) \<and> ig_refs st' = ig_refs st \<and> ig_filters st' = ig_filters st \<and>
     ig_layer st' = ig_layer st \<and> ig_mac_multicast st' = ig_mac_multicast st \<and> ig_pending st' = ig_pending st \<and>
     ig_v1_until st' = ig_v1_until st \<and> ig_v2_until st' = ig_v2_until st"

lemma answers_trans: "only_answers st st1 \<Longrightarrow> only_answers st1 st2 \<Longrightarrow> only_answers st st2"
  by (simp add: only_answers_def)

lemma mc_inv_answers: "mc_inv sy G U st \<Longrightarrow> only_answers st st' \<Longrightarrow> queries_ok U st' \<Longrightarrow> mc_inv sy G U st'"
  by (rule mc_inv_cong) (auto simp: only_answers_def mc_inv_def pending_ok_def v3_only_def filter_of_def)

lemma sends_fields:
  assumes "sends st rs st'"
  shows "ig_refs st' = ig_refs st" "ig_filters st' = ig_filters st" "ig_layer st' = ig_layer st" "ig_mac_multicast st' = ig_mac_multicast st"
    "ig_pending st' = ig_pending st" "ig_v1_until st' = ig_v1_until st" "ig_v2_until st' = ig_v2_until st"
    "ig_group_query st' = ig_group_query st" "router st' = fold hear_record rs (router st)"
proof -
  have f: "st' = st\<lparr>ig_stats := ig_stats st', ig_sent := ig_sent st'\<rparr>" and r: "router st' = fold hear_record rs (router st)"
    using assms by (simp_all add: sends_def)
  show "router st' = fold hear_record rs (router st)" by (rule r)
  show "ig_refs st' = ig_refs st" "ig_filters st' = ig_filters st" "ig_layer st' = ig_layer st" "ig_mac_multicast st' = ig_mac_multicast st"
    "ig_pending st' = ig_pending st" "ig_v1_until st' = ig_v1_until st" "ig_v2_until st' = ig_v2_until st"
    "ig_group_query st' = ig_group_query st"
    using arg_cong [OF f, of ig_refs] arg_cong [OF f, of ig_filters] arg_cong [OF f, of ig_layer] arg_cong [OF f, of ig_mac_multicast]
      arg_cong [OF f, of ig_pending] arg_cong [OF f, of ig_v1_until] arg_cong [OF f, of ig_v2_until] arg_cong [OF f, of ig_group_query]
    by simp_all
qed

lemma answers_bump: "only_answers st (igmp_bump k st)"
  by (simp add: only_answers_def igmp_bump_def router_def)

lemma emit_known:
  assumes "sum_list (map record_len rs) \<le> 65507"
    and "\<forall>r \<in> set rs. gr_group r = ALL_SYSTEMS \<or> heard r (router st (gr_group r)) = router st (gr_group r)"
  shows "\<exists>st'. emit_v3_report rs st = (None, st') \<and> only_answers st st' \<and> ig_group_query st' = ig_group_query st"
proof -
  obtain st' where st': "emit_v3_report rs st = (None, st')" "sends st rs st'" using emit_v3_report_ok [OF assms(1), of st] by blast
  have "fold hear_record rs (router st) g = router st g" if "g \<noteq> ALL_SYSTEMS" for g
    using assms(2) that by (simp only: hear_records_at) (rule fold_fixed, auto)
  then show ?thesis using st' sends_fields [OF st'(2)] by (auto simp: only_answers_def)
qed

text \<open>The current state of a joined group.\<close>

lemma all_systems_multicast: "ip4_is_multicast ALL_SYSTEMS"
  by (simp add: ip4_is_multicast_def ip_masked_def ALL_SYSTEMS_def)

lemma joined_filter:
  assumes uni: "universe_ok G U" and inv: "mc_inv sy G U st" and g: "map_of (ig_filters st) g = Some f"
  shows "ip4_is_multicast g" "mf_sources f \<subseteq> U" "g \<noteq> ALL_SYSTEMS \<Longrightarrow> router st g = f"
proof -
  note i = inv [unfolded mc_inv_def]
  have mem: "g \<in> insert ALL_SYSTEMS G" using i g by (auto simp: filters_ok_def dest!: map_of_SomeD)
  then show "ip4_is_multicast g" using uni all_systems_multicast by (auto simp: universe_ok_def)
  have f: "filter_of st g = f" using g by (simp add: filter_of_def)
  then show "g \<noteq> ALL_SYSTEMS \<Longrightarrow> router st g = f" using i mem by (simp add: mirrored_def)
  show "mf_sources f \<subseteq> U"
  proof (cases "g = ALL_SYSTEMS")
    case True
    then show ?thesis using i f by (auto simp: filters_ok_def nonmember_def any_source_def)
  next
    case False
    then show ?thesis using mem i f filter_of_sources [of G st U g] refs_sources [of G U st g] by simp
  qed
qed

lemma sources_sub:
  assumes "universe_ok G U" "ss \<subseteq> U"
  shows "sources_ok ss" "8 + 4 * length (sorted_sources ss) \<le> 16 + 4 * card U"
proof -
  have U: "sources_ok U" "finite U" using assms(1) by (auto simp: universe_ok_def sources_ok_def)
  show ok: "sources_ok ss" by (rule sources_ok_subset [OF U(1) assms(2)])
  show "8 + 4 * length (sorted_sources ss) \<le> 16 + 4 * card U"
    using card_mono [OF U(2) assms(2)] sorted_sources_ok(3) [OF ok] by simp
qed

lemma current_state_ok:
  assumes uni: "universe_ok G U" and inv: "mc_inv sy G U st" and g: "map_of (ig_filters st) g = Some f"
  shows "\<exists>r. current_state_record g st = Inr (Some r) \<and> gr_group r = g \<and>
    record_len r \<le> 16 + 4 * card U \<and> (g = ALL_SYSTEMS \<or> heard r (router st g) = router st g)"
proof -
  note j = joined_filter [OF uni inv g]
  note ok = sources_sub(1) [OF uni j(2)]
  let ?r = "\<lparr>gr_type = (if mf_mode f = EXCLUDE then MODE_IS_EXCLUDE else MODE_IS_INCLUDE), gr_group = g, gr_sources = sorted_sources (mf_sources f)\<rparr>"
  have "current_state_record g st = Inr (Some ?r)" using mk_group_record_ok [OF j(1) ok] g by (simp add: current_state_record_def)
  moreover have "heard ?r f = f" by (cases "mf_mode f") (simp_all add: heard_def sorted_sources_ok [OF ok] mc_filter.equality)
  moreover have "g = ALL_SYSTEMS \<or> router st g = f" using j(3) by blast
  ultimately show ?thesis using sources_sub(2) [OF uni j(2)] by (intro exI [of _ ?r]) (auto simp: record_len_def)
qed

lemma sum_bounded:
  assumes "universe_ok G U" "distinct (map k xs)" "k ` set xs \<subseteq> G" "\<forall>x \<in> set xs. f x \<le> 16 + 4 * card U"
  shows "sum_list (map f xs) \<le> 65507"
proof -
  have "sum_list (map f xs) \<le> length (map k xs) * (16 + 4 * card U)" using assms(4) by (induction xs) auto
  also have "\<dots> \<le> card G * (16 + 4 * card U)"
    using assms(1-3) by (intro mult_le_mono1) (metis card_mono distinct_card set_map universe_ok_def)
  also have "\<dots> \<le> 65507" using assms(1) by (simp add: universe_ok_def)
  finally show ?thesis .
qed

lemma v3_report_ok:
  assumes uni: "universe_ok G U" and inv: "mc_inv sy G U st"
  shows "\<exists>st' rs. send_igmp_v3_report st = (None, st') \<and> only_answers st st' \<and> ig_group_query st' = ig_group_query st \<and> emit_v3_report rs st = (None, st') \<and>
    map gr_group rs = reported_groups st \<and> (\<forall>r \<in> set rs. current_state_record (gr_group r) st = Inr (Some r))"
proof -
  have groups: "distinct (reported_groups st)" "set (reported_groups st) \<subseteq> G"
    using inv by (auto simp: mc_inv_def filters_ok_def reported_groups_def)
  define rec where "rec g = (case current_state_record g st of Inr (Some r) \<Rightarrow> r | _ \<Rightarrow> undefined)" for g
  have cur: "current_state_record g st = Inr (Some (rec g)) \<and> gr_group (rec g) = g \<and> record_len (rec g) \<le> 16 + 4 * card U \<and>
      heard (rec g) (router st g) = router st g" if mem: "g \<in> set (reported_groups st)" for g
  proof -
    have "g \<noteq> ALL_SYSTEMS" using mem by (simp add: reported_groups_def)
    moreover obtain f where "map_of (ig_filters st) g = Some f" using mem by (cases "map_of (ig_filters st) g") (auto simp: reported_groups_def map_of_eq_None_iff)
    ultimately show ?thesis using current_state_ok [OF uni inv, of g f] by (auto simp: rec_def)
  qed
  let ?rs = "map rec (reported_groups st)"
  have "map_res (\<lambda>g. current_state_record g st) (reported_groups st) = Inr (map (\<lambda>g. Some (rec g)) (reported_groups st))"
    using cur by (intro map_res_Inr) auto
  then have run: "send_igmp_v3_report st = emit_v3_report ?rs st" by (simp add: send_igmp_v3_report_def comp_def filter_map)
  have "sum_list (map record_len ?rs) \<le> 65507"
    using sum_bounded [OF uni, of "\<lambda>g. g" "reported_groups st" "\<lambda>g. record_len (rec g)"] cur groups by (simp add: comp_def)
  then obtain st' where st': "emit_v3_report ?rs st = (None, st')" "only_answers st st'" "ig_group_query st' = ig_group_query st"
    using emit_known [of ?rs st] cur by auto
  have "map gr_group ?rs = reported_groups st" using cur by (auto intro: map_idI)
  then show ?thesis using run st' cur by (intro exI [of _ st'] exI [of _ ?rs]) auto
qed

text \<open>The retransmission of all pending changes.\<close>

lemma hear_pending:
  assumes "\<forall>(g, p) \<in> set ps. (\<forall>r \<in> set (pc_records p). gr_group r = g) \<and> fold heard (pc_records p) (R g) = R g"
  shows "fold hear_record (concat (map (pc_records \<circ> snd) ps)) R = R"
  using assms
proof (induction ps)
  case (Cons x ps)
  have "fold hear_record (pc_records (snd x)) R = R" 
    using Cons.prems hear_records_one [of "pc_records (snd x)" "fst x" R] by (auto simp: case_prod_beta)
  then show ?case using Cons by simp
qed simp

lemma sum_concat: "sum_list (map f (concat xss)) = sum_list (map (\<lambda>xs. sum_list (map f xs)) xss)"
  by (induction xss) simp_all

lemma fire_ok:
  assumes uni: "universe_ok G U" and inv: "mc_inv sy G U st"
  shows "\<exists>st'. fire_state_change_retransmit sy now delay st = (None, st') \<and> mc_inv sy G U st' \<and> ig_refs st' = ig_refs st"
proof -
  note i = inv [unfolded mc_inv_def]
  let ?st = "st\<lparr>ig_handle := None\<rparr>" and ?P = "ig_pending st"
  let ?rs = "concat (map (pc_records \<circ> snd) ?P)"
  have each: "g \<in> G \<and> records_ok U g (pc_records p) \<and> fold heard (pc_records p) (filter_of st g) = filter_of st g" if "(g, p) \<in> set ?P" for g p
    using i that by (auto simp: pending_ok_def)
  have known: "router ?st g = filter_of st g" if "g \<in> G" for g
  proof -
    have "g \<noteq> ALL_SYSTEMS" using uni that by (auto simp: universe_ok_def)
    then show ?thesis using i that by (simp add: mirrored_def router_def)
  qed
  have "sum_list (map record_len ?rs) = sum_list (map (\<lambda>x. sum_list (map record_len (pc_records (snd x)))) ?P)"
    by (simp add: sum_concat comp_def)
  also have "\<dots> \<le> 65507"
    using sum_bounded [OF uni, of fst ?P "\<lambda>x. sum_list (map record_len (pc_records (snd x)))"] i each
    by (fastforce simp: pending_ok_def records_ok_def)
  finally obtain st1 where st1: "emit_v3_report ?rs ?st = (None, st1)" "sends ?st ?rs st1" using emit_v3_report_ok by blast
  note f = sends_fields [OF st1(2)]
  have hear: "router st1 = router st"
    using f(9) hear_pending [of ?P "router ?st"] each known by (fastforce simp: records_ok_def router_def)
  define P where "P = map (\<lambda>(g, p). (g, p\<lparr>pc_remaining := pc_remaining p - 1\<rparr>)) (filter (\<lambda>(g, p). \<not> pc_remaining p \<le> 1) ?P)"
  define st' where "st' = (if P \<noteq> [] then arm_state_change_retransmit now delay (st1\<lparr>ig_pending := P\<rparr>) else st1\<lparr>ig_pending := P\<rparr>)"
  have run: "fire_state_change_retransmit sy now delay st = (None, st')"
    using st1(1) f(5) v3_mode [of sy ?st now] i by (simp add: fire_state_change_retransmit_def st'_def P_def Let_def v3_only_def)
  have fields: "router st' = router st" "ig_refs st' = ig_refs st" "ig_filters st' = ig_filters st" "ig_layer st' = ig_layer st"
    "ig_mac_multicast st' = ig_mac_multicast st" "ig_v1_until st' = ig_v1_until st" "ig_v2_until st' = ig_v2_until st"
    "ig_group_query st' = ig_group_query st" "ig_pending st' = P"
    using f hear by (simp_all add: st'_def arm_state_change_retransmit_def router_def)
  have "map fst P = map fst (filter (\<lambda>(g, p). \<not> pc_remaining p \<le> 1) ?P)" by (simp add: P_def case_prod_beta comp_def)
  then have "distinct (map fst P)" using i by (simp add: pending_ok_def distinct_map_filter)
  moreover have "filter_of st' = filter_of st" using fields(3) by (simp add: filter_of_def fun_eq_iff)
  ultimately have "pending_ok G U st'" using each by (auto simp: pending_ok_def fields P_def)
  then show ?thesis using run fields i mc_inv_cong [OF inv, of st'] by (auto simp: v3_only_def queries_ok_def)
qed

text \<open>The answer to a query for a group.\<close>

lemma group_answer_ok:
  assumes uni: "universe_ok G U" and inv: "mc_inv sy G U st" and Q: "Q \<subseteq> U"
  shows "\<exists>st'. send_igmp_v3_group_current_state g Q st = (None, st') \<and> only_answers st st' \<and> ig_group_query st' = ig_group_query st"
proof (cases "map_of (ig_filters st) g")
  case None
  then show ?thesis by (simp add: send_igmp_v3_group_current_state_def only_answers_def)
next
  case (Some f)
  note j = joined_filter [OF uni inv Some]
  have emit: "\<exists>st'. emit_v3_report [r] st = (None, st') \<and> only_answers st st' \<and> ig_group_query st' = ig_group_query st"
    if "gr_group r = g" "record_len r \<le> 16 + 4 * card U" "g = ALL_SYSTEMS \<or> heard r (router st g) = router st g" for r
    using emit_known [of "[r]" st] that universe_one [OF uni] by auto
  define ss where "ss = (if mf_mode f = INCLUDE then mf_sources f \<inter> Q else Q - mf_sources f)"
  have sub: "ss \<subseteq> U" using j(2) Q by (auto simp: ss_def)
  let ?r = "\<lparr>gr_type = MODE_IS_INCLUDE, gr_group = g, gr_sources = sorted_sources ss\<rparr>"
  have "set (sorted_sources ss) = ss" by (rule sorted_sources_ok(1) [OF sources_sub(1) [OF uni sub]])
  then have "heard ?r f = f\<lparr>mf_sources := (if mf_mode f = INCLUDE then mf_sources f \<union> ss else mf_sources f - ss)\<rparr>"
    by (simp add: heard_def Let_def)
  also have "\<dots> = f" by (rule mc_filter.equality) (auto simp: ss_def)
  finally have ans: "\<exists>st'. emit_v3_report [?r] st = (None, st') \<and> only_answers st st' \<and> ig_group_query st' = ig_group_query st"
    using j(3) sources_sub(2) [OF uni sub] by (intro emit) (auto simp: record_len_def)
  have rec: "mk_group_record MODE_IS_INCLUDE g (sorted_sources ss) = Inr ?r" by (rule mk_group_record_ok [OF j(1) sources_sub(1) [OF uni sub]])
  show ?thesis
  proof (cases "Q = {}")
    case True
    then show ?thesis using Some current_state_ok [OF uni inv Some] emit by (auto simp: send_igmp_v3_group_current_state_def)
  next
    case False
    then have "send_igmp_v3_group_current_state g Q st = (if ss = {} then (None, st) else emit_v3_report [?r] st)"
      using Some rec by (simp add: send_igmp_v3_group_current_state_def Let_def ss_def [symmetric])
    then show ?thesis using ans by (auto simp: only_answers_def)
  qed
qed

section \<open>Queries\<close>

lemma query_send_ok:
  assumes uni: "universe_ok G U" and inv: "mc_inv sy G U st"
  shows "\<exists>st'. igmp_query_send_now sy now st = (None, st') \<and> only_answers st st' \<and> ig_group_query st' = ig_group_query st"
proof -
  obtain st1 where st1: "send_igmp_v3_report st = (None, st1)" "only_answers st st1" "ig_group_query st1 = ig_group_query st"
    using v3_report_ok [OF uni inv] by blast
  moreover have "igmp_host_compatibility_mode sy now st = V3" using inv by (intro v3_mode) (simp add: mc_inv_def)
  ultimately show ?thesis
    by (simp add: igmp_query_send_now_def Let_def only_answers_def igmp_bump_def router_def)
qed

lemma group_send_ok:
  assumes uni: "universe_ok G U" and inv: "mc_inv sy G U st" and Q: "Q \<subseteq> U"
  shows "\<exists>st'. igmp_group_query_send_now sy now g Q st = (None, st') \<and> only_answers st st' \<and> ig_group_query st' = ig_group_query st"
proof -
  obtain st1 where st1: "send_igmp_v3_group_current_state g Q st = (None, st1)" "only_answers st st1" "ig_group_query st1 = ig_group_query st"
    using group_answer_ok [OF assms] by blast
  moreover have "igmp_host_compatibility_mode sy now st = V3" using inv by (intro v3_mode) (simp add: mc_inv_def)
  ultimately show ?thesis
    by (auto simp: igmp_group_query_send_now_def Let_def only_answers_def igmp_bump_def router_def)
qed

text \<open>An operation that answers, or that moves the timers of the queries, is an event without a demand.\<close>

lemma answer_outcome:
  assumes "mc_inv sy G U st" "only_answers st st'" "queries_ok U st'" "asked ev (demand st) = demand st"
  shows "outcome sy G U ev st (None, st')"
  using assms mc_inv_answers [OF assms(1-3)] demand_cong [of st' st] by (simp add: outcome_def only_answers_def)

lemma queries_ok_parts:
  "queries_ok U st \<Longrightarrow> map_of (ig_group_query st) g = Some p \<Longrightarrow> gq_sources p \<subseteq> U"
  "queries_ok U st \<Longrightarrow> queries_ok U (st\<lparr>ig_group_query := AList.delete g (ig_group_query st)\<rparr>)"
  "queries_ok U st \<Longrightarrow> gq_sources p \<subseteq> U \<Longrightarrow> queries_ok U (st\<lparr>ig_group_query := AList.update g p (ig_group_query st)\<rparr>)"
  using set_update_subset [of g p "ig_group_query st"]
  by (auto simp: queries_ok_def AList.delete_eq dest!: map_of_SomeD)

lemma query_timer_outcome:
  assumes "universe_ok G U" "mc_inv sy G U st"
  shows "outcome sy G U Ev_Query_Timer st (igmp_query_deferred_send sy now st)"
proof -
  let ?st = "st\<lparr>ig_query_at := None, ig_query_handle := None\<rparr>"
  have q: "queries_ok U ?st" using assms(2) by (simp add: mc_inv_def queries_ok_def)
  have a: "only_answers st ?st" by (simp add: only_answers_def router_def)
  note t = a mc_inv_answers [OF assms(2) a q]
  obtain st' where "igmp_query_send_now sy now ?st = (None, st')" "only_answers ?st st'" "ig_group_query st' = ig_group_query ?st"
    using query_send_ok [OF assms(1) t(2)] by blast
  then show ?thesis
    using q answer_outcome [OF assms(2) answers_trans [OF t(1)]] by (simp add: igmp_query_deferred_send_def queries_ok_def)
qed

lemma group_timer_outcome:
  assumes "universe_ok G U" "mc_inv sy G U st"
  shows "outcome sy G U (Ev_Group_Timer g) st (igmp_group_query_deferred_send sy now g st)"
proof -
  let ?st = "st\<lparr>ig_group_query := AList.delete g (ig_group_query st)\<rparr>"
  let ?Q = "case map_of (ig_group_query st) g of Some p \<Rightarrow> gq_sources p | None \<Rightarrow> {}"
  have q: "queries_ok U st" using assms(2) by (simp add: mc_inv_def)
  have a: "only_answers st ?st" by (simp add: only_answers_def router_def)
  note t = a mc_inv_answers [OF assms(2) a queries_ok_parts(2) [OF q]]
  have "?Q \<subseteq> U" using queries_ok_parts(1) [OF q] by (simp split: option.split)
  then obtain st' where "igmp_group_query_send_now sy now g ?Q ?st = (None, st')" "only_answers ?st st'" "ig_group_query st' = ig_group_query ?st"
    using group_send_ok [OF assms(1) t(2)] by blast
  then show ?thesis
    using queries_ok_parts(2) [OF q, of g] answer_outcome [OF assms(2) answers_trans [OF t(1)]]
    by (simp add: igmp_group_query_deferred_send_def queries_ok_def)
qed

lemma schedule_general_ok:
  assumes "universe_ok G U" "mc_inv sy G U st"
  shows "\<exists>st'. igmp_query_schedule_general sy now delay st = (None, st') \<and> only_answers st st' \<and> ig_group_query st' = ig_group_query st"
proof (cases "delay = 0")
  case True
  then show ?thesis using query_send_ok [OF assms] by (simp add: igmp_query_schedule_general_def)
next
  case False
  then show ?thesis by (auto simp: igmp_query_schedule_general_def Let_def only_answers_def igmp_bump_def router_def)
qed

lemma schedule_group_ok:
  assumes "universe_ok G U" "mc_inv sy G U st" "Q \<subseteq> U"
  shows "\<exists>st'. igmp_query_schedule_group sy now g Q delay st = (None, st') \<and> only_answers st st' \<and> queries_ok U st'"
proof -
  have q: "queries_ok U st" using assms(2) by (simp add: mc_inv_def)
  define R where "R = (case map_of (ig_group_query st) g of None \<Rightarrow> Q
    | Some p \<Rightarrow> if Q = {} \<or> gq_sources p = {} then {} else gq_sources p \<union> Q)"
  have R: "R \<subseteq> U" using queries_ok_parts(1) [OF q] assms(3) by (auto simp: R_def split: option.split)
  have send: "\<exists>st'. igmp_group_query_send_now sy now g R st1 = (None, st') \<and> only_answers st st' \<and> queries_ok U st'"
    if a: "only_answers st st1" and i: "mc_inv sy G U st1" for st1
  proof -
    obtain st' where "igmp_group_query_send_now sy now g R st1 = (None, st')" "only_answers st1 st'" "ig_group_query st' = ig_group_query st1"
      using group_send_ok [OF assms(1) i R] by blast
    then show ?thesis using i answers_trans [OF a] by (auto simp: mc_inv_def queries_ok_def)
  qed
  have a: "only_answers st (st\<lparr>ig_group_query := AList.delete g (ig_group_query st)\<rparr>)" by (simp add: only_answers_def router_def)
  note del = a mc_inv_answers [OF assms(2) a queries_ok_parts(2) [OF q]]
  have self: "only_answers st st" by (simp add: only_answers_def)
  have put: "queries_ok U st'" if "ig_group_query st' = AList.update g p (ig_group_query st)" "gq_sources p \<subseteq> U" for st' p
    using queries_ok_parts(3) [OF q that(2)] that(1) by (simp add: queries_ok_def)
  have quiet: "only_answers st (st\<lparr>ig_group_query := q', ig_stats := s\<rparr>)" "only_answers st (st\<lparr>ig_group_query := q'\<rparr>)"
    "only_answers st (st\<lparr>ig_stats := s, ig_group_query := q'\<rparr>)" for q' s by (simp_all add: only_answers_def router_def)
  show ?thesis
  proof (cases "map_of (ig_group_query st) g")
    case None
    then show ?thesis
      using q self send [OF self assms(2)] R by (auto simp: igmp_query_schedule_group_def Let_def R_def igmp_bump_def intro!: quiet put)
  next
    case (Some p)
    then show ?thesis
      using q self send [OF del] R
      by (simp add: igmp_query_schedule_group_def Let_def R_def [symmetric, simplified Some option.case] igmp_bump_def)
        (auto intro!: quiet put)
  qed
qed

lemma compatibility_ok:
  assumes "mc_inv sy G U st" "ig_force_version sy = Some V3 \<or> iq_version q = V3"
  shows "mc_inv sy G U (igmp_update_compatibility_mode sy now q st)" "ig_refs (igmp_update_compatibility_mode sy now q st) = ig_refs st"
proof -
  note i = assms(1) [unfolded mc_inv_def]
  obtain a b where run: "igmp_update_compatibility_mode sy now q st = st\<lparr>ig_v1_until := a, ig_v2_until := b\<rparr>"
    and v3: "ig_force_version sy = Some V3 \<or> (a = ig_v1_until st \<and> b = ig_v2_until st)"
  proof (cases "iq_version q = V3")
    case True
    then show ?thesis using that [where a = "ig_v1_until st" and b = "ig_v2_until st"] by (simp add: igmp_update_compatibility_mode_def)
  next
    case False
    let ?t = "Some (now + (ig_robustness sy * ig_query_interval sy + (if iq_version q = V2 then iq_max_response_time q else 100) * 100))"
    have f: "ig_force_version sy = Some V3" using assms(2) False by simp
    then have "igmp_update_compatibility_mode sy now q st =
        st\<lparr>ig_v1_until := if iq_version q = V1 then ?t else ig_v1_until st, ig_v2_until := if iq_version q = V1 then ig_v2_until st else ?t\<rparr>"
      using False by (simp add: igmp_update_compatibility_mode_def igmp_host_compatibility_mode_def Let_def)
    then show ?thesis using that f by blast
  qed
  have "v3_only sy (st\<lparr>ig_v1_until := a, ig_v2_until := b\<rparr>)" using i v3 by (auto simp: v3_only_def)
  then have "mc_inv sy G U (st\<lparr>ig_v1_until := a, ig_v2_until := b\<rparr>)"
    using i by (intro mc_inv_cong [OF assms(1)]) (simp_all add: router_def queries_ok_def pending_ok_def filter_of_def)
  then show "mc_inv sy G U (igmp_update_compatibility_mode sy now q st)" by (simp add: run)
  show "ig_refs (igmp_update_compatibility_mode sy now q st) = ig_refs st" by (simp add: run)
qed

lemma bump_ok: "mc_inv sy G U st \<Longrightarrow> mc_inv sy G U (igmp_bump k st)" "ig_refs (igmp_bump k st) = ig_refs st"
  using mc_inv_answers [OF _ answers_bump, of sy G U st k] by (auto simp: mc_inv_def queries_ok_def igmp_bump_def)

lemma packet_outcome:
  assumes uni: "universe_ok G U" and inv: "mc_inv sy G U st" and ok: "event_ok sy G U (now, delay', Ev_Packet delay ttl msg)"
  shows "outcome sy G U (Ev_Packet delay ttl msg) st (phrx_igmp sy now delay ttl msg st)"
proof -
  have silent: "outcome sy G U (Ev_Packet delay ttl msg) st (None, st')" if "mc_inv sy G U st'" "ig_refs st' = ig_refs st" for st'
    using that demand_cong [of st' st] by (simp add: outcome_def)
  consider (dropped) "ttl \<noteq> 1 \<or> msg = None" | (query) q where "ttl = 1" "msg = Some (Rx_Query q)"
    | (report) m where "ttl = 1" "msg = Some m" "\<forall>q. m \<noteq> Rx_Query q"
    by (cases msg) auto
  then show ?thesis
  proof cases
    case dropped
    then have "\<exists>k. phrx_igmp sy now delay ttl msg st = (None, igmp_bump k (igmp_bump ''igmp__pre_parse'' st))"
      by (auto simp: phrx_igmp_def Let_def)
    then show ?thesis using inv by (auto simp: bump_ok intro!: silent)
  next
    case report
    let ?st = "igmp_bump ''igmp__membership_report'' (igmp_bump ''igmp__pre_parse'' st)"
    have pre: "mc_inv sy G U ?st" "ig_refs ?st = ig_refs st" using inv by (simp_all add: bump_ok)
    have sup: "mc_inv sy G U (?st\<lparr>ig_suppressed := X\<rparr>)" for X
      using pre(1) by (intro mc_inv_answers [OF pre(1)]) (auto simp: only_answers_def router_def mc_inv_def queries_ok_def)
    obtain st' where "phrx_igmp__report sy now m (igmp_bump ''igmp__pre_parse'' st) = st'" "mc_inv sy G U st'" "ig_refs st' = ig_refs st"
      using pre sup by (simp add: phrx_igmp__report_def Let_def bump_ok split: option.split)
    moreover have "phrx_igmp sy now delay ttl msg st = (None, phrx_igmp__report sy now m (igmp_bump ''igmp__pre_parse'' st))"
      using report by (cases m) (auto simp: phrx_igmp_def)
    ultimately show ?thesis using silent by simp
  next
    case (query q)
    let ?st = "igmp_update_compatibility_mode sy now q (igmp_bump ''igmp__membership_query'' (igmp_bump ''igmp__pre_parse'' st))"
    have v: "ig_force_version sy = Some V3 \<or> iq_version q = V3" and Q: "set (iq_sources q) \<subseteq> U" using ok query by auto
    have i: "mc_inv sy G U ?st" "ig_refs ?st = ig_refs st"
      using compatibility_ok [OF bump_ok(1) [OF bump_ok(1) [OF inv]] v] by (simp_all add: bump_ok(2))
    obtain st' where st': "phrx_igmp__membership_query sy now delay q (igmp_bump ''igmp__pre_parse'' st) = (None, st')" "only_answers ?st st'" "queries_ok U st'"
    proof (cases "is_general_query q")
      case True
      then show ?thesis
        using that schedule_general_ok [OF uni i(1), of now delay] i(1) by (auto simp: phrx_igmp__membership_query_def mc_inv_def queries_ok_def)
    next
      case False
      then show ?thesis
        using that schedule_group_ok [OF uni i(1) Q, of now "iq_group q" delay] by (auto simp: phrx_igmp__membership_query_def)
    qed
    have "ig_refs st' = ig_refs st" using st'(2) i(2) by (simp add: only_answers_def)
    moreover have "phrx_igmp sy now delay ttl msg st = (None, st')" using st'(1) query by (simp add: phrx_igmp_def)
    ultimately show ?thesis using silent [OF mc_inv_answers [OF i(1) st'(2,3)]] by simp
  qed
qed

section \<open>Runs\<close>

lemma fire_outcome:
  assumes "universe_ok G U" "mc_inv sy G U st"
  shows "outcome sy G U Ev_Retransmit st (fire_state_change_retransmit sy now delay st)"
proof -
  obtain st' where "fire_state_change_retransmit sy now delay st = (None, st')" "mc_inv sy G U st'" "ig_refs st' = ig_refs st"
    using fire_ok [OF assms] by blast
  then show ?thesis using demand_cong [of st' st] by (simp add: outcome_def)
qed

lemma step_outcome:
  assumes "universe_ok G U" "mc_inv sy G U st" "event_ok sy G U (now, delay, ev)"
  shows "outcome sy G U ev st (mc_step sy (now, delay, ev) st)"
proof (cases ev)
  case (Ev_Join g)
  then show ?thesis using join_outcome [OF assms(1,2)] assms(3) by simp
next
  case (Ev_Leave g)
  then show ?thesis using leave_outcome [OF assms(1,2)] by simp
next
  case (Ev_Set_Filter g t f)
  then show ?thesis using set_filter_outcome [OF assms(1,2)] assms(3) by simp
next
  case (Ev_Clear_Filter g t)
  then show ?thesis using clear_filter_outcome [OF assms(1,2)] by simp
next
  case Ev_Retransmit
  then show ?thesis using fire_outcome [OF assms(1,2)] by simp
next
  case (Ev_Packet d ttl msg)
  then show ?thesis using packet_outcome [OF assms(1,2), of now delay d ttl msg] assms(3) by simp
next
  case Ev_Query_Timer
  then show ?thesis using query_timer_outcome [OF assms(1,2)] by simp
next
  case (Ev_Group_Timer g)
  then show ?thesis using group_timer_outcome [OF assms(1,2)] by simp
qed

text \<open>A run of the interface beside the record of what was asked for and of the errors it returned.\<close>

definition mc_run_step :: "igmp_sysctl \<Rightarrow> int \<times> int \<times> mc_event \<Rightarrow>
    igmp_if \<times> (ip_address \<Rightarrow> int option \<Rightarrow> mc_filter option) \<times> py_error option list \<Rightarrow>
    igmp_if \<times> (ip_address \<Rightarrow> int option \<Rightarrow> mc_filter option) \<times> py_error option list" where
  "mc_run_step sy e = (\<lambda>(st, d, errs). let (err, st') = mc_step sy e st in
     (st', if err = None then asked (snd (snd e)) d else d, errs @ [err]))"

definition mc_run_inv :: "igmp_sysctl \<Rightarrow> ip_address set \<Rightarrow> ip_address set \<Rightarrow>
    igmp_if \<times> (ip_address \<Rightarrow> int option \<Rightarrow> mc_filter option) \<times> py_error option list \<Rightarrow> bool" where
  "mc_run_inv sy G U = (\<lambda>(st, d, errs). universe_ok G U \<and> mc_inv sy G U st \<and> demand st = d \<and> set errs \<subseteq> {None, Some ValueError})"

interpretation mc_run: inv_machine "mc_run_step sy" "event_ok sy G U" "mc_run_inv sy G U" for sy G U
proof
  fix x and e :: "int \<times> int \<times> mc_event"
  assume inv: "mc_run_inv sy G U x" and ok: "event_ok sy G U e"
  obtain st d errs where x: "x = (st, d, errs)" by (cases x)
  obtain now delay ev where e: "e = (now, delay, ev)" by (cases e)
  obtain err st' where run: "mc_step sy e st = (err, st')" by (cases "mc_step sy e st")
  have "outcome sy G U ev st (err, st')"
    using step_outcome [of G U sy st now delay ev] inv ok run by (simp add: x e mc_run_inv_def)
  then show "mc_run_inv sy G U (mc_run_step sy e x)"
    using inv run by (auto simp: x e mc_run_inv_def mc_run_step_def outcome_def split: if_splits)
qed

lemma start_ok:
  assumes "universe_ok G U" "ig_force_version sy = None \<or> ig_force_version sy = Some V3"
  shows "\<exists>st. start_if sy now delay layer addrs stats = (None, st) \<and> mc_run_inv sy G U (st, \<lambda>_ _. None, [])"
proof -
  obtain m where m: "ip4_multicast_mac ALL_SYSTEMS = Inr m" using all_systems_multicast by (simp add: ip4_multicast_mac_def)
  let ?st = "(new_if layer addrs stats)\<lparr>ig_filters := [(ALL_SYSTEMS, any_source)], ig_mac_multicast := (if layer = L3 then [] else [m])\<rparr>"
  have "start_if sy now delay layer addrs stats = (None, ?st)"
    by (simp add: start_if_def assign_ip4_multicast_def ip4_multicast_filter_for_def new_if_def assign_mac_multicast_def m send_igmp_state_change_def)
  moreover have "mc_inv sy G U ?st"
    using assms m by (auto simp: mc_inv_def new_if_def refs_ok_def filters_ok_def macs_ok_def pending_ok_def mirrored_def v3_only_def queries_ok_def
        filter_of_def router_def wanted_def merge_none universe_ok_def has_reception_def nonmember_def)
  moreover have "demand ?st = (\<lambda>_ _. None)" by (simp add: demand_def new_if_def fun_eq_iff)
  ultimately show ?thesis using assms(1) by (simp add: mc_run_inv_def)
qed

text \<open>
  C14. On an interface that speaks IGMPv3, after any sequence of joins, leaves, changes of socket filters,
  received IGMP packets and timer events over groups and sources that fit one report, the only error an
  operation raises is the refusal of a request, and a router that heard the reports of the interface forwards a
  source for a group exactly if the operator or some socket asked for that source; the interface is a member of
  the group exactly if someone wants traffic of it. The reports are what the interface hands to its IPv4 sender.
\<close>

theorem router_learns_the_union:
  assumes "universe_ok G U" "ig_force_version sy = None \<or> ig_force_version sy = Some V3"
    and "list_all (event_ok sy G U) evs" "g \<in> G"
  shows "\<exists>st0 st d errs. start_if sy now delay layer addrs stats = (None, st0) \<and>
    fold (mc_run_step sy) evs (st0, \<lambda>_ _. None, []) = (st, d, errs) \<and> set errs \<subseteq> {None, Some ValueError} \<and>
    (\<forall>s. filter_allows (router st g) s \<longleftrightarrow> (\<exists>k f. d g k = Some f \<and> filter_allows f s)) \<and>
    (mc_is_joined g st \<longleftrightarrow> (\<exists>k f. d g k = Some f \<and> has_reception f))"
proof -
  obtain st0 where st0: "start_if sy now delay layer addrs stats = (None, st0)" "mc_run_inv sy G U (st0, \<lambda>_ _. None, [])"
    using start_ok [OF assms(1,2)] by blast
  obtain st d errs where run: "fold (mc_run_step sy) evs (st0, \<lambda>_ _. None, []) = (st, d, errs)" by (metis prod_cases3)
  have inv: "mc_inv sy G U st" "demand st = d" "set errs \<subseteq> {None, Some ValueError}"
    using mc_run.run_inv [OF st0(2) assms(3)] run by (simp_all add: mc_run_inv_def)
  note i = inv(1) [unfolded mc_inv_def]
  have f: "filter_of st g = merge_filters (wanted st g)" using i assms(4) by (blast intro: filter_of_sources)
  have w: "f \<in> set (wanted st g) \<longleftrightarrow> (\<exists>k. d g k = Some f)" for f using wanted_demand [of G U st f g] i inv(2) by blast
  have "g \<noteq> ALL_SYSTEMS" using assms(1,4) by (auto simp: universe_ok_def)
  then have "router st g = merge_filters (wanted st g)" using i assms(4) f by (simp add: mirrored_def)
  moreover have "mc_is_joined g st \<longleftrightarrow> map_of (ig_filters st) g \<noteq> None" by (simp add: mc_is_joined_def map_of_eq_None_iff)
  moreover have "map_of (ig_filters st) g \<noteq> None \<longleftrightarrow> has_reception (merge_filters (wanted st g))"
    using i assms(4) by (simp add: filters_ok_def Let_def)
  ultimately have "filter_allows (router st g) s \<longleftrightarrow> (\<exists>f \<in> set (wanted st g). filter_allows f s)"
    "mc_is_joined g st \<longleftrightarrow> (\<exists>f \<in> set (wanted st g). has_reception f)" for s
    by (simp_all add: merge_allows merge_reception)
  then have "filter_allows (router st g) s \<longleftrightarrow> (\<exists>k f. d g k = Some f \<and> filter_allows f s)"
    "mc_is_joined g st \<longleftrightarrow> (\<exists>k f. d g k = Some f \<and> has_reception f)" for s
    using w by blast+
  then show ?thesis using st0(1) run inv(3) by blast
qed

section \<open>Deadlines of the answers\<close>

text \<open>The armed timers and the recorded deadlines agree.\<close>

definition timers_ok :: "igmp_if \<Rightarrow> bool" where
  "timers_ok st \<longleftrightarrow> ig_query_handle st = ig_query_at st \<and> (\<forall>(g, p) \<in> set (ig_group_query st). gq_handle p = gq_respond_at_ms p)"

text \<open>A timer is armed that fires by a time, with a response that covers a query.\<close>

definition covers_query :: "igmp_query \<Rightarrow> int \<Rightarrow> igmp_if \<Rightarrow> bool" where
  "covers_query q t st \<longleftrightarrow>
     (\<exists>t'. ig_query_handle st = Some t' \<and> t' \<le> t) \<or>
     (\<not> is_general_query q \<and> (\<exists>p. map_of (ig_group_query st) (iq_group q) = Some p \<and> gq_handle p \<le> t \<and>
        (gq_sources p = {} \<or> (iq_sources q \<noteq> [] \<and> set (iq_sources q) \<subseteq> gq_sources p))))"

text \<open>A result is that of answering a query at once, from the memberships of a state.\<close>

definition answers_at_once :: "igmp_sysctl \<Rightarrow> int \<Rightarrow> igmp_query \<Rightarrow> igmp_if \<Rightarrow> igmp_if act \<Rightarrow> bool" where
  "answers_at_once sy now q st out \<longleftrightarrow>
     (\<exists>st1 S. ig_filters st1 = ig_filters st \<and> (S = {} \<or> (iq_sources q \<noteq> [] \<and> set (iq_sources q) \<subseteq> S)) \<and>
        out = (if is_general_query q then igmp_query_send_now sy now st1
               else igmp_group_query_send_now sy now (iq_group q) S st1))"

lemma timers_ok_update:
  assumes "timers_ok st" "gq_handle p = gq_respond_at_ms p"
  shows "timers_ok (st\<lparr>ig_group_query := AList.update g p (ig_group_query st)\<rparr>)"
  using assms set_update_subset [of g p "ig_group_query st"] by (fastforce simp: timers_ok_def)

text \<open>A response that is sent at once leaves the timers alone, in every mode and with every outcome.\<close>

lemma report_timers: "timers_ok (snd (emit_v3_report rs st)) \<longleftrightarrow> timers_ok st"
  by (cases "sum_list (map record_len rs) \<le> 65507")
    (simp_all add: emit_v3_report_def emit_igmp_def igmp_bump_def timers_ok_def passert_def Let_def)

lemma membership_report_timers: "timers_ok (emit_group_membership_report g v st) \<longleftrightarrow> timers_ok st"
  by (simp add: emit_group_membership_report_def emit_igmp_def igmp_bump_def timers_ok_def Let_def)

lemma leave_timers: "timers_ok (emit_v2_leave g st) \<longleftrightarrow> timers_ok st"
  by (simp add: emit_v2_leave_def emit_igmp_def igmp_bump_def timers_ok_def Let_def)

lemma and_then_timers:
  "(\<And>st'. timers_ok (snd (f st')) \<longleftrightarrow> timers_ok st') \<Longrightarrow> timers_ok (snd (and_then m f)) \<longleftrightarrow> timers_ok (snd m)"
  by (simp add: and_then_def split: prod.split option.split)

lemma with_res_timers:
  "(\<And>x. timers_ok (snd (f x)) \<longleftrightarrow> timers_ok st) \<Longrightarrow> timers_ok (snd (with_res r st f)) \<longleftrightarrow> timers_ok st"
  by (cases r) simp_all

lemma query_send_timers: "timers_ok (snd (igmp_query_send_now sy now st)) \<longleftrightarrow> timers_ok st"
proof -
  have reports: "timers_ok (fold (\<lambda>g st. if g \<notin> ig_suppressed st then emit_group_membership_report g v st else st) gs st) \<longleftrightarrow> timers_ok st" for gs v
    by (induction gs arbitrary: st) (simp_all add: membership_report_timers)
  have "timers_ok (snd (send_igmp_v3_report st)) \<longleftrightarrow> timers_ok st"
    unfolding send_igmp_v3_report_def by (rule with_res_timers) (rule report_timers)
  then show ?thesis
    unfolding igmp_query_send_now_def Let_def by (subst and_then_timers) (simp add: igmp_bump_def timers_ok_def, simp add: reports)
qed

lemma group_send_timers: "timers_ok (snd (igmp_group_query_send_now sy now g ss st)) \<longleftrightarrow> timers_ok st"
proof -
  have "timers_ok (snd (send_igmp_v3_group_current_state g ss st)) \<longleftrightarrow> timers_ok st"
    unfolding send_igmp_v3_group_current_state_def Let_def
    by (simp split: option.split add: with_res_timers report_timers)
  then have "timers_ok (snd (and_then
      (if v = V3 then send_igmp_v3_group_current_state g ss st else (None, emit_group_membership_report g v st))
      (\<lambda>st. (None, igmp_bump k st)))) \<longleftrightarrow> timers_ok st" for v k
    by (subst and_then_timers) (simp add: igmp_bump_def timers_ok_def, simp add: membership_report_timers)
  then show ?thesis by (simp add: igmp_group_query_send_now_def Let_def)
qed

lemma compatibility_timers:
  assumes "timers_ok st"
  shows "timers_ok (igmp_update_compatibility_mode sy now q (igmp_bump k (igmp_bump k' st)))"
    "ig_filters (igmp_update_compatibility_mode sy now q (igmp_bump k (igmp_bump k' st))) = ig_filters st"
  using assms by (simp_all add: igmp_update_compatibility_mode_def igmp_cancel_pending_timers_def cancel_state_change_retransmits_def
      igmp_bump_def timers_ok_def Let_def)

lemma general_scheduled:
  assumes "timers_ok st" "is_general_query q"
    and "out = igmp_query_schedule_general sy now delay st"
  shows "timers_ok (snd out)" "0 < delay \<Longrightarrow> fst out = None \<and> covers_query q (now + delay) (snd out)"
    "delay = 0 \<Longrightarrow> answers_at_once sy now q st out"
proof -
  show "timers_ok (snd out)"
    using assms(1) by (cases "delay = 0")
      (simp add: assms(3) igmp_query_schedule_general_def query_send_timers,
       auto simp: assms(3) igmp_query_schedule_general_def timers_ok_def igmp_bump_def Let_def)
  show "0 < delay \<Longrightarrow> fst out = None \<and> covers_query q (now + delay) (snd out)"
    using assms(1) by (cases "ig_query_at st")
      (auto simp: assms(3) igmp_query_schedule_general_def covers_query_def igmp_bump_def Let_def timers_ok_def)
  show "delay = 0 \<Longrightarrow> answers_at_once sy now q st out"
    using assms(2) by (auto simp: assms(3) igmp_query_schedule_general_def answers_at_once_def)
qed

lemma group_scheduled:
  assumes "timers_ok st" "\<not> is_general_query q"
    and "out = igmp_query_schedule_group sy now (iq_group q) (set (iq_sources q)) delay st"
  shows "timers_ok (snd out)" "0 < delay \<Longrightarrow> fst out = None \<and> covers_query q (now + delay) (snd out)"
    "delay = 0 \<Longrightarrow> covers_query q now (snd out) \<or> answers_at_once sy now q st out"
proof -
  let ?g = "iq_group q"
  note defs = assms(3) igmp_query_schedule_group_def covers_query_def igmp_bump_def Let_def
  have handle: "ig_query_handle st = ig_query_at st" "map_of (ig_group_query st) ?g = Some p \<Longrightarrow> gq_handle p = gq_respond_at_ms p" for p
    using assms(1) by (auto simp: timers_ok_def dest!: map_of_SomeD)
  have stats: "timers_ok (st'\<lparr>ig_stats := s\<rparr>) \<longleftrightarrow> timers_ok st'" for st' s by (simp add: timers_ok_def)
  have at_once: "answers_at_once sy now q st (igmp_group_query_send_now sy now ?g S st1)"
    if "ig_filters st1 = ig_filters st" "S = {} \<or> (iq_sources q \<noteq> [] \<and> set (iq_sources q) \<subseteq> S)" for S st1
    using that assms(2) by (auto simp: answers_at_once_def)
  have deleted: "timers_ok (st\<lparr>ig_group_query := AList.delete ?g (ig_group_query st)\<rparr>)"
    using assms(1) by (auto simp: timers_ok_def AList.delete_eq)
  show "timers_ok (snd out)"
    using assms(1) deleted handle
    by (cases "map_of (ig_group_query st) ?g") (auto simp: defs group_send_timers stats intro!: timers_ok_update)
  show "0 < delay \<Longrightarrow> fst out = None \<and> covers_query q (now + delay) (snd out)"
    using assms(2) handle by (cases "map_of (ig_group_query st) ?g"; cases "ig_query_at st") (auto simp: defs update_conv')
  show "delay = 0 \<Longrightarrow> covers_query q now (snd out) \<or> answers_at_once sy now q st out"
    using assms(2) handle at_once by (cases "map_of (ig_group_query st) ?g"; cases "ig_query_at st") (auto simp: defs update_conv')
qed

text \<open>Every event keeps the agreement of timers and deadlines.\<close>

lemma emit_change_timers: "timers_ok (snd (emit_state_change sy now g t st)) \<longleftrightarrow> timers_ok st"
  by (simp add: emit_state_change_def Let_def with_res_timers report_timers membership_report_timers leave_timers)

lemma state_change_timers: "timers_ok (snd (send_igmp_state_change sy now delay g old new st)) \<longleftrightarrow> timers_ok st"
proof -
  have ends: "timers_ok (st\<lparr>ig_pending := ps\<rparr>) \<longleftrightarrow> timers_ok st" "timers_ok (arm_state_change_retransmit now delay st) \<longleftrightarrow> timers_ok st" for ps st
    by (simp_all add: timers_ok_def arm_state_change_retransmit_def)
  show ?thesis
    unfolding send_igmp_state_change_def Let_def
    by (simp add: with_res_timers and_then_timers report_timers emit_change_timers ends split: option.split)
qed

lemma recompute_timers: "timers_ok (snd (mc_recompute sy now delay g st)) \<longleftrightarrow> timers_ok st"
proof -
  have fields: "timers_ok (st\<lparr>ig_filters := fs\<rparr>) \<longleftrightarrow> timers_ok st" "timers_ok (st\<lparr>ig_mac_multicast := ms\<rparr>) \<longleftrightarrow> timers_ok st" for fs ms st
    by (simp_all add: timers_ok_def)
  have macs: "timers_ok (snd (assign_mac_multicast g st)) \<longleftrightarrow> timers_ok st" "timers_ok (snd (remove_mac_multicast g st)) \<longleftrightarrow> timers_ok st" for st
    by (simp_all add: assign_mac_multicast_def remove_mac_multicast_def with_res_timers fields)
  show ?thesis
    by (simp add: mc_recompute_def assign_ip4_multicast_def remove_ip4_multicast_def Let_def and_then_timers state_change_timers macs fields
        split: option.split)
qed

lemma membership_timers:
  "timers_ok (put_membership g m st) \<longleftrightarrow> timers_ok st" "timers_ok (drop_if_unused g m st) \<longleftrightarrow> timers_ok st"
  by (simp_all add: put_membership_def drop_if_unused_def timers_ok_def)

lemma packet_timers:
  assumes "timers_ok st"
  shows "timers_ok (snd (phrx_igmp sy now delay ttl msg st))"
proof -
  have bump: "timers_ok (igmp_bump k st') \<longleftrightarrow> timers_ok st'" for k st' by (simp add: igmp_bump_def timers_ok_def)
  have report: "timers_ok (phrx_igmp__report sy now m (igmp_bump k st))" for k m
    using assms by (cases m) (simp_all add: phrx_igmp__report_def Let_def igmp_bump_def timers_ok_def)
  have query: "timers_ok (snd (phrx_igmp__membership_query sy now delay q (igmp_bump k st)))" for q k
    using general_scheduled(1) [OF compatibility_timers(1) [OF assms] _ refl] group_scheduled(1) [OF compatibility_timers(1) [OF assms] _ refl]
    by (simp add: phrx_igmp__membership_query_def Let_def)
  show ?thesis
    using assms bump report query by (auto simp: phrx_igmp_def Let_def split: option.split igmp_rx.split)
qed

lemma coarse_timers: "timers_ok (snd (emit_coarse sy now ps st)) \<longleftrightarrow> timers_ok st"
proof (induction ps arbitrary: st)
  case (Cons x ps)
  obtain g p where x: "x = (g, p)" by (cases x)
  show ?case unfolding x emit_coarse.simps by (subst and_then_timers [OF Cons]) (cases "pc_coarse_type p"; simp add: emit_change_timers)
qed simp

lemma step_timers:
  assumes "timers_ok st"
  shows "timers_ok (snd (mc_step sy (now, delay, ev) st))"
proof (cases ev)
  case Ev_Retransmit
  have fields: "timers_ok (st\<lparr>ig_handle := h\<rparr>) \<longleftrightarrow> timers_ok st" "timers_ok (st\<lparr>ig_pending := ps\<rparr>) \<longleftrightarrow> timers_ok st"
    "timers_ok (arm_state_change_retransmit now delay st) \<longleftrightarrow> timers_ok st" for h ps st
    by (simp_all add: timers_ok_def arm_state_change_retransmit_def)
  have "timers_ok (snd (mc_step sy (now, delay, ev) st)) \<longleftrightarrow> timers_ok (st\<lparr>ig_handle := None\<rparr>)"
    unfolding Ev_Retransmit mc_step.simps fire_state_change_retransmit_def Let_def
    by (subst and_then_timers) (simp add: fields, simp add: report_timers coarse_timers)
  then show ?thesis using assms fields(1) by simp
next
  case (Ev_Packet d ttl msg)
  then show ?thesis using packet_timers [OF assms] by simp
next
  case Ev_Query_Timer
  then show ?thesis using assms by (simp add: igmp_query_deferred_send_def query_send_timers) (simp add: timers_ok_def)
next
  case (Ev_Group_Timer g)
  then show ?thesis
    using assms by (simp add: igmp_group_query_deferred_send_def group_send_timers) (auto simp: timers_ok_def AList.delete_eq)
qed (use assms in \<open>simp_all add: api_join_def api_leave_def api_set_socket_filter_def api_clear_socket_filter_def mc_ref_acquire_def
      mc_ref_release_def mc_set_socket_filter_def mc_clear_socket_filter_def Let_def recompute_timers membership_timers split: option.split\<close>)

interpretation mc_timers: inv_machine "\<lambda>e st. snd (mc_step sy e st)" "\<lambda>_. True" timers_ok for sy
proof
  fix st :: igmp_if and e :: "int \<times> int \<times> mc_event"
  assume "timers_ok st"
  then show "timers_ok (snd (mc_step sy e st))" by (cases e) (simp add: step_timers)
qed

lemma start_timers: "timers_ok (snd (start_if sy now delay layer addrs stats))"
proof -
  have "timers_ok (st\<lparr>ig_filters := fs\<rparr>) \<longleftrightarrow> timers_ok st" "timers_ok (st\<lparr>ig_mac_multicast := ms\<rparr>) \<longleftrightarrow> timers_ok st" for fs ms st
    by (simp_all add: timers_ok_def)
  moreover have "timers_ok (new_if layer addrs stats)" by (simp add: new_if_def timers_ok_def)
  ultimately show ?thesis
    by (simp add: start_if_def assign_ip4_multicast_def assign_mac_multicast_def Let_def and_then_timers state_change_timers with_res_timers)
qed


section \<open>Samples\<close>

definition sample_sysctl :: igmp_sysctl where
  "sample_sysctl = \<lparr>ig_robustness = 2, ig_force_version = None, ig_query_interval = 125000, ig_max_memberships = 20\<rparr>"

definition sample_group :: ip_address where "sample_group = \<lparr>ia_version = IP4, ia_int = 0xEF010101\<rparr>"
definition sample_source :: ip_address where "sample_source = \<lparr>ia_version = IP4, ia_int = 0x0A000009\<rparr>"

lemma sample_universe: "universe_ok {sample_group} {sample_source}"
  by (simp add: universe_ok_def sources_ok_def sample_group_def sample_source_def ALL_SYSTEMS_def ip4_is_multicast_def ip_masked_def
      ip4_is_unicast_def ip4_is_private_def)

theorem router_learns_the_union_witness:
  "\<exists>st0 st d errs. start_if sample_sysctl 0 0 L2 [] (\<lambda>_. 0) = (None, st0) \<and>
    fold (mc_run_step sample_sysctl)
      [(5, 100, Ev_Set_Filter sample_group 1 \<lparr>mf_mode = INCLUDE, mf_sources = {sample_source}\<rparr>),
       (9, 0, Ev_Packet 0 1 (Some (Rx_Query \<lparr>iq_version = V3, iq_max_response_time = 0, iq_group = sample_group, iq_sources = [sample_source]\<rparr>))),
       (105, 7, Ev_Retransmit)]
      (st0, \<lambda>_ _. None, []) = (st, d, errs) \<and> set errs \<subseteq> {None, Some ValueError} \<and>
    (\<forall>s. filter_allows (router st sample_group) s \<longleftrightarrow> (\<exists>k f. d sample_group k = Some f \<and> filter_allows f s)) \<and>
    (mc_is_joined sample_group st \<longleftrightarrow> (\<exists>k f. d sample_group k = Some f \<and> has_reception f))"
  by (rule router_learns_the_union [OF sample_universe]) (simp_all add: sample_sysctl_def)

definition sample_events :: "(int \<times> int \<times> mc_event) list" where
  "sample_events =
     [(5, 100, Ev_Join sample_group),
      (9, 0, Ev_Packet 900 1 (Some (Rx_Query \<lparr>iq_version = V3, iq_max_response_time = 10, iq_group = sample_group, iq_sources = [sample_source]\<rparr>)))]"


section \<open>Departures\<close>

text \<open>
  A socket filter with a source that is not a unicast address, here 224.0.0.5, is stored before the record of
  the change is refused by an assertion, and from then on every answer to a general query is an assertion error.
\<close>

definition bad_source_if :: "igmp_if act" where
  "bad_source_if = api_set_socket_filter sample_sysctl 5 100 sample_group 1
     \<lparr>mf_mode = INCLUDE, mf_sources = {\<lparr>ia_version = IP4, ia_int = 0xE0000005\<rparr>}\<rparr> (new_if L3 [] (\<lambda>_. 0))"

lemma not_unicast: "\<not> ip4_is_unicast \<lparr>ia_version = IP4, ia_int = 0xE0000005\<rparr>"
  by (simp add: ip4_is_unicast_def ip4_is_global_def ip4_is_private_def ip4_is_link_local_def ip4_is_loopback_def ip4_is_multicast_def ip_masked_def)

lemma bad_source_poisons:
  "fst bad_source_if = Some AssertionError" "mc_is_joined sample_group (snd bad_source_if)"
  "fst (send_igmp_v3_report (snd bad_source_if)) = Some AssertionError"
  by (simp_all add: bad_source_if_def api_set_socket_filter_def enforce_membership_cap_def new_if_def sample_sysctl_def mc_set_socket_filter_def
      membership_of_def new_membership_def put_membership_def mc_recompute_def wanted_def contributors_def merge_filters_def has_reception_def
      assign_ip4_multicast_def assign_mac_multicast_def ip4_multicast_filter_for_def send_igmp_state_change_def state_change_records_def nonmember_def
      mk_group_record_def sorted_sources_def sample_group_def ALL_SYSTEMS_def ip4_is_multicast_def ip_masked_def not_unicast Let_def
      mc_is_joined_def send_igmp_v3_report_def reported_groups_def current_state_record_def any_source_def)

text \<open>A query for the all-systems group is answered, although that group is never to be reported.\<close>

lemma all_systems_reported:
  assumes "igmp_host_compatibility_mode sy now st = V3" "map_of (ig_filters st) ALL_SYSTEMS = Some any_source"
  shows "\<exists>st' src r. igmp_group_query_send_now sy now ALL_SYSTEMS {} st = (None, st') \<and>
    ig_sent st' = ig_sent st @ [(src, ALL_IGMPV3_ROUTERS, Igmp_V3_Report [r])] \<and> gr_group r = ALL_SYSTEMS"
proof -
  have "ALL_SYSTEMS \<in> fst ` set (ig_filters st)" using map_of_SomeD [OF assms(2)] by force
  then show ?thesis
    using assms all_systems_multicast
    by (simp add: igmp_group_query_send_now_def send_igmp_v3_group_current_state_def current_state_record_def mk_group_record_def any_source_def
        sorted_sources_def emit_v3_report_def emit_igmp_def igmp_bump_def record_len_def Let_def)
qed

text \<open>A change of the compatibility mode drops the pending answer but keeps the groups suppressed for it.\<close>

lemma suppression_survives: "ig_suppressed (igmp_cancel_pending_timers st) = ig_suppressed st"
  by (simp add: igmp_cancel_pending_timers_def cancel_state_change_retransmits_def)

end
