(* ===== verification/Spec2Isabelle.thy ===== *)
theory Spec2Isabelle
  imports
    Tcp_Rx Tcp_Machine Tcp_Departures Tcp_Handler
    Link_Delivery Ip4_Delivery Igmp_Host
    Ip_Frag Fib Ip_Network Inet_Cksum
begin

text \<open>
  \<^bold>\<open>PyTCP\<close> is a TCP/IP stack in Python. Three packages under \<^verbatim>\<open>src/packages\<close> make it up:
  \<^verbatim>\<open>pmd_net_addr\<close> (addresses, masks and networks), \<^verbatim>\<open>pmd_net_proto\<close> (wire formats and the
  Internet checksum) and \<^verbatim>\<open>pmd_pytcp\<close> (the stack: TCP sessions, fragmentation, routing,
  path-MTU discovery, sockets, packet handlers, daemon). This development models the parts
  that decide what the stack does with a packet and leaves the plumbing around them out.

  \<^bold>\<open>Conventions.\<close> Python integers are \<open>int\<close>; values the code keeps modulo \<open>2 ^ 32\<close> (TCP
  sequence numbers) are \<open>32 word\<close>, and \<open>Tcp_Seq\<close> shows the two presentations of the
  sequence functions equal. Bytes are \<open>8 word list\<close>. A dictionary is an association list in
  insertion order; an exception is the left side of \<open>res\<close>, an \<open>assert\<close> is \<open>passert\<close>. Values
  the code reads from the clock, from sysctl settings or from floating-point library calls
  are arguments. The token bucket of the ICMP errors and the clock it reads are real numbers where the code
  has floats. Logging and locks have no counterpart.

  \<^bold>\<open>Theories.\<close>
  \<^item> \<open>Prelude\<close>: errors as values, dictionaries, masks, the range checks of
    \<^verbatim>\<open>pmd_net_proto/lib/int_checks.py\<close>, and two interfaces: \<open>inv_machine\<close>, a component whose
    steps keep an invariant (its client lemmas: any run keeps it), and \<open>mono_machine\<close>, whose
    steps also never lower a level. Every stateful component interprets one of them.
  \<^item> \<open>Tcp_Seq\<close>: \<^verbatim>\<open>tcp__seq.py\<close>. The modular comparisons order stream positions (\<open>fwd\<close> is
    the forward distance from a base; the later theories reason with it).
  \<^item> \<open>Ip_Mask\<close>, \<open>Ip_Block\<close>, \<open>Ip_Network\<close>: \<^verbatim>\<open>address.py\<close>, \<^verbatim>\<open>ip_mask.py\<close>, \<^verbatim>\<open>ip_network.py\<close> and
    their IPv4 and IPv6 classes. Networks are sets of addresses: membership, nesting,
    subnets, exclusion and summarisation are exact on those sets, and summarisation is
    minimal.
  \<^item> \<open>Inet_Cksum\<close>: \<^verbatim>\<open>inet_cksum.py\<close> against the RFC 1071 sum of 16-bit words, with the
    inputs on which it departs from it.
  \<^item> \<open>Ip_Frag\<close>: \<^verbatim>\<open>ip_frag.py\<close> and \<^verbatim>\<open>ip_frag_table.py\<close>. Fragmentation and reassembly are
    inverse in any order of arrival (the header is that of the first arrival), the table is bounded and never raises, an overlap
    condemns its flow. The generator's loop is a \<open>partial_function\<close>, shown to end on every
    chunk size up to 65535.
  \<^item> \<open>Fib\<close>: \<^verbatim>\<open>runtime/fib.py\<close>. Lookup is longest-prefix match. It relies on networks through
    the interface \<open>prefix_networks\<close> (disjoint or nested, longer prefix means inside), which
    \<open>Ip_Network\<close>'s definitions interpret.
  \<^item> \<open>Tcp_Rto\<close>: \<^verbatim>\<open>tcp__rto.py\<close>. Bounds of the timeout estimator under any samples and
    timeouts, exponential backoff.
  \<^item> \<open>Tcp_Cc\<close>: \<^verbatim>\<open>tcp__cwnd.py\<close>, \<^verbatim>\<open>tcp__newreno.py\<close>, \<^verbatim>\<open>tcp__cubic.py\<close>. Growth per window, the
    cubic curve, and the interface \<open>loss_response\<close> that the three responses to congestion
    interpret.
  \<^item> \<open>Tcp_Sack\<close>: \<^verbatim>\<open>tcp__sack.py\<close>, \<^verbatim>\<open>tcp__loss_recovery.py\<close> and the scoreboard part of
    \<^verbatim>\<open>TcpSession._ingest_sack_info\<close>. The scoreboard refines a set of sequence numbers through
    the interface \<open>range_store\<close>; NextSeg and Pipe are characterised on that set.
  \<^item> \<open>Tcp_Hystart\<close>: \<^verbatim>\<open>tcp__hystart.py\<close> and the session hooks that drive it.
  \<^item> \<open>Tcp_Rack\<close>: \<^verbatim>\<open>tcp__rack.py\<close>, \<^verbatim>\<open>tcp__state__rack_tlp.py\<close> and the ACK and timer handlers of
    \<^verbatim>\<open>tcp__session__retransmit.py\<close> that compose them. Loss detection is exact, the state
    machine never fails an assertion.
  \<^item> \<open>Tcp_State\<close>: \<^verbatim>\<open>tcp__enums.py\<close> and the dataclasses under \<^verbatim>\<open>protocols/tcp/state\<close> with their
    methods. The snapshots of the congestion state roll back exactly (interface \<open>rollback\<close>),
    the AccECN counters reach the peer, draining the send buffer keeps its bytes in place.
  \<^item> \<open>Tcp_Timers\<close>: \<^verbatim>\<open>tcp__session__timers.py\<close>. The service handle covers every timer of the
    current state.
  \<^item> \<open>Plpmtud\<close>: \<^verbatim>\<open>lib/plpmtud.py\<close>. The path-MTU search engine as a machine over its public
    operations: sizes stay in range, the search ends with the path MTU bracketed or after three
    losses in a row, a raise is validated.
  \<^item> \<open>Tcp_Plpmtud\<close>: \<^verbatim>\<open>tcp__plpmtud_adapter.py\<close>, which feeds the engine from the session's
    sends, acknowledgements and retransmissions. On a path of a given MTU no size above it is
    ever confirmed.
  \<^item> \<open>Tcp_Session\<close>: the state of \<^verbatim>\<open>TcpSession\<close> as one record, \<open>tcp_session\<close>, with its
    constructor, timers, state change, keep-alive, SACK hooks and buffers. What a session does
    to the outside is the list \<open>se_effects\<close>; clock readings, settings and stack-wide tables are
    the fields of \<open>tcp_env\<close>.
  \<^item> \<open>Tcp_Tx\<close>: \<^verbatim>\<open>tcp__session__tx.py\<close>, the outbound engine with its six phases and the pump. Each
    data segment is a slice of the send buffer at its sequence number, a pump sends consecutive
    segments, no assertion fails, challenge ACKs are spaced.
  \<^item> \<open>Tcp_Validate\<close>: \<^verbatim>\<open>tcp__session__validate.py\<close>, the checks on inbound segments. Acceptability
    is a set condition on bytes and window (the empty segment at the right edge apart), timestamps protect against old segments, refusals
    send at most a bare ACK and leave the receive state alone.
  \<^item> \<open>Tcp_Retransmit\<close>, \<open>Tcp_Ack\<close>: \<^verbatim>\<open>tcp__session__retransmit.py\<close> and \<^verbatim>\<open>tcp__session__ack.py\<close>, the
    whole of loss recovery and of acknowledgment processing on the session record, composed of
    the components above.
  \<^item> \<open>Tcp_Fsm\<close>: the handlers of the eleven states under \<^verbatim>\<open>protocols/tcp/fsm\<close>, their dispatch and
    \<^verbatim>\<open>TcpSession.tcp_fsm\<close>, \<^verbatim>\<open>abort\<close> and \<^verbatim>\<open>shutdown\<close>. Its last section evaluates concrete runs.
  \<^item> \<open>Tcp_Frame\<close>: what the operations leave alone, proved once for any view of the session that
    meets the interface \<open>session_view\<close>, or \<open>stateless_view\<close> for views that do not look at the
    connection state.
  \<^item> \<open>Tcp_Rx\<close>: the receive side as a view; whatever arrives in whatever order, what the
    application reads is a prefix of what the peer sent, as long as it has not shut down the reading side.
  \<^item> \<open>Tcp_Machine\<close>: the queue and the connection state as views; nested dispatch ends, the
    state moves along the diagram of RFC 9293 on the events that label its edges (\<open>diagram\<close> has the
    old and the new session and the event), resets close only in place, an abort tears down and wakes every
    blocked caller.
  \<^item> \<open>Tcp_Departures\<close>: runs on which the state machine does not do what it means to.

  \<^item> \<open>Wire\<close>: the byte-level operations of the codecs (\<open>struct\<close>, \<open>int.from_bytes\<close>, indexing,
    slicing), the checksum field of a header (\<open>cksum_completed\<close>) and the interfaces \<open>wire_item\<close> and \<open>option_reader\<close>: items that are read back from
    their encoding, and the loop that reads a list of them.
  \<^item> \<open>Tlv\<close>: the walk over kind-length-value options that TCP and IPv4 have in common, as the interface
    \<open>tlv_options\<close> of a codec whose options fit their length byte; its client lemma says what the
    loop after a successful walk returns. Both option codecs interpret it.
  \<^item> \<open>Tcp_Options\<close>, \<open>Tcp_Codec\<close>: \<^verbatim>\<open>pmd_net_proto/protocols/tcp\<close>, every option class, the option
    list (which interprets \<open>option_reader\<close>), the header, the assembler and the parser. For every
    segment the assembler accepts, the parser's result is determined: the segment itself, a sanity error where
    the header is not sane, an integrity error where the checksum code loses a carry. On arbitrary bytes the
    parser returns a well-typed segment or a validation error, with one exception that is characterised.
  \<^item> \<open>Tcp_Handler\<close>: \<^verbatim>\<open>packet_handler__tcp__tx.py\<close> and \<^verbatim>\<open>packet_handler__tcp__rx.py\<close>, which join the
    session to the codec: a segment a session composes is encodable exactly under conditions on the window
    field, the cookie and the options, and arrives at the peer's session as the metadata that describes it
    unless the parser drops it; a frame goes to its session, else to the first listener that admits it, and
    segments without a socket are answered with a reset.

  \<^item> \<open>Addresses\<close>: the classes of IPv4 and link-layer addresses (\<^verbatim>\<open>mac_address.py\<close>,
    \<^verbatim>\<open>ip4_address.py\<close>) and the multicast mappings.
  \<^item> \<open>Link_Codec\<close>: \<^verbatim>\<open>pmd_net_proto/protocols/ethernet\<close> and \<^verbatim>\<open>arp\<close>. The ARP parser accepts
    exactly what the assembler writes for a sane header.
  \<^item> \<open>Neighbor\<close>: \<^verbatim>\<open>lib/neighbor.py\<close>, the neighbour unreachability detection that both caches share,
    over the interface \<open>solicit_hook\<close> of its callbacks (and \<open>inert_hook\<close>, for a callback that does
    not touch the cache, which gives the first). Its states move along the diagram \<open>nud_edge\<close>, entries
    stay well formed, queues and cache stay bounded, a resolution without an answer ends with the entry failed
    or collected.
  \<^item> \<open>Link_Layer\<close>: \<^verbatim>\<open>packet_handler__ethernet__tx.py\<close>, the ARP handlers and \<^verbatim>\<open>arp__cache.py\<close> on the
    state of one interface, with its routing table, ARP cache and transmit queue.
  \<^item> \<open>Link_Delivery\<close>: the composition of the four. Packets for an unresolved neighbour wait and
    leave in order once it answers; every IPv4 packet has one of the fates the code names;
    only sane ARP packets for this host change the cache.

  \<^item> \<open>Ip4_Options\<close>, \<open>Ip4_Codec\<close>: \<^verbatim>\<open>pmd_net_proto/protocols/ip4\<close> and \<^verbatim>\<open>raw\<close>, every option class, the
    option list, the header, the assemblers for datagrams and fragments and the parser. What is
    assembled is parsed back where its header is sane and its checksum exact, and refused with the error the
    code names otherwise; on arbitrary bytes the parser returns a well-typed packet or a validation
    error, with two exceptions that are characterised. The payload of a datagram is an \<open>ip4_payload\<close>:
    its class, its length and the functions that serialise it under a pseudo-header sum.
  \<^item> \<open>Icmp_Errors\<close>: \<^verbatim>\<open>icmp__error_emitter.py\<close> and \<^verbatim>\<open>icmp__inbound_classifier.py\<close>. The token bucket never
    grants more than its burst plus the rate times the time of any interval.
  \<^item> \<open>Ip4_Handler\<close>: \<^verbatim>\<open>packet_handler__ip4__tx.py\<close> and \<^verbatim>\<open>packet_handler__ip4__rx.py\<close> with
    \<^verbatim>\<open>ip4__source_selection.py\<close> on the state \<open>ip4_if\<close> of an interface, which contains the state of
    \<open>Link_Layer\<close> and the table of \<open>Ip_Frag\<close>. Whatever the sender puts on the ring or on the link
    has a permitted source and destination and fits the interface; the source chosen is a best one
    under rules 1, 2 and 8 of RFC 6724; the receiver hands on only what it admits and answers
    only where an answer is allowed. The ICMP error, the raw socket and the protocol handler that
    receive the result are values of \<open>ip4_rx\<close>; the socket table is an argument.
  \<^item> \<open>Ip4_Delivery\<close>: sender, codec, reassembly and receiver together. A datagram that is cut arrives
    whole whatever the order of its fragments, with the options of the fragment that came first.
  \<^item> \<open>Ip4_Multicast\<close>: \<^verbatim>\<open>lib/ip4_multicast_filter.py\<close>, the multicast part of
    \<^verbatim>\<open>runtime/packet_handler/__init__.py\<close>, \<^verbatim>\<open>stack/membership.py\<close>, \<^verbatim>\<open>packet_handler__igmp__tx.py\<close> and
    \<^verbatim>\<open>packet_handler__igmp__rx.py\<close> on the state \<open>igmp_if\<close> of an interface; an operation returns its
    exception together with the state it leaves. The messages are those handed to the IPv4 sender.
  \<^item> \<open>Igmp_Host\<close>: what a router learns from the reports, over the interface \<open>change_reports\<close> of reports
    of differences, which the records of RFC 3376 interpret. In any run the router has exactly the
    union of what the operator and the sockets asked for, and every query is answered at once or a timer is
    armed whose response covers it in time.

  \<^bold>\<open>Bounds and termination.\<close> Loops are structural recursion over lists or a loop count of the
  source (\<open>pump_loop\<close>), recursion with a termination measure (\<open>summarize_ints\<close>, \<open>range_up\<close>, \<open>bit_length\<close>, \<open>options_loop\<close>, \<open>options_walk\<close>,
  \<open>ip4_options_loop\<close>, \<open>cipso_walk\<close>, \<open>cipso_tags\<close>)
  or partial functions with a proof that they return (\<open>chunk_loop\<close>, \<open>exclude_loop\<close>). The one
  definition with fuel is \<open>fsm_packet\<close>, the dispatch of queued segments from inside the dispatch
  of another: \<open>tcp_fsm\<close> gives it one more than the length of the queue, and \<open>Tcp_Machine\<close> shows
  that the result is then the unique solution of the recursive equation of the code. Statements
  on sequence numbers require the send window to be less than half the sequence space, as the
  code does.

  \<^bold>\<open>Departures found.\<close> The theories end with lemmas on inputs where the code does not do what
  its comments, its documents or the RFC it cites say: the missing fold and the zero carry of
  the checksum, the SACK gate that admits blocks outside the window, the RACK deadline
  without the round-trip time, the zero round-trip sample, the classical PMTU report that
  raises the working MTU, the candidate above the limit, the search that gives up a confirmed
  size, the fragment size that loops, the empty fragment that replaces a stored one, the first fragment
  whose header is lost when another overtakes it, the empty segment accepted at the right edge of the
  window, the state
  that survives the reuse of a session, and the runs of \<open>Tcp_Departures\<close>: the queued segment
  that is refused by its timestamp and the mark counted twice, the connections that close
  without a FIN, the refused FIN taken as received, the closed session that returns to
  FIN-WAIT-1, the recovery with an empty window and the reset dropped for want of a timestamp.
  \<open>Tcp_Codec\<close> adds the option kind that ends the frame and the hidden end-of-list, \<open>Tcp_Handler\<close> the
  windows above 65535 without scaling, the acknowledgments and handshakes whose options do not fit and the reset past the end of the
  sequence space. \<open>Neighbor\<close> adds the last solicitation, which is not awaited,
  \<open>Ip4_Codec\<close> the option cut off by the end of the header and the raw checksum that is skipped, \<open>Ip4_Handler\<close>
  the peer of a /31 link that is taken for a broadcast address, the error in answer to a directed
  broadcast and the reassembled datagram that is too long to be encoded, \<open>Igmp_Host\<close> the source that is no
  unicast address, the report of the all-systems group and the suppression that outlives its query.

  \<^bold>\<open>Not modelled.\<close> The codecs of IPv6, UDP, ICMP and IGMP and the handlers of these protocols (the IPv4
  handlers take a payload as an argument and return the datagram for a handler as a value; the IGMP handlers
  take the parsed message), the socket options that set the source filters, text forms of addresses, the IPv6
  neighbor cache's solicitation (an argument \<open>nd_solicit\<close> of the Ethernet sender) and the UDP PLPMTUD adapter. The blocking wrappers of the session
  (\<^verbatim>\<open>listen\<close>, \<^verbatim>\<open>connect\<close>, \<^verbatim>\<open>close\<close>), the other packet handlers, rings, timers, sockets, DHCP clients, the
  control plane, daemon and client library are threads and I/O around them.
\<close>

end
